(* ===== verification/Prelude.thy ===== *)
theory Prelude
  imports Complex_Main
begin

section \<open>Prelude: shared collections, types and lemmas\<close>

text \<open>
  What every component of the development shares: the collections of simplification rules the
  component proofs draw on, the types that model errors and time, generic facts about lists
  and folds, and the interface of a table of permitted status transitions, which the payment,
  confirmation and refund components interpret.
\<close>

named_theorems num_simps \<open>rules that evaluate JavaScript numbers\<close>
named_theorems str_simps \<open>rules that evaluate JavaScript strings\<close>
named_theorems table_simps \<open>rules that evaluate status tables\<close>

text \<open>
  Time is counted in milliseconds since the epoch, as \<^verbatim>\<open>Date.now()\<close> does; a timestamp field
  that starts as \<^verbatim>\<open>null\<close> is an option.
\<close>

type_synonym millis = int

text \<open>A result: \<open>Inl\<close> is what the code throws, \<open>Inr\<close> what it returns.\<close>

type_synonym ('e, 'a) result = "'e + 'a"

subsection \<open>Folds that keep or raise a measure\<close>

lemma foldl_invariant:
  assumes "P s" and "\<And>s x. P s \<Longrightarrow> x \<in> set xs \<Longrightarrow> P (f s x)"
  shows "P (foldl f s xs)"
  using assms by (induction xs arbitrary: s) auto

lemma foldl_mono_measure:
  fixes m :: "'s \<Rightarrow> 'n::preorder"
  assumes "\<And>s x. m s \<le> m (f s x)"
  shows "m s \<le> m (foldl f s xs)"
proof (induction xs arbitrary: s)
  case Nil
  show ?case by simp
next
  case (Cons x xs)
  have "m s \<le> m (f s x)" by (rule assms)
  also have "\<dots> \<le> m (foldl f (f s x) xs)" by (rule Cons.IH)
  finally show ?case by simp
qed

lemma foldl_stuck:
  assumes "\<And>x. x \<in> set xs \<Longrightarrow> f s x = s"
  shows "foldl f s xs = s"
  using assms by (induction xs) auto

subsection \<open>Lists\<close>

lemma find_append:
  "find P (xs @ ys) = (case find P xs of None \<Rightarrow> find P ys | Some x \<Rightarrow> Some x)"
  by (induction xs) auto

lemma find_None_filter: "find P xs = None \<longleftrightarrow> filter P xs = []"
  by (induction xs) auto

lemma find_Some_D: "find P xs = Some x \<Longrightarrow> x \<in> set xs \<and> P x"
  by (induction xs) (auto split: if_splits)

text \<open>The effect of \<^verbatim>\<open>findOneAndUpdate\<close> on a list of documents: the first that matches is changed.\<close>

fun update_first :: "('a \<Rightarrow> bool) \<Rightarrow> ('a \<Rightarrow> 'a) \<Rightarrow> 'a list \<Rightarrow> 'a list" where
  "update_first P f [] = []"
| "update_first P f (x # xs) = (if P x then f x # xs else x # update_first P f xs)"

lemma find_update_first:
  "(\<And>x. P x \<Longrightarrow> P (f x)) \<Longrightarrow> find P (update_first P f xs) = map_option f (find P xs)"
  by (induction xs) auto

lemma find_update_first_other:
  "(\<And>x. P x \<Longrightarrow> \<not> Q x \<and> \<not> Q (f x)) \<Longrightarrow> find Q (update_first P f xs) = find Q xs"
  by (induction xs) auto

lemma distinct_key_other: "distinct (map key (x # xs)) \<Longrightarrow> y \<in> set xs \<Longrightarrow> key y \<noteq> key x"
  by (metis distinct.simps(2) image_eqI list.set_map list.simps(9))

lemma takeWhile_dropWhile_all:
  "(\<And>x. x \<in> set xs \<Longrightarrow> P x) \<Longrightarrow> takeWhile P xs = xs \<and> dropWhile P xs = []"
  by (induction xs) auto

subsection \<open>Tables of permitted transitions\<close>

text \<open>
  The repository keeps its lifecycles as objects that map a status to the array of statuses
  that may follow it. The interface: the table, and what a client asks of it. A status with an
  empty array is terminal. A run is a sequence of statuses in which each is permitted after the
  one before.
\<close>

locale status_table =
  fixes table :: "'s \<Rightarrow> 's list"
begin

fun run :: "'s \<Rightarrow> 's list \<Rightarrow> bool" where
  "run s [] = True"
| "run s (t # ts) = (t \<in> set (table s) \<and> run t ts)"

lemma run_append: "run s (ts @ us) \<longleftrightarrow> run s ts \<and> run (last (s # ts)) us"
  by (induction ts arbitrary: s) auto

lemma run_terminal: "table s = [] \<Longrightarrow> run s ts \<Longrightarrow> ts = []"
  by (cases ts) auto

end

text \<open>
  A table with a rank that every permitted transition raises has no cycle, so a lifecycle
  makes at most as many transitions as the ranks leave room for.
\<close>

locale ranked_table = status_table table for table :: "'s \<Rightarrow> 's list" +
  fixes rank :: "'s \<Rightarrow> nat" and top :: nat
  assumes rank_step: "t \<in> set (table s) \<Longrightarrow> rank s < rank t"
    and rank_top: "rank s \<le> top"
begin

lemma run_rank: "run s ts \<Longrightarrow> rank s + length ts \<le> rank (last (s # ts))"
proof (induction ts arbitrary: s)
  case Nil
  then show ?case by simp
next
  case (Cons t ts)
  then have "t \<in> set (table s)" and "run t ts" by auto
  from rank_step [OF this(1)] Cons.IH [OF this(2)] show ?case by simp
qed

lemma run_bounded: "run s ts \<Longrightarrow> length ts \<le> top - rank s"
  using run_rank [of s ts] rank_top [of "last (s # ts)"] by linarith

lemma run_never_returns: "run s ts \<Longrightarrow> s \<notin> set ts"
proof
  assume run: "run s ts" and "s \<in> set ts"
  then obtain us vs where "ts = us @ s # vs" by (auto simp: in_set_conv_decomp)
  then have ts: "ts = (us @ [s]) @ vs" by simp
  from run have "run s (us @ [s])" unfolding ts run_append by simp
  then have "rank s + length (us @ [s]) \<le> rank s" using run_rank by fastforce
  then show False by simp
qed

end

subsection \<open>Refinement of an abstract component\<close>

text \<open>
  A component takes requests one after another, each with a reply. It refines another one when an
  abstraction of its state commutes with every permitted request and the replies are the same; then
  a client that sees only the replies cannot tell them apart.
\<close>

fun trace :: "('x \<Rightarrow> 's \<Rightarrow> 's \<times> 'r) \<Rightarrow> 'x list \<Rightarrow> 's \<Rightarrow> 's \<times> 'r list" where
  "trace step [] s = (s, [])"
| "trace step (x # xs) s =
     (let (s', r) = step x s; (s'', rs) = trace step xs s' in (s'', r # rs))"

lemma trace_invariant:
  assumes "P s" and "\<And>x s. P s \<Longrightarrow> x \<in> set xs \<Longrightarrow> P (fst (step x s))"
  shows "P (fst (trace step xs s))"
  using assms
proof (induction xs arbitrary: s)
  case (Cons x xs)
  then have "P (fst (step x s))" by simp
  with Cons.prems(2) have "P (fst (trace step xs (fst (step x s))))" by (intro Cons.IH) auto
  then show ?case by (simp add: case_prod_beta Let_def)
qed simp

locale refinement =
  fixes cstep :: "'x \<Rightarrow> 'c \<Rightarrow> 'c \<times> 'r"
    and astep :: "'x \<Rightarrow> 'a \<Rightarrow> 'a \<times> 'r"
    and abst :: "'c \<Rightarrow> 'a"
    and inv :: "'c \<Rightarrow> bool"
    and ok :: "'x \<Rightarrow> bool"
  assumes inv_step: "inv c \<Longrightarrow> ok x \<Longrightarrow> inv (fst (cstep x c))"
    and sim_step: "inv c \<Longrightarrow> ok x \<Longrightarrow> astep x (abst c) = (abst (fst (cstep x c)), snd (cstep x c))"
begin

lemma trace_refines:
  assumes "inv c" and "list_all ok xs"
  shows "inv (fst (trace cstep xs c))
    \<and> trace astep xs (abst c) = (abst (fst (trace cstep xs c)), snd (trace cstep xs c))"
  using assms
proof (induction xs arbitrary: c)
  case (Cons x xs)
  then have "inv (fst (cstep x c))" "list_all ok xs" by (auto intro: inv_step)
  from Cons.IH [OF this] sim_step [of c x] Cons.prems show ?case
    by (simp add: case_prod_beta Let_def)
qed simp

end

text \<open>
  A component that serves several keys, such as schools, keeps them apart when a request changes nothing
  in the view of another key and its effect and its reply depend on its own key's view only.
  Then what the owner of a key sees of any sequence of requests is what it would see if the requests
  of the others were left out.
\<close>

locale isolated =
  fixes step :: "'x \<Rightarrow> 's \<Rightarrow> 's \<times> 'r"
    and key :: "'x \<Rightarrow> 'k"
    and view :: "'s \<Rightarrow> 'k \<Rightarrow> 'v"
    and inv :: "'s \<Rightarrow> bool"
    and ok :: "'x \<Rightarrow> bool"
  assumes inv_step: "inv s \<Longrightarrow> ok x \<Longrightarrow> inv (fst (step x s))"
    and other_key: "inv s \<Longrightarrow> ok x \<Longrightarrow> key x \<noteq> k \<Longrightarrow> view (fst (step x s)) k = view s k"
    and own_key: "inv s \<Longrightarrow> inv s' \<Longrightarrow> ok x \<Longrightarrow> view s (key x) = view s' (key x)
      \<Longrightarrow> view (fst (step x s)) (key x) = view (fst (step x s')) (key x) \<and> snd (step x s) = snd (step x s')"
begin

lemma trace_isolated:
  "view s k = view s' k \<Longrightarrow> inv s \<Longrightarrow> inv s' \<Longrightarrow> list_all ok xs \<Longrightarrow>
     view (fst (trace step xs s)) k = view (fst (trace step (filter (\<lambda>x. key x = k) xs) s')) k
   \<and> map snd (filter (\<lambda>(x, r). key x = k) (zip xs (snd (trace step xs s)))) = snd (trace step (filter (\<lambda>x. key x = k) xs) s')"
proof (induction xs arbitrary: s s')
  case (Cons x xs)
  have inv: "inv (fst (step x s))" "inv (fst (step x s'))" using Cons.prems inv_step by auto
  show ?case
  proof (cases "key x = k")
    case True
    then have "view (fst (step x s)) k = view (fst (step x s')) k" "snd (step x s) = snd (step x s')"
      using Cons.prems own_key [of s s' x] by auto
    with True Cons.IH [of "fst (step x s)" "fst (step x s')"] inv Cons.prems(4) show ?thesis
      by (simp add: case_prod_beta Let_def)
  next
    case False
    then have "view (fst (step x s)) k = view s' k" using other_key Cons.prems by simp
    with False Cons.IH [of "fst (step x s)" s'] inv Cons.prems show ?thesis by (simp add: case_prod_beta Let_def)
  qed
qed simp

end

end
