(* ===== verification/JS_Number.thy ===== *)
theory JS_Number
  imports Prelude
begin

section \<open>JavaScript numbers\<close>

text \<open>
  The Number type of the language: IEEE-754 binary64. A finite number is the rational it
  denotes; the two zeros are identified, because no modelled operation tells them apart. Every
  arithmetic operation is the exact rational operation followed by rounding to the nearest
  representable number, ties to even, with overflow to an infinity.
\<close>

datatype jsnum = Fin rat | PInf | NInf | NaN

subsection \<open>Powers of two and the binary exponent\<close>

definition pow2 :: "int \<Rightarrow> rat" where
  "pow2 e = (if 0 \<le> e then 2 ^ nat e else 1 / 2 ^ nat (- e))"

fun bit_length :: "nat \<Rightarrow> nat" where
  "bit_length n = (if n = 0 then 0 else Suc (bit_length (n div 2)))"

declare bit_length.simps [simp del]

text \<open>The greatest \<open>e\<close> with \<open>2^e \<le> x\<close>, for a positive \<open>x\<close>.\<close>

definition ilog2 :: "rat \<Rightarrow> int" where
  "ilog2 x = (case quotient_of x of (p, q) \<Rightarrow>
     let e = int (bit_length (nat p)) - int (bit_length (nat q))
     in if pow2 e \<le> x then e else e - 1)"

subsection \<open>Rounding\<close>

definition round_half_even :: "rat \<Rightarrow> int" where
  "round_half_even y =
     (let f = \<lfloor>y\<rfloor>; d = y - of_int f
      in if d < 1 / 2 then f else if 1 / 2 < d then f + 1 else if even f then f else f + 1)"

definition ulp_exp :: "rat \<Rightarrow> int" where
  "ulp_exp x = max (ilog2 \<bar>x\<bar> - 52) (- 1074)"

definition round64 :: "rat \<Rightarrow> rat" where
  "round64 x =
     (if x = 0 then 0
      else of_int (round_half_even (x / pow2 (ulp_exp x))) * pow2 (ulp_exp x))"

definition to_num :: "rat \<Rightarrow> jsnum" where
  "to_num x =
     (let r = round64 x
      in if 2 ^ 1024 \<le> r then PInf else if r \<le> - (2 ^ 1024) then NInf else Fin r)"

subsection \<open>The operations the sources use\<close>

fun jneg :: "jsnum \<Rightarrow> jsnum" where
  "jneg (Fin a) = Fin (- a)"
| "jneg PInf = NInf"
| "jneg NInf = PInf"
| "jneg NaN = NaN"

fun jadd :: "jsnum \<Rightarrow> jsnum \<Rightarrow> jsnum" where
  "jadd (Fin a) (Fin b) = to_num (a + b)"
| "jadd NaN _ = NaN"
| "jadd _ NaN = NaN"
| "jadd PInf NInf = NaN"
| "jadd NInf PInf = NaN"
| "jadd PInf _ = PInf"
| "jadd _ PInf = PInf"
| "jadd NInf _ = NInf"
| "jadd _ NInf = NInf"

definition jsub :: "jsnum \<Rightarrow> jsnum \<Rightarrow> jsnum" where
  "jsub a b = jadd a (jneg b)"

definition jinf :: "bool \<Rightarrow> jsnum" where
  "jinf pos = (if pos then PInf else NInf)"

fun jmul :: "jsnum \<Rightarrow> jsnum \<Rightarrow> jsnum" where
  "jmul (Fin a) (Fin b) = to_num (a * b)"
| "jmul NaN _ = NaN"
| "jmul _ NaN = NaN"
| "jmul (Fin a) PInf = (if a = 0 then NaN else jinf (0 < a))"
| "jmul (Fin a) NInf = (if a = 0 then NaN else jinf (a < 0))"
| "jmul PInf (Fin a) = (if a = 0 then NaN else jinf (0 < a))"
| "jmul NInf (Fin a) = (if a = 0 then NaN else jinf (a < 0))"
| "jmul PInf PInf = PInf"
| "jmul PInf NInf = NInf"
| "jmul NInf PInf = NInf"
| "jmul NInf NInf = PInf"

text \<open>Division; a zero divisor counts as the positive zero.\<close>

fun jdiv :: "jsnum \<Rightarrow> jsnum \<Rightarrow> jsnum" where
  "jdiv (Fin a) (Fin b) = (if b \<noteq> 0 then to_num (a / b) else if a = 0 then NaN else jinf (0 < a))"
| "jdiv NaN _ = NaN"
| "jdiv _ NaN = NaN"
| "jdiv (Fin a) PInf = Fin 0"
| "jdiv (Fin a) NInf = Fin 0"
| "jdiv PInf (Fin a) = jinf (0 \<le> a)"
| "jdiv NInf (Fin a) = jinf (a < 0)"
| "jdiv _ _ = NaN"

fun jfloor :: "jsnum \<Rightarrow> jsnum" where
  "jfloor (Fin a) = Fin (of_int \<lfloor>a\<rfloor>)"
| "jfloor x = x"

text \<open>Comparisons with \<open>NaN\<close> are false.\<close>

fun jless :: "jsnum \<Rightarrow> jsnum \<Rightarrow> bool" where
  "jless (Fin a) (Fin b) = (a < b)"
| "jless NaN _ = False"
| "jless _ NaN = False"
| "jless PInf _ = False"
| "jless _ NInf = False"
| "jless _ _ = True"

definition jleq :: "jsnum \<Rightarrow> jsnum \<Rightarrow> bool" where
  "jleq a b = (jless a b \<or> (a = b \<and> a \<noteq> NaN))"

definition jmax :: "jsnum \<Rightarrow> jsnum \<Rightarrow> jsnum" where
  "jmax a b = (if a = NaN \<or> b = NaN then NaN else if jless a b then b else a)"

definition jmin :: "jsnum \<Rightarrow> jsnum \<Rightarrow> jsnum" where
  "jmin a b = (if a = NaN \<or> b = NaN then NaN else if jless b a then b else a)"

fun is_finite :: "jsnum \<Rightarrow> bool" where
  "is_finite (Fin _) = True"
| "is_finite _ = False"

text \<open>A number is falsy when it is zero or \<open>NaN\<close>.\<close>

fun truthy_num :: "jsnum \<Rightarrow> bool" where
  "truthy_num (Fin a) = (a \<noteq> 0)"
| "truthy_num NaN = False"
| "truthy_num _ = True"

definition max_safe_integer :: int where
  "max_safe_integer = 2 ^ 53 - 1"


subsection \<open>Facts about rounding\<close>

lemma pow2_pos [simp]: "0 < pow2 e"
  by (simp add: pow2_def)

lemma pow2_nonzero [simp]: "pow2 e \<noteq> 0"
  using pow2_pos [of e] by linarith

lemma pow2_abs [simp]: "\<bar>pow2 e\<bar> = pow2 e"
  using pow2_pos [of e] by linarith

lemma pow2_nonneg [simp]: "0 \<le> pow2 e"
  using pow2_pos [of e] by linarith

lemma pow2_0 [simp]: "pow2 0 = 1"
  by (simp add: pow2_def)

lemma pow2_Suc: "pow2 (e + 1) = 2 * pow2 e"
proof (cases "0 \<le> e")
  case True
  then show ?thesis by (simp add: pow2_def nat_add_distrib)
next
  case False
  then have "nat (- e) = Suc (nat (- e - 1))" by simp
  with False show ?thesis
    by (cases "e = -1") (simp_all add: pow2_def)
qed

lemma pow2_add: "pow2 (a + b) = pow2 a * pow2 b"
proof -
  have up: "pow2 (c + int n) = pow2 c * 2 ^ n" for c n
  proof (induction n)
    case (Suc n)
    have "pow2 (c + int (Suc n)) = pow2 ((c + int n) + 1)" by (simp add: ac_simps)
    also have "\<dots> = 2 * (pow2 c * 2 ^ n)" by (simp only: pow2_Suc Suc)
    finally show ?case by simp
  qed simp
  have n: "pow2 (int n) = 2 ^ n" for n by (simp add: pow2_def)
  have inv: "pow2 (- int n) * 2 ^ n = 1" for n using up [of "- int n" n] by simp
  show ?thesis
  proof (cases "0 \<le> b")
    case True
    then obtain n where "b = int n" by (metis nonneg_int_cases)
    then show ?thesis by (simp add: up n)
  next
    case False
    then obtain m where b: "b = - int m" by (metis int_cases2 of_nat_0_le_iff)
    have "pow2 (a + b) * 2 ^ m = pow2 a" using up [of "a + b" m] b by simp
    moreover have "pow2 a * pow2 b * 2 ^ m = pow2 a" using inv [of m] b by simp
    ultimately show ?thesis
      by (metis mult_right_cancel power_not_zero zero_neq_numeral)
  qed
qed

lemma pow2_mono: "a \<le> b \<Longrightarrow> pow2 a \<le> pow2 b"
proof -
  assume "a \<le> b"
  then obtain n where b: "b = a + int n" by (metis zle_iff_zadd)
  have "pow2 b = pow2 a * 2 ^ n" by (simp add: b pow2_add) (simp add: pow2_def)
  then show ?thesis by simp
qed

lemma bit_length_bounds: "0 < n \<Longrightarrow> 2 ^ (bit_length n - 1) \<le> n \<and> n < 2 ^ bit_length n \<and> 0 < bit_length n"
proof (induction n rule: bit_length.induct)
  case (1 n)
  show ?case
  proof (cases "n div 2 = 0")
    case True
    with "1.prems" have "n = 1" by simp
    then show ?thesis by (simp add: bit_length.simps)
  next
    case False
    with "1" have IH: "2 ^ (bit_length (n div 2) - 1) \<le> n div 2" "n div 2 < 2 ^ bit_length (n div 2)"
      "0 < bit_length (n div 2)" by auto
    have eq: "bit_length n = Suc (bit_length (n div 2))" using "1.prems" by (simp add: bit_length.simps)
    obtain m where m: "bit_length (n div 2) = Suc m" using IH(3) by (metis Suc_pred')
    from IH(1,2) have "2 ^ m \<le> n div 2" "n div 2 < 2 * 2 ^ m" by (simp_all add: m)
    then have "2 * 2 ^ m \<le> n" "n < 2 * (2 * 2 ^ m)" by linarith+
    then show ?thesis by (simp add: eq m)
  qed
qed

lemma pow2_int: "pow2 (int n) = of_nat (2 ^ n)"
  by (simp add: pow2_def)

lemma ilog2_bounds:
  assumes "0 < x"
  shows "pow2 (ilog2 x) \<le> x" and "x < pow2 (ilog2 x + 1)"
proof -
  obtain p q where pq: "quotient_of x = (p, q)" by (cases "quotient_of x")
  have q: "0 < q" using pq by (rule quotient_of_denom_pos)
  have x: "x = of_int p / of_int q" using pq by (rule quotient_of_div)
  with assms q have p: "0 < p" by (simp add: zero_less_divide_iff)
  define a b where "a = bit_length (nat p)" and "b = bit_length (nat q)"
  have P: "2 ^ (a - 1) \<le> nat p" "nat p < 2 ^ a" "0 < a"
    using bit_length_bounds [of "nat p"] p by (auto simp: a_def)
  have Q: "2 ^ (b - 1) \<le> nat q" "nat q < 2 ^ b" "0 < b"
    using bit_length_bounds [of "nat q"] q by (auto simp: b_def)
  have P': "pow2 (int a - 1) \<le> of_int p" "of_int p < pow2 (int a)"
  proof -
    have "(of_nat (2 ^ (a - 1)) :: rat) \<le> of_nat (nat p)" using P(1) by (simp only: of_nat_le_iff)
    then show "pow2 (int a - 1) \<le> of_int p" using P(3) p pow2_int [of "a - 1"] by (simp add: of_nat_diff)
    have "(of_nat (nat p) :: rat) < of_nat (2 ^ a)" using P(2) by (simp only: of_nat_less_iff)
    then show "of_int p < pow2 (int a)" using p pow2_int [of a] by simp
  qed
  have Q': "pow2 (int b - 1) \<le> of_int q" "of_int q < pow2 (int b)"
  proof -
    have "(of_nat (2 ^ (b - 1)) :: rat) \<le> of_nat (nat q)" using Q(1) by (simp only: of_nat_le_iff)
    then show "pow2 (int b - 1) \<le> of_int q" using Q(3) q pow2_int [of "b - 1"] by (simp add: of_nat_diff)
    have "(of_nat (nat q) :: rat) < of_nat (2 ^ b)" using Q(2) by (simp only: of_nat_less_iff)
    then show "of_int q < pow2 (int b)" using q pow2_int [of b] by simp
  qed
  define e where "e = int a - int b"
  have lo: "pow2 (e - 1) \<le> x"
  proof -
    have "pow2 (e - 1) * of_int q \<le> pow2 (e - 1) * pow2 (int b)"
      using Q'(2) by (intro mult_left_mono) (auto intro: less_imp_le)
    also have "\<dots> = pow2 (int a - 1)" by (simp add: e_def pow2_add [symmetric])
    also have "\<dots> \<le> of_int p" by (rule P'(1))
    finally show ?thesis using q by (simp add: x pos_le_divide_eq)
  qed
  have hi: "x < pow2 (e + 1)"
  proof -
    have "of_int p < pow2 (int a)" by (rule P'(2))
    also have "\<dots> = pow2 (e + 1) * pow2 (int b - 1)" by (simp add: e_def pow2_add [symmetric])
    also have "\<dots> \<le> pow2 (e + 1) * of_int q" using Q'(1) by (intro mult_left_mono) (auto intro: less_imp_le)
    finally show ?thesis using q by (simp add: x pos_divide_less_eq)
  qed
  have il: "ilog2 x = (if pow2 e \<le> x then e else e - 1)"
    by (simp add: ilog2_def pq e_def a_def b_def Let_def)
  show "pow2 (ilog2 x) \<le> x" using lo by (simp add: il)
  show "x < pow2 (ilog2 x + 1)" using hi by (simp add: il not_le)
qed

lemma round_half_even_error: "\<bar>of_int (round_half_even y) - y\<bar> \<le> 1 / 2"
proof -
  have "of_int \<lfloor>y\<rfloor> \<le> y" "y < of_int \<lfloor>y\<rfloor> + 1" by linarith+
  then show ?thesis unfolding round_half_even_def Let_def abs_if
    by (simp split: if_splits) linarith?
qed

lemma round_half_even_int [simp]: "round_half_even (of_int n) = n"
  by (simp add: round_half_even_def)

lemma round_half_even_near: "\<bar>y - of_int n\<bar> < 1 / 2 \<Longrightarrow> round_half_even y = n"
proof -
  assume "\<bar>y - of_int n\<bar> < 1 / 2"
  moreover have "\<bar>of_int (round_half_even y) - y\<bar> \<le> 1 / 2" by (rule round_half_even_error)
  ultimately have "\<bar>of_int (round_half_even y - n)\<bar> < (1 :: rat)"
    unfolding of_int_diff by linarith
  then have "of_int \<bar>round_half_even y - n\<bar> < (of_int 1 :: rat)" by simp
  then show ?thesis unfolding of_int_less_iff by simp
qed

lemma round_half_even_nonneg: "0 \<le> y \<Longrightarrow> 0 \<le> round_half_even y"
  by (simp add: round_half_even_def Let_def)

lemma round64_0 [simp]: "round64 0 = 0"
  by (simp add: round64_def)

lemma round64_error: "\<bar>round64 x - x\<bar> \<le> pow2 (ulp_exp x) / 2"
proof (cases "x = 0")
  case True
  then show ?thesis by (simp add: less_imp_le)
next
  case False
  let ?u = "pow2 (ulp_exp x)" and ?r = "of_int (round_half_even (x / pow2 (ulp_exp x))) :: rat"
  have u: "0 < ?u" by simp
  have "round64 x - x = (?r - x / ?u) * ?u"
    using False u by (simp add: round64_def algebra_simps)
  then have "\<bar>round64 x - x\<bar> = \<bar>?r - x / ?u\<bar> * ?u"
    using u by (simp add: abs_mult)
  also have "\<dots> \<le> 1 / 2 * ?u"
    using u by (intro mult_right_mono round_half_even_error) simp_all
  finally show ?thesis by simp
qed

lemma round64_nonneg: "0 \<le> x \<Longrightarrow> 0 \<le> round64 x"
  by (simp add: round64_def round_half_even_nonneg less_imp_le)

lemma ulp_exp_le:
  assumes "0 < \<bar>x\<bar>" and "\<bar>x\<bar> < pow2 k" and "- 1021 \<le> k"
  shows "ulp_exp x \<le> k - 53"
proof -
  have "pow2 (ilog2 \<bar>x\<bar>) < pow2 k" using ilog2_bounds(1) [OF assms(1)] assms(2) by linarith
  then have "ilog2 \<bar>x\<bar> < k" using pow2_mono by (meson not_le)
  then show ?thesis using assms(3) by (simp add: ulp_exp_def)
qed

lemma round64_int:
  assumes "\<bar>n\<bar> \<le> 2 ^ 53"
  shows "round64 (of_int n) = of_int n"
proof (cases "n = 0")
  case True
  then show ?thesis by simp
next
  case False
  let ?x = "of_int n :: rat"
  have k: "ulp_exp ?x \<le> 1"
  proof (rule ulp_exp_le [of ?x 54, simplified])
    show "n \<noteq> 0" by (rule False)
    have "of_int \<bar>n\<bar> \<le> (of_int (2 ^ 53) :: rat)" using assms by (simp only: of_int_le_iff)
    then show "\<bar>?x\<bar> < pow2 54" by (simp add: pow2_def)
  qed
  show ?thesis
  proof (cases "ulp_exp ?x \<le> 0")
    case True
    then obtain m where m: "ulp_exp ?x = - int m" by (metis neg_le_0_iff_le nonneg_int_cases minus_minus)
    have inv: "pow2 (- int m) = 1 / 2 ^ m" by (simp add: pow2_def)
    have "?x / pow2 (ulp_exp ?x) = of_int (n * 2 ^ m)" by (simp add: m inv)
    then have "round_half_even (?x / pow2 (ulp_exp ?x)) = n * 2 ^ m"
      by (simp only: round_half_even_int)
    then show ?thesis using False by (simp add: round64_def m inv)
  next
    case False': False
    with k have e: "ulp_exp ?x = 1" by simp
    then have "53 \<le> ilog2 \<bar>?x\<bar>" by (simp add: ulp_exp_def)
    then have "pow2 53 \<le> \<bar>?x\<bar>"
      using ilog2_bounds(1) [of "\<bar>?x\<bar>"] pow2_mono [of 53 "ilog2 \<bar>?x\<bar>"] False by linarith
    then have "of_int (2 ^ 53) \<le> (of_int \<bar>n\<bar> :: rat)" by (simp add: pow2_def)
    then have "2 ^ 53 \<le> \<bar>n\<bar>" by (simp only: of_int_le_iff)
    with assms have "n = 2 ^ 53 \<or> n = - (2 ^ 53)" by linarith
    then have "even n" by auto
    then obtain m where m: "n = 2 * m" by (rule evenE)
    have "?x / pow2 1 = of_int m" by (simp add: m pow2_def)
    then have "round_half_even (?x / pow2 1) = m" by (simp only: round_half_even_int)
    then show ?thesis using False e by (simp add: round64_def m pow2_def)
  qed
qed

lemma to_num_int: "\<bar>n\<bar> \<le> 2 ^ 53 \<Longrightarrow> to_num (of_int n) = Fin (of_int n)"
proof -
  assume n: "\<bar>n\<bar> \<le> 2 ^ 53"
  then have "of_int \<bar>n\<bar> \<le> (of_int (2 ^ 53) :: rat)" by (simp only: of_int_le_iff)
  then have "\<bar>of_int n\<bar> \<le> (2 ^ 53 :: rat)" by simp
  moreover have "(2 ^ 53 :: rat) < 2 ^ 1024" by (rule power_strict_increasing) simp_all
  ultimately show ?thesis using round64_int [OF n] by (simp add: to_num_def abs_le_iff)
qed

lemma pow2_less_iff [simp]: "pow2 a < pow2 b \<longleftrightarrow> a < b"
proof
  assume "pow2 a < pow2 b"
  then show "a < b" using pow2_mono [of b a] by linarith
next
  assume "a < b"
  then have "pow2 (a + 1) \<le> pow2 b" by (intro pow2_mono) simp
  moreover have "pow2 a < pow2 (a + 1)" by (simp add: pow2_Suc)
  ultimately show "pow2 a < pow2 b" by linarith
qed

lemma ilog2_unique:
  assumes "pow2 k \<le> x" and "x < pow2 (k + 1)"
  shows "ilog2 x = k"
proof -
  have "0 < x" using assms(1) pow2_pos [of k] by linarith
  note b = ilog2_bounds [OF this]
  have "pow2 k < pow2 (ilog2 x + 1)" using assms(1) b(2) by linarith
  moreover have "pow2 (ilog2 x) < pow2 (k + 1)" using assms(2) b(1) by linarith
  ultimately show ?thesis by simp
qed

text \<open>Evaluation of a rounding whose binary exponent is known.\<close>

lemma round64_eval [num_simps]:
  assumes "pow2 k \<le> \<bar>x\<bar>" and "\<bar>x\<bar> < pow2 (k + 1)" and "- 1022 \<le> k"
  shows "round64 x = of_int (round_half_even (x / pow2 (k - 52))) * pow2 (k - 52)"
proof -
  have "ulp_exp x = k - 52" using ilog2_unique [OF assms(1,2)] assms(3) by (simp add: ulp_exp_def)
  moreover have "x \<noteq> 0" using assms(1) pow2_pos [of k] by (metis abs_zero not_le)
  ultimately show ?thesis by (simp add: round64_def)
qed

lemma round64_abs_le:
  assumes "\<bar>x\<bar> \<le> 2 ^ 1000"
  shows "\<bar>round64 x\<bar> < 2 ^ 1024"
proof (cases "x = 0")
  case False
  have "\<bar>x\<bar> < pow2 1001"
    using assms power_strict_increasing [of 1000 1001 "2 :: rat"] by (simp add: pow2_def)
  then have "ulp_exp x \<le> 948" using ulp_exp_le [of x 1001] False by simp
  then have "pow2 (ulp_exp x) \<le> pow2 1001" by (intro pow2_mono) simp
  then have "\<bar>round64 x\<bar> \<le> \<bar>x\<bar> + pow2 1001" using round64_error [of x] pow2_nonneg [of "ulp_exp x"] by linarith
  also have "\<dots> < pow2 1001 + pow2 1001" using \<open>\<bar>x\<bar> < pow2 1001\<close> by simp
  also have "\<dots> = pow2 1002" using pow2_Suc [of 1001] by simp
  also have "\<dots> < pow2 1024" by (simp only: pow2_less_iff)
  finally show ?thesis by (simp add: pow2_def)
qed simp

lemma to_num_finite: "\<bar>x\<bar> \<le> 2 ^ 1000 \<Longrightarrow> to_num x = Fin (round64 x)"
  using round64_abs_le [of x] by (auto simp: to_num_def Let_def)

subsection \<open>Rounding is monotone\<close>

lemma round_half_even_mono: "x \<le> y \<Longrightarrow> round_half_even x \<le> round_half_even y"
proof -
  assume xy: "x \<le> y"
  show ?thesis
  proof (cases "\<lfloor>x\<rfloor> = \<lfloor>y\<rfloor>")
    case True
    with xy show ?thesis by (auto simp: round_half_even_def Let_def)
  next
    case False
    with floor_mono [OF xy] have "\<lfloor>x\<rfloor> + 1 \<le> \<lfloor>y\<rfloor>" by simp
    then show ?thesis by (auto simp: round_half_even_def Let_def)
  qed
qed

lemma pow2_div_int:
  assumes "a \<le> b"
  shows "\<exists>n. pow2 b / pow2 a = of_int n"
proof -
  have "pow2 b = pow2 (b - a) * pow2 a" using pow2_add [of "b - a" a] by simp
  moreover have "pow2 (b - a) = of_int (2 ^ nat (b - a))" using assms by (simp add: pow2_def)
  ultimately show ?thesis by (metis nonzero_mult_div_cancel_right pow2_nonzero)
qed

lemma round_grid:
  assumes "a \<le> b"
  shows "x \<le> pow2 b \<Longrightarrow> of_int (round_half_even (x / pow2 a)) * pow2 a \<le> pow2 b"
    and "pow2 b \<le> x \<Longrightarrow> pow2 b \<le> of_int (round_half_even (x / pow2 a)) * pow2 a"
proof -
  obtain n where n: "pow2 b / pow2 a = of_int n" using pow2_div_int [OF assms] by blast
  then have b: "pow2 b = of_int n * pow2 a" by (simp add: divide_eq_eq)
  have r: "round_half_even (pow2 b / pow2 a) = n" unfolding n by simp
  show "of_int (round_half_even (x / pow2 a)) * pow2 a \<le> pow2 b" if "x \<le> pow2 b"
    using round_half_even_mono [of "x / pow2 a" "pow2 b / pow2 a"] that
    unfolding r b by (simp add: pos_divide_le_eq)
  show "pow2 b \<le> of_int (round_half_even (x / pow2 a)) * pow2 a" if "pow2 b \<le> x"
    using round_half_even_mono [of "pow2 b / pow2 a" "x / pow2 a"] that
    unfolding r b by (simp add: pos_le_divide_eq)
qed

lemma round64_mono:
  assumes "0 \<le> x" and "x \<le> y"
  shows "round64 x \<le> round64 y"
proof (cases "x = 0")
  case True
  with assms round64_nonneg [of y] show ?thesis by simp
next
  case False
  with assms have pos: "0 < x" "0 < y" by auto
  note bx = ilog2_bounds [OF pos(1)] and byy = ilog2_bounds [OF pos(2)]
  have "pow2 (ilog2 x) < pow2 (ilog2 y + 1)" using bx(1) byy(2) assms(2) by linarith
  then have le: "ilog2 x \<le> ilog2 y" by simp
  show ?thesis
  proof (cases "ulp_exp x = ulp_exp y")
    case True
    have "x / pow2 (ulp_exp y) \<le> y / pow2 (ulp_exp y)" using assms(2) by (simp add: divide_right_mono)
    from round_half_even_mono [OF this] pos True show ?thesis by (simp add: round64_def)
  next
    case ne: False
    then have k: "ilog2 x < ilog2 y" "ulp_exp y = ilog2 y - 52" "ulp_exp x \<le> ilog2 y"
      using le pos by (auto simp: ulp_exp_def max_def split: if_splits)
    have "pow2 (ilog2 x + 1) \<le> pow2 (ilog2 y)" using k(1) by (intro pow2_mono) simp
    then have "x \<le> pow2 (ilog2 y)" using bx(2) by linarith
    then have "round64 x \<le> pow2 (ilog2 y)"
      using round_grid(1) [OF k(3), of x] pos by (simp add: round64_def)
    also have "\<dots> \<le> round64 y"
      using round_grid(2) [of "ulp_exp y" "ilog2 y" y] byy(1) k(2) pos by (simp add: round64_def)
    finally show ?thesis .
  qed
qed

lemma round64_le_int:
  assumes "0 \<le> x" "x \<le> of_int n" "\<bar>n\<bar> \<le> 2 ^ 53"
  shows "round64 x \<le> of_int n"
  using round64_mono [OF assms(1,2)] round64_int [OF assms(3)] by simp

lemma round64_ge_int:
  assumes "0 \<le> n" "of_int n \<le> x" "\<bar>n\<bar> \<le> 2 ^ 53"
  shows "of_int n \<le> round64 x"
  using round64_mono [of "of_int n" x] round64_int [OF assms(3)] assms(1,2) by simp

lemma round64_nonpos: "x \<le> 0 \<Longrightarrow> round64 x \<le> 0"
  using round_half_even_mono [of "x / pow2 (ulp_exp x)" 0] round_half_even_int [of 0]
  by (simp add: round64_def divide_nonpos_nonneg mult_nonpos_nonneg)

subsection \<open>Rounded numbers stay as they are\<close>

lemma ilog2_ge: "pow2 k \<le> \<bar>x\<bar> \<Longrightarrow> k \<le> ilog2 \<bar>x\<bar>"
proof -
  assume a: "pow2 k \<le> \<bar>x\<bar>"
  then have "0 < \<bar>x\<bar>" using pow2_pos [of k] by linarith
  then have "pow2 k < pow2 (ilog2 \<bar>x\<bar> + 1)" using ilog2_bounds(2) [of "\<bar>x\<bar>"] a by linarith
  then show ?thesis by simp
qed

lemma round64_grid_point:
  assumes "x \<noteq> 0" "x / pow2 (ulp_exp x) = of_int m"
  shows "round64 x = x"
proof -
  have "round64 x = of_int m * pow2 (ulp_exp x)"
    using assms by (simp only: round64_def round_half_even_int if_False)
  then show ?thesis using assms(2) [symmetric] by simp
qed

lemma round64_scaled:
  assumes "\<bar>n\<bar> \<le> 2 ^ 53" and "- 1074 \<le> e"
  shows "round64 (of_int n * pow2 e) = of_int n * pow2 e"
proof (cases "n = 0")
  case False
  let ?x = "of_int n * pow2 e"
  have x0: "?x \<noteq> 0" using False by simp
  have "of_int \<bar>n\<bar> \<le> (of_int (2 ^ 53) :: rat)" using assms(1) by (simp only: of_int_le_iff)
  then have n: "\<bar>of_int n\<bar> \<le> (2 ^ 53 :: rat)" by simp
  have ax: "\<bar>?x\<bar> = \<bar>of_int n\<bar> * pow2 e" by (simp add: abs_mult)
  have "\<bar>?x\<bar> \<le> 2 ^ 53 * pow2 e" unfolding ax using n by (intro mult_right_mono) simp_all
  also have "\<dots> < 2 ^ 54 * pow2 e" by simp
  also have "\<dots> = pow2 (e + 54)" using pow2_add [of e 54] by (simp add: pow2_def)
  finally have u: "ulp_exp ?x \<le> e + 1" using ulp_exp_le [of ?x "e + 54"] x0 assms(2) by simp
  show ?thesis
  proof (cases "ulp_exp ?x \<le> e")
    case True
    then obtain m where m: "pow2 e / pow2 (ulp_exp ?x) = of_int m" using pow2_div_int by blast
    have "?x / pow2 (ulp_exp ?x) = of_int (n * m)" by (simp add: m [symmetric])
    with x0 show ?thesis by (rule round64_grid_point)
  next
    case False
    with u have e: "ulp_exp ?x = e + 1" by simp
    then have "e + 53 \<le> ilog2 \<bar>?x\<bar>" using assms(2) by (auto simp: ulp_exp_def max_def split: if_splits)
    then have "pow2 (e + 53) \<le> \<bar>?x\<bar>"
      using ilog2_bounds(1) [of "\<bar>?x\<bar>"] pow2_mono [of "e + 53" "ilog2 \<bar>?x\<bar>"] x0 by linarith
    then have "2 ^ 53 * pow2 e \<le> \<bar>of_int n\<bar> * pow2 e" unfolding ax using pow2_add [of e 53] by (simp add: pow2_def)
    then have "(2 ^ 53 :: rat) \<le> \<bar>of_int n\<bar>" by simp
    then have "of_int (2 ^ 53) \<le> (of_int \<bar>n\<bar> :: rat)" by simp
    then have "2 ^ 53 \<le> \<bar>n\<bar>" by (simp only: of_int_le_iff)
    with assms(1) have "n = 2 ^ 53 \<or> n = - (2 ^ 53)" by linarith
    then have "even n" by auto
    then obtain m where m: "n = 2 * m" by (rule evenE)
    have "?x / pow2 (ulp_exp ?x) = of_int m" unfolding e by (simp add: m pow2_Suc)
    with x0 show ?thesis by (rule round64_grid_point)
  qed
qed simp

lemma round64_idem [simp]: "round64 (round64 x) = round64 x"
proof (cases "x = 0")
  case False
  define u y where "u = ulp_exp x" and "y = x / pow2 (ulp_exp x)"
  have "\<bar>x\<bar> < pow2 (ilog2 \<bar>x\<bar> + 1)" using ilog2_bounds(2) [of "\<bar>x\<bar>"] False by simp
  also have "\<dots> \<le> pow2 (u + 53)" by (intro pow2_mono) (simp add: u_def ulp_exp_def)
  also have "\<dots> = 2 ^ 53 * pow2 u" using pow2_add [of u 53] by (simp add: pow2_def)
  finally have "\<bar>y\<bar> < 2 ^ 53" by (simp add: y_def u_def abs_divide pos_divide_less_eq)
  then have "- (2 ^ 53) \<le> y" "y \<le> 2 ^ 53" by (simp_all add: abs_less_iff)
  then have "round_half_even (of_int (- (2 ^ 53))) \<le> round_half_even y" "round_half_even y \<le> round_half_even (of_int (2 ^ 53))"
    by (simp_all add: round_half_even_mono del: round_half_even_int)
  then have "\<bar>round_half_even y\<bar> \<le> 2 ^ 53" unfolding round_half_even_int by linarith
  moreover have "- 1074 \<le> u" by (simp add: u_def ulp_exp_def)
  moreover have "round64 x = of_int (round_half_even y) * pow2 u" using False by (simp add: round64_def y_def u_def)
  ultimately show ?thesis by (simp only: round64_scaled)
qed simp

subsection \<open>Integers\<close>

text \<open>A number that holds an integer. Up to \<open>2^53\<close> arithmetic on them is exact.\<close>

abbreviation IntN :: "int \<Rightarrow> jsnum" where
  "IntN n \<equiv> Fin (of_int n)"

lemma jadd_int [num_simps]: "\<bar>a + b\<bar> \<le> 2 ^ 53 \<Longrightarrow> jadd (IntN a) (IntN b) = IntN (a + b)"
  using to_num_int [of "a + b"] by simp

lemma jsub_int [num_simps]: "\<bar>a - b\<bar> \<le> 2 ^ 53 \<Longrightarrow> jsub (IntN a) (IntN b) = IntN (a - b)"
  using to_num_int [of "a - b"] by (simp add: jsub_def)

lemma jmul_int [num_simps]: "\<bar>a * b\<bar> \<le> 2 ^ 53 \<Longrightarrow> jmul (IntN a) (IntN b) = IntN (a * b)"
  using to_num_int [of "a * b"] by simp

lemma jless_int [num_simps]: "jless (IntN a) (IntN b) \<longleftrightarrow> a < b"
  by simp

lemma jleq_int: "jleq (IntN a) (IntN b) \<longleftrightarrow> a \<le> b"
  by (auto simp: jleq_def)

lemma jmax_int [num_simps]: "jmax (IntN a) (IntN b) = IntN (max a b)"
  by (simp add: jmax_def max_def)

lemma jmin_int [num_simps]: "jmin (IntN a) (IntN b) = IntN (min a b)"
  by (simp add: jmin_def min_def)

lemma jfloor_int [num_simps]: "jfloor (IntN a) = IntN a"
  by simp

lemma round64_half:
  assumes "1 \<le> x"
  shows "round64 (x / 2) = round64 x / 2"
proof -
  note b = ilog2_bounds [of x]
  have pos: "0 < x" using assms by linarith
  have "\<not> ilog2 x + 1 \<le> 0" using b(2) [OF pos] assms pow2_mono [of "ilog2 x + 1" 0] by auto
  moreover have half: "pow2 (e - 1) = pow2 e / 2" for e using pow2_Suc [of "e - 1"] by simp
  have "ilog2 (x / 2) = ilog2 x - 1"
    using b [OF pos] half [of "ilog2 x"] half [of "ilog2 x + 1"] by (intro ilog2_unique) simp_all
  ultimately have "ulp_exp (x / 2) = ulp_exp x - 1" using pos by (simp add: ulp_exp_def)
  then show ?thesis using pos by (simp add: round64_def half)
qed

lemma floor_half_int [num_simps]:
  assumes "1 \<le> n" "n \<le> 2 ^ 53"
  shows "jfloor (jmul (IntN n) (Fin (1 / 2))) = IntN (n div 2)"
proof -
  have r: "round64 (of_int n / 2) = of_int n / 2"
    using round64_half [of "of_int n"] round64_int [of n] assms by simp
  have n: "(of_int n :: rat) \<le> of_int (2 ^ 53)" using assms(2) by (simp only: of_int_le_iff)
  have "(2 ^ 53 :: rat) \<le> 2 ^ 1000" by (rule power_increasing) simp_all
  with n assms(1) have "\<bar>of_int n / 2\<bar> \<le> (2 ^ 1000 :: rat)" by (simp add: abs_le_iff)
  then have "to_num (of_int n / 2) = Fin (of_int n / 2)" using r by (simp add: to_num_finite)
  then show ?thesis using floor_divide_of_int_eq [of n 2, where ?'a = rat] by simp
qed

end
