(* ===== verification/JS_String.thy ===== *)
theory JS_String
  imports JS_Number "HOL-Library.Code_Target_Nat"
begin

section \<open>JavaScript strings, decimal and hexadecimal numerals\<close>

text \<open>
  Strings are lists of characters, each one a code unit below 256; the texts the modelled code
  parses and prints (amounts, memos, identifiers) are ASCII. The theory gives the library
  functions those sources call: \<^verbatim>\<open>trim\<close>, \<^verbatim>\<open>toUpperCase\<close>, \<^verbatim>\<open>split\<close>, \<^verbatim>\<open>padStart\<close>, the printing and
  parsing of integers in a base, \<^verbatim>\<open>Number.prototype.toFixed\<close> and \<^verbatim>\<open>parseFloat\<close>.
\<close>

subsection \<open>Characters\<close>

abbreviation code :: "char \<Rightarrow> nat" where
  "code c \<equiv> of_char c"

definition is_digit :: "char \<Rightarrow> bool" where
  "is_digit c \<longleftrightarrow> 48 \<le> code c \<and> code c \<le> 57"

definition is_hex :: "char \<Rightarrow> bool" where
  "is_hex c \<longleftrightarrow> is_digit c \<or> (65 \<le> code c \<and> code c \<le> 70) \<or> (97 \<le> code c \<and> code c \<le> 102)"

definition is_space :: "char \<Rightarrow> bool" where
  "is_space c \<longleftrightarrow> code c \<in> {9, 10, 11, 12, 13, 32, 160}"

definition upcase :: "char \<Rightarrow> char" where
  "upcase c = (if 97 \<le> code c \<and> code c \<le> 122 then char_of (code c - 32) else c)"

definition downcase :: "char \<Rightarrow> char" where
  "downcase c = (if 65 \<le> code c \<and> code c \<le> 90 then char_of (code c + 32) else c)"

definition digit_char :: "nat \<Rightarrow> char" where
  "digit_char d = (if d < 10 then char_of (48 + d) else char_of (87 + d))"

text \<open>The value of a digit of any base up to 36, in either case.\<close>

definition digit_val :: "char \<Rightarrow> nat" where
  "digit_val c =
     (if is_digit c then code c - 48
      else if 97 \<le> code c \<and> code c \<le> 122 then code c - 87
      else if 65 \<le> code c \<and> code c \<le> 90 then code c - 55
      else 36)"

subsection \<open>String functions\<close>

definition trim :: "string \<Rightarrow> string" where
  "trim s = rev (dropWhile is_space (rev (dropWhile is_space s)))"

definition toUpperCase :: "string \<Rightarrow> string" where
  "toUpperCase s = map upcase s"

definition toLowerCase :: "string \<Rightarrow> string" where
  "toLowerCase s = map downcase s"

fun startsWith :: "string \<Rightarrow> string \<Rightarrow> bool" where
  "startsWith s [] = True"
| "startsWith [] (p # ps) = False"
| "startsWith (c # s) (p # ps) = (c = p \<and> startsWith s ps)"

definition padStart :: "nat \<Rightarrow> char \<Rightarrow> string \<Rightarrow> string" where
  "padStart n c s = replicate (n - length s) c @ s"

fun split_on :: "char \<Rightarrow> string \<Rightarrow> string list" where
  "split_on d [] = [[]]"
| "split_on d (c # s) =
     (if c = d then [] # split_on d s
      else (case split_on d s of [] \<Rightarrow> [[c]] | t # ts \<Rightarrow> (c # t) # ts))"

definition endsWith :: "string \<Rightarrow> string \<Rightarrow> bool" where
  "endsWith s t = startsWith (rev s) (rev t)"

definition join :: "string \<Rightarrow> string list \<Rightarrow> string" where
  "join sep xs = (case xs of [] \<Rightarrow> [] | y # ys \<Rightarrow> y @ concat (map (\<lambda>z. sep @ z) ys))"

subsection \<open>Numerals in a base\<close>

fun to_digits :: "nat \<Rightarrow> nat \<Rightarrow> nat list" where
  "to_digits b n = (if b < 2 \<or> n < b then [n] else to_digits b (n div b) @ [n mod b])"

declare to_digits.simps [simp del]

definition of_digits :: "nat \<Rightarrow> nat list \<Rightarrow> nat" where
  "of_digits b ds = foldl (\<lambda>a d. a * b + d) 0 ds"

definition nat_to_string :: "nat \<Rightarrow> nat \<Rightarrow> string" where
  "nat_to_string b n = map digit_char (to_digits b n)"

definition string_to_nat :: "nat \<Rightarrow> string \<Rightarrow> nat" where
  "string_to_nat b s = of_digits b (map digit_val s)"

text \<open>Base ten, signed: what a BigInt prints as.\<close>

definition int_to_string :: "int \<Rightarrow> string" where
  "int_to_string i = (if i < 0 then ''-'' else []) @ nat_to_string 10 (nat \<bar>i\<bar>)"

text \<open>
  \<open>parseInt10 s\<close> is \<^verbatim>\<open>parseInt(s, 10)\<close>, \<open>None\<close> for \<open>NaN\<close>. The callers compare the result with small
  numbers or reduce it to 32 bits, so the rounding of integers above \<open>2^53\<close> is left out.
\<close>

definition parseInt10 :: "string \<Rightarrow> int option" where
  "parseInt10 s =
     (let t = dropWhile is_space s;
          neg = startsWith t ''-'';
          ds = takeWhile is_digit (if neg \<or> startsWith t ''+'' then tl t else t)
      in if ds = [] then None
         else Some (if neg then - int (string_to_nat 10 ds) else int (string_to_nat 10 ds)))"

subsection \<open>Number.prototype.toFixed and parseFloat\<close>

text \<open>
  \<open>toFixed f x\<close> is \<^verbatim>\<open>x.toFixed(f)\<close>. From \<open>10^21\<close> on the language prints the number in exponent
  notation, which is \<open>None\<close> here: such a text has an \<^verbatim>\<open>e\<close> in it and is a decimal numeral to
  none of the parsers below.
\<close>

definition fixed_digits :: "nat \<Rightarrow> rat \<Rightarrow> string" where
  "fixed_digits f x =
     (let n = nat \<lfloor>x * 10 ^ f + 1 / 2\<rfloor>;
          m = padStart (f + 1) (CHR ''0'') (nat_to_string 10 n)
      in if f = 0 then nat_to_string 10 n
         else take (length m - f) m @ ''.'' @ drop (length m - f) m)"

fun toFixed :: "nat \<Rightarrow> jsnum \<Rightarrow> string option" where
  "toFixed f NaN = Some ''NaN''"
| "toFixed f PInf = Some ''Infinity''"
| "toFixed f NInf = Some ''-Infinity''"
| "toFixed f (Fin x) =
     (if 10 ^ 21 \<le> \<bar>x\<bar> then None
      else Some ((if x < 0 then ''-'' else []) @ fixed_digits f \<bar>x\<bar>))"

text \<open>
  \<open>parseFloat\<close> reads the longest prefix that is a decimal literal, after leading white space;
  with no digits there is no literal and the result is \<open>NaN\<close>.
\<close>

definition decimal_value :: "string \<Rightarrow> string \<Rightarrow> int \<Rightarrow> rat" where
  "decimal_value ip fp e =
     of_nat (string_to_nat 10 (ip @ fp)) / 10 ^ length fp
       * (if 0 \<le> e then 10 ^ nat e else 1 / 10 ^ nat (- e))"

definition parse_exponent :: "string \<Rightarrow> int" where
  "parse_exponent s =
     (case s of
        [] \<Rightarrow> 0
      | c # r \<Rightarrow>
         if c = CHR ''e'' \<or> c = CHR ''E'' then
           (let neg = startsWith r ''-'';
                ds = takeWhile is_digit (if neg \<or> startsWith r ''+'' then tl r else r)
            in if neg then - int (string_to_nat 10 ds) else int (string_to_nat 10 ds))
         else 0)"

definition parse_unsigned :: "string \<Rightarrow> rat option" where
  "parse_unsigned s =
     (let ip = takeWhile is_digit s;
          r = dropWhile is_digit s;
          fp = (if startsWith r ''.'' then takeWhile is_digit (tl r) else []);
          r' = (if startsWith r ''.'' \<and> (ip \<noteq> [] \<or> fp \<noteq> []) then dropWhile is_digit (tl r) else r)
      in if ip = [] \<and> fp = [] then None else Some (decimal_value ip fp (parse_exponent r')))"

definition parseFloat :: "string \<Rightarrow> jsnum" where
  "parseFloat s =
     (let t = dropWhile is_space s;
          neg = startsWith t ''-'';
          u = (if neg \<or> startsWith t ''+'' then tl t else t)
      in if startsWith u ''Infinity'' then (if neg then NInf else PInf)
         else (case parse_unsigned u of
                 None \<Rightarrow> NaN
               | Some x \<Rightarrow> to_num (if neg then - x else x)))"

subsection \<open>Facts about numerals\<close>

lemma code_digit_char [simp]: "d < 10 \<Longrightarrow> code (digit_char d) = 48 + d"
  by (simp add: digit_char_def)

lemma is_digit_digit_char [simp]: "d < 10 \<Longrightarrow> is_digit (digit_char d)"
  by (simp add: is_digit_def)

lemma digit_val_digit_char [simp]: "d < 16 \<Longrightarrow> digit_val (digit_char d) = d"
  by (auto simp: digit_val_def digit_char_def is_digit_def)

lemma to_digits_less: "2 \<le> b \<Longrightarrow> d \<in> set (to_digits b n) \<Longrightarrow> d < b"
proof (induction b n rule: to_digits.induct)
  case (1 b n)
  then show ?case
    by (subst (asm) (2) to_digits.simps) (auto split: if_splits)
qed

lemma of_digits_Nil [simp]: "of_digits b [] = 0"
  by (simp add: of_digits_def)

lemma of_digits_snoc [simp]: "of_digits b (ds @ [d]) = of_digits b ds * b + d"
  by (simp add: of_digits_def)

lemma of_digits_single [simp]: "of_digits b [d] = d"
  by (simp add: of_digits_def)

lemma of_digits_append: "of_digits b (ds @ es) = of_digits b ds * b ^ length es + of_digits b es"
  by (induction es rule: rev_induct) (simp_all add: append_assoc [symmetric] algebra_simps del: append_assoc)

lemma of_digits_to_digits: "2 \<le> b \<Longrightarrow> of_digits b (to_digits b n) = n"
proof (induction b n rule: to_digits.induct)
  case (1 b n)
  show ?case
  proof (cases "n < b")
    case True
    then show ?thesis by (subst to_digits.simps) simp
  next
    case False
    with "1" have "of_digits b (to_digits b (n div b)) = n div b" by simp
    with False "1.prems" show ?thesis by (subst to_digits.simps) simp
  qed
qed

lemma of_digits_zeros [simp]: "of_digits b (replicate k 0 @ ds) = of_digits b ds"
proof -
  have "of_digits b (replicate k 0) = 0" by (induction k) (simp_all add: replicate_append_same [symmetric])
  then show ?thesis by (simp add: of_digits_append)
qed

lemma of_digits_less: "(\<And>d. d \<in> set ds \<Longrightarrow> d < b) \<Longrightarrow> of_digits b ds < b ^ length ds"
proof (induction ds rule: rev_induct)
  case Nil
  then show ?case by simp
next
  case (snoc d ds)
  then have "of_digits b ds < b ^ length ds" and "d < b" by auto
  then have "Suc (of_digits b ds) * b \<le> b ^ length ds * b" by (intro mult_right_mono) simp_all
  with \<open>d < b\<close> show ?case by (simp add: algebra_simps)
qed

lemma to_digits_nonempty [simp]: "to_digits b n \<noteq> []"
  by (subst to_digits.simps) simp

lemma string_to_nat_to_string:
  assumes "2 \<le> b" "b \<le> 16"
  shows "string_to_nat b (nat_to_string b n) = n"
proof -
  have "digit_val (digit_char d) = d" if "d \<in> set (to_digits b n)" for d
    using to_digits_less [OF assms(1) that] assms(2) by simp
  then have "map digit_val (map digit_char (to_digits b n)) = to_digits b n"
    by (simp add: map_idI)
  then show ?thesis
    by (simp add: string_to_nat_def nat_to_string_def of_digits_to_digits [OF assms(1)])
qed

lemma nat_to_string_nonempty [simp]: "nat_to_string b n \<noteq> []"
  by (simp add: nat_to_string_def)

lemma nat_to_string_digits: "c \<in> set (nat_to_string 10 n) \<Longrightarrow> is_digit c"
  using to_digits_less [of 10 _ n] by (auto simp: nat_to_string_def)

lemma length_to_digits: "2 \<le> b \<Longrightarrow> n < b ^ k \<Longrightarrow> 0 < k \<Longrightarrow> length (to_digits b n) \<le> k"
proof (induction b n arbitrary: k rule: to_digits.induct)
  case (1 b n)
  show ?case
  proof (cases "n < b")
    case True
    with "1.prems" show ?thesis by (subst to_digits.simps) simp
  next
    case False
    from "1.prems" obtain j where k: "k = Suc j" by (cases k) auto
    with False "1.prems" have "0 < j" by (cases j) auto
    have "n div b < b ^ j" using "1.prems" k by (simp add: less_mult_imp_div_less mult.commute)
    with "1.IH" False "1.prems" \<open>0 < j\<close> have "length (to_digits b (n div b)) \<le> j" by simp
    with False "1.prems" k show ?thesis by (subst to_digits.simps) simp
  qed
qed

lemma string_to_nat_append:
  "string_to_nat b (s @ t) = string_to_nat b s * b ^ length t + string_to_nat b t"
  by (simp add: string_to_nat_def of_digits_append)

lemma string_to_nat_Nil [simp]: "string_to_nat b [] = 0"
  by (simp add: string_to_nat_def)

lemma digit_val_zero [simp]: "digit_val (CHR ''0'') = 0"
  by (simp add: digit_val_def is_digit_def)

lemma string_to_nat_zeros [simp]: "string_to_nat b (replicate k (CHR ''0'') @ s) = string_to_nat b s"
  by (simp add: string_to_nat_def)

lemma string_to_nat_padStart [simp]: "string_to_nat b (padStart k (CHR ''0'') s) = string_to_nat b s"
  by (simp add: padStart_def)

lemma length_padStart [simp]: "length (padStart k c s) = max k (length s)"
  by (simp add: padStart_def)

lemma digit_val_less: "is_digit c \<Longrightarrow> digit_val c < 10"
  by (auto simp: digit_val_def is_digit_def)

lemma string_to_nat_less:
  "(\<And>c. c \<in> set s \<Longrightarrow> is_digit c) \<Longrightarrow> string_to_nat 10 s < 10 ^ length s"
proof -
  assume "\<And>c. c \<in> set s \<Longrightarrow> is_digit c"
  then have "d < 10" if "d \<in> set (map digit_val s)" for d using that digit_val_less by auto
  then have "of_digits 10 (map digit_val s) < 10 ^ length (map digit_val s)" by (rule of_digits_less)
  then show ?thesis by (simp add: string_to_nat_def)
qed

lemma padStart_digits: "(\<And>c. c \<in> set s \<Longrightarrow> is_digit c) \<Longrightarrow> c \<in> set (padStart k (CHR ''0'') s) \<Longrightarrow> is_digit c"
  by (auto simp: padStart_def is_digit_def)

lemma not_digit_dot [simp]: "\<not> is_digit (CHR ''.'')" and not_digit_minus [simp]: "\<not> is_digit (CHR ''-'')"
  and not_space_digit: "is_digit c \<Longrightarrow> \<not> is_space c"
  by (auto simp: is_digit_def is_space_def)

lemma split_on_none: "d \<notin> set s \<Longrightarrow> split_on d s = [s]"
  by (induction s) auto

lemma split_on_one: "d \<notin> set s \<Longrightarrow> split_on d (s @ d # t) = s # split_on d t"
  by (induction s) auto

lemma split_on_join:
  "(\<And>s. s \<in> set xs \<Longrightarrow> d \<notin> set s) \<Longrightarrow> xs \<noteq> [] \<Longrightarrow> split_on d (join [d] xs) = xs"
proof (induction xs)
  case (Cons x xs)
  then show ?case
    by (cases xs) (auto simp: join_def split_on_none split_on_one)
qed simp

lemma split_on_nonempty [simp]: "split_on d s \<noteq> []"
  by (induction s) (auto split: list.split)

lemma join_split_on: "join [d] (split_on d s) = s"
  by (induction s) (auto simp: join_def fun_eq_iff split: list.split intro!: arg_cong [where f = concat] map_cong)

lemma set_join: "set (join sep xs) \<subseteq> set sep \<union> \<Union> (set ` set xs)"
  by (cases xs) (auto simp: join_def)

lemma join_single [simp]: "join sep [x] = x" and join_Nil [simp]: "join sep [] = []"
  by (simp_all add: join_def)

lemma join_Cons: "xs \<noteq> [] \<Longrightarrow> join sep (x # xs) = x @ sep @ join sep xs"
  by (cases xs) (auto simp: join_def)

lemma hex_val: "is_hex c \<Longrightarrow> digit_val c < 16"
  by (auto simp: is_hex_def digit_val_def is_digit_def)

lemma is_hex_digit_char [simp]: "d < 16 \<Longrightarrow> is_hex (digit_char d)"
  by (auto simp: is_hex_def digit_char_def is_digit_def)

lemma nat_to_string_hex: "c \<in> set (nat_to_string 16 n) \<Longrightarrow> is_hex c"
  by (auto simp: nat_to_string_def dest: to_digits_less [rotated])

lemma dropWhile_all_digits:
  "(\<And>c. c \<in> set s \<Longrightarrow> is_digit c) \<Longrightarrow> dropWhile is_digit s = [] \<and> takeWhile is_digit s = s"
  by (simp add: dropWhile_eq_Nil_conv takeWhile_eq_all_conv)

lemma parseInt10_digits:
  assumes "s \<noteq> []" and "\<And>c. c \<in> set s \<Longrightarrow> is_digit c"
  shows "parseInt10 s = Some (int (string_to_nat 10 s))"
proof -
  obtain c r where s: "s = c # r" and c: "is_digit c" using assms by (cases s) auto
  have "\<not> is_space c" "c \<noteq> CHR ''-''" "c \<noteq> CHR ''+''"
    using c by (auto simp: is_digit_def is_space_def)
  moreover have tw: "takeWhile is_digit r = r" using assms(2) dropWhile_all_digits [of r] s by simp
  ultimately show ?thesis
    using c by (simp add: parseInt10_def s Let_def tw)
qed

lemma trim_id: "s = [] \<or> (\<not> is_space (hd s) \<and> \<not> is_space (last s)) \<Longrightarrow> trim s = s"
  by (cases s) (auto simp: trim_def dropWhile_eq_self_iff hd_append hd_rev)

lemma trim_no_space: "(\<And>c. c \<in> set s \<Longrightarrow> \<not> is_space c) \<Longrightarrow> trim s = s"
  by (rule trim_id) (metis hd_in_set last_in_set)

lemma trim_trim: "trim (trim s) = trim s"
proof (rule trim_id, cases "trim s = []")
  case False
  define u where "u = dropWhile is_space s"
  have t: "trim s = rev (dropWhile is_space (rev u))" by (simp add: trim_def u_def)
  obtain v where u: "u = trim s @ v"
    unfolding t by (metis rev_append rev_rev_ident takeWhile_dropWhile_id)
  have "\<not> is_space (last (trim s))"
    using False hd_dropWhile [of is_space "rev u"] by (auto simp: t last_rev)
  moreover have "hd (trim s) = hd u" using False u by (metis hd_append2)
  moreover have "\<not> is_space (hd u)" using False u hd_dropWhile [of is_space s] by (auto simp: u_def)
  ultimately show "trim s = [] \<or> \<not> is_space (hd (trim s)) \<and> \<not> is_space (last (trim s))" by simp
qed simp

lemma is_space_punct [simp]: "\<not> is_space (CHR ''.'')" "\<not> is_space (CHR ''-'')"
  by (auto simp: is_space_def)

lemma dropWhile_digits:
  "(\<And>c. c \<in> set s \<Longrightarrow> is_digit c) \<Longrightarrow> \<not> is_digit d \<Longrightarrow>
   dropWhile is_digit (s @ d # t) = d # t \<and> takeWhile is_digit (s @ d # t) = s"
  by (simp add: dropWhile_append takeWhile_append dropWhile_eq_Nil_conv takeWhile_eq_all_conv)

lemma startsWith_single [simp]: "startsWith s [c] \<longleftrightarrow> s \<noteq> [] \<and> hd s = c"
  by (cases s) auto

lemma startsWith_Cons: "startsWith (x # s) (y # t) \<longleftrightarrow> x = y \<and> startsWith s t"
  by simp

lemma digits_take_drop:
  "(\<And>c. c \<in> set s \<Longrightarrow> is_digit c) \<Longrightarrow> c \<in> set (take k s) \<union> set (drop k s) \<Longrightarrow> is_digit c"
  by (auto dest: in_set_takeD in_set_dropD)

text \<open>
  \<open>toFixed\<close> prints the rounded count of units of the last place: its integer and fraction
  digits, read together, are that count.
\<close>

lemma fixed_digits_parts:
  assumes "0 < f" and "0 \<le> x"
  obtains ip fp where "fixed_digits f x = ip @ ''.'' @ fp" and "length fp = f" and "ip \<noteq> []"
    and "\<And>c. c \<in> set ip \<union> set fp \<Longrightarrow> is_digit c"
    and "int (string_to_nat 10 (ip @ fp)) = \<lfloor>x * 10 ^ f + 1 / 2\<rfloor>"
proof -
  define n m where "n = nat \<lfloor>x * 10 ^ f + 1 / 2\<rfloor>"
    and "m = padStart (f + 1) (CHR ''0'') (nat_to_string 10 n)"
  have digits: "is_digit c" if "c \<in> set m" for c
    using padStart_digits [OF nat_to_string_digits] that by (auto simp: m_def)
  have len: "f < length m" by (simp add: m_def)
  have fd: "fixed_digits f x = take (length m - f) m @ ''.'' @ drop (length m - f) m"
    using assms(1) by (simp add: fixed_digits_def Let_def n_def m_def)
  have ip: "take (length m - f) m \<noteq> []" using len by auto
  have fp: "length (drop (length m - f) m) = f" using len by simp
  have "string_to_nat 10 m = n" by (simp add: m_def string_to_nat_to_string)
  moreover have "0 \<le> \<lfloor>x * 10 ^ f + 1 / 2\<rfloor>" using assms(2) by simp
  ultimately have v: "int (string_to_nat 10 (take (length m - f) m @ drop (length m - f) m))
      = \<lfloor>x * 10 ^ f + 1 / 2\<rfloor>" by (simp add: n_def)
  from fd fp ip digits_take_drop [of m, OF digits] v show thesis by (rule that)
qed

end
