(* ===== verification/Stellar_Amount.thy ===== *)
theory Stellar_Amount
  imports JS_String
begin

section \<open>Stellar amounts: exact stroop arithmetic\<close>

text \<open>
  \<^verbatim>\<open>backend/src/utils/stellarAmount.js\<close> and its client-side mirror
  \<^verbatim>\<open>frontend/src/utils/stellarAmount.js\<close>. An amount is a decimal text from Horizon, a Number or a
  BigInt count of stroops; one unit is ten million stroops. A BigInt is an \<open>int\<close>. What the code
  throws is a value of \<open>amount_error\<close>.
\<close>

datatype amount_arg = ABig int | ANum jsnum | AStr string | ANull

datatype amount_error = TypeError | RangeError | SyntaxError

definition DECIMALS :: nat where
  "DECIMALS = 7"

definition STROOPS_PER_UNIT :: int where
  "STROOPS_PER_UNIT = 10000000"

subsection \<open>Conversion to stroops\<close>

text \<open>The test \<^verbatim>\<open>/^\d*(\.\d*)?$/\<close>.\<close>

definition decimal_re :: "string \<Rightarrow> bool" where
  "decimal_re s =
     (let r = dropWhile is_digit s
      in r = [] \<or> (hd r = CHR ''.'' \<and> list_all is_digit (tl r)))"

text \<open>The integer and fraction texts to a count of stroops, rounding the eighth digit half up.\<close>

definition stroops_of_parts :: "string \<Rightarrow> string \<Rightarrow> int" where
  "stroops_of_parts intPart fracRaw =
     (let frac = take DECIMALS (fracRaw @ replicate DECIMALS (CHR ''0''));
          stroops = int (string_to_nat 10 (if intPart = [] then ''0'' else intPart)) * STROOPS_PER_UNIT
                    + int (string_to_nat 10 (if frac = [] then ''0'' else frac))
      in if DECIMALS < length fracRaw \<and> 5 \<le> digit_val (fracRaw ! DECIMALS)
         then stroops + 1 else stroops)"

definition toStroops_text :: "string \<Rightarrow> (amount_error, int) result" where
  "toStroops_text str0 =
     (let negative = startsWith str0 ''-'';
          str = (if negative then tl str0 else str0)
      in if \<not> decimal_re str \<or> str = [] \<or> str = ''.'' then Inl TypeError
         else (let parts = split_on (CHR ''.'') str;
                   intPart = hd parts;
                   fracRaw = (if 1 < length parts then parts ! 1 else []);
                   stroops = stroops_of_parts intPart fracRaw
               in Inr (if negative then - stroops else stroops)))"

fun toStroops :: "amount_arg \<Rightarrow> (amount_error, int) result" where
  "toStroops (ABig b) = Inr b"
| "toStroops ANull = Inl TypeError"
| "toStroops (ANum x) =
     (case toFixed DECIMALS x of None \<Rightarrow> Inl TypeError | Some str \<Rightarrow> toStroops_text str)"
| "toStroops (AStr s) = (if s = [] then Inl TypeError else toStroops_text (trim s))"

subsection \<open>Conversion from stroops\<close>

text \<open>The conversion \<^verbatim>\<open>BigInt(v)\<close> of the language, for the kinds of value the module takes.\<close>

definition string_to_bigint :: "string \<Rightarrow> (amount_error, int) result" where
  "string_to_bigint s =
     (let t = trim s;
          neg = startsWith t ''-'';
          u = (if neg \<or> startsWith t ''+'' then tl t else t);
          radix = (let p = toUpperCase (take 2 t)
                   in if p = ''0X'' then 16 else if p = ''0O'' then 8 else if p = ''0B'' then 2 else 0)
      in if t = [] then Inr 0
         else if radix \<noteq> 0 then
           (if drop 2 t \<noteq> [] \<and> list_all (\<lambda>c. digit_val c < radix) (drop 2 t)
            then Inr (int (string_to_nat radix (drop 2 t))) else Inl SyntaxError)
         else if u \<noteq> [] \<and> list_all is_digit u
           then Inr (if neg then - int (string_to_nat 10 u) else int (string_to_nat 10 u))
         else Inl SyntaxError)"

fun to_bigint :: "amount_arg \<Rightarrow> (amount_error, int) result" where
  "to_bigint (ABig b) = Inr b"
| "to_bigint (ANum (Fin x)) = (if x = of_int \<lfloor>x\<rfloor> then Inr \<lfloor>x\<rfloor> else Inl RangeError)"
| "to_bigint (ANum _) = Inl RangeError"
| "to_bigint (AStr s) = string_to_bigint s"
| "to_bigint ANull = Inl TypeError"

definition fromStroops_big :: "int \<Rightarrow> string" where
  "fromStroops_big b =
     (let negative = b < 0;
          a = (if negative then - b else b);
          intPart = a div STROOPS_PER_UNIT;
          frac = padStart DECIMALS (CHR ''0'') (int_to_string (a mod STROOPS_PER_UNIT))
      in (if negative then ''-'' else []) @ int_to_string intPart @ ''.'' @ frac)"

definition fromStroops :: "amount_arg \<Rightarrow> (amount_error, string) result" where
  "fromStroops v = map_sum id fromStroops_big (to_bigint v)"

definition stroopsToNumber :: "amount_arg \<Rightarrow> (amount_error, jsnum) result" where
  "stroopsToNumber v = map_sum id parseFloat (fromStroops v)"

definition stroopsToSafeNumber :: "amount_arg \<Rightarrow> (amount_error, jsnum) result" where
  "stroopsToSafeNumber v =
     (case to_bigint v of
        Inl e \<Rightarrow> Inl e
      | Inr b \<Rightarrow> if max_safe_integer < b \<or> b < - max_safe_integer then Inl RangeError
                 else Inr (to_num (of_int b)))"

subsection \<open>Sums and comparisons\<close>

fun sumStroops_loop :: "int \<Rightarrow> amount_arg list \<Rightarrow> (amount_error, int) result" where
  "sumStroops_loop acc [] = Inr acc"
| "sumStroops_loop acc (v # vs) =
     (if v = ANull \<or> v = AStr [] then sumStroops_loop acc vs
      else (case to_bigint v of Inl e \<Rightarrow> Inl e | Inr b \<Rightarrow> sumStroops_loop (acc + b) vs))"

text \<open>A value that is not an array is \<open>None\<close>.\<close>

definition sumStroops :: "amount_arg list option \<Rightarrow> (amount_error, int) result" where
  "sumStroops values = (case values of None \<Rightarrow> Inr 0 | Some vs \<Rightarrow> sumStroops_loop 0 vs)"

definition compareAmounts :: "amount_arg \<Rightarrow> amount_arg \<Rightarrow> (amount_error, int) result" where
  "compareAmounts a b =
     (case toStroops a of
        Inl e \<Rightarrow> Inl e
      | Inr sa \<Rightarrow> (case toStroops b of
                     Inl e \<Rightarrow> Inl e
                   | Inr sb \<Rightarrow> Inr (if sa < sb then -1 else if sb < sa then 1 else 0)))"

definition amountsEqual :: "amount_arg \<Rightarrow> amount_arg \<Rightarrow> (amount_error, bool) result" where
  "amountsEqual a b = map_sum id (\<lambda>c. c = 0) (compareAmounts a b)"

definition normalizeToNumber :: "amount_arg \<Rightarrow> jsnum" where
  "normalizeToNumber raw =
     (if raw = ANull \<or> raw = AStr [] then Fin 0
      else (case toStroops raw of
              Inl _ \<Rightarrow> Fin 0
            | Inr s \<Rightarrow> (case stroopsToNumber (ABig s) of Inl _ \<Rightarrow> Fin 0 | Inr n \<Rightarrow> n)))"

definition parseAmount :: "amount_arg \<Rightarrow> (amount_error, int \<times> jsnum) result" where
  "parseAmount raw =
     (case toStroops raw of
        Inl e \<Rightarrow> Inl e
      | Inr s \<Rightarrow> map_sum id (\<lambda>n. (s, n)) (stroopsToNumber (ABig s)))"


subsection \<open>The stroop parser computes exact half-up rounding\<close>

text \<open>The rational a decimal text denotes.\<close>

abbreviation (input) dec_val :: "string \<Rightarrow> string \<Rightarrow> rat" where
  "dec_val ip fp \<equiv> of_nat (string_to_nat 10 (ip @ fp)) / 10 ^ length fp"

lemma floor_half_up_split:
  fixes m d r k :: nat
  assumes "d < 10" and "r < 10 ^ k"
  shows "\<lfloor>(of_nat (m * 10 ^ Suc k + (d * 10 ^ k + r)) :: rat) / 10 ^ Suc k + 1 / 2\<rfloor>
         = int m + (if 5 \<le> d then 1 else 0)"
proof -
  let ?K = "10 ^ k :: rat"
  have K: "0 < ?K" by simp
  have r: "of_nat r < ?K" using assms(2) by (metis of_nat_less_iff of_nat_numeral of_nat_power)
  define g :: rat where "g = of_nat r / ?K"
  have eq: "(of_nat (m * 10 ^ Suc k + (d * 10 ^ k + r)) :: rat) / 10 ^ Suc k
            = of_nat m + (of_nat d + g) / 10"
    using K by (simp add: g_def field_simps)
  have g: "0 \<le> g" "g < 1" using r K by (simp_all add: g_def)
  have d: "if 5 \<le> d then 5 \<le> (of_nat d :: rat) \<and> of_nat d \<le> (9 :: rat) else of_nat d \<le> (4 :: rat)"
    using assms(1) by auto
  show ?thesis unfolding eq floor_eq_iff using g d by (simp split: if_splits) (simp_all add: field_simps)
qed

lemma stroops_of_parts_rounds:
  assumes fp: "\<And>c. c \<in> set fp \<Longrightarrow> is_digit c"
  shows "stroops_of_parts ip fp = \<lfloor>dec_val ip fp * 10 ^ 7 + 1 / 2\<rfloor>"
proof -
  have ip0: "string_to_nat 10 (if ip = [] then ''0'' else ip) = string_to_nat 10 ip"
    by (simp add: string_to_nat_def)
  show ?thesis
  proof (cases "length fp \<le> 7")
    case True
    define z where "z = 7 - length fp"
    have z: "7 = length fp + z" using True by (simp add: z_def)
    have frac: "take 7 (fp @ replicate 7 (CHR ''0'')) = fp @ replicate z (CHR ''0'')"
      using True by (simp add: z_def take_replicate)
    have "string_to_nat 10 (fp @ replicate z (CHR ''0'')) = string_to_nat 10 fp * 10 ^ z"
      using string_to_nat_zeros [of 10 z "[]"] by (simp add: string_to_nat_append)
    moreover have "fp @ replicate z (CHR ''0'') \<noteq> []" using True by (auto simp: z_def)
    ultimately have st: "stroops_of_parts ip fp
        = int (string_to_nat 10 ip * 10 ^ 7 + string_to_nat 10 fp * 10 ^ z)"
      using True unfolding stroops_of_parts_def DECIMALS_def Let_def frac ip0
      by (simp add: STROOPS_PER_UNIT_def) (simp add: string_to_nat_def)
    have "(of_nat (string_to_nat 10 ip * 10 ^ 7 + string_to_nat 10 fp * 10 ^ z) :: rat)
          = dec_val ip fp * 10 ^ 7"
      unfolding string_to_nat_append by (subst (1 2) z) (simp add: power_add field_simps)
    then have "dec_val ip fp * 10 ^ 7 = of_int (stroops_of_parts ip fp)" unfolding st by simp
    then show ?thesis by (simp add: floor_eq_iff)
  next
    case False
    then obtain f d r where fpd: "fp = f @ d # r" and lf: "length f = 7"
      by (metis append_take_drop_id id_take_nth_drop length_take linorder_not_le min.absorb2 nat_less_le)
    have dr: "digit_val d < 10" "string_to_nat 10 r < 10 ^ length r"
      using fp by (auto simp: fpd intro!: digit_val_less string_to_nat_less)
    have st: "stroops_of_parts ip fp
        = int (string_to_nat 10 ip * 10 ^ 7 + string_to_nat 10 f) + (if 5 \<le> digit_val d then 1 else 0)"
      using lf by (auto simp: stroops_of_parts_def DECIMALS_def STROOPS_PER_UNIT_def Let_def ip0 fpd nth_append)
    have "string_to_nat 10 [d] = digit_val d" by (simp add: string_to_nat_def)
    then have N: "string_to_nat 10 (ip @ fp)
        = (string_to_nat 10 ip * 10 ^ 7 + string_to_nat 10 f) * 10 ^ Suc (length r)
          + (digit_val d * 10 ^ length r + string_to_nat 10 r)"
      using string_to_nat_append [of 10 "[d]" r] lf
      by (simp add: fpd string_to_nat_append power_add algebra_simps)
    have "dec_val ip fp * 10 ^ 7 = of_nat (string_to_nat 10 (ip @ fp)) / 10 ^ Suc (length r)"
      using lf by (simp add: fpd power_add)
    then show ?thesis unfolding st N floor_half_up_split [OF dr, symmetric] by simp
  qed
qed

lemma decimal_re_parts:
  assumes "\<And>c. c \<in> set ip \<union> set fp \<Longrightarrow> is_digit c"
  shows "decimal_re (ip @ ''.'' @ fp)" and "decimal_re ip"
  using assms dropWhile_digits [of ip "CHR ''.''" fp] dropWhile_all_digits [of ip]
  by (auto simp: decimal_re_def list_all_iff Let_def)

lemma digits_no_dot: "(\<And>c. c \<in> set s \<Longrightarrow> is_digit c) \<Longrightarrow> CHR ''.'' \<notin> set s"
  using not_digit_dot by blast

lemma digits_no_minus: "(\<And>c. c \<in> set s \<Longrightarrow> is_digit c) \<Longrightarrow> s \<noteq> [] \<Longrightarrow> hd s \<noteq> CHR ''-''"
  using not_digit_minus by (metis hd_in_set)

lemma toStroops_text_parts:
  assumes digits: "\<And>c. c \<in> set ip \<union> set fp \<Longrightarrow> is_digit c" and ne: "ip \<noteq> [] \<or> fp \<noteq> []"
  shows "toStroops_text (ip @ ''.'' @ fp) = Inr (stroops_of_parts ip fp)"
    and "toStroops_text (''-'' @ ip @ ''.'' @ fp) = Inr (- stroops_of_parts ip fp)"
proof -
  have re: "decimal_re (ip @ CHR ''.'' # fp)" using decimal_re_parts(1) [OF digits] by simp
  have sp: "split_on (CHR ''.'') (ip @ CHR ''.'' # fp) = [ip, fp]"
    using digits by (simp add: split_on_one split_on_none digits_no_dot)
  have hd: "hd (ip @ CHR ''.'' # fp) \<noteq> CHR ''-''"
    using digits_no_minus [of ip] digits by (cases ip) auto
  have "ip @ CHR ''.'' # fp \<noteq> ''.''" using ne by (cases ip) auto
  with re sp hd show "toStroops_text (ip @ ''.'' @ fp) = Inr (stroops_of_parts ip fp)"
    and "toStroops_text (''-'' @ ip @ ''.'' @ fp) = Inr (- stroops_of_parts ip fp)"
    by (simp_all add: toStroops_text_def Let_def)
qed

lemma toStroops_text_int:
  assumes digits: "\<And>c. c \<in> set ip \<Longrightarrow> is_digit c" and ne: "ip \<noteq> []"
  shows "toStroops_text ip = Inr (stroops_of_parts ip [])"
    and "toStroops_text (''-'' @ ip) = Inr (- stroops_of_parts ip [])"
proof -
  have "decimal_re ip" using decimal_re_parts(2) [of ip "[]"] digits by simp
  moreover have "split_on (CHR ''.'') ip = [ip]" using digits by (simp add: split_on_none digits_no_dot)
  moreover have "hd ip \<noteq> CHR ''-''" using digits_no_minus [OF digits ne] by simp
  moreover have "ip \<noteq> ''.''" using digits not_digit_dot by fastforce
  ultimately show "toStroops_text ip = Inr (stroops_of_parts ip [])"
    and "toStroops_text (''-'' @ ip) = Inr (- stroops_of_parts ip [])"
    using ne by (simp_all add: toStroops_text_def Let_def)
qed

lemma stroops_of_parts_exact:
  assumes "\<And>c. c \<in> set fp \<Longrightarrow> is_digit c" and "dec_val ip fp * 10 ^ 7 = of_int n"
  shows "stroops_of_parts ip fp = n"
  using stroops_of_parts_rounds [OF assms(1)] assms(2) by (simp add: floor_eq_iff)

subsection \<open>The number path\<close>

text \<open>A finite Number below \<open>10^21\<close> is rounded half up, away from zero, from its exact value.\<close>

lemma toStroops_num:
  assumes "\<bar>x\<bar> < 10 ^ 21"
  shows "toStroops (ANum (Fin x)) = Inr ((if x < 0 then -1 else 1) * \<lfloor>\<bar>x\<bar> * 10 ^ 7 + 1 / 2\<rfloor>)"
proof -
  obtain ip fp where parts: "fixed_digits 7 \<bar>x\<bar> = ip @ ''.'' @ fp" "length fp = 7" "ip \<noteq> []"
    and digits: "\<And>c. c \<in> set ip \<union> set fp \<Longrightarrow> is_digit c"
    and v: "int (string_to_nat 10 (ip @ fp)) = \<lfloor>\<bar>x\<bar> * 10 ^ 7 + 1 / 2\<rfloor>"
    using fixed_digits_parts [of 7 "\<bar>x\<bar>"] by auto
  have "dec_val ip fp * 10 ^ 7 = of_int \<lfloor>\<bar>x\<bar> * 10 ^ 7 + 1 / 2\<rfloor>"
    using parts(2) by (simp only: v [symmetric] of_int_of_nat_eq) simp
  then have s: "stroops_of_parts ip fp = \<lfloor>\<bar>x\<bar> * 10 ^ 7 + 1 / 2\<rfloor>"
    using digits by (intro stroops_of_parts_exact) auto
  have "toStroops (ANum (Fin x))
        = toStroops_text ((if x < 0 then ''-'' else []) @ ip @ ''.'' @ fp)"
    using assms by (simp add: DECIMALS_def parts(1))
  then show ?thesis
    using toStroops_text_parts [OF digits] parts(3) s by simp
qed

lemma toStroops_num_not_finite: "\<not> is_finite x \<Longrightarrow> toStroops (ANum x) = Inl TypeError"
  by (cases x) (auto simp: toStroops_text_def decimal_re_def is_digit_def Let_def)

subsection \<open>Round trips\<close>

lemma int_to_string_nonneg: "0 \<le> i \<Longrightarrow> int_to_string i = nat_to_string 10 (nat i)"
  by (simp add: int_to_string_def)

text \<open>The texts \<open>fromStroops\<close> prints: sign, whole units, and seven digits of stroops.\<close>

lemma fromStroops_big_parts:
  obtains ip fp where "fromStroops_big b = (if b < 0 then ''-'' else []) @ ip @ ''.'' @ fp"
    and "ip \<noteq> []" and "\<And>c. c \<in> set ip \<union> set fp \<Longrightarrow> is_digit c"
    and "length fp = 7" and "int (string_to_nat 10 (ip @ fp)) = \<bar>b\<bar>"
proof -
  define a where "a = \<bar>b\<bar>"
  define ip fp where "ip = nat_to_string 10 (nat (a div 10000000))"
    and "fp = padStart 7 (CHR ''0'') (nat_to_string 10 (nat (a mod 10000000)))"
  have "fromStroops_big b = (if b < 0 then ''-'' else []) @ ip @ ''.'' @ fp"
    by (auto simp: fromStroops_big_def Let_def STROOPS_PER_UNIT_def DECIMALS_def ip_def fp_def a_def
        int_to_string_nonneg abs_if)
  moreover have "ip \<noteq> []" by (simp add: ip_def)
  moreover have "is_digit c" if "c \<in> set ip \<union> set fp" for c
    using that padStart_digits [OF nat_to_string_digits] nat_to_string_digits
    by (auto simp: ip_def fp_def)
  moreover have len: "length fp = 7"
  proof -
    have "nat (a mod 10000000) < 10 ^ 7" by (simp add: nat_less_iff)
    then have "length (nat_to_string 10 (nat (a mod 10000000))) \<le> 7"
      unfolding nat_to_string_def by (simp add: length_to_digits)
    then show ?thesis by (simp add: fp_def)
  qed
  moreover have "int (string_to_nat 10 (ip @ fp)) = \<bar>b\<bar>"
  proof -
    have "string_to_nat 10 (ip @ fp) = nat (a div 10000000) * 10 ^ 7 + nat (a mod 10000000)"
      unfolding string_to_nat_append len by (simp add: ip_def fp_def string_to_nat_to_string)
    moreover have "0 \<le> a div 10000000" by (simp add: a_def pos_imp_zdiv_nonneg_iff)
    ultimately show ?thesis by (simp add: a_def)
  qed
  ultimately show thesis by (rule that)
qed

lemma toStroops_fromStroops: "toStroops (AStr (fromStroops_big b)) = Inr b"
proof -
  obtain ip fp where eq: "fromStroops_big b = (if b < 0 then ''-'' else []) @ ip @ ''.'' @ fp"
    and ne: "ip \<noteq> []" and digits: "\<And>c. c \<in> set ip \<union> set fp \<Longrightarrow> is_digit c"
    and len: "length fp = 7" and v: "int (string_to_nat 10 (ip @ fp)) = \<bar>b\<bar>"
    by (rule fromStroops_big_parts) blast
  have "dec_val ip fp * 10 ^ 7 = of_int \<bar>b\<bar>" using len by (simp add: v [symmetric] del: of_int_abs)
  then have s: "stroops_of_parts ip fp = \<bar>b\<bar>" using digits by (intro stroops_of_parts_exact) auto
  have "trim (fromStroops_big b) = fromStroops_big b"
    using digits not_space_digit unfolding eq by (intro trim_no_space) (auto split: if_splits)
  then show ?thesis
    using toStroops_text_parts [OF digits] ne s by (simp add: eq)
qed

lemma parseFloat_parts:
  assumes digits: "\<And>c. c \<in> set ip \<union> set fp \<Longrightarrow> is_digit c" and ne: "ip \<noteq> []"
  shows "parseFloat ((if neg then ''-'' else []) @ ip @ ''.'' @ fp)
         = to_num ((if neg then -1 else 1) * dec_val ip fp)"
proof -
  obtain c cs where ip: "ip = c # cs" using ne by (cases ip) auto
  have c: "is_digit c" using digits ip by simp
  then have nc: "\<not> is_space c" "c \<noteq> CHR ''-''" "c \<noteq> CHR ''+''" "c \<noteq> CHR ''I''"
    by (auto simp: is_digit_def is_space_def)
  have w: "dropWhile is_digit fp = []" "takeWhile is_digit fp = fp"
    "dropWhile is_digit (ip @ CHR ''.'' # fp) = CHR ''.'' # fp" "takeWhile is_digit (ip @ CHR ''.'' # fp) = ip"
    using dropWhile_digits [of ip "CHR ''.''" fp] dropWhile_all_digits [of fp] digits by auto
  have pu: "parse_unsigned (ip @ CHR ''.'' # fp) = Some (dec_val ip fp)"
    using ne by (simp add: w parse_unsigned_def Let_def decimal_value_def parse_exponent_def)
  show ?thesis
    using nc pu by (cases neg) (simp_all add: parseFloat_def Let_def ip)
qed

lemma stroopsToNumber_big: "stroopsToNumber (ABig b) = Inr (to_num (of_int b / 10 ^ 7))"
proof -
  obtain ip fp where eq: "fromStroops_big b = (if b < 0 then ''-'' else []) @ ip @ ''.'' @ fp"
    and ne: "ip \<noteq> []" and digits: "\<And>c. c \<in> set ip \<union> set fp \<Longrightarrow> is_digit c"
    and len: "length fp = 7" and v: "int (string_to_nat 10 (ip @ fp)) = \<bar>b\<bar>"
    by (rule fromStroops_big_parts) blast
  have "(of_nat (string_to_nat 10 (ip @ fp)) :: rat) = of_int \<bar>b\<bar>" by (simp only: v [symmetric] of_int_of_nat_eq)
  then have v': "(if b < 0 then -1 else 1) * dec_val ip fp = of_int b / 10 ^ 7"
    using len by (simp add: abs_if)
  have "parseFloat (fromStroops_big b) = to_num (of_int b / 10 ^ 7)"
    unfolding eq v' [symmetric] by (rule parseFloat_parts [OF digits ne])
  then show ?thesis by (simp add: stroopsToNumber_def fromStroops_def)
qed

text \<open>
  Up to \<open>2^29\<close> units the Number made from a count of stroops is closer to it than half a stroop,
  so converting back gives the count again.
\<close>

lemma half_stroop_round:
  fixes x :: rat
  assumes "\<bar>x - of_int b / 10 ^ 7\<bar> < 1 / (2 * 10 ^ 7)"
  shows "(if x < 0 then -1 else 1) * \<lfloor>\<bar>x\<bar> * 10 ^ 7 + 1 / 2\<rfloor> = b"
proof -
  define y where "y = x * 10 ^ 7"
  have x: "x = y / 10 ^ 7" by (simp add: y_def)
  from assms have "\<bar>y - of_int b\<bar> < 1 / 2" unfolding x by (simp add: abs_if split: if_splits)
  then have y: "of_int b - 1 / 2 < y" "y < of_int b + 1 / 2" by (simp_all add: abs_if split: if_splits)
  have sgn: "x < 0 \<longleftrightarrow> y < 0" by (simp add: x)
  have ax: "\<bar>x\<bar> * 10 ^ 7 = \<bar>y\<bar>" by (simp add: x)
  show ?thesis
  proof (cases "y < 0")
    case True
    then have "\<lfloor>\<bar>y\<bar> + 1 / 2\<rfloor> = - b" unfolding floor_eq_iff using y by (simp add: abs_if)
    then show ?thesis using True sgn unfolding ax by simp
  next
    case False
    then have "\<lfloor>\<bar>y\<bar> + 1 / 2\<rfloor> = b" unfolding floor_eq_iff using y by (simp add: abs_if)
    then show ?thesis using False sgn unfolding ax by simp
  qed
qed

lemma round64_near_stroop:
  assumes "\<bar>b\<bar> < 2 ^ 29 * 10 ^ 7"
  shows "\<bar>round64 (of_int b / 10 ^ 7) - of_int b / 10 ^ 7\<bar> < 1 / (2 * 10 ^ 7)"
    and "\<bar>round64 (of_int b / 10 ^ 7)\<bar> < 10 ^ 21"
    and "\<bar>of_int b / 10 ^ 7 :: rat\<bar> \<le> 2 ^ 1000"
proof -
  let ?y = "of_int b / 10 ^ 7 :: rat"
  have "of_int \<bar>b\<bar> < (of_int (2 ^ 29 * 10 ^ 7) :: rat)" using assms by (simp only: of_int_less_iff)
  then have y: "\<bar>?y\<bar> < 2 ^ 29" by simp
  have e: "pow2 (ulp_exp ?y) / 2 \<le> 1 / 2 ^ 25 \<or> ?y = 0"
  proof (cases "?y = 0")
    case False
    have "ulp_exp ?y \<le> -24" using ulp_exp_le [of ?y 29] y False by (simp add: pow2_def)
    then have "pow2 (ulp_exp ?y) \<le> pow2 (-24)" by (rule pow2_mono)
    then show ?thesis by (simp add: pow2_def)
  qed simp
  then have err: "\<bar>round64 ?y - ?y\<bar> \<le> 1 / 2 ^ 25"
  proof
    assume "pow2 (ulp_exp ?y) / 2 \<le> 1 / 2 ^ 25"
    then show ?thesis using round64_error [of ?y] by linarith
  next
    assume "?y = 0"
    then show ?thesis by (simp only:) simp
  qed
  then show "\<bar>round64 ?y - ?y\<bar> < 1 / (2 * 10 ^ 7)" by (rule le_less_trans) simp
  show "\<bar>round64 ?y\<bar> < 10 ^ 21" using err y by (simp add: abs_if split: if_splits)
  have "(2 :: rat) ^ 29 \<le> 2 ^ 1000" by (rule power_increasing) simp_all
  with y show "\<bar>?y\<bar> \<le> 2 ^ 1000" by linarith
qed

lemma toStroops_stroopsToNumber_big:
  assumes "\<bar>b\<bar> < 2 ^ 29 * 10 ^ 7"
  shows "\<exists>n. stroopsToNumber (ABig b) = Inr n \<and> toStroops (ANum n) = Inr b"
proof -
  note r = round64_near_stroop [OF assms]
  have "toStroops (ANum (Fin (round64 (of_int b / 10 ^ 7)))) = Inr b"
    unfolding toStroops_num [OF r(2)] half_stroop_round [OF r(1)] ..
  then show ?thesis using stroopsToNumber_big [of b] to_num_finite [OF r(3)] by simp
qed

subsection \<open>Properties\<close>

text \<open>C1: Every count of stroops is printed as a decimal text that the stroop parser reads back
  as the same count, for every integer, negative ones included.\<close>

theorem stroops_text_roundtrip:
  "\<exists>t. fromStroops (ABig b) = Inr t \<and> toStroops (AStr t) = Inr b"
  by (simp add: fromStroops_def toStroops_fromStroops del: toStroops.simps)

text \<open>C30: A plain decimal text is converted to the nearest count of stroops of the rational it
  denotes, halves going up (away from zero for a text with a minus sign): no float is involved.\<close>

theorem toStroops_half_up:
  assumes "list_all is_digit ip" and "list_all is_digit fp" and "ip \<noteq> [] \<or> fp \<noteq> []"
  shows "toStroops (AStr (ip @ ''.'' @ fp)) = Inr \<lfloor>decimal_value ip fp 0 * 10 ^ 7 + 1 / 2\<rfloor>
    \<and> toStroops (AStr (''-'' @ ip @ ''.'' @ fp)) = Inr (- \<lfloor>decimal_value ip fp 0 * 10 ^ 7 + 1 / 2\<rfloor>)"
proof -
  have digits: "is_digit c" if "c \<in> set ip \<union> set fp" for c using assms(1,2) that by (auto simp: list_all_iff)
  have "trim (ip @ ''.'' @ fp) = ip @ ''.'' @ fp" "trim (''-'' @ ip @ ''.'' @ fp) = ''-'' @ ip @ ''.'' @ fp"
    using digits not_space_digit by (auto intro!: trim_no_space)
  moreover have "stroops_of_parts ip fp = \<lfloor>decimal_value ip fp 0 * 10 ^ 7 + 1 / 2\<rfloor>"
    using stroops_of_parts_rounds [of fp ip] digits by (simp add: decimal_value_def)
  ultimately show ?thesis using toStroops_text_parts [OF digits assms(3)] by simp
qed

theorem toStroops_half_up_witness:
  "toStroops (AStr ''1.23456785'') = Inr 12345679 \<and> toStroops (AStr ''-1.23456785'') = Inr (-12345679)"
proof -
  have v: "\<lfloor>decimal_value ''1'' ''23456785'' 0 * 10 ^ 7 + 1 / 2\<rfloor> = 12345679"
    by (simp add: decimal_value_def string_to_nat_def of_digits_def digit_val_def is_digit_def)
  have h: "list_all is_digit ''1''" "list_all is_digit ''23456785''" by (simp_all add: is_digit_def)
  show ?thesis using toStroops_half_up [OF h] v by simp
qed

text \<open>A count of stroops below \<open>2^29\<close> units survives the conversion to a Number and back, so
  the display amount that is stored determines the stroops.\<close>

theorem stroops_number_roundtrip:
  assumes "\<bar>b\<bar> < 2 ^ 29 * 10 ^ 7"
  shows "\<exists>n. stroopsToNumber (ABig b) = Inr n \<and> toStroops (ANum n) = Inr b \<and> parseAmount (ABig b) = Inr (b, n)"
proof -
  from toStroops_stroopsToNumber_big [OF assms] obtain n
    where "stroopsToNumber (ABig b) = Inr n" "toStroops (ANum n) = Inr b" by blast
  then show ?thesis by (simp add: parseAmount_def)
qed

theorem stroops_number_roundtrip_witness:
  "\<exists>n. stroopsToNumber (ABig 1000000001) = Inr n \<and> toStroops (ANum n) = Inr 1000000001
       \<and> parseAmount (ABig 1000000001) = Inr (1000000001, n)"
  by (rule stroops_number_roundtrip) simp

text \<open>The bound of the round trip is needed: a count of stroops that \<open>stroopsToSafeNumber\<close>
  accepts comes back one stroop larger through \<open>stroopsToNumber\<close>.\<close>

theorem stroops_number_not_exact:
  "stroopsToSafeNumber (ABig 5368709120000003) = Inr (Fin 5368709120000003)
   \<and> (\<exists>n. stroopsToNumber (ABig 5368709120000003) = Inr n \<and> toStroops (ANum n) = Inr 5368709120000004)"
proof
  have "to_num (of_int 5368709120000003) = Fin (of_int 5368709120000003)" by (rule to_num_int) simp
  then show "stroopsToSafeNumber (ABig 5368709120000003) = Inr (Fin 5368709120000003)"
    by (simp add: stroopsToSafeNumber_def max_safe_integer_def)
  let ?x = "5368709120000003 / 10000000 :: rat"
  have "round_half_even (?x / pow2 (29 - 52)) = 4503599627370499"
    by (rule round_half_even_near) (simp add: pow2_def abs_if)
  then have r: "round64 ?x = 4503599627370499 / 8388608"
    by (subst round64_eval [of 29]) (simp_all add: pow2_def)
  have "(5368709120000003 / 10000000 :: rat) \<le> 2 ^ 30" by simp
  also have "(2 :: rat) ^ 30 \<le> 2 ^ 1000" by (rule power_increasing) simp_all
  finally have n: "to_num ?x = Fin (4503599627370499 / 8388608)" using to_num_finite [of ?x] r by simp
  have "toStroops (ANum (Fin (4503599627370499 / 8388608))) = Inr 5368709120000004"
    by (subst toStroops_num) (simp_all add: floor_eq_iff)
  then show "\<exists>n. stroopsToNumber (ABig 5368709120000003) = Inr n \<and> toStroops (ANum n) = Inr 5368709120000004"
    using n by (simp add: stroopsToNumber_big)
qed

end
