(* ===== verification/Client_Amount.thy ===== *)
theory Client_Amount
  imports Stellar_Amount
begin

section \<open>Client-side amount validation\<close>

text \<open>
  \<^verbatim>\<open>frontend/src/utils/stellarAmount.js\<close>: the mirror of the backend's stroop conversion, and
  \<^verbatim>\<open>validateStellarAmount\<close>, which the payment forms call before they submit. The functions of
  the mirror carry the prefix \<open>client_\<close>.
\<close>

subsection \<open>The mirrored conversions\<close>

definition client_toStroops_text :: "string \<Rightarrow> (amount_error, int) result" where
  "client_toStroops_text str0 =
     (let negative = startsWith str0 ''-'';
          str = (if negative then tl str0 else str0)
      in if \<not> decimal_re str \<or> str = [] \<or> str = ''.'' then Inl TypeError
         else (let parts = split_on (CHR ''.'') str;
                   intPart = parts ! 0;
                   fracRaw = (case parts of _ # f # _ \<Rightarrow> f | _ \<Rightarrow> []);
                   frac = take 7 (fracRaw @ replicate 7 (CHR ''0''));
                   whole = int (string_to_nat 10 (if intPart = [] then ''0'' else intPart)) * 10000000
                           + int (string_to_nat 10 (if frac = [] then ''0'' else frac));
                   stroops = (if 7 < length fracRaw \<and> 5 \<le> digit_val (fracRaw ! 7) then whole + 1 else whole)
               in Inr (if negative then - stroops else stroops)))"

fun client_toStroops :: "amount_arg \<Rightarrow> (amount_error, int) result" where
  "client_toStroops (ABig b) = Inr b"
| "client_toStroops ANull = Inl TypeError"
| "client_toStroops (ANum x) =
     (case toFixed 7 x of None \<Rightarrow> Inl TypeError | Some str \<Rightarrow> client_toStroops_text str)"
| "client_toStroops (AStr s) = (if s = [] then Inl TypeError else client_toStroops_text (trim s))"

definition client_fromStroops_big :: "int \<Rightarrow> string" where
  "client_fromStroops_big b =
     (let a = (if b < 0 then - b else b)
      in (if b < 0 then ''-'' else []) @ int_to_string (a div 10000000) @ ''.''
         @ padStart 7 (CHR ''0'') (int_to_string (a mod 10000000)))"

definition client_compareAmounts :: "amount_arg \<Rightarrow> amount_arg \<Rightarrow> (amount_error, int) result" where
  "client_compareAmounts a b =
     (case client_toStroops a of
        Inl e \<Rightarrow> Inl e
      | Inr sa \<Rightarrow> (case client_toStroops b of
                     Inl e \<Rightarrow> Inl e
                   | Inr sb \<Rightarrow> Inr (if sa < sb then -1 else if sb < sa then 1 else 0)))"

subsection \<open>Validation\<close>

datatype amount_code =
    REQUIRED | INVALID_FORMAT | TOO_PRECISE | BELOW_MIN_STROOP | INVALID_AMOUNT
  | AMOUNT_TOO_LOW | AMOUNT_TOO_HIGH

datatype validation = Invalid amount_code | Valid string int

text \<open>\<^verbatim>\<open>.replace(/0+$/, "")\<close>.\<close>

definition strip_zeros :: "string \<Rightarrow> string" where
  "strip_zeros s = rev (dropWhile (\<lambda>c. c = CHR ''0'') (rev s))"

definition significantDecimals :: "string \<Rightarrow> nat" where
  "significantDecimals str =
     (let r = dropWhile (\<lambda>c. c \<noteq> CHR ''.'') str
      in if r = [] then 0 else length (strip_zeros (tl r)))"

text \<open>
  The text the form value is read as; \<open>None\<close> is a text in exponent notation, and a bound that
  is absent or null is \<open>None\<close>.
\<close>

fun raw_text :: "amount_arg \<Rightarrow> string option" where
  "raw_text (ANum x) =
     (case x of
        Fin _ \<Rightarrow> toFixed 7 x
      | PInf \<Rightarrow> Some ''Infinity'' | NInf \<Rightarrow> Some ''-Infinity'' | NaN \<Rightarrow> Some ''NaN'')"
| "raw_text (AStr s) = Some (trim s)"
| "raw_text (ABig b) = Some (int_to_string b)"
| "raw_text ANull = Some []"

definition below_min :: "string \<Rightarrow> amount_arg option \<Rightarrow> (amount_error, bool) result" where
  "below_min raw bound =
     (case bound of None \<Rightarrow> Inr False
      | Some m \<Rightarrow> map_sum id (\<lambda>c. c < 0) (client_compareAmounts (AStr raw) m))"

definition above_max :: "string \<Rightarrow> amount_arg option \<Rightarrow> (amount_error, bool) result" where
  "above_max raw bound =
     (case bound of None \<Rightarrow> Inr False
      | Some m \<Rightarrow> map_sum id (\<lambda>c. 0 < c) (client_compareAmounts (AStr raw) m))"

definition validate_raw ::
    "string \<Rightarrow> amount_arg option \<Rightarrow> amount_arg option \<Rightarrow> (amount_error, validation) result" where
  "validate_raw raw mn mx =
     (if raw = [] then Inr (Invalid REQUIRED)
      else if \<not> decimal_re (if startsWith raw ''-'' then tl raw else raw)
              \<or> raw = ''.'' \<or> raw = ''-'' \<or> raw = ''-.''
      then Inr (Invalid INVALID_FORMAT)
      else if DECIMALS < significantDecimals raw then Inr (Invalid TOO_PRECISE)
      else (case client_toStroops (AStr raw) of
              Inl _ \<Rightarrow> Inr (Invalid INVALID_FORMAT)
            | Inr stroops \<Rightarrow>
                if stroops \<le> 0 then
                  (if \<not> startsWith raw ''-'' \<and> list_ex (\<lambda>c. is_digit c \<and> c \<noteq> CHR ''0'') raw
                   then Inr (Invalid BELOW_MIN_STROOP) else Inr (Invalid INVALID_AMOUNT))
                else (case below_min raw mn of
                        Inl e \<Rightarrow> Inl e
                      | Inr True \<Rightarrow> Inr (Invalid AMOUNT_TOO_LOW)
                      | Inr False \<Rightarrow>
                          (case above_max raw mx of
                             Inl e \<Rightarrow> Inl e
                           | Inr True \<Rightarrow> Inr (Invalid AMOUNT_TOO_HIGH)
                           | Inr False \<Rightarrow> Inr (Valid (client_fromStroops_big stroops) stroops)))))"

definition validateStellarAmount ::
    "amount_arg \<Rightarrow> amount_arg option \<Rightarrow> amount_arg option \<Rightarrow> (amount_error, validation) result" where
  "validateStellarAmount input mn mx =
     (case raw_text input of
        None \<Rightarrow> Inr (Invalid INVALID_FORMAT)
      | Some raw \<Rightarrow> validate_raw raw mn mx)"

subsection \<open>The mirror agrees with the backend\<close>

lemma client_toStroops_text_eq: "client_toStroops_text s = toStroops_text s"
proof -
  have ne: "split_on d t \<noteq> []" for d t by (induction t) (auto split: list.splits)
  have hd: "split_on d t ! 0 = hd (split_on d t)" for d t using ne by (simp add: hd_conv_nth)
  have snd: "(case p of _ # f # _ \<Rightarrow> f | _ \<Rightarrow> []) = (if 1 < length p then p ! 1 else [])" for p :: "string list"
    by (cases p rule: remdups_adj.cases) auto
  show ?thesis
    unfolding client_toStroops_text_def toStroops_text_def stroops_of_parts_def DECIMALS_def
      STROOPS_PER_UNIT_def Let_def hd snd by simp
qed

lemma client_toStroops_eq: "client_toStroops a = toStroops a"
  by (cases a) (simp_all add: client_toStroops_text_eq DECIMALS_def split: option.split)

lemma client_fromStroops_eq: "client_fromStroops_big b = fromStroops_big b"
  by (simp add: client_fromStroops_big_def fromStroops_big_def Let_def DECIMALS_def STROOPS_PER_UNIT_def)

lemma client_compareAmounts_eq: "client_compareAmounts a b = compareAmounts a b"
  by (simp add: client_compareAmounts_def compareAmounts_def client_toStroops_eq split: sum.split)

subsection \<open>A validated text denotes exactly its stroops\<close>

text \<open>The rational that a plain unsigned decimal text denotes.\<close>

definition text_value :: "string \<Rightarrow> rat" where
  "text_value s =
     (let parts = split_on (CHR ''.'') s
      in decimal_value (hd parts) (if 1 < length parts then parts ! 1 else []) 0)"

lemma decimal_re_cases:
  assumes "decimal_re s"
  obtains (whole) "\<And>c. c \<in> set s \<Longrightarrow> is_digit c"
    | (frac) ip fp where "s = ip @ ''.'' @ fp" and "\<And>c. c \<in> set ip \<union> set fp \<Longrightarrow> is_digit c"
proof (cases "dropWhile is_digit s")
  case Nil
  then show ?thesis using whole by (auto simp: dropWhile_eq_Nil_conv)
next
  case (Cons c r)
  define ip where "ip = takeWhile is_digit s"
  have s: "s = ip @ c # r" using Cons takeWhile_dropWhile_id [of is_digit s] by (simp add: ip_def)
  have "c = CHR ''.''" "list_all is_digit r" using assms Cons by (auto simp: decimal_re_def)
  moreover have "is_digit d" if "d \<in> set ip" for d using that by (auto simp: ip_def dest: set_takeWhileD)
  ultimately show ?thesis using frac [of ip r] s by (auto simp: list_all_iff)
qed

lemma decimal_re_no_minus: "decimal_re s \<Longrightarrow> s \<noteq> [] \<Longrightarrow> hd s \<noteq> CHR ''-''"
proof (erule decimal_re_cases)
  fix ip fp
  assume "s = ip @ ''.'' @ fp" and "\<And>c. c \<in> set ip \<union> set fp \<Longrightarrow> is_digit c"
  then show "hd s \<noteq> CHR ''-''" using digits_no_minus [of ip] by (cases ip) auto
qed (rule digits_no_minus)

lemma strip_zeros_decomp: "\<exists>k. s = strip_zeros s @ replicate k (CHR ''0'')"
proof -
  let ?P = "\<lambda>c. c = CHR ''0''"
  have "rev s = takeWhile ?P (rev s) @ dropWhile ?P (rev s)" by simp
  then have "s = strip_zeros s @ rev (takeWhile ?P (rev s))"
    unfolding strip_zeros_def by (metis rev_append rev_rev_ident)
  moreover have "rev (takeWhile ?P (rev s)) = replicate (length (takeWhile ?P (rev s))) (CHR ''0'')"
    using replicate_length_same [of "rev (takeWhile ?P (rev s))" "CHR ''0''"] set_takeWhileD [of _ ?P "rev s"]
    by simp
  ultimately show ?thesis by metis
qed

lemma dec_val_strip:
  assumes "length (strip_zeros fp) \<le> 7"
  shows "\<exists>n. dec_val ip fp * 10 ^ 7 = of_int n"
proof -
  obtain k where fp: "fp = strip_zeros fp @ replicate k (CHR ''0'')" using strip_zeros_decomp by blast
  define g where "g = strip_zeros fp"
  obtain z where z: "7 = length g + z" using assms unfolding g_def by (metis le_iff_add)
  have "string_to_nat 10 (ip @ fp) = string_to_nat 10 (ip @ g) * 10 ^ k"
    using string_to_nat_append [of 10 "ip @ g" "replicate k (CHR ''0'')"] string_to_nat_zeros [of 10 k "[]"]
    by (subst fp) (simp add: g_def)
  moreover have "length fp = length g + k" by (subst fp) (simp add: g_def)
  ultimately have "dec_val ip fp * 10 ^ 7 = of_nat (string_to_nat 10 (ip @ g)) * 10 ^ z"
    by (subst z) (simp add: power_add)
  also have "\<dots> = of_int (int (string_to_nat 10 (ip @ g) * 10 ^ z))" by simp
  finally show ?thesis ..
qed

lemma plain_text_exact:
  assumes re: "decimal_re s" and ne: "s \<noteq> []" "s \<noteq> ''.''" and sig: "significantDecimals s \<le> 7"
  shows "\<exists>n. toStroops_text s = Inr n \<and> text_value s = of_int n / 10 ^ 7 \<and> 0 \<le> n"
  using re
proof (cases rule: decimal_re_cases)
  case whole
  have sp: "split_on (CHR ''.'') s = [s]" using whole by (simp add: split_on_none digits_no_dot)
  have "dec_val s [] * 10 ^ 7 = of_int (int (string_to_nat 10 s * 10 ^ 7))" by simp
  then have "stroops_of_parts s [] = int (string_to_nat 10 s * 10 ^ 7)" by (intro stroops_of_parts_exact) simp_all
  then show ?thesis
    using toStroops_text_int(1) [OF whole ne(1)] by (simp add: text_value_def sp decimal_value_def)
next
  case (frac ip fp)
  have nd: "CHR ''.'' \<notin> set ip" "CHR ''.'' \<notin> set fp" using frac(2) by (auto intro!: digits_no_dot)
  have sp: "split_on (CHR ''.'') s = [ip, fp]" using nd by (simp add: frac(1) split_on_one split_on_none)
  have "dropWhile (\<lambda>c. c \<noteq> CHR ''.'') s = CHR ''.'' # fp"
    using nd unfolding frac(1) by (subst dropWhile_append2) auto
  with sig have "length (strip_zeros fp) \<le> 7" by (simp add: significantDecimals_def)
  from dec_val_strip [OF this] obtain n where n: "dec_val ip fp * 10 ^ 7 = of_int n" ..
  have "stroops_of_parts ip fp = n" using frac(2) n by (intro stroops_of_parts_exact) auto
  moreover have "ip \<noteq> [] \<or> fp \<noteq> []" using ne frac(1) by auto
  ultimately have "toStroops_text s = Inr n"
    using toStroops_text_parts(1) [OF frac(2)] frac(1) by simp
  moreover have "text_value s = of_int n / 10 ^ 7"
    using n by (simp add: text_value_def sp decimal_value_def)
  moreover have "0 \<le> (of_int n :: rat)" unfolding n [symmetric] by simp
  ultimately show ?thesis by simp
qed

subsection \<open>Properties\<close>

text \<open>The client's stroop arithmetic is behaviourally identical to the backend's, on every
  input: conversion, printing and comparison.\<close>

theorem client_mirrors_backend:
  "client_toStroops a = toStroops a \<and> client_fromStroops_big b = fromStroops_big b
   \<and> client_compareAmounts a c = compareAmounts a c"
  by (simp add: client_toStroops_eq client_fromStroops_eq client_compareAmounts_eq)

text \<open>A form text that passes client validation denotes exactly the stroops reported with it,
  a positive amount; nothing is rounded, and the backend reads the submitted normalized text as
  those same stroops.\<close>

theorem validated_amount_exact:
  assumes "validateStellarAmount (AStr input) mn mx = Inr (Valid normalized stroops)"
  shows "text_value (trim input) = of_int stroops / 10 ^ 7 \<and> 0 < stroops
       \<and> toStroops (AStr normalized) = Inr stroops"
proof -
  let ?t = "trim input"
  have v: "validate_raw ?t mn mx = Inr (Valid normalized stroops)"
    using assms by (simp add: validateStellarAmount_def)
  have ne: "?t \<noteq> []" using v by (auto simp: validate_raw_def)
  have sig: "significantDecimals ?t \<le> 7"
    using v by (auto simp: validate_raw_def DECIMALS_def split: if_splits)
  have ts: "toStroops_text (trim ?t) = Inr stroops" and pos: "0 < stroops"
    and norm: "normalized = fromStroops_big stroops"
    using v ne by (auto simp: validate_raw_def client_toStroops_eq client_fromStroops_eq
        split: if_splits sum.splits bool.splits)
  have tt: "trim ?t = ?t" by (rule trim_trim)
  have "\<not> startsWith ?t ''-''"
  proof
    assume neg: "startsWith ?t ''-''"
    then obtain u where u: "?t = CHR ''-'' # u" using ne by (cases ?t) auto
    have re: "decimal_re u" "u \<noteq> []" "u \<noteq> ''.''" using v by (auto simp: validate_raw_def u split: if_splits)
    have "significantDecimals u \<le> 7" using sig by (simp add: u significantDecimals_def Let_def)
    from plain_text_exact [OF re this] obtain n where "toStroops_text u = Inr n" "0 \<le> n" by blast
    moreover have "hd u \<noteq> CHR ''-''" using decimal_re_no_minus [OF re(1,2)] .
    ultimately have "toStroops_text ?t = Inr (- n)" using re by (simp add: u toStroops_text_def Let_def)
    with ts tt pos \<open>0 \<le> n\<close> show False by simp
  qed
  then have "decimal_re ?t" "?t \<noteq> ''.''" using v by (auto simp: validate_raw_def split: if_splits)
  from plain_text_exact [OF this(1) ne this(2) sig] ts tt
  have "text_value ?t = of_int stroops / 10 ^ 7" by auto
  moreover have "toStroops (AStr normalized) = Inr stroops" unfolding norm by (rule toStroops_fromStroops)
  ultimately show ?thesis using pos by blast
qed

theorem validated_amount_exact_witness:
  "validateStellarAmount (AStr '' 250.5 '') (Some (AStr ''1'')) None = Inr (Valid ''250.5000000'' 2505000000)
   \<and> text_value (trim '' 250.5 '') = of_int 2505000000 / 10 ^ 7
   \<and> toStroops (AStr ''250.5000000'') = Inr 2505000000"
proof -
  have v: "validateStellarAmount (AStr '' 250.5 '') (Some (AStr ''1'')) None
           = Inr (Valid ''250.5000000'' 2505000000)"
    by code_simp
  show ?thesis using v validated_amount_exact [OF v] by blast
qed

end
