(* ===== verification/Payment_Status.thy ===== *)
theory Payment_Status
  imports Prelude
begin

section \<open>The payment lifecycle\<close>

text \<open>
  The statuses of a payment and the tables of permitted transitions
  (\<^verbatim>\<open>backend/src/constants/paymentStatus.js\<close>), the fields the payment model derives from the status
  (\<^verbatim>\<open>backend/src/models/paymentModel.js\<close>) and the confirmation state machine that ledger depth drives
  (\<^verbatim>\<open>backend/src/services/paymentConfirmationStateMachine.js\<close>, with its caller
  \<^verbatim>\<open>determineConfirmationState\<close> of \<^verbatim>\<open>stellarService.js\<close>).
\<close>

subsection \<open>Statuses and transition tables\<close>

text \<open>
  The enumeration of the model's \<^verbatim>\<open>status\<close> field: the eight values of \<^verbatim>\<open>PAYMENT_STATUS\<close> and
  \<^verbatim>\<open>REJECTED\<close>, which only the model adds.
\<close>

datatype payment_status = PENDING | SUBMITTED | SUCCESS | FAILED | DISPUTED | REFUND_PENDING
  | REFUNDED | INVALID | REJECTED

fun status_name :: "payment_status \<Rightarrow> string" where
  "status_name PENDING = ''PENDING''"
| "status_name SUBMITTED = ''SUBMITTED''"
| "status_name SUCCESS = ''SUCCESS''"
| "status_name FAILED = ''FAILED''"
| "status_name DISPUTED = ''DISPUTED''"
| "status_name REFUND_PENDING = ''REFUND_PENDING''"
| "status_name REFUNDED = ''REFUNDED''"
| "status_name INVALID = ''INVALID''"
| "status_name REJECTED = ''REJECTED''"

definition PAYMENT_STATUS_VALUES :: "payment_status list" where
  "PAYMENT_STATUS_VALUES =
     [PENDING, SUBMITTED, SUCCESS, FAILED, DISPUTED, REFUND_PENDING, REFUNDED, INVALID]"

text \<open>A status that has no entry in a table is read as one with the empty array (\<^verbatim>\<open>table[from] || []\<close>).\<close>

fun PAYMENT_STATUS_TRANSITIONS :: "payment_status \<Rightarrow> payment_status list" where
  "PAYMENT_STATUS_TRANSITIONS SUCCESS = [DISPUTED, REFUND_PENDING]"
| "PAYMENT_STATUS_TRANSITIONS REFUND_PENDING = [REFUNDED, SUCCESS]"
| "PAYMENT_STATUS_TRANSITIONS PENDING = [SUCCESS, FAILED]"
| "PAYMENT_STATUS_TRANSITIONS SUBMITTED = [FAILED]"
| "PAYMENT_STATUS_TRANSITIONS _ = []"

fun ADMIN_PAYMENT_STATUS_TRANSITIONS :: "payment_status \<Rightarrow> payment_status list" where
  "ADMIN_PAYMENT_STATUS_TRANSITIONS SUCCESS = [DISPUTED, REFUND_PENDING, REFUNDED]"
| "ADMIN_PAYMENT_STATUS_TRANSITIONS REFUND_PENDING = [REFUNDED, SUCCESS]"
| "ADMIN_PAYMENT_STATUS_TRANSITIONS PENDING = [SUCCESS, FAILED]"
| "ADMIN_PAYMENT_STATUS_TRANSITIONS SUBMITTED = [FAILED]"
| "ADMIN_PAYMENT_STATUS_TRANSITIONS DISPUTED = [REFUNDED]"
| "ADMIN_PAYMENT_STATUS_TRANSITIONS FAILED = [SUCCESS, DISPUTED]"
| "ADMIN_PAYMENT_STATUS_TRANSITIONS _ = []"

definition isTransitionAllowed :: "payment_status \<Rightarrow> payment_status \<Rightarrow> bool \<Rightarrow> bool" where
  "isTransitionAllowed from_s to_s adminOverride =
     (let tab = (if adminOverride then ADMIN_PAYMENT_STATUS_TRANSITIONS
                 else PAYMENT_STATUS_TRANSITIONS)
      in to_s \<in> set (tab from_s))"

subsection \<open>What counts as paid, and the derived fields\<close>

definition COUNTED_AS_PAID_STATUSES :: "payment_status list" where
  "COUNTED_AS_PAID_STATUSES = [SUCCESS]"

definition isCountedAsPaid :: "payment_status \<Rightarrow> bool" where
  "isCountedAsPaid status \<longleftrightarrow> status \<in> set COUNTED_AS_PAID_STATUSES"

datatype confirmation_status = CS_pending_confirmation | CS_confirmed | CS_failed

definition deriveConfirmationStatus :: "payment_status \<Rightarrow> confirmation_status" where
  "deriveConfirmationStatus status =
     (if status = SUCCESS \<or> status = REFUNDED then CS_confirmed
      else if status = FAILED \<or> status = INVALID then CS_failed
      else CS_pending_confirmation)"

definition deriveConfirmationState :: "payment_status \<Rightarrow> confirmation_status" where
  "deriveConfirmationState status = deriveConfirmationStatus status"

subsection \<open>The confirmation state machine\<close>

datatype confirmation_state = Detected | Pending | Confirmed | Finalized | Failed

fun state_name :: "confirmation_state \<Rightarrow> string" where
  "state_name Detected = ''detected''"
| "state_name Pending = ''pending''"
| "state_name Confirmed = ''confirmed''"
| "state_name Finalized = ''finalized''"
| "state_name Failed = ''failed''"

definition CONFIRMATION_STATES :: "confirmation_state list" where
  "CONFIRMATION_STATES = [Detected, Pending, Confirmed, Finalized, Failed]"

fun STATE_RANK :: "confirmation_state \<Rightarrow> nat" where
  "STATE_RANK Detected = 0"
| "STATE_RANK Pending = 1"
| "STATE_RANK Confirmed = 2"
| "STATE_RANK Finalized = 3"
| "STATE_RANK Failed = 99"

text \<open>\<open>rank_key s\<close>: the state whose key \<open>s\<close> is an own property of \<^verbatim>\<open>STATE_RANK\<close>, if there is one.\<close>

definition rank_key :: "string \<Rightarrow> confirmation_state option" where
  "rank_key s = find (\<lambda>c. state_name c = s) CONFIRMATION_STATES"

definition TERMINAL_STATES :: "confirmation_state list" where
  "TERMINAL_STATES = [Finalized, Failed]"

fun CONFIRMATION_STATE_TRANSITIONS :: "confirmation_state \<Rightarrow> confirmation_state list" where
  "CONFIRMATION_STATE_TRANSITIONS Detected = [Pending, Confirmed, Finalized, Failed]"
| "CONFIRMATION_STATE_TRANSITIONS Pending = [Confirmed, Finalized, Failed]"
| "CONFIRMATION_STATE_TRANSITIONS Confirmed = [Finalized, Failed]"
| "CONFIRMATION_STATE_TRANSITIONS Finalized = []"
| "CONFIRMATION_STATE_TRANSITIONS Failed = []"

text \<open>
  A ledger sequence is a number or \<^verbatim>\<open>null\<close>; \<^verbatim>\<open>!txLedger\<close> holds for \<^verbatim>\<open>null\<close> and for zero.
\<close>

definition falsy_ledger :: "int option \<Rightarrow> bool" where
  "falsy_ledger l \<longleftrightarrow> l = None \<or> l = Some 0"

definition computeTargetState ::
  "int option \<Rightarrow> int option \<Rightarrow> bool \<Rightarrow> int \<Rightarrow> int \<Rightarrow> confirmation_state" where
  "computeTargetState txLedger latestLedgerSequence isSuspicious
      confirmationThreshold finalizationThreshold =
     (if isSuspicious then Failed
      else if falsy_ledger txLedger \<or> falsy_ledger latestLedgerSequence then Detected
      else let depth = the latestLedgerSequence - the txLedger in
        if depth \<ge> finalizationThreshold then Finalized
        else if depth \<ge> confirmationThreshold then Confirmed
        else if depth \<ge> 1 then Pending
        else Detected)"

datatype state_error = UnknownConfirmationState string

definition resolveNextState ::
  "string option \<Rightarrow> string \<Rightarrow> (state_error, confirmation_state \<times> bool) result" where
  "resolveNextState currentState targetState =
     (case rank_key targetState of
        None \<Rightarrow> Inl (UnknownConfirmationState targetState)
      | Some target \<Rightarrow>
          let current = (case currentState of
                 None \<Rightarrow> Detected
               | Some s \<Rightarrow> (case rank_key s of None \<Rightarrow> Detected | Some c \<Rightarrow> c))
          in if current \<in> set TERMINAL_STATES then Inr (current, False)
             else if STATE_RANK target \<le> STATE_RANK current \<and> target \<noteq> Failed
             then Inr (current, False)
             else if target \<notin> set (CONFIRMATION_STATE_TRANSITIONS current)
             then Inr (current, False)
             else Inr (target, True))"

definition deriveLegacyConfirmationStatus :: "confirmation_state \<Rightarrow> confirmation_status" where
  "deriveLegacyConfirmationStatus state =
     (if state = Failed then CS_failed
      else if state = Confirmed \<or> state = Finalized then CS_confirmed
      else CS_pending_confirmation)"

definition isConfirmedOrAbove :: "confirmation_state \<Rightarrow> bool" where
  "isConfirmedOrAbove state \<longleftrightarrow> STATE_RANK state \<ge> STATE_RANK Confirmed"

text \<open>
  \<^verbatim>\<open>determineConfirmationState\<close>: the latest ledger sequence, which the code fetches from Horizon, is
  an argument, and so are the two thresholds of the configuration.
\<close>

record confirmation =
  conf_state :: confirmation_state
  conf_changed :: bool
  conf_status :: confirmation_status
  conf_latest :: int

definition determineConfirmationState ::
  "int \<Rightarrow> int \<Rightarrow> int \<Rightarrow> int option \<Rightarrow> string option \<Rightarrow> bool \<Rightarrow> (state_error, confirmation) result" where
  "determineConfirmationState cThr fThr latest txLedger currentState isSuspicious =
     (let targetState = computeTargetState txLedger (Some latest) isSuspicious cThr fThr in
      case resolveNextState currentState (state_name targetState) of
        Inl e \<Rightarrow> Inl e
      | Inr (state, changed) \<Rightarrow>
          Inr \<lparr>conf_state = state, conf_changed = changed,
               conf_status = deriveLegacyConfirmationStatus state, conf_latest = latest\<rparr>)"

subsection \<open>The derived fields of the model\<close>

text \<open>The payment model has its own derivations from the status, which are tables with a default.\<close>

fun STATUS_TO_CONFIRMATION_STATE :: "payment_status \<Rightarrow> confirmation_state option" where
  "STATUS_TO_CONFIRMATION_STATE PENDING = Some Detected"
| "STATUS_TO_CONFIRMATION_STATE SUBMITTED = Some Pending"
| "STATUS_TO_CONFIRMATION_STATE SUCCESS = Some Finalized"
| "STATUS_TO_CONFIRMATION_STATE FAILED = Some Failed"
| "STATUS_TO_CONFIRMATION_STATE REFUNDED = Some Finalized"
| "STATUS_TO_CONFIRMATION_STATE REJECTED = Some Failed"
| "STATUS_TO_CONFIRMATION_STATE _ = None"

fun STATUS_TO_CONFIRMATION_STATUS :: "payment_status \<Rightarrow> confirmation_status option" where
  "STATUS_TO_CONFIRMATION_STATUS PENDING = Some CS_pending_confirmation"
| "STATUS_TO_CONFIRMATION_STATUS SUBMITTED = Some CS_pending_confirmation"
| "STATUS_TO_CONFIRMATION_STATUS SUCCESS = Some CS_confirmed"
| "STATUS_TO_CONFIRMATION_STATUS FAILED = Some CS_failed"
| "STATUS_TO_CONFIRMATION_STATUS REFUNDED = Some CS_confirmed"
| "STATUS_TO_CONFIRMATION_STATUS REJECTED = Some CS_failed"
| "STATUS_TO_CONFIRMATION_STATUS _ = None"

definition REJECTION_STATUSES :: "payment_status list" where
  "REJECTION_STATUSES = [REJECTED]"

definition model_deriveConfirmationState :: "payment_status \<Rightarrow> confirmation_state" where
  "model_deriveConfirmationState status =
     (case STATUS_TO_CONFIRMATION_STATE status of None \<Rightarrow> Detected | Some s \<Rightarrow> s)"

definition model_deriveConfirmationStatus :: "payment_status \<Rightarrow> confirmation_status" where
  "model_deriveConfirmationStatus status =
     (case STATUS_TO_CONFIRMATION_STATUS status of None \<Rightarrow> CS_pending_confirmation | Some s \<Rightarrow> s)"

definition model_isCountedAsPaid :: "payment_status \<Rightarrow> bool" where
  "model_isCountedAsPaid status \<longleftrightarrow> status = SUCCESS \<or> status = REFUNDED"

definition isRejected :: "payment_status \<Rightarrow> bool" where
  "isRejected status \<longleftrightarrow> status \<in> set REJECTION_STATUSES"

text \<open>
  The lifecycle fields of a stored payment, and the hook that runs before every save.
  \<open>modified\<close> is \<^verbatim>\<open>this.isModified('status') || this.isNew\<close>, \<open>now\<close> the current time.
\<close>

record payment =
  status :: payment_status
  confirmationState :: confirmation_state
  confirmationStatus :: confirmation_status
  rejectedAt :: "millis option"
  isSuspicious :: bool
  suspicionReviewStatus :: string
  suspicionReviewedBy :: "string option"
  suspicionReviewedAt :: "millis option"
  suspicionReviewNote :: "string option"

definition syncDerivedLifecycleFields :: "bool \<Rightarrow> millis \<Rightarrow> payment \<Rightarrow> payment" where
  "syncDerivedLifecycleFields modified now p =
     (let q = (if modified then p\<lparr>confirmationState := model_deriveConfirmationState (status p),
                                  confirmationStatus := model_deriveConfirmationStatus (status p)\<rparr>
               else p)
      in if status q = REJECTED \<and> rejectedAt q = None then q\<lparr>rejectedAt := Some now\<rparr> else q)"

subsection \<open>Specification of the machine\<close>

text \<open>
  \<open>advance\<close> says on the states themselves what the machine promises: a terminal state stays, a
  fraud signal fails any other, and otherwise the higher of the two ranks wins. \<open>observe\<close> is one
  poll of a payment that is not suspicious, and \<open>attempts\<close> the results of a sequence of targets
  resolved one after another against the state the one before left; a target that is not a state
  is rejected and leaves the state as it was.
\<close>

definition advance :: "confirmation_state \<Rightarrow> confirmation_state \<Rightarrow> confirmation_state" where
  "advance c t = (if c = Finalized \<or> c = Failed then c
                  else if t = Failed \<or> STATE_RANK c < STATE_RANK t then t else c)"

definition observe ::
  "int \<Rightarrow> int \<Rightarrow> int option \<Rightarrow> confirmation_state \<Rightarrow> int \<Rightarrow> confirmation_state" where
  "observe cThr fThr txLedger s latest =
     (case determineConfirmationState cThr fThr latest txLedger (Some (state_name s)) False of
        Inl e \<Rightarrow> s | Inr r \<Rightarrow> conf_state r)"

fun attempts :: "confirmation_state \<Rightarrow> string list \<Rightarrow> (confirmation_state \<times> bool) list" where
  "attempts s [] = []"
| "attempts s (t # ts) =
     (case resolveNextState (Some (state_name s)) t of
        Inl e \<Rightarrow> (s, False) # attempts s ts
      | Inr (s', c) \<Rightarrow> (s', c) # attempts s' ts)"

lemma rank_key_state_name [simp]: "rank_key (state_name c) = Some c"
  by (cases c) (simp_all add: rank_key_def CONFIRMATION_STATES_def)

lemma rank_key_Some: "rank_key s = Some c \<Longrightarrow> s = state_name c"
  unfolding rank_key_def by (drule find_Some_D) simp

lemma resolveNextState_advance:
  "resolveNextState (Some (state_name c)) (state_name t) = Inr (advance c t, advance c t \<noteq> c)"
  apply (simp only: resolveNextState_def rank_key_state_name option.case Let_def)
  apply (cases c; cases t)
  apply (simp_all add: advance_def TERMINAL_STATES_def)
  done

lemma resolveNextState_unknown:
  "rank_key t = None \<Longrightarrow> resolveNextState cur t = Inl (UnknownConfirmationState t)"
  by (simp add: resolveNextState_def)

lemma resolveNextState_first:
  assumes "\<And>s. cur = Some s \<Longrightarrow> rank_key s = None"
  shows "resolveNextState cur t = resolveNextState (Some (state_name Detected)) t"
  using assms
  by (cases cur) (simp_all only: resolveNextState_def rank_key_state_name option.case)

lemma advance_permitted:
  "advance c t \<noteq> c \<Longrightarrow> advance c t \<in> set (CONFIRMATION_STATE_TRANSITIONS c)"
  by (cases c; cases t) (simp_all add: advance_def)

lemma advance_rank: "STATE_RANK c \<le> STATE_RANK (advance c t)"
  by (cases c; cases t) (simp_all add: advance_def)

lemma advance_idem [simp]: "advance (advance c t) t = advance c t"
  by (cases c; cases t) (simp_all add: advance_def)

text \<open>The confirmation table is ranked: three transitions at most lead from its first state to an end.\<close>

fun life_rank :: "confirmation_state \<Rightarrow> nat" where
  "life_rank Detected = 0"
| "life_rank Pending = 1"
| "life_rank Confirmed = 2"
| "life_rank Finalized = 3"
| "life_rank Failed = 3"

interpretation confirmation: ranked_table CONFIRMATION_STATE_TRANSITIONS life_rank 3
proof
  show "t \<in> set (CONFIRMATION_STATE_TRANSITIONS s) \<Longrightarrow> life_rank s < life_rank t" for s t
    by (cases s) auto
  show "life_rank s \<le> 3" for s by (cases s) auto
qed

interpretation lifecycle: status_table PAYMENT_STATUS_TRANSITIONS .

interpretation admin_lifecycle: status_table ADMIN_PAYMENT_STATUS_TRANSITIONS .

lemma attempts_run: "confirmation.run s (map fst (filter snd (attempts s ts)))"
proof (induction ts arbitrary: s)
  case Nil
  show ?case by simp
next
  case (Cons t ts)
  show ?case
  proof (cases "rank_key t")
    case None
    with Cons.IH show ?thesis by (simp add: resolveNextState_unknown)
  next
    case (Some u)
    then have "t = state_name u" by (rule rank_key_Some)
    with Cons.IH [of "advance s u"] advance_permitted [of s u] show ?thesis
      by (auto simp: resolveNextState_advance)
  qed
qed

subsection \<open>Properties of the confirmation machine\<close>

text \<open>However often and with whatever targets a payment is resolved, known or not, its confirmation
  state changes at most three times, each change is one the transition table permits, and a state
  that has been left is never entered again.\<close>

theorem confirmation_changes_bounded:
  "let changes = map fst (filter snd (attempts s ts)) in
     length changes \<le> 3 \<and> confirmation.run s changes \<and> s \<notin> set changes"
  using confirmation.run_bounded [OF attempts_run] confirmation.run_never_returns [OF attempts_run]
    attempts_run by (fastforce simp: Let_def intro: order_trans)

lemma observe_advance:
  "observe cThr fThr tx s l = advance s (computeTargetState tx (Some l) False cThr fThr)"
  by (simp add: observe_def determineConfirmationState_def resolveNextState_advance Let_def)

lemma target_not_failed [simp]: "computeTargetState tx l False cThr fThr \<noteq> Failed"
  by (simp add: computeTargetState_def Let_def)

lemma advance_detected: "t \<noteq> Failed \<Longrightarrow> advance Detected t = t"
  by (cases t) (simp_all add: advance_def)

lemma target_mono:
  assumes "0 < l" and "l \<le> m"
  shows "STATE_RANK (computeTargetState tx (Some l) False cThr fThr)
       \<le> STATE_RANK (computeTargetState tx (Some m) False cThr fThr)"
  using assms by (auto simp: computeTargetState_def falsy_ledger_def Let_def)

lemma advance_max:
  assumes "c \<noteq> Failed" "t \<noteq> Failed"
  shows "advance c t = (if STATE_RANK c < STATE_RANK t then t else c)"
  using assms by (cases c; cases t) (simp_all add: advance_def)

lemma STATE_RANK_inj: "STATE_RANK c = STATE_RANK d \<Longrightarrow> c = d"
  by (cases c; cases d) simp_all

lemma advance_target:
  assumes "0 < l" and "0 < m"
  shows "advance (computeTargetState tx (Some l) False cThr fThr)
                 (computeTargetState tx (Some m) False cThr fThr)
       = computeTargetState tx (Some (max l m)) False cThr fThr"
proof (cases "l \<le> m")
  case True
  with assms target_mono [of l m tx cThr fThr] show ?thesis
    by (auto simp: advance_max max_def intro: STATE_RANK_inj)
next
  case False
  with assms target_mono [of m l tx cThr fThr] show ?thesis
    by (auto simp: advance_max max_def)
qed

lemma observe_fold:
  assumes "\<forall>l\<in>set ls. 0 < l" and "0 < m"
  shows "foldl (observe cThr fThr tx) (computeTargetState tx (Some m) False cThr fThr) ls
       = computeTargetState tx (Some (Max (set (m # ls)))) False cThr fThr"
  using assms
proof (induction ls arbitrary: m)
  case Nil
  show ?case by simp
next
  case (Cons l ls)
  from Cons.prems have "0 < l" "0 < max m l" and ls: "\<forall>l\<in>set ls. 0 < l" by auto
  have "Max (set (max m l # ls)) = Max (set (m # l # ls))"
    by (cases "ls = []") (simp_all add: max.assoc)
  with Cons.IH [OF ls \<open>0 < max m l\<close>] \<open>0 < l\<close> Cons.prems(2) show ?case
    by (simp add: observe_advance advance_target)
qed

text \<open>C37: Whatever order, repetition or lag the polls of the latest ledger have, a payment that is not
  suspicious ends in exactly the state its deepest observation gives it: re-polling, replays and
  lagging replicas neither regress nor over-advance it.\<close>

theorem confirmation_order_independent:
  assumes "ls \<noteq> []" and "\<forall>l\<in>set ls. 0 < l"
  shows "foldl (observe cThr fThr tx) Detected ls
       = computeTargetState tx (Some (Max (set ls))) False cThr fThr"
proof -
  from assms obtain l ls' where ls: "ls = l # ls'" by (cases ls) auto
  with assms observe_fold [of ls' l] show ?thesis
    by (simp add: observe_advance advance_detected)
qed

theorem confirmation_order_independent_witness:
  "foldl (observe 2 10 (Some 100)) Detected [101, 105, 101, 103] = Confirmed"
proof -
  have "Max (set [101, 105, 101, 103 :: int]) = 105" by code_simp
  with confirmation_order_independent [of "[101, 105, 101, 103]" 2 10 "Some 100"] show ?thesis
    by (simp add: computeTargetState_def falsy_ledger_def)
qed

text \<open>The test for having reached at least the confirmed rank also accepts the failed state, whose
  rank is 99: on every other state it agrees with the legacy status being confirmed.\<close>

theorem isConfirmedOrAbove_failed:
  "isConfirmedOrAbove s \<longleftrightarrow> deriveLegacyConfirmationStatus s = CS_confirmed \<or> s = Failed"
  by (cases s) (simp_all add: isConfirmedOrAbove_def deriveLegacyConfirmationStatus_def)

subsection \<open>Properties of the lifecycle\<close>

text \<open>\<open>after_success ts\<close>: every refunded status in the run comes after a success.\<close>

fun after_success :: "payment_status list \<Rightarrow> bool" where
  "after_success [] = True"
| "after_success (t # ts) = (t = SUCCESS \<or> t \<noteq> REFUNDED \<and> after_success ts)"

lemma normal_after_success:
  "s \<noteq> SUCCESS \<Longrightarrow> s \<noteq> REFUND_PENDING \<Longrightarrow> lifecycle.run s ts \<Longrightarrow> after_success ts"
proof (induction ts arbitrary: s)
  case Nil
  show ?case by simp
next
  case (Cons t ts)
  then have "t = SUCCESS \<or> t = FAILED" by (cases s) auto
  with Cons show ?case by (cases ts) auto
qed

lemma normal_admin: "isTransitionAllowed s t False \<Longrightarrow> isTransitionAllowed s t True"
  by (cases s) (auto simp: isTransitionAllowed_def)

lemma run_normal_admin: "lifecycle.run s ts \<Longrightarrow> admin_lifecycle.run s ts"
  using normal_admin by (induction ts arbitrary: s) (auto simp: isTransitionAllowed_def)

text \<open>On the normal path, a payment that starts pending or submitted is refunded only after it has
  been successful, a refunded, disputed, failed, invalid or rejected payment moves nowhere, and
  every normal transition is one an administrator may make too.\<close>

theorem normal_lifecycle:
  assumes "lifecycle.run s ts"
  shows "(s = PENDING \<or> s = SUBMITTED \<longrightarrow> after_success ts)
       \<and> (s \<in> {REFUNDED, DISPUTED, FAILED, INVALID, REJECTED} \<longrightarrow> ts = [])
       \<and> admin_lifecycle.run s ts"
proof -
  have "s = PENDING \<or> s = SUBMITTED \<longrightarrow> after_success ts"
    using normal_after_success [OF _ _ assms] by auto
  moreover have "s \<in> {REFUNDED, DISPUTED, FAILED, INVALID, REJECTED} \<longrightarrow> ts = []"
    using lifecycle.run_terminal [OF _ assms] by auto
  ultimately show ?thesis using run_normal_admin [OF assms] by blast
qed

theorem normal_lifecycle_witness:
  "lifecycle.run PENDING [SUCCESS, REFUND_PENDING, SUCCESS, REFUND_PENDING, REFUNDED]
   \<and> after_success [SUCCESS, REFUND_PENDING, SUCCESS, REFUND_PENDING, REFUNDED]"
proof -
  have "lifecycle.run PENDING [SUCCESS, REFUND_PENDING, SUCCESS, REFUND_PENDING, REFUNDED]" by simp
  with normal_lifecycle [OF this] show ?thesis by blast
qed

text \<open>On the administrator's path a payment that never succeeded can become refunded: it fails, is
  escalated to a dispute and the dispute is resolved by a refund. The payment model then counts it
  as paid, and the shared constants do not.\<close>

theorem refund_without_success:
  "admin_lifecycle.run PENDING [FAILED, DISPUTED, REFUNDED]
   \<and> \<not> after_success [FAILED, DISPUTED, REFUNDED]
   \<and> model_isCountedAsPaid REFUNDED \<and> \<not> isCountedAsPaid REFUNDED"
  by (simp add: model_isCountedAsPaid_def isCountedAsPaid_def COUNTED_AS_PAID_STATUSES_def)

text \<open>The two derivations of the confirmation status, the one of the shared constants and the one of
  the payment model, disagree exactly on invalid and on rejected payments, and the two predicates
  for being counted as paid disagree exactly on refunded ones.\<close>

theorem derivations_disagree:
  "(deriveConfirmationStatus s = model_deriveConfirmationStatus s
      \<longleftrightarrow> s \<notin> {INVALID, REJECTED})
   \<and> (isCountedAsPaid s = model_isCountedAsPaid s \<longleftrightarrow> s \<noteq> REFUNDED)"
  by (cases s) (simp_all add: deriveConfirmationStatus_def model_deriveConfirmationStatus_def
      isCountedAsPaid_def model_isCountedAsPaid_def COUNTED_AS_PAID_STATUSES_def)

end
