(* ===== verification/Payment_Admin.thy ===== *)
theory Payment_Admin
  imports Payment_Status JS_String
begin

section \<open>Administrator changes to payments\<close>

text \<open>
  The status endpoints of \<^verbatim>\<open>backend/src/controllers/paymentAdminController.js\<close>: one payment, many
  payments, and the review of a flagged payment. The collection of payments is a function from
  document identities to payments, and the query \<^verbatim>\<open>Payment.findOne({ schoolId, txHash })\<close> of the
  request's school is the parameter \<open>find_one\<close>, which gives the identity of the document it picks; a
  save changes none of the fields it filters on. A save that the database refuses is not modelled.
\<close>

record audit_entry =
  audit_action :: string
  audit_performedBy :: string
  audit_targetId :: string
  audit_from :: string
  audit_to :: string
  audit_reason :: "string option"

record 'id admin_state =
  payments :: "'id \<Rightarrow> payment"
  auditLog :: "audit_entry list"

datatype api_error = NOT_FOUND | INVALID_TRANSITION | VALIDATION_ERROR | BATCH_TOO_LARGE | NOT_FLAGGED

text \<open>\<^verbatim>\<open>payment.save()\<close> with a modified status, and the audit entry that follows it.\<close>

definition applyStatusTransition ::
  "(string \<Rightarrow> 'id option) \<Rightarrow> millis \<Rightarrow> string option \<Rightarrow> string \<Rightarrow> string \<Rightarrow> string \<Rightarrow> 'id admin_state
     \<Rightarrow> 'id admin_state \<times> (api_error, payment_status \<times> payment) result" where
  "applyStatusTransition find_one now performedBy txHash newStatus reason st =
     (case find_one txHash of
        None \<Rightarrow> (st, Inl NOT_FOUND)
      | Some i \<Rightarrow>
          let payment = payments st i; previousStatus = status payment in
          case find (\<lambda>t. status_name t = newStatus) (ADMIN_PAYMENT_STATUS_TRANSITIONS previousStatus) of
            None \<Rightarrow> (st, Inl INVALID_TRANSITION)
          | Some t \<Rightarrow>
              let updated = syncDerivedLifecycleFields True now (payment\<lparr>status := t\<rparr>) in
              (st\<lparr>payments := (payments st)(i := updated),
                  auditLog := auditLog st @
                    [\<lparr>audit_action = ''payment_status_update'',
                      audit_performedBy = (case performedBy of None \<Rightarrow> ''unknown'' | Some u \<Rightarrow> u),
                      audit_targetId = txHash, audit_from = status_name previousStatus,
                      audit_to = newStatus, audit_reason = Some reason\<rparr>]\<rparr>,
               Inr (previousStatus, updated)))"

definition falsy_text :: "string option \<Rightarrow> bool" where
  "falsy_text s \<longleftrightarrow> s = None \<or> s = Some []"

definition validateStatusChange :: "string option \<Rightarrow> string option \<Rightarrow> api_error option" where
  "validateStatusChange newStatus reason =
     (if falsy_text newStatus \<or> falsy_text reason then Some VALIDATION_ERROR
      else if newStatus = Some (status_name PENDING) then Some INVALID_TRANSITION
      else None)"

definition updatePaymentStatus ::
  "(string \<Rightarrow> 'id option) \<Rightarrow> millis \<Rightarrow> string option \<Rightarrow> string \<Rightarrow> string option \<Rightarrow> string option
     \<Rightarrow> 'id admin_state \<Rightarrow> 'id admin_state \<times> (api_error, payment) result" where
  "updatePaymentStatus find_one now performedBy txHash newStatus reason st =
     (case validateStatusChange newStatus reason of
        Some e \<Rightarrow> (st, Inl e)
      | None \<Rightarrow>
          (case applyStatusTransition find_one now performedBy txHash (the newStatus) (the reason) st of
             (st', Inl e) \<Rightarrow> (st', Inl e)
           | (st', Inr (_, p)) \<Rightarrow> (st', Inr p)))"

text \<open>The \<^verbatim>\<open>txHashes\<close> field of a bulk request: an array of JSON values, or something else.\<close>

datatype hash_value = HStr string | HOther
datatype hashes_arg = HArray "hash_value list" | HNotArray

fun bad_hash :: "hash_value \<Rightarrow> bool" where
  "bad_hash (HStr s) \<longleftrightarrow> trim s = []"
| "bad_hash HOther \<longleftrightarrow> True"

fun hash_text :: "hash_value \<Rightarrow> string" where
  "hash_text (HStr s) = s"
| "hash_text HOther = []"

fun validateTxHashes :: "nat \<Rightarrow> hashes_arg \<Rightarrow> api_error option" where
  "validateTxHashes limit HNotArray = Some VALIDATION_ERROR"
| "validateTxHashes limit (HArray txHashes) =
     (if txHashes = [] then Some VALIDATION_ERROR
      else if length txHashes > limit then Some BATCH_TOO_LARGE
      else if list_ex bad_hash txHashes then Some VALIDATION_ERROR
      else if length (remdups txHashes) \<noteq> length txHashes then Some VALIDATION_ERROR
      else None)"

record bulk_item =
  item_txHash :: string
  item_outcome :: "(api_error, payment_status) result"

record bulk_reply =
  requested :: nat
  updated :: nat
  failed_count :: nat
  results :: "bulk_item list"

text \<open>The loop of the bulk endpoint takes the hashes one after another; its clock may have moved on.\<close>

fun bulk_loop ::
  "(string \<Rightarrow> 'id option) \<Rightarrow> millis \<Rightarrow> string option \<Rightarrow> string \<Rightarrow> string \<Rightarrow> string list \<Rightarrow> 'id admin_state
     \<Rightarrow> 'id admin_state \<times> bulk_item list" where
  "bulk_loop find_one now performedBy newStatus reason [] st = (st, [])"
| "bulk_loop find_one now performedBy newStatus reason (txHash # hs) st =
     (let (st', outcome) = applyStatusTransition find_one now performedBy txHash newStatus reason st;
          item = \<lparr>item_txHash = txHash,
                  item_outcome = (case outcome of Inl e \<Rightarrow> Inl e | Inr (prev, _) \<Rightarrow> Inr prev)\<rparr>;
          (st'', items) = bulk_loop find_one now performedBy newStatus reason hs st'
      in (st'', item # items))"

definition item_updated :: "bulk_item \<Rightarrow> bool" where
  "item_updated it = (case item_outcome it of Inl _ \<Rightarrow> False | Inr _ \<Rightarrow> True)"

definition bulkUpdatePaymentStatus ::
  "nat \<Rightarrow> (string \<Rightarrow> 'id option) \<Rightarrow> millis \<Rightarrow> string option \<Rightarrow> hashes_arg \<Rightarrow> string option \<Rightarrow> string option
     \<Rightarrow> 'id admin_state \<Rightarrow> 'id admin_state \<times> (api_error, bulk_reply) result" where
  "bulkUpdatePaymentStatus limit find_one now performedBy txHashes newStatus reason st =
     (case validateTxHashes limit txHashes of
        Some e \<Rightarrow> (st, Inl e)
      | None \<Rightarrow>
          (case validateStatusChange newStatus reason of
             Some e \<Rightarrow> (st, Inl e)
           | None \<Rightarrow>
               let hs = (case txHashes of HArray vs \<Rightarrow> map hash_text vs | HNotArray \<Rightarrow> []);
                   (st', items) = bulk_loop find_one now performedBy (the newStatus) (the reason) hs st;
                   updatedCount = length (filter item_updated items)
               in (st', Inr \<lparr>requested = length hs, updated = updatedCount,
                             failed_count = length hs - updatedCount, results = items\<rparr>)))"

text \<open>The review of a flagged payment; \<open>note\<close> is stored as given unless it is empty or missing.\<close>

definition reviewSuspiciousPayment ::
  "(string \<Rightarrow> 'id option) \<Rightarrow> millis \<Rightarrow> string option \<Rightarrow> string \<Rightarrow> string \<Rightarrow> string option
     \<Rightarrow> 'id admin_state \<Rightarrow> 'id admin_state \<times> (api_error, payment) result" where
  "reviewSuspiciousPayment find_one now performedBy txHash action note st =
     (if action \<noteq> ''clear'' \<and> action \<noteq> ''confirm_fraud'' then (st, Inl VALIDATION_ERROR)
      else case find_one txHash of
        None \<Rightarrow> (st, Inl NOT_FOUND)
      | Some i \<Rightarrow>
          let payment = payments st i in
          if \<not> isSuspicious payment \<and> suspicionReviewStatus payment = ''flagged''
          then (st, Inl NOT_FLAGGED)
          else let
            previousStatus = suspicionReviewStatus payment;
            reviewer = (case performedBy of None \<Rightarrow> ''unknown'' | Some u \<Rightarrow> u);
            note' = (if falsy_text note then None else note);
            p1 = payment\<lparr>suspicionReviewStatus :=
                    (if action = ''clear'' then ''cleared'' else ''confirmed_fraud''),
                  suspicionReviewedBy := Some reviewer, suspicionReviewedAt := Some now,
                  suspicionReviewNote := note'\<rparr>;
            p2 = (if action = ''clear'' then p1\<lparr>isSuspicious := False\<rparr> else p1);
            p3 = syncDerivedLifecycleFields False now p2
          in (st\<lparr>payments := (payments st)(i := p3),
                 auditLog := auditLog st @
                   [\<lparr>audit_action = ''payment_suspicion_review'', audit_performedBy = reviewer,
                     audit_targetId = txHash, audit_from = previousStatus,
                     audit_to = suspicionReviewStatus p3, audit_reason = note'\<rparr>]\<rparr>,
              Inr p3))"

subsection \<open>One transition\<close>

text \<open>
  \<open>lockstep p\<close>: the derived fields are those the model derives from the status, which is what the
  save hook is there to ensure.
\<close>

definition lockstep :: "payment \<Rightarrow> bool" where
  "lockstep p \<longleftrightarrow> confirmationState p = model_deriveConfirmationState (status p)
              \<and> confirmationStatus p = model_deriveConfirmationStatus (status p)"

lemma sync_status [simp]: "status (syncDerivedLifecycleFields m now p) = status p"
  by (simp add: syncDerivedLifecycleFields_def Let_def)

lemma sync_lockstep: "m \<or> lockstep p \<Longrightarrow> lockstep (syncDerivedLifecycleFields m now p)"
  by (auto simp: syncDerivedLifecycleFields_def lockstep_def Let_def)

lemma find_status: "find (\<lambda>t. status_name t = n) ts = Some t \<Longrightarrow> t \<in> set ts \<and> status_name t = n"
  by (drule find_Some_D) simp

lemma apply_lockstep:
  assumes "applyStatusTransition find_one now u h n r st = (st', out)"
    and "\<And>i. lockstep (payments st i)"
  shows "lockstep (payments st' i)"
  using assms
  by (auto simp: applyStatusTransition_def Let_def sync_lockstep split: option.splits)

text \<open>The outcome for one hash and the payment it leaves depend on the document found alone.\<close>

lemma apply_local:
  assumes "\<And>i. find_one h = Some i \<Longrightarrow> payments st i = payments st0 i"
  shows "snd (applyStatusTransition find_one now u h n r st)
       = snd (applyStatusTransition find_one now u h n r st0)"
    and "find_one h = Some i \<Longrightarrow>
         payments (fst (applyStatusTransition find_one now u h n r st)) i
       = payments (fst (applyStatusTransition find_one now u h n r st0)) i"
  using assms by (auto simp: applyStatusTransition_def Let_def split: option.splits)

lemma apply_frame:
  "find_one h \<noteq> Some i \<Longrightarrow>
   payments (fst (applyStatusTransition find_one now u h n r st)) i = payments st i"
  by (auto simp: applyStatusTransition_def Let_def split: option.splits)

text \<open>What one transition appends to the audit log.\<close>

definition new_entries ::
  "(string \<Rightarrow> 'id option) \<Rightarrow> millis \<Rightarrow> string option \<Rightarrow> string \<Rightarrow> string \<Rightarrow> 'id admin_state \<Rightarrow> string
     \<Rightarrow> audit_entry list" where
  "new_entries find_one now u n r st h =
     drop (length (auditLog st)) (auditLog (fst (applyStatusTransition find_one now u h n r st)))"

lemma apply_log:
  "auditLog (fst (applyStatusTransition find_one now u h n r st))
   = auditLog st @ new_entries find_one now u n r st h"
  by (auto simp: new_entries_def applyStatusTransition_def Let_def split: option.splits)

lemma new_entries_local:
  assumes "\<And>i. find_one h = Some i \<Longrightarrow> payments st i = payments st0 i"
  shows "new_entries find_one now u n r st h = new_entries find_one now u n r st0 h"
  using assms by (auto simp: new_entries_def applyStatusTransition_def Let_def split: option.splits)

subsection \<open>Many transitions\<close>

definition bulk_item_of ::
  "(string \<Rightarrow> 'id option) \<Rightarrow> millis \<Rightarrow> string option \<Rightarrow> string \<Rightarrow> string \<Rightarrow> 'id admin_state \<Rightarrow> string
     \<Rightarrow> bulk_item" where
  "bulk_item_of find_one now u n r st h =
     \<lparr>item_txHash = h,
      item_outcome = (case snd (applyStatusTransition find_one now u h n r st) of
         Inl e \<Rightarrow> Inl e | Inr (prev, _) \<Rightarrow> Inr prev)\<rparr>"

lemma bulk_loop_Cons:
  "bulk_loop find_one now u n r (h # hs) st =
     (let rest = bulk_loop find_one now u n r hs (fst (applyStatusTransition find_one now u h n r st))
      in (fst rest, bulk_item_of find_one now u n r st h # snd rest))"
  by (simp add: bulk_item_of_def Let_def split_beta)

declare bulk_loop.simps(2) [simp del]

lemma bulk_loop_frame:
  "(\<And>h. h \<in> set hs \<Longrightarrow> find_one h \<noteq> Some i) \<Longrightarrow>
   payments (fst (bulk_loop find_one now u n r hs st)) i = payments st i"
  by (induction hs arbitrary: st) (simp_all add: bulk_loop_Cons Let_def apply_frame)

lemma update_state:
  "fst (updatePaymentStatus find_one now u h n r st) =
     (case validateStatusChange n r of Some e \<Rightarrow> st
      | None \<Rightarrow> fst (applyStatusTransition find_one now u h (the n) (the r) st))"
  by (simp add: updatePaymentStatus_def split: option.split prod.split sum.split)

lemma bulk_state:
  "fst (bulkUpdatePaymentStatus limit find_one now u hs n r st) =
     (case validateTxHashes limit hs of Some e \<Rightarrow> st
      | None \<Rightarrow> (case validateStatusChange n r of Some e \<Rightarrow> st
         | None \<Rightarrow> fst (bulk_loop find_one now u (the n) (the r)
             (case hs of HArray vs \<Rightarrow> map hash_text vs | HNotArray \<Rightarrow> []) st)))"
  by (simp add: bulkUpdatePaymentStatus_def Let_def split_beta split: option.split)

text \<open>
  \<open>inj_find find_one\<close>: a document that the query for one hash picks is not picked for another,
  which holds because the query filters on the hash.
\<close>

definition inj_find :: "(string \<Rightarrow> 'id option) \<Rightarrow> bool" where
  "inj_find find_one \<longleftrightarrow> (\<forall>h h' i. find_one h = Some i \<longrightarrow> find_one h' = Some i \<longrightarrow> h = h')"

lemma bulk_loop_independent:
  assumes "inj_find find_one" and "distinct hs"
    and "\<And>h i. h \<in> set hs \<Longrightarrow> find_one h = Some i \<Longrightarrow> payments st i = payments st0 i"
  shows "snd (bulk_loop find_one now u n r hs st) = map (bulk_item_of find_one now u n r st0) hs
       \<and> auditLog (fst (bulk_loop find_one now u n r hs st))
         = auditLog st @ concat (map (new_entries find_one now u n r st0) hs)
       \<and> (\<forall>h\<in>set hs. \<forall>i. find_one h = Some i \<longrightarrow>
            payments (fst (bulk_loop find_one now u n r hs st)) i
            = payments (fst (applyStatusTransition find_one now u h n r st0)) i)"
  using assms(2,3)
proof (induction hs arbitrary: st)
  case Nil
  show ?case by simp
next
  case (Cons h hs)
  let ?st' = "fst (applyStatusTransition find_one now u h n r st)"
  have "payments ?st' i = payments st0 i" if "h' \<in> set hs" "find_one h' = Some i" for h' i
  proof -
    from that Cons.prems(1) assms(1) have "find_one h \<noteq> Some i" unfolding inj_find_def by fastforce
    with that Cons.prems(2) [of h' i] show ?thesis by (simp add: apply_frame)
  qed
  moreover have "distinct hs" using Cons.prems(1) by simp
  ultimately have IH: "snd (bulk_loop find_one now u n r hs ?st') = map (bulk_item_of find_one now u n r st0) hs"
    "auditLog (fst (bulk_loop find_one now u n r hs ?st'))
       = auditLog ?st' @ concat (map (new_entries find_one now u n r st0) hs)"
    "\<forall>h\<in>set hs. \<forall>i. find_one h = Some i \<longrightarrow>
       payments (fst (bulk_loop find_one now u n r hs ?st')) i
       = payments (fst (applyStatusTransition find_one now u h n r st0)) i"
    using Cons.IH [of ?st'] by blast+
  have hd: "find_one h = Some i \<Longrightarrow> payments st i = payments st0 i" for i
    using Cons.prems(2) [of h i] by simp
  have "payments (fst (bulk_loop find_one now u n r hs ?st')) i = payments ?st' i"
    if "find_one h = Some i" for i
    using that Cons.prems(1) assms(1)
    by (intro bulk_loop_frame) (auto simp: inj_find_def)
  then have "payments (fst (bulk_loop find_one now u n r hs ?st')) i
      = payments (fst (applyStatusTransition find_one now u h n r st0)) i"
    if "find_one h = Some i" for i
    using that apply_local(2) [where find_one = find_one and h = h and st = st and st0 = st0, OF hd that]
    by simp
  moreover have "bulk_item_of find_one now u n r st h = bulk_item_of find_one now u n r st0 h"
    using apply_local(1) [where find_one = find_one and h = h and st = st and st0 = st0, OF hd]
    by (simp add: bulk_item_of_def)
  moreover have "new_entries find_one now u n r st h = new_entries find_one now u n r st0 h"
    by (rule new_entries_local) (rule hd)
  ultimately show ?case using IH by (simp add: bulk_loop_Cons Let_def apply_log)
qed

lemma hash_texts:
  assumes "validateTxHashes limit (HArray vs) = None"
  shows "distinct (map hash_text vs)" and "vs \<noteq> []" and "length vs \<le> limit"
proof -
  from assms have "vs \<noteq> []" "length vs \<le> limit" "\<not> list_ex bad_hash vs"
    and len: "length (remdups vs) = length vs" by (auto split: if_splits)
  then show "vs \<noteq> []" "length vs \<le> limit" by blast+
  from len have "distinct vs" using length_remdups_eq by fastforce
  moreover have "inj_on hash_text (set vs)"
  proof (rule inj_onI)
    fix x y assume "x \<in> set vs" "y \<in> set vs" "hash_text x = hash_text y"
    with \<open>\<not> list_ex bad_hash vs\<close> show "x = y" by (cases x; cases y) (auto simp: list_ex_iff)
  qed
  ultimately show "distinct (map hash_text vs)" by (simp add: distinct_map)
qed

text \<open>A bulk status change that is accepted does to each payment exactly what the single-payment
  endpoint would have done to it on the state before the request, reports the same outcome for it,
  in the order of the request, leaves every other payment alone, and writes the audit entries the
  single requests would have written.\<close>

theorem bulk_update_is_single_updates:
  assumes "bulkUpdatePaymentStatus limit find_one now u (HArray vs) (Some n) (Some r) st = (st', Inr reply)"
    and "inj_find find_one"
  shows "map item_txHash (results reply) = map hash_text vs
       \<and> updated reply + failed_count reply = requested reply
       \<and> results reply = map (bulk_item_of find_one now u n r st) (map hash_text vs)
       \<and> auditLog st' = auditLog st @ concat (map (new_entries find_one now u n r st) (map hash_text vs))
       \<and> (\<forall>v\<in>set vs. \<forall>i. find_one (hash_text v) = Some i \<longrightarrow>
            payments st' i
            = payments (fst (updatePaymentStatus find_one now u (hash_text v) (Some n) (Some r) st)) i)
       \<and> (\<forall>i. (\<forall>v\<in>set vs. find_one (hash_text v) \<noteq> Some i) \<longrightarrow> payments st' i = payments st i)"
proof -
  from assms(1) have valid: "validateTxHashes limit (HArray vs) = None"
      "validateStatusChange (Some n) (Some r) = None"
    and st': "st' = fst (bulk_loop find_one now u n r (map hash_text vs) st)"
    and reply: "results reply = snd (bulk_loop find_one now u n r (map hash_text vs) st)"
      "requested reply = length vs"
      "updated reply = length (filter item_updated (results reply))"
      "failed_count reply = length vs - length (filter item_updated (results reply))"
    by (auto simp: bulkUpdatePaymentStatus_def Let_def split_beta
        simp del: validateTxHashes.simps split: option.splits)
  note loop = bulk_loop_independent [OF assms(2) hash_texts(1) [OF valid(1)], of st st now u n r]
  from loop have res: "results reply = map (bulk_item_of find_one now u n r st) (map hash_text vs)"
    and log: "auditLog st' = auditLog st @ concat (map (new_entries find_one now u n r st) (map hash_text vs))"
    unfolding st' reply by blast+
  have single: "payments (fst (applyStatusTransition find_one now u h n r st)) i
      = payments (fst (updatePaymentStatus find_one now u h (Some n) (Some r) st)) i" for h i
    using valid(2) by (simp add: update_state)
  have "payments st' i
      = payments (fst (updatePaymentStatus find_one now u (hash_text v) (Some n) (Some r) st)) i"
    if "v \<in> set vs" "find_one (hash_text v) = Some i" for v i
    using loop that unfolding st' single [symmetric] by auto
  moreover have "payments st' i = payments st i"
    if "\<forall>v\<in>set vs. find_one (hash_text v) \<noteq> Some i" for i
    using that unfolding st' by (intro bulk_loop_frame) auto
  moreover have "length (filter item_updated (results reply)) \<le> length vs"
    using length_filter_le [of item_updated "results reply"] res by simp
  ultimately show ?thesis using res log reply by (simp add: bulk_item_of_def o_def)
qed

definition sample_payment :: "payment_status \<Rightarrow> payment" where
  "sample_payment s = \<lparr>status = s, confirmationState = model_deriveConfirmationState s,
     confirmationStatus = model_deriveConfirmationStatus s, rejectedAt = None,
     isSuspicious = False, suspicionReviewStatus = ''flagged'', suspicionReviewedBy = None,
     suspicionReviewedAt = None, suspicionReviewNote = None\<rparr>"

definition sample_state :: "nat admin_state" where
  "sample_state = \<lparr>payments = (\<lambda>i. sample_payment (if i = 0 then FAILED else REFUNDED)), auditLog = []\<rparr>"

definition sample_find :: "string \<Rightarrow> nat option" where
  "sample_find h = (if h = ''a'' then Some 0 else if h = ''b'' then Some 1 else None)"

theorem bulk_update_is_single_updates_witness:
  "\<exists>st' reply. bulkUpdatePaymentStatus 100 sample_find 5 None (HArray [HStr ''a'', HStr ''b'', HStr ''c''])
       (Some ''SUCCESS'') (Some ''ok'') sample_state = (st', Inr reply)
     \<and> map item_outcome (results reply) = [Inr FAILED, Inl INVALID_TRANSITION, Inl NOT_FOUND]
     \<and> payments st' 1 = sample_payment REFUNDED"
proof -
  let ?run = "bulkUpdatePaymentStatus 100 sample_find 5 None (HArray [HStr ''a'', HStr ''b'', HStr ''c''])
       (Some ''SUCCESS'') (Some ''ok'') sample_state"
  have "inj_find sample_find" by (auto simp: inj_find_def sample_find_def split: if_splits)
  moreover obtain st' reply where run: "?run = (st', Inr reply)"
    by (auto simp: bulkUpdatePaymentStatus_def validateStatusChange_def falsy_text_def Let_def split_beta
        trim_def is_space_def)
  ultimately have
    "results reply = map (bulk_item_of sample_find 5 None ''SUCCESS'' ''ok'' sample_state) [''a'', ''b'', ''c'']"
    and one: "payments st' 1
      = payments (fst (updatePaymentStatus sample_find 5 None ''b'' (Some ''SUCCESS'') (Some ''ok'') sample_state)) 1"
    using bulk_update_is_single_updates [OF run] by (simp_all add: sample_find_def)
  moreover have "payments (fst (updatePaymentStatus sample_find 5 None ''b'' (Some ''SUCCESS'') (Some ''ok'') sample_state)) 1
      = sample_payment REFUNDED"
    by (simp add: updatePaymentStatus_def validateStatusChange_def falsy_text_def sample_find_def
        applyStatusTransition_def sample_state_def sample_payment_def)
  ultimately show ?thesis using run
    by (simp add: bulk_item_of_def applyStatusTransition_def sample_find_def sample_state_def
        sample_payment_def Let_def)
qed

subsection \<open>The admin state keeps its derived fields\<close>

lemma bulk_loop_lockstep:
  "(\<And>i. lockstep (payments st i)) \<Longrightarrow> lockstep (payments (fst (bulk_loop find_one now u n r hs st)) i)"
proof (induction hs arbitrary: st)
  case Nil
  then show ?case by simp
next
  case (Cons h hs)
  have "lockstep (payments (fst (applyStatusTransition find_one now u h n r st)) i)" for i
    using apply_lockstep [OF prod.collapse [symmetric] Cons.prems] .
  from Cons.IH [OF this] show ?case by (simp add: bulk_loop_Cons Let_def)
qed

text \<open>A request to one of the three endpoints, and the state it leaves.\<close>

datatype admin_request =
    Update string "string option" "string option"
  | Bulk hashes_arg "string option" "string option"
  | Review string string "string option"

fun serve :: "nat \<Rightarrow> (string \<Rightarrow> 'id option) \<Rightarrow> millis \<Rightarrow> string option \<Rightarrow> 'id admin_state \<Rightarrow> admin_request
    \<Rightarrow> 'id admin_state" where
  "serve limit find_one now u st (Update h n r) = fst (updatePaymentStatus find_one now u h n r st)"
| "serve limit find_one now u st (Bulk hs n r) =
     fst (bulkUpdatePaymentStatus limit find_one now u hs n r st)"
| "serve limit find_one now u st (Review h a n) = fst (reviewSuspiciousPayment find_one now u h a n st)"

lemma serve_lockstep:
  assumes "\<And>i. lockstep (payments st i)"
  shows "lockstep (payments (serve limit find_one now u st q) i)"
proof (cases q)
  case (Update h n r)
  have "lockstep (payments (fst (applyStatusTransition find_one now u h a b st)) i)" for a b
    using apply_lockstep [OF prod.collapse [symmetric] assms] .
  with assms Update show ?thesis by (simp add: update_state split: option.split)
next
  case (Bulk hs n r)
  have "lockstep (payments (fst (bulk_loop find_one now u a b vs st)) i)" for a b vs
    by (rule bulk_loop_lockstep) (rule assms)
  with assms Bulk show ?thesis by (simp add: bulk_state split: option.split)
next
  case (Review h a n)
  have "lockstep p \<Longrightarrow> lockstep (p\<lparr>suspicionReviewStatus := x, suspicionReviewedBy := y,
      suspicionReviewedAt := z, suspicionReviewNote := w\<rparr>)"
    "lockstep p \<Longrightarrow> lockstep (p\<lparr>suspicionReviewStatus := x, suspicionReviewedBy := y,
      suspicionReviewedAt := z, suspicionReviewNote := w, isSuspicious := v\<rparr>)" for p x y z w v
    by (simp_all add: lockstep_def)
  with assms Review show ?thesis
    by (auto simp: reviewSuspiciousPayment_def Let_def sync_lockstep split: option.split)
qed

text \<open>Whatever sequence of status changes, bulk changes and suspicion reviews administrators make,
  accepted or refused, the confirmation state and the confirmation status of every payment stay
  those the model derives from its status.\<close>

theorem admin_requests_keep_derived_fields:
  assumes "\<forall>i. lockstep (payments st i)"
  shows "lockstep (payments (foldl (serve limit find_one now u) st qs) i)"
proof -
  have "\<forall>i. lockstep (payments (foldl (serve limit find_one now u) st qs) i)"
  proof (rule foldl_invariant [where P = "\<lambda>s. \<forall>i. lockstep (payments s i)"])
    show "\<forall>i. lockstep (payments st i)" by (rule assms)
    show "\<forall>i. lockstep (payments (serve limit find_one now u s q) i)"
      if "\<forall>i. lockstep (payments s i)" for s q
      by (rule allI, rule serve_lockstep) (rule that [rule_format])
  qed
  then show ?thesis ..
qed

theorem admin_requests_keep_derived_fields_witness:
  "lockstep (payments (foldl (serve 100 sample_find 5 None) sample_state
     [Update ''a'' (Some ''SUCCESS'') (Some ''ok''), Review ''a'' ''clear'' None]) 0)"
  by (rule admin_requests_keep_derived_fields) (simp add: sample_state_def sample_payment_def lockstep_def)

end
