(* ===== verification/Circuit_Breaker.thy ===== *)
theory Circuit_Breaker
  imports Prelude
begin

section \<open>Circuit breakers\<close>

text \<open>
  The repository has three circuit breakers: the generic one of \<^verbatim>\<open>backend/src/utils/circuitBreaker.js\<close>,
  the one of each Horizon endpoint in \<^verbatim>\<open>backend/src/services/horizonFailoverClient.js\<close>, and the one of
  \<^verbatim>\<open>backend/src/middleware/concurrentRequestHandler.js\<close>. Each is a record of its fields with one
  function per method; the time of a call is an argument. The interface they share is the locale
  \<open>breaker\<close>, and \<open>strict_breaker\<close> adds that successes are counted since the last failure, which the
  first two promise and the third does not.
\<close>

datatype cb_state = CLOSED | OPEN | HALF_OPEN

definition cbStateNum :: "cb_state \<Rightarrow> nat" where
  "cbStateNum state = (if state = CLOSED then 0 else if state = OPEN then 1 else 2)"

text \<open>\<^verbatim>\<open>option || default\<close> for a numeric option.\<close>

definition or_default :: "int option \<Rightarrow> int \<Rightarrow> int" where
  "or_default opt d = (case opt of None \<Rightarrow> d | Some v \<Rightarrow> if v = 0 then d else v)"

subsection \<open>The generic breaker\<close>

text \<open>\<open>changes\<close> lists the calls of \<^verbatim>\<open>onStateChange\<close>, whose errors the breaker swallows.\<close>

record circuit_breaker =
  failureThreshold :: int
  resetTimeoutMs :: int
  successThreshold :: int
  cb_state :: cb_state
  failures :: int
  halfOpenSuccesses :: int
  openedAt :: "millis option"
  changes :: "(cb_state \<times> cb_state) list"

definition new_breaker :: "int option \<Rightarrow> int option \<Rightarrow> int option \<Rightarrow> circuit_breaker" where
  "new_breaker failureThr resetTimeout successThr =
     \<lparr>failureThreshold = or_default failureThr 5, resetTimeoutMs = or_default resetTimeout 30000,
      successThreshold = or_default successThr 2, cb_state = CLOSED, failures = 0,
      halfOpenSuccesses = 0, openedAt = None, changes = []\<rparr>"

definition cb_transition :: "cb_state \<Rightarrow> circuit_breaker \<Rightarrow> circuit_breaker" where
  "cb_transition newState b =
     (if newState = cb_state b then b
      else b\<lparr>cb_state := newState, changes := changes b @ [(cb_state b, newState)]\<rparr>)"

text \<open>\<^verbatim>\<open>Date.now() - this.openedAt\<close>: subtracting \<^verbatim>\<open>null\<close> subtracts zero.\<close>

definition since :: "millis \<Rightarrow> millis option \<Rightarrow> int" where
  "since now t = now - (case t of None \<Rightarrow> 0 | Some u \<Rightarrow> u)"

definition isAvailable :: "millis \<Rightarrow> circuit_breaker \<Rightarrow> circuit_breaker \<times> bool" where
  "isAvailable now b =
     (if cb_state b = CLOSED \<or> cb_state b = HALF_OPEN then (b, True)
      else if since now (openedAt b) \<ge> resetTimeoutMs b then (cb_transition HALF_OPEN b, True)
      else (b, False))"

definition recordSuccess :: "circuit_breaker \<Rightarrow> circuit_breaker" where
  "recordSuccess b =
     (if cb_state b = HALF_OPEN then
        let b1 = b\<lparr>halfOpenSuccesses := halfOpenSuccesses b + 1\<rparr> in
        if halfOpenSuccesses b1 \<ge> successThreshold b1
        then cb_transition CLOSED (b1\<lparr>failures := 0, halfOpenSuccesses := 0\<rparr>)
        else b1
      else if cb_state b = CLOSED then b\<lparr>failures := 0\<rparr>
      else b)"

definition recordFailure :: "millis \<Rightarrow> circuit_breaker \<Rightarrow> circuit_breaker" where
  "recordFailure now b =
     (let b1 = b\<lparr>failures := failures b + 1, halfOpenSuccesses := 0\<rparr> in
      if cb_state b1 = HALF_OPEN \<or> failures b1 \<ge> failureThreshold b1
      then cb_transition OPEN (b1\<lparr>openedAt := Some now\<rparr>)
      else b1)"

definition getTimeUntilRetry :: "millis \<Rightarrow> circuit_breaker \<Rightarrow> int" where
  "getTimeUntilRetry now b =
     (if cb_state b \<noteq> OPEN then 0 else max 0 (resetTimeoutMs b - since now (openedAt b)))"

definition reset_breaker :: "circuit_breaker \<Rightarrow> circuit_breaker" where
  "reset_breaker b = b\<lparr>cb_state := CLOSED, failures := 0, halfOpenSuccesses := 0, openedAt := None\<rparr>"

subsection \<open>The breaker of a Horizon endpoint\<close>

text \<open>Its thresholds are constants of the module, read from the environment.\<close>

record cb_config =
  CB_FAILURE_THRESHOLD :: int
  CB_RESET_TIMEOUT_MS :: int
  CB_HALF_OPEN_SUCCESS_THRESHOLD :: int

definition cb_config_of_env :: "int option \<Rightarrow> int option \<Rightarrow> int option \<Rightarrow> cb_config" where
  "cb_config_of_env thr reset succ =
     \<lparr>CB_FAILURE_THRESHOLD = or_default thr 5, CB_RESET_TIMEOUT_MS = or_default reset 30000,
      CB_HALF_OPEN_SUCCESS_THRESHOLD = or_default succ 2\<rparr>"

record endpoint_breaker =
  ep_state :: cb_state
  ep_failures :: int
  ep_halfOpenSuccesses :: int
  ep_openedAt :: "millis option"

definition new_ep_breaker :: endpoint_breaker where
  "new_ep_breaker = \<lparr>ep_state = CLOSED, ep_failures = 0, ep_halfOpenSuccesses = 0, ep_openedAt = None\<rparr>"

definition ep_isAvailable :: "cb_config \<Rightarrow> millis \<Rightarrow> endpoint_breaker \<Rightarrow> endpoint_breaker \<times> bool" where
  "ep_isAvailable cfg now b =
     (if ep_state b = CLOSED \<or> ep_state b = HALF_OPEN then (b, True)
      else if since now (ep_openedAt b) \<ge> CB_RESET_TIMEOUT_MS cfg
      then (b\<lparr>ep_state := HALF_OPEN\<rparr>, True)
      else (b, False))"

definition ep_recordSuccess :: "cb_config \<Rightarrow> endpoint_breaker \<Rightarrow> endpoint_breaker" where
  "ep_recordSuccess cfg b =
     (if ep_state b = HALF_OPEN then
        let b1 = b\<lparr>ep_halfOpenSuccesses := ep_halfOpenSuccesses b + 1\<rparr> in
        if ep_halfOpenSuccesses b1 \<ge> CB_HALF_OPEN_SUCCESS_THRESHOLD cfg
        then b1\<lparr>ep_failures := 0, ep_halfOpenSuccesses := 0, ep_state := CLOSED\<rparr>
        else b1
      else b\<lparr>ep_failures := 0\<rparr>)"

definition ep_recordFailure :: "cb_config \<Rightarrow> millis \<Rightarrow> endpoint_breaker \<Rightarrow> endpoint_breaker" where
  "ep_recordFailure cfg now b =
     (let b1 = b\<lparr>ep_failures := ep_failures b + 1, ep_halfOpenSuccesses := 0\<rparr> in
      if ep_state b1 = HALF_OPEN \<or> ep_failures b1 \<ge> CB_FAILURE_THRESHOLD cfg
      then b1\<lparr>ep_openedAt := Some now, ep_state := OPEN\<rparr>
      else b1)"

subsection \<open>The breaker of the request middleware\<close>

record request_breaker =
  rb_failureThreshold :: int
  rb_resetTimeoutMs :: int
  rb_halfOpenSuccessThreshold :: int
  rb_state :: cb_state
  rb_failureCount :: int
  rb_successCount :: int
  rb_lastFailureTime :: "millis option"
  rb_halfOpenAttempts :: int

definition new_request_breaker :: "int option \<Rightarrow> int option \<Rightarrow> int option \<Rightarrow> request_breaker" where
  "new_request_breaker failureThr resetTimeout successThr =
     \<lparr>rb_failureThreshold = or_default failureThr 5, rb_resetTimeoutMs = or_default resetTimeout 30000,
      rb_halfOpenSuccessThreshold = or_default successThr 2, rb_state = CLOSED, rb_failureCount = 0,
      rb_successCount = 0, rb_lastFailureTime = None, rb_halfOpenAttempts = 0\<rparr>"

text \<open>The part of \<^verbatim>\<open>execute\<close> before the operation is awaited: admission, or the error it throws.\<close>

definition rb_admit :: "millis \<Rightarrow> request_breaker \<Rightarrow> request_breaker \<times> bool" where
  "rb_admit now b =
     (if rb_state b = OPEN then
        (if since now (rb_lastFailureTime b) \<ge> rb_resetTimeoutMs b
         then (b\<lparr>rb_state := HALF_OPEN, rb_halfOpenAttempts := 0\<rparr>, True)
         else (b, False))
      else (b, True))"

definition onSuccess :: "request_breaker \<Rightarrow> request_breaker" where
  "onSuccess b =
     (if rb_state b = HALF_OPEN then
        let b1 = b\<lparr>rb_successCount := rb_successCount b + 1\<rparr> in
        if rb_successCount b1 \<ge> rb_halfOpenSuccessThreshold b1
        then b1\<lparr>rb_state := CLOSED, rb_failureCount := 0, rb_successCount := 0\<rparr>
        else b1
      else b\<lparr>rb_failureCount := 0\<rparr>)"

definition onFailure :: "millis \<Rightarrow> request_breaker \<Rightarrow> request_breaker" where
  "onFailure now b =
     (let b1 = b\<lparr>rb_failureCount := rb_failureCount b + 1, rb_lastFailureTime := Some now\<rparr> in
      if rb_state b1 = HALF_OPEN then b1\<lparr>rb_state := OPEN\<rparr>
      else if rb_failureCount b1 \<ge> rb_failureThreshold b1 then b1\<lparr>rb_state := OPEN\<rparr>
      else b1)"

datatype 'e exec_error = CircuitOpen | Operation 'e

text \<open>
  \<^verbatim>\<open>execute\<close> when nothing else touches the breaker while the operation is awaited: \<open>outcome\<close> is what
  the operation gives and \<open>later\<close> the time it takes to settle.
\<close>

definition rb_execute ::
  "millis \<Rightarrow> millis \<Rightarrow> ('e, 'a) result \<Rightarrow> request_breaker \<Rightarrow> request_breaker \<times> ('e exec_error, 'a) result" where
  "rb_execute now later outcome b =
     (let (b1, admitted) = rb_admit now b in
      if \<not> admitted then (b1, Inl CircuitOpen)
      else case outcome of
        Inr result \<Rightarrow> (onSuccess b1, Inr result)
      | Inl err \<Rightarrow> (onFailure later b1, Inl (Operation err)))"

subsection \<open>The interface of a breaker\<close>

text \<open>An event at a breaker: a request asks for admission, or one that was admitted settles.\<close>

datatype cb_event = Ask millis | Ok | Bad millis

locale breaker =
  fixes admit :: "millis \<Rightarrow> 'b \<Rightarrow> 'b \<times> bool"
    and ok :: "'b \<Rightarrow> 'b"
    and bad :: "millis \<Rightarrow> 'b \<Rightarrow> 'b"
    and state :: "'b \<Rightarrow> cb_state"
    and count :: "'b \<Rightarrow> int"
    and opened :: "'b \<Rightarrow> millis option"
    and threshold :: "'b \<Rightarrow> int"
    and timeout :: "'b \<Rightarrow> int"
  assumes admit_not_open: "state b \<noteq> OPEN \<Longrightarrow> admit now b = (b, True)"
    and admit_early: "state b = OPEN \<Longrightarrow> opened b = Some t \<Longrightarrow> now - t < timeout b \<Longrightarrow>
      admit now b = (b, False)"
    and admit_late: "state b = OPEN \<Longrightarrow> opened b = Some t \<Longrightarrow> now - t \<ge> timeout b \<Longrightarrow>
      snd (admit now b) \<and> state (fst (admit now b)) = HALF_OPEN"
    and bad_half_open: "state b = HALF_OPEN \<Longrightarrow>
      state (bad now b) = OPEN \<and> opened (bad now b) = Some now"
    and bad_open: "state b = OPEN \<Longrightarrow> state (bad now b) = OPEN"
    and bad_closed: "state b = CLOSED \<Longrightarrow>
      state (bad now b) = (if count b + 1 \<ge> threshold b then OPEN else CLOSED)"
    and bad_closed_opened: "state b = CLOSED \<Longrightarrow> count b + 1 \<ge> threshold b \<Longrightarrow>
      opened (bad now b) = Some now"
    and bad_count: "count (bad now b) = count b + 1"
    and ok_closed: "state b = CLOSED \<Longrightarrow> state (ok b) = CLOSED \<and> count (ok b) = 0"
    and keep_config: "threshold (bad now b) = threshold b" "timeout (bad now b) = timeout b"
begin

definition step :: "'b \<Rightarrow> cb_event \<Rightarrow> 'b" where
  "step b e = (case e of Ask now \<Rightarrow> fst (admit now b) | Ok \<Rightarrow> ok b | Bad now \<Rightarrow> bad now b)"

lemma bads_open: "state b = OPEN \<Longrightarrow> state (foldl (\<lambda>b t. bad t b) b ts) = OPEN"
  by (induction ts arbitrary: b) (simp_all add: bad_open)

lemma bads_closed:
  "state b = CLOSED \<Longrightarrow>
   state (foldl (\<lambda>b t. bad t b) b ts)
   = (if ts \<noteq> [] \<and> count b + int (length ts) \<ge> threshold b then OPEN else CLOSED)"
proof (induction ts arbitrary: b)
  case Nil
  then show ?case by simp
next
  case (Cons t ts)
  show ?case
  proof (cases "count b + 1 \<ge> threshold b")
    case True
    with Cons.prems have "state (bad t b) = OPEN" by (simp add: bad_closed)
    then have "state (foldl (\<lambda>b t. bad t b) (bad t b) ts) = OPEN" by (rule bads_open)
    with True show ?thesis by simp
  next
    case False
    with Cons.prems have "state (bad t b) = CLOSED" by (simp add: bad_closed)
    from Cons.IH [OF this] False show ?thesis
      by (auto simp: bad_count keep_config)
  qed
qed

text \<open>A success forgets the failures before it; then exactly the threshold's worth of failures opens.\<close>

lemma opens_at_threshold:
  assumes "state b = CLOSED"
  shows "state (foldl (\<lambda>b t. bad t b) (ok b) ts) = OPEN
     \<longleftrightarrow> ts \<noteq> [] \<and> int (length ts) \<ge> threshold (ok b)"
  using bads_closed [of "ok b" ts] ok_closed [OF assms] by simp

text \<open>Once open, no request is admitted before the timeout, and one is at the timeout.\<close>

lemma admits_after_timeout:
  assumes "state b = OPEN" and "opened b = Some t"
  shows "snd (admit now b) \<longleftrightarrow> now \<ge> t + timeout b"
proof (cases "now - t < timeout b")
  case True
  with admit_early [OF assms True] show ?thesis by auto
next
  case False
  with admit_late [OF assms] show ?thesis by auto
qed

end

text \<open>
  The stronger contract counts the successes since the last failure. \<open>good b\<close> is the invariant
  that makes the count start at zero, \<open>succ_thr\<close> the number of successes that closes the breaker.
\<close>

locale strict_breaker = breaker admit ok bad state count opened threshold timeout
  for admit :: "millis \<Rightarrow> 'b \<Rightarrow> 'b \<times> bool"
    and ok :: "'b \<Rightarrow> 'b"
    and bad :: "millis \<Rightarrow> 'b \<Rightarrow> 'b"
    and state :: "'b \<Rightarrow> cb_state"
    and count :: "'b \<Rightarrow> int"
    and opened :: "'b \<Rightarrow> millis option"
    and threshold :: "'b \<Rightarrow> int"
    and timeout :: "'b \<Rightarrow> int" +
  fixes good :: "'b \<Rightarrow> bool" and succ :: "'b \<Rightarrow> int" and succ_thr :: "'b \<Rightarrow> int"
  assumes good_step: "good b \<Longrightarrow> good (step b e)"
    and bad_succ: "succ (bad now b) = 0"
    and good_opened: "good b \<Longrightarrow> state b = OPEN \<Longrightarrow> opened b \<noteq> None"
    and good_open_succ: "good b \<Longrightarrow> state b = OPEN \<Longrightarrow> succ b = 0"
    and admit_succ: "succ (fst (admit now b)) = succ b"
    and ok_open: "state b = OPEN \<Longrightarrow> state (ok b) = OPEN \<and> succ (ok b) = succ b"
    and ok_half_open: "state b = HALF_OPEN \<Longrightarrow>
      (if succ b + 1 \<ge> succ_thr b then state (ok b) = CLOSED
       else state (ok b) = HALF_OPEN \<and> succ (ok b) = succ b + 1)"
    and keep_succ_thr: "succ_thr (step b e) = succ_thr b"
begin

text \<open>
  Without a failure in between, a breaker that is not closed has counted at most the successes
  since, so it closes only once there have been enough of them.
\<close>

lemma admit_state:
  assumes "good b"
  shows "state (fst (admit now b)) = state b
       \<or> state b = OPEN \<and> state (fst (admit now b)) = HALF_OPEN"
proof (cases "state b = OPEN")
  case True
  with good_opened [OF assms] obtain t where t: "opened b = Some t" by auto
  show ?thesis
  proof (cases "now - t < timeout b")
    case True
    with \<open>state b = OPEN\<close> t show ?thesis by (simp add: admit_early)
  next
    case False
    with \<open>state b = OPEN\<close> t admit_late [of b t now] show ?thesis by simp
  qed
qed (simp add: admit_not_open)

definition oks :: "cb_event list \<Rightarrow> int" where
  "oks es = int (length (filter (\<lambda>e. e = Ok) es))"

definition progress :: "'b \<Rightarrow> int \<Rightarrow> bool" where
  "progress b n \<longleftrightarrow> good b \<and> (if state b = CLOSED then n \<ge> succ_thr b else succ b \<le> n)"

lemma progress_step:
  assumes "progress b n" and "\<And>t. e \<noteq> Bad t"
  shows "progress (step b e) (n + oks [e])"
proof -
  from assms(1) have good: "good (step b e)" by (simp add: progress_def good_step)
  show ?thesis
  proof (cases e)
    case (Ask now)
    have "state (fst (admit now b)) = CLOSED \<Longrightarrow> state b = CLOSED"
      using admit_state [of b now] assms(1) by (auto simp: progress_def)
    moreover have "state b = CLOSED \<Longrightarrow> state (fst (admit now b)) = CLOSED"
      by (simp add: admit_not_open)
    ultimately have "state (step b e) = CLOSED \<longleftrightarrow> state b = CLOSED"
      using Ask by (auto simp: step_def)
    moreover have "succ (step b e) = succ b" using Ask admit_succ by (simp add: step_def)
    ultimately show ?thesis using assms(1) good Ask
      by (simp add: progress_def keep_succ_thr oks_def)
  next
    case Ok
    have n: "if state b = CLOSED then n \<ge> succ_thr b else succ b \<le> n"
      using assms(1) by (simp add: progress_def)
    have "if state (ok b) = CLOSED then n + 1 \<ge> succ_thr b else succ (ok b) \<le> n + 1"
    proof (cases "state b")
      case CLOSED
      with n ok_closed [of b] show ?thesis by simp
    next
      case OPEN
      with n ok_open [of b] show ?thesis by simp
    next
      case HALF_OPEN
      with n ok_half_open [of b] show ?thesis by (cases "succ b + 1 \<ge> succ_thr b") simp_all
    qed
    with good Ok keep_succ_thr [of b e] show ?thesis
      by (auto simp: progress_def step_def oks_def)
  next
    case (Bad t)
    with assms(2) show ?thesis by blast
  qed
qed

lemma progress_steps:
  assumes "progress b n" and "\<And>t. Bad t \<notin> set es"
  shows "progress (foldl step b es) (n + oks es)"
  using assms
proof (induction es arbitrary: b n)
  case Nil
  then show ?case by (simp add: oks_def)
next
  case (Cons e es)
  then have "progress (step b e) (n + oks [e])" by (intro progress_step) auto
  from Cons.IH [OF this] Cons.prems show ?case by (auto simp: oks_def add.assoc)
qed

lemma keep_succ_thr_steps: "succ_thr (foldl step b es) = succ_thr b"
  by (induction es arbitrary: b) (simp_all add: keep_succ_thr)

lemma closes_only_after_successes:
  assumes "good b" "state b = OPEN" "\<And>t. Bad t \<notin> set es" "state (foldl step b es) = CLOSED"
  shows "oks es \<ge> succ_thr b"
proof -
  have "progress b 0" using assms(1,2) by (simp add: progress_def good_open_succ)
  from progress_steps [OF this assms(3)] assms(4) show ?thesis
    by (simp add: progress_def keep_succ_thr_steps)
qed

lemma oks_close:
  "state b = HALF_OPEN \<and> succ b + int k \<ge> succ_thr b \<and> k > 0 \<or> state b = CLOSED \<Longrightarrow>
   state (foldl step b (replicate k Ok)) = CLOSED"
proof (induction k arbitrary: b)
  case 0
  then show ?case by simp
next
  case (Suc k)
  have "state (step b Ok) = HALF_OPEN \<and> succ (step b Ok) + int k \<ge> succ_thr (step b Ok) \<and> k > 0
      \<or> state (step b Ok) = CLOSED"
  proof (cases "state b = CLOSED")
    case True
    with ok_closed [of b] show ?thesis by (simp add: step_def)
  next
    case False
    with Suc.prems have "state b = HALF_OPEN" "succ b + int (Suc k) \<ge> succ_thr b" by auto
    with ok_half_open [of b] keep_succ_thr [of b Ok] show ?thesis
      by (cases "succ b + 1 \<ge> succ_thr b") (auto simp: step_def)
  qed
  from Suc.IH [OF this] show ?case by simp
qed

lemma recovers:
  assumes "good b" "state b = OPEN" "opened b = Some t" "now \<ge> t + timeout b"
    and "k > 0" "int k \<ge> succ_thr b"
  shows "state (foldl step b (Ask now # replicate k Ok)) = CLOSED"
proof -
  have "state (step b (Ask now)) = HALF_OPEN" "succ (step b (Ask now)) = 0"
    using admit_late [OF assms(2,3), of now] assms(4) good_open_succ [OF assms(1,2)]
    by (simp_all add: step_def admit_succ)
  with assms(5,6) oks_close [of "step b (Ask now)" k] show ?thesis by (simp add: keep_succ_thr)
qed

end

subsection \<open>The three breakers keep the contract\<close>

lemma not_OPEN: "s \<noteq> OPEN \<longleftrightarrow> s = CLOSED \<or> s = HALF_OPEN"
  by (cases s) simp_all

lemmas breaker_defs =
  isAvailable_def recordSuccess_def recordFailure_def cb_transition_def since_def Let_def

lemmas ep_breaker_defs =
  ep_isAvailable_def ep_recordSuccess_def ep_recordFailure_def since_def Let_def

lemmas rb_breaker_defs = rb_admit_def onSuccess_def onFailure_def since_def Let_def

interpretation generic: breaker isAvailable recordSuccess recordFailure cb_state failures openedAt
    failureThreshold resetTimeoutMs
  by unfold_locales (simp add: isAvailable_def not_OPEN, simp_all add: breaker_defs)

interpretation endpoint: breaker "ep_isAvailable cfg" "ep_recordSuccess cfg" "ep_recordFailure cfg"
    ep_state ep_failures ep_openedAt "\<lambda>_. CB_FAILURE_THRESHOLD cfg" "\<lambda>_. CB_RESET_TIMEOUT_MS cfg"
  for cfg
  by unfold_locales (simp add: ep_isAvailable_def not_OPEN, simp_all add: ep_breaker_defs)

interpretation request: breaker rb_admit onSuccess onFailure rb_state rb_failureCount rb_lastFailureTime
    rb_failureThreshold rb_resetTimeoutMs
  by unfold_locales (simp_all add: rb_breaker_defs)

text \<open>
  The invariant of the first two: outside the half-open state no success is counted, and an open
  breaker knows when it was opened.
\<close>

definition good_breaker :: "circuit_breaker \<Rightarrow> bool" where
  "good_breaker b \<longleftrightarrow> (cb_state b \<noteq> HALF_OPEN \<longrightarrow> halfOpenSuccesses b = 0)
                  \<and> (cb_state b = OPEN \<longrightarrow> openedAt b \<noteq> None)"

definition good_endpoint :: "endpoint_breaker \<Rightarrow> bool" where
  "good_endpoint b \<longleftrightarrow> (ep_state b \<noteq> HALF_OPEN \<longrightarrow> ep_halfOpenSuccesses b = 0)
                   \<and> (ep_state b = OPEN \<longrightarrow> ep_openedAt b \<noteq> None)"

lemma good_breaker_step: "good_breaker b \<Longrightarrow> good_breaker (generic.step b e)"
  by (cases e; cases "cb_state b") (auto simp: generic.step_def good_breaker_def breaker_defs)

lemma good_endpoint_step: "good_endpoint b \<Longrightarrow> good_endpoint (endpoint.step cfg b e)"
  by (cases e; cases "ep_state b") (auto simp: endpoint.step_def good_endpoint_def ep_breaker_defs)

interpretation generic: strict_breaker isAvailable recordSuccess recordFailure cb_state failures openedAt
    failureThreshold resetTimeoutMs good_breaker halfOpenSuccesses successThreshold
proof unfold_locales
  show "successThreshold (generic.step b e) = successThreshold b" for b e
    by (cases e) (simp_all add: generic.step_def breaker_defs)
qed (simp_all add: good_breaker_step, simp_all add: good_breaker_def breaker_defs)

interpretation endpoint: strict_breaker "ep_isAvailable cfg" "ep_recordSuccess cfg" "ep_recordFailure cfg"
    ep_state ep_failures ep_openedAt "\<lambda>_. CB_FAILURE_THRESHOLD cfg" "\<lambda>_. CB_RESET_TIMEOUT_MS cfg"
    good_endpoint ep_halfOpenSuccesses "\<lambda>_. CB_HALF_OPEN_SUCCESS_THRESHOLD cfg"
  for cfg
  by unfold_locales (simp_all add: good_endpoint_step, simp_all add: good_endpoint_def ep_breaker_defs)

lemma good_new: "good_breaker (new_breaker f r s)" "good_endpoint new_ep_breaker"
  by (simp_all add: good_breaker_def new_breaker_def good_endpoint_def new_ep_breaker_def)

lemma good_reachable:
  "good_breaker (foldl generic.step (new_breaker f r s) es)"
  "good_endpoint (foldl (endpoint.step cfg) new_ep_breaker es)"
  by (rule foldl_invariant; simp add: good_new good_breaker_step good_endpoint_step)+

subsection \<open>Properties\<close>

text \<open>In each of the three breakers, a closed breaker that has just recorded a success opens at
  exactly the configured number of consecutive failures, not before and not later.\<close>

theorem breakers_open_at_threshold:
  "(cb_state b = CLOSED \<longrightarrow>
      (cb_state (foldl (\<lambda>b t. recordFailure t b) (recordSuccess b) ts) = OPEN
       \<longleftrightarrow> ts \<noteq> [] \<and> int (length ts) \<ge> failureThreshold b))
   \<and> (ep_state e = CLOSED \<longrightarrow>
      (ep_state (foldl (\<lambda>b t. ep_recordFailure cfg t b) (ep_recordSuccess cfg e) ts) = OPEN
       \<longleftrightarrow> ts \<noteq> [] \<and> int (length ts) \<ge> CB_FAILURE_THRESHOLD cfg))
   \<and> (rb_state q = CLOSED \<longrightarrow>
      (rb_state (foldl (\<lambda>b t. onFailure t b) (onSuccess q) ts) = OPEN
       \<longleftrightarrow> ts \<noteq> [] \<and> int (length ts) \<ge> rb_failureThreshold q))"
proof -
  have "cb_state b = CLOSED \<Longrightarrow> failureThreshold (recordSuccess b) = failureThreshold b"
    by (simp add: recordSuccess_def)
  moreover have "rb_state q = CLOSED \<Longrightarrow> rb_failureThreshold (onSuccess q) = rb_failureThreshold q"
    by (simp add: onSuccess_def)
  ultimately show ?thesis
    using generic.opens_at_threshold [of b ts] endpoint.opens_at_threshold [of e cfg ts]
      request.opens_at_threshold [of q ts]
    by simp
qed

theorem breakers_open_at_threshold_witness:
  "cb_state (foldl (\<lambda>b t. recordFailure t b) (recordSuccess (new_breaker None None None)) [1, 2, 3, 4, 5]) = OPEN"
proof -
  have "cb_state (new_breaker None None None) = CLOSED" "failureThreshold (new_breaker None None None) = 5"
    by (simp_all add: new_breaker_def or_default_def)
  with breakers_open_at_threshold [of "new_breaker None None None" "[1, 2, 3, 4, 5]"] show ?thesis by simp
qed

text \<open>Whatever has happened to it since it was made, a generic breaker that is open refuses every request until the reset timeout and admits the first one at
  or after it; from then on it closes after the configured number of successes, and never before
  that many successes have been recorded without a failure in between.\<close>

theorem breaker_recovery:
  assumes b: "b = foldl generic.step (new_breaker f r s) es" "cb_state b = OPEN" "openedAt b = Some t"
  shows "(snd (isAvailable now b) \<longleftrightarrow> now \<ge> t + resetTimeoutMs b)
       \<and> (now \<ge> t + resetTimeoutMs b \<and> k > 0 \<and> int k \<ge> successThreshold b \<longrightarrow>
            cb_state (foldl generic.step b (Ask now # replicate k Ok)) = CLOSED)
       \<and> ((\<forall>u. Bad u \<notin> set ds) \<and> cb_state (foldl generic.step b ds) = CLOSED \<longrightarrow>
            int (length (filter (\<lambda>e. e = Ok) ds)) \<ge> successThreshold b)"
proof -
  have good: "good_breaker b" unfolding b(1) by (rule good_reachable)
  show ?thesis
    using generic.admits_after_timeout [OF b(2,3), of now] generic.recovers [OF good b(2,3)]
      generic.closes_only_after_successes [OF good b(2), of ds]
    by (simp add: generic.oks_def)
qed

theorem breaker_recovery_witness:
  "\<not> snd (isAvailable 104 (foldl generic.step (new_breaker (Some 1) (Some 5) None) [Bad 100]))"
proof -
  let ?b = "foldl generic.step (new_breaker (Some 1) (Some 5) None) [Bad 100]"
  have "cb_state ?b = OPEN" "openedAt ?b = Some 100" "resetTimeoutMs ?b = 5"
    by (simp_all add: generic.step_def new_breaker_def or_default_def breaker_defs)
  with breaker_recovery [of ?b "Some 1" "Some 5" None "[Bad 100]" 100 104] show ?thesis by simp
qed

text \<open>The breaker of the request middleware does not forget a success of an earlier half-open
  period when that period ends in a failure: with a threshold of two it closes after a success, a
  failure and a single further success.\<close>

theorem request_breaker_keeps_stale_success:
  "let b0 = new_request_breaker (Some 1) (Some 10) (Some 2);
       b1 = foldl request.step b0 [Bad 0, Ask 10, Ok, Bad 11];
       b2 = foldl request.step b1 [Ask 21, Ok]
   in rb_state b1 = OPEN \<and> rb_halfOpenSuccessThreshold b1 = 2 \<and> rb_state b2 = CLOSED"
  by (simp add: request.step_def new_request_breaker_def or_default_def rb_breaker_defs)

end
