(* ===== verification/Stellar_Retry.thy ===== *)
theory Stellar_Retry
  imports JS_Number JS_String
begin

section \<open>Errors of the Stellar network and the retry loop\<close>

text \<open>
  \<^verbatim>\<open>backend/src/utils/withStellarRetry.js\<close>: which errors are transient, how an error is classified, and
  the loop that calls Horizon again after a growing delay; and \<^verbatim>\<open>isTransientFailure\<close> of
  \<^verbatim>\<open>horizonFailoverClient.js\<close>, the same test written a second time.
\<close>

text \<open>
  The fields of a JavaScript error that the code reads; a missing field is \<open>None\<close>, and a missing
  message is the empty string. \<open>originalError\<close> is the error that a classified one wraps.
\<close>

datatype herror = HError
  (response_status: "int option") (response_statusCode: "int option")
  (err_status: "int option") (err_statusCode: "int option")
  (err_code: "string option") (err_message: string) (originalError: "herror option")

definition truthy_int :: "int option \<Rightarrow> bool" where
  "truthy_int n \<longleftrightarrow> n \<noteq> None \<and> n \<noteq> Some 0"

definition truthy_text :: "string option \<Rightarrow> bool" where
  "truthy_text s \<longleftrightarrow> s \<noteq> None \<and> s \<noteq> Some []"

definition js_or :: "int option \<Rightarrow> int option \<Rightarrow> int option" where
  "js_or a b = (if truthy_int a then a else b)"

definition getStatus :: "herror \<Rightarrow> int option" where
  "getStatus err = js_or (js_or (js_or (response_status err) (response_statusCode err)) (err_status err))
                         (err_statusCode err)"

definition NETWORK_CODES :: "string list" where
  "NETWORK_CODES = [''ECONNREFUSED'', ''ECONNRESET'', ''ETIMEDOUT'', ''ENOTFOUND'', ''EAI_AGAIN'']"

text \<open>A substring test that ignores case, which is what a regular expression of plain words does.\<close>

fun includes_ci :: "string \<Rightarrow> string \<Rightarrow> bool" where
  "includes_ci [] w \<longleftrightarrow> w = []"
| "includes_ci (c # s) w \<longleftrightarrow> startsWith (toUpperCase (c # s)) (toUpperCase w) \<or> includes_ci s w"

definition network_message :: "string \<Rightarrow> bool" where
  "network_message m \<longleftrightarrow>
     includes_ci m ''timeout'' \<or> includes_ci m ''network'' \<or> includes_ci m ''socket hang up''"

definition retryable_status :: "int option \<Rightarrow> bool" where
  "retryable_status s = (case s of None \<Rightarrow> False | Some n \<Rightarrow> n = 429 \<or> (n \<ge> 500 \<and> n < 600))"

definition network_code :: "herror \<Rightarrow> bool" where
  "network_code err = (case err_code err of None \<Rightarrow> False | Some c \<Rightarrow> c \<in> set NETWORK_CODES)"

definition isTransient :: "herror \<Rightarrow> bool" where
  "isTransient err =
     (let s = getStatus err in
      network_code err \<or> network_message (err_message err) \<or> retryable_status s)"

definition isTransientFailure :: "herror \<Rightarrow> bool" where
  "isTransientFailure err =
     (let status = js_or (js_or (js_or (response_status err) (response_statusCode err)) (err_status err))
                         (err_statusCode err)
      in if retryable_status status then True
         else if network_code err then True
         else if network_message (err_message err) then True
         else False)"

text \<open>\<^verbatim>\<open>Object.assign(new Error(message), { code, status, originalError })\<close>.\<close>

definition classified :: "string \<Rightarrow> int \<Rightarrow> string \<Rightarrow> herror \<Rightarrow> herror" where
  "classified c s m err = HError None None (Some s) None (Some c) m (Some err)"

definition classifyHorizonError :: "herror \<Rightarrow> string \<Rightarrow> herror" where
  "classifyHorizonError err context =
     (let s = getStatus err in
      if s = Some 404 then
        classified ''NOT_FOUND'' 404
          ((if context = [] then ''Transaction'' else context) @ '' not found on the Stellar network'') err
      else if retryable_status s \<or> network_code err \<or> network_message (err_message err) then
        classified ''HORIZON_UNAVAILABLE'' 503
          ''Stellar Horizon is temporarily unavailable. Please retry shortly.'' err
      else if truthy_text (err_code err) \<and> truthy_int (err_status err) then err
      else classified ''STELLAR_NETWORK_ERROR'' 502
          (if err_message err = [] then ''Unexpected Stellar network error'' else err_message err) err)"

subsection \<open>The retry loop\<close>

definition MAX_DELAY :: int where "MAX_DELAY = 10000"

text \<open>
  The wait before the next attempt: the doubled base delay up to a cap, and a jitter
  \<^verbatim>\<open>Math.floor(Math.random() * delay * 0.3)\<close> computed in floating point from the random number \<open>r\<close>.
\<close>

definition retry_delay :: "int \<Rightarrow> nat \<Rightarrow> int" where
  "retry_delay baseDelay attempt = min (baseDelay * 2 ^ (attempt - 1)) MAX_DELAY"

definition jitter :: "rat \<Rightarrow> int \<Rightarrow> int" where
  "jitter r delay = \<lfloor>round64 (round64 (r * of_int delay) * round64 (3 / 10))\<rfloor>"

definition retry_wait :: "rat \<Rightarrow> int \<Rightarrow> nat \<Rightarrow> int" where
  "retry_wait r baseDelay attempt =
     (let delay = retry_delay baseDelay attempt in delay + jitter r delay)"

text \<open>
  The body of \<^verbatim>\<open>withStellarRetry\<close>. \<open>fn k\<close> is what the \<open>k\<close>-th call gives, \<open>rand k\<close> the random number drawn
  after it. The result is the list of waits and what the loop returns or throws; a limit below one
  runs no attempt and returns \<^verbatim>\<open>undefined\<close>, which is \<open>None\<close>. \<open>left\<close> counts the attempts that remain,
  \<open>maxAttempts - attempt + 1\<close> of them.
\<close>

fun retry_loop ::
  "(nat \<Rightarrow> (herror, 'a) result) \<Rightarrow> (nat \<Rightarrow> rat) \<Rightarrow> int \<Rightarrow> string \<Rightarrow> nat \<Rightarrow> nat
     \<Rightarrow> int list \<times> (herror, 'a) result option" where
  "retry_loop fn rand baseDelay context attempt 0 = ([], None)"
| "retry_loop fn rand baseDelay context attempt (Suc left) =
     (case fn attempt of
        Inr v \<Rightarrow> ([], Some (Inr v))
      | Inl err \<Rightarrow>
          if \<not> isTransient err \<or> left = 0 then ([], Some (Inl (classifyHorizonError err context)))
          else let wait = retry_wait (rand attempt) baseDelay attempt;
                   (waits, r) = retry_loop fn rand baseDelay context (Suc attempt) left
               in (wait # waits, r))"

record retry_opts =
  opt_maxAttempts :: "int option"
  opt_baseDelay :: "int option"
  opt_label :: "string option"
  opt_context :: "string option"

definition str_or :: "string option \<Rightarrow> string \<Rightarrow> string" where
  "str_or s d = (case s of None \<Rightarrow> d | Some t \<Rightarrow> if t = [] then d else t)"

definition withStellarRetry ::
  "int \<Rightarrow> int \<Rightarrow> (nat \<Rightarrow> (herror, 'a) result) \<Rightarrow> (nat \<Rightarrow> rat) \<Rightarrow> retry_opts
     \<Rightarrow> int list \<times> (herror, 'a) result option" where
  "withStellarRetry MAX_ATTEMPTS BASE_DELAY fn rand opts =
     (let maxAttempts = the (js_or (opt_maxAttempts opts) (Some MAX_ATTEMPTS));
          baseDelay = the (js_or (opt_baseDelay opts) (Some BASE_DELAY));
          label = str_or (opt_label opts) ''StellarCall'';
          context = str_or (opt_context opts) label
      in retry_loop fn rand baseDelay context 1 (nat maxAttempts))"

subsection \<open>The two tests for a transient error agree\<close>

lemma isTransientFailure_isTransient: "isTransientFailure err = isTransient err"
  by (auto simp: isTransientFailure_def isTransient_def getStatus_def Let_def)

subsection \<open>The loop\<close>

text \<open>
  \<open>settles fn m k\<close>: the first attempt that is a success, a permanent error or the last is \<open>k\<close>.
\<close>

definition transient_at :: "(nat \<Rightarrow> (herror, 'a) result) \<Rightarrow> nat \<Rightarrow> bool" where
  "transient_at fn k = (case fn k of Inr _ \<Rightarrow> False | Inl e \<Rightarrow> isTransient e)"

lemma retry_loop_settles:
  assumes "0 < left"
  shows "\<exists>k. attempt \<le> k \<and> k < attempt + left
    \<and> (\<forall>j. attempt \<le> j \<and> j < k \<longrightarrow> transient_at fn j)
    \<and> (transient_at fn k \<longrightarrow> k = attempt + left - 1)
    \<and> retry_loop fn rand base ctx attempt left
      = (map (\<lambda>j. retry_wait (rand j) base j) [attempt..<k],
         Some (case fn k of Inr v \<Rightarrow> Inr v | Inl e \<Rightarrow> Inl (classifyHorizonError e ctx)))"
  using assms
proof (induction left arbitrary: attempt)
  case 0
  then show ?case by simp
next
  case (Suc left)
  show ?case
  proof (cases "transient_at fn attempt \<and> 0 < left")
    case True
    then obtain e where e: "fn attempt = Inl e" "isTransient e" "left \<noteq> 0"
      by (auto simp: transient_at_def split: sum.splits)
    from True Suc.IH [of "Suc attempt"] obtain k where k: "Suc attempt \<le> k" "k < Suc attempt + left"
      "\<forall>j. Suc attempt \<le> j \<and> j < k \<longrightarrow> transient_at fn j"
      "transient_at fn k \<longrightarrow> k = Suc attempt + left - 1"
      "retry_loop fn rand base ctx (Suc attempt) left
      = (map (\<lambda>j. retry_wait (rand j) base j) [Suc attempt..<k],
         Some (case fn k of Inr v \<Rightarrow> Inr v | Inl e \<Rightarrow> Inl (classifyHorizonError e ctx)))" by blast
    have "\<forall>j. attempt \<le> j \<and> j < k \<longrightarrow> transient_at fn j"
      using k(3) True by (metis Suc_leI le_neq_implies_less)
    moreover have "[attempt..<k] = attempt # [Suc attempt..<k]" using k(1) by (simp add: upt_conv_Cons)
    ultimately show ?thesis using k e
      by (intro exI [of _ k]) (simp add: Let_def)
  next
    case False
    then show ?thesis
      by (intro exI [of _ attempt]) (auto simp: transient_at_def split: sum.splits)
  qed
qed

lemma jitter_bounds:
  assumes "0 \<le> r" "r < 1" "0 \<le> d" "d \<le> MAX_DELAY"
  shows "0 \<le> jitter r d \<and> jitter r d \<le> d"
proof -
  have d: "0 \<le> r * of_int d" "r * of_int d \<le> of_int d" "\<bar>d\<bar> \<le> 2 ^ 53"
    using assms mult_right_mono [of r 1 "of_int d :: rat"] by (simp_all add: MAX_DELAY_def)
  have a: "0 \<le> round64 (r * of_int d)" "round64 (r * of_int d) \<le> of_int d"
    using round64_nonneg [OF d(1)] round64_le_int [OF d] by auto
  have c: "0 \<le> round64 (3 / 10)" "round64 (3 / 10) \<le> 1"
    using round64_nonneg [of "3 / 10"] round64_le_int [of "3 / 10" 1] by auto
  have p: "0 \<le> round64 (r * of_int d) * round64 (3 / 10)"
    "round64 (r * of_int d) * round64 (3 / 10) \<le> of_int d"
    using a c mult_mono [of "round64 (r * of_int d)" "of_int d" "round64 (3 / 10)" 1] by auto
  show ?thesis
    using round64_nonneg [OF p(1)] round64_le_int [OF p d(3)]
    by (simp add: jitter_def floor_le_iff)
qed

lemma retry_wait_bounds:
  assumes "0 \<le> r" "r < 1" "0 \<le> base"
  shows "retry_delay base k \<le> retry_wait r base k \<and> retry_wait r base k \<le> 2 * retry_delay base k
       \<and> retry_wait r base k \<le> 2 * MAX_DELAY"
proof -
  have d: "0 \<le> retry_delay base k" "retry_delay base k \<le> MAX_DELAY"
    using assms(3) by (simp_all add: retry_delay_def MAX_DELAY_def)
  from jitter_bounds [OF assms(1,2) d] d show ?thesis by (simp add: retry_wait_def Let_def)
qed

lemma getStatus_classified: "s \<noteq> 0 \<Longrightarrow> getStatus (classified c s m e) = Some s"
  by (simp add: getStatus_def classified_def js_or_def truthy_int_def)

text \<open>A call under the retry loop with a positive limit \<open>m\<close> always comes to an end within \<open>m\<close>
  attempts. It settles at the first attempt that succeeds or fails permanently, or at the last one:
  it returns that attempt's value, or throws its error in classified form. Before every further
  attempt it waits at least the doubled base delay, capped at ten seconds, and at most twice that.\<close>

theorem retry_settles:
  assumes "opt_maxAttempts opts = Some (int m)" "0 < m" "opt_baseDelay opts = Some base" "0 < base"
    and "\<forall>k. 0 \<le> rand k \<and> rand k < 1"
  shows "\<exists>k waits. 1 \<le> k \<and> k \<le> m
    \<and> (\<forall>j. 1 \<le> j \<and> j < k \<longrightarrow> transient_at fn j) \<and> (transient_at fn k \<longrightarrow> k = m)
    \<and> withStellarRetry MAX_ATTEMPTS BASE_DELAY fn rand opts
      = (waits, Some (case fn k of Inr v \<Rightarrow> Inr v
           | Inl e \<Rightarrow> Inl (classifyHorizonError e
               (str_or (opt_context opts) (str_or (opt_label opts) ''StellarCall'')))))
    \<and> length waits = k - 1
    \<and> (\<forall>i < k - 1. retry_delay base (i + 1) \<le> waits ! i \<and> waits ! i \<le> 2 * retry_delay base (i + 1)
         \<and> waits ! i \<le> 2 * MAX_DELAY)"
proof -
  let ?ctx = "str_or (opt_context opts) (str_or (opt_label opts) ''StellarCall'')"
  have run: "withStellarRetry MAX_ATTEMPTS BASE_DELAY fn rand opts = retry_loop fn rand base ?ctx 1 m"
    using assms(1-4) by (simp add: withStellarRetry_def js_or_def truthy_int_def Let_def)
  obtain k where k: "1 \<le> k" "k < 1 + m" "\<forall>j. 1 \<le> j \<and> j < k \<longrightarrow> transient_at fn j"
    "transient_at fn k \<longrightarrow> k = 1 + m - 1"
    "retry_loop fn rand base ?ctx 1 m
      = (map (\<lambda>j. retry_wait (rand j) base j) [1..<k],
         Some (case fn k of Inr v \<Rightarrow> Inr v | Inl e \<Rightarrow> Inl (classifyHorizonError e ?ctx)))"
    using retry_loop_settles [OF assms(2), of 1 fn rand base ?ctx] by blast
  have "retry_delay base (i + 1) \<le> map (\<lambda>j. retry_wait (rand j) base j) [1..<k] ! i
      \<and> map (\<lambda>j. retry_wait (rand j) base j) [1..<k] ! i \<le> 2 * retry_delay base (i + 1)
      \<and> map (\<lambda>j. retry_wait (rand j) base j) [1..<k] ! i \<le> 2 * MAX_DELAY" if "i < k - 1" for i
    using retry_wait_bounds [of "rand (i + 1)" base "i + 1"] assms(4,5) that by (simp add: add.commute)
  with k run show ?thesis
    by (intro exI [of _ k] exI [of _ "map (\<lambda>j. retry_wait (rand j) base j) [1..<k]"]) simp
qed

text \<open>An outage of two attempts, then an answer.\<close>

definition sample_error :: herror where
  "sample_error = HError (Some 503) None None None None ''busy'' None"

definition sample_fn :: "nat \<Rightarrow> (herror, nat) result" where
  "sample_fn k = (if k < 3 then Inl sample_error else Inr k)"

definition sample_opts :: retry_opts where
  "sample_opts = \<lparr>opt_maxAttempts = Some (int 5), opt_baseDelay = Some 1000, opt_label = None,
     opt_context = None\<rparr>"

lemma sample_transient: "transient_at sample_fn k \<longleftrightarrow> k < 3"
  by (simp add: transient_at_def sample_fn_def sample_error_def isTransient_def getStatus_def
      js_or_def truthy_int_def retryable_status_def Let_def)

theorem retry_settles_witness:
  "\<exists>waits. withStellarRetry 3 1000 sample_fn (\<lambda>_. 1 / 2) sample_opts = (waits, Some (Inr 3))
     \<and> length waits = 2"
proof -
  have opts: "opt_maxAttempts sample_opts = Some (int 5)" "opt_baseDelay sample_opts = Some 1000"
    unfolding sample_opts_def by (simp_all only: retry_opts.simps)
  have "\<forall>k. 0 \<le> (\<lambda>_. 1 / 2 :: rat) k \<and> (\<lambda>_. 1 / 2 :: rat) k < 1" by simp
  from retry_settles [OF opts(1) _ opts(2) _ this, where fn = sample_fn, of 3 1000]
  obtain k waits where k: "1 \<le> k" "k \<le> 5" "\<forall>j. 1 \<le> j \<and> j < k \<longrightarrow> transient_at sample_fn j"
    "transient_at sample_fn k \<longrightarrow> k = 5" "length waits = k - 1"
    "withStellarRetry 3 1000 sample_fn (\<lambda>_. 1 / 2) sample_opts
      = (waits, Some (case sample_fn k of Inr v \<Rightarrow> Inr v
           | Inl e \<Rightarrow> Inl (classifyHorizonError e
               (str_or (opt_context sample_opts) (str_or (opt_label sample_opts) ''StellarCall'')))))"
    by auto
  from k(1,3) have "\<not> 4 \<le> k" using sample_transient [of 3] by fastforce
  with k(1,4) have "k = 3" by (auto simp: sample_transient)
  with k show ?thesis by (intro exI [of _ waits]) (simp add: sample_fn_def)
qed

text \<open>Classifying an error that has already been classified is not the identity the code relies on:
  every permanent error that is not a missing transaction and does not already carry a code and a
  status becomes a network error with status 502, which is itself transient, and a second
  classification turns it into a temporary outage of Horizon.\<close>

theorem classify_not_idempotent:
  assumes "\<not> isTransient e" "getStatus e \<noteq> Some 404"
    and "\<not> (truthy_text (err_code e) \<and> truthy_int (err_status e))"
  shows "err_code (classifyHorizonError e ctx) = Some ''STELLAR_NETWORK_ERROR''
       \<and> isTransient (classifyHorizonError e ctx)
       \<and> err_code (classifyHorizonError (classifyHorizonError e ctx) ctx') = Some ''HORIZON_UNAVAILABLE''"
proof -
  define m where "m = (if err_message e = [] then ''Unexpected Stellar network error'' else err_message e)"
  have c: "classifyHorizonError e ctx = classified ''STELLAR_NETWORK_ERROR'' 502 m e"
    using assms by (auto simp: classifyHorizonError_def isTransient_def Let_def m_def)
  then have "isTransient (classifyHorizonError e ctx)"
    by (simp add: isTransient_def getStatus_classified retryable_status_def Let_def)
  moreover have "classifyHorizonError (classifyHorizonError e ctx) ctx'
      = classified ''HORIZON_UNAVAILABLE'' 503
          ''Stellar Horizon is temporarily unavailable. Please retry shortly.'' (classifyHorizonError e ctx)"
    unfolding c by (simp add: classifyHorizonError_def getStatus_classified retryable_status_def Let_def)
  ultimately show ?thesis by (simp add: c) (simp add: classified_def)
qed

theorem classify_not_idempotent_witness:
  "let e = HError (Some 400) None None None None ''bad sequence'' None
   in isTransient (classifyHorizonError e [])"
proof -
  have "\<not> isTransient (HError (Some 400) None None None None ''bad sequence'' None)" by code_simp
  moreover have "getStatus (HError (Some 400) None None None None ''bad sequence'' None) \<noteq> Some 404"
    by code_simp
  ultimately show ?thesis
    using classify_not_idempotent [of "HError (Some 400) None None None None ''bad sequence'' None" "[]"]
    by (simp add: truthy_text_def)
qed

end
