(* ===== verification/Horizon_Failover.thy ===== *)
theory Horizon_Failover
  imports Circuit_Breaker Stellar_Retry
begin

section \<open>Failover between Horizon endpoints\<close>

text \<open>
  \<^verbatim>\<open>backend/src/services/horizonFailoverClient.js\<close>: the list of endpoints, each with the breaker of
  theory \<open>Circuit_Breaker\<close>, and the call that moves from one endpoint to the next. The remote call
  is the parameter \<open>fn\<close>: given an endpoint and the time, what the call gives and the time at which it
  settles. Metrics and log lines are left out.
\<close>

subsection \<open>The endpoints\<close>

text \<open>
  \<^verbatim>\<open>resolveHorizonUrls\<close>; the arguments are the three environment variables and the configured
  address, absent or empty when they are not set.
\<close>

definition resolveHorizonUrls ::
  "string option \<Rightarrow> string option \<Rightarrow> string option \<Rightarrow> string option \<Rightarrow> string list" where
  "resolveHorizonUrls urlsEnv urlEnv horizonEnv configUrl =
     (let fallback = [str_or urlEnv (str_or horizonEnv (str_or configUrl ''https://horizon.stellar.org''))] in
      case urlsEnv of
        None \<Rightarrow> fallback
      | Some raw \<Rightarrow>
          if trim raw \<noteq> [] then
            let urls = filter (\<lambda>u. u \<noteq> []) (map trim (split_on (CHR '','') raw)) in
            if length urls > 0 then urls else fallback
          else fallback)"

record failover_client =
  urls :: "string list"
  activeIndex :: nat
  breakers :: "endpoint_breaker list"
  failoverCounts :: "nat list"

datatype client_error = NoUrlsConfigured | HORIZON_ALL_UNAVAILABLE | HORIZON_ALL_FAILED | Remote herror

definition new_client :: "string list \<Rightarrow> (client_error, failover_client) result" where
  "new_client us =
     (if length us = 0 then Inl NoUrlsConfigured
      else Inr \<lparr>urls = us, activeIndex = 0, breakers = map (\<lambda>_. new_ep_breaker) us,
                failoverCounts = map (\<lambda>_. 0) us\<rparr>)"

text \<open>
  \<^verbatim>\<open>_nextAvailableIndex\<close>: \<open>i\<close> runs over the offsets that are left to look at. Asking a breaker can move
  it from open to half open, so the breakers are returned too.
\<close>

fun next_scan ::
  "cb_config \<Rightarrow> millis \<Rightarrow> int \<Rightarrow> endpoint_breaker list \<Rightarrow> nat list \<Rightarrow> endpoint_breaker list \<times> nat option" where
  "next_scan cfg now skip bs [] = (bs, None)"
| "next_scan cfg now skip bs (i # is) =
     (let idx = nat ((skip + 1 + int i) mod int (length bs));
          (b, available) = ep_isAvailable cfg now (bs ! idx);
          bs' = bs[idx := b]
      in if available then (bs', Some idx) else next_scan cfg now skip bs' is)"

definition nextAvailableIndex ::
  "cb_config \<Rightarrow> millis \<Rightarrow> int \<Rightarrow> endpoint_breaker list \<Rightarrow> endpoint_breaker list \<times> nat option" where
  "nextAvailableIndex cfg now skipIndex bs = next_scan cfg now skipIndex bs [0..<length bs]"

definition failover :: "cb_config \<Rightarrow> millis \<Rightarrow> nat \<Rightarrow> failover_client \<Rightarrow> failover_client \<times> bool" where
  "failover cfg now fromIndex c =
     (let (bs, nextIdx) = nextAvailableIndex cfg now (int fromIndex) (breakers c) in
      case nextIdx of
        None \<Rightarrow> (c\<lparr>breakers := bs\<rparr>, False)
      | Some n \<Rightarrow>
          (c\<lparr>breakers := bs, activeIndex := n,
             failoverCounts := (failoverCounts c)[fromIndex := Suc (failoverCounts c ! fromIndex)]\<rparr>, True))"

subsection \<open>The call\<close>

text \<open>
  The while loop of \<^verbatim>\<open>call\<close>. \<open>left\<close> is the number of endpoints minus the number tried, so the loop's
  test is that it is not zero. Returned are the client, the endpoints attempted in order (one
  tracing span each) and the outcome.
\<close>

fun call_loop ::
  "cb_config \<Rightarrow> (nat \<Rightarrow> millis \<Rightarrow> (herror, 'a) result \<times> millis) \<Rightarrow> nat \<Rightarrow> nat list \<Rightarrow> nat \<Rightarrow> millis
     \<Rightarrow> failover_client \<Rightarrow> failover_client \<times> nat list \<times> (client_error, 'a) result" where
  "call_loop cfg fn 0 tried currentIdx now c = (c, rev tried, Inl HORIZON_ALL_FAILED)"
| "call_loop cfg fn (Suc left) tried currentIdx now c =
     (if currentIdx \<in> set tried then (c, rev tried, Inl HORIZON_ALL_FAILED)
      else
        let tried' = currentIdx # tried;
            cb = breakers c ! currentIdx;
            (outcome, later) = fn currentIdx now
        in case outcome of
             Inr v \<Rightarrow>
               (c\<lparr>breakers := (breakers c)[currentIdx := ep_recordSuccess cfg cb],
                  activeIndex := currentIdx\<rparr>, rev tried', Inr v)
           | Inl err \<Rightarrow>
               if isTransientFailure err then
                 let bs = (breakers c)[currentIdx := ep_recordFailure cfg later cb];
                     (bs', nextIdx) = nextAvailableIndex cfg later (int currentIdx) bs;
                     c' = c\<lparr>breakers := bs'\<rparr>
                 in case nextIdx of
                      None \<Rightarrow> (c', rev tried', Inl (Remote err))
                    | Some n \<Rightarrow>
                        if n = currentIdx then (c', rev tried', Inl (Remote err))
                        else call_loop cfg fn left tried' n later (c'\<lparr>activeIndex := n\<rparr>)
               else (c, rev tried', Inl (Remote err)))"

definition call ::
  "cb_config \<Rightarrow> (nat \<Rightarrow> millis \<Rightarrow> (herror, 'a) result \<times> millis) \<Rightarrow> millis \<Rightarrow> failover_client
     \<Rightarrow> failover_client \<times> nat list \<times> (client_error, 'a) result" where
  "call cfg fn now c =
     (let currentIdx = activeIndex c;
          (cb, available) = ep_isAvailable cfg now (breakers c ! currentIdx);
          c1 = c\<lparr>breakers := (breakers c)[currentIdx := cb]\<rparr>
      in if available then call_loop cfg fn (length (breakers c)) [] currentIdx now c1
         else
           let (bs, nextIdx) = nextAvailableIndex cfg now (int currentIdx - 1) (breakers c1);
               c2 = c1\<lparr>breakers := bs\<rparr>
           in case nextIdx of
                None \<Rightarrow> (c2, [], Inl HORIZON_ALL_UNAVAILABLE)
              | Some n \<Rightarrow> call_loop cfg fn (length (breakers c)) [] n now (c2\<lparr>activeIndex := n\<rparr>))"

definition activeUrl :: "failover_client \<Rightarrow> string" where
  "activeUrl c = urls c ! activeIndex c"

record breaker_status =
  bs_url :: string
  bs_index :: nat
  bs_active :: bool
  bs_failoverCount :: nat
  bs_state :: cb_state
  bs_failures :: int
  bs_resetsAt :: "millis option"

definition getCircuitBreakerStatus :: "cb_config \<Rightarrow> failover_client \<Rightarrow> breaker_status list" where
  "getCircuitBreakerStatus cfg c =
     map (\<lambda>idx. let cb = breakers c ! idx in
       \<lparr>bs_url = urls c ! idx, bs_index = idx, bs_active = (idx = activeIndex c),
        bs_failoverCount = failoverCounts c ! idx, bs_state = ep_state cb, bs_failures = ep_failures cb,
        bs_resetsAt = (if ep_state cb = OPEN
          then map_option (\<lambda>t. t + CB_RESET_TIMEOUT_MS cfg) (ep_openedAt cb) else None)\<rparr>)
       [0..<length (breakers c)]"

subsection \<open>Resolving the list of endpoints\<close>

text \<open>The list of Horizon endpoints is never empty, so making a client from it succeeds, and none of
  its entries is blank or has surrounding spaces when it comes from the list variable. It is not
  free of duplicates, though its documentation says so.\<close>

theorem resolved_urls:
  "resolveHorizonUrls us u h cf \<noteq> [] \<and> [] \<notin> set (resolveHorizonUrls us u h cf)
   \<and> (\<exists>c. new_client (resolveHorizonUrls us u h cf) = Inr c)
   \<and> resolveHorizonUrls (Some ''a, a'') None None None = [''a'', ''a'']"
proof -
  have ne: "resolveHorizonUrls us u h cf \<noteq> []"
    by (simp add: resolveHorizonUrls_def Let_def split: option.split)
  have blank: "str_or x d \<noteq> []" if "d \<noteq> []" for x d
    using that by (simp add: str_or_def split: option.split)
  have "str_or u (str_or h (str_or cf ''https://horizon.stellar.org'')) \<noteq> []" by (simp add: blank)
  then have "[] \<notin> set (resolveHorizonUrls us u h cf)"
    by (auto simp: resolveHorizonUrls_def Let_def split: option.split)
  moreover have "\<exists>c. new_client (resolveHorizonUrls us u h cf) = Inr c"
    using ne by (simp add: new_client_def)
  moreover have "resolveHorizonUrls (Some ''a, a'') None None None = [''a'', ''a'']" by code_simp
  ultimately show ?thesis using ne by blast
qed

subsection \<open>The scan for the next endpoint\<close>

text \<open>\<open>avail\<close>: the breaker admits a request at that time; it goes on doing so as time passes.\<close>

definition avail :: "cb_config \<Rightarrow> millis \<Rightarrow> endpoint_breaker \<Rightarrow> bool" where
  "avail cfg now b = snd (ep_isAvailable cfg now b)"

lemma avail_iff:
  "avail cfg now b \<longleftrightarrow> ep_state b \<noteq> OPEN \<or> since now (ep_openedAt b) \<ge> CB_RESET_TIMEOUT_MS cfg"
  by (cases "ep_state b") (simp_all add: avail_def ep_isAvailable_def)

lemma avail_mono: "avail cfg now b \<Longrightarrow> now \<le> later \<Longrightarrow> avail cfg later b"
  by (auto simp: avail_iff since_def split: option.splits)

lemma avail_asked: "avail cfg now b \<Longrightarrow> avail cfg later (fst (ep_isAvailable cfg now b))"
  by (cases "ep_state b") (auto simp: avail_iff ep_isAvailable_def)

lemma asked_unavailable: "\<not> avail cfg now b \<Longrightarrow> fst (ep_isAvailable cfg now b) = b"
  by (cases "ep_state b") (auto simp: avail_iff ep_isAvailable_def)

lemma next_scan_length: "length (fst (next_scan cfg now skip bs is)) = length bs"
  by (induction "is" arbitrary: bs) (simp_all add: Let_def split_beta)

lemma next_scan_avail:
  "j < length bs \<Longrightarrow> avail cfg now (bs ! j) \<Longrightarrow> now \<le> later \<Longrightarrow>
   avail cfg later (fst (next_scan cfg now skip bs is) ! j)"
proof (induction "is" arbitrary: bs)
  case Nil
  then show ?case by (simp add: avail_mono)
next
  case (Cons i "is")
  let ?idx = "nat ((skip + 1 + int i) mod int (length bs))"
  let ?bs = "bs[?idx := fst (ep_isAvailable cfg now (bs ! ?idx))]"
  have "?bs ! j = bs ! j \<or> ?bs ! j = fst (ep_isAvailable cfg now (bs ! j))"
    using Cons.prems(1) by (cases "?idx = j") simp_all
  then have j: "avail cfg now (?bs ! j)" "avail cfg later (?bs ! j)"
    using Cons.prems(2,3) avail_asked [OF Cons.prems(2)] avail_mono [OF Cons.prems(2,3)] by auto
  with Cons.IH [of ?bs] Cons.prems show ?case by (simp add: Let_def split_beta)
qed

lemma next_scan_finds:
  assumes "i < m" and "a \<le> i"
    and "avail cfg now (bs ! nat ((skip + 1 + int i) mod int (length bs)))"
    and "nat ((skip + 1 + int i) mod int (length bs)) < length bs"
  shows "\<exists>i'. a \<le> i' \<and> i' \<le> i
    \<and> snd (next_scan cfg now skip bs [a..<m]) = Some (nat ((skip + 1 + int i') mod int (length bs)))"
  using assms
proof (induction "i - a" arbitrary: a)
  case 0
  then have "a = i" by simp
  with 0 show ?case
    by (intro exI [of _ i]) (simp add: upt_conv_Cons Let_def split_beta avail_def)
next
  case (Suc d)
  let ?idx = "nat ((skip + 1 + int a) mod int (length bs))"
  have upt: "[a..<m] = a # [Suc a..<m]" using Suc.prems Suc.hyps(2) by (simp add: upt_conv_Cons)
  show ?case
  proof (cases "avail cfg now (bs ! ?idx)")
    case True
    then show ?thesis using Suc.prems(2) by (intro exI [of _ a]) (simp add: upt Let_def split_beta avail_def)
  next
    case False
    then have "fst (ep_isAvailable cfg now (bs ! ?idx)) = bs ! ?idx" by (rule asked_unavailable)
    then have "next_scan cfg now skip bs [a..<m] = next_scan cfg now skip bs [Suc a..<m]"
      using False by (simp add: upt Let_def split_beta avail_def)
    moreover have "\<exists>i'. Suc a \<le> i' \<and> i' \<le> i \<and> snd (next_scan cfg now skip bs [Suc a..<m])
        = Some (nat ((skip + 1 + int i') mod int (length bs)))"
      using Suc.hyps Suc.prems by (intro Suc.hyps(1)) auto
    ultimately show ?thesis by (metis Suc_leD)
  qed
qed

text \<open>
  \<open>off n s j\<close>: how far endpoint \<open>j\<close> is ahead of endpoint \<open>s\<close> in the cyclic order of \<open>n\<close> endpoints.
\<close>

definition off :: "nat \<Rightarrow> nat \<Rightarrow> nat \<Rightarrow> nat" where
  "off n s j = nat ((int j - int s) mod int n)"

lemma off_less: "0 < n \<Longrightarrow> off n s j < n"
  by (simp add: off_def nat_less_iff)

lemma off_self [simp]: "off n s s = 0"
  by (simp add: off_def)

lemma off_index:
  assumes "j < n"
  shows "nat ((int s + int (off n s j)) mod int n) = j"
proof -
  have "(int s + int (off n s j)) mod int n = (int s + (int j - int s) mod int n) mod int n"
    using assms by (simp add: off_def)
  also have "\<dots> = (int s + (int j - int s)) mod int n" by (simp add: mod_simps)
  finally show ?thesis using assms by simp
qed

lemma off_inj: "j < n \<Longrightarrow> k < n \<Longrightarrow> off n s j = off n s k \<Longrightarrow> j = k"
  by (metis off_index)

lemma index_off:
  assumes "d < n"
  shows "off n s (nat ((int s + int d) mod int n)) = d"
proof -
  have "(((int s + int d) mod int n) - int s) mod int n = int d mod int n" by (simp add: mod_simps)
  with assms show ?thesis by (simp add: off_def)
qed

text \<open>
  Seen from the start \<open>s\<close>, a scan that begins at offset \<open>d\<close> finds an endpoint no further than the
  available endpoint \<open>j\<close>.
\<close>

lemma next_towards:
  assumes "j < length bs" and "avail cfg now (bs ! j)" and "d \<le> off (length bs) s j"
    and "(skip + 1) mod int (length bs) = (int s + int d) mod int (length bs)"
  shows "\<exists>m < length bs. snd (nextAvailableIndex cfg now skip bs) = Some m
    \<and> d \<le> off (length bs) s m \<and> off (length bs) s m \<le> off (length bs) s j"
proof -
  let ?n = "length bs"
  have idx: "nat ((skip + 1 + int i) mod int ?n) = nat ((int s + int (d + i)) mod int ?n)" for i
  proof -
    have "(skip + 1 + int i) mod int ?n = ((skip + 1) mod int ?n + int i) mod int ?n" by (simp add: mod_simps)
    also have "\<dots> = (int s + int d + int i) mod int ?n" unfolding assms(4) by (simp add: mod_simps)
    finally show ?thesis by (simp add: add.assoc)
  qed
  define i where "i = off ?n s j - d"
  have n: "0 < ?n" using assms(1) by auto
  have i: "d + i = off ?n s j" "i < ?n" using assms(3) off_less [OF n, of s j] by (auto simp: i_def)
  have at_i: "nat ((skip + 1 + int i) mod int ?n) = j" unfolding idx i(1) by (rule off_index [OF assms(1)])
  obtain i' where i': "i' \<le> i"
    "snd (nextAvailableIndex cfg now skip bs) = Some (nat ((skip + 1 + int i') mod int ?n))"
    using next_scan_finds [of i ?n 0 cfg now bs skip] i(2) at_i assms(1,2)
    by (auto simp: nextAvailableIndex_def)
  have "d + i' < ?n" using i' i(1) off_less [OF n, of s j] by linarith
  then have "off ?n s (nat ((int s + int (d + i')) mod int ?n)) = d + i'" by (rule index_off)
  moreover have "nat ((int s + int (d + i')) mod int ?n) < ?n" using n by (simp add: nat_less_iff)
  ultimately show ?thesis using i' i(1) unfolding idx by auto
qed

subsection \<open>The call finds an endpoint that answers\<close>

text \<open>
  \<open>remote_ok fn j\<close>: every failure of a remote call is transient, no call goes back in time, and
  endpoint \<open>j\<close> answers.
\<close>

definition remote_ok :: "(nat \<Rightarrow> millis \<Rightarrow> (herror, 'a) result \<times> millis) \<Rightarrow> nat \<Rightarrow> bool" where
  "remote_ok fn j \<longleftrightarrow>
     (\<forall>i t. t \<le> snd (fn i t) \<and> (\<forall>e. fst (fn i t) = Inl e \<longrightarrow> isTransientFailure e))
     \<and> (\<forall>t e. fst (fn j t) \<noteq> Inl e)"

lemma call_loop_answers:
  assumes "remote_ok fn j" and "n = length (breakers c)" and "cur < n" and "j < n"
    and "off n s cur \<le> off n s j" and "\<forall>t\<in>set tried. off n s t < off n s cur"
    and "cur \<noteq> j \<longrightarrow> avail cfg now (breakers c ! j)" and "off n s j - off n s cur < left"
  shows "\<exists>c' tr v. call_loop cfg fn left tried cur now c = (c', tr, Inr v) \<and> activeIndex c' = last tr"
  using assms
proof (induction left arbitrary: tried cur now c)
  case 0
  then show ?case by simp
next
  case (Suc left)
  have fresh: "cur \<notin> set tried" using Suc.prems(6) by auto
  obtain out later where fn: "fn cur now = (out, later)" by fastforce
  show ?case
  proof (cases out)
    case (Inr v)
    with fresh fn show ?thesis by (simp add: Let_def)
  next
    case (Inl e)
    with Suc.prems(1) fn have "isTransientFailure e" by (simp add: remote_ok_def) (metis fst_conv)
    moreover have "now \<le> later" using Suc.prems(1) fn by (simp add: remote_ok_def) (metis snd_conv)
    moreover have "cur \<noteq> j" using Suc.prems(1) fn Inl by (simp add: remote_ok_def) (metis fst_conv)
    ultimately have e: "isTransientFailure e" "now \<le> later" "cur \<noteq> j" by blast+
    let ?bs = "(breakers c)[cur := ep_recordFailure cfg later (breakers c ! cur)]"
    have bs: "length ?bs = n" "avail cfg later (?bs ! j)"
      using Suc.prems(2,7) e by (auto intro: avail_mono)
    have less: "Suc (off n s cur) \<le> off n s j"
      using Suc.prems(3-5) e(3) off_inj [of cur n j s] by fastforce
    have "(int s + int (Suc (off n s cur))) mod int n = ((int s + int (off n s cur)) mod int n + 1) mod int n"
      by (simp add: mod_simps ac_simps)
    also have "(int s + int (off n s cur)) mod int n = int cur"
      using off_index [OF Suc.prems(3), of s] Suc.prems(3) by (metis nat_0_le pos_mod_sign of_nat_0_less_iff gr_implies_not0 neq0_conv)
    finally have skip: "(int cur + 1) mod int n = (int s + int (Suc (off n s cur))) mod int n" by simp
    obtain m where m: "m < n" "snd (nextAvailableIndex cfg later (int cur) ?bs) = Some m"
      "Suc (off n s cur) \<le> off n s m" "off n s m \<le> off n s j"
      using next_towards [of j ?bs cfg later "Suc (off n s cur)" s "int cur"] bs less skip Suc.prems(4) by auto
    let ?bs' = "fst (nextAvailableIndex cfg later (int cur) ?bs)"
    have bs': "length ?bs' = n" "avail cfg later (?bs' ! j)"
      using bs Suc.prems(4) next_scan_avail [of j ?bs cfg later later "int cur"]
      by (simp_all add: nextAvailableIndex_def next_scan_length)
    have "m \<noteq> cur" using m(3) by auto
    then have "call_loop cfg fn (Suc left) tried cur now c
        = call_loop cfg fn left (cur # tried) m later (c\<lparr>breakers := ?bs', activeIndex := m\<rparr>)"
      using fresh fn Inl e(1) m(2) by (simp add: Let_def split_beta)
    moreover have "\<forall>t\<in>set (cur # tried). off n s t < off n s m"
      using m(3) Suc.prems(6) by fastforce
    ultimately show ?thesis
      using Suc.IH [of "c\<lparr>breakers := ?bs', activeIndex := m\<rparr>" m "cur # tried" later]
        Suc.prems(1,4,8) bs' m(1,3,4)
      by simp
  qed
qed

definition ok_client :: "failover_client \<Rightarrow> bool" where
  "ok_client c \<longleftrightarrow> activeIndex c < length (breakers c) \<and> length (urls c) = length (breakers c)"

text \<open>C38: As long as some endpoint both has a breaker that admits requests and answers, a call returns an
  answer, whatever the other endpoints do, provided their failures are transient ones: the cyclic
  search never gives up before it has reached that endpoint. The endpoint that answered is the
  last one attempted, and it becomes the active one.\<close>

theorem call_answers:
  assumes "ok_client c" and "j < length (breakers c)" and "avail cfg now (breakers c ! j)"
    and "remote_ok fn j"
  shows "\<exists>c' tr v. call cfg fn now c = (c', tr, Inr v) \<and> activeIndex c' = last tr"
proof -
  let ?n = "length (breakers c)" and ?s = "activeIndex c"
  let ?bs = "(breakers c)[?s := fst (ep_isAvailable cfg now (breakers c ! ?s))]"
  have s: "?s < ?n" and n: "0 < ?n" using assms(1) by (auto simp: ok_client_def)
  have "?bs ! j = breakers c ! j \<or> ?bs ! j = fst (ep_isAvailable cfg now (breakers c ! j))"
    using assms(2) by (cases "?s = j") simp_all
  then have j: "avail cfg now (?bs ! j)" using assms(3) avail_asked [OF assms(3)] by auto
  show ?thesis
  proof (cases "avail cfg now (breakers c ! ?s)")
    case True
    have "\<exists>c' tr v. call_loop cfg fn ?n [] ?s now (c\<lparr>breakers := ?bs\<rparr>) = (c', tr, Inr v)
        \<and> activeIndex c' = last tr"
      using call_loop_answers [OF assms(4), of ?n "c\<lparr>breakers := ?bs\<rparr>" ?s ?s "[]" cfg now ?n]
        s assms(2,3) off_less [OF n, of ?s j]
      by simp
    with True show ?thesis by (simp add: call_def avail_def Let_def split_beta)
  next
    case False
    have "(int ?s - 1 + 1) mod int (length ?bs) = (int ?s + int 0) mod int (length ?bs)" by simp
    with next_towards [of j ?bs cfg now 0 ?s "int ?s - 1"] j assms(2)
    obtain m where m: "m < ?n" "snd (nextAvailableIndex cfg now (int ?s - 1) ?bs) = Some m"
      "off ?n ?s m \<le> off ?n ?s j" by auto
    let ?bs' = "fst (nextAvailableIndex cfg now (int ?s - 1) ?bs)"
    let ?c = "c\<lparr>breakers := ?bs', activeIndex := m\<rparr>"
    have "length ?bs' = ?n" "avail cfg now (?bs' ! j)"
      using j assms(2) next_scan_avail [of j ?bs cfg now now "int ?s - 1"]
      by (simp_all add: nextAvailableIndex_def next_scan_length)
    then have "\<exists>c' tr v. call_loop cfg fn ?n [] m now ?c = (c', tr, Inr v) \<and> activeIndex c' = last tr"
      using call_loop_answers [OF assms(4), of ?n ?c m ?s "[]" cfg now ?n]
        m assms(2) off_less [OF n, of ?s j]
      by simp
    with False m(2) show ?thesis by (simp add: call_def avail_def Let_def split_beta)
  qed
qed

text \<open>Three endpoints; the first is down and the second has its breaker open.\<close>

definition sample_cfg :: cb_config where
  "sample_cfg = cb_config_of_env None None None"

definition sample_client :: failover_client where
  "sample_client = \<lparr>urls = [''a'', ''b'', ''c''], activeIndex = 0,
     breakers = [new_ep_breaker, new_ep_breaker\<lparr>ep_state := OPEN, ep_openedAt := Some 0\<rparr>, new_ep_breaker],
     failoverCounts = [0, 0, 0]\<rparr>"

definition sample_remote :: "nat \<Rightarrow> millis \<Rightarrow> (herror, nat) result \<times> millis" where
  "sample_remote i t = (if i = 2 then (Inr 7, t + 1) else (Inl sample_error, t + 1))"

theorem call_answers_witness:
  "\<exists>c' tr v. call sample_cfg sample_remote 5 sample_client = (c', tr, Inr v) \<and> activeIndex c' = last tr"
proof (rule call_answers [of _ 2])
  show "ok_client sample_client" by (simp add: ok_client_def sample_client_def)
  show "2 < length (breakers sample_client)" by (simp add: sample_client_def)
  show "avail sample_cfg 5 (breakers sample_client ! 2)"
    by (simp add: avail_iff sample_client_def new_ep_breaker_def)
  show "remote_ok sample_remote 2"
    by (simp add: remote_ok_def sample_remote_def sample_error_def isTransientFailure_def
        js_or_def truthy_int_def retryable_status_def)
qed

end
