(* ===== verification/Concurrent_Requests.thy ===== *)
theory Concurrent_Requests
  imports Circuit_Breaker JS_String "HOL-Library.Multiset"
begin

section \<open>Middleware for concurrent requests\<close>

text \<open>
  \<^verbatim>\<open>backend/src/middleware/concurrentRequestHandler.js\<close>, apart from its circuit breaker, which is in
  theory \<open>Circuit_Breaker\<close>: the queue that bounds how many requests run at once, the deduplicator, the
  rate limiter and the cache of idempotent replies. What happens in between two turns of the event
  loop is one step of the model, and a timer is an entry in a list of pending timers.
\<close>

subsection \<open>The request queue\<close>

text \<open>
  A queued request carries the number under which it arrived, which stands for the identity of its
  item, and its priority. \<open>started\<close> lists the requests whose operation was called, in that order, and
  \<open>rejected\<close> those that were refused because the queue was full or that timed out while waiting.
\<close>

record item =
  item_id :: nat
  item_priority :: int

record request_queue =
  rq_maxSize :: int
  rq_maxConcurrent :: int
  rq_queue :: "item list"
  rq_processing :: int
  rq_started :: "item list"
  rq_rejected :: "item list"

definition new_queue :: "int option \<Rightarrow> int option \<Rightarrow> request_queue" where
  "new_queue maxSize maxConcurrent =
     \<lparr>rq_maxSize = or_default maxSize 1000, rq_maxConcurrent = or_default maxConcurrent 50,
      rq_queue = [], rq_processing = 0, rq_started = [], rq_rejected = []\<rparr>"

text \<open>
  The position the code inserts at is the first whose priority is lower; without one the item is
  pushed at the end.
\<close>

fun insert_item :: "item \<Rightarrow> item list \<Rightarrow> item list" where
  "insert_item x [] = [x]"
| "insert_item x (y # ys) =
     (if item_priority y < item_priority x then x # y # ys else y # insert_item x ys)"

fun start_loop :: "int \<Rightarrow> int \<Rightarrow> item list \<Rightarrow> item list \<Rightarrow> int \<times> item list \<times> item list" where
  "start_loop maxConcurrent processing started [] = (processing, started, [])"
| "start_loop maxConcurrent processing started (x # q) =
     (if processing < maxConcurrent
      then start_loop maxConcurrent (processing + 1) (started @ [x]) q
      else (processing, started, x # q))"

text \<open>
  The operations are asynchronous functions, as the one caller of the queue passes: starting one yields a promise, whose
  settlement is the step \<open>op_settled\<close>. One that threw at once would not be settled.
\<close>

definition processQueue :: "request_queue \<Rightarrow> request_queue" where
  "processQueue s =
     (let (p, st, q) = start_loop (rq_maxConcurrent s) (rq_processing s) (rq_started s) (rq_queue s)
      in s\<lparr>rq_processing := p, rq_started := st, rq_queue := q\<rparr>)"

definition enqueue :: "item \<Rightarrow> request_queue \<Rightarrow> request_queue" where
  "enqueue x s =
     (if int (length (rq_queue s)) \<ge> rq_maxSize s then s\<lparr>rq_rejected := rq_rejected s @ [x]\<rparr>
      else processQueue (s\<lparr>rq_queue := insert_item x (rq_queue s)\<rparr>))"

text \<open>An operation that was started settles, whichever way.\<close>

definition op_settled :: "request_queue \<Rightarrow> request_queue" where
  "op_settled s = processQueue (s\<lparr>rq_processing := rq_processing s - 1\<rparr>)"

text \<open>The timer of an item fires: it is removed and rejected if it still waits.\<close>

definition item_timeout :: "item \<Rightarrow> request_queue \<Rightarrow> request_queue" where
  "item_timeout x s =
     (if x \<in> set (rq_queue s)
      then s\<lparr>rq_queue := remove1 x (rq_queue s), rq_rejected := rq_rejected s @ [x]\<rparr>
      else s)"

text \<open>The steps of a queue; \<open>next\<close> is the number the next arrival gets.\<close>

inductive queue_step :: "nat \<times> nat \<times> request_queue \<Rightarrow> nat \<times> nat \<times> request_queue \<Rightarrow> bool" where
  arrive: "queue_step (n, done, s) (Suc n, done, enqueue \<lparr>item_id = n, item_priority = p\<rparr> s)"
| settle: "done < length (rq_started s) \<Longrightarrow> queue_step (n, done, s) (n, Suc done, op_settled s)"
| expire: "queue_step (n, done, s) (n, done, item_timeout x s)"

inductive queue_reach :: "int option \<Rightarrow> int option \<Rightarrow> nat \<times> nat \<times> request_queue \<Rightarrow> bool"
  for ms mc where
  init: "queue_reach ms mc (0, 0, new_queue ms mc)"
| step: "queue_reach ms mc c \<Longrightarrow> queue_step c c' \<Longrightarrow> queue_reach ms mc c'"

inductive_cases queue_stepE: "queue_step (n, done, s) c"

text \<open>
  The order of the queue: higher priorities first, and arrivals of one priority in order.
\<close>

definition before :: "item \<Rightarrow> item \<Rightarrow> bool" where
  "before x y \<longleftrightarrow> item_priority x > item_priority y
     \<or> item_priority x = item_priority y \<and> item_id x < item_id y"

definition ids_of :: "request_queue \<Rightarrow> nat multiset" where
  "ids_of s = mset (map item_id (rq_started s @ rq_queue s @ rq_rejected s))"

definition arrivals :: "nat \<Rightarrow> nat multiset" where
  "arrivals n = mset [0..<n]"

lemma arrivals_Suc: "arrivals (Suc n) = add_mset n (arrivals n)"
  by (simp add: arrivals_def del: mset_upt)

definition queue_inv :: "nat \<times> nat \<times> request_queue \<Rightarrow> bool" where
  "queue_inv c = (case c of (n, done, s) \<Rightarrow>
     rq_processing s = int (length (rq_started s)) - int done \<and> done \<le> length (rq_started s)
     \<and> rq_processing s \<le> max 0 (rq_maxConcurrent s)
     \<and> (rq_queue s \<noteq> [] \<longrightarrow> rq_processing s \<ge> rq_maxConcurrent s)
     \<and> int (length (rq_queue s)) \<le> max 0 (rq_maxSize s)
     \<and> sorted_wrt before (rq_queue s)
     \<and> ids_of s = arrivals n)"

lemma start_loop_spec:
  "start_loop mx p st q = (p', st', q') \<Longrightarrow>
   \<exists>k. st' = st @ take k q \<and> q' = drop k q \<and> k \<le> length q \<and> p' = p + int k
     \<and> (p \<le> max 0 mx \<longrightarrow> p' \<le> max 0 mx) \<and> (q' \<noteq> [] \<longrightarrow> p' \<ge> mx)"
proof (induction q arbitrary: p st)
  case Nil
  then show ?case by (intro exI [of _ 0]) simp
next
  case (Cons x q)
  show ?case
  proof (cases "p < mx")
    case True
    with Cons.prems have "start_loop mx (p + 1) (st @ [x]) q = (p', st', q')" by simp
    from Cons.IH [OF this] obtain k where k: "st' = (st @ [x]) @ take k q" "q' = drop k q"
      "k \<le> length q" "p' = p + 1 + int k" "p + 1 \<le> max 0 mx \<longrightarrow> p' \<le> max 0 mx" "q' \<noteq> [] \<longrightarrow> p' \<ge> mx"
      by blast
    with True show ?thesis by (intro exI [of _ "Suc k"]) auto
  next
    case False
    with Cons.prems show ?thesis by (intro exI [of _ 0]) auto
  qed
qed

lemma processQueue_spec:
  "\<exists>k. rq_started (processQueue s) = rq_started s @ take k (rq_queue s)
     \<and> rq_queue (processQueue s) = drop k (rq_queue s) \<and> k \<le> length (rq_queue s)
     \<and> rq_processing (processQueue s) = rq_processing s + int k
     \<and> (rq_processing s \<le> max 0 (rq_maxConcurrent s) \<longrightarrow>
          rq_processing (processQueue s) \<le> max 0 (rq_maxConcurrent s))
     \<and> (rq_queue (processQueue s) \<noteq> [] \<longrightarrow> rq_processing (processQueue s) \<ge> rq_maxConcurrent s)
     \<and> rq_rejected (processQueue s) = rq_rejected s \<and> rq_maxSize (processQueue s) = rq_maxSize s
     \<and> rq_maxConcurrent (processQueue s) = rq_maxConcurrent s"
proof -
  obtain p st q where r: "start_loop (rq_maxConcurrent s) (rq_processing s) (rq_started s) (rq_queue s) = (p, st, q)"
    by (metis prod_cases3)
  from start_loop_spec [OF r] r show ?thesis by (auto simp: processQueue_def)
qed

lemma insert_item_set: "set (insert_item x q) = insert x (set q)"
  by (induction q) auto

lemma insert_item_mset: "mset (insert_item x q) = add_mset x (mset q)"
  by (induction q) auto

lemma length_insert_item: "length (insert_item x q) = Suc (length q)"
  by (induction q) auto

lemma insert_item_sorted:
  assumes "sorted_wrt before q" and "\<forall>y\<in>set q. item_id y < item_id x"
  shows "sorted_wrt before (insert_item x q)"
  using assms
proof (induction q)
  case Nil
  then show ?case by simp
next
  case (Cons y q)
  then show ?case by (auto simp: insert_item_set before_def)
qed

text \<open>
  Starting requests keeps the invariant: what it needs of the state is all of it but that the
  capacity is used.
\<close>

definition pre_inv :: "nat \<Rightarrow> nat \<Rightarrow> request_queue \<Rightarrow> bool" where
  "pre_inv n done s \<longleftrightarrow>
     rq_processing s = int (length (rq_started s)) - int done \<and> done \<le> length (rq_started s)
     \<and> rq_processing s \<le> max 0 (rq_maxConcurrent s)
     \<and> int (length (rq_queue s)) \<le> max 0 (rq_maxSize s)
     \<and> sorted_wrt before (rq_queue s)
     \<and> ids_of s = arrivals n"

lemma processQueue_inv:
  assumes "pre_inv n done s"
  shows "queue_inv (n, done, processQueue s)"
proof -
  let ?t = "processQueue s"
  obtain k where k: "rq_started ?t = rq_started s @ take k (rq_queue s)"
    "rq_queue ?t = drop k (rq_queue s)" "k \<le> length (rq_queue s)"
    "rq_processing ?t = rq_processing s + int k"
    "rq_processing s \<le> max 0 (rq_maxConcurrent s) \<longrightarrow> rq_processing ?t \<le> max 0 (rq_maxConcurrent s)"
    "rq_queue ?t \<noteq> [] \<longrightarrow> rq_processing ?t \<ge> rq_maxConcurrent s"
    "rq_rejected ?t = rq_rejected s" "rq_maxSize ?t = rq_maxSize s" "rq_maxConcurrent ?t = rq_maxConcurrent s"
    using processQueue_spec by blast
  have "rq_started ?t @ rq_queue ?t @ rq_rejected ?t = rq_started s @ rq_queue s @ rq_rejected s"
    unfolding k(1,2,7) by simp
  then have "ids_of ?t = ids_of s" by (simp only: ids_of_def)
  moreover have "length (rq_started ?t) = length (rq_started s) + k" unfolding k(1) using k(3) by simp
  moreover have "length (rq_queue ?t) \<le> length (rq_queue s)" unfolding k(2) by simp
  moreover have "sorted_wrt before (rq_queue ?t)"
    using assms by (simp add: pre_inv_def k(2) sorted_wrt_drop)
  ultimately show ?thesis
    using assms k(4-6) unfolding pre_inv_def queue_inv_def prod.case k(8,9) by auto
qed

lemma queue_ids_less:
  assumes "ids_of s = arrivals n" and "y \<in> set (rq_queue s)"
  shows "item_id y < n"
proof -
  have "item_id y \<in># ids_of s" using assms(2) by (simp add: ids_of_def)
  then show ?thesis by (simp add: assms(1) arrivals_def)
qed

lemma enqueue_inv:
  assumes inv: "queue_inv (n, done, s)" and "item_id x = n"
  shows "queue_inv (Suc n, done, enqueue x s)"
proof (cases "int (length (rq_queue s)) \<ge> rq_maxSize s")
  case True
  have "ids_of (s\<lparr>rq_rejected := rq_rejected s @ [x]\<rparr>) = add_mset n (ids_of s)"
    using assms(2) by (simp add: ids_of_def)
  with inv True show ?thesis by (auto simp: enqueue_def queue_inv_def arrivals_Suc)
next
  case False
  let ?s = "s\<lparr>rq_queue := insert_item x (rq_queue s)\<rparr>"
  have "\<forall>y\<in>set (rq_queue s). item_id y < item_id x"
    using assms queue_ids_less [of s n] by (auto simp: queue_inv_def)
  moreover have "ids_of ?s = arrivals (Suc n)"
    using assms by (simp add: ids_of_def insert_item_mset queue_inv_def arrivals_Suc)
  ultimately have "pre_inv (Suc n) done ?s"
    using inv False by (simp add: queue_inv_def pre_inv_def insert_item_sorted length_insert_item)
  with False show ?thesis by (simp add: enqueue_def processQueue_inv)
qed

lemma op_settled_inv:
  assumes "queue_inv (n, done, s)" and "done < length (rq_started s)"
  shows "queue_inv (n, Suc done, op_settled s)"
proof -
  have "ids_of (s\<lparr>rq_processing := rq_processing s - 1\<rparr>) = ids_of s" by (simp add: ids_of_def)
  with assms have "pre_inv n (Suc done) (s\<lparr>rq_processing := rq_processing s - 1\<rparr>)"
    by (simp add: queue_inv_def pre_inv_def)
  then show ?thesis by (simp add: op_settled_def processQueue_inv)
qed

lemma sorted_wrt_remove1: "sorted_wrt P xs \<Longrightarrow> sorted_wrt P (remove1 x xs)"
  by (induction xs) (auto dest: notin_set_remove1)

lemma item_timeout_inv:
  assumes "queue_inv (n, done, s)"
  shows "queue_inv (n, done, item_timeout x s)"
proof (cases "x \<in> set (rq_queue s)")
  case True
  have "mset (rq_queue s) = add_mset x (mset (remove1 x (rq_queue s)))" using True by simp
  then have "ids_of (s\<lparr>rq_queue := remove1 x (rq_queue s), rq_rejected := rq_rejected s @ [x]\<rparr>) = ids_of s"
    by (simp add: ids_of_def del: mset_remove1)
  moreover have "length (remove1 x (rq_queue s)) \<le> length (rq_queue s)"
    by (simp add: length_remove1)
  ultimately show ?thesis using assms True
    by (auto simp: item_timeout_def queue_inv_def sorted_wrt_remove1)
next
  case False
  with assms show ?thesis by (simp add: item_timeout_def)
qed

lemma queue_inv_reachable: "queue_reach ms mc c \<Longrightarrow> queue_inv c"
proof (induction rule: queue_reach.induct)
  case init
  show ?case by (simp add: queue_inv_def new_queue_def ids_of_def arrivals_def)
next
  case (step c c')
  from step.hyps(2) step.IH show ?case
    by (cases rule: queue_step.cases) (simp_all add: enqueue_inv op_settled_inv item_timeout_inv)
qed

text \<open>C39: In every state the request queue can reach, by any interleaving of arrivals, completions and
  timeouts: no more requests run than the limit allows; requests wait only while that limit is
  used up; the waiting line is within its size and ordered by priority, and by arrival within a
  priority; and every request that ever arrived is exactly one of started, waiting and refused.\<close>

theorem request_queue_invariant:
  assumes "queue_reach ms mc (n, done, s)"
  shows "rq_processing s = int (length (rq_started s)) - int done
     \<and> rq_processing s \<le> max 0 (rq_maxConcurrent s)
     \<and> (rq_queue s \<noteq> [] \<longrightarrow> rq_processing s \<ge> rq_maxConcurrent s)
     \<and> int (length (rq_queue s)) \<le> max 0 (rq_maxSize s)
     \<and> sorted_wrt before (rq_queue s)
     \<and> mset (map item_id (rq_started s @ rq_queue s @ rq_rejected s)) = mset [0..<n]"
  using queue_inv_reachable [OF assms] unfolding queue_inv_def ids_of_def arrivals_def by blast

theorem request_queue_invariant_witness:
  "sorted_wrt before (rq_queue (enqueue \<lparr>item_id = 1, item_priority = 5\<rparr>
     (enqueue \<lparr>item_id = 0, item_priority = 3\<rparr> (new_queue None (Some 1)))))"
proof -
  have "queue_reach None (Some 1) (0, 0, new_queue None (Some 1))" by (rule queue_reach.init)
  from queue_reach.step [OF this queue_step.arrive [of 0 0 _ 3]]
  have "queue_reach None (Some 1) (1, 0, enqueue \<lparr>item_id = 0, item_priority = 3\<rparr> (new_queue None (Some 1)))"
    by simp
  from request_queue_invariant [OF queue_reach.step [OF this queue_step.arrive [of 1 0 _ 5]]]
  show ?thesis by blast
qed

subsection \<open>The deduplicator\<close>

text \<open>
  An entry of the map of pending requests holds a promise, known here by a number, and the two
  functions that settle it. A promise is settled at most once. A timer that was set for a key fires
  at its time whatever has become of the key since.
\<close>

datatype 'v settled = Resolved 'v | Rejected

record 'v dedup =
  pendingRequests :: "string \<rightharpoonup> nat"
  promises :: "nat \<rightharpoonup> 'v settled"
  next_promise :: nat
  ttlMs :: int
  timers :: "(string \<times> millis) list"

definition new_dedup :: "int \<Rightarrow> 'v dedup" where
  "new_dedup ttl = \<lparr>pendingRequests = Map.empty, promises = Map.empty, next_promise = 0, ttlMs = ttl,
     timers = []\<rparr>"

text \<open>
  What \<^verbatim>\<open>tryStart\<close> returns: the flag and, for a duplicate, the value found in the map, which is the
  whole entry \<^verbatim>\<open>{ promise, resolve, reject }\<close> and not the promise in it.
\<close>

datatype start_result = Fresh | Duplicate (entry: nat)

definition tryStart :: "string \<Rightarrow> millis \<Rightarrow> 'v dedup \<Rightarrow> 'v dedup \<times> start_result" where
  "tryStart key now d =
     (case pendingRequests d key of
        Some e \<Rightarrow> (d, Duplicate e)
      | None \<Rightarrow>
          (d\<lparr>pendingRequests := (pendingRequests d)(key \<mapsto> next_promise d),
             next_promise := Suc (next_promise d),
             timers := timers d @ [(key, now + ttlMs d)]\<rparr>, Fresh))"

definition complete :: "string \<Rightarrow> 'v settled \<Rightarrow> 'v dedup \<Rightarrow> 'v dedup" where
  "complete key outcome d =
     (case pendingRequests d key of
        None \<Rightarrow> d
      | Some e \<Rightarrow>
          d\<lparr>promises := (if promises d e = None then (promises d)(e \<mapsto> outcome) else promises d),
            pendingRequests := (pendingRequests d)(key := None)\<rparr>)"

definition fire_timers :: "millis \<Rightarrow> 'v dedup \<Rightarrow> 'v dedup" where
  "fire_timers now d =
     d\<lparr>pendingRequests := (\<lambda>k. if list_ex (\<lambda>(k', t). k' = k \<and> t \<le> now) (timers d) then None
                            else pendingRequests d k),
       timers := filter (\<lambda>(k, t). \<not> t \<le> now) (timers d)\<rparr>"

text \<open>
  What the middleware answers. Awaiting a value that is not a promise gives the value itself at
  once, so a duplicate is answered with the entry object of the map.
\<close>

datatype 'v dedup_reply = RunHandler | ReplyEntry nat | ReplyValue 'v | ReplyFailed

definition deduplicate :: "string option \<Rightarrow> millis \<Rightarrow> 'v dedup \<Rightarrow> 'v dedup \<times> 'v dedup_reply" where
  "deduplicate key now d =
     (case key of
        None \<Rightarrow> (d, RunHandler)
      | Some k \<Rightarrow>
          if k = [] then (d, RunHandler)
          else case tryStart k now d of
            (d', Fresh) \<Rightarrow> (d', RunHandler)
          | (d', Duplicate e) \<Rightarrow> (d', ReplyEntry e))"

text \<open>A request whose key is pending is never run a second time, but it is not answered with the
  result of the first one either: whatever the first one gives, or even before it gives anything,
  the duplicate is answered with the entry of the pending map.\<close>

theorem duplicate_gets_entry:
  assumes "pendingRequests d k = Some e" and "k \<noteq> []"
  shows "deduplicate (Some k) now d = (d, ReplyEntry e)"
  using assms by (simp add: deduplicate_def tryStart_def)

theorem duplicate_gets_entry_witness:
  "snd (deduplicate (Some ''k'') 1 (fst (deduplicate (Some ''k'') 0 (new_dedup 60000 :: nat dedup)))) = ReplyEntry 0"
proof -
  let ?d = "fst (deduplicate (Some ''k'') 0 (new_dedup 60000 :: nat dedup))"
  have "pendingRequests ?d ''k'' = Some 0" by (simp add: deduplicate_def tryStart_def new_dedup_def)
  from duplicate_gets_entry [OF this, of 1] show ?thesis by simp
qed

text \<open>The timer of a request that has completed is not cancelled, and it forgets a later request with
  the same key before that one's own time has run out: a duplicate of the later request, which is
  still pending, is then run.\<close>

theorem stale_dedup_timer:
  assumes "0 < t" and "t < ttl" and "k \<noteq> []"
  shows "let d1 = fst (tryStart k 0 (new_dedup ttl :: nat dedup));
             d2 = complete k (Resolved v) d1;
             d3 = fst (tryStart k t d2);
             d4 = fire_timers ttl d3
         in pendingRequests d3 k = Some 1 \<and> promises d3 1 = None
          \<and> snd (deduplicate (Some k) ttl d3) = ReplyEntry 1
          \<and> snd (deduplicate (Some k) ttl d4) = RunHandler"
  using assms by (simp add: tryStart_def new_dedup_def complete_def fire_timers_def deduplicate_def)

theorem stale_dedup_timer_witness:
  "let d1 = fst (tryStart ''k'' 0 (new_dedup 60000 :: nat dedup));
       d2 = complete ''k'' (Resolved 9) d1;
       d3 = fst (tryStart ''k'' 59000 d2)
   in snd (deduplicate (Some ''k'') 60000 (fire_timers 60000 d3)) = RunHandler"
  using stale_dedup_timer [of 59000 60000 "''k''" 9] by (simp add: Let_def)

subsection \<open>The rate limiter\<close>

record rl_entry =
  rl_windowStart :: millis
  rl_count :: nat

definition inMemoryIncrement ::
  "string \<Rightarrow> millis \<Rightarrow> millis \<Rightarrow> (string \<rightharpoonup> rl_entry) \<Rightarrow> (string \<rightharpoonup> rl_entry) \<times> nat" where
  "inMemoryIncrement key now windowStart store =
     (let entry = (case store key of
            Some e \<Rightarrow> if rl_windowStart e < windowStart then \<lparr>rl_windowStart = now, rl_count = 0\<rparr> else e
          | None \<Rightarrow> \<lparr>rl_windowStart = now, rl_count = 0\<rparr>);
          entry' = entry\<lparr>rl_count := Suc (rl_count entry)\<rparr>
      in (store(key \<mapsto> entry'), rl_count entry'))"

record rl_reply =
  rl_limit :: nat
  rl_remaining :: nat
  rl_reset :: int
  rl_blocked :: bool

text \<open>
  Whole seconds until the end of the window aligned to the clock, at least one;
  \<^verbatim>\<open>Math.floor\<close> and \<^verbatim>\<open>Math.ceil\<close> of a quotient of integers are integer divisions.
\<close>

definition resetSeconds :: "int \<Rightarrow> millis \<Rightarrow> int" where
  "resetSeconds windowMs now =
     max 1 (- ((- ((now div windowMs) * windowMs + windowMs - now)) div 1000))"

text \<open>
  The middleware. \<open>redis\<close> is the count the Redis pipeline gives for the current bucket, or \<open>None\<close> when
  there is no Redis or the pipeline fails.
\<close>

definition rateLimiter ::
  "int \<Rightarrow> nat \<Rightarrow> nat option \<Rightarrow> string \<Rightarrow> millis \<Rightarrow> (string \<rightharpoonup> rl_entry) \<Rightarrow> (string \<rightharpoonup> rl_entry) \<times> rl_reply" where
  "rateLimiter windowMs maxRequests redis clientKey now store =
     (let key = ''rl:'' @ clientKey;
          (store', count) = (case redis of
              Some c \<Rightarrow> (store, c)
            | None \<Rightarrow> inMemoryIncrement key now (now - windowMs) store)
      in (store', \<lparr>rl_limit = maxRequests, rl_remaining = maxRequests - count,
                   rl_reset = resetSeconds windowMs now, rl_blocked = (count > maxRequests)\<rparr>))"

text \<open>The requests of one client at the given times, with the in-memory store.\<close>

fun rl_run :: "int \<Rightarrow> nat \<Rightarrow> string \<Rightarrow> (string \<rightharpoonup> rl_entry) \<Rightarrow> millis list \<Rightarrow> rl_reply list" where
  "rl_run w m k store [] = []"
| "rl_run w m k store (t # ts) =
     (let (store', r) = rateLimiter w m None k t store in r # rl_run w m k store' ts)"

lemma rl_within_window:
  assumes "store (''rl:'' @ k) = Some \<lparr>rl_windowStart = t0, rl_count = c\<rparr>"
    and "\<forall>t\<in>set ts. t \<le> t0 + w"
  shows "length (filter (\<lambda>r. \<not> rl_blocked r) (rl_run w m k store ts)) = min (length ts) (m - c)"
  using assms
proof (induction ts arbitrary: store c)
  case Nil
  then show ?case by simp
next
  case (Cons t ts)
  let ?store = "store(''rl:'' @ k \<mapsto> \<lparr>rl_windowStart = t0, rl_count = Suc c\<rparr>)"
  have r: "rateLimiter w m None k t store = (?store, \<lparr>rl_limit = m, rl_remaining = m - Suc c,
      rl_reset = resetSeconds w t, rl_blocked = (Suc c > m)\<rparr>)"
    using Cons.prems by (simp add: rateLimiter_def inMemoryIncrement_def Let_def)
  have IH: "length (filter (\<lambda>r. \<not> rl_blocked r) (rl_run w m k ?store ts)) = min (length ts) (m - Suc c)"
    using Cons.prems(2) by (intro Cons.IH) simp_all
  show ?case
  proof (cases "Suc c \<le> m")
    case True
    then have "Suc (m - Suc c) = m - c" by simp
    with True IH show ?thesis by (simp add: r min_def)
  next
    case False
    then have "m - c = 0" "m - Suc c = 0" by auto
    with False IH show ?thesis by (simp add: r)
  qed
qed

text \<open>With the in-memory store, of the requests a client makes from the start of a window to its end
  exactly the permitted number gets through, whatever their number and spacing.\<close>

theorem rate_limit_exact:
  assumes "\<forall>t\<in>set ts. t0 \<le> t \<and> t \<le> t0 + w"
  shows "length (filter (\<lambda>r. \<not> rl_blocked r) (rl_run w m k Map.empty (t0 # ts))) = min (Suc (length ts)) m"
proof -
  let ?store = "Map.empty(''rl:'' @ k \<mapsto> \<lparr>rl_windowStart = t0, rl_count = 1\<rparr>)"
  have "length (filter (\<lambda>r. \<not> rl_blocked r) (rl_run w m k ?store ts)) = min (length ts) (m - 1)"
    using assms by (intro rl_within_window) auto
  then show ?thesis
    by (cases m) (simp_all add: rateLimiter_def inMemoryIncrement_def Let_def)
qed

theorem rate_limit_exact_witness:
  "length (filter (\<lambda>r. \<not> rl_blocked r) (rl_run 60000 2 ''ip'' Map.empty [0, 5, 59999, 60000])) = 2"
  using rate_limit_exact [of "[5, 59999, 60000]" 0 60000 2 "''ip''"] by simp

text \<open>The time a client is told to wait is between one second and the window, but with the in-memory
  store it need not be enough: its windows start at the first request and the announced one is
  aligned to the clock, so a client that waits as told can be refused again.\<close>

theorem rate_limit_reset:
  assumes "0 < w"
  shows "1 \<le> resetSeconds w now \<and> resetSeconds w now \<le> max 1 (- ((- w) div 1000))
    \<and> (let rs = rl_run 60000 1 ''ip'' Map.empty [59000, 59500, 60500]
       in rl_blocked (rs ! 1) \<and> rl_reset (rs ! 1) = 1 \<and> rl_blocked (rs ! 2))"
proof -
  have "now div w * w + w - now = w - now mod w" by (simp add: minus_div_mult_eq_mod [symmetric])
  moreover have "0 \<le> now mod w" using assms by simp
  ultimately have "- w \<le> - (now div w * w + w - now)" by linarith
  then have "(- w) div 1000 \<le> (- (now div w * w + w - now)) div 1000" by (rule zdiv_mono1) simp
  moreover have "let rs = rl_run 60000 1 ''ip'' Map.empty [59000, 59500, 60500]
       in rl_blocked (rs ! 1) \<and> rl_reset (rs ! 1) = 1 \<and> rl_blocked (rs ! 2)"
    by (simp add: rateLimiter_def inMemoryIncrement_def resetSeconds_def Let_def)
  ultimately show ?thesis by (simp add: resetSeconds_def)
qed

theorem rate_limit_reset_witness: "resetSeconds 60000 59500 \<le> 60"
  using rate_limit_reset [of 60000 59500] by simp

subsection \<open>The cache of idempotent replies\<close>

record 'b cached_reply =
  cached_response :: 'b
  cached_expiresAt :: millis

text \<open>A request with a key arrives: the cached body is replayed, or the handler runs.\<close>

definition idempotency_begin ::
  "string option \<Rightarrow> millis \<Rightarrow> (string \<rightharpoonup> 'b cached_reply) \<Rightarrow> (string \<rightharpoonup> 'b cached_reply) \<times> 'b option" where
  "idempotency_begin key now cache =
     (case key of
        None \<Rightarrow> (cache, None)
      | Some k \<Rightarrow>
          if k = [] then (cache, None)
          else case cache k of
            None \<Rightarrow> (cache, None)
          | Some c \<Rightarrow>
              if now > cached_expiresAt c then (cache(k := None), None)
              else (cache, Some (cached_response c)))"

text \<open>The handler replies through the wrapped \<^verbatim>\<open>res.json\<close>.\<close>

definition idempotency_reply ::
  "string \<Rightarrow> int \<Rightarrow> int \<Rightarrow> 'b \<Rightarrow> millis \<Rightarrow> (string \<rightharpoonup> 'b cached_reply) \<Rightarrow> (string \<rightharpoonup> 'b cached_reply)" where
  "idempotency_reply k ttl statusCode body now cache =
     (if statusCode \<ge> 200 \<and> statusCode < 300
      then cache(k \<mapsto> \<lparr>cached_response = body, cached_expiresAt = now + ttl\<rparr>)
      else cache)"

text \<open>A successful reply is replayed for its key until its time is over and not after, an unsuccessful
  one is not kept, and another key is not affected.\<close>

theorem idempotency_replay:
  assumes "k \<noteq> []"
  shows "snd (idempotency_begin (Some k) later (idempotency_reply k ttl status body now cache))
       = (if status \<ge> 200 \<and> status < 300 then (if later \<le> now + ttl then Some body else None)
          else snd (idempotency_begin (Some k) later cache))
     \<and> (k' \<noteq> k \<longrightarrow> idempotency_reply k ttl status body now cache k' = cache k')"
  using assms by (simp add: idempotency_begin_def idempotency_reply_def)

theorem idempotency_replay_witness:
  "snd (idempotency_begin (Some ''k'') 61000 (idempotency_reply ''k'' 60000 201 ''paid'' 1000 Map.empty)) = Some ''paid''"
  using idempotency_replay [of "''k''" 61000 60000 201 "''paid''" 1000 Map.empty] by simp

end
