(* ===== verification/Distributed_Lock.thy ===== *)
theory Distributed_Lock
  imports Prelude JS_String
begin

section \<open>The distributed lock\<close>

text \<open>
  \<^verbatim>\<open>backend/src/services/distributedLock.js\<close>. The lock is kept in Redis, by three scripts that Redis runs
  atomically, or in a map of the process when Redis is not configured. Redis itself is a parameter:
  a record of the commands the scripts use, with what they promise as the predicate \<open>redis_laws\<close>.
  Both ways keep the contract of the locale \<open>lock_service\<close>, from which fencing and exclusion follow
  for every sequence of operations.
\<close>

definition FENCE_PREFIX :: string where "FENCE_PREFIX = ''__fence__:''"

definition getFenceKey :: "string \<Rightarrow> string" where
  "getFenceKey key = FENCE_PREFIX @ key"

definition studentBalanceLockKey :: "string \<Rightarrow> string \<Rightarrow> string" where
  "studentBalanceLockKey schoolId studentId = ''sync:lock:'' @ schoolId @ '':student:'' @ studentId"

subsection \<open>The in-process fallback\<close>

text \<open>
  One map holds locks and fence counters alike; a counter's entry has only the field
  \<^verbatim>\<open>fencingToken\<close>.
\<close>

record lock_entry =
  le_token :: "string option"
  le_fence :: int
  le_expiresAt :: "millis option"

type_synonym local_locks = "string \<rightharpoonup> lock_entry"

definition unexpired :: "millis \<Rightarrow> lock_entry \<Rightarrow> bool" where
  "unexpired now e = (case le_expiresAt e of None \<Rightarrow> False | Some t \<Rightarrow> t > now)"

definition local_acquire :: "string \<Rightarrow> millis \<Rightarrow> string \<Rightarrow> int \<Rightarrow> local_locks \<Rightarrow> local_locks \<times> int option" where
  "local_acquire key now token ttlMs m =
     (let held = (case m key of None \<Rightarrow> False | Some existing \<Rightarrow> unexpired now existing) in
      if held then (m, None)
      else
        let fenceCounter = (case m (getFenceKey key) of None \<Rightarrow> 1 | Some f \<Rightarrow> le_fence f + 1);
            m1 = m(getFenceKey key \<mapsto> \<lparr>le_token = None, le_fence = fenceCounter, le_expiresAt = None\<rparr>);
            m2 = m1(key \<mapsto> \<lparr>le_token = Some token, le_fence = fenceCounter,
                           le_expiresAt = Some (now + ttlMs)\<rparr>)
        in (m2, Some fenceCounter))"

definition local_release :: "string \<Rightarrow> string \<Rightarrow> local_locks \<Rightarrow> local_locks \<times> bool" where
  "local_release key token m =
     (if token = [] then (m, False)
      else case m key of
        None \<Rightarrow> (m, False)
      | Some e \<Rightarrow> if le_token e = Some token then (m(key := None), True) else (m, False))"

definition local_renew :: "string \<Rightarrow> millis \<Rightarrow> string \<Rightarrow> int \<Rightarrow> local_locks \<Rightarrow> local_locks \<times> bool" where
  "local_renew key now token ttlMs m =
     (if token = [] then (m, False)
      else case m key of
        None \<Rightarrow> (m, False)
      | Some e \<Rightarrow>
          if le_token e = Some token \<and> unexpired now e
          then (m(key \<mapsto> e\<lparr>le_expiresAt := Some (now + ttlMs)\<rparr>), True)
          else (m, False))"

definition local_getCurrentFence :: "string \<Rightarrow> local_locks \<Rightarrow> int option" where
  "local_getCurrentFence key m = map_option le_fence (m key)"

subsection \<open>The scripts that run in Redis\<close>

text \<open>
  The commands the scripts call. Redis keeps its own time: \<open>r_tick n\<close> lets \<open>n\<close> milliseconds pass, so that keys
  may expire; \<open>r_pttl\<close> is the time that is left to a key, as \<^verbatim>\<open>PTTL\<close> reports it.
\<close>

record 'r redis_ops =
  r_get :: "string \<Rightarrow> 'r \<Rightarrow> string option"
  r_set_px :: "string \<Rightarrow> string \<Rightarrow> int \<Rightarrow> 'r \<Rightarrow> 'r"
  r_del :: "string \<Rightarrow> 'r \<Rightarrow> 'r \<times> int"
  r_pexpire :: "string \<Rightarrow> int \<Rightarrow> 'r \<Rightarrow> 'r \<times> int"
  r_incr :: "string \<Rightarrow> 'r \<Rightarrow> 'r \<times> int"
  r_counter :: "string \<Rightarrow> 'r \<Rightarrow> int"
  r_pttl :: "string \<Rightarrow> 'r \<Rightarrow> int"
  r_tick :: "nat \<Rightarrow> 'r \<Rightarrow> 'r"

definition ACQUIRE_WITH_FENCE_SCRIPT ::
  "'r redis_ops \<Rightarrow> string \<Rightarrow> string \<Rightarrow> string \<Rightarrow> int \<Rightarrow> 'r \<Rightarrow> 'r \<times> int option" where
  "ACQUIRE_WITH_FENCE_SCRIPT R lock_key fence_key lock_value ttl r =
     (let existing_lock = r_get R lock_key r in
      if existing_lock \<noteq> None \<and> existing_lock \<noteq> Some [] then (r, None)
      else let (r1, fence) = r_incr R fence_key r;
               r2 = r_set_px R lock_key lock_value ttl r1
           in (r2, Some fence))"

definition RELEASE_SCRIPT :: "'r redis_ops \<Rightarrow> string \<Rightarrow> string \<Rightarrow> 'r \<Rightarrow> 'r \<times> int" where
  "RELEASE_SCRIPT R key token r = (if r_get R key r = Some token then r_del R key r else (r, 0))"

definition RENEW_SCRIPT :: "'r redis_ops \<Rightarrow> string \<Rightarrow> string \<Rightarrow> int \<Rightarrow> 'r \<Rightarrow> 'r \<times> int" where
  "RENEW_SCRIPT R key token ttl r =
     (if r_get R key r = Some token then r_pexpire R key ttl r else (r, 0))"

text \<open>The Redis branches of the four functions; a call that the client refuses throws and returns nothing.\<close>

definition redis_acquire :: "'r redis_ops \<Rightarrow> string \<Rightarrow> string \<Rightarrow> int \<Rightarrow> 'r \<Rightarrow> 'r \<times> int option" where
  "redis_acquire R key token ttlMs r = ACQUIRE_WITH_FENCE_SCRIPT R key (getFenceKey key) token ttlMs r"

definition redis_release :: "'r redis_ops \<Rightarrow> string \<Rightarrow> string \<Rightarrow> 'r \<Rightarrow> 'r \<times> bool" where
  "redis_release R key token r =
     (if token = [] then (r, False)
      else let (r', res) = RELEASE_SCRIPT R key token r in (r', res = 1))"

definition redis_renew :: "'r redis_ops \<Rightarrow> string \<Rightarrow> string \<Rightarrow> int \<Rightarrow> 'r \<Rightarrow> 'r \<times> bool" where
  "redis_renew R key token ttlMs r =
     (if token = [] then (r, False)
      else let (r', res) = RENEW_SCRIPT R key token ttlMs r in (r', res = 1))"

definition redis_getCurrentFence :: "'r redis_ops \<Rightarrow> string \<Rightarrow> 'r \<Rightarrow> int option" where
  "redis_getCurrentFence R key r =
     (let n = r_counter R (getFenceKey key) r in if n = 0 then None else Some n)"

text \<open>
  What Redis documents of these commands: \<^verbatim>\<open>SET\<close> with a positive expiry is seen by \<^verbatim>\<open>GET\<close> and lasts that long, \<^verbatim>\<open>DEL\<close>
  removes, \<^verbatim>\<open>PEXPIRE\<close> with a positive time keeps the value, and for a key that exists reports one and sets the
  time left, \<^verbatim>\<open>INCR\<close> adds one and returns the sum, a command touches the key it names only, and the passage of
  time leaves a value in place while its time lasts, removes it after that, and changes no counter.
\<close>

definition redis_laws :: "'r redis_ops \<Rightarrow> bool" where
  "redis_laws R \<longleftrightarrow>
     (\<forall>k v ttl r. 0 < ttl \<longrightarrow> r_get R k (r_set_px R k v ttl r) = Some v \<and> r_pttl R k (r_set_px R k v ttl r) = ttl)
   \<and> (\<forall>k r. r_get R k (fst (r_del R k r)) = None \<and> (r_get R k r \<noteq> None \<longrightarrow> snd (r_del R k r) = 1))
   \<and> (\<forall>k ttl r. 0 < ttl \<longrightarrow> r_get R k (fst (r_pexpire R k ttl r)) = r_get R k r
        \<and> (r_get R k r \<noteq> None \<longrightarrow> snd (r_pexpire R k ttl r) = 1 \<and> r_pttl R k (fst (r_pexpire R k ttl r)) = ttl))
   \<and> (\<forall>k r. snd (r_incr R k r) = r_counter R k r + 1 \<and> r_counter R k (fst (r_incr R k r)) = r_counter R k r + 1)
   \<and> (\<forall>k k' v ttl r. k' \<noteq> k \<longrightarrow> r_counter R k' (r_set_px R k v ttl r) = r_counter R k' r)
   \<and> (\<forall>k k' r. k' \<noteq> k \<longrightarrow> r_counter R k' (fst (r_del R k r)) = r_counter R k' r)
   \<and> (\<forall>k k' ttl r. k' \<noteq> k \<longrightarrow> r_counter R k' (fst (r_pexpire R k ttl r)) = r_counter R k' r)
   \<and> (\<forall>k n r. r_counter R k (r_tick R n r) = r_counter R k r)
   \<and> (\<forall>k n r. r_get R k r \<noteq> None \<longrightarrow> int n < r_pttl R k r \<longrightarrow>
        r_get R k (r_tick R n r) = r_get R k r \<and> r_pttl R k (r_tick R n r) = r_pttl R k r - int n)
   \<and> (\<forall>k n r. 0 < r_pttl R k r \<longrightarrow> r_pttl R k r \<le> int n \<longrightarrow> r_get R k (r_tick R n r) = None)"

subsection \<open>Running a function under the lock\<close>

text \<open>
  \<^verbatim>\<open>withLock\<close>: \<open>body\<close> is the function run under the lock together with all that happens to the lock
  meanwhile, renewals by the watchdog included. Its outcome is handed on after the release.
\<close>

datatype ('e, 'a) lock_result = Contended | Ran "('e, 'a) result" int

definition withLock ::
  "('s \<Rightarrow> 's \<times> int option) \<Rightarrow> ('s \<Rightarrow> 's \<times> bool) \<Rightarrow> (int \<Rightarrow> 's \<Rightarrow> 's \<times> ('e, 'a) result) \<Rightarrow> 's
     \<Rightarrow> 's \<times> ('e, 'a) lock_result" where
  "withLock acquire release body s =
     (case acquire s of
        (s1, None) \<Rightarrow> (s1, Contended)
      | (s1, Some fencingToken) \<Rightarrow>
          let (s2, outcome) = body fencingToken s1;
              (s3, _) = release s2
          in (s3, Ran outcome fencingToken))"

text \<open>
  One firing of the watchdog's interval timer, and the time between two; \<^verbatim>\<open>intervalMs\<close> of zero counts
  as missing.
\<close>

definition watchdog_interval :: "int \<Rightarrow> int option \<Rightarrow> int" where
  "watchdog_interval ttlMs intervalMs =
     (case intervalMs of Some i \<Rightarrow> if i = 0 then ttlMs div 4 else i | None \<Rightarrow> ttlMs div 4)"

definition watchdog_fire :: "('s \<Rightarrow> 's \<times> bool) \<Rightarrow> bool \<times> 's \<Rightarrow> bool \<times> 's" where
  "watchdog_fire renew w =
     (case w of (stopped, s) \<Rightarrow>
        if stopped then (stopped, s)
        else let (s', success) = renew s in (\<not> success, s'))"

subsection \<open>The contract of a lock\<close>

text \<open>
  The operations on one key, and time. \<open>held s\<close> is the token that holds the lock, \<open>left s\<close> the time it will
  hold it without a renewal, \<open>fence s\<close> the last fencing token issued, zero before the first.
\<close>

datatype lock_event =
    Acquire string int
  | Release string
  | Renew string int
  | Tick nat

text \<open>
  What may happen while the client with token \<open>u\<close>, whose lock has \<open>l\<close> milliseconds left, keeps it: other
  clients try to acquire, release and renew with other tokens, time passes, but less than is left, and the client
  itself renews, as its watchdog does.
\<close>

fun holding :: "string \<Rightarrow> int \<Rightarrow> lock_event list \<Rightarrow> bool" where
  "holding u l [] \<longleftrightarrow> True"
| "holding u l (Acquire tok ttl # es) \<longleftrightarrow> holding u l es"
| "holding u l (Release tok # es) \<longleftrightarrow> tok \<noteq> u \<and> holding u l es"
| "holding u l (Renew tok ttl # es) \<longleftrightarrow> (if tok = u then 0 < ttl \<and> holding u ttl es else holding u l es)"
| "holding u l (Tick n # es) \<longleftrightarrow> int n < l \<and> holding u (l - int n) es"

locale lock_service =
  fixes acq :: "string \<Rightarrow> int \<Rightarrow> 's \<Rightarrow> 's \<times> int option"
    and rel :: "string \<Rightarrow> 's \<Rightarrow> 's \<times> bool"
    and ren :: "string \<Rightarrow> int \<Rightarrow> 's \<Rightarrow> 's \<times> bool"
    and tick :: "nat \<Rightarrow> 's \<Rightarrow> 's"
    and held :: "'s \<Rightarrow> string option"
    and left :: "'s \<Rightarrow> int"
    and fence :: "'s \<Rightarrow> int"
  assumes acq_contended: "held s \<noteq> None \<Longrightarrow> acq tok ttl s = (s, None)"
    and acq_free: "held s = None \<Longrightarrow>
      snd (acq tok ttl s) = Some (fence s + 1) \<and> fence (fst (acq tok ttl s)) = fence s + 1"
    and acq_holds: "held s = None \<Longrightarrow> 0 < ttl \<Longrightarrow> tok \<noteq> [] \<Longrightarrow>
      held (fst (acq tok ttl s)) = Some tok \<and> left (fst (acq tok ttl s)) = ttl"
    and rel_own: "held s = Some tok \<Longrightarrow> tok \<noteq> [] \<Longrightarrow> snd (rel tok s) \<and> held (fst (rel tok s)) = None"
    and rel_other: "held s = Some u \<Longrightarrow> u \<noteq> tok \<Longrightarrow> fst (rel tok s) = s"
    and ren_other: "held s = Some u \<Longrightarrow> u \<noteq> tok \<Longrightarrow> fst (ren tok ttl s) = s"
    and ren_own: "held s = Some tok \<Longrightarrow> tok \<noteq> [] \<Longrightarrow> 0 < ttl \<Longrightarrow>
      snd (ren tok ttl s) \<and> held (fst (ren tok ttl s)) = Some tok \<and> left (fst (ren tok ttl s)) = ttl"
    and tick_before: "held s = Some u \<Longrightarrow> int n < left s \<Longrightarrow>
      held (tick n s) = Some u \<and> left (tick n s) = left s - int n"
    and tick_after: "held s = Some u \<Longrightarrow> 0 < left s \<Longrightarrow> left s \<le> int n \<Longrightarrow> held (tick n s) = None"
    and fence_kept: "fence (fst (rel tok s)) = fence s" "fence (fst (ren tok ttl s)) = fence s"
      "fence (tick n s) = fence s"
begin

text \<open>One operation of a client, or the passage of time; the result is the fencing token it is given.\<close>

definition do_event :: "lock_event \<Rightarrow> 's \<Rightarrow> 's \<times> int option" where
  "do_event e s = (case e of
      Acquire tok ttl \<Rightarrow> acq tok ttl s
    | Release tok \<Rightarrow> (fst (rel tok s), None)
    | Renew tok ttl \<Rightarrow> (fst (ren tok ttl s), None)
    | Tick n \<Rightarrow> (tick n s, None))"

fun run :: "lock_event list \<Rightarrow> 's \<Rightarrow> 's \<times> int list" where
  "run [] s = (s, [])"
| "run (e # es) s =
     (case do_event e s of
        (s1, f) \<Rightarrow> (case run es s1 of
           (s2, fs) \<Rightarrow> (s2, (case f of None \<Rightarrow> fs | Some x \<Rightarrow> x # fs))))"

lemma do_event_fence:
  "do_event e s = (s1, f) \<Longrightarrow> (f = None \<and> fence s1 = fence s) \<or> (f = Some (fence s + 1) \<and> fence s1 = fence s + 1)"
proof (cases e)
  case (Acquire tok ttl)
  assume "do_event e s = (s1, f)"
  with Acquire have r: "acq tok ttl s = (s1, f)" by (simp add: do_event_def)
  show ?thesis
  proof (cases "held s = None")
    case True
    from acq_free [OF True, of tok ttl] show ?thesis by (simp add: r)
  next
    case False
    from acq_contended [OF False, of tok ttl] show ?thesis by (simp add: r)
  qed
qed (auto simp: do_event_def fence_kept)

lemma run_fences:
  assumes "run es s = (s', fs)"
  shows "fs = map (\<lambda>i. fence s + 1 + int i) [0..<length fs] \<and> fence s' = fence s + int (length fs)"
  using assms
proof (induction es arbitrary: s s' fs)
  case Nil
  then show ?case by simp
next
  case (Cons e es)
  obtain s1 f where e: "do_event e s = (s1, f)" by fastforce
  obtain s2 gs where es: "run es s1 = (s2, gs)" by fastforce
  from Cons.IH [OF es] have IH: "gs = map (\<lambda>i. fence s1 + 1 + int i) [0..<length gs]"
    "fence s2 = fence s1 + int (length gs)" by auto
  from Cons.prems e es have s2: "s' = s2" and fs: "fs = (case f of None \<Rightarrow> gs | Some x \<Rightarrow> x # gs)" by simp_all
  from do_event_fence [OF e] show ?case
  proof
    assume "f = None \<and> fence s1 = fence s"
    with IH s2 fs show ?thesis by simp
  next
    assume f: "f = Some (fence s + 1) \<and> fence s1 = fence s + 1"
    have "map (\<lambda>i. fence s + 1 + int i) [0..<Suc (length gs)]
        = (fence s + 1) # map (\<lambda>i. fence s1 + 1 + int i) [0..<length gs]"
      using f by (simp add: upt_conv_Cons map_Suc_upt [symmetric] del: upt_Suc)
    with IH(1) f fs have "fs = map (\<lambda>i. fence s + 1 + int i) [0..<length fs]" by simp
    with IH(2) f s2 fs show ?thesis by simp
  qed
qed

text \<open>As long as it holds the lock nobody else is given it.\<close>

lemma run_holding:
  "held s = Some u \<Longrightarrow> u \<noteq> [] \<Longrightarrow> left s = l \<Longrightarrow> holding u l es \<Longrightarrow>
   held (fst (run es s)) = Some u \<and> snd (run es s) = []"
proof (induction u l es arbitrary: s rule: holding.induct)
  case (2 u l tok ttl es)
  then show ?case by (simp add: do_event_def acq_contended split_beta)
next
  case (3 u l tok es)
  then have "fst (rel tok s) = s" by (intro rel_other [of s u]) auto
  with 3 show ?case by (simp add: do_event_def split_beta)
next
  case (4 u l tok ttl es)
  show ?case
  proof (cases "tok = u")
    case True
    then have "held (fst (ren u ttl s)) = Some u" "left (fst (ren u ttl s)) = ttl" using ren_own [of s u ttl] 4 by simp_all
    with 4 True show ?thesis by (simp add: do_event_def split_beta)
  next
    case False
    then have "fst (ren tok ttl s) = s" using 4 by (intro ren_other [of s u]) simp_all
    with 4 False show ?thesis by (simp add: do_event_def split_beta)
  qed
next
  case (5 u l n es)
  then have "held (tick n s) = Some u" "left (tick n s) = l - int n" using tick_before [of s u n] by simp_all
  with 5 show ?case by (simp add: do_event_def split_beta)
qed simp

text \<open>From an acquisition on: exclusion while it lasts, and a free lock after it.\<close>

lemma acquired:
  assumes "acq tok ttl s = (s1, Some f)" and "0 < ttl" and "tok \<noteq> []"
  shows "held s1 = Some tok \<and> left s1 = ttl \<and> fence s1 = f"
proof (cases "held s = None")
  case True
  then show ?thesis using acq_holds [OF True assms(2,3)] acq_free [OF True, of tok ttl] assms(1) by simp
qed (use acq_contended [of s tok ttl] assms(1) in simp)

lemma acquired_exclusive:
  assumes "acq tok ttl s = (s1, Some f)" and "0 < ttl" and "tok \<noteq> []" and "holding tok ttl es"
  shows "held (fst (run es s1)) = Some tok \<and> snd (run es s1) = []"
  using acquired [OF assms(1-3)] assms(3,4) run_holding by blast

lemma acquired_expires:
  assumes "acq tok ttl s = (s1, Some f)" and "0 < ttl" and "tok \<noteq> []" and "ttl \<le> int n"
  shows "snd (acq tok' ttl' (tick n s1)) = Some (f + 1)"
  using acquired [OF assms(1-3)] tick_after [of s1 tok n] assms(2,4) acq_free [of "tick n s1" tok' ttl'] fence_kept(3) by simp

end

subsection \<open>Both locks keep the contract\<close>

definition local_held :: "string \<Rightarrow> millis \<Rightarrow> local_locks \<Rightarrow> string option" where
  "local_held key t m = (case m key of
      None \<Rightarrow> None
    | Some e \<Rightarrow> if unexpired t e then Some (case le_token e of None \<Rightarrow> [] | Some u \<Rightarrow> u) else None)"

definition local_fence :: "string \<Rightarrow> local_locks \<Rightarrow> int" where
  "local_fence key m = (case m (getFenceKey key) of None \<Rightarrow> 0 | Some f \<Rightarrow> le_fence f)"

lemma fence_key_other: "getFenceKey key \<noteq> key" "key \<noteq> getFenceKey key"
proof -
  have "length (getFenceKey key) \<noteq> length key" by (simp add: getFenceKey_def FENCE_PREFIX_def)
  then show "getFenceKey key \<noteq> key" "key \<noteq> getFenceKey key" by auto
qed

text \<open>The in-process lock with the clock of the process.\<close>

definition at_clock :: "(millis \<Rightarrow> local_locks \<Rightarrow> local_locks \<times> 'a) \<Rightarrow> millis \<times> local_locks \<Rightarrow> (millis \<times> local_locks) \<times> 'a" where
  "at_clock f s = (case f (fst s) (snd s) of (m, x) \<Rightarrow> ((fst s, m), x))"

definition local_left :: "string \<Rightarrow> millis \<Rightarrow> local_locks \<Rightarrow> int" where
  "local_left key now m =
     (case m key of None \<Rightarrow> 0 | Some e \<Rightarrow> (case le_expiresAt e of None \<Rightarrow> 0 | Some t \<Rightarrow> t - now))"

lemmas local_defs = local_acquire_def local_release_def local_renew_def local_held_def local_fence_def local_left_def
  at_clock_def unexpired_def fence_key_other Let_def split_beta

interpretation local_lock: lock_service
    "\<lambda>tok ttl. at_clock (\<lambda>now. local_acquire key now tok ttl)" "\<lambda>tok. at_clock (\<lambda>now. local_release key tok)"
    "\<lambda>tok ttl. at_clock (\<lambda>now. local_renew key now tok ttl)" "\<lambda>n (now, m). (now + int n, m)"
    "\<lambda>(now, m). local_held key now m" "\<lambda>(now, m). local_left key now m" "\<lambda>(now, m). local_fence key m"
  for key
  by unfold_locales (auto simp: local_defs split: option.splits if_splits prod.splits)

text \<open>In Redis the script treats an empty value as no lock.\<close>

definition redis_held :: "'r redis_ops \<Rightarrow> string \<Rightarrow> 'r \<Rightarrow> string option" where
  "redis_held R key r = (if r_get R key r = Some [] then None else r_get R key r)"

lemmas redis_defs = redis_acquire_def redis_release_def redis_renew_def redis_held_def
  ACQUIRE_WITH_FENCE_SCRIPT_def RELEASE_SCRIPT_def RENEW_SCRIPT_def Let_def split_beta

lemma redis_lawsD:
  assumes "redis_laws R"
  shows "0 < ttl \<Longrightarrow> r_get R k (r_set_px R k v ttl r) = Some v"
    and "0 < ttl \<Longrightarrow> r_pttl R k (r_set_px R k v ttl r) = ttl"
    and "r_get R k (fst (r_del R k r)) = None"
    and "r_get R k r \<noteq> None \<Longrightarrow> snd (r_del R k r) = 1"
    and "0 < ttl \<Longrightarrow> r_get R k (fst (r_pexpire R k ttl r)) = r_get R k r"
    and "0 < ttl \<Longrightarrow> r_get R k r \<noteq> None \<Longrightarrow> snd (r_pexpire R k ttl r) = 1"
    and "0 < ttl \<Longrightarrow> r_get R k r \<noteq> None \<Longrightarrow> r_pttl R k (fst (r_pexpire R k ttl r)) = ttl"
    and "snd (r_incr R k r) = r_counter R k r + 1"
    and "r_counter R k (fst (r_incr R k r)) = r_counter R k r + 1"
    and "k' \<noteq> k \<Longrightarrow> r_counter R k' (r_set_px R k v ttl r) = r_counter R k' r"
    and "k' \<noteq> k \<Longrightarrow> r_counter R k' (fst (r_del R k r)) = r_counter R k' r"
    and "k' \<noteq> k \<Longrightarrow> r_counter R k' (fst (r_pexpire R k ttl r)) = r_counter R k' r"
    and "r_counter R k (r_tick R n r) = r_counter R k r"
    and "r_get R k r \<noteq> None \<Longrightarrow> int n < r_pttl R k r \<Longrightarrow> r_get R k (r_tick R n r) = r_get R k r"
    and "r_get R k r \<noteq> None \<Longrightarrow> int n < r_pttl R k r \<Longrightarrow> r_pttl R k (r_tick R n r) = r_pttl R k r - int n"
    and "0 < r_pttl R k r \<Longrightarrow> r_pttl R k r \<le> int n \<Longrightarrow> r_get R k (r_tick R n r) = None"
  using assms by (simp_all add: redis_laws_def)

text \<open>The operations on one key of a Redis that keeps its laws are a lock service.\<close>

lemma redis_lock_service:
  assumes R: "redis_laws R"
  shows "lock_service (redis_acquire R key) (redis_release R key) (redis_renew R key)
    (r_tick R) (redis_held R key) (r_pttl R key) (r_counter R (getFenceKey key))"
proof
  note laws = redis_lawsD [OF R] and fk = fence_key_other [of key]
  show "redis_held R key s \<noteq> None \<Longrightarrow> redis_acquire R key tok ttl s = (s, None)" for s tok ttl
    by (auto simp: redis_defs split: if_splits)
  show "redis_held R key s = None \<Longrightarrow>
      snd (redis_acquire R key tok ttl s) = Some (r_counter R (getFenceKey key) s + 1)
      \<and> r_counter R (getFenceKey key) (fst (redis_acquire R key tok ttl s)) = r_counter R (getFenceKey key) s + 1"
    for s tok ttl
    by (auto simp: redis_defs laws(8-10) fk split: if_splits)
  show "redis_held R key s = None \<Longrightarrow> 0 < ttl \<Longrightarrow> tok \<noteq> [] \<Longrightarrow>
      redis_held R key (fst (redis_acquire R key tok ttl s)) = Some tok
      \<and> r_pttl R key (fst (redis_acquire R key tok ttl s)) = ttl" for s ttl tok
    by (auto simp: redis_defs laws(1,2) split: if_splits)
  show "redis_held R key s = Some tok \<Longrightarrow> tok \<noteq> [] \<Longrightarrow>
      snd (redis_release R key tok s) \<and> redis_held R key (fst (redis_release R key tok s)) = None" for s tok
    by (auto simp: redis_defs laws(3,4) split: if_splits)
  show "redis_held R key s = Some u \<Longrightarrow> u \<noteq> tok \<Longrightarrow> fst (redis_release R key tok s) = s" for s u tok
    by (auto simp: redis_defs split: if_splits)
  show "redis_held R key s = Some u \<Longrightarrow> u \<noteq> tok \<Longrightarrow> fst (redis_renew R key tok ttl s) = s" for s u tok ttl
    by (auto simp: redis_defs split: if_splits)
  show "redis_held R key s = Some tok \<Longrightarrow> tok \<noteq> [] \<Longrightarrow> 0 < ttl \<Longrightarrow>
      snd (redis_renew R key tok ttl s) \<and> redis_held R key (fst (redis_renew R key tok ttl s)) = Some tok
      \<and> r_pttl R key (fst (redis_renew R key tok ttl s)) = ttl" for s tok ttl
    by (auto simp: redis_defs laws(5-7) split: if_splits)
  show "redis_held R key s = Some u \<Longrightarrow> int n < r_pttl R key s \<Longrightarrow>
      redis_held R key (r_tick R n s) = Some u \<and> r_pttl R key (r_tick R n s) = r_pttl R key s - int n" for s u n
    by (auto simp: redis_held_def laws(14,15) split: if_splits)
  show "redis_held R key s = Some u \<Longrightarrow> 0 < r_pttl R key s \<Longrightarrow> r_pttl R key s \<le> int n \<Longrightarrow>
      redis_held R key (r_tick R n s) = None" for s u n
    by (simp add: redis_held_def laws(16))
  show "r_counter R (getFenceKey key) (fst (redis_release R key tok s)) = r_counter R (getFenceKey key) s"
    "r_counter R (getFenceKey key) (fst (redis_renew R key tok ttl s)) = r_counter R (getFenceKey key) s"
    for tok s ttl
    by (simp_all add: redis_defs laws(11,12) fk)
  show "r_counter R (getFenceKey key) (r_tick R n s) = r_counter R (getFenceKey key) s" for n s
    by (rule laws(13))
qed

subsection \<open>Properties of the locks\<close>

lemma consecutive_increasing:
  "fs = map (\<lambda>i. a + 1 + int i) [0..<length fs] \<Longrightarrow>
   sorted_wrt (<) fs \<and> (\<forall>f\<in>set fs. a < f \<and> f \<le> a + int (length fs))"
proof -
  assume fs: "fs = map (\<lambda>i. a + 1 + int i) [0..<length fs]"
  have "sorted_wrt (<) (map (\<lambda>i. a + 1 + int i) [0..<length fs])"
    by (simp add: sorted_wrt_map)
  moreover have "\<forall>f\<in>set (map (\<lambda>i. a + 1 + int i) [0..<length fs]). a < f \<and> f \<le> a + int (length fs)"
    by auto
  ultimately show ?thesis using fs by simp
qed

text \<open>With the in-process lock, over any sequence of acquisitions, releases and renewals of a key by
  any clients at any times, the fencing tokens given out strictly increase, and the counter ends at
  the last of them: a holder whose lock has been taken over has a smaller token than the current.\<close>

theorem local_fencing_increases:
  "local_lock.run key es (now, m) = ((now', m'), fs) \<Longrightarrow>
     sorted_wrt (<) fs \<and> (\<forall>f\<in>set fs. local_fence key m < f \<and> f \<le> local_fence key m')
     \<and> local_fence key m' = local_fence key m + int (length fs)"
  using local_lock.run_fences [of key es "(now, m)" "(now', m')" fs] consecutive_increasing [of fs "local_fence key m"]
  by simp

theorem local_fencing_increases_witness:
  "\<exists>now' m'. local_lock.run ''k'' [Acquire ''a'' 10, Tick 5, Acquire ''b'' 10, Tick 5, Acquire ''b'' 10] (0, Map.empty) = ((now', m'), [1, 2])
     \<and> local_fence ''k'' m' = 2"
proof -
  let ?es = "[Acquire ''a'' 10, Tick 5, Acquire ''b'' 10, Tick 5, Acquire ''b'' 10]"
  have "snd (local_lock.run ''k'' ?es (0, Map.empty)) = [1, 2]"
    by (simp add: local_lock.do_event_def local_defs)
  then obtain now' m' where run: "local_lock.run ''k'' ?es (0, Map.empty) = ((now', m'), [1, 2])"
    by (metis prod.collapse)
  from local_fencing_increases [OF run] run show ?thesis by (auto simp: local_fence_def)
qed

text \<open>While a client holds the in-process lock, whatever other clients do to the key and however time passes before
  the lock, with its renewals, has expired, none of them is given the lock and it still holds it.\<close>

theorem local_mutual_exclusion:
  assumes "local_acquire key now tok ttl m = (m1, Some f)" and "0 < ttl" and "tok \<noteq> []" and "holding tok ttl es"
  shows "snd (local_lock.run key es (now, m1)) = []"
  using local_lock.acquired_exclusive [of key tok ttl "(now, m)" "(now, m1)" f es] assms by (simp add: at_clock_def)

theorem local_mutual_exclusion_witness:
  "snd (local_lock.run ''k'' [Tick 5, Acquire ''b'' 10, Release ''b'', Tick 4, Acquire ''c'' 1]
     (0, fst (local_acquire ''k'' 0 ''a'' 10 Map.empty))) = []"
proof -
  have "local_acquire ''k'' 0 ''a'' 10 Map.empty = (fst (local_acquire ''k'' 0 ''a'' 10 Map.empty), Some 1)"
    by (simp add: local_defs)
  from local_mutual_exclusion [OF this, of "[Tick 5, Acquire ''b'' 10, Release ''b'', Tick 4, Acquire ''c'' 1]"]
  show ?thesis by simp
qed

abbreviation redis_run ::
  "'r redis_ops \<Rightarrow> string \<Rightarrow> lock_event list \<Rightarrow> 'r \<Rightarrow> 'r \<times> int list" where
  "redis_run R key \<equiv> lock_service.run (redis_acquire R key) (redis_release R key) (redis_renew R key) (r_tick R)"

text \<open>C33: With Redis, provided its commands do what they document, the fencing tokens of a key strictly
  increase over any sequence of operations of any clients and any expiries in between. A client that acquired the lock, for
  a positive time, holds it, and no acquisition of the key succeeds, whatever other clients attempt, until it
  releases it or the time since its acquisition or last renewal reaches the time it asked for. And a holder that
  vanishes blocks nobody for longer: after that time the next acquisition succeeds, with a greater fencing token.\<close>

theorem redis_lock_safe:
  assumes "redis_laws R"
  shows "(redis_run R key es r = (r', fs) \<longrightarrow>
            sorted_wrt (<) fs \<and> r_counter R (getFenceKey key) r' = r_counter R (getFenceKey key) r + int (length fs))
       \<and> (redis_acquire R key tok ttl r = (r1, Some f) \<and> 0 < ttl \<and> tok \<noteq> [] \<longrightarrow>
            (holding tok ttl es \<longrightarrow> redis_held R key (fst (redis_run R key es r1)) = Some tok \<and> snd (redis_run R key es r1) = [])
          \<and> (ttl \<le> int n \<longrightarrow> snd (redis_acquire R key tok' ttl' (r_tick R n r1)) = Some (f + 1)))"
  using lock_service.run_fences [OF redis_lock_service [OF assms], of key es r r' fs]
    consecutive_increasing [of fs "r_counter R (getFenceKey key) r"]
    lock_service.acquired_exclusive [OF redis_lock_service [OF assms], of key tok ttl r r1 f es]
    lock_service.acquired_expires [OF redis_lock_service [OF assms], of key tok ttl r r1 f n tok' ttl']
  by simp

text \<open>A Redis: values with the time they expire at, counters, and the time.\<close>

definition sample_redis ::
  "((string \<Rightarrow> (string \<times> millis) option) \<times> (string \<Rightarrow> int) \<times> millis) redis_ops" where
  "sample_redis =
     \<lparr>r_get = (\<lambda>k (kv, c, now). case kv k of Some (v, t) \<Rightarrow> if now < t then Some v else None | None \<Rightarrow> None),
      r_set_px = (\<lambda>k v ttl (kv, c, now). (kv(k \<mapsto> (v, now + ttl)), c, now)),
      r_del = (\<lambda>k (kv, c, now). ((kv(k := None), c, now),
         case kv k of Some (v, t) \<Rightarrow> if now < t then 1 else 0 | None \<Rightarrow> 0)),
      r_pexpire = (\<lambda>k ttl (kv, c, now). case kv k of
           Some (v, t) \<Rightarrow> if now < t then ((kv(k \<mapsto> (v, now + ttl)), c, now), 1) else ((kv, c, now), 0)
         | None \<Rightarrow> ((kv, c, now), 0)),
      r_incr = (\<lambda>k (kv, c, now). ((kv, c(k := c k + 1), now), c k + 1)),
      r_counter = (\<lambda>k (kv, c, now). c k),
      r_pttl = (\<lambda>k (kv, c, now). case kv k of Some (v, t) \<Rightarrow> t - now | None \<Rightarrow> 0),
      r_tick = (\<lambda>n (kv, c, now). (kv, c, now + int n))\<rparr>"

lemma sample_redis_laws: "redis_laws sample_redis"
  unfolding redis_laws_def sample_redis_def by (auto split: option.splits if_splits)

theorem redis_lock_safe_witness:
  "let r = fst (redis_acquire sample_redis ''k'' ''a'' 10 (Map.empty, (\<lambda>_. 0), 0))
   in snd (redis_run sample_redis ''k'' [Tick 5, Acquire ''b'' 10, Release ''b'', Renew ''a'' 10, Tick 9, Acquire ''c'' 1] r) = []
    \<and> snd (redis_acquire sample_redis ''k'' ''b'' 10 (r_tick sample_redis 10 r)) = Some 2"
proof -
  let ?r = "fst (redis_acquire sample_redis ''k'' ''a'' 10 (Map.empty, (\<lambda>_. 0), 0))"
  have "redis_acquire sample_redis ''k'' ''a'' 10 (Map.empty, (\<lambda>_. 0), 0) = (?r, Some 1)"
    by (simp add: redis_defs sample_redis_def)
  with redis_lock_safe [OF sample_redis_laws, of "''k''" "[Tick 5, Acquire ''b'' 10, Release ''b'', Renew ''a'' 10, Tick 9, Acquire ''c'' 1]"
      "(Map.empty, (\<lambda>_. 0), 0)" _ _ "''a''" 10 ?r 1 10 "''b''" 10]
  show ?thesis by simp
qed

text \<open>The documented contract of \<^verbatim>\<open>getCurrentFence\<close>, a token only while the lock is held, is not kept:
  the in-process lock reports the token of a lock that has expired, and Redis reports the counter
  of a lock that was released.\<close>

theorem getCurrentFence_not_held:
  "(let m = fst (local_acquire ''k'' 0 ''a'' 10 Map.empty)
    in local_held ''k'' 10 m = None \<and> local_getCurrentFence ''k'' m = Some 1)
   \<and> (let r = fst (redis_release sample_redis ''k'' ''a''
               (fst (redis_acquire sample_redis ''k'' ''a'' 10 (Map.empty, (\<lambda>_. 0), 0))))
      in redis_held sample_redis ''k'' r = None \<and> redis_getCurrentFence sample_redis ''k'' r = Some 1)"
  by (simp add: local_defs local_getCurrentFence_def redis_defs sample_redis_def redis_getCurrentFence_def)

text \<open>Two balance locks are the same only for the same student of the same school, and none is the sync
  lock of a school, as long as the identifiers of schools have no colon.\<close>

theorem studentBalanceLockKey_inj:
  assumes "CHR '':'' \<notin> set school" and "CHR '':'' \<notin> set school'"
  shows "(studentBalanceLockKey school student = studentBalanceLockKey school' student'
            \<longleftrightarrow> school = school' \<and> student = student')
       \<and> studentBalanceLockKey school student \<noteq> ''sync:lock:'' @ school'"
proof -
  have key: "takeWhile (\<lambda>c. c \<noteq> CHR '':'') (s @ '':student:'' @ t) = s" if "CHR '':'' \<notin> set s" for s t
    using that by (subst takeWhile_append2) auto
  have "school @ '':student:'' @ student = school' @ '':student:'' @ student' \<Longrightarrow> school = school'"
    using key [OF assms(1), of student] key [OF assms(2), of student'] by metis
  moreover have "CHR '':'' \<in> set (school @ '':student:'' @ student)" by simp
  then have "school @ '':student:'' @ student \<noteq> school'" using assms(2) by metis
  ultimately show ?thesis by (auto simp: studentBalanceLockKey_def)
qed

theorem studentBalanceLockKey_inj_witness:
  "studentBalanceLockKey ''SCH1'' ''STU1'' \<noteq> studentBalanceLockKey ''SCH1'' ''STU2''"
  using studentBalanceLockKey_inj [of "''SCH1''" "''SCH1''" "''STU1''" "''STU2''"] by simp

end
