(* ===== verification/Refund.thy ===== *)
theory Refund
  imports Payment_Status JS_String Distributed_Lock
begin

section \<open>Refunds\<close>

text \<open>
  \<^verbatim>\<open>backend/src/services/refundService.js\<close> with the fields of \<^verbatim>\<open>backend/src/models/refundModel.js\<close>.
  The collections are explicit: the payments, by document identity, with the list of the documents
  of a transaction in the order \<^verbatim>\<open>findOne\<close> looks at them; the refunds, by position; the outbox and
  the events emitted in the process. A MongoDB transaction is one update of this state. Whether the
  lock of the payment could be taken is an argument of each operation. A write that the database
  refuses is not modelled, and neither is the recalculation of the student's balance that
  \<^verbatim>\<open>completeRefund\<close> starts after it has committed and whose failure it ignores.
\<close>

datatype refund_status = Approval_pending | RPending | Submitted | RConfirmed | RRejected | RFailed

fun refund_status_name :: "refund_status \<Rightarrow> string" where
  "refund_status_name Approval_pending = ''approval_pending''"
| "refund_status_name RPending = ''pending''"
| "refund_status_name Submitted = ''submitted''"
| "refund_status_name RConfirmed = ''confirmed''"
| "refund_status_name RRejected = ''rejected''"
| "refund_status_name RFailed = ''failed''"

definition ACTIVE_REFUND_STATUSES :: "refund_status list" where
  "ACTIVE_REFUND_STATUSES = [Approval_pending, RPending, Submitted, RConfirmed]"

fun REFUND_STATUS_TRANSITIONS :: "refund_status \<Rightarrow> refund_status list" where
  "REFUND_STATUS_TRANSITIONS Approval_pending = [RPending, RRejected, RFailed]"
| "REFUND_STATUS_TRANSITIONS RPending = [Submitted, RFailed]"
| "REFUND_STATUS_TRANSITIONS Submitted = [RConfirmed, RFailed]"
| "REFUND_STATUS_TRANSITIONS RConfirmed = []"
| "REFUND_STATUS_TRANSITIONS RRejected = []"
| "REFUND_STATUS_TRANSITIONS RFailed = []"

definition VALID_REFUND_STATUSES :: "refund_status list" where
  "VALID_REFUND_STATUSES = [Approval_pending, RPending, Submitted, RConfirmed, RRejected, RFailed]"

definition refundLockKey :: "string \<Rightarrow> string \<Rightarrow> string" where
  "refundLockKey schoolId originalTxHash = ''refund:lock:'' @ schoolId @ '':'' @ originalTxHash"

subsection \<open>Principals\<close>

record principal =
  userId :: string
  displayName :: string

text \<open>The fields of the decoded token and of the audit context that are looked at, in their order.\<close>

record admin_token =
  adm_id :: "string option"
  adm_objectId :: "string option"
  adm_userId :: "string option"
  adm_email :: "string option"
  adm_username :: "string option"
  adm_name :: "string option"

datatype refund_error = UNKNOWN_PRINCIPAL | REFUND_LOCK_CONTENDED | PAYMENT_NOT_FOUND | INVALID_AMOUNT
  | AMOUNT_EXCEEDS_REFUNDABLE | REFUND_ALREADY_EXISTS | REFUND_NOT_FOUND | INVALID_STATE
  | SELF_APPROVAL_NOT_ALLOWED | REFUND_VALIDATION_ERROR | INVALID_STATUS | INVALID_STATUS_TRANSITION

text \<open>The first of the values that is neither missing nor empty.\<close>

definition first_text :: "string option list \<Rightarrow> string option" where
  "first_text xs = (case find (\<lambda>x. x \<noteq> None \<and> x \<noteq> Some []) xs of None \<Rightarrow> None | Some x \<Rightarrow> x)"

definition buildPrincipal ::
  "string option \<Rightarrow> admin_token option \<Rightarrow> (refund_error, principal) result" where
  "buildPrincipal performedBy admin =
     (let fld = (\<lambda>f. case admin of None \<Rightarrow> None | Some a \<Rightarrow> f a);
          uid = first_text [fld adm_id, fld adm_objectId, fld adm_userId, performedBy]
      in case uid of
           None \<Rightarrow> Inl UNKNOWN_PRINCIPAL
         | Some u \<Rightarrow>
             if u = ''unknown'' then Inl UNKNOWN_PRINCIPAL
             else Inr \<lparr>userId = u,
                       displayName = the (first_text [fld adm_email, fld adm_username, fld adm_name,
                                                      performedBy, Some u])\<rparr>)"

definition bad_principal :: "principal option \<Rightarrow> bool" where
  "bad_principal p = (case p of None \<Rightarrow> True | Some q \<Rightarrow> userId q = [] \<or> userId q = ''unknown'')"

subsection \<open>State\<close>

record refund =
  rf_schoolId :: string
  rf_originalTxHash :: string
  rf_studentId :: string
  rf_amount :: jsnum
  rf_status :: refund_status
  rf_reason :: string
  rf_initiatedBy :: principal
  rf_approvedBy :: "principal option"
  rf_approvedAt :: "millis option"
  rf_rejectedBy :: "principal option"
  rf_rejectedAt :: "millis option"
  rf_rejectionReason :: "string option"
  rf_refundTxHash :: "string option"
  rf_confirmedAt :: "millis option"
  rf_failureReason :: "string option"
  rf_failedAt :: "millis option"

record outbox_event =
  ob_eventType :: string
  ob_aggregateId :: string
  ob_refund :: nat

record 'id refund_state =
  docs :: "string \<Rightarrow> string \<Rightarrow> 'id list"
  pay :: "'id \<Rightarrow> payment"
  pay_amount :: "'id \<Rightarrow> jsnum"
  refunds :: "refund list"
  outbox :: "outbox_event list"
  emitted :: "(refund_status \<times> refund_status) list"

text \<open>\<^verbatim>\<open>payment.status = s; payment.save()\<close>, with the hook of the payment model.\<close>

definition set_payment_status :: "'id \<Rightarrow> payment_status \<Rightarrow> millis \<Rightarrow> 'id refund_state \<Rightarrow> 'id refund_state" where
  "set_payment_status i s now st =
     st\<lparr>pay := (pay st)(i := syncDerivedLifecycleFields (status (pay st i) \<noteq> s) now (pay st i\<lparr>status := s\<rparr>))\<rparr>"

definition add_outbox :: "string \<Rightarrow> string \<Rightarrow> nat \<Rightarrow> 'id refund_state \<Rightarrow> 'id refund_state" where
  "add_outbox ty agg r st =
     st\<lparr>outbox := outbox st @ [\<lparr>ob_eventType = ty, ob_aggregateId = agg, ob_refund = r\<rparr>]\<rparr>"

text \<open>\<^verbatim>\<open>Refund.findOne({ _id, schoolId })\<close>.\<close>

definition find_refund :: "nat \<Rightarrow> string \<Rightarrow> 'id refund_state \<Rightarrow> refund option" where
  "find_refund refundId schoolId st =
     (if refundId < length (refunds st) \<and> rf_schoolId (refunds st ! refundId) = schoolId
      then Some (refunds st ! refundId) else None)"

subsection \<open>initiateRefund\<close>

text \<open>
  The aggregation sums with MongoDB's \<^verbatim>\<open>$sum\<close>, which is the parameter \<open>mongo_sum\<close>; with no document the
  code takes zero.
\<close>

definition alreadyRefunded ::
  "(jsnum list \<Rightarrow> jsnum) \<Rightarrow> string \<Rightarrow> string \<Rightarrow> 'id refund_state \<Rightarrow> jsnum" where
  "alreadyRefunded mongo_sum schoolId originalTxHash st =
     (let cs = filter (\<lambda>r. rf_schoolId r = schoolId \<and> rf_originalTxHash r = originalTxHash
                         \<and> rf_status r = RConfirmed) (refunds st)
      in if cs = [] then Fin 0 else mongo_sum (map rf_amount cs))"

text \<open>
  \<^verbatim>\<open>parseFloat((payment.amount - alreadyRefunded).toFixed(7))\<close>; from \<open>10^21\<close> on \<^verbatim>\<open>toFixed\<close> gives the number
  itself in exponent form, which \<^verbatim>\<open>parseFloat\<close> reads back.
\<close>

definition refundable :: "jsnum \<Rightarrow> jsnum \<Rightarrow> jsnum" where
  "refundable amount already =
     (case toFixed 7 (jsub amount already) of
        None \<Rightarrow> jsub amount already
      | Some s \<Rightarrow> parseFloat s)"

definition initiateRefund ::
  "(jsnum list \<Rightarrow> jsnum) \<Rightarrow> bool \<Rightarrow> millis \<Rightarrow> string \<Rightarrow> string \<Rightarrow> string \<Rightarrow> jsnum \<Rightarrow> string
     \<Rightarrow> principal option \<Rightarrow> 'id refund_state \<Rightarrow> 'id refund_state \<times> (refund_error, nat) result" where
  "initiateRefund mongo_sum acquired now schoolId originalTxHash studentId amount reason who st =
     (if bad_principal who then (st, Inl UNKNOWN_PRINCIPAL)
      else if \<not> acquired then (st, Inl REFUND_LOCK_CONTENDED)
      else case find (\<lambda>i. status (pay st i) = SUCCESS) (docs st schoolId originalTxHash) of
        None \<Rightarrow> (st, Inl PAYMENT_NOT_FOUND)
      | Some i \<Rightarrow>
          if \<not> truthy_num amount \<or> jleq amount (Fin 0) then (st, Inl INVALID_AMOUNT)
          else if jless (refundable (pay_amount st i) (alreadyRefunded mongo_sum schoolId originalTxHash st)) amount
          then (st, Inl AMOUNT_EXCEEDS_REFUNDABLE)
          else if list_ex (\<lambda>r. rf_schoolId r = schoolId \<and> rf_originalTxHash r = originalTxHash
                            \<and> rf_status r \<in> set ACTIVE_REFUND_STATUSES) (refunds st)
          then (st, Inl REFUND_ALREADY_EXISTS)
          else
            let rid = length (refunds st);
                r = \<lparr>rf_schoolId = schoolId, rf_originalTxHash = originalTxHash, rf_studentId = studentId,
                     rf_amount = amount, rf_status = Approval_pending, rf_reason = reason,
                     rf_initiatedBy = the who, rf_approvedBy = None, rf_approvedAt = None,
                     rf_rejectedBy = None, rf_rejectedAt = None, rf_rejectionReason = None,
                     rf_refundTxHash = None, rf_confirmedAt = None, rf_failureReason = None,
                     rf_failedAt = None\<rparr>;
                st1 = st\<lparr>refunds := refunds st @ [r]\<rparr>;
                st2 = set_payment_status i REFUND_PENDING now st1;
                st3 = add_outbox ''refund.initiated'' originalTxHash rid st2
            in (st3, Inr rid))"

subsection \<open>approveRefund\<close>

text \<open>
  The operation reads the refund and checks it, and writes later; the two halves are separate so
  that two operations can be interleaved. The write stores the fields it has set on the document
  it read.
\<close>

definition approve_check ::
  "nat \<Rightarrow> principal option \<Rightarrow> string \<Rightarrow> 'id refund_state \<Rightarrow> (refund_error, refund) result" where
  "approve_check refundId who schoolId st =
     (if bad_principal who then Inl UNKNOWN_PRINCIPAL
      else case find_refund refundId schoolId st of
        None \<Rightarrow> Inl REFUND_NOT_FOUND
      | Some r \<Rightarrow>
          if rf_status r \<noteq> Approval_pending then Inl INVALID_STATE
          else if userId (rf_initiatedBy r) = userId (the who) then Inl SELF_APPROVAL_NOT_ALLOWED
          else Inr r)"

definition update_refund :: "nat \<Rightarrow> (refund \<Rightarrow> refund) \<Rightarrow> 'id refund_state \<Rightarrow> 'id refund_state" where
  "update_refund refundId f st = st\<lparr>refunds := (refunds st)[refundId := f (refunds st ! refundId)]\<rparr>"

definition approve_write ::
  "nat \<Rightarrow> principal \<Rightarrow> millis \<Rightarrow> refund \<Rightarrow> 'id refund_state \<Rightarrow> 'id refund_state" where
  "approve_write refundId who now r st =
     add_outbox ''refund.approved'' (rf_originalTxHash r) refundId
       (update_refund refundId
          (\<lambda>d. d\<lparr>rf_status := RPending, rf_approvedBy := Some who, rf_approvedAt := Some now\<rparr>) st)"

definition approveRefund ::
  "millis \<Rightarrow> nat \<Rightarrow> principal option \<Rightarrow> string \<Rightarrow> 'id refund_state
     \<Rightarrow> 'id refund_state \<times> (refund_error, unit) result" where
  "approveRefund now refundId who schoolId st =
     (case approve_check refundId who schoolId st of
        Inl e \<Rightarrow> (st, Inl e)
      | Inr r \<Rightarrow> (approve_write refundId (the who) now r st, Inr ()))"

subsection \<open>rejectRefund\<close>

definition blank :: "string option \<Rightarrow> bool" where
  "blank s = (case s of None \<Rightarrow> True | Some t \<Rightarrow> trim t = [])"

definition reject_check ::
  "nat \<Rightarrow> principal option \<Rightarrow> string option \<Rightarrow> string \<Rightarrow> 'id refund_state \<Rightarrow> (refund_error, refund) result" where
  "reject_check refundId who rejectReason schoolId st =
     (if bad_principal who then Inl UNKNOWN_PRINCIPAL
      else if blank rejectReason then Inl REFUND_VALIDATION_ERROR
      else case find_refund refundId schoolId st of
        None \<Rightarrow> Inl REFUND_NOT_FOUND
      | Some r \<Rightarrow>
          if rf_status r \<noteq> Approval_pending then Inl INVALID_STATE
          else if userId (rf_initiatedBy r) = userId (the who) then Inl SELF_APPROVAL_NOT_ALLOWED
          else Inr r)"

definition reject_write ::
  "bool \<Rightarrow> nat \<Rightarrow> principal \<Rightarrow> string \<Rightarrow> millis \<Rightarrow> refund \<Rightarrow> 'id refund_state
     \<Rightarrow> 'id refund_state \<times> (refund_error, unit) result" where
  "reject_write acquired refundId who rejectReason now r st =
     (if \<not> acquired then (st, Inl REFUND_LOCK_CONTENDED)
      else case docs st (rf_schoolId r) (rf_originalTxHash r) of
        [] \<Rightarrow> (st, Inl PAYMENT_NOT_FOUND)
      | i # _ \<Rightarrow>
          let st1 = update_refund refundId
                (\<lambda>d. d\<lparr>rf_status := RRejected, rf_rejectedBy := Some who, rf_rejectedAt := Some now,
                       rf_rejectionReason := Some rejectReason\<rparr>) st;
              st2 = set_payment_status i SUCCESS now st1;
              st3 = add_outbox ''refund.rejected'' (rf_originalTxHash r) refundId st2
          in (st3\<lparr>emitted := emitted st3 @ [(Approval_pending, RRejected)]\<rparr>, Inr ()))"

definition rejectRefund ::
  "bool \<Rightarrow> millis \<Rightarrow> nat \<Rightarrow> principal option \<Rightarrow> string option \<Rightarrow> string \<Rightarrow> 'id refund_state
     \<Rightarrow> 'id refund_state \<times> (refund_error, unit) result" where
  "rejectRefund acquired now refundId who rejectReason schoolId st =
     (case reject_check refundId who rejectReason schoolId st of
        Inl e \<Rightarrow> (st, Inl e)
      | Inr r \<Rightarrow> reject_write acquired refundId (the who) (the rejectReason) now r st)"

subsection \<open>completeRefund\<close>

definition completeRefund ::
  "bool \<Rightarrow> millis \<Rightarrow> nat \<Rightarrow> string option \<Rightarrow> principal option \<Rightarrow> string \<Rightarrow> 'id refund_state
     \<Rightarrow> 'id refund_state \<times> (refund_error, unit) result" where
  "completeRefund acquired now refundId refundTxHash who schoolId st =
     (if bad_principal who then (st, Inl UNKNOWN_PRINCIPAL)
      else if blank refundTxHash then (st, Inl REFUND_VALIDATION_ERROR)
      else case find_refund refundId schoolId st of
        None \<Rightarrow> (st, Inl REFUND_NOT_FOUND)
      | Some r \<Rightarrow>
          if rf_status r \<noteq> RPending then (st, Inl INVALID_STATE)
          else if \<not> acquired then (st, Inl REFUND_LOCK_CONTENDED)
          else case docs st (rf_schoolId r) (rf_originalTxHash r) of
            [] \<Rightarrow> (st, Inl PAYMENT_NOT_FOUND)
          | i # _ \<Rightarrow>
              let st1 = update_refund refundId
                    (\<lambda>d. d\<lparr>rf_status := RConfirmed, rf_refundTxHash := refundTxHash,
                           rf_confirmedAt := Some now\<rparr>) st;
                  st2 = set_payment_status i REFUNDED now st1;
                  st3 = add_outbox ''refund.status_changed'' (rf_originalTxHash r) refundId st2
              in (st3\<lparr>emitted := emitted st3 @ [(RPending, RConfirmed)]\<rparr>, Inr ()))"

subsection \<open>updateRefundStatus\<close>

definition truthy_opt :: "string option \<Rightarrow> bool" where
  "truthy_opt s \<longleftrightarrow> s \<noteq> None \<and> s \<noteq> Some []"

text \<open>Without a school the lookup spans all of them.\<close>

definition lookup_refund :: "nat \<Rightarrow> string option \<Rightarrow> 'id refund_state \<Rightarrow> refund option" where
  "lookup_refund refundId schoolId st =
     (case schoolId of
        Some s \<Rightarrow> if s = [] then (if refundId < length (refunds st) then Some (refunds st ! refundId) else None)
                 else find_refund refundId s st
      | None \<Rightarrow> if refundId < length (refunds st) then Some (refunds st ! refundId) else None)"

definition updateRefundStatus ::
  "bool \<Rightarrow> millis \<Rightarrow> nat \<Rightarrow> string \<Rightarrow> string option \<Rightarrow> string option \<Rightarrow> string option \<Rightarrow> 'id refund_state
     \<Rightarrow> 'id refund_state \<times> (refund_error, unit) result" where
  "updateRefundStatus acquired now refundId newStatus txHash failureReason schoolId st =
     (case find (\<lambda>s. refund_status_name s = newStatus) VALID_REFUND_STATUSES of
        None \<Rightarrow> (st, Inl INVALID_STATUS)
      | Some new \<Rightarrow>
          (case lookup_refund refundId schoolId st of
             None \<Rightarrow> (st, Inl REFUND_NOT_FOUND)
           | Some r \<Rightarrow>
               if \<not> acquired then (st, Inl REFUND_LOCK_CONTENDED)
               else let previousStatus = rf_status r in
                 if new \<notin> set (REFUND_STATUS_TRANSITIONS previousStatus)
                 then (st, Inl INVALID_STATUS_TRANSITION)
                 else
                   let st1 = update_refund refundId (\<lambda>d.
                           let d1 = d\<lparr>rf_status := new\<rparr> in
                           if new = RConfirmed \<and> truthy_opt txHash
                           then d1\<lparr>rf_refundTxHash := txHash, rf_confirmedAt := Some now\<rparr>
                           else if new = RFailed \<and> truthy_opt failureReason
                           then d1\<lparr>rf_failureReason := failureReason, rf_failedAt := Some now\<rparr>
                           else d1) st;
                       st2 = add_outbox ''refund.status_changed'' (rf_originalTxHash r) refundId st1
                   in (st2\<lparr>emitted := emitted st2 @ [(previousStatus, new)]\<rparr>, Inr ())))"

subsection \<open>The invariant of the four operations\<close>

interpretation refund_lifecycle: ranked_table REFUND_STATUS_TRANSITIONS
  "\<lambda>s. case s of Approval_pending \<Rightarrow> 0 | RPending \<Rightarrow> 1 | Submitted \<Rightarrow> 2 | _ \<Rightarrow> 3" 3
proof
  show "t \<in> set (REFUND_STATUS_TRANSITIONS s) \<Longrightarrow>
      (case s of Approval_pending \<Rightarrow> 0 | RPending \<Rightarrow> 1 | Submitted \<Rightarrow> 2 | _ \<Rightarrow> 3)
      < (case t of Approval_pending \<Rightarrow> 0 | RPending \<Rightarrow> 1 | Submitted \<Rightarrow> 2 | _ \<Rightarrow> (3 :: nat))" for s t
    by (cases s) auto
  show "(case s of Approval_pending \<Rightarrow> 0 | RPending \<Rightarrow> 1 | Submitted \<Rightarrow> 2 | _ \<Rightarrow> (3 :: nat)) \<le> 3" for s
    by (cases s) auto
qed

definition active :: "refund \<Rightarrow> bool" where
  "active r \<longleftrightarrow> rf_status r \<in> set ACTIVE_REFUND_STATUSES"

definition rkey :: "refund \<Rightarrow> string \<times> string" where
  "rkey r = (rf_schoolId r, rf_originalTxHash r)"

definition known :: "principal \<Rightarrow> bool" where
  "known p \<longleftrightarrow> userId p \<noteq> [] \<and> userId p \<noteq> ''unknown''"

text \<open>The payment status that goes with an active refund.\<close>

definition expected_status :: "refund_status \<Rightarrow> payment_status" where
  "expected_status s = (if s = RConfirmed then REFUNDED else REFUND_PENDING)"

definition approved_by_other :: "refund \<Rightarrow> bool" where
  "approved_by_other r \<longleftrightarrow> (\<exists>p. rf_approvedBy r = Some p \<and> known p \<and> userId p \<noteq> userId (rf_initiatedBy r))"

definition within_payment :: "'id refund_state \<Rightarrow> 'id \<Rightarrow> refund \<Rightarrow> bool" where
  "within_payment st i r \<longleftrightarrow> jless (Fin 0) (rf_amount r)
     \<and> \<not> jless (refundable (pay_amount st i) (Fin 0)) (rf_amount r)"

definition refund_ok :: "'id refund_state \<Rightarrow> refund \<Rightarrow> bool" where
  "refund_ok st r \<longleftrightarrow> known (rf_initiatedBy r)
     \<and> (rf_status r \<in> {RPending, Submitted, RConfirmed} \<longrightarrow> approved_by_other r)
     \<and> (\<exists>i. docs st (rf_schoolId r) (rf_originalTxHash r) = [i] \<and> within_payment st i r
          \<and> (active r \<longrightarrow> status (pay st i) = expected_status (rf_status r)))"

text \<open>Every transaction has one payment document, and a document belongs to one transaction.\<close>

definition single_docs :: "'id refund_state \<Rightarrow> bool" where
  "single_docs st \<longleftrightarrow> (\<forall>s h. length (docs st s h) \<le> 1)
     \<and> (\<forall>s h s' h' i. i \<in> set (docs st s h) \<longrightarrow> i \<in> set (docs st s' h') \<longrightarrow> s = s' \<and> h = h')"

definition unique_active :: "refund list \<Rightarrow> bool" where
  "unique_active rs \<longleftrightarrow> (\<forall>a < length rs. \<forall>b < length rs.
     active (rs ! a) \<longrightarrow> active (rs ! b) \<longrightarrow> rkey (rs ! a) = rkey (rs ! b) \<longrightarrow> a = b)"

definition refund_inv :: "'id refund_state \<Rightarrow> bool" where
  "refund_inv st \<longleftrightarrow> single_docs st \<and> (\<forall>r\<in>set (refunds st). refund_ok st r) \<and> unique_active (refunds st)"

lemma set_payment_status_simps [simp]:
  "docs (set_payment_status i s now st) = docs st"
  "refunds (set_payment_status i s now st) = refunds st"
  "pay_amount (set_payment_status i s now st) = pay_amount st"
  "status (pay (set_payment_status i s now st) j) = (if j = i then s else status (pay st j))"
  by (simp_all add: set_payment_status_def syncDerivedLifecycleFields_def Let_def)

lemma add_outbox_simps [simp]:
  "docs (add_outbox t a r st) = docs st" "refunds (add_outbox t a r st) = refunds st"
  "pay_amount (add_outbox t a r st) = pay_amount st" "pay (add_outbox t a r st) = pay st"
  by (simp_all add: add_outbox_def)

lemma update_refund_simps [simp]:
  "docs (update_refund n f st) = docs st" "pay_amount (update_refund n f st) = pay_amount st"
  "pay (update_refund n f st) = pay st"
  "refunds (update_refund n f st) = (refunds st)[n := f (refunds st ! n)]"
  by (simp_all add: update_refund_def)

text \<open>
  A refund keeps its standing when the payment of its own transaction keeps its status, or when it
  is not active.
\<close>

lemma refund_ok_transfer:
  assumes "refund_ok st r" and "docs st' = docs st" and "pay_amount st' = pay_amount st"
    and "\<And>i. active r \<Longrightarrow> docs st (rf_schoolId r) (rf_originalTxHash r) = [i] \<Longrightarrow>
      status (pay st' i) = status (pay st i)"
  shows "refund_ok st' r"
  using assms by (auto simp: refund_ok_def within_payment_def)

lemma single_docs_transfer: "single_docs st \<Longrightarrow> docs st' = docs st \<Longrightarrow> single_docs st'"
  by (simp add: single_docs_def)

text \<open>
  The shape of approval, rejection and completion: an active refund is replaced by one for the same
  payment, and of the payments only its own changes status.
\<close>

lemma replace_active_inv:
  assumes inv: "refund_inv st" and n: "n < length (refunds st)" and act: "active (refunds st ! n)"
    and st': "docs st' = docs st" "pay_amount st' = pay_amount st" "refunds st' = (refunds st)[n := r']"
    and key: "rkey r' = rkey (refunds st ! n)"
    and docs: "docs st (rf_schoolId r') (rf_originalTxHash r') = [i]"
    and frame: "\<And>j. j \<noteq> i \<Longrightarrow> status (pay st' j) = status (pay st j)"
    and ok: "refund_ok st' r'"
  shows "refund_inv st'"
proof -
  from inv have docs_ok: "single_docs st" and all: "\<And>r. r \<in> set (refunds st) \<Longrightarrow> refund_ok st r"
    and uniq: "unique_active (refunds st)" by (auto simp: refund_inv_def)
  have other: "rkey (refunds st ! k) \<noteq> rkey r'" if "k < length (refunds st)" "k \<noteq> n" "active (refunds st ! k)" for k
    using uniq that n act key unfolding unique_active_def by metis
  have "refund_ok st' (refunds st ! k)" if k: "k < length (refunds st)" "k \<noteq> n" for k
  proof (rule refund_ok_transfer [OF all [OF nth_mem [OF k(1)]] st'(1,2)])
    fix j assume "active (refunds st ! k)"
      and j: "docs st (rf_schoolId (refunds st ! k)) (rf_originalTxHash (refunds st ! k)) = [j]"
    then have ne: "rkey (refunds st ! k) \<noteq> rkey r'" using other k by blast
    have "j \<noteq> i"
    proof
      assume "j = i"
      then have "i \<in> set (docs st (rf_schoolId (refunds st ! k)) (rf_originalTxHash (refunds st ! k)))"
        "i \<in> set (docs st (rf_schoolId r') (rf_originalTxHash r'))" using j docs by simp_all
      with docs_ok have "rkey (refunds st ! k) = rkey r'" unfolding single_docs_def rkey_def by blast
      with ne show False ..
    qed
    then show "status (pay st' j) = status (pay st j)" by (rule frame)
  qed
  then have "\<forall>k < length (refunds st'). refund_ok st' (refunds st' ! k)"
    using ok n by (simp add: st'(3) nth_list_update)
  moreover have "unique_active (refunds st')"
    using uniq other key n unfolding unique_active_def st'(3)
    by (auto simp: nth_list_update split: if_splits) metis+
  ultimately show ?thesis
    using single_docs_transfer [OF docs_ok st'(1)] by (auto simp: refund_inv_def all_set_conv_all_nth)
qed

lemma find_refund_SomeD:
  "find_refund n s st = Some r \<Longrightarrow> n < length (refunds st) \<and> r = refunds st ! n \<and> rf_schoolId r = s"
  by (auto simp: find_refund_def split: if_splits)

lemma refund_inv_member:
  assumes "refund_inv st" and "n < length (refunds st)"
  obtains i where "docs st (rf_schoolId (refunds st ! n)) (rf_originalTxHash (refunds st ! n)) = [i]"
    and "within_payment st i (refunds st ! n)" and "known (rf_initiatedBy (refunds st ! n))"
    and "rf_status (refunds st ! n) \<in> {RPending, Submitted, RConfirmed} \<longrightarrow> approved_by_other (refunds st ! n)"
    and "active (refunds st ! n) \<longrightarrow> status (pay st i) = expected_status (rf_status (refunds st ! n))"
  using assms nth_mem [OF assms(2)] unfolding refund_inv_def refund_ok_def by blast

lemma bad_principal_known: "\<not> bad_principal who \<Longrightarrow> \<exists>p. who = Some p \<and> known p"
  by (auto simp: bad_principal_def known_def split: option.splits)

lemmas refund_record_simps = refund_ok_def within_payment_def active_def rkey_def approved_by_other_def
  ACTIVE_REFUND_STATUSES_def expected_status_def

lemma approve_inv:
  assumes inv: "refund_inv st"
  shows "refund_inv (fst (approveRefund now n who s st))"
proof (cases "approve_check n who s st")
  case (Inl e)
  with inv show ?thesis by (simp add: approveRefund_def)
next
  case (Inr r)
  then have "\<not> bad_principal who" and r: "find_refund n s st = Some r" "rf_status r = Approval_pending"
    "userId (rf_initiatedBy r) \<noteq> userId (the who)"
    by (auto simp: approve_check_def split: if_splits option.splits)
  then obtain p where p: "who = Some p" "known p" using bad_principal_known by blast
  note nr = find_refund_SomeD [OF r(1)]
  then have n: "n < length (refunds st)" and rr: "r = refunds st ! n" by simp_all
  obtain i where i: "docs st (rf_schoolId r) (rf_originalTxHash r) = [i]" "within_payment st i r"
    "known (rf_initiatedBy r)" "active r \<longrightarrow> status (pay st i) = expected_status (rf_status r)"
    using refund_inv_member [OF inv n] unfolding rr by metis
  let ?r = "r\<lparr>rf_status := RPending, rf_approvedBy := Some p, rf_approvedAt := Some now\<rparr>"
  let ?st = "fst (approveRefund now n who s st)"
  show ?thesis
  proof (rule replace_active_inv [where r' = ?r and i = i, OF inv n])
    show "active (refunds st ! n)" using r(2) by (simp add: rr active_def ACTIVE_REFUND_STATUSES_def)
    show "docs ?st = docs st" "pay_amount ?st = pay_amount st" "refunds ?st = (refunds st)[n := ?r]"
      using Inr p(1) by (simp_all add: approveRefund_def approve_write_def rr)
    show "status (pay ?st j) = status (pay st j)" for j
      using Inr by (simp add: approveRefund_def approve_write_def)
    show "refund_ok ?st ?r"
      using Inr i r p by (auto simp: approveRefund_def approve_write_def refund_record_simps)
  qed (use i(1) in \<open>simp_all add: rr rkey_def\<close>)
qed

lemma reject_inv:
  assumes inv: "refund_inv st"
  shows "refund_inv (fst (rejectRefund acquired now n who reason s st))"
proof (cases "reject_check n who reason s st")
  case (Inl e)
  with inv show ?thesis by (simp add: rejectRefund_def)
next
  case (Inr r)
  then have r: "find_refund n s st = Some r" "rf_status r = Approval_pending"
    by (auto simp: reject_check_def split: if_splits option.splits)
  note nr = find_refund_SomeD [OF r(1)]
  then have n: "n < length (refunds st)" and rr: "r = refunds st ! n" by simp_all
  obtain i where i: "docs st (rf_schoolId r) (rf_originalTxHash r) = [i]" "within_payment st i r"
    "known (rf_initiatedBy r)"
    using refund_inv_member [OF inv n] unfolding rr by metis
  let ?r = "r\<lparr>rf_status := RRejected, rf_rejectedBy := Some (the who), rf_rejectedAt := Some now,
      rf_rejectionReason := Some (the reason)\<rparr>"
  show ?thesis
  proof (cases acquired)
    case False
    with inv Inr show ?thesis by (simp add: rejectRefund_def reject_write_def)
  next
    case True
    let ?st = "fst (rejectRefund acquired now n who reason s st)"
    show ?thesis
    proof (rule replace_active_inv [where r' = ?r and i = i, OF inv n])
      show "active (refunds st ! n)" using r(2) by (simp add: rr active_def ACTIVE_REFUND_STATUSES_def)
      show "docs ?st = docs st" "pay_amount ?st = pay_amount st" "refunds ?st = (refunds st)[n := ?r]"
        using True Inr i(1) by (simp_all add: rejectRefund_def reject_write_def rr Let_def)
      show "status (pay ?st j) = status (pay st j)" if "j \<noteq> i" for j
        using True Inr i(1) that by (simp add: rejectRefund_def reject_write_def Let_def)
      show "refund_ok ?st ?r"
        using True Inr i r by (simp add: rejectRefund_def reject_write_def Let_def refund_record_simps)
    qed (use i(1) in \<open>simp_all add: rr rkey_def\<close>)
  qed
qed

lemma complete_inv:
  assumes inv: "refund_inv st"
  shows "refund_inv (fst (completeRefund acquired now n tx who s st))"
proof (cases "\<not> bad_principal who \<and> \<not> blank tx \<and> acquired
    \<and> (\<exists>r. find_refund n s st = Some r \<and> rf_status r = RPending)")
  case False
  with inv show ?thesis by (auto simp: completeRefund_def split: option.splits)
next
  case True
  then obtain r where g: "\<not> bad_principal who" "\<not> blank tx" acquired
    and r: "find_refund n s st = Some r" "rf_status r = RPending" by blast
  note nr = find_refund_SomeD [OF r(1)]
  then have n: "n < length (refunds st)" and rr: "r = refunds st ! n" by simp_all
  obtain i where i: "docs st (rf_schoolId r) (rf_originalTxHash r) = [i]" "within_payment st i r"
    "known (rf_initiatedBy r)" "approved_by_other r"
    using refund_inv_member [OF inv n] r(2) unfolding rr by (metis insertI1)
  let ?r = "r\<lparr>rf_status := RConfirmed, rf_refundTxHash := tx, rf_confirmedAt := Some now\<rparr>"
  let ?st = "fst (completeRefund acquired now n tx who s st)"
  show ?thesis
  proof (rule replace_active_inv [where r' = ?r and i = i, OF inv n])
    show "active (refunds st ! n)" using r(2) by (simp add: rr active_def ACTIVE_REFUND_STATUSES_def)
    show "docs ?st = docs st" "pay_amount ?st = pay_amount st" "refunds ?st = (refunds st)[n := ?r]"
      using g r i(1) by (simp_all add: completeRefund_def rr Let_def)
    show "status (pay ?st j) = status (pay st j)" if "j \<noteq> i" for j
      using g r i(1) that by (simp add: completeRefund_def Let_def)
    show "refund_ok ?st ?r"
      using g r i by (simp add: completeRefund_def Let_def refund_record_simps)
  qed (use i(1) in \<open>simp_all add: rr rkey_def\<close>)
qed

lemma no_active_already:
  assumes "\<not> list_ex (\<lambda>r. rf_schoolId r = s \<and> rf_originalTxHash r = h
      \<and> rf_status r \<in> set ACTIVE_REFUND_STATUSES) (refunds st)"
  shows "alreadyRefunded mongo_sum s h st = Fin 0"
proof -
  have "filter (\<lambda>r. rf_schoolId r = s \<and> rf_originalTxHash r = h \<and> rf_status r = RConfirmed) (refunds st) = []"
    using assms by (auto simp: filter_empty_conv list_ex_iff ACTIVE_REFUND_STATUSES_def)
  then show ?thesis by (simp add: alreadyRefunded_def)
qed

lemma positive_amount: "truthy_num a \<Longrightarrow> \<not> jleq a (Fin 0) \<Longrightarrow> jless (Fin 0) a"
  by (cases a) (auto simp: jleq_def)

lemma initiate_inv:
  assumes inv: "refund_inv st"
  shows "refund_inv (fst (initiateRefund mongo_sum acquired now s h student amount reason who st))"
    (is "refund_inv (fst ?run)")
proof (cases "snd ?run")
  case (Inl e)
  have "fst ?run = st" using Inl by (auto simp: initiateRefund_def Let_def split: option.splits if_splits)
  with inv show ?thesis by simp
next
  case (Inr rid)
  then obtain i where g: "\<not> bad_principal who" acquired
      "find (\<lambda>i. status (pay st i) = SUCCESS) (docs st s h) = Some i"
      "truthy_num amount" "\<not> jleq amount (Fin 0)"
      "\<not> jless (refundable (pay_amount st i) (alreadyRefunded mongo_sum s h st)) amount"
    and fresh: "\<not> list_ex (\<lambda>r. rf_schoolId r = s \<and> rf_originalTxHash r = h
      \<and> rf_status r \<in> set ACTIVE_REFUND_STATUSES) (refunds st)"
    by (auto simp: initiateRefund_def Let_def split: option.splits if_splits)
  from g(1) obtain p where p: "who = Some p" "known p" using bad_principal_known by blast
  from inv have docs_ok: "single_docs st" and all: "\<And>r. r \<in> set (refunds st) \<Longrightarrow> refund_ok st r"
    and uniq: "unique_active (refunds st)" by (auto simp: refund_inv_def)
  have "length (docs st s h) \<le> 1" using docs_ok by (simp add: single_docs_def)
  moreover have "i \<in> set (docs st s h)" using find_Some_D [OF g(3)] by blast
  ultimately have i: "docs st s h = [i]" by (cases "docs st s h") auto
  let ?st = "fst ?run"
  obtain r where st': "docs ?st = docs st" "pay_amount ?st = pay_amount st" "refunds ?st = refunds st @ [r]"
    "\<And>j. status (pay ?st j) = (if j = i then REFUND_PENDING else status (pay st j))"
    and r: "rf_schoolId r = s" "rf_originalTxHash r = h" "rf_status r = Approval_pending"
      "rf_amount r = amount" "rf_initiatedBy r = p"
    using g fresh p(1) by (simp add: initiateRefund_def Let_def)
  have no_active: "\<not> active x \<or> rkey x \<noteq> (s, h)" if "x \<in> set (refunds st)" for x
    using fresh that by (auto simp: list_ex_iff active_def rkey_def)
  have "refund_ok ?st x" if x: "x \<in> set (refunds st)" for x
  proof (rule refund_ok_transfer [OF all [OF x] st'(1,2)])
    fix j assume "active x" and j: "docs st (rf_schoolId x) (rf_originalTxHash x) = [j]"
    then have "rkey x \<noteq> (s, h)" using no_active [OF x] by blast
    moreover have "rkey x = (s, h)" if "j = i"
      using docs_ok j i that unfolding single_docs_def rkey_def by (metis list.set_intros(1) prod.inject)
    ultimately show "status (pay ?st j) = status (pay st j)" by (auto simp: st'(4))
  qed
  moreover have "refund_ok ?st r"
    using g(4-6) i p(2) st' r positive_amount [OF g(4,5)] no_active_already [OF fresh]
    by (simp add: refund_record_simps)
  moreover have "\<not> active (refunds st ! b) \<or> rkey (refunds st ! b) \<noteq> rkey r" if "b < length (refunds st)" for b
    using no_active [OF nth_mem [OF that]] r(1,2) by (simp add: rkey_def)
  then have "unique_active (refunds ?st)"
    using uniq unfolding unique_active_def st'(3)
    by (simp add: nth_append less_Suc_eq) (metis less_irrefl)
  ultimately show ?thesis
    using single_docs_transfer [OF docs_ok st'(1)] by (auto simp: refund_inv_def st'(3))
qed

subsection \<open>Properties\<close>

text \<open>A request to the refund endpoints; the flag says whether the payment's lock is free.\<close>

datatype refund_request =
    Initiate bool string string string jsnum string "principal option"
  | Approve nat "principal option" string
  | Reject bool nat "principal option" "string option" string
  | Complete bool nat "string option" "principal option" string

fun refund_step ::
  "(jsnum list \<Rightarrow> jsnum) \<Rightarrow> 'id refund_state \<Rightarrow> millis \<times> refund_request \<Rightarrow> 'id refund_state" where
  "refund_step mongo_sum st (now, Initiate l s h student a reason who) =
     fst (initiateRefund mongo_sum l now s h student a reason who st)"
| "refund_step mongo_sum st (now, Approve n who s) = fst (approveRefund now n who s st)"
| "refund_step mongo_sum st (now, Reject l n who reason s) = fst (rejectRefund l now n who reason s st)"
| "refund_step mongo_sum st (now, Complete l n tx who s) = fst (completeRefund l now n tx who s st)"

lemma refund_step_inv: "refund_inv st \<Longrightarrow> refund_inv (refund_step mongo_sum st q)"
proof (cases q)
  case (Pair now req)
  assume "refund_inv st"
  then show ?thesis unfolding Pair
    by (cases req) (simp_all add: initiate_inv approve_inv reject_inv complete_inv)
qed

lemma refund_steps_inv:
  assumes "refunds st = []" and "single_docs st"
  shows "refund_inv (foldl (refund_step mongo_sum) st qs)"
proof (rule foldl_invariant [where P = refund_inv])
  show "refund_inv st" using assms by (simp add: refund_inv_def unique_active_def)
  show "refund_inv (refund_step mongo_sum s q)" if "refund_inv s" for s q
    using that by (rule refund_step_inv)
qed

text \<open>C31: Start without refunds, with one payment per transaction, and let the refund endpoints serve any
  sequence of requests. Then no payment ever has two refunds that are open or confirmed; every
  refund that was approved, submitted or confirmed was approved by a known user other than its
  known initiator; and every refund is of a positive amount that does not exceed the payment.\<close>

theorem refunds_safe:
  assumes "refunds st = []" and "single_docs st" and "st' = foldl (refund_step mongo_sum) st qs"
  shows "unique_active (refunds st')
    \<and> (\<forall>r\<in>set (refunds st'). known (rf_initiatedBy r)
         \<and> (rf_status r \<in> {RPending, Submitted, RConfirmed} \<longrightarrow> approved_by_other r)
         \<and> (\<exists>i. docs st' (rf_schoolId r) (rf_originalTxHash r) = [i] \<and> within_payment st' i r))"
  using refund_steps_inv [OF assms(1,2)] unfolding assms(3) refund_inv_def refund_ok_def by blast

text \<open>In the same runs a payment is waiting for its refund exactly as long as the refund is open and is
  refunded once the refund is confirmed; in particular a payment in the success status has no open
  and no confirmed refund, so the sum of earlier confirmed refunds that a new request subtracts is
  always zero, and a payment that was refunded in part cannot be refunded further.\<close>

theorem refund_payment_in_step:
  assumes "refunds st = []" and "single_docs st" and "st' = foldl (refund_step mongo_sum) st qs"
  shows "(\<forall>r\<in>set (refunds st'). active r \<longrightarrow>
            (\<exists>i. docs st' (rf_schoolId r) (rf_originalTxHash r) = [i]
               \<and> status (pay st' i) = (if rf_status r = RConfirmed then REFUNDED else REFUND_PENDING)))
       \<and> (\<forall>i\<in>set (docs st' s h). status (pay st' i) = SUCCESS \<longrightarrow> alreadyRefunded mongo_sum s h st' = Fin 0)"
proof -
  have inv: "refund_inv st'" unfolding assms(3) by (rule refund_steps_inv [OF assms(1,2)])
  then have all: "\<forall>r\<in>set (refunds st'). active r \<longrightarrow>
            (\<exists>i. docs st' (rf_schoolId r) (rf_originalTxHash r) = [i]
               \<and> status (pay st' i) = (if rf_status r = RConfirmed then REFUNDED else REFUND_PENDING))"
    unfolding refund_inv_def refund_ok_def expected_status_def by blast
  moreover have "alreadyRefunded mongo_sum s h st' = Fin 0"
    if i: "i \<in> set (docs st' s h)" "status (pay st' i) = SUCCESS" for i
  proof (rule no_active_already, rule notI)
    assume "list_ex (\<lambda>r. rf_schoolId r = s \<and> rf_originalTxHash r = h
      \<and> rf_status r \<in> set ACTIVE_REFUND_STATUSES) (refunds st')"
    then obtain r where r: "r \<in> set (refunds st')" "rf_schoolId r = s" "rf_originalTxHash r = h" "active r"
      by (auto simp: list_ex_iff active_def)
    with all obtain j where j: "docs st' s h = [j]" "status (pay st' j) \<noteq> SUCCESS" by fastforce
    with i show False by simp
  qed
  ultimately show ?thesis by blast
qed

text \<open>A school with a payment of one hundred in one transaction, and two operators.\<close>

definition sample_pay :: "payment_status \<Rightarrow> payment" where
  "sample_pay s = \<lparr>status = s, confirmationState = model_deriveConfirmationState s,
     confirmationStatus = model_deriveConfirmationStatus s, rejectedAt = None,
     isSuspicious = False, suspicionReviewStatus = ''flagged'', suspicionReviewedBy = None,
     suspicionReviewedAt = None, suspicionReviewNote = None\<rparr>"

definition ann :: "principal option" where "ann = Some \<lparr>userId = ''u1'', displayName = ''Ann''\<rparr>"
definition bob :: "principal option" where "bob = Some \<lparr>userId = ''u2'', displayName = ''Bob''\<rparr>"

definition sample_school :: "nat list \<Rightarrow> (nat \<Rightarrow> payment_status) \<Rightarrow> nat refund_state" where
  "sample_school ids f = \<lparr>docs = (\<lambda>s h. if s = ''S'' \<and> h = ''t'' then ids else []),
     pay = (\<lambda>i. sample_pay (f i)), pay_amount = (\<lambda>_. Fin 100), refunds = [], outbox = [], emitted = []\<rparr>"

lemma sample_single: "single_docs (sample_school [0] f)"
  by (simp add: single_docs_def sample_school_def)

lemma sample_none: "refunds (sample_school ids f) = []"
  by (simp add: sample_school_def)

lemma refundable_100: "refundable (Fin 100) (Fin 0) = Fin 100"
proof -
  have n: "to_num 100 = Fin 100" using to_num_int [of 100] by simp
  have "toFixed 7 (Fin 100) = Some ''100.0000000''" by code_simp
  moreover have "parse_unsigned ''100.0000000'' = Some 100" by code_simp
  then have "parseFloat ''100.0000000'' = Fin 100" using n by (simp add: parseFloat_def is_space_def)
  ultimately show ?thesis using n by (simp add: refundable_def jsub_def)
qed

lemma alreadyRefunded_none: "refunds st = [] \<Longrightarrow> alreadyRefunded m s h st = Fin 0"
  by (simp add: alreadyRefunded_def)

theorem refunds_safe_witness:
  "unique_active (refunds (foldl (refund_step hd) (sample_school [0] (\<lambda>_. SUCCESS))
     [(1, Initiate True ''S'' ''t'' ''stu'' (Fin 40) ''error'' ann), (2, Approve 0 bob ''S''),
      (3, Initiate True ''S'' ''t'' ''stu'' (Fin 60) ''error'' ann)]))"
  using refunds_safe [OF sample_none sample_single refl] by blast

definition sample_run :: "nat refund_state" where
  "sample_run = foldl (refund_step hd) (sample_school [0] (\<lambda>_. SUCCESS))
     [(1, Initiate True ''S'' ''t'' ''stu'' (Fin 40) ''error'' ann), (2, Approve 0 bob ''S''),
      (3, Complete True 0 (Some ''tx'') bob ''S'')]"

theorem refund_payment_in_step_witness:
  "list_all (\<lambda>r. \<exists>i. docs sample_run (rf_schoolId r) (rf_originalTxHash r) = [i]
       \<and> status (pay sample_run i) = (if rf_status r = RConfirmed then REFUNDED else REFUND_PENDING))
     (filter active (refunds sample_run))"
  using refund_payment_in_step [OF sample_none sample_single sample_run_def] by (simp add: list_all_iff)

text \<open>Approval and rejection decide on the refund they read and do not look again before they write.
  When both have read a refund that waits for approval, and the rejection is written first, the
  refund ends up approved and awaiting execution although its payment has been restored to success.\<close>

theorem approve_reject_race:
  assumes "approve_check n who s st = Inr r" and "reject_check n who' reason s st = Inr r'"
    and "docs st (rf_schoolId r) (rf_originalTxHash r) = i # is"
  shows "let st1 = fst (reject_write True n (the who') (the reason) now r' st);
             st2 = approve_write n (the who) later r st1
         in rf_status (refunds st2 ! n) = RPending \<and> rf_approvedBy (refunds st2 ! n) = Some (the who)
          \<and> rf_rejectedBy (refunds st2 ! n) = Some (the who') \<and> status (pay st2 i) = SUCCESS"
proof -
  have r: "find_refund n s st = Some r" "find_refund n s st = Some r'"
    using assms(1,2) by (auto simp: approve_check_def reject_check_def split: if_splits option.splits)
  then have n: "n < length (refunds st)" "r' = r" using find_refund_SomeD [OF r(1)] by auto
  with assms(3) show ?thesis by (simp add: reject_write_def approve_write_def Let_def)
qed

definition sample_refund :: refund where
  "sample_refund = \<lparr>rf_schoolId = ''S'', rf_originalTxHash = ''t'', rf_studentId = ''stu'', rf_amount = Fin 40,
     rf_status = Approval_pending, rf_reason = ''error'', rf_initiatedBy = the ann, rf_approvedBy = None,
     rf_approvedAt = None, rf_rejectedBy = None, rf_rejectedAt = None, rf_rejectionReason = None,
     rf_refundTxHash = None, rf_confirmedAt = None, rf_failureReason = None, rf_failedAt = None\<rparr>"

definition sample_waiting :: "nat refund_state" where
  "sample_waiting = (sample_school [0] (\<lambda>_. REFUND_PENDING))\<lparr>refunds := [sample_refund]\<rparr>"

lemma sample_checks:
  "approve_check 0 bob ''S'' sample_waiting = Inr sample_refund"
  "reject_check 0 bob (Some ''no'') ''S'' sample_waiting = Inr sample_refund"
  by (simp_all add: approve_check_def reject_check_def find_refund_def sample_waiting_def sample_school_def
      sample_refund_def bob_def ann_def bad_principal_def blank_def trim_def is_space_def)

theorem approve_reject_race_witness:
  "let st1 = fst (reject_write True 0 (the bob) ''no'' 5 sample_refund sample_waiting);
       st2 = approve_write 0 (the bob) 6 sample_refund st1
   in rf_status (refunds st2 ! 0) = RPending \<and> status (pay st2 0) = SUCCESS"
proof -
  have "docs sample_waiting (rf_schoolId sample_refund) (rf_originalTxHash sample_refund) = [0]"
    by (simp add: sample_waiting_def sample_school_def sample_refund_def)
  from approve_reject_race [OF sample_checks this, of 5 6] show ?thesis by (simp add: Let_def)
qed

text \<open>The generic status update moves a refund along its transition table and touches no payment: it can
  put a refund that waits for approval into the approved status without an approver, and one that
  fails, or is confirmed this way, leaves its payment waiting for the refund.\<close>

theorem updateRefundStatus_alone:
  assumes "lookup_refund n school st = Some r"
    and "updateRefundStatus l now n new tx why school st = (st', Inr ())"
  shows "pay st' = pay st \<and> rf_approvedBy (refunds st' ! n) = rf_approvedBy (refunds st ! n)
    \<and> refund_status_name (rf_status (refunds st' ! n)) = new
    \<and> rf_status (refunds st' ! n) \<in> set (REFUND_STATUS_TRANSITIONS (rf_status r))"
proof -
  from assms(1) have n: "n < length (refunds st)" "r = refunds st ! n"
    by (auto simp: lookup_refund_def find_refund_def split: option.splits if_splits)
  from assms(2) obtain s where s: "find (\<lambda>s. refund_status_name s = new) VALID_REFUND_STATUSES = Some s"
    by (cases "find (\<lambda>s. refund_status_name s = new) VALID_REFUND_STATUSES") (auto simp: updateRefundStatus_def)
  then have name: "refund_status_name s = new" using find_Some_D by fastforce
  show ?thesis
    using assms n s name by (auto simp: updateRefundStatus_def Let_def split: if_splits)
qed

theorem updateRefundStatus_alone_witness:
  "\<exists>st'. updateRefundStatus True 1 0 ''pending'' None None None sample_waiting = (st', Inr ())
     \<and> rf_approvedBy (refunds st' ! 0) = None \<and> refund_status_name (rf_status (refunds st' ! 0)) = ''pending''"
proof -
  have l: "lookup_refund 0 None sample_waiting = Some sample_refund"
    by (simp add: lookup_refund_def sample_waiting_def)
  obtain st' where u: "updateRefundStatus True 1 0 ''pending'' None None None sample_waiting = (st', Inr ())"
    by (simp add: updateRefundStatus_def l VALID_REFUND_STATUSES_def Let_def sample_refund_def)
  from updateRefundStatus_alone [OF l u] u show ?thesis
    by (simp add: sample_waiting_def sample_refund_def)
qed

text \<open>A transaction can carry several payments. A refund is opened for the first one that is in the
  success status, but rejecting it restores the first one of the transaction whatever its status:
  the payment that waits for the refund keeps waiting, and another one is set to success.\<close>

theorem reject_restores_wrong_payment:
  assumes "docs st s h = [i, j]" and "i \<noteq> j" and "status (pay st i) \<noteq> SUCCESS"
    and "initiateRefund mongo_sum True now s h student amount reason who st = (st1, Inr rid)"
    and "\<not> bad_principal who'" and "userId (the who') \<noteq> userId (the who)" and "\<not> blank why"
  shows "status (pay st1 j) = REFUND_PENDING
    \<and> (let st2 = fst (rejectRefund True later rid who' why s st1)
       in status (pay st2 i) = SUCCESS \<and> status (pay st2 j) = REFUND_PENDING
        \<and> rf_status (refunds st2 ! rid) = RRejected)"
proof -
  have j: "find (\<lambda>k. status (pay st k) = SUCCESS) (docs st s h) = Some j"
    using assms(1,3,4) by (auto simp: initiateRefund_def split: if_splits)
  obtain r where st1: "docs st1 = docs st" "refunds st1 = refunds st @ [r]" "rid = length (refunds st)"
    "\<And>k. status (pay st1 k) = (if k = j then REFUND_PENDING else status (pay st k))"
    and r: "rf_schoolId r = s" "rf_originalTxHash r = h" "rf_status r = Approval_pending"
      "rf_initiatedBy r = the who"
    using assms(4) j by (auto simp: initiateRefund_def Let_def split: if_splits)
  have "reject_check rid who' why s st1 = Inr r"
    using assms(5-7) st1 r by (auto simp: reject_check_def find_refund_def)
  then show ?thesis
    using assms(1,2) st1 r by (simp add: rejectRefund_def reject_write_def Let_def)
qed

theorem reject_restores_wrong_payment_witness:
  "\<exists>st1. initiateRefund hd True 1 ''S'' ''t'' ''stu'' (Fin 40) ''error'' ann
       (sample_school [0, 1] (\<lambda>i. if i = 0 then DISPUTED else SUCCESS)) = (st1, Inr 0)
     \<and> status (pay (fst (rejectRefund True 2 0 bob (Some ''no'') ''S'' st1)) 0) = SUCCESS"
proof -
  let ?st = "sample_school [0, 1] (\<lambda>i. if i = 0 then DISPUTED else SUCCESS)"
  have "alreadyRefunded hd ''S'' ''t'' ?st = Fin 0" by (rule alreadyRefunded_none) (simp add: sample_school_def)
  then obtain st1 where run: "initiateRefund hd True 1 ''S'' ''t'' ''stu'' (Fin 40) ''error'' ann ?st = (st1, Inr 0)"
    by (simp add: initiateRefund_def bad_principal_def ann_def sample_school_def sample_pay_def
        refundable_100 jleq_def Let_def)
  have "docs ?st ''S'' ''t'' = [0, 1]" "status (pay ?st 0) \<noteq> SUCCESS"
    by (simp_all add: sample_school_def sample_pay_def)
  from reject_restores_wrong_payment [OF this(1) _ this(2) run, of bob "Some ''no''" 2] run show ?thesis
    by (simp add: bob_def ann_def bad_principal_def blank_def trim_def is_space_def Let_def)
qed

end
