(* ===== verification/JS_Date.thy ===== *)
theory JS_Date
  imports JS_String
begin

section \<open>JavaScript dates\<close>

text \<open>
  The part of the \<^verbatim>\<open>Date\<close> object the services use: the calendar of ECMAScript (section "Time
  Values and Time Range"), from a time value in milliseconds to the UTC fields and back, and
  \<^verbatim>\<open>toISOString\<close>. The year of a day is found from an estimate that is corrected by at most one.
  The lemmas show that the fields are in their ranges, that they determine the time value, and
  that \<^verbatim>\<open>toISOString\<close> is injective on the valid time values, which the audit hash relies on.
\<close>

definition msPerDay :: int where
  "msPerDay = 86400000"

definition DayFromYear :: "int \<Rightarrow> int" where
  "DayFromYear y = 365 * (y - 1970) + (y - 1969) div 4 - (y - 1901) div 100 + (y - 1601) div 400"

definition InLeapYear :: "int \<Rightarrow> bool" where
  "InLeapYear y \<longleftrightarrow> y mod 4 = 0 \<and> (y mod 100 \<noteq> 0 \<or> y mod 400 = 0)"

definition YearFromDay :: "int \<Rightarrow> int" where
  "YearFromDay d =
     (let g = 1970 + 400 * d div 146097
      in if d < DayFromYear g then g - 1 else if DayFromYear (g + 1) \<le> d then g + 1 else g)"

text \<open>The first day of each month within its year; months count from 0.\<close>

definition month_start :: "bool \<Rightarrow> nat \<Rightarrow> int" where
  "month_start leap m =
     [0, 31, 59, 90, 120, 151, 181, 212, 243, 273, 304, 334] ! m + (if leap \<and> 2 \<le> m then 1 else 0)"

definition MonthFromDay :: "bool \<Rightarrow> int \<Rightarrow> nat" where
  "MonthFromDay leap d = length (filter (\<lambda>m. month_start leap m \<le> d) [1..<12])"

definition MakeDay :: "int \<Rightarrow> nat \<Rightarrow> int \<Rightarrow> int" where
  "MakeDay y m dt = DayFromYear y + month_start (InLeapYear y) m + dt - 1"

definition getUTCFullYear :: "millis \<Rightarrow> int" where
  "getUTCFullYear t = YearFromDay (t div msPerDay)"

definition getUTCMonth :: "millis \<Rightarrow> nat" where
  "getUTCMonth t =
     (let d = t div msPerDay; y = YearFromDay d in MonthFromDay (InLeapYear y) (d - DayFromYear y))"

definition getUTCDate :: "millis \<Rightarrow> int" where
  "getUTCDate t =
     (let d = t div msPerDay; y = YearFromDay d; r = d - DayFromYear y
      in r - month_start (InLeapYear y) (MonthFromDay (InLeapYear y) r) + 1)"

definition Date_UTC :: "int \<Rightarrow> nat \<Rightarrow> int \<Rightarrow> int \<Rightarrow> millis" where
  "Date_UTC y m dt ms = MakeDay y m dt * msPerDay + ms"

text \<open>Numbers with leading zeros, and the text of a date.\<close>

definition zpad :: "nat \<Rightarrow> int \<Rightarrow> string" where
  "zpad k n = padStart k (CHR ''0'') (nat_to_string 10 (nat n))"

definition iso_year :: "int \<Rightarrow> string" where
  "iso_year y =
     (if 0 \<le> y \<and> y \<le> 9999 then zpad 4 y
      else if y < 0 then CHR ''-'' # zpad 6 (- y) else CHR ''+'' # zpad 6 y)"

definition toISOString :: "millis \<Rightarrow> string" where
  "toISOString t =
     (let r = t mod msPerDay
      in iso_year (getUTCFullYear t) @ ''-'' @ zpad 2 (int (getUTCMonth t) + 1) @ ''-'' @ zpad 2 (getUTCDate t)
         @ ''T'' @ zpad 2 (r div 3600000) @ '':'' @ zpad 2 (r div 60000 mod 60) @ '':''
         @ zpad 2 (r div 1000 mod 60) @ ''.'' @ zpad 3 (r mod 1000) @ ''Z'')"

definition valid_time :: "millis \<Rightarrow> bool" where
  "valid_time t \<longleftrightarrow> \<bar>t\<bar> \<le> 8640000000000000"

subsection \<open>The calendar\<close>

lemma div_bounds:
  fixes x k :: int
  assumes "0 < k"
  shows "k * (x div k) \<le> x" "x < k * (x div k) + k"
  using pos_mod_sign [OF assms, of x] pos_mod_bound [OF assms, of x] mult_div_mod_eq [of k x]
  by (linarith, linarith)

lemma div_step:
  fixes x k :: int
  assumes "0 < k"
  shows "x div k - (x - 1) div k = (if x mod k = 0 then 1 else 0)"
proof (cases "x mod k = 0")
  case True
  then have "x - 1 = k * (x div k - 1) + (k - 1)"
    using mult_div_mod_eq [of k x] by (simp add: right_diff_distrib)
  from int_div_pos_eq [OF this] True assms show ?thesis by simp
next
  case False
  then have "0 < x mod k" using pos_mod_sign [OF assms, of x] by linarith
  have "x - 1 = k * (x div k) + (x mod k - 1)" using mult_div_mod_eq [of k x] by linarith
  from int_div_pos_eq [OF this] have "(x - 1) div k = x div k"
    using \<open>0 < x mod k\<close> pos_mod_bound [OF assms, of x] by linarith
  then show ?thesis using False by simp
qed

lemma DayFromYear_step: "DayFromYear (y + 1) = DayFromYear y + (if InLeapYear y then 366 else 365)"
proof -
  have "DayFromYear (y + 1) - DayFromYear y - 365 =
      ((y - 1968) div 4 - (y - 1968 - 1) div 4) - ((y - 1900) div 100 - (y - 1900 - 1) div 100)
      + ((y - 1600) div 400 - (y - 1600 - 1) div 400)"
    by (simp add: DayFromYear_def)
  also have "\<dots> = (if (y - 1968) mod 4 = 0 then 1 else 0) - (if (y - 1900) mod 100 = 0 then 1 else 0)
      + (if (y - 1600) mod 400 = 0 then 1 else 0)"
    by (simp only: div_step zero_less_numeral)
  also have "(y - 1968) mod 4 = y mod 4" by (simp add: mod_diff_eq [symmetric])
  also have "(y - 1900) mod 100 = y mod 100" by (simp add: mod_diff_eq [symmetric])
  also have "(y - 1600) mod 400 = y mod 400" by (simp add: mod_diff_eq [symmetric])
  finally have step: "DayFromYear (y + 1) - DayFromYear y - 365 =
      (if y mod 4 = 0 then 1 else 0) - (if y mod 100 = 0 then 1 else 0) + (if y mod 400 = 0 then 1 else 0)" .
  have "y mod 100 = 0 \<Longrightarrow> y mod 4 = 0" and "y mod 400 = 0 \<Longrightarrow> y mod 100 = 0"
    using mod_mod_cancel [of 4 100 y] mod_mod_cancel [of 100 400 y] by auto
  with step show ?thesis by (auto simp: InLeapYear_def split: if_splits)
qed

lemma DayFromYear_less: "DayFromYear y < DayFromYear (y + 1)"
  by (simp add: DayFromYear_step)

lemma DayFromYear_mono: "x \<le> y \<Longrightarrow> DayFromYear x \<le> DayFromYear y"
proof (induction y rule: int_ge_induct)
  case base
  show ?case by simp
next
  case (step y)
  then show ?case using DayFromYear_less [of y] by simp
qed

lemma DayFromYear_bounds:
  "146097 * (y - 1970) - 506 \<le> 400 * DayFromYear y" "400 * DayFromYear y \<le> 146097 * (y - 1970) + 589"
proof -
  define a b c where "a = (y - 1969) div 4" and "b = (y - 1901) div 100" and "c = (y - 1601) div 400"
  note bounds = div_bounds [of 4 "y - 1969"] div_bounds [of 100 "y - 1901"] div_bounds [of 400 "y - 1601"]
  have year: "DayFromYear y = 365 * (y - 1970) + a - b + c"
    by (simp add: DayFromYear_def a_def b_def c_def)
  show "146097 * (y - 1970) - 506 \<le> 400 * DayFromYear y"
    using bounds year unfolding a_def [symmetric] b_def [symmetric] c_def [symmetric] by simp
  show "400 * DayFromYear y \<le> 146097 * (y - 1970) + 589"
    using bounds year unfolding a_def [symmetric] b_def [symmetric] c_def [symmetric] by simp
qed

lemma YearFromDay_bounds: "DayFromYear (YearFromDay d) \<le> d \<and> d < DayFromYear (YearFromDay d + 1)"
proof -
  define q where "q = 400 * d div 146097"
  have q: "146097 * q \<le> 400 * d" "400 * d < 146097 * q + 146097"
    using div_bounds [of 146097 "400 * d"] unfolding q_def by auto
  have low: "DayFromYear (1969 + q) \<le> d"
    using DayFromYear_bounds(2) [of "1969 + q"] q by (simp add: algebra_simps)
  have high: "d < DayFromYear (1972 + q)"
    using DayFromYear_bounds(1) [of "1972 + q"] q by (simp add: algebra_simps)
  have "1970 + q - 1 = 1969 + q" and "1970 + q + 1 + 1 = 1972 + q" by simp_all
  with low high show ?thesis
    by (simp add: YearFromDay_def Let_def q_def [symmetric])
qed

lemma YearFromDay_unique:
  assumes "DayFromYear y \<le> d" and "d < DayFromYear (y + 1)"
  shows "YearFromDay d = y"
proof (rule ccontr)
  assume "YearFromDay d \<noteq> y"
  then consider "YearFromDay d + 1 \<le> y" | "y + 1 \<le> YearFromDay d" by linarith
  then show False
    using YearFromDay_bounds [of d] assms DayFromYear_mono [of "YearFromDay d + 1" y]
      DayFromYear_mono [of "y + 1" "YearFromDay d"] by cases auto
qed

lemma MonthFromDay_le: "MonthFromDay leap d \<le> 11"
proof -
  have "length (filter (\<lambda>m. month_start leap m \<le> d) [1..<12]) \<le> length [1..<12]" by (rule length_filter_le)
  then show ?thesis by (simp add: MonthFromDay_def)
qed

lemma month_start_simps [simp]:
  "month_start leap 0 = 0" "month_start leap (Suc 0) = 31"
  by (simp_all add: month_start_def)

text \<open>The month of a day of the year starts at or before it, and its date is at most 31.\<close>

lemma MonthFromDay_bounds:
  assumes "0 \<le> d" and "d < (if leap then 366 else 365)"
  shows "month_start leap (MonthFromDay leap d) \<le> d" "d \<le> month_start leap (MonthFromDay leap d) + 30"
proof -
  have "[1..<12] = [1, 2, 3, 4, 5, 6, 7, 8, 9, 10, 11 :: nat]" by (simp add: upt_rec)
  then have "month_start leap (MonthFromDay leap d) \<le> d \<and> d \<le> month_start leap (MonthFromDay leap d) + 30"
    using assms by (cases leap) (auto simp: MonthFromDay_def month_start_def)
  then show "month_start leap (MonthFromDay leap d) \<le> d" "d \<le> month_start leap (MonthFromDay leap d) + 30"
    by auto
qed

lemma day_of_year:
  "0 \<le> d - DayFromYear (YearFromDay d)"
  "d - DayFromYear (YearFromDay d) < (if InLeapYear (YearFromDay d) then 366 else 365)"
  using YearFromDay_bounds [of d] DayFromYear_step [of "YearFromDay d"] by (auto split: if_splits)

lemma getUTCDate_bounds: "1 \<le> getUTCDate t \<and> getUTCDate t \<le> 31"
  using day_of_year [of "t div msPerDay"]
    MonthFromDay_bounds [of "t div msPerDay - DayFromYear (YearFromDay (t div msPerDay))"
      "InLeapYear (YearFromDay (t div msPerDay))"]
  by (simp add: getUTCDate_def Let_def)

lemma getUTCMonth_le: "getUTCMonth t \<le> 11"
  by (simp add: getUTCMonth_def Let_def MonthFromDay_le)

text \<open>The fields determine the time value.\<close>

lemma fields_determine_time:
  "Date_UTC (getUTCFullYear t) (getUTCMonth t) (getUTCDate t) (t mod msPerDay) = t"
  by (simp add: Date_UTC_def MakeDay_def getUTCFullYear_def getUTCMonth_def getUTCDate_def Let_def)

text \<open>The first and the last millisecond of a year belong to it.\<close>

lemma getUTCFullYear_first: "getUTCFullYear (Date_UTC y 0 1 0) = y"
  using DayFromYear_less [of y]
  by (simp add: getUTCFullYear_def Date_UTC_def MakeDay_def msPerDay_def YearFromDay_unique)

lemma valid_year: "valid_time t \<Longrightarrow> \<bar>getUTCFullYear t\<bar> < 10 ^ 6"
proof -
  assume "valid_time t"
  define d where "d = t div msPerDay"
  have "\<bar>d\<bar> \<le> 100000001"
    using \<open>valid_time t\<close> div_bounds [of msPerDay t]
    unfolding d_def [symmetric] by (simp add: valid_time_def msPerDay_def abs_le_iff)
  moreover have "400 * DayFromYear (YearFromDay d) \<le> 400 * d \<and> 400 * d < 400 * DayFromYear (YearFromDay d + 1)"
    using YearFromDay_bounds [of d] by simp
  ultimately have "\<bar>YearFromDay d\<bar> < 10 ^ 6"
    using DayFromYear_bounds [of "YearFromDay d"] DayFromYear_bounds [of "YearFromDay d + 1"]
    by (simp add: abs_le_iff abs_less_iff)
  then show ?thesis by (simp add: getUTCFullYear_def d_def)
qed

subsection \<open>The text of a date\<close>

lemma length_zpad: "0 \<le> n \<Longrightarrow> n < 10 ^ k \<Longrightarrow> 0 < k \<Longrightarrow> length (zpad k n) = k"
  using length_to_digits [of 10 "nat n" k]
  by (simp add: zpad_def nat_to_string_def nat_less_iff max_absorb1)

lemma string_to_nat_zpad: "string_to_nat 10 (zpad k n) = nat n"
  by (simp add: zpad_def string_to_nat_to_string)

lemma zpad_inj: "zpad k n = zpad k m \<Longrightarrow> 0 \<le> n \<Longrightarrow> 0 \<le> m \<Longrightarrow> n = m"
  using string_to_nat_zpad [of k n] string_to_nat_zpad [of k m] by simp

lemma zpad_digits: "c \<in> set (zpad k n) \<Longrightarrow> is_digit c"
  unfolding zpad_def by (rule padStart_digits [OF nat_to_string_digits])

lemma zpad_eq: "0 \<le> n \<Longrightarrow> n < 10 ^ k \<Longrightarrow> 0 \<le> m \<Longrightarrow> m < 10 ^ k \<Longrightarrow> 0 < k \<Longrightarrow>
    zpad k n @ s = zpad k m @ t \<longleftrightarrow> n = m \<and> s = t"
  by (auto simp: length_zpad dest: zpad_inj)

lemma iso_year_eq:
  assumes "\<bar>y\<bar> < 10 ^ 6" and "\<bar>z\<bar> < 10 ^ 6" and "iso_year y @ s = iso_year z @ t"
  shows "y = z \<and> s = t"
proof -
  have first: "c # u = zpad k n @ v \<Longrightarrow> 0 \<le> n \<Longrightarrow> n < 10 ^ k \<Longrightarrow> 0 < k \<Longrightarrow> is_digit c" for c u k n v
    using length_zpad [of n k] zpad_digits [of _ k n] by (cases "zpad k n") auto
  have sign: "\<not> is_digit (CHR ''+'')" by (simp add: is_digit_def)
  consider (same) "0 \<le> y \<and> y \<le> 9999 \<longleftrightarrow> 0 \<le> z \<and> z \<le> 9999" "y < 0 \<longleftrightarrow> z < 0"
    | (differ) "\<not> ((0 \<le> y \<and> y \<le> 9999 \<longleftrightarrow> 0 \<le> z \<and> z \<le> 9999) \<and> (y < 0 \<longleftrightarrow> z < 0))" by blast
  then show ?thesis
  proof cases
    case same
    then show ?thesis
      using assms zpad_eq [of y 4 z s t] zpad_eq [of y 6 z s t] zpad_eq [of "- y" 6 "- z" s t]
      by (auto simp: iso_year_def split: if_splits)
  next
    case differ
    then show ?thesis
      using assms first [of "CHR ''-''" "zpad 6 (- y) @ s" 4 z t] first [of "CHR ''+''" "zpad 6 y @ s" 4 z t]
        first [of "CHR ''-''" "zpad 6 (- z) @ t" 4 y s] first [of "CHR ''+''" "zpad 6 z @ t" 4 y s] sign
      by (auto simp: iso_year_def split: if_splits)
  qed
qed

lemma time_parts:
  fixes r :: int
  shows "r div 3600000 * 3600000 + r div 60000 mod 60 * 60000 + r div 1000 mod 60 * 1000 + r mod 1000 = r"
proof -
  define s m h where "s = r div 1000" and "m = r div 60000" and "h = r div 3600000"
  have "s div 60 = m" and "m div 60 = h" by (simp_all add: s_def m_def h_def zdiv_zmult2_eq [symmetric])
  then have "h * 60 + m mod 60 = m" and "m * 60 + s mod 60 = s" and "s * 1000 + r mod 1000 = r"
    using div_mult_mod_eq [of m 60] div_mult_mod_eq [of s 60] div_mult_mod_eq [of r 1000]
    by (auto simp: s_def)
  then have "h * 3600000 + m mod 60 * 60000 + s mod 60 * 1000 + r mod 1000 = r" by linarith
  then show ?thesis by (simp only: s_def m_def h_def)
qed

lemma time_of_day: "0 \<le> t mod msPerDay div 3600000" "t mod msPerDay div 3600000 < 24"
proof -
  have "0 \<le> t mod msPerDay" and less: "t mod msPerDay < 24 * 3600000"
    using pos_mod_bound [of msPerDay t] pos_mod_sign [of msPerDay t] by (simp_all add: msPerDay_def)
  then show "0 \<le> t mod msPerDay div 3600000" by (simp add: div_int_pos_iff)
  show "t mod msPerDay div 3600000 < 24"
    using less div_bounds(1) [of 3600000 "t mod msPerDay"] by linarith
qed

text \<open>Two valid dates with the same text are the same date.\<close>

lemma toISOString_inj:
  assumes "valid_time t" and "valid_time u" and same: "toISOString t = toISOString u"
  shows "t = u"
proof -
  note ranges = time_of_day [of t] time_of_day [of u] getUTCDate_bounds [of t] getUTCDate_bounds [of u]
    getUTCMonth_le [of t] getUTCMonth_le [of u]
  have year: "getUTCFullYear t = getUTCFullYear u"
    using same iso_year_eq [OF valid_year [OF assms(1)] valid_year [OF assms(2)]]
    unfolding toISOString_def Let_def by blast
  then have "int (getUTCMonth t) + 1 = int (getUTCMonth u) + 1 \<and> getUTCDate t = getUTCDate u
      \<and> t mod msPerDay div 3600000 = u mod msPerDay div 3600000
      \<and> t mod msPerDay div 60000 mod 60 = u mod msPerDay div 60000 mod 60
      \<and> t mod msPerDay div 1000 mod 60 = u mod msPerDay div 1000 mod 60
      \<and> t mod msPerDay mod 1000 = u mod msPerDay mod 1000"
    using same ranges zpad_inj [of 3 "t mod msPerDay mod 1000" "u mod msPerDay mod 1000"] unfolding toISOString_def Let_def
    by (simp add: zpad_eq)
  then have "getUTCMonth t = getUTCMonth u" and "getUTCDate t = getUTCDate u" and "t mod msPerDay = u mod msPerDay"
    by (simp, simp, metis time_parts)
  with year show "t = u" by (metis fields_determine_time)
qed

lemma toISOString_example: "toISOString 1704067199999 = ''2023-12-31T23:59:59.999Z''"
  by code_simp

end
