(* ===== verification/JS_Json.thy ===== *)
theory JS_Json
  imports JS_Date
begin

section \<open>JavaScript values and \<^verbatim>\<open>JSON.stringify\<close>\<close>

text \<open>
  The values the services serialise, with the database's ObjectIds, and \<^verbatim>\<open>JSON.stringify\<close> without
  indentation: quoting and escapes of strings, \<^verbatim>\<open>null\<close> for numbers that are not finite and for an
  undefined element of an array, undefined properties left out, the texts of dates and
  ObjectIds. The shortest decimal text of a number is the parameter \<open>num\<close>; what a client relies
  on is \<open>number_text\<close>: distinct numbers have distinct texts, and a text has no character that
  delimits or opens a value.
  The lemmas show that the text of a plain value determines the value.
\<close>

datatype jsval =
    VStr string | VNum jsnum | VBool bool | VNull | VUndef
  | VDate millis | VOid string
  | VArr "jsval list" | VObj "(string \<times> jsval) list"

text \<open>The characters with an escape of their own; the other control characters are written in hexadecimal.\<close>

definition short_escape :: "char \<Rightarrow> char option" where
  "short_escape c =
     map_of [(CHR 0x22, CHR 0x22), (CHR 0x5C, CHR 0x5C), (CHR 0x08, CHR ''b''), (CHR 0x09, CHR ''t''),
             (CHR 0x0A, CHR ''n''), (CHR 0x0C, CHR ''f''), (CHR 0x0D, CHR ''r'')] c"

definition escape_char :: "char \<Rightarrow> string" where
  "escape_char c =
     (case short_escape c of
        Some l \<Rightarrow> [CHR 0x5C, l]
      | None \<Rightarrow> if code c < 32 then [CHR 0x5C, CHR ''u'', CHR ''0'', CHR ''0'', digit_char (code c div 16), digit_char (code c mod 16)]
               else [c])"

definition json_quote :: "string \<Rightarrow> string" where
  "json_quote s = CHR 0x22 # concat (map escape_char s) @ [CHR 0x22]"

fun is_undef :: "jsval \<Rightarrow> bool" where
  "is_undef VUndef = True"
| "is_undef _ = False"

fun json_num :: "(jsnum \<Rightarrow> string) \<Rightarrow> jsnum \<Rightarrow> string" where
  "json_num num (Fin q) = num (Fin q)"
| "json_num num _ = ''null''"

fun JSON_stringify :: "(jsnum \<Rightarrow> string) \<Rightarrow> jsval \<Rightarrow> string" where
  "JSON_stringify num (VStr s) = json_quote s"
| "JSON_stringify num (VNum x) = json_num num x"
| "JSON_stringify num (VBool b) = (if b then ''true'' else ''false'')"
| "JSON_stringify num VNull = ''null''"
| "JSON_stringify num VUndef = ''null''"
| "JSON_stringify num (VDate t) = json_quote (toISOString t)"
| "JSON_stringify num (VOid h) = json_quote h"
| "JSON_stringify num (VArr vs) = ''['' @ join '','' (map (JSON_stringify num) vs) @ '']''"
| "JSON_stringify num (VObj kvs) =
     ''{'' @ join '','' (map (\<lambda>(k, t). json_quote k @ '':'' @ t)
        (map (\<lambda>(k, v). (k, JSON_stringify num v)) (filter (\<lambda>(k, v). \<not> is_undef v) kvs))) @ ''}''"

text \<open>The values that come out of \<^verbatim>\<open>JSON.parse\<close>: no dates, ObjectIds, undefined values or numbers that are not finite.\<close>

fun plain :: "jsval \<Rightarrow> bool" where
  "plain (VStr s) = True"
| "plain (VNum x) = is_finite x"
| "plain (VBool b) = True"
| "plain VNull = True"
| "plain (VArr vs) = (\<forall>v \<in> set vs. plain v)"
| "plain (VObj kvs) = (\<forall>kv \<in> set kvs. plain (snd kv))"
| "plain _ = False"

definition delimiters :: "char set" where
  "delimiters = {CHR '','', CHR '']'', CHR ''}''}"

definition number_text :: "(jsnum \<Rightarrow> string) \<Rightarrow> bool" where
  "number_text num \<longleftrightarrow>
     (\<forall>q. num (Fin q) \<noteq> [] \<and> set (num (Fin q)) \<inter> delimiters = {}
        \<and> hd (num (Fin q)) \<notin> {CHR 0x22, CHR ''['', CHR ''{'', CHR ''t'', CHR ''f'', CHR ''n''})
     \<and> inj (\<lambda>q. num (Fin q))"

subsection \<open>Strings\<close>

lemma short_escape_inj: "short_escape c = Some l \<Longrightarrow> short_escape d = Some l \<Longrightarrow> c = d"
  by (auto simp: short_escape_def split: if_splits)

lemma short_escape_not_u: "short_escape c \<noteq> Some (CHR ''u'')"
  by (auto simp: short_escape_def split: if_splits)

lemma short_escape_special: "short_escape c = None \<Longrightarrow> c \<noteq> CHR 0x22 \<and> c \<noteq> CHR 0x5C"
  by (auto simp: short_escape_def split: if_splits)

lemma digit_char_inj: "digit_char a = digit_char b \<Longrightarrow> a < 16 \<Longrightarrow> b < 16 \<Longrightarrow> a = b"
  by (metis digit_val_digit_char)

lemma code_halves:
  assumes "digit_char (code c div 16) = digit_char (code d div 16)" "digit_char (code c mod 16) = digit_char (code d mod 16)"
  shows "c = d"
proof -
  have "code c < 256" "code d < 256" by (rule nat_of_char_less_256)+
  then have "code c div 16 = code d div 16" "code c mod 16 = code d mod 16"
    using assms by (auto intro!: digit_char_inj simp: less_mult_imp_div_less)
  then have "code c = code d" by (metis div_mult_mod_eq)
  then show ?thesis by simp
qed

lemma escape_char_prefix: "escape_char c @ s = escape_char d @ t \<Longrightarrow> c = d \<and> s = t"
  by (auto simp: escape_char_def split: option.splits if_splits
      dest: short_escape_inj short_escape_special code_halves)
    (metis short_escape_not_u short_escape_special)+

lemma escape_char_no_quote: "escape_char c @ s \<noteq> CHR 0x22 # t"
  by (auto simp: escape_char_def split: option.splits if_splits dest: short_escape_special)

lemma json_quote_prefix: "json_quote a @ s = json_quote b @ t \<Longrightarrow> a = b \<and> s = t"
proof (induction a arbitrary: b)
  case Nil
  then show ?case using escape_char_no_quote by (cases b) (auto simp: json_quote_def dest: sym)
next
  case (Cons c a)
  then show ?case
  proof (cases b)
    case Nil
    then show ?thesis using Cons.prems escape_char_no_quote by (auto simp: json_quote_def)
  next
    case (Cons d b')
    with \<open>json_quote (c # a) @ s = json_quote b @ t\<close>
    have "escape_char c @ (concat (map escape_char a) @ CHR 0x22 # s)
        = escape_char d @ (concat (map escape_char b') @ CHR 0x22 # t)"
      by (simp add: json_quote_def)
    from escape_char_prefix [OF this] have "c = d" and "json_quote a @ s = json_quote b' @ t"
      by (simp_all add: json_quote_def)
    with Cons.IH [of b'] Cons show ?thesis by simp
  qed
qed

subsection \<open>The text of a plain value determines it\<close>

abbreviation at_end :: "string \<Rightarrow> bool" where
  "at_end s \<equiv> s = [] \<or> hd s \<in> delimiters"

text \<open>A text of a number ends where a delimiter stands.\<close>

lemma text_before_delimiter:
  assumes "set a \<inter> delimiters = {}" "set b \<inter> delimiters = {}" "at_end s" "at_end t" "a @ s = b @ t"
  shows "a = b \<and> s = t"
  using assms
proof (induction a arbitrary: b)
  case Nil
  then show ?case by (cases b) auto
next
  case (Cons x a)
  then show ?case by (cases b) auto
qed

lemma json_num_prefix:
  assumes "number_text num" and "at_end s" and "at_end t" and "num (Fin p) @ s = num (Fin q) @ t"
  shows "p = q \<and> s = t"
proof -
  have "num (Fin p) = num (Fin q) \<and> s = t"
    using assms unfolding number_text_def by (intro text_before_delimiter) auto
  moreover have "inj (\<lambda>q. num (Fin q))" using assms(1) by (simp add: number_text_def)
  ultimately show ?thesis by (auto dest: injD)
qed

text \<open>
  A printer of elements, and what a list of its texts needs of it: the texts are not empty and
  start with no delimiter, and an element's text determines it where the text ends.
\<close>

locale element_text =
  fixes text_of :: "'a \<Rightarrow> string" and ok :: "'a \<Rightarrow> bool"
  assumes starts: "ok v \<Longrightarrow> text_of v \<noteq> [] \<and> hd (text_of v) \<notin> delimiters"
begin

definition determines :: "'a \<Rightarrow> bool" where
  "determines v \<longleftrightarrow> (\<forall>w s t. ok w \<longrightarrow> at_end s \<longrightarrow> at_end t \<longrightarrow> text_of v @ s = text_of w @ t \<longrightarrow> v = w \<and> s = t)"

lemma determinesD:
  "determines v \<Longrightarrow> ok w \<Longrightarrow> at_end s \<Longrightarrow> at_end t \<Longrightarrow> text_of v @ s = text_of w @ t \<Longrightarrow> v = w \<and> s = t"
  unfolding determines_def by blast

lemma join_starts:
  assumes "ok v"
  shows "join '','' (map text_of (v # vs)) @ s \<noteq> [] \<and> hd (join '','' (map text_of (v # vs)) @ s) \<notin> delimiters"
  using starts [OF assms] by (cases vs) (simp_all add: join_Cons)

lemma join_prefix:
  assumes "\<forall>v \<in> set vs. ok v \<and> determines v" "\<forall>w \<in> set ws. ok w" "c \<in> delimiters"
    and "c \<noteq> CHR '',''"
    and "join '','' (map text_of vs) @ c # s = join '','' (map text_of ws) @ c # t"
  shows "vs = ws \<and> s = t"
  using assms
proof (induction vs arbitrary: ws)
  case Nil
  then show ?case using join_starts [of "hd ws" "tl ws" "c # t"] by (cases ws) (auto dest!: arg_cong [of "c # s" _ hd])
next
  case (Cons v vs)
  then obtain w ws' where ws: "ws = w # ws'"
    using join_starts [of v vs "c # s"] by (cases ws) auto
  define rest where "rest us u = (if us = [] then c # u else CHR '','' # join '','' (map text_of us) @ c # u)" for us u
  have "join '','' (map text_of (x # us)) @ c # u = text_of x @ rest us u" for x us u
    by (auto simp: rest_def join_Cons)
  with Cons.prems(5) ws have "text_of v @ rest vs s = text_of w @ rest ws' t" by simp
  moreover have "at_end (rest us u)" for us u using Cons.prems(3) by (auto simp: rest_def delimiters_def)
  ultimately have "v = w \<and> rest vs s = rest ws' t"
    using Cons.prems(1,2) ws by (intro determinesD) simp_all
  moreover from this have "vs = [] \<longleftrightarrow> ws' = []" using Cons.prems(4) by (simp add: rest_def split: if_splits)
  ultimately show ?case
    using Cons.IH [of ws'] Cons.prems(1-4) ws by (cases "vs = []") (simp_all add: rest_def)
qed

end

definition entry_text :: "(jsnum \<Rightarrow> string) \<Rightarrow> string \<times> jsval \<Rightarrow> string" where
  "entry_text num kv = json_quote (fst kv) @ '':'' @ JSON_stringify num (snd kv)"

lemma plain_not_undef: "plain v \<Longrightarrow> \<not> is_undef v"
  by (cases v) auto

lemma stringify_plain_obj:
  assumes "plain (VObj kvs)"
  shows "JSON_stringify num (VObj kvs) = ''{'' @ join '','' (map (entry_text num) kvs) @ ''}''"
proof -
  have "filter (\<lambda>(k, v). \<not> is_undef v) kvs = kvs"
    using assms plain_not_undef by (auto simp: filter_id_conv)
  moreover have "entry_text num = (\<lambda>(k, v). json_quote k @ '':'' @ JSON_stringify num v)"
    by (auto simp: entry_text_def)
  ultimately show ?thesis by (simp add: comp_def case_prod_unfold)
qed

lemma stringify_starts:
  "number_text num \<Longrightarrow> plain v \<Longrightarrow> JSON_stringify num v \<noteq> [] \<and> hd (JSON_stringify num v) \<notin> delimiters"
proof (cases v)
  case (VNum x)
  assume "number_text num" "plain v"
  with VNum show ?thesis using hd_in_set by (cases x) (auto simp: number_text_def)
qed (auto simp: json_quote_def delimiters_def)

lemma entry_starts: "entry_text num kv \<noteq> [] \<and> hd (entry_text num kv) \<notin> delimiters"
  by (simp add: entry_text_def json_quote_def delimiters_def)

definition printable :: "(jsnum \<Rightarrow> string) \<Rightarrow> jsval \<Rightarrow> bool" where
  "printable num v \<longleftrightarrow> number_text num \<and> plain v"

lemma printableI: "number_text num \<Longrightarrow> plain v \<Longrightarrow> printable num v"
  by (simp add: printable_def)

interpretation vals: element_text "JSON_stringify num" "printable num" for num
  by unfold_locales (simp add: stringify_starts printable_def)

interpretation entries: element_text "entry_text num" "\<lambda>kv. printable num (snd kv)" for num
  by unfold_locales (simp add: entry_starts)

lemma entry_determines:
  assumes "vals.determines num (snd kv)"
  shows "entries.determines num kv"
  unfolding entries.determines_def
proof (intro allI impI)
  fix kw s t
  assume ok: "printable num (snd kw)" and ends: "at_end s" "at_end t"
    and same: "entry_text num kv @ s = entry_text num kw @ t"
  then have "json_quote (fst kv) @ ('':'' @ JSON_stringify num (snd kv) @ s)
      = json_quote (fst kw) @ ('':'' @ JSON_stringify num (snd kw) @ t)"
    by (simp add: entry_text_def)
  from json_quote_prefix [OF this] have key: "fst kv = fst kw"
    and "JSON_stringify num (snd kv) @ s = JSON_stringify num (snd kw) @ t" by simp_all
  with vals.determinesD [OF assms ok ends] show "kv = kw \<and> s = t" by (simp add: prod_eq_iff)
qed

lemma hd_append_eq: "a @ s = b @ t \<Longrightarrow> a \<noteq> [] \<Longrightarrow> b \<noteq> [] \<Longrightarrow> hd a = hd b"
  by (cases a; cases b) auto

text \<open>The first character tells the constructors apart.\<close>

fun kind :: "jsval \<Rightarrow> nat" where
  "kind (VStr _) = 0"
| "kind (VNum _) = 1"
| "kind (VBool b) = (if b then 2 else 3)"
| "kind (VArr _) = 4"
| "kind (VObj _) = 5"
| "kind _ = 6"

definition first_char :: "(jsnum \<Rightarrow> string) \<Rightarrow> jsval \<Rightarrow> char" where
  "first_char num v = hd (JSON_stringify num v)"

lemma first_char_kind:
  assumes "number_text num" and "plain v"
  shows "kind v = 0 \<and> first_char num v = CHR 0x22 \<or> kind v = 2 \<and> first_char num v = CHR ''t''
    \<or> kind v = 3 \<and> first_char num v = CHR ''f'' \<or> kind v = 6 \<and> first_char num v = CHR ''n''
    \<or> kind v = 4 \<and> first_char num v = CHR ''['' \<or> kind v = 5 \<and> first_char num v = CHR ''{''
    \<or> kind v = 1 \<and> first_char num v \<notin> {CHR 0x22, CHR ''['', CHR ''{'', CHR ''t'', CHR ''f'', CHR ''n''}"
proof (cases v)
  case (VNum x)
  with assms show ?thesis by (cases x) (auto simp: first_char_def number_text_def)
qed (use assms in \<open>auto simp: first_char_def json_quote_def\<close>)

lemma same_kind:
  assumes "number_text num" "plain v" "plain w" "JSON_stringify num v @ s = JSON_stringify num w @ t"
  shows "kind v = kind w"
proof -
  have "first_char num v = first_char num w"
    unfolding first_char_def using hd_append_eq [OF assms(4)] stringify_starts assms by blast
  with first_char_kind [OF assms(1,2)] first_char_kind [OF assms(1,3)] show ?thesis by auto
qed

lemma stringify_determines:
  assumes "number_text num"
  shows "plain v \<Longrightarrow> vals.determines num v"
proof (induction v)
  case (VStr a)
  show ?case
    unfolding vals.determines_def
  proof (intro allI impI)
    fix w s t
    assume "printable num w" and same: "JSON_stringify num (VStr a) @ s = JSON_stringify num w @ t"
    then have ok: "plain w" by (simp add: printable_def)
    have "kind w = 0" using same_kind [OF assms _ _ same] ok by simp
    then obtain b where "w = VStr b" by (cases w) (auto split: if_splits)
    with same json_quote_prefix [of a s b t] show "VStr a = w \<and> s = t" by simp
  qed
next
  case (VNum x)
  then obtain p where x: "x = Fin p" by (cases x) auto
  show ?case
    unfolding vals.determines_def
  proof (intro allI impI)
    fix w s t
    assume "printable num w" and ends: "at_end s" "at_end t"
      and same: "JSON_stringify num (VNum x) @ s = JSON_stringify num w @ t"
    then have ok: "plain w" by (simp add: printable_def)
    have "kind w = 1" using same_kind [OF assms VNum.prems _ same] ok by simp
    then obtain y where "w = VNum y" by (cases w) (auto split: if_splits)
    moreover from this ok obtain q where "y = Fin q" by (cases y) auto
    ultimately show "VNum x = w \<and> s = t"
      using same x json_num_prefix [OF assms ends] by simp
  qed
next
  case (VArr vs)
  have elements: "\<forall>v \<in> set vs. printable num v \<and> vals.determines num v"
    using VArr printableI [OF assms] by auto
  show ?case
    unfolding vals.determines_def
  proof (intro allI impI)
    fix w s t
    assume "printable num w" and same: "JSON_stringify num (VArr vs) @ s = JSON_stringify num w @ t"
    then have ok: "plain w" by (simp add: printable_def)
    have "kind w = 4" using same_kind [OF assms VArr.prems _ same] ok by simp
    then obtain ws where w: "w = VArr ws" by (cases w) (auto split: if_splits)
    with same have "join '','' (map (JSON_stringify num) vs) @ CHR '']'' # s
        = join '','' (map (JSON_stringify num) ws) @ CHR '']'' # t" by simp
    from vals.join_prefix [OF elements _ _ _ this] ok w assms show "VArr vs = w \<and> s = t"
      by (simp add: delimiters_def printable_def)
  qed
next
  case (VObj kvs)
  have elements: "\<forall>kv \<in> set kvs. printable num (snd kv) \<and> entries.determines num kv"
    using VObj printableI [OF assms] by (auto intro!: entry_determines simp: snds.simps)
  show ?case
    unfolding vals.determines_def
  proof (intro allI impI)
    fix w s t
    assume "printable num w" and same: "JSON_stringify num (VObj kvs) @ s = JSON_stringify num w @ t"
    then have ok: "plain w" by (simp add: printable_def)
    have "kind w = 5" using same_kind [OF assms VObj.prems _ same] ok by simp
    then obtain kws where w: "w = VObj kws" by (cases w) (auto split: if_splits)
    with same ok have "join '','' (map (entry_text num) kvs) @ CHR ''}'' # s
        = join '','' (map (entry_text num) kws) @ CHR ''}'' # t"
      using stringify_plain_obj [OF VObj.prems] stringify_plain_obj [of kws] by simp
    from entries.join_prefix [OF elements _ _ _ this] ok w assms show "VObj kvs = w \<and> s = t"
      by (simp add: delimiters_def printable_def)
  qed
next
  case (VBool b)
  show ?case
    unfolding vals.determines_def
  proof (intro allI impI)
    fix w s t
    assume "printable num w" and same: "JSON_stringify num (VBool b) @ s = JSON_stringify num w @ t"
    then have ok: "plain w" by (simp add: printable_def)
    have "kind w = (if b then 2 else 3)" using same_kind [OF assms _ _ same] ok by simp
    then have "w = VBool b" by (cases w) (auto split: if_splits)
    with same show "VBool b = w \<and> s = t" by (simp split: if_splits)
  qed
next
  case VNull
  show ?case
    unfolding vals.determines_def
  proof (intro allI impI)
    fix w s t
    assume "printable num w" and same: "JSON_stringify num VNull @ s = JSON_stringify num w @ t"
    then have ok: "plain w" by (simp add: printable_def)
    have "kind w = 6" using same_kind [OF assms _ _ same] ok by simp
    then have "w = VNull" using ok by (cases w) (auto split: if_splits)
    with same show "VNull = w \<and> s = t" by simp
  qed
qed simp_all

lemma stringify_inj:
  "number_text num \<Longrightarrow> plain v \<Longrightarrow> plain w \<Longrightarrow> JSON_stringify num v = JSON_stringify num w \<Longrightarrow> v = w"
  using vals.determinesD [OF stringify_determines, of num v w "[]" "[]"] by (simp add: printable_def)

end
