(* ===== verification/Idempotency.thy ===== *)
theory Idempotency
  imports JS_Json "HOL-Library.List_Lexorder" "HOL-Library.Char_ord" "HOL-Library.Multiset"
begin

section \<open>Idempotent requests\<close>

text \<open>
  The derivation of keys and fingerprints (\<^verbatim>\<open>backend/src/utils/idempotencyKey.js\<close>), the store of
  results (\<^verbatim>\<open>backend/src/services/idempotencyStore.js\<close>) and the middleware that decides what to do with
  a request (\<^verbatim>\<open>backend/src/middleware/idempotency.js\<close>), with the conversion into a local currency that a
  replay makes again (\<^verbatim>\<open>backend/src/services/currencyConversionService.js\<close>). The collection in MongoDB is a map from keys
  to records, its unique index being that the map has one record per key; the Redis cache in front
  of it is a second map, or absent. The rates that the price feeds give at a time, with the decimal arithmetic of the
  library, are in the record \<open>currency_env\<close>. The hash function is the parameter \<open>sha256\<close>, and the version
  of the application the parameter \<open>version\<close>.
\<close>

subsection \<open>Keys and fingerprints\<close>

text \<open>A parsed body. How a primitive value is printed by \<^verbatim>\<open>JSON.stringify\<close> is the parameter \<open>prim\<close>.\<close>

datatype 'p json = JPrim 'p | JNull | JArr "'p json list" | JObj "(string \<times> 'p json) list"

text \<open>The values are made canonical where they stand, and the entries put in the order of their keys.\<close>

fun canonicalize :: "('p \<Rightarrow> string) \<Rightarrow> (string \<Rightarrow> string) \<Rightarrow> 'p json \<Rightarrow> string" where
  "canonicalize prim quote (JPrim p) = prim p"
| "canonicalize prim quote JNull = ''null''"
| "canonicalize prim quote (JArr xs) = ''['' @ join '','' (map (canonicalize prim quote) xs) @ '']''"
| "canonicalize prim quote (JObj kvs) =
     ''{'' @ join '','' (map (\<lambda>(k, s). quote k @ '':'' @ s)
        (sort_key fst (map (\<lambda>(k, v). (k, canonicalize prim quote v)) kvs))) @ ''}''"

definition fingerprintRequest ::
  "(string \<Rightarrow> string) \<Rightarrow> ('p \<Rightarrow> string) \<Rightarrow> (string \<Rightarrow> string) \<Rightarrow> 'p json option \<Rightarrow> string" where
  "fingerprintRequest sha256 prim quote body =
     sha256 (case body of None \<Rightarrow> ''null'' | Some b \<Rightarrow> canonicalize prim quote b)"

definition normalizeClientKey :: "string option \<Rightarrow> string option" where
  "normalizeClientKey rawKey =
     (case rawKey of None \<Rightarrow> None | Some k \<Rightarrow> let str = trim k in if length str > 0 then Some str else None)"

definition deriveIdempotencyKey :: "(string \<Rightarrow> string) \<Rightarrow> string option \<Rightarrow> string option \<Rightarrow> string option" where
  "deriveIdempotencyKey sha256 rawKey scope =
     (case normalizeClientKey rawKey of
        None \<Rightarrow> None
      | Some clientKey \<Rightarrow>
          let normalizedScope = (case scope of None \<Rightarrow> [] | Some s \<Rightarrow> trim s)
          in Some (sha256 (normalizedScope @ [CHR 0x0A] @ clientKey)))"

subsection \<open>The store\<close>

datatype idem_state = In_progress | Completed

record 'b idem_record =
  id_state :: idem_state
  id_fingerprint :: "string option"
  id_status :: "int option"
  id_body :: "'b option"
  id_version :: "string option"
  id_createdAt :: millis

text \<open>What the cache holds: a completed result, which may lack its state when \<^verbatim>\<open>get\<close> or \<^verbatim>\<open>set\<close> wrote it.\<close>

record 'b cached_record =
  ca_completed :: bool
  ca_fingerprint :: "string option"
  ca_status :: "int option"
  ca_body :: "'b option"
  ca_version :: "string option"

record 'b idem_store =
  mongo :: "string \<rightharpoonup> 'b idem_record"
  redis_cache :: "(string \<rightharpoonup> 'b cached_record) option"

definition redisGet :: "string \<Rightarrow> 'b idem_store \<Rightarrow> 'b cached_record option" where
  "redisGet key st = (case redis_cache st of None \<Rightarrow> None | Some c \<Rightarrow> c key)"

definition redisSet :: "string \<Rightarrow> 'b cached_record \<Rightarrow> 'b idem_store \<Rightarrow> 'b idem_store" where
  "redisSet key r st = st\<lparr>redis_cache := map_option (\<lambda>c. c(key \<mapsto> r)) (redis_cache st)\<rparr>"

definition delete_key :: "string \<Rightarrow> 'b idem_store \<Rightarrow> 'b idem_store" where
  "delete_key key st = st\<lparr>mongo := (mongo st)(key := None)\<rparr>"

text \<open>A stored version that is present and not the current one.\<close>

definition stale_version :: "string \<Rightarrow> string option \<Rightarrow> bool" where
  "stale_version version v \<longleftrightarrow> v \<noteq> None \<and> v \<noteq> Some [] \<and> v \<noteq> Some version"

definition store_get :: "string \<Rightarrow> string \<Rightarrow> 'b idem_store \<Rightarrow> 'b idem_store \<times> 'b cached_record option" where
  "store_get version key st =
     (if key = [] then (st, None)
      else case redisGet key st of
        Some c \<Rightarrow> if stale_version version (ca_version c) then (delete_key key st, None) else (st, Some c)
      | None \<Rightarrow>
          (case mongo st key of
             None \<Rightarrow> (st, None)
           | Some r \<Rightarrow>
               if stale_version version (id_version r) then (delete_key key st, None)
               else let result = \<lparr>ca_completed = False, ca_fingerprint = None, ca_status = id_status r,
                                  ca_body = id_body r, ca_version = id_version r\<rparr>
                    in (redisSet key result st, Some result)))"

definition store_set ::
  "string \<Rightarrow> string \<Rightarrow> int option \<Rightarrow> 'b option \<Rightarrow> millis \<Rightarrow> 'b idem_store \<Rightarrow> 'b idem_store" where
  "store_set version key st_code body now st =
     (if key = [] then st
      else
        let st1 = (if mongo st key = None
                   then st\<lparr>mongo := (mongo st)(key \<mapsto>
                     \<lparr>id_state = Completed, id_fingerprint = None, id_status = st_code, id_body = body,
                      id_version = Some version, id_createdAt = now\<rparr>)\<rparr>
                   else st)
        in redisSet key \<lparr>ca_completed = False, ca_fingerprint = None, ca_status = st_code,
                         ca_body = body, ca_version = Some version\<rparr> st1)"

definition getFull ::
  "string \<Rightarrow> string \<Rightarrow> millis \<Rightarrow> 'b idem_store \<Rightarrow> 'b idem_store \<times> 'b idem_record option" where
  "getFull version key now st =
     (if key = [] then (st, None)
      else
        let from_mongo =
          (case mongo st key of
             None \<Rightarrow> (st, None)
           | Some r \<Rightarrow> if stale_version version (id_version r) then (delete_key key st, None) else (st, Some r))
        in case redisGet key st of
             None \<Rightarrow> from_mongo
           | Some c \<Rightarrow>
               if \<not> ca_completed c then from_mongo
               else if stale_version version (ca_version c) then (delete_key key st, None)
               else (st, Some \<lparr>id_state = Completed, id_fingerprint = ca_fingerprint c,
                               id_status = ca_status c, id_body = ca_body c, id_version = ca_version c,
                               id_createdAt = now\<rparr>))"

definition reservation_of :: "string option \<Rightarrow> millis \<Rightarrow> 'b idem_record" where
  "reservation_of fingerprint now =
     \<lparr>id_state = In_progress, id_fingerprint = fingerprint, id_status = None, id_body = None,
      id_version = None, id_createdAt = now\<rparr>"

datatype 'b reservation = Reserved | NotReserved "'b idem_record option"

text \<open>
  \<^verbatim>\<open>reserve\<close>, without another client in between; the second attempt to create the record happens when
  the first found a record that \<^verbatim>\<open>getFull\<close> then did not return.
\<close>

definition reserve ::
  "int \<Rightarrow> string \<Rightarrow> string \<Rightarrow> string option \<Rightarrow> millis \<Rightarrow> 'b idem_store \<Rightarrow> 'b idem_store \<times> 'b reservation" where
  "reserve inFlightTtl version key fingerprint now st =
     (if key = [] then (st, NotReserved None)
      else if mongo st key = None
      then (st\<lparr>mongo := (mongo st)(key \<mapsto> reservation_of fingerprint now)\<rparr>, Reserved)
      else
        let (st1, existing) = getFull version key now st in
        case existing of
          None \<Rightarrow>
            if mongo st1 key = None
            then (st1\<lparr>mongo := (mongo st1)(key \<mapsto> reservation_of fingerprint now)\<rparr>, Reserved)
            else (let (st2, r) = getFull version key now st1 in (st2, NotReserved r))
        | Some r \<Rightarrow>
            if id_state r = In_progress \<and> now - id_createdAt r \<ge> inFlightTtl then
              (case mongo st1 key of
                 Some m \<Rightarrow>
                   if id_state m = In_progress
                   then (st1\<lparr>mongo := (mongo st1)(key \<mapsto>
                           m\<lparr>id_fingerprint := fingerprint, id_createdAt := now\<rparr>)\<rparr>, Reserved)
                   else (let (st2, r') = getFull version key now st1 in (st2, NotReserved r'))
               | None \<Rightarrow> (let (st2, r') = getFull version key now st1 in (st2, NotReserved r')))
            else (st1, NotReserved (Some r)))"

definition complete_key ::
  "string \<Rightarrow> string \<Rightarrow> string option \<Rightarrow> int \<Rightarrow> 'b option \<Rightarrow> millis \<Rightarrow> 'b idem_store \<Rightarrow> 'b idem_store" where
  "complete_key version key fingerprint st_code body now st =
     (if key = [] then st
      else
        let created = (case mongo st key of None \<Rightarrow> now | Some r \<Rightarrow> id_createdAt r);
            fp = (if fingerprint = Some [] then None else fingerprint);
            st1 = st\<lparr>mongo := (mongo st)(key \<mapsto>
              \<lparr>id_state = Completed, id_fingerprint = fp, id_status = Some st_code, id_body = body,
               id_version = Some version, id_createdAt = created\<rparr>)\<rparr>
        in redisSet key \<lparr>ca_completed = True, ca_fingerprint = fp, ca_status = Some st_code,
                         ca_body = body, ca_version = Some version\<rparr> st1)"

definition release_key :: "string \<Rightarrow> 'b idem_store \<Rightarrow> 'b idem_store" where
  "release_key key st =
     (case mongo st key of
        Some r \<Rightarrow> if key \<noteq> [] \<and> id_state r = In_progress then delete_key key st else st
      | None \<Rightarrow> st)"

subsection \<open>Conversion into a local currency\<close>

definition CURRENCY_DECIMALS :: "(string \<times> nat) list" where
  "CURRENCY_DECIMALS =
     map (\<lambda>c. (c, 0)) [''BIF'', ''CLP'', ''DJF'', ''GNF'', ''ISK'', ''JPY'', ''KMF'', ''KRW'', ''MGA'', ''PYG'', ''RWF'',
       ''UGX'', ''VND'', ''VUV'', ''XAF'', ''XOF'', ''XPF''] @
     map (\<lambda>c. (c, 3)) [''BHD'', ''IQD'', ''JOD'', ''KWD'', ''LYD'', ''OMR'', ''TND'']"

text \<open>The rates of a currency, \<open>None\<close> for what is not a number, and when they were fetched.\<close>

record rate_entry =
  re_xlm :: "jsnum option"
  re_usdc :: "jsnum option"
  re_fetchedAt :: millis

text \<open>
  The allowed currencies; what \<^verbatim>\<open>getRates\<close> answers at a time, \<open>None\<close> if it throws and \<open>Some None\<close> if it has no rates;
  and the product of two numbers rounded half up to some places by \<^verbatim>\<open>decimal.js\<close>.
\<close>

record currency_env =
  allowed_currency :: "string \<Rightarrow> bool"
  getRates :: "millis \<Rightarrow> string \<Rightarrow> rate_entry option option"
  times_rounded :: "nat \<Rightarrow> jsnum \<Rightarrow> jsnum \<Rightarrow> jsnum"

definition decimalMultiply :: "currency_env \<Rightarrow> jsnum \<Rightarrow> jsnum \<Rightarrow> string \<Rightarrow> jsnum" where
  "decimalMultiply C amount rate currency =
     times_rounded C (case map_of CURRENCY_DECIMALS (toUpperCase currency) of Some dp \<Rightarrow> dp | None \<Rightarrow> 2) amount rate"

record conversion =
  cv_localAmount :: "jsnum option"
  cv_currency :: string
  cv_rate :: "jsnum option"
  cv_rateTimestamp :: "string option"
  cv_available :: bool

text \<open>\<open>None\<close> when the promise is rejected.\<close>

definition convertToLocalCurrency :: "currency_env \<Rightarrow> millis \<Rightarrow> jsnum \<Rightarrow> string \<Rightarrow> string \<Rightarrow> conversion option" where
  "convertToLocalCurrency C now amount assetCode targetCurrency =
     (let currency = toUpperCase targetCurrency;
          missing = (\<lambda>ts. \<lparr>cv_localAmount = None, cv_currency = currency, cv_rate = None, cv_rateTimestamp = ts, cv_available = False\<rparr>)
      in if \<not> allowed_currency C currency then Some (missing None)
         else case getRates C now currency of
           None \<Rightarrow> None
         | Some None \<Rightarrow> Some (missing None)
         | Some (Some entry) \<Rightarrow>
             let ts = Some (toISOString (re_fetchedAt entry)) in
             (case if assetCode = ''USDC'' then re_usdc entry else re_xlm entry of
                None \<Rightarrow> Some (missing ts)
              | Some rate \<Rightarrow>
                  if jleq rate (Fin 0) then Some (missing ts)
                  else Some \<lparr>cv_localAmount = Some (decimalMultiply C amount rate currency), cv_currency = currency,
                             cv_rate = Some rate, cv_rateTimestamp = ts, cv_available = True\<rparr>))"

subsection \<open>The middleware\<close>

text \<open>
  The fields of a stored body that a replay computes again. A body is \<open>None\<close> when nothing was captured. An asset
  code that is not a text counts as lumens, as every code but one does.
\<close>

definition num_or_null :: "jsnum option \<Rightarrow> jsval" where
  "num_or_null x = (case x of Some n \<Rightarrow> VNum n | None \<Rightarrow> VNull)"

definition text_or_null :: "string option \<Rightarrow> jsval" where
  "text_or_null x = (case x of Some t \<Rightarrow> VStr t | None \<Rightarrow> VNull)"

definition fresh_currency :: "conversion \<Rightarrow> jsval" where
  "fresh_currency f =
     VObj [(''amount'', if cv_available f then num_or_null (cv_localAmount f) else VNull), (''currency'', VStr (cv_currency f)),
           (''rate'', num_or_null (cv_rate f)), (''rateTimestamp'', text_or_null (cv_rateTimestamp f)),
           (''available'', VBool (cv_available f))]"

definition asset_of_body :: "(string \<times> jsval) list \<Rightarrow> string" where
  "asset_of_body kvs =
     (case map_of kvs ''assetCode'' of Some (VStr a) \<Rightarrow> if a = [] then ''XLM'' else a | _ \<Rightarrow> ''XLM'')"

text \<open>The currency that is asked for: a nonempty text; any other value fails and leaves the body as it is.\<close>

definition currency_of_body :: "(string \<times> jsval) list \<Rightarrow> string option" where
  "currency_of_body kvs =
     (case map_of kvs ''localCurrency'' of
        Some (VObj lc) \<Rightarrow> (case map_of lc ''currency'' of Some (VStr c) \<Rightarrow> if c = [] then None else Some c | _ \<Rightarrow> None)
      | _ \<Rightarrow> None)"

definition refreshVolatileFields :: "currency_env \<Rightarrow> millis \<Rightarrow> jsval option \<Rightarrow> jsval option" where
  "refreshVolatileFields C now body =
     (case body of
        Some (VObj kvs) \<Rightarrow>
          (case (currency_of_body kvs, map_of kvs ''amount'') of
             (Some currency, Some (VNum amount)) \<Rightarrow>
               (case convertToLocalCurrency C now amount (asset_of_body kvs) currency of
                  None \<Rightarrow> body
                | Some fresh \<Rightarrow>
                    Some (VObj (map (\<lambda>(k, v). if k = ''localCurrency'' then (k, fresh_currency fresh) else (k, v)) kvs)))
           | _ \<Rightarrow> body)
      | _ \<Rightarrow> body)"

text \<open>
  What becomes of a request: it runs, or it is answered without running. When no
  record is found after a lost race, the code neither answers nor runs the request. The scope of a
  record, which is stored for debugging and never read, is left out.
\<close>

datatype decision =
    Execute | Replay "int option" "jsval option" | Key_reuse | In_flight | Missing_key | Unavailable | Unanswered

fun resolveExisting :: "currency_env \<Rightarrow> millis \<Rightarrow> string \<Rightarrow> jsval idem_record option \<Rightarrow> decision" where
  "resolveExisting C now fingerprint None = Unanswered"
| "resolveExisting C now fingerprint (Some r) =
     (if id_state r = Completed then
        (if id_fingerprint r \<noteq> None \<and> id_fingerprint r \<noteq> Some [] \<and> id_fingerprint r \<noteq> Some fingerprint
         then Key_reuse
         else Replay (id_status r) (refreshVolatileFields C now (id_body r)))
      else In_flight)"

definition claim_key ::
  "currency_env \<Rightarrow> int \<Rightarrow> string \<Rightarrow> string \<Rightarrow> string \<Rightarrow> millis \<Rightarrow> jsval idem_store \<Rightarrow> jsval idem_store \<times> decision" where
  "claim_key C inFlightTtl version key fingerprint now st =
     (let (st1, rec) = getFull version key now st;
          claim = (let (st2, res) = reserve inFlightTtl version key (Some fingerprint) now st1 in
                   case res of
                     Reserved \<Rightarrow> (st2, Execute)
                   | NotReserved r \<Rightarrow> (st2, resolveExisting C now fingerprint r))
      in case rec of
           None \<Rightarrow> claim
         | Some r \<Rightarrow>
             if id_state r = In_progress \<and> now - id_createdAt r \<ge> inFlightTtl then claim
             else (st1, resolveExisting C now fingerprint (Some r)))"

text \<open>A request: its header, the school it belongs to, its URL and its body.\<close>

record 'p idem_request =
  rq_rawKey :: "string option"
  rq_schoolId :: "string option"
  rq_baseUrl :: string
  rq_path :: string
  rq_body :: "'p json option"

text \<open>What the middleware is given from outside: the hash function, the printing of primitive values and
  of field names, the two constants of the store, and the conversion of currencies.\<close>

record 'p idem_env =
  env_sha256 :: "string \<Rightarrow> string"
  env_prim :: "'p \<Rightarrow> string"
  env_quote :: "string \<Rightarrow> string"
  env_inFlightTtl :: int
  env_version :: string
  env_currency :: currency_env

definition request_scope :: "'p idem_request \<Rightarrow> string" where
  "request_scope rq =
     (case rq_schoolId rq of
        None \<Rightarrow> rq_path rq
      | Some s \<Rightarrow> if s = [] then rq_path rq else s @ '':'' @ rq_baseUrl rq @ rq_path rq)"

definition request_fingerprint :: "'p idem_env \<Rightarrow> 'p idem_request \<Rightarrow> string" where
  "request_fingerprint env rq = fingerprintRequest (env_sha256 env) (env_prim env) (env_quote env) (rq_body rq)"

definition request_key :: "'p idem_env \<Rightarrow> 'p idem_request \<Rightarrow> string option" where
  "request_key env rq = deriveIdempotencyKey (env_sha256 env) (rq_rawKey rq) (Some (request_scope rq))"

definition idempotencyMiddleware ::
  "'p idem_env \<Rightarrow> 'p idem_request \<Rightarrow> millis \<Rightarrow> jsval idem_store \<Rightarrow> jsval idem_store \<times> decision" where
  "idempotencyMiddleware env rq now st =
     (case request_key env rq of
        None \<Rightarrow> (st, Missing_key)
      | Some key \<Rightarrow>
          claim_key (env_currency env) (env_inFlightTtl env) (env_version env) key (request_fingerprint env rq) now st)"

text \<open>An operation of the store that throws: the request is refused or runs unprotected.\<close>

definition on_store_error :: "bool \<Rightarrow> bool \<Rightarrow> decision" where
  "on_store_error failClosed criticalPaymentEndpoints =
     (if failClosed \<or> criticalPaymentEndpoints then Unavailable else Execute)"

text \<open>The response of a request that ran has been sent, or its connection was closed before that. The
  flag is that of the closure: only the first of the two events has an effect.\<close>

definition completeReservation ::
  "string \<Rightarrow> string \<Rightarrow> string \<Rightarrow> int \<Rightarrow> 'b option \<Rightarrow> millis \<Rightarrow> bool \<times> 'b idem_store \<Rightarrow> bool \<times> 'b idem_store" where
  "completeReservation version key fingerprint statusCode body now s =
     (if fst s then s
      else (True,
        if statusCode < 500 \<and> statusCode \<noteq> 404
        then complete_key version key (Some fingerprint) statusCode body now (snd s)
        else release_key key (snd s)))"

definition releaseReservation :: "string \<Rightarrow> bool \<times> 'b idem_store \<Rightarrow> bool \<times> 'b idem_store" where
  "releaseReservation key s = (if fst s then s else (True, release_key key (snd s)))"

datatype res_event = Finish_event | Close_event (writableFinished: bool)

fun on_event ::
  "string \<Rightarrow> string \<Rightarrow> string \<Rightarrow> int \<Rightarrow> 'b option \<Rightarrow> millis \<Rightarrow> res_event \<Rightarrow> bool \<times> 'b idem_store \<Rightarrow> bool \<times> 'b idem_store" where
  "on_event version key fingerprint statusCode body now Finish_event s =
     completeReservation version key fingerprint statusCode body now s"
| "on_event version key fingerprint statusCode body now (Close_event finished) s =
     (if finished then completeReservation version key fingerprint statusCode body now s
      else releaseReservation key s)"

subsection \<open>Properties of fingerprints\<close>

lemma sort_key_perm:
  assumes "mset xs = mset ys" and "distinct (map f ys)"
  shows "sort_key f xs = sort_key f ys"
proof -
  have "map f (sort_key f zs) = sort (map f ys)" if "mset zs = mset ys" for zs
    using that by (intro properties_for_sort [symmetric]) simp_all
  then have "map f (sort_key f xs) = map f (sort_key f ys)" using assms(1) by simp
  moreover have "set (sort_key f xs) = set ys" "inj_on f (set ys)"
    using assms by (simp_all add: distinct_map) (metis set_mset_mset)
  ultimately show ?thesis by (intro map_inj_on [of f]) simp_all
qed

text \<open>The fingerprint of a request body does not depend on the order in which the fields of an object
  are sent.\<close>

theorem fingerprint_field_order:
  assumes "mset kvs = mset kvs'" and "distinct (map fst kvs')"
  shows "fingerprintRequest sha256 prim quote (Some (JObj kvs)) = fingerprintRequest sha256 prim quote (Some (JObj kvs'))"
proof -
  let ?g = "\<lambda>(k, v). (k, canonicalize prim quote v)"
  have "mset (map ?g kvs) = mset (map ?g kvs')" using assms(1) by simp
  moreover have "map fst (map ?g kvs') = map fst kvs'" by (simp add: split_beta)
  then have "distinct (map fst (map ?g kvs'))" using assms(2) by (simp only:)
  ultimately have "sort_key fst (map ?g kvs) = sort_key fst (map ?g kvs')" by (rule sort_key_perm)
  then show ?thesis by (simp add: fingerprintRequest_def)
qed

theorem fingerprint_field_order_witness:
  "fingerprintRequest rev (\<lambda>n. nat_to_string 10 n) (\<lambda>k. k) (Some (JObj [(''b'', JPrim 1), (''a'', JNull)]))
   = fingerprintRequest rev (\<lambda>n. nat_to_string 10 n) (\<lambda>k. k) (Some (JObj [(''a'', JNull), (''b'', JPrim 1)]))"
  by (rule fingerprint_field_order) simp_all

subsection \<open>Exactly once\<close>

text \<open>The requests with one key that arrive one after another, each with its fingerprint and time.\<close>

fun claims_at ::
  "currency_env \<Rightarrow> int \<Rightarrow> string \<Rightarrow> string \<Rightarrow> (string \<times> millis) list \<Rightarrow> jsval idem_store \<Rightarrow> jsval idem_store \<times> decision list" where
  "claims_at C ttl version key [] st = (st, [])"
| "claims_at C ttl version key ((fp, t) # qs) st =
     (let (st1, d) = claim_key C ttl version key fp t st;
          (st2, ds) = claims_at C ttl version key qs st1
      in (st2, d # ds))"

fun idem_arrivals ::
  "'p idem_env \<Rightarrow> ('p idem_request \<times> millis) list \<Rightarrow> jsval idem_store \<Rightarrow> jsval idem_store \<times> decision list" where
  "idem_arrivals env [] st = (st, [])"
| "idem_arrivals env ((rq, t) # qs) st =
     (let (st1, d) = idempotencyMiddleware env rq t st;
          (st2, ds) = idem_arrivals env qs st1
      in (st2, d # ds))"

lemma idem_arrivals_claims:
  assumes "\<forall>(rq, t)\<in>set qs. request_key env rq = Some key"
  shows "idem_arrivals env qs st
       = claims_at (env_currency env) (env_inFlightTtl env) (env_version env) key (map (\<lambda>(rq, t). (request_fingerprint env rq, t)) qs) st"
  using assms by (induction qs arbitrary: st) (auto simp: idempotencyMiddleware_def split_beta Let_def)

lemma claims_stable:
  assumes "\<And>fp t. (fp, t) \<in> set qs \<Longrightarrow> claim_key C ttl version key fp t st = (st, dec fp t)"
  shows "claims_at C ttl version key qs st = (st, map (\<lambda>(fp, t). dec fp t) qs)"
  using assms by (induction qs) auto

definition no_cached :: "string \<Rightarrow> 'b idem_store \<Rightarrow> bool" where
  "no_cached key st \<longleftrightarrow> redisGet key st = None"

lemma first_claim:
  assumes "key \<noteq> []" "mongo st key = None" "no_cached key st"
  shows "claim_key C ttl version key fp t st
       = (st\<lparr>mongo := (mongo st)(key \<mapsto> reservation_of (Some fp) t)\<rparr>, Execute)"
  using assms by (simp add: claim_key_def getFull_def reserve_def no_cached_def)

lemma claim_in_flight:
  assumes "key \<noteq> []" "mongo st key = Some (reservation_of fp0 t0)" "no_cached key st" "t - t0 < ttl"
  shows "claim_key C ttl version key fp t st = (st, In_flight)"
  using assms by (simp add: claim_key_def getFull_def no_cached_def reservation_of_def stale_version_def)

lemma getFull_completed:
  assumes "key \<noteq> []" "fp0 \<noteq> []"
  shows "\<exists>r. getFull version key t (complete_key version key (Some fp0) sc body now st)
      = (complete_key version key (Some fp0) sc body now st, Some r)
    \<and> id_state r = Completed \<and> id_fingerprint r = Some fp0 \<and> id_status r = Some sc \<and> id_body r = body"
  using assms
  by (cases "redis_cache st")
    (simp_all add: getFull_def complete_key_def redisSet_def redisGet_def stale_version_def Let_def)

lemma claim_completed:
  assumes "key \<noteq> []" "fp0 \<noteq> []"
  shows "claim_key C ttl version key fp t (complete_key version key (Some fp0) sc body now st)
       = (complete_key version key (Some fp0) sc body now st,
          if fp = fp0 then Replay (Some sc) (refreshVolatileFields C t body) else Key_reuse)"
proof -
  obtain r where "getFull version key t (complete_key version key (Some fp0) sc body now st)
      = (complete_key version key (Some fp0) sc body now st, Some r)"
    "id_state r = Completed" "id_fingerprint r = Some fp0" "id_status r = Some sc" "id_body r = body"
    using getFull_completed [OF assms] by blast
  with assms(2) show ?thesis by (auto simp: claim_key_def)
qed

text \<open>After the first event the others change nothing.\<close>

lemma settled_events:
  "fst s \<Longrightarrow> fold (on_event version key fp sc body now) evs s = s"
proof (induction evs arbitrary: s)
  case (Cons e evs)
  then have "on_event version key fp sc body now e s = s"
    by (cases e) (simp_all add: completeReservation_def releaseReservation_def)
  with Cons show ?case by simp
qed simp

lemma finished_events:
  assumes "evs \<noteq> []" "hd evs \<noteq> Close_event False" "sc < 500" "sc \<noteq> 404"
  shows "fold (on_event version key fp sc body now) evs (False, st)
       = (True, complete_key version key (Some fp) sc body now st)"
proof -
  obtain e es where evs: "evs = e # es" using assms(1) by (cases evs) auto
  have "on_event version key fp sc body now e (False, st) = (True, complete_key version key (Some fp) sc body now st)"
    using assms(2-4) evs by (cases e) (simp_all add: completeReservation_def)
  then show ?thesis by (simp add: evs settled_events)
qed

text \<open>A replayed body differs from the stored one at most in the value of the currency field.\<close>

definition agree_but_currency :: "jsval option \<Rightarrow> jsval option \<Rightarrow> bool" where
  "agree_but_currency a b \<longleftrightarrow>
     a = b \<or> (\<exists>kvs kvs'. a = Some (VObj kvs) \<and> b = Some (VObj kvs') \<and> map fst kvs' = map fst kvs \<and>
       filter (\<lambda>(k, v). k \<noteq> ''localCurrency'') kvs' = filter (\<lambda>(k, v). k \<noteq> ''localCurrency'') kvs)"

lemma refresh_agrees: "agree_but_currency body (refreshVolatileFields C now body)"
proof -
  have "map fst (map (\<lambda>(k, v). if k = c then (k, x) else (k, v)) kvs) = map fst kvs"
    "filter (\<lambda>(k, v). k \<noteq> c) (map (\<lambda>(k, v). if k = c then (k, x) else (k, v)) kvs) = filter (\<lambda>(k, v). k \<noteq> c) kvs"
    for c :: string and x :: jsval and kvs by (induction kvs) auto
  then show ?thesis
    by (auto simp: agree_but_currency_def refreshVolatileFields_def split: option.split jsval.split)
qed

lemma refresh_without_currency:
  "map_of kvs ''localCurrency'' = None \<Longrightarrow> refreshVolatileFields C now (Some (VObj kvs)) = Some (VObj kvs)"
  by (simp add: refreshVolatileFields_def currency_of_body_def)

text \<open>
  When the feeds have no rates the conversion does not fail but says so: the replay then loses the amount and the
  rate that the first response had.
\<close>

lemma refresh_without_rates:
  assumes "currency_of_body kvs = Some c" "map_of kvs ''amount'' = Some (VNum a)" "getRates C now (toUpperCase c) = Some None"
  shows "\<exists>kvs'. refreshVolatileFields C now (Some (VObj kvs)) = Some (VObj kvs') \<and>
    map_of kvs' ''localCurrency'' = Some (VObj [(''amount'', VNull), (''currency'', VStr (toUpperCase c)), (''rate'', VNull),
      (''rateTimestamp'', VNull), (''available'', VBool False)])"
proof -
  have f: "map_of (map (\<lambda>(k, v). if k = l then (k, x) else (k, v)) kvs) l = Some x" if "map_of kvs l \<noteq> None"
    for l :: string and x :: jsval and kvs using that by (induction kvs) (auto split: if_splits)
  have "map_of kvs ''localCurrency'' \<noteq> None" using assms(1) by (auto simp: currency_of_body_def split: option.splits)
  with assms f [of kvs "''localCurrency''"] show ?thesis
    by (auto simp: refreshVolatileFields_def convertToLocalCurrency_def fresh_currency_def num_or_null_def text_or_null_def Let_def)
qed

text \<open>C32: A request with a key that is not known runs. While it runs, and within the in-flight time after it began (30
  seconds by default), no other request with the key runs. When its response, with a status below 500 other than 404, has been
  sent before the connection closed, whichever events the connection reports after that, no request with the
  key runs again as long as the record is kept: one with the same fingerprint gets the same status and the stored
  body with the currency field computed again at that time, which changes nothing else in it, one with another fingerprint is
  refused. Nothing is claimed of a request that takes longer than the in-flight time, or whose response is a
  404 or 5xx or is aborted: its key is taken over or released, and the next request runs (\<open>stale_owner_releases\<close>).\<close>

theorem exactly_once:
  assumes key: "request_key env rq = Some key" "key \<noteq> []" and fp: "request_fingerprint env rq \<noteq> []"
    and fresh: "mongo st key = None" "no_cached key st"
    and during: "\<forall>(r, t)\<in>set during. request_key env r = Some key \<and> t - t0 < env_inFlightTtl env"
    and sent: "evs \<noteq> []" "hd evs \<noteq> Close_event False" "sc < 500" "sc \<noteq> 404"
    and later: "\<forall>(r, t)\<in>set later. request_key env r = Some key"
  shows "let (st1, d) = idempotencyMiddleware env rq t0 st;
             (st2, ds) = idem_arrivals env during st1;
             st3 = snd (fold (on_event (env_version env) key (request_fingerprint env rq) sc body now) evs (False, st2));
             (st4, es) = idem_arrivals env later st3
         in d = Execute \<and> ds = replicate (length during) In_flight
          \<and> es = map (\<lambda>(r, t). if request_fingerprint env r = request_fingerprint env rq
                                then Replay (Some sc) (refreshVolatileFields (env_currency env) t body) else Key_reuse) later
          \<and> (\<forall>t. agree_but_currency body (refreshVolatileFields (env_currency env) t body))"
proof -
  let ?fp = "request_fingerprint env rq"
  let ?ttl = "env_inFlightTtl env"
  let ?v = "env_version env"
  let ?st1 = "st\<lparr>mongo := (mongo st)(key \<mapsto> reservation_of (Some ?fp) t0)\<rparr>"
  let ?st3 = "complete_key ?v key (Some ?fp) sc body now ?st1"
  have d: "idempotencyMiddleware env rq t0 st = (?st1, Execute)"
    using key first_claim [OF key(2) fresh] by (simp add: idempotencyMiddleware_def)
  have cached: "no_cached key ?st1" using fresh(2) by (simp add: no_cached_def redisGet_def)
  have "claims_at (env_currency env) ?ttl ?v key (map (\<lambda>(r, t). (request_fingerprint env r, t)) during) ?st1
      = (?st1, map (\<lambda>(f, t). In_flight) (map (\<lambda>(r, t). (request_fingerprint env r, t)) during))"
    using during by (intro claims_stable claim_in_flight [OF key(2) _ cached]) auto
  moreover have "\<forall>(r, t)\<in>set during. request_key env r = Some key" using during by auto
  ultimately have ds: "idem_arrivals env during ?st1 = (?st1, replicate (length during) In_flight)"
    by (simp only: idem_arrivals_claims) (simp add: split_beta comp_def map_replicate_const)
  have "claims_at (env_currency env) ?ttl ?v key (map (\<lambda>(r, t). (request_fingerprint env r, t)) later) ?st3
      = (?st3, map (\<lambda>(f, t). if f = ?fp then Replay (Some sc) (refreshVolatileFields (env_currency env) t body) else Key_reuse)
                 (map (\<lambda>(r, t). (request_fingerprint env r, t)) later))"
    by (intro claims_stable claim_completed key(2) fp)
  then have es: "idem_arrivals env later ?st3
      = (?st3, map (\<lambda>(r, t). if request_fingerprint env r = ?fp then Replay (Some sc) (refreshVolatileFields (env_currency env) t body) else Key_reuse) later)"
    using idem_arrivals_claims [OF later, of ?st3] by (simp add: split_beta comp_def)
  show ?thesis by (simp add: d ds es finished_events [OF sent] refresh_agrees)
qed

definition sample_currency :: currency_env where
  "sample_currency = \<lparr>allowed_currency = (\<lambda>c. c = ''USD''),
     getRates = (\<lambda>t c. Some (Some \<lparr>re_xlm = Some (Fin (of_int t)), re_usdc = None, re_fetchedAt = t\<rparr>)), times_rounded = (\<lambda>dp a r. r)\<rparr>"

definition sample_answer :: "jsval \<Rightarrow> jsval" where
  "sample_answer lc = VObj [(''amount'', VNum (Fin 5)), (''localCurrency'', lc)]"

definition empty_store :: "jsval idem_store" where
  "empty_store = \<lparr>mongo = Map.empty, redis_cache = Some Map.empty\<rparr>"

definition sample_env :: "string idem_env" where
  "sample_env = \<lparr>env_sha256 = (\<lambda>s. CHR ''#'' # s), env_prim = (\<lambda>s. s), env_quote = (\<lambda>k. k),
                 env_inFlightTtl = 30000, env_version = ''1.0'', env_currency = sample_currency\<rparr>"

definition sample_request :: "string \<Rightarrow> string idem_request" where
  "sample_request n = \<lparr>rq_rawKey = Some ''k'', rq_schoolId = Some ''s'', rq_baseUrl = ''/a'', rq_path = ''/p'',
                       rq_body = Some (JPrim n)\<rparr>"

lemma sample_key: "request_key sample_env (sample_request n) = Some ''#s:/a/p\<newline>k''"
  by (simp add: request_key_def request_scope_def sample_env_def sample_request_def deriveIdempotencyKey_def
      normalizeClientKey_def trim_def is_space_def)

lemma sample_fingerprint: "request_fingerprint sample_env (sample_request n) = CHR ''#'' # n"
  by (simp add: request_fingerprint_def fingerprintRequest_def sample_env_def sample_request_def)

lemma sample_store: "mongo empty_store key = None" "no_cached key empty_store"
  by (simp_all add: empty_store_def no_cached_def redisGet_def)

lemma sample_refresh:
  "refreshVolatileFields (env_currency sample_env) 40000 (Some (sample_answer (VObj [(''currency'', VStr ''usd'')])))
   = Some (sample_answer (VObj [(''amount'', VNum (Fin 40000)), (''currency'', VStr ''USD''), (''rate'', VNum (Fin 40000)),
       (''rateTimestamp'', VStr (toISOString 40000)), (''available'', VBool True)]))"
proof -
  have "toUpperCase ''usd'' = ''USD''" by code_simp
  then show ?thesis
    by (simp add: refreshVolatileFields_def sample_answer_def currency_of_body_def convertToLocalCurrency_def sample_env_def
        sample_currency_def asset_of_body_def decimalMultiply_def fresh_currency_def num_or_null_def text_or_null_def jleq_def Let_def)
qed

theorem exactly_once_witness:
  "let (st1, d) = idempotencyMiddleware sample_env (sample_request ''1'') 0 empty_store;
       (st2, ds) = idem_arrivals sample_env [(sample_request ''1'', 5), (sample_request ''2'', 29999)] st1;
       st3 = snd (fold (on_event (env_version sample_env) ''#s:/a/p\<newline>k'' (request_fingerprint sample_env (sample_request ''1''))
                    201 (Some (sample_answer (VObj [(''currency'', VStr ''usd'')]))) 30000) [Finish_event, Close_event False] (False, st2));
       (st4, es) = idem_arrivals sample_env [(sample_request ''1'', 40000), (sample_request ''2'', 50000)] st3
   in d = Execute \<and> ds = [In_flight, In_flight] \<and>
      es = [Replay (Some 201) (Some (sample_answer (VObj [(''amount'', VNum (Fin 40000)), (''currency'', VStr ''USD''),
               (''rate'', VNum (Fin 40000)), (''rateTimestamp'', VStr (toISOString 40000)), (''available'', VBool True)]))), Key_reuse]"
  using exactly_once [of sample_env "sample_request ''1''" "''#s:/a/p\<newline>k''" empty_store
      "[(sample_request ''1'', 5), (sample_request ''2'', 29999)]" 0 "[Finish_event, Close_event False]" 201
      "[(sample_request ''1'', 40000), (sample_request ''2'', 50000)]" "Some (sample_answer (VObj [(''currency'', VStr ''usd'')]))" 30000]
  by (simp add: sample_key sample_fingerprint sample_store sample_refresh sample_env_def [THEN arg_cong, of env_inFlightTtl]
      split_beta Let_def)

subsection \<open>Two ways to run twice\<close>

text \<open>A result of another application version in the Redis cache is not removed when it is found:
  each lookup deletes the record in MongoDB instead. While it is cached, two requests with its key
  that arrive at the same time both run, since the second deletes the reservation of the first.\<close>

theorem stale_cache_runs_twice:
  assumes "key \<noteq> []" and "redis_cache st = Some c" and "c key = Some old"
    and "ca_completed old" and "stale_version version (ca_version old)"
  shows "snd (claim_key C ttl version key fp t st) = Execute
       \<and> snd (claim_key C ttl version key fp' t' (fst (claim_key C ttl version key fp t st))) = Execute"
proof -
  have run: "claim_key C ttl version key f u s
      = (s\<lparr>mongo := (mongo s)(key \<mapsto> reservation_of (Some f) u)\<rparr>, Execute)"
    if "redis_cache s = Some c" for f u and s
    using that assms
    by (simp add: claim_key_def getFull_def reserve_def redisGet_def delete_key_def Let_def)
  show ?thesis using assms(2) by (simp add: run)
qed

theorem stale_cache_runs_twice_witness:
  "let st = \<lparr>mongo = Map.empty, redis_cache = Some [''k'' \<mapsto>
          \<lparr>ca_completed = True, ca_fingerprint = None, ca_status = Some 200, ca_body = Some VNull,
           ca_version = Some ''0.9''\<rparr>]\<rparr>
   in snd (claim_key sample_currency 30000 ''1.0'' ''k'' ''f'' 1 (fst (claim_key sample_currency 30000 ''1.0'' ''k'' ''f'' 1 st))) = Execute"
  using stale_cache_runs_twice [of "''k''" "\<lparr>mongo = Map.empty, redis_cache = Some [''k'' \<mapsto>
          \<lparr>ca_completed = True, ca_fingerprint = None, ca_status = Some 200, ca_body = Some VNull,
           ca_version = Some ''0.9''\<rparr>]\<rparr>"]
  by (simp add: stale_version_def Let_def)

text \<open>A reservation does not know its owner. When a slow request has been taken over by a second one
  and then fails, it releases the reservation of the second, and a third request runs while the
  second is still running.\<close>

theorem stale_owner_releases:
  assumes "key \<noteq> []" "mongo st key = None" "no_cached key st" "t1 - t0 \<ge> ttl" "sc \<ge> 500"
  shows "let (st1, d1) = claim_key C ttl version key fp1 t0 st;
             (st2, d2) = claim_key C ttl version key fp2 t1 st1;
             st3 = snd (completeReservation version key fp1 sc body t1 (False, st2));
             (st4, d3) = claim_key C ttl version key fp3 t1 st3
         in d1 = Execute \<and> d2 = Execute \<and> d3 = Execute"
proof -
  have r: "redisGet key st = None" using assms(3) by (simp add: no_cached_def)
  then have r': "redisGet key (st\<lparr>mongo := m\<rparr>) = None" for m by (simp add: redisGet_def)
  have second: "claim_key C ttl version key fp2 t1
        (st\<lparr>mongo := (mongo st)(key \<mapsto> reservation_of (Some fp1) t0)\<rparr>)
      = (st\<lparr>mongo := (mongo st)(key \<mapsto> reservation_of (Some fp2) t1)\<rparr>, Execute)"
    using assms(1,4) r' by (simp add: claim_key_def getFull_def reserve_def reservation_of_def
        stale_version_def Let_def)
  have "snd (completeReservation version key fp1 sc body t1
      (False, st\<lparr>mongo := (mongo st)(key \<mapsto> reservation_of (Some fp2) t1)\<rparr>)) = st\<lparr>mongo := (mongo st)(key := None)\<rparr>"
    using assms(1,5) by (simp add: completeReservation_def release_key_def reservation_of_def delete_key_def)
  moreover have "snd (claim_key C ttl version key fp3 t1 (st\<lparr>mongo := (mongo st)(key := None)\<rparr>)) = Execute"
    using assms(1) r' by (simp add: first_claim no_cached_def)
  ultimately show ?thesis using first_claim [OF assms(1-3)] second by (simp add: split_beta Let_def)
qed

theorem stale_owner_releases_witness:
  "let (st1, d1) = claim_key sample_currency 30000 ''1.0'' ''k'' ''f'' 0 empty_store;
       (st2, d2) = claim_key sample_currency 30000 ''1.0'' ''k'' ''f'' 30000 st1;
       st3 = snd (completeReservation ''1.0'' ''k'' ''f'' 500 None 30000 (False, st2));
       (st4, d3) = claim_key sample_currency 30000 ''1.0'' ''k'' ''f'' 30000 st3
   in d1 = Execute \<and> d2 = Execute \<and> d3 = Execute"
  by (rule stale_owner_releases) (simp_all add: sample_store)

end
