(* ===== verification/Poll_Budget.thy ===== *)
theory Poll_Budget
  imports JS_Number "HOL-Library.AList" "HOL-Library.Multiset"
begin

section \<open>The budget for polling Horizon\<close>

text \<open>
  \<^verbatim>\<open>backend/src/services/horizonPollBudget.js\<close>: how many requests a polling cycle may send, in which order
  the schools are polled, and the counters that age a school that had to wait; and from
  \<^verbatim>\<open>services/transactionPollingService.js\<close> the loop over pages and the update of these counters. Quantities
  are JavaScript numbers, since a misread setting makes them \<^verbatim>\<open>NaN\<close>. The settings, after
  \<^verbatim>\<open>parseInt\<close> and \<^verbatim>\<open>parseFloat\<close>, are arguments, and the comparison of strings is the parameter
  \<open>localeCompare\<close>.
\<close>

record poll_config =
  HORIZON_RATE_LIMIT_PER_HOUR :: jsnum
  POLL_BUDGET_SAFETY_FACTOR :: jsnum
  REPLICA_COUNT :: jsnum
  MIN_BUDGET_PER_CYCLE :: jsnum
  RECENT_ACTIVITY_WINDOW_MS :: jsnum

definition poll_config_of :: "jsnum \<Rightarrow> jsnum \<Rightarrow> jsnum \<Rightarrow> jsnum \<Rightarrow> jsnum \<Rightarrow> poll_config" where
  "poll_config_of limit factor replicas minBudget window =
     \<lparr>HORIZON_RATE_LIMIT_PER_HOUR = limit, POLL_BUDGET_SAFETY_FACTOR = factor,
      REPLICA_COUNT = jmax (Fin 1) replicas, MIN_BUDGET_PER_CYCLE = jmax (Fin 1) minBudget,
      RECENT_ACTIVITY_WINDOW_MS = window\<rparr>"

definition AIMD_DECREASE_FACTOR :: jsnum where "AIMD_DECREASE_FACTOR = Fin (1 / 2)"
definition AIMD_INCREASE_TOKENS :: jsnum where "AIMD_INCREASE_TOKENS = Fin 2"
definition PRIORITY_PENDING_PAYMENT :: jsnum where "PRIORITY_PENDING_PAYMENT = Fin 100"
definition PRIORITY_RECENT_ACTIVITY :: jsnum where "PRIORITY_RECENT_ACTIVITY = Fin 20"
definition PRIORITY_NEVER_SYNCED :: jsnum where "PRIORITY_NEVER_SYNCED = Fin 250"
definition PRIORITY_AGING_PER_CYCLE :: jsnum where "PRIORITY_AGING_PER_CYCLE = Fin 15"

definition computeCycleBudget :: "poll_config \<Rightarrow> jsnum \<Rightarrow> jsnum" where
  "computeCycleBudget cfg intervalMs =
     (let perMs = jdiv (HORIZON_RATE_LIMIT_PER_HOUR cfg) (Fin 3600000);
          raw = jdiv (jmul (jmul perMs intervalMs) (POLL_BUDGET_SAFETY_FACTOR cfg)) (REPLICA_COUNT cfg)
      in jmax (MIN_BUDGET_PER_CYCLE cfg) (jfloor raw))"

subsection \<open>Priorities\<close>

record school =
  schoolId :: string
  syncCursor :: "string option"

record signals =
  pendingCount :: nat
  lastActivityAt :: "millis option"
  sig_cyclesDeferred :: nat

definition no_signals :: signals where
  "no_signals = \<lparr>pendingCount = 0, lastActivityAt = None, sig_cyclesDeferred = 0\<rparr>"

text \<open>The share of the score for recent activity.\<close>

definition activity_score :: "poll_config \<Rightarrow> millis \<Rightarrow> signals \<Rightarrow> jsnum \<Rightarrow> jsnum" where
  "activity_score cfg now sg score =
     (case lastActivityAt sg of
        None \<Rightarrow> score
      | Some t \<Rightarrow>
          let age = now - t; window = RECENT_ACTIVITY_WINDOW_MS cfg in
          if age \<ge> 0 \<and> jless (IntN age) window
          then let freshness = jsub (Fin 1) (jdiv (IntN age) window)
               in jadd score (jmul PRIORITY_RECENT_ACTIVITY freshness)
          else score)"

definition computeSchoolPriority :: "poll_config \<Rightarrow> millis \<Rightarrow> school \<Rightarrow> signals \<Rightarrow> jsnum" where
  "computeSchoolPriority cfg now sch sg =
     (let score0 = Fin 0;
          score1 = (if syncCursor sch = None \<or> syncCursor sch = Some []
                    then jadd score0 PRIORITY_NEVER_SYNCED else score0);
          score2 = jadd score1 (jmul (jmin (IntN (int (pendingCount sg))) (Fin 10)) PRIORITY_PENDING_PAYMENT);
          score3 = activity_score cfg now sg score2
      in jadd score3 (jmul (IntN (int (sig_cyclesDeferred sg))) PRIORITY_AGING_PER_CYCLE))"

text \<open>Whether the comparator puts the first entry no later than the second.\<close>

definition polled_before ::
  "(string \<Rightarrow> string \<Rightarrow> int) \<Rightarrow> school \<times> jsnum \<Rightarrow> school \<times> jsnum \<Rightarrow> bool" where
  "polled_before localeCompare a b =
     (let d = jsub (snd b) (snd a)
      in if truthy_num d then jless d (Fin 0) else localeCompare (schoolId (fst a)) (schoolId (fst b)) \<le> 0)"

text \<open>\<^verbatim>\<open>Array.prototype.sort\<close>, which is stable.\<close>

fun sort_insert :: "('a \<Rightarrow> 'a \<Rightarrow> bool) \<Rightarrow> 'a \<Rightarrow> 'a list \<Rightarrow> 'a list" where
  "sort_insert le x [] = [x]"
| "sort_insert le x (y # ys) = (if le x y then x # y # ys else y # sort_insert le x ys)"

definition orderSchoolsByPriority ::
  "poll_config \<Rightarrow> (string \<Rightarrow> string \<Rightarrow> int) \<Rightarrow> school list \<Rightarrow> (string \<rightharpoonup> signals) \<Rightarrow> millis \<Rightarrow> (school \<times> jsnum) list" where
  "orderSchoolsByPriority cfg localeCompare schools signalsBySchoolId now =
     foldr (sort_insert (polled_before localeCompare))
       (map (\<lambda>s. (s, computeSchoolPriority cfg now s
                (case signalsBySchoolId (schoolId s) of None \<Rightarrow> no_signals | Some sg \<Rightarrow> sg))) schools) []"

subsection \<open>The budget\<close>

record poll_budget =
  nominalBudget :: jsnum
  currentCeiling :: jsnum
  remaining :: jsnum
  consumedThisCycle :: jsnum
  deniedThisCycle :: jsnum
  rateLimitEventsThisCycle :: nat
  cyclesDeferred :: "(string \<times> nat) list"
  cycles :: nat

text \<open>An interval or an override of zero counts as missing.\<close>

definition new_poll_budget :: "poll_config \<Rightarrow> jsnum option \<Rightarrow> jsnum option \<Rightarrow> poll_budget" where
  "new_poll_budget cfg intervalMs budgetOverride =
     (let i = (case intervalMs of Some x \<Rightarrow> if truthy_num x then x else Fin 30000 | None \<Rightarrow> Fin 30000);
          n = (case budgetOverride of Some x \<Rightarrow> if truthy_num x then x else computeCycleBudget cfg i
               | None \<Rightarrow> computeCycleBudget cfg i)
      in \<lparr>nominalBudget = n, currentCeiling = n, remaining = n, consumedThisCycle = Fin 0,
          deniedThisCycle = Fin 0, rateLimitEventsThisCycle = 0, cyclesDeferred = [], cycles = 0\<rparr>)"

definition startCycle :: "poll_config \<Rightarrow> poll_budget \<Rightarrow> poll_budget" where
  "startCycle cfg b =
     (let c = (if cycles b > 0 then
                 (if rateLimitEventsThisCycle b > 0
                  then jmax (MIN_BUDGET_PER_CYCLE cfg) (jfloor (jmul (currentCeiling b) AIMD_DECREASE_FACTOR))
                  else if jless (currentCeiling b) (nominalBudget b)
                  then jmin (nominalBudget b) (jadd (currentCeiling b) AIMD_INCREASE_TOKENS)
                  else currentCeiling b)
               else currentCeiling b)
      in b\<lparr>currentCeiling := c, remaining := c, consumedThisCycle := Fin 0, deniedThisCycle := Fin 0,
           rateLimitEventsThisCycle := 0, cycles := cycles b + 1\<rparr>)"

definition tryConsume :: "jsnum \<Rightarrow> poll_budget \<Rightarrow> poll_budget \<times> bool" where
  "tryConsume n b =
     (if jless (remaining b) n then (b\<lparr>deniedThisCycle := jadd (deniedThisCycle b) n\<rparr>, False)
      else (b\<lparr>remaining := jsub (remaining b) n, consumedThisCycle := jadd (consumedThisCycle b) n\<rparr>, True))"

definition refund_tokens :: "jsnum \<Rightarrow> poll_budget \<Rightarrow> poll_budget" where
  "refund_tokens n b =
     b\<lparr>remaining := jmin (currentCeiling b) (jadd (remaining b) n),
       consumedThisCycle := jmax (Fin 0) (jsub (consumedThisCycle b) n)\<rparr>"

definition recordRateLimited :: "poll_budget \<Rightarrow> poll_budget" where
  "recordRateLimited b = b\<lparr>rateLimitEventsThisCycle := rateLimitEventsThisCycle b + 1\<rparr>"

definition getDeferralCount :: "string \<Rightarrow> poll_budget \<Rightarrow> nat" where
  "getDeferralCount sid b = (case map_of (cyclesDeferred b) sid of None \<Rightarrow> 0 | Some n \<Rightarrow> n)"

definition recordDeferred :: "string \<Rightarrow> poll_budget \<Rightarrow> poll_budget" where
  "recordDeferred sid b = b\<lparr>cyclesDeferred := AList.update sid (getDeferralCount sid b + 1) (cyclesDeferred b)\<rparr>"

definition recordPolled :: "string \<Rightarrow> poll_budget \<Rightarrow> poll_budget" where
  "recordPolled sid b = b\<lparr>cyclesDeferred := AList.delete sid (cyclesDeferred b)\<rparr>"

definition getMaxDeferralCycles :: "poll_budget \<Rightarrow> nat" where
  "getMaxDeferralCycles b = foldl (\<lambda>m (k, n). if n > m then n else m) 0 (cyclesDeferred b)"

subsection \<open>A cycle\<close>

text \<open>
  The pages of one school: the number of pages Horizon has for it, of which the last fetch finds
  none left, and the bound on the fetches of a cycle. The result says whether the budget ran out.
\<close>

fun page_loop :: "nat \<Rightarrow> nat \<Rightarrow> poll_budget \<Rightarrow> poll_budget \<times> bool" where
  "page_loop 0 available b = (b, False)"
| "page_loop (Suc maxPages) available b =
     (let (b1, granted) = tryConsume (Fin 1) b in
      if \<not> granted then (b1, True)
      else case available of 0 \<Rightarrow> (b1, False) | Suc left \<Rightarrow> page_loop maxPages left b1)"

text \<open>After the cycle each school that was polled to its end loses its counter, the others gain one.\<close>

definition update_aging :: "(school \<times> bool) list \<Rightarrow> poll_budget \<Rightarrow> poll_budget" where
  "update_aging results b =
     foldl (\<lambda>b (s, polled). if polled then recordPolled (schoolId s) b else recordDeferred (schoolId s) b) b results"

subsection \<open>The budget is kept\<close>

text \<open>
  What a sane budget looks like: whole numbers, the ceiling between the floor and the nominal
  budget, and every token of the ceiling either spent or left.
\<close>

definition budget_at :: "int \<Rightarrow> int \<Rightarrow> int \<Rightarrow> int \<Rightarrow> poll_budget \<Rightarrow> bool" where
  "budget_at m n c u b \<longleftrightarrow> nominalBudget b = IntN n \<and> currentCeiling b = IntN c
     \<and> consumedThisCycle b = IntN u \<and> remaining b = IntN (c - u)
     \<and> 1 \<le> m \<and> m \<le> c \<and> c \<le> n \<and> n < 2 ^ 52 \<and> 0 \<le> u \<and> u \<le> c"

lemma AIMD_int: "AIMD_INCREASE_TOKENS = IntN 2" "AIMD_DECREASE_FACTOR = Fin (1 / 2)"
  by (simp_all add: AIMD_INCREASE_TOKENS_def AIMD_DECREASE_FACTOR_def)

text \<open>The ceiling of the next cycle.\<close>

definition next_ceiling :: "int \<Rightarrow> int \<Rightarrow> int \<Rightarrow> poll_budget \<Rightarrow> int" where
  "next_ceiling m n c b =
     (if cycles b = 0 then c else if rateLimitEventsThisCycle b > 0 then max m (c div 2) else min n (c + 2))"

lemma startCycle_at:
  assumes "budget_at m n c u b" and "MIN_BUDGET_PER_CYCLE cfg = IntN m"
  shows "budget_at m n (next_ceiling m n c b) 0 (startCycle cfg b)"
proof -
  note a = assms(1) [unfolded budget_at_def]
  have half: "jfloor (jmul (IntN c) (Fin (1 / 2))) = IntN (c div 2)" using a by (intro floor_half_int) auto
  have add: "jadd (IntN c) (IntN 2) = IntN (c + 2)" using a by (intro jadd_int) auto
  have ceil: "currentCeiling b = IntN c" and nom: "nominalBudget b = IntN n" using a by auto
  have dec: "jmax (MIN_BUDGET_PER_CYCLE cfg) (jfloor (jmul (currentCeiling b) AIMD_DECREASE_FACTOR)) = IntN (max m (c div 2))"
    by (simp only: ceil assms(2) AIMD_int half jmax_int)
  have inc: "jmin (nominalBudget b) (jadd (currentCeiling b) AIMD_INCREASE_TOKENS) = IntN (min n (c + 2))"
    by (simp only: ceil nom AIMD_int add jmin_int)
  have less: "jless (currentCeiling b) (nominalBudget b) \<longleftrightarrow> c < n" by (simp only: ceil nom jless_int)
  have "currentCeiling (startCycle cfg b) = IntN (next_ceiling m n c b)"
    unfolding startCycle_def next_ceiling_def Let_def dec inc less using a by auto
  then show ?thesis using a by (auto simp: budget_at_def startCycle_def Let_def next_ceiling_def)
qed

lemma tryConsume_at:
  assumes "budget_at m n c u b" and "0 \<le> k" and "k \<le> 2 ^ 52"
  shows "snd (tryConsume (IntN k) b) \<longleftrightarrow> k \<le> c - u"
    and "budget_at m n c (if k \<le> c - u then u + k else u) (fst (tryConsume (IntN k) b))"
proof -
  note a = assms(1) [unfolded budget_at_def]
  have sub: "jsub (IntN (c - u)) (IntN k) = IntN (c - u - k)" using a assms(2,3) by (intro jsub_int) auto
  have add: "jadd (IntN u) (IntN k) = IntN (u + k)" using a assms(2,3) by (intro jadd_int) auto
  have less: "jless (IntN (c - u)) (IntN k) \<longleftrightarrow> c - u < k" by (rule jless_int)
  show "snd (tryConsume (IntN k) b) \<longleftrightarrow> k \<le> c - u"
    using a less unfolding tryConsume_def by auto
  show "budget_at m n c (if k \<le> c - u then u + k else u) (fst (tryConsume (IntN k) b))"
    using a less sub add assms(2) unfolding tryConsume_def budget_at_def by (auto simp: algebra_simps)
qed

lemma refund_at:
  assumes "budget_at m n c u b" and "0 \<le> k" and "k \<le> 2 ^ 52"
  shows "budget_at m n c (max 0 (u - k)) (refund_tokens (IntN k) b)"
proof -
  note a = assms(1) [unfolded budget_at_def]
  have add: "jadd (IntN (c - u)) (IntN k) = IntN (c - u + k)" using a assms(2,3) by (intro jadd_int) auto
  have sub: "jsub (IntN u) (IntN k) = IntN (u - k)" using a assms(2,3) by (intro jsub_int) auto
  have "remaining (refund_tokens (IntN k) b) = IntN (min c (c - u + k))"
    using a add jmin_int [of c "c - u + k"] unfolding refund_tokens_def by simp
  moreover have "consumedThisCycle (refund_tokens (IntN k) b) = IntN (max 0 (u - k))"
    using a sub jmax_int [of 0 "u - k"] unfolding refund_tokens_def by simp
  ultimately show ?thesis using a assms(2) by (auto simp: budget_at_def refund_tokens_def min_def max_def)
qed

datatype budget_op = StartCycle | Consume int | Refund_back int | Rate_limited | Deferred string | Polled string

fun budget_step :: "poll_config \<Rightarrow> poll_budget \<Rightarrow> budget_op \<Rightarrow> poll_budget" where
  "budget_step cfg b StartCycle = startCycle cfg b"
| "budget_step cfg b (Consume k) = fst (tryConsume (IntN k) b)"
| "budget_step cfg b (Refund_back k) = refund_tokens (IntN k) b"
| "budget_step cfg b Rate_limited = recordRateLimited b"
| "budget_step cfg b (Deferred s) = recordDeferred s b"
| "budget_step cfg b (Polled s) = recordPolled s b"

fun small_op :: "budget_op \<Rightarrow> bool" where
  "small_op (Consume k) = (0 \<le> k \<and> k \<le> 2 ^ 52)"
| "small_op (Refund_back k) = (0 \<le> k \<and> k \<le> 2 ^ 52)"
| "small_op _ = True"

lemma budget_step_at:
  assumes "budget_at m n c u b" and "MIN_BUDGET_PER_CYCLE cfg = IntN m" and "small_op q"
  shows "\<exists>c' u'. budget_at m n c' u' (budget_step cfg b q)"
proof (cases q)
  case StartCycle
  with startCycle_at [OF assms(1,2)] show ?thesis by auto
next
  case (Consume k)
  with tryConsume_at(2) [OF assms(1)] assms(3) show ?thesis by auto
next
  case (Refund_back k)
  with refund_at [OF assms(1)] assms(3) show ?thesis by auto
qed (use assms in \<open>auto simp: budget_at_def recordRateLimited_def recordDeferred_def recordPolled_def\<close>)

text \<open>A budget that starts at a whole number of at least the floor: whatever is consumed, returned and
  observed, in any number of cycles, the tokens spent and left in a cycle make up the ceiling, the
  ceiling stays between the floor and the nominal budget, and a request is granted exactly when
  tokens are left, so no cycle spends more than the nominal budget.\<close>

theorem poll_budget_kept:
  assumes "MIN_BUDGET_PER_CYCLE cfg = IntN m" and "nominalBudget (new_poll_budget cfg i o') = IntN n"
    and "1 \<le> m" "m \<le> n" "n < 2 ^ 52" and "\<forall>q\<in>set ops. small_op q"
  shows "\<exists>c u. let b = foldl (budget_step cfg) (new_poll_budget cfg i o') ops in
      currentCeiling b = IntN c \<and> consumedThisCycle b = IntN u \<and> remaining b = IntN (c - u)
      \<and> 0 \<le> u \<and> u \<le> c \<and> m \<le> c \<and> c \<le> n \<and> (snd (tryConsume (IntN 1) b) \<longleftrightarrow> u < c)"
proof -
  let ?b = "foldl (budget_step cfg) (new_poll_budget cfg i o') ops"
  have "\<exists>c u. budget_at m n c u ?b"
  proof (rule foldl_invariant [where P = "\<lambda>b. \<exists>c u. budget_at m n c u b"])
    have "budget_at m n n 0 (new_poll_budget cfg i o')"
      using assms(2-5) by (auto simp: budget_at_def new_poll_budget_def Let_def)
    then show "\<exists>c u. budget_at m n c u (new_poll_budget cfg i o')" by blast
  next
    show "\<exists>c u. budget_at m n c u (budget_step cfg b q)" if "\<exists>c u. budget_at m n c u b" "q \<in> set ops" for b q
      using that budget_step_at [OF _ assms(1)] assms(6) by blast
  qed
  then obtain c u where b: "budget_at m n c u ?b" by blast
  then have "snd (tryConsume (IntN 1) ?b) \<longleftrightarrow> u < c" using tryConsume_at(1) [OF b, of 1] by auto
  with b show ?thesis unfolding budget_at_def Let_def by blast
qed

definition default_poll_config :: poll_config where
  "default_poll_config = poll_config_of (Fin 3600) (Fin (round64 (6 / 10))) (Fin 1) (Fin 4) (Fin 3600000)"

theorem poll_budget_kept_witness:
  "\<exists>c u. let b = foldl (budget_step default_poll_config) (new_poll_budget default_poll_config None (Some (Fin 10)))
        [StartCycle, Consume 8, Consume 3, Rate_limited, StartCycle, Consume 3, Refund_back 1] in
      currentCeiling b = IntN c \<and> consumedThisCycle b = IntN u \<and> remaining b = IntN (c - u)
      \<and> 0 \<le> u \<and> u \<le> c \<and> 4 \<le> c \<and> c \<le> 10 \<and> (snd (tryConsume (IntN 1) b) \<longleftrightarrow> u < c)"
  by (rule poll_budget_kept)
    (simp_all add: default_poll_config_def poll_config_of_def new_poll_budget_def jmax_def Let_def)

text \<open>A setting that does not parse as a number: the budget is \<^verbatim>\<open>NaN\<close>, and then every request is granted,
  whatever has been consumed in the cycle and whichever limits were hit.\<close>

theorem misread_setting_unlimited:
  assumes "NaN \<in> {HORIZON_RATE_LIMIT_PER_HOUR cfg, POLL_BUDGET_SAFETY_FACTOR cfg, REPLICA_COUNT cfg, MIN_BUDGET_PER_CYCLE cfg}"
  shows "snd (tryConsume (IntN k) (foldl (budget_step cfg) (new_poll_budget cfg i None) ops))"
proof -
  have div: "jdiv NaN x = NaN" "jdiv x NaN = NaN" "jmul NaN x = NaN" "jmul x NaN = NaN" "jadd NaN x = NaN" for x
    by (cases x; simp)+
  have less: "\<not> jless NaN x" "\<not> jless x NaN" for x by (cases x; simp)+
  have new: "nominalBudget (new_poll_budget cfg i None) = NaN"
    using assms by (auto simp: new_poll_budget_def Let_def computeCycleBudget_def div jmax_def)
  let ?b = "foldl (budget_step cfg) (new_poll_budget cfg i None) ops"
  have "nominalBudget ?b = NaN \<and> currentCeiling ?b = NaN \<and> remaining ?b = NaN"
  proof (rule foldl_invariant [where P = "\<lambda>b. nominalBudget b = NaN \<and> currentCeiling b = NaN \<and> remaining b = NaN"])
    show "nominalBudget (new_poll_budget cfg i None) = NaN \<and> currentCeiling (new_poll_budget cfg i None) = NaN
        \<and> remaining (new_poll_budget cfg i None) = NaN"
      using new by (simp add: new_poll_budget_def Let_def)
  next
    fix b :: poll_budget and q assume b: "nominalBudget b = NaN \<and> currentCeiling b = NaN \<and> remaining b = NaN"
    show "nominalBudget (budget_step cfg b q) = NaN \<and> currentCeiling (budget_step cfg b q) = NaN
        \<and> remaining (budget_step cfg b q) = NaN"
      using b by (cases q) (auto simp: startCycle_def tryConsume_def refund_tokens_def recordRateLimited_def
          recordDeferred_def recordPolled_def less div jmax_def jmin_def jsub_def Let_def)
  qed
  then show ?thesis by (simp add: tryConsume_def less)
qed

theorem misread_setting_unlimited_witness:
  "let cfg = poll_config_of (Fin 3600) NaN (Fin 1) (Fin 4) (Fin 3600000)
   in snd (tryConsume (IntN 1000) (foldl (budget_step cfg) (new_poll_budget cfg None None) [StartCycle, Consume 100000]))"
  unfolding Let_def by (rule misread_setting_unlimited) (simp add: poll_config_of_def)

subsection \<open>Priorities and order\<close>

text \<open>Numbers on the grid of the smallest positive double; their differences round to zero only when zero.\<close>

definition on_grid :: "rat \<Rightarrow> bool" where
  "on_grid x \<longleftrightarrow> (\<exists>k :: int. x = of_int k * pow2 (- 1074))"

lemma on_grid_round64: "on_grid (round64 x)"
proof (cases "x = 0")
  case True
  then show ?thesis by (auto simp: on_grid_def intro: exI [of _ 0])
next
  case False
  have "pow2 (ulp_exp x) = pow2 (ulp_exp x + 1074) * pow2 (- 1074)" by (simp add: pow2_add [symmetric])
  also have "pow2 (ulp_exp x + 1074) = of_int (2 ^ nat (ulp_exp x + 1074))"
    by (simp add: pow2_def ulp_exp_def)
  finally have "round64 x = of_int (round_half_even (x / pow2 (ulp_exp x)) * 2 ^ nat (ulp_exp x + 1074)) * pow2 (- 1074)"
    using False by (simp add: round64_def)
  then show ?thesis unfolding on_grid_def by blast
qed

lemma on_grid_diff: "on_grid x \<Longrightarrow> on_grid y \<Longrightarrow> on_grid (x - y)"
  unfolding on_grid_def by (metis left_diff_distrib of_int_diff)

lemma grid_ulp:
  assumes "on_grid x" "x \<noteq> 0"
  shows "pow2 (ulp_exp x) \<le> \<bar>x\<bar>"
proof (cases "ulp_exp x = - 1074")
  case True
  obtain k where k: "x = of_int k * pow2 (- 1074)" using assms(1) by (auto simp: on_grid_def)
  then have "1 \<le> \<bar>k\<bar>" using assms(2) by auto
  then have "(1 :: rat) \<le> of_int \<bar>k\<bar>" by (simp only: of_int_1_le_iff)
  then have "1 * pow2 (- 1074) \<le> of_int \<bar>k\<bar> * pow2 (- 1074)" by (intro mult_right_mono) simp_all
  then show ?thesis unfolding True by (simp add: k abs_mult)
next
  case False
  then have "ulp_exp x \<le> ilog2 \<bar>x\<bar>" using assms(2) by (auto simp: ulp_exp_def max_def split: if_splits)
  then show ?thesis using pow2_mono [of "ulp_exp x" "ilog2 \<bar>x\<bar>"] ilog2_bounds(1) [of "\<bar>x\<bar>"] assms(2) by simp
qed

lemma round64_grid_pos:
  assumes "on_grid x" "0 < x"
  shows "0 < round64 x"
proof -
  have "1 \<le> x / pow2 (ulp_exp x)" using grid_ulp [OF assms(1)] assms(2) by (simp add: pos_le_divide_eq)
  then have "round_half_even (of_int 1) \<le> round_half_even (x / pow2 (ulp_exp x))"
    by (intro round_half_even_mono) simp
  then have "1 \<le> round_half_even (x / pow2 (ulp_exp x))" by (simp only: round_half_even_int)
  then show ?thesis using assms(2) by (simp add: round64_def zero_less_mult_iff)
qed

lemma round64_grid_neg:
  assumes "on_grid x" "x < 0"
  shows "round64 x < 0"
proof -
  have "x / pow2 (ulp_exp x) \<le> - 1" using grid_ulp [OF assms(1)] assms(2) by (simp add: pos_divide_le_eq)
  then have "round_half_even (x / pow2 (ulp_exp x)) \<le> round_half_even (of_int (- 1))"
    by (intro round_half_even_mono) simp
  then have "round_half_even (x / pow2 (ulp_exp x)) \<le> - 1" by (simp only: round_half_even_int)
  then show ?thesis using assms(2) by (simp add: round64_def mult_less_0_iff)
qed

text \<open>The score that does not come from waiting lies between zero and 1270, and waiting adds 15 per cycle.\<close>

lemma to_num_unit:
  assumes "0 \<le> x" "x \<le> of_int n" "0 \<le> n" "n \<le> 2 ^ 53"
  shows "\<exists>y. to_num x = Fin y \<and> 0 \<le> y \<and> y \<le> of_int n"
proof -
  have "(of_int n :: rat) \<le> of_int (2 ^ 53)" using assms(4) by (simp only: of_int_le_iff)
  also have "\<dots> = 2 ^ 53" by simp
  also have "\<dots> \<le> 2 ^ 1000" by (rule power_increasing) simp_all
  finally have "\<bar>x\<bar> \<le> 2 ^ 1000" using assms(1,2) by simp
  then have "to_num x = Fin (round64 x)" by (rule to_num_finite)
  with round64_nonneg [OF assms(1)] round64_le_int [OF assms(1,2)] assms(3,4) show ?thesis by auto
qed

lemma freshness_unit:
  assumes "0 \<le> age" "jless (IntN age) w"
  shows "\<exists>f. jsub (Fin 1) (jdiv (IntN age) w) = Fin f \<and> 0 \<le> f \<and> f \<le> 1"
proof -
  have "\<exists>r. jdiv (IntN age) w = Fin r \<and> 0 \<le> r \<and> r \<le> 1"
  proof (cases w)
    case (Fin x)
    with assms have "0 < x" "of_int age \<le> x" "(0 :: rat) \<le> of_int age" by (auto intro: le_less_trans)
    then show ?thesis using to_num_unit [of "of_int age / x" 1] Fin by (simp add: pos_divide_le_eq)
  qed (use assms(2) in auto)
  then obtain r where "jdiv (IntN age) w = Fin r" "0 \<le> r" "r \<le> 1" by blast
  with to_num_unit [of "1 - r" 1] show ?thesis by (simp add: jsub_def)
qed

lemma activity_score_bounds:
  assumes "0 \<le> a" "a \<le> 1250"
  shows "\<exists>x. activity_score cfg now sg (IntN a) = Fin x \<and> 0 \<le> x \<and> x \<le> 1270"
proof (cases "\<exists>t. lastActivityAt sg = Some t \<and> now - t \<ge> 0 \<and> jless (IntN (now - t)) (RECENT_ACTIVITY_WINDOW_MS cfg)")
  case True
  then obtain t where t: "lastActivityAt sg = Some t" "now - t \<ge> 0"
    "jless (IntN (now - t)) (RECENT_ACTIVITY_WINDOW_MS cfg)" by blast
  obtain f where f: "jsub (Fin 1) (jdiv (IntN (now - t)) (RECENT_ACTIVITY_WINDOW_MS cfg)) = Fin f" "0 \<le> f" "f \<le> 1"
    using freshness_unit [OF t(2,3)] by blast
  obtain y where y: "to_num (20 * f) = Fin y" "0 \<le> y" "y \<le> 20" using to_num_unit [of "20 * f" 20] f by auto
  have "(of_int a :: rat) \<le> of_int 1250" using assms(2) by (simp only: of_int_le_iff)
  then obtain x where "to_num (of_int a + y) = Fin x" "0 \<le> x" "x \<le> 1270"
    using to_num_unit [of "of_int a + y" 1270] y assms(1) by auto
  moreover have "activity_score cfg now sg (IntN a) = jadd (IntN a) (jmul PRIORITY_RECENT_ACTIVITY (Fin f))"
    using t f(1) unfolding activity_score_def Let_def by (simp del: of_int_diff jadd.simps jless.simps)
  ultimately show ?thesis using y(1) by (simp add: PRIORITY_RECENT_ACTIVITY_def)
next
  case False
  then have "activity_score cfg now sg (IntN a) = IntN a"
    unfolding activity_score_def Let_def by (auto split: option.split)
  moreover have "(of_int a :: rat) \<le> of_int 1250" using assms(2) by (simp only: of_int_le_iff)
  ultimately show ?thesis using assms(1) by auto
qed

lemma priority_bounds:
  assumes "sig_cyclesDeferred sg \<le> 2 ^ 40"
  shows "\<exists>x. computeSchoolPriority cfg now sch sg = Fin x \<and> on_grid x
    \<and> of_int (15 * int (sig_cyclesDeferred sg)) \<le> x \<and> x \<le> of_int (15 * int (sig_cyclesDeferred sg) + 1270)"
proof -
  let ?k = "15 * int (sig_cyclesDeferred sg)"
  have k: "0 \<le> ?k" "?k \<le> 2 ^ 44" using assms by auto
  define a1 :: int where "a1 = (if syncCursor sch = None \<or> syncCursor sch = Some [] then 250 else 0)"
  define a2 :: int where "a2 = a1 + min (int (pendingCount sg)) 10 * 100"
  have a: "0 \<le> a1" "a1 \<le> 250" "0 \<le> a2" "a2 \<le> 1250" by (auto simp: a1_def a2_def)
  have s1: "(if syncCursor sch = None \<or> syncCursor sch = Some [] then jadd (Fin 0) PRIORITY_NEVER_SYNCED else Fin 0) = IntN a1"
    using jadd_int [of 0 250] by (simp add: a1_def PRIORITY_NEVER_SYNCED_def)
  have pend: "jmul (jmin (IntN (int (pendingCount sg))) (Fin 10)) PRIORITY_PENDING_PAYMENT
      = IntN (min (int (pendingCount sg)) 10 * 100)"
    using jmin_int [of "int (pendingCount sg)" 10] jmul_int [of "min (int (pendingCount sg)) 10" 100]
    by (simp add: PRIORITY_PENDING_PAYMENT_def del: of_int_mult jmul.simps)
  have s2: "jadd (IntN a1) (jmul (jmin (IntN (int (pendingCount sg))) (Fin 10)) PRIORITY_PENDING_PAYMENT) = IntN a2"
    unfolding pend a2_def using a by (intro jadd_int) (auto simp: a2_def)
  obtain x where x: "activity_score cfg now sg (IntN a2) = Fin x" "0 \<le> x" "x \<le> 1270"
    using activity_score_bounds [OF a(3,4)] by blast
  have aging: "jmul (IntN (int (sig_cyclesDeferred sg))) PRIORITY_AGING_PER_CYCLE = IntN ?k"
    using jmul_int [of "int (sig_cyclesDeferred sg)" 15] k by (simp add: PRIORITY_AGING_PER_CYCLE_def mult.commute)
  have p: "computeSchoolPriority cfg now sch sg = to_num (x + of_int ?k)"
    unfolding computeSchoolPriority_def Let_def s1 s2 x(1) aging by simp
  have lo: "of_int ?k \<le> x + of_int ?k" and hi: "x + of_int ?k \<le> of_int (?k + 1270)" using x by auto
  have "(of_int (?k + 1270) :: rat) \<le> of_int (2 ^ 53)" using k by (simp only: of_int_le_iff) simp
  also have "(of_int (2 ^ 53) :: rat) = 2 ^ 53" by simp
  also have "(2 ^ 53 :: rat) \<le> 2 ^ 1000" by (rule power_increasing) simp_all
  finally have "\<bar>x + of_int ?k\<bar> \<le> 2 ^ 1000" using hi x(2) k(1) by linarith
  then have "to_num (x + of_int ?k) = Fin (round64 (x + of_int ?k))" by (rule to_num_finite)
  moreover have "of_int ?k \<le> round64 (x + of_int ?k)" using k lo by (intro round64_ge_int) auto
  moreover have "round64 (x + of_int ?k) \<le> of_int (?k + 1270)"
    using k hi x(2) by (intro round64_le_int) auto
  ultimately show ?thesis unfolding p using on_grid_round64 by blast
qed

text \<open>A priority the comparator treats as a number should be.\<close>

definition good_priority :: "jsnum \<Rightarrow> bool" where
  "good_priority p \<longleftrightarrow> (\<exists>x. p = Fin x \<and> on_grid x \<and> 0 \<le> x \<and> x \<le> 2 ^ 53)"

lemma polled_before_iff:
  assumes "good_priority p" "good_priority q"
  shows "polled_before lc (s, p) (t, q) \<longleftrightarrow> jless q p \<or> (q = p \<and> lc (schoolId s) (schoolId t) \<le> 0)"
proof -
  obtain x y where x: "p = Fin x" "on_grid x" "0 \<le> x" "x \<le> 2 ^ 53" and y: "q = Fin y" "on_grid y" "0 \<le> y" "y \<le> 2 ^ 53"
    using assms by (auto simp: good_priority_def)
  have "(2 ^ 53 :: rat) \<le> 2 ^ 1000" by (rule power_increasing) simp_all
  then have "\<bar>y - x\<bar> \<le> 2 ^ 1000" using x y by linarith
  then have "jsub q p = Fin (round64 (y - x))" using to_num_finite [of "y - x"] by (simp add: x y jsub_def)
  then show ?thesis
    using round64_grid_pos [of "y - x"] round64_grid_neg [of "y - x"] on_grid_diff [OF y(2) x(2)]
    by (cases "y < x"; cases "x < y") (simp_all add: polled_before_def x y)
qed

lemma sort_insert_mset [simp]: "mset (sort_insert le x xs) = add_mset x (mset xs)"
  by (induction xs) auto

lemma sort_insert_sorted:
  assumes "sorted_wrt R xs" and "insert x (set xs) \<subseteq> A"
    and "\<And>a b. a \<in> A \<Longrightarrow> b \<in> A \<Longrightarrow> if le a b then R a b else R b a"
    and "\<And>a b c. R a b \<Longrightarrow> R b c \<Longrightarrow> R a c"
  shows "sorted_wrt R (sort_insert le x xs)"
  using assms(1,2)
proof (induction xs)
  case (Cons y ys)
  have set: "set (sort_insert le x ys) = insert x (set ys)" by (metis set_mset_add_mset_insert set_mset_mset sort_insert_mset)
  have xy: "if le x y then R x y else R y x" using assms(3) [of x y] Cons.prems by auto
  show ?case
  proof (cases "le x y")
    case True
    with xy Cons.prems assms(4) show ?thesis by auto
  next
    case False
    with xy Cons set show ?thesis by auto
  qed
qed simp

lemma foldr_sort_insert_mset: "mset (foldr (sort_insert le) xs []) = mset xs"
  by (induction xs) auto

lemma orderSchools_set:
  "set (orderSchoolsByPriority cfg lc schools sgs now)
   = (\<lambda>s. (s, computeSchoolPriority cfg now s (case sgs (schoolId s) of None \<Rightarrow> no_signals | Some sg \<Rightarrow> sg))) ` set schools"
  unfolding orderSchoolsByPriority_def mset_eq_setD [OF foldr_sort_insert_mset] by simp

lemma orderSchools_mset:
  "mset (map fst (orderSchoolsByPriority cfg lc schools sgs now)) = mset schools"
proof -
  have "image_mset fst (mset (orderSchoolsByPriority cfg lc schools sgs now))
      = image_mset fst (image_mset (\<lambda>s. (s, computeSchoolPriority cfg now s
          (case sgs (schoolId s) of None \<Rightarrow> no_signals | Some sg \<Rightarrow> sg))) (mset schools))"
    by (simp add: orderSchoolsByPriority_def foldr_sort_insert_mset)
  then show ?thesis by (simp add: image_mset.compositionality comp_def)
qed

lemma orderSchools_sorted:
  assumes "\<forall>s\<in>set schools. good_priority (computeSchoolPriority cfg now s
      (case sgs (schoolId s) of None \<Rightarrow> no_signals | Some sg \<Rightarrow> sg))"
  shows "sorted_wrt (\<lambda>a b. jless (snd b) (snd a) \<or> snd b = snd a) (orderSchoolsByPriority cfg lc schools sgs now)"
proof -
  let ?R = "\<lambda>a b. jless (snd b) (snd a) \<or> snd b = snd a"
  have cmp: "if polled_before lc a b then ?R a b else ?R b a" if "good_priority (snd a)" "good_priority (snd b)" for a b
    using polled_before_iff [OF that, of lc "fst a" "fst b"] that by (auto simp: good_priority_def)
  have trans: "?R a c" if "?R a b" "?R b c" for a b c :: "school \<times> jsnum"
    using that by (cases "snd a"; cases "snd b"; cases "snd c") auto
  have "sorted_wrt ?R (foldr (sort_insert (polled_before lc)) xs [])" if "\<forall>a\<in>set xs. good_priority (snd a)" for xs
    using that
  proof (induction xs)
    case (Cons x xs)
    have "set (foldr (sort_insert (polled_before lc)) xs []) = set xs"
      by (rule mset_eq_setD [OF foldr_sort_insert_mset])
    then have sub: "insert x (set (foldr (sort_insert (polled_before lc)) xs [])) \<subseteq> {a. good_priority (snd a)}"
      using Cons.prems by auto
    have "sorted_wrt ?R (sort_insert (polled_before lc) x (foldr (sort_insert (polled_before lc)) xs []))"
      using Cons by (intro sort_insert_sorted [OF _ sub cmp trans]) auto
    then show ?case by simp
  qed simp
  from this [of "map (\<lambda>s. (s, computeSchoolPriority cfg now s
      (case sgs (schoolId s) of None \<Rightarrow> no_signals | Some sg \<Rightarrow> sg))) schools"] assms
  show ?thesis unfolding orderSchoolsByPriority_def by simp
qed

subsection \<open>No school waits forever\<close>

text \<open>
  One cycle as the poller runs it: the signals of the schools, of which the database provides all but
  the waiting counters, their order, and the update of the counters after the polls. Which schools
  were polled to their end is an argument.
\<close>

definition gatherSchoolSignals ::
  "school list \<Rightarrow> (string \<rightharpoonup> nat \<times> millis option) \<Rightarrow> poll_budget \<Rightarrow> string \<rightharpoonup> signals" where
  "gatherSchoolSignals schools rows b =
     (\<lambda>sid. if sid \<in> schoolId ` set schools
            then Some (case rows sid of
                None \<Rightarrow> \<lparr>pendingCount = 0, lastActivityAt = None, sig_cyclesDeferred = getDeferralCount sid b\<rparr>
              | Some (n, t) \<Rightarrow> \<lparr>pendingCount = n, lastActivityAt = t, sig_cyclesDeferred = getDeferralCount sid b\<rparr>)
            else None)"

record cycle_input =
  ci_schools :: "school list"
  ci_rows :: "string \<rightharpoonup> nat \<times> millis option"
  ci_now :: millis
  ci_polled :: "string \<Rightarrow> bool"

definition cycle_order ::
  "poll_config \<Rightarrow> (string \<Rightarrow> string \<Rightarrow> int) \<Rightarrow> poll_budget \<Rightarrow> cycle_input \<Rightarrow> (school \<times> jsnum) list" where
  "cycle_order cfg lc b ci =
     orderSchoolsByPriority cfg lc (ci_schools ci) (gatherSchoolSignals (ci_schools ci) (ci_rows ci) b) (ci_now ci)"

definition poll_cycle ::
  "poll_config \<Rightarrow> (string \<Rightarrow> string \<Rightarrow> int) \<Rightarrow> poll_budget \<Rightarrow> cycle_input \<Rightarrow> poll_budget" where
  "poll_cycle cfg lc b ci =
     (let b1 = startCycle cfg b
      in update_aging (map (\<lambda>(s, p). (s, ci_polled ci (schoolId s))) (cycle_order cfg lc b1 ci)) b1)"

lemma getDeferralCount_simps [simp]:
  "getDeferralCount t (recordDeferred s b) = (if t = s then getDeferralCount s b + 1 else getDeferralCount t b)"
  "getDeferralCount t (recordPolled s b) = (if t = s then 0 else getDeferralCount t b)"
  "getDeferralCount t (startCycle cfg b) = getDeferralCount t b"
  by (simp_all add: getDeferralCount_def recordDeferred_def recordPolled_def startCycle_def Let_def
      update_conv' delete_conv')

lemma update_aging_count:
  "distinct (map (schoolId \<circ> fst) rs) \<Longrightarrow>
   getDeferralCount t (update_aging rs b) =
     (case map_of (map (\<lambda>(s, p). (schoolId s, p)) rs) t of
        None \<Rightarrow> getDeferralCount t b
      | Some polled \<Rightarrow> if polled then 0 else getDeferralCount t b + 1)"
proof (induction rs arbitrary: b)
  case Nil
  show ?case by (simp add: update_aging_def)
next
  case (Cons r rs)
  obtain s p where r: "r = (s, p)" by (cases r)
  have none: "map_of (map (\<lambda>(s, p). (schoolId s, p)) rs) (schoolId s) = None"
    using Cons.prems r by (force simp: map_of_eq_None_iff)
  have "update_aging (r # rs) b
      = update_aging rs (if p then recordPolled (schoolId s) b else recordDeferred (schoolId s) b)"
    by (simp add: update_aging_def r)
  with Cons none show ?case by (cases "t = schoolId s") (auto simp: r split: option.split)
qed

lemma cycle_count:
  assumes "distinct (map schoolId (ci_schools ci))"
  shows "getDeferralCount t (poll_cycle cfg lc b ci) =
    (if t \<in> schoolId ` set (ci_schools ci)
     then (if ci_polled ci t then 0 else getDeferralCount t b + 1) else getDeferralCount t b)"
proof -
  let ?o = "cycle_order cfg lc (startCycle cfg b) ci"
  let ?rs = "map (\<lambda>(s, p). (s, ci_polled ci (schoolId s))) ?o"
  have m: "mset (map fst ?o) = mset (ci_schools ci)" unfolding cycle_order_def by (rule orderSchools_mset)
  have "map (schoolId \<circ> fst) ?rs = map schoolId (map fst ?o)" by (simp add: split_beta)
  moreover have "distinct (map schoolId (map fst ?o))" using assms m by (metis mset_eq_imp_distinct_iff mset_map)
  ultimately have d: "distinct (map (schoolId \<circ> fst) ?rs)" by (simp only:)
  have "map_of (map (\<lambda>(s, p). (schoolId s, p)) (map (\<lambda>(s, p). (s, ci_polled ci (schoolId s))) os)) t =
      (if t \<in> schoolId ` set (map fst os) then Some (ci_polled ci t) else None)" for os :: "(school \<times> jsnum) list"
    by (induction os) auto
  moreover have "set (map fst ?o) = set (ci_schools ci)" using m by (metis set_mset_mset)
  ultimately show ?thesis using update_aging_count [OF d, of t "startCycle cfg b"] by (simp add: poll_cycle_def Let_def)
qed

text \<open>The first school of the order has waited at most 84 cycles less than any other.\<close>

lemma head_of_order:
  assumes d: "distinct (map schoolId (ci_schools ci))"
    and small: "\<forall>s\<in>set (ci_schools ci). getDeferralCount (schoolId s) b \<le> 2 ^ 40"
    and h: "cycle_order cfg lc b ci = (h, p) # rest" and s: "s \<in> set (ci_schools ci)"
  shows "h \<in> set (ci_schools ci)" "getDeferralCount (schoolId s) b < getDeferralCount (schoolId h) b + 85"
proof -
  let ?sg = "gatherSchoolSignals (ci_schools ci) (ci_rows ci) b"
  let ?pr = "\<lambda>s. computeSchoolPriority cfg (ci_now ci) s (case ?sg (schoolId s) of None \<Rightarrow> no_signals | Some sg \<Rightarrow> sg)"
  have bounds: "\<exists>x. ?pr s = Fin x \<and> on_grid x \<and> of_int (15 * int (getDeferralCount (schoolId s) b)) \<le> x
      \<and> x \<le> of_int (15 * int (getDeferralCount (schoolId s) b) + 1270)" if "s \<in> set (ci_schools ci)" for s
  proof -
    have "sig_cyclesDeferred (case ?sg (schoolId s) of None \<Rightarrow> no_signals | Some sg \<Rightarrow> sg) = getDeferralCount (schoolId s) b"
      using that by (auto simp: gatherSchoolSignals_def split: option.split)
    with priority_bounds [of "case ?sg (schoolId s) of None \<Rightarrow> no_signals | Some sg \<Rightarrow> sg" cfg "ci_now ci" s] small that
    show ?thesis by simp
  qed
  have "good_priority (?pr s)" if s: "s \<in> set (ci_schools ci)" for s
  proof -
    let ?n = "15 * int (getDeferralCount (schoolId s) b)"
    obtain x where x: "?pr s = Fin x" "on_grid x" "of_int ?n \<le> x" "x \<le> of_int (?n + 1270)" using bounds [OF s] by blast
    have "?n + 1270 \<le> 2 ^ 53" using small s by fastforce
    then have "(of_int (?n + 1270) :: rat) \<le> of_int (2 ^ 53)" by (simp only: of_int_le_iff)
    moreover have "(0 :: rat) \<le> of_int ?n" by (simp only: of_int_0_le_iff)
    ultimately show ?thesis using x unfolding good_priority_def by (intro exI [of _ x]) auto
  qed
  then have sorted: "sorted_wrt (\<lambda>a b. jless (snd b) (snd a) \<or> snd b = snd a) ((h, p) # rest)"
    using orderSchools_sorted [of "ci_schools ci" cfg "ci_now ci" ?sg lc] h unfolding cycle_order_def by auto
  have m: "mset (map fst ((h, p) # rest)) = mset (ci_schools ci)"
    using orderSchools_mset [of cfg lc "ci_schools ci" ?sg "ci_now ci"] h unfolding cycle_order_def by simp
  have set: "set (map fst ((h, p) # rest)) = set (ci_schools ci)" by (rule mset_eq_setD [OF m])
  then show hin: "h \<in> set (ci_schools ci)" by auto
  have pr: "a \<in> set ((h, p) # rest) \<Longrightarrow> snd a = ?pr (fst a)" for a
    unfolding h [symmetric] cycle_order_def orderSchools_set by auto
  have "s \<in> fst ` set ((h, p) # rest)" using s unfolding set [symmetric] by simp
  then obtain q where q: "(s, q) \<in> set ((h, p) # rest)" by (auto simp del: set_simps)
  have "jless q p \<or> q = p" using sorted q by auto
  moreover have "p = ?pr h" "q = ?pr s" using pr [of "(h, p)"] pr [OF q] by auto
  ultimately obtain x y where "x \<le> y" "of_int (15 * int (getDeferralCount (schoolId s) b)) \<le> x"
    "y \<le> (of_int (15 * int (getDeferralCount (schoolId h) b) + 1270) :: rat)"
    using bounds [OF s] bounds [OF hin] by auto
  then have "(of_int (15 * int (getDeferralCount (schoolId s) b)) :: rat)
      \<le> of_int (15 * int (getDeferralCount (schoolId h) b) + 1270)" by linarith
  then have "15 * int (getDeferralCount (schoolId s) b) \<le> 15 * int (getDeferralCount (schoolId h) b) + 1270"
    by (simp only: of_int_le_iff)
  then show "getDeferralCount (schoolId s) b < getDeferralCount (schoolId h) b + 85" by linarith
qed

text \<open>The schools that have waited at least 85 cycles less than the given one.\<close>

definition far_behind :: "string set \<Rightarrow> poll_budget \<Rightarrow> string \<Rightarrow> string set" where
  "far_behind ids b s = {t \<in> ids. getDeferralCount t b + 85 \<le> getDeferralCount s b}"

definition waiting_bound :: "string set \<Rightarrow> poll_budget \<Rightarrow> bool" where
  "waiting_bound ids b \<longleftrightarrow> (\<forall>s\<in>ids. getDeferralCount s b \<le> 85 + card (far_behind ids b s))"

lemma waiting_bound_card:
  assumes "waiting_bound ids b" "finite ids" "s \<in> ids"
  shows "getDeferralCount s b \<le> 84 + card ids"
proof -
  have "far_behind ids b s \<subseteq> ids - {s}" by (auto simp: far_behind_def)
  then have "card (far_behind ids b s) \<le> card (ids - {s})" using assms(2) by (intro card_mono) auto
  also have "\<dots> = card ids - 1" using assms(2,3) by simp
  finally have "card (far_behind ids b s) \<le> card ids - 1" .
  moreover have "card ids > 0" using assms(2,3) by (auto simp: card_gt_0_iff)
  ultimately show ?thesis using assms(1,3) unfolding waiting_bound_def by force
qed

text \<open>A cycle over these schools in which the first of the order is polled to its end.\<close>

definition fair_cycle ::
  "poll_config \<Rightarrow> (string \<Rightarrow> string \<Rightarrow> int) \<Rightarrow> string set \<Rightarrow> poll_budget \<Rightarrow> cycle_input \<Rightarrow> bool" where
  "fair_cycle cfg lc ids b ci \<longleftrightarrow> distinct (map schoolId (ci_schools ci)) \<and> schoolId ` set (ci_schools ci) = ids
     \<and> ci_polled ci (schoolId (fst (hd (cycle_order cfg lc (startCycle cfg b) ci))))"

lemma fair_cycle_bound:
  assumes wb: "waiting_bound ids b" and fin: "finite ids" and few: "card ids \<le> 2 ^ 39"
    and fair: "fair_cycle cfg lc ids b ci"
  shows "waiting_bound ids (poll_cycle cfg lc b ci)"
  unfolding waiting_bound_def
proof
  fix s assume s: "s \<in> ids"
  let ?b' = "poll_cycle cfg lc b ci"
  have d: "distinct (map schoolId (ci_schools ci))" and ids: "schoolId ` set (ci_schools ci) = ids"
    using fair by (auto simp: fair_cycle_def)
  note count = cycle_count [OF d, of _ cfg lc b, unfolded ids]
  show "getDeferralCount s ?b' \<le> 85 + card (far_behind ids ?b' s)"
  proof (cases "ci_polled ci s \<or> getDeferralCount s b < 85")
    case True
    then show ?thesis using count [of s] s by auto
  next
    case False
    then have cs: "getDeferralCount s ?b' = getDeferralCount s b + 1" "\<not> ci_polled ci s" "85 \<le> getDeferralCount s b"
      using count [of s] s by auto
    have small: "\<forall>x\<in>set (ci_schools ci). getDeferralCount (schoolId x) (startCycle cfg b) \<le> 2 ^ 40"
      using waiting_bound_card [OF wb fin] few ids by fastforce
    obtain x where x: "x \<in> set (ci_schools ci)" "schoolId x = s" using s ids by auto
    have "set (cycle_order cfg lc (startCycle cfg b) ci) \<noteq> {}"
      unfolding cycle_order_def orderSchools_set using x(1) by auto
    then obtain h p rest where o: "cycle_order cfg lc (startCycle cfg b) ci = (h, p) # rest"
      by (cases "cycle_order cfg lc (startCycle cfg b) ci") auto
    have h: "schoolId h \<in> ids" "getDeferralCount s b < getDeferralCount (schoolId h) b + 85" "ci_polled ci (schoolId h)"
      using head_of_order [OF d small o x(1)] x(2) ids fair o by (auto simp: fair_cycle_def)
    have "t \<in> far_behind ids ?b' s" if "t = schoolId h \<or> t \<in> far_behind ids b s" for t
      using that h(1,3) cs(1,3) count [of t] by (auto simp: far_behind_def split: if_splits)
    then have "insert (schoolId h) (far_behind ids b s) \<subseteq> far_behind ids ?b' s" by blast
    moreover have "finite (far_behind ids ?b' s)" using fin by (simp add: far_behind_def)
    ultimately have "card (insert (schoolId h) (far_behind ids b s)) \<le> card (far_behind ids ?b' s)" by (intro card_mono)
    moreover have "schoolId h \<notin> far_behind ids b s" using h(2) by (simp add: far_behind_def)
    moreover have "finite (far_behind ids b s)" using fin by (simp add: far_behind_def)
    ultimately show ?thesis using wb s cs(1) unfolding waiting_bound_def by fastforce
  qed
qed

fun fair_run ::
  "poll_config \<Rightarrow> (string \<Rightarrow> string \<Rightarrow> int) \<Rightarrow> string set \<Rightarrow> poll_budget \<Rightarrow> cycle_input list \<Rightarrow> bool" where
  "fair_run cfg lc ids b [] = True"
| "fair_run cfg lc ids b (ci # inputs) = (fair_cycle cfg lc ids b ci \<and> fair_run cfg lc ids (poll_cycle cfg lc b ci) inputs)"

lemma fair_run_bound:
  "waiting_bound ids b \<Longrightarrow> finite ids \<Longrightarrow> card ids \<le> 2 ^ 39 \<Longrightarrow> fair_run cfg lc ids b inputs \<Longrightarrow>
   waiting_bound ids (foldl (poll_cycle cfg lc) b inputs)"
proof (induction inputs arbitrary: b)
  case (Cons ci inputs)
  from Cons.prems(4) have "fair_cycle cfg lc ids b ci" "fair_run cfg lc ids (poll_cycle cfg lc b ci) inputs" by auto
  with Cons.IH [OF fair_cycle_bound [OF Cons.prems(1-3)]] Cons.prems(2,3) show ?case by simp
qed simp

text \<open>C34: Waiting is bounded: with \<open>n\<close> schools, whatever payments are pending, whenever activity was seen and
  however the clock and the budget behave, if each cycle polls at least the first school of its
  order to the end, no school is ever deferred more than \<open>84 + n\<close> cycles in a row.\<close>

theorem staleness_bounded:
  assumes "finite ids" "card ids \<le> 2 ^ 39" "s \<in> ids"
    and "fair_run cfg lc ids (new_poll_budget cfg i o') inputs"
  shows "getDeferralCount s (foldl (poll_cycle cfg lc) (new_poll_budget cfg i o') inputs) \<le> 84 + card ids"
proof -
  have "waiting_bound ids (new_poll_budget cfg i o')"
    by (simp add: waiting_bound_def getDeferralCount_def new_poll_budget_def Let_def)
  from fair_run_bound [OF this assms(1,2,4)] show ?thesis by (rule waiting_bound_card) (use assms in auto)
qed

text \<open>Two schools of which only the first in the order is polled.\<close>

definition two_schools :: cycle_input where
  "two_schools = \<lparr>ci_schools = [\<lparr>schoolId = ''b'', syncCursor = Some ''9''\<rparr>, \<lparr>schoolId = ''a'', syncCursor = None\<rparr>],
     ci_rows = Map.empty, ci_now = 0, ci_polled = (\<lambda>_. False)\<rparr>"

definition sample_budget :: poll_budget where
  "sample_budget = new_poll_budget default_poll_config None (Some (Fin 10))"

definition first_polled :: "poll_budget \<Rightarrow> cycle_input" where
  "first_polled b = two_schools\<lparr>ci_polled := (\<lambda>s. s = schoolId (fst (hd
     (cycle_order default_poll_config (\<lambda>_ _. 0) (startCycle default_poll_config b) two_schools))))\<rparr>"

lemma two_schools_fair: "fair_cycle default_poll_config (\<lambda>_ _. 0) {''a'', ''b''} b (first_polled b)"
  by (auto simp: fair_cycle_def first_polled_def two_schools_def cycle_order_def)

theorem staleness_bounded_witness:
  "getDeferralCount ''b'' (foldl (poll_cycle default_poll_config (\<lambda>_ _. 0)) sample_budget [first_polled sample_budget])
   \<le> 84 + card {''a'', ''b''}"
  unfolding sample_budget_def
proof (rule staleness_bounded)
  show "fair_run default_poll_config (\<lambda>_ _. 0) {''a'', ''b''} (new_poll_budget default_poll_config None (Some (Fin 10)))
      [first_polled (new_poll_budget default_poll_config None (Some (Fin 10)))]"
    by (simp add: two_schools_fair)
qed simp_all

subsection \<open>A long backlog\<close>

lemma page_loop_at:
  assumes "budget_at m n c u b"
  shows "let need = min maxPages (Suc available); (b', exhausted) = page_loop maxPages available b
         in exhausted = (c - u < int need) \<and> budget_at m n c (min c (u + int need)) b'"
  using assms
proof (induction maxPages arbitrary: available b u)
  case 0
  then show ?case by (auto simp: budget_at_def)
next
  case (Suc maxPages)
  obtain b1 g where t: "tryConsume (IntN 1) b = (b1, g)" by (cases "tryConsume (IntN 1) b")
  have g: "g \<longleftrightarrow> 1 \<le> c - u" and b1: "budget_at m n c (if 1 \<le> c - u then u + 1 else u) b1"
    using tryConsume_at [OF Suc.prems, of 1] t by simp_all
  have t1: "tryConsume (Fin 1) b = (b1, g)" using t by simp
  have uc: "u \<le> c" using Suc.prems by (simp add: budget_at_def)
  show ?case
  proof (cases "g \<and> available \<noteq> 0")
    case True
    then obtain left where a: "available = Suc left" by (cases available) auto
    have b1': "budget_at m n c (u + 1) b1" using b1 True g by simp
    have "page_loop (Suc maxPages) available b = page_loop maxPages left b1" using t1 a True by simp
    then show ?thesis using Suc.IH [OF b1', of left] a uc True g by (simp add: Let_def split_beta algebra_simps)
  next
    case False
    show ?thesis
    proof (cases g)
      case True
      with False have pl: "page_loop (Suc maxPages) available b = (b1, False)" and av: "available = 0" using t1 by simp_all
      have "min c (u + 1) = u + 1" using True g by simp
      with True g b1 av t1 show ?thesis by (simp add: Let_def)
    next
      case no: False
      then have "c = u" using g uc by simp
      with no g b1 t1 show ?thesis by (simp add: Let_def)
    qed
  qed
qed

text \<open>The schools polled one after the other, each with the pages Horizon has for it.\<close>

fun poll_in_order :: "nat \<Rightarrow> (school \<times> nat) list \<Rightarrow> poll_budget \<Rightarrow> poll_budget \<times> (school \<times> bool) list" where
  "poll_in_order maxPages [] b = (b, [])"
| "poll_in_order maxPages ((s, available) # rest) b =
     (let (b1, exhausted) = page_loop maxPages available b;
          (b2, rs) = poll_in_order maxPages rest b1
      in (b2, (s, \<not> exhausted) # rs))"

lemma poll_in_order_empty:
  assumes "budget_at m n c c b" and "maxPages > 0"
  shows "snd (poll_in_order maxPages xs b) = map (\<lambda>(s, a). (s, False)) xs"
  using assms(1)
proof (induction xs arbitrary: b)
  case (Cons x xs)
  obtain s a where x: "x = (s, a)" by (cases x)
  obtain b1 e where p: "page_loop maxPages a b = (b1, e)" by (cases "page_loop maxPages a b")
  have "e \<and> budget_at m n c c b1" using page_loop_at [OF Cons.prems, of maxPages a] p assms(2) by (simp add: Let_def min_def)
  with Cons.IH [of b1] p show ?case by (simp add: x split_beta Let_def)
qed simp

text \<open>When the first school needs more pages than the budget has, it spends the whole budget and still
  counts as not polled, like every school after it: each school's waiting counter goes up by one,
  so the order they give stays as it was and the same school comes first again.\<close>

theorem backlog_keeps_its_place:
  assumes "budget_at m n c 0 b" and "c < int (min maxPages (Suc available))"
    and "distinct (map schoolId (s # map fst rest))" and "t \<in> schoolId ` set (s # map fst rest)"
  shows "let (b', results) = poll_in_order maxPages ((s, available) # rest) b
         in remaining b' = Fin 0 \<and> getDeferralCount t (update_aging results b) = getDeferralCount t b + 1"
proof -
  obtain b1 e where p: "page_loop maxPages available b = (b1, e)" by (cases "page_loop maxPages available b")
  have e: "e" "budget_at m n c c b1" and mp: "maxPages > 0"
    using page_loop_at [OF assms(1), of maxPages available] p assms(2) assms(1) by (auto simp: Let_def budget_at_def)
  let ?rs = "map (\<lambda>x. (fst x, False)) ((s, available) # rest)"
  have rs: "snd (poll_in_order maxPages ((s, available) # rest) b) = ?rs"
    using poll_in_order_empty [OF e(2) mp, of rest] p e(1) by (simp add: split_beta Let_def)
  have drained: "budget_at m n c c (fst (poll_in_order maxPages xs x))" if "budget_at m n c c x" for xs x
    using that
  proof (induction xs arbitrary: x)
    case (Cons y ys)
    obtain x1 f where "page_loop maxPages (snd y) x = (x1, f)" by (cases "page_loop maxPages (snd y) x")
    moreover from this have "budget_at m n c c x1"
      using page_loop_at [OF Cons.prems, of maxPages "snd y"] mp by (simp add: Let_def min_def)
    ultimately show ?case using Cons.IH [of x1] by (cases y) (simp add: split_beta Let_def)
  qed simp
  have "remaining (fst (poll_in_order maxPages ((s, available) # rest) b)) = Fin 0"
    using drained [OF e(2), of rest] p by (simp add: split_beta Let_def budget_at_def)
  moreover have "map_of (map (\<lambda>(s, p). (schoolId s, p)) ?rs) t = Some False"
  proof -
    have "map_of (map (\<lambda>(s, p). (schoolId s, p)) (map (\<lambda>x. (fst x, False)) xs)) t = Some False"
      if "t \<in> schoolId ` fst ` set xs" for xs :: "(school \<times> nat) list"
      using that by (induction xs) auto
    from this [of "(s, available) # rest"] assms(4) show ?thesis by simp
  qed
  moreover have "distinct (map (schoolId \<circ> fst) ?rs)" using assms(3) by (simp add: comp_def)
  ultimately show ?thesis using update_aging_count [of ?rs t b] rs by (simp add: split_beta)
qed

theorem backlog_keeps_its_place_witness:
  "let b = startCycle default_poll_config sample_budget;
       (b', results) = poll_in_order 50 [(\<lparr>schoolId = ''a'', syncCursor = None\<rparr>, 40), (\<lparr>schoolId = ''b'', syncCursor = None\<rparr>, 0)] b
   in remaining b' = Fin 0 \<and> getDeferralCount ''a'' (update_aging results b) = getDeferralCount ''a'' b + 1"
proof -
  have m: "MIN_BUDGET_PER_CYCLE default_poll_config = IntN 4"
    by (simp add: default_poll_config_def poll_config_of_def jmax_def)
  have "budget_at 4 10 10 0 sample_budget"
    by (simp add: sample_budget_def new_poll_budget_def budget_at_def Let_def)
  from startCycle_at [OF this m] have "budget_at 4 10 10 0 (startCycle default_poll_config sample_budget)"
    by (simp add: next_ceiling_def sample_budget_def new_poll_budget_def Let_def)
  from backlog_keeps_its_place [OF this, of 50 40 "\<lparr>schoolId = ''a'', syncCursor = None\<rparr>"
      "[(\<lparr>schoolId = ''b'', syncCursor = None\<rparr>, 0)]" "''a''"]
  show ?thesis by (simp only: Let_def) simp
qed

end
