(* ===== verification/Outbox_Dispatcher.thy ===== *)
theory Outbox_Dispatcher
  imports Prelude JS_String
begin

section \<open>The outbox dispatcher\<close>

text \<open>
  \<^verbatim>\<open>backend/src/services/outboxDispatcher.js\<close> with the fields of \<^verbatim>\<open>models/outboxModel.js\<close>: claiming an event
  under a lease, delivering it to the listeners that have not had it, rescheduling or giving it up,
  a batch, the recovery of expired leases and the scheduler. The collection is a list of events. What
  a listener does, and whether the database then takes the writes of the dispatcher, is a parameter: for an event, an attempt and a
  listener, whether the call succeeds and its record is written, and for the attempt whether its closing write is.
  An operation reads the clock once. Payload and trace of an event are passed through and left
  out.
\<close>

datatype ox_status = Ox_pending | Ox_processing | Ox_completed | Ox_dead_letter

record ox_event =
  ox_eventType :: string
  ox_status :: ox_status
  ox_lockedUntil :: millis
  ox_lockedBy :: "string option"
  ox_deliveredTo :: "string list"
  ox_nextAttemptAt :: millis
  ox_retryCount :: nat
  ox_lastError :: "string option"
  ox_processedAt :: "millis option"
  ox_deadLetteredAt :: "millis option"
  ox_deadLetterReason :: "string option"
  ox_createdAt :: millis

record ox_config =
  LEASE_DURATION_MS :: int
  BASE_BACKOFF_MS :: int
  MAX_BACKOFF_MS :: int

definition nextAttemptDate :: "ox_config \<Rightarrow> millis \<Rightarrow> nat \<Rightarrow> millis" where
  "nextAttemptDate cfg now retryCount = now + min (BASE_BACKOFF_MS cfg * 2 ^ retryCount) (MAX_BACKOFF_MS cfg)"

definition listenerNames :: "string list \<Rightarrow> string list" where
  "listenerNames fns = map (\<lambda>(idx, n). if n \<noteq> [] then n else ''listener_'' @ nat_to_string 10 idx) (enumerate 0 fns)"

subsection \<open>Leases\<close>

definition recover_event :: "millis \<Rightarrow> ox_event \<Rightarrow> ox_event" where
  "recover_event now e =
     (if ox_status e = Ox_processing \<and> ox_lockedUntil e < now
      then e\<lparr>ox_status := Ox_pending, ox_lockedUntil := 0, ox_lockedBy := None\<rparr> else e)"

definition recoverStaleLeases :: "millis \<Rightarrow> ox_event list \<Rightarrow> ox_event list" where
  "recoverStaleLeases now es = map (recover_event now) es"

definition claimable :: "millis \<Rightarrow> ox_event \<Rightarrow> bool" where
  "claimable now e \<longleftrightarrow> ox_status e = Ox_pending \<and> ox_nextAttemptAt e \<le> now \<and> ox_lockedUntil e < now"

text \<open>The oldest of the events that can be claimed.\<close>

definition claim_index :: "millis \<Rightarrow> ox_event list \<Rightarrow> nat option" where
  "claim_index now es =
     (case filter (\<lambda>i. claimable now (es ! i)) [0..<length es] of
        [] \<Rightarrow> None
      | i # is \<Rightarrow> Some (foldl (\<lambda>a j. if ox_createdAt (es ! j) < ox_createdAt (es ! a) then j else a) i is))"

definition claimNextEvent :: "ox_config \<Rightarrow> string \<Rightarrow> millis \<Rightarrow> ox_event list \<Rightarrow> ox_event list \<times> nat option" where
  "claimNextEvent cfg inst now es =
     (case claim_index now es of
        None \<Rightarrow> (es, None)
      | Some i \<Rightarrow> (es[i := (es ! i)\<lparr>ox_status := Ox_processing, ox_lockedUntil := now + LEASE_DURATION_MS cfg,
                                  ox_lockedBy := Some inst\<rparr>], Some i))"

subsection \<open>Delivery\<close>

definition unlock :: "ox_event \<Rightarrow> ox_event" where
  "unlock e = e\<lparr>ox_lockedUntil := 0, ox_lockedBy := None\<rparr>"

text \<open>
  What comes of calling one listener: it succeeds and its name is recorded; it succeeds but the write of the record throws,
  which the database may still have applied; or it throws. The last two are handled alike.
\<close>

datatype delivery = Recorded | Not_recorded string bool | Throws string

fun call_succeeded :: "delivery \<Rightarrow> bool" where
  "call_succeeded (Throws msg) = False"
| "call_succeeded _ = True"

fun in_record :: "delivery \<Rightarrow> bool" where
  "in_record Recorded = True"
| "in_record (Not_recorded msg applied) = applied"
| "in_record (Throws msg) = False"

fun delivery_error :: "delivery \<Rightarrow> string option" where
  "delivery_error Recorded = None"
| "delivery_error (Not_recorded msg applied) = Some msg"
| "delivery_error (Throws msg) = Some msg"

text \<open>
  The listeners that are called, with the names that are recorded. The
  loop returns the event with the names added, the positions whose call succeeded, and the names that failed
  with the last error.
\<close>

definition add_to_set :: "'a \<Rightarrow> 'a list \<Rightarrow> 'a list" where
  "add_to_set x xs = (if x \<in> set xs then xs else xs @ [x])"

fun deliver_loop ::
  "(nat \<Rightarrow> delivery) \<Rightarrow> (nat \<times> string) list \<Rightarrow> ox_event \<Rightarrow> ox_event \<times> nat list \<times> string list \<times> string option" where
  "deliver_loop outcome [] e = (e, [], [], None)"
| "deliver_loop outcome ((i, name) # ls) e =
     (let e1 = (if in_record (outcome i) then e\<lparr>ox_deliveredTo := add_to_set name (ox_deliveredTo e)\<rparr> else e);
          (e', ok, failed, err) = deliver_loop outcome ls e1;
          ok' = (if call_succeeded (outcome i) then i # ok else ok)
      in case delivery_error (outcome i) of
           None \<Rightarrow> (e', ok', failed, err)
         | Some msg \<Rightarrow> (e', ok', name # failed, case err of None \<Rightarrow> Some msg | Some m \<Rightarrow> Some m))"

definition pendingListeners :: "string list \<Rightarrow> ox_event \<Rightarrow> (nat \<times> string) list" where
  "pendingListeners fns e = filter (\<lambda>(i, n). n \<notin> set (ox_deliveredTo e)) (enumerate 0 (listenerNames fns))"

text \<open>
  The event afterwards and the listeners, by position, whose call succeeded. When the closing write is not
  \<open>written\<close> the function throws and the event stays as the records of the listeners left it, leased.
\<close>

definition dispatchEvent ::
  "ox_config \<Rightarrow> nat \<Rightarrow> string list \<Rightarrow> (nat \<Rightarrow> delivery) \<Rightarrow> bool \<Rightarrow> millis \<Rightarrow> ox_event \<Rightarrow> ox_event \<times> nat list" where
  "dispatchEvent cfg maxRetries fns outcome written now e =
     (let close = (\<lambda>f e. if written then unlock (f e) else e);
          complete = close (\<lambda>e. e\<lparr>ox_status := Ox_completed, ox_processedAt := Some now\<rparr>)
      in if fns = [] then
        (close (\<lambda>e. e\<lparr>ox_status := Ox_dead_letter, ox_deadLetteredAt := Some now,
            ox_deadLetterReason := Some (''No listeners registered for event type: '' @ ox_eventType e)\<rparr>) e, [])
      else let pend = pendingListeners fns e in
        if pend = [] then (complete e, [])
        else let (e1, ok, failed, lastError) = deliver_loop outcome pend e in
          if failed = [] then (complete e1, ok)
          else let newRetryCount = ox_retryCount e + 1 in
            if newRetryCount \<ge> maxRetries
            then (close (\<lambda>e. e\<lparr>ox_status := Ox_dead_letter, ox_deadLetteredAt := Some now,
                    ox_deadLetterReason := Some (''Exhausted '' @ nat_to_string 10 maxRetries
                      @ '' retries. Last error: '' @ the lastError),
                    ox_retryCount := newRetryCount, ox_lastError := lastError\<rparr>) e1, ok)
            else (close (\<lambda>e. e\<lparr>ox_status := Ox_pending, ox_nextAttemptAt := nextAttemptDate cfg now newRetryCount,
                    ox_retryCount := newRetryCount, ox_lastError := lastError\<rparr>) e1, ok))"

text \<open>
  The batch: for each event and attempt the outcomes and whether the closing write succeeds. The second component lists
  the events, the third says whether a write threw, which ends the batch.
\<close>

fun batch_loop ::
  "ox_config \<Rightarrow> nat \<Rightarrow> (string \<Rightarrow> string list) \<Rightarrow> (nat \<Rightarrow> nat \<Rightarrow> (nat \<Rightarrow> delivery) \<times> bool) \<Rightarrow> string \<Rightarrow> millis
     \<Rightarrow> nat \<Rightarrow> ox_event list \<Rightarrow> ox_event list \<times> nat list \<times> bool" where
  "batch_loop cfg maxRetries listeners outcome inst now 0 es = (es, [], False)"
| "batch_loop cfg maxRetries listeners outcome inst now (Suc n) es =
     (case claimNextEvent cfg inst now es of
        (es1, None) \<Rightarrow> (es1, [], False)
      | (es1, Some i) \<Rightarrow>
          let e = es1 ! i;
              (out, written) = outcome i (ox_retryCount e);
              (e', ok) = dispatchEvent cfg maxRetries (listeners (ox_eventType e)) out written now e
          in if \<not> written then (es1[i := e'], [i], True)
             else let (es2, is, threw) = batch_loop cfg maxRetries listeners outcome inst now n (es1[i := e'])
                  in (es2, i # is, threw))"

definition dispatchBatch ::
  "ox_config \<Rightarrow> nat \<Rightarrow> nat \<Rightarrow> (string \<Rightarrow> string list) \<Rightarrow> (nat \<Rightarrow> nat \<Rightarrow> (nat \<Rightarrow> delivery) \<times> bool) \<Rightarrow> string \<Rightarrow> millis
     \<Rightarrow> ox_event list \<Rightarrow> ox_event list \<times> nat option" where
  "dispatchBatch cfg batchSize maxRetries listeners outcome inst now es =
     (let (es', is, threw) = batch_loop cfg maxRetries listeners outcome inst now batchSize (recoverStaleLeases now es)
      in (es', if threw then None else Some (length is)))"

subsection \<open>The scheduler\<close>

text \<open>
  The module variables: whether the dispatcher runs, the stored timer handle, whether a caller of
  stop waits; and of the surroundings the timers that are armed and the number of batches in flight.
\<close>

record scheduler =
  sc_running :: bool
  sc_timer :: "nat option"
  sc_stopResolve :: bool
  sc_armed :: "nat list"
  sc_next :: nat
  sc_in_flight :: nat

definition initial_scheduler :: scheduler where
  "initial_scheduler = \<lparr>sc_running = False, sc_timer = None, sc_stopResolve = False, sc_armed = [], sc_next = 0,
     sc_in_flight = 0\<rparr>"

definition scheduleTick :: "scheduler \<Rightarrow> scheduler" where
  "scheduleTick s =
     (if \<not> sc_running s then s\<lparr>sc_stopResolve := False\<rparr>
      else s\<lparr>sc_timer := Some (sc_next s), sc_armed := sc_next s # sc_armed s, sc_next := sc_next s + 1\<rparr>)"

text \<open>An armed timer fires and its batch starts; the stored handle stays. The batch ends.\<close>

definition tick_begins :: "nat \<Rightarrow> scheduler \<Rightarrow> scheduler" where
  "tick_begins i s = s\<lparr>sc_armed := removeAll i (sc_armed s), sc_in_flight := sc_in_flight s + 1\<rparr>"

definition tick_ends :: "scheduler \<Rightarrow> scheduler" where
  "tick_ends s = scheduleTick (s\<lparr>sc_in_flight := sc_in_flight s - 1\<rparr>)"

definition startOutboxDispatcher :: "scheduler \<Rightarrow> scheduler" where
  "startOutboxDispatcher s = (if sc_running s then s else scheduleTick (s\<lparr>sc_running := True\<rparr>))"

datatype stop_reply = Stopped_at_once | Waits_for_batch

definition stopOutboxDispatcher :: "scheduler \<Rightarrow> scheduler \<times> stop_reply" where
  "stopOutboxDispatcher s =
     (if \<not> sc_running s then (s, Stopped_at_once)
      else case sc_timer s of
        Some i \<Rightarrow> (s\<lparr>sc_running := False, sc_armed := removeAll i (sc_armed s), sc_timer := None\<rparr>, Stopped_at_once)
      | None \<Rightarrow> (s\<lparr>sc_running := False, sc_stopResolve := True\<rparr>, Waits_for_batch))"

inductive sched_reachable :: "scheduler \<Rightarrow> bool" where
  initial: "sched_reachable initial_scheduler"
| start: "sched_reachable s \<Longrightarrow> sched_reachable (startOutboxDispatcher s)"
| stop: "sched_reachable s \<Longrightarrow> sched_reachable (fst (stopOutboxDispatcher s))"
| fires: "sched_reachable s \<Longrightarrow> i \<in> set (sc_armed s) \<Longrightarrow> sched_reachable (tick_begins i s)"
| ends: "sched_reachable s \<Longrightarrow> sc_in_flight s > 0 \<Longrightarrow> sched_reachable (tick_ends s)"

subsection \<open>Every listener gets an event once\<close>

text \<open>
  An event through several dispatches, each with the behaviour of the listeners and of the database at that attempt and
  its time; an event that has left the pending state is not claimed again, one whose closing write failed is, when
  its lease was recovered.
\<close>

fun dispatch_all ::
  "ox_config \<Rightarrow> nat \<Rightarrow> string list \<Rightarrow> ((nat \<Rightarrow> delivery) \<times> bool \<times> millis) list \<Rightarrow> ox_event \<Rightarrow> ox_event \<times> nat list" where
  "dispatch_all cfg maxRetries fns [] e = (e, [])"
| "dispatch_all cfg maxRetries fns ((outcome, written, now) # ds) e =
     (if ox_status e \<notin> {Ox_pending, Ox_processing} then (e, [])
      else let (e1, ok) = dispatchEvent cfg maxRetries fns outcome written now e;
               (e2, ok') = dispatch_all cfg maxRetries fns ds e1
           in (e2, ok @ ok'))"






lemma listenerNames_length [simp]: "length (listenerNames fns) = length fns"
  by (simp add: listenerNames_def)




lemma unlock_simps [simp]:
  "ox_status (unlock e) = ox_status e" "ox_deliveredTo (unlock e) = ox_deliveredTo e"
  "ox_retryCount (unlock e) = ox_retryCount e" "ox_nextAttemptAt (unlock e) = ox_nextAttemptAt e"
  by (simp_all add: unlock_def)








definition sample_event :: ox_event where
  "sample_event = \<lparr>ox_eventType = ''payment.saved'', ox_status = Ox_processing, ox_lockedUntil = 30000,
     ox_lockedBy = Some ''a'', ox_deliveredTo = [], ox_nextAttemptAt = 0, ox_retryCount = 0, ox_lastError = None,
     ox_processedAt = None, ox_deadLetteredAt = None, ox_deadLetterReason = None, ox_createdAt = 0\<rparr>"

definition sample_ox_config :: ox_config where
  "sample_ox_config = \<lparr>LEASE_DURATION_MS = 30000, BASE_BACKOFF_MS = 1000, MAX_BACKOFF_MS = 600000\<rparr>"



text \<open>A listener whose record is lost is called again and succeeds twice.\<close>

lemma lost_record_repeats:
  "snd (dispatch_all sample_ox_config 10 [''webhook''] [(\<lambda>_. Not_recorded ''timeout'' False, True, 0), (\<lambda>_. Recorded, True, 2000)] sample_event) = [0, 0]"
  by (simp add: dispatchEvent_def pendingListeners_def listenerNames_def sample_event_def sample_ox_config_def unlock_def add_to_set_def)

subsection \<open>One dispatcher at a time\<close>

text \<open>What the other replicas do meanwhile: they try to claim events and recover leases, each at its time.\<close>

datatype lease_op = Claim_op string | Recover_op

fun lease_step :: "ox_config \<Rightarrow> ox_event list \<Rightarrow> lease_op \<times> millis \<Rightarrow> ox_event list" where
  "lease_step cfg es (Claim_op inst, now) = fst (claimNextEvent cfg inst now es)"
| "lease_step cfg es (Recover_op, now) = recoverStaleLeases now es"

lemma claim_index_claimable:
  assumes "claim_index now es = Some i"
  shows "i < length es \<and> claimable now (es ! i)"
proof -
  obtain j js where f: "filter (\<lambda>i. claimable now (es ! i)) [0..<length es] = j # js"
    and i: "i = foldl (\<lambda>a j. if ox_createdAt (es ! j) < ox_createdAt (es ! a) then j else a) j js"
    using assms by (auto simp: claim_index_def split: list.splits)
  have "foldl (\<lambda>a j. if ox_createdAt (es ! j) < ox_createdAt (es ! a) then j else a) j js \<in> set (j # js)"
    by (rule foldl_invariant [where P = "\<lambda>a. a \<in> set (j # js)"]) auto
  then have "i \<in> set (filter (\<lambda>i. claimable now (es ! i)) [0..<length es])" using f i by simp
  then show ?thesis by simp
qed

lemma lease_step_held:
  assumes "i < length es" and "ox_status (es ! i) = Ox_processing" and "now \<le> ox_lockedUntil (es ! i)"
  shows "length (lease_step cfg es (q, now)) = length es \<and> lease_step cfg es (q, now) ! i = es ! i"
proof (cases q)
  case (Claim_op inst)
  show ?thesis
  proof (cases "claim_index now es")
    case None
    with Claim_op show ?thesis by (simp add: claimNextEvent_def)
  next
    case (Some j)
    then have "j \<noteq> i" using claim_index_claimable [OF Some] assms(2) by (auto simp: claimable_def)
    with Claim_op Some show ?thesis by (simp add: claimNextEvent_def)
  qed
next
  case Recover_op
  with assms show ?thesis by (simp add: recoverStaleLeases_def recover_event_def)
qed

text \<open>A dispatcher that claims an event holds it alone for the length of the lease: whatever the others
  claim and recover until then, they leave the event as it is, so none of them is given it.\<close>

theorem lease_exclusive:
  assumes "claimNextEvent cfg inst t es = (es1, Some i)"
    and "\<forall>(q, now)\<in>set ops. now \<le> t + LEASE_DURATION_MS cfg"
  shows "let es2 = foldl (lease_step cfg) es1 ops in es2 ! i = es1 ! i
    \<and> ox_lockedBy (es2 ! i) = Some inst
    \<and> (\<forall>now \<le> t + LEASE_DURATION_MS cfg. snd (claimNextEvent cfg inst' now es2) \<noteq> Some i)"
proof -
  have c: "claim_index t es = Some i"
    and es1: "es1 = es[i := (es ! i)\<lparr>ox_status := Ox_processing, ox_lockedUntil := t + LEASE_DURATION_MS cfg, ox_lockedBy := Some inst\<rparr>]"
    using assms(1) by (auto simp: claimNextEvent_def split: option.splits)
  have i: "i < length es" using claim_index_claimable [OF c] by simp
  let ?P = "\<lambda>xs. length xs = length es \<and> xs ! i = es1 ! i"
  have held: "ox_status (es1 ! i) = Ox_processing" "ox_lockedUntil (es1 ! i) = t + LEASE_DURATION_MS cfg"
    "ox_lockedBy (es1 ! i) = Some inst" using es1 i by auto
  have "?P (foldl (lease_step cfg) es1 ops)"
  proof (rule foldl_invariant [where P = ?P])
    show "?P es1" using es1 by simp
  next
    fix xs x assume xs: "?P xs" and x: "x \<in> set ops"
    obtain q now where qn: "x = (q, now)" by (cases x)
    then have "now \<le> t + LEASE_DURATION_MS cfg" using assms(2) x by auto
    with xs held i show "?P (lease_step cfg xs x)" using lease_step_held [of i xs now cfg q] qn by simp
  qed
  moreover have "snd (claimNextEvent cfg inst' now xs) \<noteq> Some i" if "?P xs" for now xs
  proof (cases "claim_index now xs")
    case (Some j)
    then have "j \<noteq> i" using claim_index_claimable [OF Some] held(1) that by (auto simp: claimable_def)
    with Some show ?thesis by (simp add: claimNextEvent_def)
  qed (simp add: claimNextEvent_def)
  ultimately show ?thesis using held(3) by (simp add: Let_def)
qed

theorem lease_exclusive_witness:
  "let es1 = fst (claimNextEvent sample_ox_config ''a'' 5 [sample_event\<lparr>ox_status := Ox_pending, ox_lockedUntil := 0\<rparr>]);
       es2 = foldl (lease_step sample_ox_config) es1 [(Recover_op, 100), (Claim_op ''b'', 30005)]
   in es2 ! 0 = es1 ! 0 \<and> ox_lockedBy (es2 ! 0) = Some ''a'' \<and> snd (claimNextEvent sample_ox_config ''b'' 200 es2) \<noteq> Some 0"
proof -
  let ?es = "[sample_event\<lparr>ox_status := Ox_pending, ox_lockedUntil := 0\<rparr>]"
  obtain es1 where c: "claimNextEvent sample_ox_config ''a'' 5 ?es = (es1, Some 0)"
    by (simp add: claimNextEvent_def claim_index_def claimable_def sample_event_def)
  have l: "LEASE_DURATION_MS sample_ox_config = 30000" by (simp add: sample_ox_config_def)
  from lease_exclusive [OF c, of "[(Recover_op, 100), (Claim_op ''b'', 30005)]" "''b''"]
  show ?thesis unfolding Let_def c fst_conv l by auto
qed

subsection \<open>A batch\<close>

lemma dispatched_not_claimable:
  assumes "BASE_BACKOFF_MS cfg > 0" "MAX_BACKOFF_MS cfg > 0"
  shows "\<not> claimable now (fst (dispatchEvent cfg maxRetries fns outcome True now e))"
proof -
  have "now < nextAttemptDate cfg now k" for k using assms by (simp add: nextAttemptDate_def)
  then have "\<not> nextAttemptDate cfg now k \<le> now" for k by (simp add: not_le)
  then show ?thesis by (auto simp: dispatchEvent_def claimable_def unlock_def Let_def split: prod.split)
qed

lemma claimNextEvent_some:
  assumes "claimNextEvent cfg inst now es = (es1, Some i)"
  shows "i < length es" "claimable now (es ! i)" "length es1 = length es" "j \<noteq> i \<Longrightarrow> es1 ! j = es ! j"
  using assms claim_index_claimable [of now es i] by (auto simp: claimNextEvent_def split: option.splits)

lemma claimNextEvent_none:
  assumes "claimNextEvent cfg inst now es = (es1, None)"
  shows "es1 = es" "list_all (\<lambda>e. \<not> claimable now e) es"
proof -
  have "claim_index now es = None" and eq: "es1 = es"
    using assms by (auto simp: claimNextEvent_def split: option.splits)
  then have "filter (\<lambda>i. claimable now (es ! i)) [0..<length es] = []"
    by (auto simp: claim_index_def split: list.splits)
  then show "list_all (\<lambda>e. \<not> claimable now e) es" by (simp add: filter_empty_conv list_all_length)
  show "es1 = es" by (rule eq)
qed

lemma batch_loop_spec:
  assumes "BASE_BACKOFF_MS cfg > 0" "MAX_BACKOFF_MS cfg > 0"
    and "batch_loop cfg maxRetries listeners outcome inst now n es = (es', is, threw)"
  shows "distinct is \<and> (\<forall>j\<in>set is. j < length es \<and> claimable now (es ! j)) \<and> length is \<le> n
    \<and> (\<not> threw \<longrightarrow> length is < n \<longrightarrow> list_all (\<lambda>e. \<not> claimable now e) es')"
  using assms(3)
proof (induction n arbitrary: es es' "is")
  case (Suc n)
  obtain es1 c where cl: "claimNextEvent cfg inst now es = (es1, c)" by (cases "claimNextEvent cfg inst now es")
  show ?case
  proof (cases c)
    case None
    with Suc.prems cl claimNextEvent_none [of cfg inst now es es1] show ?thesis by auto
  next
    case (Some i)
    note sm = claimNextEvent_some [OF cl [unfolded Some]]
    let ?e = "es1 ! i"
    obtain out written where o: "outcome i (ox_retryCount ?e) = (out, written)" by (cases "outcome i (ox_retryCount ?e)")
    obtain e' ok where d: "dispatchEvent cfg maxRetries (listeners (ox_eventType ?e)) out written now ?e = (e', ok)"
      by (cases "dispatchEvent cfg maxRetries (listeners (ox_eventType ?e)) out written now ?e")
    show ?thesis
    proof (cases written)
      case False
      then show ?thesis using Suc.prems cl Some o d sm by auto
    next
      case True
      obtain es2 is2 t2 where b: "batch_loop cfg maxRetries listeners outcome inst now n (es1[i := e']) = (es2, is2, t2)"
        by (rule prod_cases3)
      have eq: "es' = es2" "is = i # is2" "threw = t2" using Suc.prems cl Some o d b True by simp_all
      note ih = Suc.IH [OF b [folded eq(3)]]
      have "\<not> claimable now e'" using dispatched_not_claimable [OF assms(1,2)] d True by (metis fst_conv)
      then have other: "j \<noteq> i \<and> j < length es \<and> claimable now (es ! j)" if "j \<in> set is2" for j
        using ih that sm by (cases "j = i") auto
      then show ?thesis using ih sm eq by auto
    qed
  qed
qed simp

text \<open>A batch handles no event twice, and it ends early only when no event can be claimed any more or a
  write fails.\<close>

theorem batch_each_once:
  assumes "BASE_BACKOFF_MS cfg > 0" "MAX_BACKOFF_MS cfg > 0"
    and "batch_loop cfg maxRetries listeners outcome inst now batchSize (recoverStaleLeases now es) = (es', is, threw)"
  shows "distinct is
    \<and> dispatchBatch cfg batchSize maxRetries listeners outcome inst now es = (es', if threw then None else Some (length is))
    \<and> length is \<le> batchSize \<and> (\<not> threw \<longrightarrow> length is < batchSize \<longrightarrow> list_all (\<lambda>e. \<not> claimable now e) es')"
  using batch_loop_spec [OF assms] assms(3) by (simp add: dispatchBatch_def)

theorem batch_each_once_witness:
  "let (es', is, threw) = batch_loop sample_ox_config 10 (\<lambda>_. [''webhook'']) (\<lambda>_ _. (\<lambda>_. Throws ''down'', True)) ''a'' 5 50
         (recoverStaleLeases 5 [sample_event\<lparr>ox_status := Ox_pending, ox_lockedUntil := 0\<rparr>])
   in distinct is \<and> length is \<le> 50"
proof -
  obtain es' "is" threw where b: "batch_loop sample_ox_config 10 (\<lambda>_. [''webhook'']) (\<lambda>_ _. (\<lambda>_. Throws ''down'', True)) ''a'' 5 50
         (recoverStaleLeases 5 [sample_event\<lparr>ox_status := Ox_pending, ox_lockedUntil := 0\<rparr>]) = (es', is, threw)"
    by (rule prod_cases3)
  have c: "BASE_BACKOFF_MS sample_ox_config > 0" "MAX_BACKOFF_MS sample_ox_config > 0"
    by (simp_all add: sample_ox_config_def)
  from batch_each_once [OF c b] show ?thesis unfolding b by simp
qed

subsection \<open>Deviations\<close>

text \<open>Two listeners with the same name: when the first fails and the second succeeds, the name is
  recorded, the first listener is skipped from then on, and the event is completed by the next
  dispatch although the first listener never had it.\<close>

theorem same_name_lost:
  assumes "name \<noteq> []" and "ox_deliveredTo e = []" and "ox_retryCount e + 1 < maxRetries"
  shows "let fns = [name, name];
             (e1, ok1) = dispatchEvent cfg maxRetries fns (\<lambda>i. if i = 0 then Throws msg else Recorded) True now e;
             (e2, ok2) = dispatchEvent cfg maxRetries fns outcome True now' e1
         in ox_status e1 = Ox_pending \<and> ox_status e2 = Ox_completed \<and> 0 \<notin> set (ok1 @ ok2)"
proof -
  have names: "listenerNames [name, name] = [name, name]" using assms(1) by (simp add: listenerNames_def)
  show ?thesis using assms(2,3)
    by (simp add: dispatchEvent_def pendingListeners_def names add_to_set_def unlock_def)
qed

theorem same_name_lost_witness:
  "let fns = [''notify'', ''notify''];
       (e1, ok1) = dispatchEvent sample_ox_config 10 fns (\<lambda>i. if i = 0 then Throws ''down'' else Recorded) True 0 sample_event;
       (e2, ok2) = dispatchEvent sample_ox_config 10 fns (\<lambda>_. Recorded) True 2000 e1
   in ox_status e1 = Ox_pending \<and> ox_status e2 = Ox_completed \<and> 0 \<notin> set (ok1 @ ok2)"
  by (rule same_name_lost) (simp_all add: sample_event_def)

lemma sched_timer: "sched_reachable s \<Longrightarrow> sc_running s \<Longrightarrow> sc_timer s \<noteq> None"
proof (induction rule: sched_reachable.induct)
  case (stop s)
  then show ?case by (auto simp: stopOutboxDispatcher_def split: option.splits if_splits)
qed (auto simp: initial_scheduler_def startOutboxDispatcher_def scheduleTick_def tick_begins_def tick_ends_def)

text \<open>The handle of a timer that has fired is never cleared, so stopping the dispatcher never waits for
  the batch in flight; and when it is started again before that batch ends, two chains of ticks run
  and two batches can overlap in one process.\<close>

theorem stop_does_not_wait:
  "(\<forall>s. sched_reachable s \<longrightarrow> snd (stopOutboxDispatcher s) = Stopped_at_once)
   \<and> (\<exists>s. sched_reachable s \<and> sc_in_flight s = 2)"
proof (intro conjI allI impI)
  fix s assume "sched_reachable s"
  then show "snd (stopOutboxDispatcher s) = Stopped_at_once"
    using sched_timer [of s] by (auto simp: stopOutboxDispatcher_def split: option.splits)
next
  let ?s1 = "startOutboxDispatcher initial_scheduler"
  let ?s2 = "tick_begins 0 ?s1"
  let ?s3 = "startOutboxDispatcher (fst (stopOutboxDispatcher ?s2))"
  let ?s4 = "tick_begins 1 ?s3"
  have 1: "sched_reachable ?s1" by (intro start initial)
  have "0 \<in> set (sc_armed ?s1)" by (simp add: startOutboxDispatcher_def initial_scheduler_def scheduleTick_def)
  with 1 have "sched_reachable ?s2" by (rule fires)
  then have 3: "sched_reachable ?s3" by (intro start stop)
  have s3: "sc_armed ?s3 = [1]" "sc_in_flight ?s3 = 1"
    by (simp_all add: startOutboxDispatcher_def initial_scheduler_def scheduleTick_def tick_begins_def stopOutboxDispatcher_def)
  have "sched_reachable ?s4" by (rule fires [OF 3]) (simp add: s3)
  moreover have "sc_in_flight ?s4 = 2" using s3 by (simp add: tick_begins_def)
  ultimately show "\<exists>s. sched_reachable s \<and> sc_in_flight s = 2" by blast
qed

theorem stop_does_not_wait_witness:
  "let s = tick_begins 0 (startOutboxDispatcher initial_scheduler)
   in sc_in_flight s = 1 \<and> snd (stopOutboxDispatcher s) = Stopped_at_once"
proof -
  have "0 \<in> set (sc_armed (startOutboxDispatcher initial_scheduler))"
    by (simp add: startOutboxDispatcher_def initial_scheduler_def scheduleTick_def)
  then have "sched_reachable (tick_begins 0 (startOutboxDispatcher initial_scheduler))"
    by (intro fires start initial)
  then have "snd (stopOutboxDispatcher (tick_begins 0 (startOutboxDispatcher initial_scheduler))) = Stopped_at_once"
    using stop_does_not_wait by blast
  then show ?thesis
    by (simp add: tick_begins_def startOutboxDispatcher_def initial_scheduler_def scheduleTick_def Let_def)
qed

end
