(* ===== verification/Retry_Queue.thy ===== *)
theory Retry_Queue
  imports Stellar_Retry
begin

section \<open>Retrying verifications\<close>

text \<open>
  \<^verbatim>\<open>backend/src/services/retryService.js\<close> with \<^verbatim>\<open>services/retryContract.js\<close> and the fields of
  \<^verbatim>\<open>models/pendingVerificationModel.js\<close>: the queue of transactions whose verification failed, the worker
  that tries them again, and the operator's re-drive. The collection is a list; a document is
  addressed by its position. What happens when a transaction is verified and its payment recorded is
  an argument, as are whether the network answers and which schools are active. A dash in a message is
  written as a hyphen.
\<close>

subsection \<open>Classification of errors\<close>

definition PERMANENT_ERROR_CODES :: "string list" where
  "PERMANENT_ERROR_CODES = [''TX_FAILED'', ''MISSING_MEMO'', ''INVALID_DESTINATION'', ''UNSUPPORTED_ASSET'',
     ''DUPLICATE_TX'', ''INVALID_TRANSACTION_HASH'', ''TRANSACTION_NOT_FOUND'']"

definition TRANSIENT_ERROR_CODES :: "string list" where
  "TRANSIENT_ERROR_CODES = [''STELLAR_NETWORK_ERROR'', ''ECONNREFUSED'', ''ETIMEDOUT'', ''ENOTFOUND'',
     ''NETWORK_ERROR'', ''SOCKET_TIMEOUT'', ''REQUEST_TIMEOUT'', ''HORIZON_UNAVAILABLE'']"

definition TRANSIENT_MESSAGE_PATTERNS :: "string list" where
  "TRANSIENT_MESSAGE_PATTERNS = [''network'', ''timeout'', ''connection'', ''unavailable'', ''temporary'']"

record retry_error =
  re_code :: "string option"
  re_message :: "string option"

datatype error_class = Permanent_error | Transient_error | Unknown_error

definition text_or_empty :: "string option \<Rightarrow> string" where
  "text_or_empty s = (case s of None \<Rightarrow> [] | Some t \<Rightarrow> t)"

definition classifyError :: "retry_error option \<Rightarrow> error_class" where
  "classifyError error =
     (case error of
        None \<Rightarrow> Unknown_error
      | Some err \<Rightarrow>
          let c = text_or_empty (re_code err); message = text_or_empty (re_message err) in
          if c \<in> set PERMANENT_ERROR_CODES then Permanent_error
          else if c \<in> set TRANSIENT_ERROR_CODES then Transient_error
          else if list_ex (includes_ci message) TRANSIENT_MESSAGE_PATTERNS then Transient_error
          else Unknown_error)"

definition isPermanent :: "retry_error option \<Rightarrow> bool" where
  "isPermanent error \<longleftrightarrow> classifyError error = Permanent_error"

subsection \<open>The queue\<close>

datatype pv_status = PV_pending | PV_processing | PV_resolved | PV_dead_letter

record pending_verification =
  pv_schoolId :: string
  pv_txHash :: string
  pv_studentId :: "string option"
  pv_attempts :: nat
  pv_lastAttemptAt :: "millis option"
  pv_nextRetryAt :: millis
  pv_status :: pv_status
  pv_lastError :: "string option"
  pv_resolvedAt :: "millis option"

text \<open>The documents, the payments recorded and the failed ones written for the audit.\<close>

record retry_state =
  rq_items :: "pending_verification list"
  rq_recorded :: "(string \<times> string) list"
  rq_failed :: "(string \<times> string \<times> string) list"

definition nextRetryDelay :: "millis \<Rightarrow> nat \<Rightarrow> millis" where
  "nextRetryDelay now attempts = now + min (2 ^ attempts * 60000) (60 * 60000)"

definition queueForRetry ::
  "millis \<Rightarrow> string \<Rightarrow> string option \<Rightarrow> string \<Rightarrow> string \<Rightarrow> retry_state \<Rightarrow> retry_state" where
  "queueForRetry now txHash studentId errorMessage schoolId st =
     (let old = (\<lambda>p. pv_txHash p = txHash \<and> pv_schoolId p = schoolId) in
      case find (\<lambda>i. old (rq_items st ! i)) [0..<length (rq_items st)] of
        Some i \<Rightarrow> st\<lparr>rq_items := (rq_items st)[i := (rq_items st ! i)\<lparr>pv_status := PV_pending,
                     pv_lastError := Some errorMessage, pv_nextRetryAt := now\<rparr>]\<rparr>
      | None \<Rightarrow> st\<lparr>rq_items := rq_items st @ [\<lparr>pv_schoolId = schoolId, pv_txHash = txHash, pv_studentId = studentId,
                 pv_attempts = 0, pv_lastAttemptAt = None, pv_nextRetryAt = now, pv_status = PV_pending,
                 pv_lastError = Some errorMessage, pv_resolvedAt = None\<rparr>]\<rparr>)"

definition redriveDeadLetter :: "millis \<Rightarrow> nat \<Rightarrow> retry_state \<Rightarrow> retry_state \<times> bool" where
  "redriveDeadLetter now i st =
     (if i < length (rq_items st) \<and> pv_status (rq_items st ! i) = PV_dead_letter
      then (st\<lparr>rq_items := (rq_items st)[i := (rq_items st ! i)\<lparr>pv_status := PV_pending, pv_attempts := 0,
              pv_nextRetryAt := now, pv_lastError := None\<rparr>]\<rparr>, True)
      else (st, False))"

definition getBacklogCounts :: "retry_state \<Rightarrow> pv_status \<Rightarrow> nat" where
  "getBacklogCounts st s = length (filter (\<lambda>p. pv_status p = s) (rq_items st))"

subsection \<open>The worker\<close>

text \<open>
  What an attempt comes to: the verification returns nothing, it succeeds and the payment is recorded
  under a hash, or one of the two throws.
\<close>

datatype attempt_result = Returned_null | Recorded string | Threw retry_error

text \<open>The document when the attempt has been counted, and after it.\<close>

definition begin_attempt :: "millis \<Rightarrow> pending_verification \<Rightarrow> pending_verification" where
  "begin_attempt now p = p\<lparr>pv_status := PV_processing, pv_lastAttemptAt := Some now, pv_attempts := pv_attempts p + 1\<rparr>"

definition end_attempt ::
  "nat \<Rightarrow> bool \<Rightarrow> millis \<Rightarrow> attempt_result \<Rightarrow> pending_verification \<Rightarrow> pending_verification" where
  "end_attempt maxAttempts schoolActive now res p =
     (if \<not> schoolActive
      then p\<lparr>pv_status := PV_dead_letter,
             pv_lastError := Some (''School '' @ pv_schoolId p @ '' not found or inactive'')\<rparr>
      else case res of
        Returned_null \<Rightarrow> p\<lparr>pv_status := PV_dead_letter,
            pv_lastError := Some ''verifyTransaction returned null - transaction is permanently invalid''\<rparr>
      | Recorded h \<Rightarrow> p\<lparr>pv_status := PV_resolved, pv_resolvedAt := Some now, pv_lastError := None\<rparr>
      | Threw err \<Rightarrow>
          if isPermanent (Some err) \<or> pv_attempts p \<ge> maxAttempts
          then p\<lparr>pv_status := PV_dead_letter, pv_lastError := re_message err\<rparr>
          else p\<lparr>pv_status := PV_pending, pv_lastError := re_message err,
                 pv_nextRetryAt := nextRetryDelay now (pv_attempts p)\<rparr>)"

definition process_item ::
  "nat \<Rightarrow> (string \<Rightarrow> bool) \<Rightarrow> millis \<Rightarrow> (nat \<Rightarrow> attempt_result) \<Rightarrow> nat \<Rightarrow> retry_state \<Rightarrow> retry_state" where
  "process_item maxAttempts active now result i st =
     (let p = begin_attempt now (rq_items st ! i);
          ok = active (pv_schoolId p);
          st1 = st\<lparr>rq_items := (rq_items st)[i := end_attempt maxAttempts ok now (result i) p]\<rparr>
      in if \<not> ok then st1
         else case result i of
           Returned_null \<Rightarrow> st1
         | Recorded h \<Rightarrow> st1\<lparr>rq_recorded := rq_recorded st1 @ [(pv_schoolId p, h)]\<rparr>
         | Threw err \<Rightarrow>
             if (isPermanent (Some err) \<or> pv_attempts p \<ge> maxAttempts) \<and> re_code err = Some ''TX_FAILED''
                \<and> (\<forall>x\<in>set (rq_failed st1). snd (snd x) \<noteq> pv_txHash p)
             then st1\<lparr>rq_failed := rq_failed st1 @
                    [(pv_schoolId p, (case pv_studentId p of None \<Rightarrow> ''unknown'' | Some s \<Rightarrow> if s = [] then ''unknown'' else s), pv_txHash p)]\<rparr>
             else st1)"

definition due_items :: "millis \<Rightarrow> retry_state \<Rightarrow> nat list" where
  "due_items now st = take 50 (filter (\<lambda>i. pv_status (rq_items st ! i) = PV_pending \<and> pv_nextRetryAt (rq_items st ! i) \<le> now)
     [0..<length (rq_items st)])"

definition processPendingVerifications ::
  "nat \<Rightarrow> bool \<Rightarrow> (string \<Rightarrow> bool) \<Rightarrow> millis \<Rightarrow> (nat \<Rightarrow> attempt_result) \<Rightarrow> retry_state \<Rightarrow> retry_state" where
  "processPendingVerifications maxAttempts reachable active now result st =
     (let due = due_items now st in
      if due = [] \<or> \<not> reachable then st
      else foldl (\<lambda>s i. process_item maxAttempts active now result i s) st due)"

subsection \<open>A run of the worker\<close>

lemma process_item_items:
  "rq_items (process_item m active now result i st)
   = (rq_items st)[i := end_attempt m (active (pv_schoolId (rq_items st ! i))) now (result i) (begin_attempt now (rq_items st ! i))]"
  by (simp add: process_item_def Let_def begin_attempt_def split: attempt_result.split)

lemma process_items:
  assumes "distinct is" "\<forall>i\<in>set is. i < length (rq_items st)"
  shows "length (rq_items (foldl (\<lambda>s i. process_item m active now result i s) st is)) = length (rq_items st)
    \<and> (\<forall>j < length (rq_items st). rq_items (foldl (\<lambda>s i. process_item m active now result i s) st is) ! j =
        (if j \<in> set is then end_attempt m (active (pv_schoolId (rq_items st ! j))) now (result j) (begin_attempt now (rq_items st ! j))
         else rq_items st ! j))"
  using assms
proof (induction "is" arbitrary: st)
  case (Cons i "is")
  let ?st = "process_item m active now result i st"
  have len: "length (rq_items ?st) = length (rq_items st)" by (simp add: process_item_items)
  have "distinct is" "\<forall>i\<in>set is. i < length (rq_items ?st)" using Cons.prems len by auto
  from Cons.IH [OF this] show ?case using Cons.prems len by (auto simp: process_item_items nth_list_update)
qed simp

text \<open>A run of the worker attempts each document that is pending and due once, at most fifty of them, and
  changes no other document.\<close>

theorem worker_run_items:
  assumes "reachable" and "j < length (rq_items st)"
  shows "let st' = processPendingVerifications m reachable active now result st; p = rq_items st ! j in
    length (due_items now st) \<le> 50 \<and> rq_items st' ! j =
      (if j \<in> set (due_items now st)
       then end_attempt m (active (pv_schoolId p)) now (result j) (begin_attempt now p) else p)"
proof -
  have d: "distinct (due_items now st)" "\<forall>i\<in>set (due_items now st). i < length (rq_items st)"
    by (auto simp: due_items_def dest: in_set_takeD)
  show ?thesis
  proof (cases "due_items now st = []")
    case True
    then show ?thesis by (simp add: processPendingVerifications_def)
  next
    case False
    have "length (due_items now st) \<le> 50" by (simp add: due_items_def)
    moreover have "rq_items (processPendingVerifications m reachable active now result st)
        = rq_items (foldl (\<lambda>s i. process_item m active now result i s) st (due_items now st))"
      using False assms(1) by (simp add: processPendingVerifications_def)
    ultimately show ?thesis using process_items [OF d, of m active now result] assms(2) by (simp add: Let_def)
  qed
qed

definition sample_item :: pending_verification where
  "sample_item = \<lparr>pv_schoolId = ''S'', pv_txHash = ''t'', pv_studentId = None, pv_attempts = 0,
     pv_lastAttemptAt = None, pv_nextRetryAt = 0, pv_status = PV_pending, pv_lastError = None, pv_resolvedAt = None\<rparr>"

definition sample_queue :: retry_state where
  "sample_queue = \<lparr>rq_items = [sample_item, sample_item\<lparr>pv_txHash := ''u'', pv_nextRetryAt := 900\<rparr>],
     rq_recorded = [], rq_failed = []\<rparr>"

theorem worker_run_items_witness:
  "let st' = processPendingVerifications 10 True (\<lambda>_. True) 5 (\<lambda>_. Recorded ''t'') sample_queue
   in rq_items st' ! 1 = rq_items sample_queue ! 1"
proof -
  have "1 \<notin> set (due_items 5 sample_queue)" by (simp add: due_items_def sample_queue_def sample_item_def)
  then show ?thesis
    using worker_run_items [of True 1 sample_queue 10 "\<lambda>_. True" 5 "\<lambda>_. Recorded ''t''"]
    by (simp add: Let_def sample_queue_def)
qed

subsection \<open>The life of a document\<close>

text \<open>One document through the runs in which it is due, as long as it is pending: for each the time,
  whether the school is active, and what the attempt comes to.\<close>

fun retry_item :: "nat \<Rightarrow> (millis \<times> bool \<times> attempt_result) list \<Rightarrow> pending_verification \<Rightarrow> pending_verification" where
  "retry_item m [] p = p"
| "retry_item m ((now, act, res) # rs) p =
     (if pv_status p = PV_pending then retry_item m rs (end_attempt m act now res (begin_attempt now p)) else p)"

fun retryable_attempt :: "millis \<times> bool \<times> attempt_result \<Rightarrow> bool" where
  "retryable_attempt (now, act, Threw err) = (act \<and> \<not> isPermanent (Some err))"
| "retryable_attempt _ = False"

fun recorded_attempt :: "millis \<times> bool \<times> attempt_result \<Rightarrow> bool" where
  "recorded_attempt (now, act, Recorded h) = act"
| "recorded_attempt _ = False"

lemma retry_item_stuck: "pv_status p \<noteq> PV_pending \<Longrightarrow> retry_item m rs p = p"
  by (cases rs) auto

lemma one_attempt:
  fixes now :: millis and act :: bool and res :: attempt_result
  assumes "pv_attempts p < m"
  defines "p' \<equiv> end_attempt m act now res (begin_attempt now p)"
  shows "pv_attempts p' = pv_attempts p + 1"
    and "pv_status p' = PV_pending \<longleftrightarrow> retryable_attempt (now, act, res) \<and> pv_attempts p + 1 < m"
    and "pv_status p' = PV_resolved \<longleftrightarrow> recorded_attempt (now, act, res)"
    and "pv_status p' \<noteq> PV_processing"
    and "retryable_attempt (now, act, res) \<Longrightarrow> pv_attempts p + 1 < m \<Longrightarrow>
         pv_nextRetryAt p' = nextRetryDelay now (pv_attempts p + 1)"
  using assms by (cases act; cases res; simp add: p'_def begin_attempt_def end_attempt_def; fail)+

text \<open>C36: A document with a limit of \<open>m\<close> attempts, tried at least that often: it settles with the first attempt
  that is not a retryable failure, or is given up after exactly \<open>m\<close> failures; it is resolved exactly when
  that first attempt is within the limit and recorded a payment.\<close>

theorem retry_item_settles:
  assumes "pv_status p = PV_pending" and "pv_attempts p < m" and "length rs \<ge> m - pv_attempts p"
  shows "let p' = retry_item m rs p; k = length (takeWhile retryable_attempt rs) in
    pv_attempts p' = (if pv_attempts p + k < m then pv_attempts p + k + 1 else m)
    \<and> pv_status p' = (if pv_attempts p + k < m \<and> recorded_attempt (rs ! k) then PV_resolved else PV_dead_letter)"
  using assms
proof (induction rs arbitrary: p)
  case (Cons r rs)
  obtain now act res where r: "r = (now, act, res)" by (cases r)
  let ?q = "end_attempt m act now res (begin_attempt now p)"
  note one = one_attempt [OF Cons.prems(2), where now = now and act = act and res = res]
  have step: "retry_item m (r # rs) p = retry_item m rs ?q" using Cons.prems(1) r by simp
  show ?case
  proof (cases "pv_status ?q = PV_pending")
    case True
    then have ra: "retryable_attempt r" and lt: "pv_attempts p + 1 < m" using one(2) r by auto
    have "pv_attempts ?q < m" "length rs \<ge> m - pv_attempts ?q" using lt one(1) Cons.prems(3) by auto
    from Cons.IH [OF True this] show ?thesis using step ra one(1) by (simp add: Let_def)
  next
    case False
    have "retry_item m (r # rs) p = ?q" using step retry_item_stuck [OF False] by simp
    moreover have "pv_status ?q = (if recorded_attempt r then PV_resolved else PV_dead_letter)"
      using one(3,4) False r by (cases "pv_status ?q") auto
    moreover have "\<not> recorded_attempt r" if "retryable_attempt r" using that r by (cases res) auto
    ultimately show ?thesis using one(1,2) False r Cons.prems(2) by (cases "retryable_attempt r") (auto simp: Let_def)
  qed
qed simp

definition net_error :: retry_error where
  "net_error = \<lparr>re_code = Some ''HORIZON_UNAVAILABLE'', re_message = None\<rparr>"

lemma net_error_transient: "\<not> isPermanent (Some net_error)"
  by (simp add: isPermanent_def classifyError_def net_error_def text_or_empty_def PERMANENT_ERROR_CODES_def
      TRANSIENT_ERROR_CODES_def)

theorem retry_item_settles_witness:
  "let p' = retry_item 3 [(0, True, Threw net_error), (120000, True, Threw net_error), (400000, True, Recorded ''t'')] sample_item
   in pv_attempts p' = 3 \<and> pv_status p' = PV_resolved"
  using retry_item_settles [of sample_item 3
      "[(0, True, Threw net_error), (120000, True, Threw net_error), (400000, True, Recorded ''t'')]"]
  by (simp add: sample_item_def net_error_transient Let_def del: retry_item.simps)

subsection \<open>Deviations\<close>

text \<open>A document that was being processed when the process died is never selected again: whatever runs
  follow, it stays as it is.\<close>

theorem processing_is_forever:
  assumes "j < length (rq_items st)" and "pv_status (rq_items st ! j) = PV_processing"
  shows "rq_items (foldl (\<lambda>s (reachable, active, now, result). processPendingVerifications m reachable active now result s) st runs) ! j
       = rq_items st ! j"
proof -
  let ?f = "\<lambda>s (reachable, active, now, result). processPendingVerifications m reachable active now result s"
  let ?P = "\<lambda>s. j < length (rq_items s) \<and> rq_items s ! j = rq_items st ! j"
  have "?P (foldl ?f st runs)"
  proof (rule foldl_invariant [where P = ?P])
    show "?P st" using assms by simp
  next
    fix s :: retry_state and x :: "bool \<times> (string \<Rightarrow> bool) \<times> millis \<times> (nat \<Rightarrow> attempt_result)"
    assume s: "?P s"
    obtain reachable active now result where x: "x = (reachable, active, now, result)" by (rule prod_cases4)
    have nd: "j \<notin> set (due_items now s)" using s assms(2) by (auto simp: due_items_def dest: in_set_takeD)
    have d: "distinct (due_items now s)" "\<forall>i\<in>set (due_items now s). i < length (rq_items s)"
      by (auto simp: due_items_def dest: in_set_takeD)
    show "?P (?f s x)" using process_items [OF d, of m active now result] nd s
      by (simp add: x processPendingVerifications_def Let_def)
  qed
  then show ?thesis by simp
qed

theorem processing_is_forever_witness:
  "let st = sample_queue\<lparr>rq_items := [begin_attempt 5 sample_item]\<rparr>
   in rq_items (foldl (\<lambda>s (reachable, active, now, result). processPendingVerifications 10 reachable active now result s) st
        [(True, \<lambda>_. True, 1000000, \<lambda>_. Recorded ''t'')]) ! 0 = begin_attempt 5 sample_item"
  using processing_is_forever [of 0 "sample_queue\<lparr>rq_items := [begin_attempt 5 sample_item]\<rparr>" 10
      "[(True, \<lambda>_. True, 1000000, \<lambda>_. Recorded ''t'')]"]
  by (simp add: begin_attempt_def)

text \<open>Queueing a transaction again keeps the attempts it has used up: one that was given up after its
  limit is pending again but is given up by its next failure, while a re-drive gives it the whole
  limit.\<close>

theorem requeue_keeps_attempts:
  assumes "m \<ge> 2" and "pv_status p = PV_dead_letter" and "pv_attempts p = m" and "\<not> isPermanent (Some err)"
  shows "let st = \<lparr>rq_items = [p], rq_recorded = rec, rq_failed = fl\<rparr>;
             q = rq_items (queueForRetry now (pv_txHash p) sid msg (pv_schoolId p) st) ! 0;
             r = rq_items (fst (redriveDeadLetter now 0 st)) ! 0
         in pv_status q = PV_pending \<and> pv_status (retry_item m [(now, True, Threw err)] q) = PV_dead_letter
          \<and> pv_status r = PV_pending \<and> pv_status (retry_item m [(now, True, Threw err)] r) = PV_pending"
  using assms by (simp add: queueForRetry_def redriveDeadLetter_def begin_attempt_def end_attempt_def Let_def)

theorem requeue_keeps_attempts_witness:
  "let st = \<lparr>rq_items = [sample_item\<lparr>pv_status := PV_dead_letter, pv_attempts := 10\<rparr>], rq_recorded = [], rq_failed = []\<rparr>;
       q = rq_items (queueForRetry 7 ''t'' None ''again'' ''S'' st) ! 0
   in pv_status q = PV_pending \<and> pv_status (retry_item 10 [(7, True, Threw net_error)] q) = PV_dead_letter"
  using requeue_keeps_attempts [of 10 "sample_item\<lparr>pv_status := PV_dead_letter, pv_attempts := 10\<rparr>" net_error
      "[]" "[]" 7 None "''again''"]
  by (simp add: sample_item_def net_error_transient Let_def del: retry_item.simps)

end
