(* ===== verification/Stellar_Memo.thy ===== *)
theory Stellar_Memo
  imports JS_String
begin

section \<open>Memos of payment intents\<close>

text \<open>
  The encoding of a payment intent's memo into the three memo types of the network
  (\<^verbatim>\<open>frontend/src/utils/stellarMemo.js\<close>) and the decoding of what a wallet broadcast
  (\<^verbatim>\<open>backend/src/utils/stellarMemo.js\<close>, which mirrors the decoder of the frontend). A memo value is
  a string or missing; bytes are natural numbers below 256. The definitions of the frontend whose
  name the backend has too carry the prefix \<open>client\<close>.
\<close>

subsection \<open>Base64 and hexadecimal\<close>

definition is_b64 :: "char \<Rightarrow> bool" where
  "is_b64 c \<longleftrightarrow> is_digit c \<or> (65 \<le> code c \<and> code c \<le> 90) \<or> (97 \<le> code c \<and> code c \<le> 122)
     \<or> c = CHR ''+'' \<or> c = CHR ''/''"

definition b64_val :: "char \<Rightarrow> nat" where
  "b64_val c =
     (if 65 \<le> code c \<and> code c \<le> 90 then code c - 65
      else if 97 \<le> code c \<and> code c \<le> 122 then code c - 71
      else if is_digit c then code c + 4
      else if c = CHR ''+'' then 62 else 63)"

definition b64_char :: "nat \<Rightarrow> char" where
  "b64_char v =
     (if v < 26 then char_of (65 + v)
      else if v < 52 then char_of (71 + v)
      else if v < 62 then char_of (v - 4)
      else if v = 62 then CHR ''+'' else CHR ''/'')"

fun b64_encode :: "nat list \<Rightarrow> string" where
  "b64_encode [] = []"
| "b64_encode [a] = [b64_char (a div 4), b64_char (a mod 4 * 16), CHR ''='', CHR ''='']"
| "b64_encode [a, b] =
     [b64_char (a div 4), b64_char (a mod 4 * 16 + b div 16), b64_char (b mod 16 * 4), CHR ''='']"
| "b64_encode (a # b # c # r) =
     [b64_char (a div 4), b64_char (a mod 4 * 16 + b div 16), b64_char (b mod 16 * 4 + c div 64),
      b64_char (c mod 64)] @ b64_encode r"

text \<open>Six bits at a time back to bytes; bits that do not fill a byte are dropped.\<close>

fun b64_bytes :: "nat list \<Rightarrow> nat list" where
  "b64_bytes [] = []"
| "b64_bytes [w] = []"
| "b64_bytes [w, x] = [w * 4 + x div 16]"
| "b64_bytes [w, x, y] = [w * 4 + x div 16, x mod 16 * 16 + y div 4]"
| "b64_bytes (w # x # y # z # r) =
     [w * 4 + x div 16, x mod 16 * 16 + y div 4, y mod 4 * 64 + z] @ b64_bytes r"

text \<open>\<^verbatim>\<open>Buffer.from(s, 'base64')\<close> on a text of the alphabet and its padding.\<close>

definition buffer_from_base64 :: "string \<Rightarrow> nat list" where
  "buffer_from_base64 s = b64_bytes (map b64_val (takeWhile is_b64 s))"

text \<open>\<^verbatim>\<open>atob\<close>: padding only where it completes a group of four, and no lone last character.\<close>

definition strip_two :: "string \<Rightarrow> string" where
  "strip_two s =
     (let n = length s in
      if 2 \<le> n \<and> drop (n - 2) s = ''=='' then take (n - 2) s
      else if 1 \<le> n \<and> drop (n - 1) s = ''='' then take (n - 1) s else s)"

definition atob :: "string \<Rightarrow> nat list option" where
  "atob s =
     (let t = (if length s mod 4 = 0 then strip_two s else s)
      in if length t mod 4 = 1 \<or> \<not> list_all is_b64 t then None
         else Some (b64_bytes (map b64_val t)))"

fun hex_bytes :: "string \<Rightarrow> nat list" where
  "hex_bytes (a # b # r) = (digit_val a * 16 + digit_val b) # hex_bytes r"
| "hex_bytes _ = []"

definition bytes_hex :: "nat list \<Rightarrow> string" where
  "bytes_hex bs = concat (map (\<lambda>b. [digit_char (b div 16), digit_char (b mod 16)]) bs)"

subsection \<open>Shared: canonical memos and memo types\<close>

definition upper_hex :: "char \<Rightarrow> bool" where
  "upper_hex c \<longleftrightarrow> is_digit c \<or> (65 \<le> code c \<and> code c \<le> 70)"

definition CANONICAL_MEMO_RE :: "string \<Rightarrow> bool" where
  "CANONICAL_MEMO_RE s \<longleftrightarrow> length s = 8 \<and> list_all upper_hex s"

definition SUPPORTED_MEMO_TYPES :: "string list" where
  "SUPPORTED_MEMO_TYPES = [''MEMO_TEXT'', ''MEMO_ID'', ''MEMO_HASH'']"

definition full_memo_type :: "string \<Rightarrow> string" where
  "full_memo_type t =
     (let upper = toUpperCase t in if startsWith upper ''MEMO_'' then upper else ''MEMO_'' @ upper)"

definition normalizeMemoType :: "string option \<Rightarrow> string option" where
  "normalizeMemoType memoType =
     (case memoType of
        None \<Rightarrow> None
      | Some t \<Rightarrow>
          if t = [] then None
          else if full_memo_type t \<in> set SUPPORTED_MEMO_TYPES then Some (full_memo_type t) else None)"

definition isCanonicalMemo :: "string \<Rightarrow> bool" where
  "isCanonicalMemo memo \<longleftrightarrow> CANONICAL_MEMO_RE (toUpperCase (trim memo))"

subsection \<open>The decoder of the backend\<close>

definition base64_re :: "string \<Rightarrow> bool" where
  "base64_re s \<longleftrightarrow> takeWhile is_b64 s \<noteq> [] \<and> dropWhile is_b64 s \<in> {'''', ''='', ''==''}"

definition strip_padding :: "string \<Rightarrow> string" where
  "strip_padding s = rev (dropWhile (\<lambda>c. c = CHR ''='') (rev s))"

definition decodeHashBytes :: "string \<Rightarrow> nat list option" where
  "decodeHashBytes s =
     (if length s = 64 \<and> list_all is_hex s then Some (hex_bytes s)
      else if \<not> base64_re s then None
      else let buf = buffer_from_base64 s
           in if strip_padding (b64_encode buf) = strip_padding s then Some buf else None)"

text \<open>A run of digits as a Number, kept when it is a safe integer of at most 32 bits.\<close>

definition decode_id :: "string \<Rightarrow> string option" where
  "decode_id s =
     (let raw = trim s in
      if raw = [] \<or> \<not> list_all is_digit raw then None
      else (case to_num (of_nat (string_to_nat 10 raw)) of
              Fin x \<Rightarrow>
                if of_int \<lfloor>x\<rfloor> \<noteq> x \<or> of_int max_safe_integer < \<bar>x\<bar> \<or> x < 0 \<or> 4294967295 < x then None
                else Some (padStart 8 (CHR ''0'') (toUpperCase (nat_to_string 16 (nat \<lfloor>x\<rfloor>))))
            | _ \<Rightarrow> None))"

definition decode_text :: "string \<Rightarrow> string option" where
  "decode_text s = (if trim s = [] then None else Some (trim s))"

definition decodeMemoToCanonical :: "string option \<Rightarrow> string option \<Rightarrow> string option" where
  "decodeMemoToCanonical memo_value memoType =
     (case memo_value of
        None \<Rightarrow> None
      | Some s \<Rightarrow>
          if s = [] then None
          else (case normalizeMemoType memoType of
                  None \<Rightarrow> None
                | Some type \<Rightarrow>
                    if type = ''MEMO_TEXT'' then decode_text s
                    else if type = ''MEMO_ID'' then decode_id s
                    else (case decodeHashBytes (trim s) of
                            None \<Rightarrow> None
                          | Some bytes \<Rightarrow>
                              if length bytes \<noteq> 32 \<or> \<not> list_all (\<lambda>b. b = 0) (take 28 bytes) then None
                              else let tail_hex = toUpperCase (bytes_hex (drop 28 bytes))
                                   in if CANONICAL_MEMO_RE tail_hex then Some tail_hex else None)))"

subsection \<open>The encoder and decoder of the frontend\<close>

datatype memo_error = Unsupported_memo_type | Memo_text_too_long | Memo_not_encodable

definition client_normalizeMemoType :: "string option \<Rightarrow> (memo_error, string) result" where
  "client_normalizeMemoType memoType =
     (case memoType of
        None \<Rightarrow> Inr ''MEMO_TEXT''
      | Some t \<Rightarrow>
          if t = [] then Inr ''MEMO_TEXT''
          else if full_memo_type t \<in> set SUPPORTED_MEMO_TYPES then Inr (full_memo_type t)
          else Inl Unsupported_memo_type)"

definition isEncodableMemo :: "string \<Rightarrow> bool" where
  "isEncodableMemo memo \<longleftrightarrow> CANONICAL_MEMO_RE (toUpperCase (trim memo))"

text \<open>\<^verbatim>\<open>TextEncoder\<close> writes a code unit from 128 on as two bytes.\<close>

definition utf8_length :: "string \<Rightarrow> nat" where
  "utf8_length s = sum_list (map (\<lambda>c. if code c < 128 then 1 else 2) s)"

definition memo_bytes :: "string \<Rightarrow> nat list" where
  "memo_bytes v = replicate 28 0 @ map (\<lambda>i. string_to_nat 16 (take 2 (drop (i * 2) v))) [0..<4]"

definition encodeMemo :: "string \<Rightarrow> string option \<Rightarrow> (memo_error, string) result" where
  "encodeMemo memo memoType =
     (case client_normalizeMemoType memoType of
        Inl e \<Rightarrow> Inl e
      | Inr type \<Rightarrow>
          let v = toUpperCase (trim memo) in
          if type = ''MEMO_TEXT'' then
            (if 28 < utf8_length memo then Inl Memo_text_too_long else Inr memo)
          else if \<not> isEncodableMemo v then Inl Memo_not_encodable
          else if type = ''MEMO_ID'' then Inr (nat_to_string 10 (string_to_nat 16 v))
          else Inr (b64_encode (memo_bytes v)))"

definition client_decodeHashBytes :: "string \<Rightarrow> nat list option" where
  "client_decodeHashBytes s =
     (if length s = 64 \<and> list_all is_hex s
      then Some (map (\<lambda>i. string_to_nat 16 (take 2 (drop (i * 2) s))) [0..<32])
      else if \<not> base64_re s then None else atob s)"

definition byte_upper_hex :: "nat \<Rightarrow> string" where
  "byte_upper_hex b = padStart 2 (CHR ''0'') (toUpperCase (nat_to_string 16 b))"

definition decodeMemo :: "string option \<Rightarrow> string option \<Rightarrow> string option" where
  "decodeMemo memo_value memoType =
     (case memo_value of
        None \<Rightarrow> None
      | Some s \<Rightarrow>
          if s = [] then None
          else (case client_normalizeMemoType memoType of
                  Inl _ \<Rightarrow> None
                | Inr type \<Rightarrow>
                    if type = ''MEMO_TEXT'' then decode_text s
                    else if type = ''MEMO_ID'' then decode_id s
                    else (case client_decodeHashBytes (trim s) of
                            None \<Rightarrow> None
                          | Some bytes \<Rightarrow>
                              if length bytes \<noteq> 32 \<or> \<not> list_all (\<lambda>b. b = 0) (take 28 bytes) then None
                              else Some (concat (map byte_upper_hex (drop 28 bytes))))))"

subsection \<open>Fixed-width numerals are unique\<close>

lemma of_digits_inj:
  assumes "length ds = length es" "\<And>d. d \<in> set ds \<union> set es \<Longrightarrow> d < b" "of_digits b ds = of_digits b es"
  shows "ds = es"
  using assms
proof (induction ds arbitrary: es rule: rev_induct)
  case Nil
  then show ?case by simp
next
  case (snoc d ds)
  from snoc.prems(1) obtain es' e where es: "es = es' @ [e]" by (cases es rule: rev_cases) auto
  from snoc.prems have "d < b" "e < b" and eq: "of_digits b ds * b + d = of_digits b es' * b + e"
    by (auto simp: es)
  from arg_cong [OF eq, of "\<lambda>x. x mod b"] \<open>d < b\<close> \<open>e < b\<close> have "d = e" by simp
  with eq \<open>d < b\<close> have "of_digits b ds = of_digits b es'" by auto
  with snoc.prems have "ds = es'" by (intro snoc.IH) (auto simp: es)
  with \<open>d = e\<close> show ?case by (simp add: es)
qed

lemma upper_hex_val: "upper_hex c \<Longrightarrow> digit_val c < 16"
  by (auto simp: upper_hex_def digit_val_def is_digit_def)

lemma upper_hex_inj: "upper_hex c \<Longrightarrow> upper_hex d \<Longrightarrow> digit_val c = digit_val d \<Longrightarrow> c = d"
proof -
  assume "upper_hex c" "upper_hex d" "digit_val c = digit_val d"
  then have "code c = code d"
    by (auto simp: upper_hex_def digit_val_def is_digit_def simp del: of_char_eq_iff split: if_splits)
  then show "c = d" by simp
qed

lemma string_to_nat_upper_inj:
  assumes "length s = length t" "list_all upper_hex s" "list_all upper_hex t"
    and "string_to_nat 16 s = string_to_nat 16 t"
  shows "s = t"
proof -
  have "map digit_val s = map digit_val t"
    using assms by (intro of_digits_inj [where b = 16])
      (auto simp: string_to_nat_def list_all_iff upper_hex_val)
  with assms show ?thesis
    by (auto simp: list_eq_iff_nth_eq list_all_length intro: upper_hex_inj)
qed

lemma string_to_nat_upper_less: "list_all upper_hex s \<Longrightarrow> string_to_nat 16 s < 16 ^ length s"
proof -
  assume "list_all upper_hex s"
  then have "d < 16" if "d \<in> set (map digit_val s)" for d
    using that by (auto simp: list_all_iff upper_hex_val)
  then have "of_digits 16 (map digit_val s) < 16 ^ length (map digit_val s)" by (rule of_digits_less)
  then show ?thesis by (simp add: string_to_nat_def)
qed

lemma upcase_digit_char: "d < 16 \<Longrightarrow> upper_hex (upcase (digit_char d)) \<and> digit_val (upcase (digit_char d)) = d"
  by (auto simp: upcase_def digit_char_def upper_hex_def is_digit_def digit_val_def)

lemma upper_hex_print:
  "list_all upper_hex (toUpperCase (nat_to_string 16 n))"
  "string_to_nat 16 (toUpperCase (nat_to_string 16 n)) = n"
proof -
  have *: "d < 16" if "d \<in> set (to_digits 16 n)" for d using that to_digits_less [of 16] by simp
  then show "list_all upper_hex (toUpperCase (nat_to_string 16 n))"
    using upcase_digit_char by (auto simp: toUpperCase_def nat_to_string_def list_all_iff)
  have "map digit_val (toUpperCase (nat_to_string 16 n)) = to_digits 16 n"
    using * upcase_digit_char by (auto simp: toUpperCase_def nat_to_string_def intro!: map_idI)
  then show "string_to_nat 16 (toUpperCase (nat_to_string 16 n)) = n"
    by (simp add: string_to_nat_def of_digits_to_digits)
qed

lemma upper_hex_zero [simp]: "upper_hex (CHR ''0'')"
  by (simp add: upper_hex_def is_digit_def)

lemma length_toUpperCase [simp]: "length (toUpperCase s) = length s"
  by (simp add: toUpperCase_def)

lemma pad_print_hex:
  assumes "n < 16 ^ k" "0 < k"
  shows "length (padStart k (CHR ''0'') (toUpperCase (nat_to_string 16 n))) = k"
    and "list_all upper_hex (padStart k (CHR ''0'') (toUpperCase (nat_to_string 16 n)))"
    and "string_to_nat 16 (padStart k (CHR ''0'') (toUpperCase (nat_to_string 16 n))) = n"
  using upper_hex_print [of n] length_to_digits [OF _ assms]
  by (auto simp: nat_to_string_def padStart_def list_all_iff)

lemma pad_print_parse:
  assumes "length v = k" "0 < k" "list_all upper_hex v"
  shows "padStart k (CHR ''0'') (toUpperCase (nat_to_string 16 (string_to_nat 16 v))) = v"
  using string_to_nat_upper_less [OF assms(3)] assms pad_print_hex [of "string_to_nat 16 v" k]
  by (intro string_to_nat_upper_inj) auto

lemma CANONICAL_print: "n < 16 ^ 8 \<Longrightarrow> CANONICAL_MEMO_RE (padStart 8 (CHR ''0'') (toUpperCase (nat_to_string 16 n)))"
  using pad_print_hex [of n 8] by (simp add: CANONICAL_MEMO_RE_def)

lemma upper_hex_facts: "upper_hex c \<Longrightarrow> upcase c = c \<and> \<not> is_space c \<and> code c < 128"
  by (auto simp: upper_hex_def upcase_def is_space_def is_digit_def)

lemma canonical_fixed:
  assumes "CANONICAL_MEMO_RE v"
  shows "trim v = v" "toUpperCase v = v" "isEncodableMemo v" "utf8_length v = 8" "v \<noteq> []"
proof -
  have hex: "upper_hex c" if "c \<in> set v" for c
    using assms that by (auto simp: CANONICAL_MEMO_RE_def list_all_iff)
  show t: "trim v = v" using hex upper_hex_facts by (blast intro: trim_no_space)
  show u: "toUpperCase v = v" unfolding toUpperCase_def using hex upper_hex_facts by (simp add: map_idI)
  show "isEncodableMemo v" using assms by (simp add: isEncodableMemo_def t u)
  have "map (\<lambda>c. if code c < 128 then 1 else (2::nat)) v = replicate 8 1"
    using hex upper_hex_facts assms by (auto simp: CANONICAL_MEMO_RE_def intro!: replicate_eqI)
  then show "utf8_length v = 8" by (simp add: utf8_length_def sum_list_replicate)
  show "v \<noteq> []" using assms by (auto simp: CANONICAL_MEMO_RE_def)
qed

subsection \<open>Decimal identifiers\<close>

lemma to_num_nat_large:
  assumes "2 ^ 53 < n"
  shows "to_num (of_nat n) = PInf \<or> (\<exists>x. to_num (of_nat n) = Fin x \<and> 2 ^ 53 \<le> x)"
proof -
  from assms have "int (2 ^ 53) \<le> int n" by linarith
  then have "(of_int (2 ^ 53) :: rat) \<le> of_int (int n)" by (subst of_int_le_iff) simp
  then have "of_int (2 ^ 53) \<le> round64 (of_nat n)" by (intro round64_ge_int) simp_all
  then have ge: "(2 ^ 53 :: rat) \<le> round64 (of_nat n)" by simp
  have "- (2 ^ 1024) < (0::rat)" by simp
  also have "(0::rat) < 2 ^ 53" by simp
  also note ge
  finally have "\<not> round64 (of_nat n) \<le> - (2 ^ 1024)" by (simp only: not_le)
  with ge show ?thesis unfolding to_num_def Let_def by simp
qed

lemma decode_id_digits:
  assumes "trim s \<noteq> []" "list_all is_digit (trim s)"
  shows "decode_id s =
    (let n = string_to_nat 10 (trim s) in
     if 4294967295 < n then None
     else Some (padStart 8 (CHR ''0'') (toUpperCase (nat_to_string 16 n))))"
proof -
  define n where "n = string_to_nat 10 (trim s)"
  show ?thesis
  proof (cases "n \<le> 2 ^ 53")
    case True
    then have "to_num (of_nat n) = Fin (of_nat n)"
      using to_num_int [of "int n"] by simp
    then show ?thesis
      using assms by (simp add: decode_id_def Let_def n_def [symmetric] max_safe_integer_def)
  next
    case False
    then show ?thesis
      using assms to_num_nat_large [of n]
      by (auto simp: decode_id_def Let_def n_def [symmetric] max_safe_integer_def)
  qed
qed

lemma decode_id_not_digits: "trim s = [] \<or> \<not> list_all is_digit (trim s) \<Longrightarrow> decode_id s = None"
  by (auto simp: decode_id_def Let_def)

lemma decode_id_print:
  assumes "n \<le> 4294967295"
  shows "decode_id (nat_to_string 10 n) = Some (padStart 8 (CHR ''0'') (toUpperCase (nat_to_string 16 n)))"
proof -
  have d: "is_digit c" if "c \<in> set (nat_to_string 10 n)" for c using that by (rule nat_to_string_digits)
  then have t: "trim (nat_to_string 10 n) = nat_to_string 10 n"
    by (intro trim_no_space) (use not_space_digit in blast)
  have "decode_id (nat_to_string 10 n) =
    (let m = string_to_nat 10 (trim (nat_to_string 10 n)) in
     if 4294967295 < m then None
     else Some (padStart 8 (CHR ''0'') (toUpperCase (nat_to_string 16 m))))"
    by (rule decode_id_digits) (use d in \<open>auto simp: t list_all_iff\<close>)
  then show ?thesis using assms by (simp add: t string_to_nat_to_string)
qed

subsection \<open>Hashes in base64\<close>

lemma b64_char_facts: "v < 64 \<Longrightarrow> b64_val (b64_char v) = v \<and> is_b64 (b64_char v)"
  by (auto simp: b64_val_def b64_char_def is_b64_def is_digit_def)

lemma not_b64_pad [simp]: "\<not> is_b64 (CHR ''='')"
  by (simp add: is_b64_def is_digit_def)

lemma is_b64_no_space: "is_b64 c \<Longrightarrow> \<not> is_space c"
  by (auto simp: is_b64_def is_space_def is_digit_def)

text \<open>An encoded text is a body of the alphabet, which decodes to the bytes, and its padding.\<close>

definition b64_split :: "nat list \<Rightarrow> string \<Rightarrow> string \<Rightarrow> bool" where
  "b64_split bs body pad \<longleftrightarrow> b64_encode bs = body @ pad \<and> list_all is_b64 body
     \<and> pad \<in> {'''', ''='', ''==''} \<and> b64_bytes (map b64_val body) = bs
     \<and> (length body + length pad) mod 4 = 0 \<and> (bs \<noteq> [] \<longrightarrow> body \<noteq> [])"

lemma byte_bits: "b < 256 \<Longrightarrow> b div 16 div 16 = 0 \<and> b div 16 mod 16 * 16 + b mod 16 = (b::nat)"
proof -
  assume "b < 256"
  then have "b div 16 < 16" by auto
  then show ?thesis by simp
qed

lemma b64_split_exists: "list_all (\<lambda>b. b < 256) bs \<Longrightarrow> \<exists>body pad. b64_split bs body pad"
proof (induction bs rule: b64_encode.induct)
  case 1
  then show ?case by (auto simp: b64_split_def)
next
  case (2 a)
  then have "a div 4 < 64" "a mod 4 * 16 < 64" by auto
  with b64_char_facts have "b64_split [a] [b64_char (a div 4), b64_char (a mod 4 * 16)] ''==''"
    by (simp add: b64_split_def)
  then show ?case by blast
next
  case (3 a b)
  then have "a div 4 < 64" "a mod 4 * 16 + b div 16 < 64" "b mod 16 * 4 < 64" by auto
  with b64_char_facts
  have "b64_split [a, b] [b64_char (a div 4), b64_char (a mod 4 * 16 + b div 16), b64_char (b mod 16 * 4)] ''=''"
    using "3.prems" byte_bits [of b] by (simp add: b64_split_def)
  then show ?case by blast
next
  case (4 a b c r)
  then obtain body pad where r: "b64_split r body pad" by auto
  from 4 have "a div 4 < 64" "a mod 4 * 16 + b div 16 < 64" "b mod 16 * 4 + c div 64 < 64" "c mod 64 < 64"
    by auto
  with b64_char_facts r
  have "b64_split (a # b # c # r)
      ([b64_char (a div 4), b64_char (a mod 4 * 16 + b div 16), b64_char (b mod 16 * 4 + c div 64),
        b64_char (c mod 64)] @ body) pad"
    using "4.prems" byte_bits [of b] by (auto simp: b64_split_def)
  then show ?case by blast
qed

lemma length_b64_encode: "length (b64_encode bs) = 4 * ((length bs + 2) div 3)"
proof (induction bs rule: b64_encode.induct)
  case (4 a b c r)
  have "(length (a # b # c # r) + 2) div 3 = Suc ((length r + 2) div 3)" by simp
  with 4 show ?case by simp
qed auto

lemma takeWhile_body:
  assumes "list_all is_b64 body" "pad \<in> {'''', ''='', ''==''}"
  shows "takeWhile is_b64 (body @ pad) = body" "dropWhile is_b64 (body @ pad) = pad"
    "strip_padding (body @ pad) = body"
proof -
  have p: "takeWhile is_b64 pad = [] \<and> dropWhile is_b64 pad = pad" using assms(2) by auto
  show "takeWhile is_b64 (body @ pad) = body" "dropWhile is_b64 (body @ pad) = pad"
    using assms(1) p by (auto simp: list_all_iff takeWhile_append2 dropWhile_append2)
  have b: "dropWhile (\<lambda>c. c = CHR ''='') (rev body) = rev body"
    using assms(1) by (cases body rule: rev_cases) auto
  show "strip_padding (body @ pad) = body"
    using assms(2) b by (auto simp: strip_padding_def)
qed

lemma strip_two_body:
  assumes "list_all is_b64 body" "pad \<in> {'''', ''='', ''==''}"
  shows "strip_two (body @ pad) = body"
proof -
  have no: "CHR ''='' \<notin> set body" using assms(1) by (auto simp: list_all_iff)
  consider "pad = ''''" | "pad = ''=''" | "pad = ''==''" using assms(2) by blast
  then show ?thesis
  proof cases
    case 1
    have "drop (length body - k) body \<noteq> CHR ''='' # xs" for k xs
      using no in_set_dropD [of "CHR ''=''" "length body - k" body] by auto
    with 1 show ?thesis by (simp add: strip_two_def Let_def)
  next
    case 2
    have "drop (length body - 1) (body @ ''='') \<noteq> ''==''"
      using no by (cases body rule: rev_cases) auto
    then show ?thesis by (simp add: strip_two_def Let_def 2)
  next
    case 3
    then show ?thesis by (simp add: strip_two_def Let_def)
  qed
qed

lemma decode_base64:
  assumes "list_all (\<lambda>b. b < 256) bs" "length bs = 32"
  shows "decodeHashBytes (trim (b64_encode bs)) = Some bs"
    and "client_decodeHashBytes (trim (b64_encode bs)) = Some bs"
proof -
  from b64_split_exists [OF assms(1)] obtain body pad where "b64_split bs body pad" by blast
  then have e: "b64_encode bs = body @ pad" and body: "list_all is_b64 body"
    and pad: "pad \<in> {'''', ''='', ''==''}" and bytes: "b64_bytes (map b64_val body) = bs"
    and len: "(length body + length pad) mod 4 = 0" and ne: "body \<noteq> []"
    using assms(2) by (auto simp: b64_split_def)
  have l: "length (body @ pad) = 44" using length_b64_encode [of bs] assms(2) e by simp
  then have "length body mod 4 \<noteq> 1" using pad by auto
  have t: "trim (body @ pad) = body @ pad"
    by (rule trim_no_space) (use body pad is_b64_no_space in \<open>auto simp: list_all_iff is_space_def\<close>)
  have re: "base64_re (body @ pad)" using takeWhile_body [OF body pad] pad ne by (simp add: base64_re_def)
  show "decodeHashBytes (trim (b64_encode bs)) = Some bs"
    using l re takeWhile_body [OF body pad] bytes e
    by (simp add: t decodeHashBytes_def buffer_from_base64_def Let_def)
  show "client_decodeHashBytes (trim (b64_encode bs)) = Some bs"
    using l re strip_two_body [OF body pad] bytes body len \<open>length body mod 4 \<noteq> 1\<close>
    by (simp add: e t client_decodeHashBytes_def atob_def Let_def)
qed

lemma length_8: "length v = 8 \<Longrightarrow> \<exists>a b c d e f g h. v = [a, b, c, d, e, f, g, h]"
  by (auto simp: eval_nat_numeral length_Suc_conv)

lemma pair_value: "string_to_nat 16 [a, b] = digit_val a * 16 + digit_val b"
  using of_digits_snoc [of 16 "[digit_val a]" "digit_val b"] by (simp add: string_to_nat_def)

lemma pair_hex:
  assumes "upper_hex a" "upper_hex b"
  defines "n \<equiv> digit_val a * 16 + digit_val b"
  shows "n < 256" and "[upcase (digit_char (n div 16)), upcase (digit_char (n mod 16))] = [a, b]"
    and "byte_upper_hex n = [a, b]"
proof -
  have ab: "digit_val a < 16" "digit_val b < 16" using assms upper_hex_val by auto
  then show "n < 256" by (simp add: n_def)
  have "n div 16 = digit_val a" "n mod 16 = digit_val b" using ab by (auto simp: n_def)
  with ab assms(1,2) upcase_digit_char upper_hex_inj
  show "[upcase (digit_char (n div 16)), upcase (digit_char (n mod 16))] = [a, b]" by auto
  show "byte_upper_hex n = [a, b]"
    using pad_print_parse [of "[a, b]" 2] assms(1,2) by (simp add: byte_upper_hex_def pair_value n_def)
qed

lemma memo_bytes_facts:
  assumes "CANONICAL_MEMO_RE v"
  shows "length (memo_bytes v) = 32" "list_all (\<lambda>b. b < 256) (memo_bytes v)"
    "take 28 (memo_bytes v) = replicate 28 0"
    "toUpperCase (bytes_hex (drop 28 (memo_bytes v))) = v"
    "concat (map byte_upper_hex (drop 28 (memo_bytes v))) = v"
proof -
  from assms obtain a b c d e f g h where v: "v = [a, b, c, d, e, f, g, h]"
    using length_8 [of v] by (auto simp: CANONICAL_MEMO_RE_def)
  with assms have hex: "upper_hex a" "upper_hex b" "upper_hex c" "upper_hex d" "upper_hex e" "upper_hex f"
      "upper_hex g" "upper_hex h"
    by (simp_all add: CANONICAL_MEMO_RE_def)
  have up: "[0..<4] = [0, 1, 2, 3::nat]" by (simp add: upt_rec)
  have m: "memo_bytes v = replicate 28 0 @
    [digit_val a * 16 + digit_val b, digit_val c * 16 + digit_val d,
     digit_val e * 16 + digit_val f, digit_val g * 16 + digit_val h]"
    by (simp add: memo_bytes_def v up pair_value)
  then have tail: "drop 28 (memo_bytes v) =
    [digit_val a * 16 + digit_val b, digit_val c * 16 + digit_val d,
     digit_val e * 16 + digit_val f, digit_val g * 16 + digit_val h]"
    by simp
  note pairs = pair_hex [OF hex(1,2)] pair_hex [OF hex(3,4)] pair_hex [OF hex(5,6)] pair_hex [OF hex(7,8)]
  show "length (memo_bytes v) = 32" "take 28 (memo_bytes v) = replicate 28 0" by (simp_all add: m)
  show "list_all (\<lambda>b. b < 256) (memo_bytes v)" using pairs by (simp add: m list_all_iff)
  show "toUpperCase (bytes_hex (drop 28 (memo_bytes v))) = v"
    unfolding tail using pairs by (simp add: bytes_hex_def toUpperCase_def v)
  show "concat (map byte_upper_hex (drop 28 (memo_bytes v))) = v"
    unfolding tail using pairs by (simp add: v)
qed

subsection \<open>Hashes in hexadecimal\<close>

lemma hex_bytes_map:
  "length s = 2 * n \<Longrightarrow> hex_bytes s = map (\<lambda>i. string_to_nat 16 (take 2 (drop (i * 2) s))) [0..<n]"
proof (induction n arbitrary: s)
  case 0
  then show ?case by simp
next
  case (Suc n)
  then obtain a b r where s: "s = a # b # r" by (auto simp: length_Suc_conv)
  with Suc have IH: "hex_bytes r = map (\<lambda>i. string_to_nat 16 (take 2 (drop (i * 2) r))) [0..<n]" by simp
  have "map (\<lambda>i. string_to_nat 16 (take 2 (drop (i * 2) s))) [0..<Suc n] =
    string_to_nat 16 [a, b] # map ((\<lambda>i. string_to_nat 16 (take 2 (drop (i * 2) s))) \<circ> Suc) [0..<n]"
    by (simp only: upt_conv_Cons [of 0 "Suc n"] map_Suc_upt [symmetric] list.map map_map) (simp add: s)
  with IH show ?case by (simp add: s pair_value comp_def)
qed

lemma hex_bytes_less: "list_all is_hex s \<Longrightarrow> list_all (\<lambda>b. b < 256) (hex_bytes s)"
proof (induction s rule: hex_bytes.induct)
  case (1 a b r)
  then have "digit_val a < 16" "digit_val b < 16" using hex_val by auto
  with 1 show ?case by simp
qed auto

lemma length_hex_bytes: "length (hex_bytes s) = length s div 2"
  by (induction s rule: hex_bytes.induct) auto

lemma byte_upper_hex_digits:
  assumes "b < 256"
  shows "byte_upper_hex b = [upcase (digit_char (b div 16)), upcase (digit_char (b mod 16))]"
proof (rule string_to_nat_upper_inj)
  have *: "b div 16 < 16" "b mod 16 < 16" using assms by auto
  show "list_all upper_hex [upcase (digit_char (b div 16)), upcase (digit_char (b mod 16))]"
    using upcase_digit_char * by simp
  show "list_all upper_hex (byte_upper_hex b)" "length (byte_upper_hex b) = length [upcase (digit_char (b div 16)), upcase (digit_char (b mod 16))]"
    using pad_print_hex [of b 2] assms by (simp_all add: byte_upper_hex_def)
  show "string_to_nat 16 (byte_upper_hex b) = string_to_nat 16 [upcase (digit_char (b div 16)), upcase (digit_char (b mod 16))]"
    using pad_print_hex [of b 2] assms upcase_digit_char * by (simp add: byte_upper_hex_def pair_value)
qed

lemma tail_hex_eq:
  "list_all (\<lambda>b. b < 256) bs \<Longrightarrow> concat (map byte_upper_hex bs) = toUpperCase (bytes_hex bs)"
  by (induction bs) (simp_all add: bytes_hex_def toUpperCase_def byte_upper_hex_digits)

lemma tail_hex_canonical:
  assumes "list_all (\<lambda>b. b < 256) bs" "length bs = 4"
  shows "CANONICAL_MEMO_RE (toUpperCase (bytes_hex bs))"
proof -
  have "length (bytes_hex bs) = 2 * length bs" by (induction bs) (simp_all add: bytes_hex_def)
  moreover have "list_all upper_hex (toUpperCase (bytes_hex bs))"
    using assms(1)
  proof (induction bs)
    case Nil
    then show ?case by (simp add: bytes_hex_def toUpperCase_def)
  next
    case (Cons b bs)
    then have "b div 16 < 16" "b mod 16 < 16" by auto
    with Cons upcase_digit_char show ?case by (simp add: bytes_hex_def toUpperCase_def)
  qed
  ultimately show ?thesis using assms(2) by (simp add: CANONICAL_MEMO_RE_def)
qed

subsection \<open>Properties\<close>

lemma memo_type_names:
  "normalizeMemoType (Some ''text'') = Some ''MEMO_TEXT''" "normalizeMemoType (Some ''id'') = Some ''MEMO_ID''"
  "normalizeMemoType (Some ''hash'') = Some ''MEMO_HASH''"
  "client_normalizeMemoType (Some ''MEMO_TEXT'') = Inr ''MEMO_TEXT''"
  "client_normalizeMemoType (Some ''MEMO_ID'') = Inr ''MEMO_ID''"
  "client_normalizeMemoType (Some ''MEMO_HASH'') = Inr ''MEMO_HASH''"
  by code_simp+

text \<open>C40: An intent's memo survives the wallet. For each of the three memo types the frontend encodes
  every canonical memo (eight upper-case hexadecimal characters), and the backend, reading what it
  wrote under the spelling of the type that Horizon uses, gets the memo back; so does the decoder
  of the frontend.
\<close>

theorem memo_roundtrip:
  assumes "CANONICAL_MEMO_RE m"
    and "(t, h) \<in> {(''MEMO_TEXT'', ''text''), (''MEMO_ID'', ''id''), (''MEMO_HASH'', ''hash'')}"
  shows "\<exists>w. encodeMemo m (Some t) = Inr w
    \<and> decodeMemoToCanonical (Some w) (Some h) = Some m \<and> decodeMemo (Some w) (Some t) = Some m"
proof -
  note fixed = canonical_fixed [OF assms(1)]
  have n: "string_to_nat 16 m \<le> 4294967295"
    using string_to_nat_upper_less [of m] assms(1) by (simp add: CANONICAL_MEMO_RE_def)
  have id: "decode_id (nat_to_string 10 (string_to_nat 16 m)) = Some m"
    using decode_id_print [OF n] pad_print_parse [of m 8] assms(1) by (simp add: CANONICAL_MEMO_RE_def)
  note bytes = memo_bytes_facts [OF assms(1)]
  note hash = decode_base64 [OF bytes(2,1)]
  have ne: "b64_encode (memo_bytes m) \<noteq> []" using length_b64_encode [of "memo_bytes m"] bytes(1) by auto
  consider "t = ''MEMO_TEXT''" "h = ''text''" | "t = ''MEMO_ID''" "h = ''id''" | "t = ''MEMO_HASH''" "h = ''hash''"
    using assms(2) by auto
  then show ?thesis
    by cases
      (use assms(1) fixed id bytes hash ne in
        \<open>simp_all add: encodeMemo_def decodeMemoToCanonical_def decodeMemo_def memo_type_names decode_text_def
           Let_def list_all_iff\<close>)
qed

theorem memo_roundtrip_witness:
  "\<exists>w. encodeMemo ''A3F91B2C'' (Some ''MEMO_HASH'') = Inr w
    \<and> decodeMemoToCanonical (Some w) (Some ''hash'') = Some ''A3F91B2C''
    \<and> decodeMemo (Some w) (Some ''MEMO_HASH'') = Some ''A3F91B2C''"
  by (rule memo_roundtrip) (code_simp, simp)

text \<open>A numeric memo matches an intent exactly when it is that intent's number. The backend
  decodes a memo of type id to a canonical memo if and only if the text is a run of decimal digits
  whose value is the memo's hexadecimal value; in particular a number of more than 32 bits, however
  the Number type rounds it, matches no intent.
\<close>

theorem memo_id_exact:
  assumes "normalizeMemoType (Some t) = Some ''MEMO_ID''"
  shows "decodeMemoToCanonical (Some s) (Some t) = Some m \<longleftrightarrow>
    s \<noteq> [] \<and> trim s \<noteq> [] \<and> list_all is_digit (trim s) \<and> CANONICAL_MEMO_RE m
      \<and> string_to_nat 16 m = string_to_nat 10 (trim s)"
proof (cases "s \<noteq> [] \<and> trim s \<noteq> [] \<and> list_all is_digit (trim s)")
  case True
  define n where "n = string_to_nat 10 (trim s)"
  from True have d: "decodeMemoToCanonical (Some s) (Some t) =
      (if 4294967295 < n then None else Some (padStart 8 (CHR ''0'') (toUpperCase (nat_to_string 16 n))))"
    using decode_id_digits [of s] assms by (simp add: decodeMemoToCanonical_def n_def Let_def)
  have "padStart 8 (CHR ''0'') (toUpperCase (nat_to_string 16 n)) = m \<longleftrightarrow> CANONICAL_MEMO_RE m \<and> string_to_nat 16 m = n"
    if "n \<le> 4294967295"
    using that CANONICAL_print [of n] pad_print_hex [of n 8] pad_print_parse [of m 8]
    by (auto simp: CANONICAL_MEMO_RE_def)
  moreover have "\<not> 4294967295 < n" if "CANONICAL_MEMO_RE m" "string_to_nat 16 m = n"
    using that string_to_nat_upper_less [of m] by (auto simp: CANONICAL_MEMO_RE_def)
  ultimately show ?thesis using True d by (auto simp: n_def)
next
  case False
  then show ?thesis
    using decode_id_not_digits [of s] assms by (auto simp: decodeMemoToCanonical_def)
qed

theorem memo_id_exact_witness:
  "decodeMemoToCanonical (Some ''2750749484'') (Some ''id'') = Some ''A3F51B2C''"
  by (subst memo_id_exact, code_simp, code_simp)

text \<open>The two decoders agree. For every memo value and every stated type that is not the hash type,
  and for a hash in the hexadecimal form Horizon reports, the decoder of the frontend returns what
  the decoder of the backend returns.
\<close>

theorem memo_decoders_agree:
  assumes "t \<noteq> []"
    and "full_memo_type t \<noteq> ''MEMO_HASH'' \<or> length (trim s) = 64 \<and> list_all is_hex (trim s)"
  shows "decodeMemo (Some s) (Some t) = decodeMemoToCanonical (Some s) (Some t)"
proof (cases "full_memo_type t = ''MEMO_HASH''")
  case False
  with assms(1) show ?thesis
    by (auto simp: decodeMemo_def decodeMemoToCanonical_def normalizeMemoType_def
        client_normalizeMemoType_def SUPPORTED_MEMO_TYPES_def)
next
  case True
  with assms have hex: "length (trim s) = 64" "list_all is_hex (trim s)" by auto
  define bs where "bs = hex_bytes (trim s)"
  have len: "length bs = 32" and small: "list_all (\<lambda>b. b < 256) bs"
    using hex hex_bytes_less by (simp_all add: bs_def length_hex_bytes)
  from small have tail: "list_all (\<lambda>b. b < 256) (drop 28 bs)" by (auto simp: list_all_iff dest: in_set_dropD)
  have c: "client_decodeHashBytes (trim s) = Some bs" "decodeHashBytes (trim s) = Some bs"
    using hex hex_bytes_map [of "trim s" 32]
    by (simp_all add: client_decodeHashBytes_def decodeHashBytes_def bs_def)
  show ?thesis
    using True assms(1) c len tail_hex_eq [OF tail] tail_hex_canonical [OF tail]
    by (simp add: decodeMemo_def decodeMemoToCanonical_def normalizeMemoType_def
        client_normalizeMemoType_def SUPPORTED_MEMO_TYPES_def Let_def)
qed

theorem memo_decoders_agree_witness:
  "decodeMemo (Some ''00000007'') (Some ''id'') = decodeMemoToCanonical (Some ''00000007'') (Some ''id'')"
  by (rule memo_decoders_agree) code_simp+

text \<open>On base64 the decoders do not agree. A hash with one padding character too many is a memo to
  the backend and none to the frontend; a hash whose unused last bits are not zero is a memo to the
  frontend and none to the backend.
\<close>

theorem memo_decoders_differ:
  "decodeMemoToCanonical (Some ''AAAAAAAAAAAAAAAAAAAAAAAAAAAAAAAAAAAAAKP5Gyw=='') (Some ''hash'') = Some ''A3F91B2C''
   \<and> decodeMemo (Some ''AAAAAAAAAAAAAAAAAAAAAAAAAAAAAAAAAAAAAKP5Gyw=='') (Some ''hash'') = None
   \<and> decodeMemo (Some ''AAAAAAAAAAAAAAAAAAAAAAAAAAAAAAAAAAAAAKP5Gyx='') (Some ''hash'') = Some ''A3F91B2C''
   \<and> decodeMemoToCanonical (Some ''AAAAAAAAAAAAAAAAAAAAAAAAAAAAAAAAAAAAAKP5Gyx='') (Some ''hash'') = None"
  by (intro conjI; code_simp)

end
