(* ===== verification/Decimal_Lib.thy ===== *)
theory Decimal_Lib
  imports Stellar_Amount
begin

section \<open>The decimal arithmetic library\<close>

text \<open>
  The package \<^verbatim>\<open>decimal.js\<close> is not part of the repository. Its operations that the sources call are
  the fields of a record, over any type of decimals; what its documentation says of them is stated
  by \<open>decimal_laws\<close>, relative to the rational a decimal denotes. A number is converted through its
  shortest decimal text, so amounts of whole stroops are exact up to fifteen digits; sums and
  differences keep twenty significant digits; comparison is exact; \<^verbatim>\<open>toDecimalPlaces\<close> with
  \<^verbatim>\<open>ROUND_HALF_UP\<close> rounds half away from zero; \<^verbatim>\<open>toNumber\<close> rounds to the nearest number.
\<close>

record 'd decimal_lib =
  dec_new :: "jsnum \<Rightarrow> 'd"
  dec_is_finite :: "'d \<Rightarrow> bool"
  dec_cmp :: "'d \<Rightarrow> 'd \<Rightarrow> int option"
  dec_plus :: "'d \<Rightarrow> 'd \<Rightarrow> 'd"
  dec_minus :: "'d \<Rightarrow> 'd \<Rightarrow> 'd"
  dec_times :: "'d \<Rightarrow> 'd \<Rightarrow> 'd"
  dec_div :: "'d \<Rightarrow> 'd \<Rightarrow> 'd"
  dec_neg :: "'d \<Rightarrow> 'd"
  dec_abs :: "'d \<Rightarrow> 'd"
  dec_places :: "nat \<Rightarrow> 'd \<Rightarrow> 'd"
  dec_toNumber :: "'d \<Rightarrow> jsnum"

text \<open>\<^verbatim>\<open>lt\<close>, \<^verbatim>\<open>lte\<close> and \<^verbatim>\<open>gt\<close> are false on what does not compare.\<close>

definition dec_lt :: "'d decimal_lib \<Rightarrow> 'd \<Rightarrow> 'd \<Rightarrow> bool" where
  "dec_lt L a b \<longleftrightarrow> (case dec_cmp L a b of Some c \<Rightarrow> c < 0 | None \<Rightarrow> False)"

definition dec_lte :: "'d decimal_lib \<Rightarrow> 'd \<Rightarrow> 'd \<Rightarrow> bool" where
  "dec_lte L a b \<longleftrightarrow> (case dec_cmp L a b of Some c \<Rightarrow> c \<le> 0 | None \<Rightarrow> False)"

definition dec_gt :: "'d decimal_lib \<Rightarrow> 'd \<Rightarrow> 'd \<Rightarrow> bool" where
  "dec_gt L a b \<longleftrightarrow> (case dec_cmp L a b of Some c \<Rightarrow> 0 < c | None \<Rightarrow> False)"

definition dec_max :: "'d decimal_lib \<Rightarrow> 'd \<Rightarrow> 'd \<Rightarrow> 'd" where
  "dec_max L a b = (if dec_lt L a b then b else a)"

subsection \<open>The documented laws\<close>

text \<open>The value in units of a count of stroops.\<close>

definition units :: "int \<Rightarrow> rat" where
  "units s = of_int s / 10 ^ 7"

text \<open>\<open>holds L val d s\<close>: the decimal \<open>d\<close> is finite and denotes \<open>s\<close> stroops.\<close>

definition holds :: "'d decimal_lib \<Rightarrow> ('d \<Rightarrow> rat) \<Rightarrow> 'd \<Rightarrow> int \<Rightarrow> bool" where
  "holds L val d s \<longleftrightarrow> dec_is_finite L d \<and> val d = units s"

text \<open>The Number that stands for a count of stroops.\<close>

definition money_num :: "int \<Rightarrow> jsnum" where
  "money_num s = to_num (units s)"

definition half_up7 :: "rat \<Rightarrow> rat" where
  "half_up7 x = (if x < 0 then - 1 else 1) * of_int \<lfloor>\<bar>x\<bar> * 10 ^ 7 + 1 / 2\<rfloor> / 10 ^ 7"

definition new_law :: "'d decimal_lib \<Rightarrow> ('d \<Rightarrow> rat) \<Rightarrow> bool" where
  "new_law L val \<longleftrightarrow>
     (\<forall>s. \<bar>s\<bar> < 10 ^ 15 \<longrightarrow> holds L val (dec_new L (money_num s)) s)
   \<and> (\<forall>x. val (dec_new L (Fin x)) \<le> 0 \<longleftrightarrow> x \<le> 0)
   \<and> (\<forall>j. dec_is_finite L (dec_new L j) \<longleftrightarrow> is_finite j)
   \<and> (\<forall>x y. 0 \<le> x \<longrightarrow> 0 \<le> y \<longrightarrow> round64 x = x \<longrightarrow> round64 y = y \<longrightarrow>
        (val (dec_new L (Fin x)) < val (dec_new L (Fin y)) \<longleftrightarrow> x < y))"

definition cmp_law :: "'d decimal_lib \<Rightarrow> ('d \<Rightarrow> rat) \<Rightarrow> bool" where
  "cmp_law L val \<longleftrightarrow> (\<forall>a b. dec_is_finite L a \<longrightarrow> dec_is_finite L b \<longrightarrow>
     dec_cmp L a b = Some (if val a < val b then - 1 else if val b < val a then 1 else 0))"

definition sum_law :: "'d decimal_lib \<Rightarrow> ('d \<Rightarrow> rat) \<Rightarrow> bool" where
  "sum_law L val \<longleftrightarrow> (\<forall>a b s t. holds L val a s \<longrightarrow> holds L val b t \<longrightarrow>
     (\<bar>s + t\<bar> < 10 ^ 20 \<longrightarrow> holds L val (dec_plus L a b) (s + t)) \<and>
     (\<bar>s - t\<bar> < 10 ^ 20 \<longrightarrow> holds L val (dec_minus L a b) (s - t)))"

definition round_law :: "'d decimal_lib \<Rightarrow> ('d \<Rightarrow> rat) \<Rightarrow> bool" where
  "round_law L val \<longleftrightarrow> (\<forall>a. dec_is_finite L a \<longrightarrow>
     dec_is_finite L (dec_places L 7 a) \<and> val (dec_places L 7 a) = half_up7 (val a)
   \<and> dec_toNumber L a = to_num (val a))"

definition decimal_laws :: "'d decimal_lib \<Rightarrow> ('d \<Rightarrow> rat) \<Rightarrow> bool" where
  "decimal_laws L val \<longleftrightarrow> new_law L val \<and> cmp_law L val \<and> sum_law L val \<and> round_law L val"

subsection \<open>Consequences on amounts of whole stroops\<close>

lemma units_less [simp]: "units s < units t \<longleftrightarrow> s < t"
  by (simp add: units_def divide_less_cancel)

lemma units_add: "units (s + t) = units s + units t" and units_diff: "units (s - t) = units s - units t"
  by (simp_all add: units_def add_divide_distrib diff_divide_distrib)

lemma units_0 [simp]: "units 0 = 0"
  by (simp add: units_def)

lemma half_up7_near:
  assumes "\<bar>x - units s\<bar> < 1 / (2 * 10 ^ 7)"
  shows "half_up7 x = units s"
  using arg_cong [OF half_stroop_round [of x s], of "of_int :: int \<Rightarrow> rat"] assms
  by (auto simp: half_up7_def units_def split: if_splits)

lemma half_up7_units [simp]: "half_up7 (units s) = units s"
  by (rule half_up7_near) simp

lemma holds_new: "decimal_laws L val \<Longrightarrow> \<bar>s\<bar> < 10 ^ 15 \<Longrightarrow> holds L val (dec_new L (money_num s)) s"
  by (simp add: decimal_laws_def new_law_def)

lemma money_num_0 [simp]: "money_num 0 = Fin 0"
  by (simp add: money_num_def to_num_def Let_def)

lemma holds_zero: "decimal_laws L val \<Longrightarrow> holds L val (dec_new L (Fin 0)) 0"
  using holds_new [of L val 0] by simp

lemma holds_plus: "decimal_laws L val \<Longrightarrow> holds L val a s \<Longrightarrow> holds L val b t \<Longrightarrow> \<bar>s + t\<bar> < 10 ^ 20
    \<Longrightarrow> holds L val (dec_plus L a b) (s + t)"
  by (simp add: decimal_laws_def sum_law_def)

lemma holds_minus: "decimal_laws L val \<Longrightarrow> holds L val a s \<Longrightarrow> holds L val b t \<Longrightarrow> \<bar>s - t\<bar> < 10 ^ 20
    \<Longrightarrow> holds L val (dec_minus L a b) (s - t)"
  by (simp add: decimal_laws_def sum_law_def)

lemma holds_places: "decimal_laws L val \<Longrightarrow> holds L val a s \<Longrightarrow> holds L val (dec_places L 7 a) s"
  by (simp add: decimal_laws_def round_law_def holds_def)

lemma holds_toNumber: "decimal_laws L val \<Longrightarrow> holds L val a s \<Longrightarrow> dec_toNumber L a = money_num s"
  by (simp add: decimal_laws_def round_law_def holds_def money_num_def)

lemma holds_cmp: "decimal_laws L val \<Longrightarrow> holds L val a s \<Longrightarrow> holds L val b t
    \<Longrightarrow> dec_cmp L a b = Some (if s < t then - 1 else if t < s then 1 else 0)"
  by (simp add: decimal_laws_def cmp_law_def holds_def)

lemma holds_max: "decimal_laws L val \<Longrightarrow> holds L val a s \<Longrightarrow> holds L val b t \<Longrightarrow> holds L val (dec_max L a b) (max s t)"
  using holds_cmp [of L val a s b t] by (auto simp: dec_max_def dec_lt_def max_def)

text \<open>Decimals of two numbers that are not negative compare as the numbers do.\<close>

lemma cmp_new:
  assumes "decimal_laws L val" "0 \<le> x" "0 \<le> y" "round64 x = x" "round64 y = y"
  shows "dec_cmp L (dec_new L (Fin x)) (dec_new L (Fin y)) = Some (if x < y then - 1 else if y < x then 1 else 0)"
  using assms by (simp add: decimal_laws_def new_law_def cmp_law_def)

lemma lte_new_zero:
  assumes "decimal_laws L val"
  shows "dec_lte L (dec_new L (Fin x)) (dec_new L (Fin 0)) \<longleftrightarrow> x \<le> 0"
proof -
  have "val (dec_new L (Fin 0)) = 0" "val (dec_new L (Fin x)) \<le> 0 \<longleftrightarrow> x \<le> 0"
    "dec_is_finite L (dec_new L (Fin 0))" "dec_is_finite L (dec_new L (Fin x))"
    using holds_zero [OF assms] assms by (auto simp: holds_def decimal_laws_def new_law_def)
  then show ?thesis using assms by (auto simp: dec_lte_def decimal_laws_def cmp_law_def)
qed

lemma not_finite_new: "decimal_laws L val \<Longrightarrow> dec_is_finite L (dec_new L j) = is_finite j"
  by (simp add: decimal_laws_def new_law_def)

subsection \<open>The laws can hold\<close>

text \<open>
  An instance on the rationals: a number that is the nearest one to a count of stroops becomes that
  count, every other number its own value, and sums are exact. It is used in witnesses only.
\<close>

definition short_dec :: "rat \<Rightarrow> rat" where
  "short_dec x = (let s = half_up7 x in if round64 s = x then s else x)"

definition rat_lib :: "rat option decimal_lib" where
  "rat_lib = \<lparr>dec_new = (\<lambda>j. case j of Fin x \<Rightarrow> Some (short_dec x) | _ \<Rightarrow> None),
     dec_is_finite = (\<lambda>d. d \<noteq> None),
     dec_cmp = (\<lambda>a b. case (a, b) of (Some x, Some y) \<Rightarrow> Some (if x < y then - 1 else if y < x then 1 else 0) | _ \<Rightarrow> None),
     dec_plus = (\<lambda>a b. case (a, b) of (Some x, Some y) \<Rightarrow> Some (x + y) | _ \<Rightarrow> None),
     dec_minus = (\<lambda>a b. case (a, b) of (Some x, Some y) \<Rightarrow> Some (x - y) | _ \<Rightarrow> None),
     dec_times = (\<lambda>a b. case (a, b) of (Some x, Some y) \<Rightarrow> Some (x * y) | _ \<Rightarrow> None),
     dec_div = (\<lambda>a b. case (a, b) of (Some x, Some y) \<Rightarrow> if y = 0 then None else Some (x / y) | _ \<Rightarrow> None),
     dec_neg = map_option uminus,
     dec_abs = map_option abs,
     dec_places = (\<lambda>n a. case a of Some x \<Rightarrow> Some (if n = 7 then half_up7 x else x) | None \<Rightarrow> None),
     dec_toNumber = (\<lambda>a. case a of Some x \<Rightarrow> to_num x | None \<Rightarrow> NaN)\<rparr>"

definition rat_val :: "rat option \<Rightarrow> rat" where
  "rat_val d = (case d of Some x \<Rightarrow> x | None \<Rightarrow> 0)"

lemma half_up7_nonneg: "0 \<le> x \<Longrightarrow> 0 \<le> half_up7 x"
  by (simp add: half_up7_def)

lemma short_dec_round: "round64 x = x \<Longrightarrow> round64 (short_dec x) = x"
  by (simp add: short_dec_def Let_def)

lemma short_dec_nonneg: "0 \<le> x \<Longrightarrow> 0 \<le> short_dec x"
  using half_up7_nonneg by (simp add: short_dec_def Let_def)

lemma short_dec_sign: "short_dec x \<le> 0 \<longleftrightarrow> x \<le> 0"
proof -
  have "half_up7 x \<le> 0" if "x \<le> 0"
    using that by (cases "x = 0") (auto simp: half_up7_def)
  moreover have "0 < half_up7 x" if "0 < x" "round64 (half_up7 x) = x"
    using half_up7_nonneg [of x] that by (cases "half_up7 x = 0") auto
  ultimately show ?thesis
    by (cases "x \<le> 0"; cases "round64 (half_up7 x) = x") (simp_all add: short_dec_def Let_def not_le)
qed

lemma short_dec_less:
  assumes "0 \<le> x" "0 \<le> y" "round64 x = x" "round64 y = y"
  shows "short_dec x < short_dec y \<longleftrightarrow> x < y"
proof -
  note nn = short_dec_nonneg [OF assms(1)] short_dec_nonneg [OF assms(2)]
  note r = short_dec_round [OF assms(3)] short_dec_round [OF assms(4)]
  have "short_dec x \<le> short_dec y \<Longrightarrow> x \<le> y" "short_dec y \<le> short_dec x \<Longrightarrow> y \<le> x"
    using round64_mono [OF nn(1)] round64_mono [OF nn(2)] r by fastforce+
  moreover have "x = y \<Longrightarrow> short_dec x = short_dec y" by simp
  moreover have "short_dec x = short_dec y \<Longrightarrow> x = y" using r by metis
  ultimately show ?thesis by fastforce
qed

lemma short_dec_stroops:
  assumes "\<bar>s\<bar> < 10 ^ 15"
  shows "money_num s = Fin (round64 (units s))" "short_dec (round64 (units s)) = units s"
proof -
  from assms have b: "\<bar>s\<bar> < 2 ^ 29 * 10 ^ 7" by simp
  note near = round64_near_stroop [OF b, folded units_def]
  show "money_num s = Fin (round64 (units s))"
    unfolding money_num_def by (rule to_num_finite [OF near(3)])
  show "short_dec (round64 (units s)) = units s"
    using half_up7_near [OF near(1)] by (simp add: short_dec_def Let_def)
qed

lemma rat_lib_laws: "decimal_laws rat_lib rat_val"
proof -
  have "new_law rat_lib rat_val"
    unfolding new_law_def
  proof (intro conjI allI impI)
    fix s :: int
    assume "\<bar>s\<bar> < 10 ^ 15"
    then show "holds rat_lib rat_val (dec_new rat_lib (money_num s)) s"
      using short_dec_stroops by (simp add: holds_def rat_lib_def rat_val_def)
  next
    fix j
    show "dec_is_finite rat_lib (dec_new rat_lib j) \<longleftrightarrow> is_finite j" by (cases j) (simp_all add: rat_lib_def)
  qed (simp_all add: rat_lib_def rat_val_def short_dec_less short_dec_sign)
  moreover have "cmp_law rat_lib rat_val" by (auto simp: cmp_law_def rat_lib_def rat_val_def)
  moreover have "sum_law rat_lib rat_val"
    by (auto simp: sum_law_def holds_def rat_lib_def rat_val_def units_add units_diff)
  moreover have "round_law rat_lib rat_val" by (auto simp: round_law_def rat_lib_def rat_val_def)
  ultimately show ?thesis by (simp add: decimal_laws_def)
qed

end
