(* ===== verification/Student_Balance.thy ===== *)
theory Student_Balance
  imports Decimal_Lib Payment_Status "HOL-Library.Multiset"
begin

section \<open>Money and student balances\<close>

text \<open>
  \<^verbatim>\<open>backend/src/utils/money.js\<close>, the comparison of what was paid with a fee, and
  \<^verbatim>\<open>backend/src/utils/studentBalanceUpdater.js\<close>, the only writer of a student's balance fields. The decimal
  library is the record of \<^verbatim>\<open>Decimal_Lib\<close>; the sum \<^verbatim>\<open>$sum\<close> over \<^verbatim>\<open>$toDecimal\<close> that MongoDB computes is the
  parameter \<open>sumD\<close>, whose documented law is \<open>mongo_sum_law\<close>. The collections are a list of payments and
  maps with the unique keys of the students and the period fees.
\<close>

subsection \<open>Money\<close>

text \<open>A monetary value: a decimal, a number, or one of \<^verbatim>\<open>null\<close>, \<^verbatim>\<open>undefined\<close> and the empty string.\<close>

datatype 'd money_arg = MDec 'd | MNum jsnum | MNull

fun toMoney :: "'d decimal_lib \<Rightarrow> 'd money_arg \<Rightarrow> 'd" where
  "toMoney L (MDec d) = d"
| "toMoney L MNull = dec_new L (Fin 0)"
| "toMoney L (MNum n) = dec_new L n"

definition MONEY_DECIMALS :: nat where
  "MONEY_DECIMALS = 7"

definition roundMoney :: "'d decimal_lib \<Rightarrow> 'd money_arg \<Rightarrow> 'd" where
  "roundMoney L v = dec_places L MONEY_DECIMALS (toMoney L v)"

definition toMoneyNumber :: "'d decimal_lib \<Rightarrow> 'd money_arg \<Rightarrow> jsnum" where
  "toMoneyNumber L v = dec_toNumber L (roundMoney L v)"

definition compareMoney :: "'d decimal_lib \<Rightarrow> 'd money_arg \<Rightarrow> 'd money_arg \<Rightarrow> int option" where
  "compareMoney L a b = dec_cmp L (toMoney L a) (toMoney L b)"

definition moneyEquals :: "'d decimal_lib \<Rightarrow> 'd money_arg \<Rightarrow> 'd money_arg \<Rightarrow> bool" where
  "moneyEquals L a b \<longleftrightarrow> compareMoney L a b = Some 0"

datatype fee_status = FS_valid | FS_partial | FS_overpaid | FS_underpaid | FS_unknown

record classification =
  cl_status :: fee_status
  cl_feePaid :: bool
  cl_cumulativeTotal :: jsnum
  cl_excessAmount :: jsnum
  cl_remainingBalance :: jsnum

definition classifyFeePayment :: "'d decimal_lib \<Rightarrow> 'd money_arg \<Rightarrow> 'd money_arg \<Rightarrow> classification" where
  "classifyFeePayment L cumulativeTotal feeAmount =
     (let cumulative = roundMoney L cumulativeTotal;
          fee = toMoney L feeAmount;
          cmp = dec_cmp L cumulative fee;
          fstatus = (case cmp of
                       None \<Rightarrow> FS_valid
                     | Some c \<Rightarrow> if c < 0 then FS_partial else if 0 < c then FS_overpaid else FS_valid)
      in \<lparr>cl_status = fstatus,
          cl_feePaid = (case cmp of None \<Rightarrow> False | Some c \<Rightarrow> 0 \<le> c),
          cl_cumulativeTotal = dec_toNumber L cumulative,
          cl_excessAmount = (if fstatus = FS_overpaid then toMoneyNumber L (MDec (dec_minus L cumulative fee)) else Fin 0),
          cl_remainingBalance =
            toMoneyNumber L (MDec (dec_max L (dec_new L (Fin 0)) (dec_minus L fee cumulative)))\<rparr>)"

definition classifyFeePaymentStatus ::
  "'d decimal_lib \<Rightarrow> 'd money_arg \<Rightarrow> 'd money_arg \<Rightarrow> 'd money_arg \<Rightarrow> classification" where
  "classifyFeePaymentStatus L cumulativeTotal feeAmount installmentAmount =
     (let r = classifyFeePayment L cumulativeTotal feeAmount in
      if cl_status r = FS_partial \<and> installmentAmount \<noteq> MNull
         \<and> dec_lt L (roundMoney L cumulativeTotal) (roundMoney L installmentAmount)
      then r\<lparr>cl_status := FS_underpaid\<rparr> else r)"

text \<open>
  The mapping to the vocabulary of payments reads a field \<^verbatim>\<open>feeAmount\<close> of the classification, and calls
  \<^verbatim>\<open>greaterThan\<close> on its \<^verbatim>\<open>remainingBalance\<close>, which is a number and has no such method.
\<close>

datatype js_type_error = Not_a_function

definition feeValidationStatusFromClassification ::
  "jsnum option \<Rightarrow> classification \<Rightarrow> (js_type_error, fee_status) result" where
  "feeValidationStatusFromClassification feeAmount c =
     (if feeAmount = None then Inr FS_unknown
      else if cl_feePaid c then Inr FS_valid
      else if truthy_num (cl_remainingBalance c) then Inl Not_a_function
      else Inr FS_overpaid)"

subsection \<open>The canonical sum\<close>

record pay_row =
  row_schoolId :: string
  row_studentId :: string
  row_txHash :: string
  row_deletedAt :: "millis option"
  row_status :: payment_status
  row_isSuspicious :: bool
  row_feeCategory :: "string option"
  row_amount :: jsnum
  row_createdAt :: millis

text \<open>\<open>feeCategory\<close> is \<open>None\<close> when the option is missing; a category may itself be \<^verbatim>\<open>null\<close>.\<close>

definition canonicalPaidMatch :: "string \<Rightarrow> string \<Rightarrow> string option option \<Rightarrow> pay_row \<Rightarrow> bool" where
  "canonicalPaidMatch schoolId studentId feeCategory r \<longleftrightarrow>
     row_schoolId r = schoolId \<and> row_studentId r = studentId \<and> row_deletedAt r = None
     \<and> row_status r = SUCCESS \<and> \<not> row_isSuspicious r
     \<and> (case feeCategory of None \<Rightarrow> True | Some c \<Rightarrow> row_feeCategory r = c)"

definition sum_rows :: "'d decimal_lib \<Rightarrow> (jsnum list \<Rightarrow> 'd) \<Rightarrow> pay_row list \<Rightarrow> 'd" where
  "sum_rows L sumD rows = (if rows = [] then toMoney L (MNum (Fin 0)) else sumD (map row_amount rows))"

definition sumCanonicalPayments ::
  "'d decimal_lib \<Rightarrow> (jsnum list \<Rightarrow> 'd) \<Rightarrow> pay_row list \<Rightarrow> string \<Rightarrow> string \<Rightarrow> string option option \<Rightarrow> 'd" where
  "sumCanonicalPayments L sumD rows schoolId studentId feeCategory =
     sum_rows L sumD (filter (canonicalPaidMatch schoolId studentId feeCategory) rows)"

subsection \<open>Balances\<close>

record fee_entry =
  fe_category :: "string option"
  fe_amount :: jsnum
  fe_totalPaid :: jsnum
  fe_remainingBalance :: jsnum
  fe_paid :: bool

record student =
  st_feeAmount :: jsnum
  st_totalPaid :: jsnum
  st_remainingBalance :: jsnum
  st_feePaid :: bool
  st_creditAdjustments :: "jsnum option"
  st_fees :: "fee_entry list"
  st_disputeHold :: bool

record period_fee =
  pf_feeAmount :: "jsnum option"
  pf_carriedArrears :: "jsnum option"
  pf_creditAdjustments :: "jsnum option"
  pf_totalPaid :: jsnum
  pf_remainingBalance :: jsnum
  pf_feePaid :: bool

record balance_db =
  db_payments :: "pay_row list"
  db_students :: "string \<times> string \<Rightarrow> student option"
  db_current_period :: "string \<Rightarrow> (string \<times> millis) option"
  db_period_fees :: "string \<times> string \<times> string \<Rightarrow> period_fee option"

text \<open>\<^verbatim>\<open>x || 0\<close>\<close>

definition or_zero :: "jsnum option \<Rightarrow> jsnum" where
  "or_zero x = (case x of Some n \<Rightarrow> if truthy_num n then n else Fin 0 | None \<Rightarrow> Fin 0)"

definition student_classification ::
  "'d decimal_lib \<Rightarrow> (jsnum list \<Rightarrow> 'd) \<Rightarrow> pay_row list \<Rightarrow> string \<Rightarrow> string \<Rightarrow> student \<Rightarrow> classification" where
  "student_classification L sumD rows schoolId studentId s =
     (let paymentTotal = sumCanonicalPayments L sumD rows schoolId studentId None;
          creditAdjustments = toMoney L (MNum (or_zero (st_creditAdjustments s)));
          cumulativeTotal = toMoney L (MDec (dec_plus L paymentTotal creditAdjustments))
      in classifyFeePayment L (MDec cumulativeTotal) (MNum (st_feeAmount s)))"

definition computeStudentBalance ::
  "'d decimal_lib \<Rightarrow> (jsnum list \<Rightarrow> 'd) \<Rightarrow> string \<Rightarrow> string \<Rightarrow> balance_db \<Rightarrow> (jsnum \<times> jsnum \<times> bool) option" where
  "computeStudentBalance L sumD schoolId studentId db =
     (case db_students db (schoolId, studentId) of
        None \<Rightarrow> None
      | Some s \<Rightarrow>
          let c = student_classification L sumD (db_payments db) schoolId studentId s
          in Some (cl_cumulativeTotal c, cl_remainingBalance c, cl_feePaid c))"

definition update_fee_entry ::
  "'d decimal_lib \<Rightarrow> (jsnum list \<Rightarrow> 'd) \<Rightarrow> pay_row list \<Rightarrow> string \<Rightarrow> string \<Rightarrow> fee_entry \<Rightarrow> fee_entry" where
  "update_fee_entry L sumD rows schoolId studentId e =
     (let paidSum = sumCanonicalPayments L sumD rows schoolId studentId (Some (fe_category e));
          c = classifyFeePayment L (MDec paidSum) (MNum (fe_amount e))
      in e\<lparr>fe_totalPaid := cl_cumulativeTotal c, fe_remainingBalance := cl_remainingBalance c,
           fe_paid := cl_feePaid c\<rparr>)"

definition period_match :: "string \<Rightarrow> string \<Rightarrow> millis \<Rightarrow> pay_row \<Rightarrow> bool" where
  "period_match schoolId studentId startsAt r \<longleftrightarrow>
     canonicalPaidMatch schoolId studentId None r \<and> startsAt \<le> row_createdAt r"

definition syncCurrentPeriodFee ::
  "'d decimal_lib \<Rightarrow> (jsnum list \<Rightarrow> 'd) \<Rightarrow> string \<Rightarrow> string \<Rightarrow> balance_db \<Rightarrow> balance_db" where
  "syncCurrentPeriodFee L sumD schoolId studentId db =
     (case db_current_period db schoolId of
        None \<Rightarrow> db
      | Some (periodId, startsAt) \<Rightarrow>
          (case db_period_fees db (schoolId, studentId, periodId) of
             None \<Rightarrow> db
           | Some pf \<Rightarrow>
               let paymentTotal = sum_rows L sumD (filter (period_match schoolId studentId startsAt) (db_payments db));
                   cumulativeTotal = dec_plus L paymentTotal (dec_new L (or_zero (pf_creditAdjustments pf)));
                   totalDue = jadd (or_zero (pf_feeAmount pf)) (or_zero (pf_carriedArrears pf));
                   c = classifyFeePayment L (MDec cumulativeTotal) (MNum totalDue)
               in db\<lparr>db_period_fees := (db_period_fees db)((schoolId, studentId, periodId) \<mapsto>
                      pf\<lparr>pf_totalPaid := cl_cumulativeTotal c, pf_remainingBalance := cl_remainingBalance c,
                         pf_feePaid := cl_feePaid c\<rparr>)\<rparr>))"

definition updateStudentBalance ::
  "'d decimal_lib \<Rightarrow> (jsnum list \<Rightarrow> 'd) \<Rightarrow> bool \<Rightarrow> string \<Rightarrow> string \<Rightarrow> balance_db \<Rightarrow> balance_db \<times> student option" where
  "updateStudentBalance L sumD includeFeeCategoryBreakdown schoolId studentId db =
     (case db_students db (schoolId, studentId) of
        None \<Rightarrow> (db, None)
      | Some s \<Rightarrow>
          let c = student_classification L sumD (db_payments db) schoolId studentId s;
              s1 = s\<lparr>st_totalPaid := cl_cumulativeTotal c, st_remainingBalance := cl_remainingBalance c,
                     st_feePaid := cl_feePaid c\<rparr>;
              s2 = (if includeFeeCategoryBreakdown \<and> st_fees s \<noteq> []
                    then s1\<lparr>st_fees := map (update_fee_entry L sumD (db_payments db) schoolId studentId) (st_fees s)\<rparr>
                    else s1);
              db' = db\<lparr>db_students := (db_students db)((schoolId, studentId) \<mapsto> s2)\<rparr>
          in (syncCurrentPeriodFee L sumD schoolId studentId db', Some s2))"

text \<open>
  The hook that runs before a student document is saved (\<^verbatim>\<open>backend/src/models/studentModel.js\<close>): fees beyond
  the cap are moved to the history, and the balance fields are recomputed from the fees that are left.
\<close>

definition jsum :: "jsnum list \<Rightarrow> jsnum" where
  "jsum xs = foldl jadd (Fin 0) xs"

definition save_fee_entry :: "fee_entry \<Rightarrow> fee_entry" where
  "save_fee_entry e =
     e\<lparr>fe_remainingBalance := jmax (Fin 0) (jsub (fe_amount e) (or_zero (Some (fe_totalPaid e)))),
       fe_paid := jleq (fe_amount e) (or_zero (Some (fe_totalPaid e)))\<rparr>"

definition student_pre_save :: "nat \<Rightarrow> student \<Rightarrow> student \<times> fee_entry list" where
  "student_pre_save feeCap s =
     (let overflow = length (st_fees s) - feeCap;
          archived = take overflow (st_fees s);
          kept = drop overflow (st_fees s)
      in if kept = [] then (s\<lparr>st_fees := kept\<rparr>, archived)
         else let paidSum = jsum (map (\<lambda>e. or_zero (Some (fe_amount e))) kept);
                  saved = map save_fee_entry kept;
                  paid = jsum (map (\<lambda>e. or_zero (Some (fe_totalPaid e))) saved)
              in (s\<lparr>st_feeAmount := paidSum, st_fees := saved, st_totalPaid := paid,
                    st_remainingBalance := jmax (Fin 0) (jsub paidSum paid),
                    st_feePaid := list_all fe_paid saved\<rparr>, archived))"

subsection \<open>The ledger in whole stroops\<close>

text \<open>
  The specification, an account in integers of stroops, written from the rule in the header of the
  module and without its filter: the payments are posted one after the other, and each is credited
  if it is the student's at that school, has succeeded, is not suspicious and not deleted. A fee is settled
  when the account with the credit reaches it. The rule's last term, less completed refunds, has no
  counterpart in the code: a refund takes effect through the status of its payment, which then no
  longer counts at all.
\<close>

fun paid_stroops ::
  "(pay_row \<Rightarrow> int) \<Rightarrow> pay_row list \<Rightarrow> string \<Rightarrow> string \<Rightarrow> string option option \<Rightarrow> int" where
  "paid_stroops stroops [] schoolId studentId category = 0"
| "paid_stroops stroops (r # rows) schoolId studentId category =
     (if row_status r = SUCCESS \<and> row_isSuspicious r = False \<and> row_deletedAt r = None
         \<and> (row_schoolId r, row_studentId r) = (schoolId, studentId) \<and> category \<in> {None, Some (row_feeCategory r)}
      then stroops r else 0) + paid_stroops stroops rows schoolId studentId category"

lemma paid_stroops_filter:
  "paid_stroops stroops rows schoolId studentId category =
     sum_list (map stroops (filter (canonicalPaidMatch schoolId studentId category) rows))"
  by (induction rows) (auto simp: canonicalPaidMatch_def split: option.splits)

text \<open>A refund of any part of a payment, completed, takes the whole payment off the account.\<close>

lemma refunded_payment_drops_out:
  assumes "canonicalPaidMatch schoolId studentId category r"
  shows "paid_stroops stroops (us @ r\<lparr>row_status := REFUNDED\<rparr> # vs) schoolId studentId category
    = paid_stroops stroops (us @ r # vs) schoolId studentId category - stroops r"
  using assms by (simp add: paid_stroops_filter) (simp add: canonicalPaidMatch_def)

definition ledger_class :: "int \<Rightarrow> int \<Rightarrow> classification" where
  "ledger_class paidSum fee =
     \<lparr>cl_status = (if paidSum < fee then FS_partial else if fee < paidSum then FS_overpaid else FS_valid),
      cl_feePaid = (fee \<le> paidSum),
      cl_cumulativeTotal = money_num paidSum,
      cl_excessAmount = money_num (max 0 (paidSum - fee)),
      cl_remainingBalance = money_num (max 0 (fee - paidSum))\<rparr>"

definition mongo_sum_law :: "'d decimal_lib \<Rightarrow> ('d \<Rightarrow> rat) \<Rightarrow> (jsnum list \<Rightarrow> 'd) \<Rightarrow> bool" where
  "mongo_sum_law L val sumD \<longleftrightarrow>
     (\<forall>ss. ss \<noteq> [] \<longrightarrow> list_all (\<lambda>s. \<bar>s\<bar> < 10 ^ 15) ss \<longrightarrow> \<bar>sum_list ss\<bar> < 10 ^ 19 \<longrightarrow>
        holds L val (sumD (map money_num ss)) (sum_list ss))"

definition rows_in_stroops :: "(pay_row \<Rightarrow> int) \<Rightarrow> pay_row list \<Rightarrow> bool" where
  "rows_in_stroops stroops rows \<longleftrightarrow>
     list_all (\<lambda>r. row_amount r = money_num (stroops r) \<and> \<bar>stroops r\<bar> < 10 ^ 15) rows"

lemma classify_holds:
  assumes L: "decimal_laws L val" and paidSum: "holds L val (toMoney L cum) paidSum" "\<bar>paidSum\<bar> < 10 ^ 19"
    and fee: "\<bar>fee\<bar> < 10 ^ 15"
  shows "classifyFeePayment L cum (MNum (money_num fee)) = ledger_class paidSum fee"
proof -
  note f = holds_new [OF L fee]
  have c: "holds L val (roundMoney L cum) paidSum"
    using holds_places [OF L paidSum(1)] by (simp add: roundMoney_def MONEY_DECIMALS_def)
  have small: "\<bar>paidSum - fee\<bar> < 10 ^ 20" "\<bar>fee - paidSum\<bar> < 10 ^ 20" using paidSum(2) fee by auto
  note minus = holds_minus [OF L c f small(1)] holds_minus [OF L f c small(2)]
  have num: "toMoneyNumber L (MDec d) = money_num s" if "holds L val d s" for d s
    using holds_toNumber [OF L holds_places [OF L that]]
    by (simp add: toMoneyNumber_def roundMoney_def MONEY_DECIMALS_def)
  show ?thesis
    using num [OF minus(1)] num [OF holds_max [OF L holds_zero [OF L] minus(2)]]
      holds_toNumber [OF L c] holds_cmp [OF L c f]
    by (auto simp: classifyFeePayment_def ledger_class_def Let_def max_def)
qed

lemma holds_sum_rows:
  assumes "decimal_laws L val" "mongo_sum_law L val sumD" "rows_in_stroops stroops rows"
    and "\<bar>sum_list (map stroops rows)\<bar> < 10 ^ 19"
  shows "holds L val (sum_rows L sumD rows) (sum_list (map stroops rows))"
proof (cases "rows = []")
  case True
  then show ?thesis using holds_zero [OF assms(1)] by (simp add: sum_rows_def)
next
  case False
  from assms(3) have m: "map row_amount rows = map money_num (map stroops rows)"
    and small: "list_all (\<lambda>s. \<bar>s\<bar> < 10 ^ 15) (map stroops rows)"
    by (auto simp: rows_in_stroops_def list_all_iff)
  have "holds L val (sumD (map money_num (map stroops rows))) (sum_list (map stroops rows))"
    by (rule assms(2) [unfolded mongo_sum_law_def, rule_format]) (use False small assms(4) in simp_all)
  with False show ?thesis unfolding sum_rows_def m by simp
qed

lemma rows_in_stroops_filter: "rows_in_stroops stroops rows \<Longrightarrow> rows_in_stroops stroops (filter P rows)"
  by (auto simp: rows_in_stroops_def list_all_iff)

lemma holds_canonical_sum:
  assumes "decimal_laws L val" "mongo_sum_law L val sumD" "rows_in_stroops stroops rows"
    and "\<bar>paid_stroops stroops rows schoolId studentId cat\<bar> < 10 ^ 19"
  shows "holds L val (sumCanonicalPayments L sumD rows schoolId studentId cat)
    (paid_stroops stroops rows schoolId studentId cat)"
  using holds_sum_rows [OF assms(1,2) rows_in_stroops_filter [OF assms(3)]] assms(4)
  by (simp add: sumCanonicalPayments_def paid_stroops_filter)

text \<open>The sums in question stay below \<open>10^18\<close> stroops, \<open>10^11\<close> units.\<close>

definition credit_stroops :: "student \<Rightarrow> int \<Rightarrow> bool" where
  "credit_stroops s c \<longleftrightarrow> or_zero (st_creditAdjustments s) = money_num c \<and> \<bar>c\<bar> < 10 ^ 15"

lemma student_classification_ledger:
  assumes L: "decimal_laws L val" "mongo_sum_law L val sumD" "rows_in_stroops stroops rows"
    and bound: "\<bar>paid_stroops stroops rows schoolId studentId None\<bar> < 10 ^ 18"
    and credit: "credit_stroops s c" and fee: "st_feeAmount s = money_num fee" "\<bar>fee\<bar> < 10 ^ 15"
  shows "student_classification L sumD rows schoolId studentId s =
    ledger_class (paid_stroops stroops rows schoolId studentId None + c) fee"
proof -
  let ?p = "paid_stroops stroops rows schoolId studentId None"
  from bound have b: "\<bar>?p\<bar> < 10 ^ 19" by simp
  note p = holds_canonical_sum [OF L b]
  from credit have c: "or_zero (st_creditAdjustments s) = money_num c" "\<bar>c\<bar> < 10 ^ 15"
    by (auto simp: credit_stroops_def)
  have small: "\<bar>?p + c\<bar> < 10 ^ 19" "\<bar>?p + c\<bar> < 10 ^ 20" using bound c(2) by simp_all
  have "holds L val (dec_plus L (sumCanonicalPayments L sumD rows schoolId studentId None) (dec_new L (money_num c))) (?p + c)"
    by (rule holds_plus [OF L(1) p holds_new [OF L(1) c(2)] small(2)])
  with c small(1) fee(2) show ?thesis
    unfolding student_classification_def Let_def fee(1) by (intro classify_holds [OF L(1)]) simp_all
qed

lemma syncCurrentPeriodFee_students [simp]:
  "db_students (syncCurrentPeriodFee L sumD i j db) = db_students db"
  "db_payments (syncCurrentPeriodFee L sumD i j db) = db_payments db"
  "db_current_period (syncCurrentPeriodFee L sumD i j db) = db_current_period db"
  by (auto simp: syncCurrentPeriodFee_def Let_def split: option.splits)

lemma syncCurrentPeriodFee_idem:
  "syncCurrentPeriodFee L sumD i j (syncCurrentPeriodFee L sumD i j db) = syncCurrentPeriodFee L sumD i j db"
  by (auto simp: syncCurrentPeriodFee_def Let_def split: option.splits)

subsection \<open>Properties\<close>

text \<open>C2: The stored balance is the ledger's. If the payments, the credit and the fee are whole stroops of
  up to fifteen digits, then the update writes, for the student, the exact sum of the payments that
  succeeded, are neither deleted nor suspicious, plus the credit; the remaining balance is what
  is missing to the fee, never negative; and the fee counts as paid exactly when nothing is missing.
  So instalments that add up to the fee settle it, whatever their number and order. Completed
  refunds, which the rule in the header of the module subtracts, are not subtracted.\<close>

theorem balance_refines_ledger:
  assumes "decimal_laws L val" "mongo_sum_law L val sumD" "rows_in_stroops stroops (db_payments db)"
    and "db_students db (schoolId, studentId) = Some s"
    and "\<bar>paid_stroops stroops (db_payments db) schoolId studentId None\<bar> < 10 ^ 18"
    and "credit_stroops s c" "st_feeAmount s = money_num fee" "\<bar>fee\<bar> < 10 ^ 15"
  shows "\<exists>s'. updateStudentBalance L sumD breakdown schoolId studentId db =
        (fst (updateStudentBalance L sumD breakdown schoolId studentId db), Some s')
      \<and> db_students (fst (updateStudentBalance L sumD breakdown schoolId studentId db)) (schoolId, studentId) = Some s'
      \<and> (let paid = paid_stroops stroops (db_payments db) schoolId studentId None + c
         in st_totalPaid s' = money_num paid
          \<and> st_remainingBalance s' = money_num (max 0 (fee - paid))
          \<and> (st_feePaid s' \<longleftrightarrow> fee \<le> paid))"
  using student_classification_ledger [OF assms(1-3,5-8)] assms(4)
  by (simp add: updateStudentBalance_def Let_def ledger_class_def)

definition rat_sum :: "jsnum list \<Rightarrow> rat option" where
  "rat_sum xs = foldr (dec_plus rat_lib) (map (dec_new rat_lib) xs) (Some 0)"

lemma rat_sum_law: "mongo_sum_law rat_lib rat_val rat_sum"
proof -
  have "holds rat_lib rat_val (rat_sum (map money_num ss)) (sum_list ss)" if "list_all (\<lambda>s. \<bar>s\<bar> < 10 ^ 15) ss" for ss
    using that
  proof (induction ss)
    case Nil
    then show ?case by (simp add: rat_sum_def holds_def rat_val_def rat_lib_def)
  next
    case (Cons s ss)
    then have "holds rat_lib rat_val (dec_new rat_lib (money_num s)) s"
      "holds rat_lib rat_val (rat_sum (map money_num ss)) (sum_list ss)"
      using holds_new [OF rat_lib_laws] by auto
    then have "holds rat_lib rat_val (dec_plus rat_lib (dec_new rat_lib (money_num s)) (rat_sum (map money_num ss))) (s + sum_list ss)"
      by (auto simp: holds_def rat_lib_def rat_val_def units_add)
    then show ?case by (simp add: rat_sum_def)
  qed
  then show ?thesis by (simp add: mongo_sum_law_def)
qed

text \<open>An example: two instalments and a failed payment of one student.\<close>

definition example_row :: "payment_status \<Rightarrow> int \<Rightarrow> pay_row" where
  "example_row ps stroops =
     \<lparr>row_schoolId = ''S'', row_studentId = ''A1'', row_txHash = ''t'', row_deletedAt = None, row_status = ps,
      row_isSuspicious = False, row_feeCategory = None, row_amount = money_num stroops, row_createdAt = stroops\<rparr>"

definition example_student :: student where
  "example_student =
     \<lparr>st_feeAmount = money_num 3000000, st_totalPaid = Fin 0, st_remainingBalance = money_num 3000000,
      st_feePaid = False, st_creditAdjustments = None, st_fees = [], st_disputeHold = False\<rparr>"

definition example_db :: balance_db where
  "example_db =
     \<lparr>db_payments = [example_row SUCCESS 1000000, example_row FAILED 5, example_row SUCCESS 2000000],
      db_students = [(''S'', ''A1'') \<mapsto> example_student],
      db_current_period = (\<lambda>_. None), db_period_fees = (\<lambda>_. None)\<rparr>"

theorem balance_refines_ledger_witness:
  "\<exists>s'. snd (updateStudentBalance rat_lib rat_sum True ''S'' ''A1'' example_db) = Some s'
     \<and> st_totalPaid s' = money_num 3000000 \<and> st_remainingBalance s' = money_num 0 \<and> st_feePaid s'"
proof -
  have paid: "paid_stroops row_createdAt (db_payments example_db) ''S'' ''A1'' None = 3000000"
    by (simp add: example_db_def example_row_def)
  have "\<exists>s'. updateStudentBalance rat_lib rat_sum True ''S'' ''A1'' example_db =
        (fst (updateStudentBalance rat_lib rat_sum True ''S'' ''A1'' example_db), Some s')
      \<and> db_students (fst (updateStudentBalance rat_lib rat_sum True ''S'' ''A1'' example_db)) (''S'', ''A1'') = Some s'
      \<and> (let paid = paid_stroops row_createdAt (db_payments example_db) ''S'' ''A1'' None + 0
         in st_totalPaid s' = money_num paid \<and> st_remainingBalance s' = money_num (max 0 (3000000 - paid))
          \<and> (st_feePaid s' \<longleftrightarrow> 3000000 \<le> paid))"
    by (rule balance_refines_ledger [OF rat_lib_laws rat_sum_law, where s = example_student])
      (simp_all add: paid, simp_all add: rows_in_stroops_def example_db_def example_row_def example_student_def
        credit_stroops_def or_zero_def)
  then show ?thesis unfolding paid Let_def by (metis add_0_right diff_self max.idem order_refl snd_conv)
qed

lemma student_classification_cong:
  "st_creditAdjustments s = st_creditAdjustments s' \<Longrightarrow> st_feeAmount s = st_feeAmount s'
    \<Longrightarrow> student_classification L sumD rows i j s = student_classification L sumD rows i j s'"
  by (simp add: student_classification_def)

lemma update_fee_entry_idem [simp]:
  "update_fee_entry L sumD rows i j (update_fee_entry L sumD rows i j e) = update_fee_entry L sumD rows i j e"
  by (simp add: update_fee_entry_def Let_def)

definition balanced_student ::
  "'d decimal_lib \<Rightarrow> (jsnum list \<Rightarrow> 'd) \<Rightarrow> bool \<Rightarrow> pay_row list \<Rightarrow> string \<Rightarrow> string \<Rightarrow> student \<Rightarrow> student" where
  "balanced_student L sumD breakdown rows i j s =
     (let c = student_classification L sumD rows i j s;
          s1 = s\<lparr>st_totalPaid := cl_cumulativeTotal c, st_remainingBalance := cl_remainingBalance c,
                 st_feePaid := cl_feePaid c\<rparr>
      in if breakdown \<and> st_fees s \<noteq> [] then s1\<lparr>st_fees := map (update_fee_entry L sumD rows i j) (st_fees s)\<rparr>
         else s1)"

lemma updateStudentBalance_eq:
  "updateStudentBalance L sumD b i j db =
     (case db_students db (i, j) of
        None \<Rightarrow> (db, None)
      | Some s \<Rightarrow>
          let s' = balanced_student L sumD b (db_payments db) i j s
          in (syncCurrentPeriodFee L sumD i j (db\<lparr>db_students := (db_students db)((i, j) \<mapsto> s')\<rparr>), Some s'))"
  by (auto simp: updateStudentBalance_def balanced_student_def Let_def split: option.splits)

lemma balanced_student_idem [simp]:
  "balanced_student L sumD b rows i j (balanced_student L sumD b rows i j s) = balanced_student L sumD b rows i j s"
proof -
  have "student_classification L sumD rows i j (balanced_student L sumD b rows i j s) =
      student_classification L sumD rows i j s"
    by (rule student_classification_cong) (simp_all add: balanced_student_def Let_def)
  then show ?thesis by (simp add: balanced_student_def Let_def)
qed

lemma syncCurrentPeriodFee_upd:
  "syncCurrentPeriodFee L sumD i j (db\<lparr>db_students := m\<rparr>) = (syncCurrentPeriodFee L sumD i j db)\<lparr>db_students := m\<rparr>"
  by (auto simp: syncCurrentPeriodFee_def Let_def split: option.splits)

lemma balance_readers:
  "let r = updateStudentBalance L sumD breakdown schoolId studentId db
   in computeStudentBalance L sumD schoolId studentId db =
        map_option (\<lambda>s. (st_totalPaid s, st_remainingBalance s, st_feePaid s)) (snd r)
    \<and> computeStudentBalance L sumD schoolId studentId (fst r) = computeStudentBalance L sumD schoolId studentId db
    \<and> updateStudentBalance L sumD breakdown schoolId studentId (fst r) = r"
proof (cases "db_students db (schoolId, studentId)")
  case None
  then show ?thesis by (simp add: updateStudentBalance_eq computeStudentBalance_def)
next
  case (Some s)
  let ?b = "balanced_student L sumD breakdown (db_payments db) schoolId studentId"
  have c: "student_classification L sumD (db_payments db) schoolId studentId (?b s) =
      student_classification L sumD (db_payments db) schoolId studentId s"
    by (rule student_classification_cong) (simp_all add: balanced_student_def Let_def)
  have fields: "st_totalPaid (?b s) = cl_cumulativeTotal (student_classification L sumD (db_payments db) schoolId studentId s)"
    "st_remainingBalance (?b s) = cl_remainingBalance (student_classification L sumD (db_payments db) schoolId studentId s)"
    "st_feePaid (?b s) = cl_feePaid (student_classification L sumD (db_payments db) schoolId studentId s)"
    by (simp_all add: balanced_student_def Let_def)
  have p: "db_payments (syncCurrentPeriodFee L sumD schoolId studentId db) = db_payments db" by simp
  show ?thesis
    using Some c fields
    by (simp add: updateStudentBalance_eq computeStudentBalance_def Let_def syncCurrentPeriodFee_upd
        syncCurrentPeriodFee_idem)
qed

text \<open>The balance a reader computes is the balance that is stored, and storing it again changes nothing.
  For every state, the values the read-only computation returns are those the update writes, a
  computation after the update returns the same, and a second update leaves the state as it is.\<close>

theorem balance_readers_agree:
  "let r = updateStudentBalance L sumD breakdown schoolId studentId db
   in computeStudentBalance L sumD schoolId studentId db =
        map_option (\<lambda>s. (st_totalPaid s, st_remainingBalance s, st_feePaid s)) (snd r)
    \<and> computeStudentBalance L sumD schoolId studentId (fst r) = computeStudentBalance L sumD schoolId studentId db
    \<and> updateStudentBalance L sumD breakdown schoolId studentId (fst r) = r"
  by (rule balance_readers)

text \<open>Saving a student document through Mongoose overwrites the balance. For a student with one fee
  entry, whatever the canonical total with uncategorised payments and credit was, after the save hook
  the total is that of the entry, and the fee counts as unpaid if the entry's own payments do not
  cover it.\<close>

theorem student_save_forgets:
  assumes "st_fees s = [e]" "fe_amount e = IntN f" "fe_totalPaid e = IntN a"
    and "0 \<le> f" "f \<le> 2 ^ 53" "0 \<le> a" "a \<le> 2 ^ 53" "1 \<le> feeCap"
  shows "let s' = fst (student_pre_save feeCap s)
    in st_totalPaid s' = IntN a \<and> st_remainingBalance s' = IntN (max 0 (f - a)) \<and> (st_feePaid s' \<longleftrightarrow> f \<le> a)"
proof -
  have z: "or_zero (Some (IntN n)) = IntN n" for n by (simp add: or_zero_def)
  have i: "jadd (IntN 0) (IntN n) = IntN n" if "\<bar>n\<bar> \<le> 2 ^ 53" for n using jadd_int [of 0 n] that by simp
  have s: "jsub (IntN f) (IntN a) = IntN (f - a)" using assms by (intro jsub_int) auto
  have m: "jmax (IntN 0) (IntN (f - a)) = IntN (max 0 (f - a))" by (rule jmax_int)
  show ?thesis
    using assms i [of f] i [of a] s m
    by (simp add: student_pre_save_def save_fee_entry_def jsum_def Let_def z jleq_def) linarith
qed

theorem student_save_forgets_witness:
  "let e = \<lparr>fe_category = Some ''tuition'', fe_amount = IntN 100, fe_totalPaid = IntN 60,
            fe_remainingBalance = IntN 40, fe_paid = False\<rparr>;
       s = \<lparr>st_feeAmount = IntN 100, st_totalPaid = IntN 100, st_remainingBalance = IntN 0, st_feePaid = True,
            st_creditAdjustments = Some (IntN 40), st_fees = [e], st_disputeHold = False\<rparr>;
       s' = fst (student_pre_save 100 s)
   in st_totalPaid s' = IntN 60 \<and> st_remainingBalance s' = IntN 40 \<and> \<not> st_feePaid s'"
proof -
  define e :: fee_entry where "e = \<lparr>fe_category = Some ''tuition'', fe_amount = IntN 100, fe_totalPaid = IntN 60,
            fe_remainingBalance = IntN 40, fe_paid = False\<rparr>"
  define s :: student where "s = \<lparr>st_feeAmount = IntN 100, st_totalPaid = IntN 100, st_remainingBalance = IntN 0, st_feePaid = True,
            st_creditAdjustments = Some (IntN 40), st_fees = [e], st_disputeHold = False\<rparr>"
  have "let s' = fst (student_pre_save 100 s)
    in st_totalPaid s' = IntN 60 \<and> st_remainingBalance s' = IntN (max 0 (100 - 60)) \<and> (st_feePaid s' \<longleftrightarrow> (100::int) \<le> 60)"
    by (rule student_save_forgets [where e = e]) (simp_all add: e_def s_def)
  then show ?thesis by (simp add: Let_def s_def e_def)
qed

end
