(* ===== verification/Dispute.thy ===== *)
theory Dispute
  imports Student_Balance
begin

section \<open>Disputes\<close>

text \<open>
  The lifecycle of a dispute (\<^verbatim>\<open>backend/src/controllers/dispute.controller.js\<close> and
  \<^verbatim>\<open>backend/src/models/disputeModel.js\<close>): raising one, moving it through its states and attaching evidence,
  with what each request does to the payment, to the hold on the student and to the student's
  balance; and the sweep of \<^verbatim>\<open>backend/src/services/disputeNotificationService.js\<close> that marks overdue disputes.
  The collection of disputes is a list whose positions are the identities; a query by fields finds the
  first document that matches. Calls of the audit log are recorded; messages (SSE, webhook, email)
  and metrics have no effect on the state and are left out, and so is the encryption of the contact.
\<close>

subsection \<open>The state machine\<close>

datatype dispute_status = Open | Under_review | Resolved | Rejected

fun dispute_status_name :: "dispute_status \<Rightarrow> string" where
  "dispute_status_name Open = ''open''"
| "dispute_status_name Under_review = ''under_review''"
| "dispute_status_name Resolved = ''resolved''"
| "dispute_status_name Rejected = ''rejected''"

fun DISPUTE_TRANSITIONS :: "dispute_status \<Rightarrow> dispute_status list" where
  "DISPUTE_TRANSITIONS Open = [Under_review, Resolved, Rejected]"
| "DISPUTE_TRANSITIONS Under_review = [Resolved, Rejected, Open]"
| "DISPUTE_TRANSITIONS Resolved = [Open]"
| "DISPUTE_TRANSITIONS Rejected = [Open]"

definition TERMINAL_STATUSES :: "dispute_status list" where
  "TERMINAL_STATUSES = [Resolved, Rejected]"

fun DISPUTE_TO_PAYMENT_STATUS :: "dispute_status \<Rightarrow> payment_status" where
  "DISPUTE_TO_PAYMENT_STATUS Resolved = REFUNDED"
| "DISPUTE_TO_PAYMENT_STATUS Rejected = SUCCESS"
| "DISPUTE_TO_PAYMENT_STATUS Open = DISPUTED"
| "DISPUTE_TO_PAYMENT_STATUS Under_review = DISPUTED"

definition isValidTransition :: "dispute_status \<Rightarrow> dispute_status \<Rightarrow> bool" where
  "isValidTransition from_s to_s \<longleftrightarrow> to_s \<in> set (DISPUTE_TRANSITIONS from_s)"

interpretation dispute_lifecycle: status_table DISPUTE_TRANSITIONS .

definition active_status :: "dispute_status \<Rightarrow> bool" where
  "active_status s \<longleftrightarrow> s \<in> {Open, Under_review}"

subsection \<open>Documents and state\<close>

record evidence =
  ev_type :: string
  ev_url :: string

record dispute =
  dp_schoolId :: string
  dp_txHash :: string
  dp_studentId :: string
  dp_txReference :: "string option"
  dp_raisedBy :: string
  dp_reason :: string
  dp_raisedByEmail :: "string option"
  dp_raisedByPhone :: "string option"
  dp_evidence :: "evidence list"
  dp_status :: dispute_status
  dp_assignedTo :: "string option"
  dp_slaDeadline :: "millis option"
  dp_slaBreachedAt :: "millis option"
  dp_slaBreachNotifiedAt :: "millis option"
  dp_escalationLevel :: nat
  dp_escalatedAt :: "millis option"
  dp_lastActivityAt :: millis
  dp_resolvedBy :: "string option"
  dp_resolutionNote :: "string option"
  dp_resolvedAt :: "millis option"

record dispute_audit =
  da_action :: string
  da_performedBy :: string
  da_target :: nat

record dispute_state =
  disputes :: "dispute list"
  ledger :: balance_db
  dispute_audits :: "dispute_audit list"

datatype dispute_error = D_UNAUTHORIZED | D_VALIDATION_ERROR | D_NOT_FOUND | DISPUTE_ALREADY_EXISTS nat
  | INVALID_DISPUTE_TRANSITION | D_SERVER_ERROR

text \<open>
  A field of a request body: a string, missing (\<^verbatim>\<open>undefined\<close> or \<^verbatim>\<open>null\<close>), or any other JSON value. The fields
  \<^verbatim>\<open>txHash\<close> and \<^verbatim>\<open>studentId\<close> are given by their text.
\<close>

datatype text_arg = TStr string | TMissing | TOther
datatype evidence_arg = EvArray "evidence list" | EvMissing | EvOther

fun trimmed :: "text_arg \<Rightarrow> string" where
  "trimmed (TStr s) = trim s"
| "trimmed _ = []"

fun truthy_text :: "text_arg \<Rightarrow> bool" where
  "truthy_text (TStr s) \<longleftrightarrow> s \<noteq> []"
| "truthy_text TMissing \<longleftrightarrow> False"
| "truthy_text TOther \<longleftrightarrow> True"

subsection \<open>The save hook and the unique index\<close>

definition evidence_ok :: "evidence \<Rightarrow> bool" where
  "evidence_ok e \<longleftrightarrow> ev_type e \<in> {''screenshot'', ''tx_reference'', ''document'', ''other''} \<and> ev_url e \<noteq> []"

definition hour_ms :: millis where
  "hour_ms = 60 * 60 * 1000"

definition dispute_pre_save :: "millis \<Rightarrow> dispute \<Rightarrow> dispute" where
  "dispute_pre_save now d0 =
     (let d = d0\<lparr>dp_lastActivityAt := now\<rparr> in
      case dp_slaDeadline d of
        None \<Rightarrow> d
      | Some deadline \<Rightarrow>
          if active_status (dp_status d) \<and> deadline < now then
            (if dp_slaBreachedAt d = None
             then d\<lparr>dp_slaBreachedAt := Some now, dp_escalationLevel := 2, dp_escalatedAt := Some now\<rparr> else d)
          else if dp_status d = Under_review \<and> deadline - now \<le> 24 * hour_ms \<and> 0 < deadline - now
               \<and> dp_escalationLevel d < 1
          then d\<lparr>dp_escalationLevel := 1\<rparr> else d)"

text \<open>
  The unique index on school, transaction and status, for the active statuses: does some document
  other than \<open>i\<close> already have the key?
\<close>

definition index_conflict :: "dispute list \<Rightarrow> nat \<Rightarrow> string \<Rightarrow> string \<Rightarrow> dispute_status \<Rightarrow> bool" where
  "index_conflict ds i schoolId txHash s \<longleftrightarrow>
     active_status s \<and> list_ex (\<lambda>(k, d). k \<noteq> i \<and> dp_schoolId d = schoolId \<and> dp_txHash d = txHash \<and> dp_status d = s)
       (enumerate 0 ds)"

subsection \<open>The payment and the hold\<close>

text \<open>\<^verbatim>\<open>Payment.findOne({ schoolId, txHash })\<close>; queries leave out soft-deleted documents.\<close>

definition payment_of :: "string \<Rightarrow> string \<Rightarrow> pay_row \<Rightarrow> bool" where
  "payment_of schoolId txHash r \<longleftrightarrow> row_schoolId r = schoolId \<and> row_txHash r = txHash \<and> row_deletedAt r = None"

definition syncPaymentStatus ::
  "'d decimal_lib \<Rightarrow> (jsnum list \<Rightarrow> 'd) \<Rightarrow> string \<Rightarrow> string \<Rightarrow> dispute_status \<Rightarrow> balance_db \<Rightarrow> balance_db" where
  "syncPaymentStatus L sumD schoolId txHash newDisputeStatus db =
     (let target = DISPUTE_TO_PAYMENT_STATUS newDisputeStatus in
      case find (payment_of schoolId txHash) (db_payments db) of
        None \<Rightarrow> db
      | Some payment \<Rightarrow>
          if row_status payment = target then db
          else let db' = db\<lparr>db_payments := update_first (payment_of schoolId txHash) (\<lambda>r. r\<lparr>row_status := target\<rparr>)
                              (db_payments db)\<rparr>
               in fst (updateStudentBalance L sumD True schoolId (row_studentId payment) db'))"

definition set_hold :: "string \<Rightarrow> string \<Rightarrow> bool \<Rightarrow> balance_db \<Rightarrow> balance_db" where
  "set_hold schoolId studentId hold db =
     (case db_students db (schoolId, studentId) of
        None \<Rightarrow> db
      | Some s \<Rightarrow> db\<lparr>db_students := (db_students db)((schoolId, studentId) \<mapsto> s\<lparr>st_disputeHold := hold\<rparr>)\<rparr>)"

subsection \<open>Raising a dispute\<close>

record flag_request =
  fr_txHash :: "string option"
  fr_studentId :: "string option"
  fr_raisedBy :: text_arg
  fr_reason :: text_arg
  fr_txReference :: text_arg
  fr_evidence :: evidence_arg
  fr_email :: text_arg
  fr_phone :: text_arg

text \<open>\<^verbatim>\<open>/^[^\s@]+@[^\s@]+\.[^\s@]+$/\<close>\<close>

definition email_re :: "string \<Rightarrow> bool" where
  "email_re s \<longleftrightarrow>
     (let local = takeWhile (\<lambda>c. c \<noteq> CHR ''@'') s; dom = drop (Suc (length local)) s
      in local \<noteq> [] \<and> length local < length s \<and> CHR ''@'' \<notin> set dom \<and> list_all (\<lambda>c. \<not> is_space c) s
       \<and> CHR ''.'' \<in> set (butlast (tl dom)))"

text \<open>\<^verbatim>\<open>/^\+[1-9]\d{1,14}$/\<close>\<close>

definition isValidE164 :: "string \<Rightarrow> bool" where
  "isValidE164 phone \<longleftrightarrow>
     (case trim phone of
        p # d # r \<Rightarrow> p = CHR ''+'' \<and> is_digit d \<and> d \<noteq> CHR ''0'' \<and> list_all is_digit r \<and> 1 \<le> length r \<and> length r \<le> 14
      | _ \<Rightarrow> False)"

definition contact_email :: "text_arg \<Rightarrow> (dispute_error, string option) result" where
  "contact_email raisedByEmail =
     (case raisedByEmail of
        TMissing \<Rightarrow> Inr None
      | TOther \<Rightarrow> Inl D_VALIDATION_ERROR
      | TStr s \<Rightarrow>
          if s = [] then Inr None
          else let e = toLowerCase (trim s)
               in if e = [] \<or> 254 < length e \<or> \<not> email_re e then Inl D_VALIDATION_ERROR else Inr (Some e))"

definition contact_phone :: "text_arg \<Rightarrow> (dispute_error, string option) result" where
  "contact_phone raisedByPhone =
     (case raisedByPhone of
        TMissing \<Rightarrow> Inr None
      | TOther \<Rightarrow> Inl D_VALIDATION_ERROR
      | TStr s \<Rightarrow>
          if s = [] then Inr None
          else let p = filter (\<lambda>c. \<not> is_space c \<and> c \<noteq> CHR ''('' \<and> c \<noteq> CHR '')'' \<and> c \<noteq> CHR ''-'') s
               in if isValidE164 p then Inr (Some p) else Inl D_VALIDATION_ERROR)"

text \<open>The checks of the body before any query.\<close>

definition flag_body :: "flag_request \<Rightarrow> (dispute_error, string \<times> string \<times> string option \<times> string option) result" where
  "flag_body r =
     (if fr_txHash r \<in> {None, Some []} \<or> fr_studentId r \<in> {None, Some []}
         \<or> \<not> truthy_text (fr_raisedBy r) \<or> \<not> truthy_text (fr_reason r) then Inl D_VALIDATION_ERROR
      else let raisedBy = trimmed (fr_raisedBy r); reason = trimmed (fr_reason r) in
        if raisedBy = [] \<or> reason = [] \<or> 200 < length raisedBy \<or> 1000 < length reason then Inl D_VALIDATION_ERROR
        else (case contact_email (fr_email r) of
                Inl e \<Rightarrow> Inl e
              | Inr email \<Rightarrow>
                  (case contact_phone (fr_phone r) of
                     Inl e \<Rightarrow> Inl e
                   | Inr phone \<Rightarrow> Inr (raisedBy, reason, email, phone))))"

definition evidence_items :: "evidence_arg \<Rightarrow> evidence list" where
  "evidence_items e = (case e of EvArray es \<Rightarrow> es | _ \<Rightarrow> [])"

text \<open>What the model accepts on creation: the lengths of the schema and the evidence items.\<close>

definition reference_text :: "text_arg \<Rightarrow> string option option" where
  "reference_text t =
     (case t of
        TMissing \<Rightarrow> Some None
      | TOther \<Rightarrow> None
      | TStr s \<Rightarrow> if s = [] then Some None else if 128 < length (trim s) then None else Some (Some (trim s)))"

definition active_dispute :: "string \<Rightarrow> string \<Rightarrow> dispute \<Rightarrow> bool" where
  "active_dispute schoolId txHash d \<longleftrightarrow>
     dp_schoolId d = schoolId \<and> dp_txHash d = txHash \<and> active_status (dp_status d)"

definition new_dispute ::
  "millis \<Rightarrow> int \<Rightarrow> string \<Rightarrow> flag_request \<Rightarrow> string \<times> string \<times> string option \<times> string option \<Rightarrow> string option \<Rightarrow> dispute" where
  "new_dispute now slaHours schoolId r body ref =
     (case body of (raisedBy, reason, email, phone) \<Rightarrow>
       \<lparr>dp_schoolId = schoolId, dp_txHash = the (fr_txHash r), dp_studentId = the (fr_studentId r),
        dp_txReference = ref, dp_raisedBy = raisedBy, dp_reason = reason, dp_raisedByEmail = email,
        dp_raisedByPhone = phone, dp_evidence = evidence_items (fr_evidence r), dp_status = Open,
        dp_assignedTo = None, dp_slaDeadline = Some (now + slaHours * hour_ms), dp_slaBreachedAt = None,
        dp_slaBreachNotifiedAt = None, dp_escalationLevel = 0, dp_escalatedAt = None, dp_lastActivityAt = now,
        dp_resolvedBy = None, dp_resolutionNote = None, dp_resolvedAt = None\<rparr>)"

definition flagDispute ::
  "'d decimal_lib \<Rightarrow> (jsnum list \<Rightarrow> 'd) \<Rightarrow> int \<Rightarrow> millis \<Rightarrow> string \<Rightarrow> string \<Rightarrow> flag_request \<Rightarrow> dispute_state
     \<Rightarrow> dispute_state \<times> (dispute_error, nat) result" where
  "flagDispute L sumD slaHours now performedBy schoolId r st =
     (case flag_body r of
        Inl e \<Rightarrow> (st, Inl e)
      | Inr body \<Rightarrow>
          (case find (payment_of schoolId (the (fr_txHash r))) (db_payments (ledger st)) of
             None \<Rightarrow> (st, Inl D_NOT_FOUND)
           | Some payment \<Rightarrow>
               if row_studentId payment \<noteq> the (fr_studentId r) then (st, Inl D_NOT_FOUND)
               else (case find (\<lambda>(k, d). active_dispute schoolId (the (fr_txHash r)) d) (enumerate 0 (disputes st)) of
                       Some (k, d) \<Rightarrow> (st, Inl (DISPUTE_ALREADY_EXISTS k))
                     | None \<Rightarrow>
                         if fr_evidence r = EvOther then (st, Inl D_VALIDATION_ERROR)
                         else (case reference_text (fr_txReference r) of
                                 None \<Rightarrow> (st, Inl D_SERVER_ERROR)
                               | Some ref \<Rightarrow>
                                   let d = dispute_pre_save now (new_dispute now slaHours schoolId r body ref) in
                                   if \<not> list_all evidence_ok (dp_evidence d) then (st, Inl D_SERVER_ERROR)
                                   else let i = length (disputes st);
                                            db1 = set_hold schoolId (dp_studentId d) True (ledger st);
                                            db2 = syncPaymentStatus L sumD schoolId (dp_txHash d) Open db1
                                        in (st\<lparr>disputes := disputes st @ [d], ledger := db2,
                                               dispute_audits := dispute_audits st @
                                                 [\<lparr>da_action = ''dispute_created'', da_performedBy = performedBy, da_target = i\<rparr>]\<rparr>,
                                            Inr i)))))"

subsection \<open>Moving a dispute\<close>

record resolve_request =
  rr_actor :: "string option"
  rr_note :: text_arg
  rr_status :: text_arg
  rr_assignedTo :: text_arg
  rr_evidence :: evidence_arg

definition requested_status :: "text_arg \<Rightarrow> dispute_status" where
  "requested_status t =
     (case t of
        TStr s \<Rightarrow> (case find (\<lambda>d. dispute_status_name d = s) [Resolved, Rejected, Under_review, Open] of
                      Some d \<Rightarrow> d | None \<Rightarrow> Resolved)
      | _ \<Rightarrow> Resolved)"

definition dispute_by_id :: "string \<Rightarrow> nat \<Rightarrow> dispute_state \<Rightarrow> dispute option" where
  "dispute_by_id schoolId i st =
     (if i < length (disputes st) \<and> dp_schoolId (disputes st ! i) = schoolId then Some (disputes st ! i) else None)"

text \<open>
  A request to move a dispute reads it and validates the transition, and then writes; another
  request may come between. \<open>resolve_check\<close> is the part before the write.
\<close>

definition resolve_check :: "string \<Rightarrow> nat \<Rightarrow> resolve_request \<Rightarrow> dispute_state \<Rightarrow> dispute_error option" where
  "resolve_check schoolId i r st =
     (if rr_actor r \<in> {None, Some []} then Some D_UNAUTHORIZED
      else if \<not> truthy_text (rr_note r) \<or> trimmed (rr_note r) = [] \<or> 1000 < length (trimmed (rr_note r))
      then Some D_VALIDATION_ERROR
      else (case dispute_by_id schoolId i st of
              None \<Rightarrow> Some D_NOT_FOUND
            | Some current \<Rightarrow>
                if \<not> isValidTransition (dp_status current) (requested_status (rr_status r))
                then Some INVALID_DISPUTE_TRANSITION
                else if rr_assignedTo r = TOther then Some D_SERVER_ERROR else None))"

definition moved_dispute :: "millis \<Rightarrow> resolve_request \<Rightarrow> dispute \<Rightarrow> dispute" where
  "moved_dispute now r d =
     (let newStatus = requested_status (rr_status r) in
      d\<lparr>dp_status := newStatus, dp_resolvedBy := rr_actor r, dp_resolutionNote := Some (trimmed (rr_note r)),
        dp_resolvedAt := (if newStatus \<in> set TERMINAL_STATUSES then Some now else None),
        dp_lastActivityAt := now,
        dp_assignedTo := (if truthy_text (rr_assignedTo r) then Some (trimmed (rr_assignedTo r)) else dp_assignedTo d),
        dp_evidence := dp_evidence d @ evidence_items (rr_evidence r)\<rparr>)"

definition resolve_apply ::
  "'d decimal_lib \<Rightarrow> (jsnum list \<Rightarrow> 'd) \<Rightarrow> millis \<Rightarrow> string \<Rightarrow> nat \<Rightarrow> resolve_request \<Rightarrow> dispute_state
     \<Rightarrow> dispute_state \<times> (dispute_error, dispute) result" where
  "resolve_apply L sumD now schoolId i r st =
     (let newStatus = requested_status (rr_status r) in
      case dispute_by_id schoolId i st of
        None \<Rightarrow> (st, Inl D_NOT_FOUND)
      | Some current \<Rightarrow>
          if index_conflict (disputes st) i schoolId (dp_txHash current) newStatus then (st, Inl D_SERVER_ERROR)
          else let d = moved_dispute now r current;
                   db1 = (if newStatus \<in> set TERMINAL_STATUSES
                          then set_hold schoolId (dp_studentId d) False (ledger st) else ledger st);
                   db2 = syncPaymentStatus L sumD schoolId (dp_txHash d) newStatus db1
               in (st\<lparr>disputes := (disputes st)[i := d], ledger := db2,
                      dispute_audits := dispute_audits st @
                        [\<lparr>da_action = ''dispute_'' @ dispute_status_name newStatus,
                          da_performedBy = the (rr_actor r), da_target = i\<rparr>]\<rparr>,
                   Inr d))"

definition resolveDispute ::
  "'d decimal_lib \<Rightarrow> (jsnum list \<Rightarrow> 'd) \<Rightarrow> millis \<Rightarrow> string \<Rightarrow> nat \<Rightarrow> resolve_request \<Rightarrow> dispute_state
     \<Rightarrow> dispute_state \<times> (dispute_error, dispute) result" where
  "resolveDispute L sumD now schoolId i r st =
     (case resolve_check schoolId i r st of
        Some e \<Rightarrow> (st, Inl e)
      | None \<Rightarrow> resolve_apply L sumD now schoolId i r st)"

subsection \<open>Evidence, and the sweep of overdue disputes\<close>

definition addEvidence ::
  "millis \<Rightarrow> string \<Rightarrow> nat \<Rightarrow> evidence_arg \<Rightarrow> dispute_state \<Rightarrow> dispute_state \<times> (dispute_error, dispute) result" where
  "addEvidence now schoolId i ev st =
     (if evidence_items ev = [] then (st, Inl D_VALIDATION_ERROR)
      else if \<not> list_all evidence_ok (evidence_items ev) then (st, Inl D_VALIDATION_ERROR)
      else (case dispute_by_id schoolId i st of
              None \<Rightarrow> (st, Inl D_NOT_FOUND)
            | Some d \<Rightarrow>
                if \<not> active_status (dp_status d) then (st, Inl D_NOT_FOUND)
                else let d' = d\<lparr>dp_evidence := dp_evidence d @ evidence_items ev, dp_lastActivityAt := now\<rparr>
                     in (st\<lparr>disputes := (disputes st)[i := d']\<rparr>, Inr d')))"

definition overdue :: "millis \<Rightarrow> dispute \<Rightarrow> bool" where
  "overdue now d \<longleftrightarrow> active_status (dp_status d) \<and> (case dp_slaDeadline d of None \<Rightarrow> False | Some t \<Rightarrow> t < now)
     \<and> dp_slaBreachNotifiedAt d = None"

definition mark_breached :: "millis \<Rightarrow> dispute \<Rightarrow> dispute" where
  "mark_breached now d =
     d\<lparr>dp_slaBreachNotifiedAt := Some now, dp_escalationLevel := 2,
       dp_slaBreachedAt := Some (case dp_slaBreachedAt d of Some t \<Rightarrow> t | None \<Rightarrow> now),
       dp_escalatedAt := Some (case dp_escalatedAt d of Some t \<Rightarrow> t | None \<Rightarrow> now)\<rparr>"

text \<open>The claim of one overdue dispute: the one with the earliest deadline, the first of several.\<close>

definition claim_overdue :: "millis \<Rightarrow> dispute list \<Rightarrow> nat option" where
  "claim_overdue now ds =
     (let due = filter (\<lambda>k. overdue now (ds ! k)) [0..<length ds];
          deadline = (\<lambda>k. the (dp_slaDeadline (ds ! k)))
      in if due = [] then None else Some (foldl (\<lambda>b k. if deadline k < deadline b then k else b) (hd due) (tl due)))"

text \<open>The loop of a sweep: the alerts it sends, one per claimed dispute, in order.\<close>

fun processSlaBreaches :: "nat \<Rightarrow> millis \<Rightarrow> dispute list \<Rightarrow> dispute list \<times> nat list" where
  "processSlaBreaches 0 now ds = (ds, [])"
| "processSlaBreaches (Suc n) now ds =
     (case claim_overdue now ds of
        None \<Rightarrow> (ds, [])
      | Some k \<Rightarrow>
          let (ds', alerts) = processSlaBreaches n now (ds[k := mark_breached now (ds ! k)]) in (ds', k # alerts))"

subsection \<open>Facts about queries, payments and the index\<close>

lemma payments_updateStudentBalance [simp]:
  "db_payments (fst (updateStudentBalance L sumD b i j db)) = db_payments db"
  by (auto simp: updateStudentBalance_eq Let_def split: option.splits)

lemma payments_set_hold [simp]: "db_payments (set_hold i j h db) = db_payments db"
  by (auto simp: set_hold_def split: option.splits)

lemma payment_of_status [simp]: "payment_of i t (r\<lparr>row_status := s\<rparr>) = payment_of i t r"
  by (simp add: payment_of_def)

lemma sync_payment:
  "find (payment_of i t) (db_payments (syncPaymentStatus L sumD i t s db)) =
     map_option (\<lambda>r. r\<lparr>row_status := DISPUTE_TO_PAYMENT_STATUS s\<rparr>) (find (payment_of i t) (db_payments db))"
  by (auto simp: syncPaymentStatus_def Let_def find_update_first split: option.splits)

lemma sync_payment_other:
  assumes "(i', t') \<noteq> (i, t)"
  shows "find (payment_of i' t') (db_payments (syncPaymentStatus L sumD i t s db)) = find (payment_of i' t') (db_payments db)"
proof -
  have "\<not> payment_of i' t' r \<and> \<not> payment_of i' t' (r\<lparr>row_status := s\<rparr>)" if "payment_of i t r" for r s
    using assms that by (auto simp: payment_of_def)
  then show ?thesis
    by (auto simp: syncPaymentStatus_def Let_def find_update_first_other split: option.splits)
qed

lemma hold_updateStudentBalance:
  "map_option st_disputeHold (db_students (fst (updateStudentBalance L sumD b i j db)) k) =
     map_option st_disputeHold (db_students db k)"
  by (auto simp: updateStudentBalance_eq balanced_student_def Let_def split: option.splits)

lemma hold_sync [simp]:
  "map_option st_disputeHold (db_students (syncPaymentStatus L sumD i t s db) k) =
     map_option st_disputeHold (db_students db k)"
  by (auto simp: syncPaymentStatus_def Let_def hold_updateStudentBalance split: option.splits)

lemma hold_set_hold:
  "map_option st_disputeHold (db_students (set_hold i j h db) (i, j)) = map_option (\<lambda>_. h) (db_students db (i, j))"
  by (auto simp: set_hold_def split: option.splits)

lemma index_conflict_iff:
  "index_conflict ds i s t st \<longleftrightarrow> active_status st \<and>
     (\<exists>k < length ds. k \<noteq> i \<and> dp_schoolId (ds ! k) = s \<and> dp_txHash (ds ! k) = t \<and> dp_status (ds ! k) = st)"
  by (auto simp: index_conflict_def list_ex_iff in_set_enumerate_eq)

lemma find_enumerate_None:
  "find (\<lambda>(k, d). P d) (enumerate n ds) = None \<longleftrightarrow> (\<forall>d \<in> set ds. \<not> P d)"
  by (induction ds arbitrary: n) auto

lemma dispute_by_id_Some:
  "dispute_by_id s i st = Some d \<longleftrightarrow> i < length (disputes st) \<and> d = disputes st ! i \<and> dp_schoolId d = s"
  by (auto simp: dispute_by_id_def)

lemma moved_dispute_simps [simp]:
  "dp_schoolId (moved_dispute now r d) = dp_schoolId d" "dp_txHash (moved_dispute now r d) = dp_txHash d"
  "dp_studentId (moved_dispute now r d) = dp_studentId d"
  "dp_status (moved_dispute now r d) = requested_status (rr_status r)"
  "dp_escalationLevel (moved_dispute now r d) = dp_escalationLevel d"
  "dp_slaBreachedAt (moved_dispute now r d) = dp_slaBreachedAt d"
  by (simp_all add: moved_dispute_def Let_def)

lemma pre_save_simps [simp]:
  "dp_schoolId (dispute_pre_save now d) = dp_schoolId d" "dp_txHash (dispute_pre_save now d) = dp_txHash d"
  "dp_studentId (dispute_pre_save now d) = dp_studentId d" "dp_status (dispute_pre_save now d) = dp_status d"
  "dp_resolvedAt (dispute_pre_save now d) = dp_resolvedAt d" "dp_evidence (dispute_pre_save now d) = dp_evidence d"
  by (auto simp: dispute_pre_save_def Let_def split: option.splits)

lemma new_dispute_simps [simp]:
  "dp_schoolId (new_dispute now h s r b ref) = s" "dp_txHash (new_dispute now h s r b ref) = the (fr_txHash r)"
  "dp_studentId (new_dispute now h s r b ref) = the (fr_studentId r)" "dp_status (new_dispute now h s r b ref) = Open"
  "dp_resolvedAt (new_dispute now h s r b ref) = None"
  "dp_escalationLevel (new_dispute now h s r b ref) = 0" "dp_slaBreachedAt (new_dispute now h s r b ref) = None"
  by (auto simp: new_dispute_def split: prod.splits)

lemma mark_breached_simps [simp]:
  "dp_schoolId (mark_breached now d) = dp_schoolId d" "dp_txHash (mark_breached now d) = dp_txHash d"
  "dp_status (mark_breached now d) = dp_status d" "dp_resolvedAt (mark_breached now d) = dp_resolvedAt d"
  "dp_resolvedBy (mark_breached now d) = dp_resolvedBy d" "dp_resolutionNote (mark_breached now d) = dp_resolutionNote d"
  by (simp_all add: mark_breached_def)

text \<open>What the requests do: nothing and an error, or the whole change.\<close>

definition raised :: "'d decimal_lib \<Rightarrow> (jsnum list \<Rightarrow> 'd) \<Rightarrow> string \<Rightarrow> dispute \<Rightarrow> dispute_state \<Rightarrow> dispute_state" where
  "raised L sumD who d st =
     st\<lparr>disputes := disputes st @ [d],
        ledger := syncPaymentStatus L sumD (dp_schoolId d) (dp_txHash d) Open
                    (set_hold (dp_schoolId d) (dp_studentId d) True (ledger st)),
        dispute_audits := dispute_audits st @
          [\<lparr>da_action = ''dispute_created'', da_performedBy = who, da_target = length (disputes st)\<rparr>]\<rparr>"

lemma flagDispute_cases:
  obtains (refused) e where "flagDispute L sumD h now who s r st = (st, Inl e)"
  | (accepted) body ref d where "d = dispute_pre_save now (new_dispute now h s r body ref)"
      "flagDispute L sumD h now who s r st = (raised L sumD who d st, Inr (length (disputes st)))"
      "list_all evidence_ok (dp_evidence d)"
      "\<forall>d' \<in> set (disputes st). \<not> active_dispute s (dp_txHash d) d'"
      "find (payment_of s (dp_txHash d)) (db_payments (ledger st)) \<noteq> None"
proof (cases "snd (flagDispute L sumD h now who s r st)")
  case (Inl e)
  then have "flagDispute L sumD h now who s r st = (st, Inl e)"
    by (auto simp: flagDispute_def Let_def split: sum.splits option.splits if_splits prod.splits)
  with refused show thesis by blast
next
  case (Inr i)
  then obtain body ref where b: "flag_body r = Inr body" "reference_text (fr_txReference r) = Some ref"
    and p: "find (payment_of s (the (fr_txHash r))) (db_payments (ledger st)) \<noteq> None"
    and n: "find (\<lambda>(k, d). active_dispute s (the (fr_txHash r)) d) (enumerate 0 (disputes st)) = None"
    by (auto simp: flagDispute_def Let_def split: sum.splits option.splits if_splits prod.splits)
  define d where "d = dispute_pre_save now (new_dispute now h s r body ref)"
  have "flagDispute L sumD h now who s r st = (raised L sumD who d st, Inr (length (disputes st)))"
    and "list_all evidence_ok (dp_evidence d)"
    using Inr b p n
    by (auto simp: flagDispute_def Let_def raised_def d_def split: option.splits if_splits)
  with accepted [OF d_def] p n show thesis by (auto simp: d_def find_enumerate_None)
qed

definition moved ::
  "'d decimal_lib \<Rightarrow> (jsnum list \<Rightarrow> 'd) \<Rightarrow> millis \<Rightarrow> nat \<Rightarrow> resolve_request \<Rightarrow> dispute_state \<Rightarrow> dispute_state" where
  "moved L sumD now i r st =
     (let d = moved_dispute now r (disputes st ! i); ns = dp_status d in
      st\<lparr>disputes := (disputes st)[i := d],
         ledger := syncPaymentStatus L sumD (dp_schoolId d) (dp_txHash d) ns
                     (if ns \<in> set TERMINAL_STATUSES then set_hold (dp_schoolId d) (dp_studentId d) False (ledger st)
                      else ledger st),
         dispute_audits := dispute_audits st @
           [\<lparr>da_action = ''dispute_'' @ dispute_status_name ns, da_performedBy = the (rr_actor r), da_target = i\<rparr>]\<rparr>)"

lemma resolveDispute_cases:
  obtains (refused) e where "resolveDispute L sumD now s i r st = (st, Inl e)"
  | (accepted) "resolveDispute L sumD now s i r st = (moved L sumD now i r st, Inr (moved_dispute now r (disputes st ! i)))"
      "i < length (disputes st)" "dp_schoolId (disputes st ! i) = s"
      "isValidTransition (dp_status (disputes st ! i)) (requested_status (rr_status r))"
      "\<not> index_conflict (disputes st) i s (dp_txHash (disputes st ! i)) (requested_status (rr_status r))"
      "rr_actor r \<noteq> None" "rr_actor r \<noteq> Some []" "trimmed (rr_note r) \<noteq> []" "length (trimmed (rr_note r)) \<le> 1000"
proof (cases "resolve_check s i r st")
  case (Some e)
  then have "resolveDispute L sumD now s i r st = (st, Inl e)" by (simp add: resolveDispute_def)
  with refused show thesis by blast
next
  case None
  then obtain d where d: "dispute_by_id s i st = Some d" and v: "isValidTransition (dp_status d) (requested_status (rr_status r))"
    and a: "rr_actor r \<noteq> None" "rr_actor r \<noteq> Some []" "trimmed (rr_note r) \<noteq> []" "length (trimmed (rr_note r)) \<le> 1000"
    by (auto simp: resolve_check_def split: if_splits option.splits)
  from d have i: "i < length (disputes st)" "d = disputes st ! i" "dp_schoolId d = s" by (auto simp: dispute_by_id_Some)
  show thesis
  proof (cases "index_conflict (disputes st) i s (dp_txHash d) (requested_status (rr_status r))")
    case True
    then have "resolveDispute L sumD now s i r st = (st, Inl D_SERVER_ERROR)"
      by (simp add: resolveDispute_def None resolve_apply_def d Let_def)
    with refused show thesis by blast
  next
    case False
    then have "resolveDispute L sumD now s i r st = (moved L sumD now i r st, Inr (moved_dispute now r (disputes st ! i)))"
      using i by (simp add: resolveDispute_def None resolve_apply_def d moved_def Let_def)
    with accepted i v a False show thesis by blast
  qed
qed

subsection \<open>Sequences of requests\<close>

datatype dispute_req = Flag millis string string flag_request | Move millis string nat resolve_request
  | Attach millis string nat evidence_arg | Sweep millis

fun dispute_step ::
  "'d decimal_lib \<Rightarrow> (jsnum list \<Rightarrow> 'd) \<Rightarrow> int \<Rightarrow> dispute_state \<Rightarrow> dispute_req \<Rightarrow> dispute_state" where
  "dispute_step L sumD h st (Flag now who s r) = fst (flagDispute L sumD h now who s r st)"
| "dispute_step L sumD h st (Move now s i r) = fst (resolveDispute L sumD now s i r st)"
| "dispute_step L sumD h st (Attach now s i ev) = fst (addEvidence now s i ev st)"
| "dispute_step L sumD h st (Sweep now) = st\<lparr>disputes := fst (processSlaBreaches 100 now (disputes st))\<rparr>"

text \<open>
  A well-formed dispute: it has a time of resolution exactly when it is closed; once it has left the
  open state for the first time it names who moved it and why; and its escalation level is two with
  the time of the breach, or zero.
\<close>

definition wf_dispute :: "dispute \<Rightarrow> bool" where
  "wf_dispute d \<longleftrightarrow>
     (dp_resolvedAt d \<noteq> None \<longleftrightarrow> dp_status d \<in> set TERMINAL_STATUSES)
   \<and> (dp_status d = Open \<or> (dp_resolvedBy d \<noteq> None \<and> dp_resolvedBy d \<noteq> Some []
        \<and> (\<exists>n. dp_resolutionNote d = Some n \<and> n \<noteq> [] \<and> length n \<le> 1000)))
   \<and> dp_escalationLevel d = (if dp_slaBreachedAt d = None then 0 else 2)"

definition same_key :: "dispute \<Rightarrow> dispute \<Rightarrow> bool" where
  "same_key d e \<longleftrightarrow> dp_schoolId d = dp_schoolId e \<and> dp_txHash d = dp_txHash e"

definition index_unique :: "dispute list \<Rightarrow> bool" where
  "index_unique ds \<longleftrightarrow> (\<forall>j < length ds. \<forall>k < length ds. active_status (dp_status (ds ! j)) \<longrightarrow>
     same_key (ds ! j) (ds ! k) \<longrightarrow> dp_status (ds ! j) = dp_status (ds ! k) \<longrightarrow> j = k)"

lemma wf_new: "wf_dispute (dispute_pre_save now (new_dispute now h s r body ref))"
  by (cases body)
    (auto simp: wf_dispute_def dispute_pre_save_def new_dispute_def TERMINAL_STATUSES_def active_status_def Let_def
      split: option.splits)

lemma wf_moved:
  assumes "wf_dispute d" "rr_actor r \<noteq> None" "rr_actor r \<noteq> Some []" "trimmed (rr_note r) \<noteq> []"
    "length (trimmed (rr_note r)) \<le> 1000"
  shows "wf_dispute (moved_dispute now r d)"
  using assms by (auto simp: wf_dispute_def moved_dispute_def TERMINAL_STATUSES_def Let_def)

lemma wf_mark: "wf_dispute d \<Longrightarrow> wf_dispute (mark_breached now d)"
  by (auto simp: wf_dispute_def mark_breached_def)

lemma index_uniqueI:
  "(\<And>j k. j < length ds \<Longrightarrow> k < length ds \<Longrightarrow> active_status (dp_status (ds ! j)) \<Longrightarrow> same_key (ds ! j) (ds ! k)
      \<Longrightarrow> dp_status (ds ! j) = dp_status (ds ! k) \<Longrightarrow> j = k) \<Longrightarrow> index_unique ds"
  unfolding index_unique_def by blast

lemma index_uniqueD:
  "index_unique ds \<Longrightarrow> j < length ds \<Longrightarrow> k < length ds \<Longrightarrow> active_status (dp_status (ds ! j)) \<Longrightarrow> same_key (ds ! j) (ds ! k)
      \<Longrightarrow> dp_status (ds ! j) = dp_status (ds ! k) \<Longrightarrow> j = k"
  by (simp add: index_unique_def)

lemma index_unique_append:
  assumes "index_unique ds" "\<forall>e \<in> set ds. \<not> active_dispute (dp_schoolId d) (dp_txHash d) e"
  shows "index_unique (ds @ [d])"
proof (rule index_uniqueI)
  fix j k
  assume jk: "j < length (ds @ [d])" "k < length (ds @ [d])"
    and h: "active_status (dp_status ((ds @ [d]) ! j))" "same_key ((ds @ [d]) ! j) ((ds @ [d]) ! k)"
      "dp_status ((ds @ [d]) ! j) = dp_status ((ds @ [d]) ! k)"
  have no: False if "m < length ds" "same_key (ds ! m) d" "active_status (dp_status (ds ! m))" for m
    using assms(2) that nth_mem [of m ds] by (auto simp: active_dispute_def same_key_def)
  consider "j < length ds" "k < length ds" | "j = length ds" "k = length ds"
    | "j < length ds" "k = length ds" | "j = length ds" "k < length ds"
    using jk by fastforce
  then show "j = k"
  proof cases
    case 1
    with h index_uniqueD [OF assms(1), of j k] show ?thesis by (simp add: nth_append)
  next
    case 3
    with h no [of j] show ?thesis by (simp add: nth_append)
  next
    case 4
    with h no [of k] show ?thesis by (simp add: nth_append same_key_def)
  qed simp
qed

lemma index_unique_update:
  assumes "index_unique ds" "i < length ds" "same_key d (ds ! i)"
    and "\<not> index_conflict ds i (dp_schoolId d) (dp_txHash d) (dp_status d)"
  shows "index_unique (ds[i := d])"
proof (rule index_uniqueI)
  fix j k
  assume jk: "j < length (ds[i := d])" "k < length (ds[i := d])"
    and h: "active_status (dp_status (ds[i := d] ! j))" "same_key (ds[i := d] ! j) (ds[i := d] ! k)"
      "dp_status (ds[i := d] ! j) = dp_status (ds[i := d] ! k)"
  have no: False if "m < length ds" "m \<noteq> i" "same_key (ds ! m) d" "dp_status (ds ! m) = dp_status d" "active_status (dp_status d)" for m
    using assms(4) that by (auto simp: index_conflict_iff same_key_def)
  show "j = k"
  proof (cases "j = i"; cases "k = i")
    assume "j \<noteq> i" "k \<noteq> i"
    with h jk index_uniqueD [OF assms(1), of j k] show ?thesis by simp
  next
    assume "j = i" "k \<noteq> i"
    with h jk no [of k] show ?thesis by (simp add: same_key_def)
  next
    assume "j \<noteq> i" "k = i"
    with h jk no [of j] show ?thesis by simp
  qed simp
qed

lemma index_unique_same:
  assumes "index_unique ds" "length es = length ds"
    and "\<And>k. k < length ds \<Longrightarrow> same_key (es ! k) (ds ! k) \<and> dp_status (es ! k) = dp_status (ds ! k)"
  shows "index_unique es"
proof (rule index_uniqueI)
  fix j k
  assume jk: "j < length es" "k < length es" and act: "active_status (dp_status (es ! j))"
    and key: "same_key (es ! j) (es ! k)" and eq: "dp_status (es ! j) = dp_status (es ! k)"
  from jk assms(2) have lt: "j < length ds" "k < length ds" by simp_all
  have j: "same_key (es ! j) (ds ! j)" "dp_status (es ! j) = dp_status (ds ! j)" using assms(3) [OF lt(1)] by blast+
  have k: "same_key (es ! k) (ds ! k)" "dp_status (es ! k) = dp_status (ds ! k)" using assms(3) [OF lt(2)] by blast+
  have "same_key (ds ! j) (ds ! k)" using key j(1) k(1) unfolding same_key_def by metis
  moreover have "dp_status (ds ! j) = dp_status (ds ! k)" using eq j(2) k(2) by metis
  moreover have "active_status (dp_status (ds ! j))" using act j(2) by metis
  ultimately show "j = k" using index_uniqueD [OF assms(1) lt] by blast
qed

text \<open>A sweep changes only the marks of breach.\<close>

lemma sweep_shape:
  "length (fst (processSlaBreaches n now ds)) = length ds \<and>
   (\<forall>k < length ds. same_key (fst (processSlaBreaches n now ds) ! k) (ds ! k)
      \<and> dp_status (fst (processSlaBreaches n now ds) ! k) = dp_status (ds ! k)
      \<and> (wf_dispute (ds ! k) \<longrightarrow> wf_dispute (fst (processSlaBreaches n now ds) ! k)))"
proof (induction n arbitrary: ds)
  case 0
  then show ?case by (simp add: same_key_def)
next
  case (Suc n)
  show ?case
  proof (cases "claim_overdue now ds")
    case None
    then show ?thesis by (simp add: same_key_def)
  next
    case (Some k)
    let ?es = "ds[k := mark_breached now (ds ! k)]"
    have step: "same_key (?es ! j) (ds ! j) \<and> dp_status (?es ! j) = dp_status (ds ! j)
        \<and> (wf_dispute (ds ! j) \<longrightarrow> wf_dispute (?es ! j))" if "j < length ds" for j
      using that by (cases "j = k") (auto simp: same_key_def wf_mark)
    have f: "fst (processSlaBreaches (Suc n) now ds) = fst (processSlaBreaches n now ?es)"
      by (simp add: Some Let_def case_prod_beta)
    show ?thesis unfolding f using Suc.IH [of ?es] step by (auto simp: same_key_def)
  qed
qed

definition dispute_inv :: "dispute_state \<Rightarrow> bool" where
  "dispute_inv st \<longleftrightarrow> list_all wf_dispute (disputes st) \<and> index_unique (disputes st)"

lemma addEvidence_cases:
  obtains (refused) e where "addEvidence now s i ev st = (st, Inl e)"
  | (accepted) d where "addEvidence now s i ev st = (st\<lparr>disputes := (disputes st)[i := d]\<rparr>, Inr d)"
      "i < length (disputes st)" "d = (disputes st ! i)\<lparr>dp_evidence := dp_evidence d, dp_lastActivityAt := now\<rparr>"
proof (cases "snd (addEvidence now s i ev st)")
  case (Inl e)
  then have "addEvidence now s i ev st = (st, Inl e)"
    by (auto simp: addEvidence_def Let_def split: option.splits if_splits)
  with refused show thesis by blast
next
  case (Inr d)
  then have "addEvidence now s i ev st = (st\<lparr>disputes := (disputes st)[i := d]\<rparr>, Inr d)" "i < length (disputes st)"
    "d = (disputes st ! i)\<lparr>dp_evidence := dp_evidence d, dp_lastActivityAt := now\<rparr>"
    by (auto simp: addEvidence_def Let_def dispute_by_id_Some split: option.splits if_splits)
  with accepted show thesis by blast
qed

lemma dispute_step_inv: "dispute_inv st \<Longrightarrow> dispute_inv (dispute_step L sumD h st q)"
proof (cases q)
  case (Flag now who s r)
  assume inv: "dispute_inv st"
  show ?thesis
    by (cases rule: flagDispute_cases [of L sumD h now who s r st])
      (use inv in \<open>auto simp: Flag dispute_inv_def raised_def wf_new intro: index_unique_append\<close>)
next
  case (Move now s i r)
  assume inv: "dispute_inv st"
  show ?thesis
  proof (cases rule: resolveDispute_cases [of L sumD now s i r st])
    case (refused e)
    with inv show ?thesis by (simp add: Move)
  next
    case accepted
    let ?d = "moved_dispute now r (disputes st ! i)"
    have "wf_dispute ?d" using inv accepted wf_moved by (simp add: dispute_inv_def list_all_length)
    moreover have "index_unique ((disputes st)[i := ?d])"
      using inv accepted by (intro index_unique_update) (auto simp: dispute_inv_def same_key_def)
    ultimately show ?thesis
      using inv accepted by (auto simp: Move moved_def Let_def dispute_inv_def list_all_length nth_list_update)
  qed
next
  case (Attach now s i ev)
  assume inv: "dispute_inv st"
  show ?thesis
  proof (cases rule: addEvidence_cases [of now s i ev st])
    case (refused e)
    with inv show ?thesis by (simp add: Attach)
  next
    case (accepted d)
    have same: "same_key d (disputes st ! i)" "dp_status d = dp_status (disputes st ! i)"
      "wf_dispute (disputes st ! i) \<longrightarrow> wf_dispute d"
      by (subst accepted(3), simp add: same_key_def wf_dispute_def)+
    have "index_unique ((disputes st)[i := d])"
      by (rule index_unique_same [of "disputes st"])
        (use inv same accepted(2) in \<open>auto simp: dispute_inv_def same_key_def nth_list_update\<close>)
    then show ?thesis
      using inv accepted(1,2) same by (auto simp: Attach dispute_inv_def list_all_length nth_list_update)
  qed
next
  case (Sweep now)
  assume inv: "dispute_inv st"
  note shape = sweep_shape [of 100 now "disputes st"]
  have "index_unique (fst (processSlaBreaches 100 now (disputes st)))"
    by (rule index_unique_same [of "disputes st"]) (use inv shape in \<open>auto simp: dispute_inv_def\<close>)
  with inv shape show ?thesis by (auto simp: Sweep dispute_inv_def list_all_length)
qed

subsection \<open>One active dispute, and its payment\<close>

definition payment_disputed :: "dispute_state \<Rightarrow> dispute \<Rightarrow> bool" where
  "payment_disputed st d \<longleftrightarrow>
     (case find (payment_of (dp_schoolId d) (dp_txHash d)) (db_payments (ledger st)) of
        None \<Rightarrow> False | Some p \<Rightarrow> row_status p = DISPUTED)"

definition in_step :: "dispute_state \<Rightarrow> bool" where
  "in_step st \<longleftrightarrow> (\<forall>j < length (disputes st). active_status (dp_status (disputes st ! j)) \<longrightarrow>
     payment_disputed st (disputes st ! j)
   \<and> (\<forall>k < length (disputes st). active_status (dp_status (disputes st ! k)) \<longrightarrow>
        same_key (disputes st ! j) (disputes st ! k) \<longrightarrow> j = k))"

lemma in_stepI:
  assumes "\<And>j. j < length (disputes st) \<Longrightarrow> active_status (dp_status (disputes st ! j)) \<Longrightarrow> payment_disputed st (disputes st ! j)"
    and "\<And>j k. j < length (disputes st) \<Longrightarrow> k < length (disputes st) \<Longrightarrow> active_status (dp_status (disputes st ! j))
      \<Longrightarrow> active_status (dp_status (disputes st ! k)) \<Longrightarrow> same_key (disputes st ! j) (disputes st ! k) \<Longrightarrow> j = k"
  shows "in_step st"
  using assms unfolding in_step_def by blast

lemma in_stepD:
  assumes "in_step st" "j < length (disputes st)" "active_status (dp_status (disputes st ! j))"
  shows "payment_disputed st (disputes st ! j)"
    and "k < length (disputes st) \<Longrightarrow> active_status (dp_status (disputes st ! k))
      \<Longrightarrow> same_key (disputes st ! j) (disputes st ! k) \<Longrightarrow> j = k"
  using assms unfolding in_step_def by blast+

lemma in_step_same:
  assumes "in_step st" "ledger st' = ledger st" "length (disputes st') = length (disputes st)"
    and "\<And>k. k < length (disputes st) \<Longrightarrow> same_key (disputes st' ! k) (disputes st ! k) \<and> dp_status (disputes st' ! k) = dp_status (disputes st ! k)"
  shows "in_step st'"
proof (rule in_stepI)
  fix j
  assume j: "j < length (disputes st')" "active_status (dp_status (disputes st' ! j))"
  then have "j < length (disputes st)" using assms(3) by simp
  with assms(4) [of j] j in_stepD(1) [OF assms(1), of j] show "payment_disputed st' (disputes st' ! j)"
    by (simp add: payment_disputed_def assms(2) same_key_def)
next
  fix j k
  assume jk: "j < length (disputes st')" "k < length (disputes st')"
    and act: "active_status (dp_status (disputes st' ! j))" "active_status (dp_status (disputes st' ! k))"
    and key: "same_key (disputes st' ! j) (disputes st' ! k)"
  then have lt: "j < length (disputes st)" "k < length (disputes st)" using assms(3) by simp_all
  have "same_key (disputes st ! j) (disputes st ! k)"
    using key assms(4) [OF lt(1)] assms(4) [OF lt(2)] unfolding same_key_def by metis
  moreover have "active_status (dp_status (disputes st ! j))" "active_status (dp_status (disputes st ! k))"
    using act assms(4) [OF lt(1)] assms(4) [OF lt(2)] by metis+
  ultimately show "j = k" using in_stepD(2) [OF assms(1) lt(1) _ lt(2)] by blast
qed

lemma in_step_raised:
  assumes "in_step st" "\<forall>e \<in> set (disputes st). \<not> active_dispute (dp_schoolId d) (dp_txHash d) e"
    and "find (payment_of (dp_schoolId d) (dp_txHash d)) (db_payments (ledger st)) \<noteq> None" "dp_status d = Open"
  shows "in_step (raised L sumD who d st)"
proof -
  let ?st = "raised L sumD who d st"
  have ds: "disputes ?st = disputes st @ [d]" by (simp add: raised_def)
  have fresh: "\<not> same_key (disputes st ! j) d" if "j < length (disputes st)" "active_status (dp_status (disputes st ! j))" for j
    using assms(2) that nth_mem [of j "disputes st"] by (auto simp: active_dispute_def same_key_def)
  show ?thesis
  proof (rule in_stepI)
    fix j
    assume "j < length (disputes ?st)" and act: "active_status (dp_status (disputes ?st ! j))"
    then consider "j = length (disputes st)" | "j < length (disputes st)" by (fastforce simp: ds)
    then show "payment_disputed ?st (disputes ?st ! j)"
    proof cases
      case 1
      with assms(3) show ?thesis
        by (auto simp: ds payment_disputed_def raised_def sync_payment)
    next
      case 2
      with act have a: "active_status (dp_status (disputes st ! j))" by (simp add: ds nth_append)
      with 2 fresh [of j] in_stepD(1) [OF assms(1) 2 a] show ?thesis
        by (auto simp: ds nth_append payment_disputed_def raised_def same_key_def sync_payment_other)
    qed
  next
    fix j k
    assume "j < length (disputes ?st)" "k < length (disputes ?st)" "active_status (dp_status (disputes ?st ! j))"
      "active_status (dp_status (disputes ?st ! k))" "same_key (disputes ?st ! j) (disputes ?st ! k)"
    with fresh [of j] fresh [of k] in_stepD(2) [OF assms(1), of j k] show "j = k"
      by (auto simp: ds nth_append same_key_def less_Suc_eq split: if_splits)
  qed
qed

lemma in_step_moved:
  assumes "in_step st" "i < length (disputes st)"
    and "isValidTransition (dp_status (disputes st ! i)) (requested_status (rr_status r))"
    and "requested_status (rr_status r) \<noteq> Open"
  shows "in_step (moved L sumD now i r st)"
proof -
  let ?st = "moved L sumD now i r st"
  let ?d = "moved_dispute now r (disputes st ! i)"
  have ds: "disputes ?st = (disputes st)[i := ?d]" by (simp add: moved_def Let_def)
  have key: "same_key ?d (disputes st ! i)" by (simp add: same_key_def)
  have act: "active_status (dp_status (disputes st ! i))"
    using assms(3,4) by (cases "dp_status (disputes st ! i)") (auto simp: isValidTransition_def active_status_def)
  have other: "\<not> same_key (disputes st ! j) (disputes st ! i)"
    if "j < length (disputes st)" "active_status (dp_status (disputes st ! j))" "j \<noteq> i" for j
    using in_stepD(2) [OF assms(1) that(1,2) assms(2) act] that(3) by blast
  have "find (payment_of (dp_schoolId ?d) (dp_txHash ?d)) (db_payments (ledger st)) \<noteq> None"
    using in_stepD(1) [OF assms(1,2) act] by (auto simp: payment_disputed_def split: option.splits)
  then have mine: "payment_disputed ?st ?d" if "active_status (dp_status ?d)"
    using that assms(4) by (auto simp: payment_disputed_def moved_def Let_def sync_payment active_status_def TERMINAL_STATUSES_def)
  have theirs: "payment_disputed ?st (disputes st ! j)"
    if "j < length (disputes st)" "active_status (dp_status (disputes st ! j))" "j \<noteq> i" for j
    using in_stepD(1) [OF assms(1) that(1,2)] other [OF that]
    by (auto simp: payment_disputed_def moved_def Let_def same_key_def sync_payment_other)
  show ?thesis
  proof (rule in_stepI)
    fix j
    assume "j < length (disputes ?st)" "active_status (dp_status (disputes ?st ! j))"
    then show "payment_disputed ?st (disputes ?st ! j)"
      using mine theirs [of j] assms(2) by (cases "j = i") (simp_all add: ds)
  next
    fix j k
    assume "j < length (disputes ?st)" "k < length (disputes ?st)" "active_status (dp_status (disputes ?st ! j))"
      "active_status (dp_status (disputes ?st ! k))" "same_key (disputes ?st ! j) (disputes ?st ! k)"
    with other [of j] other [of k] key in_stepD(2) [OF assms(1), of j k] show "j = k"
      by (cases "j = i"; cases "k = i") (auto simp: ds same_key_def)
  qed
qed

fun no_reopen :: "dispute_req \<Rightarrow> bool" where
  "no_reopen (Move now s i r) \<longleftrightarrow> requested_status (rr_status r) \<noteq> Open"
| "no_reopen _ \<longleftrightarrow> True"

lemma dispute_step_in_step:
  assumes "in_step st" "no_reopen q"
  shows "in_step (dispute_step L sumD h st q)"
proof (cases q)
  case (Flag now who s r)
  show ?thesis
    by (cases rule: flagDispute_cases [of L sumD h now who s r st])
      (use assms in \<open>auto simp: Flag intro!: in_step_raised\<close>)
next
  case (Move now s i r)
  show ?thesis
    by (cases rule: resolveDispute_cases [of L sumD now s i r st])
      (use assms in \<open>auto simp: Move intro!: in_step_moved\<close>)
next
  case (Attach now s i ev)
  show ?thesis
  proof (cases rule: addEvidence_cases [of now s i ev st])
    case (accepted d)
    have "same_key d (disputes st ! i)" "dp_status d = dp_status (disputes st ! i)"
      by (subst accepted(3), simp add: same_key_def)+
    then show ?thesis
      by (intro in_step_same [OF assms(1)])
        (use accepted(1,2) in \<open>auto simp: Attach nth_list_update same_key_def\<close>)
  qed (use assms in \<open>simp add: Attach\<close>)
next
  case (Sweep now)
  show ?thesis
    by (rule in_step_same [OF assms(1)]) (use sweep_shape [of 100 now "disputes st"] in \<open>auto simp: Sweep\<close>)
qed

subsection \<open>The sweep\<close>

lemma foldl_pick: "foldl (\<lambda>b k. if P k b then k else b) x xs \<in> insert x (set xs)"
proof (induction xs arbitrary: x)
  case (Cons a xs)
  have "foldl (\<lambda>b k. if P k b then k else b) x (a # xs) \<in> insert (if P a x then a else x) (set xs)"
    using Cons.IH by simp
  then show ?case by (auto split: if_splits)
qed simp

lemma claim_overdue_None: "claim_overdue now ds = None \<longleftrightarrow> \<not> list_ex (overdue now) ds"
  by (auto simp: claim_overdue_def Let_def filter_empty_conv list_ex_length)

lemma claim_overdue_Some: "claim_overdue now ds = Some k \<Longrightarrow> k < length ds \<and> overdue now (ds ! k)"
proof -
  assume a: "claim_overdue now ds = Some k"
  define due where "due = filter (\<lambda>k. overdue now (ds ! k)) [0..<length ds]"
  from a have "due \<noteq> []" "k \<in> insert (hd due) (set (tl due))"
    using foldl_pick [of "\<lambda>k b. the (dp_slaDeadline (ds ! k)) < the (dp_slaDeadline (ds ! b))" "hd due" "tl due"]
    by (auto simp: claim_overdue_def due_def [symmetric] Let_def split: if_splits)
  then have "k \<in> set due" by (cases due) auto
  then show ?thesis by (simp add: due_def)
qed

lemma marked_not_overdue: "\<not> overdue t (mark_breached now d)"
  by (simp add: overdue_def mark_breached_def)

lemma sweep_keeps_marks:
  "k < length ds \<Longrightarrow> (\<And>t. \<not> overdue t (ds ! k)) \<Longrightarrow> \<not> overdue t (fst (processSlaBreaches n now ds) ! k)"
proof (induction n arbitrary: ds)
  case (Suc n)
  show ?case
  proof (cases "claim_overdue now ds")
    case (Some j)
    have "\<not> overdue t (ds[j := mark_breached now (ds ! j)] ! k)" for t
      using Suc.prems marked_not_overdue by (cases "j = k") auto
    then have "\<not> overdue t (fst (processSlaBreaches n now (ds[j := mark_breached now (ds ! j)])) ! k)"
      using Suc.prems(1) by (intro Suc.IH) auto
    then show ?thesis by (simp add: Some Let_def case_prod_beta)
  qed (use Suc.prems in simp)
qed simp

lemma sweep_alerts:
  "distinct (snd (processSlaBreaches n now ds))
   \<and> (\<forall>k \<in> set (snd (processSlaBreaches n now ds)). k < length ds \<and> overdue now (ds ! k)
        \<and> (\<forall>t. \<not> overdue t (fst (processSlaBreaches n now ds) ! k)))
   \<and> (length (snd (processSlaBreaches n now ds)) = n \<or> \<not> list_ex (overdue now) (fst (processSlaBreaches n now ds)))"
proof (induction n arbitrary: ds)
  case (Suc n)
  show ?case
  proof (cases "claim_overdue now ds")
    case None
    moreover from None have "\<not> list_ex (overdue now) ds" using claim_overdue_None by blast
    ultimately show ?thesis by simp
  next
    case (Some j)
    let ?es = "ds[j := mark_breached now (ds ! j)]"
    note j = claim_overdue_Some [OF Some]
    have mark: "\<not> overdue t (?es ! j)" for t using j marked_not_overdue by simp
    have r: "processSlaBreaches (Suc n) now ds =
        (fst (processSlaBreaches n now ?es), j # snd (processSlaBreaches n now ?es))"
      by (simp add: Some Let_def case_prod_beta)
    have "j \<notin> set (snd (processSlaBreaches n now ?es))" using Suc.IH [of ?es] mark by blast
    moreover have "overdue now (ds ! k)" if "k \<in> set (snd (processSlaBreaches n now ?es))" for k
      using Suc.IH [of ?es] that mark by (cases "k = j") auto
    moreover have "\<not> overdue t (fst (processSlaBreaches n now ?es) ! j)" for t
      using sweep_keeps_marks [of j ?es] j mark by simp
    ultimately show ?thesis unfolding r using Suc.IH [of ?es] j by auto
  qed
qed simp

subsection \<open>The balance after a change of the payment\<close>

lemma stored_balance:
  "computeStudentBalance L sumD s x (fst (updateStudentBalance L sumD True s x db)) =
     map_option (\<lambda>x. (st_totalPaid x, st_remainingBalance x, st_feePaid x))
       (db_students (fst (updateStudentBalance L sumD True s x db)) (s, x))"
proof -
  have "snd (updateStudentBalance L sumD True s x db) = db_students (fst (updateStudentBalance L sumD True s x db)) (s, x)"
    by (auto simp: updateStudentBalance_eq Let_def split: option.splits)
  then show ?thesis using balance_readers [of L sumD True s x db] by (simp add: Let_def)
qed

lemma sync_stored:
  "case find (payment_of s t) (db_payments db) of
     None \<Rightarrow> True
   | Some p \<Rightarrow> row_status p = DISPUTE_TO_PAYMENT_STATUS ns
       \<or> computeStudentBalance L sumD s (row_studentId p) (syncPaymentStatus L sumD s t ns db) =
           map_option (\<lambda>x. (st_totalPaid x, st_remainingBalance x, st_feePaid x))
             (db_students (syncPaymentStatus L sumD s t ns db) (s, row_studentId p))"
  by (auto simp: syncPaymentStatus_def Let_def stored_balance split: option.splits)

subsection \<open>Properties\<close>

text \<open>C28: Disputes stay well formed. From no disputes, after any sequence of requests to raise, move or
  document disputes and of sweeps, accepted or not: a dispute has a time of resolution exactly when
  it is resolved or rejected; one that is not open names an actor and a note of 1 to 1000 characters
  that is not blank; its escalation level is two exactly when a breach is recorded, and else zero; and
  no two disputes of one payment are in the same active status.\<close>

theorem dispute_invariant:
  assumes "disputes st = []"
  shows "dispute_inv (foldl (dispute_step L sumD h) st qs)"
proof (rule foldl_invariant)
  show "dispute_inv st" using assms by (simp add: dispute_inv_def index_unique_def)
qed (rule dispute_step_inv)

definition example_state :: dispute_state where
  "example_state = \<lparr>disputes = [], ledger = example_db, dispute_audits = []\<rparr>"

definition example_flag :: flag_request where
  "example_flag = \<lparr>fr_txHash = Some ''t'', fr_studentId = Some ''A1'', fr_raisedBy = TStr '' Ada '',
     fr_reason = TStr ''not credited'', fr_txReference = TMissing, fr_evidence = EvMissing, fr_email = TMissing,
     fr_phone = TMissing\<rparr>"

theorem dispute_invariant_witness:
  "dispute_inv (foldl (dispute_step rat_lib rat_sum 72) example_state [Flag 0 ''admin'' ''S'' example_flag, Sweep 5])"
  by (rule dispute_invariant) (simp add: example_state_def)

text \<open>While a dispute is active its payment is disputed. If no request asks to re-open, then after
  any sequence of requests from a state without disputes there is at most one active dispute per payment,
  and the payment of each active dispute exists and has status \<open>DISPUTED\<close>, so it does not count as paid.\<close>

theorem dispute_payment_in_step:
  assumes "disputes st = []" and "list_all no_reopen qs"
  shows "in_step (foldl (dispute_step L sumD h) st qs)"
proof (rule foldl_invariant)
  show "in_step st" using assms(1) by (simp add: in_step_def)
qed (use assms(2) in \<open>auto simp: list_all_iff intro: dispute_step_in_step\<close>)

theorem dispute_payment_in_step_witness:
  "in_step (foldl (dispute_step rat_lib rat_sum 72) example_state [Flag 0 ''admin'' ''S'' example_flag])"
  by (rule dispute_payment_in_step) (simp_all add: example_state_def)

text \<open>The outcome of a dispute. A request that succeeds in closing a dispute followed a permitted
  transition, leaves the payment with the status of the outcome (refunded when the dispute is
  upheld, success when it is rejected), lifts the hold on the student, and when it changed the payment
  the balance stored for the payer is the one a reader computes from the payments.\<close>

theorem dispute_outcome:
  assumes "resolveDispute L sumD now s i r st = (st', Inr d)" and "dp_status d \<in> set TERMINAL_STATUSES"
  shows "isValidTransition (dp_status (disputes st ! i)) (dp_status d) \<and> disputes st' ! i = d
    \<and> find (payment_of s (dp_txHash d)) (db_payments (ledger st')) =
        map_option (\<lambda>p. p\<lparr>row_status := DISPUTE_TO_PAYMENT_STATUS (dp_status d)\<rparr>)
          (find (payment_of s (dp_txHash d)) (db_payments (ledger st)))
    \<and> map_option st_disputeHold (db_students (ledger st') (s, dp_studentId d)) =
        map_option (\<lambda>_. False) (db_students (ledger st) (s, dp_studentId d))
    \<and> (case find (payment_of s (dp_txHash d)) (db_payments (ledger st)) of
         None \<Rightarrow> True
       | Some p \<Rightarrow> row_status p = DISPUTE_TO_PAYMENT_STATUS (dp_status d)
           \<or> computeStudentBalance L sumD s (row_studentId p) (ledger st') =
               map_option (\<lambda>x. (st_totalPaid x, st_remainingBalance x, st_feePaid x))
                 (db_students (ledger st') (s, row_studentId p)))"
proof (cases rule: resolveDispute_cases [of L sumD now s i r st])
  case (refused e)
  with assms(1) show ?thesis by simp
next
  case accepted
  with assms(1) have st': "st' = moved L sumD now i r st" and d: "d = moved_dispute now r (disputes st ! i)" by auto
  let ?db = "set_hold s (dp_studentId d) False (ledger st)"
  have led: "ledger st' = syncPaymentStatus L sumD s (dp_txHash d) (dp_status d) ?db"
    using assms(2) accepted by (simp add: st' d moved_def Let_def)
  have disp: "disputes st' ! i = d" using accepted by (simp add: st' d moved_def Let_def)
  have pay: "find (payment_of s (dp_txHash d)) (db_payments (ledger st')) =
        map_option (\<lambda>p. p\<lparr>row_status := DISPUTE_TO_PAYMENT_STATUS (dp_status d)\<rparr>)
          (find (payment_of s (dp_txHash d)) (db_payments (ledger st)))"
    by (simp add: led sync_payment)
  have hold: "map_option st_disputeHold (db_students (ledger st') (s, dp_studentId d)) =
        map_option (\<lambda>_. False) (db_students (ledger st) (s, dp_studentId d))"
    by (simp add: led hold_set_hold)
  have bal: "case find (payment_of s (dp_txHash d)) (db_payments (ledger st)) of
         None \<Rightarrow> True
       | Some p \<Rightarrow> row_status p = DISPUTE_TO_PAYMENT_STATUS (dp_status d)
           \<or> computeStudentBalance L sumD s (row_studentId p) (ledger st') =
               map_option (\<lambda>x. (st_totalPaid x, st_remainingBalance x, st_feePaid x))
                 (db_students (ledger st') (s, row_studentId p))"
    using sync_stored [where s = s and t = "dp_txHash d" and db = ?db and ns = "dp_status d" and L = L and sumD = sumD]
    unfolding led payments_set_hold .
  have "isValidTransition (dp_status (disputes st ! i)) (dp_status d)" using accepted by (simp add: d)
  with disp pay hold bal show ?thesis by blast
qed

definition example_dispute :: "dispute_status \<Rightarrow> dispute" where
  "example_dispute ds =
     \<lparr>dp_schoolId = ''S'', dp_txHash = ''t'', dp_studentId = ''A1'', dp_txReference = None, dp_raisedBy = ''Ada'',
      dp_reason = ''not credited'', dp_raisedByEmail = None, dp_raisedByPhone = None, dp_evidence = [],
      dp_status = ds, dp_assignedTo = None, dp_slaDeadline = Some 100, dp_slaBreachedAt = None,
      dp_slaBreachNotifiedAt = None, dp_escalationLevel = 0, dp_escalatedAt = None, dp_lastActivityAt = 0,
      dp_resolvedBy = Some ''Bo'', dp_resolutionNote = Some ''seen'', dp_resolvedAt = None\<rparr>"

definition example_move :: "string \<Rightarrow> resolve_request" where
  "example_move target = \<lparr>rr_actor = Some ''Bo'', rr_note = TStr ''checked'', rr_status = TStr target,
     rr_assignedTo = TMissing, rr_evidence = EvMissing\<rparr>"

definition example_disputed :: "dispute_status \<Rightarrow> dispute_state" where
  "example_disputed ds = example_state\<lparr>disputes := [example_dispute ds]\<rparr>"

lemma example_check:
  "t \<in> {''resolved'', ''rejected''} \<Longrightarrow> resolve_check ''S'' 0 (example_move t) (example_disputed Open) = None"
  by (auto simp: resolve_check_def example_move_def example_disputed_def example_dispute_def dispute_by_id_def
      isValidTransition_def requested_status_def trim_def is_space_def)

lemma example_resolved:
  "resolveDispute rat_lib rat_sum 9 ''S'' 0 (example_move ''resolved'') (example_disputed Open) =
     (moved rat_lib rat_sum 9 0 (example_move ''resolved'') (example_disputed Open),
      Inr (moved_dispute 9 (example_move ''resolved'') (example_dispute Open)))"
  "requested_status (rr_status (example_move ''resolved'')) = Resolved"
proof -
  show ns: "requested_status (rr_status (example_move ''resolved'')) = Resolved"
    by (simp add: example_move_def requested_status_def)
  show "resolveDispute rat_lib rat_sum 9 ''S'' 0 (example_move ''resolved'') (example_disputed Open) =
     (moved rat_lib rat_sum 9 0 (example_move ''resolved'') (example_disputed Open),
      Inr (moved_dispute 9 (example_move ''resolved'') (example_dispute Open)))"
  proof (cases rule: resolveDispute_cases [of rat_lib rat_sum 9 "''S''" 0 "example_move ''resolved''" "example_disputed Open"])
    case (refused e)
    with example_check [of "''resolved''"] show ?thesis
      by (simp add: resolveDispute_def resolve_apply_def Let_def ns index_conflict_def active_status_def
          dispute_by_id_def example_disputed_def example_dispute_def)
  next
    case accepted
    then show ?thesis by (simp add: example_disputed_def)
  qed
qed

lemma example_key [simp]: "dp_txHash (example_dispute ds) = ''t''" "dp_studentId (example_dispute ds) = ''A1''"
  by (simp_all add: example_dispute_def)

lemma example_ledger:
  "find (payment_of ''S'' ''t'') (db_payments (ledger (example_disputed Open))) = Some (example_row SUCCESS 1000000)"
  "db_students (ledger (example_disputed Open)) (''S'', ''A1'') = Some example_student"
  by (simp_all add: example_disputed_def example_state_def example_db_def payment_of_def example_row_def)

theorem dispute_outcome_witness:
  "let (st', res) = resolveDispute rat_lib rat_sum 9 ''S'' 0 (example_move ''resolved'') (example_disputed Open)
   in map_option row_status (find (payment_of ''S'' ''t'') (db_payments (ledger st'))) = Some REFUNDED
    \<and> map_option st_disputeHold (db_students (ledger st') (''S'', ''A1'')) = Some False"
proof -
  have t: "dp_status (moved_dispute 9 (example_move ''resolved'') (example_dispute Open)) \<in> set TERMINAL_STATUSES"
    by (simp add: example_resolved TERMINAL_STATUSES_def)
  from dispute_outcome [OF example_resolved(1) t] show ?thesis
    by (simp add: example_resolved example_ledger example_row_def)
qed

text \<open>Each overdue dispute is alerted once. A sweep alerts no dispute twice and only active ones past their
  deadline; a dispute it alerted is not due at any later time; and unless it used up its batch, no
  dispute is left overdue.\<close>

theorem sla_alert_once:
  "let (ds', alerts) = processSlaBreaches n now ds
   in distinct alerts \<and> list_all (\<lambda>k. k < length ds \<and> overdue now (ds ! k)) alerts
    \<and> list_all (\<lambda>k. \<forall>t. \<not> overdue t (ds' ! k)) alerts
    \<and> (length alerts = n \<or> list_all (\<lambda>d. \<not> overdue now d) ds')"
  using sweep_alerts [of n now ds] by (auto simp: case_prod_beta Let_def list_all_iff list_ex_iff)

text \<open>Holds and disputes come apart. A request that re-opens a closed dispute leaves the hold on the student
  as it was, lifted, while the dispute is open again; and a request that closes a dispute lifts the
  hold even if another dispute of the same student is still active.\<close>

theorem dispute_hold_gaps:
  assumes "resolveDispute L sumD now s i r st = (st', Inr d)"
    and "db_students (ledger st) (s, dp_studentId d) = Some x"
  shows "\<exists>x'. db_students (ledger st') (s, dp_studentId d) = Some x'
    \<and> st_disputeHold x' = (if dp_status d \<in> {Resolved, Rejected} then False else st_disputeHold x)
    \<and> (\<forall>k. k \<noteq> i \<longrightarrow> disputes st' ! k = disputes st ! k)"
proof (cases rule: resolveDispute_cases [of L sumD now s i r st])
  case (refused e)
  with assms(1) show ?thesis by simp
next
  case accepted
  with assms(1) have st': "st' = moved L sumD now i r st" and d: "d = moved_dispute now r (disputes st ! i)" by auto
  let ?db = "if dp_status d \<in> {Resolved, Rejected} then set_hold s (dp_studentId d) False (ledger st) else ledger st"
  have led: "ledger st' = syncPaymentStatus L sumD s (dp_txHash d) (dp_status d) ?db"
    using accepted by (simp add: st' d moved_def Let_def TERMINAL_STATUSES_def)
  have "map_option st_disputeHold (db_students (ledger st') (s, dp_studentId d)) =
      map_option st_disputeHold (db_students ?db (s, dp_studentId d))"
    unfolding led by (rule hold_sync)
  also have "\<dots> = Some (if dp_status d \<in> {Resolved, Rejected} then False else st_disputeHold x)"
    using hold_set_hold [of s "dp_studentId d" False "ledger st"] assms(2) by (simp split: if_splits)
  finally have "map_option st_disputeHold (db_students (ledger st') (s, dp_studentId d)) =
      Some (if dp_status d \<in> {Resolved, Rejected} then False else st_disputeHold x)" .
  moreover have "disputes st' ! k = disputes st ! k" if "k \<noteq> i" for k
    using that by (simp add: st' moved_def Let_def)
  ultimately show ?thesis by (cases "db_students (ledger st') (s, dp_studentId d)") auto
qed

theorem dispute_hold_gaps_witness:
  "let (st', res) = resolveDispute rat_lib rat_sum 9 ''S'' 0 (example_move ''resolved'') (example_disputed Open)
   in \<exists>x'. db_students (ledger st') (''S'', ''A1'') = Some x' \<and> \<not> st_disputeHold x'"
  using dispute_hold_gaps [OF example_resolved(1), of example_student]
  by (auto simp: example_resolved example_ledger)

text \<open>Two requests that both read a dispute as open both succeed. If one decides to resolve it and the other
  to reject it, and both checks come before both writes, the second write overwrites the first outcome
  although the state machine has no transition from resolved to rejected.\<close>

theorem dispute_decision_race:
  assumes "resolve_check s i r1 st = None" "resolve_check s i r2 st = None"
    and "requested_status (rr_status r1) = Resolved" "requested_status (rr_status r2) = Rejected"
  shows "\<exists>d1 d2. snd (resolve_apply L sumD t1 s i r1 st) = Inr d1
    \<and> snd (resolve_apply L sumD t2 s i r2 (fst (resolve_apply L sumD t1 s i r1 st))) = Inr d2
    \<and> dp_status d1 = Resolved \<and> dp_status d2 = Rejected \<and> \<not> isValidTransition Resolved Rejected"
proof -
  from assms(1) obtain d where d: "dispute_by_id s i st = Some d"
    by (auto simp: resolve_check_def split: if_splits option.splits)
  then have i: "i < length (disputes st)" "d = disputes st ! i" "dp_schoolId d = s" by (auto simp: dispute_by_id_Some)
  have free: "\<not> index_conflict ds k x y Resolved" "\<not> index_conflict ds k x y Rejected" for ds k x y
    by (simp_all add: index_conflict_def active_status_def)
  show ?thesis
    using d i assms(3,4) free
    by (auto simp: resolve_apply_def Let_def dispute_by_id_def isValidTransition_def)
qed

theorem dispute_decision_race_witness:
  "\<exists>d1 d2. snd (resolve_apply rat_lib rat_sum 1 ''S'' 0 (example_move ''resolved'') (example_disputed Open)) = Inr d1
    \<and> snd (resolve_apply rat_lib rat_sum 2 ''S'' 0 (example_move ''rejected'')
        (fst (resolve_apply rat_lib rat_sum 1 ''S'' 0 (example_move ''resolved'') (example_disputed Open)))) = Inr d2
    \<and> dp_status d1 = Resolved \<and> dp_status d2 = Rejected \<and> \<not> isValidTransition Resolved Rejected"
  by (rule dispute_decision_race) (simp_all add: example_check, simp_all add: example_move_def requested_status_def)

end
