(* ===== verification/Payment_Limits.thy ===== *)
theory Payment_Limits
  imports Decimal_Lib
begin

section \<open>Payment limits\<close>

text \<open>
  \<^verbatim>\<open>backend/src/services/paymentLimitsService.js\<close>, which resolves the limits of a school and asset
  through five layers and a cache with a time to live, and \<^verbatim>\<open>backend/src/utils/paymentLimits.js\<close>, which
  checks an amount against them. A limits document is whatever an administrator sent or the database
  holds: fields that are no numbers, and values that are no objects, are constructors of their own.
  The state is the cache of this process and the documents in the database; whether each of the two
  database reads answers within its timeout is an argument.
\<close>

subsection \<open>Documents and their validation\<close>

datatype limit_field = LNum jsnum | LOther
datatype pair_arg = Pair limit_field limit_field | NotPair
datatype assets_arg = AssetMap "(string \<times> pair_arg) list" | AssetsBad

record limits_doc =
  doc_default :: "pair_arg option"
  doc_assets :: "assets_arg option"

datatype doc_arg = Doc limits_doc | NotDoc

datatype pair_error = Not_an_object | Not_finite string | Min_negative | Max_not_greater
datatype doc_error = Doc_not_object | Bad_default pair_error | Assets_not_object
  | Bad_asset string pair_error | Doc_empty

definition finite_field :: "limit_field \<Rightarrow> bool" where
  "finite_field f \<longleftrightarrow> (case f of LNum n \<Rightarrow> is_finite n | LOther \<Rightarrow> False)"

fun field_num :: "limit_field \<Rightarrow> jsnum" where
  "field_num (LNum n) = n"
| "field_num LOther = NaN"

fun validateLimitPair :: "pair_arg \<Rightarrow> pair_error option" where
  "validateLimitPair NotPair = Some Not_an_object"
| "validateLimitPair (Pair mn mx) =
     (if \<not> finite_field mn then Some (Not_finite ''min'')
      else if \<not> finite_field mx then Some (Not_finite ''max'')
      else if jless (field_num mn) (Fin 0) then Some Min_negative
      else if jleq (field_num mx) (field_num mn) then Some Max_not_greater
      else None)"

fun first_bad_asset :: "(string \<times> pair_arg) list \<Rightarrow> doc_error option" where
  "first_bad_asset [] = None"
| "first_bad_asset ((c, p) # r) =
     (case validateLimitPair p of Some e \<Rightarrow> Some (Bad_asset c e) | None \<Rightarrow> first_bad_asset r)"

definition default_error :: "limits_doc \<Rightarrow> doc_error option" where
  "default_error d = (case doc_default d of None \<Rightarrow> None | Some p \<Rightarrow> map_option Bad_default (validateLimitPair p))"

definition assets_error :: "limits_doc \<Rightarrow> doc_error option" where
  "assets_error d =
     (case doc_assets d of
        None \<Rightarrow> None
      | Some AssetsBad \<Rightarrow> Some Assets_not_object
      | Some (AssetMap m) \<Rightarrow> first_bad_asset m)"

fun validateLimitsDocument :: "doc_arg \<Rightarrow> doc_error option" where
  "validateLimitsDocument NotDoc = Some Doc_not_object"
| "validateLimitsDocument (Doc d) =
     (case default_error d of
        Some e \<Rightarrow> Some e
      | None \<Rightarrow>
          (case assets_error d of
             Some e \<Rightarrow> Some e
           | None \<Rightarrow> if doc_default d = None \<and> doc_assets d = None then Some Doc_empty else None))"

subsection \<open>Resolution\<close>

record limits =
  lim_min :: jsnum
  lim_max :: jsnum
  lim_source :: string

definition limits_of :: "pair_arg \<Rightarrow> string \<Rightarrow> limits" where
  "limits_of p src =
     (case p of
        Pair mn mx \<Rightarrow> \<lparr>lim_min = field_num mn, lim_max = field_num mx, lim_source = src\<rparr>
      | NotPair \<Rightarrow> \<lparr>lim_min = NaN, lim_max = NaN, lim_source = src\<rparr>)"

definition asset_pair :: "limits_doc \<Rightarrow> string \<Rightarrow> pair_arg option" where
  "asset_pair d key = (case doc_assets d of Some (AssetMap m) \<Rightarrow> map_of m key | _ \<Rightarrow> None)"

definition pick_default :: "limits_doc \<Rightarrow> string \<Rightarrow> limits option" where
  "pick_default d source =
     (case doc_default d of
        None \<Rightarrow> None
      | Some p \<Rightarrow> if validateLimitPair p = None then Some (limits_of p (source @ '':default'')) else None)"

definition pick_limits :: "doc_arg \<Rightarrow> string \<Rightarrow> string \<Rightarrow> limits option" where
  "pick_limits doc assetKey source =
     (case doc of
        NotDoc \<Rightarrow> None
      | Doc d \<Rightarrow>
          (case asset_pair d assetKey of
             None \<Rightarrow> pick_default d source
           | Some p \<Rightarrow>
               if validateLimitPair p = None then Some (limits_of p (source @ '':asset:'' @ assetKey))
               else pick_default d source))"

type_synonym doc_pair = "doc_arg \<times> doc_arg"

record limits_state =
  lcache :: "string \<Rightarrow> (doc_pair \<times> millis) option"
  school_docs :: "string \<Rightarrow> doc_arg option"
  system_doc :: doc_arg

definition truthy_id :: "string option \<Rightarrow> bool" where
  "truthy_id schoolId \<longleftrightarrow> schoolId \<noteq> None \<and> schoolId \<noteq> Some []"

definition cacheKey :: "string option \<Rightarrow> string" where
  "cacheKey schoolId = (if truthy_id schoolId then the schoolId else ''__global__'')"

definition readCache :: "millis \<Rightarrow> string option \<Rightarrow> limits_state \<Rightarrow> doc_pair option" where
  "readCache now schoolId st =
     (case lcache st (cacheKey schoolId) of
        None \<Rightarrow> None
      | Some (v, expiresAt) \<Rightarrow> if expiresAt \<le> now then None else Some v)"

definition writeCache :: "millis \<Rightarrow> millis \<Rightarrow> string option \<Rightarrow> doc_pair \<Rightarrow> limits_state \<Rightarrow> limits_state" where
  "writeCache ttl now schoolId v st =
     st\<lparr>lcache := (lcache st)(cacheKey schoolId := Some (v, now + ttl))\<rparr>"

definition invalidateCache :: "string option option \<Rightarrow> limits_state \<Rightarrow> limits_state" where
  "invalidateCache target st =
     (case target of
        None \<Rightarrow> st\<lparr>lcache := (\<lambda>_. None)\<rparr>
      | Some schoolId \<Rightarrow> st\<lparr>lcache := (lcache st)(cacheKey schoolId := None)\<rparr>)"

definition pick_layers :: "limits \<Rightarrow> doc_pair \<Rightarrow> string \<Rightarrow> limits" where
  "pick_layers env docs assetKey =
     (case pick_limits (fst docs) assetKey ''school'' of
        Some l \<Rightarrow> l
      | None \<Rightarrow> (case pick_limits (snd docs) assetKey ''system'' of Some l \<Rightarrow> l | None \<Rightarrow> env))"

definition school_doc :: "string option \<Rightarrow> limits_state \<Rightarrow> doc_arg" where
  "school_doc schoolId st =
     (if truthy_id schoolId
      then (case school_docs st (the schoolId) of Some d \<Rightarrow> d | None \<Rightarrow> NotDoc) else NotDoc)"

definition asset_key :: "string option \<Rightarrow> string" where
  "asset_key asset = toUpperCase (if truthy_id asset then the asset else ''XLM'')"

text \<open>
  \<open>now\<close> is the time of the cache lookup, \<open>later\<close> that of the cache write after the reads; \<open>schoolOk\<close> and
  \<open>systemOk\<close> say whether the reads succeed.
\<close>

definition resolveLimits ::
  "limits \<Rightarrow> millis \<Rightarrow> bool \<Rightarrow> bool \<Rightarrow> millis \<Rightarrow> millis \<Rightarrow> string option \<Rightarrow> string option \<Rightarrow> limits_state
     \<Rightarrow> limits_state \<times> limits" where
  "resolveLimits env ttl schoolOk systemOk now later schoolId asset st =
     (case readCache now schoolId st of
        Some docs \<Rightarrow> (st, pick_layers env docs (asset_key asset))
      | None \<Rightarrow>
          if (truthy_id schoolId \<and> \<not> schoolOk) \<or> \<not> systemOk then (st, env)
          else let docs = (school_doc schoolId st, system_doc st)
               in (writeCache ttl later schoolId docs st, pick_layers env docs (asset_key asset)))"

subsection \<open>Changes by administrators\<close>

definition getStoredLimits :: "string option \<Rightarrow> limits_state \<Rightarrow> doc_arg \<times> doc_arg" where
  "getStoredLimits schoolId st = (system_doc st, school_doc schoolId st)"

datatype limits_error = INVALID_PAYMENT_LIMITS doc_error | LIMITS_NOT_FOUND

definition setSystemLimits :: "doc_arg \<Rightarrow> limits_state \<Rightarrow> limits_state \<times> (limits_error, doc_arg) result" where
  "setSystemLimits doc st =
     (case validateLimitsDocument doc of
        Some e \<Rightarrow> (st, Inl (INVALID_PAYMENT_LIMITS e))
      | None \<Rightarrow> (invalidateCache None (st\<lparr>system_doc := doc\<rparr>), Inr doc))"

definition setSchoolLimits ::
  "string \<Rightarrow> doc_arg \<Rightarrow> limits_state \<Rightarrow> limits_state \<times> (limits_error, doc_arg) result" where
  "setSchoolLimits schoolId doc st =
     (case validateLimitsDocument doc of
        Some e \<Rightarrow> (st, Inl (INVALID_PAYMENT_LIMITS e))
      | None \<Rightarrow>
          if school_docs st schoolId = None then (st, Inl LIMITS_NOT_FOUND)
          else (invalidateCache (Some (Some schoolId)) (st\<lparr>school_docs := (school_docs st)(schoolId \<mapsto> doc)\<rparr>),
                Inr doc))"

definition clearSchoolLimits :: "string \<Rightarrow> limits_state \<Rightarrow> limits_state \<times> (limits_error, unit) result" where
  "clearSchoolLimits schoolId st =
     (if school_docs st schoolId = None then (st, Inl LIMITS_NOT_FOUND)
      else (invalidateCache (Some (Some schoolId)) (st\<lparr>school_docs := (school_docs st)(schoolId \<mapsto> NotDoc)\<rparr>),
            Inr ()))"

subsection \<open>Checking an amount\<close>

datatype verdict = Amount_valid | INVALID_AMOUNT | INVALID_FEE | AMOUNT_TOO_LOW | AMOUNT_TOO_HIGH

definition finite_or_nan :: "limit_field \<Rightarrow> jsnum" where
  "finite_or_nan a = (case a of LNum n \<Rightarrow> if is_finite n then n else NaN | LOther \<Rightarrow> NaN)"

definition compareAgainstLimits :: "'d decimal_lib \<Rightarrow> limit_field \<Rightarrow> limits \<Rightarrow> verdict" where
  "compareAgainstLimits L amount bnds =
     (let d = dec_new L (finite_or_nan amount) in
      if \<not> dec_is_finite L d \<or> dec_lte L d (dec_new L (Fin 0)) then INVALID_AMOUNT
      else if dec_lt L d (dec_new L (lim_min bnds)) then AMOUNT_TOO_LOW
      else if dec_gt L d (dec_new L (lim_max bnds)) then AMOUNT_TOO_HIGH
      else Amount_valid)"

definition validatePaymentAmount ::
  "'d decimal_lib \<Rightarrow> limits \<Rightarrow> millis \<Rightarrow> bool \<Rightarrow> bool \<Rightarrow> millis \<Rightarrow> millis \<Rightarrow> limit_field \<Rightarrow> string option \<Rightarrow> string option
     \<Rightarrow> limits_state \<Rightarrow> limits_state \<times> verdict" where
  "validatePaymentAmount L env ttl schoolOk systemOk now later amount schoolId asset st =
     (let (st', bnds) = resolveLimits env ttl schoolOk systemOk now later schoolId asset st
      in (st', compareAgainstLimits L amount bnds))"

definition validatePaymentAmountAgainstFee :: "'d decimal_lib \<Rightarrow> limit_field \<Rightarrow> limit_field \<Rightarrow> jsnum \<Rightarrow> verdict" where
  "validatePaymentAmountAgainstFee L paymentAmount feeAmount maxPaymentMultiplier =
     (let dPayment = dec_new L (finite_or_nan paymentAmount); dFee = dec_new L (finite_or_nan feeAmount) in
      if \<not> dec_is_finite L dPayment \<or> dec_lte L dPayment (dec_new L (Fin 0)) then INVALID_AMOUNT
      else if \<not> dec_is_finite L dFee \<or> dec_lte L dFee (dec_new L (Fin 0)) then INVALID_FEE
      else if dec_gt L dPayment (dec_times L dFee (dec_new L maxPaymentMultiplier)) then AMOUNT_TOO_HIGH
      else Amount_valid)"

definition getPaymentLimits ::
  "limits \<Rightarrow> millis \<Rightarrow> bool \<Rightarrow> bool \<Rightarrow> millis \<Rightarrow> millis \<Rightarrow> string option \<Rightarrow> string option \<Rightarrow> limits_state
     \<Rightarrow> limits_state \<times> (jsnum \<times> jsnum)" where
  "getPaymentLimits env ttl schoolOk systemOk now later schoolId asset st =
     (let (st', bnds) = resolveLimits env ttl schoolOk systemOk now later schoolId asset st
      in (st', (lim_min bnds, lim_max bnds)))"

subsection \<open>Resolved limits are well formed\<close>

definition wf_limits :: "limits \<Rightarrow> bool" where
  "wf_limits l \<longleftrightarrow> (case (lim_min l, lim_max l) of (Fin a, Fin b) \<Rightarrow> 0 \<le> a \<and> a < b | _ \<Rightarrow> False)"

lemma valid_pair_wf: "validateLimitPair p = None \<Longrightarrow> wf_limits (limits_of p src)"
proof (cases p)
  case (Pair mn mx)
  assume "validateLimitPair p = None"
  then show ?thesis
    by (cases "field_num mn"; cases "field_num mx"; cases mn; cases mx)
      (auto simp: Pair wf_limits_def limits_of_def finite_field_def jleq_def split: if_splits)
qed simp

lemma pick_limits_wf: "pick_limits doc key src = Some l \<Longrightarrow> wf_limits l"
  by (auto simp: pick_limits_def pick_default_def intro: valid_pair_wf split: doc_arg.splits option.splits if_splits)

lemma pick_layers_wf: "wf_limits env \<Longrightarrow> wf_limits (pick_layers env docs key)"
  by (auto simp: pick_layers_def dest: pick_limits_wf split: option.splits)

lemma resolveLimits_wf:
  "wf_limits env \<Longrightarrow> wf_limits (snd (resolveLimits env ttl schoolOk systemOk now later schoolId asset st))"
  by (auto simp: resolveLimits_def Let_def pick_layers_wf split: option.splits)

subsection \<open>The cache is invisible\<close>

text \<open>
  The abstract component caches no document: a store of documents, and as effective limits the first
  valid pair of the four layers, in the order the service documents, or the environment's. Of past
  lookups it knows only until when the documents of a key count as read, for which lookups need not
  read the database; a change of the documents forgets this. A lookup that has to read and cannot
  gets the limits of the environment.
\<close>

record limits_store =
  store_schools :: "string \<Rightarrow> doc_arg option"
  store_system :: doc_arg
  store_read :: "string \<Rightarrow> millis option"

definition doc_layers :: "doc_arg \<Rightarrow> string \<Rightarrow> string \<Rightarrow> (pair_arg option \<times> string) list" where
  "doc_layers doc key source =
     (case doc of
        NotDoc \<Rightarrow> []
      | Doc d \<Rightarrow> [(asset_pair d key, source @ '':asset:'' @ key), (doc_default d, source @ '':default'')])"

definition valid_layer :: "pair_arg option \<Rightarrow> bool" where
  "valid_layer p \<longleftrightarrow> (case p of None \<Rightarrow> False | Some q \<Rightarrow> validateLimitPair q = None)"

definition effective :: "limits \<Rightarrow> doc_arg \<Rightarrow> doc_arg \<Rightarrow> string \<Rightarrow> limits" where
  "effective env school system key =
     (case find (\<lambda>c. valid_layer (fst c))
             (doc_layers school key ''school'' @ doc_layers system key ''system'') of
        Some (p, src) \<Rightarrow> limits_of (the p) src
      | None \<Rightarrow> env)"

definition store_school :: "string option \<Rightarrow> limits_store \<Rightarrow> doc_arg" where
  "store_school schoolId s =
     (if truthy_id schoolId
      then (case store_schools s (the schoolId) of Some d \<Rightarrow> d | None \<Rightarrow> NotDoc) else NotDoc)"

definition read_before :: "millis \<Rightarrow> string option \<Rightarrow> limits_store \<Rightarrow> bool" where
  "read_before now schoolId s \<longleftrightarrow> (case store_read s (cacheKey schoolId) of None \<Rightarrow> False | Some t \<Rightarrow> now < t)"

text \<open>Requests; a lookup carries whether its two reads of the database succeed.\<close>

datatype limits_req = Resolve bool bool millis millis "string option" "string option" | Set_system doc_arg
  | Set_school string doc_arg | Clear_school string

datatype limits_reply = Limits limits | Stored "(limits_error, doc_arg) result" | Cleared "(limits_error, unit) result"

fun limits_step :: "limits \<Rightarrow> millis \<Rightarrow> limits_req \<Rightarrow> limits_state \<Rightarrow> limits_state \<times> limits_reply" where
  "limits_step env ttl (Resolve schoolOk systemOk now later schoolId asset) st =
     map_prod id Limits (resolveLimits env ttl schoolOk systemOk now later schoolId asset st)"
| "limits_step env ttl (Set_system doc) st = map_prod id Stored (setSystemLimits doc st)"
| "limits_step env ttl (Set_school i doc) st = map_prod id Stored (setSchoolLimits i doc st)"
| "limits_step env ttl (Clear_school i) st = map_prod id Cleared (clearSchoolLimits i st)"

fun store_step :: "limits \<Rightarrow> millis \<Rightarrow> limits_req \<Rightarrow> limits_store \<Rightarrow> limits_store \<times> limits_reply" where
  "store_step env ttl (Resolve schoolOk systemOk now later schoolId asset) s =
     (let stored = Limits (effective env (store_school schoolId s) (store_system s) (asset_key asset)) in
      if read_before now schoolId s then (s, stored)
      else if systemOk \<and> (truthy_id schoolId \<longrightarrow> schoolOk)
      then (s\<lparr>store_read := (store_read s)(cacheKey schoolId \<mapsto> later + ttl)\<rparr>, stored)
      else (s, Limits env))"
| "store_step env ttl (Set_system doc) s =
     (case validateLimitsDocument doc of
        Some e \<Rightarrow> (s, Stored (Inl (INVALID_PAYMENT_LIMITS e)))
      | None \<Rightarrow> (s\<lparr>store_system := doc, store_read := Map.empty\<rparr>, Stored (Inr doc)))"
| "store_step env ttl (Set_school i doc) s =
     (case validateLimitsDocument doc of
        Some e \<Rightarrow> (s, Stored (Inl (INVALID_PAYMENT_LIMITS e)))
      | None \<Rightarrow> if store_schools s i = None then (s, Stored (Inl LIMITS_NOT_FOUND))
                else (s\<lparr>store_schools := (store_schools s)(i \<mapsto> doc), store_read := (store_read s)(i := None)\<rparr>, Stored (Inr doc)))"
| "store_step env ttl (Clear_school i) s =
     (if store_schools s i = None then (s, Cleared (Inl LIMITS_NOT_FOUND))
      else (s\<lparr>store_schools := (store_schools s)(i \<mapsto> NotDoc), store_read := (store_read s)(i := None)\<rparr>, Cleared (Inr ())))"

text \<open>The cache is coherent when each entry holds the documents now stored for its key.\<close>

definition key_doc :: "limits_state \<Rightarrow> string \<Rightarrow> doc_arg" where
  "key_doc st k = (if k = ''__global__'' then NotDoc else (case school_docs st k of Some d \<Rightarrow> d | None \<Rightarrow> NotDoc))"

definition coherent :: "limits_state \<Rightarrow> bool" where
  "coherent st \<longleftrightarrow> (\<forall>k docs t. lcache st k = Some (docs, t) \<longrightarrow> docs = (key_doc st k, system_doc st))"

lemma coherentI:
  "(\<And>k docs t. lcache st k = Some (docs, t) \<Longrightarrow> docs = (key_doc st k, system_doc st)) \<Longrightarrow> coherent st"
  by (simp add: coherent_def)

lemma coherentD: "coherent st \<Longrightarrow> lcache st k = Some (docs, t) \<Longrightarrow> docs = (key_doc st k, system_doc st)"
  unfolding coherent_def by blast

fun named_school :: "limits_req \<Rightarrow> bool" where
  "named_school (Resolve schoolOk systemOk now later schoolId asset) \<longleftrightarrow> schoolId \<noteq> Some ''__global__''"
| "named_school (Set_system doc) \<longleftrightarrow> True"
| "named_school (Set_school i doc) \<longleftrightarrow> i \<noteq> ''__global__'' \<and> i \<noteq> []"
| "named_school (Clear_school i) \<longleftrightarrow> i \<noteq> ''__global__'' \<and> i \<noteq> []"

definition limits_store_of :: "limits_state \<Rightarrow> limits_store" where
  "limits_store_of st = \<lparr>store_schools = school_docs st, store_system = system_doc st,
     store_read = (\<lambda>k. map_option snd (lcache st k))\<rparr>"

lemma key_doc_cacheKey: "schoolId \<noteq> Some ''__global__'' \<Longrightarrow> key_doc st (cacheKey schoolId) = school_doc schoolId st"
  by (cases schoolId) (auto simp: key_doc_def cacheKey_def school_doc_def truthy_id_def)

lemma store_school_of [simp]: "store_school schoolId (limits_store_of st) = school_doc schoolId st"
  by (simp add: store_school_def limits_store_of_def school_doc_def)

lemma pick_limits_find:
  "pick_limits doc key source =
     map_option (\<lambda>(p, src). limits_of (the p) src) (find (\<lambda>c. valid_layer (fst c)) (doc_layers doc key source))"
  by (cases doc) (auto simp: pick_limits_def pick_default_def doc_layers_def valid_layer_def split: option.splits)

lemma pick_layers_effective: "pick_layers env (school, system) key = effective env school system key"
  unfolding pick_layers_def effective_def find_append pick_limits_find by (auto split: option.splits)

lemma readCache_coherent:
  assumes "coherent st" "schoolId \<noteq> Some ''__global__''" "readCache now schoolId st = Some docs"
  shows "docs = (school_doc schoolId st, system_doc st)"
proof -
  from assms(3) obtain t where "lcache st (cacheKey schoolId) = Some (docs, t)"
    by (auto simp: readCache_def split: option.splits if_splits)
  from coherentD [OF assms(1) this] show ?thesis by (simp add: key_doc_cacheKey [OF assms(2)])
qed

lemma coherent_write:
  assumes "coherent st" "schoolId \<noteq> Some ''__global__''"
  shows "coherent (writeCache ttl now schoolId (school_doc schoolId st, system_doc st) st)"
proof (rule coherentI)
  fix k docs t
  assume "lcache (writeCache ttl now schoolId (school_doc schoolId st, system_doc st) st) k = Some (docs, t)"
  with coherentD [OF assms(1), of k docs t] have "docs = (key_doc st k, system_doc st)"
    by (auto simp: writeCache_def key_doc_cacheKey [OF assms(2)] split: if_splits)
  then show "docs = (key_doc (writeCache ttl now schoolId (school_doc schoolId st, system_doc st) st) k,
      system_doc (writeCache ttl now schoolId (school_doc schoolId st, system_doc st) st))"
    by (simp add: writeCache_def key_doc_def)
qed

lemma read_before_of: "read_before now schoolId (limits_store_of st) \<longleftrightarrow> readCache now schoolId st \<noteq> None"
  by (auto simp: read_before_def limits_store_of_def readCache_def split: option.splits)

lemma limits_store_of_write:
  "limits_store_of (writeCache ttl later schoolId docs st) =
     (limits_store_of st)\<lparr>store_read := (store_read (limits_store_of st))(cacheKey schoolId \<mapsto> later + ttl)\<rparr>"
  by (simp add: limits_store_of_def writeCache_def fun_eq_iff)

text \<open>A lookup in a coherent state: the limits of the documents now stored, or, when a read fails and the
  cache has no entry, those of the environment.\<close>

lemma resolveLimits_cases:
  assumes "coherent st" "schoolId \<noteq> Some ''__global__''"
  shows "resolveLimits env ttl schoolOk systemOk now later schoolId asset st =
    (if readCache now schoolId st \<noteq> None
     then (st, effective env (school_doc schoolId st) (system_doc st) (asset_key asset))
     else if systemOk \<and> (truthy_id schoolId \<longrightarrow> schoolOk)
     then (writeCache ttl later schoolId (school_doc schoolId st, system_doc st) st,
           effective env (school_doc schoolId st) (system_doc st) (asset_key asset))
     else (st, env))"
  by (cases "readCache now schoolId st")
    (auto simp: resolveLimits_def Let_def pick_layers_effective dest: readCache_coherent [OF assms])

lemma resolveLimits_ok:
  assumes "coherent st" "schoolId \<noteq> Some ''__global__''"
  shows "coherent (fst (resolveLimits env ttl schoolOk systemOk now later schoolId asset st))"
    and "school_doc schoolId' (fst (resolveLimits env ttl schoolOk systemOk now later schoolId asset st)) = school_doc schoolId' st"
    and "system_doc (fst (resolveLimits env ttl schoolOk systemOk now later schoolId asset st)) = system_doc st"
  unfolding resolveLimits_cases [OF assms] using assms coherent_write [OF assms]
  by (simp_all add: writeCache_def school_doc_def)

lemma coherent_cleared: "coherent (invalidateCache None st)"
  by (simp add: coherent_def invalidateCache_def)

lemma coherent_school:
  assumes "coherent st" "i \<noteq> []" "i \<noteq> ''__global__''"
  shows "coherent (invalidateCache (Some (Some i)) (st\<lparr>school_docs := (school_docs st)(i \<mapsto> doc)\<rparr>))"
proof (rule coherentI)
  fix k docs t
  let ?st = "invalidateCache (Some (Some i)) (st\<lparr>school_docs := (school_docs st)(i \<mapsto> doc)\<rparr>)"
  assume "lcache ?st k = Some (docs, t)"
  then have "k \<noteq> i" "lcache st k = Some (docs, t)"
    using assms(2) by (auto simp: invalidateCache_def cacheKey_def truthy_id_def split: if_splits)
  with coherentD [OF assms(1), of k docs t] show "docs = (key_doc ?st k, system_doc ?st)"
    by (simp add: invalidateCache_def key_doc_def)
qed

interpretation limits_ref: refinement "limits_step env ttl" "store_step env ttl" limits_store_of coherent named_school
  for env ttl
proof
  fix c x
  assume c: "coherent c" and x: "named_school x"
  show "coherent (fst (limits_step env ttl x c))"
    by (cases x)
      (use c x resolveLimits_ok(1) [OF c] coherent_school [OF c] coherent_cleared in
        \<open>auto simp: setSystemLimits_def setSchoolLimits_def clearSchoolLimits_def split: option.splits\<close>)
  show "store_step env ttl x (limits_store_of c)
      = (limits_store_of (fst (limits_step env ttl x c)), snd (limits_step env ttl x c))"
  proof (cases x)
    case (Resolve schoolOk systemOk now later schoolId asset)
    with x have "schoolId \<noteq> Some ''__global__''" by simp
    moreover have "store_system (limits_store_of c) = system_doc c" by (simp add: limits_store_of_def)
    ultimately show ?thesis
      by (auto simp: Resolve resolveLimits_cases [OF c] read_before_of limits_store_of_write Let_def)
  next
    case (Set_school i doc)
    with x show ?thesis
      by (auto simp: limits_store_of_def setSchoolLimits_def invalidateCache_def cacheKey_def truthy_id_def fun_eq_iff
          split: option.splits)
  next
    case (Clear_school i)
    with x show ?thesis
      by (auto simp: limits_store_of_def clearSchoolLimits_def invalidateCache_def cacheKey_def truthy_id_def fun_eq_iff)
  qed (auto simp: limits_store_of_def setSystemLimits_def invalidateCache_def split: option.splits)
qed

subsection \<open>Properties\<close>

text \<open>C3: The cache never shows in one process, database failures included. From an empty cache, any sequence of
  lookups, each with or without its reads succeeding, of changes to the system's limits and of changes
  to schools' limits, at any times, gets the replies of a component that keeps no copies: the limits
  that follow from the documents now stored (the first valid pair of school and asset, school,
  system and asset, system, else the environment's), unless a read fails and the documents have not
  been read within the lifetime of an entry and since their last change; then the limits are those
  of the environment. No school may be called \<^verbatim>\<open>__global__\<close>, the key the cache uses for no school.\<close>

theorem limits_refine:
  assumes "\<And>k. lcache st k = None" and "list_all named_school reqs"
  shows "snd (trace (limits_step env ttl) reqs st) = snd (trace (store_step env ttl) reqs (limits_store_of st))"
proof -
  from assms(1) have "coherent st" by (simp add: coherent_def)
  from limits_ref.trace_refines [OF this assms(2), of env ttl] show ?thesis by simp
qed

theorem limits_refine_witness:
  "let st = \<lparr>lcache = \<lambda>_. None, school_docs = [''s'' \<mapsto> NotDoc], system_doc = NotDoc\<rparr>;
       env = \<lparr>lim_min = Fin 1, lim_max = Fin 9, lim_source = ''env''\<rparr>;
       reqs = [Resolve True True 0 1 (Some ''s'') None,
               Set_school ''s'' (Doc \<lparr>doc_default = Some (Pair (LNum (Fin 2)) (LNum (Fin 3))), doc_assets = None\<rparr>),
               Resolve False True 2 3 (Some ''s'') None, Resolve True True 4 5 (Some ''s'') None,
               Resolve False False 6 7 (Some ''s'') None]
   in snd (trace (limits_step env 30000) reqs st) = snd (trace (store_step env 30000) reqs (limits_store_of st))"
  unfolding Let_def by (rule limits_refine) simp_all

text \<open>C29: Limits that apply are well formed. If the limits of the environment are a finite pair with a
  minimum that is not negative and a greater maximum, then so are the limits every lookup returns,
  whatever documents the database or the cache holds and whether or not the reads succeed.\<close>

theorem limits_well_formed:
  assumes "wf_limits env"
  shows "wf_limits (snd (resolveLimits env ttl schoolOk systemOk now later schoolId asset st))"
  using assms by (rule resolveLimits_wf)

theorem limits_well_formed_witness:
  "wf_limits (snd (resolveLimits \<lparr>lim_min = Fin (1/100), lim_max = Fin 100000, lim_source = ''env''\<rparr> 30000 True True 0 0
     (Some ''s'') None
     \<lparr>lcache = \<lambda>_. None, school_docs = [''s'' \<mapsto> Doc \<lparr>doc_default = Some (Pair (LNum PInf) LOther), doc_assets = None\<rparr>],
      system_doc = NotDoc\<rparr>))"
  by (rule limits_well_formed) (simp add: wf_limits_def)

lemma valid_amount_iff:
  assumes "decimal_laws L val" and "wf_limits env"
    and "\<And>a. amount = Fin a \<Longrightarrow> round64 a = a"
    and "resolveLimits env ttl schoolOk systemOk now later schoolId asset st = (st', bnds)"
    and "lim_min bnds = Fin lo" "lim_max bnds = Fin hi" "round64 lo = lo" "round64 hi = hi"
  shows "snd (validatePaymentAmount L env ttl schoolOk systemOk now later (LNum amount) schoolId asset st) = Amount_valid
    \<longleftrightarrow> (\<exists>a. amount = Fin a \<and> 0 < a \<and> lo \<le> a \<and> a \<le> hi)"
proof (cases amount)
  case (Fin a)
  have lohi: "0 \<le> lo" "0 \<le> hi"
    using resolveLimits_wf [OF assms(2), of ttl schoolOk systemOk now later schoolId asset st] assms(4-6)
    by (auto simp: wf_limits_def)
  have ra: "round64 a = a" using assms(3) Fin by simp
  have z: "dec_lte L (dec_new L (Fin a)) (dec_new L (Fin 0)) \<longleftrightarrow> a \<le> 0" by (rule lte_new_zero [OF assms(1)])
  have fin: "dec_is_finite L (dec_new L (Fin a))" by (simp add: not_finite_new [OF assms(1)])
  have cmp: "dec_lt L (dec_new L (Fin a)) (dec_new L (Fin lo)) \<longleftrightarrow> a < lo"
    "dec_gt L (dec_new L (Fin a)) (dec_new L (Fin hi)) \<longleftrightarrow> hi < a" if "0 < a"
    using cmp_new [OF assms(1) _ lohi(1) ra assms(7)] cmp_new [OF assms(1) _ lohi(2) ra assms(8)] that
    by (simp_all add: dec_lt_def dec_gt_def)
  show ?thesis
    using Fin fin z cmp assms(4-6)
    by (auto simp: validatePaymentAmount_def compareAgainstLimits_def finite_or_nan_def Let_def)
qed (use assms(1,4) not_finite_new [OF assms(1)] in
    \<open>auto simp: validatePaymentAmount_def compareAgainstLimits_def finite_or_nan_def Let_def\<close>)

text \<open>The check accepts exactly the amounts within the limits. With a decimal library that keeps its
  documented laws and limits that are well formed, a number is accepted if and only if it is
  positive and between the minimum and the maximum that apply to its school and asset; what is
  not a finite number is refused.\<close>

theorem amount_within_limits:
  assumes "decimal_laws L val" and "wf_limits env"
    and "\<And>a. amount = Fin a \<Longrightarrow> round64 a = a"
    and "resolveLimits env ttl schoolOk systemOk now later schoolId asset st = (st', bnds)"
    and "lim_min bnds = Fin lo" "lim_max bnds = Fin hi" "round64 lo = lo" "round64 hi = hi"
  shows "snd (validatePaymentAmount L env ttl schoolOk systemOk now later (LNum amount) schoolId asset st) = Amount_valid
    \<longleftrightarrow> (\<exists>a. amount = Fin a \<and> 0 < a \<and> lo \<le> a \<and> a \<le> hi)"
  using assms by (rule valid_amount_iff)

theorem amount_within_limits_witness:
  "let env = \<lparr>lim_min = Fin 1, lim_max = Fin 100, lim_source = ''env''\<rparr>;
       st = \<lparr>lcache = \<lambda>_. None, school_docs = \<lambda>_. None, system_doc = NotDoc\<rparr>
   in snd (validatePaymentAmount rat_lib env 30000 True True 0 0 (LNum (Fin 5)) None None st) = Amount_valid"
proof -
  let ?env = "\<lparr>lim_min = Fin 1, lim_max = Fin 100, lim_source = ''env''\<rparr>"
  let ?st = "\<lparr>lcache = \<lambda>_. None, school_docs = \<lambda>_. None, system_doc = NotDoc\<rparr>"
  have r: "resolveLimits ?env 30000 True True 0 0 None None ?st =
      (writeCache 30000 0 None (NotDoc, NotDoc) ?st, ?env)"
    by (simp add: resolveLimits_def readCache_def truthy_id_def school_doc_def pick_layers_def pick_limits_def Let_def)
  have i: "round64 1 = 1" "round64 100 = 100" "round64 5 = 5"
    using round64_int [of 1] round64_int [of 100] round64_int [of 5] by simp_all
  show ?thesis
    unfolding Let_def
    by (subst amount_within_limits [OF rat_lib_laws _ _ r, where lo = 1 and hi = 100])
      (simp_all add: wf_limits_def i)
qed

end
