(* ===== verification/Payment_Verification.thy ===== *)
theory Payment_Verification
  imports Stellar_Memo Payment_Limits
begin

section \<open>Verification of a payment on the Stellar network\<close>

text \<open>
  Models \<^verbatim>\<open>backend/src/services/stellarService.js\<close> (which operations of a transaction are
  credited, their amounts, the validation of a transaction against a school's wallet, the fee
  comparison and the fraud signals) and the asset and submission checks of
  \<^verbatim>\<open>backend/src/config/stellarConfig.js\<close>. A Horizon record is a record of optional fields, a field
  that is absent being \<open>None\<close>. What a call to Horizon returns is an argument, after the retries that
  \<open>Stellar_Retry\<close> models; so are the two functions of libraries: the amount printer of the Stellar
  SDK and the decimal library of the limits.
\<close>

subsection \<open>Printing whole numbers\<close>

text \<open>
  \<^verbatim>\<open>String(n)\<close> of a whole number prints the fewest significant digits that read back as the same
  number, then zeros; from \<open>10^21\<close> on, in exponent notation.
\<close>

definition shortest_candidate :: "nat \<Rightarrow> nat \<Rightarrow> nat option" where
  "shortest_candidate v k =
     (let u = 10 ^ (length (to_digits 10 v) - k); lo = v div u * u; hi = lo + u;
          ok = (\<lambda>m. round64 (of_nat m) = of_nat v)
      in if ok lo \<and> (v - lo \<le> hi - v \<or> \<not> ok hi) then Some lo else if ok hi then Some hi else None)"

fun first_some :: "('a \<Rightarrow> 'b option) \<Rightarrow> 'a list \<Rightarrow> 'b option" where
  "first_some f [] = None"
| "first_some f (x # xs) = (case f x of Some y \<Rightarrow> Some y | None \<Rightarrow> first_some f xs)"

definition shortest_whole :: "nat \<Rightarrow> nat" where
  "shortest_whole v = (case first_some (shortest_candidate v) [1..<18] of Some m \<Rightarrow> m | None \<Rightarrow> v)"

definition whole_text :: "nat \<Rightarrow> string" where
  "whole_text v =
     (let s = nat_to_string 10 (shortest_whole v) in
      if v < 10 ^ 21 then s
      else let d = rev (dropWhile (\<lambda>c. c = CHR ''0'') (rev s))
           in (if length d = 1 then d else take 1 d @ ''.'' @ drop 1 d)
              @ ''e+'' @ nat_to_string 10 (length s - 1))"

fun whole_number_text :: "jsnum \<Rightarrow> string" where
  "whole_number_text NaN = ''NaN''"
| "whole_number_text PInf = ''Infinity''"
| "whole_number_text NInf = ''-Infinity''"
| "whole_number_text (Fin x) =
     (if x < 0 then ''-'' @ whole_text (nat \<lfloor>- x\<rfloor>) else whole_text (nat \<lfloor>x\<rfloor>))"

fun Math_round :: "jsnum \<Rightarrow> jsnum" where
  "Math_round (Fin x) = Fin (of_int \<lfloor>x + 1 / 2\<rfloor>)"
| "Math_round x = x"

subsection \<open>Records of Horizon\<close>

record horizon_op =
  op_type :: string
  op_to :: "string option"
  op_from :: "string option"
  op_amount :: "string option"
  op_asset_type :: "string option"
  op_asset_code :: "string option"
  op_asset_issuer :: "string option"
  op_destination_amount :: "string option"
  op_destination_asset_type :: "string option"
  op_destination_asset_code :: "string option"
  op_destination_asset_issuer :: "string option"

text \<open>
  A transaction. \<open>tx_operations\<close> is the page of operations and \<open>tx_next\<close> the pages that follow it,
  each with what its request returned. \<open>tx_inner\<close> is the hash of the inner transaction of a fee
  bump.
\<close>

record 'e horizon_tx =
  tx_hash :: string
  tx_successful :: "bool option"
  tx_inner :: "string option"
  tx_memo_type :: "string option"
  tx_memo :: "string option"
  tx_operations :: "('e, horizon_op list) result"
  tx_next :: "('e, horizon_op list) result list"
  tx_fee_paid :: "string option"
  tx_created_at :: string
  tx_ledger_attr :: "int option"
  tx_ledger :: "int option"

subsection \<open>Accepted assets\<close>

record asset_config =
  ac_code :: string
  ac_type :: string
  ac_issuer :: "string option"

definition ALL_ASSETS :: "string option \<Rightarrow> asset_config list" where
  "ALL_ASSETS usdcIssuer =
     [\<lparr>ac_code = ''XLM'', ac_type = ''native'', ac_issuer = None\<rparr>,
      \<lparr>ac_code = ''USDC'', ac_type = ''credit_alphanum4'', ac_issuer = usdcIssuer\<rparr>]"

text \<open>The one asset of the configuration; with another name the process does not start.\<close>

definition configuredAsset :: "string option \<Rightarrow> string \<Rightarrow> asset_config option" where
  "configuredAsset usdcIssuer acceptedAsset = find (\<lambda>a. ac_code a = acceptedAsset) (ALL_ASSETS usdcIssuer)"

datatype asset_reason = Unsupported_code | Type_mismatch | Unexpected_issuer | Issuer_not_configured | Issuer_mismatch

definition truthy_str :: "string option \<Rightarrow> bool" where
  "truthy_str s \<longleftrightarrow> s \<noteq> None \<and> s \<noteq> Some []"

definition isAcceptedAsset ::
  "asset_config \<Rightarrow> string option \<Rightarrow> string option \<Rightarrow> string option \<Rightarrow> (asset_reason, asset_config) result" where
  "isAcceptedAsset conf assetCode assetType assetIssuer =
     (if assetCode \<noteq> Some (ac_code conf) then Inl Unsupported_code
      else if assetType \<noteq> Some (ac_type conf) then Inl Type_mismatch
      else if ac_type conf = ''native'' then
        (if truthy_str assetIssuer then Inl Unexpected_issuer else Inr conf)
      else if \<not> truthy_str (ac_issuer conf) then Inl Issuer_not_configured
      else if assetIssuer \<noteq> ac_issuer conf then Inl Issuer_mismatch
      else Inr conf)"

text \<open>
  The outcome of a failed submission: the status of Horizon's reply, its transaction result code and
  detail text, and the message of the error.
\<close>

record submit_error =
  se_status :: "int option"
  se_tx_code :: "string option"
  se_detail :: "string option"
  se_message :: "string option"

record submit_class =
  definitive :: bool
  resultCode :: "string option"
  sc_reason :: string

definition classifySubmitError :: "submit_error \<Rightarrow> submit_class" where
  "classifySubmitError err =
     (if se_status err = Some 400 \<and> truthy_str (se_tx_code err) then
        \<lparr>definitive = True, resultCode = se_tx_code err, sc_reason = the (se_tx_code err)\<rparr>
      else
        \<lparr>definitive = False,
         resultCode = (if truthy_str (se_tx_code err) then se_tx_code err else None),
         sc_reason = (if truthy_str (se_detail err) then the (se_detail err)
                      else if truthy_str (se_message err) then the (se_message err)
                      else ''ambiguous_horizon_outcome'')\<rparr>)"

subsection \<open>What an operation delivers\<close>

definition CREDITABLE_OP_TYPES :: "string list" where
  "CREDITABLE_OP_TYPES = [''payment'', ''path_payment_strict_receive'', ''path_payment_strict_send'']"

definition isCreditableOpType :: "string \<Rightarrow> bool" where
  "isCreditableOpType t \<longleftrightarrow> t \<in> set CREDITABLE_OP_TYPES"

definition isPathPayment :: "horizon_op \<Rightarrow> bool" where
  "isPathPayment oper \<longleftrightarrow>
     op_type oper = ''path_payment_strict_send'' \<or> op_type oper = ''path_payment_strict_receive''"

record op_asset =
  oa_type :: "string option"
  oa_code :: "string option"
  oa_issuer :: "string option"

definition resolveDeliveredAsset :: "horizon_op \<Rightarrow> op_asset" where
  "resolveDeliveredAsset oper =
     (if isPathPayment oper then
        (let ty = op_destination_asset_type oper in
         \<lparr>oa_type = ty,
          oa_code = (if ty = Some ''native'' then Some ''XLM'' else op_destination_asset_code oper),
          oa_issuer = (if ty = Some ''native'' then None else op_destination_asset_issuer oper)\<rparr>)
      else
        (let ty = op_asset_type oper in
         \<lparr>oa_type = ty,
          oa_code = (if ty = Some ''native'' then Some ''XLM'' else op_asset_code oper),
          oa_issuer = (if ty = Some ''native'' then None else op_asset_issuer oper)\<rparr>))"

definition resolveCreditedAmount :: "horizon_op \<Rightarrow> string option" where
  "resolveCreditedAmount oper = (if isPathPayment oper then op_destination_amount oper else op_amount oper)"

definition detectAsset :: "asset_config \<Rightarrow> horizon_op \<Rightarrow> op_asset option" where
  "detectAsset conf payOp =
     (let a = resolveDeliveredAsset payOp in
      case isAcceptedAsset conf (oa_code a) (oa_type a) (oa_issuer a) of
        Inl _ \<Rightarrow> None
      | Inr _ \<Rightarrow> Some a)"

text \<open>\<^verbatim>\<open>parseFloat(undefined)\<close> reads the text \<^verbatim>\<open>undefined\<close>, which is no number.\<close>

definition normalizeAmount :: "(string \<Rightarrow> string) \<Rightarrow> string option \<Rightarrow> jsnum" where
  "normalizeAmount fromXDRAmount rawAmount =
     (let raw = (case rawAmount of Some s \<Rightarrow> s | None \<Rightarrow> ''undefined'');
          stroops = whole_number_text (Math_round (jmul (parseFloat raw) (Fin (10 ^ 7))))
      in parseFloat (fromXDRAmount stroops))"

subsection \<open>Reading the operations page by page\<close>

fun fetch_loop :: "horizon_op list \<Rightarrow> horizon_op list \<Rightarrow> ('e, horizon_op list) result list \<Rightarrow> ('e, horizon_op list) result" where
  "fetch_loop records page [] = Inr records"
| "fetch_loop records page (reply # later) =
     (if page = [] then Inr records
      else (case reply of
              Inl e \<Rightarrow> Inl e
            | Inr page' \<Rightarrow> if page' = [] then Inr records else fetch_loop (records @ page') page' later))"

definition fetchAllOperations :: "'e horizon_tx \<Rightarrow> ('e, horizon_op list) result" where
  "fetchAllOperations tx =
     (case tx_operations tx of
        Inl e \<Rightarrow> Inl e
      | Inr page \<Rightarrow> fetch_loop page page (tx_next tx))"

subsection \<open>Extraction of the creditable operations\<close>

record credited_op =
  payOp :: horizon_op
  opIndex :: nat
  co_amount :: jsnum
  co_asset :: op_asset

record extracted =
  ex_operations :: "credited_op list"
  ex_memo :: string
  ex_memoType :: string
  ex_innerHash :: "string option"

text \<open>The operations that target the wallet, with their positions.\<close>

definition targeting :: "string option \<Rightarrow> horizon_op list \<Rightarrow> (nat \<times> horizon_op) list" where
  "targeting walletAddress ops =
     filter (\<lambda>(i, oper). isCreditableOpType (op_type oper) \<and> op_to oper = walletAddress) (enumerate 0 ops)"

definition credit_op :: "asset_config \<Rightarrow> (string \<Rightarrow> string) \<Rightarrow> nat \<times> horizon_op \<Rightarrow> credited_op option" where
  "credit_op conf fromXDR = (\<lambda>(i, oper).
     case detectAsset conf oper of
       None \<Rightarrow> None
     | Some a \<Rightarrow> Some \<lparr>payOp = oper, opIndex = i,
                        co_amount = normalizeAmount fromXDR (resolveCreditedAmount oper), co_asset = a\<rparr>)"

text \<open>\<^verbatim>\<open>tx.memo_type || 'none'\<close>.\<close>

definition memo_type_of :: "'e horizon_tx \<Rightarrow> string" where
  "memo_type_of tx = (if truthy_str (tx_memo_type tx) then the (tx_memo_type tx) else ''none'')"

definition extractValidPayment ::
  "asset_config \<Rightarrow> (string \<Rightarrow> string) \<Rightarrow> 'e horizon_tx \<Rightarrow> string option \<Rightarrow> ('e, extracted option) result" where
  "extractValidPayment conf fromXDR tx walletAddress =
     (if tx_successful tx \<noteq> Some True then Inr None
      else
        let memoType = memo_type_of tx in
        if memoType = ''none'' then Inr None
        else if normalizeMemoType (Some memoType) = None then Inr None
        else
          let memo = decodeMemoToCanonical (tx_memo tx) (Some memoType) in
          if \<not> truthy_str memo then Inr None
          else (case fetchAllOperations tx of
                  Inl e \<Rightarrow> Inl e
                | Inr ops \<Rightarrow>
                    let creditable = List.map_filter (credit_op conf fromXDR) (targeting walletAddress ops)
                    in if creditable = [] then Inr None
                       else Inr (Some \<lparr>ex_operations = creditable, ex_memo = the memo,
                                       ex_memoType = memoType, ex_innerHash = tx_inner tx\<rparr>)))"

subsection \<open>Comparison with the fee\<close>

datatype fee_check_status = Underpaid | Overpaid | Valid_fee | Unknown_fee

datatype fee_message = Less_than_fee jsnum jsnum | Exceeds_fee jsnum jsnum jsnum | Matches_fee | Student_not_found

record fee_validation =
  fv_status :: fee_check_status
  fv_excessAmount :: jsnum
  fv_message :: fee_message

definition validatePaymentAgainstFee :: "jsnum \<Rightarrow> jsnum \<Rightarrow> (amount_error, fee_validation) result" where
  "validatePaymentAgainstFee paymentAmount expectedFee =
     (case toStroops (ANum paymentAmount) of
        Inl e \<Rightarrow> Inl e
      | Inr paidStroops \<Rightarrow>
          (case toStroops (ANum expectedFee) of
             Inl e \<Rightarrow> Inl e
           | Inr feeStroops \<Rightarrow>
               if paidStroops < feeStroops then
                 Inr \<lparr>fv_status = Underpaid, fv_excessAmount = Fin 0,
                      fv_message = Less_than_fee paymentAmount expectedFee\<rparr>
               else if feeStroops < paidStroops then
                 (case stroopsToNumber (ABig (paidStroops - feeStroops)) of
                    Inl e \<Rightarrow> Inl e
                  | Inr excess \<Rightarrow>
                      Inr \<lparr>fv_status = Overpaid, fv_excessAmount = excess,
                           fv_message = Exceeds_fee paymentAmount expectedFee excess\<rparr>)
               else Inr \<lparr>fv_status = Valid_fee, fv_excessAmount = Fin 0, fv_message = Matches_fee\<rparr>))"

subsection \<open>Verification of one transaction\<close>

datatype 'e verify_error =
    Horizon_error 'e | TX_FAILED | INVALID_DESTINATION | UNSUPPORTED_ASSET "string option" | MISSING_MEMO
  | UNSUPPORTED_MEMO_TYPE string | Limit_error verdict | TENANT_SCOPE_MISSING | Amount_error amount_error

text \<open>
  What is collected of an operation. The result lists the operations with the code and the type of their asset; the
  model keeps the whole asset, issuer included, so that properties can speak of it.
\<close>

record verified_op =
  vo_opIndex :: nat
  vo_amount :: jsnum
  vo_asset :: op_asset
  vo_senderAddress :: "string option"

record verified_tx =
  v_hash :: string
  v_innerHash :: "string option"
  v_memo :: string
  v_studentId :: string
  v_amount :: jsnum
  v_assetCode :: "string option"
  v_assetType :: "string option"
  v_feeAmount :: "jsnum option"
  v_feeValidation :: fee_validation
  v_networkFee :: jsnum
  v_date :: string
  v_ledger :: "int option"
  v_senderAddress :: "string option"
  v_operations :: "verified_op list"

definition truthy_or_none :: "string option \<Rightarrow> string option" where
  "truthy_or_none s = (if truthy_str s then s else None)"

fun collect_operations ::
  "asset_config \<Rightarrow> (string \<Rightarrow> string) \<Rightarrow> (nat \<times> horizon_op) list \<Rightarrow> ('e verify_error, verified_op list) result" where
  "collect_operations conf fromXDR [] = Inr []"
| "collect_operations conf fromXDR ((i, oper) # ops) =
     (case detectAsset conf oper of
        None \<Rightarrow>
          (let a = resolveDeliveredAsset oper
           in Inl (UNSUPPORTED_ASSET (if oa_type a = Some ''native'' then Some ''XLM''
                                      else if truthy_str (oa_code a) then oa_code a else oa_type a)))
      | Some a \<Rightarrow>
          map_sum id (\<lambda>rest. \<lparr>vo_opIndex = i, vo_amount = normalizeAmount fromXDR (resolveCreditedAmount oper),
                              vo_asset = a, vo_senderAddress = truthy_or_none (op_from oper)\<rparr> # rest)
            (collect_operations conf fromXDR ops))"

definition verify_memo :: "'e horizon_tx \<Rightarrow> ('e verify_error, string) result" where
  "verify_memo tx =
     (let memoType = memo_type_of tx in
      if memoType = ''none'' then Inl MISSING_MEMO
      else if normalizeMemoType (Some memoType) = None then Inl (UNSUPPORTED_MEMO_TYPE memoType)
      else
        let memo = decodeMemoToCanonical (tx_memo tx) (Some memoType) in
        if \<not> truthy_str memo then
          (if normalizeMemoType (Some memoType) \<noteq> Some ''MEMO_TEXT'' then Inl (UNSUPPORTED_MEMO_TYPE memoType)
           else Inl MISSING_MEMO)
        else Inr (the memo))"

text \<open>\<^verbatim>\<open>parseFloat(sum.toFixed(7))\<close>; a text in exponent notation reads back as the number itself.\<close>

definition total_amount :: "verified_op list \<Rightarrow> jsnum" where
  "total_amount ops =
     (let s = foldl (\<lambda>acc oper. jadd acc (vo_amount oper)) (Fin 0) ops
      in case toFixed 7 s of Some t \<Rightarrow> parseFloat t | None \<Rightarrow> s)"

text \<open>
  The limits in force: the decimal library, the limits of the environment and the lifetime of the
  cache, and for each check whether the two database reads succeed and the clock before and after.
\<close>

record 'd limits_env =
  le_dec :: "'d decimal_lib"
  le_env :: limits
  le_ttl :: millis
  le_reads :: "nat \<Rightarrow> bool \<times> bool \<times> millis \<times> millis"

fun check_limits ::
  "'d limits_env \<Rightarrow> string option \<Rightarrow> nat \<Rightarrow> verified_op list \<Rightarrow> limits_state \<Rightarrow> limits_state \<times> verdict" where
  "check_limits E schoolId k [] st = (st, Amount_valid)"
| "check_limits E schoolId k (oper # ops) st =
     (case le_reads E k of (schoolOk, systemOk, now, later) \<Rightarrow>
        case validatePaymentAmount (le_dec E) (le_env E) (le_ttl E) schoolOk systemOk now later
               (LNum (vo_amount oper)) schoolId (oa_code (vo_asset oper)) st of
          (st', v) \<Rightarrow> if v = Amount_valid then check_limits E schoolId (Suc k) ops st' else (st', v))"

text \<open>
  A student document that queries see: its school, its identifier and its fee. A query on this model
  without a school is refused by the tenant plugin.
\<close>

type_synonym student_row = "string \<times> string \<times> jsnum option"

definition find_student :: "student_row list \<Rightarrow> string option \<Rightarrow> string \<Rightarrow> ('e verify_error, student_row option) result" where
  "find_student db schoolId memo =
     (if truthy_str schoolId then Inr (find (\<lambda>(s, i, fee). Some s = schoolId \<and> i = memo) db)
      else Inl TENANT_SCOPE_MISSING)"

definition fee_check :: "jsnum \<Rightarrow> jsnum option \<Rightarrow> ('e verify_error, fee_validation) result" where
  "fee_check amount feeAmount =
     (case feeAmount of
        Some fee \<Rightarrow> map_sum Amount_error id (validatePaymentAgainstFee amount fee)
      | None \<Rightarrow> Inr \<lparr>fv_status = Unknown_fee, fv_excessAmount = Fin 0, fv_message = Student_not_found\<rparr>)"

definition nonzero_or_none :: "int option \<Rightarrow> int option" where
  "nonzero_or_none n = (if n = Some 0 then None else n)"

definition verified_of ::
  "'e horizon_tx \<Rightarrow> string \<Rightarrow> verified_op list \<Rightarrow> jsnum option \<Rightarrow> fee_validation \<Rightarrow> verified_tx" where
  "verified_of tx memo ops feeAmount fv =
     \<lparr>v_hash = tx_hash tx, v_innerHash = tx_inner tx, v_memo = memo, v_studentId = memo,
      v_amount = total_amount ops,
      v_assetCode = oa_code (vo_asset (hd ops)), v_assetType = oa_type (vo_asset (hd ops)),
      v_feeAmount = feeAmount, v_feeValidation = fv,
      v_networkFee = jdiv (parseFloat (if truthy_str (tx_fee_paid tx) then the (tx_fee_paid tx) else ''0'')) (Fin (10 ^ 7)),
      v_date = tx_created_at tx,
      v_ledger = (if nonzero_or_none (tx_ledger_attr tx) \<noteq> None then tx_ledger_attr tx else nonzero_or_none (tx_ledger tx)),
      v_senderAddress = vo_senderAddress (hd ops), v_operations = ops\<rparr>"

text \<open>The work after the transaction is read, on the state of the limits' cache.\<close>

definition verify_found ::
  "asset_config \<Rightarrow> (string \<Rightarrow> string) \<Rightarrow> 'd limits_env \<Rightarrow> student_row list \<Rightarrow> 'e horizon_tx \<Rightarrow> string option \<Rightarrow> string option
     \<Rightarrow> limits_state \<Rightarrow> limits_state \<times> ('e verify_error, verified_tx) result" where
  "verify_found conf fromXDR E db tx walletAddress schoolId st =
     (if tx_successful tx = Some False then (st, Inl TX_FAILED)
      else (case fetchAllOperations tx of
        Inl e \<Rightarrow> (st, Inl (Horizon_error e))
      | Inr all_ops \<Rightarrow>
         (let creditable = targeting walletAddress all_ops in
          if creditable = [] then (st, Inl INVALID_DESTINATION)
          else (case collect_operations conf fromXDR creditable of
            Inl e \<Rightarrow> (st, Inl e)
          | Inr ops \<Rightarrow> (case verify_memo tx of
              Inl e \<Rightarrow> (st, Inl e)
            | Inr memo \<Rightarrow> (case check_limits E schoolId 0 ops st of (st', v) \<Rightarrow>
                if v \<noteq> Amount_valid then (st', Inl (Limit_error v))
                else (case find_student db schoolId memo of
                  Inl e \<Rightarrow> (st', Inl e)
                | Inr student \<Rightarrow>
                   (let feeAmount = (case student of Some (_, _, fee) \<Rightarrow> fee | None \<Rightarrow> None) in
                    case fee_check (total_amount ops) feeAmount of
                      Inl e \<Rightarrow> (st', Inl e)
                    | Inr fv \<Rightarrow> (st', Inr (verified_of tx memo ops feeAmount fv))))))))))"

definition verifyTransaction ::
  "asset_config \<Rightarrow> (string \<Rightarrow> string) \<Rightarrow> 'd limits_env \<Rightarrow> student_row list \<Rightarrow> ('e, 'e horizon_tx) result \<Rightarrow> string option
     \<Rightarrow> string option \<Rightarrow> limits_state \<Rightarrow> limits_state \<times> ('e verify_error, verified_tx) result" where
  "verifyTransaction conf fromXDR E db reply walletAddress schoolId st =
     (case reply of
        Inl e \<Rightarrow> (st, Inl (Horizon_error e))
      | Inr tx \<Rightarrow> verify_found conf fromXDR E db tx walletAddress schoolId st)"

subsection \<open>Confirmations\<close>

definition checkConfirmationStatus :: "int \<Rightarrow> ('e, int) result \<Rightarrow> int \<Rightarrow> ('e, bool) result" where
  "checkConfirmationStatus threshold latestSequence txLedger =
     map_sum id (\<lambda>latest. threshold \<le> latest - txLedger) latestSequence"

subsection \<open>Fraud signals\<close>

text \<open>A payment document as the fraud queries see it; a payment that is not confirmed has no time.\<close>

record signal_row =
  sr_schoolId :: string
  sr_memo :: "string option"
  sr_studentId :: string
  sr_senderAddress :: "string option"
  sr_confirmedAt :: "millis option"
  sr_deleted :: bool
  sr_isSuspicious :: bool
  sr_amount :: jsnum

definition confirmed_since :: "millis \<Rightarrow> signal_row \<Rightarrow> bool" where
  "confirmed_since start r \<longleftrightarrow> (case sr_confirmedAt r of None \<Rightarrow> False | Some t \<Rightarrow> start \<le> t)"

definition COLLISION_WINDOW_MS :: millis where
  "COLLISION_WINDOW_MS = 24 * 60 * 60 * 1000"

datatype collision = No_collision | Used_by_sender string string | Used_at_school string string

definition detectMemoCollision ::
  "signal_row list \<Rightarrow> string \<Rightarrow> string option \<Rightarrow> millis \<Rightarrow> string \<Rightarrow> collision" where
  "detectMemoCollision rows memo senderAddress txDate schoolId =
     (let windowStart = txDate - COLLISION_WINDOW_MS in
      case find (\<lambda>r. sr_schoolId r = schoolId \<and> sr_memo r = Some memo
                   \<and> sr_senderAddress r \<noteq> senderAddress \<and> sr_senderAddress r \<noteq> None
                   \<and> confirmed_since windowStart r \<and> \<not> sr_deleted r) rows of
        None \<Rightarrow> No_collision
      | Some r \<Rightarrow> Used_by_sender memo (the (sr_senderAddress r)))"

definition detectCrossSchoolMemoCollision :: "signal_row list \<Rightarrow> string \<Rightarrow> string \<Rightarrow> millis \<Rightarrow> collision" where
  "detectCrossSchoolMemoCollision rows memo schoolId txDate =
     (let windowStart = txDate - COLLISION_WINDOW_MS in
      case find (\<lambda>r. sr_schoolId r \<noteq> schoolId \<and> sr_studentId r = memo
                   \<and> confirmed_since windowStart r \<and> \<not> sr_deleted r) rows of
        None \<Rightarrow> No_collision
      | Some r \<Rightarrow> Used_at_school memo (sr_schoolId r))"

text \<open>
  The statistics of the database's aggregation (count, mean and standard deviation of a list of
  amounts) are an argument; the rows it aggregates are not.
\<close>

type_synonym stats = "nat \<times> jsnum \<times> jsnum"

definition or_num :: "jsnum option \<Rightarrow> jsnum \<Rightarrow> jsnum" where
  "or_num x d = (case x of Some n \<Rightarrow> if truthy_num n then n else d | None \<Rightarrow> d)"

definition computeHistoricalAmountStats ::
  "(jsnum list \<Rightarrow> nat \<times> jsnum option \<times> jsnum option) \<Rightarrow> millis \<Rightarrow> signal_row list \<Rightarrow> string \<Rightarrow> int \<Rightarrow> stats" where
  "computeHistoricalAmountStats aggregate now rows schoolId windowDays =
     (let windowStart = now - windowDays * 24 * 60 * 60 * 1000;
          matched = filter (\<lambda>r. sr_schoolId r = schoolId \<and> \<not> sr_isSuspicious r \<and> \<not> sr_deleted r
                              \<and> confirmed_since windowStart r \<and> jless (Fin 0) (sr_amount r)) rows
      in if matched = [] then (0, Fin 0, Fin 0)
         else (case aggregate (map sr_amount matched) of
                 (n, mean, std) \<Rightarrow> (n, or_num mean (Fin 0), or_num std (Fin 0))))"

record amount_config =
  ac_mode :: string
  ac_historicalWindowDays :: "int option"
  ac_historicalStdDevMultiplier :: "jsnum option"
  ac_historicalMinSamples :: "nat option"

datatype pattern =
    Rapid_transactions string nat
  | Unusual_by_history jsnum jsnum jsnum nat
  | Unusual_by_fee jsnum jsnum

definition RAPID_TX_WINDOW_MS :: millis where
  "RAPID_TX_WINDOW_MS = 10 * 60 * 1000"

definition RAPID_TX_LIMIT :: nat where
  "RAPID_TX_LIMIT = 3"

definition velocity_reasons :: "signal_row list \<Rightarrow> string option \<Rightarrow> millis \<Rightarrow> string \<Rightarrow> pattern list" where
  "velocity_reasons rows senderAddress txDate schoolId =
     (if \<not> truthy_str senderAddress then []
      else let windowStart = txDate - RAPID_TX_WINDOW_MS;
               recentCount = length (filter (\<lambda>r. sr_schoolId r = schoolId \<and> sr_senderAddress r = senderAddress
                                                \<and> confirmed_since windowStart r \<and> \<not> sr_deleted r) rows)
           in if RAPID_TX_LIMIT \<le> recentCount then [Rapid_transactions (the senderAddress) (recentCount + 1)] else [])"

fun jabs :: "jsnum \<Rightarrow> jsnum" where
  "jabs (Fin x) = Fin \<bar>x\<bar>"
| "jabs NInf = PInf"
| "jabs x = x"

text \<open>
  The historical check: \<open>None\<close> when it does not apply. \<open>stats\<close> is the outcome of the query for the
  window in days, \<open>None\<close> when the query throws.
\<close>

definition historical_reasons ::
  "(int \<Rightarrow> stats option) \<Rightarrow> amount_config option \<Rightarrow> string \<Rightarrow> jsnum \<Rightarrow> pattern list option" where
  "historical_reasons query amountConfig schoolId paymentAmount =
     (case amountConfig of
        None \<Rightarrow> None
      | Some conf \<Rightarrow>
          if ac_mode conf \<noteq> ''historical'' \<or> schoolId = [] then None
          else
            let windowDays = (case ac_historicalWindowDays conf of Some d \<Rightarrow> if d \<noteq> 0 then d else 90 | None \<Rightarrow> 90);
                stdMultiplier = or_num (ac_historicalStdDevMultiplier conf) (Fin 3);
                minSamples = (case ac_historicalMinSamples conf of Some n \<Rightarrow> if n \<noteq> 0 then n else 20 | None \<Rightarrow> 20)
            in (case query windowDays of
                  None \<Rightarrow> None
                | Some (n, mean, std) \<Rightarrow>
                    if minSamples \<le> n \<and> jless (Fin 0) std then
                      (let zScore = jdiv (jabs (jsub paymentAmount mean)) std
                       in Some (if jleq stdMultiplier zScore then [Unusual_by_history zScore mean stdMultiplier n] else []))
                    else None))"

definition fee_reasons :: "jsnum \<Rightarrow> jsnum option \<Rightarrow> jsnum \<Rightarrow> pattern list" where
  "fee_reasons paymentAmount expectedFee multiplier =
     (case expectedFee of
        None \<Rightarrow> []
      | Some fee \<Rightarrow>
          if jless (Fin 0) fee then
            (let ratio = jdiv paymentAmount fee;
                 lowerThreshold = jdiv (Fin 1) multiplier;
                 lowerBoundExclusive = jless (jabs (jsub multiplier (Fin 5))) (to_num (1 / 100))
             in if jleq multiplier ratio
                   \<or> (if lowerBoundExclusive then jless ratio lowerThreshold else jleq ratio lowerThreshold)
                then [Unusual_by_fee ratio multiplier] else [])
          else [])"

definition detectAbnormalPatterns ::
  "signal_row list \<Rightarrow> (int \<Rightarrow> stats option) \<Rightarrow> string option \<Rightarrow> jsnum \<Rightarrow> jsnum option \<Rightarrow> millis \<Rightarrow> string \<Rightarrow> jsnum
     \<Rightarrow> amount_config option \<Rightarrow> pattern list" where
  "detectAbnormalPatterns rows query senderAddress paymentAmount expectedFee txDate schoolId multiplier amountConfig =
     velocity_reasons rows senderAddress txDate schoolId
     @ (case historical_reasons query amountConfig schoolId paymentAmount of
          Some reasons \<Rightarrow> reasons
        | None \<Rightarrow> fee_reasons paymentAmount expectedFee multiplier)"

subsection \<open>Printing and rounding are exact below \<open>2^53\<close>\<close>

lemma first_some_D: "first_some f xs = Some y \<Longrightarrow> \<exists>x\<in>set xs. f x = Some y"
  by (induction xs) (auto split: option.splits)

lemma round64_nat_inj:
  assumes "v < 2 ^ 53" and "round64 (of_nat m) = of_nat v"
  shows "m = v"
proof (cases "m \<le> 2 ^ 53")
  case True
  then have "round64 (of_int (int m)) = of_int (int m)" by (intro round64_int) simp
  with assms(2) show ?thesis by simp
next
  case False
  have "of_int (2 ^ 53) \<le> round64 (of_nat m)"
  proof (rule round64_ge_int)
    have "of_nat (2 ^ 53) \<le> (of_nat m :: rat)" using False by (simp only: of_nat_le_iff)
    then show "of_int (2 ^ 53) \<le> (of_nat m :: rat)" by simp
  qed simp_all
  with assms(2) have "of_nat (2 ^ 53) \<le> (of_nat v :: rat)" by simp
  then have "2 ^ 53 \<le> v" by (simp only: of_nat_le_iff)
  with assms(1) show ?thesis by simp
qed

lemma shortest_whole_exact: "v < 2 ^ 53 \<Longrightarrow> shortest_whole v = v"
  using round64_nat_inj [of v]
  by (auto simp: shortest_whole_def shortest_candidate_def Let_def split: option.splits if_splits
      dest!: first_some_D)

lemma whole_number_text_exact: "0 \<le> b \<Longrightarrow> b < 2 ^ 53 \<Longrightarrow> whole_number_text (IntN b) = int_to_string b"
proof -
  assume b: "0 \<le> b" "b < 2 ^ 53"
  then have "nat b < 2 ^ 53" by (simp add: nat_less_iff)
  moreover have "nat b < 10 ^ 21" using b by (simp add: nat_less_iff)
  ultimately show ?thesis using b by (simp add: whole_text_def shortest_whole_exact int_to_string_nonneg)
qed

text \<open>The relative error of one rounding, away from the subnormal numbers.\<close>

lemma round64_rel_error:
  assumes "pow2 (- 1022) \<le> \<bar>x\<bar>"
  shows "\<bar>round64 x - x\<bar> \<le> \<bar>x\<bar> / 2 ^ 53"
proof -
  have pos: "0 < \<bar>x\<bar>" using assms pow2_pos [of "- 1022"] by linarith
  note b = ilog2_bounds [OF pos]
  have "pow2 (- 1022) < pow2 (ilog2 \<bar>x\<bar> + 1)" using assms b(2) by linarith
  then have "- 1022 < ilog2 \<bar>x\<bar> + 1" by (simp only: pow2_less_iff)
  then have u: "ulp_exp x = ilog2 \<bar>x\<bar> - 52" by (simp add: ulp_exp_def)
  have "pow2 (ilog2 \<bar>x\<bar>) = pow2 (ilog2 \<bar>x\<bar> - 52) * 2 ^ 52"
    using pow2_add [of "ilog2 \<bar>x\<bar> - 52" 52] by (simp add: pow2_def)
  then have "pow2 (ulp_exp x) / 2 \<le> \<bar>x\<bar> / 2 ^ 53" using b(1) u by simp
  with round64_error [of x] show ?thesis by linarith
qed

lemma normal_unit: "pow2 (- 1022) \<le> 1 / 10 ^ 7"
proof -
  have "pow2 (- 1022) \<le> pow2 (- 24)" by (rule pow2_mono) simp
  then show ?thesis by (simp add: pow2_def) 
qed

text \<open>
  What the Stellar SDK documents of its amount printer: an integer count of stroops is printed as
  units with seven decimals.
\<close>

definition xdr_law :: "(string \<Rightarrow> string) \<Rightarrow> bool" where
  "xdr_law fromXDR \<longleftrightarrow> (\<forall>b \<ge> 0. fromXDR (int_to_string b) = fromStroops_big b)"

lemma parseFloat_fromStroops: "parseFloat (fromStroops_big b) = money_num b"
  using stroopsToNumber_big [of b]
  by (simp add: stroopsToNumber_def fromStroops_def money_num_def units_def)

lemma money_num_finite: "\<bar>b\<bar> < 2 ^ 53 \<Longrightarrow> money_num b = Fin (round64 (units b))"
proof -
  assume "\<bar>b\<bar> < 2 ^ 53"
  then have "of_int \<bar>b\<bar> \<le> (of_int (2 ^ 53) :: rat)" by (simp only: of_int_le_iff)
  then have "\<bar>units b\<bar> \<le> 2 ^ 53" by (simp add: units_def)
  also have "(2 ^ 53 :: rat) \<le> 2 ^ 1000" by (rule power_increasing) simp_all
  finally show ?thesis by (simp add: money_num_def to_num_finite)
qed

lemma Math_round_near: "\<bar>x - of_int b\<bar> < 1 / 2 \<Longrightarrow> Math_round (Fin x) = IntN b"
  unfolding Math_round.simps jsnum.inject of_int_eq_iff floor_eq_iff abs_less_iff by linarith

lemma scaled_error:
  fixes b :: int
  assumes "1 \<le> b" "b < 2 ^ 51"
  shows "\<bar>round64 (round64 (units b) * 10 ^ 7) - of_int b\<bar> < 1 / 2"
    and "\<bar>round64 (units b) * 10 ^ 7\<bar> \<le> 2 ^ 1000"
proof -
  define B r z where "B = (of_int b :: rat)" and "r = round64 (units b)" and "z = r * 10 ^ 7"
  have B: "1 \<le> B" "B \<le> 2 ^ 51 - 1"
  proof -
    have "b \<le> 2 ^ 51 - 1" using assms(2) by simp
    then have "of_int b \<le> (of_int (2 ^ 51 - 1) :: rat)" by (simp only: of_int_le_iff)
    then show "B \<le> 2 ^ 51 - 1" by (simp add: B_def)
    show "1 \<le> B" using assms(1) by (simp add: B_def)
  qed
  have u: "units b = B / 10 ^ 7" by (simp add: units_def B_def)
  have "pow2 (- 1022) \<le> \<bar>units b\<bar>" using normal_unit B by (simp add: u)
  from round64_rel_error [OF this] have "\<bar>r - B / 10 ^ 7\<bar> \<le> B / 10 ^ 7 / 2 ^ 53" using B by (simp add: r_def u)
  then have z: "\<bar>z - B\<bar> \<le> B / 2 ^ 53" unfolding z_def abs_le_iff by (simp add: field_simps)
  have zpos: "B / 2 \<le> z" "z \<le> 2 * B" using z B by (simp_all add: abs_if split: if_splits)
  have "pow2 (- 1022) \<le> \<bar>z\<bar>" using normal_unit zpos B by simp
  from round64_rel_error [OF this] have "\<bar>round64 z - z\<bar> \<le> z / 2 ^ 53" using zpos B by simp
  then have "\<bar>round64 z - B\<bar> \<le> z / 2 ^ 53 + B / 2 ^ 53" using z by linarith
  also have "\<dots> < 1 / 2" using z B by (simp add: abs_if split: if_splits)
  finally show "\<bar>round64 (r * 10 ^ 7) - B\<bar> < 1 / 2" by (simp add: z_def)
  have "\<bar>z\<bar> \<le> 2 ^ 52" using zpos B by (simp add: abs_le_iff)
  also have "(2 ^ 52 :: rat) \<le> 2 ^ 1000" by (rule power_increasing) simp_all
  finally show "\<bar>r * 10 ^ 7\<bar> \<le> 2 ^ 1000" by (simp add: z_def)
qed

lemma normalizeAmount_exact:
  assumes "xdr_law fromXDR" "0 \<le> b" "b < 2 ^ 51"
  shows "normalizeAmount fromXDR (Some (fromStroops_big b)) = money_num b"
proof -
  have "Math_round (jmul (money_num b) (Fin (10 ^ 7))) = IntN b"
  proof (cases "b = 0")
    case True
    then show ?thesis using Math_round_near [of 0 0] by (simp add: to_num_def)
  next
    case False
    with assms have b: "1 \<le> b" "b < 2 ^ 51" by simp_all
    note e = scaled_error [OF b]
    have m: "money_num b = Fin (round64 (units b))" using b by (intro money_num_finite) simp
    show ?thesis unfolding m jmul.simps(1) to_num_finite [OF e(2)] by (rule Math_round_near [OF e(1)])
  qed
  moreover have "whole_number_text (IntN b) = int_to_string b" using assms by (intro whole_number_text_exact) simp_all
  moreover have "fromXDR (int_to_string b) = fromStroops_big b" using assms(1,2) by (simp add: xdr_law_def)
  ultimately show ?thesis by (simp only: normalizeAmount_def Let_def option.case parseFloat_fromStroops)
qed

subsection \<open>The sum of the credited amounts is exact\<close>

lemma round64_small: "\<bar>x\<bar> < 2 ^ 22 \<Longrightarrow> \<bar>round64 x - x\<bar> \<le> 1 / 2 ^ 32 \<and> to_num x = Fin (round64 x)"
proof -
  assume x: "\<bar>x\<bar> < 2 ^ 22"
  have "(2 ^ 22 :: rat) \<le> 2 ^ 1000" by (rule power_increasing) simp_all
  with x have f: "to_num x = Fin (round64 x)" by (intro to_num_finite) linarith
  show ?thesis
  proof (cases "x = 0")
    case False
    have "ulp_exp x \<le> - 31" using ulp_exp_le [of x 22] x False by (simp add: pow2_def)
    then have "pow2 (ulp_exp x) \<le> pow2 (- 31)" by (rule pow2_mono)
    then show ?thesis using round64_error [of x] f by (simp add: pow2_def)
  qed (use f in simp)
qed

lemma float_sum_step:
  assumes "0 \<le> p" "0 \<le> c" "p + c < 2 ^ 22 * 10 ^ 7" "k < 100" "\<bar>s - units p\<bar> \<le> of_nat (2 * k) / 2 ^ 32"
  shows "\<exists>s'. jadd (Fin s) (money_num c) = Fin s' \<and> \<bar>s' - units (p + c)\<bar> \<le> of_nat (2 * Suc k) / 2 ^ 32"
proof -
  have "p + c \<le> 2 ^ 22 * 10 ^ 7 - 1" "c \<le> 2 ^ 22 * 10 ^ 7 - 1" using assms(1-3) by simp_all
  then have "of_int (p + c) \<le> (of_int (2 ^ 22 * 10 ^ 7 - 1) :: rat)" "of_int c \<le> (of_int (2 ^ 22 * 10 ^ 7 - 1) :: rat)"
    by (simp_all only: of_int_le_iff)
  then have u: "units (p + c) \<le> 2 ^ 22 - 1 / 10 ^ 7" "units c < 2 ^ 22" by (simp_all add: units_def)
  have nn: "0 \<le> units c" "0 \<le> units (p + c)" using assms(1,2) by (simp_all add: units_def)
  define x where "x = round64 (units c)"
  have x: "money_num c = Fin x" "\<bar>x - units c\<bar> \<le> 1 / 2 ^ 32"
    using round64_small [of "units c"] u(2) nn(1) by (simp_all add: money_num_def x_def)
  have k: "(of_nat (2 * k) / 2 ^ 32 :: rat) \<le> 198 / 2 ^ 32"
  proof -
    have "(of_nat (2 * k) :: rat) \<le> of_nat 198" using assms(4) by (simp only: of_nat_le_iff)
    then show ?thesis by simp
  qed
  have e: "\<bar>s + x - units (p + c)\<bar> \<le> of_nat (2 * k) / 2 ^ 32 + 1 / 2 ^ 32"
    using assms(5) x(2) unfolding units_add by linarith
  with k have "\<bar>s + x - units (p + c)\<bar> \<le> 199 / 2 ^ 32" by linarith
  then have "\<bar>s + x\<bar> < 2 ^ 22" using u(1) nn(2) by (simp add: abs_if split: if_splits)
  note r = round64_small [OF this]
  have "\<bar>round64 (s + x) - units (p + c)\<bar> \<le> of_nat (2 * k) / 2 ^ 32 + 2 / 2 ^ 32"
    using e r by linarith
  then have "\<bar>round64 (s + x) - units (p + c)\<bar> \<le> of_nat (2 * Suc k) / 2 ^ 32"
    by (simp add: add_divide_distrib)
  with r x(1) show ?thesis by auto
qed

lemma float_sum:
  assumes "\<forall>b\<in>set bs. 0 \<le> b" "0 \<le> p" "p + sum_list bs < 2 ^ 22 * 10 ^ 7" "k + length bs \<le> 100"
    and "\<bar>s - units p\<bar> \<le> of_nat (2 * k) / 2 ^ 32"
  shows "\<exists>s'. foldl jadd (Fin s) (map money_num bs) = Fin s'
    \<and> \<bar>s' - units (p + sum_list bs)\<bar> \<le> of_nat (2 * (k + length bs)) / 2 ^ 32"
  using assms
proof (induction bs arbitrary: p k s)
  case (Cons c bs)
  have rest: "0 \<le> sum_list bs" using Cons.prems(1) by (auto intro: sum_list_nonneg)
  obtain s' where s': "jadd (Fin s) (money_num c) = Fin s'"
    and e: "\<bar>s' - units (p + c)\<bar> \<le> of_nat (2 * Suc k) / 2 ^ 32"
    using float_sum_step [of p c k s] Cons.prems rest by auto
  have "\<exists>t. foldl jadd (Fin s') (map money_num bs) = Fin t
      \<and> \<bar>t - units (p + c + sum_list bs)\<bar> \<le> of_nat (2 * (Suc k + length bs)) / 2 ^ 32"
    using Cons.prems e by (intro Cons.IH) auto
  then show ?case by (simp add: s' add.assoc)
qed auto

lemma toFixed_parse:
  assumes "\<bar>x - units b\<bar> < 1 / (2 * 10 ^ 7)" "\<bar>x\<bar> < 10 ^ 21"
  shows "\<exists>t. toFixed 7 (Fin x) = Some t \<and> parseFloat t = money_num b"
proof -
  obtain ip fp where parts: "fixed_digits 7 \<bar>x\<bar> = ip @ ''.'' @ fp" "length fp = 7" "ip \<noteq> []"
    and digits: "\<And>c. c \<in> set ip \<union> set fp \<Longrightarrow> is_digit c"
    and v: "int (string_to_nat 10 (ip @ fp)) = \<lfloor>\<bar>x\<bar> * 10 ^ 7 + 1 / 2\<rfloor>"
    using fixed_digits_parts [of 7 "\<bar>x\<bar>"] by auto
  have dv: "dec_val ip fp = of_int \<lfloor>\<bar>x\<bar> * 10 ^ 7 + 1 / 2\<rfloor> / 10 ^ 7"
    using parts(2) by (simp only: v [symmetric] of_int_of_nat_eq)
  have "(if x < 0 then -1 else 1) * dec_val ip fp
      = of_int ((if x < 0 then -1 else 1) * \<lfloor>\<bar>x\<bar> * 10 ^ 7 + 1 / 2\<rfloor>) / 10 ^ 7"
    unfolding dv by simp
  also have "\<dots> = units b"
    using half_stroop_round [of x b] assms(1) by (simp add: units_def)
  finally have "parseFloat ((if x < 0 then ''-'' else []) @ ip @ ''.'' @ fp) = money_num b"
    using parseFloat_parts [OF digits parts(3), where neg = "x < 0"] by (simp add: money_num_def)
  then show ?thesis using assms(2) parts(1) by simp
qed

lemma total_exact:
  assumes "map vo_amount ops = map money_num bs" "\<forall>b\<in>set bs. 0 \<le> b" "length bs \<le> 100"
    and "sum_list bs < 2 ^ 22 * 10 ^ 7"
  shows "total_amount ops = money_num (sum_list bs)"
proof -
  have f: "foldl (\<lambda>acc oper. jadd acc (vo_amount oper)) (Fin 0) ops = foldl jadd (Fin 0) (map money_num bs)"
    unfolding assms(1) [symmetric] foldl_map ..
  obtain s where s: "foldl jadd (Fin 0) (map money_num bs) = Fin s"
    and e: "\<bar>s - units (sum_list bs)\<bar> \<le> of_nat (2 * length bs) / 2 ^ 32"
    using float_sum [of bs 0 0 0] assms(2-4) by auto
  have "(of_nat (2 * length bs) :: rat) \<le> of_nat 200" using assms(3) by (simp only: of_nat_le_iff)
  then have "of_nat (2 * length bs) / 2 ^ 32 < (1 / (2 * 10 ^ 7) :: rat)" by simp
  with e have d: "\<bar>s - units (sum_list bs)\<bar> < 1 / (2 * 10 ^ 7)" by linarith
  have "of_int (sum_list bs) < (of_int (2 ^ 22 * 10 ^ 7) :: rat)" using assms(4) by (simp only: of_int_less_iff)
  then have "units (sum_list bs) < 2 ^ 22" by (simp add: units_def)
  moreover have "0 \<le> units (sum_list bs)" using assms(2) by (simp add: units_def sum_list_nonneg)
  ultimately have "\<bar>s\<bar> < 10 ^ 21" using d by (simp add: abs_if split: if_splits)
  from toFixed_parse [OF d this] show ?thesis by (auto simp: total_amount_def f s Let_def simp del: toFixed.simps)
qed

lemma toStroops_money: "\<bar>b\<bar> < 2 ^ 29 * 10 ^ 7 \<Longrightarrow> toStroops (ANum (money_num b)) = Inr b"
  using toStroops_stroopsToNumber_big [of b] by (auto simp: stroopsToNumber_big money_num_def units_def)

text \<open>The comparison of two amounts of at most \<open>2^29\<close> units is the comparison of their stroops.\<close>

definition fee_verdict :: "int \<Rightarrow> int \<Rightarrow> fee_check_status \<times> jsnum" where
  "fee_verdict paid fee =
     (if paid < fee then (Underpaid, Fin 0) else if fee < paid then (Overpaid, money_num (paid - fee)) else (Valid_fee, Fin 0))"

lemma validate_money:
  assumes "\<bar>a\<bar> < 2 ^ 29 * 10 ^ 7" "\<bar>f\<bar> < 2 ^ 29 * 10 ^ 7"
  shows "\<exists>fv. validatePaymentAgainstFee (money_num a) (money_num f) = Inr fv
    \<and> (fv_status fv, fv_excessAmount fv) = fee_verdict a f"
  using toStroops_money [OF assms(1)] toStroops_money [OF assms(2)]
  by (simp add: validatePaymentAgainstFee_def fee_verdict_def stroopsToNumber_big money_num_def units_def del: toStroops.simps)

subsection \<open>What verification credits\<close>

definition verified_op_of :: "asset_config \<Rightarrow> (string \<Rightarrow> string) \<Rightarrow> nat \<times> horizon_op \<Rightarrow> verified_op" where
  "verified_op_of conf fromXDR = (\<lambda>(i, oper).
     \<lparr>vo_opIndex = i, vo_amount = normalizeAmount fromXDR (resolveCreditedAmount oper),
      vo_asset = resolveDeliveredAsset oper, vo_senderAddress = truthy_or_none (op_from oper)\<rparr>)"

lemma detectAsset_Some: "detectAsset conf oper = Some a \<Longrightarrow> a = resolveDeliveredAsset oper"
  by (auto simp: detectAsset_def Let_def split: sum.splits)

lemma map_sum_Inr_iff: "map_sum f g x = Inr y \<longleftrightarrow> (\<exists>z. x = Inr z \<and> y = g z)"
  by (cases x) auto

lemma collect_operations_iff:
  "collect_operations conf fromXDR xs = Inr ops
   \<longleftrightarrow> (\<forall>x\<in>set xs. detectAsset conf (snd x) \<noteq> None) \<and> ops = map (verified_op_of conf fromXDR) xs"
proof (induction xs arbitrary: ops)
  case (Cons x xs)
  obtain i oper where x: "x = (i, oper)" by fastforce
  show ?case
  proof (cases "detectAsset conf oper")
    case (Some a)
    then show ?thesis
      by (auto simp: x map_sum_Inr_iff Cons.IH verified_op_of_def detectAsset_Some [OF Some])
  qed (simp add: x Let_def)
qed auto

lemma targeting_nth:
  "(i, oper) \<in> set (targeting w ops)
   \<longleftrightarrow> i < length ops \<and> oper = ops ! i \<and> isCreditableOpType (op_type oper) \<and> op_to oper = w"
  by (auto simp: targeting_def in_set_enumerate_eq)

lemma map_targeting_index:
  "map fst (targeting w ops) = filter (\<lambda>i. isCreditableOpType (op_type (ops ! i)) \<and> op_to (ops ! i) = w) [0..<length ops]"
proof -
  have e: "enumerate 0 ops = map (\<lambda>i. (i, ops ! i)) [0..<length ops]"
    by (rule nth_equalityI) (simp_all add: nth_enumerate_eq)
  show ?thesis by (simp add: targeting_def e filter_map comp_def)
qed

lemma accepted_asset:
  assumes "detectAsset conf oper = Some a" "ac_type conf = ''native'' \<longleftrightarrow> ac_code conf = ''XLM''"
  shows "oa_code a = Some (ac_code conf)" "oa_type a = Some (ac_type conf)"
    "ac_type conf \<noteq> ''native'' \<Longrightarrow> oa_issuer a = ac_issuer conf \<and> truthy_str (ac_issuer conf)"
  using assms by (auto simp: detectAsset_def isAcceptedAsset_def Let_def split: sum.splits if_splits)

text \<open>
  The limits that apply to the amounts of one verification, from the documents stored for the school and the
  system: those of the asset; and the environment's as well if one of the reads during the checks fails.
  An amount is within a pair of limits as numbers compare.
\<close>

definition limits_in_force :: "'d limits_env \<Rightarrow> nat \<Rightarrow> string option \<Rightarrow> limits_state \<Rightarrow> string option \<Rightarrow> limits list" where
  "limits_in_force E n schoolId st asset =
     effective (le_env E) (school_doc schoolId st) (system_doc st) (asset_key asset)
     # (if list_ex (\<lambda>k. case le_reads E k of (schoolOk, systemOk, _) \<Rightarrow> \<not> schoolOk \<or> \<not> systemOk) [0..<n] then [le_env E] else [])"

definition within_limits :: "limits \<Rightarrow> jsnum \<Rightarrow> bool" where
  "within_limits l x \<longleftrightarrow>
     (case (lim_min l, x, lim_max l) of (Fin lo, Fin a, Fin hi) \<Rightarrow> 0 < a \<and> lo \<le> a \<and> a \<le> hi | _ \<Rightarrow> False)"

text \<open>A number of JavaScript: a finite one has 53 bits.\<close>

definition js_double :: "jsnum \<Rightarrow> bool" where
  "js_double x \<longleftrightarrow> (case x of Fin a \<Rightarrow> round64 a = a | _ \<Rightarrow> True)"

lemma js_double_parseFloat: "js_double (parseFloat t)"
  by (auto simp: js_double_def parseFloat_def to_num_def Let_def split: option.splits)

lemma check_limits_step:
  assumes "decimal_laws (le_dec E) val" "wf_limits (le_env E)" "coherent st" "schoolId \<noteq> Some ''__global__''"
    and "le_reads E k = (schoolOk, systemOk, now, later)" "k < n"
    and "snd (validatePaymentAmount (le_dec E) (le_env E) (le_ttl E) schoolOk systemOk now later (LNum x) schoolId asset st)
        = Amount_valid"
    and "js_double x" "\<forall>l\<in>set (limits_in_force E n schoolId st asset). js_double (lim_min l) \<and> js_double (lim_max l)"
  shows "\<exists>l\<in>set (limits_in_force E n schoolId st asset). within_limits l x"
proof -
  obtain st1 b where b: "resolveLimits (le_env E) (le_ttl E) schoolOk systemOk now later schoolId asset st = (st1, b)"
    by fastforce
  have mem: "b \<in> set (limits_in_force E n schoolId st asset)"
    using b assms(5,6) unfolding resolveLimits_cases [OF assms(3,4)]
    by (force simp: limits_in_force_def list_ex_iff split: if_splits)
  from resolveLimits_wf [OF assms(2), of "le_ttl E" schoolOk systemOk now later schoolId asset st] b
  obtain lo hi where lh: "lim_min b = Fin lo" "lim_max b = Fin hi"
    by (auto simp: wf_limits_def split: jsnum.splits)
  with mem assms(9) have "round64 lo = lo" "round64 hi = hi" by (auto simp: js_double_def)
  then have "\<exists>a. x = Fin a \<and> 0 < a \<and> lo \<le> a \<and> a \<le> hi"
    using valid_amount_iff [OF assms(1,2) _ b lh, of x] assms(7,8) by (cases x) (simp_all add: js_double_def)
  with lh have "within_limits b x" by (auto simp: within_limits_def)
  with mem show ?thesis by blast
qed

lemma check_limits_valid:
  assumes "decimal_laws (le_dec E) val" "wf_limits (le_env E)" "schoolId \<noteq> Some ''__global__''"
    and "\<forall>l\<in>set (limits_in_force E n schoolId st asset). js_double (lim_min l) \<and> js_double (lim_max l)"
    and "\<forall>oper\<in>set ops. oa_code (vo_asset oper) = asset \<and> js_double (vo_amount oper)"
    and "coherent st" "k + length ops \<le> n" "check_limits E schoolId k ops st = (st', Amount_valid)" "oper \<in> set ops"
  shows "\<exists>l\<in>set (limits_in_force E n schoolId st asset). within_limits l (vo_amount oper)"
  using assms(4-)
proof (induction ops arbitrary: k st)
  case (Cons x ops)
  obtain schoolOk systemOk now later where r: "le_reads E k = (schoolOk, systemOk, now, later)" by (metis prod_cases4)
  let ?check = "validatePaymentAmount (le_dec E) (le_env E) (le_ttl E) schoolOk systemOk now later
      (LNum (vo_amount x)) schoolId asset st"
  obtain st1 v where v: "?check = (st1, v)" by fastforce
  have x: "oa_code (vo_asset x) = asset" "js_double (vo_amount x)" using Cons.prems(2) by simp_all
  have ok: "v = Amount_valid" "check_limits E schoolId (Suc k) ops st1 = (st', Amount_valid)"
    using Cons.prems(5) by (auto simp: r v x split: if_splits)
  have st1: "st1 = fst (resolveLimits (le_env E) (le_ttl E) schoolOk systemOk now later schoolId asset st)"
    using v by (auto simp: validatePaymentAmount_def case_prod_beta)
  note keep = resolveLimits_ok [OF Cons.prems(3) assms(3), where env = "le_env E" and ttl = "le_ttl E" and schoolOk = schoolOk and systemOk = systemOk
      and now = now and later = later and asset = asset]
  have same: "limits_in_force E n schoolId st1 asset = limits_in_force E n schoolId st asset"
    by (simp add: limits_in_force_def st1 keep)
  show ?case
  proof (cases "oper = x")
    case True
    then show ?thesis
      using check_limits_step [OF assms(1,2) Cons.prems(3) assms(3) r, of n "vo_amount x" asset] Cons.prems(1,4) v ok(1) x(2)
      by simp
  next
    case False
    with Cons.prems(2,6) have tail: "oper \<in> set ops" "\<forall>oper\<in>set ops. oa_code (vo_asset oper) = asset \<and> js_double (vo_amount oper)"
      by simp_all
    from Cons.IH [of st1 "Suc k", unfolded same] show ?thesis
      using Cons.prems(1,4) tail ok(2) keep(1) unfolding st1 [symmetric] by simp
  qed
qed simp

text \<open>Everything that holds of a transaction that passes verification.\<close>

lemma verify_success:
  fixes reply :: "('e, 'e horizon_tx) result"
  assumes "verifyTransaction conf fromXDR E db reply w schoolId st = (st', Inr v)"
  obtains tx ops memo fee fv where "reply = Inr tx" "tx_successful tx \<noteq> Some False" "fetchAllOperations tx = Inr ops"
    "targeting w ops \<noteq> []" "\<forall>x\<in>set (targeting w ops). detectAsset conf (snd x) \<noteq> None"
    "verify_memo tx = (Inr memo :: ('e verify_error, string) result)"
    "check_limits E schoolId 0 (map (verified_op_of conf fromXDR) (targeting w ops)) st = (st', Amount_valid)"
    "fee_check (total_amount (map (verified_op_of conf fromXDR) (targeting w ops))) fee
       = (Inr fv :: ('e verify_error, fee_validation) result)"
    "fee = (case find (\<lambda>(s, i, fee). Some s = schoolId \<and> i = memo) db of Some (_, _, f) \<Rightarrow> f | None \<Rightarrow> None)"
    "truthy_str schoolId"
    "v = verified_of tx memo (map (verified_op_of conf fromXDR) (targeting w ops)) fee fv"
proof -
  obtain tx where tx: "reply = Inr tx" using assms by (cases reply) (auto simp: verifyTransaction_def)
  then have f: "verify_found conf fromXDR E db tx w schoolId st = (st', Inr v)"
    using assms by (simp add: verifyTransaction_def)
  then have s: "tx_successful tx \<noteq> Some False" by (auto simp: verify_found_def)
  with f obtain ops where ops: "fetchAllOperations tx = Inr ops"
    by (cases "fetchAllOperations tx") (auto simp: verify_found_def)
  with f s have ne: "targeting w ops \<noteq> []" by (auto simp: verify_found_def)
  with f s ops obtain vs where vs: "collect_operations conf fromXDR (targeting w ops) = (Inr vs :: ('e verify_error, _) result)"
    by (cases "collect_operations conf fromXDR (targeting w ops) :: ('e verify_error, _) result") (auto simp: verify_found_def)
  with f s ops ne obtain memo where memo: "verify_memo tx = (Inr memo :: ('e verify_error, string) result)"
    by (cases "verify_memo tx :: ('e verify_error, string) result") (auto simp: verify_found_def)
  obtain st1 r where cl: "check_limits E schoolId 0 vs st = (st1, r)" by fastforce
  with f s ops ne vs memo have cl': "check_limits E schoolId 0 vs st = (st', Amount_valid)" and r: "r = Amount_valid"
    by (auto simp: verify_found_def Let_def split: if_splits sum.splits)
  with f s ops ne vs memo have sch: "truthy_str schoolId"
    by (cases "truthy_str schoolId") (auto simp: verify_found_def find_student_def)
  define fee where "fee = (case find (\<lambda>(s, i, fee). Some s = schoolId \<and> i = memo) db of Some (_, _, f) \<Rightarrow> f | None \<Rightarrow> None)"
  from f s ops ne vs memo cl' sch obtain fv where
    fv: "fee_check (total_amount vs) fee = (Inr fv :: ('e verify_error, fee_validation) result)"
    and v: "v = verified_of tx memo vs fee fv"
    by (auto simp: verify_found_def find_student_def Let_def fee_def split: sum.splits)
  from vs have acc: "\<forall>x\<in>set (targeting w ops). detectAsset conf (snd x) \<noteq> None"
    and vs': "vs = map (verified_op_of conf fromXDR) (targeting w ops)"
    by (simp_all add: collect_operations_iff)
  show thesis
    by (rule that [OF tx s ops ne acc memo]) (use cl' fv v fee_def sch in \<open>simp_all add: vs'\<close>)
qed

text \<open>The memo that both readers decode, or why there is none.\<close>

lemma verify_memo_Inr:
  "verify_memo tx = Inr memo \<longleftrightarrow> memo_type_of tx \<noteq> ''none'' \<and> normalizeMemoType (Some (memo_type_of tx)) \<noteq> None
     \<and> decodeMemoToCanonical (tx_memo tx) (Some (memo_type_of tx)) = Some memo \<and> memo \<noteq> []"
  by (auto simp: verify_memo_def Let_def truthy_str_def)

lemma verify_memo_Inl: "verify_memo tx = Inl e \<Longrightarrow> e = MISSING_MEMO \<or> (\<exists>t. e = UNSUPPORTED_MEMO_TYPE t)"
  by (auto simp: verify_memo_def Let_def split: if_splits)

lemma collect_operations_Inl: "collect_operations conf fromXDR xs = Inl e \<Longrightarrow> \<exists>a. e = UNSUPPORTED_ASSET a"
proof (induction xs)
  case (Cons x xs)
  then show ?case
    by (cases x; cases "detectAsset conf (snd x)"; cases "collect_operations conf fromXDR xs :: ('a verify_error, _) result")
      (auto simp: Let_def)
qed simp

lemma credited_all:
  assumes "\<forall>x\<in>set xs. detectAsset conf (snd x) \<noteq> None"
  shows "map (\<lambda>r. (opIndex r, co_amount r, co_asset r)) (List.map_filter (credit_op conf fromXDR) xs)
    = map (\<lambda>r. (vo_opIndex r, vo_amount r, vo_asset r)) (map (verified_op_of conf fromXDR) xs)"
  using assms
proof (induction xs)
  case (Cons x xs)
  obtain i oper where x: "x = (i, oper)" by fastforce
  obtain a where a: "detectAsset conf oper = Some a" using Cons.prems x by auto
  have "credit_op conf fromXDR x = Some \<lparr>payOp = oper, opIndex = i,
      co_amount = normalizeAmount fromXDR (resolveCreditedAmount oper), co_asset = resolveDeliveredAsset oper\<rparr>"
    using detectAsset_Some [OF a] a by (simp add: credit_op_def x)
  with Cons show ?case by (simp add: map_filter_simps verified_op_of_def x)
qed (simp add: map_filter_simps)

lemma extract_of_verified:
  assumes "tx_successful tx = Some True" "verify_memo tx = (Inr memo :: ('e verify_error, string) result)"
    "fetchAllOperations tx = Inr ops" "targeting w ops \<noteq> []"
    "\<forall>x\<in>set (targeting w ops). detectAsset conf (snd x) \<noteq> None"
  shows "extractValidPayment conf fromXDR tx w = Inr (Some
     \<lparr>ex_operations = List.map_filter (credit_op conf fromXDR) (targeting w ops), ex_memo = memo,
      ex_memoType = memo_type_of tx, ex_innerHash = tx_inner tx\<rparr>)"
proof -
  have "List.map_filter (credit_op conf fromXDR) (targeting w ops) \<noteq> []"
    using credited_all [OF assms(5), of fromXDR] assms(4) by (metis map_is_Nil_conv)
  then show ?thesis
    using assms(1,3) assms(2) [unfolded verify_memo_Inr]
    by (auto simp: extractValidPayment_def Let_def truthy_str_def)
qed

subsection \<open>A transaction that passes\<close>

text \<open>A printer that keeps the documented law: it reads the count of stroops back and prints it.\<close>

definition sdk_printer :: "string \<Rightarrow> string" where
  "sdk_printer s = (if list_all is_digit s then fromStroops_big (int (string_to_nat 10 s)) else ''NaN'')"

lemma sdk_printer_law: "xdr_law sdk_printer"
  using nat_to_string_digits
  by (auto simp: xdr_law_def sdk_printer_def int_to_string_nonneg string_to_nat_to_string list_all_iff)

text \<open>
  A transaction of two operations on a wallet that accepts lumens, a payment of five units after one
  to another account, in two pages.
\<close>

definition lumen_payment :: "string \<Rightarrow> int \<Rightarrow> horizon_op" where
  "lumen_payment dest b =
     \<lparr>op_type = ''payment'', op_to = Some dest, op_from = Some ''GPAYER'', op_amount = Some (fromStroops_big b),
      op_asset_type = Some ''native'', op_asset_code = None, op_asset_issuer = None,
      op_destination_amount = None, op_destination_asset_type = None, op_destination_asset_code = None,
      op_destination_asset_issuer = None\<rparr>"

definition example_tx :: "unit horizon_tx" where
  "example_tx =
     \<lparr>tx_hash = ''h'', tx_successful = Some True, tx_inner = None, tx_memo_type = Some ''text'',
      tx_memo = Some ''STU001'', tx_operations = Inr [lumen_payment ''GOTHER'' 7],
      tx_next = [Inr [lumen_payment ''GSCHOOL'' 50000000], Inr []], tx_fee_paid = None,
      tx_created_at = ''2026-01-01T00:00:00Z'', tx_ledger_attr = Some 100, tx_ledger = None\<rparr>"

definition example_limits :: limits where
  "example_limits = \<lparr>lim_min = Fin 1, lim_max = Fin 100, lim_source = ''env''\<rparr>"

definition example_env :: "rat option limits_env" where
  "example_env = \<lparr>le_dec = rat_lib, le_env = example_limits, le_ttl = 30000, le_reads = \<lambda>_. (True, True, 0, 0)\<rparr>"

definition no_limits :: limits_state where
  "no_limits = \<lparr>lcache = \<lambda>_. None, school_docs = \<lambda>_. None, system_doc = NotDoc\<rparr>"

definition lumens :: asset_config where
  "lumens = \<lparr>ac_code = ''XLM'', ac_type = ''native'', ac_issuer = None\<rparr>"

lemma lumens_configured: "configuredAsset usdcIssuer ''XLM'' = Some lumens"
  by (simp add: configuredAsset_def ALL_ASSETS_def lumens_def)

lemma example_ops: "fetchAllOperations example_tx = Inr [lumen_payment ''GOTHER'' 7, lumen_payment ''GSCHOOL'' 50000000]"
  by (simp add: fetchAllOperations_def example_tx_def)

lemma example_targets:
  "targeting (Some ''GSCHOOL'') [lumen_payment ''GOTHER'' 7, lumen_payment ''GSCHOOL'' 50000000] = [(1, lumen_payment ''GSCHOOL'' 50000000)]"
  by (simp add: targeting_def lumen_payment_def isCreditableOpType_def CREDITABLE_OP_TYPES_def)

lemma lumen_payment_asset:
  "resolveDeliveredAsset (lumen_payment d b) = \<lparr>oa_type = Some ''native'', oa_code = Some ''XLM'', oa_issuer = None\<rparr>"
  "resolveCreditedAmount (lumen_payment d b) = Some (fromStroops_big b)"
  by (simp_all add: resolveDeliveredAsset_def resolveCreditedAmount_def lumen_payment_def isPathPayment_def Let_def)

lemma lumen_payment_accepted: "detectAsset lumens (lumen_payment d b) = Some (resolveDeliveredAsset (lumen_payment d b))"
  by (simp add: detectAsset_def lumen_payment_asset isAcceptedAsset_def lumens_def truthy_str_def)

lemma money_num_five: "money_num 50000000 = Fin 5"
  using to_num_int [of 5] by (simp add: money_num_def units_def)

lemma text_memo: "normalizeMemoType (Some ''text'') = Some ''MEMO_TEXT''"
  by code_simp

lemma example_memo: "verify_memo example_tx = Inr ''STU001''"
  by (simp add: verify_memo_def memo_type_of_def example_tx_def truthy_str_def text_memo
      decodeMemoToCanonical_def decode_text_def trim_def is_space_def Let_def)

lemma example_five_valid:
  "snd (validatePaymentAmount rat_lib example_limits 30000 True True 0 0 (LNum (Fin 5)) (Some ''s1'') (Some ''XLM'') no_limits)
     = Amount_valid"
proof -
  have i: "round64 1 = 1" "round64 100 = 100" "round64 5 = 5"
    using round64_int [of 1] round64_int [of 100] round64_int [of 5] by simp_all
  obtain st1 b where r: "resolveLimits example_limits 30000 True True 0 0 (Some ''s1'') (Some ''XLM'') no_limits = (st1, b)"
    by fastforce
  then have b: "b = example_limits"
    by (auto simp: resolveLimits_def readCache_def truthy_id_def school_doc_def no_limits_def pick_layers_def pick_limits_def Let_def)
  show ?thesis
    by (subst valid_amount_iff [OF rat_lib_laws _ _ r, where lo = 1 and hi = 100])
      (simp_all add: b example_limits_def wf_limits_def i)
qed

lemma example_verified:
  "\<exists>st' fv. verifyTransaction lumens sdk_printer example_env [(''s1'', ''STU001'', Some (Fin 5))] (Inr example_tx)
       (Some ''GSCHOOL'') (Some ''s1'') no_limits
     = (st', Inr (verified_of example_tx ''STU001''
         [verified_op_of lumens sdk_printer (1, lumen_payment ''GSCHOOL'' 50000000)] (Some (Fin 5)) fv))"
proof -
  define vo where "vo = verified_op_of lumens sdk_printer (1, lumen_payment ''GSCHOOL'' 50000000)"
  have amount: "vo_amount vo = Fin 5"
    using normalizeAmount_exact [OF sdk_printer_law, of 50000000]
    by (simp add: vo_def verified_op_of_def lumen_payment_asset money_num_five)
  have asset: "oa_code (vo_asset vo) = Some ''XLM''" by (simp add: vo_def verified_op_of_def lumen_payment_asset)
  obtain st' where st': "validatePaymentAmount rat_lib example_limits 30000 True True 0 0 (LNum (Fin 5))
      (Some ''s1'') (Some ''XLM'') no_limits = (st', Amount_valid)"
    using example_five_valid by (metis surjective_pairing)
  then have cl: "check_limits example_env (Some ''s1'') 0 [vo] no_limits = (st', Amount_valid)"
    by (simp add: example_env_def amount asset)
  have total: "total_amount [vo] = Fin 5"
    using total_exact [of "[vo]" "[50000000]"] by (simp add: amount money_num_five)
  obtain fv where fv: "fee_check (Fin 5) (Some (Fin 5)) = (Inr fv :: (unit verify_error, _) result)"
    using validate_money [of 50000000 50000000] by (auto simp: fee_check_def money_num_five)
  have co: "collect_operations lumens sdk_printer [(1, lumen_payment ''GSCHOOL'' 50000000)] = (Inr [vo] :: (unit verify_error, _) result)"
    by (simp add: vo_def lumen_payment_accepted verified_op_of_def)
  have ok: "tx_successful example_tx = Some True" by (simp add: example_tx_def)
  show ?thesis
    unfolding vo_def [symmetric] using cl fv
    by (auto simp: verifyTransaction_def verify_found_def ok example_ops example_targets co [unfolded One_nat_def] example_memo find_student_def truthy_str_def total
        simp del: collect_operations.simps check_limits.simps)
qed

subsection \<open>Properties\<close>

lemma configuredAsset_conf:
  assumes "configuredAsset usdcIssuer acc = Some conf"
  shows "ac_code conf = acc" "ac_type conf = ''native'' \<longleftrightarrow> acc = ''XLM''" "ac_type conf \<noteq> ''native'' \<Longrightarrow> ac_issuer conf = usdcIssuer"
  using assms by (auto simp: configuredAsset_def ALL_ASSETS_def split: if_splits)

text \<open>C4: A transaction that passes verification credits exactly the payment operations that target the
  school's wallet, whatever page of the listing they are on, and every one of them delivers the
  configured asset, from the pinned issuer when it is not lumens, in an amount read from that
  operation. All credited operations are of one asset, the one reported for the transaction. Every
  amount is positive and between the limits that the documents stored for the school and the system
  give for that asset, or between those of the environment if a read of the documents failed during the
  verification. The cache of limits is coherent at the start, as every request to it keeps it, the
  decimal library keeps its laws and the limits are numbers of JavaScript.\<close>

theorem verified_operations:
  fixes reply :: "('e, 'e horizon_tx) result"
  assumes "configuredAsset usdcIssuer acceptedAsset = Some conf"
    and "verifyTransaction conf fromXDR E db reply w schoolId st = (st', Inr v)"
    and "decimal_laws (le_dec E) val" "wf_limits (le_env E)" "coherent st" "schoolId \<noteq> Some ''__global__''"
    and "\<forall>l\<in>set (limits_in_force E (length (v_operations v)) schoolId st (Some acceptedAsset)).
           js_double (lim_min l) \<and> js_double (lim_max l)"
  shows "\<exists>tx ops. reply = Inr tx \<and> tx_successful tx \<noteq> Some False \<and> fetchAllOperations tx = Inr ops
    \<and> v_operations v \<noteq> []
    \<and> map vo_opIndex (v_operations v)
        = filter (\<lambda>i. isCreditableOpType (op_type (ops ! i)) \<and> op_to (ops ! i) = w) [0..<length ops]
    \<and> list_all (\<lambda>r. vo_amount r = normalizeAmount fromXDR (resolveCreditedAmount (ops ! vo_opIndex r))
          \<and> vo_asset r = resolveDeliveredAsset (ops ! vo_opIndex r)
          \<and> oa_code (vo_asset r) = Some acceptedAsset \<and> v_assetCode v = Some acceptedAsset
          \<and> (acceptedAsset = ''XLM'' \<or> oa_issuer (vo_asset r) = usdcIssuer \<and> truthy_str usdcIssuer)
          \<and> (\<exists>l\<in>set (limits_in_force E (length (v_operations v)) schoolId st (Some acceptedAsset)). within_limits l (vo_amount r)))
        (v_operations v)"
proof -
  note conf = configuredAsset_conf [OF assms(1)]
  from assms(2) obtain tx ops memo fee fv where tx: "reply = Inr tx" "tx_successful tx \<noteq> Some False"
    and ops: "fetchAllOperations tx = Inr ops" and ne: "targeting w ops \<noteq> []"
    and acc: "\<forall>x\<in>set (targeting w ops). detectAsset conf (snd x) \<noteq> None"
    and cl: "check_limits E schoolId 0 (map (verified_op_of conf fromXDR) (targeting w ops)) st = (st', Amount_valid)"
    and v: "v = verified_of tx memo (map (verified_op_of conf fromXDR) (targeting w ops)) fee fv"
    by (rule verify_success) blast
  have vops: "v_operations v = map (verified_op_of conf fromXDR) (targeting w ops)" by (simp add: v verified_of_def)
  have good: "detectAsset conf oper = Some (resolveDeliveredAsset oper)" if "(i, oper) \<in> set (targeting w ops)" for i oper
    using acc that detectAsset_Some by fastforce
  have idx: "map vo_opIndex (v_operations v) = map fst (targeting w ops)"
    by (simp add: vops verified_op_of_def case_prod_unfold)
  have one: "vo_amount r = normalizeAmount fromXDR (resolveCreditedAmount (ops ! vo_opIndex r))
      \<and> vo_asset r = resolveDeliveredAsset (ops ! vo_opIndex r) \<and> oa_code (vo_asset r) = Some acceptedAsset
      \<and> (acceptedAsset = ''XLM'' \<or> oa_issuer (vo_asset r) = usdcIssuer \<and> truthy_str usdcIssuer)"
    if r: "r \<in> set (v_operations v)" for r
  proof -
    from r obtain i oper where io: "(i, oper) \<in> set (targeting w ops)" "r = verified_op_of conf fromXDR (i, oper)"
      by (auto simp: vops)
    have "oper = ops ! i" using io(1) by (simp add: targeting_nth)
    then show ?thesis
      using accepted_asset [OF good [OF io(1)]] conf io(2) by (auto simp: verified_op_of_def)
  qed
  then have "\<forall>r\<in>set (v_operations v). oa_code (vo_asset r) = Some acceptedAsset \<and> js_double (vo_amount r)"
    by (metis normalizeAmount_def js_double_parseFloat)
  then have lim: "\<exists>l\<in>set (limits_in_force E (length (v_operations v)) schoolId st (Some acceptedAsset)). within_limits l (vo_amount r)"
    if "r \<in> set (v_operations v)" for r
    by (rule check_limits_valid [OF assms(3,4,6,7) _ assms(5) _ cl [folded vops] that]) simp
  have "hd (v_operations v) \<in> set (v_operations v)" and "v_assetCode v = oa_code (vo_asset (hd (v_operations v)))"
    using ne by (simp_all add: v verified_of_def hd_in_set del: set_map)
  with one have "v_assetCode v = Some acceptedAsset" by metis
  moreover have "v_operations v \<noteq> []" using ne by (simp add: vops)
  ultimately show ?thesis
    using tx ops idx [unfolded map_targeting_index] one lim unfolding list_all_iff by blast
qed

theorem verified_operations_witness:
  "\<exists>st' v. verifyTransaction lumens sdk_printer example_env [(''s1'', ''STU001'', Some (Fin 5))] (Inr example_tx)
      (Some ''GSCHOOL'') (Some ''s1'') no_limits = (st', Inr v)
    \<and> map vo_opIndex (v_operations v) = [1] \<and> v_assetCode v = Some ''XLM''
    \<and> list_all (\<lambda>r. within_limits example_limits (vo_amount r)) (v_operations v)"
proof -
  obtain st' fv where v: "verifyTransaction lumens sdk_printer example_env [(''s1'', ''STU001'', Some (Fin 5))] (Inr example_tx)
      (Some ''GSCHOOL'') (Some ''s1'') no_limits
    = (st', Inr (verified_of example_tx ''STU001''
        [verified_op_of lumens sdk_printer (1, lumen_payment ''GSCHOOL'' 50000000)] (Some (Fin 5)) fv))"
    using example_verified by blast
  let ?v = "verified_of example_tx ''STU001''
        [verified_op_of lumens sdk_printer (1, lumen_payment ''GSCHOOL'' 50000000)] (Some (Fin 5)) fv"
  have force: "limits_in_force example_env (length (v_operations ?v)) (Some ''s1'') no_limits (Some ''XLM'') = [example_limits]"
    by (simp add: limits_in_force_def example_env_def verified_of_def no_limits_def school_doc_def effective_def
        truthy_id_def doc_layers_def)
  have i: "round64 1 = 1" "round64 100 = 100" using round64_int [of 1] round64_int [of 100] by simp_all
  have wf: "wf_limits (le_env example_env)" and c: "coherent no_limits"
    by (simp_all add: example_env_def example_limits_def wf_limits_def coherent_def no_limits_def)
  have laws: "decimal_laws (le_dec example_env) rat_val" using rat_lib_laws by (simp add: example_env_def)
  have "map vo_opIndex (v_operations ?v) = [1] \<and> v_assetCode ?v = Some ''XLM''
      \<and> list_all (\<lambda>r. within_limits example_limits (vo_amount r)) (v_operations ?v)"
    using verified_operations [OF lumens_configured v laws wf c, unfolded force] i
    by (cases "v_operations ?v")
      (auto simp: example_ops lumen_payment_def isCreditableOpType_def CREDITABLE_OP_TYPES_def list_all_iff
        example_limits_def js_double_def)
  with v show ?thesis by (intro exI conjI) auto
qed

text \<open>C5: The credited total is exact. When every operation of a verified transaction delivers an amount
  that Horizon prints with seven decimals, there are at most 100 of them (the most a transaction can
  hold) and together they make less than \<open>2^22\<close> units, the floating-point sum is the number that
  stands for the exact sum of their stroops, and against a fee the payment is underpaid, paid or
  overpaid exactly as the integers compare, with the exact excess.\<close>

theorem verified_amount_exact:
  fixes reply :: "('e, 'e horizon_tx) result"
  assumes "xdr_law fromXDR" and "verifyTransaction conf fromXDR E db reply w schoolId st = (st', Inr v)"
    and "reply = Inr tx" "fetchAllOperations tx = Inr ops"
    and "map (\<lambda>(i, oper). resolveCreditedAmount oper) (targeting w ops) = map (\<lambda>b. Some (fromStroops_big b)) bs"
    and "\<forall>b\<in>set bs. 0 \<le> b" "length bs \<le> 100" "sum_list bs < 2 ^ 22 * 10 ^ 7"
  shows "v_amount v = money_num (sum_list bs)
    \<and> (\<forall>f. v_feeAmount v = Some (money_num f) \<longrightarrow> \<bar>f\<bar> < 2 ^ 29 * 10 ^ 7
          \<longrightarrow> (fv_status (v_feeValidation v), fv_excessAmount (v_feeValidation v)) = fee_verdict (sum_list bs) f)"
proof -
  from assms(2) obtain memo fee fv where
    fv: "fee_check (total_amount (map (verified_op_of conf fromXDR) (targeting w ops))) fee
      = (Inr fv :: ('e verify_error, fee_validation) result)"
    and v: "v = verified_of tx memo (map (verified_op_of conf fromXDR) (targeting w ops)) fee fv"
    using assms(3,4) by (elim verify_success) auto
  have small: "b < 2 ^ 51" if "b \<in> set bs" for b
    using member_le_sum_list [OF that] assms(6,8) by simp
  have "map vo_amount (map (verified_op_of conf fromXDR) (targeting w ops))
      = map (normalizeAmount fromXDR) (map (\<lambda>(i, oper). resolveCreditedAmount oper) (targeting w ops))"
    by (simp add: verified_op_of_def case_prod_unfold)
  also have "\<dots> = map money_num bs"
    unfolding assms(5) using small assms(6) by (simp add: normalizeAmount_exact [OF assms(1)])
  finally have total: "total_amount (map (verified_op_of conf fromXDR) (targeting w ops)) = money_num (sum_list bs)"
    using total_exact assms(6-8) by blast
  have sb: "\<bar>sum_list bs\<bar> < 2 ^ 29 * 10 ^ 7" using assms(6,8) sum_list_nonneg [of bs] by simp
  have "(fv_status fv, fv_excessAmount fv) = fee_verdict (sum_list bs) f"
    if "fee = Some (money_num f)" "\<bar>f\<bar> < 2 ^ 29 * 10 ^ 7" for f
    using validate_money [OF sb that(2)] fv that(1) by (auto simp: fee_check_def total)
  then show ?thesis using total by (simp add: v verified_of_def)
qed

theorem verified_amount_exact_witness:
  "\<exists>st' v. verifyTransaction lumens sdk_printer example_env [(''s1'', ''STU001'', Some (Fin 5))] (Inr example_tx)
      (Some ''GSCHOOL'') (Some ''s1'') no_limits = (st', Inr v)
    \<and> v_amount v = money_num 50000000 \<and> fv_status (v_feeValidation v) = Valid_fee"
proof -
  obtain st' fv where v: "verifyTransaction lumens sdk_printer example_env [(''s1'', ''STU001'', Some (Fin 5))] (Inr example_tx)
      (Some ''GSCHOOL'') (Some ''s1'') no_limits
    = (st', Inr (verified_of example_tx ''STU001''
        [verified_op_of lumens sdk_printer (1, lumen_payment ''GSCHOOL'' 50000000)] (Some (Fin 5)) fv))"
    (is "_ = (_, Inr ?v)")
    using example_verified by blast
  have "v_amount ?v = money_num (sum_list [50000000]) \<and> (\<forall>f. v_feeAmount ?v = Some (money_num f) \<longrightarrow> \<bar>f\<bar> < 2 ^ 29 * 10 ^ 7
      \<longrightarrow> (fv_status (v_feeValidation ?v), fv_excessAmount (v_feeValidation ?v)) = fee_verdict (sum_list [50000000]) f)"
    by (rule verified_amount_exact [OF sdk_printer_law v refl example_ops])
      (simp_all add: example_targets lumen_payment_asset)
  then have "v_amount ?v = money_num 50000000" "fv_status (v_feeValidation ?v) = Valid_fee"
    using money_num_five by (auto simp: verified_of_def fee_verdict_def dest!: spec [of _ 50000000])
  with v show ?thesis by (intro exI conjI) auto
qed

text \<open>Without a school no transaction passes verification: the query for the student is refused. The
  retry worker and the background queue of transactions verify with a wallet and no school, and the
  retry queue with neither.\<close>

theorem verify_needs_school:
  "snd (verifyTransaction conf fromXDR E db reply w None st) \<noteq> Inr v"
proof
  assume "snd (verifyTransaction conf fromXDR E db reply w None st) = Inr v"
  then have "verifyTransaction conf fromXDR E db reply w None st
      = (fst (verifyTransaction conf fromXDR E db reply w None st), Inr v)" by (metis prod.collapse)
  then show False by (rule verify_success) (simp add: truthy_str_def)
qed

text \<open>C6: The two readers of a transaction agree. A successful transaction that passes verification is
  found by the extraction of the synchronisation too, with the same memo, and the same operations with
  the same amounts and assets; and when the extraction finds nothing, verification rejects the
  transaction for its destination, its asset or its memo.\<close>

theorem verify_extract_agree:
  fixes tx :: "'e horizon_tx"
  assumes "tx_successful tx = Some True"
  shows "(\<forall>st' v. verifyTransaction conf fromXDR E db (Inr tx) w schoolId st = (st', Inr v) \<longrightarrow>
      (\<exists>x. extractValidPayment conf fromXDR tx w = Inr (Some x) \<and> ex_memo x = v_memo v \<and> ex_innerHash x = v_innerHash v
         \<and> map (\<lambda>r. (opIndex r, co_amount r, co_asset r)) (ex_operations x)
           = map (\<lambda>r. (vo_opIndex r, vo_amount r, vo_asset r)) (v_operations v)))
    \<and> (extractValidPayment conf fromXDR tx w = Inr None \<longrightarrow>
      (\<exists>e. verifyTransaction conf fromXDR E db (Inr tx) w schoolId st = (st, Inl e)
         \<and> (e = INVALID_DESTINATION \<or> (\<exists>a. e = UNSUPPORTED_ASSET a) \<or> e = MISSING_MEMO \<or> (\<exists>t. e = UNSUPPORTED_MEMO_TYPE t)
            \<or> (\<exists>h. e = Horizon_error h))))"
proof (intro conjI allI impI)
  fix st' v
  assume "verifyTransaction conf fromXDR E db (Inr tx) w schoolId st = (st', Inr v)"
  then obtain ops memo fee fv where ops: "fetchAllOperations tx = Inr ops" "targeting w ops \<noteq> []"
    and acc: "\<forall>x\<in>set (targeting w ops). detectAsset conf (snd x) \<noteq> None"
    and memo: "verify_memo tx = (Inr memo :: ('e verify_error, string) result)"
    and v: "v = verified_of tx memo (map (verified_op_of conf fromXDR) (targeting w ops)) fee fv"
    by (rule verify_success) auto
  show "\<exists>x. extractValidPayment conf fromXDR tx w = Inr (Some x) \<and> ex_memo x = v_memo v \<and> ex_innerHash x = v_innerHash v
      \<and> map (\<lambda>r. (opIndex r, co_amount r, co_asset r)) (ex_operations x)
        = map (\<lambda>r. (vo_opIndex r, vo_amount r, vo_asset r)) (v_operations v)"
    unfolding extract_of_verified [OF assms memo ops acc]
    using credited_all [OF acc, of fromXDR] by (simp add: v verified_of_def)
next
  assume none: "extractValidPayment conf fromXDR tx w = Inr None"
  let ?P = "\<lambda>e :: 'e verify_error. e = INVALID_DESTINATION \<or> (\<exists>a. e = UNSUPPORTED_ASSET a) \<or> e = MISSING_MEMO
    \<or> (\<exists>t. e = UNSUPPORTED_MEMO_TYPE t) \<or> (\<exists>h. e = Horizon_error h)"
  show "\<exists>e. verifyTransaction conf fromXDR E db (Inr tx) w schoolId st = (st, Inl e) \<and> ?P e"
  proof (cases "fetchAllOperations tx")
    case (Inr ops)
    show ?thesis
    proof (cases "targeting w ops = []")
      case False
      show ?thesis
      proof (cases "collect_operations conf fromXDR (targeting w ops) :: ('e verify_error, _) result")
        case (Inl e)
        then show ?thesis using collect_operations_Inl [OF Inl] assms \<open>fetchAllOperations tx = Inr ops\<close> False
          by (simp add: verifyTransaction_def verify_found_def)
      next
        case c: (Inr vs)
        then have acc: "\<forall>x\<in>set (targeting w ops). detectAsset conf (snd x) \<noteq> None" by (simp add: collect_operations_iff)
        show ?thesis
        proof (cases "verify_memo tx :: ('e verify_error, string) result")
          case (Inl e)
          then show ?thesis using verify_memo_Inl [OF Inl] assms Inr False c
            by (auto simp: verifyTransaction_def verify_found_def)
        next
          case m: (Inr memo)
          then show ?thesis using none extract_of_verified [OF assms m Inr False acc, of fromXDR] by simp
        qed
      qed
    qed (use assms Inr in \<open>simp add: verifyTransaction_def verify_found_def\<close>)
  qed (use assms in \<open>simp add: verifyTransaction_def verify_found_def\<close>)
qed

theorem verify_extract_agree_witness:
  "\<exists>x. extractValidPayment lumens sdk_printer example_tx (Some ''GSCHOOL'') = Inr (Some x) \<and> ex_memo x = ''STU001''"
proof -
  have ok: "tx_successful example_tx = Some True" by (simp add: example_tx_def)
  obtain st' fv where v: "verifyTransaction lumens sdk_printer example_env [(''s1'', ''STU001'', Some (Fin 5))] (Inr example_tx)
      (Some ''GSCHOOL'') (Some ''s1'') no_limits
    = (st', Inr (verified_of example_tx ''STU001''
        [verified_op_of lumens sdk_printer (1, lumen_payment ''GSCHOOL'' 50000000)] (Some (Fin 5)) fv))"
    using example_verified by blast
  have "v_memo (verified_of example_tx ''STU001''
        [verified_op_of lumens sdk_printer (1, lumen_payment ''GSCHOOL'' 50000000)] (Some (Fin 5)) fv) = ''STU001''"
    by (simp add: verified_of_def)
  with verify_extract_agree [OF ok, THEN conjunct1, rule_format, OF v] show ?thesis by auto
qed

end
