(* ===== verification/Fee_Adjustment.thy ===== *)
theory Fee_Adjustment
  imports Payment_Verification "HOL-Library.List_Lexorder" "HOL-Library.Char_ord" "HOL-Library.Multiset"
begin

section \<open>Fee adjustments\<close>

text \<open>
  Models \<^verbatim>\<open>backend/src/services/feeAdjustmentService.js\<close> (the rules a school's administrator defines and
  how they change a fee), the administrator's endpoints of
  \<^verbatim>\<open>backend/src/controllers/feeAdjustmentController.js\<close> over the collections of rules and students, and
  \<^verbatim>\<open>backend/src/services/feeAdjustmentEngine.js\<close>, the older engine with one rule set per school.
  Amounts are JavaScript numbers. The order of names, \<^verbatim>\<open>localeCompare\<close>, depends on the locale of the
  process and is an argument.
\<close>

subsection \<open>Rules\<close>

datatype rule_type = Discount_percentage | Discount_fixed | Penalty_percentage | Penalty_fixed | Waiver

datatype conflict_policy = Stack | First_only | Best_for_student

record rule_conditions =
  cd_studentClass :: "string list"
  cd_academicYear :: "string option"
  cd_paymentBefore :: "millis option"
  cd_paymentAfter :: "millis option"
  cd_minAmount :: "jsnum option"
  cd_maxAmount :: "jsnum option"

text \<open>
  A rule. The priority is a finite number: the difference of two such numbers has the sign of their
  comparison. A policy that is missing is \<open>None\<close>.
\<close>

record adj_rule =
  ar_schoolId :: string
  ar_name :: string
  ar_type :: rule_type
  ar_value :: jsnum
  ar_conditions :: rule_conditions
  ar_priority :: rat
  ar_policy :: "conflict_policy option"
  ar_isActive :: bool

record fee_student =
  fs_schoolId :: string
  fs_studentId :: string
  fs_class :: "string option"
  fs_academicYear :: "string option"
  fs_feeAmount :: jsnum
  fs_totalPaid :: "jsnum option"
  fs_remainingBalance :: jsnum
  fs_feePaid :: bool
  fs_deleted :: bool

text \<open>A date that does not parse is \<open>None\<close>; every comparison with it is false.\<close>

record fee_ctx =
  cx_schoolId :: string
  cx_student :: fee_student
  cx_academicYear :: "string option"
  cx_paymentDate :: "millis option"
  cx_baseAmount :: jsnum

subsection \<open>The order of the rules\<close>

text \<open>
  The comparison function of the sort, and the sort itself: \<^verbatim>\<open>Array.prototype.sort\<close> is stable, so on a
  consistent comparison it is an insertion sort.
\<close>

definition rule_cmp :: "(string \<Rightarrow> string \<Rightarrow> int) \<Rightarrow> adj_rule \<Rightarrow> adj_rule \<Rightarrow> int" where
  "rule_cmp localeCompare a b =
     (if ar_priority a < ar_priority b then - 1
      else if ar_priority b < ar_priority a then 1
      else localeCompare (ar_name a) (ar_name b))"

fun insert_sorted :: "('a \<Rightarrow> 'a \<Rightarrow> int) \<Rightarrow> 'a \<Rightarrow> 'a list \<Rightarrow> 'a list" where
  "insert_sorted cmp x [] = [x]"
| "insert_sorted cmp x (y # ys) = (if cmp x y \<le> 0 then x # y # ys else y # insert_sorted cmp x ys)"

definition js_sort :: "('a \<Rightarrow> 'a \<Rightarrow> int) \<Rightarrow> 'a list \<Rightarrow> 'a list" where
  "js_sort cmp xs = foldr (insert_sorted cmp) xs []"

text \<open>The query names the school; without one the tenant plugin refuses it.\<close>

definition fetchSortedRules :: "(string \<Rightarrow> string \<Rightarrow> int) \<Rightarrow> adj_rule list \<Rightarrow> string \<Rightarrow> adj_rule list" where
  "fetchSortedRules localeCompare rules schoolId =
     js_sort (rule_cmp localeCompare) (filter (\<lambda>r. ar_isActive r \<and> ar_schoolId r = schoolId) rules)"

subsection \<open>Which rules apply\<close>

definition later_than :: "millis option \<Rightarrow> millis \<Rightarrow> bool" where
  "later_than d t \<longleftrightarrow> (case d of None \<Rightarrow> False | Some s \<Rightarrow> t < s)"

definition earlier_than :: "millis option \<Rightarrow> millis \<Rightarrow> bool" where
  "earlier_than d t \<longleftrightarrow> (case d of None \<Rightarrow> False | Some s \<Rightarrow> s < t)"

definition ruleApplies :: "adj_rule \<Rightarrow> fee_ctx \<Rightarrow> bool" where
  "ruleApplies rule ctx =
     (let cond = ar_conditions rule; student = cx_student ctx in
      if cd_studentClass cond \<noteq> [] \<and> (case fs_class student of None \<Rightarrow> True | Some c \<Rightarrow> c = [] \<or> c \<notin> set (cd_studentClass cond))
      then False
      else if truthy_str (cd_academicYear cond) \<and> cd_academicYear cond \<noteq> cx_academicYear ctx then False
      else if (case cd_paymentBefore cond of None \<Rightarrow> False | Some t \<Rightarrow> later_than (cx_paymentDate ctx) t) then False
      else if (case cd_paymentAfter cond of None \<Rightarrow> False | Some t \<Rightarrow> earlier_than (cx_paymentDate ctx) t) then False
      else if (case cd_minAmount cond of None \<Rightarrow> False | Some m \<Rightarrow> truthy_num m \<and> jless (cx_baseAmount ctx) m) then False
      else if (case cd_maxAmount cond of None \<Rightarrow> False | Some m \<Rightarrow> truthy_num m \<and> jless m (cx_baseAmount ctx)) then False
      else True)"

subsection \<open>Applying them\<close>

record adjustment =
  ad_ruleName :: string
  ad_type :: rule_type
  ad_value :: jsnum
  ad_amountAdjusted :: jsnum
  ad_finalFeeAfterThis :: jsnum

definition is_discount :: "rule_type \<Rightarrow> bool" where
  "is_discount t \<longleftrightarrow> t = Discount_percentage \<or> t = Discount_fixed"

definition adjustmentAmount :: "jsnum \<Rightarrow> adj_rule \<Rightarrow> jsnum" where
  "adjustmentAmount finalFee rule =
     (case ar_type rule of
        Discount_percentage \<Rightarrow> jneg (jdiv (jmul finalFee (ar_value rule)) (Fin 100))
      | Discount_fixed \<Rightarrow> jneg (ar_value rule)
      | Penalty_percentage \<Rightarrow> jdiv (jmul finalFee (ar_value rule)) (Fin 100)
      | Penalty_fixed \<Rightarrow> ar_value rule
      | Waiver \<Rightarrow> jneg finalFee)"

definition adjusted :: "jsnum \<Rightarrow> adj_rule \<Rightarrow> jsnum" where
  "adjusted finalFee rule = jmax (Fin 0) (jadd finalFee (adjustmentAmount finalFee rule))"

definition adjustment_of :: "jsnum \<Rightarrow> adj_rule \<Rightarrow> adjustment" where
  "adjustment_of finalFee rule =
     \<lparr>ad_ruleName = ar_name rule, ad_type = ar_type rule, ad_value = ar_value rule,
      ad_amountAdjusted = jabs (adjustmentAmount finalFee rule), ad_finalFeeAfterThis = adjusted finalFee rule\<rparr>"

definition policy_of :: "conflict_policy option \<Rightarrow> adj_rule \<Rightarrow> conflict_policy" where
  "policy_of policy rule =
     (case policy of Some p \<Rightarrow> p | None \<Rightarrow> (case ar_policy rule of Some p \<Rightarrow> p | None \<Rightarrow> Stack))"

fun apply_loop ::
  "conflict_policy option \<Rightarrow> jsnum \<Rightarrow> adjustment list \<Rightarrow> adj_rule list \<Rightarrow> jsnum \<times> adjustment list" where
  "apply_loop policy finalFee done [] = (finalFee, done)"
| "apply_loop policy finalFee done (rule # rules) =
     (let p = policy_of policy rule in
      if p = First_only \<and> done \<noteq> [] then (finalFee, done)
      else if p = Best_for_student \<and> is_discount (ar_type rule) \<and> list_ex (\<lambda>a. is_discount (ad_type a)) done
      then apply_loop (Some p) finalFee done rules
      else
        let done' = done @ [adjustment_of finalFee rule]; fee' = adjusted finalFee rule
        in if ar_type rule = Waiver then (fee', done') else apply_loop (Some p) fee' done' rules)"

definition cents :: "jsnum \<Rightarrow> jsnum" where
  "cents fee = jdiv (Math_round (jmul fee (Fin 100))) (Fin 100)"

record overpayment =
  ov_studentId :: string
  ov_amountPaid :: jsnum
  ov_newFee :: jsnum
  ov_creditAmount :: jsnum

record adjusted_fee =
  af_baseFee :: jsnum
  af_finalFee :: jsnum
  af_adjustments :: "adjustment list"
  af_remainingBalance :: jsnum
  af_overpayment :: "overpayment option"

text \<open>\<^verbatim>\<open>parseFloat(x.toFixed(2))\<close>.\<close>

definition two_places :: "jsnum \<Rightarrow> jsnum" where
  "two_places x = (case toFixed 2 x of Some t \<Rightarrow> parseFloat t | None \<Rightarrow> x)"

definition applyRules :: "jsnum \<Rightarrow> fee_ctx \<Rightarrow> adj_rule list \<Rightarrow> adjusted_fee" where
  "applyRules feeAmount ctx rules =
     (case apply_loop None feeAmount [] (filter (\<lambda>r. ruleApplies r ctx) rules) of (finalFee, applied) \<Rightarrow>
        let resolved = cents finalFee;
            amountPaid = (case fs_totalPaid (cx_student ctx) of Some n \<Rightarrow> n | None \<Rightarrow> Fin 0)
        in \<lparr>af_baseFee = feeAmount, af_finalFee = resolved, af_adjustments = applied,
            af_remainingBalance = jmax (Fin 0) (jsub resolved amountPaid),
            af_overpayment =
              (if jless resolved amountPaid
               then Some \<lparr>ov_studentId = fs_studentId (cx_student ctx), ov_amountPaid = amountPaid, ov_newFee = resolved,
                          ov_creditAmount = two_places (jsub amountPaid resolved)\<rparr>
               else None)\<rparr>)"

definition calculateAdjustedFee ::
  "(string \<Rightarrow> string \<Rightarrow> int) \<Rightarrow> adj_rule list \<Rightarrow> jsnum \<Rightarrow> fee_ctx \<Rightarrow> adjusted_fee" where
  "calculateAdjustedFee localeCompare rules feeAmount ctx =
     applyRules feeAmount ctx (fetchSortedRules localeCompare rules (cx_schoolId ctx))"

text \<open>The result of a simulation, and whether the extra rule was applied.\<close>

definition simulateWithExtraWithRules ::
  "(string \<Rightarrow> string \<Rightarrow> int) \<Rightarrow> jsnum \<Rightarrow> fee_ctx \<Rightarrow> adj_rule \<Rightarrow> adj_rule list \<Rightarrow> adjusted_fee \<times> bool" where
  "simulateWithExtraWithRules localeCompare feeAmount ctx extraRule existingRules =
     (let combined = js_sort (rule_cmp localeCompare) (existingRules @ [extraRule]);
          res = applyRules feeAmount ctx combined;
          shown = (if ar_name extraRule = [] then ''_dry_run_preview_'' else ar_name extraRule)
      in (res, list_ex (\<lambda>a. ad_ruleName a = shown) (af_adjustments res)))"

subsection \<open>The administrator's endpoints\<close>

definition VALID_TYPES :: "(string \<times> rule_type) list" where
  "VALID_TYPES = [(''discount_percentage'', Discount_percentage), (''discount_fixed'', Discount_fixed),
     (''penalty_percentage'', Penalty_percentage), (''penalty_fixed'', Penalty_fixed), (''waiver'', Waiver)]"

definition VALID_POLICIES :: "(string \<times> conflict_policy) list" where
  "VALID_POLICIES = [(''stack'', Stack), (''first_only'', First_only), (''best_for_student'', Best_for_student)]"

text \<open>The body of a request; a name or value that is missing or of another type is \<open>None\<close>.\<close>

record rule_body =
  rb_name :: "string option"
  rb_type :: string
  rb_value :: "jsnum option"
  rb_conditions :: "rule_conditions option"
  rb_priority :: "rat option"
  rb_policy :: "string option"
  rb_isActive :: "bool option"

datatype rule_error = Name_required | Bad_type | Bad_value | Bad_policy | DUPLICATE_RULE | Rule_not_found | Reason_required
  | Dry_run_incomplete

definition no_conditions :: rule_conditions where
  "no_conditions = \<lparr>cd_studentClass = [], cd_academicYear = None, cd_paymentBefore = None, cd_paymentAfter = None,
     cd_minAmount = None, cd_maxAmount = None\<rparr>"

definition validateBody :: "rule_body \<Rightarrow> rule_error option" where
  "validateBody body =
     (if (case rb_name body of None \<Rightarrow> True | Some n \<Rightarrow> trim n = []) then Some Name_required
      else if map_of VALID_TYPES (rb_type body) = None then Some Bad_type
      else if (case rb_value body of None \<Rightarrow> True | Some v \<Rightarrow> jless v (Fin 0)) then Some Bad_value
      else if (case rb_policy body of None \<Rightarrow> False | Some p \<Rightarrow> map_of VALID_POLICIES p = None) then Some Bad_policy
      else None)"

record fee_state =
  fa_rules :: "(nat \<times> adj_rule) list"
  fa_students :: "fee_student list"

text \<open>The document a request creates; the policy defaults to stacking, the priority to 10.\<close>

definition rule_of_body :: "string \<Rightarrow> rule_body \<Rightarrow> adj_rule" where
  "rule_of_body schoolId body =
     \<lparr>ar_schoolId = schoolId, ar_name = trim (the (rb_name body)), ar_type = the (map_of VALID_TYPES (rb_type body)),
      ar_value = the (rb_value body),
      ar_conditions = (case rb_conditions body of Some c \<Rightarrow> c | None \<Rightarrow> no_conditions),
      ar_priority = (case rb_priority body of Some n \<Rightarrow> n | None \<Rightarrow> 10),
      ar_policy = Some (case rb_policy body of Some p \<Rightarrow> the (map_of VALID_POLICIES p) | None \<Rightarrow> Stack),
      ar_isActive = True\<rparr>"

text \<open>The unique index over school and name.\<close>

definition name_taken :: "nat option \<Rightarrow> adj_rule \<Rightarrow> (nat \<times> adj_rule) list \<Rightarrow> bool" where
  "name_taken self r rules \<longleftrightarrow>
     list_ex (\<lambda>(i, s). Some i \<noteq> self \<and> ar_schoolId s = ar_schoolId r \<and> ar_name s = ar_name r) rules"

definition createRule :: "nat \<Rightarrow> string \<Rightarrow> rule_body \<Rightarrow> fee_state \<Rightarrow> fee_state \<times> (rule_error, adj_rule) result" where
  "createRule newId schoolId body st =
     (case validateBody body of
        Some e \<Rightarrow> (st, Inl e)
      | None \<Rightarrow>
          let r = rule_of_body schoolId body in
          if name_taken None r (fa_rules st) then (st, Inl DUPLICATE_RULE)
          else (st\<lparr>fa_rules := fa_rules st @ [(newId, r)]\<rparr>, Inr r))"

definition find_rule :: "nat \<Rightarrow> string \<Rightarrow> fee_state \<Rightarrow> adj_rule option" where
  "find_rule i schoolId st = map_option snd (find (\<lambda>(j, r). j = i \<and> ar_schoolId r = schoolId) (fa_rules st))"

definition put_rule :: "nat \<Rightarrow> adj_rule \<Rightarrow> fee_state \<Rightarrow> fee_state" where
  "put_rule i r st = st\<lparr>fa_rules := map (\<lambda>(j, s). if j = i then (j, r) else (j, s)) (fa_rules st)\<rparr>"

text \<open>Fields of the request that are missing leave the document's fields as they are.\<close>

definition updated_rule :: "rule_body \<Rightarrow> adj_rule \<Rightarrow> adj_rule" where
  "updated_rule body r =
     r\<lparr>ar_name := trim (the (rb_name body)), ar_type := the (map_of VALID_TYPES (rb_type body)),
       ar_value := the (rb_value body),
       ar_conditions := (case rb_conditions body of Some c \<Rightarrow> c | None \<Rightarrow> ar_conditions r),
       ar_priority := (case rb_priority body of Some n \<Rightarrow> n | None \<Rightarrow> ar_priority r),
       ar_policy := (case rb_policy body of Some p \<Rightarrow> map_of VALID_POLICIES p | None \<Rightarrow> ar_policy r),
       ar_isActive := (case rb_isActive body of Some b \<Rightarrow> b | None \<Rightarrow> ar_isActive r)\<rparr>"

definition updateRule :: "nat \<Rightarrow> string \<Rightarrow> rule_body \<Rightarrow> fee_state \<Rightarrow> fee_state \<times> (rule_error, adj_rule) result" where
  "updateRule i schoolId body st =
     (case validateBody body of
        Some e \<Rightarrow> (st, Inl e)
      | None \<Rightarrow>
          (case find_rule i schoolId st of
             None \<Rightarrow> (st, Inl Rule_not_found)
           | Some r \<Rightarrow>
               let r' = updated_rule body r in
               if name_taken (Some i) r' (fa_rules st) then (st, Inl DUPLICATE_RULE)
               else (put_rule i r' st, Inr r')))"

definition cohort :: "string \<Rightarrow> string option \<Rightarrow> string option \<Rightarrow> fee_student \<Rightarrow> bool" where
  "cohort schoolId studentClass academicYear s \<longleftrightarrow>
     fs_schoolId s = schoolId \<and> \<not> fs_deleted s
     \<and> (truthy_str studentClass \<longrightarrow> fs_class s = studentClass)
     \<and> (truthy_str academicYear \<longrightarrow> fs_academicYear s = academicYear)"

definition countAffectedStudents :: "string \<Rightarrow> adj_rule \<Rightarrow> fee_student list \<Rightarrow> nat" where
  "countAffectedStudents schoolId rule students =
     (let cond = ar_conditions rule in
      length (filter (\<lambda>s. cohort schoolId None (cd_academicYear cond) s
                \<and> (cd_studentClass cond = [] \<or> (\<exists>c\<in>set (cd_studentClass cond). fs_class s = Some c))) students))"

definition deleteRule :: "nat \<Rightarrow> string \<Rightarrow> string option \<Rightarrow> fee_state \<Rightarrow> fee_state \<times> (rule_error, nat) result" where
  "deleteRule i schoolId reason st =
     (if (case reason of None \<Rightarrow> True | Some t \<Rightarrow> trim t = []) then (st, Inl Reason_required)
      else (case find_rule i schoolId st of
              None \<Rightarrow> (st, Inl Rule_not_found)
            | Some r \<Rightarrow>
                (put_rule i (r\<lparr>ar_isActive := False\<rparr>) st,
                 Inr (countAffectedStudents schoolId r (fa_students st)))))"

definition student_ctx :: "string \<Rightarrow> millis option \<Rightarrow> fee_student \<Rightarrow> fee_ctx" where
  "student_ctx schoolId paymentDate s =
     \<lparr>cx_schoolId = schoolId, cx_student = s, cx_academicYear = fs_academicYear s, cx_paymentDate = paymentDate,
      cx_baseAmount = fs_feeAmount s\<rparr>"

subsubsection \<open>The dry run\<close>

record preview =
  pw_studentId :: string
  pw_currentFee :: jsnum
  pw_projectedFee :: jsnum
  pw_delta :: jsnum
  pw_ruleWouldApply :: bool
  pw_overpaymentRisk :: bool

definition preview_of ::
  "(string \<Rightarrow> string \<Rightarrow> int) \<Rightarrow> string \<Rightarrow> millis option \<Rightarrow> adj_rule \<Rightarrow> adj_rule list \<Rightarrow> fee_student \<Rightarrow> preview" where
  "preview_of localeCompare schoolId paymentDate rule existing s =
     (let ctx = student_ctx schoolId paymentDate s;
          now = applyRules (fs_feeAmount s) ctx existing;
          sim = simulateWithExtraWithRules localeCompare (fs_feeAmount s) ctx rule existing
      in \<lparr>pw_studentId = fs_studentId s, pw_currentFee = af_finalFee now, pw_projectedFee = af_finalFee (fst sim),
          pw_delta = jsub (af_finalFee (fst sim)) (af_finalFee now), pw_ruleWouldApply = snd sim,
          pw_overpaymentRisk = (case fs_totalPaid s of None \<Rightarrow> False | Some n \<Rightarrow> jless (af_finalFee (fst sim)) n)\<rparr>)"

record dry_summary =
  ds_totalStudents :: nat
  ds_affectedStudents :: nat
  ds_totalSavings :: jsnum
  ds_totalSurcharges :: jsnum
  ds_overpaymentRisks :: nat

definition dry_summary_of :: "preview list \<Rightarrow> dry_summary" where
  "dry_summary_of ps =
     (let changed = filter (\<lambda>p. pw_delta p \<noteq> Fin 0) ps in
      \<lparr>ds_totalStudents = length ps, ds_affectedStudents = length changed,
       ds_totalSavings = two_places (foldl (\<lambda>acc p. jadd acc (jabs (pw_delta p))) (Fin 0) (filter (\<lambda>p. jless (pw_delta p) (Fin 0)) changed)),
       ds_totalSurcharges = two_places (foldl (\<lambda>acc p. jadd acc (pw_delta p)) (Fin 0) (filter (\<lambda>p. \<not> jless (pw_delta p) (Fin 0)) changed)),
       ds_overpaymentRisks = length (filter pw_overpaymentRisk ps)\<rparr>)"

text \<open>The unsaved rule: a missing name becomes the name of a preview.\<close>

definition synthetic_rule :: "string \<Rightarrow> rule_body \<Rightarrow> rule_type \<Rightarrow> jsnum \<Rightarrow> adj_rule" where
  "synthetic_rule schoolId body type val =
     \<lparr>ar_schoolId = schoolId,
      ar_name = (case rb_name body of None \<Rightarrow> ''_dry_run_preview_'' | Some n \<Rightarrow> if n = [] then ''_dry_run_preview_'' else n),
      ar_type = type, ar_value = val,
      ar_conditions = (case rb_conditions body of Some c \<Rightarrow> c | None \<Rightarrow> no_conditions),
      ar_priority = (case rb_priority body of Some n \<Rightarrow> n | None \<Rightarrow> 10),
      ar_policy = Some (case rb_policy body of
                          None \<Rightarrow> Stack
                        | Some p \<Rightarrow> (case map_of VALID_POLICIES p of Some q \<Rightarrow> q | None \<Rightarrow> Stack)),
      ar_isActive = True\<rparr>"

definition dryRunRule ::
  "(string \<Rightarrow> string \<Rightarrow> int) \<Rightarrow> string \<Rightarrow> rule_body \<Rightarrow> string option \<Rightarrow> string option \<Rightarrow> millis option \<Rightarrow> fee_state
     \<Rightarrow> (rule_error, preview list \<times> dry_summary) result" where
  "dryRunRule localeCompare schoolId body studentClass academicYear paymentDate st =
     (if rb_type body = [] \<or> rb_value body = None then Inl Dry_run_incomplete
      else (case map_of VALID_TYPES (rb_type body) of
              None \<Rightarrow> Inl Bad_type
            | Some type \<Rightarrow>
                let rule = synthetic_rule schoolId body type (the (rb_value body));
                    students = filter (cohort schoolId studentClass academicYear) (fa_students st);
                    existing = fetchSortedRules localeCompare (map snd (fa_rules st)) schoolId;
                    previews = map (preview_of localeCompare schoolId paymentDate rule existing) students
                in Inr (previews, dry_summary_of previews)))"

subsubsection \<open>Applying the rules of a school to its students\<close>

definition or_zero_num :: "jsnum option \<Rightarrow> jsnum" where
  "or_zero_num x = (case x of Some n \<Rightarrow> if truthy_num n then n else Fin 0 | None \<Rightarrow> Fin 0)"

definition apply_to_student :: "string \<Rightarrow> millis option \<Rightarrow> adj_rule list \<Rightarrow> fee_student \<Rightarrow> fee_student" where
  "apply_to_student schoolId paymentDate rules s =
     (let newFee = af_finalFee (applyRules (fs_feeAmount s) (student_ctx schoolId paymentDate s) rules);
          paid = or_zero_num (fs_totalPaid s);
          remaining = jmax (Fin 0) (jsub newFee paid)
      in if newFee = fs_feeAmount s \<and> newFee \<noteq> NaN then s
         else s\<lparr>fs_feeAmount := newFee, fs_remainingBalance := remaining,
                fs_feePaid := (if remaining = Fin 0 \<and> jless (Fin 0) newFee then jleq newFee paid else fs_feePaid s)\<rparr>)"

definition apply_overpayment :: "string \<Rightarrow> millis option \<Rightarrow> adj_rule list \<Rightarrow> fee_student \<Rightarrow> (string \<times> jsnum) option" where
  "apply_overpayment schoolId paymentDate rules s =
     (let newFee = af_finalFee (applyRules (fs_feeAmount s) (student_ctx schoolId paymentDate s) rules);
          paid = or_zero_num (fs_totalPaid s)
      in if (newFee = fs_feeAmount s \<and> newFee \<noteq> NaN) \<or> \<not> jless newFee paid then None
         else Some (fs_studentId s, two_places (jsub paid newFee)))"

definition applyRule ::
  "(string \<Rightarrow> string \<Rightarrow> int) \<Rightarrow> nat \<Rightarrow> string \<Rightarrow> string option \<Rightarrow> string option \<Rightarrow> millis option \<Rightarrow> fee_state
     \<Rightarrow> fee_state \<times> (rule_error, (string \<times> jsnum) list) result" where
  "applyRule localeCompare i schoolId studentClass academicYear paymentDate st =
     (case find_rule i schoolId st of
        None \<Rightarrow> (st, Inl Rule_not_found)
      | Some r \<Rightarrow>
          if \<not> ar_isActive r then (st, Inl Rule_not_found)
          else
            let rules = fetchSortedRules localeCompare (map snd (fa_rules st)) schoolId;
                member = cohort schoolId studentClass academicYear
            in (st\<lparr>fa_students := map (\<lambda>s. if member s then apply_to_student schoolId paymentDate rules s else s) (fa_students st)\<rparr>,
                Inr (List.map_filter (apply_overpayment schoolId paymentDate rules) (filter member (fa_students st)))))"

subsection \<open>Sorting by a comparison function\<close>

text \<open>
  The contract of a comparison function that the sort relies on: it compares any two values, one way
  or the other, and consistently.
\<close>

locale comparison =
  fixes cmp :: "'a \<Rightarrow> 'a \<Rightarrow> int"
  assumes total: "cmp x y \<le> 0 \<or> cmp y x \<le> 0"
    and trans: "cmp x y \<le> 0 \<Longrightarrow> cmp y z \<le> 0 \<Longrightarrow> cmp x z \<le> 0"
begin

abbreviation le :: "'a \<Rightarrow> 'a \<Rightarrow> bool" where
  "le x y \<equiv> cmp x y \<le> 0"

lemma insert_sorted_set: "set (insert_sorted cmp x xs) = insert x (set xs)"
  by (induction xs) auto

lemma insert_sorted_mset: "mset (insert_sorted cmp x xs) = add_mset x (mset xs)"
  by (induction xs) auto

lemma insert_sorted_sorted: "sorted_wrt le xs \<Longrightarrow> sorted_wrt le (insert_sorted cmp x xs)"
proof (induction xs)
  case (Cons y ys)
  show ?case
  proof (cases "cmp x y \<le> 0")
    case True
    then show ?thesis using Cons.prems trans [OF True] by auto
  next
    case False
    then have "cmp y x \<le> 0" using total [of x y] by simp
    with False Cons show ?thesis by (simp add: insert_sorted_set)
  qed
qed simp

lemma js_sort_sorted: "sorted_wrt le (js_sort cmp xs)"
  unfolding js_sort_def by (induction xs) (simp_all add: insert_sorted_sorted)

lemma js_sort_mset: "mset (js_sort cmp xs) = mset xs"
  unfolding js_sort_def by (induction xs) (simp_all add: insert_sorted_mset)

lemma sorted_unique:
  "sorted_wrt le xs \<Longrightarrow> sorted_wrt le ys \<Longrightarrow> mset xs = mset ys
   \<Longrightarrow> (\<And>x y. x \<in> set xs \<Longrightarrow> y \<in> set xs \<Longrightarrow> le x y \<Longrightarrow> le y x \<Longrightarrow> x = y) \<Longrightarrow> xs = ys"
proof (induction xs arbitrary: ys)
  case (Cons x xs)
  then obtain y zs where ys: "ys = y # zs" by (cases ys) auto
  have set: "insert x (set xs) = insert y (set zs)" using Cons.prems(3) unfolding ys by (metis list.simps(15) mset_eq_setD)
  have "x = y"
  proof (rule Cons.prems(4))
    show "x \<in> set (x # xs)" by simp
    show "y \<in> set (x # xs)" using set by auto
    have refl: "le z z" for z using total [of z z] by simp
    have "y \<in> insert x (set xs)" "x \<in> insert y (set zs)" using set by auto
    then show "le x y" "le y x" using Cons.prems(1,2) refl unfolding ys by auto
  qed
  moreover have "xs = zs"
  proof (rule Cons.IH)
    show "sorted_wrt le xs" "sorted_wrt le zs" using Cons.prems(1,2) by (simp_all add: ys)
    show "mset xs = mset zs" using Cons.prems(3) \<open>x = y\<close> by (simp add: ys)
    show "a = b" if "a \<in> set xs" "b \<in> set xs" "le a b" "le b a" for a b using Cons.prems(4) that by simp
  qed
  ultimately show ?case by (simp add: ys)
qed simp

text \<open>With no two equal elements the sorted list depends only on what is in it.\<close>

lemma js_sort_canonical:
  assumes "mset xs = mset ys"
    and "\<And>x y. x \<in> set xs \<Longrightarrow> y \<in> set xs \<Longrightarrow> le x y \<Longrightarrow> le y x \<Longrightarrow> x = y"
  shows "js_sort cmp xs = js_sort cmp ys"
proof (rule sorted_unique [OF js_sort_sorted js_sort_sorted])
  show "mset (js_sort cmp xs) = mset (js_sort cmp ys)" using assms(1) by (simp add: js_sort_mset)
  have "set (js_sort cmp xs) = set xs" using js_sort_mset by (metis mset_eq_setD)
  then show "x = y" if "x \<in> set (js_sort cmp xs)" "y \<in> set (js_sort cmp xs)" "le x y" "le y x" for x y
    using assms(2) that by simp
qed

text \<open>
  The sort is stable: values that compare as equal stay in their order. So sorting a part of the input first
  makes no difference.
\<close>

lemma insert_sorted_commute:
  "\<not> le x y \<Longrightarrow> insert_sorted cmp y (insert_sorted cmp x zs) = insert_sorted cmp x (insert_sorted cmp y zs)"
proof (induction zs)
  case (Cons z zs)
  then have "le y x" using total by blast
  then show ?case using Cons trans by auto
qed (use total in auto)

lemma foldr_insert_sorted:
  "foldr (insert_sorted cmp) (insert_sorted cmp x ys) acc = insert_sorted cmp x (foldr (insert_sorted cmp) ys acc)"
  by (induction ys) (auto intro: insert_sorted_commute)

lemma js_sort_prefix: "js_sort cmp (js_sort cmp xs @ ys) = js_sort cmp (xs @ ys)"
proof -
  have "foldr (insert_sorted cmp) (foldr (insert_sorted cmp) xs []) acc = foldr (insert_sorted cmp) xs acc" for acc
    by (induction xs) (simp_all add: foldr_insert_sorted)
  then show ?thesis by (simp add: js_sort_def)
qed

end

text \<open>
  What is relied on of the order of names: it is a consistent comparison. Different names may compare as equal,
  as canonically equivalent strings do; \<open>told_apart\<close> says of some names that they do not.
\<close>

definition name_order :: "(string \<Rightarrow> string \<Rightarrow> int) \<Rightarrow> bool" where
  "name_order lc \<longleftrightarrow> (\<forall>a b. lc a b \<le> 0 \<or> lc b a \<le> 0) \<and> (\<forall>a b c. lc a b \<le> 0 \<longrightarrow> lc b c \<le> 0 \<longrightarrow> lc a c \<le> 0)"

definition told_apart :: "(string \<Rightarrow> string \<Rightarrow> int) \<Rightarrow> string set \<Rightarrow> bool" where
  "told_apart lc names \<longleftrightarrow> (\<forall>a \<in> names. \<forall>b \<in> names. lc a b \<le> 0 \<longrightarrow> lc b a \<le> 0 \<longrightarrow> a = b)"

lemma rule_cmp_le:
  "rule_cmp lc a b \<le> 0 \<longleftrightarrow>
     ar_priority a < ar_priority b \<or> ar_priority a = ar_priority b \<and> lc (ar_name a) (ar_name b) \<le> 0"
  by (auto simp: rule_cmp_def)

lemma rule_cmp_comparison:
  assumes "name_order lc"
  shows "comparison (rule_cmp lc)"
proof
  fix x y z :: adj_rule
  show "rule_cmp lc x y \<le> 0 \<or> rule_cmp lc y x \<le> 0"
    using assms unfolding name_order_def rule_cmp_le by (meson linorder_less_linear)
  have tr: "lc a b \<le> 0 \<Longrightarrow> lc b c \<le> 0 \<Longrightarrow> lc a c \<le> 0" for a b c using assms unfolding name_order_def by blast
  show "rule_cmp lc x z \<le> 0" if "rule_cmp lc x y \<le> 0" "rule_cmp lc y z \<le> 0"
    using that tr unfolding rule_cmp_le by force
qed

lemma rule_cmp_eq:
  assumes "told_apart lc names" "ar_name a \<in> names" "ar_name b \<in> names" "rule_cmp lc a b \<le> 0" "rule_cmp lc b a \<le> 0"
  shows "ar_name a = ar_name b"
proof -
  have "lc (ar_name a) (ar_name b) \<le> 0 \<and> lc (ar_name b) (ar_name a) \<le> 0"
    using assms(4,5) unfolding rule_cmp_le by linarith
  with assms(1-3) show ?thesis unfolding told_apart_def by blast
qed

text \<open>The order of the code units of the names.\<close>

definition code_unit_order :: "string \<Rightarrow> string \<Rightarrow> int" where
  "code_unit_order a b = (if a < b then - 1 else if b < a then 1 else 0)"

lemma code_unit_order_law: "name_order code_unit_order"
  unfolding name_order_def by (auto simp: code_unit_order_def split: if_splits)

lemma code_unit_order_apart: "told_apart code_unit_order names"
  unfolding told_apart_def by (auto simp: code_unit_order_def split: if_splits)

interpretation by_code_unit: comparison "rule_cmp code_unit_order"
  by (rule rule_cmp_comparison [OF code_unit_order_law])


lemma sort_rules_canonical:
  assumes "name_order lc" "told_apart lc names" "mset xs = mset ys" "inj_on ar_name (set xs)" "ar_name ` set xs \<subseteq> names"
  shows "js_sort (rule_cmp lc) xs = js_sort (rule_cmp lc) ys"
proof (rule comparison.js_sort_canonical [OF rule_cmp_comparison [OF assms(1)] assms(3)])
  fix x y assume xy: "x \<in> set xs" "y \<in> set xs" "rule_cmp lc x y \<le> 0" "rule_cmp lc y x \<le> 0"
  then have "ar_name x = ar_name y" using rule_cmp_eq [OF assms(2)] assms(5) by blast
  then show "x = y" using assms(4) xy(1,2) by (simp add: inj_onD)
qed

subsection \<open>A discount only lowers a fee\<close>

text \<open>A number that is not negative, with no rounding left to do, or the infinity above them all.\<close>

definition amount_like :: "jsnum \<Rightarrow> bool" where
  "amount_like x \<longleftrightarrow> x = PInf \<or> (\<exists>a \<ge> 0. x = Fin a)"

lemma to_num_cases: "0 \<le> x \<Longrightarrow> to_num x = PInf \<or> to_num x = Fin (round64 x)"
  using round64_nonneg [of x] by (auto simp: to_num_def Let_def)

lemma amount_like_percent: "0 \<le> a \<Longrightarrow> 0 \<le> v \<Longrightarrow> amount_like (jdiv (jmul (Fin a) (Fin v)) (Fin 100))"
proof -
  assume av: "0 \<le> a" "0 \<le> v"
  then have "to_num (a * v) = PInf \<or> to_num (a * v) = Fin (round64 (a * v))" by (intro to_num_cases) simp
  then show ?thesis
  proof
    assume "to_num (a * v) = Fin (round64 (a * v))"
    moreover have "0 \<le> round64 (a * v) / 100" using av by (simp add: round64_nonneg)
    ultimately show ?thesis
      using to_num_cases [of "round64 (a * v) / 100"] round64_nonneg [of "round64 (a * v) / 100"]
      by (auto simp: amount_like_def)
  qed (simp add: amount_like_def jinf_def)
qed

definition lowering :: "adj_rule \<Rightarrow> bool" where
  "lowering r \<longleftrightarrow> (is_discount (ar_type r) \<or> ar_type r = Waiver) \<and> (\<exists>v \<ge> 0. ar_value r = Fin v)"

lemma lowering_amount:
  assumes "lowering r" "0 \<le> a"
  shows "\<exists>d. adjustmentAmount (Fin a) r = jneg d \<and> amount_like d"
proof -
  obtain v where v: "0 \<le> v" "ar_value r = Fin v" using assms(1) by (auto simp: lowering_def)
  have fin: "amount_like (Fin x)" if "0 \<le> x" for x using that by (simp add: amount_like_def)
  from assms(1) consider "ar_type r = Discount_percentage" | "ar_type r = Discount_fixed" | "ar_type r = Waiver"
    by (auto simp: lowering_def is_discount_def)
  then show ?thesis
  proof cases
    case 1
    then show ?thesis using amount_like_percent [OF assms(2) v(1)] v(2) by (auto simp: adjustmentAmount_def simp del: jmul.simps)
  next
    case 2
    then show ?thesis using fin [OF v(1)] v(2) unfolding adjustmentAmount_def by (intro exI [of _ "Fin v"]) simp
  next
    case 3
    then show ?thesis using fin [OF assms(2)] unfolding adjustmentAmount_def by (intro exI [of _ "Fin a"]) simp
  qed
qed

lemma lowered:
  assumes "lowering r" "0 \<le> a" "round64 a = a" "a \<le> 2 ^ 1000"
  shows "\<exists>b. adjusted (Fin a) r = Fin b \<and> 0 \<le> b \<and> b \<le> a \<and> round64 b = b"
proof -
  obtain d where d: "adjustmentAmount (Fin a) r = jneg d" "amount_like d" using lowering_amount assms(1,2) by blast
  show ?thesis
  proof (cases "\<exists>c. d = Fin c \<and> c \<le> a")
    case True
    then obtain c where c: "d = Fin c" "c \<le> a" "0 \<le> c" using d(2) by (auto simp: amount_like_def)
    have r: "0 \<le> round64 (a - c)" "round64 (a - c) \<le> a"
      using round64_nonneg [of "a - c"] round64_mono [of "a - c" a] c assms(3) by simp_all
    have "to_num (a - c) = Fin (round64 (a - c))" using c assms(4) by (intro to_num_finite) (simp add: abs_le_iff)
    then have "adjusted (Fin a) r = Fin (round64 (a - c))"
      using r by (simp add: adjusted_def d(1) c(1) jmax_def)
    with r show ?thesis by auto
  next
    case False
    have "adjusted (Fin a) r = Fin 0"
    proof (cases d)
      case (Fin c)
      with False have "c - a \<ge> 0" by simp
      then have "round64 (a - c) \<le> 0" by (intro round64_nonpos) simp
      then have "to_num (a - c) = NInf \<or> (\<exists>b \<le> 0. to_num (a - c) = Fin b)"
        using zero_less_power [of "2 :: rat" 1024] by (auto simp: to_num_def Let_def simp del: zero_less_power)
      then show ?thesis by (auto simp: adjusted_def d(1) Fin jmax_def)
    qed (use d(2) in \<open>auto simp: adjusted_def d(1) amount_like_def jmax_def\<close>)
    with assms(2) show ?thesis by auto
  qed
qed

lemma apply_loop_lowering:
  "list_all lowering rules \<Longrightarrow> 0 \<le> a \<Longrightarrow> round64 a = a \<Longrightarrow> a \<le> 2 ^ 1000
   \<Longrightarrow> \<exists>b. fst (apply_loop p (Fin a) don rules) = Fin b \<and> 0 \<le> b \<and> b \<le> a \<and> round64 b = b"
proof (induction rules arbitrary: p a don)
  case (Cons r rules)
  obtain b where b: "adjusted (Fin a) r = Fin b" "0 \<le> b" "b \<le> a" "round64 b = b"
    using lowered [of r a] Cons.prems by auto
  have IH: "\<exists>c. fst (apply_loop q (Fin b) d rules) = Fin c \<and> 0 \<le> c \<and> c \<le> a \<and> round64 c = c" for q d
    using Cons.IH [of b q d] Cons.prems b by fastforce
  have IH': "\<exists>c. fst (apply_loop q (Fin a) d rules) = Fin c \<and> 0 \<le> c \<and> c \<le> a \<and> round64 c = c" for q d
    using Cons.IH [of a q d] Cons.prems by simp
  show ?case using IH IH' b Cons.prems by (simp add: Let_def)
qed simp

lemma pow2_number: "round64 (2 ^ k) = 2 ^ k"
  using round64_scaled [of 1 "int k"] by (simp add: pow2_def)

lemma cents_mono:
  assumes "0 \<le> b" "b \<le> a" "a \<le> 2 ^ 900"
  shows "\<exists>y z. cents (Fin b) = Fin y \<and> cents (Fin a) = Fin z \<and> 0 \<le> y \<and> y \<le> z"
proof -
  have one: "\<exists>r n. cents (Fin x) = Fin (round64 (of_int n / 100)) \<and> n = \<lfloor>r + 1 / 2\<rfloor> \<and> r = round64 (x * 100) \<and> 0 \<le> r"
    if "0 \<le> x" "x \<le> 2 ^ 900" for x
  proof -
    have x100: "x * 100 \<le> 2 ^ 910" using that(2) by simp
    have big: "(2 :: rat) ^ 910 \<le> 2 ^ 1000" by (rule power_increasing) simp_all
    define r where "r = round64 (x * 100)"
    have "round64 (x * 100) \<le> round64 (2 ^ 910)" using that(1) x100 by (intro round64_mono) simp_all
    then have r: "0 \<le> r" "r \<le> 2 ^ 910"
      unfolding pow2_number r_def [symmetric] using round64_nonneg [of "x * 100"] that(1) by (simp_all only: r_def)
    have "to_num (x * 100) = Fin r" unfolding r_def using that(1) x100 big by (intro to_num_finite) linarith
    moreover have "to_num (of_int \<lfloor>r + 1 / 2\<rfloor> / 100) = Fin (round64 (of_int \<lfloor>r + 1 / 2\<rfloor> / 100))"
    proof (rule to_num_finite)
      have q: "(of_int \<lfloor>r + 1 / 2\<rfloor> :: rat) \<le> r + 1 / 2" "0 \<le> (of_int \<lfloor>r + 1 / 2\<rfloor> :: rat)" using r(1) by simp_all
      have "of_int \<lfloor>r + 1 / 2\<rfloor> / 100 \<le> r + 1" using q r(1) by linarith
      also have "\<dots> \<le> 2 ^ 910 + 2 ^ 910" using r(2) one_le_power [of "2 :: rat" 910] by (intro add_mono) simp_all
      also have "\<dots> = 2 ^ 911" by simp
      also have "\<dots> \<le> (2 :: rat) ^ 1000" by (rule power_increasing) simp_all
      finally show "\<bar>of_int \<lfloor>r + 1 / 2\<rfloor> / 100\<bar> \<le> (2 ^ 1000 :: rat)" using q(2) by simp
    qed
    ultimately show ?thesis using r(1) by (auto simp: cents_def r_def)
  qed
  obtain rb nb where B: "cents (Fin b) = Fin (round64 (of_int nb / 100))" "nb = \<lfloor>rb + 1 / 2\<rfloor>" "rb = round64 (b * 100)" "0 \<le> rb"
    using one [of b] assms by auto
  obtain ra na where A: "cents (Fin a) = Fin (round64 (of_int na / 100))" "na = \<lfloor>ra + 1 / 2\<rfloor>" "ra = round64 (a * 100)"
    using one [of a] assms by auto
  have "rb \<le> ra" unfolding B(3) A(3) using assms by (intro round64_mono) simp_all
  then have "nb \<le> na" unfolding B(2) A(2) by (intro floor_mono) simp
  then have le: "(of_int nb / 100 :: rat) \<le> of_int na / 100" by simp
  have "0 \<le> nb" unfolding B(2) using B(4) by simp
  then have nn: "0 \<le> (of_int nb / 100 :: rat)" by simp
  show ?thesis using B(1) A(1) round64_mono [OF nn le] round64_nonneg [OF nn] by blast
qed

subsection \<open>Rules stay unique\<close>

definition rules_unique :: "fee_state \<Rightarrow> bool" where
  "rules_unique st \<longleftrightarrow> distinct (map fst (fa_rules st))
     \<and> distinct (map (\<lambda>(i, r). (ar_schoolId r, ar_name r)) (fa_rules st))"

lemma unique_names_inj:
  "rules_unique st \<Longrightarrow> inj_on ar_name (set (filter (\<lambda>r. ar_isActive r \<and> ar_schoolId r = schoolId) (map snd (fa_rules st))))"
  by (rule inj_onI) (auto simp: rules_unique_def distinct_map inj_on_def case_prod_unfold)

lemma create_unique:
  "rules_unique st \<Longrightarrow> newId \<notin> fst ` set (fa_rules st) \<Longrightarrow> rules_unique (fst (createRule newId schoolId body st))"
  by (auto simp: rules_unique_def createRule_def name_taken_def list_ex_iff Let_def split: option.splits)

subsection \<open>What the policies do\<close>

lemma apply_loop_first_only: "don \<noteq> [] \<Longrightarrow> apply_loop (Some First_only) fee don rules = (fee, don)"
  by (cases rules) (simp_all add: policy_of_def)

lemma apply_loop_best:
  "length (filter (\<lambda>a. is_discount (ad_type a)) don) \<le> Suc 0
   \<Longrightarrow> length (filter (\<lambda>a. is_discount (ad_type a)) (snd (apply_loop (Some Best_for_student) fee don rules))) \<le> Suc 0"
proof (induction rules arbitrary: fee don)
  case (Cons r rules)
  have ex: "list_ex (\<lambda>a. is_discount (ad_type a)) don \<longleftrightarrow> filter (\<lambda>a. is_discount (ad_type a)) don \<noteq> []"
    by (simp add: list_ex_iff filter_empty_conv)
  show ?case
    using Cons.prems by (auto simp: policy_of_def Let_def ex adjustment_of_def intro!: Cons.IH)
qed simp

lemma apply_loop_stack:
  "list_all (\<lambda>r. ar_type r \<noteq> Waiver) rules
   \<Longrightarrow> apply_loop (Some Stack) fee don rules
       = (foldl adjusted fee rules, don @ snd (foldl (\<lambda>(f, ads) r. (adjusted f r, ads @ [adjustment_of f r])) (fee, []) rules))"
proof (induction rules arbitrary: fee don)
  case (Cons r rules)
  have shift: "snd (foldl (\<lambda>(f, ads) r. (adjusted f r, ads @ [adjustment_of f r])) (f0, ads0) rs)
      = ads0 @ snd (foldl (\<lambda>(f, ads) r. (adjusted f r, ads @ [adjustment_of f r])) (f0, []) rs)" for f0 ads0 rs
  proof (induction rs arbitrary: f0 ads0)
    case (Cons q rs)
    show ?case by (simp add: Cons.IH [of _ "ads0 @ _"] Cons.IH [of _ "[adjustment_of f0 q]"])
  qed simp
  show ?case
    using Cons by (simp add: policy_of_def Let_def shift [of _ "[adjustment_of fee r]"])
qed simp

subsection \<open>Properties\<close>

text \<open>The adjusted fee does not depend on the order in which the rules are stored, or the database
  returns them: with no two rules of one name in a school, which the unique index ensures, and no
  two names that compare as equal, the order of evaluation is fully determined.\<close>

theorem adjusted_fee_order_independent:
  assumes "name_order lc" "told_apart lc (ar_name ` set rules)" "mset rules = mset rules'"
    and "inj_on (\<lambda>r. (ar_schoolId r, ar_name r)) (set rules)"
  shows "calculateAdjustedFee lc rules fee ctx = calculateAdjustedFee lc rules' fee ctx"
proof -
  let ?P = "\<lambda>r. ar_isActive r \<and> ar_schoolId r = cx_schoolId ctx"
  have "inj_on ar_name (set (filter ?P rules))" using assms(4) by (auto simp: inj_on_def)
  moreover have "mset (filter ?P rules) = mset (filter ?P rules')" using assms(3) by (simp only: mset_filter)
  ultimately have "fetchSortedRules lc rules (cx_schoolId ctx) = fetchSortedRules lc rules' (cx_schoolId ctx)"
    unfolding fetchSortedRules_def by (intro sort_rules_canonical [OF assms(1,2)]) auto
  then show ?thesis by (simp add: calculateAdjustedFee_def)
qed

text \<open>A rule of an example school.\<close>

definition example_rule :: "string \<Rightarrow> rule_type \<Rightarrow> int \<Rightarrow> conflict_policy \<Rightarrow> adj_rule" where
  "example_rule n t v p =
     \<lparr>ar_schoolId = ''s1'', ar_name = n, ar_type = t, ar_value = IntN v, ar_conditions = no_conditions, ar_priority = 10,
      ar_policy = Some p, ar_isActive = True\<rparr>"

definition example_student :: "int \<Rightarrow> int \<Rightarrow> bool \<Rightarrow> fee_student" where
  "example_student fee paid fp =
     \<lparr>fs_schoolId = ''s1'', fs_studentId = ''STU001'', fs_class = Some ''JSS1'', fs_academicYear = None,
      fs_feeAmount = IntN fee, fs_totalPaid = Some (IntN paid), fs_remainingBalance = Fin 0, fs_feePaid = fp, fs_deleted = False\<rparr>"

theorem adjusted_fee_order_independent_witness:
  "calculateAdjustedFee code_unit_order
      [example_rule ''a'' Discount_percentage 5 Stack, example_rule ''b'' Penalty_fixed 7 Stack] (IntN 1000) (student_ctx ''s1'' (Some 0) (example_student 1000 0 False))
   = calculateAdjustedFee code_unit_order
      [example_rule ''b'' Penalty_fixed 7 Stack, example_rule ''a'' Discount_percentage 5 Stack] (IntN 1000) (student_ctx ''s1'' (Some 0) (example_student 1000 0 False))"
  by (rule adjusted_fee_order_independent [OF code_unit_order_law code_unit_order_apart]) (simp_all add: example_rule_def)

text \<open>Discounts and waivers never raise a fee and never make it negative, although percentages are
  computed in floating point: for a fee up to \<open>2^900\<close> the result lies between zero and the fee itself
  rounded to cents.\<close>

theorem discounts_bounded:
  assumes "list_all lowering rules" "0 \<le> a" "round64 a = a" "a \<le> 2 ^ 900"
  shows "jleq (Fin 0) (af_finalFee (applyRules (Fin a) ctx rules))
    \<and> jleq (af_finalFee (applyRules (Fin a) ctx rules)) (cents (Fin a))"
proof -
  let ?rules = "filter (\<lambda>r. ruleApplies r ctx) rules"
  have rules: "list_all lowering ?rules" using assms(1) by (auto simp: list_all_iff)
  have "(2 ^ 900 :: rat) \<le> 2 ^ 1000" by (rule power_increasing) simp_all
  with assms(4) have a: "a \<le> 2 ^ 1000" by (rule order_trans)
  obtain b where b: "fst (apply_loop None (Fin a) [] ?rules) = Fin b" "0 \<le> b" "b \<le> a"
    using apply_loop_lowering [OF rules assms(2,3) a, of None "[]"] by blast
  obtain y z where yz: "cents (Fin b) = Fin y" "cents (Fin a) = Fin z" "0 \<le> y" "y \<le> z"
    using cents_mono [OF b(2,3) assms(4)] by blast
  have "af_finalFee (applyRules (Fin a) ctx rules) = Fin y"
    using b(1) yz(1) by (simp add: applyRules_def Let_def case_prod_unfold)
  then show ?thesis using yz by (auto simp: jleq_def)
qed

theorem discounts_bounded_witness:
  "jleq (af_finalFee (applyRules (Fin 1000) (student_ctx ''s1'' None (example_student 1000 0 False))
     [example_rule ''a'' Discount_percentage 5 Stack])) (cents (Fin 1000))"
  using discounts_bounded [of "[example_rule ''a'' Discount_percentage 5 Stack]" 1000
      "student_ctx ''s1'' None (example_student 1000 0 False)"] round64_int [of 1000]
  by (simp add: lowering_def example_rule_def is_discount_def)

text \<open>How rules that apply together combine is governed by the first of them. Under
  \<^verbatim>\<open>first_only\<close> exactly that one is applied; under \<^verbatim>\<open>best_for_student\<close> at most one discount is; under
  \<^verbatim>\<open>stack\<close>, without waivers, each rule in turn changes the fee its predecessors left.\<close>

theorem conflict_policies:
  "(policy_of None r = First_only \<longrightarrow> apply_loop None fee [] (r # rs) = (adjusted fee r, [adjustment_of fee r]))
   \<and> (policy_of None r = Best_for_student \<longrightarrow>
       length (filter (\<lambda>a. is_discount (ad_type a)) (snd (apply_loop None fee [] (r # rs)))) \<le> Suc 0)
   \<and> (policy_of None r = Stack \<longrightarrow> list_all (\<lambda>q. ar_type q \<noteq> Waiver) (r # rs) \<longrightarrow>
       apply_loop None fee [] (r # rs)
         = (foldl adjusted fee (r # rs),
            snd (foldl (\<lambda>(f, ads) q. (adjusted f q, ads @ [adjustment_of f q])) (fee, []) (r # rs))))"
proof (intro conjI impI)
  assume "policy_of None r = First_only"
  then show "apply_loop None fee [] (r # rs) = (adjusted fee r, [adjustment_of fee r])"
    by (simp add: Let_def apply_loop_first_only)
next
  assume p: "policy_of None r = Best_for_student"
  then have "apply_loop None fee [] (r # rs) = apply_loop (Some Best_for_student) fee [] (r # rs)"
    by (simp add: Let_def) (simp add: policy_of_def)
  then show "length (filter (\<lambda>a. is_discount (ad_type a)) (snd (apply_loop None fee [] (r # rs)))) \<le> Suc 0"
    using apply_loop_best [of "[]" fee "r # rs"] by (simp del: apply_loop.simps)
next
  assume p: "policy_of None r = Stack" and w: "list_all (\<lambda>q. ar_type q \<noteq> Waiver) (r # rs)"
  have "apply_loop None fee [] (r # rs) = apply_loop (Some Stack) fee [] (r # rs)"
    using p by (simp add: Let_def) (simp add: policy_of_def)
  then show "apply_loop None fee [] (r # rs) = (foldl adjusted fee (r # rs),
      snd (foldl (\<lambda>(f, ads) q. (adjusted f q, ads @ [adjustment_of f q])) (fee, []) (r # rs)))"
    using apply_loop_stack [OF w, of fee "[]"] by (simp del: apply_loop.simps)
qed

theorem conflict_policies_witness:
  "snd (apply_loop None (Fin 1000) [] [example_rule ''a'' Discount_percentage 5 First_only, example_rule ''b'' Penalty_fixed 7 Stack])
     = [adjustment_of (Fin 1000) (example_rule ''a'' Discount_percentage 5 First_only)]"
  using conflict_policies [of "example_rule ''a'' Discount_percentage 5 First_only" "Fin 1000" "[example_rule ''b'' Penalty_fixed 7 Stack]"]
  by (simp add: policy_of_def example_rule_def del: apply_loop.simps)

subsubsection \<open>The dry run and the application\<close>

lemma valid_body_name: "validateBody body = None \<Longrightarrow> rb_name body = Some n \<Longrightarrow> trim n \<noteq> []"
  by (auto simp: validateBody_def split: if_splits)

lemma valid_body_type: "validateBody body = None \<Longrightarrow> \<exists>t. map_of VALID_TYPES (rb_type body) = Some t"
  unfolding validateBody_def by (cases "map_of VALID_TYPES (rb_type body)") (simp_all split: if_splits)

lemma valid_body_policy: "validateBody body = None \<Longrightarrow> rb_policy body = Some p \<Longrightarrow> \<exists>q. map_of VALID_POLICIES p = Some q"
  unfolding validateBody_def by (cases "map_of VALID_POLICIES p") (simp_all split: if_splits)

lemma synthetic_is_created:
  assumes "validateBody body = None" "rb_name body = Some n" "trim n = n"
  shows "synthetic_rule schoolId body (the (map_of VALID_TYPES (rb_type body))) (the (rb_value body)) = rule_of_body schoolId body"
proof -
  have "n \<noteq> []" using valid_body_name [OF assms(1,2)] assms(3) by auto
  then show ?thesis
    using assms(2,3) valid_body_policy [OF assms(1)]
    by (cases "rb_policy body") (auto simp: synthetic_rule_def rule_of_body_def)
qed

lemma filter_updated:
  "(\<And>s. P (f s) = P s) \<Longrightarrow> filter P (map (\<lambda>s. if P s then f s else s) xs) = map f (filter P xs)"
  by (induction xs) auto

lemma apply_to_student_fee:
  "fs_feeAmount (apply_to_student schoolId d rules s) = af_finalFee (applyRules (fs_feeAmount s) (student_ctx schoolId d s) rules)"
  by (simp add: apply_to_student_def Let_def)

lemma apply_to_student_cohort:
  "cohort schoolId c y (apply_to_student schoolId d rules s) = cohort schoolId c y s"
  by (simp add: apply_to_student_def Let_def cohort_def)

lemma fetch_with_extra:
  assumes "name_order lc" "ar_isActive r" "ar_schoolId r = schoolId"
  shows "js_sort (rule_cmp lc) (fetchSortedRules lc (map snd (fa_rules st)) schoolId @ [r])
    = fetchSortedRules lc (map snd (fa_rules st @ [(newId, r)])) schoolId"
  using assms(2,3) by (simp add: fetchSortedRules_def comparison.js_sort_prefix [OF rule_cmp_comparison [OF assms(1)]])

text \<open>C27: The preview is what happens. When a rule whose name has no white space around it (which the creation would trim and
  the preview does not) is previewed, then created as shown and applied to the same students at the same
  date, with no change to rules and students between, every student of the cohort has exactly the fee that
  the preview projected. The order of names is any consistent comparison; where it takes two names for equal, the stable sort
  keeps the order in which the database returns the rules, that of their creation.\<close>

theorem dry_run_predicts_apply:
  assumes "name_order lc" and "rb_name body = Some n" "trim n = n"
    and "dryRunRule lc schoolId body cls year date st = Inr (previews, summary)"
    and "createRule newId schoolId body st = (st1, Inr r)"
    and "applyRule lc newId schoolId cls year date st1 = (st2, Inr over)"
  shows "map pw_projectedFee previews = map fs_feeAmount (filter (cohort schoolId cls year) (fa_students st2))"
proof -
  have valid: "validateBody body = None" and r: "r = rule_of_body schoolId body"
    and st1: "st1 = st\<lparr>fa_rules := fa_rules st @ [(newId, r)]\<rparr>"
    using assms(5) by (auto simp: createRule_def Let_def split: option.splits if_splits)
  have act: "ar_isActive r" "ar_schoolId r = schoolId" by (simp_all add: r rule_of_body_def)
  let ?existing = "fetchSortedRules lc (map snd (fa_rules st)) schoolId"
  let ?rules = "fetchSortedRules lc (map snd (fa_rules st1)) schoolId"
  have rules: "js_sort (rule_cmp lc) (?existing @ [r]) = ?rules"
    using fetch_with_extra [OF assms(1) act, of st newId] by (simp add: st1)
  obtain t where t: "map_of VALID_TYPES (rb_type body) = Some t" using valid_body_type [OF valid] by blast
  have syn: "synthetic_rule schoolId body t (the (rb_value body)) = r"
    using synthetic_is_created [OF valid assms(2,3), of schoolId] by (simp add: t r)
  have previews: "previews = map (preview_of lc schoolId date r ?existing) (filter (cohort schoolId cls year) (fa_students st))"
    using assms(4) by (auto simp: dryRunRule_def t syn Let_def split: if_splits)
  have st2: "fa_students st2
      = map (\<lambda>s. if cohort schoolId cls year s then apply_to_student schoolId date ?rules s else s) (fa_students st)"
    using assms(6) by (auto simp: applyRule_def st1 Let_def split: option.splits if_splits)
  have "filter (cohort schoolId cls year) (fa_students st2)
      = map (apply_to_student schoolId date ?rules) (filter (cohort schoolId cls year) (fa_students st))"
    unfolding st2 by (rule filter_updated) (simp add: apply_to_student_cohort)
  then show ?thesis
    by (simp add: previews preview_of_def simulateWithExtraWithRules_def Let_def rules apply_to_student_fee)
qed

lemma to_num_numeral: "(numeral k :: int) \<le> 2 ^ 53 \<Longrightarrow> to_num (numeral k) = Fin (numeral k)"
  using to_num_int [of "numeral k"] by simp

lemma cents_whole:
  assumes "0 \<le> n" "n * 100 \<le> 2 ^ 53"
  shows "cents (IntN n) = IntN n"
proof -
  have "to_num (of_int (n * 100)) = Fin (of_int (n * 100))" using assms by (intro to_num_int) simp
  then have m: "jmul (IntN n) (Fin 100) = Fin (of_int (n * 100))" by simp
  have "\<lfloor>of_int (n * 100) + 1 / 2 :: rat\<rfloor> = n * 100" by (rule floor_unique) simp_all
  then have "Math_round (Fin (of_int (n * 100))) = Fin (of_int (n * 100))" by (simp only: Math_round.simps)
  moreover have "to_num (of_int n) = IntN n" using assms by (intro to_num_int) simp
  ultimately show ?thesis unfolding cents_def m by simp
qed

definition example_body :: rule_body where
  "example_body = \<lparr>rb_name = Some ''Bursary'', rb_type = ''discount_fixed'', rb_value = Some (Fin 100), rb_conditions = None,
     rb_priority = None, rb_policy = None, rb_isActive = None\<rparr>"

definition example_state :: fee_state where
  "example_state = \<lparr>fa_rules = [(1, example_rule ''a'' Discount_percentage 10 Stack)], fa_students = [example_student 1000 0 False]\<rparr>"

theorem dry_run_predicts_apply_witness:
  "\<exists>previews summary st1 r st2 over.
     dryRunRule code_unit_order ''s1'' example_body None None None example_state = Inr (previews, summary)
   \<and> createRule 2 ''s1'' example_body example_state = (st1, Inr r)
   \<and> applyRule code_unit_order 2 ''s1'' None None None st1 = (st2, Inr over)
   \<and> map pw_projectedFee previews = map fs_feeAmount (filter (cohort ''s1'' None None) (fa_students st2))"
proof -
  have name: "trim ''Bursary'' = ''Bursary''" by (simp add: trim_def is_space_def)
  have valid: "validateBody example_body = None"
    by (simp add: validateBody_def example_body_def name VALID_TYPES_def)
  obtain previews summary where d: "dryRunRule code_unit_order ''s1'' example_body None None None example_state = Inr (previews, summary)"
    by (simp add: dryRunRule_def example_body_def VALID_TYPES_def Let_def)
  obtain st1 r where c: "createRule 2 ''s1'' example_body example_state = (st1, Inr r)" and st1: "fa_rules st1 = fa_rules example_state @ [(2, r)]"
    and r: "ar_isActive r" "ar_schoolId r = ''s1''"
    using valid by (auto simp: createRule_def example_state_def name_taken_def example_rule_def rule_of_body_def example_body_def name Let_def)
  obtain st2 over where a: "applyRule code_unit_order 2 ''s1'' None None None st1 = (st2, Inr over)"
    using r by (simp add: applyRule_def find_rule_def st1 example_state_def Let_def)
  have "map pw_projectedFee previews = map fs_feeAmount (filter (cohort ''s1'' None None) (fa_students st2))"
    by (rule dry_run_predicts_apply [OF code_unit_order_law _ name d c a]) (simp add: example_body_def)
  with d c a show ?thesis by (intro exI conjI)
qed

lemma example_rule_facts [simp]:
  "ar_isActive (example_rule n t v p)" "ar_schoolId (example_rule n t v p) = ''s1''" "ar_type (example_rule n t v p) = t"
  "ar_value (example_rule n t v p) = IntN v" "ar_policy (example_rule n t v p) = Some p" "ruleApplies (example_rule n t v p) ctx"
  by (simp_all add: example_rule_def ruleApplies_def no_conditions_def truthy_str_def)

lemma example_student_facts [simp]:
  "fs_feeAmount (example_student fee paid fp) = IntN fee" "fs_totalPaid (example_student fee paid fp) = Some (IntN paid)"
  "fs_feePaid (example_student fee paid fp) = fp" "cohort ''s1'' None None (example_student fee paid fp)"
  by (simp_all add: example_student_def cohort_def truthy_str_def)

lemma one_rule:
  "fetchSortedRules lc [example_rule n t v p] ''s1'' = [example_rule n t v p]"
  "adjusted (Fin x) (example_rule n t v p) = Fin y \<Longrightarrow> cents (Fin y) = Fin y
   \<Longrightarrow> af_finalFee (applyRules (Fin x) ctx [example_rule n t v p]) = Fin y"
  by (simp_all add: fetchSortedRules_def js_sort_def applyRules_def Let_def policy_of_def)

text \<open>One application to a cohort of one student.\<close>

lemma apply_one:
  assumes "cohort ''s1'' None None s"
  shows "fst (applyRule lc 7 ''s1'' None None d \<lparr>fa_rules = [(7, example_rule n t v p)], fa_students = [s]\<rparr>)
    = \<lparr>fa_rules = [(7, example_rule n t v p)], fa_students = [apply_to_student ''s1'' d [example_rule n t v p] s]\<rparr>"
  using assms by (simp add: applyRule_def find_rule_def one_rule(1) Let_def)

text \<open>Applying is not idempotent: the rules work on the fee the last application stored. A discount
  of ten percent, applied twice, leaves 810 of 1000.\<close>

theorem apply_rule_compounds:
  "map fs_feeAmount (fa_students (fst (applyRule lc 7 ''s1'' None None d
      \<lparr>fa_rules = [(7, example_rule ''a'' Discount_percentage 10 Stack)], fa_students = [example_student 1000 0 False]\<rparr>))) = [Fin 900]
   \<and> map fs_feeAmount (fa_students (fst (applyRule lc 7 ''s1'' None None d (fst (applyRule lc 7 ''s1'' None None d
      \<lparr>fa_rules = [(7, example_rule ''a'' Discount_percentage 10 Stack)], fa_students = [example_student 1000 0 False]\<rparr>))))) = [Fin 810]"
proof -
  let ?r = "example_rule ''a'' Discount_percentage 10 Stack"
  have one: "adjusted (Fin 1000) ?r = Fin 900" "adjusted (Fin 900) ?r = Fin 810"
    by (simp_all add: adjusted_def adjustmentAmount_def to_num_numeral jmax_def)
  show ?thesis
    using cents_whole [of 900] cents_whole [of 810]
    by (simp add: apply_one apply_to_student_cohort apply_to_student_fee one_rule(2) [OF one(1)] one_rule(2) [OF one(2)])
qed

text \<open>Under \<^verbatim>\<open>best_for_student\<close> the first discount in priority order is applied, not the one that saves
  most: of five and fifty percent the student gets five.\<close>

theorem best_for_student_takes_first:
  "af_finalFee (applyRules (Fin 1000) ctx
     [example_rule ''a'' Discount_percentage 5 Best_for_student, example_rule ''b'' Discount_percentage 50 Best_for_student]) = Fin 950
   \<and> af_finalFee (applyRules (Fin 1000) ctx [example_rule ''b'' Discount_percentage 50 Best_for_student]) = Fin 500"
proof -
  have five: "adjusted (Fin 1000) (example_rule ''a'' Discount_percentage 5 Best_for_student) = Fin 950"
    and fifty: "adjusted (Fin 1000) (example_rule ''b'' Discount_percentage 50 Best_for_student) = Fin 500"
    by (simp_all add: adjusted_def adjustmentAmount_def to_num_numeral jmax_def)
  show ?thesis
    using cents_whole [of 950] cents_whole [of 500]
    by (simp add: one_rule(2) [OF fifty]) (simp add: applyRules_def Let_def policy_of_def is_discount_def adjustment_of_def five)
qed

text \<open>The flag that a fee is paid is left as it was when the fee becomes zero and when it rises above
  what was paid: a student whose fee is waived stays unpaid, and one who owes a penalty stays paid.\<close>

theorem apply_rule_keeps_paid_flag:
  "(let s = hd (fa_students (fst (applyRule lc 7 ''s1'' None None d
       \<lparr>fa_rules = [(7, example_rule ''w'' Waiver 0 Stack)], fa_students = [example_student 1000 0 False]\<rparr>)))
    in fs_feeAmount s = Fin 0 \<and> fs_remainingBalance s = Fin 0 \<and> \<not> fs_feePaid s)
   \<and> (let s = hd (fa_students (fst (applyRule lc 7 ''s1'' None None d
       \<lparr>fa_rules = [(7, example_rule ''p'' Penalty_fixed 100 Stack)], fa_students = [example_student 1000 1000 True]\<rparr>)))
    in fs_feeAmount s = Fin 1100 \<and> fs_remainingBalance s = Fin 100 \<and> fs_feePaid s)"
proof -
  have w: "adjusted (Fin 1000) (example_rule ''w'' Waiver 0 Stack) = Fin 0"
    and p: "adjusted (Fin 1000) (example_rule ''p'' Penalty_fixed 100 Stack) = Fin 1100"
    using to_num_int [of 0] by (simp_all add: adjusted_def adjustmentAmount_def to_num_numeral jmax_def)
  show ?thesis
    using cents_whole [of 0] cents_whole [of 1100] to_num_int [of 0]
    by (simp add: apply_one Let_def apply_to_student_def one_rule(2) [OF w] one_rule(2) [OF p] or_zero_num_def
        jsub_def jmax_def to_num_numeral)
qed

end
