(* ===== verification/Fee_Engine.thy ===== *)
theory Fee_Engine
  imports Fee_Adjustment
begin

section \<open>The fee engine with one rule set per school\<close>

text \<open>
  Models \<^verbatim>\<open>backend/src/services/feeAdjustmentEngine.js\<close> (the class, its default rules and the registry of
  engines by school) and the function \<^verbatim>\<open>validatePaymentWithDynamicFee\<close> of
  \<^verbatim>\<open>backend/src/services/stellarService.js\<close> that uses it. Decimal arithmetic is the parameter of
  \<open>Decimal_Lib\<close>. The condition of a rule is a function, as in the code.
\<close>

subsection \<open>Rules and their order\<close>

text \<open>The fields of a context that the default rules read; a field that is missing is \<open>None\<close>.\<close>

record engine_ctx =
  ec_baseAmount :: "jsnum option"
  ec_isEarly :: bool
  ec_userType :: "string option"
  ec_isLate :: bool
  ec_totalPaymentsThisMonth :: "jsnum option"
  ec_promoCode :: "string option"

record engine_rule =
  er_id :: string
  er_name :: string
  er_type :: string
  er_condition :: "engine_ctx \<Rightarrow> bool"
  er_value :: jsnum
  er_priority :: rat
  er_description :: "string option"
  er_isFixed :: bool

text \<open>\<^verbatim>\<open>(a, b) => b.priority - a.priority\<close>: by descending priority.\<close>

definition engine_cmp :: "engine_rule \<Rightarrow> engine_rule \<Rightarrow> int" where
  "engine_cmp a b = (if er_priority b < er_priority a then - 1 else if er_priority a < er_priority b then 1 else 0)"

interpretation by_priority: comparison engine_cmp
  by unfold_locales (auto simp: engine_cmp_def split: if_splits)

definition default_rule :: "string \<Rightarrow> string \<Rightarrow> string \<Rightarrow> (engine_ctx \<Rightarrow> bool) \<Rightarrow> rat \<Rightarrow> rat \<Rightarrow> string \<Rightarrow> engine_rule" where
  "default_rule i n t c v p d =
     \<lparr>er_id = i, er_name = n, er_type = t, er_condition = c, er_value = Fin v, er_priority = p, er_description = Some d,
      er_isFixed = False\<rparr>"

definition loadDefaultRules :: "engine_rule list" where
  "loadDefaultRules = js_sort engine_cmp
     [default_rule ''early-payment'' ''Early Payment Discount'' ''discount'' ec_isEarly 15 10
        ''15% discount for payments made at least 7 days in advance'',
      default_rule ''student-discount'' ''Student Discount'' ''discount'' (\<lambda>ctx. ec_userType ctx = Some ''student'') 20 8
        ''20% discount for verified students'',
      default_rule ''late-penalty'' ''Late Payment Penalty'' ''penalty'' ec_isLate 12 15
        ''12% penalty for late payments'',
      default_rule ''volume-discount'' ''Volume Discount'' ''discount''
        (\<lambda>ctx. case ec_totalPaymentsThisMonth ctx of None \<Rightarrow> False | Some n \<Rightarrow> jleq (Fin 3) n) 10 12
        ''10% discount for 3 or more payments in a month'',
      default_rule ''promo-edu2026'' ''Promo Code Discount'' ''discount''
        (\<lambda>ctx. case ec_promoCode ctx of None \<Rightarrow> False | Some c \<Rightarrow> c \<noteq> [] \<and> toUpperCase c = ''EDU2026'') 25 5
        ''Special 25% discount with promo code EDU2026'']"

subsection \<open>Adding a rule\<close>

text \<open>The argument of \<^verbatim>\<open>addRule\<close>; a field that is missing or of another type is \<open>None\<close>.\<close>

record rule_input =
  ri_id :: "string option"
  ri_name :: "string option"
  ri_type :: "string option"
  ri_value :: "jsnum option"
  ri_condition :: "(engine_ctx \<Rightarrow> bool) option"
  ri_priority :: rat
  ri_description :: "string option"
  ri_isFixed :: bool

datatype engine_error = Not_a_rule | Id_required | Rule_name_required | Type_invalid | Value_invalid | Condition_invalid
  | School_required

definition rule_input_error :: "rule_input \<Rightarrow> engine_error option" where
  "rule_input_error r =
     (if \<not> truthy_str (ri_id r) then Some Id_required
      else if \<not> truthy_str (ri_name r) then Some Rule_name_required
      else if ri_type r \<noteq> Some ''discount'' \<and> ri_type r \<noteq> Some ''penalty'' then Some Type_invalid
      else if (case ri_value r of None \<Rightarrow> True | Some v \<Rightarrow> jless v (Fin 0)) then Some Value_invalid
      else if ri_condition r = None then Some Condition_invalid
      else None)"

definition rule_of_input :: "rule_input \<Rightarrow> engine_rule" where
  "rule_of_input r =
     \<lparr>er_id = the (ri_id r), er_name = the (ri_name r), er_type = the (ri_type r), er_condition = the (ri_condition r),
      er_value = the (ri_value r), er_priority = ri_priority r, er_description = ri_description r, er_isFixed = ri_isFixed r\<rparr>"

text \<open>An argument that is not an object is \<open>None\<close>.\<close>

definition addRule :: "rule_input option \<Rightarrow> engine_rule list \<Rightarrow> engine_rule list \<times> (engine_error, unit) result" where
  "addRule arg rules =
     (case arg of
        None \<Rightarrow> (rules, Inl Not_a_rule)
      | Some r \<Rightarrow>
          (case rule_input_error r of
             Some e \<Rightarrow> (rules, Inl e)
           | None \<Rightarrow> (js_sort engine_cmp (rules @ [rule_of_input r]), Inr ())))"

subsection \<open>The calculation\<close>

record engine_adjustment =
  ea_ruleName :: string
  ea_type :: string
  ea_value :: jsnum
  ea_amountAdjusted :: jsnum
  ea_finalFeeAfterRule :: jsnum

definition is_fixed :: "engine_rule \<Rightarrow> bool" where
  "is_fixed r \<longleftrightarrow> er_isFixed r \<or> (case er_description r of None \<Rightarrow> False | Some d \<Rightarrow> startsWith (toLowerCase d) ''fixed'')"

definition engine_amount :: "'d decimal_lib \<Rightarrow> 'd \<Rightarrow> engine_rule \<Rightarrow> 'd" where
  "engine_amount L currentFee r =
     (let ruleValue = dec_new L (er_value r);
          percent = dec_div L (dec_times L currentFee ruleValue) (dec_new L (Fin 100))
      in if er_type r = ''discount'' then (if is_fixed r then dec_neg L ruleValue else dec_neg L percent)
         else if er_type r = ''penalty'' then (if is_fixed r then ruleValue else percent)
         else ruleValue)"

fun engine_loop :: "'d decimal_lib \<Rightarrow> engine_ctx \<Rightarrow> 'd \<Rightarrow> engine_rule list \<Rightarrow> 'd \<times> engine_adjustment list" where
  "engine_loop L ctx currentFee [] = (currentFee, [])"
| "engine_loop L ctx currentFee (r # rules) =
     (if er_condition r ctx then
        let amount = engine_amount L currentFee r;
            fee' = dec_plus L currentFee amount;
            a = \<lparr>ea_ruleName = er_name r, ea_type = er_type r, ea_value = er_value r,
                 ea_amountAdjusted = dec_toNumber L (dec_places L 2 (dec_abs L amount)),
                 ea_finalFeeAfterRule = dec_toNumber L (dec_places L 2 fee')\<rparr>
        in (case engine_loop L ctx fee' rules of (f, as) \<Rightarrow> (f, a # as))
      else engine_loop L ctx currentFee rules)"

record fee_calculation =
  fc_baseFee :: jsnum
  fc_finalFee :: jsnum
  fc_adjustments :: "engine_adjustment list"
  fc_effectiveRate :: jsnum

definition calculateFee :: "'d decimal_lib \<Rightarrow> engine_rule list \<Rightarrow> engine_ctx \<Rightarrow> fee_calculation" where
  "calculateFee L rules ctx =
     (let base = dec_new L (or_zero_num (ec_baseAmount ctx)) in
      case engine_loop L ctx base rules of (currentFee, adjustments) \<Rightarrow>
        let finalFee = dec_max L (dec_new L (Fin 0)) currentFee
        in \<lparr>fc_baseFee = dec_toNumber L (dec_places L 2 base),
            fc_finalFee = dec_toNumber L (dec_places L 2 finalFee),
            fc_adjustments = adjustments,
            fc_effectiveRate =
              (if dec_gt L base (dec_new L (Fin 0))
               then dec_toNumber L (dec_places L 2 (dec_times L (dec_div L finalFee base) (dec_new L (Fin 100))))
               else Fin 100)\<rparr>)"

subsection \<open>One engine per school\<close>

type_synonym registry = "string \<Rightarrow> engine_rule list option"

definition engine_of :: "registry \<Rightarrow> string \<Rightarrow> engine_rule list" where
  "engine_of reg schoolId = (case reg schoolId of Some rules \<Rightarrow> rules | None \<Rightarrow> loadDefaultRules)"

definition getEngineForSchool :: "string \<Rightarrow> registry \<Rightarrow> registry \<times> (engine_error, engine_rule list) result" where
  "getEngineForSchool schoolId reg =
     (if schoolId = [] then (reg, Inl School_required)
      else (reg(schoolId \<mapsto> engine_of reg schoolId), Inr (engine_of reg schoolId)))"

text \<open>What callers do with an engine: add a rule to it or calculate a fee.\<close>

datatype engine_req = Add_rule string "rule_input option" | Calculate string engine_ctx

datatype engine_reply = Added "(engine_error, unit) result" | Calculated "(engine_error, fee_calculation) result"

fun engine_step :: "'d decimal_lib \<Rightarrow> engine_req \<Rightarrow> registry \<Rightarrow> registry \<times> engine_reply" where
  "engine_step L (Add_rule schoolId arg) reg =
     (case getEngineForSchool schoolId reg of
        (reg', Inl e) \<Rightarrow> (reg', Added (Inl e))
      | (reg', Inr rules) \<Rightarrow> (case addRule arg rules of (rules', r) \<Rightarrow> (reg'(schoolId \<mapsto> rules'), Added r)))"
| "engine_step L (Calculate schoolId ctx) reg =
     (case getEngineForSchool schoolId reg of
        (reg', Inl e) \<Rightarrow> (reg', Calculated (Inl e))
      | (reg', Inr rules) \<Rightarrow> (reg', Calculated (Inr (calculateFee L rules ctx))))"

fun req_school :: "engine_req \<Rightarrow> string" where
  "req_school (Add_rule schoolId arg) = schoolId"
| "req_school (Calculate schoolId ctx) = schoolId"

definition clearEngineCache :: registry where
  "clearEngineCache = (\<lambda>_. None)"

subsection \<open>Checking a payment against the adjusted fee\<close>

record dynamic_validation =
  dv_validation :: fee_validation
  dv_baseFee :: jsnum
  dv_finalFee :: jsnum
  dv_adjustments :: "engine_adjustment list"
  dv_fallback :: bool

text \<open>\<^verbatim>\<open>{ baseAmount: baseFee, ...context }\<close>: a base amount in the context takes precedence.\<close>

definition with_base :: "jsnum \<Rightarrow> engine_ctx \<Rightarrow> engine_ctx" where
  "with_base baseFee ctx =
     (case ec_baseAmount ctx of Some b \<Rightarrow> ctx | None \<Rightarrow> ctx\<lparr>ec_baseAmount := Some baseFee\<rparr>)"

text \<open>An error of the engine, or of the comparison with the adjusted fee, falls back to the base fee.\<close>

definition validatePaymentWithDynamicFee ::
  "'d decimal_lib \<Rightarrow> string \<Rightarrow> jsnum \<Rightarrow> jsnum \<Rightarrow> engine_ctx \<Rightarrow> registry \<Rightarrow> registry \<times> (amount_error, dynamic_validation) result" where
  "validatePaymentWithDynamicFee L schoolId paymentAmount baseFee ctx reg =
     (let fallback = map_sum id (\<lambda>v. \<lparr>dv_validation = v, dv_baseFee = baseFee, dv_finalFee = baseFee, dv_adjustments = [],
                                     dv_fallback = True\<rparr>) (validatePaymentAgainstFee paymentAmount baseFee)
      in case getEngineForSchool schoolId reg of
           (reg', Inl e) \<Rightarrow> (reg', fallback)
         | (reg', Inr rules) \<Rightarrow>
             (let fc = calculateFee L rules (with_base baseFee ctx) in
              case validatePaymentAgainstFee paymentAmount (fc_finalFee fc) of
                Inl e \<Rightarrow> (reg', fallback)
              | Inr v \<Rightarrow> (reg', Inr \<lparr>dv_validation = v, dv_baseFee = baseFee, dv_finalFee = fc_finalFee fc,
                                     dv_adjustments = fc_adjustments fc, dv_fallback = False\<rparr>)))"

subsection \<open>Rule sets stay in priority order\<close>

definition by_descending_priority :: "registry \<Rightarrow> bool" where
  "by_descending_priority reg \<longleftrightarrow> (\<forall>schoolId. sorted_wrt (\<lambda>a b. er_priority b \<le> er_priority a) (engine_of reg schoolId))"

lemma engine_cmp_le: "engine_cmp a b \<le> 0 \<longleftrightarrow> er_priority b \<le> er_priority a"
  by (auto simp: engine_cmp_def)

lemmas sorted_by_priority = by_priority.js_sort_sorted [unfolded engine_cmp_le]

lemma default_sorted: "sorted_wrt (\<lambda>a b. er_priority b \<le> er_priority a) loadDefaultRules"
  unfolding loadDefaultRules_def by (rule sorted_by_priority)

lemma engine_step_sorted: "by_descending_priority reg \<Longrightarrow> by_descending_priority (fst (engine_step L x reg))"
proof (cases x)
  case (Add_rule schoolId arg)
  assume reg: "by_descending_priority reg"
  show ?thesis
    using reg sorted_by_priority
    by (auto simp: Add_rule by_descending_priority_def engine_of_def getEngineForSchool_def addRule_def default_sorted
        split: option.splits)
next
  case (Calculate schoolId ctx)
  assume "by_descending_priority reg"
  then show ?thesis
    by (auto simp: Calculate by_descending_priority_def engine_of_def getEngineForSchool_def default_sorted split: option.splits)
qed

subsection \<open>Schools do not see each other's rules\<close>

interpretation schools: isolated "engine_step L" req_school "\<lambda>s. s" "\<lambda>_. True" "\<lambda>_. True" for L
proof
  fix x k and s :: registry
  assume "req_school x \<noteq> k"
  then show "fst (engine_step L x s) k = s k"
    by (cases x) (auto simp: getEngineForSchool_def split: prod.splits)
next
  fix x and s s' :: registry
  assume "s (req_school x) = s' (req_school x)"
  then show "fst (engine_step L x s) (req_school x) = fst (engine_step L x s') (req_school x)
      \<and> snd (engine_step L x s) = snd (engine_step L x s')"
    by (cases x) (auto simp: getEngineForSchool_def engine_of_def split: prod.splits)
qed

subsection \<open>Properties\<close>

text \<open>A school's fees depend on its own rules only. Over any sequence of requests of any schools, the
  replies a school gets, and its rules at the end, are those it would get if the requests of all other
  schools were left out.\<close>

theorem engine_tenant_isolation:
  "fst (trace (engine_step L) reqs reg) school
     = fst (trace (engine_step L) (filter (\<lambda>q. req_school q = school) reqs) reg) school
   \<and> map snd (filter (\<lambda>(q, r). req_school q = school) (zip reqs (snd (trace (engine_step L) reqs reg))))
     = snd (trace (engine_step L) (filter (\<lambda>q. req_school q = school) reqs) reg)"
  using schools.trace_isolated [of reg school reg reqs L] by (simp add: list_all_iff)

text \<open>Every school's rules are kept in descending order of priority, the order in which they are
  applied, whatever rules are added.\<close>

theorem engine_rules_sorted:
  "by_descending_priority (fst (trace (engine_step L) reqs clearEngineCache))"
proof (rule trace_invariant [where P = by_descending_priority])
  show "by_descending_priority clearEngineCache"
    by (simp add: by_descending_priority_def engine_of_def clearEngineCache_def default_sorted)
qed (simp add: engine_step_sorted)

text \<open>The check against the adjusted fee never fails on account of the engine: whenever the plain
  check against the base fee gives a verdict, so does this one, with the base fee when there is no
  school.\<close>

theorem dynamic_fee_total:
  assumes "validatePaymentAgainstFee paid fee = Inr v"
  shows "\<exists>r. snd (validatePaymentWithDynamicFee L schoolId paid fee ctx reg) = Inr r
    \<and> (dv_fallback r \<longrightarrow> dv_validation r = v \<and> dv_finalFee r = fee) \<and> (schoolId = [] \<longrightarrow> dv_fallback r)"
  using assms
  by (cases "schoolId = []"; cases "validatePaymentAgainstFee paid
        (fc_finalFee (calculateFee L (engine_of reg schoolId) (with_base fee ctx)))")
    (simp_all add: validatePaymentWithDynamicFee_def getEngineForSchool_def Let_def)

theorem dynamic_fee_total_witness:
  "\<exists>r. snd (validatePaymentWithDynamicFee rat_lib [] (money_num 50000000) (money_num 50000000)
      \<lparr>ec_baseAmount = None, ec_isEarly = False, ec_userType = None, ec_isLate = False, ec_totalPaymentsThisMonth = None,
       ec_promoCode = None\<rparr> clearEngineCache) = Inr r \<and> dv_fallback r"
proof -
  obtain v where "validatePaymentAgainstFee (money_num 50000000) (money_num 50000000) = Inr v"
    using validate_money [of 50000000 50000000] by auto
  from dynamic_fee_total [OF this, of rat_lib "[]"] show ?thesis by blast
qed

end
