(* ===== verification/Webhook_Url.thy ===== *)
theory Webhook_Url
  imports JS_String "HOL-Library.Word"
begin

section \<open>Addresses a webhook may be sent to\<close>

text \<open>
  \<^verbatim>\<open>backend/src/utils/validateWebhookUrl.js\<close>, \<^verbatim>\<open>backend/src/utils/dnsCache.js\<close> and the check at send time
  with the pinned lookup of \<^verbatim>\<open>backend/src/services/webhookService.js\<close>. An address of version 4 is a word of
  32 bits, one of version 6 a list of eight groups. The result of \<^verbatim>\<open>new URL\<close> is an argument (\<open>None\<close> when it
  throws), and so are the answers of the resolver, which depend on the time.
\<close>

unbundle bit_operations_syntax

subsection \<open>Literals of addresses: net.isIPv4, net.isIPv6\<close>

definition v4_seg :: "string \<Rightarrow> bool" where
  "v4_seg s \<longleftrightarrow> s \<noteq> [] \<and> list_all is_digit s \<and> string_to_nat 10 s < 256 \<and>
     (hd s \<noteq> CHR ''0'' \<or> length s = 1)"

definition isIPv4 :: "string \<Rightarrow> bool" where
  "isIPv4 s \<longleftrightarrow> length (split_on (CHR ''.'') s) = 4 \<and> list_all v4_seg (split_on (CHR ''.'') s)"

definition v6_seg :: "string \<Rightarrow> bool" where
  "v6_seg s \<longleftrightarrow> s \<noteq> [] \<and> length s \<le> 4 \<and> list_all is_hex s"

fun cut_double :: "string \<Rightarrow> (string \<times> string) option" where
  "cut_double (a # b # s) =
     (if a = CHR '':'' \<and> b = CHR '':'' then Some ([], s)
      else map_option (\<lambda>(l, r). (a # l, r)) (cut_double (b # s)))"
| "cut_double s = None"

definition v4_groups :: "string \<Rightarrow> nat list" where
  "v4_groups s =
     (case map (string_to_nat 10) (split_on (CHR ''.'') s) of
        [a, b, c, d] \<Rightarrow> [a * 256 + b, c * 256 + d]
      | _ \<Rightarrow> [])"

definition v6_side :: "bool \<Rightarrow> string \<Rightarrow> nat list option" where
  "v6_side v4ok s =
     (if s = [] then Some []
      else let ps = split_on (CHR '':'') s in
        if v4ok \<and> isIPv4 (last ps) \<and> list_all v6_seg (butlast ps)
        then Some (map (string_to_nat 16) (butlast ps) @ v4_groups (last ps))
        else if list_all v6_seg ps then Some (map (string_to_nat 16) ps)
        else None)"

definition ipv6_address :: "string \<Rightarrow> nat list option" where
  "ipv6_address s =
     (case cut_double s of
        None \<Rightarrow>
          (case v6_side True s of
             Some gs \<Rightarrow> if length gs = 8 then Some gs else None
           | None \<Rightarrow> None)
      | Some (l, r) \<Rightarrow>
          (case (v6_side False l, v6_side True r) of
             (Some a, Some b) \<Rightarrow>
               if length a + length b \<le> 7 then Some (a @ replicate (8 - length a - length b) 0 @ b)
               else None
           | _ \<Rightarrow> None))"

definition zone_char :: "char \<Rightarrow> bool" where
  "zone_char c \<longleftrightarrow> is_digit c \<or> (65 \<le> code c \<and> code c \<le> 90) \<or> (97 \<le> code c \<and> code c \<le> 122)
     \<or> c \<in> {CHR ''-'', CHR ''.'', CHR '':''}"

definition isIPv6 :: "string \<Rightarrow> bool" where
  "isIPv6 s \<longleftrightarrow>
     (let a = takeWhile (\<lambda>c. c \<noteq> CHR ''%'') s; z = dropWhile (\<lambda>c. c \<noteq> CHR ''%'') s
      in ipv6_address a \<noteq> None \<and> (z = [] \<or> (tl z \<noteq> [] \<and> list_all zone_char (tl z))))"

subsection \<open>Private and reserved addresses\<close>

definition PRIVATE_IPv4_RANGES :: "(32 word \<times> 32 word) list" where
  "PRIVATE_IPv4_RANGES =
     [(0x00000000, 0x00FFFFFF),
      (0x0A000000, 0x0AFFFFFF),
      (0x64400000, 0x647FFFFF),
      (0x7F000000, 0x7FFFFFFF),
      (0xA9FE0000, 0xA9FEFFFF),
      (0xAC100000, 0xAC1FFFFF),
      (0xC0000000, 0xC00000FF),
      (0xC0A80000, 0xC0A8FFFF),
      (0xC6120000, 0xC613FFFF),
      (0xC6336400, 0xC63364FF),
      (0xCB007100, 0xCB0071FF),
      (0xE0000000, 0xEFFFFFFF),
      (0xF0000000, 0xFFFFFFFF)]"

text \<open>
  One octet: \<^verbatim>\<open>((acc << 8) + parseInt(octet, 10)) >>> 0\<close>. The shift keeps 32 bits and the sum of two 32 bit
  numbers is exact before \<^verbatim>\<open>>>> 0\<close> reduces it; \<^verbatim>\<open>NaN >>> 0\<close> is 0.
\<close>

definition add_octet :: "32 word \<Rightarrow> string \<Rightarrow> 32 word" where
  "add_octet acc octet =
     (case parseInt10 octet of Some n \<Rightarrow> push_bit 8 acc + of_int n | None \<Rightarrow> 0)"

definition ipv4ToLong :: "string \<Rightarrow> 32 word" where
  "ipv4ToLong ip = foldl add_octet 0 (split_on (CHR ''.'') ip)"

definition isPrivateIPv4 :: "string \<Rightarrow> bool" where
  "isPrivateIPv4 ip =
     (let n = ipv4ToLong ip in list_ex (\<lambda>(lo, hi). lo \<le> n \<and> n \<le> hi) PRIVATE_IPv4_RANGES)"

definition strip_brackets :: "string \<Rightarrow> string" where
  "strip_brackets s =
     (let t = (if startsWith s ''['' then tl s else s)
      in if endsWith t '']'' then butlast t else t)"

definition mapped_v4 :: "string \<Rightarrow> string option" where
  "mapped_v4 lower =
     (let r = drop 7 lower; ps = split_on (CHR ''.'') r
      in if startsWith lower ''::ffff:'' \<and> length ps = 4
            \<and> list_all (\<lambda>p. p \<noteq> [] \<and> length p \<le> 3 \<and> list_all is_digit p) ps
         then Some r else None)"

definition isPrivateIPv6 :: "string \<Rightarrow> bool" where
  "isPrivateIPv6 ip =
     (let lower = strip_brackets (toLowerCase ip) in
      if lower = ''::1'' then True
      else case mapped_v4 lower of
        Some v4 \<Rightarrow> isPrivateIPv4 v4
      | None \<Rightarrow>
          if startsWith lower ''::ffff:'' then True
          else if startsWith lower ''fc'' \<or> startsWith lower ''fd'' then True
          else if startsWith lower ''fe8'' \<or> startsWith lower ''fe9'' \<or> startsWith lower ''fea''
                  \<or> startsWith lower ''feb'' then True
          else if lower = ''::'' \<or> lower = ''::0'' then True
          else if startsWith lower ''64:ff9b::'' then True
          else False)"

datatype ip_reason = PrivateIPv4 string | PrivateIPv6 string | UnrecognisedIp string

text \<open>\<open>Some\<close> the reason when blocked.\<close>

definition validateResolvedIp :: "string \<Rightarrow> ip_reason option" where
  "validateResolvedIp ip =
     (if isIPv4 ip then (if isPrivateIPv4 ip then Some (PrivateIPv4 ip) else None)
      else if isIPv6 ip then (if isPrivateIPv6 ip then Some (PrivateIPv6 ip) else None)
      else Some (UnrecognisedIp ip))"

subsection \<open>The cache of resolved names\<close>

definition DEFAULT_TTL_MS :: millis where "DEFAULT_TTL_MS = 60000"
definition MAX_TTL_MS :: millis where "MAX_TTL_MS = 3600000"

record dns_entry =
  ips :: "string list"
  dns_expiresAt :: millis

type_synonym dns_cache = "string \<rightharpoonup> dns_entry"

definition DnsCache_get :: "millis \<Rightarrow> string \<Rightarrow> dns_cache \<Rightarrow> string list option \<times> dns_cache" where
  "DnsCache_get now hostname c =
     (case c hostname of
        None \<Rightarrow> (None, c)
      | Some e \<Rightarrow>
          if dns_expiresAt e < now then (None, c(hostname := None))
          else (Some (ips e), c))"

definition DnsCache_set :: "millis \<Rightarrow> string \<Rightarrow> string list \<Rightarrow> int \<Rightarrow> dns_cache \<Rightarrow> dns_cache" where
  "DnsCache_set now hostname xs ttlSeconds c =
     (let ttlMs = min (max (ttlSeconds * 1000) DEFAULT_TTL_MS) MAX_TTL_MS
      in c(hostname \<mapsto> \<lparr>ips = xs, dns_expiresAt = now + ttlMs\<rparr>))"

definition clearDnsCache :: "dns_cache \<Rightarrow> dns_cache" where
  "clearDnsCache c = (\<lambda>_. None)"

text \<open>
  \<open>dns t h\<close> is what \<^verbatim>\<open>resolve4\<close> and \<^verbatim>\<open>resolve6\<close> answer for \<open>h\<close> at time \<open>t\<close>, \<open>None\<close> for a rejection. The
  lookup takes \<open>took\<close> milliseconds; the entry is dated when it is stored. An empty list is truthy, but
  none is ever stored.
\<close>

type_synonym resolver = "millis \<Rightarrow> string \<Rightarrow> string list option \<times> string list option"

definition resolved :: "resolver \<Rightarrow> millis \<Rightarrow> string \<Rightarrow> string list" where
  "resolved dns t hostname =
     (case dns t hostname of
        (v4, v6) \<Rightarrow> (case v4 of None \<Rightarrow> [] | Some a \<Rightarrow> a) @ (case v6 of None \<Rightarrow> [] | Some a \<Rightarrow> a))"

definition resolveDnsWithCache ::
  "resolver \<Rightarrow> millis \<Rightarrow> millis \<Rightarrow> string \<Rightarrow> dns_cache \<Rightarrow> string list option \<times> dns_cache" where
  "resolveDnsWithCache dns now took hostname c =
     (case DnsCache_get now hostname c of
        (Some cached, c') \<Rightarrow> (Some cached, c')
      | (None, c') \<Rightarrow>
          let allIps = resolved dns now hostname in
          if length allIps = 0 then (None, c')
          else (Some allIps, DnsCache_set (now + took) hostname allIps (DEFAULT_TTL_MS div 1000) c'))"

subsection \<open>Validation of a URL, and at send time\<close>

record url =
  protocol :: string
  hostname :: string

datatype url_check = ValidUrl "string list" | InvalidUrl

definition internal_name :: "string \<Rightarrow> bool" where
  "internal_name lower \<longleftrightarrow>
     lower = ''localhost'' \<or> endsWith lower ''.local'' \<or> endsWith lower ''.internal'' \<or>
     endsWith lower ''.localhost'' \<or> endsWith lower ''.example'' \<or> endsWith lower ''.test'' \<or>
     endsWith lower ''.invalid''"

fun first_blocked :: "string list \<Rightarrow> ip_reason option" where
  "first_blocked [] = None"
| "first_blocked (a # as) =
     (case validateResolvedIp a of Some r \<Rightarrow> Some r | None \<Rightarrow> first_blocked as)"

definition validateWebhookUrl ::
  "resolver \<Rightarrow> millis \<Rightarrow> millis \<Rightarrow> url option \<Rightarrow> dns_cache \<Rightarrow> url_check \<times> dns_cache" where
  "validateWebhookUrl dns now took parsed c =
     (case parsed of
        None \<Rightarrow> (InvalidUrl, c)
      | Some u \<Rightarrow>
          if protocol u \<noteq> ''https:'' then (InvalidUrl, c)
          else let h = hostname u; rawIPv6 = strip_brackets h in
            if isIPv4 h then
              ((case validateResolvedIp h of Some _ \<Rightarrow> InvalidUrl | None \<Rightarrow> ValidUrl [h]), c)
            else if isIPv6 rawIPv6 then
              ((case validateResolvedIp rawIPv6 of Some _ \<Rightarrow> InvalidUrl | None \<Rightarrow> ValidUrl [rawIPv6]), c)
            else if internal_name (toLowerCase h) then (InvalidUrl, c)
            else case resolveDnsWithCache dns now took h c of
              (None, c') \<Rightarrow> (InvalidUrl, c')
            | (Some allAddresses, c') \<Rightarrow>
                (case first_blocked allAddresses of
                   Some _ \<Rightarrow> (InvalidUrl, c')
                 | None \<Rightarrow> (ValidUrl allAddresses, c')))"

datatype send_reason = INVALID_URL | DNS_RESOLUTION_FAILED | Blocked ip_reason

definition validateAtSendTime ::
  "resolver \<Rightarrow> millis \<Rightarrow> millis \<Rightarrow> url option \<Rightarrow> dns_cache
     \<Rightarrow> (send_reason, string list) result \<times> dns_cache" where
  "validateAtSendTime dns now took parsed c =
     (case parsed of
        None \<Rightarrow> (Inl INVALID_URL, c)
      | Some u \<Rightarrow>
          let h = hostname u; rawIPv6 = strip_brackets h in
          if isIPv4 h \<or> isIPv6 rawIPv6 then
            let ip = (if isIPv6 rawIPv6 then rawIPv6 else h) in
            ((case validateResolvedIp ip of Some r \<Rightarrow> Inl (Blocked r) | None \<Rightarrow> Inr [ip]), c)
          else case resolveDnsWithCache dns now took h c of
            (None, c') \<Rightarrow> (Inl DNS_RESOLUTION_FAILED, c')
          | (Some a, c') \<Rightarrow>
              if length a = 0 then (Inl DNS_RESOLUTION_FAILED, c')
              else case first_blocked a of
                Some r \<Rightarrow> (Inl (Blocked r), c')
              | None \<Rightarrow> (Inr a, c'))"

text \<open>
  The pinned lookup: the family asked for (\<open>None\<close>: any) and whether all addresses are wanted; the answer
  is \<open>None\<close> for \<^verbatim>\<open>ENOTFOUND\<close>, otherwise the addresses with their families.
\<close>

definition pinned_entries :: "string list \<Rightarrow> (string \<times> nat) list" where
  "pinned_entries addresses =
     filter (\<lambda>(a, f). isIPv4 a \<or> isIPv6 a)
       (map (\<lambda>a. (a, if isIPv6 a then 6 else 4)) addresses)"

definition pinnedLookup ::
  "string list \<Rightarrow> nat option \<Rightarrow> bool \<Rightarrow> (string \<times> nat) list option" where
  "pinnedLookup addresses family wantAll =
     (let entries = pinned_entries addresses;
          wanted = (case family of
                      Some f \<Rightarrow> if f = 4 \<or> f = 6 then filter (\<lambda>(a, g). g = f) entries else entries
                    | None \<Rightarrow> entries)
      in if length wanted = 0 then None
         else if wantAll then Some wanted
         else Some [hd wanted])"

subsection \<open>Addresses of version 4: ranges and prefixes\<close>

text \<open>
  The reserved blocks as the comments of the table give them: four octets and the length of the prefix.
  Two addresses are in the same block when they agree after the low bits are dropped.
\<close>

definition quad_value :: "nat list \<Rightarrow> nat" where
  "quad_value q = of_digits 256 q"

definition same_prefix :: "nat \<Rightarrow> nat list \<Rightarrow> nat list \<Rightarrow> bool" where
  "same_prefix len p q \<longleftrightarrow> quad_value p div 2 ^ (32 - len) = quad_value q div 2 ^ (32 - len)"

definition RESERVED_BLOCKS :: "(nat list \<times> nat) list" where
  "RESERVED_BLOCKS =
     [([0, 0, 0, 0], 8), ([10, 0, 0, 0], 8), ([100, 64, 0, 0], 10), ([127, 0, 0, 0], 8),
      ([169, 254, 0, 0], 16), ([172, 16, 0, 0], 12), ([192, 0, 0, 0], 24), ([192, 168, 0, 0], 16),
      ([198, 18, 0, 0], 15), ([198, 51, 100, 0], 24), ([203, 0, 113, 0], 24), ([224, 0, 0, 0], 4),
      ([240, 0, 0, 0], 4)]"

definition block_range :: "nat list \<times> nat \<Rightarrow> 32 word \<times> 32 word" where
  "block_range b = (case b of (q, len) \<Rightarrow>
     (of_nat (quad_value q), of_nat (quad_value q + (2 ^ (32 - len) - 1))))"

lemma ranges_are_blocks: "PRIVATE_IPv4_RANGES = map block_range RESERVED_BLOCKS"
  by (simp add: PRIVATE_IPv4_RANGES_def RESERVED_BLOCKS_def block_range_def quad_value_def of_digits_def)

text \<open>A range whose lower end is a multiple of its size is a block.\<close>

lemma aligned_range:
  fixes n :: nat
  assumes "0 < m" and "lo mod m = 0"
  shows "lo \<le> n \<and> n \<le> lo + (m - 1) \<longleftrightarrow> n div m = lo div m"
proof -
  obtain k where lo: "lo = m * k" using assms(2) by (auto simp: mod_eq_0_iff_dvd)
  have "n div m = k \<longleftrightarrow> m * k \<le> n \<and> n < m * k + m"
    using assms(1) by (auto simp: div_nat_eqI mult.commute) (metis add.commute dividend_less_div_times mult.commute)
  then show ?thesis using assms(1) by (auto simp: lo)
qed

lemma word_of_nat_le_iff:
  "x < 2 ^ 32 \<Longrightarrow> y < 2 ^ 32 \<Longrightarrow> (of_nat x :: 32 word) \<le> of_nat y \<longleftrightarrow> x \<le> y"
  by (simp add: word_le_nat_alt unsigned_of_nat take_bit_nat_eq_self)

lemma block_range_iff:
  assumes "b \<in> set RESERVED_BLOCKS" and "quad_value q < 2 ^ 32"
  shows "(case block_range b of (lo, hi) \<Rightarrow> lo \<le> of_nat (quad_value q) \<and> of_nat (quad_value q) \<le> hi)
     \<longleftrightarrow> same_prefix (snd b) q (fst b)"
proof -
  obtain p len where b: "b = (p, len)" by (cases b)
  have al: "quad_value p mod 2 ^ (32 - len) = 0" and up: "quad_value p + (2 ^ (32 - len) - 1) < 2 ^ 32"
    using assms(1) by (auto simp: b RESERVED_BLOCKS_def quad_value_def of_digits_def)
  have lo: "quad_value p < 2 ^ 32" using up by linarith
  have "(case block_range b of (lo, hi) \<Rightarrow> lo \<le> of_nat (quad_value q) \<and> of_nat (quad_value q) \<le> hi)
      \<longleftrightarrow> quad_value p \<le> quad_value q \<and> quad_value q \<le> quad_value p + (2 ^ (32 - len) - 1)"
    using word_of_nat_le_iff [OF lo assms(2)] word_of_nat_le_iff [OF assms(2) up]
    by (simp only: block_range_def b prod.case)
  also have "\<dots> \<longleftrightarrow> quad_value q div 2 ^ (32 - len) = quad_value p div 2 ^ (32 - len)"
    by (rule aligned_range) (use al in simp_all)
  finally show ?thesis by (simp add: same_prefix_def b)
qed

text \<open>Reading the four octets of a literal as one word.\<close>

lemma add_octet_value:
  assumes "v4_seg s" and "n < 2 ^ 24"
  shows "add_octet (of_nat n) s = of_nat (n * 256 + string_to_nat 10 s)"
proof -
  have "parseInt10 s = Some (int (string_to_nat 10 s))"
    using assms(1) by (intro parseInt10_digits) (auto simp: v4_seg_def list_all_iff)
  moreover have "push_bit 8 (of_nat n :: 32 word) = of_nat (n * 256)"
    by (simp add: push_bit_eq_mult)
  ultimately show ?thesis by (simp add: add_octet_def)
qed

lemma ipv4ToLong_quad:
  assumes "isIPv4 ip"
  obtains a b c d where "map (string_to_nat 10) (split_on (CHR ''.'') ip) = [a, b, c, d]"
    and "a < 256" "b < 256" "c < 256" "d < 256" and "ipv4ToLong ip = of_nat (quad_value [a, b, c, d])"
proof -
  obtain p q r s where ps: "split_on (CHR ''.'') ip = [p, q, r, s]"
    and seg: "v4_seg p" "v4_seg q" "v4_seg r" "v4_seg s"
    using assms by (auto simp: isIPv4_def length_Suc_conv eval_nat_numeral)
  define a b c d where abcd: "a = string_to_nat 10 p" "b = string_to_nat 10 q" "c = string_to_nat 10 r" "d = string_to_nat 10 s"
  have less: "a < 256" "b < 256" "c < 256" "d < 256" using seg by (auto simp: abcd v4_seg_def)
  have v: "add_octet 0 p = of_nat a" using add_octet_value [OF seg(1), of 0] by (simp add: abcd)
  have "add_octet (of_nat a) q = of_nat (a * 256 + b)"
    using add_octet_value [OF seg(2), of a] less by (simp add: abcd)
  moreover have "add_octet (of_nat (a * 256 + b)) r = of_nat ((a * 256 + b) * 256 + c)"
    unfolding abcd(3) by (rule add_octet_value [OF seg(3)]) (use less in simp)
  moreover have "add_octet (of_nat ((a * 256 + b) * 256 + c)) s = of_nat (((a * 256 + b) * 256 + c) * 256 + d)"
    unfolding abcd(4) by (rule add_octet_value [OF seg(4)]) (use less in simp)
  ultimately have "ipv4ToLong ip = of_nat (((a * 256 + b) * 256 + c) * 256 + d)"
    by (simp only: ipv4ToLong_def ps foldl.simps v)
  then show ?thesis
    using less by (intro that [of a b c d]) (simp_all add: ps abcd quad_value_def of_digits_def)
qed

definition v4_reserved :: "string \<Rightarrow> bool" where
  "v4_reserved ip \<longleftrightarrow>
     list_ex (\<lambda>(p, len). same_prefix len (map (string_to_nat 10) (split_on (CHR ''.'') ip)) p) RESERVED_BLOCKS"

lemma private_iff_reserved:
  assumes "isIPv4 ip"
  shows "isPrivateIPv4 ip \<longleftrightarrow> v4_reserved ip"
proof -
  obtain a b c d where q: "map (string_to_nat 10) (split_on (CHR ''.'') ip) = [a, b, c, d]"
    and less: "a < 256" "b < 256" "c < 256" "d < 256" and v: "ipv4ToLong ip = of_nat (quad_value [a, b, c, d])"
    by (rule ipv4ToLong_quad [OF assms])
  have "quad_value [a, b, c, d] < 2 ^ 32" using less by (simp add: quad_value_def of_digits_def)
  then show ?thesis
    using block_range_iff by (force simp: isPrivateIPv4_def v4_reserved_def v q ranges_are_blocks list_ex_iff Let_def)
qed

text \<open>C19: of a literal of version 4 the check lets pass exactly the addresses outside the thirteen reserved
  blocks that the comments of the table name: the comparison of unsigned numbers of 32 bits, built
  octet by octet with wrapping shifts, decides membership in the blocks.\<close>

theorem ipv4_check_exact:
  assumes "isIPv4 ip" and "map (string_to_nat 10) (split_on (CHR ''.'') ip) = q"
  shows "validateResolvedIp ip = None \<longleftrightarrow> \<not> list_ex (\<lambda>(p, len). same_prefix len q p) RESERVED_BLOCKS"
  using assms private_iff_reserved [OF assms(1)] by (simp add: validateResolvedIp_def v4_reserved_def)


subsection \<open>Addresses of version 6 in canonical form\<close>

text \<open>
  The text that \<^verbatim>\<open>URL.hostname\<close> and the resolver give an address of version 6: hexadecimal groups without
  leading zeros, the first longest run of at least two zero groups replaced by a double colon.
\<close>

definition zero_run :: "nat list \<Rightarrow> nat \<Rightarrow> nat" where
  "zero_run gs i = length (takeWhile (\<lambda>g. g = 0) (drop i gs))"

definition v6_gap :: "nat list \<Rightarrow> (nat \<times> nat) option" where
  "v6_gap gs =
     (let m = foldr max (map (zero_run gs) [0..<length gs]) 0
      in if m < 2 then None
         else map_option (\<lambda>i. (i, m)) (find (\<lambda>i. zero_run gs i = m) [0..<length gs]))"

definition colon_groups :: "nat list \<Rightarrow> string" where
  "colon_groups gs = join '':'' (map (nat_to_string 16) gs)"

definition ipv6_text :: "nat list \<Rightarrow> string" where
  "ipv6_text gs =
     (case v6_gap gs of
        None \<Rightarrow> colon_groups gs
      | Some (i, m) \<Rightarrow> colon_groups (take i gs) @ ''::'' @ colon_groups (drop (i + m) gs))"

definition is_groups :: "nat list \<Rightarrow> bool" where
  "is_groups gs \<longleftrightarrow> length gs = 8 \<and> list_all (\<lambda>g. g < 65536) gs"

lemma v6_gap_zeros:
  assumes "v6_gap gs = Some (i, m)"
  shows "2 \<le> m \<and> i + m \<le> length gs \<and> gs = take i gs @ replicate m 0 @ drop (i + m) gs"
proof -
  have m: "2 \<le> m" and run: "zero_run gs i = m" and i: "i < length gs"
    using assms by (auto simp: v6_gap_def Let_def split: if_splits dest!: find_Some_D)
  let ?z = "takeWhile (\<lambda>g. g = 0) (drop i gs)"
  have z: "?z = replicate m 0"
    by (rule replicate_eqI) (use run in \<open>auto simp: zero_run_def dest: set_takeWhileD\<close>)
  have "m \<le> length (drop i gs)" using run by (metis length_takeWhile_le zero_run_def)
  moreover have "drop i gs = ?z @ drop m (drop i gs)"
    using run by (metis dropWhile_eq_drop takeWhile_dropWhile_id zero_run_def)
  ultimately show ?thesis
    using m i z by (metis add.commute append_take_drop_id drop_drop le_diff_conv2 less_imp_le length_drop)
qed

lemma hex_group:
  assumes "g < 65536"
  shows "v6_seg (nat_to_string 16 g)" and "string_to_nat 16 (nat_to_string 16 g) = g"
    and "CHR '':'' \<notin> set (nat_to_string 16 g)" and "CHR ''.'' \<notin> set (nat_to_string 16 g)"
    and "CHR ''%'' \<notin> set (nat_to_string 16 g)"
proof -
  have "length (to_digits 16 g) \<le> 4" using assms by (intro length_to_digits) simp_all
  then show "v6_seg (nat_to_string 16 g)"
    using nat_to_string_hex [of _ g] by (auto simp: v6_seg_def list_all_iff nat_to_string_def)
  show "string_to_nat 16 (nat_to_string 16 g) = g" by (rule string_to_nat_to_string) simp_all
qed (auto dest!: nat_to_string_hex simp: is_hex_def is_digit_def)

lemma colon_groups_set:
  assumes "list_all (\<lambda>g. g < 65536) gs" and "c \<in> set (colon_groups gs)"
  shows "is_hex c \<or> c = CHR '':''"
  using assms set_join [of "'':''" "map (nat_to_string 16) gs"] by (auto simp: colon_groups_def dest: nat_to_string_hex)

lemma split_colon_groups:
  assumes "list_all (\<lambda>g. g < 65536) gs" and "gs \<noteq> []"
  shows "split_on (CHR '':'') (colon_groups gs) = map (nat_to_string 16) gs"
  unfolding colon_groups_def by (rule split_on_join) (use assms hex_group(3) in \<open>auto simp: list_all_iff\<close>)

lemma no_dot_not_v4: "CHR ''.'' \<notin> set s \<Longrightarrow> \<not> isIPv4 s"
  by (simp add: isIPv4_def split_on_none)

lemma colon_groups_empty [simp]: "colon_groups gs = [] \<longleftrightarrow> gs = []"
  by (cases gs) (auto simp: colon_groups_def join_def)

lemma v6_side_colon_groups:
  assumes "list_all (\<lambda>g. g < 65536) gs"
  shows "v6_side ok (colon_groups gs) = Some gs"
proof (cases "gs = []")
  case False
  have "list_all v6_seg (map (nat_to_string 16) gs)"
    and "map (string_to_nat 16) (map (nat_to_string 16) gs) = gs"
    using assms hex_group(1,2) by (auto simp: list_all_iff map_idI)
  moreover have "\<not> isIPv4 (last (map (nat_to_string 16) gs))"
    using False assms hex_group(4) [of "last gs"] by (simp add: last_map list_all_iff no_dot_not_v4)
  ultimately show ?thesis
    using False assms by (simp add: v6_side_def split_colon_groups Let_def del: map_map list.map_comp)
qed (simp add: v6_side_def)

lemma cut_double_append:
  "cut_double l = None \<Longrightarrow> l = [] \<or> last l \<noteq> CHR '':'' \<Longrightarrow> cut_double (l @ ''::'' @ r) = Some (l, r)"
proof (induction l rule: cut_double.induct)
  case (1 a b s)
  then show ?case by (auto split: if_splits)
qed (auto split: if_splits)

lemma cut_double_word: "CHR '':'' \<notin> set w \<Longrightarrow> cut_double w = None"
  by (induction w rule: cut_double.induct) auto

lemma cut_double_segment:
  "CHR '':'' \<notin> set w \<Longrightarrow> t \<noteq> [] \<Longrightarrow> hd t \<noteq> CHR '':'' \<Longrightarrow> cut_double t = None \<Longrightarrow>
   cut_double (w @ CHR '':'' # t) = None"
proof (induction w)
  case Nil
  then show ?case by (cases t) auto
next
  case (Cons a w)
  then show ?case by (cases w) auto
qed

lemma hex_group_ends:
  assumes "g < 65536"
  shows "hd (nat_to_string 16 g) \<noteq> CHR '':''" and "last (nat_to_string 16 g) \<noteq> CHR '':''"
  using hex_group(3) [OF assms] hd_in_set last_in_set nat_to_string_nonempty by metis+

lemma colon_groups_shape:
  assumes "list_all (\<lambda>g. g < 65536) gs" and "gs \<noteq> []"
  shows "cut_double (colon_groups gs) = None \<and> hd (colon_groups gs) \<noteq> CHR '':''
    \<and> last (colon_groups gs) \<noteq> CHR '':''"
  using assms
proof (induction gs)
  case (Cons g gs)
  show ?case
  proof (cases "gs = []")
    case True
    then show ?thesis
      using Cons.prems hex_group(3) [of g] hex_group_ends [of g] by (simp add: colon_groups_def cut_double_word)
  next
    case False
    then have e: "colon_groups (g # gs) = nat_to_string 16 g @ CHR '':'' # colon_groups gs"
      by (simp add: colon_groups_def join_Cons)
    show ?thesis
      using Cons False hex_group(3) [of g] hex_group_ends [of g]
      by (auto simp: e hd_append cut_double_segment)
  qed
qed simp

text \<open>The parser reads the canonical text of an address as that address.\<close>

lemma ipv6_text_roundtrip:
  assumes "is_groups gs"
  shows "ipv6_address (ipv6_text gs) = Some gs"
proof (cases "v6_gap gs")
  case None
  have g: "list_all (\<lambda>g. g < 65536) gs" "length gs = 8" using assms by (auto simp: is_groups_def)
  then have "cut_double (colon_groups gs) = None" using colon_groups_shape [OF g(1)] by fastforce
  then show ?thesis using None g by (simp add: ipv6_text_def ipv6_address_def v6_side_colon_groups)
next
  case (Some p)
  obtain i m where p: "p = (i, m)" by (cases p)
  define l r where lr: "l = take i gs" "r = drop (i + m) gs"
  have z: "2 \<le> m" "i + m \<le> 8" "gs = l @ replicate m 0 @ r"
    using v6_gap_zeros [of gs i m] Some assms by (auto simp: p lr is_groups_def)
  have "list_all (\<lambda>g. g < 65536) (l @ replicate m 0 @ r)" using assms z(3) by (metis is_groups_def)
  then have g: "list_all (\<lambda>g. g < 65536) l" "list_all (\<lambda>g. g < 65536) r" by simp_all
  have len: "length l + m + length r = 8" using assms z(3) by (metis add.assoc is_groups_def length_append length_replicate)
  have "cut_double (colon_groups l) = None \<and> (colon_groups l = [] \<or> last (colon_groups l) \<noteq> CHR '':'')"
    using colon_groups_shape [OF g(1)] by (cases "l = []") (auto simp: colon_groups_def)
  then have "cut_double (colon_groups l @ ''::'' @ colon_groups r) = Some (colon_groups l, colon_groups r)"
    by (intro cut_double_append) auto
  moreover have "8 - length l - length r = m" using len by simp
  moreover have "ipv6_text gs = colon_groups l @ ''::'' @ colon_groups r"
    using Some by (simp add: ipv6_text_def p lr)
  ultimately have "ipv6_address (ipv6_text gs) = Some (l @ replicate m 0 @ r)"
    using z(1) len by (simp add: ipv6_address_def v6_side_colon_groups g)
  then show ?thesis by (simp only: z(3) [symmetric])
qed


text \<open>The blocks of version 6 that the comment of \<^verbatim>\<open>isPrivateIPv6\<close> lists, and the unspecified address.\<close>

definition v6_reserved :: "nat list \<Rightarrow> bool" where
  "v6_reserved gs \<longleftrightarrow>
     gs = [0, 0, 0, 0, 0, 0, 0, 0] \<or> gs = [0, 0, 0, 0, 0, 0, 0, 1] \<or>
     hd gs div 2 ^ 9 = 0xFC00 div 2 ^ 9 \<or> hd gs div 2 ^ 6 = 0xFE80 div 2 ^ 6 \<or>
     take 6 gs = [0, 0, 0, 0, 0, 0xFFFF] \<or> take 6 gs = [0x64, 0xFF9B, 0, 0, 0, 0]"

lemma downcase_digit_char: "d < 16 \<Longrightarrow> downcase (digit_char d) = digit_char d"
  by (auto simp: downcase_def digit_char_def)

lemma downcase_hex_group: "c \<in> set (nat_to_string 16 g) \<Longrightarrow> downcase c = c"
  by (auto simp: nat_to_string_def downcase_digit_char dest!: to_digits_less [rotated])

lemma downcase_colon [simp]: "downcase (CHR '':'') = CHR '':''"
  by (simp add: downcase_def)

lemma ipv6_text_chars:
  assumes "c \<in> set (ipv6_text gs)"
  shows "c = CHR '':'' \<or> (is_hex c \<and> downcase c = c)"
proof -
  have "c \<in> set (colon_groups hs) \<Longrightarrow> c = CHR '':'' \<or> (is_hex c \<and> downcase c = c)" for hs
    using set_join [of "'':''" "map (nat_to_string 16) hs"]
    by (auto simp: colon_groups_def dest: nat_to_string_hex downcase_hex_group)
  then show ?thesis using assms by (auto simp: ipv6_text_def split: option.splits)
qed

lemma ipv6_text_lower: "toLowerCase (ipv6_text gs) = ipv6_text gs"
  by (auto simp: toLowerCase_def intro!: map_idI dest: ipv6_text_chars)

lemma ipv6_text_not_in:
  assumes "c \<noteq> CHR '':''" and "\<not> is_hex c"
  shows "c \<notin> set (ipv6_text gs)"
  using assms ipv6_text_chars by blast

lemma not_hex [simp]: "\<not> is_hex (CHR ''['')" "\<not> is_hex (CHR '']'')" "\<not> is_hex (CHR ''.'')" "\<not> is_hex (CHR ''%'')"
  by (simp_all add: is_hex_def is_digit_def)

lemma strip_brackets_id:
  assumes "CHR ''['' \<notin> set s" and "CHR '']'' \<notin> set s"
  shows "strip_brackets s = s"
proof (cases "s = []")
  case False
  then have "hd s \<noteq> CHR ''[''" "last s \<noteq> CHR '']''" using assms hd_in_set last_in_set by metis+
  then show ?thesis using False by (auto simp: strip_brackets_def endsWith_def hd_rev)
qed (simp add: strip_brackets_def endsWith_def)

lemma ipv6_text_strip: "strip_brackets (toLowerCase (ipv6_text gs)) = ipv6_text gs"
  unfolding ipv6_text_lower by (rule strip_brackets_id; rule ipv6_text_not_in) simp_all

lemma mapped_v4_text: "mapped_v4 (ipv6_text gs) = None"
proof -
  have "CHR ''.'' \<notin> set (drop 7 (ipv6_text gs))" using ipv6_text_not_in [of "CHR ''.''" gs] by (auto dest: in_set_dropD)
  then show ?thesis by (simp add: mapped_v4_def split_on_none Let_def)
qed

lemma isIPv6_text: "is_groups gs \<Longrightarrow> isIPv6 (ipv6_text gs) \<and> \<not> isIPv4 (ipv6_text gs)"
proof
  assume "is_groups gs"
  moreover have "CHR ''%'' \<notin> set (ipv6_text gs)" by (rule ipv6_text_not_in) simp_all
  then have "takeWhile (\<lambda>c. c \<noteq> CHR ''%'') (ipv6_text gs) = ipv6_text gs"
    and "dropWhile (\<lambda>c. c \<noteq> CHR ''%'') (ipv6_text gs) = []"
    by (auto simp: takeWhile_eq_all_conv dropWhile_eq_Nil_conv)
  ultimately show "isIPv6 (ipv6_text gs)" unfolding isIPv6_def Let_def by (simp only: ipv6_text_roundtrip) simp
  show "\<not> isIPv4 (ipv6_text gs)" by (rule no_dot_not_v4, rule ipv6_text_not_in) simp_all
qed

text \<open>The text of an address begins with its first group, unless that is zero.\<close>

lemma ipv6_text_first:
  assumes "gs \<noteq> []" and "hd gs \<noteq> 0"
  obtains t where "ipv6_text gs = nat_to_string 16 (hd gs) @ t"
proof -
  have cg: "\<exists>t. colon_groups hs = nat_to_string 16 (hd hs) @ t" if "hs \<noteq> []" for hs
    using that by (cases hs) (auto simp: colon_groups_def join_def)
  show ?thesis
  proof (cases "v6_gap gs")
    case None
    then show ?thesis using cg [OF assms(1)] that by (auto simp: ipv6_text_def)
  next
    case (Some p)
    obtain i m where p: "p = (i, m)" by (cases p)
    have "i \<noteq> 0"
    proof
      assume "i = 0"
      then have "gs = replicate m 0 @ drop m gs" "2 \<le> m" using v6_gap_zeros [of gs i m] Some p by auto
      then show False using assms(2) by (cases m) (metis append_Cons list.sel(1) replicate_Suc zero_neq_numeral le_zero_eq)+
    qed
    then have "take i gs \<noteq> []" "hd (take i gs) = hd gs" using assms(1) by auto
    then show ?thesis using cg [of "take i gs"] that Some by (auto simp: ipv6_text_def p)
  qed
qed

lemma hex_chars:
  "digit_char 0 = CHR ''0''" "digit_char 4 = CHR ''4''" "digit_char 6 = CHR ''6''" "digit_char 8 = CHR ''8''"
  "digit_char 9 = CHR ''9''" "digit_char 10 = CHR ''a''" "digit_char 11 = CHR ''b''" "digit_char 12 = CHR ''c''"
  "digit_char 13 = CHR ''d''" "digit_char 14 = CHR ''e''" "digit_char 15 = CHR ''f''" "digit_char (Suc 0) = CHR ''1''"
  by (simp_all add: digit_char_def char_of_def bit_0)

lemma four_hex_digits:
  assumes "4096 \<le> g" and "g < 65536"
  shows "nat_to_string 16 g = map digit_char [g div 4096, g div 256 mod 16, g div 16 mod 16, g mod 16]"
proof -
  have d: "g div 16 div 16 = g div 256" "g div 16 div 16 div 16 = g div 4096" by (simp_all add: div_mult2_eq [symmetric])
  have b: "16 \<le> g div 16" "16 \<le> g div 256" "g div 4096 < 16" using assms by linarith+
  have "to_digits 16 g = [g div 4096, g div 256 mod 16, g div 16 mod 16, g mod 16]"
    using assms b by (simp add: to_digits.simps [of 16 g] to_digits.simps [of 16 "g div 16"] to_digits.simps [of 16 "g div 256"]
      to_digits.simps [of 16 "g div 4096"] d div_mult2_eq [symmetric])
  then show ?thesis by (simp add: nat_to_string_def)
qed

lemma unique_local_prefix:
  assumes "g < 65536" and "g div 2 ^ 9 = 0xFC00 div 2 ^ 9"
  shows "startsWith (nat_to_string 16 g @ t) ''fc'' \<or> startsWith (nat_to_string 16 g @ t) ''fd''"
proof -
  have r: "0xFC00 \<le> g" "g < 0xFE00" using assms by simp_all
  then have "g div 4096 = 15" "g div 256 = 252 \<or> g div 256 = 253" by auto
  then show ?thesis using r by (auto simp: four_hex_digits hex_chars)
qed

lemma link_local_prefix:
  assumes "g < 65536" and "g div 2 ^ 6 = 0xFE80 div 2 ^ 6"
  shows "startsWith (nat_to_string 16 g @ t) ''fe8'' \<or> startsWith (nat_to_string 16 g @ t) ''fe9''
    \<or> startsWith (nat_to_string 16 g @ t) ''fea'' \<or> startsWith (nat_to_string 16 g @ t) ''feb''"
proof -
  have r: "0xFE80 \<le> g" "g < 0xFEC0" using assms by simp_all
  then have "g div 4096 = 15" "g div 256 = 254" "g div 16 = 4072 \<or> g div 16 = 4073 \<or> g div 16 = 4074 \<or> g div 16 = 4075"
    by auto
  then show ?thesis using r by (auto simp: four_hex_digits hex_chars)
qed

lemmas v6_eval = ipv6_text_def v6_gap_def zero_run_def colon_groups_def join_def nat_to_string_def
  to_digits.simps hex_chars Let_def upt_rec

lemma mapped_text: "\<exists>t. ipv6_text [0, 0, 0, 0, 0, 65535, x, y] = ''::ffff:'' @ t"
  by (cases "x = 0"; cases "y = 0") (simp_all add: v6_eval)

lemma nat64_text: "\<exists>t. ipv6_text [100, 65435, 0, 0, 0, 0, x, y] = ''64:ff9b::'' @ t"
  by (cases "x = 0"; cases "y = 0") (simp_all add: v6_eval)


lemma eight_groups:
  assumes "is_groups gs" and "take 6 gs = [a, b, c, d, e, f]"
  obtains x y where "gs = [a, b, c, d, e, f, x, y]"
proof -
  have "length (drop 6 gs) = 2" using assms(1) by (simp add: is_groups_def)
  then obtain x y where "drop 6 gs = [x, y]" by (metis length_0_conv length_Suc_conv numeral_2_eq_2)
  then have "gs = [a, b, c, d, e, f] @ [x, y]" using assms(2) by (metis append_take_drop_id)
  then show ?thesis using that by simp
qed

lemma startsWith_append [simp]: "startsWith (p @ t) p"
  by (induction p) auto

lemma reserved_text:
  assumes "is_groups gs" and "v6_reserved gs"
  shows "isPrivateIPv6 (ipv6_text gs)"
proof -
  let ?s = "ipv6_text gs"
  have first: "\<exists>t. ?s = nat_to_string 16 (hd gs) @ t" if "hd gs \<noteq> 0"
    using that assms(1) ipv6_text_first by (metis is_groups_def list.size(3) zero_neq_numeral)
  have small: "hd gs < 65536" using assms(1) by (cases gs) (auto simp: is_groups_def)
  consider (zero) "gs = [0, 0, 0, 0, 0, 0, 0, 0]" | (loop) "gs = [0, 0, 0, 0, 0, 0, 0, 1]"
    | (ula) "hd gs div 2 ^ 9 = 0xFC00 div 2 ^ 9" | (link) "hd gs div 2 ^ 6 = 0xFE80 div 2 ^ 6"
    | (mapped) x y where "gs = [0, 0, 0, 0, 0, 65535, x, y]"
    | (nat64) x y where "gs = [100, 65435, 0, 0, 0, 0, x, y]"
    using assms unfolding v6_reserved_def by (elim disjE) (auto elim: eight_groups [OF assms(1)])
  then have "?s = ''::1'' \<or> ?s = ''::'' \<or> startsWith ?s ''fc'' \<or> startsWith ?s ''fd'' \<or>
      startsWith ?s ''fe8'' \<or> startsWith ?s ''fe9'' \<or> startsWith ?s ''fea'' \<or> startsWith ?s ''feb'' \<or>
      startsWith ?s ''::ffff:'' \<or> startsWith ?s ''64:ff9b::''"
  proof cases
    case zero
    then show ?thesis by (simp add: v6_eval)
  next
    case loop
    then show ?thesis by (simp add: v6_eval)
  next
    case ula
    then have "hd gs \<noteq> 0" by auto
    then obtain t where "?s = nat_to_string 16 (hd gs) @ t" using first by blast
    then show ?thesis using unique_local_prefix [OF small ula, of t] by auto
  next
    case link
    then have "hd gs \<noteq> 0" by auto
    then obtain t where "?s = nat_to_string 16 (hd gs) @ t" using first by blast
    then show ?thesis using link_local_prefix [OF small link, of t] by auto
  next
    case mapped
    then show ?thesis using mapped_text [of x y] startsWith_append by metis
  next
    case nat64
    then show ?thesis using nat64_text [of x y] startsWith_append by metis
  qed
  then show ?thesis by (auto simp: isPrivateIPv6_def ipv6_text_strip mapped_v4_text Let_def)
qed

text \<open>every address of version 6 in a block the comment of \<^verbatim>\<open>isPrivateIPv6\<close> names is refused when it comes in
  canonical form, as the resolver and the parser of URLs give it: loopback and unspecified address,
  unique local and link-local addresses, mapped and translated addresses of version 4.\<close>

theorem ipv6_reserved_blocked:
  assumes "is_groups gs" and "v6_reserved gs"
  shows "isIPv6 (ipv6_text gs) \<and> validateResolvedIp (ipv6_text gs) = Some (PrivateIPv6 (ipv6_text gs))"
  using isIPv6_text [OF assms(1)] reserved_text [OF assms] by (simp add: validateResolvedIp_def)

theorem ipv6_reserved_blocked_witness:
  "isIPv6 (ipv6_text [0xFD12, 0, 0, 0, 0, 0, 0, 7]) \<and>
   validateResolvedIp (ipv6_text [0xFD12, 0, 0, 0, 0, 0, 0, 7])
     = Some (PrivateIPv6 (ipv6_text [0xFD12, 0, 0, 0, 0, 0, 0, 7]))"
  by (rule ipv6_reserved_blocked) (simp_all add: is_groups_def v6_reserved_def)

text \<open>
  The check works on the text: other spellings of a mapped address pass, and so do the multicast
  addresses and the addresses of version 4 embedded without the mapped prefix.
\<close>

lemma ipv6_check_gaps:
  "isPrivateIPv6 ''::ffff:7f00:2'' \<and> \<not> isPrivateIPv6 ''0:0:0:0:0:ffff:7f00:2'' \<and>
   \<not> isPrivateIPv6 ''::7f00:2'' \<and> \<not> isPrivateIPv6 ''ff02::2''"
  by (simp add: isPrivateIPv6_def toLowerCase_def downcase_def strip_brackets_def endsWith_def mapped_v4_def Let_def)

lemmas address_eval = isIPv4_def isIPv6_def v4_seg_def string_to_nat_def of_digits_def digit_val_def is_digit_def
  ipv6_address_def v6_side_def v4_groups_def validateResolvedIp_def isPrivateIPv4_def ipv4ToLong_def
  add_octet_def parseInt10_def is_space_def PRIVATE_IPv4_RANGES_def strip_brackets_def endsWith_def Let_def

theorem ipv4_check_exact_witness:
  "validateResolvedIp ''172.32.0.5'' = None \<longleftrightarrow> \<not> list_ex (\<lambda>(p, len). same_prefix len [172, 32, 0, 5] p) RESERVED_BLOCKS"
  by (rule ipv4_check_exact)
    (simp_all add: isIPv4_def v4_seg_def string_to_nat_def of_digits_def digit_val_def is_digit_def)

subsection \<open>Age of resolved addresses\<close>

text \<open>
  Calls of \<^verbatim>\<open>resolveDnsWithCache\<close> overlap: each reads the cache, and when it missed writes after the
  resolver has answered. \<open>DnsRead\<close> is the first half, \<open>DnsWrite t took h\<close> the second half of a call that read
  at time \<open>t\<close>.
\<close>

datatype dns_op = DnsRead millis string | DnsWrite millis millis string | DnsClear

fun dns_step :: "resolver \<Rightarrow> dns_cache \<Rightarrow> dns_op \<Rightarrow> dns_cache" where
  "dns_step dns c (DnsRead now h) = snd (DnsCache_get now h c)"
| "dns_step dns c (DnsWrite t took h) =
     (if length (resolved dns t h) = 0 then c
      else DnsCache_set (t + took) h (resolved dns t h) (DEFAULT_TTL_MS div 1000) c)"
| "dns_step dns c DnsClear = clearDnsCache c"

fun dns_op_within :: "millis \<Rightarrow> dns_op \<Rightarrow> bool" where
  "dns_op_within D (DnsWrite t took h) \<longleftrightarrow> took \<le> D"
| "dns_op_within D _ \<longleftrightarrow> True"

definition dns_inv :: "resolver \<Rightarrow> millis \<Rightarrow> dns_cache \<Rightarrow> bool" where
  "dns_inv dns D c \<longleftrightarrow>
     (\<forall>h e. c h = Some e \<longrightarrow> ips e \<noteq> [] \<and>
        (\<exists>t. ips e = resolved dns t h \<and> dns_expiresAt e \<le> t + D + DEFAULT_TTL_MS))"

lemma resolve_is_read_write:
  "snd (resolveDnsWithCache dns now took h c) =
     (case fst (DnsCache_get now h c) of
        Some _ \<Rightarrow> dns_step dns c (DnsRead now h)
      | None \<Rightarrow> dns_step dns (dns_step dns c (DnsRead now h)) (DnsWrite now took h))"
  by (simp add: resolveDnsWithCache_def Let_def split: prod.split option.split)

lemma dns_ttl [simp]: "DnsCache_set now h xs (DEFAULT_TTL_MS div 1000) c = c(h \<mapsto> \<lparr>ips = xs, dns_expiresAt = now + DEFAULT_TTL_MS\<rparr>)"
  by (simp add: DnsCache_set_def DEFAULT_TTL_MS_def MAX_TTL_MS_def)

lemma dns_step_inv:
  assumes "dns_inv dns D c" and "dns_op_within D op"
  shows "dns_inv dns D (dns_step dns c op)"
proof (cases op)
  case (DnsRead now h)
  then show ?thesis using assms(1) by (auto simp: dns_inv_def DnsCache_get_def split: option.splits)
next
  case (DnsWrite t took h)
  then have "t + took + DEFAULT_TTL_MS \<le> t + D + DEFAULT_TTL_MS" using assms(2) by simp
  then show ?thesis using assms(1) DnsWrite unfolding dns_inv_def by (auto simp del: add_le_cancel_right)
next
  case DnsClear
  then show ?thesis by (simp add: dns_inv_def clearDnsCache_def)
qed

lemma dns_steps_inv:
  "list_all (dns_op_within D) ops \<Longrightarrow> dns_inv dns D c \<Longrightarrow> dns_inv dns D (foldl (dns_step dns) c ops)"
  by (induction ops arbitrary: c) (auto simp: dns_step_inv)

text \<open>after any interleaving of earlier calls, what a call returns is a nonempty answer the resolver
  gave for that name, and not longer ago than the time to live of one minute and the time
  the lookup took.\<close>

theorem dns_answer_fresh:
  assumes "list_all (dns_op_within D) ops" and "0 \<le> D"
    and "resolveDnsWithCache dns now took h (foldl (dns_step dns) (\<lambda>_. None) ops) = (Some a, c')"
  shows "a \<noteq> [] \<and> (\<exists>t. a = resolved dns t h \<and> now \<le> t + D + DEFAULT_TTL_MS)"
proof -
  let ?c = "foldl (dns_step dns) (\<lambda>_. None) ops"
  have inv: "dns_inv dns D ?c" by (rule dns_steps_inv [OF assms(1)]) (simp add: dns_inv_def)
  show ?thesis
  proof (cases "fst (DnsCache_get now h ?c)")
    case None
    then have "a = resolved dns now h" "a \<noteq> []"
      using assms(3) by (auto simp: resolveDnsWithCache_def Let_def split: prod.splits if_splits)
    moreover have "now \<le> now + D + DEFAULT_TTL_MS" using assms(2) by (simp add: DEFAULT_TTL_MS_def)
    ultimately show ?thesis by blast
  next
    case (Some b)
    then obtain e where e: "?c h = Some e" "now \<le> dns_expiresAt e" "b = ips e"
      by (auto simp: DnsCache_get_def split: option.splits if_splits)
    moreover have "a = b" using assms(3) Some by (auto simp: resolveDnsWithCache_def split: prod.splits)
    ultimately show ?thesis using inv unfolding dns_inv_def by (metis order_trans)
  qed
qed

theorem dns_answer_fresh_witness:
  "[''93.184.216.34''] \<noteq> [] \<and>
   (\<exists>t. [''93.184.216.34''] = resolved (\<lambda>_ _. (Some [''93.184.216.34''], None)) t ''school.org''
      \<and> 30000 \<le> t + 5000 + DEFAULT_TTL_MS)"
  by (rule dns_answer_fresh [where ops = "[DnsRead 0 ''school.org'', DnsWrite 0 40 ''school.org'']" and took = 40
        and c' = "[''school.org'' \<mapsto> \<lparr>ips = [''93.184.216.34''], dns_expiresAt = 60040\<rparr>]"])
    (simp_all add: resolveDnsWithCache_def DnsCache_get_def resolved_def DEFAULT_TTL_MS_def DnsCache_set_def MAX_TTL_MS_def)


text \<open>A literal of version 4 is none of version 6.\<close>

lemma isIPv4_chars: "isIPv4 s \<Longrightarrow> c \<in> set s \<Longrightarrow> is_digit c \<or> c = CHR ''.''"
  using set_join [of "''.''" "split_on (CHR ''.'') s"]
  by (auto simp: isIPv4_def v4_seg_def list_all_iff join_split_on)

lemma v4_not_v6:
  assumes "isIPv4 s"
  shows "strip_brackets s = s \<and> \<not> isIPv6 s"
proof -
  have no: "c \<notin> set s" if "\<not> is_digit c" "c \<noteq> CHR ''.''" for c using assms isIPv4_chars that by blast
  have nc: "CHR '':'' \<notin> set s" "CHR ''%'' \<notin> set s" "CHR ''['' \<notin> set s" "CHR '']'' \<notin> set s"
    by (rule no; simp add: is_digit_def)+
  then have t: "takeWhile (\<lambda>c. c \<noteq> CHR ''%'') s = s" by (auto simp: takeWhile_eq_all_conv)
  have "length (v4_groups s) < 8" by (simp add: v4_groups_def split: list.split)
  then have "ipv6_address s = None"
    using nc(1) assms by (auto simp: ipv6_address_def v6_side_def cut_double_word split_on_none)
  then show ?thesis using nc strip_brackets_id by (simp add: isIPv6_def t Let_def)
qed

subsection \<open>Public addresses\<close>

text \<open>
  What it means that an address is public, without the tables of the program: a literal of version 4 outside
  the reserved blocks, or a literal of version 6 that is not the canonical text of an address in a
  reserved block of version 6 and does not carry, behind the mapped prefix, the dotted form of a reserved address of
  version 4. Other spellings of a reserved address of version 6 are not excluded: \<open>ipv6_check_gaps\<close>.
\<close>

definition public_address :: "string \<Rightarrow> bool" where
  "public_address ip \<longleftrightarrow>
     (isIPv4 ip \<and> \<not> v4_reserved ip) \<or>
     (isIPv6 ip \<and> (\<forall>gs. is_groups gs \<longrightarrow> v6_reserved gs \<longrightarrow> ip \<noteq> ipv6_text gs) \<and>
        (\<forall>v4. ip = ''::ffff:'' @ v4 \<longrightarrow> isIPv4 v4 \<longrightarrow> \<not> v4_reserved v4))"

lemma dotted_segments:
  assumes "isIPv4 v4"
  shows "list_all (\<lambda>p. p \<noteq> [] \<and> length p \<le> 3 \<and> list_all is_digit p) (split_on (CHR ''.'') v4)"
proof -
  have "length p \<le> 3" if "v4_seg p" for p
  proof (cases p)
    case (Cons c t)
    show ?thesis
    proof (rule ccontr)
      assume long: "\<not> length p \<le> 3"
      then have "c \<noteq> CHR ''0''" "is_digit c" using that Cons by (auto simp: v4_seg_def)
      then have "1 \<le> digit_val c" using of_char_eq_iff [of c "CHR ''0''", where 'a = nat] by (auto simp: digit_val_def is_digit_def)
      moreover have "(10 :: nat) ^ 3 \<le> 10 ^ length t" using long Cons by (intro power_increasing) simp_all
      ultimately have "1000 \<le> digit_val c * 10 ^ length t" using mult_mono [of 1 "digit_val c" "10 ^ 3"] by simp
      then have "1000 \<le> string_to_nat 10 p" using of_digits_append [of 10 "[digit_val c]" "map digit_val t"]
        by (simp add: string_to_nat_def Cons)
      then show False using that by (simp add: v4_seg_def)
    qed
  qed simp
  then show ?thesis using assms by (auto simp: isIPv4_def v4_seg_def list_all_iff)
qed

lemma mapped_private:
  assumes "isIPv4 v4"
  shows "isPrivateIPv6 (''::ffff:'' @ v4) \<longleftrightarrow> v4_reserved v4"
proof -
  have digits: "c \<in> set v4 \<Longrightarrow> is_digit c \<or> c = CHR ''.''" for c using isIPv4_chars [OF assms] .
  have "downcase c = c" if "c \<in> set v4" for c using digits [OF that] by (auto simp: downcase_def is_digit_def)
  then have low: "toLowerCase (''::ffff:'' @ v4) = ''::ffff:'' @ v4" by (simp add: toLowerCase_def downcase_def map_idI)
  have "strip_brackets (''::ffff:'' @ v4) = ''::ffff:'' @ v4"
    by (rule strip_brackets_id) (use digits [of "CHR ''[''"] digits [of "CHR '']''"] in \<open>auto simp: is_digit_def\<close>)
  then have lower: "strip_brackets (toLowerCase (''::ffff:'' @ v4)) = ''::ffff:'' @ v4" by (simp only: low)
  have mapped: "mapped_v4 (''::ffff:'' @ v4) = Some v4"
    using dotted_segments [OF assms] assms by (simp add: mapped_v4_def isIPv4_def Let_def)
  have "''::ffff:'' @ v4 \<noteq> ''::1''" by simp
  then have "isPrivateIPv6 (''::ffff:'' @ v4) = isPrivateIPv4 v4"
    by (simp only: isPrivateIPv6_def Let_def lower mapped option.case if_False)
  then show ?thesis using private_iff_reserved [OF assms] by simp
qed

lemma unblocked_public:
  assumes "validateResolvedIp ip = None"
  shows "public_address ip"
proof (cases "isIPv4 ip")
  case True
  then show ?thesis using assms private_iff_reserved by (auto simp: validateResolvedIp_def public_address_def split: if_splits)
next
  case False
  then have "isIPv6 ip" "\<not> isPrivateIPv6 ip" using assms by (auto simp: validateResolvedIp_def split: if_splits)
  then show ?thesis using reserved_text mapped_private by (auto simp: public_address_def)
qed

subsection \<open>Where a delivery connects to\<close>

lemma first_blocked_None: "first_blocked as = None \<longleftrightarrow> list_all (\<lambda>a. validateResolvedIp a = None) as"
  by (induction as) (auto split: option.split)

lemma public_is_ip: "validateResolvedIp a = None \<Longrightarrow> isIPv4 a \<or> isIPv6 a"
  by (auto simp: validateResolvedIp_def split: if_splits)

lemma send_check_public:
  assumes "validateAtSendTime dns now took parsed c = (Inr addrs, c')"
  shows "addrs \<noteq> [] \<and> list_all (\<lambda>a. validateResolvedIp a = None) addrs"
  using assms
  by (auto simp: validateAtSendTime_def Let_def first_blocked_None split: option.splits if_splits prod.splits)

lemma pinned_entries_public:
  "list_all (\<lambda>a. validateResolvedIp a = None) addrs \<Longrightarrow>
   pinned_entries addrs = map (\<lambda>a. (a, if isIPv6 a then 6 else 4)) addrs"
  by (induction addrs) (auto simp: pinned_entries_def dest: public_is_ip)

lemma pinned_subset: "pinnedLookup addrs family wantAll = Some ws \<Longrightarrow> set (map fst ws) \<subseteq> set addrs"
  by (auto simp: pinnedLookup_def pinned_entries_def Let_def split: if_splits option.splits dest!: hd_in_set)

text \<open>a delivery that passes the check at send time connects only to addresses that the check has
  found public: whatever family the connection asks for, the pinned lookup answers from the
  validated addresses, and with no preference it does answer.\<close>

theorem delivery_connects_public:
  assumes "validateAtSendTime dns now took parsed c = (Inr addrs, c')"
    and "pinnedLookup addrs family wantAll = Some ws"
  shows "pinnedLookup addrs None wantAll \<noteq> None \<and> ws \<noteq> [] \<and> set (map fst ws) \<subseteq> set addrs \<and>
     list_all (\<lambda>a. validateResolvedIp a = None) (map fst ws)"
proof -
  have a: "addrs \<noteq> []" "list_all (\<lambda>a. validateResolvedIp a = None) addrs"
    using send_check_public [OF assms(1)] by auto
  have "pinned_entries addrs \<noteq> []" using a by (simp add: pinned_entries_public)
  then have "pinnedLookup addrs None wantAll \<noteq> None" by (simp add: pinnedLookup_def Let_def)
  moreover have "ws \<noteq> []" using assms(2) by (auto simp: pinnedLookup_def Let_def split: if_splits)
  moreover note pinned_subset [OF assms(2)]
  ultimately show ?thesis using a(2) by (auto simp: list_all_iff)
qed

theorem delivery_connects_public_witness:
  "pinnedLookup [''93.184.216.34''] None False \<noteq> None \<and> [(''93.184.216.34'', 4 :: nat)] \<noteq> [] \<and>
   set (map fst [(''93.184.216.34'', 4 :: nat)]) \<subseteq> set [''93.184.216.34''] \<and>
   list_all (\<lambda>a. validateResolvedIp a = None) (map fst [(''93.184.216.34'', 4 :: nat)])"
  by (rule delivery_connects_public [where family = "Some 4" and dns = "\<lambda>_ _. (None, None)" and now = 0 and took = 0
        and parsed = "Some \<lparr>protocol = ''https:'', hostname = ''93.184.216.34''\<rparr>" and c = "\<lambda>_. None" and c' = "\<lambda>_. None"])
    (simp_all add: validateAtSendTime_def pinnedLookup_def pinned_entries_def address_eval)

text \<open>a URL accepted by the validation passes the check at send time made at the same moment, with the
  same addresses: the cache that the validation fills answers it, even if the resolver would
  now give another answer.\<close>

theorem validation_pins_send_check:
  assumes "validateWebhookUrl dns now took parsed c = (ValidUrl addrs, c')"
    and "0 \<le> took" and "\<And>h e. c h = Some e \<Longrightarrow> ips e \<noteq> []"
  shows "validateAtSendTime dns' now took' parsed c' = (Inr addrs, c')"
proof -
  obtain u where u: "parsed = Some u" "protocol u = ''https:''"
    using assms(1) by (auto simp: validateWebhookUrl_def split: option.splits if_splits)
  let ?h = "hostname u"
  show ?thesis
  proof (cases "isIPv4 ?h \<or> isIPv6 (strip_brackets ?h)")
    case True
    have "\<not> isIPv6 (strip_brackets ?h)" if "isIPv4 ?h"
      using v4_not_v6 [OF that] by simp
    then show ?thesis using True assms(1) u
      by (auto simp: validateWebhookUrl_def validateAtSendTime_def Let_def split: option.splits if_splits)
  next
    case False
    then have r: "resolveDnsWithCache dns now took ?h c = (Some addrs, c')" "first_blocked addrs = None"
      using assms(1) u by (auto simp: validateWebhookUrl_def Let_def split: option.splits if_splits prod.splits)
    have "resolveDnsWithCache dns' now took' ?h c' = (Some addrs, c') \<and> addrs \<noteq> []"
      using r(1) assms(2,3)
      by (auto simp: resolveDnsWithCache_def DnsCache_get_def Let_def DEFAULT_TTL_MS_def DnsCache_set_def MAX_TTL_MS_def
          split: option.splits if_splits prod.splits)
    then show ?thesis using False u r(2) by (simp add: validateAtSendTime_def Let_def)
  qed
qed


theorem validation_pins_send_check_witness:
  "validateAtSendTime (\<lambda>_ _. (Some [''10.0.0.2''], None)) 0 0 (Some \<lparr>protocol = ''https:'', hostname = ''school.org''\<rparr>)
     [''school.org'' \<mapsto> \<lparr>ips = [''93.184.216.34''], dns_expiresAt = 60040\<rparr>]
   = (Inr [''93.184.216.34''], [''school.org'' \<mapsto> \<lparr>ips = [''93.184.216.34''], dns_expiresAt = 60040\<rparr>])"
  by (rule validation_pins_send_check [where dns = "\<lambda>_ _. (Some [''93.184.216.34''], None)" and took = 40 and c = "\<lambda>_. None"])
    (simp_all add: validateWebhookUrl_def resolveDnsWithCache_def DnsCache_get_def resolved_def internal_name_def
      toLowerCase_def downcase_def address_eval is_hex_def v6_seg_def DnsCache_set_def DEFAULT_TTL_MS_def MAX_TTL_MS_def)


end
