(* ===== verification/Webhook_Signature.thy ===== *)
theory Webhook_Signature
  imports JS_String
begin

section \<open>Signatures of webhooks\<close>

text \<open>
  The signatures of outgoing deliveries (\<^verbatim>\<open>backend/src/services/webhookService.js\<close>), which versions are sent
  (\<^verbatim>\<open>backend/src/utils/webhookSignaturePolicy.js\<close>), the rotation of secrets
  (\<^verbatim>\<open>backend/src/services/webhookEndpointService.js\<close>), and the check of incoming deliveries
  (\<^verbatim>\<open>backend/src/middleware/validateInboundWebhook.js\<close>). The keyed hash is the parameter \<open>hmac\<close>, secret first,
  which gives the digest in hexadecimal; what is used of it is \<open>hex_digest\<close>.
\<close>

type_synonym hash = "string \<Rightarrow> string \<Rightarrow> string"

definition lower_hex :: "char \<Rightarrow> bool" where
  "lower_hex c \<longleftrightarrow> is_digit c \<or> (97 \<le> code c \<and> code c \<le> 102)"

definition hex_digest :: "hash \<Rightarrow> bool" where
  "hex_digest hmac \<longleftrightarrow> (\<forall>k m. length (hmac k m) = 64 \<and> list_all lower_hex (hmac k m))"

subsection \<open>Computing and comparing signatures\<close>

text \<open>\<^verbatim>\<open>Buffer.from(s, 'hex')\<close> decodes pairs of digits up to the first pair that is not one.\<close>

fun hex_buffer :: "string \<Rightarrow> nat list" where
  "hex_buffer (a # b # r) =
     (if is_hex a \<and> is_hex b then (digit_val a * 16 + digit_val b) # hex_buffer r else [])"
| "hex_buffer _ = []"

definition generateSignature :: "hash \<Rightarrow> ('p \<Rightarrow> string) \<Rightarrow> 'p \<Rightarrow> string \<Rightarrow> string" where
  "generateSignature hmac stringify payload secret = hmac secret (stringify payload)"

definition signingBase :: "string \<Rightarrow> string \<Rightarrow> string \<Rightarrow> string" where
  "signingBase timestamp deliveryId rawBody = timestamp @ ''.'' @ deliveryId @ ''.'' @ rawBody"

definition generateSignatureV2 :: "hash \<Rightarrow> string \<Rightarrow> string \<Rightarrow> string \<Rightarrow> string \<Rightarrow> string" where
  "generateSignatureV2 hmac timestamp deliveryId rawBody secret =
     hmac secret (signingBase timestamp deliveryId rawBody)"

definition equal_digests :: "string \<Rightarrow> string \<Rightarrow> bool" where
  "equal_digests expected actual =
     (let e = hex_buffer expected; a = hex_buffer actual
      in if length e \<noteq> length a then False else e = a)"

definition verifySignature :: "hash \<Rightarrow> ('p \<Rightarrow> string) \<Rightarrow> 'p \<Rightarrow> string \<Rightarrow> string \<Rightarrow> bool" where
  "verifySignature hmac stringify payload provided secret =
     equal_digests (generateSignature hmac stringify payload secret) provided"

definition verifySignatureV2 ::
  "hash \<Rightarrow> string \<Rightarrow> string \<Rightarrow> string \<Rightarrow> string \<Rightarrow> string \<Rightarrow> bool" where
  "verifySignatureV2 hmac timestamp deliveryId rawBody provided secret =
     equal_digests (generateSignatureV2 hmac timestamp deliveryId rawBody secret) provided"

definition truthy_secret :: "string option \<Rightarrow> bool" where
  "truthy_secret s \<longleftrightarrow> s \<noteq> None \<and> s \<noteq> Some []"

definition signature_value :: "string \<Rightarrow> string" where
  "signature_value digest = ''sha256='' @ digest"

definition buildSignatureV2Header ::
  "hash \<Rightarrow> string \<Rightarrow> string \<Rightarrow> string \<Rightarrow> string option list \<Rightarrow> string" where
  "buildSignatureV2Header hmac timestamp deliveryId rawBody secrets =
     join '',''
       (map (\<lambda>s. signature_value (generateSignatureV2 hmac timestamp deliveryId rawBody (the s)))
         (filter truthy_secret secrets))"

definition strip_scheme :: "string \<Rightarrow> string" where
  "strip_scheme v = (if startsWith v ''sha256='' then drop 7 v else v)"

definition verifySignatureV2Header ::
  "hash \<Rightarrow> string \<Rightarrow> string \<Rightarrow> string \<Rightarrow> string \<Rightarrow> string \<Rightarrow> bool" where
  "verifySignatureV2Header hmac timestamp deliveryId rawBody headerValue secret =
     (if headerValue = [] \<or> secret = [] then False
      else list_ex (\<lambda>v. verifySignatureV2 hmac timestamp deliveryId rawBody (strip_scheme v) secret)
             (filter (\<lambda>v. v \<noteq> []) (map trim (split_on (CHR '','') headerValue))))"

subsection \<open>Versions of signatures\<close>

text \<open>
  \<open>date_ms\<close> is \<^verbatim>\<open>new Date(s).getTime()\<close>, \<open>None\<close> for \<open>NaN\<close>. The errors that the functions throw are \<open>Inl\<close>.
\<close>

datatype policy_error = InvalidSunset string

definition DEFAULT_V1_SUNSET :: string where "DEFAULT_V1_SUNSET = ''2027-02-28''"
definition LEGACY_SIGNATURE_VERSIONS :: "string list" where "LEGACY_SIGNATURE_VERSIONS = [''v1'', ''v2'']"

definition is_date :: "string \<Rightarrow> bool" where
  "is_date s \<longleftrightarrow>
     length s = 10 \<and> list_all is_digit (take 4 s) \<and> s ! 4 = CHR ''-'' \<and> list_all is_digit (take 2 (drop 5 s))
     \<and> s ! 7 = CHR ''-'' \<and> list_all is_digit (drop 8 s)"

definition parseV1Sunset ::
  "(string \<Rightarrow> millis option) \<Rightarrow> string \<Rightarrow> (policy_error, millis) result" where
  "parseV1Sunset date_ms raw =
     (let v = trim raw in
      if is_date v then
        (case date_ms (v @ ''T00:00:00.000Z'') of
           None \<Rightarrow> Inl (InvalidSunset v)
         | Some day \<Rightarrow> Inr (day + 24 * 60 * 60 * 1000))
      else
        (case date_ms v of
           None \<Rightarrow> Inl (InvalidSunset v)
         | Some ts \<Rightarrow> Inr ts))"

definition sunset_setting :: "string option \<Rightarrow> string" where
  "sunset_setting env = (case env of Some s \<Rightarrow> if s = [] then DEFAULT_V1_SUNSET else s | None \<Rightarrow> DEFAULT_V1_SUNSET)"

definition isV1Sunset ::
  "(string \<Rightarrow> millis option) \<Rightarrow> string option \<Rightarrow> millis \<Rightarrow> (policy_error, bool) result" where
  "isV1Sunset date_ms env now =
     (case parseV1Sunset date_ms (sunset_setting env) of
        Inl e \<Rightarrow> Inl e
      | Inr t \<Rightarrow> Inr (t \<le> now))"

definition sort_versions :: "string list \<Rightarrow> string list" where
  "sort_versions vs = filter (\<lambda>v. v = ''v1'') vs @ filter (\<lambda>v. v \<noteq> ''v1'') vs"

definition requested_versions :: "string list option \<Rightarrow> string list" where
  "requested_versions requested =
     (case requested of
        Some r \<Rightarrow> if r \<noteq> [] then r else LEGACY_SIGNATURE_VERSIONS
      | None \<Rightarrow> LEGACY_SIGNATURE_VERSIONS)"

definition resolveSignatureVersions ::
  "(string \<Rightarrow> millis option) \<Rightarrow> string option \<Rightarrow> string list option \<Rightarrow> millis
     \<Rightarrow> (policy_error, string list) result" where
  "resolveSignatureVersions date_ms env requested now =
     (let base = requested_versions requested;
          versions = rev (remdups (rev (filter (\<lambda>v. v = ''v1'' \<or> v = ''v2'') base)))
      in case isV1Sunset date_ms env now of
           Inl e \<Rightarrow> Inl e
         | Inr gone \<Rightarrow>
             let versions = (if gone then filter (\<lambda>v. v \<noteq> ''v1'') versions else versions);
                 versions = (if length versions = 0 then [''v2''] else versions)
             in Inr (sort_versions versions))"

definition signatureVersionLabel :: "string list \<Rightarrow> bool \<Rightarrow> string" where
  "signatureVersionLabel versions signed =
     (if \<not> signed \<or> length versions = 0 then ''none'' else join ''+'' (sort_versions versions))"

subsection \<open>Rotation of secrets\<close>

record endpoint_secrets =
  ep_secret :: "string option"
  ep_previousSecret :: "string option"
  ep_previousExpiresAt :: "millis option"
  ep_rotatedAt :: "millis option"

definition MAX_ROTATION_OVERLAP_S :: int where "MAX_ROTATION_OVERLAP_S = 7 * 24 * 60 * 60"

text \<open>The parsed number of seconds: \<open>None\<close> when absent, null or empty, \<open>Some None\<close> when no integer.\<close>

datatype overlap_error = InvalidOverlap

definition parseOverlapSeconds :: "int \<Rightarrow> int option option \<Rightarrow> (overlap_error, int) result" where
  "parseOverlapSeconds dflt raw =
     (case raw of
        None \<Rightarrow> Inr dflt
      | Some None \<Rightarrow> Inl InvalidOverlap
      | Some (Some v) \<Rightarrow> if v < 0 \<or> MAX_ROTATION_OVERLAP_S < v then Inl InvalidOverlap else Inr v)"

definition applySecretRotation ::
  "string \<Rightarrow> int \<Rightarrow> millis \<Rightarrow> 'a endpoint_secrets_scheme \<Rightarrow> 'a endpoint_secrets_scheme" where
  "applySecretRotation newSecret overlapSeconds now ep =
     (let ep' = (if 0 < overlapSeconds \<and> truthy_secret (ep_secret ep)
                 then ep\<lparr>ep_previousSecret := ep_secret ep,
                         ep_previousExpiresAt := Some (now + overlapSeconds * 1000)\<rparr>
                 else ep\<lparr>ep_previousSecret := None, ep_previousExpiresAt := None\<rparr>)
      in ep'\<lparr>ep_secret := Some newSecret, ep_rotatedAt := Some now\<rparr>)"

definition purgeExpiredPreviousSecrets ::
  "millis \<Rightarrow> 'a endpoint_secrets_scheme list \<Rightarrow> 'a endpoint_secrets_scheme list \<times> nat" where
  "purgeExpiredPreviousSecrets now eps =
     (let due = (\<lambda>ep. case ep_previousExpiresAt ep of Some t \<Rightarrow> t \<le> now | None \<Rightarrow> False)
      in (map (\<lambda>ep. if due ep then ep\<lparr>ep_previousSecret := None, ep_previousExpiresAt := None\<rparr> else ep) eps,
          length (filter due eps)))"

definition activePreviousSecret :: "'a endpoint_secrets_scheme \<Rightarrow> millis \<Rightarrow> string option" where
  "activePreviousSecret ep now =
     (case ep_previousExpiresAt ep of
        Some t \<Rightarrow> if truthy_secret (ep_previousSecret ep) \<and> now < t then ep_previousSecret ep else None
      | None \<Rightarrow> None)"

text \<open>Endpoints extend this record, so that the operations on secrets apply to them as they are.\<close>

subsection \<open>Incoming deliveries\<close>

text \<open>
  The store of seen delivery identifiers maps each to the time it was received; entries older than the
  time to live are gone. \<open>store_ok\<close> tells whether the store answers; another error than a duplicate key
  is logged and the request goes on.
\<close>

record inbound =
  h_signature :: "string option"
  h_timestamp :: "string option"
  h_deliveryId :: "string option"
  i_body :: string

datatype inbound_result =
    MISSING_TIMESTAMP | TIMESTAMP_SKEW | INVALID_SIGNATURE | DUPLICATE_DELIVERY | Accepted

definition NONCE_TTL_MS :: millis where "NONCE_TTL_MS = 86400 * 1000"

type_synonym nonces = "string \<rightharpoonup> millis"

definition live_nonces :: "millis \<Rightarrow> nonces \<Rightarrow> nonces" where
  "live_nonces now ns = (\<lambda>d. case ns d of Some t \<Rightarrow> if now < t + NONCE_TTL_MS then Some t else None | None \<Rightarrow> None)"

definition verifyInboundSignature :: "hash \<Rightarrow> string \<Rightarrow> string option \<Rightarrow> string \<Rightarrow> bool" where
  "verifyInboundSignature hmac rawBody signatureHeader secret =
     (case signatureHeader of
        None \<Rightarrow> False
      | Some h \<Rightarrow>
          if h = [] \<or> secret = [] then False
          else equal_digests (hmac secret rawBody) (strip_scheme h))"

definition validateInboundWebhook ::
  "hash \<Rightarrow> int \<Rightarrow> string option \<Rightarrow> bool \<Rightarrow> millis \<Rightarrow> inbound \<Rightarrow> nonces \<Rightarrow> inbound_result \<times> nonces" where
  "validateInboundWebhook hmac tolerance secret store_ok now req ns =
     (case h_timestamp req of
        None \<Rightarrow> (MISSING_TIMESTAMP, ns)
      | Some th \<Rightarrow>
          if th = [] then (MISSING_TIMESTAMP, ns)
          else case parseInt10 th of
            None \<Rightarrow> (TIMESTAMP_SKEW, ns)
          | Some ts \<Rightarrow>
              if tolerance < \<bar>now div 1000 - ts\<bar> then (TIMESTAMP_SKEW, ns)
              else if truthy_secret secret \<and> \<not> verifyInboundSignature hmac (i_body req) (h_signature req) (the secret)
              then (INVALID_SIGNATURE, ns)
              else case h_deliveryId req of
                None \<Rightarrow> (Accepted, ns)
              | Some d \<Rightarrow>
                  if d = [] then (Accepted, ns)
                  else if \<not> store_ok then (Accepted, ns)
                  else if live_nonces now ns d \<noteq> None then (DUPLICATE_DELIVERY, ns)
                  else (Accepted, (live_nonces now ns)(d \<mapsto> now)))"

subsection \<open>What a signature header proves\<close>

lemma lower_hex_facts:
  assumes "lower_hex c"
  shows "is_hex c" and "\<not> is_space c" and "c \<noteq> CHR '',''" and "c \<noteq> CHR ''s''" and "digit_val c < 16"
  using assms by (auto simp: lower_hex_def is_hex_def is_digit_def is_space_def digit_val_def)

lemma lower_hex_digit_inj: "lower_hex c \<Longrightarrow> lower_hex d \<Longrightarrow> digit_val c = digit_val d \<Longrightarrow> c = d"
  by (rule injD [OF inj_of_char [where ?'a = nat]]) (auto simp: lower_hex_def digit_val_def is_digit_def simp del: of_char_eq_iff split: if_splits)

text \<open>Decoding loses nothing on digests.\<close>

lemma hex_buffer_inj:
  assumes "list_all lower_hex s" and "list_all lower_hex t" and "even (length s)" and "length t = length s"
  shows "hex_buffer s = hex_buffer t \<longleftrightarrow> s = t"
  using assms
proof (induction s arbitrary: t rule: hex_buffer.induct)
  case (1 a b r)
  then obtain c d u where t: "t = c # d # u" by (metis Suc_length_conv length_Cons)
  have h: "lower_hex a" "lower_hex b" "lower_hex c" "lower_hex d" using 1(2,3) t by auto
  then have hex: "is_hex a" "is_hex b" "is_hex c" "is_hex d" using lower_hex_facts(1) by auto
  have "digit_val a * 16 + digit_val b = digit_val c * 16 + digit_val d \<longleftrightarrow> a = c \<and> b = d"
    using h lower_hex_facts(5) [of a] lower_hex_facts(5) [of b] lower_hex_facts(5) [of c] lower_hex_facts(5) [of d]
      lower_hex_digit_inj [of a c] lower_hex_digit_inj [of b d] by (auto; linarith)
  then show ?case using 1 hex t by auto
qed (auto simp: Suc_length_conv)

lemma equal_digests_iff:
  assumes "list_all lower_hex s" and "list_all lower_hex t" and "length s = 64" and "length t = 64"
  shows "equal_digests s t \<longleftrightarrow> s = t"
  using hex_buffer_inj [OF assms(1,2)] assms(3,4) by (auto simp: equal_digests_def Let_def)

lemma signature_value_facts:
  assumes "list_all lower_hex d"
  shows "CHR '','' \<notin> set (signature_value d)" and "trim (signature_value d) = signature_value d"
    and "strip_scheme (signature_value d) = d" and "signature_value d \<noteq> []"
proof -
  have d: "lower_hex c" if "c \<in> set d" for c using assms that by (auto simp: list_all_iff)
  show "CHR '','' \<notin> set (signature_value d)" using d lower_hex_facts(3) by (auto simp: signature_value_def)
  have "\<not> is_space c" if "c \<in> set (signature_value d)" for c
    using that d lower_hex_facts(2) by (auto simp: signature_value_def is_space_def)
  then show "trim (signature_value d) = signature_value d" by (rule trim_no_space)
  show "strip_scheme (signature_value d) = d" "signature_value d \<noteq> []"
    by (simp_all add: strip_scheme_def signature_value_def)
qed

lemma header_values:
  assumes "hex_digest hmac" and "filter truthy_secret secrets \<noteq> []"
  shows "filter (\<lambda>v. v \<noteq> []) (map trim (split_on (CHR '','') (buildSignatureV2Header hmac ts i body secrets)))
    = map (\<lambda>s. signature_value (generateSignatureV2 hmac ts i body (the s))) (filter truthy_secret secrets)"
proof -
  let ?f = "\<lambda>s. signature_value (generateSignatureV2 hmac ts i body (the s))"
  have h: "list_all lower_hex (generateSignatureV2 hmac ts i body k)" for k
    using assms(1) by (simp add: hex_digest_def generateSignatureV2_def)
  have "split_on (CHR '','') (buildSignatureV2Header hmac ts i body secrets) = map ?f (filter truthy_secret secrets)"
    unfolding buildSignatureV2Header_def
    by (rule split_on_join) (use assms(2) signature_value_facts(1) [OF h] in auto)
  then show ?thesis using signature_value_facts(2,4) [OF h] by simp
qed

lemma header_iff:
  assumes "hex_digest hmac" and "key \<noteq> []"
  shows "verifySignatureV2Header hmac ts i body (buildSignatureV2Header hmac ts i body secrets) key \<longleftrightarrow>
    (\<exists>s. Some s \<in> set secrets \<and> s \<noteq> [] \<and>
       generateSignatureV2 hmac ts i body s = generateSignatureV2 hmac ts i body key)"
proof -
  have dig: "equal_digests (generateSignatureV2 hmac ts i body k) (generateSignatureV2 hmac ts i body s)
      \<longleftrightarrow> generateSignatureV2 hmac ts i body k = generateSignatureV2 hmac ts i body s" for k s
    using assms(1) by (intro equal_digests_iff) (simp_all add: hex_digest_def generateSignatureV2_def)
  have h: "list_all lower_hex (generateSignatureV2 hmac ts i body k)" for k
    using assms(1) by (simp add: hex_digest_def generateSignatureV2_def)
  show ?thesis
  proof (cases "filter truthy_secret secrets = []")
    case True
    then have "Some s \<in> set secrets \<Longrightarrow> s = []" for s by (auto simp: filter_empty_conv truthy_secret_def)
    then show ?thesis using True by (auto simp: verifySignatureV2Header_def buildSignatureV2Header_def)
  next
    case False
    then have "buildSignatureV2Header hmac ts i body secrets \<noteq> []"
      using header_values [OF assms(1) False, of ts i body] by (auto simp: trim_def)
    then have "verifySignatureV2Header hmac ts i body (buildSignatureV2Header hmac ts i body secrets) key \<longleftrightarrow>
       (\<exists>s \<in> set (filter truthy_secret secrets).
          generateSignatureV2 hmac ts i body key = generateSignatureV2 hmac ts i body (the s))"
      using assms(2) header_values [OF assms(1) False, of ts i body]
      by (simp add: verifySignatureV2Header_def list_ex_iff verifySignatureV2_def signature_value_facts(3) [OF h] dig)
    also have "\<dots> \<longleftrightarrow> (\<exists>s. Some s \<in> set secrets \<and> s \<noteq> [] \<and>
       generateSignatureV2 hmac ts i body s = generateSignatureV2 hmac ts i body key)"
      by (auto simp: truthy_secret_def)
    finally show ?thesis .
  qed
qed

lemma header_accepts:
  assumes "hex_digest hmac" and "key \<noteq> []" and "Some key \<in> set secrets"
  shows "verifySignatureV2Header hmac ts i body (buildSignatureV2Header hmac ts i body secrets) key"
  using assms by (auto simp: header_iff [OF assms(1,2)])

text \<open>C20: a receiver accepts the signature header of a delivery exactly when one of the active secrets it was
  built with gives the digest of the receiver's own secret for the same time, delivery and body; a
  header built with the secret itself is always accepted, one built without secrets never.\<close>

theorem header_accepted_iff:
  assumes "hex_digest hmac" and "key \<noteq> []"
  shows "verifySignatureV2Header hmac ts i body (buildSignatureV2Header hmac ts i body secrets) key \<longleftrightarrow>
    (\<exists>s. Some s \<in> set secrets \<and> s \<noteq> [] \<and>
       generateSignatureV2 hmac ts i body s = generateSignatureV2 hmac ts i body key)"
  by (rule header_iff [OF assms])

text \<open>The signed text determines time, delivery and body, as neither of the first two has a dot in it.\<close>

lemma signing_base_injective:
  assumes "CHR ''.'' \<notin> set t \<union> set t' \<union> set i \<union> set i'"
    and "signingBase t i b = signingBase t' i' b'"
  shows "t = t' \<and> i = i' \<and> b = b'"
proof -
  have cut: "takeWhile (\<lambda>c. c \<noteq> CHR ''.'') (x @ CHR ''.'' # y) = x \<and> dropWhile (\<lambda>c. c \<noteq> CHR ''.'') (x @ CHR ''.'' # y) = CHR ''.'' # y"
    if "CHR ''.'' \<notin> set x" for x y
    using that by (auto simp: takeWhile_append dropWhile_append takeWhile_eq_all_conv dropWhile_eq_Nil_conv)
  have e: "t @ CHR ''.'' # (i @ CHR ''.'' # b) = t' @ CHR ''.'' # (i' @ CHR ''.'' # b')"
    using assms(2) by (simp add: signingBase_def)
  then have "t = t'" using cut [of t] cut [of t'] assms(1) by (metis UnCI)
  with e have e2: "i @ CHR ''.'' # b = i' @ CHR ''.'' # b'" by simp
  then have "i = i'" using cut [of i] cut [of i'] assms(1) by (metis UnCI)
  with e2 \<open>t = t'\<close> show ?thesis by simp
qed


text \<open>A keyed hash for the examples: a checksum of secret and message, repeated.\<close>

definition checksum_hmac :: hash where
  "checksum_hmac k m = replicate 64 (digit_char (sum_list (map code (k @ m)) mod 16))"

lemma checksum_hmac_hex: "hex_digest checksum_hmac"
proof -
  have "lower_hex (digit_char d)" if "d < 16" for d
    using that by (auto simp: lower_hex_def digit_char_def is_digit_def)
  then show ?thesis by (simp add: hex_digest_def checksum_hmac_def list_all_iff)
qed

theorem header_accepted_iff_witness:
  "verifySignatureV2Header checksum_hmac ''1'' ''d'' ''{}''
     (buildSignatureV2Header checksum_hmac ''1'' ''d'' ''{}'' [Some ''new'', Some ''old'']) ''old'' \<longleftrightarrow>
   (\<exists>s. Some s \<in> set [Some ''new'', Some ''old''] \<and> s \<noteq> [] \<and>
      generateSignatureV2 checksum_hmac ''1'' ''d'' ''{}'' s = generateSignatureV2 checksum_hmac ''1'' ''d'' ''{}'' ''old'')"
  by (rule header_accepted_iff [OF checksum_hmac_hex]) simp

subsection \<open>Versions and rotation\<close>

lemma sort_versions_canonical:
  assumes "distinct u" and "set u \<subseteq> {''v1'', ''v2''}"
  shows "sort_versions u =
    (if ''v1'' \<in> set u then [''v1''] else []) @ (if ''v2'' \<in> set u then [''v2''] else [])"
proof -
  have "u = [] \<or> u = [''v1''] \<or> u = [''v2''] \<or> u = [''v1'', ''v2''] \<or> u = [''v2'', ''v1'']"
  proof (cases u)
    case (Cons a v)
    then show ?thesis
    proof (cases v)
      case (Cons b w)
      then have "w = []" using assms \<open>u = a # v\<close> by (cases w) auto
      then show ?thesis using assms Cons \<open>u = a # v\<close> by auto
    qed (use assms in auto)
  qed simp
  then show ?thesis by (auto simp: sort_versions_def)
qed

text \<open>the versions a delivery is signed with: v1 exactly if the endpoint asks for it and the sunset has not
  come, v2 if the endpoint asks for it or nothing else is left. They are in order, without
  repetition, and never empty, whatever the endpoint has stored.\<close>

theorem signature_versions_exact:
  assumes "parseV1Sunset date_ms (sunset_setting env) = Inr sunset"
  shows "resolveSignatureVersions date_ms env requested now = Inr
    ((if ''v1'' \<in> set (requested_versions requested) \<and> now < sunset then [''v1''] else []) @
     (if ''v2'' \<in> set (requested_versions requested)
         \<or> \<not> (''v1'' \<in> set (requested_versions requested) \<and> now < sunset) then [''v2''] else []))"
proof -
  define base where "base = requested_versions requested"
  define w where "w = rev (remdups (rev (filter (\<lambda>v. v = ''v1'' \<or> v = ''v2'') base)))"
  define x where "x = (if sunset \<le> now then filter (\<lambda>v. v \<noteq> ''v1'') w else w)"
  define y where "y = (if length x = 0 then [''v2''] else x)"
  have r: "resolveSignatureVersions date_ms env requested now = Inr (sort_versions y)"
    using assms by (simp add: resolveSignatureVersions_def isV1Sunset_def Let_def base_def w_def x_def y_def)
  have w: "distinct w" "set w = {v \<in> set base. v = ''v1'' \<or> v = ''v2''}" by (auto simp: w_def)
  then have x: "distinct x" "set x = {v \<in> set base. v = ''v2'' \<or> (v = ''v1'' \<and> now < sunset)}"
    by (auto simp: x_def)
  have y: "distinct y" "set y \<subseteq> {''v1'', ''v2''}" using x by (auto simp: y_def)
  have "x = [] \<longleftrightarrow> ''v2'' \<notin> set base \<and> \<not> (''v1'' \<in> set base \<and> now < sunset)"
    using x(2) by (auto simp: set_empty [symmetric] simp del: set_empty)
  then have "''v1'' \<in> set y \<longleftrightarrow> ''v1'' \<in> set base \<and> now < sunset"
    and "''v2'' \<in> set y \<longleftrightarrow> ''v2'' \<in> set base \<or> \<not> (''v1'' \<in> set base \<and> now < sunset)"
    using x(2) by (auto simp: y_def)
  then show ?thesis unfolding r sort_versions_canonical [OF y] base_def [symmetric] by simp
qed

theorem signature_versions_exact_witness:
  "resolveSignatureVersions (\<lambda>_. Some 1000) None (Some [''v1'']) 90000000 = Inr
    ((if ''v1'' \<in> set (requested_versions (Some [''v1''])) \<and> 90000000 < (86401000 :: int) then [''v1''] else []) @
     (if ''v2'' \<in> set (requested_versions (Some [''v1'']))
         \<or> \<not> (''v1'' \<in> set (requested_versions (Some [''v1''])) \<and> 90000000 < (86401000 :: int)) then [''v2''] else []))"
  by (rule signature_versions_exact)
    (simp add: parseV1Sunset_def sunset_setting_def DEFAULT_V1_SUNSET_def trim_def is_space_def is_date_def is_digit_def)

text \<open>The secrets a delivery at a given time is signed with.\<close>

definition active_secrets :: "'a endpoint_secrets_scheme \<Rightarrow> millis \<Rightarrow> string option list" where
  "active_secrets ep now = [ep_secret ep, activePreviousSecret ep now]"

text \<open>rotation loses no delivery: from the rotation of a secret until the overlap has passed, every
  signature header is accepted by a receiver with the old secret and by one with the new; after the
  overlap the old secret is no longer used, and removing expired secrets from storage changes
  nothing in what is signed.\<close>

theorem rotation_overlap:
  assumes "hex_digest hmac" and "ep_secret ep = Some old" and "old \<noteq> []" and "new \<noteq> []" and "0 < overlap"
  shows "(now < rotated + overlap * 1000 \<longrightarrow>
      (\<forall>key \<in> {old, new}. verifySignatureV2Header hmac ts i body
         (buildSignatureV2Header hmac ts i body (active_secrets (applySecretRotation new overlap rotated ep) now)) key)) \<and>
    (rotated + overlap * 1000 \<le> now \<longrightarrow>
      active_secrets (applySecretRotation new overlap rotated ep) now = [Some new, None]) \<and>
    map (\<lambda>e. active_secrets e now) (fst (purgeExpiredPreviousSecrets now eps)) = map (\<lambda>e. active_secrets e now) eps"
proof (intro conjI impI ballI)
  fix key assume t: "now < rotated + overlap * 1000" and "key \<in> {old, new}"
  moreover have "active_secrets (applySecretRotation new overlap rotated ep) now = [Some new, Some old]"
    using t assms by (simp add: active_secrets_def applySecretRotation_def activePreviousSecret_def truthy_secret_def)
  ultimately show "verifySignatureV2Header hmac ts i body
      (buildSignatureV2Header hmac ts i body (active_secrets (applySecretRotation new overlap rotated ep) now)) key"
    using header_accepts [OF assms(1)] assms(3,4) by auto
next
  assume "rotated + overlap * 1000 \<le> now"
  then show "active_secrets (applySecretRotation new overlap rotated ep) now = [Some new, None]"
    using assms by (simp add: active_secrets_def applySecretRotation_def activePreviousSecret_def truthy_secret_def)
next
  show "map (\<lambda>e. active_secrets e now) (fst (purgeExpiredPreviousSecrets now eps)) = map (\<lambda>e. active_secrets e now) eps"
    by (auto simp: purgeExpiredPreviousSecrets_def Let_def active_secrets_def activePreviousSecret_def split: option.splits)
qed


definition example_secrets :: endpoint_secrets where
  "example_secrets = \<lparr>ep_secret = Some ''old'', ep_previousSecret = None, ep_previousExpiresAt = None, ep_rotatedAt = None\<rparr>"

theorem rotation_overlap_witness:
  "verifySignatureV2Header checksum_hmac ''7'' ''d'' ''{}''
     (buildSignatureV2Header checksum_hmac ''7'' ''d'' ''{}''
        (active_secrets (applySecretRotation ''new'' 60 1000 example_secrets) 2000)) ''old''"
  using rotation_overlap [OF checksum_hmac_hex, where ep = example_secrets
      and old = "''old''" and new = "''new''" and overlap = 60 and now = 2000 and rotated = 1000
      and ts = "''7''" and i = "''d''" and body = "''{}''" and eps = "[] :: endpoint_secrets list"]
  by (simp add: example_secrets_def)

subsection \<open>Replayed deliveries\<close>

text \<open>One incoming request: the time, whether the store answers, and the request.\<close>

type_synonym inbound_step = "millis \<times> bool \<times> inbound"

definition inbound_step :: "hash \<Rightarrow> int \<Rightarrow> string option \<Rightarrow> inbound_step \<Rightarrow> nonces \<Rightarrow> nonces \<times> inbound_result" where
  "inbound_step hmac tolerance secret x ns =
     (case x of (now, ok, req) \<Rightarrow>
        case validateInboundWebhook hmac tolerance secret ok now req ns of (r, ns') \<Rightarrow> (ns', r))"

lemma nonce_kept:
  assumes "ns d = Some t" and "fst x < t + NONCE_TTL_MS"
  shows "fst (inbound_step hmac tolerance secret x ns) d = Some t"
  using assms
  by (auto simp: inbound_step_def validateInboundWebhook_def live_nonces_def
      split: prod.splits option.splits if_splits)

lemma nonces_kept:
  assumes "ns d = Some t" and "list_all (\<lambda>x. fst x < t + NONCE_TTL_MS) xs"
  shows "fst (trace (inbound_step hmac tolerance secret) xs ns) d = Some t"
  by (rule trace_invariant [where P = "\<lambda>ns. ns d = Some t"]) (use assms nonce_kept in \<open>auto simp: list_all_iff\<close>)

text \<open>a delivery identifier is accepted once: after a delivery was accepted and stored, no request with
  the same identifier is accepted for a day, whatever requests come between, provided the store
  answers for it.\<close>

theorem delivery_accepted_once:
  assumes "validateInboundWebhook hmac tolerance secret True t req ns = (Accepted, ns')"
    and "h_deliveryId req = Some d" and "d \<noteq> []"
    and "list_all (\<lambda>x. fst x < t + NONCE_TTL_MS) xs"
    and "h_deliveryId req' = Some d" and "now < t + NONCE_TTL_MS"
  shows "fst (validateInboundWebhook hmac tolerance secret True now req'
      (fst (trace (inbound_step hmac tolerance secret) xs ns'))) \<noteq> Accepted"
proof -
  have "ns' d = Some t"
    using assms(1-3) by (auto simp: validateInboundWebhook_def split: option.splits if_splits)
  then have "fst (trace (inbound_step hmac tolerance secret) xs ns') d = Some t"
    using assms(4) by (rule nonces_kept)
  then show ?thesis
    using assms(3,5,6) by (auto simp: validateInboundWebhook_def live_nonces_def split: option.splits if_splits)
qed

definition example_inbound :: inbound where
  "example_inbound = \<lparr>h_signature = None, h_timestamp = Some ''7'', h_deliveryId = Some ''d'', i_body = ''{}''\<rparr>"

theorem delivery_accepted_once_witness:
  "fst (validateInboundWebhook checksum_hmac 300 None True 9000 example_inbound
      (fst (trace (inbound_step checksum_hmac 300 None) [(8500, False, example_inbound)] [''d'' \<mapsto> 8000]))) \<noteq> Accepted"
  by (rule delivery_accepted_once [where t = 8000 and req = example_inbound and ns = "\<lambda>_. None" and d = "''d''"])
    (simp_all add: validateInboundWebhook_def example_inbound_def parseInt10_def is_space_def is_digit_def
      string_to_nat_def of_digits_def digit_val_def truthy_secret_def live_nonces_def NONCE_TTL_MS_def Let_def)

text \<open>
  The signature that is checked covers the body only. Whoever has seen one accepted delivery can send it
  again at any time, with a current time stamp and without the identifier, and it is accepted.
\<close>

lemma inbound_replay_accepted:
  assumes "validateInboundWebhook hmac tolerance secret ok t req ns = (Accepted, ns')"
    and "parseInt10 now_text = Some (now div 1000)" and "now_text \<noteq> []" and "0 \<le> tolerance"
  shows "validateInboundWebhook hmac tolerance secret ok' now
      (req\<lparr>h_timestamp := Some now_text, h_deliveryId := None\<rparr>) ns'' = (Accepted, ns'')"
  using assms by (auto simp: validateInboundWebhook_def split: option.splits if_splits)


end
