(* ===== verification/Webhook_Delivery.thy ===== *)
theory Webhook_Delivery
  imports Webhook_Url Webhook_Signature
begin

section \<open>Delivery of webhooks\<close>

text \<open>
  \<^verbatim>\<open>backend/src/services/webhookService.js\<close>: dispatch of an event to the endpoints of a school, delivery to one
  URL, test deliveries, and the retry queue with its leases; with
  \<^verbatim>\<open>backend/src/utils/buildWebhookPayload.js\<close>, \<^verbatim>\<open>backend/src/utils/webhookEnvelope.js\<close>,
  \<^verbatim>\<open>backend/src/services/webhookRetryScheduler.js\<close>, the schemas of the three collections, and the operations
  of administrators on deliveries (\<^verbatim>\<open>webhookAdminController.js\<close>, \<^verbatim>\<open>webhookEndpointsController.js\<close>). The state holds the
  endpoints, the retries, the delivery log, the nonces, the cache of names and, as a list, the requests
  that went out. What the program does not decide is in the record \<open>hook_env\<close>: parsing of URLs, resolver,
  keyed hash, serialisation, dates, fresh identifiers, and the receivers' responses.
\<close>

subsection \<open>Payloads\<close>

text \<open>A payload is an association list from fields to the texts of their values.\<close>

type_synonym payload = "(string \<times> string) list"

definition DEFAULT_ALLOWED_FIELDS :: "string list" where
  "DEFAULT_ALLOWED_FIELDS =
     [''event'', ''txHash'', ''transactionHash'', ''amount'', ''asset'', ''assetCode'', ''status'', ''schoolId'', ''ts'',
      ''timestamp'', ''correlationId'', ''referenceCode'', ''finalFee'', ''feeValidationStatus'', ''confirmedAt'',
      ''ledgerSequence'', ''reason'', ''isSuspicious'', ''originalTxHash'', ''refundTxHash'', ''refundedAt'']"

definition ALL_KNOWN_FIELDS :: "string list" where
  "ALL_KNOWN_FIELDS = DEFAULT_ALLOWED_FIELDS @ [''studentId'', ''senderAddress'']"

text \<open>Setting a property keeps the place of an existing one.\<close>

fun set_field :: "payload \<Rightarrow> string \<Rightarrow> string \<Rightarrow> payload" where
  "set_field [] k v = [(k, v)]"
| "set_field ((k', v') # p) k v = (if k = k' then (k, v) # p else (k', v') # set_field p k v)"

definition copy_field :: "payload \<Rightarrow> payload \<Rightarrow> string \<Rightarrow> payload" where
  "copy_field raw acc key = (case map_of raw key of Some v \<Rightarrow> set_field acc key v | None \<Rightarrow> acc)"

definition buildWebhookPayload :: "payload \<Rightarrow> string list option \<Rightarrow> payload" where
  "buildWebhookPayload raw allowedFields =
     (let fields = (case allowedFields of
                      Some f \<Rightarrow> if f \<noteq> [] then f else DEFAULT_ALLOWED_FIELDS
                    | None \<Rightarrow> DEFAULT_ALLOWED_FIELDS)
      in foldl (copy_field raw) [] fields)"

record event_body =
  b_event :: string
  b_timestamp :: int
  b_data :: payload
  b_sequence :: "nat option"

definition buildEventBody :: "string \<Rightarrow> int \<Rightarrow> payload \<Rightarrow> nat option \<Rightarrow> event_body" where
  "buildEventBody event ts data sequence =
     \<lparr>b_event = event, b_timestamp = ts, b_data = data, b_sequence = sequence\<rparr>"

definition correlation_of :: "payload \<Rightarrow> string option" where
  "correlation_of p = (case map_of p ''correlationId'' of Some c \<Rightarrow> if c = [] then None else Some c | None \<Rightarrow> None)"

subsection \<open>State\<close>

record hook_endpoint = endpoint_secrets +
  ep_id :: nat
  ep_schoolId :: string
  ep_url :: string
  ep_versions :: "string list option"
  ep_sequence :: nat
  ep_events :: "string list"
  ep_active :: bool

datatype hook_error =
    SSRF_BLOCKED | SSRF_REDIRECT_BLOCKED nat | HTTP_STATUS nat | CONNECTION_TIMEOUT | NETWORK_ERROR string
  | URL_VALIDATION_FAILED | REPLAY_DETECTED | NO_URL

datatype retry_status = RPending | RProcessing | RSucceeded | RFailed

record hook_retry =
  r_url :: string
  r_event :: string
  r_payload :: payload
  r_deliveryId :: string
  r_endpointId :: "nat option"
  r_schoolId :: "string option"
  r_sequence :: "nat option"
  r_status :: retry_status
  r_attempts :: nat
  r_maxAttempts :: nat
  r_nextRetryAt :: millis
  r_leasedAt :: "millis option"
  r_leasedBy :: "string option"
  r_lastError :: "hook_error option"
  r_errorLog :: "(nat \<times> hook_error) list"

record hook_delivery =
  d_endpointId :: nat
  d_schoolId :: string
  d_deliveryId :: string
  d_event :: string
  d_payload :: payload
  d_statusCode :: "nat option"
  d_responseBody :: "string option"
  d_success :: bool
  d_attempt :: nat
  d_error :: "hook_error option"

record hook_request =
  q_url :: string
  q_addresses :: "string list"
  q_deliveryId :: string
  q_body :: event_body
  q_rawBody :: string
  q_sigV1 :: "string option"
  q_sigV2 :: "string option"
  q_sigPrevious :: "string option"
  q_correlation :: "string option"

record hooks =
  endpoints :: "hook_endpoint list"
  retries :: "hook_retry list"
  deliveries :: "hook_delivery list"
  redis_nonces :: "string \<rightharpoonup> millis"
  local_nonces :: "string \<rightharpoonup> millis"
  dns_names :: dns_cache
  uuids :: nat
  sent :: "hook_request list"

datatype net_reply = Reply nat string | TimedOut | NetError string

record hook_env =
  parse_url :: "string \<Rightarrow> url option"
  resolve :: resolver
  hmac :: hash
  stringify :: "event_body \<Rightarrow> string"
  date_ms :: "string \<Rightarrow> millis option"
  sunset_env :: "string option"
  uuidv4 :: "nat \<Rightarrow> string"
  net :: "millis \<Rightarrow> hook_request \<Rightarrow> net_reply"
  redis_ready :: bool
  redis_ok :: bool
  nonces_local :: bool
  replay_window_s :: int
  max_attempts :: nat
  lease_timeout :: millis
  worker_id :: string

subsection \<open>Nonces\<close>

definition evictExpiredNonces :: "millis \<Rightarrow> (string \<rightharpoonup> millis) \<Rightarrow> (string \<rightharpoonup> millis)" where
  "evictExpiredNonces now ns = (\<lambda>d. case ns d of Some e \<Rightarrow> if e < now then None else Some e | None \<Rightarrow> None)"

text \<open>Redis drops a key when its time has come; \<^verbatim>\<open>SET ... NX\<close> answers null when the key is there.\<close>

definition isReplay :: "hook_env \<Rightarrow> millis \<Rightarrow> string \<Rightarrow> hooks \<Rightarrow> bool \<times> hooks" where
  "isReplay env now deliveryId s =
     (if redis_ready env then
        if \<not> redis_ok env then (True, s)
        else (case redis_nonces s deliveryId of
                Some e \<Rightarrow>
                  if now < e then (True, s)
                  else (False, s\<lparr>redis_nonces := (redis_nonces s)(deliveryId \<mapsto> now + replay_window_s env * 1000)\<rparr>)
              | None \<Rightarrow> (False, s\<lparr>redis_nonces := (redis_nonces s)(deliveryId \<mapsto> now + replay_window_s env * 1000)\<rparr>))
      else if \<not> nonces_local env then (True, s)
      else
        let ns = evictExpiredNonces now (local_nonces s) in
        if ns deliveryId \<noteq> None then (True, s\<lparr>local_nonces := ns\<rparr>)
        else (False, s\<lparr>local_nonces := ns(deliveryId \<mapsto> now + replay_window_s env * 1000)\<rparr>))"

definition fresh_uuid :: "hook_env \<Rightarrow> hooks \<Rightarrow> string \<times> hooks" where
  "fresh_uuid env s = (uuidv4 env (uuids s), s\<lparr>uuids := Suc (uuids s)\<rparr>)"

subsection \<open>Sending\<close>

definition getBackoffDelay :: "nat \<Rightarrow> millis" where
  "getBackoffDelay attemptNumber = [60000, 300000, 900000] ! min attemptNumber 2"

definition writeDeliveryLog :: "hook_delivery \<Rightarrow> string option \<Rightarrow> hooks \<Rightarrow> hooks" where
  "writeDeliveryLog d schoolId s =
     (case schoolId of
        None \<Rightarrow> s
      | Some sch \<Rightarrow> s\<lparr>deliveries := deliveries s @
          [d\<lparr>d_schoolId := sch,
             d_responseBody := (case d_responseBody d of Some b \<Rightarrow> if b = [] then None else Some (take 1024 b) | None \<Rightarrow> None)\<rparr>]\<rparr>)"

record send_opts =
  o_url :: string
  o_event :: string
  o_filtered :: payload
  o_raw :: payload
  o_secret :: "string option"
  o_previous :: "string option"
  o_versions :: "string list option"
  o_deliveryId :: string
  o_endpointId :: "nat option"
  o_schoolId :: "string option"
  o_attempt :: nat
  o_sequence :: "nat option"

definition log_attempt ::
  "send_opts \<Rightarrow> nat option \<Rightarrow> string option \<Rightarrow> bool \<Rightarrow> hook_error option \<Rightarrow> hooks \<Rightarrow> hooks" where
  "log_attempt ops statusCode responseBody success err s =
     (case o_endpointId ops of
        None \<Rightarrow> s
      | Some i \<Rightarrow> writeDeliveryLog
          \<lparr>d_endpointId = i, d_schoolId = [], d_deliveryId = o_deliveryId ops, d_event = o_event ops,
           d_payload = o_filtered ops, d_statusCode = statusCode, d_responseBody = responseBody,
           d_success = success, d_attempt = o_attempt ops, d_error = err\<rparr> (o_schoolId ops) s)"

definition resolveUrl :: "hook_env \<Rightarrow> millis \<Rightarrow> string \<Rightarrow> hooks \<Rightarrow> url_check \<times> hooks" where
  "resolveUrl env now u s =
     (case validateWebhookUrl (resolve env) now 0 (parse_url env u) (dns_names s) of
        (r, c) \<Rightarrow> (r, s\<lparr>dns_names := c\<rparr>))"

definition build_request ::
  "hook_env \<Rightarrow> millis \<Rightarrow> send_opts \<Rightarrow> string list \<Rightarrow> string list \<Rightarrow> hook_request" where
  "build_request env now ops addresses versions =
     (let ts = now div 1000;
          body = buildEventBody (o_event ops) ts (o_filtered ops) (o_sequence ops);
          rawBody = stringify env body;
          tsText = int_to_string ts;
          signed = truthy_secret (o_secret ops)
      in \<lparr>q_url = o_url ops, q_addresses = addresses, q_deliveryId = o_deliveryId ops, q_body = body, q_rawBody = rawBody,
          q_sigV1 = (if signed \<and> ''v1'' \<in> set versions
                     then Some (signature_value (hmac env (the (o_secret ops)) rawBody)) else None),
          q_sigV2 = (if signed \<and> ''v2'' \<in> set versions
                     then Some (buildSignatureV2Header (hmac env) tsText (o_deliveryId ops) rawBody [o_secret ops, o_previous ops])
                     else None),
          q_sigPrevious = (if signed \<and> ''v2'' \<in> set versions \<and> truthy_secret (o_previous ops)
                           then Some (signature_value (generateSignatureV2 (hmac env) tsText (o_deliveryId ops) rawBody (the (o_previous ops))))
                           else None),
          q_correlation = correlation_of (o_raw ops)\<rparr>)"

text \<open>\<open>Inl\<close> when the policy of signature versions throws; \<open>Inr None\<close> is success.\<close>

definition sendToUrl ::
  "hook_env \<Rightarrow> millis \<Rightarrow> send_opts \<Rightarrow> hooks \<Rightarrow> (policy_error, hook_error option) result \<times> hooks" where
  "sendToUrl env now ops s =
     (case validateAtSendTime (resolve env) now 0 (parse_url env (o_url ops)) (dns_names s) of
        (Inl _, c) \<Rightarrow> (Inr (Some SSRF_BLOCKED), log_attempt ops None None False (Some SSRF_BLOCKED) (s\<lparr>dns_names := c\<rparr>))
      | (Inr addresses, c) \<Rightarrow>
          let s = s\<lparr>dns_names := c\<rparr> in
          case resolveSignatureVersions (date_ms env) (sunset_env env) (o_versions ops) now of
            Inl e \<Rightarrow> (Inl e, s)
          | Inr versions \<Rightarrow>
              let q = build_request env now ops addresses versions;
                  s = s\<lparr>sent := sent s @ [q]\<rparr>
              in case net env now q of
                Reply st body \<Rightarrow>
                  if 200 \<le> st \<and> st < 300 then
                    (Inr None, log_attempt ops (Some st) (Some (take 1024 body)) True None s)
                  else
                    let err = (if 300 \<le> st \<and> st < 400 then SSRF_REDIRECT_BLOCKED st else HTTP_STATUS st)
                    in (Inr (Some err), log_attempt ops (Some st) (Some (take 1024 body)) False (Some err) s)
              | TimedOut \<Rightarrow> (Inr (Some CONNECTION_TIMEOUT), log_attempt ops None None False (Some CONNECTION_TIMEOUT) s)
              | NetError m \<Rightarrow> (Inr (Some (NETWORK_ERROR m)), log_attempt ops None None False (Some (NETWORK_ERROR m)) s))"

subsection \<open>The retry queue: adding\<close>

text \<open>The events the schema of a retry admits.\<close>

definition RETRY_EVENTS :: "string list" where
  "RETRY_EVENTS =
     [''payment.confirmed'', ''payment.pending'', ''payment.failed'', ''payment.suspicious'', ''payment.refunded'']"

datatype queue_error = InvalidEvent | DuplicateDelivery | InvalidMaxAttempts

definition queueWebhookRetry ::
  "hook_env \<Rightarrow> millis \<Rightarrow> string \<Rightarrow> string \<Rightarrow> payload \<Rightarrow> hook_error \<Rightarrow> string \<Rightarrow> nat option \<Rightarrow> string option
     \<Rightarrow> nat option \<Rightarrow> hooks \<Rightarrow> (queue_error, unit) result \<times> hooks" where
  "queueWebhookRetry env now u event payload err deliveryId endpointId schoolId sequence s =
     (if event \<notin> set RETRY_EVENTS then (Inl InvalidEvent, s)
      else if max_attempts env < 1 then (Inl InvalidMaxAttempts, s)
      else if deliveryId \<in> r_deliveryId ` set (retries s) then (Inl DuplicateDelivery, s)
      else (Inr (), s\<lparr>retries := retries s @
         [\<lparr>r_url = u, r_event = event, r_payload = payload, r_deliveryId = deliveryId,
           r_endpointId = endpointId, r_schoolId = schoolId, r_sequence = sequence,
           r_status = RPending, r_attempts = 0, r_maxAttempts = max_attempts env,
           r_nextRetryAt = now + getBackoffDelay 0, r_leasedAt = None, r_leasedBy = None,
           r_lastError = Some err, r_errorLog = [(0, err)]\<rparr>]\<rparr>))"

subsection \<open>Dispatch to the endpoints of a school\<close>

definition nextEndpointSequence :: "nat \<Rightarrow> hooks \<Rightarrow> nat option \<times> hooks" where
  "nextEndpointSequence i s =
     (case find (\<lambda>e. ep_id e = i) (endpoints s) of
        None \<Rightarrow> (None, s)
      | Some e \<Rightarrow> (Some (Suc (ep_sequence e)),
          s\<lparr>endpoints := map (\<lambda>e. if ep_id e = i then e\<lparr>ep_sequence := Suc (ep_sequence e)\<rparr> else e) (endpoints s)\<rparr>))"

record fire_result =
  f_endpointId :: nat
  f_error :: "hook_error option"
  f_deliveryId :: string

definition endpoint_opts ::
  "millis \<Rightarrow> string \<Rightarrow> payload \<Rightarrow> payload \<Rightarrow> string \<Rightarrow> nat option \<Rightarrow> hook_endpoint \<Rightarrow> send_opts" where
  "endpoint_opts now event filtered raw deliveryId sequence ep =
     \<lparr>o_url = ep_url ep, o_event = event, o_filtered = filtered, o_raw = raw, o_secret = ep_secret ep,
      o_previous = activePreviousSecret ep now, o_versions = ep_versions ep, o_deliveryId = deliveryId,
      o_endpointId = Some (ep_id ep), o_schoolId = Some (ep_schoolId ep), o_attempt = 1, o_sequence = sequence\<rparr>"

definition fire_endpoint ::
  "hook_env \<Rightarrow> millis \<Rightarrow> string \<Rightarrow> payload \<Rightarrow> payload \<Rightarrow> hook_endpoint \<Rightarrow> hooks
     \<Rightarrow> (policy_error, fire_result) result \<times> hooks" where
  "fire_endpoint env now event filtered raw ep s =
     (case fresh_uuid env s of (deliveryId, s) \<Rightarrow>
      case resolveUrl env now (ep_url ep) s of
        (InvalidUrl, s) \<Rightarrow>
          (Inr \<lparr>f_endpointId = ep_id ep, f_error = Some URL_VALIDATION_FAILED, f_deliveryId = deliveryId\<rparr>,
           log_attempt (endpoint_opts now event filtered raw deliveryId None ep) None None False (Some URL_VALIDATION_FAILED) s)
      | (ValidUrl _, s) \<Rightarrow>
          (case isReplay env now deliveryId s of
             (True, s) \<Rightarrow>
               (Inr \<lparr>f_endpointId = ep_id ep, f_error = Some REPLAY_DETECTED, f_deliveryId = deliveryId\<rparr>, s)
           | (False, s) \<Rightarrow>
               (case nextEndpointSequence (ep_id ep) s of (sequence, s) \<Rightarrow>
                case sendToUrl env now (endpoint_opts now event filtered raw deliveryId sequence ep) s of
                  (Inl e, s) \<Rightarrow> (Inl e, s)
                | (Inr None, s) \<Rightarrow>
                    (Inr \<lparr>f_endpointId = ep_id ep, f_error = None, f_deliveryId = deliveryId\<rparr>, s)
                | (Inr (Some err), s) \<Rightarrow>
                    (Inr \<lparr>f_endpointId = ep_id ep, f_error = Some err, f_deliveryId = deliveryId\<rparr>,
                     snd (queueWebhookRetry env now (ep_url ep) event raw err deliveryId (Some (ep_id ep))
                       (Some (ep_schoolId ep)) sequence s)))))"

fun fire_each ::
  "hook_env \<Rightarrow> millis \<Rightarrow> string \<Rightarrow> payload \<Rightarrow> payload \<Rightarrow> hook_endpoint list \<Rightarrow> hooks
     \<Rightarrow> (policy_error, fire_result list) result \<times> hooks" where
  "fire_each env now event filtered raw [] s = (Inr [], s)"
| "fire_each env now event filtered raw (ep # eps) s =
     (case fire_endpoint env now event filtered raw ep s of
        (Inl e, s) \<Rightarrow> (Inl e, s)
      | (Inr r, s) \<Rightarrow>
          (case fire_each env now event filtered raw eps s of
             (Inl e, s) \<Rightarrow> (Inl e, s)
           | (Inr rs, s) \<Rightarrow> (Inr (r # rs), s)))"

definition subscribed :: "string \<Rightarrow> string \<Rightarrow> hook_endpoint list \<Rightarrow> hook_endpoint list" where
  "subscribed schoolId event eps =
     filter (\<lambda>e. ep_schoolId e = schoolId \<and> ep_active e \<and> event \<in> set (ep_events e)) eps"

definition fireWebhookToEndpoints ::
  "hook_env \<Rightarrow> millis \<Rightarrow> string \<Rightarrow> string \<Rightarrow> payload \<Rightarrow> string list option \<Rightarrow> hooks
     \<Rightarrow> (policy_error, fire_result list) result \<times> hooks" where
  "fireWebhookToEndpoints env now schoolId event raw allowedFields s =
     fire_each env now event (buildWebhookPayload raw allowedFields) raw
       (subscribed schoolId event (endpoints s)) s"

text \<open>The configuration of the school: \<open>None\<close> when the school or its list of fields is missing.\<close>

definition dispatchToSchool ::
  "hook_env \<Rightarrow> millis \<Rightarrow> (string \<Rightarrow> string list option) \<Rightarrow> string \<Rightarrow> string \<Rightarrow> payload \<Rightarrow> hooks
     \<Rightarrow> (policy_error, fire_result list) result \<times> hooks" where
  "dispatchToSchool env now school_fields schoolId event raw s =
     (if schoolId = [] then (Inr [], s)
      else fireWebhookToEndpoints env now schoolId event raw (school_fields schoolId) s)"

subsection \<open>Delivery to one URL, and test deliveries\<close>

record signing =
  s_secret :: "string option"
  s_previous :: "string option"
  s_versions :: "string list option"

definition or_secret :: "string option \<Rightarrow> string option \<Rightarrow> string option" where
  "or_secret a b = (if truthy_secret a then a else if truthy_secret b then b else None)"

definition resolveSigningContext :: "millis \<Rightarrow> nat option \<Rightarrow> string option \<Rightarrow> hooks \<Rightarrow> signing" where
  "resolveSigningContext now endpointId sec s =
     (case endpointId of
        None \<Rightarrow> \<lparr>s_secret = or_secret sec None, s_previous = None, s_versions = None\<rparr>
      | Some i \<Rightarrow>
          (case find (\<lambda>e. ep_id e = i) (endpoints s) of
             None \<Rightarrow> \<lparr>s_secret = or_secret sec None, s_previous = None, s_versions = None\<rparr>
           | Some ep \<Rightarrow> \<lparr>s_secret = or_secret (ep_secret ep) sec, s_previous = activePreviousSecret ep now,
                          s_versions = ep_versions ep\<rparr>))"

record single_result =
  g_error :: "hook_error option"
  g_queued :: "bool option"
  g_deliveryId :: "string option"

definition single_opts ::
  "string \<Rightarrow> string \<Rightarrow> payload \<Rightarrow> string \<Rightarrow> nat option \<Rightarrow> string option \<Rightarrow> nat \<Rightarrow> nat option \<Rightarrow> signing \<Rightarrow> send_opts" where
  "single_opts u event payload deliveryId endpointId schoolId attempt sequence ctx =
     \<lparr>o_url = u, o_event = event, o_filtered = payload, o_raw = payload, o_secret = s_secret ctx,
      o_previous = s_previous ctx, o_versions = s_versions ctx, o_deliveryId = deliveryId,
      o_endpointId = endpointId, o_schoolId = schoolId, o_attempt = attempt, o_sequence = sequence\<rparr>"

definition fireWebhook ::
  "hook_env \<Rightarrow> millis \<Rightarrow> string \<Rightarrow> string \<Rightarrow> payload \<Rightarrow> string option \<Rightarrow> string option \<Rightarrow> nat option \<Rightarrow> string option
     \<Rightarrow> signing option \<Rightarrow> hooks \<Rightarrow> (policy_error, single_result) result \<times> hooks" where
  "fireWebhook env now u event payload sec deliveryId endpointId schoolId signing s =
     (if u = [] then (Inr \<lparr>g_error = Some NO_URL, g_queued = None, g_deliveryId = None\<rparr>, s)
      else case resolveUrl env now u s of
        (InvalidUrl, s) \<Rightarrow> (Inr \<lparr>g_error = Some URL_VALIDATION_FAILED, g_queued = None, g_deliveryId = None\<rparr>, s)
      | (ValidUrl _, s) \<Rightarrow>
          (case (case deliveryId of
                   Some d \<Rightarrow> if d = [] then fresh_uuid env s else (d, s)
                 | None \<Rightarrow> fresh_uuid env s) of (d, s) \<Rightarrow>
           case isReplay env now d s of
             (True, s) \<Rightarrow> (Inr \<lparr>g_error = Some REPLAY_DETECTED, g_queued = None, g_deliveryId = Some d\<rparr>, s)
           | (False, s) \<Rightarrow>
               let ctx = (case signing of
                            Some c \<Rightarrow> c\<lparr>s_secret := sec\<rparr>
                          | None \<Rightarrow>
                              (case endpointId of
                                 Some _ \<Rightarrow> resolveSigningContext now endpointId sec s
                               | None \<Rightarrow> \<lparr>s_secret = sec, s_previous = None, s_versions = None\<rparr>))
               in case sendToUrl env now (single_opts u event payload d endpointId schoolId 1 None ctx) s of
                    (Inl e, s) \<Rightarrow> (Inl e, s)
                  | (Inr None, s) \<Rightarrow> (Inr \<lparr>g_error = None, g_queued = None, g_deliveryId = Some d\<rparr>, s)
                  | (Inr (Some err), s) \<Rightarrow>
                      (case queueWebhookRetry env now u event payload err d endpointId schoolId None s of
                         (Inr _, s) \<Rightarrow> (Inr \<lparr>g_error = Some err, g_queued = Some True, g_deliveryId = Some d\<rparr>, s)
                       | (Inl _, s) \<Rightarrow> (Inr \<lparr>g_error = Some err, g_queued = Some False, g_deliveryId = Some d\<rparr>, s))))"

definition TEST_EVENT :: string where "TEST_EVENT = ''webhook.test''"

definition buildTestPayload :: "string \<Rightarrow> string \<Rightarrow> payload" where
  "buildTestPayload schoolId ts =
     [(''test'', ''true''), (''message'', ''This is a test webhook event from StellarEduPay.''), (''schoolId'', schoolId),
      (''txHash'', replicate 64 (CHR ''0'')), (''transactionHash'', replicate 64 (CHR ''0'')),
      (''amount'', ''100.0000000''), (''asset'', ''XLM''), (''assetCode'', ''XLM''), (''status'', ''SUCCESS''),
      (''referenceCode'', ''TEST-0000''), (''ts'', ts)]"

definition sendTestDelivery ::
  "hook_env \<Rightarrow> millis \<Rightarrow> string \<Rightarrow> hook_endpoint \<Rightarrow> hooks \<Rightarrow> (policy_error, fire_result) result \<times> hooks" where
  "sendTestDelivery env now ts ep s =
     (case fresh_uuid env s of (deliveryId, s) \<Rightarrow>
      let p = buildTestPayload (ep_schoolId ep) ts; opts = endpoint_opts now TEST_EVENT p p deliveryId None ep in
      case resolveUrl env now (ep_url ep) s of
        (InvalidUrl, s) \<Rightarrow>
          (Inr \<lparr>f_endpointId = ep_id ep, f_error = Some URL_VALIDATION_FAILED, f_deliveryId = deliveryId\<rparr>,
           log_attempt opts None None False (Some URL_VALIDATION_FAILED) s)
      | (ValidUrl _, s) \<Rightarrow>
          (case sendToUrl env now opts s of
             (Inl e, s) \<Rightarrow> (Inl e, s)
           | (Inr err, s) \<Rightarrow>
               (Inr \<lparr>f_endpointId = ep_id ep, f_error = err, f_deliveryId = deliveryId\<rparr>, s)))"

subsection \<open>The retry queue: working it off\<close>

definition update_retry :: "string \<Rightarrow> (hook_retry \<Rightarrow> hook_retry) \<Rightarrow> hooks \<Rightarrow> hooks" where
  "update_retry d f s = s\<lparr>retries := map (\<lambda>r. if r_deliveryId r = d then f r else r) (retries s)\<rparr>"

definition unlease :: "hook_retry \<Rightarrow> hook_retry" where
  "unlease r = r\<lparr>r_leasedAt := None, r_leasedBy := None\<rparr>"

definition stuck :: "millis \<Rightarrow> hook_retry \<Rightarrow> bool" where
  "stuck cutoff r \<longleftrightarrow>
     r_status r = RProcessing \<and> (case r_leasedAt r of Some t \<Rightarrow> t < cutoff | None \<Rightarrow> False)"

definition recover_one :: "millis \<Rightarrow> hook_retry list \<Rightarrow> hook_retry list" where
  "recover_one cutoff = update_first (stuck cutoff) (\<lambda>r. unlease (r\<lparr>r_status := RPending\<rparr>))"

lemma recover_one_less:
  "list_ex (stuck cutoff) rs \<Longrightarrow>
   length (filter (stuck cutoff) (recover_one cutoff rs)) < length (filter (stuck cutoff) rs)"
  by (induction rs) (auto simp: recover_one_def stuck_def unlease_def)

function recover_loop :: "millis \<Rightarrow> hook_retry list \<Rightarrow> hook_retry list \<times> nat" where
  "recover_loop cutoff rs =
     (if list_ex (stuck cutoff) rs
      then (case recover_loop cutoff (recover_one cutoff rs) of (rs', n) \<Rightarrow> (rs', Suc n))
      else (rs, 0))"
  by pat_completeness auto
termination
  by (relation "measure (\<lambda>(cutoff, rs). length (filter (stuck cutoff) rs))") (auto simp: recover_one_less)

declare recover_loop.simps [simp del]

definition recoverStuckLeases :: "hook_env \<Rightarrow> millis \<Rightarrow> hooks \<Rightarrow> nat \<times> hooks" where
  "recoverStuckLeases env now s =
     (case recover_loop (now - lease_timeout env) (retries s) of (rs, n) \<Rightarrow> (n, s\<lparr>retries := rs\<rparr>))"

definition due :: "millis \<Rightarrow> hook_retry \<Rightarrow> bool" where
  "due now r \<longleftrightarrow> r_status r = RPending \<and> r_nextRetryAt r \<le> now"

definition claim_retry :: "hook_env \<Rightarrow> millis \<Rightarrow> millis \<Rightarrow> hooks \<Rightarrow> (hook_retry \<times> hooks) option" where
  "claim_retry env start now s =
     (case filter (due start) (retries s) of
        [] \<Rightarrow> None
      | r # rs \<Rightarrow>
          let c = arg_min_list r_nextRetryAt (r # rs);
              leased = (\<lambda>r. r\<lparr>r_status := RProcessing, r_leasedAt := Some now, r_leasedBy := Some (worker_id env)\<rparr>)
          in Some (leased c, update_retry (r_deliveryId c) leased s))"

definition settle_retry :: "millis \<Rightarrow> hook_retry \<Rightarrow> hook_error option \<Rightarrow> hook_retry \<Rightarrow> hook_retry" where
  "settle_retry now claimed result r =
     (let attemptNumber = r_attempts claimed + 1 in
      case result of
        None \<Rightarrow> unlease (r\<lparr>r_status := RSucceeded\<rparr>)
      | Some err \<Rightarrow>
          if attemptNumber < r_maxAttempts claimed then
            unlease (r\<lparr>r_status := RPending, r_attempts := attemptNumber,
                       r_nextRetryAt := now + getBackoffDelay attemptNumber, r_lastError := Some err,
                       r_errorLog := r_errorLog r @ [(attemptNumber, err)]\<rparr>)
          else
            unlease (r\<lparr>r_status := RFailed, r_attempts := attemptNumber, r_lastError := Some err,
                       r_errorLog := r_errorLog r @ [(attemptNumber, err)]\<rparr>))"

definition hook_retry_opts :: "millis \<Rightarrow> hook_retry \<Rightarrow> hooks \<Rightarrow> send_opts" where
  "hook_retry_opts now r s =
     single_opts (r_url r) (r_event r) (r_payload r) (r_deliveryId r) (r_endpointId r) (r_schoolId r)
       (r_attempts r + 1) (r_sequence r) (resolveSigningContext now (r_endpointId r) None s)"

definition retryWebhook ::
  "hook_env \<Rightarrow> millis \<Rightarrow> hook_retry \<Rightarrow> hooks \<Rightarrow> (policy_error, unit) result \<times> hooks" where
  "retryWebhook env now r s =
     (case resolveUrl env now (r_url r) s of
        (InvalidUrl, s) \<Rightarrow>
          (Inr (), update_retry (r_deliveryId r)
             (\<lambda>r. unlease (r\<lparr>r_status := RFailed, r_lastError := Some URL_VALIDATION_FAILED\<rparr>)) s)
      | (ValidUrl _, s) \<Rightarrow>
          (case sendToUrl env now (hook_retry_opts now r s) s of
             (Inl e, s) \<Rightarrow> (Inl e, s)
           | (Inr result, s) \<Rightarrow> (Inr (), update_retry (r_deliveryId r) (settle_retry now r result) s)))"

fun claim_loop ::
  "hook_env \<Rightarrow> millis \<Rightarrow> nat \<Rightarrow> hooks \<Rightarrow> (policy_error, nat) result \<times> hooks" where
  "claim_loop env now 0 s = (Inr 0, s)"
| "claim_loop env now (Suc k) s =
     (case claim_retry env now now s of
        None \<Rightarrow> (Inr 0, s)
      | Some (r, s) \<Rightarrow>
          (case retryWebhook env now r s of
             (Inl e, s) \<Rightarrow> (Inl e, s)
           | (Inr _, s) \<Rightarrow>
               (case claim_loop env now k s of
                  (Inl e, s) \<Rightarrow> (Inl e, s)
                | (Inr n, s) \<Rightarrow> (Inr (Suc n), s))))"

definition processPendingRetries :: "hook_env \<Rightarrow> millis \<Rightarrow> hooks \<Rightarrow> (policy_error, nat) result \<times> hooks" where
  "processPendingRetries env now s =
     (case recoverStuckLeases env now s of (_, s) \<Rightarrow> claim_loop env now 10 s)"

text \<open>One run of the scheduler; a run that finds another one in progress does nothing.\<close>

definition runOnce :: "hook_env \<Rightarrow> millis \<Rightarrow> bool \<Rightarrow> hooks \<Rightarrow> hooks" where
  "runOnce env now running s =
     (if running then s
      else case processPendingRetries env now s of
        (Inl _, s) \<Rightarrow> s
      | (Inr _, s) \<Rightarrow> s\<lparr>endpoints := fst (purgeExpiredPreviousSecrets now (endpoints s))\<rparr>)"


subsection \<open>Dead letters\<close>

text \<open>
  \<^verbatim>\<open>backend/src/controllers/webhookAdminController.js\<close>: an administrator queues an exhausted delivery again, or
  replays any delivery. \<open>requeue\<close> is the update both make; the document is found by its identifier, of which a
  delivery has one.
\<close>

datatype dlq_error = DLQ_NOT_FOUND | NOT_FAILED retry_status

definition find_retry :: "string \<Rightarrow> hooks \<Rightarrow> hook_retry option" where
  "find_retry d s = find (\<lambda>r. r_deliveryId r = d) (retries s)"

definition requeue :: "millis \<Rightarrow> bool \<Rightarrow> hook_retry \<Rightarrow> hook_retry" where
  "requeue now resetAttempts r =
     unlease (r\<lparr>r_status := RPending, r_attempts := (if resetAttempts then 0 else r_attempts r),
               r_nextRetryAt := now, r_lastError := None\<rparr>)"

definition retryDLQEntry :: "millis \<Rightarrow> string \<Rightarrow> hooks \<Rightarrow> (dlq_error, unit) result \<times> hooks" where
  "retryDLQEntry now d s =
     (case find_retry d s of
        None \<Rightarrow> (Inl DLQ_NOT_FOUND, s)
      | Some r \<Rightarrow>
          if r_status r \<noteq> RFailed then (Inl (NOT_FAILED (r_status r)), s)
          else (Inr (), update_retry d (requeue now True) s))"

definition replayWebhook :: "millis \<Rightarrow> bool \<Rightarrow> string \<Rightarrow> hooks \<Rightarrow> (dlq_error, retry_status) result \<times> hooks" where
  "replayWebhook now resetAttempts d s =
     (case find_retry d s of
        None \<Rightarrow> (Inl DLQ_NOT_FOUND, s)
      | Some r \<Rightarrow> (Inr (r_status r), update_retry d (requeue now resetAttempts) s))"

subsection \<open>Deliveries on request\<close>

text \<open>A test event for an endpoint of the caller, and a logged delivery sent again under a new identifier.\<close>

datatype 'a hook_reply = NotFound | Forbidden | Thrown policy_error | Sent 'a

definition sendTestEvent ::
  "hook_env \<Rightarrow> millis \<Rightarrow> string \<Rightarrow> string \<Rightarrow> nat \<Rightarrow> hooks \<Rightarrow> fire_result hook_reply \<times> hooks" where
  "sendTestEvent env now ts school i s =
     (case find (\<lambda>e. ep_id e = i \<and> ep_schoolId e = school) (endpoints s) of
        None \<Rightarrow> (NotFound, s)
      | Some ep \<Rightarrow>
          (case sendTestDelivery env now ts ep s of
             (Inl e, s) \<Rightarrow> (Thrown e, s)
           | (Inr r, s) \<Rightarrow> (Sent r, s)))"

definition replayDelivery ::
  "hook_env \<Rightarrow> millis \<Rightarrow> string \<Rightarrow> hook_delivery option \<Rightarrow> hooks \<Rightarrow> single_result hook_reply \<times> hooks" where
  "replayDelivery env now school delivery s =
     (case delivery of
        None \<Rightarrow> (NotFound, s)
      | Some d \<Rightarrow>
          if d_schoolId d \<noteq> school then (Forbidden, s)
          else
            (case find (\<lambda>e. ep_id e = d_endpointId d \<and> ep_schoolId e = school) (endpoints s) of
               None \<Rightarrow> (NotFound, s)
             | Some ep \<Rightarrow>
                 (case fresh_uuid env s of (newId, s) \<Rightarrow>
                  case fireWebhook env now (ep_url ep) (d_event d) (d_payload d) (ep_secret ep) (Some newId)
                         (Some (d_endpointId d)) (Some school) None s of
                    (Inl e, s) \<Rightarrow> (Thrown e, s)
                  | (Inr r, s) \<Rightarrow> (Sent r, s))))"


subsection \<open>A rule for properties of all operations\<close>

definition https_url :: "hook_env \<Rightarrow> string \<Rightarrow> bool" where
  "https_url env u \<longleftrightarrow> (case parse_url env u of Some p \<Rightarrow> protocol p = ''https:'' | None \<Rightarrow> False)"

definition safe_request :: "hook_env \<Rightarrow> hook_request \<Rightarrow> bool" where
  "safe_request env q \<longleftrightarrow>
     https_url env (q_url q) \<and> q_addresses q \<noteq> [] \<and> list_all public_address (q_addresses q)"

lemma resolveUrl_valid: "resolveUrl env now u s = (ValidUrl a, s') \<Longrightarrow> https_url env u"
  by (auto simp: resolveUrl_def https_url_def validateWebhookUrl_def split: prod.splits option.splits if_splits)

lemma build_request_simps [simp]:
  "q_url (build_request env now ops a v) = o_url ops" "q_addresses (build_request env now ops a v) = a"
  "q_deliveryId (build_request env now ops a v) = o_deliveryId ops"
  "b_data (q_body (build_request env now ops a v)) = o_filtered ops"
  by (simp_all add: build_request_def Let_def buildEventBody_def)

lemma opts_simps [simp]:
  "o_url (endpoint_opts now e f r d n ep) = ep_url ep" "o_url (single_opts u e p d i sch a n ctx) = u"
  "o_url (hook_retry_opts now c s) = r_url c"
  by (simp_all add: endpoint_opts_def single_opts_def hook_retry_opts_def)

text \<open>The operations that do not touch the retries.\<close>

lemma retries_log_attempt [simp]: "retries (log_attempt ops a b c d s) = retries s"
  by (simp add: log_attempt_def writeDeliveryLog_def split: option.split)

lemma retries_resolveUrl: "resolveUrl env now u s = (r, s') \<Longrightarrow> retries s' = retries s"
  by (auto simp: resolveUrl_def split: prod.splits)

lemma retries_sendToUrl: "sendToUrl env now ops s = (r, s') \<Longrightarrow> retries s' = retries s"
  by (auto simp: sendToUrl_def Let_def split: prod.splits sum.splits net_reply.splits if_splits)

lemma claimed_in_queue:
  assumes "claim_retry env start now s = Some (c, s')"
  shows "c \<in> set (retries s') \<and> r_status c = RProcessing"
proof -
  obtain r rs where f: "filter (due start) (retries s) = r # rs"
    using assms by (auto simp: claim_retry_def split: list.splits)
  let ?m = "arg_min_list r_nextRetryAt (r # rs)"
  have "?m \<in> set (r # rs)" by (rule arg_min_list_in) simp
  then have "?m \<in> set (retries s)" unfolding f [symmetric] by simp
  then show ?thesis using assms f by (auto simp: claim_retry_def update_retry_def Let_def)
qed

text \<open>
  What the operations are made of. A relation between states that holds of these parts, and is reflexive and
  transitive, holds of every operation.
\<close>

locale hook_parts =
  fixes env :: hook_env
    and R :: "hooks \<Rightarrow> hooks \<Rightarrow> bool"
  assumes refl: "R s s"
    and trans: "R s t \<Longrightarrow> R t u \<Longrightarrow> R s u"
    and names: "R s (s\<lparr>dns_names := cache\<rparr>)"
    and uuid: "R s (s\<lparr>uuids := n\<rparr>)"
    and nonces: "R s (s\<lparr>redis_nonces := m\<rparr>)" "R s (s\<lparr>local_nonces := m\<rparr>)"
    and config: "R s (s\<lparr>endpoints := es\<rparr>)"
    and logged: "R s (s\<lparr>deliveries := ds\<rparr>)"
    and request: "safe_request env q \<Longrightarrow> R s (s\<lparr>sent := sent s @ [q]\<rparr>)"
    and queued: "queueWebhookRetry env now link event p err d i sch k s = (qr, s') \<Longrightarrow> R s s'"
    and recovered: "R s (snd (recoverStuckLeases env now s))"
    and claimed: "claim_retry env now now s = Some (c, s') \<Longrightarrow> R s s'"
    and settled: "c \<in> set (retries s) \<Longrightarrow> r_status c = RProcessing \<Longrightarrow>
      R s (update_retry (r_deliveryId c) (settle_retry now c res) s)"
    and dropped: "c \<in> set (retries s) \<Longrightarrow> r_status c = RProcessing \<Longrightarrow>
      R s (update_retry (r_deliveryId c) (\<lambda>r. unlease (r\<lparr>r_status := RFailed, r_lastError := Some e\<rparr>)) s)"
begin

lemma log_attempt_R: "R s (log_attempt ops a b c d s)"
  by (auto simp: log_attempt_def writeDeliveryLog_def refl logged split: option.split)

lemma resolveUrl_R: "resolveUrl env now u s = (r, s') \<Longrightarrow> R s s'"
  by (auto simp: resolveUrl_def names split: prod.splits)

lemma isReplay_R: "isReplay env now d s = (b, s') \<Longrightarrow> R s s'"
  by (auto simp: isReplay_def Let_def refl nonces split: if_splits option.splits)

lemma sequence_R: "nextEndpointSequence i s = (n, s') \<Longrightarrow> R s s'"
  by (auto simp: nextEndpointSequence_def refl config split: option.splits)

lemma fresh_R: "fresh_uuid env s = (d, s') \<Longrightarrow> R s s'"
  by (auto simp: fresh_uuid_def uuid)

lemma sendToUrl_R:
  assumes "sendToUrl env now ops s = (r, s')" and "https_url env (o_url ops)"
  shows "R s s'"
proof (cases "validateAtSendTime (resolve env) now 0 (parse_url env (o_url ops)) (dns_names s)")
  case (Pair chk c)
  show ?thesis
  proof (cases chk)
    case (Inl e)
    then show ?thesis using assms(1) Pair trans [OF names log_attempt_R] by (auto simp: sendToUrl_def)
  next
    case (Inr addresses)
    have "addresses \<noteq> [] \<and> list_all (\<lambda>a. validateResolvedIp a = None) addresses"
      using send_check_public Pair Inr by blast
    then have pub: "addresses \<noteq> []" "list_all public_address addresses"
      using unblocked_public by (auto simp: list_all_iff)
    show ?thesis
    proof (cases "resolveSignatureVersions (date_ms env) (sunset_env env) (o_versions ops) now")
      case (Inl e)
      then show ?thesis using assms(1) Pair Inr names by (auto simp: sendToUrl_def)
    next
      case sv: (Inr versions)
      let ?q = "build_request env now ops addresses versions"
      let ?s = "s\<lparr>dns_names := c\<rparr>"
      have "safe_request env ?q" using pub assms(2) by (simp add: safe_request_def)
      then have "R s (?s\<lparr>sent := sent ?s @ [?q]\<rparr>)" by (rule trans [OF names request])
      moreover obtain a b d e where "s' = log_attempt ops a b d e (?s\<lparr>sent := sent ?s @ [?q]\<rparr>)"
        using assms(1) Pair Inr sv by (auto simp: sendToUrl_def Let_def split: net_reply.splits if_splits)
      ultimately show ?thesis using trans log_attempt_R by blast
    qed
  qed
qed

lemma fire_endpoint_R: "fire_endpoint env now event filtered raw ep s = (r, s') \<Longrightarrow> R s s'"
proof -
  assume f: "fire_endpoint env now event filtered raw ep s = (r, s')"
  obtain d s1 where 1: "fresh_uuid env s = (d, s1)" by (cases "fresh_uuid env s")
  obtain chk s2 where 2: "resolveUrl env now (ep_url ep) s1 = (chk, s2)" by (cases "resolveUrl env now (ep_url ep) s1")
  have s2: "R s s2" using 1 2 by (blast intro: trans fresh_R resolveUrl_R)
  show ?thesis
  proof (cases chk)
    case InvalidUrl
    then show ?thesis using f 1 2 trans [OF s2 log_attempt_R] by (auto simp: fire_endpoint_def)
  next
    case (ValidUrl a)
    then have h: "https_url env (ep_url ep)" using 2 resolveUrl_valid by blast
    obtain b s3 where 3: "isReplay env now d s2 = (b, s3)" by (cases "isReplay env now d s2")
    obtain n s4 where 4: "nextEndpointSequence (ep_id ep) s3 = (n, s4)" by (cases "nextEndpointSequence (ep_id ep) s3")
    let ?ops = "endpoint_opts now event filtered raw d n ep"
    obtain x s5 where 5: "sendToUrl env now ?ops s4 = (x, s5)" by (cases "sendToUrl env now ?ops s4")
    have s3: "R s s3" using s2 3 by (blast intro: trans isReplay_R)
    have "R s3 s5" by (rule trans [OF sequence_R [OF 4] sendToUrl_R [OF 5]]) (simp add: h)
    then have s5: "R s s5" using s3 by (rule trans [rotated])
    have q: "R s (snd (queueWebhookRetry env now u e p err d' i sch k s5))" for u e p err d' i sch k
      by (rule trans [OF s5 queued]) (rule prod.collapse [symmetric])
    show ?thesis
      using f 1 2 3 4 5 ValidUrl s3 s5 q by (auto simp: fire_endpoint_def split: bool.splits sum.splits option.splits)
  qed
qed

lemma fire_each_R: "fire_each env now event filtered raw eps s = (r, s') \<Longrightarrow> R s s'"
proof (induction eps arbitrary: s r)
  case (Cons ep eps)
  then show ?case
    by (auto split: prod.splits sum.splits dest!: fire_endpoint_R Cons.IH intro: trans)
qed (simp add: refl)

lemma fireWebhook_R:
  assumes "fireWebhook env now u event p sec d i sch signing s = (r, s')"
  shows "R s s'"
proof (cases "u = []")
  case False
  obtain chk s1 where 1: "resolveUrl env now u s = (chk, s1)" by (cases "resolveUrl env now u s")
  have s1: "R s s1" using 1 by (rule resolveUrl_R)
  define g where "g = (case d of Some d \<Rightarrow> if d = [] then fresh_uuid env s1 else (d, s1) | None \<Rightarrow> fresh_uuid env s1)"
  obtain d' s2 where 2: "g = (d', s2)" by (cases g)
  have s2: "R s s2"
    using s1 2 by (auto simp: g_def split: option.splits if_splits dest!: fresh_R intro: trans)
  obtain b s3 where 3: "isReplay env now d' s2 = (b, s3)" by (cases "isReplay env now d' s2")
  have s3: "R s s3" using s2 3 by (blast intro: trans isReplay_R)
  show ?thesis
  proof (cases chk)
    case InvalidUrl
    then show ?thesis using assms False 1 s1 by (auto simp: fireWebhook_def)
  next
    case (ValidUrl a)
    then have h: "https_url env u" using 1 resolveUrl_valid by blast
    have send: "R s s5" if "sendToUrl env now (single_opts u event p d' i sch a n ctx) s3 = (x, s5)" for a n ctx x s5
      by (rule trans [OF s3 sendToUrl_R [OF that]]) (simp add: h)
    show ?thesis
      using assms False 1 3 ValidUrl 2 s3
      by (auto simp: fireWebhook_def Let_def g_def [symmetric] split: bool.splits prod.splits sum.splits option.splits
          intro: send dest!: send dest: queued intro: trans)
  qed
qed (use assms refl in \<open>simp add: fireWebhook_def\<close>)

lemma sendTestDelivery_R:
  assumes "sendTestDelivery env now ts ep s = (r, s')"
  shows "R s s'"
proof -
  obtain d s1 where 1: "fresh_uuid env s = (d, s1)" by (cases "fresh_uuid env s")
  obtain chk s2 where 2: "resolveUrl env now (ep_url ep) s1 = (chk, s2)" by (cases "resolveUrl env now (ep_url ep) s1")
  have s2: "R s s2" using 1 2 by (blast intro: trans fresh_R resolveUrl_R)
  have send: "R s s3" if "chk = ValidUrl a" "sendToUrl env now (endpoint_opts now e f p d n ep) s2 = (x, s3)" for a e f p n x s3
    by (rule trans [OF s2 sendToUrl_R [OF that(2)]]) (use that(1) 2 resolveUrl_valid in auto)
  show ?thesis
    using assms 1 2 s2 send trans [OF s2 log_attempt_R]
    by (auto simp: sendTestDelivery_def Let_def split: prod.splits url_check.splits sum.splits)
qed

lemma retryWebhook_R:
  assumes "retryWebhook env now c s = (r, s')" and "c \<in> set (retries s)" and "r_status c = RProcessing"
  shows "R s s'"
proof -
  obtain chk s1 where 1: "resolveUrl env now (r_url c) s = (chk, s1)" by (cases "resolveUrl env now (r_url c) s")
  obtain x s2 where 2: "sendToUrl env now (hook_retry_opts now c s1) s1 = (x, s2)" by (cases "sendToUrl env now (hook_retry_opts now c s1) s1")
  have s1: "R s s1" "retries s1 = retries s" using 1 resolveUrl_R retries_resolveUrl by auto
  have s2: "R s s2" "retries s2 = retries s" if "chk = ValidUrl a" for a
  proof -
    show "R s s2" by (rule trans [OF s1(1) sendToUrl_R [OF 2]]) (use that 1 resolveUrl_valid in auto)
    show "retries s2 = retries s" using retries_sendToUrl [OF 2] s1(2) by simp
  qed
  have "R s (update_retry (r_deliveryId c) (settle_retry now c res) s2)" if "chk = ValidUrl a" for a res
    by (rule trans [OF s2(1) [OF that] settled]) (use s2(2) [OF that] assms in simp_all)
  moreover have "R s (update_retry (r_deliveryId c) (\<lambda>r. unlease (r\<lparr>r_status := RFailed, r_lastError := Some e\<rparr>)) s1)" for e
    by (rule trans [OF s1(1) dropped]) (use s1(2) assms in simp_all)
  ultimately show ?thesis
    using assms(1) 1 2 s2(1) by (auto simp: retryWebhook_def split: prod.splits url_check.splits sum.splits)
qed

lemma claim_loop_R: "claim_loop env now k s = (r, s') \<Longrightarrow> R s s'"
proof (induction k arbitrary: s r)
  case (Suc k)
  show ?case
  proof (cases "claim_retry env now now s")
    case None
    then show ?thesis using Suc.prems refl by simp
  next
    case (Some p)
    obtain c s1 where p: "p = (c, s1)" by (cases p)
    obtain x s2 where 2: "retryWebhook env now c s1 = (x, s2)" by (cases "retryWebhook env now c s1")
    have "R s s1" using Some p claimed by blast
    moreover have "R s1 s2" using retryWebhook_R [OF 2] claimed_in_queue Some p by blast
    ultimately have s2: "R s s2" by (rule trans)
    show ?thesis
    proof (cases x)
      case (Inl e)
      then show ?thesis using Suc.prems Some p 2 s2 by simp
    next
      case (Inr u)
      then show ?thesis
        using Suc.prems Some p 2 trans [OF s2 Suc.IH] by (auto split: prod.splits sum.splits)
    qed
  qed
qed (simp add: refl)

lemma processPendingRetries_R: "processPendingRetries env now s = (r, s') \<Longrightarrow> R s s'"
  using recovered [of s now] by (auto simp: processPendingRetries_def split: prod.splits dest: claim_loop_R intro: trans)

lemma runOnce_R: "R s (runOnce env now running s)"
  by (auto simp: runOnce_def refl split: prod.splits sum.splits dest!: processPendingRetries_R intro: trans [OF _ config])

end


text \<open>
  Any sequence of operations; \<open>Configure\<close> stands for whatever the administration does to the endpoints, and
  \<open>Redeliver\<close> names the logged delivery it found, if any.
\<close>

datatype hook_op =
    Dispatch millis string string payload "string list option"
  | DeliverUrl millis string string payload "string option" "string option" "nat option" "string option" "signing option"
  | TestEndpoint millis string string nat
  | Redeliver millis string "hook_delivery option"
  | WorkRetries millis
  | SchedulerRun millis bool
  | RetryDead millis string
  | Replay millis bool string
  | Configure "hook_endpoint list"

fun hook_step :: "hook_env \<Rightarrow> hook_op \<Rightarrow> hooks \<Rightarrow> hooks" where
  "hook_step env (Dispatch now sch event raw flds) s = snd (fireWebhookToEndpoints env now sch event raw flds s)"
| "hook_step env (DeliverUrl now u event p sec d i sch signing) s = snd (fireWebhook env now u event p sec d i sch signing s)"
| "hook_step env (TestEndpoint now ts sch i) s = snd (sendTestEvent env now ts sch i s)"
| "hook_step env (Redeliver now sch d) s = snd (replayDelivery env now sch d s)"
| "hook_step env (WorkRetries now) s = snd (processPendingRetries env now s)"
| "hook_step env (SchedulerRun now running) s = runOnce env now running s"
| "hook_step env (RetryDead now d) s = snd (retryDLQEntry now d s)"
| "hook_step env (Replay now resetAttempts d) s = snd (replayWebhook now resetAttempts d s)"
| "hook_step env (Configure eps) s = s\<lparr>endpoints := eps\<rparr>"

text \<open>How often a sequence of operations queues a delivery again, keeping its attempts or starting over.\<close>

fun keeps_attempts :: "string \<Rightarrow> hook_op \<Rightarrow> bool" where
  "keeps_attempts d (Replay now resetAttempts d') \<longleftrightarrow> d' = d \<and> \<not> resetAttempts"
| "keeps_attempts d _ \<longleftrightarrow> False"

fun resets_attempts :: "string \<Rightarrow> hook_op \<Rightarrow> bool" where
  "resets_attempts d (Replay now resetAttempts d') \<longleftrightarrow> d' = d \<and> resetAttempts"
| "resets_attempts d (RetryDead now d') \<longleftrightarrow> d' = d"
| "resets_attempts d _ \<longleftrightarrow> False"

definition requeues :: "hook_op \<Rightarrow> bool" where
  "requeues op \<longleftrightarrow> (case op of RetryDead _ _ \<Rightarrow> True | Replay _ _ _ \<Rightarrow> True | _ \<Rightarrow> False)"

context hook_parts
begin

lemma replayDelivery_R: "R s (snd (replayDelivery env now sch d s))"
  by (auto simp: replayDelivery_def refl split: option.splits prod.splits sum.splits
      dest!: fireWebhook_R fresh_R intro: trans)

lemma sendTestEvent_R: "R s (snd (sendTestEvent env now ts sch i s))"
  by (auto simp: sendTestEvent_def refl split: option.splits prod.splits sum.splits dest!: sendTestDelivery_R)

lemma hook_step_R: "\<not> requeues op \<Longrightarrow> R s (hook_step env op s)"
proof (cases op)
  case (Dispatch now sch event raw flds)
  then show ?thesis
    using fire_each_R [OF prod.collapse [symmetric]] by (simp add: fireWebhookToEndpoints_def)
next
  case (DeliverUrl now u event p sec d i sch signing)
  then show ?thesis using fireWebhook_R [OF prod.collapse [symmetric]] by simp
next
  case (WorkRetries now)
  then show ?thesis using processPendingRetries_R [OF prod.collapse [symmetric]] by simp
qed (simp_all add: runOnce_R config sendTestEvent_R replayDelivery_R requeues_def)

end

text \<open>A relation that also holds of the deliveries queued again holds of every sequence of operations.\<close>

locale hook_relation = hook_parts +
  assumes requeued: "R s (update_retry d (requeue now resetAttempts) s)"
begin

lemma hook_steps_R: "R s (fold (hook_step env) ops s)"
proof (induction ops arbitrary: s)
  case (Cons op ops)
  have "R s (hook_step env op s)"
  proof (cases op)
    case (RetryDead now d)
    then show ?thesis by (simp add: retryDLQEntry_def refl requeued split: option.split)
  next
    case (Replay now resetAttempts d)
    then show ?thesis by (simp add: replayWebhook_def refl requeued split: option.split)
  qed (rule hook_step_R, simp add: requeues_def)+
  then show ?case using trans [OF _ Cons.IH] by simp
qed (simp add: refl)

end

subsection \<open>Requests go to public addresses over HTTPS\<close>

text \<open>What an operation does to the requests that went out: it adds safe ones.\<close>

definition adds_safe :: "hook_env \<Rightarrow> hooks \<Rightarrow> hooks \<Rightarrow> bool" where
  "adds_safe env s s' \<longleftrightarrow> (\<exists>qs. sent s' = sent s @ qs \<and> list_all (safe_request env) qs)"

lemma adds_safe_same: "sent s' = sent s \<Longrightarrow> adds_safe env s s'"
  by (simp add: adds_safe_def)

lemma sent_claim_retry: "claim_retry env start now s = Some (c, s') \<Longrightarrow> sent s' = sent s"
  by (auto simp: claim_retry_def update_retry_def Let_def split: list.splits)

interpretation safe: hook_relation env "adds_safe env"
proof
  show "adds_safe env s t \<Longrightarrow> adds_safe env t u \<Longrightarrow> adds_safe env s u" for s t u
    by (auto simp: adds_safe_def)
qed (auto simp: adds_safe_def update_retry_def recoverStuckLeases_def queueWebhookRetry_def sent_claim_retry
    split: if_splits prod.splits)

text \<open>C18: over any sequence of dispatches, direct and repeated deliveries, tests, retries, replays by an administrator
  and changes of the configuration, every request that leaves the program goes to an HTTPS URL and is pinned
  to a nonempty list of literal addresses: those of version 4 are outside the thirteen reserved blocks; those of
  version 6 are not the canonical text of a loopback, unspecified, unique local, link-local, mapped or translated
  address, and carry no reserved address of version 4 in dotted form behind the mapped prefix. Of version 6 no more is
  shown, because the check has gaps: multicast addresses, embedded addresses without that prefix and other
  spellings pass (\<open>ipv6_check_gaps\<close>).\<close>

theorem requests_only_public:
  assumes "sent s = []"
  shows "list_all (safe_request env) (sent (fold (hook_step env) ops s))"
  using safe.hook_steps_R [of env s ops] assms by (auto simp: adds_safe_def)

subsection \<open>The retry queue\<close>

text \<open>
  A document within its limits, for a delivery that was queued again \<open>k\<close> times with its attempts and \<open>n\<close> times
  without: every replay that keeps the attempts allows one more, and the log is longer than the attempts
  only if they were reset.
\<close>

definition retry_ok :: "nat \<Rightarrow> nat \<Rightarrow> hook_retry \<Rightarrow> bool" where
  "retry_ok k n r \<longleftrightarrow>
     1 \<le> r_maxAttempts r \<and> r_attempts r \<le> r_maxAttempts r + k \<and>
     r_attempts r + 1 \<le> length (r_errorLog r) \<and> (n = 0 \<longrightarrow> length (r_errorLog r) = r_attempts r + 1) \<and>
     (r_status r \<in> {RPending, RProcessing} \<longrightarrow> r_attempts r < r_maxAttempts r + k) \<and>
     (r_status r = RProcessing \<longleftrightarrow> r_leasedAt r \<noteq> None) \<and> (r_leasedAt r = None \<longleftrightarrow> r_leasedBy r = None)"

definition retries_inv :: "(string \<Rightarrow> nat) \<Rightarrow> (string \<Rightarrow> nat) \<Rightarrow> hooks \<Rightarrow> bool" where
  "retries_inv K N s \<longleftrightarrow>
     distinct (map r_deliveryId (retries s)) \<and>
     list_all (\<lambda>r. retry_ok (K (r_deliveryId r)) (N (r_deliveryId r)) r) (retries s)"

definition released :: "hook_retry \<Rightarrow> hook_retry" where
  "released r = unlease (r\<lparr>r_status := RPending\<rparr>)"

lemma recover_loop_map:
  "recover_loop cutoff rs =
     (map (\<lambda>r. if stuck cutoff r then released r else r) rs, length (filter (stuck cutoff) rs))"
proof (induction cutoff rs rule: recover_loop.induct)
  case (1 cutoff rs)
  have not_stuck: "\<not> stuck cutoff (released r)" for r by (simp add: stuck_def released_def unlease_def)
  show ?case
  proof (cases "list_ex (stuck cutoff) rs")
    case True
    then obtain xs x ys where rs: "rs = xs @ x # ys" "stuck cutoff x" "\<forall>r \<in> set xs. \<not> stuck cutoff r"
      by (metis list_ex_iff split_list_first_prop)
    then have one: "recover_one cutoff rs = xs @ released x # ys"
      unfolding recover_one_def released_def by (induction xs arbitrary: rs) auto
    have "recover_loop cutoff rs = (case recover_loop cutoff (recover_one cutoff rs) of (rs', n) \<Rightarrow> (rs', Suc n))"
      using True by (subst recover_loop.simps) simp
    then have "recover_loop cutoff rs =
        (map (\<lambda>r. if stuck cutoff r then released r else r) (xs @ released x # ys),
         Suc (length (filter (stuck cutoff) (xs @ released x # ys))))"
      using 1 [OF True] by (simp add: one)
    then show ?thesis using rs(2,3) not_stuck by (simp add: rs(1))
  next
    case False
    then have "map (\<lambda>r. if stuck cutoff r then released r else r) rs = rs" "filter (stuck cutoff) rs = []"
      by (auto simp: list_ex_iff filter_empty_conv intro!: map_idI)
    then show ?thesis using False by (simp add: recover_loop.simps [of cutoff rs])
  qed
qed

text \<open>the recovery loop ends, and leaves the queue as one pass over it would: every lease older than the
  limit is released and its delivery pending again, every other document is as before, and the
  result is the number of released leases.\<close>

theorem recover_stuck_leases:
  "recoverStuckLeases env now s =
     (length (filter (stuck (now - lease_timeout env)) (retries s)),
      s\<lparr>retries := map (\<lambda>r. if stuck (now - lease_timeout env) r then released r else r) (retries s)\<rparr>)"
  by (simp add: recoverStuckLeases_def recover_loop_map)

lemma retry_ok_released: "retry_ok k n r \<Longrightarrow> stuck cutoff r \<Longrightarrow> retry_ok k n (released r)"
  by (auto simp: retry_ok_def stuck_def released_def unlease_def)

lemma same_delivery:
  "retries_inv K N s \<Longrightarrow> r \<in> set (retries s) \<Longrightarrow> c \<in> set (retries s) \<Longrightarrow> r_deliveryId r = r_deliveryId c \<Longrightarrow> r = c"
  by (auto simp: retries_inv_def distinct_map dest: inj_onD)

lemma inv_update:
  assumes "retries_inv K N s" and "c \<in> set (retries s)" and "retry_ok (K (r_deliveryId c)) (N (r_deliveryId c)) (f c)"
    and "r_deliveryId (f c) = r_deliveryId c"
  shows "retries_inv K N (update_retry (r_deliveryId c) f s)"
proof -
  have "r = c" if "r \<in> set (retries s)" "r_deliveryId r = r_deliveryId c" for r
    using same_delivery [OF assms(1) that(1) assms(2) that(2)] .
  then have e: "retries (update_retry (r_deliveryId c) f s) = map (\<lambda>r. if r = c then f c else r) (retries s)"
    by (auto simp: update_retry_def)
  have "map r_deliveryId (map (\<lambda>r. if r = c then f c else r) (retries s)) = map r_deliveryId (retries s)"
    using assms(4) by auto
  then show ?thesis
    using assms(1,3,4) unfolding retries_inv_def e by (auto simp: list_all_iff simp del: map_map)
qed


lemma settle_ok:
  assumes "retry_ok k n c" and "r_status c = RProcessing"
  shows "retry_ok k n (settle_retry now c res c)"
  using assms by (auto simp: retry_ok_def settle_retry_def unlease_def Let_def split: option.split)

lemma r_deliveryId_settle [simp]: "r_deliveryId (settle_retry now c res r) = r_deliveryId r"
  by (simp add: settle_retry_def unlease_def Let_def split: option.split)

lemma inv_claim:
  assumes "claim_retry env start now s = Some (c, s')" and "retries_inv K N s"
  shows "retries_inv K N s'"
proof -
  obtain r rs where f: "filter (due start) (retries s) = r # rs"
    using assms by (auto simp: claim_retry_def split: list.splits)
  let ?m = "arg_min_list r_nextRetryAt (r # rs)"
  let ?l = "\<lambda>r :: hook_retry. r\<lparr>r_status := RProcessing, r_leasedAt := Some now, r_leasedBy := Some (worker_id env)\<rparr>"
  have "?m \<in> set (r # rs)" by (rule arg_min_list_in) simp
  then have m: "?m \<in> set (retries s)" "due start ?m" unfolding f [symmetric] by simp_all
  then have "retry_ok (K (r_deliveryId ?m)) (N (r_deliveryId ?m)) (?l ?m)" using assms(2) by (auto simp: retries_inv_def list_all_iff retry_ok_def due_def)
  then have "retries_inv K N (update_retry (r_deliveryId ?m) ?l s)" by (intro inv_update [OF assms(2) m(1)]) simp_all
  then show ?thesis using assms(1) f by (simp add: claim_retry_def Let_def)
qed

lemma inv_queue: "queueWebhookRetry env now u e p err d i sch k s = (r, s') \<Longrightarrow> retries_inv K N s \<Longrightarrow> retries_inv K N s'"
  by (auto simp: queueWebhookRetry_def retries_inv_def retry_ok_def split: if_splits)

lemma inv_recover: "retries_inv K N s \<Longrightarrow> retries_inv K N (snd (recoverStuckLeases env now s))"
proof -
  have id: "r_deliveryId (released r) = r_deliveryId r" for r by (simp add: released_def unlease_def)
  assume "retries_inv K N s"
  then show ?thesis
    by (auto simp: recoverStuckLeases_def recover_loop_map retries_inv_def list_all_iff retry_ok_released
        comp_def if_distrib id cong: if_cong)
qed

interpretation queue: hook_parts env "\<lambda>s s'. retries_inv K N s \<longrightarrow> retries_inv K N s'"
proof
  fix s :: hooks and c :: hook_retry and now :: millis and res and e :: hook_error
  assume c: "c \<in> set (retries s)" "r_status c = RProcessing"
  show "retries_inv K N s \<longrightarrow> retries_inv K N (update_retry (r_deliveryId c) (settle_retry now c res) s)"
  proof
    assume inv: "retries_inv K N s"
    then have "retry_ok (K (r_deliveryId c)) (N (r_deliveryId c)) c" using c by (auto simp: retries_inv_def list_all_iff)
    then show "retries_inv K N (update_retry (r_deliveryId c) (settle_retry now c res) s)"
      using c by (intro inv_update inv settle_ok) simp_all
  qed
  show "retries_inv K N s \<longrightarrow>
      retries_inv K N (update_retry (r_deliveryId c) (\<lambda>r. unlease (r\<lparr>r_status := RFailed, r_lastError := Some e\<rparr>)) s)"
  proof
    assume inv: "retries_inv K N s"
    then have "retry_ok (K (r_deliveryId c)) (N (r_deliveryId c)) c" using c by (auto simp: retries_inv_def list_all_iff)
    then show "retries_inv K N (update_retry (r_deliveryId c) (\<lambda>r. unlease (r\<lparr>r_status := RFailed, r_lastError := Some e\<rparr>)) s)"
      using c by (intro inv_update inv) (simp_all add: retry_ok_def unlease_def)
  qed
qed (auto simp: retries_inv_def [of K N "s\<lparr>sent := q\<rparr>" for s q] inv_recover dest: inv_queue inv_claim, simp_all add: retries_inv_def)

text \<open>Queuing a delivery again, and the counts of a sequence of operations.\<close>

lemma requeue_ok:
  "retry_ok k n r \<Longrightarrow> retry_ok (if b then k else Suc k) (if b then Suc n else n) (requeue now b r)"
  by (auto simp: retry_ok_def requeue_def unlease_def)

lemma inv_requeue:
  assumes "retries_inv K N s"
  shows "retries_inv (if b then K else K(d := Suc (K d))) (if b then N(d := Suc (N d)) else N) (update_retry d (requeue now b) s)"
proof -
  have id: "r_deliveryId (requeue now b r) = r_deliveryId r" for r by (simp add: requeue_def unlease_def)
  have "map r_deliveryId (retries (update_retry d (requeue now b) s)) = map r_deliveryId (retries s)"
    by (simp add: update_retry_def id comp_def if_distrib cong: if_cong)
  moreover have "retry_ok ((if b then K else K(d := Suc (K d))) (r_deliveryId q)) ((if b then N(d := Suc (N d)) else N) (r_deliveryId q)) q"
    if "q \<in> set (retries (update_retry d (requeue now b) s))" for q
  proof -
    obtain r where r: "r \<in> set (retries s)" "q = (if r_deliveryId r = d then requeue now b r else r)"
      using \<open>q \<in> _\<close> by (auto simp: update_retry_def)
    then have "retry_ok (K (r_deliveryId r)) (N (r_deliveryId r)) r" using assms by (auto simp: retries_inv_def list_all_iff)
    then show ?thesis using requeue_ok [of "K d" "N d" r b now] r(2) id [of r] by (cases b) (auto split: if_splits)
  qed
  ultimately show ?thesis using assms by (simp add: retries_inv_def list_all_iff)
qed

definition counted :: "(string \<Rightarrow> hook_op \<Rightarrow> bool) \<Rightarrow> hook_op list \<Rightarrow> string \<Rightarrow> nat" where
  "counted P ops d = length (filter (P d) ops)"

lemma inv_more:
  assumes "retries_inv K N s" and "\<And>d. K d \<le> K' d" and "\<And>d. N d \<le> N' d"
  shows "retries_inv K' N' s"
proof -
  have "retry_ok (K' d) (N' d) r" if "retry_ok (K d) (N d) r" for d r
    using that assms(2,3) [of d] by (auto simp: retry_ok_def)
  then show ?thesis using assms(1) by (auto simp: retries_inv_def list_all_iff)
qed

lemma hook_step_inv:
  assumes "retries_inv K N s"
  shows "retries_inv (\<lambda>d. K d + counted keeps_attempts [op] d) (\<lambda>d. N d + counted resets_attempts [op] d) (hook_step env op s)"
proof (cases "requeues op")
  case False
  have "retries_inv K N (hook_step env op s)" using queue.hook_step_R [OF False] assms by blast
  then show ?thesis by (rule inv_more) simp_all
next
  case True
  then consider (dead) now d where "op = RetryDead now d" | (replay) now b d where "op = Replay now b d"
    by (auto simp: requeues_def split: hook_op.splits)
  then show ?thesis
  proof cases
    case dead
    have "retries_inv K (N(d := Suc (N d))) (snd (retryDLQEntry now d s))"
      using inv_requeue [OF assms, of True d now] inv_more [OF assms, of K "N(d := Suc (N d))"]
      by (simp add: retryDLQEntry_def split: option.split)
    then show ?thesis by (simp only: dead hook_step.simps) (erule inv_more; simp add: counted_def)
  next
    case replay
    have "retries_inv (if b then K else K(d := Suc (K d))) (if b then N(d := Suc (N d)) else N) (snd (replayWebhook now b d s))"
      using inv_requeue [OF assms, of b d now] inv_more [OF assms, of "if b then K else K(d := Suc (K d))" "if b then N(d := Suc (N d)) else N"]
      by (cases b) (simp_all add: replayWebhook_def split: option.split)
    then show ?thesis by (simp only: replay hook_step.simps) (erule inv_more; simp add: counted_def)
  qed
qed

lemma hook_steps_inv:
  "retries_inv K N s \<Longrightarrow>
   retries_inv (\<lambda>d. K d + counted keeps_attempts ops d) (\<lambda>d. N d + counted resets_attempts ops d) (fold (hook_step env) ops s)"
proof (induction ops arbitrary: s K N)
  case (Cons op ops)
  have "counted P (op # ops) d = counted P [op] d + counted P ops d" for P d by (simp add: counted_def)
  then show ?case using Cons.IH [OF hook_step_inv [OF Cons.prems]] by (simp add: add.assoc)
qed (simp add: counted_def)

text \<open>C21: over any sequence of operations, run one after the other and those of an administrator included, the retry
  queue holds each delivery once, and a delivery has a lease exactly while it is being processed. It never has
  more attempts than its limit, plus one for every time it was replayed with its attempts kept
  (\<^verbatim>\<open>resetAttempts=false\<close>), and at that bound it is not pending. Its log has at least an entry for the
  first delivery and for each attempt counted, and exactly those if its attempts were never reset.\<close>

theorem retry_queue_invariant:
  assumes "retries s = []"
  shows "retries_inv (counted keeps_attempts ops) (counted resets_attempts ops) (fold (hook_step env) ops s)"
  using hook_steps_inv [of "\<lambda>_. 0" "\<lambda>_. 0" s ops env] assms by (simp add: retries_inv_def)


subsection \<open>An example\<close>

definition example_hook_env :: hook_env where
  "example_hook_env = \<lparr>parse_url = (\<lambda>_. Some \<lparr>protocol = ''https:'', hostname = ''93.184.216.34''\<rparr>),
     resolve = (\<lambda>_ _. (None, None)), hmac = checksum_hmac, stringify = b_event, date_ms = (\<lambda>_. Some 0),
     sunset_env = None, uuidv4 = nat_to_string 10, net = (\<lambda>_ _. Reply 503 ''''), redis_ready = True, redis_ok = True,
     nonces_local = False, replay_window_s = 300, max_attempts = 3, lease_timeout = 30000, worker_id = ''w''\<rparr>"

definition example_endpoint :: hook_endpoint where
  "example_endpoint = \<lparr>ep_secret = Some ''key'', ep_previousSecret = None, ep_previousExpiresAt = None, ep_rotatedAt = None,
     ep_id = 7, ep_schoolId = ''s'', ep_url = ''u'', ep_versions = None, ep_sequence = 4,
     ep_events = [''payment.confirmed'', ''dispute.created''], ep_active = True\<rparr>"

definition example_hooks :: hooks where
  "example_hooks = \<lparr>endpoints = [example_endpoint], retries = [], deliveries = [], redis_nonces = (\<lambda>_. None),
     local_nonces = (\<lambda>_. None), dns_names = (\<lambda>_. None), uuids = 0, sent = []\<rparr>"

theorem requests_only_public_witness:
  "list_all (safe_request example_hook_env)
     (sent (fold (hook_step example_hook_env) [Dispatch 5000 ''s'' ''payment.confirmed'' [(''txHash'', ''t'')] None, WorkRetries 70000] example_hooks))"
  by (rule requests_only_public) (simp add: example_hooks_def)

theorem retry_queue_invariant_witness:
  "retries_inv
     (counted keeps_attempts [Dispatch 5000 ''s'' ''payment.confirmed'' [(''txHash'', ''t'')] None, WorkRetries 70000, Replay 80000 False ''0''])
     (counted resets_attempts [Dispatch 5000 ''s'' ''payment.confirmed'' [(''txHash'', ''t'')] None, WorkRetries 70000, Replay 80000 False ''0''])
     (fold (hook_step example_hook_env)
        [Dispatch 5000 ''s'' ''payment.confirmed'' [(''txHash'', ''t'')] None, WorkRetries 70000, Replay 80000 False ''0''] example_hooks)"
  by (rule retry_queue_invariant) (simp add: example_hooks_def)

subsection \<open>Fields that leave the program\<close>

lemma map_of_set_field: "map_of (set_field p k v) x = (if x = k then Some v else map_of p x)"
  by (induction p) auto

lemma map_of_copied:
  "map_of (foldl (copy_field raw) acc ks) x = (if x \<in> set ks \<and> map_of raw x \<noteq> None then map_of raw x else map_of acc x)"
  by (induction ks arbitrary: acc) (auto simp: copy_field_def map_of_set_field split: option.split)

definition allowed_fields :: "string list option \<Rightarrow> string list" where
  "allowed_fields fs = (case fs of Some f \<Rightarrow> if f \<noteq> [] then f else DEFAULT_ALLOWED_FIELDS | None \<Rightarrow> DEFAULT_ALLOWED_FIELDS)"

lemma map_of_buildWebhookPayload:
  "map_of (buildWebhookPayload raw fs) x = (if x \<in> set (allowed_fields fs) then map_of raw x else None)"
  by (auto simp: buildWebhookPayload_def allowed_fields_def Let_def map_of_copied split: option.split)

text \<open>The requests that one dispatch adds.\<close>

lemma sent_frame:
  "sent (log_attempt ops a b c d s) = sent s" "sent (snd (queueWebhookRetry env now u e p err d' i sch k s)) = sent s"
  by (auto simp: log_attempt_def writeDeliveryLog_def queueWebhookRetry_def split: option.split)

definition adds_data :: "payload \<Rightarrow> hooks \<Rightarrow> hooks \<Rightarrow> bool" where
  "adds_data p s s' \<longleftrightarrow> (\<exists>qs. sent s' = sent s @ qs \<and> list_all (\<lambda>q. b_data (q_body q) = p) qs)"

lemma adds_data_same: "sent s' = sent s \<Longrightarrow> adds_data p s s'"
  by (simp add: adds_data_def)

lemma adds_data_trans: "adds_data p s t \<Longrightarrow> adds_data p t u \<Longrightarrow> adds_data p s u"
  by (auto simp: adds_data_def)

lemma sendToUrl_data: "sendToUrl env now ops s = (r, s') \<Longrightarrow> adds_data (o_filtered ops) s s'"
  by (auto simp: sendToUrl_def Let_def adds_data_def sent_frame split: prod.splits sum.splits net_reply.splits if_splits)

lemma opts_filtered [simp]:
  "o_filtered (endpoint_opts now e f r d n ep) = f" "o_filtered (single_opts u e p d i sch a n ctx) = p"
  by (simp_all add: endpoint_opts_def single_opts_def)

lemma fire_endpoint_data: "fire_endpoint env now event filtered raw ep s = (r, s') \<Longrightarrow> adds_data filtered s s'"
proof -
  assume f: "fire_endpoint env now event filtered raw ep s = (r, s')"
  obtain d s1 where 1: "fresh_uuid env s = (d, s1)" by (cases "fresh_uuid env s")
  obtain chk s2 where 2: "resolveUrl env now (ep_url ep) s1 = (chk, s2)" by (cases "resolveUrl env now (ep_url ep) s1")
  obtain b s3 where 3: "isReplay env now d s2 = (b, s3)" by (cases "isReplay env now d s2")
  obtain n s4 where 4: "nextEndpointSequence (ep_id ep) s3 = (n, s4)" by (cases "nextEndpointSequence (ep_id ep) s3")
  obtain x s5 where 5: "sendToUrl env now (endpoint_opts now event filtered raw d n ep) s4 = (x, s5)"
    by (cases "sendToUrl env now (endpoint_opts now event filtered raw d n ep) s4")
  have same: "sent s2 = sent s" "sent s3 = sent s" "sent s4 = sent s"
    using 1 2 3 4 by (auto simp: fresh_uuid_def resolveUrl_def isReplay_def nextEndpointSequence_def Let_def
        split: prod.splits if_splits option.splits)
  have s5: "adds_data filtered s s5" using sendToUrl_data [OF 5] same(3) by (simp add: adds_data_def)
  have q: "adds_data filtered s (snd (queueWebhookRetry env now u e p err d' i sch k s5))" for u e p err d' i sch k
    using s5 by (simp add: adds_data_def sent_frame)
  show ?thesis
    using f 1 2 3 4 5 same s5 q
    by (auto simp: fire_endpoint_def adds_data_same sent_frame split: url_check.splits bool.splits sum.splits option.splits)
qed

lemma fire_each_data: "fire_each env now event filtered raw eps s = (r, s') \<Longrightarrow> adds_data filtered s s'"
proof (induction eps arbitrary: s r)
  case (Cons ep eps)
  then show ?case
    by (auto split: prod.splits sum.splits dest!: fire_endpoint_data Cons.IH intro: adds_data_trans)
qed (simp add: adds_data_same)

text \<open>the first delivery of an event carries, to every endpoint, exactly the fields of the payload that the
  school has allowed; without a configuration, neither the student nor the sender is among them.\<close>

theorem dispatch_sends_allowed_fields:
  "\<exists>qs. sent (snd (fireWebhookToEndpoints env now sch event raw fs s)) = sent s @ qs \<and>
     list_all (\<lambda>q. \<forall>x. map_of (b_data (q_body q)) x = (if x \<in> set (allowed_fields fs) then map_of raw x else None)) qs \<and>
     ''studentId'' \<notin> set (allowed_fields None) \<and> ''senderAddress'' \<notin> set (allowed_fields None)"
proof -
  have "adds_data (buildWebhookPayload raw fs) s (snd (fireWebhookToEndpoints env now sch event raw fs s))"
    unfolding fireWebhookToEndpoints_def by (rule fire_each_data) (rule prod.collapse [symmetric])
  then show ?thesis
    by (auto simp: adds_data_def list_all_iff map_of_buildWebhookPayload)
      (auto simp: allowed_fields_def DEFAULT_ALLOWED_FIELDS_def)
qed


text \<open>
  A retry sends the payload as it was before filtering: the queue keeps the raw payload, and the retry sends
  what the queue keeps.
\<close>

lemma retry_sends_unfiltered:
  assumes "queueWebhookRetry env now u event raw err d i sch k s = (Inr x, s')"
  shows "r_payload (last (retries s')) = raw"
    and "sendToUrl env' now' (hook_retry_opts now' (last (retries s')) t) t = (y, t') \<Longrightarrow> adds_data raw t t'"
proof -
  show raw: "r_payload (last (retries s')) = raw" using assms by (auto simp: queueWebhookRetry_def split: if_splits)
  show "sendToUrl env' now' (hook_retry_opts now' (last (retries s')) t) t = (y, t') \<Longrightarrow> adds_data raw t t'"
    by (drule sendToUrl_data) (simp add: hook_retry_opts_def raw)
qed

text \<open>The schema of retries does not know the events of disputes: their failed deliveries are lost.\<close>

lemma dispute_event_not_queued:
  "fst (queueWebhookRetry env now u ''dispute.created'' p err d i sch k s) = Inl InvalidEvent \<and>
   snd (queueWebhookRetry env now u ''dispute.created'' p err d i sch k s) = s"
  by (simp add: queueWebhookRetry_def RETRY_EVENTS_def)

text \<open>Without Redis, and without the setting for local nonces, nothing is delivered and nothing is queued.\<close>

lemma no_redis_no_delivery:
  assumes "\<not> redis_ready env" and "\<not> nonces_local env" and "fire_endpoint env now event filtered raw ep s = (r, s')"
  shows "sent s' = sent s \<and> retries s' = retries s"
  using assms
  by (auto simp: fire_endpoint_def isReplay_def fresh_uuid_def resolveUrl_def sent_frame
      split: prod.splits url_check.splits)


subsection \<open>Workers that share the queue\<close>

text \<open>
  Several replicas work on one queue: a worker claims a document, sends, and later settles it, and any of them
  may recover stuck leases in between. The state is the queue and, for each worker, the claimed document.
\<close>

datatype hook_lease_op = LClaim nat millis | LSettle nat millis "hook_error option" | LRecover millis

type_synonym leases = "hooks \<times> (nat \<rightharpoonup> hook_retry)"

fun hook_lease_step :: "hook_env \<Rightarrow> hook_lease_op \<Rightarrow> leases \<Rightarrow> leases" where
  "hook_lease_step env (LClaim w now) (s, held) =
     (if held w \<noteq> None then (s, held)
      else case claim_retry env now now s of None \<Rightarrow> (s, held) | Some (c, s') \<Rightarrow> (s', held(w \<mapsto> c)))"
| "hook_lease_step env (LSettle w now res) (s, held) =
     (case held w of
        None \<Rightarrow> (s, held)
      | Some c \<Rightarrow> (update_retry (r_deliveryId c) (settle_retry now c res) s, held(w := None)))"
| "hook_lease_step env (LRecover now) (s, held) = (snd (recoverStuckLeases env now s), held)"

text \<open>Every worker settles before its lease runs out: no recovery finds a held document stuck.\<close>

fun in_time :: "hook_env \<Rightarrow> hook_lease_op \<Rightarrow> leases \<Rightarrow> bool" where
  "in_time env (LRecover now) (s, held) \<longleftrightarrow>
     (\<forall>w c. held w = Some c \<longrightarrow> \<not> stuck (now - lease_timeout env) c)"
| "in_time env _ _ \<longleftrightarrow> True"

fun runs_in_time :: "hook_env \<Rightarrow> hook_lease_op list \<Rightarrow> leases \<Rightarrow> bool" where
  "runs_in_time env [] l \<longleftrightarrow> True"
| "runs_in_time env (x # xs) l \<longleftrightarrow> in_time env x l \<and> runs_in_time env xs (hook_lease_step env x l)"

definition hook_lease_inv :: "leases \<Rightarrow> bool" where
  "hook_lease_inv l \<longleftrightarrow> (case l of (s, held) \<Rightarrow>
     retries_inv (\<lambda>_. 0) (\<lambda>_. 0) s \<and> (\<forall>w c. held w = Some c \<longrightarrow> c \<in> set (retries s) \<and> r_status c = RProcessing) \<and>
     (\<forall>w w' c c'. held w = Some c \<longrightarrow> held w' = Some c' \<longrightarrow> r_deliveryId c = r_deliveryId c' \<longrightarrow> w = w'))"

lemma update_retry_other:
  "c \<in> set (retries s) \<Longrightarrow> r_deliveryId c \<noteq> d \<Longrightarrow> c \<in> set (retries (update_retry d f s))"
  by (force simp: update_retry_def)

lemma claim_details:
  assumes "claim_retry env start now s = Some (c, s')"
  obtains m f where "m \<in> set (retries s)" "r_status m = RPending" "r_deliveryId c = r_deliveryId m"
    "s' = update_retry (r_deliveryId m) f s"
proof -
  obtain r rs where f: "filter (due start) (retries s) = r # rs"
    using assms by (auto simp: claim_retry_def split: list.splits)
  let ?m = "arg_min_list r_nextRetryAt (r # rs)"
  have "?m \<in> set (r # rs)" by (rule arg_min_list_in) simp
  then have "?m \<in> set (retries s)" "due start ?m" unfolding f [symmetric] by simp_all
  then show ?thesis
    using assms f by (intro that [of ?m]) (auto simp: claim_retry_def Let_def due_def)
qed

lemma hook_lease_step_inv:
  assumes "hook_lease_inv (s, held)" and "in_time env x (s, held)"
  shows "hook_lease_inv (hook_lease_step env x (s, held))"
proof -
  have inv: "retries_inv (\<lambda>_. 0) (\<lambda>_. 0) s" and held: "held w = Some c \<Longrightarrow> c \<in> set (retries s) \<and> r_status c = RProcessing"
    and inj: "held w = Some c \<Longrightarrow> held w' = Some c' \<Longrightarrow> r_deliveryId c = r_deliveryId c' \<Longrightarrow> w = w'" for w w' c c'
    using assms(1) by (auto simp: hook_lease_inv_def)
  have same: "r = c" if "r \<in> set (retries s)" "c \<in> set (retries s)" "r_deliveryId r = r_deliveryId c" for r c
    using same_delivery [OF inv that] .
  show ?thesis
  proof (cases x)
    case (LClaim w now)
    show ?thesis
    proof (cases "held w = None \<and> claim_retry env now now s \<noteq> None")
      case True
      then obtain c s' where c: "claim_retry env now now s = Some (c, s')" by auto
      then obtain m f where m: "m \<in> set (retries s)" "r_status m = RPending" "r_deliveryId c = r_deliveryId m"
        and s': "s' = update_retry (r_deliveryId m) f s" by (rule claim_details)
      have other: "r_deliveryId c' \<noteq> r_deliveryId m" if "held w' = Some c'" for w' c'
        using held [OF that] same m by force
      have inv': "retries_inv (\<lambda>_. 0) (\<lambda>_. 0) s'" using inv_claim [OF c inv] .
      have kept: "c' \<in> set (retries s')" if "held w' = Some c'" for w' c'
        using update_retry_other held [OF that] other [OF that] s' by blast
      have all: "v \<in> set (retries s') \<and> r_status v = RProcessing" if "(held(w \<mapsto> c)) w1 = Some v" for w1 v
        using that kept held claimed_in_queue [OF c] by (auto split: if_splits)
      have excl: "w1 = w2" if "(held(w \<mapsto> c)) w1 = Some v1" "(held(w \<mapsto> c)) w2 = Some v2" "r_deliveryId v1 = r_deliveryId v2"
        for w1 w2 v1 v2
        using that inj [of w1 v1 w2 v2] other [of w1 v1] other [of w2 v2] m(3) by (auto split: if_splits)
      have "hook_lease_step env x (s, held) = (s', held(w \<mapsto> c))" using LClaim True c by simp
      then show ?thesis using inv' all excl unfolding hook_lease_inv_def by (simp only: prod.case) blast
    qed (use LClaim assms(1) in \<open>auto split: option.split\<close>)
  next
    case (LSettle w now res)
    show ?thesis
    proof (cases "held w")
      case None
      then show ?thesis using LSettle assms(1) by simp
    next
      case (Some c)
      have "retries_inv (\<lambda>_. 0) (\<lambda>_. 0) (update_retry (r_deliveryId c) (settle_retry now c res) s)"
        using queue.settled held [OF Some] inv by blast
      moreover have "c' \<in> set (retries (update_retry (r_deliveryId c) (settle_retry now c res) s))"
        if "held w' = Some c'" "w' \<noteq> w" for w' c'
        using update_retry_other held [OF that(1)] inj [OF that(1) Some] that(2) by blast
      ultimately show ?thesis
        using LSettle Some held inj by (auto simp: hook_lease_inv_def split: if_splits)
    qed
  next
    case (LRecover now)
    have "c \<in> set (retries (snd (recoverStuckLeases env now s)))" if "held w = Some c" for w c
      using held [OF that] assms(2) that LRecover by (force simp: recoverStuckLeases_def recover_loop_map)
    then show ?thesis using LRecover inv_recover [OF inv] held inj by (auto simp: hook_lease_inv_def)
  qed
qed

lemma hook_lease_steps_inv:
  "hook_lease_inv l \<Longrightarrow> runs_in_time env xs l \<Longrightarrow> hook_lease_inv (fold (hook_lease_step env) xs l)"
proof (induction xs arbitrary: l)
  case (Cons x xs)
  then show ?case using hook_lease_step_inv by (cases l) auto
qed simp

text \<open>while workers settle within the lease, no two of them hold the same delivery, whatever the
  interleaving of claims, settlements and recoveries.\<close>

theorem hook_lease_exclusive:
  assumes "retries_inv (\<lambda>_. 0) (\<lambda>_. 0) s" and "runs_in_time env xs (s, \<lambda>_. None)"
    and "snd (fold (hook_lease_step env) xs (s, \<lambda>_. None)) w = Some c"
    and "snd (fold (hook_lease_step env) xs (s, \<lambda>_. None)) w' = Some c'"
    and "w \<noteq> w'"
  shows "r_deliveryId c \<noteq> r_deliveryId c'"
proof -
  have "hook_lease_inv (fold (hook_lease_step env) xs (s, \<lambda>_. None))"
    by (rule hook_lease_steps_inv [OF _ assms(2)]) (use assms(1) in \<open>simp add: hook_lease_inv_def\<close>)
  then show ?thesis using assms(3-5) by (auto simp: hook_lease_inv_def split: prod.splits)
qed


definition example_retry :: "string \<Rightarrow> hook_retry" where
  "example_retry d = \<lparr>r_url = ''u'', r_event = ''payment.confirmed'', r_payload = [], r_deliveryId = d,
     r_endpointId = None, r_schoolId = None, r_sequence = None, r_status = RPending, r_attempts = 0, r_maxAttempts = 3,
     r_nextRetryAt = 0, r_leasedAt = None, r_leasedBy = None, r_lastError = None, r_errorLog = [(0, SSRF_BLOCKED)]\<rparr>"

definition held_ids :: "hook_lease_op list \<Rightarrow> string list \<Rightarrow> nat list \<Rightarrow> string option list" where
  "held_ids xs ds ws =
     map (\<lambda>w. map_option r_deliveryId (snd (fold (hook_lease_step example_hook_env) xs (example_hooks\<lparr>retries := map example_retry ds\<rparr>, \<lambda>_. None)) w)) ws"

lemma hook_lease_example:
  "held_ids [LClaim 2 100, LRecover 30100, LClaim 3 200] [''a'', ''b''] [2, 3] = [Some ''a'', Some ''b'']"
  by code_simp

theorem hook_lease_exclusive_witness:
  "r_deliveryId (the (snd (fold (hook_lease_step example_hook_env) [LClaim 2 100, LRecover 30100, LClaim 3 200]
      (example_hooks\<lparr>retries := map example_retry [''a'', ''b'']\<rparr>, \<lambda>_. None)) 2)) \<noteq>
   r_deliveryId (the (snd (fold (hook_lease_step example_hook_env) [LClaim 2 100, LRecover 30100, LClaim 3 200]
      (example_hooks\<lparr>retries := map example_retry [''a'', ''b'']\<rparr>, \<lambda>_. None)) 3))"
proof (rule hook_lease_exclusive [where env = example_hook_env and s = "example_hooks\<lparr>retries := map example_retry [''a'', ''b'']\<rparr>"
      and xs = "[LClaim 2 100, LRecover 30100, LClaim 3 200]" and w = 2 and w' = 3])
  let ?l = "(example_hooks\<lparr>retries := map example_retry [''a'', ''b'']\<rparr>, \<lambda>_. None) :: leases"
  show "retries_inv (\<lambda>_. 0) (\<lambda>_. 0) (example_hooks\<lparr>retries := map example_retry [''a'', ''b'']\<rparr>)"
    by (simp add: retries_inv_def example_hooks_def example_retry_def retry_ok_def)
  show "runs_in_time example_hook_env [LClaim 2 100, LRecover 30100, LClaim 3 200] ?l"
    by (auto simp: claim_retry_def example_hooks_def example_retry_def due_def example_hook_env_def stuck_def split: if_splits)
qed (use hook_lease_example in \<open>auto simp: held_ids_def\<close>)

text \<open>
  A worker that is slower than its lease loses it, and then both it and another worker send the same delivery:
  the settlement checks neither the lease nor its owner.
\<close>

lemma slow_worker_duplicates:
  "held_ids [LClaim 2 100, LRecover 30101, LClaim 3 30200] [''a''] [2, 3] = [Some ''a'', Some ''a'']"
  by code_simp


subsection \<open>Events of disputes\<close>

record dispute_event =
  de_id :: string
  de_school :: string
  de_tx :: string
  de_student :: string
  de_raisedBy :: string
  de_reason :: string
  de_status :: string
  de_deadline :: string
  de_createdAt :: string
  de_resolvedBy :: string
  de_note :: string
  de_resolvedAt :: string
  de_lifted :: string

definition created_payload :: "dispute_event \<Rightarrow> payload" where
  "created_payload d =
     [(''disputeId'', de_id d), (''schoolId'', de_school d), (''txHash'', de_tx d), (''studentId'', de_student d),
      (''raisedBy'', de_raisedBy d), (''reason'', de_reason d), (''status'', de_status d), (''holdSet'', ''true''),
      (''slaDeadline'', de_deadline d), (''createdAt'', de_createdAt d)]"

definition resolved_payload :: "dispute_event \<Rightarrow> payload" where
  "resolved_payload d =
     [(''disputeId'', de_id d), (''schoolId'', de_school d), (''txHash'', de_tx d), (''studentId'', de_student d),
      (''status'', de_status d), (''resolvedBy'', de_resolvedBy d), (''resolutionNote'', de_note d),
      (''resolvedAt'', de_resolvedAt d), (''holdLifted'', de_lifted d)]"

definition notifyDisputeCreated ::
  "hook_env \<Rightarrow> millis \<Rightarrow> (string \<Rightarrow> string list option) \<Rightarrow> dispute_event \<Rightarrow> hooks
     \<Rightarrow> (policy_error, fire_result list) result \<times> hooks" where
  "notifyDisputeCreated env now school_fields d s =
     dispatchToSchool env now school_fields (de_school d) ''dispute.created'' (created_payload d) s"

definition notifyDisputeResolved ::
  "hook_env \<Rightarrow> millis \<Rightarrow> (string \<Rightarrow> string list option) \<Rightarrow> dispute_event \<Rightarrow> hooks
     \<Rightarrow> (policy_error, fire_result list) result \<times> hooks" where
  "notifyDisputeResolved env now school_fields d s =
     dispatchToSchool env now school_fields (de_school d) ''dispute.resolved'' (resolved_payload d) s"

text \<open>
  The filter drops the identifier of the dispute, who raised or resolved it and the note: none of these fields
  is known to it, so no school can allow them.
\<close>

lemma dispute_fields_dropped:
  "map_of (buildWebhookPayload (created_payload d) None) ''disputeId'' = None"
  "map_of (buildWebhookPayload (resolved_payload d) None) ''disputeId'' = None"
  "''disputeId'' \<notin> set ALL_KNOWN_FIELDS" "''resolutionNote'' \<notin> set ALL_KNOWN_FIELDS"
  by (simp_all add: map_of_buildWebhookPayload allowed_fields_def DEFAULT_ALLOWED_FIELDS_def ALL_KNOWN_FIELDS_def)


end
