(* ===== verification/Webhook_Admin.thy ===== *)
theory Webhook_Admin
  imports Webhook_Delivery "HOL-Library.Countable"
begin

section \<open>Administration of webhooks\<close>

text \<open>
  The endpoints a school registers (\<^verbatim>\<open>backend/src/controllers/webhookEndpointsController.js\<close> and
  \<^verbatim>\<open>backend/src/services/webhookEndpointService.js\<close>), the list of dead letters
  (\<^verbatim>\<open>backend/src/controllers/webhookAdminController.js\<close>), the encryption of secrets at rest
  (\<^verbatim>\<open>backend/src/services/webhookSecretEncryption.js\<close>) and the policy for secrets that callers supply
  (\<^verbatim>\<open>backend/src/utils/webhookSecretPolicy.js\<close>). The step-up confirmation, whose module the sources do not
  have, the validation of the URL and the strength of a secret are arguments of a request.
\<close>

subsection \<open>Encryption at rest\<close>

text \<open>
  The cipher is a parameter: sealing with a key, an initialisation vector and a text, opening with a key
  (\<open>None\<close> when the tag does not verify), and base64. \<open>cipher_ok\<close> states what is used of it.
\<close>

record cipher =
  seal :: "string \<Rightarrow> nat \<Rightarrow> string \<Rightarrow> nat list"
  open_sealed :: "string \<Rightarrow> nat list \<Rightarrow> string option"
  b64url :: "nat list \<Rightarrow> string"
  unb64url :: "string \<Rightarrow> nat list"

definition cipher_ok :: "cipher \<Rightarrow> bool" where
  "cipher_ok C \<longleftrightarrow>
     (\<forall>k iv p. open_sealed C k (seal C k iv p) = Some p \<and> length (seal C k iv p) = 12 + length p + 16) \<and>
     (\<forall>k k' iv p. k \<noteq> k' \<longrightarrow> open_sealed C k' (seal C k iv p) = None) \<and>
     (\<forall>b. unb64url C (b64url C b) = b)"

record crypt_env =
  enc_key :: "string option"
  old_key :: "string option"
  production :: bool
  allow_plaintext :: bool

datatype crypt_error = KEY_REQUIRED | KEY_MALFORMED

definition truthy_setting :: "string option \<Rightarrow> bool" where
  "truthy_setting x \<longleftrightarrow> x \<noteq> None \<and> x \<noteq> Some []"

definition key_format :: "string \<Rightarrow> bool" where
  "key_format k \<longleftrightarrow> length k = 64 \<and> list_all is_hex k"

definition assertKeyConfiguredInProduction :: "crypt_env \<Rightarrow> (crypt_error, unit) result" where
  "assertKeyConfiguredInProduction env =
     (if \<not> production env \<or> truthy_setting (enc_key env) \<or> allow_plaintext env then Inr () else Inl KEY_REQUIRED)"

definition getKey :: "crypt_env \<Rightarrow> (crypt_error, string option) result" where
  "getKey env =
     (if \<not> truthy_setting (enc_key env) then
        (case assertKeyConfiguredInProduction env of Inl e \<Rightarrow> Inl e | Inr _ \<Rightarrow> Inr None)
      else if \<not> key_format (the (enc_key env)) then Inl KEY_MALFORMED
      else Inr (Some (toLowerCase (the (enc_key env)))))"

definition getPreviousKey :: "crypt_env \<Rightarrow> (crypt_error, string option) result" where
  "getPreviousKey env =
     (if \<not> truthy_setting (old_key env) then Inr None
      else if \<not> key_format (the (old_key env)) then Inl KEY_MALFORMED
      else Inr (Some (toLowerCase (the (old_key env)))))"

definition ENC_PREFIX :: string where "ENC_PREFIX = ''enc:''"

definition isEncrypted :: "string \<Rightarrow> bool" where
  "isEncrypted v \<longleftrightarrow> startsWith v ENC_PREFIX"

definition encryptWebhookSecret :: "cipher \<Rightarrow> crypt_env \<Rightarrow> nat \<Rightarrow> string \<Rightarrow> (crypt_error, string) result" where
  "encryptWebhookSecret C env iv plaintext =
     (if plaintext = [] then Inr plaintext
      else if startsWith plaintext ENC_PREFIX then Inr plaintext
      else case getKey env of
        Inl e \<Rightarrow> Inl e
      | Inr None \<Rightarrow> Inr plaintext
      | Inr (Some key) \<Rightarrow> Inr (ENC_PREFIX @ b64url C (seal C key iv plaintext)))"

definition decryptWebhookSecret :: "cipher \<Rightarrow> crypt_env \<Rightarrow> string \<Rightarrow> (crypt_error, string) result" where
  "decryptWebhookSecret C env v =
     (if v = [] then Inr v
      else if \<not> startsWith v ENC_PREFIX then Inr v
      else case getKey env of
        Inl e \<Rightarrow> Inl e
      | Inr None \<Rightarrow> Inr v
      | Inr (Some key) \<Rightarrow>
          let buf = unb64url C (drop (length ENC_PREFIX) v) in
          if length buf < 12 + 1 + 16 then Inr v
          else case open_sealed C key buf of
            Some p \<Rightarrow> Inr p
          | None \<Rightarrow>
              (case getPreviousKey env of
                 Inl e \<Rightarrow> Inl e
               | Inr None \<Rightarrow> Inr v
               | Inr (Some previous) \<Rightarrow>
                   (case open_sealed C previous buf of Some p \<Rightarrow> Inr p | None \<Rightarrow> Inr v)))"

definition isEncryptionEnabled :: "crypt_env \<Rightarrow> bool" where
  "isEncryptionEnabled env = truthy_setting (enc_key env)"

definition isPlaintextFallbackActive :: "crypt_env \<Rightarrow> bool" where
  "isPlaintextFallbackActive env \<longleftrightarrow> production env \<and> \<not> truthy_setting (enc_key env) \<and> allow_plaintext env"

lemma encrypted_form:
  assumes "encryptWebhookSecret C env iv p = Inr v" and "p \<noteq> []" and "\<not> startsWith p ENC_PREFIX"
  shows "(getKey env = Inr None \<and> v = p) \<or>
    (\<exists>key. getKey env = Inr (Some key) \<and> v = ENC_PREFIX @ b64url C (seal C key iv p))"
  using assms by (auto simp: encryptWebhookSecret_def split: sum.splits option.splits)

lemma drop_prefix: "startsWith (ENC_PREFIX @ x) ENC_PREFIX \<and> drop (length ENC_PREFIX) (ENC_PREFIX @ x) = x \<and> ENC_PREFIX @ x \<noteq> []"
  by (simp add: ENC_PREFIX_def)

text \<open>a secret that was encrypted at rest is read back unchanged, under the same configuration and, after the
  key was replaced, under one that has the new key and keeps the old one as the previous key.\<close>

theorem secret_at_rest_roundtrip:
  assumes "cipher_ok C" and "p \<noteq> []" and "\<not> startsWith p ENC_PREFIX"
    and "encryptWebhookSecret C env iv p = Inr v"
  shows "decryptWebhookSecret C env v = Inr p \<and>
    (getKey env \<noteq> Inr None \<longrightarrow> key_format new \<longrightarrow>
       decryptWebhookSecret C (env\<lparr>enc_key := Some new, old_key := enc_key env\<rparr>) v = Inr p)"
proof -
  have C: "open_sealed C k (seal C k iv p) = Some p" "length (seal C k iv p) = 12 + length p + 16"
    "k \<noteq> k' \<Longrightarrow> open_sealed C k' (seal C k iv p) = None" "unb64url C (b64url C b) = b" for k k' b
    using assms(1) by (auto simp: cipher_ok_def)
  have len: "\<not> length (seal C k iv p) < 12 + 1 + 16" for k using C(2) assms(2) by (cases p) auto
  consider (plain) "getKey env = Inr None" "v = p"
    | (sealed) key where "getKey env = Inr (Some key)" "v = ENC_PREFIX @ b64url C (seal C key iv p)"
    using encrypted_form [OF assms(4,2,3)] by blast
  then show ?thesis
  proof cases
    case plain
    then show ?thesis using assms(2,3) by (simp add: decryptWebhookSecret_def)
  next
    case sealed
    have own: "decryptWebhookSecret C env v = Inr p"
      unfolding decryptWebhookSecret_def using sealed drop_prefix C len by (simp add: Let_def)
    have k: "key_format (the (enc_key env))" "truthy_setting (enc_key env)" "key = toLowerCase (the (enc_key env))"
      using sealed(1) by (auto simp: getKey_def split: if_splits sum.splits)
    let ?env = "env\<lparr>enc_key := Some new, old_key := enc_key env\<rparr>"
    have "decryptWebhookSecret C ?env v = Inr p" if "key_format new"
    proof -
      have "new \<noteq> []" using that by (auto simp: key_format_def)
      then have g: "getKey ?env = Inr (Some (toLowerCase new))" using that by (simp add: getKey_def truthy_setting_def)
      moreover have "getPreviousKey ?env = Inr (Some key)" using k by (simp add: getPreviousKey_def)
      ultimately show ?thesis
        unfolding decryptWebhookSecret_def sealed(2)
        using drop_prefix C len by (cases "toLowerCase new = key") (simp_all add: Let_def)
    qed
    then show ?thesis using own by blast
  qed
qed

text \<open>A cipher for the examples: the text with its key as the tag, and numbers in decimal with dots.\<close>

definition toy_cipher :: cipher where
  "toy_cipher =
     \<lparr>seal = (\<lambda>k iv p. replicate 12 iv @ map code p @ replicate 16 (to_nat k)),
      open_sealed = (\<lambda>k b. if last b = to_nat k then Some (map char_of (drop 12 (take (length b - 16) b))) else None),
      b64url = (\<lambda>b. join ''.'' (map (nat_to_string 10) b)),
      unb64url = (\<lambda>s. if s = [] then [] else map (string_to_nat 10) (split_on (CHR ''.'') s))\<rparr>"

lemma toy_cipher_ok: "cipher_ok toy_cipher"
proof -
  have b64: "unb64url toy_cipher (b64url toy_cipher b) = b" for b
  proof (cases "b = []")
    case False
    have "split_on (CHR ''.'') (join ''.'' (map (nat_to_string 10) b)) = map (nat_to_string 10) b"
      by (rule split_on_join) (use False in \<open>auto dest!: nat_to_string_digits\<close>)
    moreover have "join ''.'' (map (nat_to_string 10) b) \<noteq> []" using False by (cases b) (auto simp: join_def)
    ultimately show ?thesis by (simp add: toy_cipher_def string_to_nat_to_string map_idI)
  qed (simp add: toy_cipher_def)
  have "last (replicate 12 iv @ map code p @ replicate 16 (to_nat k)) = to_nat k" for iv p and k :: string by simp
  then show ?thesis using b64 by (auto simp: cipher_ok_def toy_cipher_def comp_def)
qed

definition example_crypt :: crypt_env where
  "example_crypt = \<lparr>enc_key = Some (replicate 64 (CHR ''a'')), old_key = None, production = True, allow_plaintext = False\<rparr>"

theorem secret_at_rest_roundtrip_witness:
  "decryptWebhookSecret toy_cipher (example_crypt\<lparr>enc_key := Some (replicate 64 (CHR ''b'')), old_key := enc_key example_crypt\<rparr>)
     (ENC_PREFIX @ b64url toy_cipher (seal toy_cipher (toLowerCase (replicate 64 (CHR ''a''))) 0 ''pw'')) = Inr ''pw''"
proof -
  have kf: "key_format (replicate 64 c)" if "is_hex c" for c using that by (simp add: key_format_def list_all_iff)
  have "is_hex (CHR ''a'')" "is_hex (CHR ''b'')" by (simp_all add: is_hex_def is_digit_def)
  then have g: "getKey example_crypt = Inr (Some (toLowerCase (replicate 64 (CHR ''a''))))" "key_format (replicate 64 (CHR ''b''))"
    using kf by (simp_all add: getKey_def example_crypt_def truthy_setting_def)
  then have "encryptWebhookSecret toy_cipher example_crypt 0 ''pw'' =
      Inr (ENC_PREFIX @ b64url toy_cipher (seal toy_cipher (toLowerCase (replicate 64 (CHR ''a''))) 0 ''pw''))"
    by (simp add: encryptWebhookSecret_def ENC_PREFIX_def)
  then show ?thesis
    using secret_at_rest_roundtrip [OF toy_cipher_ok, of "''pw''" example_crypt 0 _ "replicate 64 (CHR ''b'')"] g
    by (simp add: ENC_PREFIX_def)
qed

subsection \<open>Strength of supplied secrets\<close>

text \<open>
  The estimate is the empirical entropy of the characters times the length; logarithms are those of the real
  numbers, the rounding of \<^verbatim>\<open>Math.log2\<close> and of the sums is left out.
\<close>

definition MIN_SECRET_LENGTH :: nat where "MIN_SECRET_LENGTH = 32"
definition MAX_SECRET_LENGTH :: nat where "MAX_SECRET_LENGTH = 512"
definition MIN_SECRET_ENTROPY_BITS :: real where "MIN_SECRET_ENTROPY_BITS = 128"

definition frequency :: "string \<Rightarrow> char \<Rightarrow> real" where
  "frequency s c = real (count_list s c) / real (length s)"

definition estimateEntropyBits :: "string \<Rightarrow> real" where
  "estimateEntropyBits s =
     (if s = [] then 0 else (\<Sum>c \<in> set s. - (frequency s c * log 2 (frequency s c))) * real (length s))"

datatype secret_error = TOO_SHORT | TOO_LONG | HAS_WHITESPACE | TOO_PREDICTABLE

definition validateWebhookSecretStrength :: "string \<Rightarrow> secret_error option" where
  "validateWebhookSecretStrength s =
     (if length s < MIN_SECRET_LENGTH then Some TOO_SHORT
      else if MAX_SECRET_LENGTH < length s then Some TOO_LONG
      else if list_ex is_space s then Some HAS_WHITESPACE
      else if estimateEntropyBits s < MIN_SECRET_ENTROPY_BITS then Some TOO_PREDICTABLE
      else None)"

lemma distinct_count_list: "distinct xs \<Longrightarrow> x \<in> set xs \<Longrightarrow> count_list xs x = 1"
  by (induction xs) auto

lemma frequency_pos: "c \<in> set s \<Longrightarrow> 0 < frequency s c"
  by (cases s) (auto simp: frequency_def count_list_0_iff intro!: divide_pos_pos gr0I)

lemma frequency_sum: "s \<noteq> [] \<Longrightarrow> (\<Sum>c \<in> set s. frequency s c) = 1"
  by (simp add: frequency_def sum_divide_distrib [symmetric] sum_count_set flip: of_nat_sum)

lemma weighted_ln:
  fixes n p :: real
  assumes "0 < n" and "0 < p"
  shows "p * ln (1 / (n * p)) = - (p * ln n) - p * ln p" and "p * (1 / (n * p) - 1) = 1 / n - p"
  using assms by (simp_all add: ln_div ln_mult algebra_simps)

text \<open>The entropy of characters out of an alphabet of n is below its logarithm, unless all n are equally frequent.\<close>

lemma entropy_gap:
  assumes "s \<noteq> []" and "set s \<subseteq> A" and "finite A" and "c \<in> set s" and "real (card A) * frequency s c \<noteq> 1"
  shows "(\<Sum>c \<in> set s. - (frequency s c * ln (frequency s c))) < ln (real (card A))"
proof -
  let ?n = "real (card A)" and ?p = "frequency s"
  have A: "0 < card A" using assms(2-4) by (metis card_gt_0_iff empty_iff subsetD)
  have n: "0 < ?n" using A by simp
  have term_le: "- (?p d * ln (?p d)) \<le> ?p d * ln ?n + (1 / ?n - ?p d)" if "d \<in> set s" for d
  proof -
    have p: "0 < ?p d" using that by (rule frequency_pos)
    then have "ln (1 / (?n * ?p d)) \<le> 1 / (?n * ?p d) - 1" using n by (intro ln_le_minus_one) simp
    then have "?p d * ln (1 / (?n * ?p d)) \<le> ?p d * (1 / (?n * ?p d) - 1)" using p by (intro mult_left_mono) auto
    then show ?thesis unfolding weighted_ln [OF n p] by simp
  qed
  have strict: "- (?p c * ln (?p c)) < ?p c * ln ?n + (1 / ?n - ?p c)"
  proof -
    have p: "0 < ?p c" using assms(4) by (rule frequency_pos)
    let ?x = "1 / (?n * ?p c)"
    have "ln ?x \<noteq> ?x - 1" using ln_eq_minus_one [of ?x] assms(5) p n by (auto simp: field_simps)
    then have "ln ?x < ?x - 1" using ln_le_minus_one [of ?x] p n by simp
    then have "?p c * ln ?x < ?p c * (?x - 1)" using p by simp
    then show ?thesis unfolding weighted_ln [OF n p] by simp
  qed
  have "(\<Sum>d \<in> set s. - (?p d * ln (?p d))) < (\<Sum>d \<in> set s. ?p d * ln ?n + (1 / ?n - ?p d))"
    using assms(4) strict term_le by (intro sum_strict_mono_ex1) auto
  also have "\<dots> = ln ?n + (real (card (set s)) / ?n - 1)"
    using frequency_sum [OF assms(1)] by (simp add: sum.distrib sum_subtractf flip: sum_distrib_right)
  also have "\<dots> \<le> ln ?n" using card_mono [OF assms(3,2)] n by (simp add: field_simps)
  finally show ?thesis .
qed


text \<open>a secret of the minimal length of 32 that uses sixteen characters, such as a hexadecimal one, is accepted
  only if each of the sixteen occurs exactly twice. A random hexadecimal secret of that length, which
  the policy says it accepts, is therefore almost always refused.\<close>

theorem short_hex_secret_needs_balance:
  assumes "validateWebhookSecretStrength s = None" and "length s = 32" and "set s \<subseteq> A" and "finite A" and "card A = 16"
    and "c \<in> A"
  shows "count_list s c = 2"
proof -
  have ne: "s \<noteq> []" using assms(2) by auto
  have "128 \<le> estimateEntropyBits s"
    using assms(1,2) by (auto simp: validateWebhookSecretStrength_def MIN_SECRET_ENTROPY_BITS_def split: if_splits)
  then have "4 * ln 2 \<le> (\<Sum>c \<in> set s. - (frequency s c * log 2 (frequency s c))) * ln 2"
    using ne assms(2) by (intro mult_right_mono) (simp_all add: estimateEntropyBits_def)
  also have "\<dots> = (\<Sum>c \<in> set s. - (frequency s c * ln (frequency s c)))"
    by (simp add: sum_distrib_right log_def sum_negf)
  finally have big: "ln 16 \<le> (\<Sum>c \<in> set s. - (frequency s c * ln (frequency s c)))"
    using ln_realpow [of 2 4] by simp
  have two: "count_list s d = 2" if "d \<in> set s" for d
  proof (rule ccontr)
    assume "count_list s d \<noteq> 2"
    then have "real (card A) * frequency s d \<noteq> 1" using assms(2,5) by (simp add: frequency_def field_simps)
    then show False using entropy_gap [OF ne assms(3,4) that] big assms(5) by simp
  qed
  have "length s = (\<Sum>d \<in> set s. count_list s d)" by (simp add: sum_count_set)
  also have "\<dots> = 2 * card (set s)" using two by simp
  finally have "card (set s) = card A" using assms(2,5) by simp
  then have "set s = A" using assms(3,4) by (simp add: card_subset_eq)
  then show ?thesis using two assms(6) by blast
qed

definition hex_alphabet :: string where "hex_alphabet = ''0123456789abcdef''"

theorem short_hex_secret_needs_balance_witness:
  "count_list (hex_alphabet @ hex_alphabet) (CHR ''a'') = 2"
proof (rule short_hex_secret_needs_balance [where A = "set hex_alphabet"])
  have dist: "distinct hex_alphabet" and len: "length hex_alphabet = 16" by (simp_all add: hex_alphabet_def)
  have f: "frequency (hex_alphabet @ hex_alphabet) c = 1 / 16" if "c \<in> set hex_alphabet" for c
    using that dist len by (simp add: frequency_def count_list_append distinct_count_list)
  show card: "card (set hex_alphabet) = 16" using distinct_card [OF dist] len by simp
  have "log 2 (1 / 16) = (- 4 :: real)" using log_pow_cancel [of 2 4] by (simp add: log_divide)
  then have "(\<Sum>c \<in> set (hex_alphabet @ hex_alphabet). - (frequency (hex_alphabet @ hex_alphabet) c *
      log 2 (frequency (hex_alphabet @ hex_alphabet) c))) = 4"
    using card by (simp add: f)
  then have "estimateEntropyBits (hex_alphabet @ hex_alphabet) = 128"
    unfolding estimateEntropyBits_def using len by auto
  then show "validateWebhookSecretStrength (hex_alphabet @ hex_alphabet) = None"
    using len by (simp add: validateWebhookSecretStrength_def MIN_SECRET_LENGTH_def MAX_SECRET_LENGTH_def MIN_SECRET_ENTROPY_BITS_def)
      (simp add: hex_alphabet_def is_space_def)
qed (simp_all add: hex_alphabet_def)

subsection \<open>Endpoints of a school\<close>

definition WEBHOOK_EVENTS :: "string list" where
  "WEBHOOK_EVENTS =
     [''payment.confirmed'', ''payment.pending'', ''payment.failed'', ''payment.suspicious'', ''payment.refunded'',
      ''payment.refund_rejected'', ''dispute.created'', ''dispute.under_review'', ''dispute.resolved'', ''dispute.reopened'',
      ''dispute.sla_breached'', ''refund.initiated'', ''refund.completed'']"

definition LEGACY_SCHOOL_EVENTS :: "string list" where
  "LEGACY_SCHOOL_EVENTS =
     [''payment.confirmed'', ''payment.refunded'', ''dispute.created'', ''dispute.under_review'', ''dispute.resolved'', ''dispute.reopened'']"

definition SIGNATURE_VERSIONS :: "string list" where "SIGNATURE_VERSIONS = [''v1'', ''v2'']"
definition DEFAULT_SIGNATURE_VERSIONS :: "string list" where "DEFAULT_SIGNATURE_VERSIONS = [''v2'']"

datatype version_error = NO_VERSIONS | UNKNOWN_VERSIONS "string list" | V2_MISSING

definition validateSignatureVersions :: "string list \<Rightarrow> version_error option" where
  "validateSignatureVersions versions =
     (if length versions = 0 then Some NO_VERSIONS
      else let invalid = filter (\<lambda>v. v \<notin> set SIGNATURE_VERSIONS) versions in
        if 0 < length invalid then Some (UNKNOWN_VERSIONS invalid)
        else if ''v2'' \<notin> set versions then Some V2_MISSING
        else None)"

definition in_order :: "string list \<Rightarrow> string list" where
  "in_order xs = rev (remdups (rev xs))"

text \<open>The collection, and the audit log with the school, the action and the endpoint of each entry.\<close>

record hook_db =
  db_endpoints :: "hook_endpoint list"
  db_audit :: "(string \<times> string \<times> nat) list"

datatype endpoint_error =
    MISSING_SCHOOL_ID | STEP_UP_REQUIRED | URL_REQUIRED | EVENTS_REQUIRED | UNKNOWN_EVENTS "string list"
  | WEAK_WEBHOOK_SECRET secret_error | BAD_VERSIONS version_error | INVALID_WEBHOOK_URL | BAD_OVERLAP | ENDPOINT_NOT_FOUND

text \<open>What a reply shows of an endpoint: everything but the secrets.\<close>

record shown_endpoint =
  sh_id :: nat
  sh_schoolId :: string
  sh_url :: string
  sh_versions :: "string list option"
  sh_sequence :: nat
  sh_events :: "string list"
  sh_active :: bool

definition toJSON :: "hook_endpoint \<Rightarrow> shown_endpoint" where
  "toJSON e = \<lparr>sh_id = ep_id e, sh_schoolId = ep_schoolId e, sh_url = ep_url e, sh_versions = ep_versions e,
     sh_sequence = ep_sequence e, sh_events = ep_events e, sh_active = ep_active e\<rparr>"

text \<open>
  A request: the school of the caller, whether the step-up confirmation succeeds, the verdict on the URL, the
  new identifier and secret that the server would draw, and the body; absent fields are \<open>None\<close>.
\<close>

record endpoint_body =
  eb_url :: "string option"
  eb_secret :: "string option"
  eb_events :: "string list option"
  eb_active :: "bool option"
  eb_versions :: "string list option"
  eb_overlap :: "int option option"

record endpoint_ctx =
  cx_school :: string
  cx_stepUp :: bool
  cx_url :: url_check
  cx_id :: nat
  cx_secret :: string
  cx_strength :: "string \<Rightarrow> secret_error option"
  cx_overlap_default :: int
  cx_now :: millis

datatype endpoint_reply =
    Rejected endpoint_error
  | Created shown_endpoint string
  | Shown shown_endpoint
  | Listed "shown_endpoint list"
  | Rotated nat string "millis option"
  | Deleted

definition audit :: "string \<Rightarrow> string \<Rightarrow> nat \<Rightarrow> hook_db \<Rightarrow> hook_db" where
  "audit school action target db = db\<lparr>db_audit := db_audit db @ [(school, action, target)]\<rparr>"

definition create_error :: "endpoint_ctx \<Rightarrow> endpoint_body \<Rightarrow> endpoint_error option" where
  "create_error cx b =
     (let events = (case eb_events b of Some e \<Rightarrow> e | None \<Rightarrow> []);
          invalidEvents = filter (\<lambda>e. e \<notin> set WEBHOOK_EVENTS) events;
          weak = (if truthy_secret (eb_secret b) then cx_strength cx (the (eb_secret b)) else None);
          badVersions = (case eb_versions b of Some v \<Rightarrow> validateSignatureVersions v | None \<Rightarrow> None)
      in if cx_school cx = [] then Some MISSING_SCHOOL_ID
         else if \<not> cx_stepUp cx then Some STEP_UP_REQUIRED
         else if eb_url b = None \<or> eb_url b = Some [] then Some URL_REQUIRED
         else if length events = 0 then Some EVENTS_REQUIRED
         else if 0 < length invalidEvents then Some (UNKNOWN_EVENTS invalidEvents)
         else if weak \<noteq> None then Some (WEAK_WEBHOOK_SECRET (the weak))
         else if badVersions \<noteq> None then Some (BAD_VERSIONS (the badVersions))
         else if cx_url cx = InvalidUrl then Some INVALID_WEBHOOK_URL
         else None)"

definition new_endpoint :: "endpoint_ctx \<Rightarrow> endpoint_body \<Rightarrow> hook_endpoint" where
  "new_endpoint cx b =
     \<lparr>ep_secret = Some (if truthy_secret (eb_secret b) then the (eb_secret b) else cx_secret cx),
      ep_previousSecret = None, ep_previousExpiresAt = None, ep_rotatedAt = None,
      ep_id = cx_id cx, ep_schoolId = cx_school cx, ep_url = the (eb_url b),
      ep_versions = Some (case eb_versions b of Some v \<Rightarrow> in_order v | None \<Rightarrow> DEFAULT_SIGNATURE_VERSIONS),
      ep_sequence = 0, ep_events = (case eb_events b of Some e \<Rightarrow> e | None \<Rightarrow> []),
      ep_active = (case eb_active b of Some a \<Rightarrow> a | None \<Rightarrow> True)\<rparr>"

definition createEndpoint :: "endpoint_ctx \<Rightarrow> endpoint_body \<Rightarrow> hook_db \<Rightarrow> hook_db \<times> endpoint_reply" where
  "createEndpoint cx b db =
     (case create_error cx b of
        Some e \<Rightarrow> (db, Rejected e)
      | None \<Rightarrow>
          let ep = new_endpoint cx b in
          (audit (cx_school cx) ''webhook_endpoint_created'' (ep_id ep) (db\<lparr>db_endpoints := db_endpoints db @ [ep]\<rparr>),
           Created (toJSON ep) (the (ep_secret ep))))"

definition own_endpoint :: "string \<Rightarrow> nat \<Rightarrow> hook_db \<Rightarrow> hook_endpoint option" where
  "own_endpoint school i db = find (\<lambda>e. ep_id e = i \<and> ep_schoolId e = school) (db_endpoints db)"

definition save_endpoint :: "hook_endpoint \<Rightarrow> hook_db \<Rightarrow> hook_db" where
  "save_endpoint ep db = db\<lparr>db_endpoints := map (\<lambda>e. if ep_id e = ep_id ep then ep else e) (db_endpoints db)\<rparr>"

definition listEndpoints :: "endpoint_ctx \<Rightarrow> hook_db \<Rightarrow> hook_db \<times> endpoint_reply" where
  "listEndpoints cx db =
     (if cx_school cx = [] then (db, Rejected MISSING_SCHOOL_ID)
      else (db, Listed (map toJSON (rev (filter (\<lambda>e. ep_schoolId e = cx_school cx) (db_endpoints db))))))"

definition getEndpoint :: "endpoint_ctx \<Rightarrow> nat \<Rightarrow> hook_db \<Rightarrow> hook_db \<times> endpoint_reply" where
  "getEndpoint cx i db =
     (case own_endpoint (cx_school cx) i db of
        None \<Rightarrow> (db, Rejected ENDPOINT_NOT_FOUND)
      | Some e \<Rightarrow> (db, Shown (toJSON e)))"

text \<open>The changes of an update, in the order of the code; the first error ends it and nothing is saved.\<close>

definition update_url :: "endpoint_ctx \<Rightarrow> endpoint_body \<Rightarrow> hook_endpoint \<Rightarrow> (endpoint_error, hook_endpoint) result" where
  "update_url cx b ep =
     (case eb_url b of
        None \<Rightarrow> Inr ep
      | Some u \<Rightarrow>
          if u \<noteq> ep_url ep \<and> \<not> cx_stepUp cx then Inl STEP_UP_REQUIRED
          else if cx_url cx = InvalidUrl then Inl INVALID_WEBHOOK_URL
          else Inr (ep\<lparr>ep_url := u\<rparr>))"

definition update_secret :: "endpoint_ctx \<Rightarrow> endpoint_body \<Rightarrow> hook_endpoint \<Rightarrow> (endpoint_error, hook_endpoint) result" where
  "update_secret cx b ep =
     (case eb_secret b of
        None \<Rightarrow> Inr ep
      | Some sec \<Rightarrow>
          (case cx_strength cx sec of
             Some e \<Rightarrow> Inl (WEAK_WEBHOOK_SECRET e)
           | None \<Rightarrow>
               (case parseOverlapSeconds (cx_overlap_default cx) (eb_overlap b) of
                  Inl _ \<Rightarrow> Inl BAD_OVERLAP
                | Inr n \<Rightarrow> Inr (applySecretRotation sec n (cx_now cx) ep))))"

definition update_versions :: "endpoint_body \<Rightarrow> hook_endpoint \<Rightarrow> (endpoint_error, hook_endpoint) result" where
  "update_versions b ep =
     (case eb_versions b of
        None \<Rightarrow> Inr ep
      | Some v \<Rightarrow> (case validateSignatureVersions v of
                     Some e \<Rightarrow> Inl (BAD_VERSIONS e)
                   | None \<Rightarrow> Inr (ep\<lparr>ep_versions := Some (in_order v)\<rparr>)))"

definition update_events :: "endpoint_body \<Rightarrow> hook_endpoint \<Rightarrow> (endpoint_error, hook_endpoint) result" where
  "update_events b ep =
     (case eb_events b of
        None \<Rightarrow> Inr ep
      | Some evs \<Rightarrow>
          let invalid = filter (\<lambda>e. e \<notin> set WEBHOOK_EVENTS) evs in
          if length evs = 0 then Inl EVENTS_REQUIRED
          else if 0 < length invalid then Inl (UNKNOWN_EVENTS invalid)
          else Inr (ep\<lparr>ep_events := evs\<rparr>))"

definition update_rest :: "endpoint_body \<Rightarrow> hook_endpoint \<Rightarrow> (endpoint_error, hook_endpoint) result" where
  "update_rest b ep =
     (case update_versions b ep of
        Inl e \<Rightarrow> Inl e
      | Inr ep \<Rightarrow>
          (case update_events b ep of
             Inl e \<Rightarrow> Inl e
           | Inr ep \<Rightarrow> Inr (case eb_active b of Some a \<Rightarrow> ep\<lparr>ep_active := a\<rparr> | None \<Rightarrow> ep)))"

definition updateEndpoint :: "endpoint_ctx \<Rightarrow> nat \<Rightarrow> endpoint_body \<Rightarrow> hook_db \<Rightarrow> hook_db \<times> endpoint_reply" where
  "updateEndpoint cx i b db =
     (case own_endpoint (cx_school cx) i db of
        None \<Rightarrow> (db, Rejected ENDPOINT_NOT_FOUND)
      | Some ep \<Rightarrow>
          (case update_url cx b ep of
             Inl e \<Rightarrow> (db, Rejected e)
           | Inr ep \<Rightarrow>
               (case update_secret cx b ep of
                  Inl e \<Rightarrow> (db, Rejected e)
                | Inr ep \<Rightarrow>
                    (case update_rest b ep of
                       Inl e \<Rightarrow> (db, Rejected e)
                     | Inr ep \<Rightarrow>
                         (audit (cx_school cx) ''webhook_endpoint_updated'' (ep_id ep) (save_endpoint ep db),
                          Shown (toJSON ep))))))"

definition rotateSecret :: "endpoint_ctx \<Rightarrow> nat \<Rightarrow> endpoint_body \<Rightarrow> hook_db \<Rightarrow> hook_db \<times> endpoint_reply" where
  "rotateSecret cx i b db =
     (case own_endpoint (cx_school cx) i db of
        None \<Rightarrow> (db, Rejected ENDPOINT_NOT_FOUND)
      | Some ep \<Rightarrow>
          (case parseOverlapSeconds (cx_overlap_default cx) (eb_overlap b) of
             Inl _ \<Rightarrow> (db, Rejected BAD_OVERLAP)
           | Inr n \<Rightarrow>
               let ep = applySecretRotation (cx_secret cx) n (cx_now cx) ep in
               (audit (cx_school cx) ''webhook_endpoint_secret_rotated'' (ep_id ep) (save_endpoint ep db),
                Rotated (ep_id ep) (cx_secret cx) (ep_previousExpiresAt ep))))"

definition deleteEndpoint :: "endpoint_ctx \<Rightarrow> nat \<Rightarrow> hook_db \<Rightarrow> hook_db \<times> endpoint_reply" where
  "deleteEndpoint cx i db =
     (case own_endpoint (cx_school cx) i db of
        None \<Rightarrow> (db, Rejected ENDPOINT_NOT_FOUND)
      | Some ep \<Rightarrow>
          (audit (cx_school cx) ''webhook_endpoint_deleted'' (ep_id ep)
             (db\<lparr>db_endpoints := filter (\<lambda>e. ep_id e \<noteq> ep_id ep) (db_endpoints db)\<rparr>), Deleted))"

datatype endpoint_req =
    CreateReq endpoint_ctx endpoint_body | ListReq endpoint_ctx | GetReq endpoint_ctx nat
  | UpdateReq endpoint_ctx nat endpoint_body | RotateReq endpoint_ctx nat endpoint_body | DeleteReq endpoint_ctx nat

fun endpoint_req_step :: "endpoint_req \<Rightarrow> hook_db \<Rightarrow> hook_db \<times> endpoint_reply" where
  "endpoint_req_step (CreateReq cx b) db = createEndpoint cx b db"
| "endpoint_req_step (ListReq cx) db = listEndpoints cx db"
| "endpoint_req_step (GetReq cx i) db = getEndpoint cx i db"
| "endpoint_req_step (UpdateReq cx i b) db = updateEndpoint cx i b db"
| "endpoint_req_step (RotateReq cx i b) db = rotateSecret cx i b db"
| "endpoint_req_step (DeleteReq cx i) db = deleteEndpoint cx i db"


subsection \<open>Schools do not see each other's endpoints\<close>

text \<open>
  Identifiers are unique over all schools: \<open>owner\<close> says which school an identifier was drawn for.
\<close>

definition owned :: "(nat \<Rightarrow> string) \<Rightarrow> hook_db \<Rightarrow> bool" where
  "owned owner db \<longleftrightarrow> list_all (\<lambda>e. owner (ep_id e) = ep_schoolId e) (db_endpoints db)"

fun fresh_for :: "(nat \<Rightarrow> string) \<Rightarrow> endpoint_req \<Rightarrow> bool" where
  "fresh_for owner (CreateReq cx b) \<longleftrightarrow> owner (cx_id cx) = cx_school cx"
| "fresh_for owner _ \<longleftrightarrow> True"

fun req_ctx :: "endpoint_req \<Rightarrow> endpoint_ctx" where
  "req_ctx (CreateReq cx b) = cx" | "req_ctx (ListReq cx) = cx" | "req_ctx (GetReq cx i) = cx"
| "req_ctx (UpdateReq cx i b) = cx" | "req_ctx (RotateReq cx i b) = cx" | "req_ctx (DeleteReq cx i) = cx"

definition caller :: "endpoint_req \<Rightarrow> string" where "caller q = cx_school (req_ctx q)"

definition school_view :: "hook_db \<Rightarrow> string \<Rightarrow> hook_endpoint list \<times> (string \<times> string \<times> nat) list" where
  "school_view db k = (filter (\<lambda>e. ep_schoolId e = k) (db_endpoints db), filter (\<lambda>a. fst a = k) (db_audit db))"

lemma own_endpoint_view: "own_endpoint k i db = find (\<lambda>e. ep_id e = i) (fst (school_view db k))"
proof -
  have "find (\<lambda>e. ep_id e = i \<and> ep_schoolId e = k) eps = find (\<lambda>e. ep_id e = i) (filter (\<lambda>e. ep_schoolId e = k) eps)" for eps
    by (induction eps) auto
  then show ?thesis by (simp add: own_endpoint_def school_view_def)
qed

lemma own_endpoint_D: "own_endpoint k i db = Some ep \<Longrightarrow> ep_id ep = i \<and> ep_schoolId ep = k \<and> ep \<in> set (db_endpoints db)"
  by (auto simp: own_endpoint_def dest: find_Some_D)

lemma view_audit:
  "school_view (audit school act i db) k =
     (fst (school_view db k), snd (school_view db k) @ (if school = k then [(school, act, i)] else []))"
  by (simp add: school_view_def audit_def)

lemma view_save:
  assumes "owned owner db" and "ep_schoolId ep = owner (ep_id ep)"
  shows "school_view (save_endpoint ep db) k =
    (map (\<lambda>e. if ep_id e = ep_id ep then ep else e) (fst (school_view db k)), snd (school_view db k))"
proof -
  have "filter (\<lambda>e. ep_schoolId e = k) (map (\<lambda>e. if ep_id e = ep_id ep then ep else e) eps) =
      map (\<lambda>e. if ep_id e = ep_id ep then ep else e) (filter (\<lambda>e. ep_schoolId e = k) eps)"
    if "list_all (\<lambda>e. owner (ep_id e) = ep_schoolId e) eps" for eps
    using that assms(2) by (induction eps) auto
  then show ?thesis using assms(1) by (simp add: school_view_def save_endpoint_def owned_def)
qed

lemma save_other:
  assumes "owned owner db" and "ep_schoolId ep = owner (ep_id ep)" and "ep_schoolId ep \<noteq> k"
  shows "school_view (save_endpoint ep db) k = school_view db k"
proof -
  have "map (\<lambda>e. if ep_id e = ep_id ep then ep else e) (fst (school_view db k)) = fst (school_view db k)"
    using assms by (intro map_idI) (auto simp: school_view_def owned_def list_all_iff)
  then show ?thesis by (simp add: view_save [OF assms(1,2)])
qed

lemma owned_save: "owned owner db \<Longrightarrow> ep_schoolId ep = owner (ep_id ep) \<Longrightarrow> owned owner (save_endpoint ep db)"
  by (auto simp: owned_def save_endpoint_def list_all_iff)

lemma owned_audit [simp]: "owned owner (audit a b c db) = owned owner db"
  by (simp add: owned_def audit_def)

lemma view_delete:
  "school_view (db\<lparr>db_endpoints := filter P (db_endpoints db)\<rparr>) k = (filter P (fst (school_view db k)), snd (school_view db k))"
  by (simp add: school_view_def conj_commute)

text \<open>An update or rotation keeps identifier and school.\<close>

lemma rotation_keeps [simp]:
  "ep_id (applySecretRotation s n now ep) = ep_id ep" "ep_schoolId (applySecretRotation s n now ep) = ep_schoolId ep"
  by (simp_all add: applySecretRotation_def Let_def)

lemma updates_keep:
  "update_url cx b ep = Inr ep' \<Longrightarrow> ep_id ep' = ep_id ep \<and> ep_schoolId ep' = ep_schoolId ep"
  "update_secret cx b ep = Inr ep' \<Longrightarrow> ep_id ep' = ep_id ep \<and> ep_schoolId ep' = ep_schoolId ep"
  "update_rest b ep = Inr ep' \<Longrightarrow> ep_id ep' = ep_id ep \<and> ep_schoolId ep' = ep_schoolId ep"
  by (auto simp: update_url_def update_secret_def update_rest_def update_versions_def update_events_def Let_def
      split: option.splits if_splits sum.splits)

definition updated :: "endpoint_ctx \<Rightarrow> endpoint_body \<Rightarrow> hook_endpoint \<Rightarrow> (endpoint_error, hook_endpoint) result" where
  "updated cx b ep =
     (case update_url cx b ep of Inl e \<Rightarrow> Inl e
      | Inr ep \<Rightarrow> (case update_secret cx b ep of Inl e \<Rightarrow> Inl e | Inr ep \<Rightarrow> update_rest b ep))"

lemma updated_keeps: "updated cx b ep = Inr ep' \<Longrightarrow> ep_id ep' = ep_id ep \<and> ep_schoolId ep' = ep_schoolId ep"
  by (auto simp: updated_def split: sum.splits dest!: updates_keep)

lemma updateEndpoint_alt:
  "updateEndpoint cx i b db =
     (case own_endpoint (cx_school cx) i db of
        None \<Rightarrow> (db, Rejected ENDPOINT_NOT_FOUND)
      | Some ep \<Rightarrow> (case updated cx b ep of
                      Inl e \<Rightarrow> (db, Rejected e)
                    | Inr ep \<Rightarrow> (audit (cx_school cx) ''webhook_endpoint_updated'' (ep_id ep) (save_endpoint ep db), Shown (toJSON ep))))"
  by (simp add: updateEndpoint_def updated_def split: option.split sum.split)

lemma new_endpoint_owner [simp]: "ep_id (new_endpoint cx b) = cx_id cx" "ep_schoolId (new_endpoint cx b) = cx_school cx"
  by (simp_all add: new_endpoint_def)

interpretation hook_schools: isolated endpoint_req_step caller school_view "owned owner" "fresh_for owner" for owner
proof
  fix s :: hook_db and x assume inv: "owned owner s" and ok: "fresh_for owner x"
  have own: "ep_schoolId ep = owner (ep_id ep)" if "own_endpoint k i s = Some ep" for k i ep
    using own_endpoint_D [OF that] inv by (auto simp: owned_def list_all_iff)
  show "owned owner (fst (endpoint_req_step x s))"
  proof (cases x)
    case (CreateReq cx b)
    then show ?thesis
      using inv ok by (auto simp: createEndpoint_def Let_def owned_def audit_def split: option.splits)
  next
    case (UpdateReq cx i b)
    then show ?thesis
      using inv own by (auto simp: updateEndpoint_alt split: option.splits sum.splits intro!: owned_save dest!: updated_keeps)
  next
    case (RotateReq cx i b)
    then show ?thesis
      using inv own by (auto simp: rotateSecret_def Let_def split: option.splits sum.splits intro!: owned_save)
  next
    case (DeleteReq cx i)
    then show ?thesis
      using inv by (auto simp: deleteEndpoint_def owned_def audit_def list_all_iff split: option.splits)
  qed (use inv in \<open>auto simp: listEndpoints_def getEndpoint_def split: option.splits\<close>)
  fix k assume k: "caller x \<noteq> k"
  show "school_view (fst (endpoint_req_step x s)) k = school_view s k"
  proof (cases x)
    case (CreateReq cx b)
    then show ?thesis
      using k by (auto simp: createEndpoint_def Let_def caller_def school_view_def audit_def split: option.splits)
  next
    case (UpdateReq cx i b)
    have *: "school_view (save_endpoint ep' s) k = school_view s k"
      if "own_endpoint (cx_school cx) i s = Some ep" "updated cx b ep = Inr ep'" for ep ep'
      using updated_keeps [OF that(2)] own_endpoint_D [OF that(1)] own [OF that(1)] k UpdateReq
      by (intro save_other [OF inv]) (auto simp: caller_def)
    show ?thesis
      using UpdateReq k * by (auto simp: updateEndpoint_alt caller_def view_audit split: option.splits sum.splits)
  next
    case (RotateReq cx i b)
    have *: "school_view (save_endpoint (applySecretRotation sec n now ep) s) k = school_view s k"
      if "own_endpoint (cx_school cx) i s = Some ep" for ep sec n now
      using own_endpoint_D [OF that] own [OF that] k RotateReq by (intro save_other [OF inv]) (auto simp: caller_def)
    show ?thesis
      using RotateReq k * by (auto simp: rotateSecret_def caller_def view_audit Let_def split: option.splits sum.splits)
  next
    case (DeleteReq cx i)
    have "filter (\<lambda>e. ep_id e \<noteq> ep_id ep) (fst (school_view s k)) = fst (school_view s k)"
      if "own_endpoint (cx_school cx) i s = Some ep" for ep
      using own_endpoint_D [OF that] own [OF that] k DeleteReq inv
      by (intro filter_True) (auto simp: school_view_def owned_def list_all_iff caller_def)
    then show ?thesis
      using DeleteReq k by (auto simp: deleteEndpoint_def caller_def view_audit view_delete split: option.splits)
  qed (auto simp: listEndpoints_def getEndpoint_def split: option.splits)
next
  fix s s' :: hook_db and x
  assume inv: "owned owner s" "owned owner s'" and ok: "fresh_for owner x" and v: "school_view s (caller x) = school_view s' (caller x)"
  have own: "own_endpoint (cx_school (req_ctx x)) i s = own_endpoint (cx_school (req_ctx x)) i s'" for i
    using v by (simp add: own_endpoint_view caller_def)
  have o: "ep_schoolId ep = owner (ep_id ep)" if "own_endpoint k i s' = Some ep" for k i ep
    using own_endpoint_D [OF that] inv(2) by (auto simp: owned_def list_all_iff)
  show "school_view (fst (endpoint_req_step x s)) (caller x) = school_view (fst (endpoint_req_step x s')) (caller x)
      \<and> snd (endpoint_req_step x s) = snd (endpoint_req_step x s')"
  proof (cases x)
    case (CreateReq cx b)
    then show ?thesis
      using v by (auto simp: createEndpoint_def Let_def caller_def school_view_def audit_def split: option.splits)
  next
    case (ListReq cx)
    then show ?thesis using v by (auto simp: listEndpoints_def caller_def school_view_def)
  next
    case (GetReq cx i)
    then show ?thesis using v own by (auto simp: getEndpoint_def split: option.splits)
  next
    case (UpdateReq cx i b)
    have *: "school_view (save_endpoint ep' s) (caller x) = school_view (save_endpoint ep' s') (caller x)"
      if "own_endpoint (cx_school cx) i s' = Some ep" "updated cx b ep = Inr ep'" for ep ep'
      using updated_keeps [OF that(2)] o [OF that(1)] v by (simp add: view_save [OF inv(1)] view_save [OF inv(2)])
    show ?thesis
      using UpdateReq v own * by (auto simp: updateEndpoint_alt view_audit split: option.splits sum.splits)
  next
    case (RotateReq cx i b)
    have *: "school_view (save_endpoint (applySecretRotation sec n now ep) s) (caller x)
        = school_view (save_endpoint (applySecretRotation sec n now ep) s') (caller x)"
      if "own_endpoint (cx_school cx) i s' = Some ep" for ep sec n now
      using o [OF that] v by (simp add: view_save [OF inv(1)] view_save [OF inv(2)])
    show ?thesis
      using RotateReq v own * by (auto simp: rotateSecret_def view_audit Let_def split: option.splits sum.splits)
  next
    case (DeleteReq cx i)
    then show ?thesis
      using v own by (auto simp: deleteEndpoint_def view_audit view_delete split: option.splits)
  qed
qed

text \<open>C22: over any requests of any schools to register, list, change, rotate and delete endpoints, what a school
  has stored at the end, what is logged of it, and every reply it gets are as if the other schools had
  sent nothing.\<close>

theorem endpoints_isolated:
  assumes "owned owner db" and "list_all (fresh_for owner) reqs"
  shows "school_view (fst (trace endpoint_req_step reqs db)) k
      = school_view (fst (trace endpoint_req_step (filter (\<lambda>q. caller q = k) reqs) db)) k \<and>
    map snd (filter (\<lambda>(q, r). caller q = k) (zip reqs (snd (trace endpoint_req_step reqs db))))
      = snd (trace endpoint_req_step (filter (\<lambda>q. caller q = k) reqs) db)"
  using hook_schools.trace_isolated [of db k db owner reqs] assms by simp


definition example_ctx :: "string \<Rightarrow> nat \<Rightarrow> endpoint_ctx" where
  "example_ctx school i = \<lparr>cx_school = school, cx_stepUp = True, cx_url = ValidUrl [], cx_id = i, cx_secret = ''generated'',
     cx_strength = (\<lambda>_. None), cx_overlap_default = 86400, cx_now = 0\<rparr>"

definition example_hook_body :: endpoint_body where
  "example_hook_body = \<lparr>eb_url = Some ''https://a'', eb_secret = None, eb_events = Some [''payment.confirmed''], eb_active = None,
     eb_versions = None, eb_overlap = None\<rparr>"

definition example_reqs :: "endpoint_req list" where
  "example_reqs = [CreateReq (example_ctx ''a'' 2) example_hook_body, CreateReq (example_ctx ''b'' 3) example_hook_body,
     DeleteReq (example_ctx ''a'' 0) 3, ListReq (example_ctx ''b'' 0)]"

theorem endpoints_isolated_witness:
  "school_view (fst (trace endpoint_req_step example_reqs \<lparr>db_endpoints = [], db_audit = []\<rparr>)) ''b''
     = school_view (fst (trace endpoint_req_step (filter (\<lambda>q. caller q = ''b'') example_reqs) \<lparr>db_endpoints = [], db_audit = []\<rparr>)) ''b'' \<and>
   map snd (filter (\<lambda>(q, r). caller q = ''b'') (zip example_reqs (snd (trace endpoint_req_step example_reqs \<lparr>db_endpoints = [], db_audit = []\<rparr>))))
     = snd (trace endpoint_req_step (filter (\<lambda>q. caller q = ''b'') example_reqs) \<lparr>db_endpoints = [], db_audit = []\<rparr>)"
  by (rule endpoints_isolated [where owner = "\<lambda>i. if i = 2 then ''a'' else ''b''"])
    (simp_all add: owned_def example_reqs_def example_ctx_def)

subsection \<open>Stored endpoints are well formed\<close>

definition endpoint_ok :: "hook_endpoint \<Rightarrow> bool" where
  "endpoint_ok e \<longleftrightarrow>
     ep_events e \<noteq> [] \<and> set (ep_events e) \<subseteq> set WEBHOOK_EVENTS \<and> ep_secret e \<noteq> None \<and>
     (case ep_versions e of Some v \<Rightarrow> distinct v \<and> ''v2'' \<in> set v \<and> set v \<subseteq> set SIGNATURE_VERSIONS | None \<Rightarrow> False) \<and>
     (ep_previousSecret e = None \<longleftrightarrow> ep_previousExpiresAt e = None)"

lemma versions_ok:
  "validateSignatureVersions v = None \<Longrightarrow> ''v2'' \<in> set (in_order v) \<and> set (in_order v) \<subseteq> set SIGNATURE_VERSIONS \<and> distinct (in_order v)"
  by (auto simp: validateSignatureVersions_def in_order_def Let_def filter_empty_conv split: if_splits)

lemma new_endpoint_ok: "create_error cx b = None \<Longrightarrow> endpoint_ok (new_endpoint cx b)"
  using versions_ok
  by (auto simp: create_error_def new_endpoint_def endpoint_ok_def Let_def filter_empty_conv DEFAULT_SIGNATURE_VERSIONS_def
      SIGNATURE_VERSIONS_def split: option.splits if_splits)

lemma rotation_ok: "endpoint_ok e \<Longrightarrow> endpoint_ok (applySecretRotation s n now e)"
  by (auto simp: endpoint_ok_def applySecretRotation_def Let_def truthy_secret_def split: option.splits)

lemma updated_ok: "updated cx b e = Inr e' \<Longrightarrow> endpoint_ok e \<Longrightarrow> endpoint_ok e'"
proof -
  assume u: "updated cx b e = Inr e'" and ok: "endpoint_ok e"
  have url: "endpoint_ok x'" if "update_url cx b x = Inr x'" "endpoint_ok x" for x x'
    using that by (auto simp: update_url_def endpoint_ok_def split: option.splits if_splits)
  have sec: "endpoint_ok x'" if "update_secret cx b x = Inr x'" "endpoint_ok x" for x x'
    using that by (auto simp: update_secret_def rotation_ok split: option.splits sum.splits)
  have vers: "endpoint_ok x'" if "update_versions b x = Inr x'" "endpoint_ok x" for x x'
    using that by (auto simp: update_versions_def endpoint_ok_def split: option.splits dest!: versions_ok)
  have evs: "endpoint_ok x'" if "update_events b x = Inr x'" "endpoint_ok x" for x x'
    using that by (auto simp: update_events_def endpoint_ok_def Let_def filter_empty_conv split: option.splits if_splits)
  have act: "endpoint_ok (x\<lparr>ep_active := a\<rparr>) = endpoint_ok x" for x a by (simp add: endpoint_ok_def)
  have rest: "endpoint_ok x'" if "update_rest b x = Inr x'" "endpoint_ok x" for x x'
    using that by (auto simp: update_rest_def act split: option.splits sum.splits dest!: vers evs)
  show ?thesis using u ok by (auto simp: updated_def split: sum.splits dest!: url sec rest)
qed

lemma endpoint_req_step_ok:
  "list_all endpoint_ok (db_endpoints db) \<Longrightarrow> list_all endpoint_ok (db_endpoints (fst (endpoint_req_step q db)))"
proof (cases q)
  case (CreateReq cx b)
  assume "list_all endpoint_ok (db_endpoints db)"
  then show ?thesis using CreateReq new_endpoint_ok by (auto simp: createEndpoint_def audit_def Let_def split: option.splits)
next
  case (UpdateReq cx i b)
  assume ok: "list_all endpoint_ok (db_endpoints db)"
  have "endpoint_ok ep'" if "own_endpoint (cx_school cx) i db = Some ep" "updated cx b ep = Inr ep'" for ep ep'
    using updated_ok [OF that(2)] own_endpoint_D [OF that(1)] ok by (auto simp: list_all_iff)
  then show ?thesis
    using UpdateReq ok by (auto simp: updateEndpoint_alt audit_def save_endpoint_def list_all_iff split: option.splits sum.splits)
next
  case (RotateReq cx i b)
  assume ok: "list_all endpoint_ok (db_endpoints db)"
  have "endpoint_ok (applySecretRotation sec n now ep)" if "own_endpoint (cx_school cx) i db = Some ep" for ep sec n now
    using own_endpoint_D [OF that] ok by (auto simp: list_all_iff rotation_ok)
  then show ?thesis
    using RotateReq ok by (auto simp: rotateSecret_def audit_def save_endpoint_def list_all_iff Let_def split: option.splits sum.splits)
qed (auto simp: listEndpoints_def getEndpoint_def deleteEndpoint_def audit_def list_all_iff split: option.splits)

text \<open>over any requests every stored endpoint subscribes to at least one known event, has a secret, receives
  the second signature version and no unknown one, and has a previous secret only with the time it expires.\<close>

theorem endpoints_well_formed:
  assumes "db_endpoints db = []"
  shows "list_all endpoint_ok (db_endpoints (fst (trace endpoint_req_step reqs db)))"
  by (rule trace_invariant [where P = "\<lambda>db. list_all endpoint_ok (db_endpoints db)"])
    (use assms endpoint_req_step_ok in auto)

theorem endpoints_well_formed_witness:
  "list_all endpoint_ok (db_endpoints (fst (trace endpoint_req_step example_reqs \<lparr>db_endpoints = [], db_audit = []\<rparr>)))"
  by (rule endpoints_well_formed) simp

subsection \<open>Dead letters\<close>

definition listDLQ :: "nat \<Rightarrow> nat \<Rightarrow> hooks \<Rightarrow> nat \<times> hook_retry list" where
  "listDLQ page per s =
     (let failed = filter (\<lambda>r. r_status r = RFailed) (retries s); p = max 1 page; l = min 100 (max 1 per)
      in (length failed, take l (drop ((p - 1) * l) failed)))"

text \<open>
  A replay that keeps the attempts of an exhausted delivery lets it exceed its limit; a replay of a delivery
  that a worker has claimed makes it pending, and a second worker claims it while the first is sending.
\<close>

lemma replay_exceeds_limit:
  assumes "find_retry d s = Some r" and "r_attempts r = r_maxAttempts r" and "r' \<in> set (retries (snd (replayWebhook now False d s)))"
    and "r_deliveryId r' = d" and "distinct (map r_deliveryId (retries s))"
  shows "r_maxAttempts (settle_retry now' r' (Some err) r') < r_attempts (settle_retry now' r' (Some err) r')"
proof -
  have r: "r \<in> set (retries s)" "r_deliveryId r = d" using assms(1) by (auto simp: find_retry_def dest: find_Some_D)
  obtain q where q: "q \<in> set (retries s)" "r' = unlease (q\<lparr>r_status := RPending, r_nextRetryAt := now, r_lastError := None\<rparr>)"
    "r_deliveryId q = d"
    using assms(1,3,4) by (auto simp: replayWebhook_def update_retry_def requeue_def unlease_def split: if_splits)
  then have "q = r" using r assms(5) by (metis distinct_map inj_onD)
  then show ?thesis using q(2) assms(2) by (simp add: settle_retry_def unlease_def)
qed

lemma replay_while_processing:
  "map_option fst (claim_retry example_hook_env 200 200
     (snd (replayWebhook 150 True ''a'' (snd (the (claim_retry example_hook_env 100 100 (example_hooks\<lparr>retries := [example_retry ''a'']\<rparr>)))))))
   = Some ((example_retry ''a'')\<lparr>r_status := RProcessing, r_nextRetryAt := 150, r_leasedAt := Some 200, r_leasedBy := Some ''w'', r_lastError := None\<rparr>)"
  by (simp add: claim_retry_def replayWebhook_def requeue_def find_retry_def update_retry_def due_def unlease_def example_retry_def
      example_hook_env_def example_hooks_def)

end
