(* ===== verification/Audit_Chain.thy ===== *)
theory Audit_Chain
  imports JS_Json "HOL-Library.List_Lexorder" "HOL-Library.Char_ord"
begin

section \<open>The audit log and its hash chain\<close>

text \<open>
  \<^verbatim>\<open>services/auditService.js\<close> over the collection of \<^verbatim>\<open>models/auditLogModel.js\<close>: the canonical
  value of an entry, its HMAC, the reservation of a sequence number, the append with its five
  attempts, the verification of the chain, the export and the health report. The HMAC under the
  service's key is the parameter \<open>hmac\<close>, the text of a number the parameter \<open>num\<close>.

  A document of the collection carries the column \<^verbatim>\<open>seq\<close> as an option, since it is not a path of the
  schema: mongoose then drops it from the update \<^verbatim>\<open>$inc\<close> and from a new document. The flag
  \<open>declared\<close> of the operations says whether the schema has the path (in the repository it has
  not), and the flag \<open>seq_index\<close> of the state whether the unique index of migration 032 exists;
  a unique index holds a missing \<^verbatim>\<open>seq\<close> as null.
\<close>

subsection \<open>Canonical values\<close>

text \<open>Own properties are enumerated with the array indices first, in numerical order.\<close>

definition is_array_index :: "string \<Rightarrow> bool" where
  "is_array_index k \<longleftrightarrow> k \<noteq> [] \<and> list_all is_digit k \<and> (k = ''0'' \<or> hd k \<noteq> CHR ''0'')
     \<and> string_to_nat 10 k < 2 ^ 32 - 1"

definition own_order :: "(string \<times> 'v) list \<Rightarrow> (string \<times> 'v) list" where
  "own_order kvs =
     sort_key (\<lambda>kv. string_to_nat 10 (fst kv)) (filter (\<lambda>kv. is_array_index (fst kv)) kvs)
     @ filter (\<lambda>kv. \<not> is_array_index (fst kv)) kvs"

fun canonicalize_value :: "jsval \<Rightarrow> jsval" where
  "canonicalize_value VNull = VNull"
| "canonicalize_value VUndef = VNull"
| "canonicalize_value (VDate t) = VObj [(''$date'', VStr (toISOString t))]"
| "canonicalize_value (VArr vs) = VArr (map canonicalize_value vs)"
| "canonicalize_value (VOid h) = VObj [(''$oid'', VStr h)]"
| "canonicalize_value (VObj kvs) =
     VObj (own_order (sort_key fst (map (\<lambda>(k, v). (k, canonicalize_value v)) kvs)))"
| "canonicalize_value v = v"

definition canonicalStringify :: "(jsnum \<Rightarrow> string) \<Rightarrow> jsval \<Rightarrow> string" where
  "canonicalStringify num v = JSON_stringify num (canonicalize_value v)"

subsection \<open>Entries\<close>

record audit_doc =
  ad_id :: nat
  ad_schoolId :: string
  ad_seq :: "int option"
  ad_action :: "string option"
  ad_performedBy :: "string option"
  ad_targetId :: "string option"
  ad_targetType :: "string option"
  ad_details :: jsval
  ad_result :: "string option"
  ad_errorMessage :: "string option"
  ad_ipAddress :: "string option"
  ad_userAgent :: "string option"
  ad_prevHash :: "string option"
  ad_entryHash :: "string option"
  ad_archived :: bool
  ad_createdAt :: millis

fun or_null :: "string option \<Rightarrow> jsval" where
  "or_null None = VNull"
| "or_null (Some s) = VStr s"

fun or_undef :: "string option \<Rightarrow> jsval" where
  "or_undef None = VUndef"
| "or_undef (Some s) = VStr s"

definition entry_value :: "audit_doc \<Rightarrow> jsval" where
  "entry_value d = VObj [
     (''schoolId'', VStr (ad_schoolId d)),
     (''action'', or_undef (ad_action d)),
     (''performedBy'', or_undef (ad_performedBy d)),
     (''targetId'', or_undef (ad_targetId d)),
     (''targetType'', or_undef (ad_targetType d)),
     (''details'', ad_details d),
     (''result'', or_undef (ad_result d)),
     (''errorMessage'', or_null (ad_errorMessage d)),
     (''ipAddress'', or_null (ad_ipAddress d)),
     (''prevHash'', or_null (ad_prevHash d)),
     (''createdAt'', VStr (toISOString (ad_createdAt d)))]"

definition computeEntryHash :: "(string \<Rightarrow> string) \<Rightarrow> (jsnum \<Rightarrow> string) \<Rightarrow> audit_doc \<Rightarrow> string" where
  "computeEntryHash hmac num d = hmac (canonicalStringify num (entry_value d))"

subsection \<open>The collection\<close>

record audit_db =
  ab_docs :: "audit_doc list"
  ab_next :: nat
  ab_seq_index :: bool
  ab_failures :: nat

datatype audit_error = DUPLICATE_KEY | VALIDATION_FAILED

datatype audit_health = Audit_ok | Audit_degraded

definition getAuditHealth :: "audit_db \<Rightarrow> audit_health \<times> nat" where
  "getAuditHealth db = (if ab_failures db = 0 then Audit_ok else Audit_degraded, ab_failures db)"

definition resetAuditFailureCount :: "audit_db \<Rightarrow> audit_db" where
  "resetAuditFailureCount db = db\<lparr>ab_failures := 0\<rparr>"

text \<open>The unique index on school and sequence number refuses a second document with the same pair.\<close>

definition seq_taken :: "audit_db \<Rightarrow> string \<Rightarrow> int option \<Rightarrow> bool" where
  "seq_taken db school n \<longleftrightarrow>
     ab_seq_index db \<and> (\<exists>d \<in> set (ab_docs db). ad_schoolId d = school \<and> ad_seq d = n)"

text \<open>The document an upsert creates from the filter and the defaults of the schema.\<close>

definition fresh_doc :: "audit_db \<Rightarrow> string \<Rightarrow> int option \<Rightarrow> millis \<Rightarrow> audit_doc" where
  "fresh_doc db school n now =
     \<lparr>ad_id = ab_next db, ad_schoolId = school, ad_seq = n, ad_action = None, ad_performedBy = None,
      ad_targetId = None, ad_targetType = None, ad_details = VObj [], ad_result = Some ''success'',
      ad_errorMessage = None, ad_ipAddress = None, ad_userAgent = None, ad_prevHash = None,
      ad_entryHash = None, ad_archived = False, ad_createdAt = now\<rparr>"

definition insert_doc :: "audit_doc \<Rightarrow> audit_db \<Rightarrow> audit_db" where
  "insert_doc d db = db\<lparr>ab_docs := ab_docs db @ [d\<lparr>ad_id := ab_next db\<rparr>], ab_next := ab_next db + 1\<rparr>"

definition without_seq :: "string \<Rightarrow> audit_doc \<Rightarrow> bool" where
  "without_seq school d \<longleftrightarrow> ad_schoolId d = school \<and> ad_seq d = None"

definition reserveSequence ::
  "bool \<Rightarrow> string \<Rightarrow> millis \<Rightarrow> audit_db \<Rightarrow> audit_db \<times> (audit_error, int option) result" where
  "reserveSequence declared school now db =
     (let n = (if declared then Some 1 else None)
      in case find (without_seq school) (ab_docs db) of
           Some d \<Rightarrow>
             if declared \<and> seq_taken db school n then (db, Inl DUPLICATE_KEY)
             else (db\<lparr>ab_docs := update_first (without_seq school) (ad_seq_update (\<lambda>_. n)) (ab_docs db)\<rparr>, Inr n)
         | None \<Rightarrow>
             if seq_taken db school n then (db, Inl DUPLICATE_KEY)
             else (insert_doc (fresh_doc db school n now) db, Inr n))"

text \<open>The argument is \<^verbatim>\<open>seq - 1\<close>: \<^verbatim>\<open>NaN\<close>, here \<open>None\<close>, matches no document.\<close>

definition getHashAtSeq :: "string \<Rightarrow> int option \<Rightarrow> audit_db \<Rightarrow> string option" where
  "getHashAtSeq school m db =
     (case m of
        None \<Rightarrow> None
      | Some n \<Rightarrow>
          if n \<le> 0 then None
          else case find (\<lambda>d. ad_schoolId d = school \<and> ad_seq d = Some n) (ab_docs db) of
                 None \<Rightarrow> None
               | Some d \<Rightarrow> (case ad_entryHash d of None \<Rightarrow> None | Some h \<Rightarrow> if h = [] then None else Some h))"

text \<open>
  What mongoose stores of an object (\<^verbatim>\<open>minimize\<close>, on by default): undefined properties and objects
  left empty are removed, from the inside out; \<open>None\<close> is an object with nothing left.
\<close>

fun minimize :: "jsval \<Rightarrow> jsval option" where
  "minimize (VObj kvs) =
     (let kept = concat (map (\<lambda>(k, v). case v of None \<Rightarrow> [] | Some w \<Rightarrow> [(k, w)]) (map (\<lambda>(k, v). (k, minimize v)) kvs))
      in if kept = [] then None else Some (VObj kept))"
| "minimize VUndef = None"
| "minimize v = Some v"

definition stored_details :: "jsval \<Rightarrow> jsval" where
  "stored_details v = (case minimize v of None \<Rightarrow> VUndef | Some w \<Rightarrow> w)"

definition target_types :: "string list" where
  "target_types = [''student'', ''payment'', ''fee'', ''school'', ''user'', ''webhook'', ''academicPeriod'', ''auth'']"

definition present :: "string option \<Rightarrow> bool" where
  "present x \<longleftrightarrow> x \<noteq> None \<and> x \<noteq> Some []"

definition schema_valid :: "audit_doc \<Rightarrow> bool" where
  "schema_valid d \<longleftrightarrow>
     ad_schoolId d \<noteq> [] \<and> present (ad_action d) \<and> present (ad_performedBy d) \<and> present (ad_targetId d)
     \<and> present (ad_targetType d) \<and> the (ad_targetType d) \<in> set target_types
     \<and> ad_result d \<in> {None, Some ''success'', Some ''failure''}"

definition create_doc :: "bool \<Rightarrow> audit_doc \<Rightarrow> audit_db \<Rightarrow> audit_db \<times> (audit_error, unit) result" where
  "create_doc declared d db =
     (let d' = d\<lparr>ad_seq := (if declared then ad_seq d else None), ad_details := stored_details (ad_details d)\<rparr>
      in if \<not> schema_valid d then (db, Inl VALIDATION_FAILED)
         else if seq_taken db (ad_schoolId d') (ad_seq d') then (db, Inl DUPLICATE_KEY)
         else (insert_doc d' db, Inr ()))"

subsection \<open>Appending\<close>

text \<open>What the callers pass to \<^verbatim>\<open>logAudit\<close>, with its defaults filled in; the severity is not in the schema and never stored.\<close>

record audit_args =
  aa_schoolId :: string
  aa_action :: "string option"
  aa_performedBy :: "string option"
  aa_targetId :: "string option"
  aa_targetType :: "string option"
  aa_details :: jsval
  aa_result :: string
  aa_errorMessage :: "string option"
  aa_ipAddress :: "string option"
  aa_userAgent :: "string option"

definition audit_entry_of :: "audit_args \<Rightarrow> int option \<Rightarrow> string option \<Rightarrow> millis \<Rightarrow> audit_doc" where
  "audit_entry_of a n prev now =
     \<lparr>ad_id = 0, ad_schoolId = aa_schoolId a, ad_seq = n, ad_action = aa_action a, ad_performedBy = aa_performedBy a,
      ad_targetId = aa_targetId a, ad_targetType = aa_targetType a, ad_details = aa_details a,
      ad_result = Some (aa_result a), ad_errorMessage = aa_errorMessage a, ad_ipAddress = aa_ipAddress a,
      ad_userAgent = aa_userAgent a, ad_prevHash = prev, ad_entryHash = None, ad_archived = False, ad_createdAt = now\<rparr>"

definition audit_attempt ::
  "bool \<Rightarrow> (string \<Rightarrow> string) \<Rightarrow> (jsnum \<Rightarrow> string) \<Rightarrow> audit_args \<Rightarrow> millis \<Rightarrow> audit_db
   \<Rightarrow> audit_db \<times> (audit_error, unit) result" where
  "audit_attempt declared hmac num a now db =
     (case reserveSequence declared (aa_schoolId a) now db of
        (db', Inl e) \<Rightarrow> (db', Inl e)
      | (db', Inr n) \<Rightarrow>
          let prev = getHashAtSeq (aa_schoolId a) (map_option (\<lambda>m. m - 1) n) db';
              d = audit_entry_of a n prev now
          in create_doc declared (d\<lparr>ad_entryHash := Some (computeEntryHash hmac num d)\<rparr>) db')"

definition count_failure :: "audit_db \<Rightarrow> audit_db" where
  "count_failure db = db\<lparr>ab_failures := ab_failures db + 1\<rparr>"

text \<open>The loop over the attempts that are left; the last failure is counted and swallowed.\<close>

fun audit_loop ::
  "bool \<Rightarrow> (string \<Rightarrow> string) \<Rightarrow> (jsnum \<Rightarrow> string) \<Rightarrow> audit_args \<Rightarrow> millis \<Rightarrow> nat \<Rightarrow> audit_db \<Rightarrow> audit_db" where
  "audit_loop declared hmac num a now 0 db = db"
| "audit_loop declared hmac num a now (Suc left) db =
     (case audit_attempt declared hmac num a now db of
        (db', Inr _) \<Rightarrow> db'
      | (db', Inl e) \<Rightarrow>
          if e = DUPLICATE_KEY \<and> 0 < left then audit_loop declared hmac num a now left db'
          else count_failure db')"

definition audit_max_retries :: nat where
  "audit_max_retries = 5"

definition logAudit ::
  "bool \<Rightarrow> (string \<Rightarrow> string) \<Rightarrow> (jsnum \<Rightarrow> string) \<Rightarrow> audit_args \<Rightarrow> millis \<Rightarrow> audit_db \<Rightarrow> audit_db" where
  "logAudit declared hmac num a now db = audit_loop declared hmac num a now audit_max_retries db"

subsection \<open>Verification\<close>

datatype break_reason = EntryHash_mismatch | Chain_link_broken

text \<open>A document with no sequence number sorts before those with one.\<close>

definition by_seq :: "audit_doc list \<Rightarrow> audit_doc list" where
  "by_seq ds = filter (\<lambda>d. ad_seq d = None) ds @ sort_key (\<lambda>d. the (ad_seq d)) (filter (\<lambda>d. ad_seq d \<noteq> None) ds)"

definition chain_entries :: "string \<Rightarrow> nat \<Rightarrow> audit_db \<Rightarrow> audit_doc list" where
  "chain_entries school limit db = take limit (by_seq (filter (\<lambda>d. ad_schoolId d = school) (ab_docs db)))"

fun broken_entries ::
  "(string \<Rightarrow> string) \<Rightarrow> (jsnum \<Rightarrow> string) \<Rightarrow> string option \<Rightarrow> audit_doc list \<Rightarrow> (nat \<times> break_reason) list" where
  "broken_entries hmac num prev [] = []"
| "broken_entries hmac num prev (d # ds) =
     (if Some (computeEntryHash hmac num d) \<noteq> ad_entryHash d then [(ad_id d, EntryHash_mismatch)]
      else if ad_prevHash d \<noteq> prev then [(ad_id d, Chain_link_broken)]
      else [])
     @ broken_entries hmac num (ad_entryHash d) ds"

record chain_report =
  cr_ok :: bool
  cr_scanned :: nat
  cr_broken :: "(nat \<times> break_reason) list"

definition verifyAuditChain ::
  "(string \<Rightarrow> string) \<Rightarrow> (jsnum \<Rightarrow> string) \<Rightarrow> string \<Rightarrow> nat \<Rightarrow> audit_db \<Rightarrow> chain_report" where
  "verifyAuditChain hmac num school limit db =
     (let entries = chain_entries school limit db;
          broken = broken_entries hmac num None entries
      in \<lparr>cr_ok = (broken = []), cr_scanned = length entries, cr_broken = broken\<rparr>)"

text \<open>The endpoint: the limit of the query, 1000 by default and 5000 at most. The database takes the absolute value of a negative limit.\<close>

definition verifyChainEndpoint ::
  "(string \<Rightarrow> string) \<Rightarrow> (jsnum \<Rightarrow> string) \<Rightarrow> string \<Rightarrow> string option \<Rightarrow> audit_db \<Rightarrow> chain_report" where
  "verifyChainEndpoint hmac num school queryLimit db =
     (let parsed = (case queryLimit of None \<Rightarrow> None | Some s \<Rightarrow> parseInt10 s);
          n = (case parsed of None \<Rightarrow> 1000 | Some m \<Rightarrow> if m = 0 then 1000 else m)
      in verifyAuditChain hmac num school (nat \<bar>min n 5000\<bar>) db)"

subsection \<open>The entry's value and its hash\<close>

text \<open>Numbers that are not finite have no text of their own; the canonical value of any other is plain.\<close>

fun finite_numbers :: "jsval \<Rightarrow> bool" where
  "finite_numbers (VNum x) = is_finite x"
| "finite_numbers (VArr vs) = (\<forall>v \<in> set vs. finite_numbers v)"
| "finite_numbers (VObj kvs) = (\<forall>kv \<in> set kvs. finite_numbers (snd kv))"
| "finite_numbers _ = True"

lemma set_own_order [simp]: "set (own_order kvs) = set kvs"
  by (auto simp: own_order_def)

lemma plain_canonicalize: "finite_numbers v \<Longrightarrow> plain (canonicalize_value v)"
proof (induction v rule: canonicalize_value.induct)
  case (6 kvs)
  then show ?case by fastforce
qed auto

lemma finite_entry_value: "finite_numbers (entry_value d) \<longleftrightarrow> finite_numbers (ad_details d)"
proof -
  have "finite_numbers (or_null x)" "finite_numbers (or_undef x)" for x by (cases x; simp)+
  then show ?thesis by (simp add: entry_value_def)
qed

text \<open>
  The canonical value of an entry, as a list of its columns in the order of their names. Two
  entries have the same canonical value when each covered column is the same.
\<close>

definition covered :: "audit_doc \<Rightarrow> jsval list" where
  "covered d = map canonicalize_value
     [or_undef (ad_action d), VStr (toISOString (ad_createdAt d)), ad_details d, or_null (ad_errorMessage d),
      or_null (ad_ipAddress d), or_undef (ad_performedBy d), or_null (ad_prevHash d), or_undef (ad_result d),
      VStr (ad_schoolId d), or_undef (ad_targetId d), or_undef (ad_targetType d)]"

definition covered_names :: "string list" where
  "covered_names = [''action'', ''createdAt'', ''details'', ''errorMessage'', ''ipAddress'', ''performedBy'',
     ''prevHash'', ''result'', ''schoolId'', ''targetId'', ''targetType'']"

lemma canonical_entry: "canonicalize_value (entry_value d) = VObj (zip covered_names (covered d))"
  by (simp add: entry_value_def covered_def covered_names_def own_order_def is_array_index_def is_digit_def)

lemma or_null_inj: "canonicalize_value (or_null x) = canonicalize_value (or_null y) \<longleftrightarrow> x = y"
  by (cases x; cases y) auto

lemma or_undef_inj: "canonicalize_value (or_undef x) = canonicalize_value (or_undef y) \<longleftrightarrow> x = y"
  by (cases x; cases y) auto

text \<open>What an entry says: every column the hash covers, the details up to the order of their keys.\<close>

definition content ::
  "audit_doc \<Rightarrow> string \<times> (string option) list \<times> jsval \<times> millis" where
  "content d =
     (ad_schoolId d,
      [ad_action d, ad_performedBy d, ad_targetId d, ad_targetType d, ad_result d, ad_errorMessage d, ad_ipAddress d, ad_prevHash d],
      canonicalize_value (ad_details d), ad_createdAt d)"

lemma covered_content:
  assumes "valid_time (ad_createdAt d)" "valid_time (ad_createdAt e)" "covered d = covered e"
  shows "content d = content e"
  using assms by (auto simp: covered_def content_def or_null_inj or_undef_inj dest: toISOString_inj)

lemma content_covered: "content d = content e \<Longrightarrow> covered d = covered e"
  by (simp add: covered_def content_def)

text \<open>An entry the service can have written: finite numbers and a date in range.\<close>

definition proper :: "audit_doc \<Rightarrow> bool" where
  "proper d \<longleftrightarrow> finite_numbers (ad_details d) \<and> valid_time (ad_createdAt d)"

definition hashed_text :: "(jsnum \<Rightarrow> string) \<Rightarrow> audit_doc \<Rightarrow> string" where
  "hashed_text num d = canonicalStringify num (entry_value d)"

lemma hashed_text_content:
  assumes "number_text num" "proper d" "proper e" "hashed_text num d = hashed_text num e"
  shows "content d = content e"
proof -
  have "canonicalize_value (entry_value d) = canonicalize_value (entry_value e)"
    using assms unfolding hashed_text_def canonicalStringify_def
    by (intro stringify_inj [OF assms(1)] plain_canonicalize) (simp_all add: proper_def finite_entry_value)
  then have "zip covered_names (covered d) = zip covered_names (covered e)" by (simp add: canonical_entry)
  moreover have "length (covered x) = length covered_names" for x by (simp add: covered_def covered_names_def)
  ultimately have "covered d = covered e" by (metis map_snd_zip)
  then show ?thesis using covered_content assms by (simp add: proper_def)
qed

subsection \<open>The chain\<close>

definition head_hash :: "audit_doc list \<Rightarrow> string option" where
  "head_hash ds = (if ds = [] then None else ad_entryHash (last ds))"

lemma broken_append:
  "broken_entries hmac num prev (ds @ es) =
     broken_entries hmac num prev ds @ broken_entries hmac num (if ds = [] then prev else ad_entryHash (last ds)) es"
  by (induction ds arbitrary: prev) auto

lemma chain_snoc:
  "broken_entries hmac num None (ds @ [d]) = [] \<longleftrightarrow>
     broken_entries hmac num None ds = [] \<and> ad_entryHash d = Some (computeEntryHash hmac num d)
     \<and> ad_prevHash d = head_hash ds"
  by (auto simp: broken_append head_hash_def)

lemma chain_head: "broken_entries hmac num None ds = [] \<Longrightarrow> head_hash ds = None \<longleftrightarrow> ds = []"
  by (cases ds rule: rev_cases) (auto simp: chain_snoc head_hash_def)

text \<open>Two chains that verify and end with the same hash say the same, if the HMAC has no collision among their entries.\<close>

lemma chain_determined:
  assumes "number_text num"
    and "inj_on hmac (hashed_text num ` (set ds \<union> set es))"
    and "\<forall>d \<in> set ds \<union> set es. proper d"
    and "broken_entries hmac num None ds = []" "broken_entries hmac num None es = []"
    and "head_hash ds = head_hash es"
  shows "map content ds = map content es"
  using assms(2-)
proof (induction ds arbitrary: es rule: rev_induct)
  case Nil
  then show ?case using chain_head [of hmac num es] by (simp add: head_hash_def)
next
  case (snoc d ds)
  have "head_hash es \<noteq> None"
    using snoc.prems(3,5) chain_head [of hmac num "ds @ [d]"] by simp
  then obtain es' e where es: "es = es' @ [e]" by (cases es rule: rev_cases) (auto simp: head_hash_def)
  note chains = snoc.prems(3) [unfolded chain_snoc] snoc.prems(4) [unfolded es chain_snoc]
  have "ad_entryHash d = ad_entryHash e" using snoc.prems(5) es by (simp add: head_hash_def)
  with chains have "hmac (hashed_text num d) = hmac (hashed_text num e)"
    by (simp add: computeEntryHash_def hashed_text_def)
  then have "hashed_text num d = hashed_text num e"
    by (rule inj_onD [OF snoc.prems(1)]) (simp_all add: es)
  then have same: "content d = content e"
    using snoc.prems(2) es by (intro hashed_text_content [OF assms(1)]) simp_all
  then have "head_hash ds = head_hash es'" using chains by (simp add: content_def)
  moreover have "inj_on hmac (hashed_text num ` (set ds \<union> set es'))"
    by (rule inj_on_subset [OF snoc.prems(1)]) (auto simp: es)
  ultimately have "map content ds = map content es'"
    using snoc.IH [of es'] snoc.prems(2) chains es by auto
  with same es show ?case by simp
qed

lemma computeEntryHash_update [simp]:
  "computeEntryHash hmac num (d\<lparr>ad_entryHash := h\<rparr>) = computeEntryHash hmac num d"
  "computeEntryHash hmac num (d\<lparr>ad_id := i\<rparr>) = computeEntryHash hmac num d"
  "computeEntryHash hmac num (d\<lparr>ad_seq := n\<rparr>) = computeEntryHash hmac num d"
  "computeEntryHash hmac num (d\<lparr>ad_userAgent := u\<rparr>) = computeEntryHash hmac num d"
  by (simp_all add: computeEntryHash_def entry_value_def)

lemma verify_ok_iff:
  "cr_ok (verifyAuditChain hmac num school limit db) \<longleftrightarrow>
     broken_entries hmac num None (chain_entries school limit db) = []"
  by (simp add: verifyAuditChain_def Let_def)

text \<open>A school's whole log in the order of the chain; the verification reads it up to its limit.\<close>

definition whole_log :: "string \<Rightarrow> audit_db \<Rightarrow> audit_doc list" where
  "whole_log school db = by_seq (filter (\<lambda>d. ad_schoolId d = school) (ab_docs db))"

lemma chain_entries_take: "chain_entries school limit db = take limit (whole_log school db)"
  by (simp add: chain_entries_def whole_log_def)

text \<open>C23: If the verification of two states of a school's log succeeds, with limits \<open>n\<close> and \<open>m\<close>, what it read of
  both ends with the same hash, the HMAC has no collision among these entries, and their details hold only finite numbers
  and their dates are valid (\<open>proper\<close>; the serialisation writes \<^verbatim>\<open>NaN\<close> and \<^verbatim>\<open>null\<close> alike), then what it read of the two
  logs says the same: as many entries, in the same order, with the same values in every covered column; and the
  two logs as a whole say the same if neither is longer than its limit. So within the first entries that the
  verification reads, a change of a covered column, a removed, added or reordered entry shows up against a recorded
  hash of the last of them. Nothing is shown of entries past the limit (\<open>tail_not_verified\<close>).\<close>

theorem audit_log_tamper_evident:
  assumes "number_text num"
    and "inj_on hmac (hashed_text num ` (set (chain_entries school n db) \<union> set (chain_entries school m db')))"
    and "\<forall>d \<in> set (chain_entries school n db) \<union> set (chain_entries school m db'). proper d"
    and "cr_ok (verifyAuditChain hmac num school n db)"
    and "cr_ok (verifyAuditChain hmac num school m db')"
    and "head_hash (chain_entries school n db) = head_hash (chain_entries school m db')"
  shows "map content (chain_entries school n db) = map content (chain_entries school m db') \<and>
    (length (whole_log school db) \<le> n \<longrightarrow> length (whole_log school db') \<le> m \<longrightarrow>
       map content (whole_log school db) = map content (whole_log school db'))"
proof -
  have "map content (chain_entries school n db) = map content (chain_entries school m db')"
    using chain_determined assms unfolding verify_ok_iff by blast
  then show ?thesis by (auto simp: chain_entries_take)
qed

text \<open>An entry whose covered columns were changed after its hash was stored is reported.\<close>

lemma altered_entry_reported:
  assumes "number_text num" "proper d" "proper e" "content d \<noteq> content e"
    and "inj_on hmac {hashed_text num d, hashed_text num e}"
    and "ad_entryHash d = Some (computeEntryHash hmac num e)" and "d \<in> set ds"
  shows "(ad_id d, EntryHash_mismatch) \<in> set (broken_entries hmac num prev ds)"
proof -
  have "computeEntryHash hmac num d \<noteq> computeEntryHash hmac num e"
    using hashed_text_content [OF assms(1-3)] assms(4,5)
    by (auto simp: computeEntryHash_def hashed_text_def dest: inj_onD)
  with assms(6) have "Some (computeEntryHash hmac num d) \<noteq> ad_entryHash d" by simp
  with assms(7) show ?thesis by (induction ds arbitrary: prev) auto
qed

text \<open>A number text that satisfies what the theorem asks, and a log of two entries.\<close>

definition example_num :: "jsnum \<Rightarrow> string" where
  "example_num x =
     (case x of
        Fin q \<Rightarrow> (if fst (quotient_of q) < 0 then CHR ''-'' else CHR ''+'')
                  # nat_to_string 10 (nat \<bar>fst (quotient_of q)\<bar>) @ CHR ''/'' # nat_to_string 10 (nat (snd (quotient_of q)))
      | _ \<Rightarrow> [])"

lemma nat_to_string_inj:
  assumes "nat_to_string 10 a = nat_to_string 10 b"
  shows "a = b"
proof -
  have "string_to_nat 10 (nat_to_string 10 a) = string_to_nat 10 (nat_to_string 10 b)" by (simp only: assms)
  then show ?thesis by (simp add: string_to_nat_to_string)
qed

lemma example_num_inj: "example_num (Fin p) = example_num (Fin q) \<Longrightarrow> p = q"
proof -
  assume same: "example_num (Fin p) = example_num (Fin q)"
  obtain a b c d where pq: "quotient_of p = (a, b)" "quotient_of q = (c, d)" by (metis surj_pair)
  have slash: "CHR ''/'' \<notin> set (nat_to_string 10 n)" for n
    using nat_to_string_digits [of "CHR ''/''" n] by (auto simp: is_digit_def)
  have "split_on (CHR ''/'') (tl (example_num (Fin p))) = split_on (CHR ''/'') (tl (example_num (Fin q)))"
    using same by simp
  then have "nat \<bar>a\<bar> = nat \<bar>c\<bar>" "nat b = nat d"
    using pq slash by (auto simp: example_num_def split_on_one split_on_none dest: nat_to_string_inj)
  moreover have "a < 0 \<longleftrightarrow> c < 0" using same pq by (auto simp: example_num_def split: if_splits)
  moreover have "0 < b" "0 < d" using pq quotient_of_denom_pos by blast+
  ultimately have "quotient_of p = quotient_of q" using pq by auto
  then show "p = q" by (simp add: quotient_of_inject_eq)
qed

lemma example_num_ok: "number_text example_num"
proof -
  have "set (nat_to_string 10 n) \<inter> delimiters = {}" for n
    using nat_to_string_digits [of "CHR '',''" n] nat_to_string_digits [of "CHR '']''" n]
      nat_to_string_digits [of "CHR ''}''" n] by (auto simp: delimiters_def is_digit_def)
  moreover have "inj (\<lambda>q. example_num (Fin q))" using example_num_inj by (auto intro: injI)
  ultimately show ?thesis by (auto simp: number_text_def example_num_def delimiters_def)
qed

definition example_args :: audit_args where
  "example_args = \<lparr>aa_schoolId = ''SCH'', aa_action = Some ''login'', aa_performedBy = Some ''admin'',
     aa_targetId = Some ''7'', aa_targetType = Some ''auth'', aa_details = VObj [(''b'', VBool True), (''a'', VNull)],
     aa_result = ''success'', aa_errorMessage = None, aa_ipAddress = None, aa_userAgent = Some ''curl''\<rparr>"

definition example_doc :: "int \<Rightarrow> string option \<Rightarrow> audit_doc" where
  "example_doc n prev =
     (let d = audit_entry_of example_args (Some n) prev (n * 1000)
      in d\<lparr>ad_id := nat n, ad_entryHash := Some (computeEntryHash id example_num d)\<rparr>)"

definition example_log :: audit_db where
  "example_log = \<lparr>ab_docs = [example_doc 2 (ad_entryHash (example_doc 1 None)), example_doc 1 None],
     ab_next = 3, ab_seq_index = True, ab_failures = 0\<rparr>"

definition example_log' :: audit_db where
  "example_log' = example_log\<lparr>ab_docs := map (ad_userAgent_update (\<lambda>_. None)) (ab_docs example_log)\<rparr>"

lemma example_entries:
  "chain_entries ''SCH'' 5 example_log = [example_doc 1 None, example_doc 2 (ad_entryHash (example_doc 1 None))]"
  "chain_entries ''SCH'' 5 example_log' =
     map (ad_userAgent_update (\<lambda>_. None)) [example_doc 1 None, example_doc 2 (ad_entryHash (example_doc 1 None))]"
  by (simp_all add: chain_entries_def example_log_def example_log'_def by_seq_def example_doc_def
      audit_entry_of_def example_args_def Let_def)

lemma example_prev: "ad_prevHash (audit_entry_of a n prev now) = prev"
  by (simp add: audit_entry_of_def)

lemma example_verifies:
  "cr_ok (verifyAuditChain id example_num ''SCH'' 5 example_log)"
  "cr_ok (verifyAuditChain id example_num ''SCH'' 5 example_log')"
  unfolding verify_ok_iff example_entries
  by (simp_all add: example_doc_def Let_def example_prev)

lemma example_whole:
  "length (whole_log ''SCH'' example_log) \<le> 5" "length (whole_log ''SCH'' example_log') \<le> 5"
  by (simp_all add: whole_log_def example_log_def example_log'_def by_seq_def example_doc_def
      audit_entry_of_def example_args_def Let_def)

theorem audit_log_tamper_evident_witness:
  "map content (whole_log ''SCH'' example_log) = map content (whole_log ''SCH'' example_log')
   \<and> chain_entries ''SCH'' 5 example_log \<noteq> chain_entries ''SCH'' 5 example_log'"
proof
  have "map content (chain_entries ''SCH'' 5 example_log) = map content (chain_entries ''SCH'' 5 example_log') \<and>
      (length (whole_log ''SCH'' example_log) \<le> 5 \<longrightarrow> length (whole_log ''SCH'' example_log') \<le> 5 \<longrightarrow>
         map content (whole_log ''SCH'' example_log) = map content (whole_log ''SCH'' example_log'))"
    by (rule audit_log_tamper_evident [OF example_num_ok _ _ example_verifies])
      (simp_all add: example_entries head_hash_def proper_def example_doc_def audit_entry_of_def example_args_def Let_def valid_time_def)
  then show "map content (whole_log ''SCH'' example_log) = map content (whole_log ''SCH'' example_log')"
    using example_whole by blast
  show "chain_entries ''SCH'' 5 example_log \<noteq> chain_entries ''SCH'' 5 example_log'"
    by (simp add: example_entries example_doc_def audit_entry_of_def example_args_def Let_def)
qed

subsection \<open>What an append leaves behind\<close>

definition recorded :: "audit_db \<Rightarrow> audit_doc list" where
  "recorded db = filter (\<lambda>d. ad_action d \<noteq> None) (ab_docs db)"

lemma update_first_id: "(\<And>x. P x \<Longrightarrow> f x = x) \<Longrightarrow> update_first P f xs = xs"
  by (induction xs) auto

text \<open>
  With the schema of the repository the reservation changes no existing document. It returns an
  undefined number, and leaves a document of the school without one, a new one if there was none.
\<close>

lemma reserve_undeclared:
  "reserveSequence False school now db =
     (if \<exists>d \<in> set (ab_docs db). without_seq school d then db else insert_doc (fresh_doc db school None now) db, Inr None)"
proof (cases "find (without_seq school) (ab_docs db)")
  case None
  then have "\<not> (\<exists>d \<in> set (ab_docs db). without_seq school d)" by (auto simp: find_None_iff)
  moreover from this have "\<not> seq_taken db school None" by (auto simp: seq_taken_def without_seq_def)
  ultimately show ?thesis using None by (simp add: reserveSequence_def)
next
  case (Some d)
  then have "\<exists>d \<in> set (ab_docs db). without_seq school d" using find_Some_D [OF Some] by auto
  moreover have "update_first (without_seq school) (ad_seq_update (\<lambda>_. None)) (ab_docs db) = ab_docs db"
    by (rule update_first_id) (simp add: without_seq_def)
  ultimately show ?thesis using Some by (simp add: reserveSequence_def)
qed

lemma reserve_undeclared_taken:
  assumes "reserveSequence False school now db = (db', r)"
  shows "\<exists>d \<in> set (ab_docs db'). without_seq school d"
    and "ab_seq_index db' = ab_seq_index db" "ab_failures db' = ab_failures db" "recorded db' = recorded db" "r = Inr None"
  using assms
  by (auto simp: reserve_undeclared insert_doc_def fresh_doc_def without_seq_def recorded_def split: if_splits)

lemma audit_attempt_refused:
  assumes "ab_seq_index db"
  shows "\<exists>db' e. audit_attempt False hmac num a now db = (db', Inl e) \<and> ab_seq_index db'
    \<and> ab_failures db' = ab_failures db \<and> recorded db' = recorded db"
proof -
  obtain db' r where res: "reserveSequence False (aa_schoolId a) now db = (db', r)" by fastforce
  note facts = reserve_undeclared_taken [OF res]
  have "seq_taken db' (aa_schoolId a) None"
    using facts(1,2) assms by (auto simp: seq_taken_def without_seq_def)
  then show ?thesis
    using res facts assms by (simp add: audit_attempt_def create_doc_def Let_def audit_entry_of_def)
qed

lemma audit_loop_refused:
  assumes "ab_seq_index db"
  shows "recorded (audit_loop False hmac num a now (Suc left) db) = recorded db
    \<and> ab_failures (audit_loop False hmac num a now (Suc left) db) = ab_failures db + 1
    \<and> ab_seq_index (audit_loop False hmac num a now (Suc left) db)"
  using assms
proof (induction left arbitrary: db)
  case 0
  then obtain db' e where "audit_attempt False hmac num a now db = (db', Inl e)" "ab_seq_index db'"
    "ab_failures db' = ab_failures db" "recorded db' = recorded db"
    using audit_attempt_refused by blast
  then show ?case by (simp add: count_failure_def recorded_def)
next
  case (Suc left)
  then obtain db' e where "audit_attempt False hmac num a now db = (db', Inl e)" "ab_seq_index db'"
    "ab_failures db' = ab_failures db" "recorded db' = recorded db"
    using audit_attempt_refused by blast
  then show ?case using Suc.IH [of db'] by (simp add: count_failure_def recorded_def)
qed

text \<open>Where the unique index on school and sequence number exists, no call of \<^verbatim>\<open>logAudit\<close> records
  its entry: the sequence number is not a path of the schema, so the document that reserves it and
  the entry both have none, and the index refuses the entry on each of the five attempts. The
  failure is counted, and the health report is degraded from then on.\<close>

theorem audit_entries_lost:
  assumes "ab_seq_index db"
  shows "recorded (logAudit False hmac num a now db) = recorded db
    \<and> ab_failures (logAudit False hmac num a now db) = ab_failures db + 1
    \<and> getAuditHealth (logAudit False hmac num a now db) = (Audit_degraded, ab_failures db + 1)"
  using audit_loop_refused [OF assms, of hmac num a now 4]
  by (simp add: logAudit_def audit_max_retries_def getAuditHealth_def eval_nat_numeral)

theorem audit_entries_lost_witness:
  "recorded (logAudit False id example_num example_args 5000 example_log) = recorded example_log
   \<and> ab_failures (logAudit False id example_num example_args 5000 example_log) = 1"
  using audit_entries_lost [of example_log id example_num example_args 5000] by (simp add: example_log_def)

text \<open>
  Where the index is missing, the document that reserves the number stays in the collection: it
  sorts first and has no hash, so the first append to a school's log already breaks its
  verification.
\<close>

lemma first_kept_insert:
  "filter (\<lambda>d. ad_schoolId d = school) (ab_docs db) = [x] @ xs \<Longrightarrow>
   \<exists>ys. filter (\<lambda>d. ad_schoolId d = school) (ab_docs (insert_doc d db)) = [x] @ xs @ ys"
  by (auto simp: insert_doc_def)

lemma audit_attempt_phantom:
  assumes "filter (\<lambda>d. ad_schoolId d = aa_schoolId a) (ab_docs db) = []"
  obtains db' r ds where "audit_attempt False hmac num a now db = (db', r)"
    and "filter (\<lambda>d. ad_schoolId d = aa_schoolId a) (ab_docs db') = fresh_doc db (aa_schoolId a) None now # ds"
proof -
  define db1 where "db1 = insert_doc (fresh_doc db (aa_schoolId a) None now) db"
  have "\<not> (\<exists>d \<in> set (ab_docs db). without_seq (aa_schoolId a) d)"
    using assms by (auto simp: filter_empty_conv without_seq_def)
  then have res: "reserveSequence False (aa_schoolId a) now db = (db1, Inr None)"
    by (simp add: reserve_undeclared db1_def)
  have first: "filter (\<lambda>d. ad_schoolId d = aa_schoolId a) (ab_docs db1) = [fresh_doc db (aa_schoolId a) None now] @ []"
    using assms by (simp add: db1_def insert_doc_def fresh_doc_def)
  obtain db' r where att: "audit_attempt False hmac num a now db = (db', r)" by fastforce
  then have "db' = db1 \<or> (\<exists>d. db' = insert_doc d db1)"
    using res by (auto simp: audit_attempt_def create_doc_def Let_def split: if_splits)
  then obtain ds where "filter (\<lambda>d. ad_schoolId d = aa_schoolId a) (ab_docs db') = fresh_doc db (aa_schoolId a) None now # ds"
    using first first_kept_insert [OF first] by fastforce
  with that att show thesis by blast
qed

text \<open>The later attempts only append.\<close>

lemma audit_attempt_appends:
  assumes "audit_attempt False hmac num a now db = (db', r)"
  shows "\<exists>ds. ab_docs db' = ab_docs db @ ds"
  using assms
  by (auto simp: audit_attempt_def reserve_undeclared create_doc_def Let_def insert_doc_def split: if_splits)

lemma audit_loop_appends: "\<exists>ds. ab_docs (audit_loop False hmac num a now left db) = ab_docs db @ ds"
proof (induction left arbitrary: db)
  case (Suc left)
  obtain db' r where att: "audit_attempt False hmac num a now db = (db', r)" by fastforce
  from audit_attempt_appends [OF att] obtain ds where ds: "ab_docs db' = ab_docs db @ ds" ..
  show ?case
    using att ds Suc.IH [of db'] by (auto simp: count_failure_def split: sum.splits)
qed simp

lemma first_of_chain:
  assumes "filter (\<lambda>d. ad_schoolId d = school) (ab_docs db) = d # ds" and "ad_seq d = None" and "0 < limit"
  shows "\<exists>es. chain_entries school limit db = d # es"
  using assms by (cases limit) (simp_all add: chain_entries_def by_seq_def)

text \<open>The first append to the log of a school leaves a document without content or hash, which the
  verification reports first: after any append to an empty log the chain does not verify, whatever
  the arguments, the indexes and the HMAC.\<close>

theorem first_append_breaks_chain:
  assumes "filter (\<lambda>d. ad_schoolId d = aa_schoolId a) (ab_docs db) = []" and "0 < limit"
  shows "\<not> cr_ok (verifyAuditChain hmac num (aa_schoolId a) limit (logAudit False hmac num a now db))
    \<and> hd (cr_broken (verifyAuditChain hmac num (aa_schoolId a) limit (logAudit False hmac num a now db)))
        = (ab_next db, EntryHash_mismatch)"
proof -
  let ?school = "\<lambda>d. ad_schoolId d = aa_schoolId a"
  let ?phantom = "fresh_doc db (aa_schoolId a) None now"
  obtain db' r ds where att: "audit_attempt False hmac num a now db = (db', r)"
    and first: "filter ?school (ab_docs db') = ?phantom # ds"
    using audit_attempt_phantom [OF assms(1), of hmac num now] by blast
  have "\<exists>es. ab_docs (logAudit False hmac num a now db) = ab_docs db' @ es"
    using att audit_loop_appends [of hmac num a now 4 db']
    by (auto simp: logAudit_def audit_max_retries_def eval_nat_numeral count_failure_def split: sum.splits)
  then obtain es where "filter ?school (ab_docs (logAudit False hmac num a now db)) = ?phantom # es"
    using first by auto
  from first_of_chain [OF this _ assms(2)] obtain fs
    where "chain_entries (aa_schoolId a) limit (logAudit False hmac num a now db) = ?phantom # fs"
    by (auto simp: fresh_doc_def)
  then show ?thesis by (simp add: verifyAuditChain_def Let_def fresh_doc_def)
qed

definition empty_log :: audit_db where
  "empty_log = \<lparr>ab_docs = [], ab_next = 3, ab_seq_index = False, ab_failures = 0\<rparr>"

theorem first_append_breaks_chain_witness:
  "\<not> cr_ok (verifyAuditChain id example_num ''SCH'' 1000 (logAudit False id example_num example_args 5000 empty_log))"
  using first_append_breaks_chain [of example_args empty_log 1000 id example_num 5000]
  by (simp add: example_args_def empty_log_def)

text \<open>
  The details default to an empty object, which is hashed as such and not stored: the entry that
  comes back does not have the hash it was stored with.
\<close>

lemma stored_empty: "stored_details (VObj []) = VUndef"
  by (simp add: stored_details_def)

lemma empty_details_mismatch:
  assumes "number_text num" "valid_time (ad_createdAt d)" "ad_details d = VObj []"
    and "stored = d\<lparr>ad_details := stored_details (ad_details d), ad_entryHash := Some (computeEntryHash hmac num d)\<rparr>"
    and "inj_on hmac {hashed_text num stored, hashed_text num d}" and "stored \<in> set ds"
  shows "(ad_id d, EntryHash_mismatch) \<in> set (broken_entries hmac num prev ds)"
proof -
  have "content stored \<noteq> content d" using assms(3,4) by (simp add: content_def stored_empty own_order_def)
  moreover have "proper stored" "proper d" using assms(2-4) by (simp_all add: proper_def stored_empty)
  ultimately have "(ad_id stored, EntryHash_mismatch) \<in> set (broken_entries hmac num prev ds)"
    using assms by (intro altered_entry_reported [of num stored d hmac ds prev]) simp_all
  then show ?thesis using assms(4) by simp
qed

text \<open>The verification reads the oldest entries only: what comes after the limit is not looked at.\<close>

lemma by_seq_unnumbered: "\<forall>d \<in> set xs. ad_seq d = None \<Longrightarrow> by_seq xs = xs"
proof -
  assume "\<forall>d \<in> set xs. ad_seq d = None"
  then have "filter (\<lambda>d. ad_seq d = None) xs = xs" and "filter (\<lambda>d. ad_seq d \<noteq> None) xs = []"
    by (auto simp: filter_id_conv filter_empty_conv)
  then show ?thesis unfolding by_seq_def by simp
qed

lemma tail_not_verified:
  assumes "length (filter (\<lambda>d. ad_schoolId d = school) ds) = limit"
    and "\<forall>d \<in> set (ds @ es). ad_seq d = None"
  shows "chain_entries school limit (db\<lparr>ab_docs := ds @ es\<rparr>) = chain_entries school limit (db\<lparr>ab_docs := ds\<rparr>)"
  using assms by (simp add: chain_entries_def by_seq_unnumbered ball_Un)

subsection \<open>Reading the log\<close>

record audit_filters =
  fl_schoolId :: string
  fl_action :: "string option"
  fl_targetType :: "string option"
  fl_performedBy :: "string option"
  fl_result :: "string option"
  fl_startDate :: "millis option"
  fl_endDate :: "millis option"
  fl_limit :: "string option"

text \<open>An absent or empty filter does not restrict.\<close>

definition wanted :: "string option \<Rightarrow> string option \<Rightarrow> bool" where
  "wanted filter_by v \<longleftrightarrow> \<not> present filter_by \<or> v = filter_by"

definition matches_filters :: "audit_filters \<Rightarrow> audit_doc \<Rightarrow> bool" where
  "matches_filters fl d \<longleftrightarrow>
     ad_schoolId d = fl_schoolId fl \<and> wanted (fl_action fl) (ad_action d) \<and> wanted (fl_targetType fl) (ad_targetType d)
     \<and> wanted (fl_performedBy fl) (ad_performedBy d) \<and> wanted (fl_result fl) (ad_result d)
     \<and> (case fl_startDate fl of None \<Rightarrow> True | Some t \<Rightarrow> t \<le> ad_createdAt d)
     \<and> (case fl_endDate fl of None \<Rightarrow> True | Some t \<Rightarrow> ad_createdAt d \<le> t)"

definition max_export_rows :: int where
  "max_export_rows = 10000"

text \<open>\<^verbatim>\<open>Math.min(Math.max(parseInt(requested, 10) || most, 1), most)\<close>.\<close>

definition clamp_limit :: "string option \<Rightarrow> int \<Rightarrow> int \<Rightarrow> int" where
  "clamp_limit requested preset most =
     (let parsed = (case requested of None \<Rightarrow> None | Some s \<Rightarrow> parseInt10 s);
          n = (case parsed of None \<Rightarrow> preset | Some m \<Rightarrow> if m = 0 then preset else m)
      in min (max n 1) most)"

definition exportAuditLogs :: "audit_filters \<Rightarrow> audit_db \<Rightarrow> audit_doc list" where
  "exportAuditLogs fl db =
     take (nat (clamp_limit (fl_limit fl) max_export_rows max_export_rows))
       (sort_key ad_createdAt (filter (matches_filters fl) (ab_docs db)))"

definition getRecentAuditLogs :: "string \<Rightarrow> nat \<Rightarrow> audit_db \<Rightarrow> audit_doc list" where
  "getRecentAuditLogs school limit db =
     take limit (rev (sort_key ad_createdAt (filter (\<lambda>d. ad_schoolId d = school) (ab_docs db))))"

definition getRecentAuditLogsEndpoint :: "string \<Rightarrow> string option \<Rightarrow> audit_db \<Rightarrow> audit_doc list" where
  "getRecentAuditLogsEndpoint school queryLimit db =
     (let parsed = (case queryLimit of None \<Rightarrow> None | Some s \<Rightarrow> parseInt10 s);
          n = min (case parsed of None \<Rightarrow> 10 | Some m \<Rightarrow> if m = 0 then 10 else m) 50
      in getRecentAuditLogs school (nat \<bar>n\<bar>) db)"

text \<open>
  The list endpoint: after the checks of its parameters the service uses the variables \<^verbatim>\<open>skip\<close>
  and \<^verbatim>\<open>actualPage\<close>, which it never declares, so every call that passes the checks throws.
\<close>

datatype list_reply = Bad_page | Bad_limit | ReferenceError_thrown

definition positive_number :: "string \<Rightarrow> bool" where
  "positive_number s \<longleftrightarrow> (case parseInt10 s of None \<Rightarrow> False | Some n \<Rightarrow> 1 \<le> n)"

definition getAuditLogsEndpoint :: "string option \<Rightarrow> string option \<Rightarrow> list_reply" where
  "getAuditLogsEndpoint page limit =
     (if present page \<and> \<not> positive_number (the page) then Bad_page
      else if present limit \<and> \<not> positive_number (the limit) then Bad_limit
      else ReferenceError_thrown)"

definition resolveRetentionDays :: "string option \<Rightarrow> string option \<Rightarrow> int" where
  "resolveRetentionDays retention ttl =
     (let raw = (if present retention then retention else ttl)
      in case raw of
           None \<Rightarrow> 730
         | Some s \<Rightarrow> (case parseInt10 s of None \<Rightarrow> 730 | Some n \<Rightarrow> if 0 < n then n else 730))"

lemma clamp_limit_bounds: "1 \<le> most \<Longrightarrow> 1 \<le> clamp_limit r d most \<and> clamp_limit r d most \<le> most"
  by (simp add: clamp_limit_def Let_def)

text \<open>An export holds entries of the caller's school only, each of them matching every filter and stored
  in the collection, oldest first, at least one if any matches and at most 10000.\<close>

theorem export_scoped_sorted_bounded:
  "set (exportAuditLogs fl db) \<subseteq> {d \<in> set (ab_docs db). ad_schoolId d = fl_schoolId fl \<and> matches_filters fl d}
   \<and> sorted (map ad_createdAt (exportAuditLogs fl db))
   \<and> length (exportAuditLogs fl db) \<le> 10000
   \<and> (exportAuditLogs fl db = [] \<longleftrightarrow> filter (matches_filters fl) (ab_docs db) = [])"
proof -
  let ?n = "nat (clamp_limit (fl_limit fl) max_export_rows max_export_rows)"
  let ?ds = "sort_key ad_createdAt (filter (matches_filters fl) (ab_docs db))"
  have n: "1 \<le> ?n" "?n \<le> 10000"
    using clamp_limit_bounds [of max_export_rows "fl_limit fl" max_export_rows]
    unfolding max_export_rows_def by linarith+
  have "set (take ?n ?ds) \<subseteq> set ?ds" by (rule set_take_subset)
  then have "set (exportAuditLogs fl db) \<subseteq> {d \<in> set (ab_docs db). ad_schoolId d = fl_schoolId fl \<and> matches_filters fl d}"
    by (auto simp: exportAuditLogs_def matches_filters_def)
  moreover have "sorted (map ad_createdAt (exportAuditLogs fl db))"
    by (simp add: exportAuditLogs_def sorted_wrt_take flip: take_map)
  moreover have "length (exportAuditLogs fl db) \<le> 10000" using n by (simp add: exportAuditLogs_def)
  moreover have "?ds = [] \<longleftrightarrow> filter (matches_filters fl) (ab_docs db) = []"
    by (metis length_0_conv length_sort)
  ultimately show ?thesis using n by (auto simp: exportAuditLogs_def)
qed

lemma retention_positive: "0 < resolveRetentionDays retention ttl"
  by (simp add: resolveRetentionDays_def Let_def split: option.splits)

lemma audit_list_throws:
  "getAuditLogsEndpoint page limit = ReferenceError_thrown \<longleftrightarrow>
     (present page \<longrightarrow> positive_number (the page)) \<and> (present limit \<longrightarrow> positive_number (the limit))"
  by (simp add: getAuditLogsEndpoint_def)

end
