(* ===== verification/Csv.thy ===== *)
theory Csv
  imports Audit_Chain
begin

section \<open>CSV output\<close>

text \<open>
  \<^verbatim>\<open>utils/csv.js\<close>: the escaping of a cell, rows, and the stream that turns documents into lines; and
  the export of the audit log as CSV (\<^verbatim>\<open>controllers/auditController.js\<close>). A cell is the text of its
  value, \<open>None\<close> for a missing one. Against it stands a reader for RFC 4180, a machine of four
  states: the lemmas show that it reads back every table the service writes, cell by cell, up to
  the apostrophe that disarms a formula.
\<close>

definition formula_trigger :: "string \<Rightarrow> bool" where
  "formula_trigger s \<longleftrightarrow>
     s \<noteq> [] \<and> hd s \<in> {CHR ''='', CHR ''+'', CHR ''-'', CHR ''@'', CHR 0x09, CHR 0x0D}"

definition neutral :: "string option \<Rightarrow> string" where
  "neutral v =
     (let str = (case v of None \<Rightarrow> [] | Some s \<Rightarrow> s)
      in if formula_trigger str then CHR 0x27 # str else str)"

definition double_quotes :: "string \<Rightarrow> string" where
  "double_quotes s = concat (map (\<lambda>c. if c = CHR 0x22 then [CHR 0x22, CHR 0x22] else [c]) s)"

definition csvEscape :: "string option \<Rightarrow> string" where
  "csvEscape v =
     (let str = neutral v
      in if CHR '','' \<in> set str \<or> CHR 0x22 \<in> set str \<or> CHR 0x0A \<in> set str \<or> CHR 0x0D \<in> set str
         then CHR 0x22 # double_quotes str @ [CHR 0x22] else str)"

definition csvRow :: "string option list \<Rightarrow> string" where
  "csvRow values = join '','' (map csvEscape values)"

text \<open>The stream: the header goes out before the first document, and only then.\<close>

definition csv_line :: "('d \<Rightarrow> string option list) \<Rightarrow> string option list option \<Rightarrow> bool \<Rightarrow> 'd \<Rightarrow> bool \<times> string" where
  "csv_line toRow header wroteHeader doc =
     (case header of
        Some h \<Rightarrow> (True, (if wroteHeader then [] else csvRow h @ [CHR 0x0A]) @ csvRow (toRow doc) @ [CHR 0x0A])
      | None \<Rightarrow> (wroteHeader, csvRow (toRow doc) @ [CHR 0x0A]))"

fun csv_stream :: "('d \<Rightarrow> string option list) \<Rightarrow> string option list option \<Rightarrow> bool \<Rightarrow> 'd list \<Rightarrow> string" where
  "csv_stream toRow header wroteHeader [] = []"
| "csv_stream toRow header wroteHeader (d # ds) =
     (case csv_line toRow header wroteHeader d of (w, line) \<Rightarrow> line @ csv_stream toRow header w ds)"

definition csvTransform :: "('d \<Rightarrow> string option list) \<Rightarrow> string option list option \<Rightarrow> 'd list \<Rightarrow> string" where
  "csvTransform toRow header docs = csv_stream toRow header False docs"

text \<open>The columns of the audit export; the identifier of a document is printed in hexadecimal, a date as its text (the parameter \<open>date_text\<close> is \<^verbatim>\<open>String(date)\<close>).\<close>

definition csv_columns :: "string list" where
  "csv_columns = [''_id'', ''schoolId'', ''action'', ''targetType'', ''targetId'', ''performedBy'', ''result'',
     ''errorMessage'', ''ipAddress'', ''createdAt'']"

definition audit_cells :: "(millis \<Rightarrow> string) \<Rightarrow> audit_doc \<Rightarrow> string option list" where
  "audit_cells date_text d =
     [Some (nat_to_string 16 (ad_id d)), Some (ad_schoolId d), ad_action d, ad_targetType d, ad_targetId d,
      ad_performedBy d, ad_result d, ad_errorMessage d, ad_ipAddress d, Some (date_text (ad_createdAt d))]"

definition audit_csv :: "(millis \<Rightarrow> string) \<Rightarrow> audit_doc list \<Rightarrow> string" where
  "audit_csv date_text docs =
     join [CHR 0x0D, CHR 0x0A]
       (join '','' csv_columns # map (\<lambda>d. join '','' (map csvEscape (audit_cells date_text d))) docs)"

datatype export_reply = Export_json "audit_doc list" | Export_csv string

definition exportAuditLogsEndpoint ::
  "(millis \<Rightarrow> string) \<Rightarrow> string option \<Rightarrow> audit_filters \<Rightarrow> audit_db \<Rightarrow> export_reply" where
  "exportAuditLogsEndpoint date_text format fl db =
     (let docs = exportAuditLogs fl db
      in if format = Some ''json'' then Export_json docs else Export_csv (audit_csv date_text docs))"

subsection \<open>A reader\<close>

datatype csv_mode = Cell_start | Bare | Quoted | Quote_seen

text \<open>
  The reader keeps the cell and the row it is in and the rows it has finished. Outside quotes a
  comma ends the cell, a line feed the row, and a carriage return is part of the line break.
\<close>

fun csv_read :: "csv_mode \<Rightarrow> string \<Rightarrow> string list \<Rightarrow> string \<Rightarrow> string list list" where
  "csv_read mode cell row [] = [row @ [cell]]"
| "csv_read mode cell row (c # s) =
     (if mode = Quoted then
        if c = CHR 0x22 then csv_read Quote_seen cell row s else csv_read Quoted (cell @ [c]) row s
      else if c = CHR 0x22 \<and> mode = Quote_seen then csv_read Quoted (cell @ [c]) row s
      else if c = CHR 0x22 \<and> mode = Cell_start then csv_read Quoted cell row s
      else if c = CHR '','' then csv_read Cell_start [] (row @ [cell]) s
      else if c = CHR 0x0A then (row @ [cell]) # csv_read Cell_start [] [] s
      else if c = CHR 0x0D then csv_read mode cell row s
      else csv_read Bare (cell @ [c]) row s)"

abbreviation csv_table :: "string \<Rightarrow> string list list" where
  "csv_table s \<equiv> csv_read Cell_start [] [] s"

lemma read_quoted:
  "csv_read Quoted cell row (double_quotes v @ [CHR 0x22] @ s) = csv_read Quote_seen (cell @ v) row s"
  by (induction v arbitrary: cell) (simp_all add: double_quotes_def)

lemma read_bare:
  assumes "\<forall>c \<in> set v. c \<noteq> CHR '','' \<and> c \<noteq> CHR 0x22 \<and> c \<noteq> CHR 0x0A \<and> c \<noteq> CHR 0x0D"
  shows "csv_read Bare cell row (v @ s) = csv_read Bare (cell @ v) row s"
  using assms by (induction v arbitrary: cell) simp_all

text \<open>After an escaped cell the reader holds the neutralised value, in a state in which a comma or a line break ends it.\<close>

lemma read_cell:
  obtains mode where "mode \<noteq> Quoted"
    and "\<And>s. s = [] \<or> hd s \<noteq> CHR 0x22 \<Longrightarrow> csv_read Cell_start [] row (csvEscape v @ s) = csv_read mode (neutral v) row s"
proof -
  define str where "str = neutral v"
  show thesis
  proof (cases "CHR '','' \<in> set str \<or> CHR 0x22 \<in> set str \<or> CHR 0x0A \<in> set str \<or> CHR 0x0D \<in> set str")
    case True
    then have "csvEscape v = CHR 0x22 # double_quotes str @ [CHR 0x22]"
      unfolding csvEscape_def str_def [symmetric] Let_def by simp
    then have "csv_read Cell_start [] row (csvEscape v @ s) = csv_read Quote_seen str row s" for s
      using read_quoted [of "[]" row str s] by simp
    then show thesis using that [of Quote_seen] by (simp add: str_def)
  next
    case False
    then have esc: "csvEscape v = str" unfolding csvEscape_def str_def [symmetric] Let_def by simp
    show thesis
    proof (cases str)
      case Nil
      then show thesis using that [of Cell_start] esc by (simp add: str_def)
    next
      case (Cons c cs)
      then have "csv_read Cell_start [] row (csvEscape v @ s) = csv_read Bare str row s" for s
        using False esc read_bare [of cs "[c]" row s] by auto
      then show thesis using that [of Bare] by (simp add: str_def)
    qed
  qed
qed

lemma read_cell_comma: "csv_read Cell_start [] row (csvEscape v @ CHR '','' # s) = csv_read Cell_start [] (row @ [neutral v]) s"
  by (rule read_cell [of row v]) auto

lemma read_cell_line:
  "csv_read Cell_start [] row (csvEscape v @ CHR 0x0A # s) = (row @ [neutral v]) # csv_table s"
  "csv_read Cell_start [] row (csvEscape v @ CHR 0x0D # CHR 0x0A # s) = (row @ [neutral v]) # csv_table s"
  "csv_read Cell_start [] row (csvEscape v) = [row @ [neutral v]]"
proof -
  obtain mode where mode: "mode \<noteq> Quoted"
    "\<And>s. s = [] \<or> hd s \<noteq> CHR 0x22 \<Longrightarrow> csv_read Cell_start [] row (csvEscape v @ s) = csv_read mode (neutral v) row s"
    using read_cell [of row v] by blast
  then show "csv_read Cell_start [] row (csvEscape v @ CHR 0x0A # s) = (row @ [neutral v]) # csv_table s"
    "csv_read Cell_start [] row (csvEscape v @ CHR 0x0D # CHR 0x0A # s) = (row @ [neutral v]) # csv_table s"
    by (cases mode; simp)+
  show "csv_read Cell_start [] row (csvEscape v) = [row @ [neutral v]]" using mode(2) [of "[]"] by simp
qed

text \<open>A row is read cell by cell.\<close>

lemma read_row:
  assumes "vs \<noteq> []"
  shows "csv_read Cell_start [] row (csvRow vs @ CHR 0x0A # s) = (row @ map neutral vs) # csv_table s"
    "csv_read Cell_start [] row (csvRow vs @ CHR 0x0D # CHR 0x0A # s) = (row @ map neutral vs) # csv_table s"
    "csv_read Cell_start [] row (csvRow vs) = [row @ map neutral vs]"
  using assms
proof (induction vs arbitrary: row)
  case (Cons v vs)
  { case 1 then show ?case using Cons(1) by (cases "vs = []") (simp_all add: csvRow_def join_Cons read_cell_comma read_cell_line) }
  { case 2 then show ?case using Cons(2) by (cases "vs = []") (simp_all add: csvRow_def join_Cons read_cell_comma read_cell_line) }
  { case 3 then show ?case using Cons(3) by (cases "vs = []") (simp_all add: csvRow_def join_Cons read_cell_comma read_cell_line) }
qed simp_all

lemma neutral_safe: "\<not> formula_trigger (neutral v)"
  by (auto simp: neutral_def formula_trigger_def Let_def split: option.splits)

text \<open>The plain names of the header need no escape.\<close>

lemma csv_columns_row: "join '','' csv_columns = csvRow (map Some csv_columns)"
  by (simp add: csv_columns_def csvRow_def csvEscape_def neutral_def formula_trigger_def)

lemma audit_csv_rows:
  "csv_table (join [CHR 0x0D, CHR 0x0A] (map csvRow (r # rs))) = map (map neutral) (r # rs)"
  if "\<forall>row \<in> set (r # rs). row \<noteq> []"
  using that by (induction rs arbitrary: r) (simp_all add: join_Cons read_row)

text \<open>C26: The CSV export of the audit log reads back, by RFC 4180, as one row of column names and one row
  per exported entry, in order, each cell being the text of the entry's column up to the apostrophe
  before a formula; and no cell starts with a character that makes a spreadsheet run it.\<close>

theorem audit_csv_reads_back:
  "csv_table (audit_csv date_text docs) = csv_columns # map (\<lambda>d. map neutral (audit_cells date_text d)) docs
   \<and> list_all (list_all (\<lambda>cell. \<not> formula_trigger cell)) (csv_table (audit_csv date_text docs))"
proof -
  have names: "map neutral (map Some csv_columns) = csv_columns"
    by (simp add: csv_columns_def neutral_def formula_trigger_def)
  have "audit_csv date_text docs =
      join [CHR 0x0D, CHR 0x0A] (map csvRow (map Some csv_columns # map (audit_cells date_text) docs))"
    by (simp add: audit_csv_def csv_columns_row csvRow_def comp_def)
  moreover have "\<forall>row \<in> set (map Some csv_columns # map (audit_cells date_text) docs). row \<noteq> []"
    by (auto simp: csv_columns_def audit_cells_def)
  ultimately have table: "csv_table (audit_csv date_text docs) =
      map (map neutral) (map Some csv_columns # map (audit_cells date_text) docs)"
    by (simp only: audit_csv_rows)
  then have "list_all (list_all (\<lambda>cell. \<not> formula_trigger cell)) (csv_table (audit_csv date_text docs))"
    unfolding table by (auto simp: list_all_iff neutral_safe)
  with table names show ?thesis by (simp add: comp_def)
qed

text \<open>The stream: a header row, then a row per document; nothing at all without documents. The last line feed leaves an empty line.\<close>

lemma csv_stream_rows:
  assumes "\<And>d. d \<in> set docs \<Longrightarrow> toRow d \<noteq> []" "header \<noteq> []"
  shows "csv_table (csv_stream toRow (Some header) True docs) = map (\<lambda>d. map neutral (toRow d)) docs @ [[[]]]"
  using assms by (induction docs) (simp_all add: csv_line_def read_row)

theorem csvTransform_rows:
  assumes "docs \<noteq> []" "\<And>d. d \<in> set docs \<Longrightarrow> toRow d \<noteq> []" "header \<noteq> []"
  shows "csv_table (csvTransform toRow (Some header) docs) =
    map neutral header # map (\<lambda>d. map neutral (toRow d)) docs @ [[[]]]"
  using assms
  by (cases docs) (simp_all add: csvTransform_def csv_line_def read_row csv_stream_rows)

end
