(* ===== verification/Academic_Period.thy ===== *)
theory Academic_Period
  imports Audit_Chain Student_Balance
begin

section \<open>Academic periods and the rollover of arrears\<close>

text \<open>
  \<^verbatim>\<open>services/academicPeriodService.js\<close> over \<^verbatim>\<open>models/academicPeriodModel.js\<close>,
  \<^verbatim>\<open>models/studentPeriodFeeModel.js\<close> and the handlers of \<^verbatim>\<open>controllers/academicPeriodController.js\<close>. The
  collections are lists of documents, with their unique indexes as invariants; amounts are
  JavaScript numbers. The rollover is in two parts, as in the code: the checks, which read the
  collections before the transaction, and the transaction, so that two rollovers can interleave.
  The transaction works in batches of 500 students, each with two lists of bulk operations.

  A date argument is \<open>Undefined\<close>, or \<open>Given\<close> with its truthiness and the time value
  \<^verbatim>\<open>new Date(...)\<close> makes of it, \<open>None\<close> for an invalid date.
\<close>

subsection \<open>Documents\<close>

record period =
  ap_id :: nat
  ap_schoolId :: string
  ap_name :: string
  ap_startsAt :: millis
  ap_endsAt :: millis
  ap_isCurrent :: bool
  ap_isClosed :: bool
  ap_carried :: jsnum
  ap_notes :: "string option"

record assignment =
  sf_schoolId :: string
  sf_studentId :: string
  sf_periodId :: nat
  sf_periodName :: string
  sf_feeAmount :: jsnum
  sf_carriedArrears :: jsnum
  sf_totalPaid :: jsnum
  sf_remainingBalance :: jsnum
  sf_feePaid :: bool
  sf_deadline :: "millis option"
  sf_creditAdjustments :: jsnum

record pupil =
  pu_schoolId :: string
  pu_studentId :: string
  pu_class :: string
  pu_deleted :: bool
  pu_feeAmount :: jsnum
  pu_totalPaid :: jsnum
  pu_remainingBalance :: "jsnum option"
  pu_feePaid :: bool
  pu_academicYear :: "string option"

record fee_structure =
  fs_schoolId :: string
  fs_className :: string
  fs_feeAmount :: jsnum
  fs_isActive :: bool
  fs_deleted :: bool

record period_db =
  pd_periods :: "period list"
  pd_assignments :: "assignment list"
  pd_pupils :: "pupil list"
  pd_structures :: "fee_structure list"
  pd_next :: nat
  pd_audit :: audit_db

datatype date_arg = Undefined | Given bool "millis option"

datatype period_error = PE_VALIDATION | PE_NOT_FOUND | PE_SCHEMA | PE_DUPLICATE

fun date_truthy :: "date_arg \<Rightarrow> bool" where
  "date_truthy Undefined = False"
| "date_truthy (Given b _) = b"

fun date_value :: "date_arg \<Rightarrow> millis option" where
  "date_value Undefined = None"
| "date_value (Given _ t) = t"

text \<open>What the schema asks of a period, and the unique index on the school and the name.\<close>

definition name_valid :: "string \<Rightarrow> bool" where
  "name_valid s \<longleftrightarrow> trim s \<noteq> [] \<and> length (trim s) \<le> 100"

definition name_used :: "period_db \<Rightarrow> nat \<Rightarrow> string \<Rightarrow> string \<Rightarrow> bool" where
  "name_used db except school nm \<longleftrightarrow>
     (\<exists>p \<in> set (pd_periods db). ap_schoolId p = school \<and> ap_name p = nm \<and> ap_id p \<noteq> except)"

definition add_period :: "period \<Rightarrow> period_db \<Rightarrow> period_db" where
  "add_period p db = db\<lparr>pd_periods := pd_periods db @ [p\<lparr>ap_id := pd_next db\<rparr>], pd_next := pd_next db + 1\<rparr>"

definition new_period :: "string \<Rightarrow> string \<Rightarrow> millis \<Rightarrow> millis \<Rightarrow> bool \<Rightarrow> string option \<Rightarrow> period" where
  "new_period school nm st en current notes =
     \<lparr>ap_id = 0, ap_schoolId = school, ap_name = trim nm, ap_startsAt = st, ap_endsAt = en, ap_isCurrent = current,
      ap_isClosed = False, ap_carried = Fin 0, ap_notes = notes\<rparr>"

subsection \<open>Operations on periods\<close>

definition createPeriod ::
  "string \<Rightarrow> string option \<Rightarrow> date_arg \<Rightarrow> date_arg \<Rightarrow> string option \<Rightarrow> period_db
   \<Rightarrow> period_db \<times> (period_error, period) result" where
  "createPeriod school nm startsAt endsAt notes db =
     (if school = [] \<or> \<not> present nm \<or> \<not> date_truthy startsAt \<or> \<not> date_truthy endsAt then (db, Inl PE_VALIDATION)
      else case (date_value startsAt, date_value endsAt) of
             (Some st, Some en) \<Rightarrow>
               if en \<le> st then (db, Inl PE_VALIDATION)
               else if \<not> name_valid (the nm) then (db, Inl PE_SCHEMA)
               else if name_used db (pd_next db) school (trim (the nm)) then (db, Inl PE_DUPLICATE)
               else let p = new_period school (the nm) st en False (if present notes then notes else None)
                    in (add_period p db, Inr (p\<lparr>ap_id := pd_next db\<rparr>))
           | _ \<Rightarrow> (db, Inl PE_SCHEMA))"

definition listPeriods :: "string \<Rightarrow> period_db \<Rightarrow> period list" where
  "listPeriods school db = rev (sort_key ap_startsAt (filter (\<lambda>p. ap_schoolId p = school) (pd_periods db)))"

definition getCurrentPeriod :: "string \<Rightarrow> period_db \<Rightarrow> period option" where
  "getCurrentPeriod school db = find (\<lambda>p. ap_schoolId p = school \<and> ap_isCurrent p) (pd_periods db)"

definition find_period :: "string \<Rightarrow> nat \<Rightarrow> period_db \<Rightarrow> period option" where
  "find_period school pid db = find (\<lambda>p. ap_id p = pid \<and> ap_schoolId p = school) (pd_periods db)"

definition getPeriodById :: "string \<Rightarrow> nat \<Rightarrow> period_db \<Rightarrow> (period_error, period) result" where
  "getPeriodById school pid db = (case find_period school pid db of None \<Rightarrow> Inl PE_NOT_FOUND | Some p \<Rightarrow> Inr p)"

text \<open>The fields of an update; the name and the notes are \<open>None\<close> when undefined and \<open>Some None\<close> when null.\<close>

record period_update =
  up_name :: "string option option"
  up_startsAt :: date_arg
  up_endsAt :: date_arg
  up_notes :: "string option option"

definition set_date :: "date_arg \<Rightarrow> millis \<Rightarrow> millis" where
  "set_date d old = (case date_value d of None \<Rightarrow> old | Some t \<Rightarrow> t)"

definition date_invalid :: "date_arg \<Rightarrow> bool" where
  "date_invalid d \<longleftrightarrow> d \<noteq> Undefined \<and> date_value d = None"

definition replace_period :: "period \<Rightarrow> period_db \<Rightarrow> period_db" where
  "replace_period p db = db\<lparr>pd_periods := map (\<lambda>q. if ap_id q = ap_id p then p else q) (pd_periods db)\<rparr>"

definition updatePeriod ::
  "string \<Rightarrow> nat \<Rightarrow> period_update \<Rightarrow> period_db \<Rightarrow> period_db \<times> (period_error, period) result" where
  "updatePeriod school pid u db =
     (case find_period school pid db of
        None \<Rightarrow> (db, Inl PE_NOT_FOUND)
      | Some p \<Rightarrow>
          if ap_isClosed p \<and> ((up_name u \<noteq> None \<and> present (the (up_name u))) \<or> date_truthy (up_startsAt u) \<or> date_truthy (up_endsAt u))
          then (db, Inl PE_VALIDATION)
          else
            let nm = (case up_name u of None \<Rightarrow> Some (ap_name p) | Some x \<Rightarrow> x);
                p' = p\<lparr>ap_startsAt := set_date (up_startsAt u) (ap_startsAt p),
                       ap_endsAt := set_date (up_endsAt u) (ap_endsAt p),
                       ap_notes := (case up_notes u of None \<Rightarrow> ap_notes p | Some x \<Rightarrow> x)\<rparr>
            in if ap_endsAt p' \<le> ap_startsAt p' then (db, Inl PE_VALIDATION)
               else if date_invalid (up_startsAt u) \<or> date_invalid (up_endsAt u) \<or> nm = None \<or> \<not> name_valid (the nm)
               then (db, Inl PE_SCHEMA)
               else if name_used db pid school (trim (the nm)) then (db, Inl PE_DUPLICATE)
               else (replace_period (p'\<lparr>ap_name := trim (the nm)\<rparr>) db, Inr (p'\<lparr>ap_name := trim (the nm)\<rparr>)))"

subsection \<open>Fee assignments\<close>

definition sf_key :: "assignment \<Rightarrow> string \<times> string \<times> nat" where
  "sf_key a = (sf_schoolId a, sf_studentId a, sf_periodId a)"

definition find_assignment :: "string \<times> string \<times> nat \<Rightarrow> period_db \<Rightarrow> assignment option" where
  "find_assignment k db = find (\<lambda>a. sf_key a = k) (pd_assignments db)"

text \<open>Negative amounts are refused by the schema; the remaining balance and the credit have no bound.\<close>

definition assignment_valid :: "assignment \<Rightarrow> bool" where
  "assignment_valid a \<longleftrightarrow>
     jleq (Fin 0) (sf_feeAmount a) \<and> jleq (Fin 0) (sf_carriedArrears a) \<and> jleq (Fin 0) (sf_totalPaid a)"

definition reassigned :: "jsnum \<Rightarrow> jsnum \<Rightarrow> millis option \<Rightarrow> assignment \<Rightarrow> assignment" where
  "reassigned fee carried deadline a =
     (let totalDue = jadd fee carried
      in a\<lparr>sf_feeAmount := fee, sf_carriedArrears := carried,
           sf_remainingBalance := jmax (Fin 0) (jsub totalDue (sf_totalPaid a)),
           sf_feePaid := jleq totalDue (sf_totalPaid a), sf_deadline := deadline\<rparr>)"

definition first_assignment ::
  "string \<Rightarrow> string \<Rightarrow> nat \<Rightarrow> string \<Rightarrow> jsnum \<Rightarrow> jsnum \<Rightarrow> millis option \<Rightarrow> assignment" where
  "first_assignment school student pid pname fee carried deadline =
     (let totalDue = jadd fee carried
      in \<lparr>sf_schoolId = school, sf_studentId = student, sf_periodId = pid, sf_periodName = pname,
          sf_feeAmount = fee, sf_carriedArrears = carried, sf_totalPaid = Fin 0,
          sf_remainingBalance = totalDue, sf_feePaid = jleq totalDue (Fin 0),
          sf_deadline = deadline, sf_creditAdjustments = Fin 0\<rparr>)"

definition upsertStudentPeriodFee ::
  "string \<Rightarrow> string \<Rightarrow> nat \<Rightarrow> jsnum \<Rightarrow> millis option \<Rightarrow> jsnum option \<Rightarrow> period_db
   \<Rightarrow> period_db \<times> (period_error, assignment) result" where
  "upsertStudentPeriodFee school student pid fee deadline carried db =
     (case find_period school pid db of
        None \<Rightarrow> (db, Inl PE_NOT_FOUND)
      | Some p \<Rightarrow>
          if ap_isClosed p then (db, Inl PE_VALIDATION)
          else case find_assignment (school, student, pid) db of
              Some a \<Rightarrow>
                let a' = reassigned fee (or_zero carried) deadline a
                in if assignment_valid a'
                   then (db\<lparr>pd_assignments := update_first (\<lambda>b. sf_key b = (school, student, pid)) (\<lambda>_. a') (pd_assignments db)\<rparr>, Inr a')
                   else (db, Inl PE_SCHEMA)
            | None \<Rightarrow>
                let a = first_assignment school student pid (ap_name p) fee (or_zero carried) deadline
                in if assignment_valid a then (db\<lparr>pd_assignments := pd_assignments db @ [a]\<rparr>, Inr a)
                   else (db, Inl PE_SCHEMA))"

definition getStudentPeriodFee :: "string \<Rightarrow> string \<Rightarrow> nat \<Rightarrow> period_db \<Rightarrow> assignment option" where
  "getStudentPeriodFee school student pid db = find_assignment (school, student, pid) db"

definition getStudentAllPeriodFees :: "string \<Rightarrow> string \<Rightarrow> period_db \<Rightarrow> assignment list" where
  "getStudentAllPeriodFees school student db =
     filter (\<lambda>a. sf_schoolId a = school \<and> sf_studentId a = student) (pd_assignments db)"

subsection \<open>Rollover\<close>

definition rollover_check ::
  "string \<Rightarrow> nat option \<Rightarrow> string option \<Rightarrow> period_db \<Rightarrow> (period_error, period \<times> period) result" where
  "rollover_check school nextId performedBy db =
     (if school = [] \<or> nextId = None \<or> \<not> present performedBy then Inl PE_VALIDATION
      else case getCurrentPeriod school db of
             None \<Rightarrow> Inl PE_NOT_FOUND
           | Some cur \<Rightarrow>
               (case find_period school (the nextId) db of
                  None \<Rightarrow> Inl PE_NOT_FOUND
                | Some nxt \<Rightarrow>
                    if ap_isClosed nxt then Inl PE_VALIDATION
                    else if ap_id nxt = ap_id cur then Inl PE_VALIDATION
                    else Inr (cur, nxt)))"

definition update_period_id :: "nat \<Rightarrow> (period \<Rightarrow> period) \<Rightarrow> period_db \<Rightarrow> period_db" where
  "update_period_id pid f db = db\<lparr>pd_periods := map (\<lambda>p. if ap_id p = pid then f p else p) (pd_periods db)\<rparr>"

text \<open>A map built from a list of pairs keeps the last value of a key.\<close>

definition js_map :: "('k \<times> 'v) list \<Rightarrow> 'k \<Rightarrow> 'v option" where
  "js_map kvs k = map_of (rev kvs) k"

definition fee_by_class :: "string \<Rightarrow> period_db \<Rightarrow> string \<Rightarrow> jsnum option" where
  "fee_by_class school db =
     js_map (map (\<lambda>f. (fs_className f, fs_feeAmount f))
       (filter (\<lambda>f. fs_schoolId f = school \<and> fs_isActive f \<and> \<not> fs_deleted f) (pd_structures db)))"

definition closing_by_student :: "string \<Rightarrow> nat \<Rightarrow> period_db \<Rightarrow> string \<Rightarrow> assignment option" where
  "closing_by_student school pid db =
     js_map (map (\<lambda>a. (sf_studentId a, a)) (filter (\<lambda>a. sf_schoolId a = school \<and> sf_periodId a = pid) (pd_assignments db)))"

definition arrears_of :: "(string \<Rightarrow> assignment option) \<Rightarrow> pupil \<Rightarrow> jsnum" where
  "arrears_of closing s =
     (case closing (pu_studentId s) of
        Some a \<Rightarrow> jmax (Fin 0) (jsub (jadd (sf_feeAmount a) (or_zero (Some (sf_carriedArrears a)))) (or_zero (Some (sf_totalPaid a))))
      | None \<Rightarrow> (case pu_remainingBalance s of Some r \<Rightarrow> jmax (Fin 0) r | None \<Rightarrow> Fin 0))"

definition new_fee_of :: "(string \<Rightarrow> jsnum option) \<Rightarrow> pupil \<Rightarrow> jsnum" where
  "new_fee_of fees s = (case fees (pu_class s) of Some x \<Rightarrow> x | None \<Rightarrow> pu_feeAmount s)"

text \<open>One operation per student on each collection: the key, and the values it sets.\<close>

record rollover_op =
  ro_student :: string
  ro_fee :: jsnum
  ro_arrears :: jsnum

definition ro_due :: "rollover_op \<Rightarrow> jsnum" where
  "ro_due q = jadd (ro_fee q) (ro_arrears q)"

definition rollover_op_of :: "(string \<Rightarrow> assignment option) \<Rightarrow> (string \<Rightarrow> jsnum option) \<Rightarrow> pupil \<Rightarrow> rollover_op" where
  "rollover_op_of closing fees s =
     \<lparr>ro_student = pu_studentId s, ro_fee = new_fee_of fees s, ro_arrears = arrears_of closing s\<rparr>"

definition set_assignment :: "string \<Rightarrow> rollover_op \<Rightarrow> assignment \<Rightarrow> assignment" where
  "set_assignment pname q a =
     a\<lparr>sf_periodName := pname, sf_feeAmount := ro_fee q, sf_carriedArrears := ro_arrears q, sf_totalPaid := Fin 0,
       sf_remainingBalance := ro_due q, sf_feePaid := jleq (ro_due q) (Fin 0)\<rparr>"

definition blank_assignment :: "string \<Rightarrow> string \<Rightarrow> nat \<Rightarrow> assignment" where
  "blank_assignment school student pid =
     \<lparr>sf_schoolId = school, sf_studentId = student, sf_periodId = pid, sf_periodName = [], sf_feeAmount = Fin 0,
      sf_carriedArrears = Fin 0, sf_totalPaid = Fin 0, sf_remainingBalance = Fin 0, sf_feePaid = False,
      sf_deadline = None, sf_creditAdjustments = Fin 0\<rparr>"

definition apply_period_op :: "string \<Rightarrow> nat \<Rightarrow> string \<Rightarrow> period_db \<Rightarrow> rollover_op \<Rightarrow> period_db" where
  "apply_period_op school pid pname db q =
     (let k = (school, ro_student q, pid) in
      db\<lparr>pd_assignments :=
          (if find_assignment k db = None
           then pd_assignments db @ [set_assignment pname q (blank_assignment school (ro_student q) pid)]
           else update_first (\<lambda>a. sf_key a = k) (set_assignment pname q) (pd_assignments db))\<rparr>)"

definition set_pupil :: "string \<Rightarrow> rollover_op \<Rightarrow> pupil \<Rightarrow> pupil" where
  "set_pupil pname q s =
     s\<lparr>pu_feeAmount := ro_fee q, pu_totalPaid := Fin 0, pu_remainingBalance := Some (ro_due q),
       pu_feePaid := jleq (ro_due q) (Fin 0), pu_academicYear := Some pname\<rparr>"

definition apply_student_op :: "string \<Rightarrow> string \<Rightarrow> period_db \<Rightarrow> rollover_op \<Rightarrow> period_db" where
  "apply_student_op school pname db q =
     db\<lparr>pd_pupils := update_first (\<lambda>s. pu_schoolId s = school \<and> pu_studentId s = ro_student q) (set_pupil pname q) (pd_pupils db)\<rparr>"

definition rollover_batch_size :: nat where
  "rollover_batch_size = 500"

fun in_batches :: "nat \<Rightarrow> 'a list \<Rightarrow> 'a list list" where
  "in_batches n [] = []"
| "in_batches n (x # xs) = (if n = 0 then [x # xs] else take n (x # xs) # in_batches n (drop n (x # xs)))"

definition rollover_batch ::
  "string \<Rightarrow> nat \<Rightarrow> string \<Rightarrow> (string \<Rightarrow> assignment option) \<Rightarrow> (string \<Rightarrow> jsnum option)
   \<Rightarrow> period_db \<times> nat \<times> jsnum \<Rightarrow> pupil list \<Rightarrow> period_db \<times> nat \<times> jsnum" where
  "rollover_batch school pid pname closing fees st batch =
     (case st of (db, n, arrears) \<Rightarrow>
        let ops = map (rollover_op_of closing fees) batch;
            db1 = foldl (apply_period_op school pid pname) db ops;
            db2 = foldl (apply_student_op school pname) db1 ops
        in (db2, n + length ops, foldl jadd arrears (map ro_arrears ops)))"

text \<open>
  The transaction, from the periods that the checks found; the students, the fee structures and the
  assignments of the closing period are read inside it.
\<close>

definition rollover_txn :: "string \<Rightarrow> period \<Rightarrow> period \<Rightarrow> period_db \<Rightarrow> period_db \<times> nat \<times> jsnum" where
  "rollover_txn school cur nxt db =
     (let db1 = update_period_id (ap_id cur) (\<lambda>p. p\<lparr>ap_isCurrent := False, ap_isClosed := True\<rparr>) db;
          db2 = update_period_id (ap_id nxt) (\<lambda>p. p\<lparr>ap_isCurrent := True\<rparr>) db1;
          students = filter (\<lambda>s. pu_schoolId s = school \<and> \<not> pu_deleted s) (pd_pupils db2);
          fees = fee_by_class school db2;
          closing = closing_by_student school (ap_id cur) db2
      in case foldl (rollover_batch school (ap_id nxt) (ap_name nxt) closing fees) (db2, 0, Fin 0)
                (in_batches rollover_batch_size students) of
           (db3, n, arrears) \<Rightarrow>
             (update_period_id (ap_id nxt) (\<lambda>p. p\<lparr>ap_carried := arrears\<rparr>) db3, n, arrears))"

record rollover_result =
  rr_closed :: "nat \<times> string"
  rr_new :: "nat \<times> string"
  rr_students :: nat
  rr_arrears :: jsnum

definition rollover_audit :: "string option \<times> string option \<Rightarrow> string \<Rightarrow> string \<Rightarrow> period \<Rightarrow> period \<Rightarrow> nat \<Rightarrow> jsnum \<Rightarrow> audit_args" where
  "rollover_audit client school performedBy cur nxt n arrears =
     \<lparr>aa_schoolId = school, aa_action = Some ''academic_period_rollover'', aa_performedBy = Some performedBy,
      aa_targetId = Some (nat_to_string 16 (ap_id nxt)), aa_targetType = Some ''academic_period'',
      aa_details = VObj [(''closedPeriodId'', VStr (nat_to_string 16 (ap_id cur))), (''closedPeriodName'', VStr (ap_name cur)),
        (''newPeriodId'', VStr (nat_to_string 16 (ap_id nxt))), (''newPeriodName'', VStr (ap_name nxt)),
        (''studentsRolledOver'', VNum (Fin (of_nat n))), (''totalArrears'', VNum arrears)],
      aa_result = ''success'', aa_errorMessage = None, aa_ipAddress = fst client, aa_userAgent = snd client\<rparr>"

definition rolloverToNextPeriod ::
  "(string \<Rightarrow> string) \<Rightarrow> (jsnum \<Rightarrow> string) \<Rightarrow> millis \<Rightarrow> string option \<times> string option \<Rightarrow> string \<Rightarrow> nat option
   \<Rightarrow> string option \<Rightarrow> period_db
   \<Rightarrow> period_db \<times> (period_error, rollover_result) result" where
  "rolloverToNextPeriod hmac num now client school nextId performedBy db =
     (case rollover_check school nextId performedBy db of
        Inl e \<Rightarrow> (db, Inl e)
      | Inr (cur, nxt) \<Rightarrow>
          (case rollover_txn school cur nxt db of
             (db', n, arrears) \<Rightarrow>
               (db'\<lparr>pd_audit := logAudit False hmac num (rollover_audit client school (the performedBy) cur nxt n arrears) now (pd_audit db')\<rparr>,
                Inr \<lparr>rr_closed = (ap_id cur, ap_name cur), rr_new = (ap_id nxt, ap_name nxt), rr_students = n, rr_arrears = arrears\<rparr>)))"

text \<open>The migration's helper: the active schools with no period get one for the current year.\<close>

definition seed_school :: "millis \<Rightarrow> period_db \<times> nat \<Rightarrow> string \<Rightarrow> period_db \<times> nat" where
  "seed_school now st school =
     (case st of (db, n) \<Rightarrow>
        if \<exists>p \<in> set (pd_periods db). ap_schoolId p = school then (db, n)
        else let year = getUTCFullYear now
             in (add_period (new_period school (int_to_string year @ '' Default Period'') (Date_UTC year 0 1 0)
                   (Date_UTC year 11 31 86399999) True (Some ''Auto-created during migration to cover existing data'')) db, n + 1))"

definition seedDefaultPeriodsForExistingSchools :: "millis \<Rightarrow> string list \<Rightarrow> period_db \<Rightarrow> period_db \<times> nat" where
  "seedDefaultPeriodsForExistingSchools now activeSchools db = foldl (seed_school now) (db, 0) activeSchools"

subsection \<open>Bulk writes\<close>

lemma concat_in_batches: "concat (in_batches n xs) = xs"
  by (induction n xs rule: in_batches.induct) auto

lemma update_first_distinct:
  assumes "distinct (map key xs)"
  shows "update_first (\<lambda>x. key x = k) f xs = map (\<lambda>x. if key x = k then f x else x) xs"
  using assms
proof (induction xs)
  case (Cons x xs)
  have "map (\<lambda>y. if key y = key x then f y else y) xs = xs"
    using distinct_key_other [OF Cons.prems] by (intro map_idI) auto
  with Cons show ?case by auto
qed simp

text \<open>
  A list of operations on documents with distinct keys, each of which changes the document of its
  own key and leaves the key as it is: the documents are changed independently.
\<close>

locale bulk_update =
  fixes key :: "'x \<Rightarrow> 'k" and target :: "'q \<Rightarrow> 'k" and change :: "'q \<Rightarrow> 'x \<Rightarrow> 'x"
  assumes key_change: "key (change q x) = key x"
begin

definition apply_op :: "'x list \<Rightarrow> 'q \<Rightarrow> 'x list" where
  "apply_op xs q = update_first (\<lambda>x. key x = target q) (change q) xs"

definition changed :: "'q list \<Rightarrow> 'x \<Rightarrow> 'x" where
  "changed qs x = (case find (\<lambda>q. target q = key x) qs of None \<Rightarrow> x | Some q \<Rightarrow> change q x)"

lemma keys_apply_op: "distinct (map key xs) \<Longrightarrow> map key (apply_op xs q) = map key xs"
  by (simp add: apply_op_def update_first_distinct key_change)

lemma bulk:
  assumes "distinct (map key xs)" "distinct (map target qs)"
  shows "foldl apply_op xs qs = map (changed qs) xs"
  using assms
proof (induction qs arbitrary: xs)
  case Nil
  then show ?case by (simp add: changed_def)
next
  case (Cons q qs)
  have "foldl apply_op xs (q # qs) = map (changed qs) (apply_op xs q)"
    using Cons.IH [of "apply_op xs q"] Cons.prems keys_apply_op by simp
  also have "\<dots> = map (changed (q # qs)) xs"
  proof -
    have "find (\<lambda>r. target r = target q) qs = None"
      using Cons.prems(2) by (auto simp: find_None_iff image_iff)
    then show ?thesis
      using Cons.prems(1) by (simp add: apply_op_def update_first_distinct changed_def key_change)
  qed
  finally show ?case .
qed

end

definition pu_key :: "pupil \<Rightarrow> string \<times> string" where
  "pu_key s = (pu_schoolId s, pu_studentId s)"

interpretation pupils: bulk_update pu_key "\<lambda>q. (school, ro_student q)" "set_pupil pname" for school pname
  by unfold_locales (simp add: pu_key_def set_pupil_def)

lemma apply_student_op_pupils:
  "pd_pupils (apply_student_op school pname db q) = pupils.apply_op school pname (pd_pupils db) q"
  by (simp add: apply_student_op_def pupils.apply_op_def pu_key_def)

lemma apply_op_frames [simp]:
  "pd_periods (apply_student_op school pname db q) = pd_periods db"
  "pd_assignments (apply_student_op school pname db q) = pd_assignments db"
  "pd_next (apply_student_op school pname db q) = pd_next db"
  "pd_audit (apply_student_op school pname db q) = pd_audit db"
  "pd_structures (apply_student_op school pname db q) = pd_structures db"
  "pd_periods (apply_period_op school pid pname db q) = pd_periods db"
  "pd_pupils (apply_period_op school pid pname db q) = pd_pupils db"
  "pd_next (apply_period_op school pid pname db q) = pd_next db"
  "pd_audit (apply_period_op school pid pname db q) = pd_audit db"
  "pd_structures (apply_period_op school pid pname db q) = pd_structures db"
  by (simp_all add: apply_student_op_def apply_period_op_def Let_def)

text \<open>The assignments are a function of their own: insert or update the document of a key.\<close>

definition upsert_op :: "string \<Rightarrow> nat \<Rightarrow> string \<Rightarrow> assignment list \<Rightarrow> rollover_op \<Rightarrow> assignment list" where
  "upsert_op school pid pname as q =
     (let k = (school, ro_student q, pid) in
      if find (\<lambda>a. sf_key a = k) as = None
      then as @ [set_assignment pname q (blank_assignment school (ro_student q) pid)]
      else update_first (\<lambda>a. sf_key a = k) (set_assignment pname q) as)"

lemma apply_period_op_assignments:
  "pd_assignments (apply_period_op school pid pname db q) = upsert_op school pid pname (pd_assignments db) q"
  by (simp add: apply_period_op_def upsert_op_def find_assignment_def Let_def)

lemma sf_key_set_assignment [simp]: "sf_key (set_assignment pname q a) = sf_key a"
  by (simp add: sf_key_def set_assignment_def)

lemma sf_key_blank [simp]: "sf_key (blank_assignment school student pid) = (school, student, pid)"
  by (simp add: sf_key_def blank_assignment_def)

lemma find_upsert_op:
  "find (\<lambda>a. sf_key a = k) (upsert_op school pid pname as q) =
     (if k = (school, ro_student q, pid)
      then Some (set_assignment pname q
        (case find (\<lambda>a. sf_key a = k) as of None \<Rightarrow> blank_assignment school (ro_student q) pid | Some a \<Rightarrow> a))
      else find (\<lambda>a. sf_key a = k) as)"
proof (cases "k = (school, ro_student q, pid)")
  case True
  then show ?thesis
    by (auto simp: upsert_op_def Let_def find_append find_update_first split: option.splits)
next
  case False
  then have "find (\<lambda>a. sf_key a = k) (update_first (\<lambda>a. sf_key a = (school, ro_student q, pid)) (set_assignment pname q) as)
      = find (\<lambda>a. sf_key a = k) as"
    by (intro find_update_first_other) auto
  with False show ?thesis by (auto simp: upsert_op_def Let_def find_append split: option.splits)
qed

lemma find_upserts:
  assumes "distinct (map ro_student qs)"
  shows "find (\<lambda>a. sf_key a = k) (foldl (upsert_op school pid pname) as qs) =
     (case find (\<lambda>q. (school, ro_student q, pid) = k) qs of
        None \<Rightarrow> find (\<lambda>a. sf_key a = k) as
      | Some q \<Rightarrow> Some (set_assignment pname q
          (case find (\<lambda>a. sf_key a = k) as of None \<Rightarrow> blank_assignment school (ro_student q) pid | Some a \<Rightarrow> a)))"
  using assms
proof (induction qs arbitrary: as)
  case (Cons q qs)
  show ?case
  proof (cases "k = (school, ro_student q, pid)")
    case True
    then have "find (\<lambda>r. (school, ro_student r, pid) = k) qs = None"
      using Cons.prems by (auto simp: find_None_iff image_iff)
    then show ?thesis using Cons True by (simp add: find_upsert_op)
  next
    case False
    then have "find (\<lambda>a. sf_key a = k) (upsert_op school pid pname as q) = find (\<lambda>a. sf_key a = k) as"
      by (simp add: find_upsert_op)
    with False Cons show ?thesis
      by (cases "find (\<lambda>q. (school, ro_student q, pid) = k) qs") simp_all
  qed
qed simp

subsection \<open>The effect of a rollover\<close>

abbreviation batch_ops :: "(string \<Rightarrow> assignment option) \<Rightarrow> (string \<Rightarrow> jsnum option) \<Rightarrow> pupil list \<Rightarrow> rollover_op list" where
  "batch_ops closing fees students \<equiv> map (rollover_op_of closing fees) students"

lemma foldl_student_op [simp]:
  "pd_pupils (foldl (apply_student_op school pname) db qs) = foldl (pupils.apply_op school pname) (pd_pupils db) qs"
  "pd_assignments (foldl (apply_student_op school pname) db qs) = pd_assignments db"
  "pd_periods (foldl (apply_student_op school pname) db qs) = pd_periods db"
  "pd_next (foldl (apply_student_op school pname) db qs) = pd_next db"
  "pd_audit (foldl (apply_student_op school pname) db qs) = pd_audit db"
  "pd_structures (foldl (apply_student_op school pname) db qs) = pd_structures db"
  by (induction qs arbitrary: db) (simp_all add: apply_student_op_pupils)

lemma foldl_period_op [simp]:
  "pd_assignments (foldl (apply_period_op school pid pname) db qs) = foldl (upsert_op school pid pname) (pd_assignments db) qs"
  "pd_pupils (foldl (apply_period_op school pid pname) db qs) = pd_pupils db"
  "pd_periods (foldl (apply_period_op school pid pname) db qs) = pd_periods db"
  "pd_next (foldl (apply_period_op school pid pname) db qs) = pd_next db"
  "pd_audit (foldl (apply_period_op school pid pname) db qs) = pd_audit db"
  "pd_structures (foldl (apply_period_op school pid pname) db qs) = pd_structures db"
  by (induction qs arbitrary: db) (simp_all add: apply_period_op_assignments)

lemma rollover_batches:
  assumes "foldl (rollover_batch school pid pname closing fees) (db, n, arrears) bs = (db', n', arrears')"
  shows "pd_pupils db' = foldl (pupils.apply_op school pname) (pd_pupils db) (batch_ops closing fees (concat bs))
    \<and> pd_assignments db' = foldl (upsert_op school pid pname) (pd_assignments db) (batch_ops closing fees (concat bs))
    \<and> n' = n + length (concat bs)
    \<and> arrears' = foldl jadd arrears (map (arrears_of closing) (concat bs))
    \<and> pd_periods db' = pd_periods db \<and> pd_next db' = pd_next db \<and> pd_audit db' = pd_audit db
    \<and> pd_structures db' = pd_structures db"
  using assms
proof (induction bs arbitrary: db n arrears)
  case (Cons b bs)
  define db1 where "db1 = foldl (apply_student_op school pname) (foldl (apply_period_op school pid pname) db (batch_ops closing fees b)) (batch_ops closing fees b)"
  have step: "rollover_batch school pid pname closing fees (db, n, arrears) b
      = (db1, n + length b, foldl jadd arrears (map (arrears_of closing) b))"
    by (simp add: rollover_batch_def db1_def Let_def rollover_op_of_def comp_def)
  from Cons.prems have "foldl (rollover_batch school pid pname closing fees)
      (db1, n + length b, foldl jadd arrears (map (arrears_of closing) b)) bs = (db', n', arrears')"
    by (simp only: foldl_Cons step)
  from Cons.IH [OF this] show ?case by (simp add: db1_def)
qed simp

text \<open>The indexes: documents have distinct identifiers and keys.\<close>

definition keys_ok :: "period_db \<Rightarrow> bool" where
  "keys_ok db \<longleftrightarrow> distinct (map ap_id (pd_periods db)) \<and> (\<forall>p \<in> set (pd_periods db). ap_id p < pd_next db)
     \<and> distinct (map sf_key (pd_assignments db)) \<and> distinct (map pu_key (pd_pupils db))"

definition active_students :: "string \<Rightarrow> period_db \<Rightarrow> pupil list" where
  "active_students school db = filter (\<lambda>s. pu_schoolId s = school \<and> \<not> pu_deleted s) (pd_pupils db)"

definition rolled_period :: "nat \<Rightarrow> nat \<Rightarrow> jsnum \<Rightarrow> period \<Rightarrow> period" where
  "rolled_period cur nxt arrears p =
     (if ap_id p = nxt then p\<lparr>ap_isCurrent := True, ap_carried := arrears\<rparr>
      else if ap_id p = cur then p\<lparr>ap_isCurrent := False, ap_isClosed := True\<rparr> else p)"

definition op_for :: "string \<Rightarrow> nat \<Rightarrow> period_db \<Rightarrow> pupil \<Rightarrow> rollover_op" where
  "op_for school cur db = rollover_op_of (closing_by_student school cur db) (fee_by_class school db)"

lemma closing_update_period [simp]:
  "closing_by_student school cur (update_period_id pid f db) = closing_by_student school cur db"
  "fee_by_class school (update_period_id pid f db) = fee_by_class school db"
  "pd_pupils (update_period_id pid f db) = pd_pupils db" "pd_assignments (update_period_id pid f db) = pd_assignments db"
  "pd_next (update_period_id pid f db) = pd_next db" "pd_audit (update_period_id pid f db) = pd_audit db"
  "pd_structures (update_period_id pid f db) = pd_structures db"
  by (simp_all add: update_period_id_def closing_by_student_def fee_by_class_def)

lemma find_op_of_student:
  assumes "distinct (map pu_key ps)" "s \<in> set ps" "pu_schoolId s = school"
  shows "find (\<lambda>q. (school, ro_student q) = pu_key s) (batch_ops closing fees (filter (\<lambda>s. pu_schoolId s = school \<and> \<not> pu_deleted s) ps))
    = (if pu_deleted s then None else Some (rollover_op_of closing fees s))"
  using assms
proof (induction ps)
  case (Cons p ps)
  then show ?case
  proof (cases "p = s")
    case True
    have "find (\<lambda>q. (school, ro_student q) = pu_key s) (batch_ops closing fees (filter (\<lambda>s. pu_schoolId s = school \<and> \<not> pu_deleted s) ps)) = None"
    proof -
      have "pu_key s \<notin> pu_key ` set ps" using Cons.prems(1) True by simp
      then show ?thesis by (auto simp: find_None_iff rollover_op_of_def) (metis image_eqI pu_key_def)
    qed
    moreover have "(school, ro_student (rollover_op_of closing fees s)) = pu_key s"
      using Cons.prems(3) by (simp add: rollover_op_of_def pu_key_def)
    ultimately show ?thesis using Cons.prems(3) True by simp
  next
    case False
    then have "pu_key p \<noteq> pu_key s" using Cons.prems by force
    then have "pu_schoolId p = school \<Longrightarrow> (school, ro_student (rollover_op_of closing fees p)) \<noteq> pu_key s"
      by (simp add: rollover_op_of_def pu_key_def)
    then show ?thesis using Cons False by simp
  qed
qed simp

lemma distinct_active_ids:
  assumes "distinct (map pu_key ps)"
  shows "distinct (map pu_studentId (filter (\<lambda>s. pu_schoolId s = school \<and> \<not> pu_deleted s) ps))"
  using assms
proof (induction ps)
  case (Cons p ps)
  have "pu_studentId p \<notin> pu_studentId ` {s \<in> set ps. pu_schoolId s = pu_schoolId p \<and> \<not> pu_deleted s}"
  proof
    assume "pu_studentId p \<in> pu_studentId ` {s \<in> set ps. pu_schoolId s = pu_schoolId p \<and> \<not> pu_deleted s}"
    then obtain s where "s \<in> set ps" "pu_key s = pu_key p" by (auto simp: pu_key_def)
    then have "pu_key p \<in> pu_key ` set ps" by (metis image_eqI)
    with Cons.prems show False by simp
  qed
  with Cons show ?case by auto
qed simp

lemma changed_pupil:
  assumes "distinct (map pu_key ps)" "s \<in> set ps"
  shows "pupils.changed school pname (batch_ops closing fees (filter (\<lambda>s. pu_schoolId s = school \<and> \<not> pu_deleted s) ps)) s
    = (if pu_schoolId s = school \<and> \<not> pu_deleted s then set_pupil pname (rollover_op_of closing fees s) s else s)"
proof (cases "pu_schoolId s = school")
  case True
  then show ?thesis using find_op_of_student [OF assms True, of closing fees] by (simp add: pupils.changed_def)
next
  case False
  then have "find (\<lambda>q. (school, ro_student q) = pu_key s) qs = None" for qs :: "rollover_op list"
    by (auto simp: find_None_iff pu_key_def)
  with False show ?thesis by (simp add: pupils.changed_def)
qed

lemma find_map_op:
  "find (\<lambda>q. (school, ro_student q, pid) = k) (batch_ops closing fees ss)
     = map_option (rollover_op_of closing fees) (find (\<lambda>s. (school, pu_studentId s, pid) = k) ss)"
  by (induction ss) (auto simp: rollover_op_of_def)

definition next_assignment :: "string \<Rightarrow> nat \<Rightarrow> period \<Rightarrow> period_db \<Rightarrow> pupil \<Rightarrow> assignment" where
  "next_assignment school cur nxt db s =
     set_assignment (ap_name nxt) (op_for school cur db s)
       (case find_assignment (school, pu_studentId s, ap_id nxt) db of
          None \<Rightarrow> blank_assignment school (pu_studentId s) (ap_id nxt) | Some a \<Rightarrow> a)"

lemma rollover_txn_effect:
  assumes "keys_ok db" "ap_id cur \<noteq> ap_id nxt" "rollover_txn school cur nxt db = (db', n, arrears)"
  shows "pd_periods db' = map (rolled_period (ap_id cur) (ap_id nxt) arrears) (pd_periods db)"
    and "pd_pupils db' = map (\<lambda>s. if pu_schoolId s = school \<and> \<not> pu_deleted s
           then set_pupil (ap_name nxt) (op_for school (ap_id cur) db s) s else s) (pd_pupils db)"
    and "find_assignment k db' = (case find (\<lambda>s. (school, pu_studentId s, ap_id nxt) = k) (active_students school db) of
           None \<Rightarrow> find_assignment k db | Some s \<Rightarrow> Some (next_assignment school (ap_id cur) nxt db s))"
    and "n = length (active_students school db)"
    and "arrears = foldl jadd (Fin 0) (map (arrears_of (closing_by_student school (ap_id cur) db)) (active_students school db))"
    and "pd_next db' = pd_next db" "pd_audit db' = pd_audit db" "pd_structures db' = pd_structures db"
    and "pd_assignments db' = foldl (upsert_op school (ap_id nxt) (ap_name nxt)) (pd_assignments db)
           (map (op_for school (ap_id cur) db) (active_students school db))"
proof -
  define db2 where "db2 = update_period_id (ap_id nxt) (\<lambda>p. p\<lparr>ap_isCurrent := True\<rparr>)
    (update_period_id (ap_id cur) (\<lambda>p. p\<lparr>ap_isCurrent := False, ap_isClosed := True\<rparr>) db)"
  define closing where "closing = closing_by_student school (ap_id cur) db"
  define fees where "fees = fee_by_class school db"
  have students: "filter (\<lambda>s. pu_schoolId s = school \<and> \<not> pu_deleted s) (pd_pupils db2) = active_students school db"
    by (simp add: db2_def active_students_def)
  obtain db3 where run: "foldl (rollover_batch school (ap_id nxt) (ap_name nxt) closing fees) (db2, 0, Fin 0)
      (in_batches rollover_batch_size (active_students school db)) = (db3, n, arrears)"
    and db': "db' = update_period_id (ap_id nxt) (\<lambda>p. p\<lparr>ap_carried := arrears\<rparr>) db3"
    using assms(3) unfolding rollover_txn_def Let_def db2_def [symmetric] students
    by (auto simp: closing_def fees_def db2_def split: prod.splits)
  note effect = rollover_batches [OF run, unfolded concat_in_batches]
  have ops: "op_for school (ap_id cur) db = rollover_op_of closing fees" by (simp add: op_for_def closing_def fees_def)
  have dist: "distinct (map pu_key (pd_pupils db))" using assms(1) by (simp add: keys_ok_def)
  have targets: "distinct (map ro_student (batch_ops closing fees (active_students school db)))"
    using distinct_active_ids [OF dist, of school] by (simp add: active_students_def rollover_op_of_def comp_def)
  then have targets': "distinct (map (\<lambda>q. (school, ro_student q)) (batch_ops closing fees (active_students school db)))"
    by (simp add: distinct_map inj_on_def)
  show "pd_periods db' = map (rolled_period (ap_id cur) (ap_id nxt) arrears) (pd_periods db)"
    using effect assms(2) by (auto simp: db' update_period_id_def db2_def rolled_period_def)
  have pupils: "pd_pupils db' = map (pupils.changed school (ap_name nxt) (batch_ops closing fees (active_students school db))) (pd_pupils db)"
    using effect pupils.bulk [OF dist targets', of "ap_name nxt"] by (simp add: db' db2_def)
  show "pd_pupils db' = map (\<lambda>s. if pu_schoolId s = school \<and> \<not> pu_deleted s
      then set_pupil (ap_name nxt) (op_for school (ap_id cur) db s) s else s) (pd_pupils db)"
    unfolding pupils ops using changed_pupil [OF dist] by (simp add: active_students_def)
  show asg: "pd_assignments db' = foldl (upsert_op school (ap_id nxt) (ap_name nxt)) (pd_assignments db)
      (map (op_for school (ap_id cur) db) (active_students school db))"
    using effect by (simp add: db' db2_def ops)
  show "find_assignment k db' = (case find (\<lambda>s. (school, pu_studentId s, ap_id nxt) = k) (active_students school db) of
      None \<Rightarrow> find_assignment k db | Some s \<Rightarrow> Some (next_assignment school (ap_id cur) nxt db s))"
  proof (cases "find (\<lambda>s. (school, pu_studentId s, ap_id nxt) = k) (active_students school db)")
    case None
    then show ?thesis
      using find_upserts [OF targets, of k school "ap_id nxt" "ap_name nxt" "pd_assignments db"]
      by (simp add: find_assignment_def asg ops find_map_op)
  next
    case (Some s)
    have "ro_student (rollover_op_of closing fees s) = pu_studentId s" by (simp add: rollover_op_of_def)
    then have "find (\<lambda>a. sf_key a = k) (foldl (upsert_op school (ap_id nxt) (ap_name nxt)) (pd_assignments db)
        (batch_ops closing fees (active_students school db)))
        = Some (set_assignment (ap_name nxt) (rollover_op_of closing fees s)
            (case find (\<lambda>a. sf_key a = k) (pd_assignments db) of
               None \<Rightarrow> blank_assignment school (pu_studentId s) (ap_id nxt) | Some a \<Rightarrow> a))"
      using find_upserts [OF targets, of k school "ap_id nxt" "ap_name nxt" "pd_assignments db"]
      unfolding find_map_op Some by (simp cong: option.case_cong)
    moreover from find_Some_D [OF Some] have k: "k = (school, pu_studentId s, ap_id nxt)" by simp
    ultimately show ?thesis using Some
      unfolding k by (simp add: find_assignment_def asg ops next_assignment_def)
  qed
  show "n = length (active_students school db)" using effect by simp
  show "arrears = foldl jadd (Fin 0) (map (arrears_of (closing_by_student school (ap_id cur) db)) (active_students school db))"
    using effect by (simp add: closing_def)
  show "pd_next db' = pd_next db" "pd_audit db' = pd_audit db" "pd_structures db' = pd_structures db"
    using effect by (simp_all add: db' db2_def)
qed

subsection \<open>The invariant\<close>

definition one_current :: "period list \<Rightarrow> bool" where
  "one_current ps \<longleftrightarrow> distinct (map ap_schoolId (filter ap_isCurrent ps))"

definition names_distinct :: "period list \<Rightarrow> bool" where
  "names_distinct ps \<longleftrightarrow> distinct (map (\<lambda>p. (ap_schoolId p, ap_name p)) ps)"

definition period_valid :: "period \<Rightarrow> bool" where
  "period_valid p \<longleftrightarrow> ap_startsAt p < ap_endsAt p \<and> (ap_isCurrent p \<longrightarrow> \<not> ap_isClosed p)"

definition periods_ok :: "period_db \<Rightarrow> bool" where
  "periods_ok db \<longleftrightarrow> keys_ok db \<and> one_current (pd_periods db) \<and> names_distinct (pd_periods db)
     \<and> (\<forall>p \<in> set (pd_periods db). period_valid p)"

datatype period_req =
    Create_period string "string option" date_arg date_arg "string option"
  | Update_period string nat period_update
  | Assign_fee string string nat jsnum "millis option" "jsnum option"
  | Roll_over millis "string option \<times> string option" string "nat option" "string option"

datatype period_reply =
    Period_reply "(period_error, period) result"
  | Fee_reply "(period_error, assignment) result"
  | Rollover_reply "(period_error, rollover_result) result"

fun period_step ::
  "(string \<Rightarrow> string) \<Rightarrow> (jsnum \<Rightarrow> string) \<Rightarrow> period_req \<Rightarrow> period_db \<Rightarrow> period_db \<times> period_reply" where
  "period_step hmac num (Create_period school nm st en notes) db =
     map_prod id Period_reply (createPeriod school nm st en notes db)"
| "period_step hmac num (Update_period school pid u) db = map_prod id Period_reply (updatePeriod school pid u db)"
| "period_step hmac num (Assign_fee school student pid fee deadline carried) db =
     map_prod id Fee_reply (upsertStudentPeriodFee school student pid fee deadline carried db)"
| "period_step hmac num (Roll_over now client school nextId performedBy) db =
     map_prod id Rollover_reply (rolloverToNextPeriod hmac num now client school nextId performedBy db)"

lemma find_period_D:
  "find_period school pid db = Some p \<Longrightarrow> p \<in> set (pd_periods db) \<and> ap_id p = pid \<and> ap_schoolId p = school"
  unfolding find_period_def by (drule find_Some_D) simp

lemma current_D:
  "getCurrentPeriod school db = Some p \<Longrightarrow> p \<in> set (pd_periods db) \<and> ap_schoolId p = school \<and> ap_isCurrent p"
  unfolding getCurrentPeriod_def by (drule find_Some_D) simp

lemma same_period:
  assumes "keys_ok db" "p \<in> set (pd_periods db)" "q \<in> set (pd_periods db)" "ap_id p = ap_id q"
  shows "p = q"
  using assms by (auto simp: keys_ok_def distinct_map dest: inj_onD)

lemma distinct_replace:
  assumes "distinct (map key ps)" "distinct (map num ps)" "key x \<notin> key ` {q \<in> set ps. num q \<noteq> i}"
  shows "distinct (map key (map (\<lambda>q. if num q = i then x else q) ps))"
  using assms
proof (induction ps)
  case (Cons p ps)
  have rest: "map (\<lambda>q. if num q = i then x else q) ps = ps" if "num p = i"
    using that distinct_key_other [OF Cons.prems(2)] by (intro map_idI) auto
  show ?case
  proof (cases "num p = i")
    case True
    have "key x \<notin> key ` set ps"
    proof
      assume "key x \<in> key ` set ps"
      then obtain q where "q \<in> set ps" "key x = key q" by auto
      moreover from this have "num q \<noteq> i" using True distinct_key_other [OF Cons.prems(2)] by auto
      ultimately show False using Cons.prems(3) by auto
    qed
    with True Cons.prems rest show ?thesis by simp
  next
    case False
    then have "p \<in> {q \<in> set (p # ps). num q \<noteq> i}" by simp
    then have "key x \<noteq> key p" using Cons.prems(3) by (metis image_eqI)
    then have "key p \<notin> key ` set (map (\<lambda>q. if num q = i then x else q) ps)"
      using Cons.prems(1) by auto
    with Cons False show ?thesis by auto
  qed
qed simp

lemma add_period_ok:
  assumes "periods_ok db" "period_valid p" "\<not> name_used db (pd_next db) (ap_schoolId p) (ap_name p)"
    and "ap_isCurrent p \<Longrightarrow> \<forall>q \<in> set (pd_periods db). ap_schoolId q \<noteq> ap_schoolId p"
  shows "periods_ok (add_period p db)"
proof -
  have fresh: "\<And>q. q \<in> set (pd_periods db) \<Longrightarrow> ap_id q < pd_next db"
    using assms(1) by (simp add: periods_ok_def keys_ok_def)
  then have "pd_next db \<notin> ap_id ` set (pd_periods db)" by fastforce
  moreover have "(ap_schoolId p, ap_name p) \<notin> (\<lambda>p. (ap_schoolId p, ap_name p)) ` set (pd_periods db)"
    using assms(3) fresh by (fastforce simp: name_used_def)
  moreover have "ap_isCurrent p \<Longrightarrow> ap_schoolId p \<notin> ap_schoolId ` {q \<in> set (pd_periods db). ap_isCurrent q}"
    using assms(4) by force
  moreover have "keys_ok (add_period p db)"
    using assms(1) fresh calculation(1) by (auto simp: periods_ok_def keys_ok_def add_period_def less_SucI)
  ultimately show ?thesis
    using assms(1,2) by (simp add: periods_ok_def add_period_def period_valid_def one_current_def names_distinct_def)
qed

lemma createPeriod_ok: "periods_ok db \<Longrightarrow> periods_ok (fst (createPeriod school nm st en notes db))"
  by (auto simp: createPeriod_def Let_def new_period_def period_valid_def intro!: add_period_ok split: option.splits)

lemma current_schools_cong:
  "map (\<lambda>q. (ap_schoolId q, ap_isCurrent q)) ps = map (\<lambda>q. (ap_schoolId q, ap_isCurrent q)) qs \<Longrightarrow>
   map ap_schoolId (filter ap_isCurrent ps) = map ap_schoolId (filter ap_isCurrent qs)"
  by (induction ps arbitrary: qs) (auto simp: Cons_eq_map_conv)

lemma replace_period_ok:
  assumes "periods_ok db" "p \<in> set (pd_periods db)" "ap_id p' = ap_id p" "ap_schoolId p' = ap_schoolId p"
    and "ap_isCurrent p' = ap_isCurrent p" "period_valid p'"
    and "\<not> name_used db (ap_id p) (ap_schoolId p) (ap_name p')"
  shows "periods_ok (replace_period p' db)"
proof -
  let ?f = "\<lambda>q. if ap_id q = ap_id p' then p' else q"
  have ids: "map ap_id (map ?f (pd_periods db)) = map ap_id (pd_periods db)" by simp
  have same: "\<And>q. q \<in> set (pd_periods db) \<Longrightarrow> ap_id q = ap_id p \<Longrightarrow> q = p"
    using same_period assms(1,2) by (auto simp: periods_ok_def)
  have keys: "keys_ok (replace_period p' db)"
    using assms(1) ids by (auto simp: periods_ok_def keys_ok_def replace_period_def simp del: map_map split: if_splits)
  have "map (\<lambda>q. (ap_schoolId q, ap_isCurrent q)) (map ?f (pd_periods db)) = map (\<lambda>q. (ap_schoolId q, ap_isCurrent q)) (pd_periods db)"
    using assms(3-5) same by auto
  then have "map ap_schoolId (filter ap_isCurrent (map ?f (pd_periods db))) = map ap_schoolId (filter ap_isCurrent (pd_periods db))"
    using current_schools_cong by blast
  then have "one_current (map ?f (pd_periods db))"
    using assms(1) by (simp add: periods_ok_def one_current_def)
  moreover have "names_distinct (map ?f (pd_periods db))"
    unfolding names_distinct_def
    using assms(1,3,4,7) by (intro distinct_replace) (auto simp: periods_ok_def names_distinct_def keys_ok_def name_used_def)
  ultimately show ?thesis
    using keys assms(1,6) by (auto simp: periods_ok_def replace_period_def)
qed

lemma updatePeriod_ok: "periods_ok db \<Longrightarrow> periods_ok (fst (updatePeriod school pid u db))"
proof (cases "find_period school pid db")
  case (Some p)
  assume ok: "periods_ok db"
  note p = find_period_D [OF Some]
  have "period_valid p" using ok p by (simp add: periods_ok_def)
  with ok p Some show ?thesis
    by (auto simp: updatePeriod_def Let_def period_valid_def intro!: replace_period_ok [of db p] split: option.splits)
qed (simp add: updatePeriod_def)

lemma distinct_upsert_op:
  "distinct (map sf_key as) \<Longrightarrow> distinct (map sf_key (upsert_op school pid pname as q))"
proof -
  assume dist: "distinct (map sf_key as)"
  have "map sf_key (update_first P (set_assignment pname q) as) = map sf_key as" for P
    by (induction as) auto
  with dist show ?thesis by (auto simp: upsert_op_def Let_def find_None_iff)
qed

lemma sf_key_assigned [simp]:
  "sf_key (reassigned fee carried deadline a) = sf_key a"
  "sf_key (first_assignment school student pid pname fee carried deadline) = (school, student, pid)"
  by (simp_all add: sf_key_def reassigned_def first_assignment_def Let_def)

lemma upsertStudentPeriodFee_ok:
  assumes "periods_ok db"
  shows "periods_ok (fst (upsertStudentPeriodFee school student pid fee deadline carried db))"
proof -
  let ?k = "(school, student, pid)"
  have assigned: "periods_ok (db\<lparr>pd_assignments := as\<rparr>)" if "distinct (map sf_key as)" for as
    using assms that by (simp add: periods_ok_def keys_ok_def)
  have dist: "distinct (map sf_key (pd_assignments db))" using assms by (simp add: periods_ok_def keys_ok_def)
  show ?thesis
  proof (cases "find_assignment ?k db")
    case None
    then have "?k \<notin> sf_key ` set (pd_assignments db)" by (auto simp: find_assignment_def find_None_iff)
    with None dist assms assigned show ?thesis
      by (simp add: upsertStudentPeriodFee_def Let_def split: option.splits)
  next
    case (Some a)
    then have "sf_key a = ?k" unfolding find_assignment_def by (drule_tac find_Some_D) simp
    then have "map sf_key (update_first (\<lambda>b. sf_key b = ?k) (\<lambda>_. reassigned fee (or_zero carried) deadline a) as) = map sf_key as" for as
      by (induction as) auto
    with Some dist assms assigned show ?thesis
      by (simp add: upsertStudentPeriodFee_def Let_def split: option.splits)
  qed
qed

lemma one_current_iff:
  assumes "distinct (map ap_id ps)"
  shows "one_current ps \<longleftrightarrow>
    (\<forall>p \<in> set ps. \<forall>q \<in> set ps. ap_isCurrent p \<and> ap_isCurrent q \<and> ap_schoolId p = ap_schoolId q \<longrightarrow> p = q)"
proof -
  have "distinct ps" using assms by (simp add: distinct_map)
  then show ?thesis by (auto simp: one_current_def distinct_map inj_on_def)
qed

lemma rollover_check_D:
  assumes "rollover_check school nextId performedBy db = Inr (cur, nxt)"
  shows "cur \<in> set (pd_periods db)" "ap_schoolId cur = school" "ap_isCurrent cur"
    and "nxt \<in> set (pd_periods db)" "ap_schoolId nxt = school" "\<not> ap_isClosed nxt" "ap_id nxt \<noteq> ap_id cur"
    and "nextId = Some (ap_id nxt)"
  using assms current_D [of school db] find_period_D [of school "the nextId" db]
  by (auto simp: rollover_check_def split: if_splits option.splits)

lemma rolled_period_simps [simp]:
  "ap_id (rolled_period cur nxt arrears p) = ap_id p" "ap_schoolId (rolled_period cur nxt arrears p) = ap_schoolId p"
  "ap_name (rolled_period cur nxt arrears p) = ap_name p" "ap_startsAt (rolled_period cur nxt arrears p) = ap_startsAt p"
  "ap_endsAt (rolled_period cur nxt arrears p) = ap_endsAt p"
  "ap_isCurrent (rolled_period cur nxt arrears p) \<longleftrightarrow> ap_id p = nxt \<or> ap_id p \<noteq> cur \<and> ap_isCurrent p"
  by (simp_all add: rolled_period_def)

lemma rollover_txn_ok:
  assumes ok: "periods_ok db" and check: "rollover_check school nextId performedBy db = Inr (cur, nxt)"
    and txn: "rollover_txn school cur nxt db = (db', n, arrears)"
  shows "periods_ok db'"
proof -
  note d = rollover_check_D [OF check]
  have keys: "keys_ok db" using ok by (simp add: periods_ok_def)
  note effect = rollover_txn_effect [OF keys d(7) [symmetric] txn]
  let ?f = "rolled_period (ap_id cur) (ap_id nxt) arrears"
  have pupils: "map pu_key (pd_pupils db') = map pu_key (pd_pupils db)"
    unfolding effect(2) by (simp add: pu_key_def set_pupil_def)
  have "distinct (map sf_key (pd_assignments db'))"
    unfolding effect(9) using keys
    by (intro foldl_invariant [of "\<lambda>as. distinct (map sf_key as)"] distinct_upsert_op) (simp_all add: keys_ok_def)
  then have keys': "keys_ok db'"
    using keys pupils effect(1,6) by (auto simp: keys_ok_def comp_def)
  have ids: "distinct (map ap_id (pd_periods db))" and ids': "distinct (map ap_id (pd_periods db'))"
    using keys keys' by (simp_all add: keys_ok_def)
  have unique: "p = q" if "p \<in> set (pd_periods db)" "q \<in> set (pd_periods db)" "ap_isCurrent p" "ap_isCurrent q"
    "ap_schoolId p = ap_schoolId q" for p q
    using ok that unfolding periods_ok_def one_current_iff [OF ids] by blast
  have "one_current (pd_periods db')"
    unfolding one_current_iff [OF ids'] unfolding effect(1)
  proof (clarsimp, goal_cases)
    case (1 p q)
    then have "ap_id p = ap_id q"
      using unique [of p cur] unique [of q cur] unique [of p q] d same_period [OF keys] by metis
    with same_period [OF keys 1(1,2)] show ?case by simp
  qed
  moreover have "names_distinct (pd_periods db')"
    using ok by (simp add: periods_ok_def names_distinct_def effect(1) comp_def)
  moreover have "period_valid (?f p)" if "p \<in> set (pd_periods db)" for p
    using ok that d same_period [OF keys that d(4)] by (auto simp: periods_ok_def period_valid_def rolled_period_def)
  ultimately show ?thesis using keys' by (simp add: periods_ok_def effect(1))
qed

lemma rollover_ok: "periods_ok db \<Longrightarrow> periods_ok (fst (rolloverToNextPeriod hmac num now client school nextId performedBy db))"
proof -
  assume ok: "periods_ok db"
  have audit: "periods_ok (d\<lparr>pd_audit := x\<rparr>) = periods_ok d" for d x by (simp add: periods_ok_def keys_ok_def)
  show ?thesis
    using ok rollover_txn_ok [OF ok] by (auto simp: rolloverToNextPeriod_def audit split: sum.splits prod.splits)
qed

lemma period_step_ok: "periods_ok db \<Longrightarrow> periods_ok (fst (period_step hmac num x db))"
  by (cases x) (simp_all add: createPeriod_ok updatePeriod_ok upsertStudentPeriodFee_ok rollover_ok)

subsection \<open>Properties\<close>

text \<open>C24: Whatever requests come in, in any order, the periods stay well formed: at most one period of a
  school is current and a current period is not closed, every period starts before it ends, names are
  unique within a school, and there is at most one fee assignment per student and period. This is for
  requests that run one after the other.\<close>

theorem academic_periods_well_formed:
  "periods_ok db \<Longrightarrow> periods_ok (fst (trace (period_step hmac num) reqs db))"
  by (rule trace_invariant) (simp_all add: period_step_ok)

definition example_period :: "nat \<Rightarrow> bool \<Rightarrow> string \<Rightarrow> period" where
  "example_period i current nm =
     \<lparr>ap_id = i, ap_schoolId = ''S'', ap_name = nm, ap_startsAt = int i * 1000, ap_endsAt = int i * 1000 + 999,
      ap_isCurrent = current, ap_isClosed = False, ap_carried = Fin 0, ap_notes = None\<rparr>"

definition example_pupil :: pupil where
  "example_pupil =
     \<lparr>pu_schoolId = ''S'', pu_studentId = ''A1'', pu_class = ''5A'', pu_deleted = False, pu_feeAmount = IntN 300,
      pu_totalPaid = IntN 100, pu_remainingBalance = Some (IntN 200), pu_feePaid = False, pu_academicYear = None\<rparr>"

definition example_assignment :: assignment where
  "example_assignment = first_assignment ''S'' ''A1'' 2 ''T1'' (IntN 300) (IntN 20) None\<lparr>sf_totalPaid := IntN 100\<rparr>"

definition example_periods :: period_db where
  "example_periods =
     \<lparr>pd_periods = [example_period 2 True ''T1'', example_period 3 False ''T2'', example_period 4 False ''T3''],
      pd_assignments = [example_assignment], pd_pupils = [example_pupil],
      pd_structures = [\<lparr>fs_schoolId = ''S'', fs_className = ''5A'', fs_feeAmount = IntN 350, fs_isActive = True, fs_deleted = False\<rparr>],
      pd_next = 5, pd_audit = empty_log\<rparr>"

lemma example_periods_ok: "periods_ok example_periods"
  by (simp add: periods_ok_def keys_ok_def one_current_def names_distinct_def period_valid_def example_periods_def example_period_def)

theorem academic_periods_well_formed_witness:
  "periods_ok (fst (trace (period_step id example_num)
     [Roll_over 9 (None, None) ''S'' (Some 3) (Some ''admin''), Roll_over 9 (None, None) ''S'' (Some 4) (Some ''admin'')] example_periods))"
  using academic_periods_well_formed [OF example_periods_ok] by blast

lemma closing_find:
  assumes "keys_ok db"
  shows "closing_by_student school pid db student = find_assignment (school, student, pid) db"
proof -
  have "js_map (map (\<lambda>a. (sf_studentId a, a)) (filter (\<lambda>a. sf_schoolId a = school \<and> sf_periodId a = pid) as)) student
      = find (\<lambda>a. sf_key a = (school, student, pid)) as" if "distinct (map sf_key as)" for as
    using that
  proof (induction as)
    case (Cons a as)
    have none: "find (\<lambda>b. sf_key b = sf_key a) as = None"
      using distinct_key_other [OF Cons.prems] by (auto simp: find_None_iff)
    show ?case
      using Cons none by (auto simp: js_map_def sf_key_def map_add_def split: option.splits)
  qed (simp add: js_map_def)
  then show ?thesis using assms by (simp add: closing_by_student_def find_assignment_def keys_ok_def)
qed

lemma rollover_D:
  assumes "rolloverToNextPeriod hmac num now client school nextId performedBy db = (db', Inr r)"
  obtains cur nxt db1 where "rollover_check school nextId performedBy db = Inr (cur, nxt)"
    and "rollover_txn school cur nxt db = (db1, rr_students r, rr_arrears r)"
    and "db' = db1\<lparr>pd_audit := logAudit False hmac num (rollover_audit client school (the performedBy) cur nxt (rr_students r) (rr_arrears r)) now (pd_audit db1)\<rparr>"
    and "rr_closed r = (ap_id cur, ap_name cur)" "rr_new r = (ap_id nxt, ap_name nxt)"
  using assms by (auto simp: rolloverToNextPeriod_def split: sum.splits prod.splits)

lemma find_active:
  assumes "keys_ok db" "s \<in> set (pd_pupils db)" "pu_schoolId s = school" "\<not> pu_deleted s"
  shows "find (\<lambda>x. (school, pu_studentId x, pid) = (school, pu_studentId s, pid)) (active_students school db) = Some s"
proof -
  have "find (\<lambda>x. pu_studentId x = pu_studentId s) (active_students school db) \<noteq> None"
    using assms by (auto simp: find_None_iff active_students_def)
  then obtain x where x: "find (\<lambda>x. pu_studentId x = pu_studentId s) (active_students school db) = Some x" by blast
  from find_Some_D [OF this] have "x \<in> set (pd_pupils db)" "pu_key x = pu_key s"
    using assms(3) by (auto simp: active_students_def pu_key_def)
  with assms(1,2) have "x = s" by (auto simp: keys_ok_def distinct_map dest: inj_onD)
  with x show ?thesis by simp
qed

text \<open>Amounts that are whole numbers of a size at which JavaScript adds them exactly.\<close>

definition whole :: "jsnum \<Rightarrow> int \<Rightarrow> bool" where
  "whole x n \<longleftrightarrow> x = IntN n \<and> 0 \<le> n \<and> n \<le> 2 ^ 50"

lemma or_zero_whole: "whole x n \<Longrightarrow> or_zero (Some x) = IntN n"
  by (auto simp: whole_def or_zero_def)

lemma arrears_whole:
  assumes "closing (pu_studentId s) = Some a" "whole (sf_feeAmount a) f" "whole (sf_carriedArrears a) c" "whole (sf_totalPaid a) t"
  shows "arrears_of closing s = IntN (max 0 (f + c - t))"
proof -
  have small: "\<bar>f + c\<bar> \<le> 2 ^ 53" "\<bar>f + c - t\<bar> \<le> 2 ^ 53" using assms(2-4) by (auto simp: whole_def)
  have "jsub (jadd (IntN f) (IntN c)) (IntN t) = IntN (f + c - t)"
    using small by (simp only: jadd_int jsub_int)
  then show ?thesis
    using assms or_zero_whole [OF assms(3)] or_zero_whole [OF assms(4)] jmax_int [of 0 "f + c - t"]
    by (simp add: arrears_of_def whole_def)
qed

text \<open>
  What a student owes at the end of a period: what was not paid of the fee and of older arrears if the student has an
  assignment in it, else the balance on the student's record; nothing after an overpayment or without a balance.
\<close>

definition closing_debt :: "assignment option \<Rightarrow> pupil \<Rightarrow> int \<Rightarrow> bool" where
  "closing_debt closing s m \<longleftrightarrow>
     (case closing of
        Some a \<Rightarrow> \<exists>f c t. whole (sf_feeAmount a) f \<and> whole (sf_carriedArrears a) c \<and> whole (sf_totalPaid a) t \<and> m = max 0 (f + c - t)
      | None \<Rightarrow>
          (case pu_remainingBalance s of
             Some b \<Rightarrow> \<exists>n. b = IntN n \<and> \<bar>n\<bar> \<le> 2 ^ 50 \<and> m = max 0 n
           | None \<Rightarrow> m = 0))"

lemma arrears_debt: "closing_debt (closing (pu_studentId s)) s m \<Longrightarrow> arrears_of closing s = IntN m"
  using arrears_whole jmax_int [of 0] by (auto simp: closing_debt_def arrears_of_def split: option.splits)

lemma debt_bound: "closing_debt closing s m \<Longrightarrow> 0 \<le> m \<and> m \<le> 2 ^ 51"
  by (auto simp: closing_debt_def whole_def split: option.splits)

text \<open>C25: For amounts in whole units up to 2^50, a rollover carries every debt forward exactly. Let \<open>m\<close> be what a student of the
  school owes at the end of the closing period: what was not paid of the fee and of older arrears, or, for
  a student without an assignment in that period, a positive balance of the record. The new assignment then
  carries \<open>m\<close>, the new balance is the new fee (that of the class, or the student's own where the class has none) plus
  \<open>m\<close>, nothing counts as paid yet, and the student's own fields say the same. With fractions the sums are those of
  binary floating point and can be off (\<open>fractional_arrears_inexact\<close>).\<close>

theorem rollover_carries_arrears:
  assumes "periods_ok db" "rolloverToNextPeriod hmac num now client school nextId performedBy db = (db', Inr r)"
    and "s \<in> set (pd_pupils db)" "pu_schoolId s = school" "\<not> pu_deleted s"
    and "closing_debt (find_assignment (school, pu_studentId s, fst (rr_closed r)) db) s m"
    and "case fee_by_class school db (pu_class s) of Some fee \<Rightarrow> whole fee f' | None \<Rightarrow> whole (pu_feeAmount s) f'"
  shows "(\<exists>s' \<in> set (pd_pupils db'). pu_key s' = pu_key s \<and> pu_feeAmount s' = IntN f' \<and> pu_totalPaid s' = Fin 0
        \<and> pu_remainingBalance s' = Some (IntN (f' + m)) \<and> (pu_feePaid s' \<longleftrightarrow> f' + m \<le> 0))
    \<and> (\<exists>a'. find_assignment (school, pu_studentId s, fst (rr_new r)) db' = Some a'
        \<and> sf_feeAmount a' = IntN f' \<and> sf_carriedArrears a' = IntN m \<and> sf_totalPaid a' = Fin 0
        \<and> sf_remainingBalance a' = IntN (f' + m))"
proof -
  obtain cur nxt db1 where check: "rollover_check school nextId performedBy db = Inr (cur, nxt)"
    and txn: "rollover_txn school cur nxt db = (db1, rr_students r, rr_arrears r)"
    and db': "pd_pupils db' = pd_pupils db1" "pd_assignments db' = pd_assignments db1"
    and ids: "fst (rr_closed r) = ap_id cur" "fst (rr_new r) = ap_id nxt"
    by (rule rollover_D [OF assms(2)]) (auto intro: that)
  have keys: "keys_ok db" using assms(1) by (simp add: periods_ok_def)
  note effect = rollover_txn_effect [OF keys rollover_check_D(7) [OF check, symmetric] txn]
  define q where "q = op_for school (ap_id cur) db s"
  have "arrears_of (closing_by_student school (ap_id cur) db) s = IntN m"
    using arrears_debt [of "closing_by_student school (ap_id cur) db" s m] assms(6) ids by (simp add: closing_find [OF keys])
  then have q: "ro_fee q = IntN f'" "ro_arrears q = IntN m"
    using assms(7) by (simp_all add: q_def op_for_def rollover_op_of_def new_fee_of_def whole_def split: option.splits)
  have "\<bar>f' + m\<bar> \<le> 2 ^ 53"
    using assms(7) debt_bound [OF assms(6)] by (auto simp: whole_def split: option.splits)
  then have "ro_due q = IntN (f' + m)" unfolding ro_due_def q by (simp only: jadd_int)
  moreover define d where "d = f' + m"
  ultimately have due: "ro_due q = IntN d" by simp
  have paid: "jleq (IntN d) (Fin 0) \<longleftrightarrow> d \<le> 0" using jleq_int [of d 0] by simp
  have "set_pupil (ap_name nxt) q s \<in> set (pd_pupils db')"
    using assms(3-5) unfolding db' effect(2) q_def by (auto intro!: image_eqI [of _ _ s])
  moreover have "find_assignment (school, pu_studentId s, ap_id nxt) db' = Some (next_assignment school (ap_id cur) nxt db s)"
    using effect(3) [of "(school, pu_studentId s, ap_id nxt)"] find_active [OF keys assms(3-5)] db'(2)
    by (simp add: find_assignment_def)
  ultimately show ?thesis
    unfolding ids d_def [symmetric]
    by (auto simp: next_assignment_def set_assignment_def q_def [symmetric] q due paid set_pupil_def pu_key_def
        intro!: bexI [of _ "set_pupil (ap_name nxt) q s"])
qed

text \<open>Of a fee of 0.3 with 0.1 paid, 0.19999999999999998 is carried, not 0.2.\<close>

lemma tenths:
  "round64 (1 / 10) = 7205759403792794 / 2 ^ 56" "round64 (2 / 10) = 7205759403792794 / 2 ^ 55"
  "round64 (3 / 10) = 5404319552844595 / 2 ^ 54" "round64 (7205759403792793 / 2 ^ 55) = 7205759403792793 / 2 ^ 55"
  using round64_eval [of "- 4" "1 / 10"] round64_eval [of "- 3" "2 / 10"] round64_eval [of "- 2" "3 / 10"]
    round64_eval [of "- 3" "7205759403792793 / 2 ^ 55"] round_half_even_int [of 7205759403792793]
    round_half_even_near [of "36028797018963968 / 5" 7205759403792794]
    round_half_even_near [of "27021597764222976 / 5" 5404319552844595]
  by (simp_all add: pow2_def)

lemma fractional_arrears_inexact:
  "arrears_of (\<lambda>_. Some (a\<lparr>sf_feeAmount := to_num (3 / 10), sf_carriedArrears := Fin 0, sf_totalPaid := to_num (1 / 10)\<rparr>)) s
     \<noteq> to_num (2 / 10)"
proof -
  have t: "to_num (n / 10) = Fin (round64 (n / 10))" if "n \<in> {1, 2, 3}" for n by (rule to_num_finite) (use that in auto)
  have d: "round64 (3 / 10) - round64 (1 / 10) = 7205759403792793 / 2 ^ 55" by (simp only: tenths) simp
  have "jadd (Fin (round64 (3 / 10))) (Fin 0) = Fin (round64 (3 / 10))"
    using to_num_finite [of "round64 (3 / 10)"] round64_idem [of "3 / 10"] by (simp only: jadd.simps add_0_right) (simp add: tenths(3))
  moreover have "jsub (Fin (round64 (3 / 10))) (Fin (round64 (1 / 10))) = Fin (7205759403792793 / 2 ^ 55)"
    using to_num_finite [of "7205759403792793 / 2 ^ 55"] d tenths(4)
    by (simp only: jsub_def jneg.simps jadd.simps diff_conv_add_uminus [symmetric]) simp
  moreover have "or_zero (Some (Fin (round64 (1 / 10)))) = Fin (round64 (1 / 10))" by (simp add: or_zero_def tenths(1))
  ultimately have "arrears_of (\<lambda>_. Some (a\<lparr>sf_feeAmount := Fin (round64 (3 / 10)), sf_carriedArrears := Fin 0,
      sf_totalPaid := Fin (round64 (1 / 10))\<rparr>)) s = Fin (7205759403792793 / 2 ^ 55)"
    by (simp add: arrears_of_def jmax_def or_zero_def [of "Some (Fin 0)"])
  moreover have "(7205759403792793 / 2 ^ 55 :: rat) \<noteq> round64 (2 / 10)" by (simp only: tenths) simp
  ultimately show ?thesis using t [of 1] t [of 2] t [of 3] by (simp only: insertI1 insertI2) simp
qed

lemma rollover_succeeds:
  assumes "rollover_check school nextId performedBy db = Inr (cur, nxt)"
  shows "\<exists>r. rolloverToNextPeriod hmac num now client school nextId performedBy db
      = (fst (rolloverToNextPeriod hmac num now client school nextId performedBy db), Inr r) \<and> fst (rr_closed r) = ap_id cur"
  using assms by (cases "rollover_txn school cur nxt db") (simp add: rolloverToNextPeriod_def)

lemma example_rollover_check:
  "rollover_check ''S'' (Some 3) (Some ''admin'') example_periods = Inr (example_period 2 True ''T1'', example_period 3 False ''T2'')"
  "rollover_check ''S'' (Some 4) (Some ''admin'') example_periods = Inr (example_period 2 True ''T1'', example_period 4 False ''T3'')"
  by (simp_all add: rollover_check_def example_periods_def getCurrentPeriod_def find_period_def example_period_def present_def)

theorem rollover_carries_arrears_witness:
  "\<exists>s' \<in> set (pd_pupils (fst (rolloverToNextPeriod id example_num 9 (None, None) ''S'' (Some 3) (Some ''admin'') example_periods))).
     pu_key s' = (''S'', ''A1'') \<and> pu_remainingBalance s' = Some (IntN 570)"
proof -
  define out where "out = rolloverToNextPeriod id example_num 9 (None, None) ''S'' (Some 3) (Some ''admin'') example_periods"
  obtain r where out: "rolloverToNextPeriod id example_num 9 (None, None) ''S'' (Some 3) (Some ''admin'') example_periods = (fst out, Inr r)"
    and closed: "fst (rr_closed r) = 2"
    using rollover_succeeds [OF example_rollover_check(1), of id example_num 9 "(None, None)"]
    unfolding out_def by (auto simp: example_period_def)
  have "find_assignment (''S'', pu_studentId example_pupil, fst (rr_closed r)) example_periods = Some example_assignment"
    unfolding closed
    by (simp add: find_assignment_def example_periods_def example_assignment_def example_pupil_def sf_key_def first_assignment_def Let_def)
  moreover have "closing_debt (Some example_assignment) example_pupil 220"
    by (auto simp: closing_debt_def example_assignment_def first_assignment_def Let_def whole_def
        intro!: exI [of _ 300] exI [of _ 20] exI [of _ 100])
  moreover have "case fee_by_class ''S'' example_periods (pu_class example_pupil) of Some fee \<Rightarrow> whole fee 350
      | None \<Rightarrow> whole (pu_feeAmount example_pupil) 350"
    by (simp add: fee_by_class_def js_map_def example_periods_def example_pupil_def whole_def)
  moreover have "example_pupil \<in> set (pd_pupils example_periods)" "pu_schoolId example_pupil = ''S''" "\<not> pu_deleted example_pupil"
    by (simp_all add: example_periods_def example_pupil_def)
  ultimately show ?thesis
    using rollover_carries_arrears [OF example_periods_ok out, of example_pupil 220 350]
    by (auto simp: out_def [symmetric] example_pupil_def pu_key_def)
qed

text \<open>
  The rollover writes its audit entry with a target type the schema of the log does not have, so the
  entry is refused like any other of that type; the failure is counted and the rollover stands.
\<close>

lemma unknown_target_not_recorded:
  assumes "\<not> schema_valid (audit_entry_of a n prev now)"
  shows "recorded (logAudit False hmac num a now db) = recorded db \<and> ab_failures (logAudit False hmac num a now db) = ab_failures db + 1"
proof -
  obtain db' r where res: "reserveSequence False (aa_schoolId a) now db = (db', r)" by fastforce
  note facts = reserve_undeclared_taken [OF res]
  have "\<not> schema_valid (audit_entry_of a n' prev' now\<lparr>ad_entryHash := h\<rparr>)" for n' prev' h
    using assms by (simp add: schema_valid_def audit_entry_of_def)
  then have "audit_attempt False hmac num a now db = (db', Inl VALIDATION_FAILED)"
    using res facts by (simp add: audit_attempt_def create_doc_def Let_def)
  then show ?thesis
    using facts by (simp add: logAudit_def audit_max_retries_def eval_nat_numeral count_failure_def recorded_def)
qed

lemma rollover_audit_invalid: "\<not> schema_valid (audit_entry_of (rollover_audit client school admin cur nxt k arrears) n prev now)"
  by (simp add: schema_valid_def audit_entry_of_def rollover_audit_def target_types_def)

lemma rollover_not_audited:
  assumes "rolloverToNextPeriod hmac num now client school nextId performedBy db = (db', Inr r)" "keys_ok db"
  shows "recorded (pd_audit db') = recorded (pd_audit db) \<and> ab_failures (pd_audit db') = ab_failures (pd_audit db) + 1"
proof -
  obtain cur nxt db1 where check: "rollover_check school nextId performedBy db = Inr (cur, nxt)"
    and txn: "rollover_txn school cur nxt db = (db1, rr_students r, rr_arrears r)"
    and db': "pd_audit db' = logAudit False hmac num (rollover_audit client school (the performedBy) cur nxt (rr_students r) (rr_arrears r)) now (pd_audit db1)"
    by (rule rollover_D [OF assms(1)]) (auto intro: that)
  have "pd_audit db1 = pd_audit db"
    by (rule rollover_txn_effect(7) [OF assms(2) rollover_check_D(7) [OF check, symmetric] txn])
  then show ?thesis
    unfolding db' by (metis unknown_target_not_recorded [of "rollover_audit client school (the performedBy) cur nxt (rr_students r) (rr_arrears r)" None None now]
      rollover_audit_invalid)
qed

subsection \<open>The first current period\<close>

definition no_current :: "string \<Rightarrow> period_db \<Rightarrow> bool" where
  "no_current school db \<longleftrightarrow> (\<forall>p \<in> set (pd_periods db). ap_schoolId p = school \<longrightarrow> \<not> ap_isCurrent p)"

lemma no_current_iff: "no_current school db \<longleftrightarrow> getCurrentPeriod school db = None"
  by (auto simp: no_current_def getCurrentPeriod_def find_None_iff)

lemma no_current_step:
  assumes "periods_ok db \<and> no_current school db"
  shows "periods_ok (fst (period_step hmac num x db)) \<and> no_current school (fst (period_step hmac num x db))"
proof
  show "periods_ok (fst (period_step hmac num x db))" using assms period_step_ok by blast
  show "no_current school (fst (period_step hmac num x db))"
  proof (cases x)
    case (Create_period school' nm st en nts)
    then show ?thesis
      using assms by (auto simp: createPeriod_def no_current_def add_period_def new_period_def Let_def split: option.splits)
  next
    case (Update_period school' pid u)
    show ?thesis
    proof (cases "find_period school' pid db")
      case (Some p)
      with find_period_D [OF this] Update_period assms show ?thesis
        by (auto simp: updatePeriod_def no_current_def replace_period_def Let_def split: option.splits)
    qed (use Update_period assms in \<open>simp add: updatePeriod_def\<close>)
  next
    case (Assign_fee school' student pid fee deadline carried)
    then show ?thesis
      using assms by (auto simp: upsertStudentPeriodFee_def no_current_def Let_def split: option.splits)
  next
    case (Roll_over now client school' nextId performedBy)
    show ?thesis
    proof (cases "rollover_check school' nextId performedBy db")
      case (Inr cn)
      obtain cur nxt where cn: "cn = (cur, nxt)" by fastforce
      obtain db1 n arrears where txn: "rollover_txn school' cur nxt db = (db1, n, arrears)" by (metis prod_cases3)
      note d = rollover_check_D [OF Inr [unfolded cn]]
      have keys: "keys_ok db" using assms by (simp add: periods_ok_def)
      have "pd_periods (fst (period_step hmac num x db)) = pd_periods db1"
        using Roll_over Inr cn txn by (simp add: rolloverToNextPeriod_def)
      moreover have "school \<noteq> school'" using assms d(1-3) by (auto simp: no_current_def)
      then have "ap_id p \<noteq> ap_id nxt" if "p \<in> set (pd_periods db)" "ap_schoolId p = school" for p
        using same_period [OF keys that(1) d(4)] that(2) d(5) by auto
      ultimately show ?thesis
        using assms rollover_txn_effect(1) [OF keys d(7) [symmetric] txn] by (auto simp: no_current_def)
    qed (use Roll_over assms in \<open>simp add: rolloverToNextPeriod_def\<close>)
  qed
qed

text \<open>A school without a current period stays without one: no sequence of requests, of this school or of
  others, makes a period of it current. The rollover needs a current period to start from, and nothing
  else sets the flag; only the migration that seeds existing schools does.\<close>

theorem first_current_period_unreachable:
  assumes "periods_ok db" "getCurrentPeriod school db = None"
  shows "getCurrentPeriod school (fst (trace (period_step hmac num) reqs db)) = None"
proof -
  have "periods_ok (fst (trace (period_step hmac num) reqs db)) \<and> no_current school (fst (trace (period_step hmac num) reqs db))"
    by (rule trace_invariant) (use assms no_current_step in \<open>auto simp: no_current_iff\<close>)
  then show ?thesis by (simp add: no_current_iff)
qed

definition empty_periods :: period_db where
  "empty_periods = \<lparr>pd_periods = [], pd_assignments = [], pd_pupils = [], pd_structures = [], pd_next = 2, pd_audit = empty_log\<rparr>"

theorem first_current_period_unreachable_witness:
  "getCurrentPeriod ''S'' (fst (trace (period_step id example_num)
     [Create_period ''S'' (Some ''T1'') (Given True (Some 3)) (Given True (Some 9)) None,
      Roll_over 9 (None, None) ''S'' (Some 2) (Some ''admin'')] empty_periods)) = None"
  by (rule first_current_period_unreachable)
    (simp_all add: empty_periods_def periods_ok_def keys_ok_def one_current_def names_distinct_def getCurrentPeriod_def)

subsection \<open>Two rollovers at once\<close>

text \<open>The checks of a rollover are outside its transaction. If two rollovers of a school to different
  periods both pass their checks before either transaction runs, then after both transactions both
  target periods are current, although each transaction ran alone.\<close>

theorem concurrent_rollovers_two_current:
  assumes "periods_ok db"
    and "rollover_check school (Some i) admin1 db = Inr (cur, nxt1)"
    and "rollover_check school (Some j) admin2 db = Inr (cur, nxt2)" and "i \<noteq> j"
  shows "\<exists>p q. p \<in> set (pd_periods (fst (rollover_txn school cur nxt2 (fst (rollover_txn school cur nxt1 db)))))
    \<and> q \<in> set (pd_periods (fst (rollover_txn school cur nxt2 (fst (rollover_txn school cur nxt1 db)))))
    \<and> ap_id p = i \<and> ap_id q = j \<and> ap_isCurrent p \<and> ap_isCurrent q \<and> ap_schoolId p = school \<and> ap_schoolId q = school"
proof -
  note d1 = rollover_check_D [OF assms(2)] and d2 = rollover_check_D [OF assms(3)]
  obtain db1 n1 a1 where t1: "rollover_txn school cur nxt1 db = (db1, n1, a1)" by (metis prod_cases3)
  obtain db2 n2 a2 where t2: "rollover_txn school cur nxt2 db1 = (db2, n2, a2)" by (metis prod_cases3)
  have keys: "keys_ok db" "keys_ok db1"
    using assms(1) rollover_txn_ok [OF assms(1,2) t1] by (simp_all add: periods_ok_def)
  have "pd_periods db2 = map (\<lambda>p. rolled_period (ap_id cur) (ap_id nxt2) a2 (rolled_period (ap_id cur) (ap_id nxt1) a1 p)) (pd_periods db)"
    using rollover_txn_effect(1) [OF keys(1) d1(7) [symmetric] t1] rollover_txn_effect(1) [OF keys(2) d2(7) [symmetric] t2]
    by (simp add: comp_def)
  moreover have "ap_id nxt1 = i" "ap_id nxt2 = j" using d1(8) d2(8) by simp_all
  ultimately show ?thesis
    using d1 d2 t1 t2 assms(4)
    by (intro exI [of _ "rolled_period (ap_id cur) (ap_id nxt2) a2 (rolled_period (ap_id cur) (ap_id nxt1) a1 nxt1)"]
        exI [of _ "rolled_period (ap_id cur) (ap_id nxt2) a2 (rolled_period (ap_id cur) (ap_id nxt1) a1 nxt2)"]) auto
qed

theorem concurrent_rollovers_two_current_witness:
  "\<exists>p q. {p, q} \<subseteq> set (pd_periods (fst (rollover_txn ''S'' (example_period 2 True ''T1'') (example_period 4 False ''T3'')
       (fst (rollover_txn ''S'' (example_period 2 True ''T1'') (example_period 3 False ''T2'') example_periods)))))
     \<and> ap_id p = 3 \<and> ap_id q = 4 \<and> ap_isCurrent p \<and> ap_isCurrent q"
  using concurrent_rollovers_two_current [OF example_periods_ok example_rollover_check] by auto

subsection \<open>The rollover and the balance updater\<close>

text \<open>
  A student document as the balance updater reads it; the credit, the fee categories and the hold are
  columns the rollover does not touch.
\<close>

definition student_of :: "jsnum option \<Rightarrow> fee_entry list \<Rightarrow> bool \<Rightarrow> pupil \<Rightarrow> student" where
  "student_of credit fees hold s =
     \<lparr>st_feeAmount = pu_feeAmount s, st_totalPaid = pu_totalPaid s,
      st_remainingBalance = (case pu_remainingBalance s of None \<Rightarrow> Fin 0 | Some r \<Rightarrow> r),
      st_feePaid = pu_feePaid s, st_creditAdjustments = credit, st_fees = fees, st_disputeHold = hold\<rparr>"

text \<open>The balance updater undoes a rollover of the student's own fields. Right after a rollover the student
  owes the new fee plus the arrears; the next update, with no payment in between, writes the new fee
  less all payments of all periods and the credit. So the arrears are gone, payments of earlier
  periods count a second time, and a student whose earlier payments reach the new fee is marked as
  having paid it.\<close>

theorem balance_update_undoes_rollover:
  assumes "decimal_laws L val" "mongo_sum_law L val sumD" "rows_in_stroops stroops (db_payments bdb)"
    and "db_students bdb (school, student) = Some (student_of credit fees hold (set_pupil pname q s))"
    and "\<bar>paid_stroops stroops (db_payments bdb) school student None\<bar> < 10 ^ 18"
    and "credit_stroops (student_of credit fees hold (set_pupil pname q s)) c" "ro_fee q = money_num fee" "\<bar>fee\<bar> < 10 ^ 15"
  shows "pu_remainingBalance (set_pupil pname q s) = Some (jadd (ro_fee q) (ro_arrears q))
    \<and> (\<exists>s'. snd (updateStudentBalance L sumD breakdown school student bdb) = Some s'
        \<and> st_remainingBalance s' = money_num (max 0 (fee - (paid_stroops stroops (db_payments bdb) school student None + c)))
        \<and> (st_feePaid s' \<longleftrightarrow> fee \<le> paid_stroops stroops (db_payments bdb) school student None + c))"
proof -
  have "st_feeAmount (student_of credit fees hold (set_pupil pname q s)) = money_num fee"
    using assms(7) by (simp add: student_of_def set_pupil_def)
  from student_classification_ledger [OF assms(1-3,5,6) this assms(8)] assms(4)
  show ?thesis by (simp add: updateStudentBalance_def Let_def ledger_class_def set_pupil_def ro_due_def)
qed

definition example_op :: rollover_op where
  "example_op = \<lparr>ro_student = ''A1'', ro_fee = money_num 3000000, ro_arrears = money_num 500000\<rparr>"

definition rolled_example :: balance_db where
  "rolled_example =
     \<lparr>db_payments = [example_row SUCCESS 1000000, example_row SUCCESS 2000000],
      db_students = [(''S'', ''A1'') \<mapsto> student_of None [] False (set_pupil ''T2'' example_op example_pupil)],
      db_current_period = (\<lambda>_. None), db_period_fees = (\<lambda>_. None)\<rparr>"

theorem balance_update_undoes_rollover_witness:
  "\<exists>s'. snd (updateStudentBalance rat_lib rat_sum False ''S'' ''A1'' rolled_example) = Some s'
     \<and> st_remainingBalance s' = money_num 0 \<and> st_feePaid s'"
proof -
  have paid: "paid_stroops row_createdAt (db_payments rolled_example) ''S'' ''A1'' None = 3000000"
    by (simp add: rolled_example_def example_row_def)
  have rows: "rows_in_stroops row_createdAt (db_payments rolled_example)"
    by (simp add: rows_in_stroops_def rolled_example_def example_row_def)
  have credit: "credit_stroops (student_of None [] False (set_pupil ''T2'' example_op example_pupil)) 0"
    using to_num_int [of 0] by (simp add: credit_stroops_def student_of_def or_zero_def money_num_def)
  show ?thesis
    using balance_update_undoes_rollover [OF rat_lib_laws rat_sum_law rows, of "''S''" "''A1''" None "[]" False "''T2''" example_op example_pupil 0 3000000 False]
    unfolding paid using credit by (simp add: rolled_example_def example_op_def)
qed

subsection \<open>Seeding\<close>

lemma seed_school_ok: "periods_ok db \<Longrightarrow> periods_ok (fst (seed_school now (db, n) school))"
proof -
  assume ok: "periods_ok db"
  define y where "y = getUTCFullYear now"
  have "Date_UTC y 0 1 0 < Date_UTC y 11 31 86399999"
    by (simp add: Date_UTC_def MakeDay_def msPerDay_def month_start_def)
  then show ?thesis
    using ok by (auto simp: seed_school_def Let_def y_def [symmetric] new_period_def period_valid_def name_used_def intro!: add_period_ok)
qed

text \<open>The period of a seeded school covers the moment of seeding.\<close>

lemma seeded_year_covers:
  "Date_UTC (getUTCFullYear now) 0 1 0 \<le> now \<and> now \<le> Date_UTC (getUTCFullYear now) 11 31 86399999"
proof -
  define d y where "d = now div msPerDay" and "y = YearFromDay d"
  have day: "DayFromYear y \<le> d" "d < DayFromYear (y + 1)" using YearFromDay_bounds [of d] by (simp_all add: y_def)
  have now: "now = d * msPerDay + now mod msPerDay" by (simp add: d_def)
  have rest: "0 \<le> now mod msPerDay" "now mod msPerDay \<le> 86399999"
    using pos_mod_sign [of msPerDay now] pos_mod_bound [of msPerDay now] by (simp_all add: msPerDay_def)
  have "d \<le> MakeDay y 11 31"
    using day(2) by (simp add: MakeDay_def month_start_def DayFromYear_step split: if_splits)
  moreover have "MakeDay y 0 1 \<le> d" using day(1) by (simp add: MakeDay_def)
  ultimately show ?thesis
    using rest unfolding Date_UTC_def getUTCFullYear_def d_def [symmetric] y_def [symmetric]
    by (subst (1 2) now) (simp add: msPerDay_def)
qed

definition has_period :: "string \<Rightarrow> period_db \<Rightarrow> bool" where
  "has_period school db \<longleftrightarrow> (\<exists>p \<in> set (pd_periods db). ap_schoolId p = school)"

definition covered_now :: "millis \<Rightarrow> string \<Rightarrow> period_db \<Rightarrow> bool" where
  "covered_now now school db \<longleftrightarrow>
     (\<exists>p \<in> set (pd_periods db). ap_schoolId p = school \<and> ap_isCurrent p \<and> ap_startsAt p \<le> now \<and> now \<le> ap_endsAt p)"

lemma seed_school_effect:
  assumes "seed_school now (db, n) school = (db', n')"
  shows "set (pd_periods db) \<subseteq> set (pd_periods db')" "has_period school db'"
    and "\<not> has_period school db \<Longrightarrow> covered_now now school db'"
    and "school' \<noteq> school \<Longrightarrow> has_period school' db' = has_period school' db"
  using assms seeded_year_covers [of now]
  by (auto simp: seed_school_def has_period_def covered_now_def add_period_def new_period_def Let_def split: if_splits)

lemma seed_fold:
  assumes "periods_ok db" "foldl (seed_school now) (db, n) schools = (db', n')"
  shows "periods_ok db' \<and> set (pd_periods db) \<subseteq> set (pd_periods db')
    \<and> (\<forall>school \<in> set schools. has_period school db' \<and> (\<not> has_period school db \<longrightarrow> covered_now now school db'))"
  using assms
proof (induction schools arbitrary: db n)
  case (Cons school schools)
  obtain db1 n1 where step: "seed_school now (db, n) school = (db1, n1)" by fastforce
  note e = seed_school_effect [OF step]
  have "periods_ok db1" using seed_school_ok [OF Cons.prems(1), of now n school] step by simp
  with Cons.IH [of db1 n1] Cons.prems(2) step
  have ih: "periods_ok db'" "set (pd_periods db1) \<subseteq> set (pd_periods db')"
    "\<forall>s \<in> set schools. has_period s db' \<and> (\<not> has_period s db1 \<longrightarrow> covered_now now s db')" by simp_all
  have mono: "has_period s db1 \<Longrightarrow> has_period s db'" "covered_now now s db1 \<Longrightarrow> covered_now now s db'" for s
    using ih(2) by (auto simp: has_period_def covered_now_def)
  then show ?case using ih e(1-3) e(4) [of _] by (auto; metis)
qed simp

text \<open>Seeding gives every active school a period, keeps the periods that exist and the invariant, and the
  schools that had none get a current period of the calendar year that contains the moment of seeding.\<close>

theorem seeding_covers_active_schools:
  assumes "periods_ok db"
  shows "periods_ok (fst (seedDefaultPeriodsForExistingSchools now schools db))
    \<and> set (pd_periods db) \<subseteq> set (pd_periods (fst (seedDefaultPeriodsForExistingSchools now schools db)))
    \<and> (\<forall>school \<in> set schools. has_period school (fst (seedDefaultPeriodsForExistingSchools now schools db))
        \<and> (\<not> has_period school db \<longrightarrow> covered_now now school (fst (seedDefaultPeriodsForExistingSchools now schools db))))"
  unfolding seedDefaultPeriodsForExistingSchools_def
  using seed_fold [OF assms] by (metis prod.collapse)

theorem seeding_covers_active_schools_witness:
  "covered_now 1704067199999 ''T'' (fst (seedDefaultPeriodsForExistingSchools 1704067199999 [''S'', ''T''] example_periods))"
  using seeding_covers_active_schools [OF example_periods_ok, of 1704067199999 "[''S'', ''T'']"]
  by (simp add: has_period_def example_periods_def example_period_def)

end
