(* ===== verification/Session_Store.thy ===== *)
theory Session_Store
  imports Prelude "HOL-Library.AList"
begin

section \<open>Sessions and refresh tokens\<close>

text \<open>
  The store of \<^verbatim>\<open>backend/src/services/sessionStore.js\<close>. A JavaScript \<^verbatim>\<open>Map\<close> is an association list with
  distinct keys in the order of insertion: \<^verbatim>\<open>set\<close> on a key that is present keeps its place, which is
  \<^const>\<open>AList.update\<close>, and \<^verbatim>\<open>delete\<close> is \<^const>\<open>AList.delete\<close>. A \<^verbatim>\<open>Set\<close> is a list without repetition. A
  falsy \<^verbatim>\<open>familyId\<close> is the empty text. An \<^verbatim>\<open>expiresAt\<close> that is not a number is \<^const>\<open>None\<close>. What
  a session record holds is left open.

  Shown: the index of families is invisible, the store behaves like two plain maps, and the
  revocation of a user leaves nothing of that user and everything of the others.
\<close>

record refresh_entry =
  re_userId :: string
  re_sessionId :: string
  re_familyId :: string
  re_expiresAt :: "millis option"

record 's session_store =
  sessions :: "(string \<times> (string \<times> 's) list) list"
  refreshTokens :: "(string \<times> refresh_entry) list"
  families :: "(string \<times> string list) list"

definition empty_session_store :: "'s session_store" where
  "empty_session_store = \<lparr>sessions = [], refreshTokens = [], families = []\<rparr>"

definition isExpired :: "millis \<Rightarrow> refresh_entry option \<Rightarrow> bool" where
  "isExpired now entry =
     (case entry of
        None \<Rightarrow> True
      | Some e \<Rightarrow> (case re_expiresAt e of None \<Rightarrow> False | Some t \<Rightarrow> t \<le> now))"

definition getUserSessions :: "string \<Rightarrow> 's session_store \<Rightarrow> (string \<times> 's) list" where
  "getUserSessions userId st = (case map_of (sessions st) userId of None \<Rightarrow> [] | Some m \<Rightarrow> m)"

definition getSession :: "string \<Rightarrow> string \<Rightarrow> 's session_store \<Rightarrow> 's option" where
  "getSession userId sessionId st = map_of (getUserSessions userId st) sessionId"

definition setSession :: "string \<Rightarrow> string \<Rightarrow> 's \<Rightarrow> 's session_store \<Rightarrow> 's session_store" where
  "setSession userId sessionId session st =
     (let m = (if map_of (sessions st) userId = None then AList.update userId [] (sessions st) else sessions st);
          inner = (case map_of m userId of None \<Rightarrow> [] | Some i \<Rightarrow> i)
      in st\<lparr>sessions := AList.update userId (AList.update sessionId session inner) m\<rparr>)"

definition deleteSession :: "string \<Rightarrow> string \<Rightarrow> 's session_store \<Rightarrow> 's session_store \<times> bool" where
  "deleteSession userId sessionId st =
     (case map_of (sessions st) userId of
        None \<Rightarrow> (st, False)
      | Some m \<Rightarrow> (st\<lparr>sessions := AList.update userId (AList.delete sessionId m) (sessions st)\<rparr>,
                  map_of m sessionId \<noteq> None))"

definition listSessions :: "string \<Rightarrow> 's session_store \<Rightarrow> 's list" where
  "listSessions userId st = map snd (getUserSessions userId st)"

definition set_add :: "'a \<Rightarrow> 'a list \<Rightarrow> 'a list" where
  "set_add x xs = (if x \<in> set xs then xs else xs @ [x])"

definition setRefreshToken :: "string \<Rightarrow> refresh_entry \<Rightarrow> 's session_store \<Rightarrow> 's session_store" where
  "setRefreshToken token entry st =
     (let st1 = st\<lparr>refreshTokens := AList.update token entry (refreshTokens st)\<rparr>
      in if re_familyId entry = [] then st1
         else let fs = (if map_of (families st1) (re_familyId entry) = None
                        then AList.update (re_familyId entry) [] (families st1) else families st1);
                  family = (case map_of fs (re_familyId entry) of None \<Rightarrow> [] | Some xs \<Rightarrow> xs)
              in st1\<lparr>families := AList.update (re_familyId entry) (set_add token family) fs\<rparr>)"

definition getRefreshToken :: "millis \<Rightarrow> string \<Rightarrow> 's session_store \<Rightarrow> 's session_store \<times> refresh_entry option" where
  "getRefreshToken now token st =
     (let entry = map_of (refreshTokens st) token
      in if isExpired now entry
         then (if entry \<noteq> None then st\<lparr>refreshTokens := AList.delete token (refreshTokens st)\<rparr> else st, None)
         else (st, entry))"

definition deleteRefreshToken :: "string \<Rightarrow> 's session_store \<Rightarrow> 's session_store \<times> refresh_entry option" where
  "deleteRefreshToken token st =
     (let entry = map_of (refreshTokens st) token;
          st1 = st\<lparr>refreshTokens := AList.delete token (refreshTokens st)\<rparr>
      in case entry of
           None \<Rightarrow> (st1, None)
         | Some e \<Rightarrow>
             (case (if re_familyId e = [] then None else map_of (families st1) (re_familyId e)) of
                None \<Rightarrow> (st1, Some e)
              | Some family \<Rightarrow>
                  let family' = removeAll token family
                  in (st1\<lparr>families := (if family' = [] then AList.delete (re_familyId e) (families st1)
                                      else AList.update (re_familyId e) family' (families st1))\<rparr>, Some e)))"

text \<open>The loops delete one token after another and count those that were present.\<close>

definition revoke_one :: "(string \<times> refresh_entry) list \<times> nat \<Rightarrow> string \<Rightarrow> (string \<times> refresh_entry) list \<times> nat" where
  "revoke_one acc token =
     (AList.delete token (fst acc), if map_of (fst acc) token \<noteq> None then snd acc + 1 else snd acc)"

definition revokeFamily :: "string \<Rightarrow> 's session_store \<Rightarrow> 's session_store \<times> nat" where
  "revokeFamily familyId st =
     (case map_of (families st) familyId of
        None \<Rightarrow> (st, 0)
      | Some family \<Rightarrow>
          let (tokens, revoked) = foldl revoke_one (refreshTokens st, 0) family
          in (st\<lparr>refreshTokens := tokens, families := AList.delete familyId (families st)\<rparr>, revoked))"

definition clear_store :: "'s session_store \<Rightarrow> 's session_store" where
  "clear_store st = st\<lparr>sessions := [], refreshTokens := [], families := []\<rparr>"

definition revoke_entry ::
  "string \<Rightarrow> string list \<times> (string \<times> refresh_entry) list \<times> nat \<Rightarrow> string \<times> refresh_entry
   \<Rightarrow> string list \<times> (string \<times> refresh_entry) list \<times> nat" where
  "revoke_entry key acc te =
     (let (familyIds, tokens, n) = acc; (token, entry) = te
      in if re_userId entry = key
         then (if re_familyId entry \<noteq> [] then set_add (re_familyId entry) familyIds else familyIds,
               AList.delete token tokens, n + 1)
         else acc)"

definition revokeAllUserSessions :: "string \<Rightarrow> 's session_store \<Rightarrow> 's session_store \<times> nat \<times> nat" where
  "revokeAllUserSessions userId st =
     (let (familyIds, tokens, revokedTokens) = foldl (revoke_entry userId) ([], refreshTokens st, 0) (refreshTokens st);
          fams = foldl (\<lambda>fs f. AList.delete f fs) (families st) familyIds;
          sessionCount = (case map_of (sessions st) userId of None \<Rightarrow> 0 | Some m \<Rightarrow> length m)
      in (st\<lparr>refreshTokens := tokens, families := fams, sessions := AList.delete userId (sessions st)\<rparr>,
          sessionCount, revokedTokens))"

subsection \<open>The loops\<close>

lemma map_of_AList_update: "map_of (AList.update k v xs) = (map_of xs)(k \<mapsto> v)"
  by (simp add: update_conv')

lemma map_of_AList_delete: "map_of (AList.delete k xs) = (map_of xs)(k := None)"
  by (simp add: delete_conv')

lemmas alist_simps = map_of_AList_update map_of_AList_delete distinct_update distinct_delete

lemma map_of_deletes: "map_of (foldl (\<lambda>fs f. AList.delete f fs) xs ks) = (map_of xs) |` (- set ks)"
  by (induction ks arbitrary: xs) (auto simp: alist_simps restrict_map_def fun_eq_iff)

lemma revoke_one_tokens: "map_of (fst (foldl revoke_one acc ks)) = (map_of (fst acc)) |` (- set ks)"
  by (induction ks arbitrary: acc) (auto simp: revoke_one_def alist_simps restrict_map_def fun_eq_iff)

lemma revoke_one_distinct: "distinct (map fst (fst acc)) \<Longrightarrow> distinct (map fst (fst (foldl revoke_one acc ks)))"
  by (induction ks arbitrary: acc) (simp_all add: revoke_one_def alist_simps)

lemma dom_restrict_count:
  assumes "finite (dom m)"
  shows "card (dom m \<inter> insert k K) = (if m k \<noteq> None then 1 else 0) + card (dom (m(k := None)) \<inter> K)"
proof (cases "m k")
  case None
  then have "dom m \<inter> insert k K = dom (m(k := None)) \<inter> K" by auto
  with None show ?thesis by simp
next
  case (Some v)
  then have "dom m \<inter> insert k K = insert k (dom (m(k := None)) \<inter> K)" by auto
  with Some assms show ?thesis by simp
qed

lemma revoke_one_parts:
  "fst (revoke_one acc k) = AList.delete k (fst acc)"
  "snd (revoke_one acc k) = (if map_of (fst acc) k \<noteq> None then 1 else 0) + snd acc"
  by (simp_all add: revoke_one_def)

lemma revoke_one_count:
  "snd (foldl revoke_one acc ks) = snd acc + card (dom (map_of (fst acc)) \<inter> set ks)"
proof (induction ks arbitrary: acc)
  case (Cons k ks)
  show ?case
    using dom_restrict_count [of "map_of (fst acc)" k "set ks"]
    by (simp add: Cons.IH revoke_one_parts map_of_AList_delete finite_dom_map_of del: fun_upd_apply)
qed simp

definition tokens_where :: "(refresh_entry \<Rightarrow> bool) \<Rightarrow> (string \<rightharpoonup> refresh_entry) \<Rightarrow> string set" where
  "tokens_where P m = {t. \<exists>e. m t = Some e \<and> P e}"

definition drop_where :: "(refresh_entry \<Rightarrow> bool) \<Rightarrow> (string \<rightharpoonup> refresh_entry) \<Rightarrow> (string \<rightharpoonup> refresh_entry)" where
  "drop_where P m = m |` (- tokens_where P m)"

lemma drop_where_Some: "drop_where P m t = Some e \<longleftrightarrow> m t = Some e \<and> \<not> P e"
  by (auto simp: drop_where_def tokens_where_def restrict_map_def)

lemma drop_where_restrict:
  assumes "\<And>t e. m t = Some e \<Longrightarrow> P e \<longleftrightarrow> t \<in> K"
  shows "m |` (- K) = drop_where P m \<and> dom m \<inter> K = tokens_where P m"
  using assms by (auto simp: drop_where_def tokens_where_def restrict_map_def fun_eq_iff)

lemma revoke_entry_fold:
  "foldl (revoke_entry u) (fs, ts, n) es =
     (foldl (\<lambda>fs f. set_add f fs) fs [re_familyId e. (t, e) \<leftarrow> es, re_userId e = u \<and> re_familyId e \<noteq> []],
      foldl (\<lambda>ts t. AList.delete t ts) ts [t. (t, e) \<leftarrow> es, re_userId e = u],
      n + length [t. (t, e) \<leftarrow> es, re_userId e = u])"
  by (induction es arbitrary: fs ts n) (auto simp: revoke_entry_def)

lemma set_add_set [simp]: "set (set_add x xs) = insert x (set xs)"
  by (auto simp: set_add_def)

lemma set_add_fold: "set (foldl (\<lambda>fs f. set_add f fs) fs xs) = set fs \<union> set xs"
  by (induction xs arbitrary: fs) auto

lemma user_tokens_set:
  "distinct (map fst es) \<Longrightarrow>
     set [t. (t, e) \<leftarrow> es, re_userId e = u] = tokens_where (\<lambda>e. re_userId e = u) (map_of es)
   \<and> distinct [t. (t, e) \<leftarrow> es, re_userId e = u]"
  by (induction es) (auto simp: tokens_where_def image_iff split: if_splits)

lemma revoke_all_parts:
  assumes "distinct (map fst (refreshTokens st))"
  shows "map_of (refreshTokens (fst (revokeAllUserSessions u st)))
           = drop_where (\<lambda>e. re_userId e = u) (map_of (refreshTokens st))
    \<and> map_of (sessions (fst (revokeAllUserSessions u st))) = (map_of (sessions st))(u := None)
    \<and> snd (revokeAllUserSessions u st)
        = (length (getUserSessions u st), card (tokens_where (\<lambda>e. re_userId e = u) (map_of (refreshTokens st))))"
proof -
  let ?us = "[t. (t, e) \<leftarrow> refreshTokens st, re_userId e = u]"
  note us = user_tokens_set [OF assms, of u]
  then have "length ?us = card (tokens_where (\<lambda>e. re_userId e = u) (map_of (refreshTokens st)))"
    by (metis distinct_card)
  with us show ?thesis
    by (simp add: revokeAllUserSessions_def revoke_entry_fold map_of_deletes alist_simps drop_where_def
        getUserSessions_def split: option.split)
qed

subsection \<open>The store without its index\<close>

text \<open>
  The specification: the sessions of each user and the entry of each refresh token, and nothing else.
  Revoking a family or a user removes the entries that say they belong to it.
\<close>

record 's plain_store =
  p_sessions :: "string \<Rightarrow> (string \<times> 's) list"
  p_tokens :: "string \<rightharpoonup> refresh_entry"

datatype 's store_call =
    GetSession string string
  | SetSession string string 's
  | DeleteSession string string
  | ListSessions string
  | SetRefreshToken string refresh_entry
  | GetRefreshToken millis string
  | DeleteRefreshToken string
  | RevokeFamily string
  | Clear
  | RevokeAll string

datatype 's store_reply =
    Nothing
  | ASession "'s option"
  | Deleted bool
  | Sessions "'s list"
  | Entry "refresh_entry option"
  | Revoked nat
  | RevokedAll nat nat

fun session_step :: "'s store_call \<Rightarrow> 's session_store \<Rightarrow> 's session_store \<times> 's store_reply" where
  "session_step (GetSession u i) st = (st, ASession (getSession u i st))"
| "session_step (SetSession u i s) st = (setSession u i s st, Nothing)"
| "session_step (DeleteSession u i) st = (let (st', b) = deleteSession u i st in (st', Deleted b))"
| "session_step (ListSessions u) st = (st, Sessions (listSessions u st))"
| "session_step (SetRefreshToken t e) st = (setRefreshToken t e st, Nothing)"
| "session_step (GetRefreshToken now t) st = (let (st', e) = getRefreshToken now t st in (st', Entry e))"
| "session_step (DeleteRefreshToken t) st = (let (st', e) = deleteRefreshToken t st in (st', Entry e))"
| "session_step (RevokeFamily f) st = (let (st', n) = revokeFamily f st in (st', Revoked n))"
| "session_step Clear st = (clear_store st, Nothing)"
| "session_step (RevokeAll u) st = (let (st', m, n) = revokeAllUserSessions u st in (st', RevokedAll m n))"

fun plain_step :: "'s store_call \<Rightarrow> 's plain_store \<Rightarrow> 's plain_store \<times> 's store_reply" where
  "plain_step (GetSession u i) p = (p, ASession (map_of (p_sessions p u) i))"
| "plain_step (SetSession u i s) p =
     (p\<lparr>p_sessions := (p_sessions p)(u := AList.update i s (p_sessions p u))\<rparr>, Nothing)"
| "plain_step (DeleteSession u i) p =
     (p\<lparr>p_sessions := (p_sessions p)(u := AList.delete i (p_sessions p u))\<rparr>,
      Deleted (map_of (p_sessions p u) i \<noteq> None))"
| "plain_step (ListSessions u) p = (p, Sessions (map snd (p_sessions p u)))"
| "plain_step (SetRefreshToken t e) p = (p\<lparr>p_tokens := (p_tokens p)(t \<mapsto> e)\<rparr>, Nothing)"
| "plain_step (GetRefreshToken now t) p =
     (if isExpired now (p_tokens p t) then (p\<lparr>p_tokens := (p_tokens p)(t := None)\<rparr>, Entry None)
      else (p, Entry (p_tokens p t)))"
| "plain_step (DeleteRefreshToken t) p = (p\<lparr>p_tokens := (p_tokens p)(t := None)\<rparr>, Entry (p_tokens p t))"
| "plain_step (RevokeFamily f) p =
     (let P = (\<lambda>e. f \<noteq> [] \<and> re_familyId e = f)
      in (p\<lparr>p_tokens := drop_where P (p_tokens p)\<rparr>, Revoked (card (tokens_where P (p_tokens p)))))"
| "plain_step Clear p = (p\<lparr>p_sessions := (\<lambda>_. []), p_tokens := Map.empty\<rparr>, Nothing)"
| "plain_step (RevokeAll u) p =
     (let P = (\<lambda>e. re_userId e = u)
      in (p\<lparr>p_tokens := drop_where P (p_tokens p), p_sessions := (p_sessions p)(u := [])\<rparr>,
          RevokedAll (length (p_sessions p u)) (card (tokens_where P (p_tokens p)))))"

definition plain_of :: "'s session_store \<Rightarrow> 's plain_store" where
  "plain_of st = \<lparr>p_sessions = (\<lambda>u. getUserSessions u st), p_tokens = map_of (refreshTokens st)\<rparr>"

text \<open>
  The callers draw tokens and families at random, so a token is only ever stored for one family and a
  family for one user: \<open>fam\<close> and \<open>owner\<close> are that assignment.
\<close>

fun assigned :: "(string \<Rightarrow> string) \<Rightarrow> (string \<Rightarrow> string) \<Rightarrow> 's store_call \<Rightarrow> bool" where
  "assigned fam owner (SetRefreshToken t e) =
     (re_familyId e = fam t \<and> (fam t \<noteq> [] \<longrightarrow> owner (fam t) = re_userId e))"
| "assigned fam owner _ = True"

definition store_inv :: "(string \<Rightarrow> string) \<Rightarrow> (string \<Rightarrow> string) \<Rightarrow> 's session_store \<Rightarrow> bool" where
  "store_inv fam owner st \<longleftrightarrow>
     distinct (map fst (refreshTokens st))
   \<and> (\<forall>t e. map_of (refreshTokens st) t = Some e \<longrightarrow>
        re_familyId e = fam t
        \<and> (fam t \<noteq> [] \<longrightarrow> owner (fam t) = re_userId e \<and> (\<exists>S. map_of (families st) (fam t) = Some S \<and> t \<in> set S)))
   \<and> (\<forall>f S. map_of (families st) f = Some S \<longrightarrow> f \<noteq> [] \<and> (\<forall>t\<in>set S. fam t = f))"

lemma store_invI:
  assumes "distinct (map fst (refreshTokens st))"
    and "\<And>t e. map_of (refreshTokens st) t = Some e \<Longrightarrow> re_familyId e = fam t
        \<and> (fam t \<noteq> [] \<longrightarrow> owner (fam t) = re_userId e \<and> (\<exists>S. map_of (families st) (fam t) = Some S \<and> t \<in> set S))"
    and "\<And>f S. map_of (families st) f = Some S \<Longrightarrow> f \<noteq> [] \<and> (\<forall>t\<in>set S. fam t = f)"
  shows "store_inv fam owner st"
  using assms unfolding store_inv_def by blast

lemma store_invD:
  assumes "store_inv fam owner st"
  shows "distinct (map fst (refreshTokens st))"
    and "map_of (refreshTokens st) t = Some e \<Longrightarrow> re_familyId e = fam t
        \<and> (fam t \<noteq> [] \<longrightarrow> owner (fam t) = re_userId e \<and> (\<exists>S. map_of (families st) (fam t) = Some S \<and> t \<in> set S))"
    and "map_of (families st) f = Some S \<Longrightarrow> f \<noteq> [] \<and> (\<forall>t\<in>set S. fam t = f)"
  using assms unfolding store_inv_def by blast+

lemma store_inv_cong:
  "refreshTokens st' = refreshTokens st \<Longrightarrow> families st' = families st \<Longrightarrow> store_inv fam owner st' = store_inv fam owner st"
  by (simp add: store_inv_def)

subsection \<open>Every operation keeps the invariant\<close>

lemma setSession_inv: "store_inv fam owner st \<Longrightarrow> store_inv fam owner (setSession u i s st)"
  by (simp add: store_inv_def setSession_def Let_def)

lemma deleteSession_inv: "store_inv fam owner st \<Longrightarrow> store_inv fam owner (fst (deleteSession u i st))"
  by (simp add: store_inv_def deleteSession_def split: option.split)

lemma setRefreshToken_families:
  "re_familyId e \<noteq> [] \<Longrightarrow> map_of (families (setRefreshToken t e st)) = (map_of (families st))
     (re_familyId e \<mapsto> set_add t (case map_of (families st) (re_familyId e) of None \<Rightarrow> [] | Some xs \<Rightarrow> xs))"
  by (auto simp: setRefreshToken_def Let_def alist_simps split: option.split)

lemma setRefreshToken_tokens:
  "refreshTokens (setRefreshToken t e st) = AList.update t e (refreshTokens st)"
  "re_familyId e = [] \<Longrightarrow> families (setRefreshToken t e st) = families st"
  by (simp_all add: setRefreshToken_def Let_def)

lemma setRefreshToken_inv:
  assumes "store_inv fam owner st" and "assigned fam owner (SetRefreshToken t e)"
  shows "store_inv fam owner (setRefreshToken t e st)"
proof (rule store_invI)
  note inv = store_invD [OF assms(1)]
  show "distinct (map fst (refreshTokens (setRefreshToken t e st)))"
    by (simp add: setRefreshToken_tokens alist_simps inv(1))
  show "re_familyId e' = fam t' \<and> (fam t' \<noteq> [] \<longrightarrow> owner (fam t') = re_userId e'
      \<and> (\<exists>S. map_of (families (setRefreshToken t e st)) (fam t') = Some S \<and> t' \<in> set S))"
    if "map_of (refreshTokens (setRefreshToken t e st)) t' = Some e'" for t' e'
    using that assms(2) inv(2) [of t' e']
    by (cases "re_familyId e = []")
      (auto simp: setRefreshToken_tokens setRefreshToken_families alist_simps split: if_splits)
  show "f \<noteq> [] \<and> (\<forall>t'\<in>set S. fam t' = f)"
    if "map_of (families (setRefreshToken t e st)) f = Some S" for f S
    using that assms(2) inv(3) [of f]
    by (cases "re_familyId e = []")
      (auto simp: setRefreshToken_tokens setRefreshToken_families split: if_splits option.splits)
qed

text \<open>Removing tokens, and from the index only what no token left needs, keeps the invariant.\<close>

lemma store_inv_remove:
  assumes "store_inv fam owner st"
    and "distinct (map fst (refreshTokens st'))"
    and "\<And>t e. map_of (refreshTokens st') t = Some e \<Longrightarrow> map_of (refreshTokens st) t = Some e
       \<and> (\<forall>S. map_of (families st) (fam t) = Some S \<and> t \<in> set S
            \<longrightarrow> (\<exists>S'. map_of (families st') (fam t) = Some S' \<and> t \<in> set S'))"
    and "\<And>f S. map_of (families st') f = Some S \<Longrightarrow> \<exists>S'. map_of (families st) f = Some S' \<and> set S \<subseteq> set S'"
  shows "store_inv fam owner st'"
proof (rule store_invI [OF assms(2)])
  note inv = store_invD [OF assms(1)]
  show "re_familyId e = fam t \<and> (fam t \<noteq> [] \<longrightarrow> owner (fam t) = re_userId e
      \<and> (\<exists>S. map_of (families st') (fam t) = Some S \<and> t \<in> set S))"
    if "map_of (refreshTokens st') t = Some e" for t e
    using assms(3) [OF that] inv(2) [of t e] by blast
  show "f \<noteq> [] \<and> (\<forall>t\<in>set S. fam t = f)" if "map_of (families st') f = Some S" for f S
    using assms(4) [OF that] inv(3) [of f] by blast
qed

lemma getRefreshToken_parts:
  "refreshTokens (fst (getRefreshToken now t st)) =
     (if isExpired now (map_of (refreshTokens st) t) then AList.delete t (refreshTokens st) else refreshTokens st)"
  "families (fst (getRefreshToken now t st)) = families st"
  by (auto simp: getRefreshToken_def Let_def delete_id map_of_eq_None_iff)

lemma getRefreshToken_inv:
  assumes "store_inv fam owner st"
  shows "store_inv fam owner (fst (getRefreshToken now t st))"
proof (rule store_inv_remove [OF assms])
  show "distinct (map fst (refreshTokens (fst (getRefreshToken now t st))))"
    by (simp add: getRefreshToken_parts alist_simps store_invD(1) [OF assms])
qed (auto simp: getRefreshToken_parts map_of_AList_delete split: if_splits)

lemma deleteRefreshToken_parts:
  "refreshTokens (fst (deleteRefreshToken t st)) = AList.delete t (refreshTokens st)"
  by (simp add: deleteRefreshToken_def Let_def split: option.split)

lemma removeAll_Nil: "removeAll x xs = [] \<longleftrightarrow> set xs \<subseteq> {x}"
  by (induction xs) auto

lemma deleteRefreshToken_families:
  "t' \<noteq> t \<Longrightarrow> map_of (families st) f = Some S \<Longrightarrow> t' \<in> set S
     \<Longrightarrow> \<exists>S'. map_of (families (fst (deleteRefreshToken t st))) f = Some S' \<and> t' \<in> set S'"
  "map_of (families (fst (deleteRefreshToken t st))) f = Some S
     \<Longrightarrow> \<exists>S'. map_of (families st) f = Some S' \<and> set S \<subseteq> set S'"
  by (auto simp: deleteRefreshToken_def Let_def map_of_AList_update map_of_AList_delete removeAll_Nil
      split: if_splits option.splits)

lemma deleteRefreshToken_inv:
  assumes "store_inv fam owner st"
  shows "store_inv fam owner (fst (deleteRefreshToken t st))"
proof (rule store_inv_remove [OF assms])
  show "distinct (map fst (refreshTokens (fst (deleteRefreshToken t st))))"
    by (simp add: deleteRefreshToken_parts alist_simps store_invD(1) [OF assms])
qed (auto simp: deleteRefreshToken_parts map_of_AList_delete deleteRefreshToken_families split: if_splits)

lemma revokeFamily_inv:
  assumes "store_inv fam owner st"
  shows "store_inv fam owner (fst (revokeFamily f st))"
proof (rule store_inv_remove [OF assms])
  show "distinct (map fst (refreshTokens (fst (revokeFamily f st))))"
    using revoke_one_distinct [of "(refreshTokens st, 0)"] store_invD(1) [OF assms]
    by (auto simp: revokeFamily_def case_prod_beta split: option.split)
  show "map_of (refreshTokens st) t = Some e \<and> (\<forall>S. map_of (families st) (fam t) = Some S \<and> t \<in> set S
      \<longrightarrow> (\<exists>S'. map_of (families (fst (revokeFamily f st))) (fam t) = Some S' \<and> t \<in> set S'))"
    if "map_of (refreshTokens (fst (revokeFamily f st))) t = Some e" for t e
    using that by (auto simp: revokeFamily_def case_prod_beta alist_simps revoke_one_tokens restrict_map_def
        split: option.splits if_splits)
  show "\<exists>S'. map_of (families st) g = Some S' \<and> set S \<subseteq> set S'"
    if "map_of (families (fst (revokeFamily f st))) g = Some S" for g S
    using that by (auto simp: revokeFamily_def case_prod_beta alist_simps split: option.splits if_splits)
qed

lemma revokeAll_inv:
  assumes "store_inv fam owner st"
  shows "store_inv fam owner (fst (revokeAllUserSessions u st))"
proof (rule store_inv_remove [OF assms])
  note inv = store_invD [OF assms]
  let ?st = "fst (revokeAllUserSessions u st)"
  let ?fs = "{re_familyId e | t e. (t, e) \<in> set (refreshTokens st) \<and> re_userId e = u \<and> re_familyId e \<noteq> []}"
  have fams: "map_of (families ?st) = map_of (families st) |` (- ?fs)"
    by (simp add: revokeAllUserSessions_def revoke_entry_fold map_of_deletes set_add_fold restrict_map_def fun_eq_iff)
      blast
  have toks: "map_of (refreshTokens ?st) = drop_where (\<lambda>e. re_userId e = u) (map_of (refreshTokens st))"
    using revoke_all_parts [OF inv(1)] by blast
  have keep: "distinct (map fst (foldl (\<lambda>ts t. AList.delete t ts) xs ks))"
    if "distinct (map fst xs)" for xs :: "(string \<times> refresh_entry) list" and ks :: "string list"
    using that by (induction ks arbitrary: xs) (simp_all add: alist_simps)
  show "distinct (map fst (refreshTokens ?st))"
    by (simp add: revokeAllUserSessions_def revoke_entry_fold keep inv(1))
  show "map_of (refreshTokens st) t = Some e \<and> (\<forall>S. map_of (families st) (fam t) = Some S \<and> t \<in> set S
      \<longrightarrow> (\<exists>S'. map_of (families ?st) (fam t) = Some S' \<and> t \<in> set S'))"
    if "map_of (refreshTokens ?st) t = Some e" for t e
  proof -
    from that have e: "map_of (refreshTokens st) t = Some e" "re_userId e \<noteq> u"
      by (simp_all add: toks drop_where_Some)
    have "fam t \<notin> ?fs"
    proof
      assume "fam t \<in> ?fs"
      then obtain t' e' where "map_of (refreshTokens st) t' = Some e'" "re_familyId e' = fam t"
          "re_userId e' = u" "fam t \<noteq> []"
        using inv(1) by (auto simp: map_of_eq_Some_iff)
      with inv(2) [of t' e'] inv(2) [OF e(1)] e(2) show False by auto
    qed
    with e show ?thesis by (simp add: fams restrict_map_def)
  qed
  show "\<exists>S'. map_of (families st) g = Some S' \<and> set S \<subseteq> set S'"
    if "map_of (families ?st) g = Some S" for g S
    using that by (auto simp: fams restrict_map_def split: if_splits)
qed

lemma store_step_inv:
  assumes "store_inv fam owner st" and "assigned fam owner c"
  shows "store_inv fam owner (fst (session_step c st))"
proof (cases c)
  case (SetRefreshToken t e)
  with assms setRefreshToken_inv show ?thesis by fastforce
next
  case Clear
  then show ?thesis by (simp add: store_inv_def clear_store_def)
qed (simp_all add: assms(1) case_prod_beta setSession_inv deleteSession_inv getRefreshToken_inv
    deleteRefreshToken_inv revokeFamily_inv revokeAll_inv)

subsection \<open>The index is invisible\<close>

lemma getUserSessions_sessions:
  "map_of (sessions st') = (map_of (sessions st))(u \<mapsto> m) \<Longrightarrow>
     (\<lambda>v. getUserSessions v st') = (\<lambda>v. getUserSessions v st)(u := m)"
  "map_of (sessions st') = (map_of (sessions st))(u := None) \<Longrightarrow>
     (\<lambda>v. getUserSessions v st') = (\<lambda>v. getUserSessions v st)(u := [])"
  "sessions st' = sessions st \<Longrightarrow> getUserSessions v st' = getUserSessions v st"
  by (auto simp: getUserSessions_def fun_eq_iff)

lemma setSession_plain:
  "plain_of (setSession u i s st) = fst (plain_step (SetSession u i s) (plain_of st))"
proof -
  have "map_of (sessions (setSession u i s st))
      = (map_of (sessions st))(u \<mapsto> AList.update i s (getUserSessions u st))"
    by (auto simp: setSession_def getUserSessions_def Let_def map_of_AList_update split: option.split)
  from getUserSessions_sessions(1) [OF this]
  show ?thesis by (simp add: plain_of_def setSession_def Let_def)
qed

lemma deleteSession_plain:
  "plain_step (DeleteSession u i) (plain_of st) =
     (plain_of (fst (deleteSession u i st)), Deleted (snd (deleteSession u i st)))"
proof (cases "map_of (sessions st) u")
  case None
  then have "getUserSessions u st = []" by (simp add: getUserSessions_def)
  then show ?thesis using None by (simp add: deleteSession_def plain_of_def fun_upd_idem)
next
  case (Some m)
  then have "map_of (sessions (fst (deleteSession u i st))) = (map_of (sessions st))(u \<mapsto> AList.delete i m)"
    by (simp add: deleteSession_def map_of_AList_update)
  from getUserSessions_sessions(1) [OF this] Some
  show ?thesis by (simp add: plain_of_def deleteSession_def getUserSessions_def)
qed

lemma token_only_plain:
  assumes "sessions st' = sessions st"
  shows "plain_of st' = (plain_of st)\<lparr>p_tokens := map_of (refreshTokens st')\<rparr>"
  using getUserSessions_sessions(3) [OF assms] by (simp add: plain_of_def)

lemma setRefreshToken_plain:
  "plain_of (setRefreshToken t e st) = fst (plain_step (SetRefreshToken t e) (plain_of st))"
proof -
  have "sessions (setRefreshToken t e st) = sessions st" by (simp add: setRefreshToken_def Let_def)
  from token_only_plain [OF this] show ?thesis
    by (simp add: setRefreshToken_tokens map_of_AList_update plain_of_def)
qed

lemma getRefreshToken_plain:
  "plain_step (GetRefreshToken now t) (plain_of st) =
     (plain_of (fst (getRefreshToken now t st)), Entry (snd (getRefreshToken now t st)))"
proof -
  have "sessions (fst (getRefreshToken now t st)) = sessions st" by (simp add: getRefreshToken_def Let_def)
  from token_only_plain [OF this] show ?thesis
    by (simp add: getRefreshToken_parts map_of_AList_delete plain_of_def) (simp add: getRefreshToken_def Let_def)
qed

lemma deleteRefreshToken_plain:
  "plain_step (DeleteRefreshToken t) (plain_of st) =
     (plain_of (fst (deleteRefreshToken t st)), Entry (snd (deleteRefreshToken t st)))"
proof -
  have s: "sessions (fst (deleteRefreshToken t st)) = sessions st"
    and r: "snd (deleteRefreshToken t st) = map_of (refreshTokens st) t"
    by (simp_all add: deleteRefreshToken_def Let_def split: option.split)
  from token_only_plain [OF s] show ?thesis
    by (simp add: deleteRefreshToken_parts map_of_AList_delete plain_of_def r)
qed

definition family_set :: "string \<Rightarrow> 's session_store \<Rightarrow> string set" where
  "family_set f st = (case map_of (families st) f of None \<Rightarrow> {} | Some S \<Rightarrow> set S)"

lemma revokeFamily_parts:
  "map_of (refreshTokens (fst (revokeFamily f st))) = map_of (refreshTokens st) |` (- family_set f st)
   \<and> snd (revokeFamily f st) = card (dom (map_of (refreshTokens st)) \<inter> family_set f st)"
  by (simp add: revokeFamily_def family_set_def case_prod_beta revoke_one_tokens revoke_one_count
      split: option.split) (simp add: restrict_map_def)

lemma revokeFamily_plain:
  assumes "store_inv fam owner st"
  shows "plain_step (RevokeFamily f) (plain_of st) =
     (plain_of (fst (revokeFamily f st)), Revoked (snd (revokeFamily f st)))"
proof -
  note inv = store_invD [OF assms]
  let ?P = "\<lambda>e. f \<noteq> [] \<and> re_familyId e = f"
  have s: "sessions (fst (revokeFamily f st)) = sessions st"
    by (simp add: revokeFamily_def case_prod_beta split: option.split)
  have in_family: "?P e \<longleftrightarrow> t \<in> family_set f st"
    if "map_of (refreshTokens st) t = Some e" for t e
  proof (cases "map_of (families st) f")
    case None
    with inv(2) [OF that] show ?thesis by (auto simp: family_set_def)
  next
    case (Some S)
    have set: "family_set f st = set S" by (simp add: family_set_def Some)
    from inv(3) [OF Some] inv(2) [OF that] Some show ?thesis unfolding set by (metis option.inject)
  qed
  have cut: "map_of (refreshTokens st) |` (- family_set f st) = drop_where ?P (map_of (refreshTokens st))
    \<and> dom (map_of (refreshTokens st)) \<inter> family_set f st = tokens_where ?P (map_of (refreshTokens st))"
    by (rule drop_where_restrict) (rule in_family)
  have t: "map_of (refreshTokens (fst (revokeFamily f st))) = drop_where ?P (map_of (refreshTokens st))"
    and n: "snd (revokeFamily f st) = card (tokens_where ?P (map_of (refreshTokens st)))"
    using revokeFamily_parts [of f st] cut by simp_all
  from token_only_plain [OF s] t n show ?thesis by (simp add: plain_of_def Let_def)
qed

lemma revokeAll_plain:
  assumes "store_inv fam owner st"
  shows "plain_step (RevokeAll u) (plain_of st) =
     (plain_of (fst (revokeAllUserSessions u st)),
      RevokedAll (fst (snd (revokeAllUserSessions u st))) (snd (snd (revokeAllUserSessions u st))))"
proof -
  note parts = revoke_all_parts [OF store_invD(1) [OF assms], of u]
  then have "(\<lambda>v. getUserSessions v (fst (revokeAllUserSessions u st))) = (\<lambda>v. getUserSessions v st)(u := [])"
    by (intro getUserSessions_sessions(2)) blast
  with parts show ?thesis by (simp add: plain_of_def Let_def)
qed

lemma store_refinement:
  "refinement (session_step :: 's store_call \<Rightarrow> _) plain_step plain_of (store_inv fam owner) (assigned fam owner)"
proof
  fix st :: "'s session_store" and c :: "'s store_call"
  assume inv: "store_inv fam owner st" and ok: "assigned fam owner c"
  show "store_inv fam owner (fst (session_step c st))" by (rule store_step_inv [OF inv ok])
  show "plain_step c (plain_of st) = (plain_of (fst (session_step c st)), snd (session_step c st))"
  proof (cases c)
    case (SetSession u i s)
    then show ?thesis using setSession_plain [of u i s st] by (simp add: plain_of_def)
  next
    case (SetRefreshToken t e)
    then show ?thesis using setRefreshToken_plain [of t e st] by (simp add: plain_of_def)
  next
    case Clear
    then show ?thesis by (simp add: clear_store_def plain_of_def getUserSessions_def fun_eq_iff)
  next
    case (RevokeFamily f)
    then show ?thesis using revokeFamily_plain [OF inv] by (simp add: case_prod_beta)
  next
    case (RevokeAll u)
    then show ?thesis using revokeAll_plain [OF inv] by (simp add: case_prod_beta)
  next
    case (DeleteSession u i)
    then show ?thesis using deleteSession_plain by (simp add: case_prod_beta)
  next
    case (GetRefreshToken now t)
    then show ?thesis using getRefreshToken_plain [of now t st] by (simp add: case_prod_beta)
  next
    case (DeleteRefreshToken t)
    then show ?thesis using deleteRefreshToken_plain by (simp add: case_prod_beta)
  qed (simp_all add: plain_of_def getSession_def listSessions_def)
qed

lemma store_inv_empty: "store_inv fam owner empty_session_store"
  by (simp add: store_inv_def empty_session_store_def)

text \<open>C11: The store of sessions and refresh tokens behaves like two plain maps. From the empty store, any
  sequence of calls, where every token is stored for one family and every family for one user, gets
  the replies of the specification without an index of families; in particular revoking a family or a user
  removes exactly the tokens whose entries belong to it, and reports their number.\<close>

theorem session_store_refines_plain_maps:
  fixes calls :: "'s store_call list"
  assumes "list_all (assigned fam owner) calls"
  shows "snd (trace session_step calls empty_session_store)
       = snd (trace plain_step calls \<lparr>p_sessions = (\<lambda>_. []), p_tokens = Map.empty\<rparr>)"
proof -
  have start: "plain_of empty_session_store = \<lparr>p_sessions = (\<lambda>_. []), p_tokens = Map.empty\<rparr>"
    by (simp add: plain_of_def empty_session_store_def getUserSessions_def)
  show ?thesis
    using refinement.trace_refines [OF store_refinement store_inv_empty assms] unfolding start by simp
qed

definition refresh_entry_of :: "string \<Rightarrow> string \<Rightarrow> refresh_entry" where
  "refresh_entry_of u f = \<lparr>re_userId = u, re_sessionId = ''s'', re_familyId = f, re_expiresAt = Some 1000\<rparr>"

theorem session_store_refines_plain_maps_witness:
  "snd (trace session_step
      [SetRefreshToken ''t1'' (refresh_entry_of ''u'' ''f''), SetRefreshToken ''t2'' (refresh_entry_of ''v'' ''g''),
       RevokeFamily ''f'', GetRefreshToken 0 ''t2''] (empty_session_store :: nat session_store))
     = snd (trace plain_step
      [SetRefreshToken ''t1'' (refresh_entry_of ''u'' ''f''), SetRefreshToken ''t2'' (refresh_entry_of ''v'' ''g''),
       RevokeFamily ''f'', GetRefreshToken 0 ''t2''] \<lparr>p_sessions = (\<lambda>_. []), p_tokens = Map.empty\<rparr>)"
  by (rule session_store_refines_plain_maps
      [where fam = "\<lambda>t. if t = ''t1'' then ''f'' else ''g''" and owner = "\<lambda>f. if f = ''f'' then ''u'' else ''v''"])
    (simp add: refresh_entry_of_def)

text \<open>Revoking a user after any such calls leaves no refresh token and no session of that user, and keeps
  every token and every session of the others.\<close>

lemma revoke_user_sessions_complete:
  fixes calls :: "'s store_call list" and u :: string
  assumes "list_all (assigned fam owner) calls"
  defines "st \<equiv> fst (trace session_step calls empty_session_store)"
  defines "st' \<equiv> fst (revokeAllUserSessions u st)"
  shows "(\<forall>t e. map_of (refreshTokens st') t = Some e \<longleftrightarrow> map_of (refreshTokens st) t = Some e \<and> re_userId e \<noteq> u)
    \<and> listSessions u st' = [] \<and> (\<forall>v. v \<noteq> u \<longrightarrow> listSessions v st' = listSessions v st)"
proof -
  have "store_inv fam owner st"
    using refinement.trace_refines [OF store_refinement store_inv_empty assms(1)] unfolding st_def by blast
  from revoke_all_parts [OF store_invD(1) [OF this], of u] show ?thesis
    by (simp add: st'_def drop_where_Some listSessions_def getUserSessions_def)
qed

text \<open>Where a family is shared by two users, revoking one of them drops the family from the index, and the
  other's token then survives the revocation of its family.\<close>

lemma shared_family_not_revoked:
  "let st = fst (trace session_step
        [SetRefreshToken ''t1'' (refresh_entry_of ''u'' ''f''), SetRefreshToken ''t2'' (refresh_entry_of ''v'' ''f''),
         RevokeAll ''u'', RevokeFamily ''f''] (empty_session_store :: nat session_store))
   in snd (getRefreshToken 0 ''t2'' st) = Some (refresh_entry_of ''v'' ''f'')"
  by (simp add: setRefreshToken_def refresh_entry_of_def empty_session_store_def revokeAllUserSessions_def
      revoke_entry_def set_add_def revokeFamily_def getRefreshToken_def isExpired_def)

text \<open>A lookup removes an expired token from the map but not from its family, so the index keeps the token
  and the family although nothing else refers to them.\<close>

lemma expired_token_stays_indexed:
  "let st = fst (trace session_step
        [SetRefreshToken ''t1'' (refresh_entry_of ''u'' ''f''), GetRefreshToken 1000 ''t1'', DeleteRefreshToken ''t1'']
        (empty_session_store :: nat session_store))
   in refreshTokens st = [] \<and> families st = [(''f'', [''t1''])]"
  by (simp add: setRefreshToken_def refresh_entry_of_def empty_session_store_def set_add_def
      deleteRefreshToken_def getRefreshToken_def isExpired_def)

end
