(* ===== verification/Auth_Guard.thy ===== *)
theory Auth_Guard
  imports Session_Store JS_String
begin

section \<open>Authentication of requests\<close>

text \<open>
  The guards of \<^verbatim>\<open>backend/src/middleware/auth.js\<close>, the tokens and the denylist of
  \<^verbatim>\<open>backend/src/services/tokenService.js\<close>, and the lockout of accounts in
  \<^verbatim>\<open>backend/src/controllers/authController.js\<close>. The in-process cache of \<^verbatim>\<open>backend/src/cache.js\<close> hands its
  calls on to a library; that library, Redis, the library of tokens and the key derivation are
  parameters with their documented laws. The collection of users is a parameter too: the guard
  imports \<^verbatim>\<open>../models/User\<close>, which is not part of the repository.

  A claim or a header that is absent, \<^verbatim>\<open>null\<close> or empty is the empty text: the code tests them for truth only.

  Shown: who passes a guard and with which school, after how many failures an address or an account is
  blocked and for how long, and that a token issued by the login never passes a guard.
\<close>

subsection \<open>The cache and Redis\<close>

text \<open>Values of the cache: counters, and \<^verbatim>\<open>true\<close> as one. Times to live are in seconds.\<close>

record ('v, 'c) cache_ops =
  nc_get :: "millis \<Rightarrow> string \<Rightarrow> 'c \<Rightarrow> 'v option"
  nc_set :: "millis \<Rightarrow> string \<Rightarrow> 'v \<Rightarrow> int \<Rightarrow> 'c \<Rightarrow> 'c"
  nc_del :: "millis \<Rightarrow> string \<Rightarrow> 'c \<Rightarrow> 'c"

definition cache_laws :: "('v, 'c) cache_ops \<Rightarrow> bool" where
  "cache_laws C \<longleftrightarrow>
     (\<forall>t0 t k v ttl c. 0 < ttl \<and> t0 \<le> t \<and> t < t0 + 1000 * ttl \<longrightarrow> nc_get C t k (nc_set C t0 k v ttl c) = Some v)
   \<and> (\<forall>t0 t k v ttl c. 0 < ttl \<and> t0 + 1000 * ttl < t \<longrightarrow> nc_get C t k (nc_set C t0 k v ttl c) = None)
   \<and> (\<forall>t0 t k k' v ttl c. k' \<noteq> k \<longrightarrow> nc_get C t k' (nc_set C t0 k v ttl c) = nc_get C t k' c)
   \<and> (\<forall>t0 t k c. t0 \<le> t \<longrightarrow> nc_get C t k (nc_del C t0 k c) = None)
   \<and> (\<forall>t0 t k k' c. k' \<noteq> k \<longrightarrow> nc_get C t k' (nc_del C t0 k c) = nc_get C t k' c)"

text \<open>The commands of Redis; \<open>rd_value\<close> is what \<^verbatim>\<open>GET\<close> and \<^verbatim>\<open>EXISTS\<close> report on.\<close>

record 'r redis_cmds =
  rd_value :: "millis \<Rightarrow> string \<Rightarrow> 'r \<Rightarrow> int option"
  rd_incr :: "millis \<Rightarrow> string \<Rightarrow> 'r \<Rightarrow> 'r \<times> int"
  rd_expire :: "millis \<Rightarrow> string \<Rightarrow> int \<Rightarrow> 'r \<Rightarrow> 'r"
  rd_set_ex :: "millis \<Rightarrow> string \<Rightarrow> int \<Rightarrow> int \<Rightarrow> 'r \<Rightarrow> 'r"
  rd_del :: "millis \<Rightarrow> string \<Rightarrow> 'r \<Rightarrow> 'r"

text \<open>
  Documented: \<^verbatim>\<open>INCR\<close> starts at one, without expiry, and keeps the expiry of a key that exists; \<^verbatim>\<open>EXPIRE\<close>
  keeps the value until its time; \<^verbatim>\<open>SET\<close> with \<^verbatim>\<open>EX\<close> stores until its time; a command touches its key only.
\<close>

definition redis_cmd_laws :: "'r redis_cmds \<Rightarrow> bool" where
  "redis_cmd_laws R \<longleftrightarrow>
     (\<forall>t0 t k r. rd_value R t0 k r = None \<and> t0 \<le> t \<longrightarrow>
        snd (rd_incr R t0 k r) = 1 \<and> rd_value R t k (fst (rd_incr R t0 k r)) = Some 1)
   \<and> (\<forall>t0 t k r n. rd_value R t0 k r = Some n \<and> t0 \<le> t \<longrightarrow>
        snd (rd_incr R t0 k r) = n + 1
        \<and> rd_value R t k (fst (rd_incr R t0 k r)) = map_option (\<lambda>_. n + 1) (rd_value R t k r))
   \<and> (\<forall>t0 t k r n ttl. 0 < ttl \<and> rd_value R t0 k r = Some n \<and> t0 \<le> t \<longrightarrow>
        (t < t0 + 1000 * ttl \<longrightarrow> rd_value R t k (rd_expire R t0 k ttl r) = Some n)
        \<and> (t0 + 1000 * ttl < t \<longrightarrow> rd_value R t k (rd_expire R t0 k ttl r) = None))
   \<and> (\<forall>t0 t k r v ttl. 0 < ttl \<and> t0 \<le> t \<longrightarrow>
        (t < t0 + 1000 * ttl \<longrightarrow> rd_value R t k (rd_set_ex R t0 k v ttl r) = Some v)
        \<and> (t0 + 1000 * ttl < t \<longrightarrow> rd_value R t k (rd_set_ex R t0 k v ttl r) = None))
   \<and> (\<forall>t0 t k r. t0 \<le> t \<longrightarrow> rd_value R t k (rd_del R t0 k r) = None)
   \<and> (\<forall>t0 t k k' v ttl r. k' \<noteq> k \<longrightarrow>
        rd_value R t k' (fst (rd_incr R t0 k r)) = rd_value R t k' r
        \<and> rd_value R t k' (rd_expire R t0 k ttl r) = rd_value R t k' r
        \<and> rd_value R t k' (rd_set_ex R t0 k v ttl r) = rd_value R t k' r
        \<and> rd_value R t k' (rd_del R t0 k r) = rd_value R t k' r)"

text \<open>How Redis fares during a request: whether the client is ready, whether a read succeeds, and which
  command of the failure count throws.\<close>

datatype fail_point = All_ok | At_incr | At_expire | At_set

record redis_weather =
  ready :: bool
  read_ok :: bool
  fail_point :: fail_point

text \<open>State shared by the guards: the cache, Redis, the alerts sent and the audit entries written, as school and
  error code.\<close>

record ('c, 'r) auth_state =
  as_cache :: 'c
  as_redis :: 'r
  as_alerts :: "string list"
  as_audit :: "(string \<times> string) list"

subsection \<open>Counting failures of an address\<close>

definition IP_FAIL_WINDOW :: int where "IP_FAIL_WINDOW = 300"
definition IP_FAIL_THRESHOLD :: int where "IP_FAIL_THRESHOLD = 5"
definition IP_BLOCK_TTL :: int where "IP_BLOCK_TTL = 900"

definition ipFailKey :: "string \<Rightarrow> string" where "ipFailKey ip = ''ip_auth_fail:'' @ ip"
definition ipBlockKey :: "string \<Rightarrow> string" where "ipBlockKey ip = ''ip_blocked:'' @ ip"

definition cached_count :: "(int, 'c) cache_ops \<Rightarrow> millis \<Rightarrow> string \<Rightarrow> 'c \<Rightarrow> int" where
  "cached_count C now k c = (case nc_get C now k c of None \<Rightarrow> 0 | Some n \<Rightarrow> n)"

definition cached_flag :: "(int, 'c) cache_ops \<Rightarrow> millis \<Rightarrow> string \<Rightarrow> 'c \<Rightarrow> bool" where
  "cached_flag C now k c = (case nc_get C now k c of None \<Rightarrow> False | Some n \<Rightarrow> n \<noteq> 0)"

text \<open>The in-process count, written twice in the source.\<close>

definition count_local ::
  "(int, 'c) cache_ops \<Rightarrow> millis \<Rightarrow> string \<Rightarrow> ('c, 'r) auth_state \<Rightarrow> ('c, 'r) auth_state" where
  "count_local C now ip st =
     (let failCount = cached_count C now (ipFailKey ip) (as_cache st) + 1;
          st1 = st\<lparr>as_cache := nc_set C now (ipFailKey ip) failCount IP_FAIL_WINDOW (as_cache st)\<rparr>
      in if failCount \<ge> IP_FAIL_THRESHOLD
         then st1\<lparr>as_cache := nc_set C now (ipBlockKey ip) 1 IP_BLOCK_TTL (as_cache st1),
                  as_alerts := as_alerts st1 @ [ip]\<rparr>
         else st1)"

definition count_ip_failure ::
  "(int, 'c) cache_ops \<Rightarrow> 'r redis_cmds \<Rightarrow> redis_weather \<Rightarrow> millis \<Rightarrow> string \<Rightarrow> ('c, 'r) auth_state \<Rightarrow> ('c, 'r) auth_state" where
  "count_ip_failure C R w now ip st =
     (if \<not> ready w \<or> fail_point w = At_incr then count_local C now ip st
      else let (r1, failCount) = rd_incr R now (ipFailKey ip) (as_redis st);
               st1 = st\<lparr>as_redis := r1\<rparr>
           in if failCount = 1 \<and> fail_point w = At_expire then count_local C now ip st1
              else let st2 = (if failCount = 1
                              then st1\<lparr>as_redis := rd_expire R now (ipFailKey ip) IP_FAIL_WINDOW (as_redis st1)\<rparr>
                              else st1)
                   in if failCount \<ge> IP_FAIL_THRESHOLD
                      then if fail_point w = At_set then count_local C now ip st2
                           else st2\<lparr>as_redis := rd_set_ex R now (ipBlockKey ip) 1 IP_BLOCK_TTL (as_redis st2),
                                    as_cache := nc_set C now (ipBlockKey ip) 1 IP_BLOCK_TTL (as_cache st2),
                                    as_alerts := as_alerts st2 @ [ip]\<rparr>
                      else st2)"

subsection \<open>Requests, tokens and replies\<close>

record auth_request =
  rq_ip :: string
  rq_remote :: string
  rq_authorization :: "string option"
  rq_cookie :: string
  rq_schoolHeader :: string
  rq_querySchool :: string
  rq_paramSchool :: string

definition or_text :: "string \<Rightarrow> string \<Rightarrow> string" where
  "or_text a b = (if a = [] then b else a)"

definition client_ip :: "auth_request \<Rightarrow> string" where
  "client_ip req = or_text (rq_ip req) (or_text (rq_remote req) ''unknown'')"

definition bearer_token :: "string option \<Rightarrow> string" where
  "bearer_token h = (case h of None \<Rightarrow> [] | Some s \<Rightarrow> if startsWith s ''Bearer '' then drop 7 s else [])"

definition request_token :: "auth_request \<Rightarrow> string" where
  "request_token req = or_text (rq_cookie req) (bearer_token (rq_authorization req))"

record claims =
  cl_role :: string
  cl_roles :: "string list option"
  cl_userId :: string
  cl_sub :: string
  cl_id :: string
  cl_schoolId :: string
  cl_username :: string
  cl_sid :: string
  cl_tokenVersion :: nat
  cl_mfaSetupPending :: bool

datatype auth_reply =
    Next claims "string option"
  | Refuse nat string

subsection \<open>Tokens\<close>

text \<open>
  The library of tokens: signing with a key, an optional issuer and audience and a lifetime in seconds;
  verification under a key, an issuer and an audience. Documented: a token verifies when all three are the
  ones it was signed with and it has not expired, where times are whole seconds and the expiry is checked
  before issuer and audience; a token without an issuer is invalid when one is expected, and one that verifies
  verifies too when none is; and a signature under another key is invalid.
\<close>

datatype jwt_error = TokenExpiredError | OtherTokenError

record jwt_lib =
  jwt_sign :: "millis \<Rightarrow> claims \<Rightarrow> string \<Rightarrow> (string \<times> string) option \<Rightarrow> int \<Rightarrow> string"
  jwt_verify :: "millis \<Rightarrow> string \<Rightarrow> string \<Rightarrow> (string \<times> string) option \<Rightarrow> (jwt_error, claims) result"
  hkdf :: "string \<Rightarrow> string"

definition unexpired_jwt :: "millis \<Rightarrow> int \<Rightarrow> millis \<Rightarrow> bool" where
  "unexpired_jwt t0 ttl t \<longleftrightarrow> t div 1000 < t0 div 1000 + ttl"

definition jwt_laws :: "jwt_lib \<Rightarrow> bool" where
  "jwt_laws J \<longleftrightarrow>
     (\<forall>t0 t c k ia ttl. unexpired_jwt t0 ttl t \<longrightarrow> jwt_verify J t (jwt_sign J t0 c k ia ttl) k ia = Inr c)
   \<and> (\<forall>t token k ia c. jwt_verify J t token k (Some ia) = Inr c \<longrightarrow> jwt_verify J t token k None = Inr c)
   \<and> (\<forall>t0 t c k ia ia' ttl. \<not> unexpired_jwt t0 ttl t \<longrightarrow>
        jwt_verify J t (jwt_sign J t0 c k ia' ttl) k ia = Inl TokenExpiredError)
   \<and> (\<forall>t0 t c k ia ttl. unexpired_jwt t0 ttl t \<longrightarrow>
        jwt_verify J t (jwt_sign J t0 c k None ttl) k (Some ia) = Inl OtherTokenError)
   \<and> (\<forall>t0 t c k k' ia ia' ttl. k' \<noteq> k \<longrightarrow> jwt_verify J t (jwt_sign J t0 c k' ia' ttl) k ia = Inl OtherTokenError)"

definition ISSUER :: string where "ISSUER = ''stellaredupay-api''"
definition AUDIENCE :: string where "AUDIENCE = ''stellaredupay-admin''"

record auth_env =
  env_signingKey :: string
  env_secret :: string
  env_accessTTL :: int

definition getSigningKey :: "jwt_lib \<Rightarrow> auth_env \<Rightarrow> string option" where
  "getSigningKey J env =
     (if env_signingKey env \<noteq> [] then Some (env_signingKey env)
      else if env_secret env = [] then None
      else Some (hkdf J (env_secret env)))"

definition sign_token ::
  "jwt_lib \<Rightarrow> auth_env \<Rightarrow> millis \<Rightarrow> claims \<Rightarrow> int option \<Rightarrow> string \<Rightarrow> string \<Rightarrow> (string \<times> string \<times> int) option" where
  "sign_token J env now payload expiresIn optSid fresh =
     (let ttl = (case expiresIn of None \<Rightarrow> env_accessTTL env | Some n \<Rightarrow> if n = 0 then env_accessTTL env else n);
          sid = or_text optSid fresh
      in map_option (\<lambda>key. (jwt_sign J now (payload\<lparr>cl_sid := sid\<rparr>) key (Some (ISSUER, AUDIENCE)) ttl, sid, ttl))
           (getSigningKey J env))"

definition verify_token :: "jwt_lib \<Rightarrow> auth_env \<Rightarrow> millis \<Rightarrow> string \<Rightarrow> (jwt_error, claims) result" where
  "verify_token J env now token =
     (case getSigningKey J env of
        None \<Rightarrow> Inl OtherTokenError
      | Some key \<Rightarrow> jwt_verify J now token key (Some (ISSUER, AUDIENCE)))"

subsection \<open>The denylist of sessions\<close>

definition revokedSidKey :: "string \<Rightarrow> string" where "revokedSidKey sid = ''revoked:sid:'' @ sid"

definition revokeSession ::
  "(int, 'c) cache_ops \<Rightarrow> 'r redis_cmds \<Rightarrow> auth_env \<Rightarrow> redis_weather \<Rightarrow> millis \<Rightarrow> string \<Rightarrow> int
   \<Rightarrow> ('c, 'r) auth_state \<Rightarrow> ('c, 'r) auth_state" where
  "revokeSession C R env w now sid ttlSeconds st =
     (if sid = [] then st
      else let ttl = (if ttlSeconds = 0 then env_accessTTL env else ttlSeconds);
               st1 = st\<lparr>as_cache := nc_set C now (revokedSidKey sid) 1 ttl (as_cache st)\<rparr>
           in if ready w \<and> fail_point w \<noteq> At_set
              then st1\<lparr>as_redis := rd_set_ex R now (revokedSidKey sid) 1 ttl (as_redis st1)\<rparr> else st1)"

definition isSessionRevoked ::
  "(int, 'c) cache_ops \<Rightarrow> 'r redis_cmds \<Rightarrow> redis_weather \<Rightarrow> millis \<Rightarrow> string \<Rightarrow> ('c, 'r) auth_state \<Rightarrow> bool" where
  "isSessionRevoked C R w now sid st =
     (if sid = [] then False
      else if cached_flag C now (revokedSidKey sid) (as_cache st) then True
      else ready w \<and> read_ok w \<and> rd_value R now (revokedSidKey sid) (as_redis st) \<noteq> None)"

subsection \<open>The guards\<close>

text \<open>What \<^verbatim>\<open>findById\<close> reports of a user: a failed lookup, no user, or whether the user is active (\<^verbatim>\<open>null\<close> is
  neither) and the version of its tokens.\<close>

type_synonym user_lookup = "string \<Rightarrow> (unit, (bool option \<times> nat) option) result"

definition checkSessionRevoked :: "user_lookup \<Rightarrow> claims \<Rightarrow> (nat \<times> string) option" where
  "checkSessionRevoked U d =
     (if cl_role d = ''admin'' \<and> cl_userId d = [] \<and> cl_sub d = [] then None
      else let userId = or_text (cl_userId d) (or_text (cl_sub d) (cl_id d)) in
        if userId = [] then None
        else case U userId of
          Inl _ \<Rightarrow> Some (500, ''SESSION_CHECK_FAILED'')
        | Inr None \<Rightarrow> Some (401, ''SESSION_REVOKED'')
        | Inr (Some (isActive, storedVersion)) \<Rightarrow>
            if isActive = Some False then Some (401, ''SESSION_REVOKED'')
            else if storedVersion \<noteq> cl_tokenVersion d then Some (401, ''SESSION_REVOKED'')
            else None)"

definition handleAuthFailure ::
  "(int, 'c) cache_ops \<Rightarrow> 'r redis_cmds \<Rightarrow> redis_weather \<Rightarrow> millis \<Rightarrow> auth_request \<Rightarrow> string \<Rightarrow> bool
   \<Rightarrow> ('c, 'r) auth_state \<Rightarrow> ('c, 'r) auth_state \<times> auth_reply" where
  "handleAuthFailure C R w now req err countTowardsBlock st =
     (let st1 = st\<lparr>as_audit := as_audit st @ [(or_text (rq_schoolHeader req) ''system'', err)]\<rparr>
      in (if countTowardsBlock then count_ip_failure C R w now (client_ip req) st1 else st1, Refuse 401 err))"

definition ip_blocked ::
  "(int, 'c) cache_ops \<Rightarrow> 'r redis_cmds \<Rightarrow> redis_weather \<Rightarrow> millis \<Rightarrow> string \<Rightarrow> ('c, 'r) auth_state \<Rightarrow> bool" where
  "ip_blocked C R w now ip st =
     (if ready w \<and> read_ok w then rd_value R now (ipBlockKey ip) (as_redis st) \<noteq> None
      else cached_flag C now (ipBlockKey ip) (as_cache st))"

definition is_super_admin :: "claims \<Rightarrow> bool" where
  "is_super_admin d \<longleftrightarrow>
     cl_role d = ''admin'' \<or> (case cl_roles d of None \<Rightarrow> False | Some rs \<Rightarrow> ''super_admin'' \<in> set rs)"

record ('c, 'r) guard_deps =
  gd_cache :: "(int, 'c) cache_ops"
  gd_redis :: "'r redis_cmds"
  gd_jwt :: jwt_lib
  gd_env :: auth_env
  gd_users :: user_lookup

definition requireAdminAuth ::
  "('c, 'r) guard_deps \<Rightarrow> redis_weather \<Rightarrow> millis \<Rightarrow> auth_request \<Rightarrow> ('c, 'r) auth_state
   \<Rightarrow> ('c, 'r) auth_state \<times> auth_reply" where
  "requireAdminAuth G w now req st =
     (let C = gd_cache G; R = gd_redis G; token = request_token req in
      if ip_blocked C R w now (client_ip req) st then (st, Refuse 429 ''IP_BLOCKED'')
      else if token = [] then handleAuthFailure C R w now req ''MISSING_AUTH_TOKEN'' False st
      else case verify_token (gd_jwt G) (gd_env G) now token of
        Inl TokenExpiredError \<Rightarrow> handleAuthFailure C R w now req ''TOKEN_EXPIRED'' False st
      | Inl OtherTokenError \<Rightarrow> handleAuthFailure C R w now req ''INVALID_AUTH_TOKEN'' True st
      | Inr decoded \<Rightarrow>
          if isSessionRevoked C R w now (cl_sid decoded) st
          then handleAuthFailure C R w now req ''SESSION_REVOKED'' False st
          else if \<not> is_super_admin decoded then (st, Refuse 403 ''INSUFFICIENT_ROLE'')
          else case checkSessionRevoked (gd_users G) decoded of
            Some (n, e) \<Rightarrow> (st, Refuse n e)
          | None \<Rightarrow> (st, Next decoded None))"

definition roles_of :: "claims \<Rightarrow> string list" where
  "roles_of d = (case cl_roles d of None \<Rightarrow> [] | Some rs \<Rightarrow> rs)"

definition requested_school :: "auth_request \<Rightarrow> string" where
  "requested_school req = or_text (rq_schoolHeader req) (or_text (rq_querySchool req) (rq_paramSchool req))"

text \<open>The checks of a token that is valid and not revoked: \<open>Inl\<close> is a refusal and whether it goes through the
  failure handler, \<open>Inr\<close> the school set on the request.\<close>

definition school_scope ::
  "string list \<Rightarrow> auth_request \<Rightarrow> claims \<Rightarrow> (string, string option) result" where
  "school_scope allowedRoles req d =
     (if is_super_admin d then Inr None
      else if cl_schoolId d = [] then Inl ''MISSING_TENANT_CLAIM''
      else if requested_school req \<noteq> [] \<and> cl_schoolId d \<noteq> requested_school req then Inl ''TENANT_MISMATCH''
      else if allowedRoles \<noteq> [] \<and> \<not> list_ex (\<lambda>r. r \<in> set (roles_of d)) allowedRoles
      then Inl ''INSUFFICIENT_ROLE''
      else Inr (Some (cl_schoolId d)))"

definition requireSchoolAuth ::
  "('c, 'r) guard_deps \<Rightarrow> string list \<Rightarrow> redis_weather \<Rightarrow> millis \<Rightarrow> auth_request \<Rightarrow> ('c, 'r) auth_state
   \<Rightarrow> ('c, 'r) auth_state \<times> auth_reply" where
  "requireSchoolAuth G allowedRoles w now req st =
     (let C = gd_cache G; R = gd_redis G; token = request_token req in
      if ip_blocked C R w now (client_ip req) st then (st, Refuse 429 ''IP_BLOCKED'')
      else if token = [] then handleAuthFailure C R w now req ''MISSING_AUTH_TOKEN'' False st
      else case verify_token (gd_jwt G) (gd_env G) now token of
        Inl TokenExpiredError \<Rightarrow> handleAuthFailure C R w now req ''TOKEN_EXPIRED'' False st
      | Inl OtherTokenError \<Rightarrow> handleAuthFailure C R w now req ''INVALID_AUTH_TOKEN'' True st
      | Inr decoded \<Rightarrow>
          if isSessionRevoked C R w now (cl_sid decoded) st
          then handleAuthFailure C R w now req ''SESSION_REVOKED'' False st
          else case checkSessionRevoked (gd_users G) decoded of
            Some (n, e) \<Rightarrow> (st, Refuse n e)
          | None \<Rightarrow>
              (case school_scope allowedRoles req decoded of
                 Inl e \<Rightarrow> (st, Refuse 403 e)
               | Inr school \<Rightarrow>
                   let header = rq_schoolHeader req; isEnvSuperAdmin = (cl_role decoded = ''admin'') in
                   if \<not> isEnvSuperAdmin \<and> header \<noteq> [] \<and> cl_schoolId decoded \<noteq> [] \<and> cl_schoolId decoded \<noteq> header
                   then handleAuthFailure C R w now req ''TENANT_MISMATCH'' True st
                   else if allowedRoles \<noteq> [] \<and> \<not> isEnvSuperAdmin
                           \<and> \<not> list_ex (\<lambda>r. r \<in> set allowedRoles) (roles_of decoded)
                   then (st, Refuse 403 ''INSUFFICIENT_ROLE'')
                   else (st, Next decoded school)))"

subsection \<open>Who passes the guards\<close>

lemma some_role: "list_ex (\<lambda>r. r \<in> set ys) xs \<longleftrightarrow> set xs \<inter> set ys \<noteq> {}"
  by (auto simp: list_ex_iff)

lemma js_or_Nil: "or_text a b = [] \<longleftrightarrow> a = [] \<and> b = []"
  by (simp add: or_text_def)

lemma handleAuthFailure_refuses: "snd (handleAuthFailure C R w now req e b st) = Refuse 401 e"
  by (simp add: handleAuthFailure_def Let_def)

lemma super_admin_role:
  "is_super_admin d \<longleftrightarrow> cl_role d = ''admin'' \<or> ''super_admin'' \<in> set (roles_of d)"
  by (simp add: is_super_admin_def roles_of_def split: option.split)

text \<open>A token that is examined: the address is not blocked, the token verifies, and neither its session nor its
  user is revoked.\<close>

definition token_holds ::
  "('c, 'r) guard_deps \<Rightarrow> redis_weather \<Rightarrow> millis \<Rightarrow> auth_request \<Rightarrow> ('c, 'r) auth_state \<Rightarrow> claims \<Rightarrow> bool" where
  "token_holds G w now req st d \<longleftrightarrow>
     \<not> ip_blocked (gd_cache G) (gd_redis G) w now (client_ip req) st
   \<and> request_token req \<noteq> []
   \<and> verify_token (gd_jwt G) (gd_env G) now (request_token req) = Inr d
   \<and> \<not> isSessionRevoked (gd_cache G) (gd_redis G) w now (cl_sid d) st
   \<and> checkSessionRevoked (gd_users G) d = None"

text \<open>What the checks of school and roles demand.\<close>

definition in_scope :: "string list \<Rightarrow> auth_request \<Rightarrow> claims \<Rightarrow> string option \<Rightarrow> bool" where
  "in_scope allowedRoles req d school \<longleftrightarrow>
     (if cl_role d = ''admin'' then school = None
      else (allowedRoles = [] \<or> set (roles_of d) \<inter> set allowedRoles \<noteq> {})
         \<and> (if ''super_admin'' \<in> set (roles_of d)
            then school = None \<and> (rq_schoolHeader req = [] \<or> cl_schoolId d \<in> {[], rq_schoolHeader req})
            else school = Some (cl_schoolId d) \<and> cl_schoolId d \<noteq> [] \<and> requested_school req \<in> {[], cl_schoolId d}))"

lemma school_scope_ok:
  "(school_scope allowed req d = Inr s
     \<and> \<not> (cl_role d \<noteq> ''admin'' \<and> rq_schoolHeader req \<noteq> [] \<and> cl_schoolId d \<noteq> [] \<and> cl_schoolId d \<noteq> rq_schoolHeader req)
     \<and> \<not> (allowed \<noteq> [] \<and> cl_role d \<noteq> ''admin'' \<and> \<not> list_ex (\<lambda>r. r \<in> set allowed) (roles_of d)))
   \<longleftrightarrow> in_scope allowed req d s"
  by (auto simp: school_scope_def in_scope_def super_admin_role some_role requested_school_def or_text_def)

lemma requireSchoolAuth_next:
  "requireSchoolAuth G allowed w now req st = (st', Next d s) \<longleftrightarrow>
     st' = st \<and> token_holds G w now req st d \<and> in_scope allowed req d s"
  unfolding school_scope_ok [symmetric] token_holds_def requireSchoolAuth_def Let_def handleAuthFailure_def
  by (auto split: sum.split jwt_error.split option.split)

lemma requireAdminAuth_next:
  "requireAdminAuth G w now req st = (st', Next d s) \<longleftrightarrow>
     st' = st \<and> s = None \<and> token_holds G w now req st d \<and> is_super_admin d"
  unfolding token_holds_def requireAdminAuth_def Let_def handleAuthFailure_def
  by (auto split: sum.split jwt_error.split option.split)

lemma pending_not_read:
  "in_scope allowed req (d\<lparr>cl_mfaSetupPending := pending\<rparr>) s = in_scope allowed req d s"
  "checkSessionRevoked users (d\<lparr>cl_mfaSetupPending := pending\<rparr>) = checkSessionRevoked users d"
proof -
  have "roles_of (d\<lparr>cl_mfaSetupPending := pending\<rparr>) = roles_of d" by (simp add: roles_of_def)
  then show "in_scope allowed req (d\<lparr>cl_mfaSetupPending := pending\<rparr>) s = in_scope allowed req d s"
    by (simp add: in_scope_def)
qed (simp add: checkSessionRevoked_def Let_def split: sum.split option.split)

text \<open>C7: The guard of school endpoints lets exactly these requests through: the address is not blocked, the
  token verifies under the signing key, issuer and audience, its session is not on the denylist, its
  user is active with the same token version, and the token is in scope. In scope are three kinds of
  callers: the super administrator of the environment, for every school and role; a stored super
  administrator with one of the allowed roles, unless the token has a school and the header names
  another; and a user of a school with one of the allowed roles and no other school asked for,
  whose request then carries the school of the token. A token whose holder still has to set up a second
  factor is treated like any other: the guard does not read that claim, although \<^verbatim>\<open>docs/security.md\<close> says
  that it refuses such tokens outside the enrolment.\<close>

theorem school_guard_admits_exactly:
  "(requireSchoolAuth G allowed w now req st = (st', Next d s) \<longleftrightarrow>
     st' = st \<and> token_holds G w now req st d \<and> in_scope allowed req d s)
   \<and> (cl_role d = ''admin'' \<longrightarrow> (in_scope allowed req d s \<longleftrightarrow> s = None))
   \<and> (cl_role d \<noteq> ''admin'' \<and> ''super_admin'' \<in> set (roles_of d) \<longrightarrow>
        (in_scope allowed req d s \<longleftrightarrow> s = None \<and> (allowed \<noteq> [] \<longrightarrow> set (roles_of d) \<inter> set allowed \<noteq> {})
           \<and> (rq_schoolHeader req = [] \<or> cl_schoolId d \<in> {[], rq_schoolHeader req})))
   \<and> (\<not> is_super_admin d \<and> in_scope allowed req d s \<longrightarrow>
        s = Some (cl_schoolId d) \<and> cl_schoolId d \<noteq> [] \<and> rq_schoolHeader req \<in> {[], cl_schoolId d}
        \<and> (allowed \<noteq> [] \<longrightarrow> set (roles_of d) \<inter> set allowed \<noteq> {}))
   \<and> in_scope allowed req (d\<lparr>cl_mfaSetupPending := pending\<rparr>) s = in_scope allowed req d s
   \<and> checkSessionRevoked (gd_users G) (d\<lparr>cl_mfaSetupPending := pending\<rparr>) = checkSessionRevoked (gd_users G) d"
  by (intro conjI requireSchoolAuth_next pending_not_read)
    (auto simp: in_scope_def super_admin_role requested_school_def or_text_def split: if_splits)

subsection \<open>Blocking an address\<close>

lemma cache_lawsD:
  assumes "cache_laws C"
  shows "0 < ttl \<Longrightarrow> t0 \<le> t \<Longrightarrow> t < t0 + 1000 * ttl \<Longrightarrow> nc_get C t k (nc_set C t0 k v ttl c) = Some v"
    and "0 < ttl \<Longrightarrow> t0 + 1000 * ttl < t \<Longrightarrow> nc_get C t k (nc_set C t0 k v ttl c) = None"
    and "k' \<noteq> k \<Longrightarrow> nc_get C t k' (nc_set C t0 k v ttl c) = nc_get C t k' c"
    and "t0 \<le> t \<Longrightarrow> nc_get C t k (nc_del C t0 k c) = None"
    and "k' \<noteq> k \<Longrightarrow> nc_get C t k' (nc_del C t0 k c) = nc_get C t k' c"
  using assms unfolding cache_laws_def by simp_all

lemma ip_keys_differ [simp]: "ipFailKey ip \<noteq> ipBlockKey ip'" "ipBlockKey ip' \<noteq> ipFailKey ip"
  by (simp_all add: ipFailKey_def ipBlockKey_def)

text \<open>The cache after \<open>n\<close> failures of an address, the last at \<open>t0\<close>: below the threshold the count holds for the
  window and the address is free; from the threshold on it is blocked until \<open>T\<close>.\<close>

definition failures_cached ::
  "(int, 'c) cache_ops \<Rightarrow> string \<Rightarrow> millis \<Rightarrow> int \<Rightarrow> millis \<Rightarrow> 'c \<Rightarrow> bool" where
  "failures_cached C ip T n t0 c \<longleftrightarrow>
     (if n < IP_FAIL_THRESHOLD
      then (\<forall>t. t0 \<le> t \<and> t < t0 + 1000 * IP_FAIL_WINDOW \<longrightarrow> cached_count C t (ipFailKey ip) c = n)
         \<and> (\<forall>t\<ge>t0. \<not> cached_flag C t (ipBlockKey ip) c)
      else \<forall>t. t0 \<le> t \<and> t < T \<longrightarrow> cached_flag C t (ipBlockKey ip) c)"

lemma count_local_step:
  assumes laws: "cache_laws C" and cached: "failures_cached C ip T n t0 (as_cache st)"
    and n: "n < IP_FAIL_THRESHOLD" and t: "t0 \<le> t" "t < t0 + 1000 * IP_FAIL_WINDOW"
    and T: "T \<le> t + 1000 * IP_BLOCK_TTL"
  shows "failures_cached C ip T (n + 1) t (as_cache (count_local C t ip st))"
proof -
  have now: "cached_count C t (ipFailKey ip) (as_cache st) = n" using cached n t by (simp add: failures_cached_def)
  have free: "\<not> cached_flag C t' (ipBlockKey ip) (as_cache st)" if "t \<le> t'" for t'
    using cached n t that by (simp add: failures_cached_def)
  have counted: "nc_get C t' (ipFailKey ip) (nc_set C t (ipFailKey ip) m 300 c) = Some m"
    if "t \<le> t'" "t' < t + 300000" for t' m c
    using cache_lawsD(1) [OF laws, of 300 t t'] that by simp
  have blocked: "nc_get C t' (ipBlockKey ip) (nc_set C t (ipBlockKey ip) 1 900 c) = Some 1"
    if "t \<le> t'" "t' < t + 900000" for t' c
    using cache_lawsD(1) [OF laws, of 900 t t'] that by simp
  show ?thesis
    using free T unfolding failures_cached_def count_local_def now
    by (auto simp: Let_def cached_count_def cached_flag_def cache_lawsD(3) [OF laws] counted blocked
        IP_FAIL_WINDOW_def IP_BLOCK_TTL_def IP_FAIL_THRESHOLD_def)
qed

text \<open>Requests from one address, at most five minutes apart.\<close>

fun steady :: "millis \<Rightarrow> (millis \<times> auth_request) list \<Rightarrow> bool" where
  "steady t0 [] = True"
| "steady t0 ((t, req) # rs) = (t0 \<le> t \<and> t < t0 + 1000 * IP_FAIL_WINDOW \<and> steady t rs)"

definition forged :: "('c, 'r) guard_deps \<Rightarrow> string \<Rightarrow> millis \<times> auth_request \<Rightarrow> bool" where
  "forged G ip tr \<longleftrightarrow> client_ip (snd tr) = ip \<and> request_token (snd tr) \<noteq> []
     \<and> verify_token (gd_jwt G) (gd_env G) (fst tr) (request_token (snd tr)) = Inl OtherTokenError"

definition guard_step ::
  "('c, 'r) guard_deps \<Rightarrow> string list \<Rightarrow> redis_weather \<Rightarrow> millis \<times> auth_request \<Rightarrow> ('c, 'r) auth_state
   \<Rightarrow> ('c, 'r) auth_state \<times> auth_reply" where
  "guard_step G allowed w tr st = requireSchoolAuth G allowed w (fst tr) (snd tr) st"

lemma guard_step_blocked:
  assumes "\<not> ready w" "client_ip req = ip" "cached_flag (gd_cache G) t (ipBlockKey ip) (as_cache st)"
  shows "guard_step G allowed w (t, req) st = (st, Refuse 429 ''IP_BLOCKED'')"
  using assms by (simp add: guard_step_def requireSchoolAuth_def ip_blocked_def Let_def)

lemma guard_step_forged:
  assumes "\<not> ready w" "forged G ip (t, req)" "\<not> cached_flag (gd_cache G) t (ipBlockKey ip) (as_cache st)"
  shows "snd (guard_step G allowed w (t, req) st) = Refuse 401 ''INVALID_AUTH_TOKEN''
    \<and> as_cache (fst (guard_step G allowed w (t, req) st)) = as_cache (count_local (gd_cache G) t ip st)"
  using assms
  by (simp add: guard_step_def requireSchoolAuth_def ip_blocked_def forged_def Let_def handleAuthFailure_def
      count_ip_failure_def count_local_def)

lemma forged_replies:
  assumes laws: "cache_laws (gd_cache G)" and w: "\<not> ready w"
  shows "failures_cached (gd_cache G) ip T n t0 (as_cache st) \<Longrightarrow> 0 \<le> n \<Longrightarrow> n \<le> 5 \<Longrightarrow> steady t0 rs
    \<Longrightarrow> list_all (forged G ip) rs \<Longrightarrow> list_all (\<lambda>(t, _). t < T \<and> T \<le> t + 1000 * IP_BLOCK_TTL) rs
    \<Longrightarrow> snd (trace (guard_step G allowed w) rs st) =
          replicate (min (5 - nat n) (length rs)) (Refuse 401 ''INVALID_AUTH_TOKEN'')
          @ replicate (length rs - (5 - nat n)) (Refuse 429 ''IP_BLOCKED'')
      \<and> failures_cached (gd_cache G) ip T (min 5 (n + int (length rs))) (if rs = [] then t0 else fst (last rs))
          (as_cache (fst (trace (guard_step G allowed w) rs st)))"
proof (induction rs arbitrary: n t0 st)
  case Nil
  then show ?case by simp
next
  case (Cons tr rs)
  obtain t req where tr: "tr = (t, req)" by (cases tr)
  note prems = Cons.prems [unfolded tr steady.simps list.pred_inject prod.case]
  let ?st = "fst (guard_step G allowed w (t, req) st)"
  show ?case
  proof (cases "n = 5")
    case True
    then have "cached_flag (gd_cache G) t (ipBlockKey ip) (as_cache st)"
      using prems by (simp add: failures_cached_def IP_FAIL_THRESHOLD_def)
    then have step: "guard_step G allowed w (t, req) st = (st, Refuse 429 ''IP_BLOCKED'')"
      using prems w by (intro guard_step_blocked) (simp_all add: forged_def)
    have "failures_cached (gd_cache G) ip T n t (as_cache st)"
      using prems(1,4) True by (simp add: failures_cached_def IP_FAIL_THRESHOLD_def)
    note ih = Cons.IH [OF this]
    have "snd (trace (guard_step G allowed w) rs st) = replicate (length rs) (Refuse 429 ''IP_BLOCKED'')
      \<and> failures_cached (gd_cache G) ip T 5 (if rs = [] then t else fst (last rs))
          (as_cache (fst (trace (guard_step G allowed w) rs st)))"
      using ih prems True by simp
    with step True show ?thesis by (simp add: tr case_prod_beta Let_def split: if_splits)
  next
    case False
    with prems have lt: "n < IP_FAIL_THRESHOLD" by (simp add: IP_FAIL_THRESHOLD_def)
    then have "\<not> cached_flag (gd_cache G) t (ipBlockKey ip) (as_cache st)"
      using prems by (simp add: failures_cached_def)
    from guard_step_forged [OF w _ this, of req] prems
    have step: "snd (guard_step G allowed w (t, req) st) = Refuse 401 ''INVALID_AUTH_TOKEN''"
      and cache: "as_cache ?st = as_cache (count_local (gd_cache G) t ip st)"
      by simp_all
    have "failures_cached (gd_cache G) ip T (n + 1) t (as_cache ?st)"
      unfolding cache using prems(4,6) by (intro count_local_step [OF laws prems(1) lt]) blast+
    from Cons.IH [OF this] prems lt
    have ih: "snd (trace (guard_step G allowed w) rs ?st) =
          replicate (min (5 - nat (n + 1)) (length rs)) (Refuse 401 ''INVALID_AUTH_TOKEN'')
          @ replicate (length rs - (5 - nat (n + 1))) (Refuse 429 ''IP_BLOCKED'')
      \<and> failures_cached (gd_cache G) ip T (min 5 (n + 1 + int (length rs))) (if rs = [] then t else fst (last rs))
          (as_cache (fst (trace (guard_step G allowed w) rs ?st)))"
      by (simp add: IP_FAIL_THRESHOLD_def)
    have "5 - nat n = Suc (5 - nat (n + 1))" "n + int (Suc (length rs)) = n + 1 + int (length rs)"
      using prems lt by (simp_all add: IP_FAIL_THRESHOLD_def)
    with ih step show ?thesis by (simp add: tr case_prod_beta Let_def add.assoc split: if_splits)
  qed
qed

text \<open>C13: Guessing tokens is cut off after five attempts. While Redis is not in use, requests from one address
  with tokens that do not verify, at most five minutes apart and all within fifteen minutes, are answered
  401 five times and then 429. Until fifteen minutes after the first of them every other request from that
  address is answered 429 too, whatever its token.\<close>

theorem forged_tokens_block_address:
  assumes "cache_laws (gd_cache G)" and "\<not> ready w"
    and "\<And>t. nc_get (gd_cache G) t (ipFailKey ip) (as_cache st) = None \<and> nc_get (gd_cache G) t (ipBlockKey ip) (as_cache st) = None"
    and "list_all (forged G ip) rs" and "steady t0 rs"
    and "list_all (\<lambda>(t, _). t < t0 + 1000 * IP_BLOCK_TTL) rs" and "5 \<le> length rs"
    and "fst (last rs) \<le> t" and "t < t0 + 1000 * IP_BLOCK_TTL" and "client_ip req = ip"
  shows "snd (trace (guard_step G allowed w) rs st) =
      replicate 5 (Refuse 401 ''INVALID_AUTH_TOKEN'') @ replicate (length rs - 5) (Refuse 429 ''IP_BLOCKED'')
    \<and> snd (guard_step G allowed w (t, req) (fst (trace (guard_step G allowed w) rs st))) = Refuse 429 ''IP_BLOCKED''"
proof -
  let ?st = "fst (trace (guard_step G allowed w) rs st)"
  have start: "failures_cached (gd_cache G) ip (t0 + 1000 * IP_BLOCK_TTL) 0 t0 (as_cache st)"
    using assms(3) by (simp add: failures_cached_def cached_count_def cached_flag_def IP_FAIL_THRESHOLD_def)
  have "t0 \<le> fst x" if "x \<in> set rs" for x
    using assms(5) that by (induction rs arbitrary: t0) fastforce+
  then have "list_all (\<lambda>(t, _). t < t0 + 1000 * IP_BLOCK_TTL \<and> t0 + 1000 * IP_BLOCK_TTL \<le> t + 1000 * IP_BLOCK_TTL) rs"
    using assms(6) by (fastforce simp: list_all_iff)
  note run = forged_replies [OF assms(1,2) start _ _ assms(5,4) this, of allowed]
  then have "failures_cached (gd_cache G) ip (t0 + 1000 * IP_BLOCK_TTL) 5 (fst (last rs)) (as_cache ?st)"
    using assms(7) by (auto split: if_splits)
  then have "cached_flag (gd_cache G) t (ipBlockKey ip) (as_cache ?st)"
    using assms(8,9) by (simp add: failures_cached_def IP_FAIL_THRESHOLD_def)
  from guard_step_blocked [OF assms(2,10) this] run assms(7) show ?thesis by simp
qed

subsection \<open>Lockout of accounts\<close>

definition LOGIN_FAIL_WINDOW :: int where "LOGIN_FAIL_WINDOW = 900"
definition LOGIN_FAIL_THRESHOLD :: int where "LOGIN_FAIL_THRESHOLD = 5"
definition LOGIN_LOCK_TTL :: int where "LOGIN_LOCK_TTL = 900"

definition loginLockKey :: "string \<Rightarrow> string" where "loginLockKey i = ''loginLock:'' @ i"
definition loginFailKey :: "string \<Rightarrow> string" where "loginFailKey i = ''loginFail:'' @ i"

definition isLockedOut ::
  "(int, 'c) cache_ops \<Rightarrow> 'r redis_cmds \<Rightarrow> redis_weather \<Rightarrow> millis \<Rightarrow> string \<Rightarrow> ('c, 'r) auth_state \<Rightarrow> bool" where
  "isLockedOut C R w now loginId st =
     (if cached_flag C now (loginLockKey loginId) (as_cache st) then True
      else ready w \<and> read_ok w \<and> rd_value R now (loginLockKey loginId) (as_redis st) \<noteq> None)"

definition recordLoginFailure ::
  "(int, 'c) cache_ops \<Rightarrow> 'r redis_cmds \<Rightarrow> redis_weather \<Rightarrow> millis \<Rightarrow> string \<Rightarrow> ('c, 'r) auth_state \<Rightarrow> ('c, 'r) auth_state" where
  "recordLoginFailure C R w now loginId st =
     (let fk = loginFailKey loginId; lk = loginLockKey loginId;
          newCount = cached_count C now fk (as_cache st) + 1;
          st1 = st\<lparr>as_cache := nc_set C now fk newCount LOGIN_FAIL_WINDOW (as_cache st)\<rparr>
      in if ready w
         then if fail_point w = At_incr then st1
              else let (r1, n) = rd_incr R now fk (as_redis st1); st2 = st1\<lparr>as_redis := r1\<rparr> in
                if n = 1 \<and> fail_point w = At_expire then st2
                else let st3 = (if n = 1 then st2\<lparr>as_redis := rd_expire R now fk LOGIN_FAIL_WINDOW (as_redis st2)\<rparr> else st2)
                     in if n \<ge> LOGIN_FAIL_THRESHOLD \<and> fail_point w \<noteq> At_set
                        then st3\<lparr>as_redis := rd_set_ex R now lk 1 LOGIN_LOCK_TTL (as_redis st3),
                                 as_cache := nc_set C now lk 1 LOGIN_LOCK_TTL (as_cache st3),
                                 as_alerts := as_alerts st3 @ [loginId]\<rparr>
                        else st3
         else if newCount \<ge> LOGIN_FAIL_THRESHOLD
         then st1\<lparr>as_cache := nc_set C now lk 1 LOGIN_LOCK_TTL (as_cache st1), as_alerts := as_alerts st1 @ [loginId]\<rparr>
         else st1)"

definition clearLoginFailures ::
  "(int, 'c) cache_ops \<Rightarrow> 'r redis_cmds \<Rightarrow> redis_weather \<Rightarrow> millis \<Rightarrow> string \<Rightarrow> ('c, 'r) auth_state \<Rightarrow> ('c, 'r) auth_state" where
  "clearLoginFailures C R w now loginId st =
     (let fk = loginFailKey loginId; lk = loginLockKey loginId;
          st1 = st\<lparr>as_cache := nc_del C now lk (nc_del C now fk (as_cache st))\<rparr>
      in if ready w \<and> fail_point w \<noteq> At_set
         then st1\<lparr>as_redis := rd_del R now lk (rd_del R now fk (as_redis st1))\<rparr> else st1)"

lemma login_keys_differ [simp]: "loginFailKey i \<noteq> loginLockKey i'" "loginLockKey i' \<noteq> loginFailKey i"
  by (simp_all add: loginFailKey_def loginLockKey_def)

text \<open>Failures at the given times, oldest first.\<close>

definition failed_logins ::
  "(int, 'c) cache_ops \<Rightarrow> 'r redis_cmds \<Rightarrow> redis_weather \<Rightarrow> string \<Rightarrow> millis list \<Rightarrow> ('c, 'r) auth_state \<Rightarrow> ('c, 'r) auth_state" where
  "failed_logins C R w loginId ts st = foldl (\<lambda>st t. recordLoginFailure C R w t loginId st) st ts"

text \<open>While the client of Redis reports that it is ready but its commands fail, no number of failed logins
  locks an account: the count kept in the process is not consulted, unlike in the guard of requests,
  which falls back to it.\<close>

theorem failing_redis_never_locks_out:
  assumes "cache_laws C" and "ready w" and "fail_point w = At_incr"
    and "\<not> isLockedOut C R w t loginId st"
  shows "\<not> isLockedOut C R w t loginId (failed_logins C R w loginId ts st)
    \<and> length (as_alerts (failed_logins C R w loginId ts st)) = length (as_alerts st)"
  using assms(4) unfolding failed_logins_def
proof (induction ts arbitrary: st)
  case Nil
  then show ?case by simp
next
  case (Cons t0 ts)
  let ?st = "recordLoginFailure C R w t0 loginId st"
  have "\<not> isLockedOut C R w t loginId ?st" "as_alerts ?st = as_alerts st"
    using Cons.prems assms(2,3)
    by (simp_all add: isLockedOut_def recordLoginFailure_def Let_def cached_flag_def cache_lawsD(3) [OF assms(1)] split: if_splits)
  from Cons.IH [OF this(1)] this(2) show ?case by simp
qed

text \<open>Without Redis, the fifth failure within the window locks the account, and a successful login clears it.\<close>

lemma fifth_failure_locks_out:
  assumes "cache_laws C" "\<not> ready w"
    and "cached_count C t0 (loginFailKey i) (as_cache st) = 4" "t0 \<le> t" "t < t0 + 900000"
  shows "isLockedOut C R w t i (recordLoginFailure C R w t0 i st)"
  using assms cache_lawsD(1) [OF assms(1), of 900 t0 t]
  by (simp add: isLockedOut_def recordLoginFailure_def Let_def cached_flag_def LOGIN_FAIL_THRESHOLD_def LOGIN_LOCK_TTL_def)

lemma login_clears_lock:
  assumes "cache_laws C" "\<not> ready w" "t0 \<le> t"
  shows "\<not> isLockedOut C R w t i (clearLoginFailures C R w t0 i st)
    \<and> cached_count C t (loginFailKey i) (as_cache (clearLoginFailures C R w t0 i st)) = 0"
  using assms by (simp add: isLockedOut_def clearLoginFailures_def Let_def cached_flag_def cached_count_def
      cache_lawsD(4,5) [OF assms(1)])

subsection \<open>Denylisted sessions\<close>

lemma jwt_lawsD:
  assumes "jwt_laws J"
  shows "unexpired_jwt t0 ttl t \<Longrightarrow> jwt_verify J t (jwt_sign J t0 c k ia ttl) k ia = Inr c"
    and "\<not> unexpired_jwt t0 ttl t \<Longrightarrow> jwt_verify J t (jwt_sign J t0 c k ia'' ttl) k ia = Inl TokenExpiredError"
    and "unexpired_jwt t0 ttl t \<Longrightarrow> jwt_verify J t (jwt_sign J t0 c k None ttl) k (Some ia') = Inl OtherTokenError"
    and "k' \<noteq> k \<Longrightarrow> jwt_verify J t (jwt_sign J t0 c k' ia'' ttl) k ia = Inl OtherTokenError"
    and "jwt_verify J t token k (Some ia') = Inr c \<Longrightarrow> jwt_verify J t token k None = Inr c"
  using assms unfolding jwt_laws_def by (simp_all del: split_paired_All)

text \<open>What the token service signs verifies as the payload with its session until it expires.\<close>

lemma sign_verify:
  assumes "jwt_laws J" "sign_token J env t0 payload opt sid fresh = Some (token, sid', ttl)"
  shows "verify_token J env t token =
      (if unexpired_jwt t0 ttl t then Inr (payload\<lparr>cl_sid := sid'\<rparr>) else Inl TokenExpiredError)"
  using assms(2) jwt_lawsD(1,2) [OF assms(1)]
  by (auto simp: sign_token_def verify_token_def Let_def split: if_splits option.splits)

definition refused :: "('c, 'r) auth_state \<times> auth_reply \<Rightarrow> bool" where
  "refused out \<longleftrightarrow> (case snd out of Next _ _ \<Rightarrow> False | Refuse _ _ \<Rightarrow> True)"

lemma not_token_holds_refused:
  assumes "\<And>d. \<not> token_holds G w now req st d"
  shows "refused (requireSchoolAuth G allowed w now req st) \<and> refused (requireAdminAuth G w now req st)"
proof -
  have "snd (requireSchoolAuth G allowed w now req st) \<noteq> Next d s" "snd (requireAdminAuth G w now req st) \<noteq> Next d s" for d s
    using assms requireSchoolAuth_next [of G allowed w now req st] requireAdminAuth_next [of G w now req st]
    by (metis prod.collapse)+
  then show ?thesis by (simp add: refused_def split: auth_reply.split)
qed

text \<open>C14: A revoked session stays out until its token expires. A token signed by the token service for a session, and
  presented at any time after the session was put on the denylist with the default lifetime, is
  refused by both guards in the process that revoked it, whether or not Redis took the entry.\<close>

theorem revoked_session_stays_out:
  assumes "cache_laws (gd_cache G)" and "jwt_laws (gd_jwt G)"
    and "sign_token (gd_jwt G) (gd_env G) t0 payload None sid fresh = Some (token, sid', ttl)"
    and "0 < env_accessTTL (gd_env G)" and "sid' \<noteq> []" and "t0 \<le> t1" and "t1 \<le> t" and "request_token req = token"
  shows "refused (requireSchoolAuth G allowed w' t req
           (revokeSession (gd_cache G) (gd_redis G) (gd_env G) w t1 sid' 0 st))
       \<and> refused (requireAdminAuth G w' t req
           (revokeSession (gd_cache G) (gd_redis G) (gd_env G) w t1 sid' 0 st))"
proof (rule not_token_holds_refused)
  fix d
  let ?ttl = "env_accessTTL (gd_env G)"
  let ?st = "revokeSession (gd_cache G) (gd_redis G) (gd_env G) w t1 sid' 0 st"
  have ttl: "ttl = ?ttl" using assms(3) by (auto simp: sign_token_def Let_def)
  show "\<not> token_holds G w' t req ?st d"
  proof (cases "t < t1 + 1000 * ?ttl")
    case True
    then have "cached_flag (gd_cache G) t (revokedSidKey sid') (as_cache ?st)"
      using assms(4,5,7) cache_lawsD(1) [OF assms(1), of ?ttl t1 t]
      by (simp add: revokeSession_def Let_def cached_flag_def)
    then show ?thesis
      using sign_verify [OF assms(2,3), of t] assms(5,8)
      by (auto simp: token_holds_def isSessionRevoked_def split: if_splits)
  next
    case False
    then have "t0 + 1000 * ?ttl \<le> t" using assms(6) by simp
    then have "t0 div 1000 + ?ttl \<le> t div 1000" using zdiv_mono1 [of "t0 + 1000 * ?ttl" t 1000] by simp
    then show ?thesis
      using sign_verify [OF assms(2,3), of t] assms(8) by (auto simp: token_holds_def unexpired_jwt_def ttl)
  qed
qed

subsection \<open>A cache, a Redis and a token library that satisfy the laws\<close>

definition sample_cache :: "('v, string \<rightharpoonup> 'v \<times> millis) cache_ops" where
  "sample_cache =
     \<lparr>nc_get = (\<lambda>now k c. case c k of None \<Rightarrow> None | Some (v, t) \<Rightarrow> if now < t then Some v else None),
      nc_set = (\<lambda>now k v ttl c. c(k \<mapsto> (v, now + 1000 * ttl))),
      nc_del = (\<lambda>now k c. c(k := None))\<rparr>"

lemma sample_cache_laws: "cache_laws sample_cache"
  by (simp add: cache_laws_def sample_cache_def)

definition sample_redis_cmds :: "(string \<rightharpoonup> int \<times> millis option) redis_cmds" where
  "sample_redis_cmds =
     (let val = (\<lambda>now k r. case r k of None \<Rightarrow> None
           | Some (v, None) \<Rightarrow> Some v | Some (v, Some t) \<Rightarrow> if now < t then Some v else None)
      in \<lparr>rd_value = val,
          rd_incr = (\<lambda>now k r. case val now k r of None \<Rightarrow> (r(k \<mapsto> (1, None)), 1)
             | Some n \<Rightarrow> (r(k \<mapsto> (n + 1, snd (the (r k)))), n + 1)),
          rd_expire = (\<lambda>now k ttl r. case val now k r of None \<Rightarrow> r | Some n \<Rightarrow> r(k \<mapsto> (n, Some (now + 1000 * ttl)))),
          rd_set_ex = (\<lambda>now k v ttl r. r(k \<mapsto> (v, Some (now + 1000 * ttl)))),
          rd_del = (\<lambda>now k r. r(k := None))\<rparr>)"

lemma sample_redis_cmd_laws: "redis_cmd_laws sample_redis_cmds"
  unfolding redis_cmd_laws_def
  by (intro conjI allI impI)
    (auto simp: sample_redis_cmds_def Let_def split: option.splits if_splits)

text \<open>A token that spells out what it was signed for. Texts are written one character at a time behind a mark,
  so that a list of texts can be read back.\<close>

fun enc_texts :: "string list \<Rightarrow> string" where
  "enc_texts [] = []"
| "enc_texts (s # ss) = concat (map (\<lambda>c. [CHR ''-'', c]) s) @ CHR ''/'' # enc_texts ss"

fun dec_texts :: "string \<Rightarrow> string \<Rightarrow> string list" where
  "dec_texts acc (m # cs) =
     (if m = CHR ''-'' then (case cs of [] \<Rightarrow> [] | c # r \<Rightarrow> dec_texts (acc @ [c]) r)
      else acc # dec_texts [] cs)"
| "dec_texts acc [] = []"

lemma dec_text: "dec_texts acc (concat (map (\<lambda>c. [CHR ''-'', c]) s) @ CHR ''/'' # r) = (acc @ s) # dec_texts [] r"
  by (induction s arbitrary: acc) simp_all

lemma dec_enc_texts [simp]: "dec_texts [] (enc_texts ss) = ss"
  by (induction ss) (simp_all add: dec_text)

definition enc_int :: "int \<Rightarrow> string" where
  "enc_int i = (if i < 0 then CHR ''-'' # replicate (nat (- i)) CHR ''1'' else replicate (nat i) CHR ''1'')"

definition dec_int :: "string \<Rightarrow> int" where
  "dec_int s = (case s of [] \<Rightarrow> 0 | c # r \<Rightarrow> if c = CHR ''-'' then - int (length r) else int (length s))"

lemma dec_enc_int [simp]: "dec_int (enc_int i) = i"
proof (cases "nat i")
  case 0
  then show ?thesis by (simp add: enc_int_def dec_int_def)
next
  case (Suc n)
  then have "i = int (Suc n)" by simp
  then show ?thesis by (simp add: enc_int_def dec_int_def nat_add_distrib)
qed

definition enc_claims :: "claims \<Rightarrow> string list" where
  "enc_claims c =
     [cl_role c, (case cl_roles c of None \<Rightarrow> [] | Some rs \<Rightarrow> ''1''),
      (case cl_roles c of None \<Rightarrow> [] | Some rs \<Rightarrow> enc_texts rs),
      cl_userId c, cl_sub c, cl_id c, cl_schoolId c, cl_username c, cl_sid c,
      enc_int (int (cl_tokenVersion c)), if cl_mfaSetupPending c then ''1'' else []]"

definition dec_claims :: "string list \<Rightarrow> claims" where
  "dec_claims xs =
     \<lparr>cl_role = xs ! 0, cl_roles = (if xs ! 1 = [] then None else Some (dec_texts [] (xs ! 2))),
      cl_userId = xs ! 3, cl_sub = xs ! 4, cl_id = xs ! 5, cl_schoolId = xs ! 6, cl_username = xs ! 7, cl_sid = xs ! 8,
      cl_tokenVersion = nat (dec_int (xs ! 9)), cl_mfaSetupPending = (xs ! 10 \<noteq> [])\<rparr>"

lemma dec_enc_claims [simp]: "dec_claims (enc_claims c) = c"
  by (cases c) (simp add: dec_claims_def enc_claims_def split: option.split)

definition enc_party :: "(string \<times> string) option \<Rightarrow> string" where
  "enc_party ia = (case ia of None \<Rightarrow> [] | Some (i, a) \<Rightarrow> enc_texts [i, a])"

lemma enc_texts_inj: "enc_texts ss = enc_texts ss' \<longleftrightarrow> ss = ss'"
  by (metis dec_enc_texts)

lemma enc_party_inj [simp]: "enc_party ia = enc_party ia' \<longleftrightarrow> ia = ia'"
  using enc_texts_inj [of "[]"] enc_texts_inj [of _ "[]"]
  by (auto simp: enc_party_def enc_texts_inj simp del: enc_texts.simps(2) split: option.splits)

definition sample_jwt :: jwt_lib where
  "sample_jwt =
     \<lparr>jwt_sign = (\<lambda>t0 c k ia ttl. enc_texts ([k, enc_party ia, enc_int (t0 div 1000 + ttl)] @ enc_claims c)),
      jwt_verify = (\<lambda>t tok k ia.
         let xs = dec_texts [] tok in
         if length xs < 3 \<or> xs ! 0 \<noteq> k then Inl OtherTokenError
         else if dec_int (xs ! 2) \<le> t div 1000 then Inl TokenExpiredError
         else if ia \<noteq> None \<and> xs ! 1 \<noteq> enc_party ia then Inl OtherTokenError
         else Inr (dec_claims (drop 3 xs))),
      hkdf = (\<lambda>s. ''derived:'' @ s)\<rparr>"

lemma sample_jwt_laws: "jwt_laws sample_jwt"
  unfolding jwt_laws_def
  by (intro conjI allI impI)
    (simp_all add: sample_jwt_def unexpired_jwt_def Let_def split: if_splits del: enc_texts.simps split_paired_All)

subsection \<open>Witnesses\<close>

definition sample_claims :: claims where
  "sample_claims = \<lparr>cl_role = ''user'', cl_roles = Some [''owner''], cl_userId = ''u'', cl_sub = [], cl_id = [],
     cl_schoolId = ''S'', cl_username = [], cl_sid = [], cl_tokenVersion = 0, cl_mfaSetupPending = False\<rparr>"

definition sample_auth_env :: auth_env where
  "sample_auth_env = \<lparr>env_signingKey = [], env_secret = ''k'', env_accessTTL = 10\<rparr>"

definition sample_guard :: "(string \<rightharpoonup> int \<times> millis, string \<rightharpoonup> int \<times> millis option) guard_deps" where
  "sample_guard = \<lparr>gd_cache = sample_cache, gd_redis = sample_redis_cmds, gd_jwt = sample_jwt, gd_env = sample_auth_env,
     gd_users = (\<lambda>u. Inr (Some (Some True, 0)))\<rparr>"

definition no_redis :: redis_weather where
  "no_redis = \<lparr>ready = False, read_ok = False, fail_point = All_ok\<rparr>"

definition sample_auth_request :: "string \<Rightarrow> auth_request" where
  "sample_auth_request token = \<lparr>rq_ip = ''1.2.3.4'', rq_remote = [], rq_authorization = None, rq_cookie = token,
     rq_schoolHeader = ''S'', rq_querySchool = [], rq_paramSchool = []\<rparr>"

definition empty_auth_state :: "(string \<rightharpoonup> int \<times> millis, string \<rightharpoonup> int \<times> millis option) auth_state" where
  "empty_auth_state = \<lparr>as_cache = Map.empty, as_redis = Map.empty, as_alerts = [], as_audit = []\<rparr>"

definition sample_token :: string where
  "sample_token = jwt_sign sample_jwt 0 (sample_claims\<lparr>cl_sid := ''sid''\<rparr>) ''derived:k'' (Some (ISSUER, AUDIENCE)) 10"

lemma sample_signed: "sign_token sample_jwt sample_auth_env 0 sample_claims None ''sid'' ''x'' = Some (sample_token, ''sid'', 10)"
  by (simp add: sign_token_def sample_auth_env_def getSigningKey_def sample_token_def or_text_def sample_jwt_def Let_def)

lemma sample_token_nonempty: "sample_token \<noteq> []"
  by (simp add: sample_token_def sample_jwt_def)

text \<open>The guard lets the sample token in.\<close>

lemma sample_admitted:
  "requireSchoolAuth sample_guard [''owner''] no_redis 5000 (sample_auth_request sample_token) empty_auth_state
     = (empty_auth_state, Next (sample_claims\<lparr>cl_sid := ''sid''\<rparr>) (Some ''S''))"
proof -
  have "verify_token sample_jwt sample_auth_env 5000 sample_token = Inr (sample_claims\<lparr>cl_sid := ''sid''\<rparr>)"
    using sign_verify [OF sample_jwt_laws sample_signed, of 5000] by (simp add: unexpired_jwt_def)
  then show ?thesis
    using sample_token_nonempty unfolding requireSchoolAuth_next
    by (simp add: token_holds_def in_scope_def sample_guard_def sample_auth_request_def request_token_def
        or_text_def ip_blocked_def no_redis_def isSessionRevoked_def cached_flag_def sample_cache_def empty_auth_state_def
        checkSessionRevoked_def sample_claims_def roles_of_def requested_school_def)
qed

theorem school_guard_admits_exactly_witness:
  "in_scope [''owner''] (sample_auth_request sample_token) (sample_claims\<lparr>cl_sid := ''sid''\<rparr>) (Some ''S'')
   \<and> rq_schoolHeader (sample_auth_request sample_token) = ''S''"
  using school_guard_admits_exactly [of sample_guard "[''owner'']" no_redis 5000 "sample_auth_request sample_token"
      empty_auth_state empty_auth_state "sample_claims\<lparr>cl_sid := ''sid''\<rparr>" "Some ''S''" True] sample_admitted
  by (simp add: sample_auth_request_def)

lemma sample_forged:
  "forged sample_guard ''1.2.3.4'' (t, sample_auth_request ''x'')"
  by (simp add: forged_def sample_guard_def sample_auth_request_def client_ip_def or_text_def request_token_def
      verify_token_def getSigningKey_def sample_auth_env_def sample_jwt_def)

theorem forged_tokens_block_address_witness:
  "let rs = map (\<lambda>t. (t, sample_auth_request ''x'')) [0, 1000, 2000, 3000, 4000, 5000]
   in snd (trace (guard_step sample_guard [''owner''] no_redis) rs empty_auth_state) =
        replicate 5 (Refuse 401 ''INVALID_AUTH_TOKEN'') @ [Refuse 429 ''IP_BLOCKED'']
    \<and> snd (guard_step sample_guard [''owner''] no_redis (6000, sample_auth_request sample_token)
        (fst (trace (guard_step sample_guard [''owner''] no_redis) rs empty_auth_state))) = Refuse 429 ''IP_BLOCKED''"
proof -
  let ?rs = "map (\<lambda>t. (t, sample_auth_request ''x'')) [0, 1000, 2000, 3000, 4000, 5000 :: int]"
  have laws: "cache_laws (gd_cache sample_guard)" by (simp add: sample_guard_def sample_cache_laws)
  have "list_all (forged sample_guard ''1.2.3.4'') ?rs" by (simp add: sample_forged)
  from forged_tokens_block_address [OF laws _ _ this, of no_redis empty_auth_state 0 6000 "sample_auth_request sample_token"
      "[''owner'']"]
  show ?thesis
    by (simp add: no_redis_def empty_auth_state_def sample_guard_def sample_cache_def IP_FAIL_WINDOW_def
        IP_BLOCK_TTL_def client_ip_def or_text_def sample_auth_request_def Let_def)
qed

theorem failing_redis_never_locks_out_witness:
  "let w = \<lparr>ready = True, read_ok = True, fail_point = At_incr\<rparr>
   in \<not> isLockedOut sample_cache sample_redis_cmds w 9 ''a'' (failed_logins sample_cache sample_redis_cmds w ''a'' [1,2,3,4,5,6,7] empty_auth_state)"
  using failing_redis_never_locks_out [OF sample_cache_laws, of "\<lparr>ready = True, read_ok = True, fail_point = At_incr\<rparr>"
      sample_redis_cmds 9 "''a''" empty_auth_state "[1,2,3,4,5,6,7]"]
  by (simp add: isLockedOut_def cached_flag_def sample_cache_def empty_auth_state_def sample_redis_cmds_def)

theorem revoked_session_stays_out_witness:
  "refused (requireSchoolAuth sample_guard [''owner''] no_redis 5000 (sample_auth_request sample_token)
     (revokeSession sample_cache sample_redis_cmds sample_auth_env no_redis 2000 ''sid'' 0 empty_auth_state))"
proof -
  have "cache_laws (gd_cache sample_guard)" "jwt_laws (gd_jwt sample_guard)"
    by (simp_all add: sample_guard_def sample_cache_laws sample_jwt_laws)
  from revoked_session_stays_out [OF this, of 0 sample_claims "''sid''" "''x''" sample_token "''sid''" 10 2000 5000
      "sample_auth_request sample_token" "[''owner'']" no_redis no_redis empty_auth_state]
  show ?thesis
    using sample_signed by (simp add: sample_guard_def sample_auth_env_def sample_auth_request_def request_token_def
        or_text_def sample_token_nonempty)
qed

end
