(* ===== verification/User_Accounts.thy ===== *)
theory User_Accounts
  imports Auth_Guard
begin

section \<open>Accounts of users\<close>

text \<open>
  \<^verbatim>\<open>backend/src/controllers/userController.js\<close> over the collection of \<^verbatim>\<open>backend/src/models/userModel.js\<close>: the
  endpoints of super administrators, those of the owners of a school, and the password flows. The
  state holds the users in the order they were created, the session store, the mails handed to the
  mailer and the audit entries. Random texts, fresh identifiers and the password hashes, which are salted, are
  arguments; the hash of tokens is a parameter. \<^verbatim>\<open>findByIdAndUpdate\<close> changes the first document with the
  identifier, which is the one \<^verbatim>\<open>findById\<close> returns.

  Shown: what any sequence of requests keeps of the accounts, that the last owner of a school stays, that the
  administrators of a school change no other school and grant no super administrator, and that a
  change of roles refuses every token issued before.
\<close>

subsection \<open>The collection\<close>

definition USER_ROLES :: "string list" where
  "USER_ROLES = [''super_admin'', ''owner'', ''staff'', ''read_only'']"

record user_doc =
  ud_id :: string
  ud_email :: string
  ud_passwordHash :: string
  ud_schoolId :: string
  ud_roles :: "string list"
  ud_isActive :: "bool option"
  ud_tokenVersion :: nat
  ud_invitationToken :: "string option"
  ud_invitationExpires :: "millis option"
  ud_resetToken :: "string option"
  ud_resetExpires :: "millis option"
  ud_resetRequestIp :: string

record 's account_state =
  ac_users :: "user_doc list"
  ac_store :: "'s session_store"
  ac_mail :: "(string \<times> string) list"
  ac_audit :: "(string \<times> string \<times> string) list"

definition user_by_id :: "string \<Rightarrow> 's account_state \<Rightarrow> user_doc option" where
  "user_by_id userId st = find (\<lambda>u. ud_id u = userId) (ac_users st)"

definition update_user :: "string \<Rightarrow> (user_doc \<Rightarrow> user_doc) \<Rightarrow> 's account_state \<Rightarrow> 's account_state" where
  "update_user userId f st = st\<lparr>ac_users := update_first (\<lambda>u. ud_id u = userId) f (ac_users st)\<rparr>"

definition log_account :: "string \<Rightarrow> string \<Rightarrow> string \<Rightarrow> 's account_state \<Rightarrow> 's account_state" where
  "log_account action performedBy targetId st = st\<lparr>ac_audit := ac_audit st @ [(action, performedBy, targetId)]\<rparr>"

datatype account_reply =
    Reply nat string
  | Thrown

text \<open>The arguments of a request as they arrive: \<^verbatim>\<open>roles\<close> may be missing, an array or something else; \<^verbatim>\<open>isActive\<close> may be
  any value. Mongoose casts some values to a boolean and throws for the rest; Joi converts the two words only.\<close>

datatype roles_arg = NoRoles | Roles "string list" | NotAnArray

datatype active_arg = Undefined | Null | Strict bool | Text string | Num int | OtherValue

definition mongoose_bool :: "active_arg \<Rightarrow> (unit, bool option) result" where
  "mongoose_bool a =
     (case a of
        Strict b \<Rightarrow> Inr (Some b)
      | Null \<Rightarrow> Inr None
      | Text s \<Rightarrow> if s \<in> {''true'', ''1'', ''yes''} then Inr (Some True)
                  else if s \<in> {''false'', ''0'', ''no''} then Inr (Some False) else Inl ()
      | Num n \<Rightarrow> if n = 1 then Inr (Some True) else if n = 0 then Inr (Some False) else Inl ()
      | _ \<Rightarrow> Inl ())"

definition joi_bool :: "active_arg \<Rightarrow> (unit, bool option) result" where
  "joi_bool a =
     (case a of
        Undefined \<Rightarrow> Inr None
      | Strict b \<Rightarrow> Inr (Some b)
      | Text s \<Rightarrow> if toLowerCase s = ''true'' then Inr (Some True)
                  else if toLowerCase s = ''false'' then Inr (Some False) else Inl ()
      | _ \<Rightarrow> Inl ())"

text \<open>What a request that creates a user or a token draws at random.\<close>

record fresh =
  fr_id :: string
  fr_token :: string
  fr_hash :: string

subsection \<open>Helpers\<close>

text \<open>The lists the endpoints check roles against.\<close>

definition validRoles :: "string list" where
  "validRoles = [''super_admin'', ''owner'', ''staff'', ''read_only'']"

definition schoolRoles :: "string list" where
  "schoolRoles = [''owner'', ''staff'', ''read_only'']"

definition MIN_PASSWORD_LENGTH :: nat where "MIN_PASSWORD_LENGTH = 12"

definition validatePassword :: "string \<Rightarrow> bool" where
  "validatePassword password \<longleftrightarrow> password \<noteq> [] \<and> \<not> length password < MIN_PASSWORD_LENGTH"

definition bump_version :: "user_doc \<Rightarrow> user_doc" where
  "bump_version u = u\<lparr>ud_tokenVersion := ud_tokenVersion u + 1\<rparr>"

text \<open>\<^verbatim>\<open>revokeUserSessions\<close> bumps the version; its second part calls \<^verbatim>\<open>listUserSessions\<close>, which is not a method
  of the session store, so it throws and the error is logged.\<close>

definition revokeUserSessions :: "string \<Rightarrow> 's account_state \<Rightarrow> 's account_state" where
  "revokeUserSessions userId st = update_user userId bump_version st"

definition revoke_all :: "string \<Rightarrow> 's account_state \<Rightarrow> 's account_state" where
  "revoke_all userId st = st\<lparr>ac_store := fst (revokeAllUserSessions userId (ac_store st))\<rparr>"

definition dispatchEmail :: "bool \<Rightarrow> string \<Rightarrow> string \<Rightarrow> 's account_state \<Rightarrow> 's account_state" where
  "dispatchEmail renders email token st = (if renders then st\<lparr>ac_mail := ac_mail st @ [(email, token)]\<rparr> else st)"

definition SEVEN_DAYS :: millis where "SEVEN_DAYS = 7 * 24 * 60 * 60 * 1000"
definition ONE_HOUR :: millis where "ONE_HOUR = 60 * 60 * 1000"

definition invited_user :: "(string \<Rightarrow> string) \<Rightarrow> millis \<Rightarrow> fresh \<Rightarrow> string \<Rightarrow> string \<Rightarrow> string list \<Rightarrow> user_doc" where
  "invited_user hashToken now fr email schoolId roles =
     \<lparr>ud_id = fr_id fr, ud_email = email, ud_passwordHash = fr_hash fr, ud_schoolId = schoolId, ud_roles = roles,
      ud_isActive = Some False, ud_tokenVersion = 0,
      ud_invitationToken = Some (hashToken (fr_token fr)), ud_invitationExpires = Some (now + SEVEN_DAYS),
      ud_resetToken = None, ud_resetExpires = None, ud_resetRequestIp = []\<rparr>"

text \<open>The common end of the two endpoints that create a user.\<close>

definition invite ::
  "(string \<Rightarrow> string) \<Rightarrow> millis \<Rightarrow> fresh \<Rightarrow> bool \<Rightarrow> string \<Rightarrow> string \<Rightarrow> string \<Rightarrow> string list \<Rightarrow> 's account_state \<Rightarrow> 's account_state \<times> account_reply" where
  "invite hashToken now fr renders performedBy email schoolId roles st =
     (if find (\<lambda>u. ud_email u = email) (ac_users st) \<noteq> None then (st, Reply 409 ''USER_EXISTS'')
      else let st1 = st\<lparr>ac_users := ac_users st @ [invited_user hashToken now fr email schoolId roles]\<rparr>;
               st2 = dispatchEmail renders email (fr_token fr) st1
           in (log_account ''user_created'' performedBy (fr_id fr) st2, Reply 201 []))"

subsection \<open>Endpoints of super administrators\<close>

definition createUser ::
  "(string \<Rightarrow> string) \<Rightarrow> millis \<Rightarrow> fresh \<Rightarrow> bool \<Rightarrow> string \<Rightarrow> string \<Rightarrow> string \<Rightarrow> roles_arg \<Rightarrow> 's account_state \<Rightarrow> 's account_state \<times> account_reply" where
  "createUser hashToken now fr renders adminId email schoolId roles st =
     (case roles of
        Roles rs \<Rightarrow>
          if email = [] \<or> schoolId = [] \<or> rs = [] then (st, Reply 400 ''VALIDATION_ERROR'')
          else if filter (\<lambda>r. r \<notin> set validRoles) rs \<noteq> []
          then (st, Reply 400 ''INVALID_ROLES'')
          else invite hashToken now fr renders (or_text adminId ''super_admin'') (toLowerCase (trim email)) schoolId rs st
      | _ \<Rightarrow> (st, Reply 400 ''VALIDATION_ERROR''))"

text \<open>What is shown of a user: all but the password hash and the tokens.\<close>

record user_view =
  uv_id :: string
  uv_email :: string
  uv_schoolId :: string
  uv_roles :: "string list"
  uv_isActive :: "bool option"
  uv_tokenVersion :: nat

definition view_user :: "user_doc \<Rightarrow> user_view" where
  "view_user u = \<lparr>uv_id = ud_id u, uv_email = ud_email u, uv_schoolId = ud_schoolId u, uv_roles = ud_roles u,
     uv_isActive = ud_isActive u, uv_tokenVersion = ud_tokenVersion u\<rparr>"

definition listUsers :: "string \<Rightarrow> string \<Rightarrow> string option \<Rightarrow> 's account_state \<Rightarrow> user_view list" where
  "listUsers schoolId role isActive st =
     map view_user (rev (filter (\<lambda>u. (schoolId \<noteq> [] \<longrightarrow> ud_schoolId u = schoolId)
        \<and> (role \<noteq> [] \<longrightarrow> role \<in> set (ud_roles u))
        \<and> (case isActive of None \<Rightarrow> True | Some s \<Rightarrow> ud_isActive u = Some (s = ''true''))) (ac_users st)))"

definition getUser :: "string \<Rightarrow> 's account_state \<Rightarrow> (account_reply, user_view) result" where
  "getUser userId st =
     (case user_by_id userId st of None \<Rightarrow> Inl (Reply 404 ''NOT_FOUND'') | Some u \<Rightarrow> Inr (view_user u))"

definition set_account :: "string list option \<Rightarrow> bool option option \<Rightarrow> user_doc \<Rightarrow> user_doc" where
  "set_account roles isActive u =
     (let u1 = (case roles of None \<Rightarrow> u | Some rs \<Rightarrow> u\<lparr>ud_roles := rs\<rparr>)
      in case isActive of None \<Rightarrow> u1 | Some b \<Rightarrow> u1\<lparr>ud_isActive := b\<rparr>)"

text \<open>The common end of the two endpoints that change a user: \<open>strict\<close> says that \<^verbatim>\<open>isActive === false\<close>.\<close>

definition commit_update ::
  "string \<Rightarrow> string \<Rightarrow> string list option \<Rightarrow> bool option option \<Rightarrow> bool \<Rightarrow> 's account_state \<Rightarrow> 's account_state \<times> account_reply" where
  "commit_update performedBy userId roles isActive strict st =
     (let st1 = update_user userId (set_account roles isActive) st;
          st2 = (if roles \<noteq> None \<or> isActive \<noteq> None then revokeUserSessions userId st1 else st1);
          st3 = (if strict then revoke_all userId st2 else st2)
      in (log_account ''user_updated'' performedBy userId st3, Reply 200 []))"

definition updateUser :: "string \<Rightarrow> string \<Rightarrow> roles_arg \<Rightarrow> active_arg \<Rightarrow> 's account_state \<Rightarrow> 's account_state \<times> account_reply" where
  "updateUser adminId userId roles isActive st =
     (case user_by_id userId st of
        None \<Rightarrow> (st, Reply 404 ''NOT_FOUND'')
      | Some user \<Rightarrow>
          if roles = NotAnArray then (st, Thrown)
          else let newRoles = (case roles of Roles rs \<Rightarrow> Some rs | _ \<Rightarrow> None) in
            if (case newRoles of None \<Rightarrow> False
                | Some rs \<Rightarrow> filter (\<lambda>r. r \<notin> set validRoles) rs \<noteq> [])
            then (st, Reply 400 ''INVALID_ROLES'')
            else if isActive = Undefined
            then commit_update (or_text adminId ''super_admin'') userId newRoles None False st
            else case mongoose_bool isActive of
                Inl _ \<Rightarrow> (st, Thrown)
              | Inr b \<Rightarrow> commit_update (or_text adminId ''super_admin'') userId newRoles (Some b) (isActive = Strict False) st)"

definition deleteUser :: "string \<Rightarrow> string \<Rightarrow> 's account_state \<Rightarrow> 's account_state \<times> account_reply" where
  "deleteUser adminId userId st =
     (case user_by_id userId st of
        None \<Rightarrow> (st, Reply 404 ''NOT_FOUND'')
      | Some user \<Rightarrow>
          let st1 = revokeUserSessions userId st;
              st2 = st1\<lparr>ac_users := (case List.extract (\<lambda>u. ud_id u = userId) (ac_users st1) of
                         None \<Rightarrow> ac_users st1 | Some (xs, _, ys) \<Rightarrow> xs @ ys)\<rparr>;
              st3 = revoke_all userId st2
          in (log_account ''user_deleted'' (or_text adminId ''super_admin'') userId st3, Reply 200 []))"

subsection \<open>Endpoints of a school\<close>

text \<open>\<open>actorSchool\<close> and \<open>actorId\<close> come from the token of the caller.\<close>

definition createSchoolUser ::
  "(string \<Rightarrow> string) \<Rightarrow> millis \<Rightarrow> fresh \<Rightarrow> bool \<Rightarrow> string \<Rightarrow> string \<Rightarrow> string \<Rightarrow> string \<Rightarrow> roles_arg
   \<Rightarrow> 's account_state \<Rightarrow> 's account_state \<times> account_reply" where
  "createSchoolUser hashToken now fr renders actorSchool actorId schoolId email roles st =
     (if actorSchool \<noteq> [] \<and> actorSchool \<noteq> schoolId then (st, Reply 403 ''FORBIDDEN'')
      else case roles of
        Roles rs \<Rightarrow>
          if email = [] \<or> rs = [] then (st, Reply 400 ''VALIDATION_ERROR'')
          else if ''super_admin'' \<in> set rs then (st, Reply 403 ''FORBIDDEN'')
          else if filter (\<lambda>r. r \<notin> set schoolRoles) rs \<noteq> [] then (st, Reply 400 ''INVALID_ROLES'')
          else invite hashToken now fr renders actorId (toLowerCase (trim email)) schoolId rs st
      | _ \<Rightarrow> (st, Reply 400 ''VALIDATION_ERROR''))"

definition listSchoolUsers :: "string \<Rightarrow> string \<Rightarrow> 's account_state \<Rightarrow> (account_reply, user_view list) result" where
  "listSchoolUsers actorSchool schoolId st =
     (if actorSchool \<noteq> [] \<and> actorSchool \<noteq> schoolId then Inl (Reply 403 ''FORBIDDEN'')
      else Inr (map view_user (rev (filter (\<lambda>u. ud_schoolId u = schoolId) (ac_users st)))))"

definition validate_update :: "roles_arg \<Rightarrow> active_arg \<Rightarrow> (unit, string list option \<times> bool option) result" where
  "validate_update roles isActive =
     (case joi_bool isActive of
        Inl _ \<Rightarrow> Inl ()
      | Inr b \<Rightarrow>
          (case roles of
             NotAnArray \<Rightarrow> Inl ()
           | NoRoles \<Rightarrow> if b = None then Inl () else Inr (None, b)
           | Roles rs \<Rightarrow> if rs = [] \<or> \<not> set rs \<subseteq> {''owner'', ''staff'', ''read_only''} then Inl () else Inr (Some rs, b)))"

definition is_active_owner :: "string \<Rightarrow> user_doc \<Rightarrow> bool" where
  "is_active_owner schoolId u \<longleftrightarrow> ud_schoolId u = schoolId \<and> ''owner'' \<in> set (ud_roles u) \<and> ud_isActive u = Some True"

text \<open>The checks of \<^verbatim>\<open>updateSchoolUser\<close>, up to the write.\<close>

definition updateSchoolUser_check ::
  "string \<Rightarrow> string \<Rightarrow> string \<Rightarrow> string \<Rightarrow> roles_arg \<Rightarrow> active_arg \<Rightarrow> 's account_state
   \<Rightarrow> (account_reply, string list option \<times> bool option) result" where
  "updateSchoolUser_check actorSchool actorId schoolId userId rolesArg activeArg st =
     (case validate_update rolesArg activeArg of
        Inl _ \<Rightarrow> Inl (Reply 400 ''VALIDATION_ERROR'')
      | Inr (roles, isActive) \<Rightarrow>
          (case user_by_id userId st of
             None \<Rightarrow> Inl (Reply 404 ''NOT_FOUND'')
           | Some user \<Rightarrow>
               let noOwner = (case roles of None \<Rightarrow> False | Some rs \<Rightarrow> ''owner'' \<notin> set rs);
                   isSelf = (actorId \<noteq> [] \<and> actorId = userId) in
               if ud_schoolId user \<noteq> schoolId then Inl (Reply 403 ''FORBIDDEN'')
               else if actorSchool \<noteq> [] \<and> actorSchool \<noteq> schoolId then Inl (Reply 403 ''FORBIDDEN'')
               else if isSelf \<and> noOwner then Inl (Reply 409 ''SELF_DEMOTION_FORBIDDEN'')
               else if isSelf \<and> isActive = Some False then Inl (Reply 409 ''SELF_DEACTIVATION_FORBIDDEN'')
               else if (case roles of None \<Rightarrow> False | Some rs \<Rightarrow> ''super_admin'' \<in> set rs) then Inl (Reply 403 ''FORBIDDEN'')
               else if ''owner'' \<in> set (ud_roles user) \<and> ud_isActive user = Some True
                       \<and> (noOwner \<or> isActive = Some False)
                       \<and> length (filter (is_active_owner schoolId) (ac_users st)) \<le> 1
               then Inl (Reply 409 ''LAST_OWNER'')
               else Inr (roles, isActive)))"

definition updateSchoolUser_commit ::
  "string \<Rightarrow> string \<Rightarrow> string list option \<times> bool option \<Rightarrow> 's account_state \<Rightarrow> 's account_state \<times> account_reply" where
  "updateSchoolUser_commit actorId userId upd st =
     commit_update actorId userId (fst upd) (map_option Some (snd upd)) (snd upd = Some False) st"

definition updateSchoolUser ::
  "string \<Rightarrow> string \<Rightarrow> string \<Rightarrow> string \<Rightarrow> roles_arg \<Rightarrow> active_arg \<Rightarrow> 's account_state \<Rightarrow> 's account_state \<times> account_reply" where
  "updateSchoolUser actorSchool actorId schoolId userId rolesArg activeArg st =
     (case updateSchoolUser_check actorSchool actorId schoolId userId rolesArg activeArg st of
        Inl r \<Rightarrow> (st, r)
      | Inr upd \<Rightarrow> updateSchoolUser_commit actorId userId upd st)"

subsection \<open>Password flows\<close>

definition setPassword :: "(string \<Rightarrow> string) \<Rightarrow> millis \<Rightarrow> string \<Rightarrow> string \<Rightarrow> string \<Rightarrow> 's account_state \<Rightarrow> 's account_state \<times> account_reply" where
  "setPassword hashToken now token password newHash st =
     (if token = [] \<or> password = [] then (st, Reply 400 ''VALIDATION_ERROR'')
      else if \<not> validatePassword password then (st, Reply 400 ''WEAK_PASSWORD'')
      else case find (\<lambda>u. ud_invitationToken u = Some (hashToken token)
                        \<and> (case ud_invitationExpires u of None \<Rightarrow> False | Some t \<Rightarrow> now < t)) (ac_users st) of
          None \<Rightarrow> (st, Reply 400 ''INVALID_TOKEN'')
        | Some user \<Rightarrow>
            let st1 = update_user (ud_id user)
                  (\<lambda>u. u\<lparr>ud_passwordHash := newHash, ud_isActive := Some True,
                         ud_invitationToken := None, ud_invitationExpires := None\<rparr>) st
            in (log_account ''password_set'' (ud_id user) (ud_id user) st1, Reply 200 []))"

text \<open>\<open>valid\<close> is the outcome of the format check of the address, which Joi has trimmed and lowered.\<close>

definition requestPasswordReset ::
  "(string \<Rightarrow> string) \<Rightarrow> millis \<Rightarrow> fresh \<Rightarrow> bool \<Rightarrow> string \<Rightarrow> bool \<Rightarrow> string \<Rightarrow> 's account_state \<Rightarrow> 's account_state \<times> account_reply" where
  "requestPasswordReset hashToken now fr renders ip valid email st =
     (if \<not> valid then (st, Reply 200 [])
      else case find (\<lambda>u. ud_email u = toLowerCase (trim email) \<and> ud_isActive u = Some True) (ac_users st) of
          None \<Rightarrow> (st, Reply 200 [])
        | Some user \<Rightarrow>
            let st1 = update_user (ud_id user)
                  (\<lambda>u. u\<lparr>ud_resetToken := Some (hashToken (fr_token fr)), ud_resetExpires := Some (now + ONE_HOUR),
                         ud_resetRequestIp := ip\<rparr>) st;
                st2 = dispatchEmail renders (toLowerCase (trim email)) (fr_token fr) st1
            in (log_account ''password_reset_requested'' (ud_id user) (ud_id user) st2, Reply 200 []))"

definition resetPassword :: "(string \<Rightarrow> string) \<Rightarrow> millis \<Rightarrow> string \<Rightarrow> string \<Rightarrow> string \<Rightarrow> 's account_state \<Rightarrow> 's account_state \<times> account_reply" where
  "resetPassword hashToken now token password newHash st =
     (if token = [] \<or> password = [] then (st, Reply 400 ''VALIDATION_ERROR'')
      else if \<not> validatePassword password then (st, Reply 400 ''WEAK_PASSWORD'')
      else case find (\<lambda>u. ud_resetToken u = Some (hashToken token)
                        \<and> (case ud_resetExpires u of None \<Rightarrow> False | Some t \<Rightarrow> now < t)) (ac_users st) of
          None \<Rightarrow> (st, Reply 400 ''INVALID_TOKEN'')
        | Some user \<Rightarrow>
            let st1 = update_user (ud_id user)
                  (\<lambda>u. u\<lparr>ud_passwordHash := newHash, ud_resetToken := None, ud_resetExpires := None,
                         ud_resetRequestIp := []\<rparr>) st;
                st2 = revokeUserSessions (ud_id user) st1;
                st3 = revoke_all (ud_id user) st2
            in (log_account ''password_reset'' (ud_id user) (ud_id user) st3, Reply 200 []))"

subsection \<open>Requests\<close>

datatype account_request =
    Create_user millis fresh bool string string string roles_arg
  | Update_user string string roles_arg active_arg
  | Delete_user string string
  | Create_school_user millis fresh bool string string string string roles_arg
  | Update_school_user string string string string roles_arg active_arg
  | Set_password millis string string string
  | Request_reset millis fresh bool string bool string
  | Reset_password millis string string string

fun account_step :: "(string \<Rightarrow> string) \<Rightarrow> account_request \<Rightarrow> 's account_state \<Rightarrow> 's account_state \<times> account_reply" where
  "account_step H (Create_user now fr b a e s r) st = createUser H now fr b a e s r st"
| "account_step H (Update_user a u r i) st = updateUser a u r i st"
| "account_step H (Delete_user a u) st = deleteUser a u st"
| "account_step H (Create_school_user now fr b aS a s e r) st = createSchoolUser H now fr b aS a s e r st"
| "account_step H (Update_school_user aS a s u r i) st = updateSchoolUser aS a s u r i st"
| "account_step H (Set_password now t p h) st = setPassword H now t p h st"
| "account_step H (Request_reset now fr b ip v e) st = requestPasswordReset H now fr b ip v e st"
| "account_step H (Reset_password now t p h) st = resetPassword H now t p h st"

definition run_accounts :: "(string \<Rightarrow> string) \<Rightarrow> account_request list \<Rightarrow> 's account_state \<Rightarrow> 's account_state" where
  "run_accounts H reqs st = foldl (\<lambda>st x. fst (account_step H x st)) st reqs"

text \<open>The requests of schools and of account holders, as opposed to those of super administrators on existing users.\<close>

fun school_request :: "account_request \<Rightarrow> bool" where
  "school_request (Update_user _ _ _ _) = False"
| "school_request (Delete_user _ _) = False"
| "school_request _ = True"

fun fresh_id_of :: "account_request \<Rightarrow> string option" where
  "fresh_id_of (Create_user _ fr _ _ _ _ _) = Some (fr_id fr)"
| "fresh_id_of (Create_school_user _ fr _ _ _ _ _ _) = Some (fr_id fr)"
| "fresh_id_of _ = None"

subsection \<open>What every request is made of\<close>

definition same_account :: "user_doc \<Rightarrow> user_doc \<Rightarrow> bool" where
  "same_account u v \<longleftrightarrow> ud_id v = ud_id u \<and> ud_email v = ud_email u \<and> ud_schoolId v = ud_schoolId u
     \<and> ud_roles v = ud_roles u \<and> ud_tokenVersion u \<le> ud_tokenVersion v"

definition leaves_owner :: "user_doc list \<Rightarrow> user_doc \<Rightarrow> string list option \<Rightarrow> bool option \<Rightarrow> bool" where
  "leaves_owner us user roles isActive \<longleftrightarrow>
     (is_active_owner (ud_schoolId user) user
      \<and> ((case roles of None \<Rightarrow> False | Some rs \<Rightarrow> ''owner'' \<notin> set rs) \<or> isActive = Some False)
      \<longrightarrow> 1 < length (filter (is_active_owner (ud_schoolId user)) us))"

text \<open>
  A relation between the users before and after. The endpoints of a school and the password flows add an
  invited user, change fields other than the account itself, activate a user, or change roles and
  activity under the check of the last owner; a relation that holds of these holds of every
  such request. The endpoints of super administrators change roles freely and delete.
\<close>

lemma roles_filtered:
  "filter (\<lambda>r. r \<notin> set validRoles) rs = [] \<longleftrightarrow> set rs \<subseteq> set USER_ROLES"
  "filter (\<lambda>r. r \<notin> set schoolRoles) rs = [] \<Longrightarrow> set rs \<subseteq> set USER_ROLES"
  by (auto simp: filter_empty_conv validRoles_def schoolRoles_def USER_ROLES_def)

locale school_accounts =
  fixes P :: "user_doc list \<Rightarrow> user_doc list \<Rightarrow> bool" and ok :: "string \<Rightarrow> bool"
  assumes keep: "P us us"
    and compose: "P us vs \<Longrightarrow> P vs ws \<Longrightarrow> P us ws"
    and invited: "find (\<lambda>u. ud_email u = ud_email n) us = None \<Longrightarrow> set (ud_roles n) \<subseteq> set USER_ROLES
        \<Longrightarrow> ok (ud_id n) \<Longrightarrow> P us (us @ [n])"
    and quiet: "(\<And>u. same_account u (f u) \<and> ud_isActive (f u) = ud_isActive u)
        \<Longrightarrow> P us (update_first (\<lambda>u. ud_id u = i) f us)"
    and activated: "(\<And>u. same_account u (f u) \<and> ud_isActive (f u) = Some True)
        \<Longrightarrow> P us (update_first (\<lambda>u. ud_id u = i) f us)"
    and changed: "find (\<lambda>u. ud_id u = i) us = Some user \<Longrightarrow> leaves_owner us user roles act
        \<Longrightarrow> (\<forall>rs. roles = Some rs \<longrightarrow> set rs \<subseteq> set USER_ROLES)
        \<Longrightarrow> P us (update_first (\<lambda>u. ud_id u = i) (set_account roles (map_option Some act)) us)"
begin

lemma bumped: "P us (update_first (\<lambda>u. ud_id u = i) bump_version us)"
  by (rule quiet) (simp add: same_account_def bump_version_def)

lemma commit:
  assumes "P (ac_users st) (update_first (\<lambda>u. ud_id u = i) (set_account roles act) (ac_users st))"
  shows "P (ac_users st) (ac_users (fst (commit_update a i roles act strict st)))"
  using assms compose [OF assms bumped]
  by (auto simp: commit_update_def Let_def log_account_def revoke_all_def revokeUserSessions_def update_user_def)

lemma school_commit:
  assumes "updateSchoolUser_check aS a s i r act st = Inr upd"
  shows "P (ac_users st) (ac_users (fst (updateSchoolUser_commit a i upd st)))"
  unfolding updateSchoolUser_commit_def
proof (rule commit)
  from assms obtain user where user: "user_by_id i st = Some user"
    and valid: "validate_update r act = Inr upd"
    and owner: "leaves_owner (ac_users st) user (fst upd) (snd upd)"
    by (auto simp: updateSchoolUser_check_def Let_def leaves_owner_def is_active_owner_def
        split: sum.splits option.splits if_splits)
  have "\<forall>rs. fst upd = Some rs \<longrightarrow> set rs \<subseteq> set USER_ROLES"
    using valid by (auto simp: validate_update_def USER_ROLES_def split: sum.splits roles_arg.splits if_splits)
  with user owner
  show "P (ac_users st) (update_first (\<lambda>u. ud_id u = i) (set_account (fst upd) (map_option Some (snd upd))) (ac_users st))"
    by (intro changed) (simp_all add: user_by_id_def)
qed

lemma invite_step:
  assumes "set roles \<subseteq> set USER_ROLES" "ok (fr_id fr)"
  shows "P (ac_users st) (ac_users (fst (invite H now fr b a e s roles st)))"
  using assms keep invited [of "invited_user H now fr e s roles" "ac_users st"]
  by (simp add: invite_def Let_def log_account_def dispatchEmail_def invited_user_def)

lemma school_step:
  assumes "school_request x" "\<forall>i. fresh_id_of x = Some i \<longrightarrow> ok i"
  shows "P (ac_users st) (ac_users (fst (account_step H x st)))"
proof (cases x)
  case (Create_user now fr b a e s r)
  then show ?thesis
    using assms keep by (auto simp: createUser_def roles_filtered(1) intro: invite_step split: roles_arg.split)
next
  case (Create_school_user now fr b aS a s e r)
  then show ?thesis
    using assms keep by (auto simp: createSchoolUser_def intro: invite_step dest: roles_filtered(2) split: roles_arg.split)
next
  case (Update_school_user aS a s u r i)
  then show ?thesis
    using keep by (auto simp: updateSchoolUser_def intro: school_commit split: sum.split)
next
  case (Set_password now t p h)
  then show ?thesis
    using keep by (auto simp: setPassword_def Let_def log_account_def update_user_def same_account_def intro!: activated
        split: option.split)
next
  case (Request_reset now fr b ip v e)
  then show ?thesis
    using keep by (auto simp: requestPasswordReset_def Let_def log_account_def dispatchEmail_def update_user_def
        same_account_def intro!: quiet split: option.split)
next
  case (Reset_password now t p h)
  have "P us (update_first (\<lambda>u. ud_id u = i) bump_version (update_first (\<lambda>u. ud_id u = i) f us))"
    if "\<And>u. same_account u (f u) \<and> ud_isActive (f u) = ud_isActive u" for us i f
    by (rule compose [OF quiet [OF that] bumped])
  with Reset_password keep show ?thesis
    by (auto simp: resetPassword_def Let_def log_account_def revoke_all_def revokeUserSessions_def update_user_def
        same_account_def split: option.split)
qed (use assms in simp_all)

lemma school_run:
  assumes "list_all school_request reqs" "\<forall>x\<in>set reqs. \<forall>i. fresh_id_of x = Some i \<longrightarrow> ok i"
  shows "P (ac_users st) (ac_users (run_accounts H reqs st))"
  unfolding run_accounts_def using assms
proof (induction reqs arbitrary: st)
  case (Cons x reqs)
  then show ?case using compose [OF school_step [of x st H]] by simp
qed (simp add: keep)

end

locale admin_accounts = school_accounts +
  assumes admin_changed: "(\<forall>rs. roles = Some rs \<longrightarrow> set rs \<subseteq> set USER_ROLES)
      \<Longrightarrow> P us (update_first (\<lambda>u. ud_id u = i) (set_account roles act) us)"
    and removed: "P (xs @ u # ys) (xs @ ys)"
begin

lemma account_step:
  assumes "\<forall>i. fresh_id_of x = Some i \<longrightarrow> ok i"
  shows "P (ac_users st) (ac_users (fst (account_step H x st)))"
proof (cases x)
  case (Update_user a u r i)
  have "P (ac_users st) (ac_users (fst (commit_update b u roles act strict st)))"
    if "\<forall>rs. roles = Some rs \<longrightarrow> set rs \<subseteq> set USER_ROLES" for b roles act strict
    by (rule commit [OF admin_changed [OF that]])
  then show ?thesis
    using keep Update_user
    by (simp add: updateUser_def Let_def roles_filtered(1) split: option.split sum.split roles_arg.split)
next
  case (Delete_user a u)
  have gone: "P us (case List.extract Q us of None \<Rightarrow> us | Some (xs, _, ys) \<Rightarrow> xs @ ys)" for us Q
    using keep removed by (auto simp: extract_Some_iff split: option.split)
  from compose [OF bumped gone] show ?thesis
    using keep Delete_user
    by (cases "user_by_id u st")
      (simp_all add: deleteUser_def Let_def log_account_def revoke_all_def revokeUserSessions_def update_user_def
        cong: option.case_cong)
qed (use assms school_step [of x] in simp_all)

lemma account_run:
  assumes "\<forall>x\<in>set reqs. \<forall>i. fresh_id_of x = Some i \<longrightarrow> ok i"
  shows "P (ac_users st) (ac_users (run_accounts H reqs st))"
  unfolding run_accounts_def using assms
proof (induction reqs arbitrary: st)
  case (Cons x reqs)
  then show ?case using compose [OF account_step [of x st H]] by simp
qed (simp add: keep)

end

subsection \<open>Three relations that every request keeps\<close>

lemma set_update_first:
  "x \<in> set (update_first Q f xs) \<Longrightarrow> x \<in> set xs \<or> (\<exists>y\<in>set xs. Q y \<and> x = f y)"
  by (induction xs) (auto split: if_splits)

lemma update_first_exists:
  "y \<in> set xs \<Longrightarrow> find Q xs \<noteq> Some y \<Longrightarrow> y \<in> set (update_first Q f xs)"
  by (induction xs) auto

lemma update_first_found: "find Q xs = Some y \<Longrightarrow> f y \<in> set (update_first Q f xs)"
  by (induction xs) (auto split: if_splits)

lemma map_update_first: "(\<And>x. g (f x) = g x) \<Longrightarrow> map g (update_first Q f xs) = map g xs"
  by (induction xs) auto

lemma set_account_fields [simp]:
  "ud_id (set_account roles act u) = ud_id u" "ud_email (set_account roles act u) = ud_email u"
  "ud_schoolId (set_account roles act u) = ud_schoolId u"
  "ud_tokenVersion (set_account roles act u) = ud_tokenVersion u"
  "ud_roles (set_account roles act u) = (case roles of None \<Rightarrow> ud_roles u | Some rs \<Rightarrow> rs)"
  "ud_isActive (set_account roles act u) = (case act of None \<Rightarrow> ud_isActive u | Some b \<Rightarrow> b)"
  by (simp_all add: set_account_def Let_def split: option.split)

text \<open>Addresses stay distinct and roles stay within the list.\<close>

definition accounts_ok :: "user_doc list \<Rightarrow> bool" where
  "accounts_ok us \<longleftrightarrow> distinct (map ud_email us) \<and> (\<forall>u\<in>set us. set (ud_roles u) \<subseteq> set USER_ROLES)"

lemma accounts_ok_update:
  assumes "accounts_ok us" "\<And>u. ud_email (f u) = ud_email u"
    and "\<And>u. set (ud_roles u) \<subseteq> set USER_ROLES \<Longrightarrow> set (ud_roles (f u)) \<subseteq> set USER_ROLES"
  shows "accounts_ok (update_first Q f us)"
  using assms map_update_first [of ud_email f Q us] set_update_first [of _ Q f us]
  unfolding accounts_ok_def by (metis (no_types, lifting))

interpretation shape: admin_accounts "\<lambda>us us'. accounts_ok us \<longrightarrow> accounts_ok us'" "\<lambda>_. True"
proof (unfold_locales, goal_cases)
  case (3 n us)
  then show ?case by (auto simp: accounts_ok_def find_None_iff)
next
  case (4 f i us)
  then show ?case by (intro impI accounts_ok_update) (simp_all add: same_account_def)
next
  case (5 f i us)
  then show ?case by (intro impI accounts_ok_update) (simp_all add: same_account_def)
next
  case (6 i us user roles act)
  then show ?case by (intro impI accounts_ok_update) (simp_all split: option.split)
next
  case (7 roles i act us)
  then show ?case by (intro impI accounts_ok_update) (simp_all split: option.split)
next
  case (8 xs u ys)
  show ?case by (auto simp: accounts_ok_def)
qed simp_all

text \<open>The version of a user's tokens never falls, as long as no new user gets its identifier.\<close>

definition version_at_least :: "string \<Rightarrow> nat \<Rightarrow> user_doc list \<Rightarrow> bool" where
  "version_at_least i v us \<longleftrightarrow> (\<forall>u\<in>set us. ud_id u = i \<longrightarrow> v \<le> ud_tokenVersion u)"

lemma version_update:
  assumes "\<And>u. ud_id (f u) = ud_id u \<and> ud_tokenVersion u \<le> ud_tokenVersion (f u)"
    and "version_at_least i v us"
  shows "version_at_least i v (update_first Q f us)"
  unfolding version_at_least_def
proof (intro ballI impI)
  fix u
  assume "u \<in> set (update_first Q f us)" "ud_id u = i"
  then show "v \<le> ud_tokenVersion u"
    using set_update_first [of u Q f us] assms(1) assms(2) unfolding version_at_least_def by (metis le_trans)
qed

lemma versions: "admin_accounts (\<lambda>us us'. \<forall>v. version_at_least i v us \<longrightarrow> version_at_least i v us') (\<lambda>j. j \<noteq> i)"
proof (unfold_locales, goal_cases)
  case (4 f j us)
  then show ?case by (intro allI impI version_update) (simp_all add: same_account_def)
next
  case (5 f j us)
  then show ?case by (intro allI impI version_update) (simp_all add: same_account_def)
next
  case (6 j us user roles act)
  show ?case by (intro allI impI version_update) simp_all
next
  case (7 roles j act us)
  show ?case by (intro allI impI version_update) simp_all
qed (auto simp: version_at_least_def)

text \<open>A school with an active owner keeps one.\<close>

definition owners_kept :: "user_doc list \<Rightarrow> user_doc list \<Rightarrow> bool" where
  "owners_kept us us' \<longleftrightarrow> (\<forall>s. list_ex (is_active_owner s) us \<longrightarrow> list_ex (is_active_owner s) us')"

lemma owners_kept_update:
  assumes "\<And>s y. find (\<lambda>u. ud_id u = i) us = Some y \<Longrightarrow> is_active_owner s y \<Longrightarrow> is_active_owner s (f y)"
  shows "owners_kept us (update_first (\<lambda>u. ud_id u = i) f us)"
  unfolding owners_kept_def list_ex_iff
  using assms update_first_exists [of _ us "\<lambda>u. ud_id u = i" f] update_first_found [of "\<lambda>u. ud_id u = i" us _ f]
  by metis

lemma filter_two: "find Q xs = Some y \<Longrightarrow> R y \<Longrightarrow> 1 < length (filter R xs) \<Longrightarrow> list_ex R (update_first Q f xs)"
proof (induction xs)
  case (Cons x xs)
  then show ?case by (cases "filter R xs") (auto simp: list_ex_iff filter_empty_conv split: if_splits)
qed simp

interpretation owners: school_accounts owners_kept "\<lambda>_. True"
proof
  fix i us user roles act
  assume user: "find (\<lambda>u. ud_id u = i) us = Some user" and left: "leaves_owner us user roles act"
  show "owners_kept us (update_first (\<lambda>u. ud_id u = i) (set_account roles (map_option Some act)) us)"
  proof (cases "is_active_owner (ud_schoolId user) user \<and> \<not> is_active_owner (ud_schoolId user) (set_account roles (map_option Some act) user)")
    case True
    then have "1 < length (filter (is_active_owner (ud_schoolId user)) us)"
      using left by (auto simp: leaves_owner_def is_active_owner_def split: option.splits)
    from filter_two [OF user _ this] True
    have same: "list_ex (is_active_owner (ud_schoolId user)) (update_first (\<lambda>u. ud_id u = i) (set_account roles (map_option Some act)) us)"
      by blast
    show ?thesis
      unfolding owners_kept_def
    proof (intro allI impI)
      fix s
      assume "list_ex (is_active_owner s) us"
      then obtain u where "u \<in> set us" "is_active_owner s u" by (auto simp: list_ex_iff)
      with user same True update_first_exists [of u us "\<lambda>u. ud_id u = i"]
      show "list_ex (is_active_owner s) (update_first (\<lambda>u. ud_id u = i) (set_account roles (map_option Some act)) us)"
        by (cases "u = user") (auto simp: list_ex_iff is_active_owner_def)
    qed
  next
    case False
    then show ?thesis using user by (intro owners_kept_update) (auto simp: is_active_owner_def)
  qed
next
  fix f :: "user_doc \<Rightarrow> user_doc" and us :: "user_doc list" and i
  show "(\<And>u. same_account u (f u) \<and> ud_isActive (f u) = ud_isActive u)
      \<Longrightarrow> owners_kept us (update_first (\<lambda>u. ud_id u = i) f us)"
    by (rule owners_kept_update) (auto simp: same_account_def is_active_owner_def)
  show "(\<And>u. same_account u (f u) \<and> ud_isActive (f u) = Some True)
      \<Longrightarrow> owners_kept us (update_first (\<lambda>u. ud_id u = i) f us)"
    by (rule owners_kept_update) (auto simp: same_account_def is_active_owner_def)
qed (auto simp: owners_kept_def)

subsection \<open>Accounts over any requests\<close>

text \<open>C9: Over any sequence of requests, those of super administrators included, no two users have the same
  address and every role is one of the four of the model; and as long as super administrators do not
  change or delete users, every school that has an active owner keeps one.\<close>

theorem accounts_keep_shape_and_owners:
  "(accounts_ok (ac_users st) \<longrightarrow> accounts_ok (ac_users (run_accounts H reqs st)))
   \<and> (list_all school_request reqs \<and> list_ex (is_active_owner s) (ac_users st)
        \<longrightarrow> list_ex (is_active_owner s) (ac_users (run_accounts H reqs st)))"
  using shape.account_run [of reqs st H] owners.school_run [of reqs st H] by (simp add: owners_kept_def)

definition sample_user :: "string \<Rightarrow> string list \<Rightarrow> bool \<Rightarrow> user_doc" where
  "sample_user i rs b = \<lparr>ud_id = i, ud_email = i @ ''@x'', ud_passwordHash = ''h'', ud_schoolId = ''S'', ud_roles = rs,
     ud_isActive = Some b, ud_tokenVersion = 0, ud_invitationToken = None, ud_invitationExpires = None,
     ud_resetToken = None, ud_resetExpires = None, ud_resetRequestIp = []\<rparr>"

definition sample_accounts :: "nat account_state" where
  "sample_accounts = \<lparr>ac_users = [sample_user ''a'' [''owner''] True, sample_user ''b'' [''owner''] True],
     ac_store = empty_session_store, ac_mail = [], ac_audit = []\<rparr>"

lemmas account_defs = updateSchoolUser_def updateSchoolUser_check_def updateSchoolUser_commit_def commit_update_def
  validate_update_def joi_bool_def user_by_id_def update_user_def set_account_def revokeUserSessions_def bump_version_def
  revoke_all_def log_account_def is_active_owner_def

theorem accounts_keep_shape_and_owners_witness:
  "list_ex (is_active_owner ''S'') (ac_users (run_accounts id
     [Update_school_user ''S'' ''a'' ''S'' ''b'' (Roles [''staff'']) Undefined,
      Update_school_user ''S'' ''b'' ''S'' ''a'' NoRoles (Strict False)] sample_accounts))"
  using accounts_keep_shape_and_owners [of sample_accounts id "[Update_school_user ''S'' ''a'' ''S'' ''b'' (Roles [''staff'']) Undefined,
      Update_school_user ''S'' ''b'' ''S'' ''a'' NoRoles (Strict False)]" "''S''"]
  by (simp add: sample_accounts_def is_active_owner_def sample_user_def)

text \<open>The check of the last owner does not hold under interleaving. Two owners who demote each other at the
  same time both pass the check, and the school is left without an active owner.\<close>

theorem concurrent_demotions_leave_no_owner:
  "\<exists>u1 u2. updateSchoolUser_check ''S'' ''a'' ''S'' ''b'' (Roles [''staff'']) Undefined sample_accounts = Inr u1
   \<and> updateSchoolUser_check ''S'' ''b'' ''S'' ''a'' (Roles [''staff'']) Undefined sample_accounts = Inr u2
   \<and> list_ex (is_active_owner ''S'') (ac_users sample_accounts)
   \<and> \<not> list_ex (is_active_owner ''S'')
        (ac_users (fst (updateSchoolUser_commit ''b'' ''a'' u2 (fst (updateSchoolUser_commit ''a'' ''b'' u1 sample_accounts)))))"
  by (simp add: account_defs sample_accounts_def sample_user_def)

subsection \<open>Administrators of a school\<close>

lemma filter_update_first:
  "(\<And>x. Q x \<Longrightarrow> x \<in> set xs \<Longrightarrow> \<not> R x \<and> \<not> R (f x)) \<Longrightarrow> filter R (update_first Q f xs) = filter R xs"
  by (induction xs) auto

lemma update_first_find:
  assumes "find Q xs = Some y"
  shows "\<exists>us vs. xs = us @ y # vs \<and> update_first Q f xs = us @ f y # vs \<and> Q y \<and> (\<forall>u\<in>set us. \<not> Q u)"
  using assms
proof (induction xs)
  case (Cons x xs)
  show ?case
  proof (cases "Q x")
    case True
    then show ?thesis using Cons.prems by - (rule exI [of _ "[]"], rule exI [of _ xs], simp)
  next
    case False
    then obtain us vs where eq: "xs = us @ y # vs" "update_first Q f xs = us @ f y # vs" "Q y" "\<forall>u\<in>set us. \<not> Q u"
      using Cons by auto
    have "x # xs = (x # us) @ y # vs" using eq(1) by simp
    moreover have "update_first Q f (x # xs) = (x # us) @ f y # vs" using False eq(2) by simp
    ultimately show ?thesis using eq(3,4) False by (metis set_ConsD)
  qed
qed simp

lemma update_twice:
  "(\<And>x. Q (f x) = Q x) \<Longrightarrow> update_first Q g (update_first Q f xs) = update_first Q (g \<circ> f) xs"
  by (induction xs) auto

lemma commit_users:
  "\<exists>f. ac_users (fst (commit_update a i roles act strict st)) = update_first (\<lambda>u. ud_id u = i) f (ac_users st)
     \<and> (\<forall>u. ud_id (f u) = ud_id u \<and> ud_schoolId (f u) = ud_schoolId u
          \<and> ud_roles (f u) = (case roles of None \<Rightarrow> ud_roles u | Some rs \<Rightarrow> rs)
          \<and> ud_tokenVersion (f u) = ud_tokenVersion u + (if roles \<noteq> None \<or> act \<noteq> None then 1 else 0))"
proof (cases "roles \<noteq> None \<or> act \<noteq> None")
  case True
  then show ?thesis
    by (intro exI [of _ "bump_version \<circ> set_account roles act"])
      (simp add: commit_update_def Let_def log_account_def revoke_all_def revokeUserSessions_def update_user_def
        update_twice bump_version_def)
next
  case False
  then show ?thesis
    by (intro exI [of _ "set_account roles act"])
      (simp add: commit_update_def Let_def log_account_def revoke_all_def update_user_def)
qed

text \<open>A request made with a token of school \<open>A\<close> through the endpoints of schools.\<close>

fun made_by :: "string \<Rightarrow> account_request \<Rightarrow> bool" where
  "made_by A (Create_school_user _ _ _ aS _ _ _ _) = (aS = A)"
| "made_by A (Update_school_user aS _ _ _ _ _) = (aS = A)"
| "made_by A _ = False"

definition confined :: "string \<Rightarrow> user_doc list \<Rightarrow> user_doc list \<Rightarrow> bool" where
  "confined A us us' \<longleftrightarrow>
     filter (\<lambda>u. ud_schoolId u \<noteq> A) us' = filter (\<lambda>u. ud_schoolId u \<noteq> A) us
   \<and> (\<forall>u'\<in>set us'. ''super_admin'' \<in> set (ud_roles u') \<longrightarrow>
        (\<exists>u\<in>set us. ud_id u = ud_id u' \<and> ''super_admin'' \<in> set (ud_roles u)))"

lemma confined_refl: "confined A us us"
  by (auto simp: confined_def)

lemma confined_trans: "confined A us vs \<Longrightarrow> confined A vs ws \<Longrightarrow> confined A us ws"
  unfolding confined_def by metis

lemma confined_invite:
  assumes "''super_admin'' \<notin> set rs"
  shows "confined A (ac_users st) (ac_users (fst (invite H now fr b a e A rs st)))"
  using assms by (auto simp: confined_def invite_def Let_def log_account_def dispatchEmail_def invited_user_def)

lemma confined_commit:
  assumes "user_by_id i st = Some user" "ud_schoolId user = A"
    and "\<And>rs. roles = Some rs \<Longrightarrow> ''super_admin'' \<notin> set rs"
  shows "confined A (ac_users st) (ac_users (fst (commit_update a i roles act strict st)))"
proof -
  obtain f where us: "ac_users (fst (commit_update a i roles act strict st)) = update_first (\<lambda>u. ud_id u = i) f (ac_users st)"
    and f: "\<And>u. ud_id (f u) = ud_id u \<and> ud_schoolId (f u) = ud_schoolId u
        \<and> ud_roles (f u) = (case roles of None \<Rightarrow> ud_roles u | Some rs \<Rightarrow> rs)"
    using commit_users [of a i roles act strict st] by blast
  obtain xs ys where split: "ac_users st = xs @ user # ys"
      "update_first (\<lambda>u. ud_id u = i) f (ac_users st) = xs @ f user # ys"
    using update_first_find [of "\<lambda>u. ud_id u = i" "ac_users st" user f] assms(1) by (auto simp: user_by_id_def)
  have new: "ac_users (fst (commit_update a i roles act strict st)) = xs @ f user # ys" using us split(2) by simp
  show ?thesis
    unfolding confined_def new split(1) using assms(2,3) f [of user] by (auto split: option.splits)
qed

lemma confined_step:
  assumes "made_by A x" "A \<noteq> []"
  shows "confined A (ac_users st) (ac_users (fst (account_step H x st)))"
proof (cases x)
  case (Create_school_user now fr b aS a s e r)
  then show ?thesis
    using assms by (auto simp: createSchoolUser_def confined_refl intro: confined_invite split: roles_arg.split)
next
  case (Update_school_user aS a s u r i)
  have "confined A (ac_users st) (ac_users (fst (updateSchoolUser_commit a u upd st)))"
    if checked: "updateSchoolUser_check aS a s u r i st = Inr upd" for upd
  proof -
    from checked obtain user where "user_by_id u st = Some user" "ud_schoolId user = A"
        "\<And>rs. fst upd = Some rs \<Longrightarrow> ''super_admin'' \<notin> set rs"
      using assms Update_school_user
      by (auto simp: updateSchoolUser_check_def Let_def split: sum.splits option.splits if_splits)
    then show ?thesis unfolding updateSchoolUser_commit_def by (rule confined_commit)
  qed
  then show ?thesis
    using Update_school_user by (simp add: updateSchoolUser_def confined_refl split: sum.split)
qed (use assms in simp_all)

text \<open>C8: The owners of a school manage their own school only. Any sequence of requests made with a token of one
  school, whatever school and user they name, leaves the users of every other school as they are and makes nobody a
  super administrator.\<close>

theorem school_admins_confined:
  assumes "A \<noteq> []" and "list_all (made_by A) reqs"
  shows "filter (\<lambda>u. ud_schoolId u \<noteq> A) (ac_users (run_accounts H reqs st)) = filter (\<lambda>u. ud_schoolId u \<noteq> A) (ac_users st)
   \<and> (\<forall>u'\<in>set (ac_users (run_accounts H reqs st)). ''super_admin'' \<in> set (ud_roles u') \<longrightarrow>
        (\<exists>u\<in>set (ac_users st). ud_id u = ud_id u' \<and> ''super_admin'' \<in> set (ud_roles u)))"
proof -
  have "confined A (ac_users st) (ac_users (run_accounts H reqs st))"
    unfolding run_accounts_def using assms(2)
  proof (induction reqs arbitrary: st)
    case (Cons x reqs)
    then show ?case using confined_trans [OF confined_step [OF _ assms(1), of x st H]] by simp
  qed (simp add: confined_refl)
  then show ?thesis by (simp add: confined_def)
qed

theorem school_admins_confined_witness:
  "filter (\<lambda>u. ud_schoolId u \<noteq> ''T'') (ac_users (run_accounts id
     [Update_school_user ''T'' ''c'' ''S'' ''b'' (Roles [''staff'']) Undefined] sample_accounts))
   = [sample_user ''a'' [''owner''] True, sample_user ''b'' [''owner''] True]"
  using school_admins_confined [of "''T''" "[Update_school_user ''T'' ''c'' ''S'' ''b'' (Roles [''staff'']) Undefined]" id sample_accounts]
  by (simp add: sample_accounts_def sample_user_def)

subsection \<open>Revocation by version\<close>

definition lookup_user :: "'s account_state \<Rightarrow> user_lookup" where
  "lookup_user st i = Inr (map_option (\<lambda>u. (ud_isActive u, ud_tokenVersion u)) (user_by_id i st))"

fun changes_user :: "string \<Rightarrow> account_request \<Rightarrow> bool" where
  "changes_user i (Update_user _ u r a) = (u = i \<and> (r \<noteq> NoRoles \<or> a \<noteq> Undefined))"
| "changes_user i (Update_school_user _ _ _ u _ _) = (u = i)"
| "changes_user i _ = False"

lemma commit_raises_version:
  assumes "distinct (map ud_id (ac_users st))" "user_by_id i st = Some u" "roles \<noteq> None \<or> act \<noteq> None"
  shows "version_at_least i (ud_tokenVersion u + 1) (ac_users (fst (commit_update a i roles act strict st)))"
proof -
  obtain f where us: "ac_users (fst (commit_update a i roles act strict st)) = update_first (\<lambda>u. ud_id u = i) f (ac_users st)"
    and f: "\<And>u. ud_id (f u) = ud_id u \<and> ud_tokenVersion (f u) = ud_tokenVersion u + 1"
    using commit_users [of a i roles act strict st] assms(3) by auto
  obtain xs ys where split: "ac_users st = xs @ u # ys"
      "update_first (\<lambda>u. ud_id u = i) f (ac_users st) = xs @ f u # ys" "ud_id u = i"
    using update_first_find [of "\<lambda>u. ud_id u = i" "ac_users st" u f] assms(2) by (auto simp: user_by_id_def)
  have "ud_id x \<noteq> i" if "x \<in> set xs \<union> set ys" for x
    using assms(1) split(1,3) that by (auto simp: image_iff)
  moreover have "ac_users (fst (commit_update a i roles act strict st)) = xs @ f u # ys" using us split(2) by simp
  ultimately show ?thesis using f [of u] unfolding version_at_least_def by auto
qed

lemma change_raises_version:
  assumes "distinct (map ud_id (ac_users st))" "user_by_id i st = Some u" "changes_user i x"
    and "account_step H x st = (st1, Reply 200 [])"
  shows "version_at_least i (ud_tokenVersion u + 1) (ac_users st1)"
proof (cases x)
  case (Update_user a j r act)
  with assms(2,3,4) obtain roles b strict where "st1 = fst (commit_update (or_text a ''super_admin'') i roles b strict st)"
      "roles \<noteq> None \<or> b \<noteq> None"
    by (auto simp: updateUser_def Let_def split: option.splits if_splits sum.splits roles_arg.splits)
      (metis fst_conv option.distinct(1))+
  then show ?thesis using commit_raises_version [OF assms(1,2)] by simp
next
  case (Update_school_user aS a s j r act)
  with assms(2,3,4) obtain upd where upd: "updateSchoolUser_check aS a s i r act st = Inr upd"
      "st1 = fst (updateSchoolUser_commit a i upd st)"
    by (auto simp: updateSchoolUser_def split: sum.splits) (auto simp: updateSchoolUser_check_def Let_def split: sum.splits option.splits if_splits)
  then have "fst upd \<noteq> None \<or> map_option Some (snd upd) \<noteq> None"
    by (auto simp: updateSchoolUser_check_def validate_update_def Let_def
        split: sum.splits option.splits if_splits roles_arg.splits)
  then show ?thesis using commit_raises_version [OF assms(1,2)] upd(2) by (simp add: updateSchoolUser_commit_def)
qed (use assms(3) in simp_all)

text \<open>C10: A change of a user's roles or activity revokes the user's tokens for good. Once such a request has
  succeeded, the guards refuse every token of that user with a version up to the one the user had, after any
  further requests, deletion of the user included, as long as no new user is given the same identifier.\<close>

theorem account_change_revokes_tokens:
  assumes "distinct (map ud_id (ac_users st))" and "user_by_id i st = Some u" and "changes_user i x"
    and "account_step H x st = (st1, Reply 200 [])"
    and "\<forall>y\<in>set reqs. fresh_id_of y \<noteq> Some i"
    and "cl_userId d = i" and "i \<noteq> []" and "cl_tokenVersion d \<le> ud_tokenVersion u"
  shows "checkSessionRevoked (lookup_user (run_accounts H reqs st1)) d = Some (401, ''SESSION_REVOKED'')"
proof -
  have "version_at_least i (ud_tokenVersion u + 1) (ac_users (run_accounts H reqs st1))"
    using admin_accounts.account_run [OF versions, of reqs i st1 H] assms(5)
      change_raises_version [OF assms(1-4)] by auto
  then have "ud_tokenVersion v \<noteq> cl_tokenVersion d" if "user_by_id i (run_accounts H reqs st1) = Some v" for v
    using that assms(8) find_Some_D [of "\<lambda>u. ud_id u = i"] by (fastforce simp: version_at_least_def user_by_id_def)
  then show ?thesis
    using assms(6,7) by (auto simp: checkSessionRevoked_def lookup_user_def or_text_def split: option.split)
qed

theorem account_change_revokes_tokens_witness:
  "checkSessionRevoked (lookup_user (run_accounts id [Set_password 0 ''t'' ''p'' ''h'']
      (fst (account_step id (Update_school_user ''S'' ''a'' ''S'' ''b'' (Roles [''staff'']) Undefined) sample_accounts))))
     (sample_claims\<lparr>cl_userId := ''b''\<rparr>) = Some (401, ''SESSION_REVOKED'')"
proof -
  let ?x = "Update_school_user ''S'' ''a'' ''S'' ''b'' (Roles [''staff'']) Undefined"
  let ?st = "fst (account_step id ?x sample_accounts)"
  have "account_step id ?x sample_accounts = (?st, Reply 200 [])"
    by (simp add: account_defs sample_accounts_def sample_user_def)
  from account_change_revokes_tokens [OF _ _ _ this, of "''b''" "sample_user ''b'' [''owner''] True"
      "[Set_password 0 ''t'' ''p'' ''h'']" "sample_claims\<lparr>cl_userId := ''b''\<rparr>"]
  show ?thesis by (simp add: sample_accounts_def sample_user_def user_by_id_def sample_claims_def)
qed

subsection \<open>Invitations and resets\<close>

text \<open>The reply to a request for a reset does not depend on the accounts, so it reveals no address.\<close>

lemma reset_request_reveals_nothing:
  "snd (requestPasswordReset H now fr b ip valid e st) = Reply 200 []"
  by (simp add: requestPasswordReset_def Let_def split: option.split)

text \<open>A password that is set or reset has at least twelve characters, and the token is spent: where no other user
  holds the same hash, it does not work again.\<close>

lemma find_update_first_gone:
  "length (filter Q xs) \<le> 1 \<Longrightarrow> find Q xs = Some y \<Longrightarrow> (\<And>x. K x \<longleftrightarrow> ud_id x = ud_id y) \<Longrightarrow> distinct (map ud_id xs)
     \<Longrightarrow> \<not> Q (f y) \<Longrightarrow> find Q (update_first K f xs) = None"
  for xs :: "user_doc list"
proof (induction xs)
  case (Cons x xs)
  show ?case
  proof (cases "Q x")
    case True
    with Cons.prems have "x = y" "filter Q xs = []" by auto
    then show ?thesis using Cons.prems by (simp add: find_None_filter)
  next
    case False
    with Cons.prems have "find Q xs = Some y" by simp
    moreover from this have "ud_id x \<noteq> ud_id y" using Cons.prems(4) find_Some_D [of Q xs y] by force
    ultimately show ?thesis using Cons False by simp
  qed
qed simp

lemma set_password_refused:
  "find (\<lambda>u. ud_invitationToken u = Some (H token)
       \<and> (case ud_invitationExpires u of None \<Rightarrow> False | Some e \<Rightarrow> now < e)) (ac_users st) = None
   \<Longrightarrow> snd (setPassword H now token pw h st) \<noteq> Reply 200 []"
  by (simp add: setPassword_def)

lemma set_password_once:
  assumes "snd (setPassword H now token pw h st) = Reply 200 []" and "distinct (map ud_id (ac_users st))"
    and "length (filter (\<lambda>u. ud_invitationToken u = Some (H token)) (ac_users st)) \<le> 1"
  shows "12 \<le> length pw \<and> snd (setPassword H now' token pw' h' (fst (setPassword H now token pw h st))) \<noteq> Reply 200 []"
proof -
  let ?Q = "\<lambda>t u. ud_invitationToken u = Some (H token) \<and> (case ud_invitationExpires u of None \<Rightarrow> False | Some e \<Rightarrow> t < e)"
  let ?f = "\<lambda>u. u\<lparr>ud_passwordHash := h, ud_isActive := Some True, ud_invitationToken := None, ud_invitationExpires := None\<rparr>"
  from assms(1) obtain user where user: "find (?Q now) (ac_users st) = Some user" and pw: "validatePassword pw"
    and st': "ac_users (fst (setPassword H now token pw h st)) = update_first (\<lambda>u. ud_id u = ud_id user) ?f (ac_users st)"
    by (auto simp: setPassword_def Let_def log_account_def update_user_def split: if_splits option.splits)
  have "find (\<lambda>u. ud_invitationToken u = Some (H token)) (ac_users st) = Some user"
  proof -
    have one: "find R xs = Some y" if "find Q' xs = Some y" "\<And>x. Q' x \<Longrightarrow> R x" "length (filter R xs) \<le> 1"
      for xs :: "user_doc list" and Q' R y
      using that
    proof (induction xs)
      case (Cons x xs)
      then show ?case using find_Some_D [of Q' xs y] by (auto simp: filter_empty_conv split: if_splits)
    qed simp
    show ?thesis by (rule one [OF user _ assms(3)]) simp
  qed
  from find_update_first_gone [OF assms(3) this _ assms(2), of "\<lambda>u. ud_id u = ud_id user" ?f]
  have "find (\<lambda>u. ud_invitationToken u = Some (H token)) (update_first (\<lambda>u. ud_id u = ud_id user) ?f (ac_users st)) = None"
    by simp
  then have "find (?Q now') (ac_users (fst (setPassword H now token pw h st))) = None"
    unfolding st' by (auto simp: find_None_iff)
  from set_password_refused [of H token now', OF this] pw show ?thesis by (simp add: validatePassword_def MIN_PASSWORD_LENGTH_def)
qed

lemma sample_address: "toLowerCase (trim ''n@x'') = ''n@x''"
  by code_simp

text \<open>Deactivating a user who has not yet accepted the invitation has no effect: the link still works for the rest of
  its seven days, and setting a password with it makes the account active.\<close>

theorem deactivated_invitation_still_activates:
  "let fr = \<lparr>fr_id = ''n'', fr_token = ''tok'', fr_hash = ''x''\<rparr>;
       st1 = fst (account_step id (Create_school_user 0 fr True ''S'' ''a'' ''S'' ''n@x'' (Roles [''owner''])) sample_accounts);
       out = account_step id (Update_school_user ''S'' ''a'' ''S'' ''n'' NoRoles (Strict False)) st1;
       st3 = fst (account_step id (Set_password 1000 ''tok'' ''correct horse'' ''h'') (fst out))
   in snd out = Reply 200 [] \<and> map_option ud_isActive (user_by_id ''n'' st3) = Some (Some True)"
  by (simp add: account_defs sample_accounts_def sample_user_def createSchoolUser_def invite_def invited_user_def
      dispatchEmail_def schoolRoles_def setPassword_def validatePassword_def MIN_PASSWORD_LENGTH_def SEVEN_DAYS_def
      sample_address Let_def)

end
