(* ===== verification/Mfa.thy ===== *)
theory Mfa
  imports User_Accounts Stellar_Memo
begin

section \<open>Second factors\<close>

text \<open>
  \<^verbatim>\<open>backend/src/controllers/mfaController.js\<close>: secrets encrypted at rest, backup codes and their attempts, and the
  endpoints that set a second factor up, enable it and disable it, for a school and for a user. The two
  kinds of documents share the fields that matter here; a school is named by its slug, a user by its
  identifier. Password hashing, the check of time-based codes, the cipher and the key derivation are
  parameters. Random bytes, salts and generated secrets are arguments.

  Shown: an encrypted secret is read back, a generated backup code is recognised however it is typed, a code
  is consumed once under any interleaving, and guessing codes is limited; and that a user's active factor
  can be replaced without a code, which the endpoint of schools refuses.
\<close>

subsection \<open>Libraries\<close>

record mfa_lib =
  ml_compare :: "string \<Rightarrow> string \<Rightarrow> bool"
  ml_hash :: "nat \<Rightarrow> string \<Rightarrow> string"
  ml_totp :: "millis \<Rightarrow> string \<Rightarrow> string \<Rightarrow> bool"
  ml_key :: "string \<Rightarrow> nat list"
  ml_encipher :: "nat list \<Rightarrow> nat list \<Rightarrow> string \<Rightarrow> nat list \<times> nat list"
  ml_decipher :: "nat list \<Rightarrow> nat list \<Rightarrow> nat list \<Rightarrow> nat list \<Rightarrow> string option"

text \<open>Documented: a password of at most 72 bytes matches the hashes made from it and from no other such password (longer
  ones are cut); the cipher yields bytes and a tag of 16
  bytes, and deciphering under the same key, initialisation vector and tag gives the plaintext back.\<close>

definition mfa_laws :: "mfa_lib \<Rightarrow> bool" where
  "mfa_laws L \<longleftrightarrow>
     (\<forall>p q salt. length p \<le> 72 \<and> length q \<le> 72 \<longrightarrow> (ml_compare L p (ml_hash L salt q) \<longleftrightarrow> p = q))
   \<and> (\<forall>k iv p. list_all (\<lambda>b. b < 256) (fst (ml_encipher L k iv p)) \<and> list_all (\<lambda>b. b < 256) (snd (ml_encipher L k iv p))
        \<and> length (snd (ml_encipher L k iv p)) = 16)
   \<and> (\<forall>k iv p. ml_decipher L k iv (snd (ml_encipher L k iv p)) (fst (ml_encipher L k iv p)) = Some p)"

subsection \<open>Secrets at rest\<close>

definition getMfaEncryptionKey :: "mfa_lib \<Rightarrow> string \<Rightarrow> (unit, nat list) result" where
  "getMfaEncryptionKey L master = (if master = [] then Inl () else Inr (ml_key L master))"

definition encryptMfaSecret :: "mfa_lib \<Rightarrow> string \<Rightarrow> nat list \<Rightarrow> string \<Rightarrow> (unit, string) result" where
  "encryptMfaSecret L master iv plaintext =
     (case getMfaEncryptionKey L master of
        Inl e \<Rightarrow> Inl e
      | Inr key \<Rightarrow> let (enc, tag) = ml_encipher L key iv plaintext in Inr (b64_encode (iv @ tag @ enc)))"

definition decryptMfaSecret :: "mfa_lib \<Rightarrow> string \<Rightarrow> string \<Rightarrow> (unit, string) result" where
  "decryptMfaSecret L master ciphertext =
     (case getMfaEncryptionKey L master of
        Inl e \<Rightarrow> Inl e
      | Inr key \<Rightarrow>
          let bytes = buffer_from_base64 ciphertext;
              iv = take 12 bytes; tag = take 16 (drop 12 bytes); enc = drop 28 bytes
          in case ml_decipher L key iv tag enc of None \<Rightarrow> Inl () | Some p \<Rightarrow> Inr p)"

subsection \<open>Backup codes\<close>

definition BACKUP_CODE_LENGTH :: nat where "BACKUP_CODE_LENGTH = 10"
definition BACKUP_CODE_ALPHABET :: string where "BACKUP_CODE_ALPHABET = ''0123456789ABCDEFGHJKMNPQRSTVWXYZ''"
definition BACKUP_CODE_MAX_ATTEMPTS :: nat where "BACKUP_CODE_MAX_ATTEMPTS = 5"
definition BACKUP_CODE_WINDOW_MS :: millis where "BACKUP_CODE_WINDOW_MS = 15 * 60 * 1000"
definition BACKUP_CODE_HASH_PREFIX :: string where "BACKUP_CODE_HASH_PREFIX = ''bcrypt$''"

record backup_entry =
  be_hash :: string
  be_used :: bool

type_synonym code_attempts = "string \<rightharpoonup> millis \<times> nat"

definition checkBackupCodeRateLimit :: "millis \<Rightarrow> string \<Rightarrow> code_attempts \<Rightarrow> code_attempts \<times> (millis, unit) result" where
  "checkBackupCodeRateLimit now key m =
     (case m key of
        None \<Rightarrow> (m(key \<mapsto> (now, 0)), Inr ())
      | Some (windowStart, n) \<Rightarrow>
          if now - windowStart > BACKUP_CODE_WINDOW_MS then (m(key \<mapsto> (now, 0)), Inr ())
          else if n \<ge> BACKUP_CODE_MAX_ATTEMPTS then (m, Inl (BACKUP_CODE_WINDOW_MS - (now - windowStart)))
          else (m, Inr ()))"

definition recordBackupCodeAttempt :: "millis \<Rightarrow> string \<Rightarrow> code_attempts \<Rightarrow> code_attempts" where
  "recordBackupCodeAttempt now key m =
     (case m key of
        None \<Rightarrow> m(key \<mapsto> (now, 1))
      | Some (windowStart, n) \<Rightarrow>
          if now - windowStart > BACKUP_CODE_WINDOW_MS then m(key \<mapsto> (now, 1)) else m(key \<mapsto> (windowStart, n + 1)))"

definition clearBackupCodeAttempts :: "string \<Rightarrow> code_attempts \<Rightarrow> code_attempts" where
  "clearBackupCodeAttempts key m = m(key := None)"

definition crockford :: "char \<Rightarrow> char" where
  "crockford c = (if c = CHR ''O'' then CHR ''0'' else if c = CHR ''I'' \<or> c = CHR ''L'' then CHR ''1'' else c)"

definition alnum_upper :: "char \<Rightarrow> bool" where
  "alnum_upper c \<longleftrightarrow> is_digit c \<or> (65 \<le> code c \<and> code c \<le> 90)"

definition normalizeBackupCode :: "string \<Rightarrow> string" where
  "normalizeBackupCode s = map crockford (filter alnum_upper (toUpperCase s))"

definition raw_code :: "nat list \<Rightarrow> string" where
  "raw_code bytes = map (\<lambda>b. BACKUP_CODE_ALPHABET ! (b mod length BACKUP_CODE_ALPHABET)) bytes"

definition format_code :: "string \<Rightarrow> string" where
  "format_code raw = take 5 raw @ CHR ''-'' # drop 5 raw"

text \<open>One list of ten random bytes for each of the ten codes.\<close>

definition generateBackupCodes :: "nat list list \<Rightarrow> string list" where
  "generateBackupCodes bs = map (\<lambda>bytes. format_code (raw_code bytes)) bs"

definition hashBackupCode :: "mfa_lib \<Rightarrow> nat \<Rightarrow> string \<Rightarrow> string" where
  "hashBackupCode L salt s = BACKUP_CODE_HASH_PREFIX @ ml_hash L salt (normalizeBackupCode s)"

definition hashBackupCodes :: "mfa_lib \<Rightarrow> nat list \<Rightarrow> string list \<Rightarrow> string list" where
  "hashBackupCodes L salts codes = map2 (hashBackupCode L) salts codes"

definition isLegacyBackupCodeHash :: "string \<Rightarrow> bool" where
  "isLegacyBackupCodeHash h \<longleftrightarrow> \<not> startsWith h BACKUP_CODE_HASH_PREFIX"

fun search_code :: "mfa_lib \<Rightarrow> string \<Rightarrow> nat \<Rightarrow> backup_entry list \<Rightarrow> nat option" where
  "search_code L normalized i [] = None"
| "search_code L normalized i (entry # es) =
     (if be_used entry \<or> isLegacyBackupCodeHash (be_hash entry) then search_code L normalized (i + 1) es
      else if ml_compare L normalized (drop (length BACKUP_CODE_HASH_PREFIX) (be_hash entry)) then Some i
      else search_code L normalized (i + 1) es)"

text \<open>An index, or \<^const>\<open>None\<close> for minus one.\<close>

definition findMatchingBackupCodeIndex :: "mfa_lib \<Rightarrow> backup_entry list \<Rightarrow> string \<Rightarrow> nat option" where
  "findMatchingBackupCodeIndex L entries s =
     (if entries = [] then None
      else let normalized = normalizeBackupCode s
           in if normalized = [] then None else search_code L normalized 0 entries)"

definition verifyTotpCode :: "mfa_lib \<Rightarrow> string \<Rightarrow> millis \<Rightarrow> string \<Rightarrow> string \<Rightarrow> bool" where
  "verifyTotpCode L master now encrypted token =
     (case decryptMfaSecret L master encrypted of Inl _ \<Rightarrow> False | Inr s \<Rightarrow> ml_totp L now s token)"

subsection \<open>Consuming a backup code\<close>

record mfa_holder =
  mh_key :: string
  mh_active :: bool
  mh_enabled :: bool
  mh_secret :: "string option"
  mh_codes :: "backup_entry list"

record 's mfa_state =
  ms_schools :: "mfa_holder list"
  ms_users :: "mfa_holder list"
  ms_attempts :: code_attempts
  ms_store :: "'s session_store"
  ms_audit :: "(string \<times> string) list"

datatype consume_outcome = Not_found | Rate_limited millis | Invalid | Ok

definition holder_of :: "string \<Rightarrow> mfa_holder list \<Rightarrow> mfa_holder option" where
  "holder_of key hs = find (\<lambda>h. mh_key h = key \<and> mh_active h) hs"

definition mfa_user :: "string \<Rightarrow> 's mfa_state \<Rightarrow> mfa_holder option" where
  "mfa_user userId st = find (\<lambda>h. mh_key h = userId) (ms_users st)"

text \<open>The atomic update: the element must still be unused. The filter for a school also asks that it is active, the one
  for a user does not.\<close>

definition mark_used :: "bool \<Rightarrow> string \<Rightarrow> nat \<Rightarrow> mfa_holder list \<Rightarrow> mfa_holder list \<times> bool" where
  "mark_used onlyActive key i hs =
     (let P = (\<lambda>h. mh_key h = key \<and> (onlyActive \<longrightarrow> mh_active h) \<and> i < length (mh_codes h) \<and> \<not> be_used (mh_codes h ! i))
      in (update_first P (\<lambda>h. h\<lparr>mh_codes := (mh_codes h)[i := (mh_codes h ! i)\<lparr>be_used := True\<rparr>]\<rparr>) hs, list_ex P hs))"

text \<open>The two parts of a consumption, between which other requests can come: \<open>Inl\<close> is an outcome, \<open>Inr\<close> the index.\<close>

definition consume_find ::
  "mfa_lib \<Rightarrow> millis \<Rightarrow> string \<Rightarrow> string \<Rightarrow> mfa_holder option \<Rightarrow> code_attempts \<Rightarrow> code_attempts \<times> (consume_outcome, nat) result" where
  "consume_find L now rateKey s holder m =
     (case holder of
        None \<Rightarrow> (m, Inl Not_found)
      | Some h \<Rightarrow>
          (case checkBackupCodeRateLimit now rateKey m of
             (m1, Inl wait) \<Rightarrow> (m1, Inl (Rate_limited wait))
           | (m1, Inr _) \<Rightarrow>
               (case findMatchingBackupCodeIndex L (mh_codes h) s of
                  None \<Rightarrow> (recordBackupCodeAttempt now rateKey m1, Inl Invalid)
                | Some i \<Rightarrow> (m1, Inr i))))"

definition consume_mark ::
  "bool \<Rightarrow> millis \<Rightarrow> string \<Rightarrow> string \<Rightarrow> nat \<Rightarrow> mfa_holder list \<Rightarrow> code_attempts \<Rightarrow> mfa_holder list \<times> code_attempts \<times> consume_outcome" where
  "consume_mark onlyActive now rateKey key i hs m =
     (let (hs', hit) = mark_used onlyActive key i hs
      in if hit then (hs', clearBackupCodeAttempts rateKey m, Ok)
         else (hs', recordBackupCodeAttempt now rateKey m, Invalid))"

definition consumeSchoolBackupCode :: "mfa_lib \<Rightarrow> millis \<Rightarrow> string \<Rightarrow> string \<Rightarrow> 's mfa_state \<Rightarrow> 's mfa_state \<times> consume_outcome" where
  "consumeSchoolBackupCode L now slug s st =
     (case consume_find L now (''school:'' @ slug) s (holder_of slug (ms_schools st)) (ms_attempts st) of
        (m, Inl r) \<Rightarrow> (st\<lparr>ms_attempts := m\<rparr>, r)
      | (m, Inr i) \<Rightarrow>
          let (hs, m', r) = consume_mark True now (''school:'' @ slug) slug i (ms_schools st) m
          in (st\<lparr>ms_schools := hs, ms_attempts := m'\<rparr>, r))"

definition consumeUserBackupCode :: "mfa_lib \<Rightarrow> millis \<Rightarrow> string \<Rightarrow> string \<Rightarrow> 's mfa_state \<Rightarrow> 's mfa_state \<times> consume_outcome" where
  "consumeUserBackupCode L now userId s st =
     (case consume_find L now (''user:'' @ userId) s (mfa_user userId st) (ms_attempts st) of
        (m, Inl r) \<Rightarrow> (st\<lparr>ms_attempts := m\<rparr>, r)
      | (m, Inr i) \<Rightarrow>
          let (hs, m', r) = consume_mark False now (''user:'' @ userId) userId i (ms_users st) m
          in (st\<lparr>ms_users := hs, ms_attempts := m'\<rparr>, r))"

subsection \<open>Endpoints for a school\<close>

text \<open>What a setup draws at random: the secret, an initialisation vector, the bytes of the codes and their salts.\<close>

record mfa_fresh =
  mf_secret :: string
  mf_iv :: "nat list"
  mf_bytes :: "nat list list"
  mf_salts :: "nat list"

definition new_codes :: "mfa_lib \<Rightarrow> mfa_fresh \<Rightarrow> backup_entry list" where
  "new_codes L fr = map (\<lambda>h. \<lparr>be_hash = h, be_used = False\<rparr>) (hashBackupCodes L (mf_salts fr) (generateBackupCodes (mf_bytes fr)))"

definition set_school :: "(mfa_holder \<Rightarrow> bool) \<Rightarrow> (mfa_holder \<Rightarrow> mfa_holder) \<Rightarrow> string \<Rightarrow> string \<Rightarrow> 's mfa_state \<Rightarrow> 's mfa_state" where
  "set_school P f action target st =
     st\<lparr>ms_schools := update_first P f (ms_schools st), ms_audit := ms_audit st @ [(action, target)]\<rparr>"

definition setupMfa :: "mfa_lib \<Rightarrow> string \<Rightarrow> mfa_fresh \<Rightarrow> string \<Rightarrow> 's mfa_state \<Rightarrow> 's mfa_state \<times> account_reply" where
  "setupMfa L master fr slug st =
     (if slug = [] then (st, Reply 400 ''MISSING_SCHOOL_SLUG'')
      else case holder_of slug (ms_schools st) of
        None \<Rightarrow> (st, Reply 404 ''SCHOOL_NOT_FOUND'')
      | Some school \<Rightarrow>
          if mh_enabled school then (st, Reply 400 ''MFA_ALREADY_ACTIVE'')
          else case encryptMfaSecret L master (mf_iv fr) (mf_secret fr) of
            Inl _ \<Rightarrow> (st, Reply 500 ''MFA_SETUP_ERROR'')
          | Inr sealed \<Rightarrow>
              (set_school (\<lambda>h. mh_key h = slug \<and> mh_active h)
                 (\<lambda>h. h\<lparr>mh_secret := Some sealed, mh_codes := new_codes L fr\<rparr>) ''MFA_SECRET_GENERATED'' slug st,
               Reply 200 []))"

text \<open>The secret to verify against: the one in the body, or the stored one; \<open>Inl\<close> is a failed decryption.\<close>

definition verify_secret :: "mfa_lib \<Rightarrow> string \<Rightarrow> string \<Rightarrow> string option \<Rightarrow> (unit, string) result" where
  "verify_secret L master bodySecret stored =
     (if bodySecret \<noteq> [] then Inr bodySecret
      else case stored of None \<Rightarrow> Inr [] | Some c \<Rightarrow> if c = [] then Inr [] else decryptMfaSecret L master c)"

definition verifyAndEnableMfa ::
  "mfa_lib \<Rightarrow> string \<Rightarrow> millis \<Rightarrow> nat list \<Rightarrow> string \<Rightarrow> string \<Rightarrow> string \<Rightarrow> 's mfa_state \<Rightarrow> 's mfa_state \<times> account_reply" where
  "verifyAndEnableMfa L master now iv slug bodySecret totp st =
     (if slug = [] then (st, Reply 400 ''MISSING_SCHOOL_SLUG'')
      else if totp = [] then (st, Reply 400 ''MISSING_MFA_CODE'')
      else case holder_of slug (ms_schools st) of
        None \<Rightarrow> (st, Reply 404 ''SCHOOL_NOT_FOUND'')
      | Some school \<Rightarrow>
          (case verify_secret L master bodySecret (mh_secret school) of
             Inl _ \<Rightarrow> (st, Reply 500 ''MFA_ENABLE_ERROR'')
           | Inr s \<Rightarrow>
               if s = [] then (st, Reply 400 ''MFA_NOT_SETUP'')
               else if \<not> ml_totp L now s totp then (st, Reply 400 ''INVALID_MFA_CODE'')
               else case encryptMfaSecret L master iv s of
                   Inl _ \<Rightarrow> (st, Reply 500 ''MFA_ENABLE_ERROR'')
                 | Inr sealed \<Rightarrow>
                     (set_school (\<lambda>h. mh_key h = slug) (\<lambda>h. h\<lparr>mh_enabled := True, mh_secret := Some sealed\<rparr>)
                        ''MFA_ENABLED'' slug st, Reply 200 [])))"

definition secret_set :: "string option \<Rightarrow> bool" where
  "secret_set s \<longleftrightarrow> s \<noteq> None \<and> s \<noteq> Some []"

definition disableMfa :: "mfa_lib \<Rightarrow> string \<Rightarrow> millis \<Rightarrow> string \<Rightarrow> string \<Rightarrow> 's mfa_state \<Rightarrow> 's mfa_state \<times> account_reply" where
  "disableMfa L master now slug totp st =
     (if slug = [] then (st, Reply 400 ''MISSING_SCHOOL_SLUG'')
      else if totp = [] then (st, Reply 400 ''MISSING_MFA_CODE'')
      else case holder_of slug (ms_schools st) of
        None \<Rightarrow> (st, Reply 404 ''SCHOOL_NOT_FOUND'')
      | Some school \<Rightarrow>
          if \<not> secret_set (mh_secret school) then (st, Reply 400 ''MFA_NOT_CONFIGURED'')
          else case decryptMfaSecret L master (the (mh_secret school)) of
            Inl _ \<Rightarrow> (st, Reply 500 ''MFA_DISABLE_ERROR'')
          | Inr s \<Rightarrow>
              if \<not> ml_totp L now s totp then (st, Reply 400 ''INVALID_MFA_CODE'')
              else (set_school (\<lambda>h. mh_key h = slug) (\<lambda>h. h\<lparr>mh_enabled := False, mh_secret := None, mh_codes := []\<rparr>)
                      ''MFA_DISABLED'' slug st, Reply 200 []))"

text \<open>The password check of the regeneration: a hash in the environment, or a password compared in constant
  time, which throws for another length (\<open>Inl\<close>), or none.\<close>

definition step_up_password :: "mfa_lib \<Rightarrow> string \<Rightarrow> string \<Rightarrow> string \<Rightarrow> (unit, bool) result" where
  "step_up_password L envHash envPassword password =
     (if envHash \<noteq> [] then Inr (ml_compare L password envHash)
      else if envPassword \<noteq> []
      then if length password \<noteq> length envPassword then Inl () else Inr (password = envPassword)
      else Inr False)"

definition commit_codes :: "mfa_lib \<Rightarrow> mfa_fresh \<Rightarrow> string \<Rightarrow> 's mfa_state \<Rightarrow> 's mfa_state \<times> account_reply" where
  "commit_codes L fr slug st =
     (set_school (\<lambda>h. mh_key h = slug) (\<lambda>h. h\<lparr>mh_codes := new_codes L fr\<rparr>) ''MFA_BACKUP_CODES_REGENERATED'' slug st,
      Reply 200 [])"

definition regenerateBackupCodes ::
  "mfa_lib \<Rightarrow> string \<Rightarrow> string \<Rightarrow> string \<Rightarrow> millis \<Rightarrow> mfa_fresh \<Rightarrow> string \<Rightarrow> string \<Rightarrow> string \<Rightarrow> 's mfa_state \<Rightarrow> 's mfa_state \<times> account_reply" where
  "regenerateBackupCodes L master envHash envPassword now fr slug totp password st =
     (if slug = [] then (st, Reply 400 ''MISSING_SCHOOL_SLUG'')
      else case holder_of slug (ms_schools st) of
        None \<Rightarrow> (st, Reply 404 ''SCHOOL_NOT_FOUND'')
      | Some school \<Rightarrow>
          if totp \<noteq> [] then
            if \<not> secret_set (mh_secret school) then (st, Reply 400 ''MFA_NOT_CONFIGURED'')
            else case decryptMfaSecret L master (the (mh_secret school)) of
              Inl _ \<Rightarrow> (st, Reply 500 ''MFA_REGENERATE_ERROR'')
            | Inr s \<Rightarrow> if ml_totp L now s totp then commit_codes L fr slug st else (st, Reply 401 ''INVALID_MFA_CODE'')
          else if password \<noteq> [] then
            case step_up_password L envHash envPassword password of
              Inl _ \<Rightarrow> (st, Reply 500 ''MFA_REGENERATE_ERROR'')
            | Inr ok \<Rightarrow> if ok then commit_codes L fr slug st else (st, Reply 401 ''INVALID_PASSWORD'')
          else (st, Reply 400 ''VERIFICATION_REQUIRED''))"

subsection \<open>Endpoints for a user\<close>

definition set_mfa_user :: "string \<Rightarrow> (mfa_holder \<Rightarrow> mfa_holder) \<Rightarrow> string \<Rightarrow> 's mfa_state \<Rightarrow> 's mfa_state" where
  "set_mfa_user userId f action st =
     st\<lparr>ms_users := update_first (\<lambda>h. mh_key h = userId) f (ms_users st), ms_audit := ms_audit st @ [(action, userId)]\<rparr>"

definition no_user_mfa :: "string \<Rightarrow> bool" where
  "no_user_mfa userId \<longleftrightarrow> userId = [] \<or> userId = ''super_admin''"

definition setupUserMfa :: "mfa_lib \<Rightarrow> string \<Rightarrow> mfa_fresh \<Rightarrow> string \<Rightarrow> 's mfa_state \<Rightarrow> 's mfa_state \<times> account_reply" where
  "setupUserMfa L master fr userId st =
     (if no_user_mfa userId then (st, Reply 403 ''MFA_NOT_AVAILABLE'')
      else case mfa_user userId st of
        None \<Rightarrow> (st, Reply 404 ''USER_NOT_FOUND'')
      | Some user \<Rightarrow>
          (case encryptMfaSecret L master (mf_iv fr) (mf_secret fr) of
             Inl _ \<Rightarrow> (st, Reply 500 ''MFA_SETUP_ERROR'')
           | Inr sealed \<Rightarrow>
               (set_mfa_user userId (\<lambda>h. h\<lparr>mh_secret := Some sealed, mh_codes := new_codes L fr\<rparr>) ''USER_MFA_SETUP_INITIATED'' st,
                Reply 200 [])))"

text \<open>
  A caller whose token says that the setup is pending and who sends a refresh cookie makes the handler call
  \<^verbatim>\<open>getToken\<close>, which the session store does not have; the error is caught after the factor was enabled.
\<close>

definition verifyAndEnableUserMfa ::
  "mfa_lib \<Rightarrow> string \<Rightarrow> millis \<Rightarrow> nat list \<Rightarrow> string \<Rightarrow> bool \<Rightarrow> string \<Rightarrow> string \<Rightarrow> string \<Rightarrow> 's mfa_state \<Rightarrow> 's mfa_state \<times> account_reply" where
  "verifyAndEnableUserMfa L master now iv userId setupPending refreshCookie bodySecret totp st =
     (if no_user_mfa userId then (st, Reply 403 ''MFA_NOT_AVAILABLE'')
      else if totp = [] then (st, Reply 400 ''MISSING_MFA_CODE'')
      else case mfa_user userId st of
        None \<Rightarrow> (st, Reply 404 ''USER_NOT_FOUND'')
      | Some user \<Rightarrow>
          (case verify_secret L master bodySecret (mh_secret user) of
             Inl _ \<Rightarrow> (st, Reply 500 ''MFA_ENABLE_ERROR'')
           | Inr s \<Rightarrow>
               if s = [] then (st, Reply 400 ''MFA_NOT_SETUP'')
               else if \<not> ml_totp L now s totp then (st, Reply 400 ''INVALID_MFA_CODE'')
               else case encryptMfaSecret L master iv s of
                   Inl _ \<Rightarrow> (st, Reply 500 ''MFA_ENABLE_ERROR'')
                 | Inr sealed \<Rightarrow>
                     (set_mfa_user userId (\<lambda>h. h\<lparr>mh_enabled := True, mh_secret := Some sealed\<rparr>) ''USER_MFA_ENABLED'' st,
                      if setupPending \<and> refreshCookie \<noteq> [] then Reply 500 ''MFA_ENABLE_ERROR'' else Reply 200 [])))"

definition disableUserMfa :: "mfa_lib \<Rightarrow> string \<Rightarrow> millis \<Rightarrow> string \<Rightarrow> string \<Rightarrow> 's mfa_state \<Rightarrow> 's mfa_state \<times> account_reply" where
  "disableUserMfa L master now userId totp st =
     (if no_user_mfa userId then (st, Reply 403 ''MFA_NOT_AVAILABLE'')
      else if totp = [] then (st, Reply 400 ''MISSING_MFA_CODE'')
      else case mfa_user userId st of
        None \<Rightarrow> (st, Reply 404 ''USER_NOT_FOUND'')
      | Some user \<Rightarrow>
          if \<not> secret_set (mh_secret user) then (st, Reply 400 ''MFA_NOT_CONFIGURED'')
          else case decryptMfaSecret L master (the (mh_secret user)) of
            Inl _ \<Rightarrow> (st, Reply 500 ''MFA_DISABLE_ERROR'')
          | Inr s \<Rightarrow>
              if \<not> ml_totp L now s totp then (st, Reply 400 ''INVALID_MFA_CODE'')
              else let st1 = set_mfa_user userId (\<lambda>h. h\<lparr>mh_enabled := False, mh_secret := None, mh_codes := []\<rparr>) ''USER_MFA_DISABLED'' st
                   in (st1\<lparr>ms_store := fst (revokeAllUserSessions userId (ms_store st1))\<rparr>, Reply 200 []))"

subsection \<open>Secrets and codes are read back\<close>

lemma buffer_from_b64_encode: "list_all (\<lambda>b. b < 256) bs \<Longrightarrow> buffer_from_base64 (b64_encode bs) = bs"
proof -
  assume "list_all (\<lambda>b. b < 256) bs"
  then obtain body pad where "b64_split bs body pad" using b64_split_exists by blast
  then show ?thesis
    using takeWhile_body(1) [of body pad] by (auto simp: buffer_from_base64_def b64_split_def)
qed

lemma mfa_secret_roundtrip:
  assumes "mfa_laws L" "length iv = 12" "list_all (\<lambda>b. b < 256) iv" "encryptMfaSecret L master iv p = Inr c"
  shows "decryptMfaSecret L master c = Inr p"
proof -
  from assms(4) obtain key where key: "getMfaEncryptionKey L master = Inr key"
    and c: "c = b64_encode (iv @ snd (ml_encipher L key iv p) @ fst (ml_encipher L key iv p))"
    by (auto simp: encryptMfaSecret_def case_prod_beta split: sum.splits)
  have "buffer_from_base64 c = iv @ snd (ml_encipher L key iv p) @ fst (ml_encipher L key iv p)"
    using assms(1,3) unfolding c by (intro buffer_from_b64_encode) (simp add: mfa_laws_def)
  moreover have "length (snd (ml_encipher L key iv p)) = 16"
      "ml_decipher L key iv (snd (ml_encipher L key iv p)) (fst (ml_encipher L key iv p)) = Some p"
    using assms(1) by (simp_all add: mfa_laws_def)
  ultimately show ?thesis using key assms(2) by (simp add: decryptMfaSecret_def Let_def)
qed

text \<open>The alphabet of the codes is kept by the normalisation, which drops the dash.\<close>

lemma alphabet_kept:
  "list_all (\<lambda>c. alnum_upper (upcase c) \<and> crockford (upcase c) = c) BACKUP_CODE_ALPHABET"
  unfolding BACKUP_CODE_ALPHABET_def by code_simp

lemma alphabet_char: "alnum_upper (upcase (BACKUP_CODE_ALPHABET ! (b mod length BACKUP_CODE_ALPHABET)))
    \<and> crockford (upcase (BACKUP_CODE_ALPHABET ! (b mod length BACKUP_CODE_ALPHABET)))
        = BACKUP_CODE_ALPHABET ! (b mod length BACKUP_CODE_ALPHABET)"
proof -
  have "b mod length BACKUP_CODE_ALPHABET < length BACKUP_CODE_ALPHABET"
    by (rule mod_less_divisor) (simp add: BACKUP_CODE_ALPHABET_def)
  then show ?thesis using alphabet_kept by (simp add: list_all_length)
qed

lemma normalize_append: "normalizeBackupCode (s @ t) = normalizeBackupCode s @ normalizeBackupCode t"
  by (simp add: normalizeBackupCode_def toUpperCase_def)

lemma normalize_raw: "normalizeBackupCode (raw_code bs) = raw_code bs"
  by (induction bs) (simp_all add: normalizeBackupCode_def toUpperCase_def raw_code_def alphabet_char)

lemma normalize_dash: "normalizeBackupCode (CHR ''-'' # s) = normalizeBackupCode s"
proof -
  have "normalizeBackupCode ''-'' = []" by code_simp
  then show ?thesis using normalize_append [of "''-''" s] by simp
qed

lemma normalize_format: "normalizeBackupCode (format_code (raw_code bs)) = raw_code bs"
proof -
  have "normalizeBackupCode (format_code (raw_code bs)) = normalizeBackupCode (take 5 (raw_code bs) @ drop 5 (raw_code bs))"
    by (simp only: format_code_def normalize_append normalize_dash)
  then show ?thesis by (simp add: normalize_raw)
qed

lemma prefixed_hash: "\<not> isLegacyBackupCodeHash (BACKUP_CODE_HASH_PREFIX @ h)
    \<and> drop (length BACKUP_CODE_HASH_PREFIX) (BACKUP_CODE_HASH_PREFIX @ h) = h"
  by (simp add: isLegacyBackupCodeHash_def BACKUP_CODE_HASH_PREFIX_def)

lemma search_hashed:
  assumes "mfa_laws L" "length salts = length cs"
    and short: "list_all (\<lambda>c. length (normalizeBackupCode c) \<le> 72) cs" "length n \<le> 72"
  shows "(n \<notin> set (map normalizeBackupCode cs) \<longrightarrow>
            search_code L n k (map (\<lambda>h. \<lparr>be_hash = h, be_used = False\<rparr>) (hashBackupCodes L salts cs)) = None)
       \<and> (\<forall>i<length cs. distinct (map normalizeBackupCode cs) \<and> normalizeBackupCode (cs ! i) = n \<longrightarrow>
            search_code L n k (map (\<lambda>h. \<lparr>be_hash = h, be_used = False\<rparr>) (hashBackupCodes L salts cs)) = Some (k + i))"
  using assms(2,3)
proof (induction salts cs arbitrary: k rule: list_induct2)
  case (Cons salt salts c cs)
  let ?es = "map (\<lambda>h. \<lparr>be_hash = h, be_used = False\<rparr>) (hashBackupCodes L salts cs)"
  have first: "search_code L n k (map (\<lambda>h. \<lparr>be_hash = h, be_used = False\<rparr>) (hashBackupCodes L (salt # salts) (c # cs)))
      = (if n = normalizeBackupCode c then Some k else search_code L n (k + 1) ?es)"
    using assms(1) Cons.prems short(2) prefixed_hash by (simp add: hashBackupCodes_def hashBackupCode_def mfa_laws_def)
  show ?case
  proof (intro conjI allI impI)
    assume "n \<notin> set (map normalizeBackupCode (c # cs))"
    then show "search_code L n k (map (\<lambda>h. \<lparr>be_hash = h, be_used = False\<rparr>) (hashBackupCodes L (salt # salts) (c # cs))) = None"
      using Cons.IH [of "k + 1"] Cons.prems unfolding first by simp
  next
    fix i
    assume i: "i < length (c # cs)"
      and found: "distinct (map normalizeBackupCode (c # cs)) \<and> normalizeBackupCode ((c # cs) ! i) = n"
    show "search_code L n k (map (\<lambda>h. \<lparr>be_hash = h, be_used = False\<rparr>) (hashBackupCodes L (salt # salts) (c # cs))) = Some (k + i)"
    proof (cases i)
      case 0
      with found show ?thesis unfolding first by simp
    next
      case (Suc j)
      with i found have "normalizeBackupCode (cs ! j) = n" "cs ! j \<in> set cs" by simp_all
      with found have "n \<noteq> normalizeBackupCode c" by (auto simp: image_iff)
      then show ?thesis using Cons.IH [of "k + 1"] Cons.prems i found Suc unfolding first by simp
    qed
  qed
qed (simp add: hashBackupCodes_def)

lemma length_raw: "length (raw_code bs) = length bs"
  by (simp add: raw_code_def)

text \<open>Backup codes and secrets survive storage. Among freshly generated codes without repetition, each is found at
  its place however the user types it, in any case, with or without separators and with O, I and L for
  zero and one; any text (of up to 72 letters and digits) that is not one of the codes is rejected. An encrypted secret is read back.\<close>

theorem mfa_storage_roundtrip:
  assumes "mfa_laws L" and "length (mf_salts fr) = length (mf_bytes fr)" and "distinct (map raw_code (mf_bytes fr))"
    and "list_all (\<lambda>bs. length bs = BACKUP_CODE_LENGTH) (mf_bytes fr)" and "length iv = 12" and "list_all (\<lambda>b. b < 256) iv"
  shows "(\<forall>i<length (mf_bytes fr). \<forall>s. normalizeBackupCode s = normalizeBackupCode (generateBackupCodes (mf_bytes fr) ! i)
            \<longrightarrow> findMatchingBackupCodeIndex L (new_codes L fr) s = Some i)
       \<and> (\<forall>s. length (normalizeBackupCode s) \<le> 72 \<and> normalizeBackupCode s \<notin> set (map normalizeBackupCode (generateBackupCodes (mf_bytes fr)))
            \<longrightarrow> findMatchingBackupCodeIndex L (new_codes L fr) s = None)
       \<and> (\<forall>c. encryptMfaSecret L master iv p = Inr c \<longrightarrow> decryptMfaSecret L master c = Inr p)"
proof -
  let ?cs = "generateBackupCodes (mf_bytes fr)"
  have norm: "map normalizeBackupCode ?cs = map raw_code (mf_bytes fr)"
    by (simp add: generateBackupCodes_def normalize_format)
  have len: "length (mf_salts fr) = length ?cs" using assms(2) by (simp add: generateBackupCodes_def)
  have short: "list_all (\<lambda>c. length (normalizeBackupCode c) \<le> 72) ?cs"
    using assms(4) by (simp add: generateBackupCodes_def normalize_format list_all_iff BACKUP_CODE_LENGTH_def length_raw)
  note found = search_hashed [OF assms(1) len short, of _ 0]
  have "findMatchingBackupCodeIndex L (new_codes L fr) s = Some i"
    if "i < length (mf_bytes fr)" "normalizeBackupCode s = normalizeBackupCode (?cs ! i)" for i s
  proof -
    have raw: "normalizeBackupCode s = raw_code (mf_bytes fr ! i)"
      using that by (simp add: generateBackupCodes_def normalize_format)
    moreover have ten: "length (raw_code (mf_bytes fr ! i)) = 10"
      using assms(4) that(1) by (simp add: list_all_length raw_code_def BACKUP_CODE_LENGTH_def)
    moreover have "new_codes L fr \<noteq> []"
      using that(1) len by (auto simp: new_codes_def hashBackupCodes_def generateBackupCodes_def zip_eq_Nil_iff)
    moreover have "search_code L (normalizeBackupCode s) 0 (new_codes L fr) = Some i"
    proof -
      have "i < length ?cs" "distinct (map normalizeBackupCode ?cs)"
        using that(1) assms(3) norm by (simp_all add: generateBackupCodes_def normalize_format o_def)
      moreover have "length (normalizeBackupCode s) \<le> 72" using raw ten by simp
      ultimately show ?thesis using found [of "normalizeBackupCode s"] that(2) by (simp add: new_codes_def)
    qed
    ultimately show ?thesis by (auto simp: findMatchingBackupCodeIndex_def Let_def)
  qed
  moreover have "findMatchingBackupCodeIndex L (new_codes L fr) s = None"
    if "length (normalizeBackupCode s) \<le> 72" "normalizeBackupCode s \<notin> set (map normalizeBackupCode ?cs)" for s
    using found [of "normalizeBackupCode s"] that by (simp add: findMatchingBackupCodeIndex_def new_codes_def Let_def)
  ultimately show ?thesis using mfa_secret_roundtrip [OF assms(1,5,6)] by blast
qed

subsection \<open>A code is consumed once\<close>

definition spent :: "string \<Rightarrow> nat \<Rightarrow> mfa_holder list \<Rightarrow> bool" where
  "spent key i hs \<longleftrightarrow> (\<forall>h\<in>set hs. mh_key h = key \<longrightarrow> i < length (mh_codes h) \<longrightarrow> be_used (mh_codes h ! i))"

lemma mark_used_keys: "map mh_key (fst (mark_used b key i hs)) = map mh_key hs"
  by (simp add: mark_used_def Let_def map_update_first)

lemma spent_mark: "spent key i hs \<Longrightarrow> spent key i (fst (mark_used b key' j hs))"
  unfolding spent_def mark_used_def Let_def fst_conv
  using set_update_first [of _ "\<lambda>h. mh_key h = key' \<and> (b \<longrightarrow> mh_active h) \<and> j < length (mh_codes h) \<and> \<not> be_used (mh_codes h ! j)"]
  by (fastforce simp: nth_list_update)

lemma spent_no_hit: "spent key i hs \<Longrightarrow> \<not> snd (mark_used b key i hs)"
  by (auto simp: spent_def mark_used_def Let_def list_ex_iff)

lemma hit_spends:
  assumes "distinct (map mh_key hs)" "snd (mark_used b key i hs)"
  shows "spent key i (fst (mark_used b key i hs))"
  using assms
proof (induction hs)
  case (Cons h hs)
  let ?P = "\<lambda>h. mh_key h = key \<and> (b \<longrightarrow> mh_active h) \<and> i < length (mh_codes h) \<and> \<not> be_used (mh_codes h ! i)"
  show ?case
  proof (cases "?P h")
    case True
    then have "mh_key h' \<noteq> key" if "h' \<in> set hs" for h'
      using distinct_key_other [OF Cons.prems(1) that] by simp
    with True show ?thesis by (auto simp: mark_used_def spent_def Let_def)
  next
    case False
    then have hit: "snd (mark_used b key i hs)" and rest: "fst (mark_used b key i (h # hs)) = h # fst (mark_used b key i hs)"
      using Cons.prems(2) by (auto simp: mark_used_def Let_def)
    from hit obtain h' where "h' \<in> set hs" "mh_key h' = key" by (auto simp: mark_used_def Let_def list_ex_iff)
    then have "mh_key h \<noteq> key" using distinct_key_other [OF Cons.prems(1)] by metis
    with Cons hit show ?thesis unfolding rest by (simp add: spent_def)
  qed
qed (simp add: mark_used_def)

definition mark_step :: "bool \<Rightarrow> string \<times> nat \<Rightarrow> mfa_holder list \<Rightarrow> mfa_holder list \<times> bool" where
  "mark_step b ki hs = mark_used b (fst ki) (snd ki) hs"

lemma marks_spent:
  "spent key i hs \<Longrightarrow> j < length ops \<Longrightarrow> ops ! j = (key, i) \<Longrightarrow> \<not> snd (trace (mark_step b) ops hs) ! j"
proof (induction ops arbitrary: hs j)
  case (Cons x ops)
  show ?case
  proof (cases j)
    case 0
    then show ?thesis using Cons.prems spent_no_hit by (simp add: mark_step_def case_prod_beta Let_def)
  next
    case (Suc j')
    have "spent key i (fst (mark_step b x hs))" unfolding mark_step_def by (rule spent_mark [OF Cons.prems(1)])
    from Cons.IH [OF this, of j'] Cons.prems Suc show ?thesis by (simp add: case_prod_beta Let_def)
  qed
qed simp

text \<open>A backup code works once, however requests interleave. Among any sequence of attempts to mark codes of any
  holders as used, where no two holders share a key, at most one attempt succeeds for each code.\<close>

theorem backup_code_single_use:
  assumes "distinct (map mh_key hs)" and "j < j'" and "j' < length ops" and "ops ! j = ops ! j'"
    and "snd (trace (mark_step b) ops hs) ! j"
  shows "\<not> snd (trace (mark_step b) ops hs) ! j'"
  using assms
proof (induction ops arbitrary: hs j j')
  case (Cons x ops)
  then obtain k where k: "j' = Suc k" by (cases j') auto
  let ?hs = "fst (mark_step b x hs)"
  have distinct: "distinct (map mh_key ?hs)" using Cons.prems(1) by (simp add: mark_step_def mark_used_keys)
  show ?case
  proof (cases j)
    case 0
    then have "snd (mark_used b (fst x) (snd x) hs)" using Cons.prems(5) by (simp add: mark_step_def case_prod_beta Let_def)
    from hit_spends [OF Cons.prems(1) this] have "spent (fst x) (snd x) ?hs" by (simp add: mark_step_def)
    from marks_spent [OF this, of k ops] Cons.prems 0 k show ?thesis by (simp add: case_prod_beta Let_def)
  next
    case (Suc i)
    from Cons.IH [OF distinct, of i k] Cons.prems Suc k show ?thesis by (simp add: case_prod_beta Let_def)
  qed
qed simp

subsection \<open>Guessing codes\<close>

definition guess_step :: "mfa_lib \<Rightarrow> string \<Rightarrow> millis \<times> string \<Rightarrow> 's mfa_state \<Rightarrow> 's mfa_state \<times> consume_outcome" where
  "guess_step L userId ts st = consumeUserBackupCode L (fst ts) userId (snd ts) st"

lemma mfa_user_attempts [simp]: "mfa_user u (st\<lparr>ms_attempts := m\<rparr>) = mfa_user u st"
  by (simp add: mfa_user_def)

lemma wrong_guess:
  assumes "mfa_user userId st = Some h" "findMatchingBackupCodeIndex L (mh_codes h) s = None"
    and "ms_attempts st (''user:'' @ userId) = Some (t0, n)" "t - t0 \<le> BACKUP_CODE_WINDOW_MS"
  shows "guess_step L userId (t, s) st =
     (if n \<ge> BACKUP_CODE_MAX_ATTEMPTS then (st, Rate_limited (BACKUP_CODE_WINDOW_MS - (t - t0)))
      else (st\<lparr>ms_attempts := (ms_attempts st)(''user:'' @ userId \<mapsto> (t0, n + 1))\<rparr>, Invalid))"
  using assms by (auto simp: guess_step_def consumeUserBackupCode_def consume_find_def checkBackupCodeRateLimit_def
      recordBackupCodeAttempt_def)

lemma wrong_guesses:
  assumes "\<And>t s. (t, s) \<in> set gs \<Longrightarrow> t - t0 \<le> BACKUP_CODE_WINDOW_MS \<and> findMatchingBackupCodeIndex L (mh_codes h) s = None"
    and "mfa_user userId st = Some h"
    and "ms_attempts st (''user:'' @ userId) = Some (t0, n)"
  shows "snd (trace (guess_step L userId) gs st) =
      replicate (min (BACKUP_CODE_MAX_ATTEMPTS - n) (length gs)) Invalid
      @ map (\<lambda>(t, _). Rate_limited (BACKUP_CODE_WINDOW_MS - (t - t0))) (drop (BACKUP_CODE_MAX_ATTEMPTS - n) gs)"
  using assms
proof (induction gs arbitrary: n st)
  case (Cons g gs)
  obtain t s where g: "g = (t, s)" by (cases g)
  have step: "guess_step L userId (t, s) st =
     (if n \<ge> BACKUP_CODE_MAX_ATTEMPTS then (st, Rate_limited (BACKUP_CODE_WINDOW_MS - (t - t0)))
      else (st\<lparr>ms_attempts := (ms_attempts st)(''user:'' @ userId \<mapsto> (t0, n + 1))\<rparr>, Invalid))"
    using Cons.prems(1) [of t s] by (intro wrong_guess [OF Cons.prems(2) _ Cons.prems(3)]) (simp_all add: g)
  have tail: "t - t0 \<le> BACKUP_CODE_WINDOW_MS \<and> findMatchingBackupCodeIndex L (mh_codes h) s = None"
    if "(t, s) \<in> set gs" for t s
    by (rule Cons.prems(1)) (simp add: that)
  show ?case
  proof (cases "n \<ge> BACKUP_CODE_MAX_ATTEMPTS")
    case True
    have "snd (trace (guess_step L userId) gs st) =
      replicate (min (BACKUP_CODE_MAX_ATTEMPTS - n) (length gs)) Invalid
      @ map (\<lambda>(t, _). Rate_limited (BACKUP_CODE_WINDOW_MS - (t - t0))) (drop (BACKUP_CODE_MAX_ATTEMPTS - n) gs)"
      by (rule Cons.IH [OF tail Cons.prems(2,3)])
    with True step show ?thesis by (simp add: g case_prod_beta Let_def)
  next
    case False
    let ?st = "st\<lparr>ms_attempts := (ms_attempts st)(''user:'' @ userId \<mapsto> (t0, n + 1))\<rparr>"
    have "snd (trace (guess_step L userId) gs ?st) =
      replicate (min (BACKUP_CODE_MAX_ATTEMPTS - (n + 1)) (length gs)) Invalid
      @ map (\<lambda>(t, _). Rate_limited (BACKUP_CODE_WINDOW_MS - (t - t0))) (drop (BACKUP_CODE_MAX_ATTEMPTS - (n + 1)) gs)"
      by (rule Cons.IH [OF tail]) (simp_all add: Cons.prems(2))
    moreover have "BACKUP_CODE_MAX_ATTEMPTS - n = Suc (BACKUP_CODE_MAX_ATTEMPTS - (n + 1))" using False by simp
    ultimately show ?thesis using False step by (simp add: g case_prod_beta Let_def)
  qed
qed simp

text \<open>Guessing backup codes is limited. Wrong codes for one user, the first of them the first in its window and the
  rest within fifteen minutes of it, are answered as invalid five times; every further one is refused
  unread, with the time left until the window ends.\<close>

theorem backup_code_guesses_limited:
  assumes "mfa_user userId st = Some h" and "ms_attempts st (''user:'' @ userId) = None"
    and "findMatchingBackupCodeIndex L (mh_codes h) s0 = None"
    and "\<And>t s. (t, s) \<in> set gs \<Longrightarrow> t - t0 \<le> BACKUP_CODE_WINDOW_MS \<and> findMatchingBackupCodeIndex L (mh_codes h) s = None"
  shows "snd (trace (guess_step L userId) ((t0, s0) # gs) st) =
      replicate (min 5 (Suc (length gs))) Invalid
      @ map (\<lambda>(t, _). Rate_limited (BACKUP_CODE_WINDOW_MS - (t - t0))) (drop 4 gs)"
proof -
  let ?st = "st\<lparr>ms_attempts := (ms_attempts st)(''user:'' @ userId \<mapsto> (t0, 1))\<rparr>"
  have "guess_step L userId (t0, s0) st = (?st, Invalid)"
    using assms(1-3) by (simp add: guess_step_def consumeUserBackupCode_def consume_find_def checkBackupCodeRateLimit_def
        recordBackupCodeAttempt_def BACKUP_CODE_WINDOW_MS_def)
  moreover have "snd (trace (guess_step L userId) gs ?st) =
      replicate (min (BACKUP_CODE_MAX_ATTEMPTS - 1) (length gs)) Invalid
      @ map (\<lambda>(t, _). Rate_limited (BACKUP_CODE_WINDOW_MS - (t - t0))) (drop (BACKUP_CODE_MAX_ATTEMPTS - 1) gs)"
    using assms by (intro wrong_guesses) simp_all
  ultimately show ?thesis by (simp add: case_prod_beta Let_def BACKUP_CODE_MAX_ATTEMPTS_def)
qed

subsection \<open>Replacing a factor\<close>

text \<open>A user's active second factor can be replaced without proving it. For a user with a factor enabled, the
  setup endpoint asks for no code, stores a new secret and new backup codes, and leaves the factor enabled, so
  that the next login is checked against the new secret; the same request for a school is refused.\<close>

theorem user_setup_replaces_active_factor:
  assumes "mfa_laws L" and "master \<noteq> []" and "\<not> no_user_mfa userId" and "mfa_user userId st = Some h" and "mh_enabled h"
    and "length (mf_iv fr) = 12" and "list_all (\<lambda>b. b < 256) (mf_iv fr)"
    and "slug \<noteq> []" and "holder_of slug (ms_schools st) = Some school" and "mh_enabled school"
  shows "(case mfa_user userId (fst (setupUserMfa L master fr userId st)) of
            None \<Rightarrow> False
          | Some h' \<Rightarrow> mh_enabled h' \<and> (\<exists>c. mh_secret h' = Some c \<and>
              verifyTotpCode L master now c totp = ml_totp L now (mf_secret fr) totp))
       \<and> setupMfa L master fr slug st = (st, Reply 400 ''MFA_ALREADY_ACTIVE'')"
proof -
  obtain c where c: "encryptMfaSecret L master (mf_iv fr) (mf_secret fr) = Inr c"
    using assms(2) by (auto simp: encryptMfaSecret_def getMfaEncryptionKey_def case_prod_beta)
  have "mfa_user userId (fst (setupUserMfa L master fr userId st)) = Some (h\<lparr>mh_secret := Some c, mh_codes := new_codes L fr\<rparr>)"
    using assms(3,4) c by (simp add: setupUserMfa_def mfa_user_def set_mfa_user_def find_update_first)
  with assms(5,8,9,10) mfa_secret_roundtrip [OF assms(1,6,7) c] show ?thesis
    by (simp add: setupMfa_def verifyTotpCode_def)
qed

subsection \<open>Witnesses\<close>

definition sample_mfa :: mfa_lib where
  "sample_mfa = \<lparr>ml_compare = (=), ml_hash = (\<lambda>_ p. p), ml_totp = (\<lambda>_ s t. s = t), ml_key = (\<lambda>_. []),
     ml_encipher = (\<lambda>k iv p. (map of_char p, replicate 16 0)),
     ml_decipher = (\<lambda>k iv tag enc. Some (map char_of enc))\<rparr>"

lemma sample_mfa_laws: "mfa_laws sample_mfa"
  by (simp add: mfa_laws_def sample_mfa_def list_all_iff o_def)

definition sample_mfa_fresh :: mfa_fresh where
  "sample_mfa_fresh = \<lparr>mf_secret = ''JBSW'', mf_iv = replicate 12 7, mf_bytes = [10 # replicate 9 0, 11 # replicate 9 1], mf_salts = [1, 2]\<rparr>"

lemma sample_codes: "generateBackupCodes [10 # replicate 9 0, 11 # replicate 9 1] = [''A0000-00000'', ''B1111-11111'']"
  by code_simp

theorem mfa_storage_roundtrip_witness:
  "findMatchingBackupCodeIndex sample_mfa (new_codes sample_mfa sample_mfa_fresh) ''b1lI1 11lll'' = Some 1"
proof -
  have "normalizeBackupCode ''b1lI1 11lll'' = normalizeBackupCode ''B1111-11111''" by code_simp
  then have typed: "normalizeBackupCode ''b1lI1 11lll'' = normalizeBackupCode (generateBackupCodes (mf_bytes sample_mfa_fresh) ! 1)"
    by (simp add: sample_mfa_fresh_def sample_codes [simplified])
  have "distinct (map raw_code (mf_bytes sample_mfa_fresh))" by code_simp
  then have found: "(\<forall>i<length (mf_bytes sample_mfa_fresh). \<forall>s.
      normalizeBackupCode s = normalizeBackupCode (generateBackupCodes (mf_bytes sample_mfa_fresh) ! i)
      \<longrightarrow> findMatchingBackupCodeIndex sample_mfa (new_codes sample_mfa sample_mfa_fresh) s = Some i)"
    using mfa_storage_roundtrip [OF sample_mfa_laws, of sample_mfa_fresh "replicate 12 7" "''k''" "''p''"]
    by (simp add: sample_mfa_fresh_def list_all_iff BACKUP_CODE_LENGTH_def)
  show ?thesis by (rule found [rule_format, OF _ typed]) (simp add: sample_mfa_fresh_def)
qed

definition sample_holder :: "string \<Rightarrow> bool \<Rightarrow> mfa_holder" where
  "sample_holder k b = \<lparr>mh_key = k, mh_active = True, mh_enabled = b, mh_secret = None,
     mh_codes = [\<lparr>be_hash = ''bcrypt$X'', be_used = False\<rparr>]\<rparr>"

definition sample_mfa_state :: "nat mfa_state" where
  "sample_mfa_state = \<lparr>ms_schools = [sample_holder ''s'' True], ms_users = [sample_holder ''u'' True],
     ms_attempts = Map.empty, ms_store = empty_session_store, ms_audit = []\<rparr>"

theorem backup_code_single_use_witness:
  "\<not> snd (trace (mark_step False) [(''u'', 0), (''u'', 0)] [sample_holder ''u'' True]) ! 1"
  by (rule backup_code_single_use [where j = 0]) (simp_all add: sample_holder_def mark_step_def mark_used_def)

lemma sample_guess: "findMatchingBackupCodeIndex sample_mfa (mh_codes (sample_holder ''u'' True)) ''Q'' = None"
proof -
  have "normalizeBackupCode ''Q'' = ''Q''" by code_simp
  then show ?thesis by (simp add: findMatchingBackupCodeIndex_def sample_holder_def isLegacyBackupCodeHash_def
        BACKUP_CODE_HASH_PREFIX_def sample_mfa_def)
qed

theorem backup_code_guesses_limited_witness:
  "snd (trace (guess_step sample_mfa ''u'') ((0, ''Q'') # replicate 5 (60000, ''Q'')) sample_mfa_state) =
     replicate 5 Invalid @ [Rate_limited 840000]"
  using backup_code_guesses_limited [of "''u''" sample_mfa_state "sample_holder ''u'' True" sample_mfa "''Q''"
      "replicate 5 (60000, ''Q'')" 0] sample_guess
  by (simp add: sample_mfa_state_def mfa_user_def sample_holder_def BACKUP_CODE_WINDOW_MS_def eval_nat_numeral)

theorem user_setup_replaces_active_factor_witness:
  "setupMfa sample_mfa ''k'' sample_mfa_fresh ''s'' sample_mfa_state = (sample_mfa_state, Reply 400 ''MFA_ALREADY_ACTIVE'')
   \<and> mfa_user ''u'' (fst (setupUserMfa sample_mfa ''k'' sample_mfa_fresh ''u'' sample_mfa_state)) \<noteq> None"
  using user_setup_replaces_active_factor [OF sample_mfa_laws, of "''k''" "''u''" sample_mfa_state "sample_holder ''u'' True"
      sample_mfa_fresh "''s''" "sample_holder ''s'' True" 0 "''x''"]
  by (simp add: sample_mfa_state_def mfa_user_def holder_of_def sample_holder_def no_user_mfa_def sample_mfa_fresh_def
      list_all_iff split: option.splits)

end
