(* ===== verification/Login.thy ===== *)
theory Login
  imports Mfa
begin

section \<open>Logging in\<close>

text \<open>
  The handlers of \<^verbatim>\<open>backend/src/controllers/authController.js\<close>: login with its second factor, refresh, logout, the
  account's own data, its sessions and the change of password. The state is the lockout of \<^verbatim>\<open>Auth_Guard\<close>, the
  accounts of \<^verbatim>\<open>User_Accounts\<close> and the second factors of \<^verbatim>\<open>Mfa\<close>. The handlers call methods that the object
  returned by \<^verbatim>\<open>getStore\<close> does not have; such a call throws, and what follows depends on where it is caught.

  Shown: the second factor accepts every code, no login succeeds, a token signed by these handlers passes no
  guard, and a change of password leaves access tokens valid.
\<close>

subsection \<open>The session store as the handlers see it\<close>

text \<open>
  What is stored with a refresh token, and the asynchronous methods the handlers call, each \<^const>\<open>None\<close> where the
  object has no method of that name that returns a promise: calling it, or \<^verbatim>\<open>catch\<close> on what it returns, throws.
\<close>

record token_meta =
  tm_familyId :: string
  tm_sessionId :: string
  tm_claims :: claims

record 'k token_api =
  ta_setToken :: "(string \<Rightarrow> int \<Rightarrow> token_meta \<Rightarrow> 'k \<Rightarrow> 'k) option"
  ta_getToken :: "(string \<Rightarrow> 'k \<Rightarrow> token_meta option) option"
  ta_delToken :: "(string \<Rightarrow> 'k \<Rightarrow> 'k) option"
  ta_getConsumedFamily :: "(string \<Rightarrow> 'k \<Rightarrow> string) option"
  ta_markConsumed :: "(string \<Rightarrow> string \<Rightarrow> int \<Rightarrow> 'k \<Rightarrow> 'k) option"
  ta_isFamilyRevoked :: "(string \<Rightarrow> 'k \<Rightarrow> bool) option"
  ta_revokeFamily :: "(string \<Rightarrow> int \<Rightarrow> 'k \<Rightarrow> 'k) option"
  ta_setSession :: "(string \<Rightarrow> token_meta \<Rightarrow> 'k \<Rightarrow> 'k) option"
  ta_getSession :: "(string \<Rightarrow> 'k \<Rightarrow> token_meta option) option"
  ta_delSession :: "(string \<Rightarrow> 'k \<Rightarrow> 'k) option"
  ta_listUserSessions :: "(string \<Rightarrow> 'k \<Rightarrow> string list) option"

text \<open>
  The object that \<^verbatim>\<open>getStore\<close> returns has three of these names, \<^verbatim>\<open>setSession\<close>, \<^verbatim>\<open>getSession\<close> and \<^verbatim>\<open>revokeFamily\<close>,
  as synchronous functions that return a record, a record or \<^verbatim>\<open>null\<close>, and a number.
\<close>

definition getStore :: "'k token_api" where
  "getStore = \<lparr>ta_setToken = None, ta_getToken = None, ta_delToken = None, ta_getConsumedFamily = None,
     ta_markConsumed = None, ta_isFamilyRevoked = None, ta_revokeFamily = None, ta_setSession = None,
     ta_getSession = None, ta_delSession = None, ta_listUserSessions = None\<rparr>"

subsection \<open>Login\<close>

record login_env =
  le_auth :: auth_env
  le_username :: string
  le_passwordHash :: string
  le_password :: string
  le_requireMfa :: bool

record ('c, 'r, 'k) login_deps =
  ld_cache :: "(int, 'c) cache_ops"
  ld_redis :: "'r redis_cmds"
  ld_jwt :: jwt_lib
  ld_mfa :: mfa_lib
  ld_env :: login_env
  ld_schoolRequiresMfa :: "string \<Rightarrow> bool"
  ld_api :: "'k token_api"
  ld_refreshTTL :: int

record login_body =
  lb_username :: string
  lb_email :: string
  lb_password :: string
  lb_mfaCode :: string

record ('c, 'r, 'k) login_state =
  ls_auth :: "('c, 'r) auth_state"
  ls_users :: "user_doc list"
  ls_factors :: "mfa_holder list"
  ls_tokens :: 'k

datatype login_reply =
    Refused nat string
  | RequiresMfa
  | Failed
  | LoggedIn string string bool

definition safeEqual :: "string \<Rightarrow> string \<Rightarrow> bool" where
  "safeEqual a b \<longleftrightarrow> length a = length b \<and> a = b"

definition login_id :: "login_body \<Rightarrow> string" where
  "login_id b = toLowerCase (trim (or_text (lb_email b) (lb_username b)))"

definition record_failure ::
  "('c, 'r, 'k) login_deps \<Rightarrow> redis_weather \<Rightarrow> millis \<Rightarrow> string \<Rightarrow> ('c, 'r, 'k) login_state \<Rightarrow> ('c, 'r, 'k) login_state" where
  "record_failure D w now i st = st\<lparr>ls_auth := recordLoginFailure (ld_cache D) (ld_redis D) w now i (ls_auth st)\<rparr>"

definition clear_failures ::
  "('c, 'r, 'k) login_deps \<Rightarrow> redis_weather \<Rightarrow> millis \<Rightarrow> string \<Rightarrow> ('c, 'r, 'k) login_state \<Rightarrow> ('c, 'r, 'k) login_state" where
  "clear_failures D w now i st = st\<lparr>ls_auth := clearLoginFailures (ld_cache D) (ld_redis D) w now i (ls_auth st)\<rparr>"

text \<open>What is drawn at random for a refresh token.\<close>

record token_fresh =
  tf_family :: string
  tf_session :: string
  tf_token :: string

definition issueRefreshToken ::
  "'k token_api \<Rightarrow> int \<Rightarrow> token_fresh \<Rightarrow> claims \<Rightarrow> 'k \<Rightarrow> 'k \<times> (unit, string) result" where
  "issueRefreshToken A ttl fr payload k =
     (let meta = \<lparr>tm_familyId = tf_family fr, tm_sessionId = tf_session fr, tm_claims = payload\<rparr> in
      case ta_setToken A of
        None \<Rightarrow> (k, Inl ())
      | Some setTok \<Rightarrow>
          let k1 = setTok (tf_token fr) ttl meta k
          in case ta_setSession A of
               None \<Rightarrow> (k1, Inl ())
             | Some setSess \<Rightarrow> (setSess (tf_session fr) meta k1, Inr (tf_token fr)))"

text \<open>The end of both paths: signing under the plain secret, without issuer and audience, and the refresh token.\<close>

definition finish_login ::
  "('c, 'r, 'k) login_deps \<Rightarrow> millis \<Rightarrow> token_fresh \<Rightarrow> claims \<Rightarrow> bool \<Rightarrow> ('c, 'r, 'k) login_state \<Rightarrow> ('c, 'r, 'k) login_state \<times> login_reply" where
  "finish_login D now fr payload pending st =
     (let env = le_auth (ld_env D) in
      if env_secret env = [] then (st, Failed)
      else let token = jwt_sign (ld_jwt D) now payload (env_secret env) None (env_accessTTL env);
               (k, issued) = issueRefreshToken (ld_api D) (ld_refreshTTL D) fr payload (ls_tokens st);
               st1 = st\<lparr>ls_tokens := k\<rparr>
           in case issued of
                Inl _ \<Rightarrow> (st1, Refused 500 ''TOKEN_STORE_ERROR'')
              | Inr refreshToken \<Rightarrow> (st1, LoggedIn token refreshToken pending))"

definition admin_payload :: "string \<Rightarrow> claims" where
  "admin_payload loginId = \<lparr>cl_role = ''admin'', cl_roles = Some [''super_admin''], cl_userId = ''super_admin'', cl_sub = [], cl_id = [],
     cl_schoolId = [], cl_username = loginId, cl_sid = [], cl_tokenVersion = 0, cl_mfaSetupPending = False\<rparr>"

definition user_payload :: "user_doc \<Rightarrow> bool \<Rightarrow> claims" where
  "user_payload u pending = \<lparr>cl_role = ''user'', cl_roles = Some (ud_roles u), cl_userId = ud_id u, cl_sub = [], cl_id = [],
     cl_schoolId = ud_schoolId u, cl_username = [], cl_sid = [], cl_tokenVersion = 0, cl_mfaSetupPending = pending\<rparr>"

definition env_login ::
  "('c, 'r, 'k) login_deps \<Rightarrow> redis_weather \<Rightarrow> millis \<Rightarrow> token_fresh \<Rightarrow> login_body \<Rightarrow> ('c, 'r, 'k) login_state \<Rightarrow> ('c, 'r, 'k) login_state \<times> login_reply" where
  "env_login D w now fr b st =
     (let E = ld_env D; i = login_id b in
      if le_username E = [] \<or> (le_password E = [] \<and> le_passwordHash E = []) then (st, Refused 500 ''AUTH_MISCONFIGURED'')
      else let usernameMatch = (i \<noteq> [] \<and> safeEqual i (le_username E));
               credValid = (usernameMatch \<and> lb_password b \<noteq> []
                  \<and> (if le_passwordHash E \<noteq> [] then ml_compare (ld_mfa D) (lb_password b) (le_passwordHash E)
                     else safeEqual (lb_password b) (le_password E)))
           in if \<not> credValid then (record_failure D w now i st, Refused 401 ''INVALID_CREDENTIALS'')
              else finish_login D now fr (admin_payload i) False (clear_failures D w now i st))"

text \<open>
  \<^verbatim>\<open>verifyBackupCode\<close> is an asynchronous function: it returns a promise. The login compares what it returns with
  minus one without awaiting it. The update that should mark the code then names an array element by the printed
  promise, which the database rejects; the rejection is caught.
\<close>

datatype 'a js_value = Plain 'a | Promise 'a

definition verifyBackupCode :: "mfa_lib \<Rightarrow> backup_entry list \<Rightarrow> string \<Rightarrow> int js_value" where
  "verifyBackupCode L entries s =
     Promise (case findMatchingBackupCodeIndex L entries s of None \<Rightarrow> - 1 | Some i \<Rightarrow> int i)"

datatype mfa_gate = Gate_open | Gate_ask | Gate_closed

definition mfa_check :: "mfa_lib \<Rightarrow> string \<Rightarrow> millis \<Rightarrow> mfa_holder option \<Rightarrow> string \<Rightarrow> mfa_gate" where
  "mfa_check L master now factor mfaCode =
     (case factor of
        None \<Rightarrow> Gate_open
      | Some f \<Rightarrow>
          if \<not> (mh_enabled f \<and> secret_set (mh_secret f)) then Gate_open
          else if mfaCode = [] then Gate_ask
          else if verifyTotpCode L master now (the (mh_secret f)) mfaCode then Gate_open
          else if verifyBackupCode L (mh_codes f) mfaCode = Plain (- 1) then Gate_closed
          else Gate_open)"

definition has_factor :: "mfa_holder option \<Rightarrow> bool" where
  "has_factor factor \<longleftrightarrow> (case factor of None \<Rightarrow> False | Some f \<Rightarrow> mh_enabled f \<and> secret_set (mh_secret f))"

definition db_login ::
  "('c, 'r, 'k) login_deps \<Rightarrow> redis_weather \<Rightarrow> millis \<Rightarrow> token_fresh \<Rightarrow> login_body \<Rightarrow> ('c, 'r, 'k) login_state \<Rightarrow> ('c, 'r, 'k) login_state \<times> login_reply" where
  "db_login D w now fr b st =
     (let i = login_id b in
      case find (\<lambda>u. ud_email u = i \<and> ud_isActive u = Some True) (ls_users st) of
        None \<Rightarrow> (record_failure D w now i st, Refused 401 ''INVALID_CREDENTIALS'')
      | Some user \<Rightarrow>
          if \<not> (lb_password b \<noteq> [] \<and> ml_compare (ld_mfa D) (lb_password b) (ud_passwordHash user))
          then (record_failure D w now i st, Refused 401 ''INVALID_CREDENTIALS'')
          else let factor = find (\<lambda>h. mh_key h = ud_id user) (ls_factors st) in
            (case mfa_check (ld_mfa D) (env_secret (le_auth (ld_env D))) now factor (lb_mfaCode b) of
               Gate_ask \<Rightarrow> (st, RequiresMfa)
             | Gate_closed \<Rightarrow> (record_failure D w now i st, Refused 401 ''INVALID_MFA_CODE'')
             | Gate_open \<Rightarrow>
                 let schoolRequires = (\<not> has_factor factor \<and> ud_schoolId user \<noteq> [] \<and> ld_schoolRequiresMfa D (ud_schoolId user));
                     pending = (\<not> has_factor factor \<and> (le_requireMfa (ld_env D) \<or> schoolRequires))
                 in finish_login D now fr (user_payload user pending) pending (clear_failures D w now i st)))"

definition handleLogin ::
  "('c, 'r, 'k) login_deps \<Rightarrow> redis_weather \<Rightarrow> millis \<Rightarrow> token_fresh \<Rightarrow> login_body \<Rightarrow> ('c, 'r, 'k) login_state \<Rightarrow> ('c, 'r, 'k) login_state \<times> login_reply" where
  "handleLogin D w now fr b st =
     (if isLockedOut (ld_cache D) (ld_redis D) w now (login_id b) (ls_auth st) then (st, Refused 429 ''ACCOUNT_LOCKED'')
      else if lb_email b = [] then env_login D w now fr b st
      else db_login D w now fr b st)"

subsection \<open>Refresh and sessions\<close>

datatype session_reply = S_reply nat string | S_thrown | S_tokens claims string | S_list "string list"

text \<open>The claims of a refreshed token: those stored with the refresh token, with roles, school and pending setup read
  from the account where there is one; \<open>lookup\<close> is \<open>Inl\<close> when the database fails. \<open>Inl\<close> is a disabled account.\<close>

definition refreshed_claims ::
  "login_env \<Rightarrow> (string \<Rightarrow> bool) \<Rightarrow> (unit, user_doc option) result \<Rightarrow> mfa_holder option \<Rightarrow> claims \<Rightarrow> (unit, claims) result" where
  "refreshed_claims E schoolRequires lookup factor c =
     (let base = c\<lparr>cl_sub := [], cl_id := [], cl_sid := [], cl_tokenVersion := 0, cl_mfaSetupPending := False\<rparr> in
      if cl_userId c = [] \<or> cl_userId c = ''super_admin'' then Inr base
      else case lookup of
        Inl _ \<Rightarrow> Inr (base\<lparr>cl_mfaSetupPending := cl_mfaSetupPending c\<rparr>)
      | Inr None \<Rightarrow> Inl ()
      | Inr (Some u) \<Rightarrow>
          if ud_isActive u \<noteq> Some True then Inl ()
          else Inr (base\<lparr>cl_roles := Some (ud_roles u),
                         cl_schoolId := or_text (ud_schoolId u) (cl_schoolId c),
                         cl_mfaSetupPending := (\<not> has_factor factor \<and> (le_requireMfa E
                            \<or> (ud_schoolId u \<noteq> [] \<and> schoolRequires (ud_schoolId u))))\<rparr>))"

text \<open>The time of last use of the session, which the handler also writes, is not part of the stored data here.\<close>

definition handleRefresh ::
  "'k token_api \<Rightarrow> login_env \<Rightarrow> (string \<Rightarrow> bool) \<Rightarrow> int \<Rightarrow> (string \<Rightarrow> (unit, user_doc option) result) \<Rightarrow> (string \<Rightarrow> mfa_holder option)
   \<Rightarrow> string \<Rightarrow> string \<Rightarrow> string \<Rightarrow> 'k \<Rightarrow> 'k \<times> session_reply" where
  "handleRefresh A E schoolRequires ttl lookup factor cookie bodyToken newToken k =
     (let token = or_text cookie bodyToken in
      if token = [] then (k, S_reply 401 ''MISSING_REFRESH_TOKEN'')
      else case ta_getToken A of
        None \<Rightarrow> (k, S_thrown)
      | Some getTok \<Rightarrow>
          (case getTok token k of
             None \<Rightarrow>
               (case ta_getConsumedFamily A of
                  None \<Rightarrow> (k, S_thrown)
                | Some consumed \<Rightarrow>
                    if consumed token k = [] then (k, S_reply 401 ''INVALID_REFRESH_TOKEN'')
                    else case ta_revokeFamily A of
                      None \<Rightarrow> (k, S_thrown)
                    | Some revoke \<Rightarrow> (revoke (consumed token k) ttl k, S_reply 401 ''INVALID_REFRESH_TOKEN''))
           | Some meta \<Rightarrow>
               if tm_familyId meta = [] then (k, S_reply 401 ''SESSION_REVOKED'')
               else case ta_isFamilyRevoked A of
                 None \<Rightarrow> (k, S_thrown)
               | Some isRevoked \<Rightarrow>
                   if isRevoked (tm_familyId meta) k then (k, S_reply 401 ''SESSION_REVOKED'')
                   else case ta_markConsumed A of
                     None \<Rightarrow> (k, S_thrown)
                   | Some mark \<Rightarrow>
                       let k1 = mark token (tm_familyId meta) 300 k in
                       (case ta_delToken A of
                          None \<Rightarrow> (k1, S_thrown)
                        | Some delTok \<Rightarrow>
                            let k2 = delTok token k1 in
                            (case ta_setToken A of
                               None \<Rightarrow> (k2, S_reply 500 ''TOKEN_STORE_ERROR'')
                             | Some setTok \<Rightarrow>
                                 let k3 = setTok newToken ttl meta k2; c = tm_claims meta
                                 in if tm_sessionId meta \<noteq> [] \<and> ta_getSession A = None then (k3, S_thrown)
                                    else case refreshed_claims E schoolRequires (lookup (cl_userId c)) (factor (cl_userId c)) c of
                                      Inl _ \<Rightarrow> (k3, S_reply 401 ''ACCOUNT_DISABLED'')
                                    | Inr claims \<Rightarrow> (k3, S_tokens claims newToken)))))"

text \<open>In these handlers a rejected promise is swallowed; only a missing method throws.\<close>

definition handleLogout :: "'k token_api \<Rightarrow> int \<Rightarrow> string \<Rightarrow> string \<Rightarrow> 'k \<Rightarrow> 'k \<times> session_reply" where
  "handleLogout A ttl cookie bodyToken k =
     (let token = or_text cookie bodyToken;
          finish = (\<lambda>k. case ta_delToken A of None \<Rightarrow> (k, S_thrown) | Some delTok \<Rightarrow> (delTok token k, S_reply 200 [])) in
      if token = [] then (k, S_reply 200 [])
      else case ta_getToken A of
        None \<Rightarrow> (k, S_thrown)
      | Some getTok \<Rightarrow>
          (case getTok token k of
             None \<Rightarrow> finish k
           | Some meta \<Rightarrow>
               if tm_familyId meta = [] then finish k
               else case ta_revokeFamily A of
                 None \<Rightarrow> (k, S_thrown)
               | Some revoke \<Rightarrow>
                   let k1 = revoke (tm_familyId meta) ttl k in
                   if tm_sessionId meta = [] then finish k1
                   else case ta_delSession A of
                     None \<Rightarrow> (k1, S_thrown)
                   | Some delSess \<Rightarrow> finish (delSess (tm_sessionId meta) k1)))"

definition handleListSessions :: "'k token_api \<Rightarrow> string \<Rightarrow> 'k \<Rightarrow> session_reply" where
  "handleListSessions A userId k =
     (case ta_listUserSessions A of
        None \<Rightarrow> S_reply 500 ''SESSION_LIST_ERROR''
      | Some list \<Rightarrow> S_list (list (or_text userId ''super_admin'') k))"

definition is_super_principal :: "claims option \<Rightarrow> bool" where
  "is_super_principal p =
     (case p of
        None \<Rightarrow> False
      | Some c \<Rightarrow> cl_userId c = ''super_admin'' \<or> cl_role c = ''admin'' \<or> ''super_admin'' \<in> set (roles_of c))"

definition handleRevokeSession :: "'k token_api \<Rightarrow> int \<Rightarrow> claims \<Rightarrow> string \<Rightarrow> 'k \<Rightarrow> 'k \<times> session_reply" where
  "handleRevokeSession A ttl caller sessionId k =
     (case ta_getSession A of
        None \<Rightarrow> (k, S_thrown)
      | Some getSess \<Rightarrow>
          (case getSess sessionId k of
             None \<Rightarrow> (k, S_reply 404 ''SESSION_NOT_FOUND'')
           | Some sess \<Rightarrow>
               if \<not> is_super_principal (Some caller) \<and> cl_userId (tm_claims sess) \<noteq> cl_userId caller
               then (k, S_reply 403 ''FORBIDDEN'')
               else if tm_familyId sess \<noteq> [] \<and> ta_revokeFamily A = None then (k, S_thrown)
               else let k1 = (case ta_revokeFamily A of
                        Some revoke \<Rightarrow> if tm_familyId sess \<noteq> [] then revoke (tm_familyId sess) ttl k else k
                      | None \<Rightarrow> k)
                    in case ta_delSession A of
                         None \<Rightarrow> (k1, S_thrown)
                       | Some delSess \<Rightarrow> (delSess sessionId k1, S_reply 200 [])))"

record me_view =
  me_userId :: string
  me_email :: string
  me_schoolId :: string
  me_roles :: "string list"
  me_mfaSetupPending :: bool

definition handleMe :: "claims \<Rightarrow> me_view" where
  "handleMe p = \<lparr>me_userId = or_text (cl_userId p) (cl_sub p), me_email = cl_username p, me_schoolId = cl_schoolId p,
     me_roles = (case cl_roles p of Some rs \<Rightarrow> rs | None \<Rightarrow> if cl_role p \<noteq> [] then [cl_role p] else []),
     me_mfaSetupPending = cl_mfaSetupPending p\<rparr>"

subsection \<open>Change of password\<close>

definition handleChangePassword ::
  "mfa_lib \<Rightarrow> string \<Rightarrow> string \<Rightarrow> string \<Rightarrow> string \<Rightarrow> 's account_state \<Rightarrow> 's account_state \<times> account_reply" where
  "handleChangePassword L userId currentPassword newPassword newHash st =
     (if currentPassword = [] \<or> newPassword = [] then (st, Reply 400 ''VALIDATION_ERROR'')
      else if length newPassword < 8 then (st, Reply 400 ''VALIDATION_ERROR'')
      else if userId = [] \<or> userId = ''super_admin'' then (st, Reply 403 ''FORBIDDEN'')
      else case user_by_id userId st of
        None \<Rightarrow> (st, Reply 404 ''NOT_FOUND'')
      | Some user \<Rightarrow>
          if \<not> ml_compare L currentPassword (ud_passwordHash user) then (st, Reply 401 ''INVALID_CREDENTIALS'')
          else let st1 = update_user userId (\<lambda>u. u\<lparr>ud_passwordHash := newHash\<rparr>) st;
                   st2 = revoke_all userId st1
               in (log_account ''PASSWORD_CHANGED'' userId userId st2, Reply 200 []))"

subsection \<open>What the handlers do\<close>

lemma open_gate: "c \<noteq> [] \<Longrightarrow> mfa_check L master now factor c = Gate_open"
  by (simp add: mfa_check_def verifyBackupCode_def split: option.split)

text \<open>C15: The second factor is no obstacle. For a user with a factor enabled, a login with any code whatever has the
  same outcome as a login with the right one: the check of the backup code compares a promise with a number.\<close>

theorem any_code_passes_second_factor:
  assumes "c \<noteq> []" and "c' \<noteq> []"
  shows "mfa_check L master now factor c = Gate_open
    \<and> handleLogin D w now fr (b\<lparr>lb_mfaCode := c\<rparr>) st = handleLogin D w now fr (b\<lparr>lb_mfaCode := c'\<rparr>) st"
proof -
  have "login_id (b\<lparr>lb_mfaCode := x\<rparr>) = login_id b" for x by (simp add: login_id_def)
  moreover have "env_login D w now fr (b\<lparr>lb_mfaCode := x\<rparr>) st = env_login D w now fr b st" for x
    by (simp add: env_login_def login_id_def Let_def)
  moreover have "db_login D w now fr (b\<lparr>lb_mfaCode := c\<rparr>) st = db_login D w now fr (b\<lparr>lb_mfaCode := c'\<rparr>) st"
    by (simp add: db_login_def login_id_def Let_def open_gate assms split: option.split)
  ultimately show ?thesis by (simp add: handleLogin_def open_gate [OF assms(1)])
qed

text \<open>Nobody can log in. With the object that the session store provides, the login never delivers tokens, whatever
  the credentials; a refresh or a logout with a token throws, sessions cannot be listed, and revoking one throws.\<close>

theorem login_never_succeeds:
  assumes "ld_api D = getStore" and "or_text cookie bodyToken \<noteq> []"
  shows "snd (handleLogin D w now fr b st) \<noteq> LoggedIn token refresh pending
   \<and> snd (handleRefresh (ld_api D) E req ttl lookup factor cookie bodyToken newToken k) = S_thrown
   \<and> snd (handleLogout (ld_api D) ttl cookie bodyToken k) = S_thrown
   \<and> handleListSessions (ld_api D) userId k = S_reply 500 ''SESSION_LIST_ERROR''
   \<and> snd (handleRevokeSession (ld_api D) ttl p sessionId k) = S_thrown"
proof -
  have finish: "snd (finish_login D now fr payload b' st') \<noteq> LoggedIn token refresh pending" for payload b' st'
    using assms(1) by (simp add: finish_login_def issueRefreshToken_def getStore_def Let_def)
  then have "snd (handleLogin D w now fr b st) \<noteq> LoggedIn token refresh pending"
    by (simp add: handleLogin_def env_login_def db_login_def Let_def split: option.split mfa_gate.split)
  with assms show ?thesis
    by (simp add: handleRefresh_def handleLogout_def handleListSessions_def handleRevokeSession_def getStore_def Let_def)
qed

text \<open>What a login delivers, if it delivers anything, was signed at the end of one of its two paths.\<close>

lemma finish_login_token:
  assumes "snd (finish_login D now fr payload p st) = LoggedIn token refresh pending"
  shows "token = jwt_sign (ld_jwt D) now payload (env_secret (le_auth (ld_env D))) None (env_accessTTL (le_auth (ld_env D)))"
  using assms by (auto simp: finish_login_def Let_def split: if_splits prod.splits sum.splits)

lemma handleLogin_token:
  assumes "snd (handleLogin D w now fr b st) = LoggedIn token refresh pending"
  shows "\<exists>payload. token = jwt_sign (ld_jwt D) now payload (env_secret (le_auth (ld_env D))) None (env_accessTTL (le_auth (ld_env D)))"
  using assms
  by (auto simp: handleLogin_def env_login_def db_login_def Let_def dest!: finish_login_token
      split: if_splits option.splits mfa_gate.splits)

lemma plain_token_refused:
  assumes "jwt_laws J"
  shows "verify_token J env t (jwt_sign J t0 payload (env_secret env) None ttl) \<noteq> Inr d"
proof (cases "getSigningKey J env")
  case (Some key)
  note J = jwt_lawsD [OF assms]
  show ?thesis
  proof (cases "env_secret env = key \<and> \<not> unexpired_jwt t0 ttl t")
    case True
    then show ?thesis using Some J(2) [of t0 ttl t] by (simp add: verify_token_def)
  next
    case False
    then show ?thesis using Some J(3) [of t0 ttl t] J(4) [of "env_secret env" key]
      by (cases "env_secret env = key") (simp_all add: verify_token_def)
  qed
qed (simp add: verify_token_def)

text \<open>C16: A token that the login delivers passes no guard. Whatever the credentials, the account, the secrets and
  the time, and with a store in place of the program's own with which the login does succeed, the
  token in the reply is refused by both guards under the same configuration: it carries no issuer and is
  signed with the plain secret, while the guards demand an issuer and verify under the derived or the
  dedicated key.\<close>

theorem login_tokens_refused:
  assumes "jwt_laws (ld_jwt D)" and "snd (handleLogin D w0 t0 fr b ls) = LoggedIn token refresh pending"
    and "gd_jwt G = ld_jwt D" and "gd_env G = le_auth (ld_env D)" and "request_token req = token"
  shows "refused (requireSchoolAuth G allowed w t req st) \<and> refused (requireAdminAuth G w t req st)"
proof (rule not_token_holds_refused)
  fix d
  from handleLogin_token [OF assms(2)] have "verify_token (gd_jwt G) (gd_env G) t (request_token req) \<noteq> Inr d"
    using plain_token_refused [OF assms(1)] unfolding assms(3-5) by blast
  then show "\<not> token_holds G w t req st d" by (simp add: token_holds_def)
qed

text \<open>A user whose token version was ever raised can no longer use a token of the login at all, since the login
  puts no version into it.\<close>

lemma raised_version_refuses_login_tokens:
  assumes "user_by_id (ud_id u) st = Some v" "ud_id u \<noteq> []" "0 < ud_tokenVersion v"
  shows "checkSessionRevoked (lookup_user st) (user_payload u pending) = Some (401, ''SESSION_REVOKED'')"
  using assms by (simp add: checkSessionRevoked_def lookup_user_def user_payload_def or_text_def)

text \<open>A change of password leaves access tokens valid. It revokes the refresh tokens and sessions of the user but does
  not raise the version, so every access token the user's sessions hold is checked exactly as before, although the
  reply says that all sessions have been invalidated.\<close>

theorem change_password_keeps_access_tokens:
  assumes "snd (handleChangePassword L userId old new newHash st) = Reply 200 []"
  shows "checkSessionRevoked (lookup_user (fst (handleChangePassword L userId old new newHash st))) d
           = checkSessionRevoked (lookup_user st) d
       \<and> 8 \<le> length new \<and> listSessions userId (ac_store (fst (handleChangePassword L userId old new newHash st))) = []"
proof -
  let ?f = "\<lambda>u. u\<lparr>ud_passwordHash := newHash\<rparr>"
  from assms have st': "fst (handleChangePassword L userId old new newHash st) =
      log_account ''PASSWORD_CHANGED'' userId userId (revoke_all userId (update_user userId ?f st))" and len: "8 \<le> length new"
    by (auto simp: handleChangePassword_def Let_def split: if_splits option.splits)
  have "map_option (\<lambda>u. (ud_isActive u, ud_tokenVersion u)) (find (\<lambda>u. ud_id u = i) (update_first (\<lambda>u. ud_id u = userId) ?f us))
      = map_option (\<lambda>u. (ud_isActive u, ud_tokenVersion u)) (find (\<lambda>u. ud_id u = i) us)" for i and us :: "user_doc list"
    by (induction us) auto
  then have "lookup_user (log_account ''PASSWORD_CHANGED'' userId userId (revoke_all userId (update_user userId ?f st))) = lookup_user st"
    by (simp add: lookup_user_def fun_eq_iff user_by_id_def log_account_def revoke_all_def update_user_def)
  moreover have "map_of (sessions (fst (revokeAllUserSessions userId k))) userId = None" for k :: "'a session_store"
    by (simp add: revokeAllUserSessions_def case_prod_beta Let_def map_of_AList_delete)
  ultimately show ?thesis
    unfolding st' using len by (simp add: listSessions_def getUserSessions_def log_account_def revoke_all_def)
qed

subsection \<open>Witnesses\<close>

definition sample_login_deps :: "(string \<rightharpoonup> int \<times> millis, string \<rightharpoonup> int \<times> millis option, unit) login_deps" where
  "sample_login_deps = \<lparr>ld_cache = sample_cache, ld_redis = sample_redis_cmds, ld_jwt = sample_jwt, ld_mfa = sample_mfa,
     ld_env = \<lparr>le_auth = sample_auth_env, le_username = ''root'', le_passwordHash = [], le_password = ''pw'', le_requireMfa = False\<rparr>,
     ld_schoolRequiresMfa = (\<lambda>_. False), ld_api = getStore, ld_refreshTTL = 100\<rparr>"

definition sample_body :: login_body where
  "sample_body = \<lparr>lb_username = ''root'', lb_email = [], lb_password = ''pw'', lb_mfaCode = []\<rparr>"

definition sample_login_state :: "(string \<rightharpoonup> int \<times> millis, string \<rightharpoonup> int \<times> millis option, unit) login_state" where
  "sample_login_state = \<lparr>ls_auth = empty_auth_state, ls_users = [], ls_factors = [], ls_tokens = ()\<rparr>"

definition sample_token_fresh :: token_fresh where
  "sample_token_fresh = \<lparr>tf_family = ''f'', tf_session = ''s'', tf_token = ''t''\<rparr>"

theorem any_code_passes_second_factor_witness:
  "mfa_check sample_mfa ''k'' 0 (Some ((sample_holder ''u'' True)\<lparr>mh_secret := Some ''AA''\<rparr>)) ''000000'' = Gate_open"
  using any_code_passes_second_factor [of "''000000''" "''000001''" sample_mfa "''k''" 0
      "Some ((sample_holder ''u'' True)\<lparr>mh_secret := Some ''AA''\<rparr>)" sample_login_deps no_redis sample_token_fresh
      sample_body sample_login_state] by simp

theorem login_never_succeeds_witness:
  "snd (handleLogin sample_login_deps no_redis 0 sample_token_fresh sample_body sample_login_state) \<noteq> LoggedIn ''a'' ''b'' False
   \<and> snd (handleRefresh getStore (ld_env sample_login_deps) (\<lambda>_. False) 100 (\<lambda>_. Inr None) (\<lambda>_. None) ''t'' [] ''n'' ()) = S_thrown"
proof -
  have "ld_api sample_login_deps = getStore" "or_text ''t'' [] \<noteq> []" by (simp_all add: sample_login_deps_def or_text_def)
  from login_never_succeeds [OF this, of no_redis 0 sample_token_fresh sample_body sample_login_state "''a''" "''b''" False
      "ld_env sample_login_deps" "\<lambda>_. False" 100 "\<lambda>_. Inr None" "\<lambda>_. None" "''n''" "()" "''u''"] this(1)
  show ?thesis by simp
qed

text \<open>A store that has the methods the login calls.\<close>

definition sample_api :: "unit token_api" where
  "sample_api = getStore\<lparr>ta_setToken := Some (\<lambda>_ _ _ k. k), ta_setSession := Some (\<lambda>_ _ k. k)\<rparr>"

lemma sample_login:
  "snd (handleLogin (sample_login_deps\<lparr>ld_api := sample_api\<rparr>) no_redis 0 sample_token_fresh sample_body sample_login_state)
     = LoggedIn (jwt_sign sample_jwt 0 (admin_payload ''root'') ''k'' None (env_accessTTL sample_auth_env)) ''t'' False"
proof -
  have i: "login_id sample_body = ''root''" by code_simp
  show ?thesis
    by (simp add: handleLogin_def env_login_def i)
      (simp add: sample_body_def sample_login_deps_def sample_login_state_def isLockedOut_def cached_flag_def sample_cache_def
        empty_auth_state_def no_redis_def safeEqual_def finish_login_def issueRefreshToken_def sample_api_def getStore_def
        sample_auth_env_def sample_token_fresh_def Let_def)
qed

theorem login_tokens_refused_witness:
  "refused (requireSchoolAuth sample_guard [''owner''] no_redis 5000
     (sample_auth_request (jwt_sign sample_jwt 0 (admin_payload ''root'') ''k'' None (env_accessTTL sample_auth_env))) empty_auth_state)"
proof -
  let ?token = "jwt_sign sample_jwt 0 (admin_payload ''root'') ''k'' None (env_accessTTL sample_auth_env)"
  have "jwt_laws (ld_jwt (sample_login_deps\<lparr>ld_api := sample_api\<rparr>))"
    by (simp add: sample_login_deps_def sample_jwt_laws)
  moreover have "?token \<noteq> []" by (simp add: sample_jwt_def)
  then have "request_token (sample_auth_request ?token) = ?token"
    by (simp add: sample_auth_request_def request_token_def or_text_def)
  moreover have "gd_jwt sample_guard = ld_jwt (sample_login_deps\<lparr>ld_api := sample_api\<rparr>)"
    "gd_env sample_guard = le_auth (ld_env (sample_login_deps\<lparr>ld_api := sample_api\<rparr>))"
    by (simp_all add: sample_guard_def sample_login_deps_def)
  ultimately show ?thesis
    using login_tokens_refused [OF _ sample_login, of sample_guard "sample_auth_request ?token" "[''owner'']" no_redis 5000
        empty_auth_state] by blast
qed

theorem change_password_keeps_access_tokens_witness:
  "checkSessionRevoked (lookup_user (fst (handleChangePassword sample_mfa ''a'' ''h'' ''longer pw'' ''n'' sample_accounts)))
     (sample_claims\<lparr>cl_userId := ''a''\<rparr>) = None"
proof -
  have "snd (handleChangePassword sample_mfa ''a'' ''h'' ''longer pw'' ''n'' sample_accounts) = Reply 200 []"
    by (simp add: handleChangePassword_def user_by_id_def sample_accounts_def sample_user_def sample_mfa_def Let_def)
  from change_password_keeps_access_tokens [OF this, of "sample_claims\<lparr>cl_userId := ''a''\<rparr>"]
  show ?thesis
    by (simp add: checkSessionRevoked_def lookup_user_def user_by_id_def sample_accounts_def sample_user_def sample_claims_def or_text_def)
qed

end
