(* ===== verification/School_Context.thy ===== *)
theory School_Context
  imports Auth_Guard
begin

section \<open>The school of a request\<close>

text \<open>
  \<^verbatim>\<open>backend/src/middleware/schoolContext.js\<close>: which school a request is about, from its headers, through a cache of
  schools; and its composition with the guard of school endpoints, in the order in which the routes
  apply them. The collection of schools is a list; the cache is a parameter, one instance for schools and one for the
  marks of the audit.

  Shown: where the two middlewares verify tokens under the same key, the school document and the school identifier of
  an admitted request are those of its token; under the default configuration, where they do not, a header
  selects the document of any other school.
\<close>

record school_record =
  sd_schoolId :: string
  sd_slug :: string
  sd_isActive :: bool
  sd_maintenance :: bool

record context_request =
  cr_auth :: auth_request
  cr_slugHeader :: string
  cr_sseRoute :: bool

record ('d, 'c) context_state =
  cs_schools :: 'd
  cs_marks :: 'c
  cs_audit :: "(string \<times> string) list"

record ('d, 'c) context_deps =
  cd_schools :: "(school_record, 'd) cache_ops"
  cd_marks :: "(int, 'c) cache_ops"
  cd_jwt :: jwt_lib
  cd_secret :: string
  cd_collection :: "school_record list"

definition SUPER_ADMIN_AUDIT_WINDOW_MS :: int where "SUPER_ADMIN_AUDIT_WINDOW_MS = 60 * 60 * 1000"

definition school_key :: "string \<Rightarrow> string" where "school_key i = ''school:'' @ i"

text \<open>One audit entry for each session, school and hour. The token's own identifier is not among the claims here, so the
  session is named by \<open>jti\<close>, which the caller passes.\<close>

definition auditSuperAdminAccess ::
  "('d, 'c) context_deps \<Rightarrow> millis \<Rightarrow> string \<Rightarrow> claims \<Rightarrow> school_record \<Rightarrow> ('d, 'c) context_state \<Rightarrow> ('d, 'c) context_state" where
  "auditSuperAdminAccess D now jti decoded school st =
     (let performedBy = or_text (cl_username decoded) (or_text (cl_userId decoded) (or_text (cl_sub decoded) (or_text (cl_id decoded) ''super_admin'')));
          hourBucket = now div SUPER_ADMIN_AUDIT_WINDOW_MS;
          dedupKey = ''superadmin-audit:'' @ jti @ '':'' @ sd_schoolId school @ '':'' @ nat_to_string 10 (nat hourBucket)
      in if cached_flag (cd_marks D) now dedupKey (cs_marks st) then st
         else st\<lparr>cs_marks := nc_set (cd_marks D) now dedupKey 1 (SUPER_ADMIN_AUDIT_WINDOW_MS div 1000) (cs_marks st),
                 cs_audit := cs_audit st @ [(sd_schoolId school, performedBy)]\<rparr>)"

text \<open>The lookup through the cache; an active school is stored under its identifier and under its slug.\<close>

definition find_school ::
  "('d, 'c) context_deps \<Rightarrow> millis \<Rightarrow> string \<Rightarrow> string \<Rightarrow> ('d, 'c) context_state \<Rightarrow> ('d, 'c) context_state \<times> school_record option" where
  "find_school D now effectiveId lookupKey st =
     (case nc_get (cd_schools D) now (school_key lookupKey) (cs_schools st) of
        Some s \<Rightarrow> (st, Some s)
      | None \<Rightarrow>
          (case find (\<lambda>s. if effectiveId \<noteq> [] then sd_schoolId s = effectiveId else sd_slug s = lookupKey) (cd_collection D) of
             None \<Rightarrow> (st, None)
           | Some s \<Rightarrow>
               if \<not> sd_isActive s then (st, Some s)
               else let c1 = (if sd_schoolId s \<noteq> [] then nc_set (cd_schools D) now (school_key (sd_schoolId s)) s 300 (cs_schools st)
                              else cs_schools st);
                        c2 = (if sd_slug s \<noteq> [] then nc_set (cd_schools D) now (school_key (sd_slug s)) s 300 c1 else c1)
                    in (st\<lparr>cs_schools := c2\<rparr>, Some s)))"

definition resolveSchool ::
  "('d, 'c) context_deps \<Rightarrow> millis \<Rightarrow> string \<Rightarrow> context_request \<Rightarrow> ('d, 'c) context_state
   \<Rightarrow> ('d, 'c) context_state \<times> (nat \<times> string, school_record) result" where
  "resolveSchool D now jti req st =
     (let a = cr_auth req;
          effectiveId = or_text (rq_schoolHeader a) (if cr_sseRoute req then rq_querySchool a else []) in
      if effectiveId = [] \<and> cr_slugHeader req = [] then (st, Inl (400, ''MISSING_SCHOOL_CONTEXT''))
      else let lookupKey = (if effectiveId \<noteq> [] then effectiveId else trim (toLowerCase (cr_slugHeader req)))
           in case find_school D now effectiveId lookupKey st of
                (st1, None) \<Rightarrow> (st1, Inl (404, ''NOT_FOUND''))
              | (st1, Some school) \<Rightarrow>
                  if \<not> sd_isActive school then (st1, Inl (403, ''SCHOOL_INACTIVE''))
                  else let verified = (if request_token a = [] then None
                             else case jwt_verify (cd_jwt D) now (request_token a) (cd_secret D) None of
                                    Inl _ \<Rightarrow> None | Inr d \<Rightarrow> Some d);
                           mismatch = (case verified of None \<Rightarrow> False
                             | Some d \<Rightarrow> \<not> is_super_admin d \<and> cl_schoolId d \<noteq> [] \<and> cl_schoolId d \<noteq> sd_schoolId school);
                           st2 = (case verified of None \<Rightarrow> st1
                             | Some d \<Rightarrow> if is_super_admin d \<and> (cl_schoolId d = [] \<or> cl_schoolId d \<noteq> sd_schoolId school)
                                        then auditSuperAdminAccess D now jti d school st1 else st1)
                       in if mismatch then (st2, Inl (403, ''TENANT_MISMATCH''))
                          else if sd_maintenance school then (st2, Inl (503, ''SCHOOL_MAINTENANCE_MODE''))
                          else (st2, Inr school))"

text \<open>The two middlewares one after the other: the school document of the request, its school identifier and the claims.\<close>

definition school_chain ::
  "('d, 'c) context_deps \<Rightarrow> ('e, 'r) guard_deps \<Rightarrow> string list \<Rightarrow> redis_weather \<Rightarrow> millis \<Rightarrow> string \<Rightarrow> context_request
   \<Rightarrow> ('d, 'c) context_state \<Rightarrow> ('e, 'r) auth_state \<Rightarrow> (nat \<times> string, school_record \<times> string \<times> claims) result" where
  "school_chain D G allowed w now jti req cs st =
     (case snd (resolveSchool D now jti req cs) of
        Inl e \<Rightarrow> Inl e
      | Inr school \<Rightarrow>
          (case snd (requireSchoolAuth G allowed w now (cr_auth req) st) of
             Refuse n e \<Rightarrow> Inl (n, e)
           | Next d None \<Rightarrow> Inr (school, sd_schoolId school, d)
           | Next d (Some i) \<Rightarrow> Inr (school, i, d)))"

lemma resolved_school:
  assumes "snd (resolveSchool D now jti req cs) = Inr school"
  shows "sd_isActive school \<and> \<not> sd_maintenance school
    \<and> (\<forall>d. request_token (cr_auth req) \<noteq> [] \<and> jwt_verify (cd_jwt D) now (request_token (cr_auth req)) (cd_secret D) None = Inr d
          \<and> \<not> is_super_admin d \<and> cl_schoolId d \<noteq> [] \<longrightarrow> cl_schoolId d = sd_schoolId school)"
  using assms unfolding resolveSchool_def Let_def
  by (auto split: if_splits prod.splits option.splits sum.splits)

text \<open>C12: A request of a school's user is about that school only, where both middlewares verify tokens under one key.
  If the signing key of the token service is the plain secret, every request that passes resolution and
  guard has the school document and the school identifier of its token, and the school is active and not in maintenance.\<close>

theorem request_bound_to_token_school:
  assumes "jwt_laws (gd_jwt G)" and "cd_jwt D = gd_jwt G" and "getSigningKey (gd_jwt G) (gd_env G) = Some (cd_secret D)"
    and "school_chain D G allowed w now jti req cs st = Inr (school, i, d)" and "\<not> is_super_admin d"
  shows "sd_schoolId school = cl_schoolId d \<and> i = cl_schoolId d \<and> cl_schoolId d \<noteq> [] \<and> sd_isActive school \<and> \<not> sd_maintenance school"
proof -
  from assms(4) obtain s where school: "snd (resolveSchool D now jti req cs) = Inr school"
    and next_d: "snd (requireSchoolAuth G allowed w now (cr_auth req) st) = Next d s"
    and i: "i = (case s of None \<Rightarrow> sd_schoolId school | Some j \<Rightarrow> j)"
    by (auto simp: school_chain_def split: sum.splits auth_reply.splits option.splits)
  then have holds: "token_holds G w now (cr_auth req) st d" and scope: "in_scope allowed (cr_auth req) d s"
    using requireSchoolAuth_next [of G allowed w now "cr_auth req" st] by (metis prod.collapse)+
  have "jwt_verify (cd_jwt D) now (request_token (cr_auth req)) (cd_secret D) None = Inr d"
    using holds assms(2,3) jwt_lawsD(5) [OF assms(1)] by (auto simp: token_holds_def verify_token_def)
  with resolved_school [OF school] holds scope assms(5) i show ?thesis
    by (auto simp: token_holds_def in_scope_def super_admin_role)
qed

text \<open>C17: Under the default configuration a header selects another school's document. The token service signs with a key
  derived from the secret, the resolution of the school verifies with the secret itself, so it never sees a
  valid token; a user of one school who names another school in the slug header passes both middlewares, and the
  handlers get the other school's document together with the user's own school identifier.\<close>

theorem slug_header_selects_other_school:
  assumes "jwt_laws (gd_jwt G)" and "cd_jwt D = gd_jwt G"
    and "getSigningKey (gd_jwt G) (gd_env G) = Some key" and "key \<noteq> cd_secret D"
    and "sign_token (gd_jwt G) (gd_env G) t0 payload None sid fresh = Some (rq_cookie (cr_auth req), sid', ttl)"
    and "rq_cookie (cr_auth req) \<noteq> []"
    and "requireSchoolAuth G allowed w now (cr_auth req) st = (st', Next d (Some i))"
    and "rq_schoolHeader (cr_auth req) = []" and "\<not> cr_sseRoute req" and "cr_slugHeader req \<noteq> []"
    and "nc_get (cd_schools D) now (school_key (trim (toLowerCase (cr_slugHeader req)))) (cs_schools cs) = None"
    and "find (\<lambda>s. sd_slug s = trim (toLowerCase (cr_slugHeader req))) (cd_collection D) = Some other"
    and "sd_isActive other" and "\<not> sd_maintenance other"
  shows "school_chain D G allowed w now jti req cs st = Inr (other, i, d)"
proof -
  have token: "rq_cookie (cr_auth req) =
      jwt_sign (gd_jwt G) t0 (payload\<lparr>cl_sid := sid'\<rparr>) key (Some (ISSUER, AUDIENCE)) ttl"
    using assms(3,5) by (auto simp: sign_token_def Let_def)
  have "jwt_verify (cd_jwt D) now (request_token (cr_auth req)) (cd_secret D) None = Inl OtherTokenError"
    using assms(6) jwt_lawsD(4) [OF assms(1,4)] by (simp add: request_token_def or_text_def token assms(2))
  then have "snd (resolveSchool D now jti req cs) = Inr other"
    using assms(8-14) by (simp add: resolveSchool_def find_school_def or_text_def Let_def)
  then show ?thesis using assms(7) by (simp add: school_chain_def)
qed

subsection \<open>Witnesses\<close>

definition sample_school_doc :: "string \<Rightarrow> string \<Rightarrow> school_record" where
  "sample_school_doc i s = \<lparr>sd_schoolId = i, sd_slug = s, sd_isActive = True, sd_maintenance = False\<rparr>"

definition sample_context :: "string \<Rightarrow> (string \<rightharpoonup> school_record \<times> millis, string \<rightharpoonup> int \<times> millis) context_deps" where
  "sample_context secret = \<lparr>cd_schools = sample_cache, cd_marks = sample_cache, cd_jwt = sample_jwt, cd_secret = secret,
     cd_collection = [sample_school_doc ''S'' ''s'', sample_school_doc ''T'' ''t'']\<rparr>"

definition sample_context_request :: "string \<Rightarrow> string \<Rightarrow> context_request" where
  "sample_context_request header slug = \<lparr>cr_auth = (sample_auth_request sample_token)\<lparr>rq_schoolHeader := header\<rparr>,
     cr_slugHeader = slug, cr_sseRoute = False\<rparr>"

definition empty_context :: "(string \<rightharpoonup> school_record \<times> millis, string \<rightharpoonup> int \<times> millis) context_state" where
  "empty_context = \<lparr>cs_schools = Map.empty, cs_marks = Map.empty, cs_audit = []\<rparr>"

lemma sample_signing_key: "getSigningKey sample_jwt sample_auth_env = Some ''derived:k''"
  by (simp add: getSigningKey_def sample_auth_env_def sample_jwt_def)

lemma sample_verified:
  "verify_token sample_jwt sample_auth_env 5000 sample_token = Inr (sample_claims\<lparr>cl_sid := ''sid''\<rparr>)"
  using sign_verify [OF sample_jwt_laws sample_signed, of 5000] by (simp add: unexpired_jwt_def)

lemma sample_request_admitted:
  assumes "header \<in> {[], ''S''}"
  shows "requireSchoolAuth sample_guard [''owner''] no_redis 5000 (cr_auth (sample_context_request header slug)) empty_auth_state
     = (empty_auth_state, Next (sample_claims\<lparr>cl_sid := ''sid''\<rparr>) (Some ''S''))"
  using sample_token_nonempty sample_verified assms unfolding requireSchoolAuth_next
  by (auto simp: token_holds_def in_scope_def sample_guard_def sample_context_request_def sample_auth_request_def
      request_token_def or_text_def ip_blocked_def no_redis_def isSessionRevoked_def cached_flag_def sample_cache_def
      empty_auth_state_def checkSessionRevoked_def sample_claims_def roles_of_def requested_school_def)

lemma sample_slug: "trim (toLowerCase ''t'') = ''t''"
  by code_simp

theorem slug_header_selects_other_school_witness:
  "school_chain (sample_context ''k'') sample_guard [''owner''] no_redis 5000 ''j'' (sample_context_request [] ''t'') empty_context empty_auth_state
     = Inr (sample_school_doc ''T'' ''t'', ''S'', sample_claims\<lparr>cl_sid := ''sid''\<rparr>)"
proof (rule slug_header_selects_other_school [where ?t0.0 = 0 and payload = sample_claims and sid = "''sid''" and fresh = "''x''"
      and sid' = "''sid''" and ttl = 10 and key = "''derived:k''" and st' = empty_auth_state])
  show "jwt_laws (gd_jwt sample_guard)" by (simp add: sample_guard_def sample_jwt_laws)
  show "getSigningKey (gd_jwt sample_guard) (gd_env sample_guard) = Some ''derived:k''"
    by (simp add: sample_guard_def sample_signing_key)
  show "sign_token (gd_jwt sample_guard) (gd_env sample_guard) 0 sample_claims None ''sid'' ''x''
      = Some (rq_cookie (cr_auth (sample_context_request [] ''t'')), ''sid'', 10)"
    using sample_signed by (simp add: sample_guard_def sample_context_request_def sample_auth_request_def)
  show "rq_cookie (cr_auth (sample_context_request [] ''t'')) \<noteq> []"
    by (simp add: sample_context_request_def sample_auth_request_def sample_token_nonempty)
  show "requireSchoolAuth sample_guard [''owner''] no_redis 5000 (cr_auth (sample_context_request [] ''t'')) empty_auth_state
      = (empty_auth_state, Next (sample_claims\<lparr>cl_sid := ''sid''\<rparr>) (Some ''S''))"
    by (rule sample_request_admitted) simp
qed (simp_all add: sample_context_def sample_guard_def sample_context_request_def sample_auth_request_def sample_slug
    sample_cache_def empty_context_def sample_school_doc_def)

theorem request_bound_to_token_school_witness:
  "school_chain (sample_context ''derived:k'') sample_guard [''owner''] no_redis 5000 ''j'' (sample_context_request ''S'' []) empty_context empty_auth_state
     = Inr (sample_school_doc ''S'' ''s'', ''S'', sample_claims\<lparr>cl_sid := ''sid''\<rparr>)
   \<and> sd_schoolId (sample_school_doc ''S'' ''s'') = cl_schoolId (sample_claims\<lparr>cl_sid := ''sid''\<rparr>)"
proof -
  let ?D = "sample_context ''derived:k''"
  let ?req = "sample_context_request ''S'' []"
  have "jwt_verify sample_jwt 5000 sample_token ''derived:k'' None = Inr (sample_claims\<lparr>cl_sid := ''sid''\<rparr>)"
    using sample_verified jwt_lawsD(5) [OF sample_jwt_laws]
    by (simp add: verify_token_def sample_signing_key)
  then have "snd (resolveSchool ?D 5000 ''j'' ?req empty_context) = Inr (sample_school_doc ''S'' ''s'')"
    using sample_token_nonempty
    by (simp add: resolveSchool_def find_school_def or_text_def Let_def sample_context_def sample_context_request_def
        sample_auth_request_def request_token_def sample_cache_def empty_context_def sample_school_doc_def is_super_admin_def sample_claims_def)
  then have chain: "school_chain ?D sample_guard [''owner''] no_redis 5000 ''j'' ?req empty_context empty_auth_state
     = Inr (sample_school_doc ''S'' ''s'', ''S'', sample_claims\<lparr>cl_sid := ''sid''\<rparr>)"
    using sample_request_admitted [of "''S''" "[]"] by (simp add: school_chain_def)
  have "jwt_laws (gd_jwt sample_guard)" "cd_jwt ?D = gd_jwt sample_guard"
      "getSigningKey (gd_jwt sample_guard) (gd_env sample_guard) = Some (cd_secret ?D)"
    by (simp_all add: sample_guard_def sample_jwt_laws sample_context_def sample_signing_key)
  from request_bound_to_token_school [OF this chain] chain show ?thesis by (simp add: is_super_admin_def sample_claims_def)
qed

end
