(* ===== verification/Spec2Isabelle.thy ===== *)
theory Spec2Isabelle
  imports Client_Amount Payment_Admin Horizon_Failover Concurrent_Requests Distributed_Lock Refund Idempotency Poll_Budget Outbox_Dispatcher Retry_Queue Stellar_Memo Dispute Payment_Verification Fee_Engine Webhook_Admin Csv Academic_Period Login School_Context
begin

text \<open>
  Verification of the core of StellarEduPay, a system in JavaScript with which schools collect fees on
  the Stellar network. A backend (Node.js, Express, MongoDB, Redis) watches the ledger through
  Horizon servers, records payments and follows each of them through a lifecycle; a frontend (Next.js)
  lets parents pay and administrators manage payments. Paths below are relative to \<^verbatim>\<open>src/\<close>.

  \<^bold>\<open>Foundations.\<close> \<^verbatim>\<open>Prelude\<close> holds the result type of operations that can fail (\<open>Inl\<close> the error), lists of
  steps (\<open>run\<close>) and generic lemmas. \<^verbatim>\<open>JS_Number\<close> models JavaScript numbers: a finite number is a
  rational, results of operations are rounded to 53 bits with ties to even, out of range values are
  infinities. \<^verbatim>\<open>JS_String\<close> models the string operations the program uses: \<^verbatim>\<open>trim\<close>, \<^verbatim>\<open>toFixed\<close>,
  \<^verbatim>\<open>parseFloat\<close> (on the decimal syntax), the printing and reading of integers. \<^verbatim>\<open>JS_Date\<close> models the
  calendar of \<^verbatim>\<open>Date\<close> with \<^verbatim>\<open>toISOString\<close>, \<^verbatim>\<open>JS_Json\<close> values and \<^verbatim>\<open>JSON.stringify\<close>; both printers are shown
  injective, the second through the locale \<open>element_text\<close> of self-delimiting texts.

  \<^bold>\<open>Amounts.\<close> \<^verbatim>\<open>Stellar_Amount\<close> is \<^verbatim>\<open>backend/src/utils/stellarAmount.js\<close>: conversion between decimal
  strings, numbers and integer stroops. Shown: reading a string rounds half up, writing and reading
  back is the identity, and how far JavaScript numbers are exact. \<^verbatim>\<open>Client_Amount\<close> is the frontend's
  copy with its form validation: it converts like the backend, and an accepted amount is submitted
  exactly as typed.

  \<^bold>\<open>Payment lifecycle.\<close> \<^verbatim>\<open>Payment_Status\<close> holds the statuses and transition tables
  (\<^verbatim>\<open>backend/src/constants/paymentStatus.js\<close>), the confirmation state machine
  (\<^verbatim>\<open>services/paymentConfirmationStateMachine.js\<close>) and the derived fields of \<^verbatim>\<open>models/paymentModel.js\<close>. The
  ledger sequences reported by Horizon are arguments. Shown: any order of observations leads to
  the same state, a state changes at most three times, what each table permits, and where the two
  derivations in the code disagree. \<^verbatim>\<open>Payment_Admin\<close> is the status part of
  \<^verbatim>\<open>controllers/paymentAdminController.js\<close>: single and bulk changes and the suspicion review, over a store
  of payments and an audit log. Shown: a bulk change is a sequence of single changes, and all
  requests keep the derived fields in step.

  \<^bold>\<open>Calls to Horizon.\<close> \<^verbatim>\<open>Circuit_Breaker\<close> has the three circuit breakers of the program
  (\<^verbatim>\<open>utils/circuitBreaker.js\<close>, and those inside \<^verbatim>\<open>services/horizonFailoverClient.js\<close> and
  \<^verbatim>\<open>middleware/concurrentRequestHandler.js\<close>); the locales \<open>breaker\<close> and \<open>strict_breaker\<close> state what they
  have in common, and each of the three is an interpretation. \<^verbatim>\<open>Stellar_Retry\<close> is
  \<^verbatim>\<open>utils/withStellarRetry.js\<close>; the wrapped call is a function of the attempt and the random numbers are a
  list. Shown: the loop ends within its limit, with bounded waits. \<^verbatim>\<open>Horizon_Failover\<close> is the failover
  client; the remote call is a function of endpoint and attempt. Shown: a call is answered whenever
  an available endpoint answers. Its loops are bounded by the number of endpoints, so no fuel is
  needed.

  \<^bold>\<open>Concurrency.\<close> \<^verbatim>\<open>Concurrent_Requests\<close> has the request queue, the deduplicator, the rate limiter and
  the reply cache of \<^verbatim>\<open>middleware/concurrentRequestHandler.js\<close>, with timers and settled promises as
  explicit steps. \<^verbatim>\<open>Distributed_Lock\<close> is \<^verbatim>\<open>services/distributedLock.js\<close>: the in-process fallback, and
  the Redis scripts over a record of Redis commands whose documented laws are hypotheses. The locale
  \<open>lock_service\<close> is the contract of a lock with fencing tokens, with the passage of time as a step, and holds of both. Shown:
  from an acquisition on mutual exclusion until the lock expires or is released, a free lock after that,
  and strictly increasing tokens. \<^verbatim>\<open>Idempotency\<close> is \<^verbatim>\<open>utils/idempotencyKey.js\<close>,
  \<^verbatim>\<open>services/idempotencyStore.js\<close> and \<^verbatim>\<open>middleware/idempotency.js\<close>, over a map for the collection and one
  for the cache; the hash function is a parameter, and so are the rates of currencies that a replay asks for
  again. Shown: a request runs once while its record is kept, its replays differ in the currency field only, and the two ways in which
  the code lets it run twice.

  \<^bold>\<open>Refunds.\<close> \<^verbatim>\<open>Refund\<close> is \<^verbatim>\<open>services/refundService.js\<close>, with the payments, refunds, outbox and emitted
  events as state; whether the lock of a payment was granted is an argument. Shown: one active refund
  per payment, approved by a second person, within the amount, the payment in step with it; and the
  interleavings and inputs for which this is lost.

  \<^bold>\<open>Disputes.\<close> \<^verbatim>\<open>Dispute\<close> is \<^verbatim>\<open>controllers/dispute.controller.js\<close> with \<^verbatim>\<open>models/disputeModel.js\<close> and the sweep of
  overdue disputes. The state holds the disputes, the payments and the balances of \<^verbatim>\<open>Student_Balance\<close>;
  requests, and the two halves of a decision that other requests can come between, are steps. Shown:
  the shape of the disputes over any requests, that a disputed payment is marked as such until its
  dispute is closed, what closing does, and that the sweep alerts a dispute once.

  \<^bold>\<open>Verification of payments.\<close> \<^verbatim>\<open>Stellar_Memo\<close> is \<^verbatim>\<open>utils/stellarMemo.js\<close> of the backend and of the
  frontend, base64 and hexadecimal written out. Shown: what the frontend encodes the backend decodes
  to the same memo. \<^verbatim>\<open>Payment_Verification\<close> is the verification part of \<^verbatim>\<open>services/stellarService.js\<close> and
  the asset checks of \<^verbatim>\<open>config/stellarConfig.js\<close>; Horizon's pages of operations are a list, the amount
  printer of the SDK is a parameter with its documented law. Shown: only operations to the school's
  wallet in the configured asset and within the school's limits are credited, and all of them are; the total and the comparison
  with the fee are exact although they go through floating-point numbers; verification and
  synchronisation read a transaction alike; and that verification without a school, which three
  callers use, cannot succeed.

  \<^bold>\<open>Balances and limits.\<close> \<^verbatim>\<open>Decimal_Lib\<close> states what the program relies on of the decimal library, as a
  record of operations with named laws and an instance over the rationals. \<^verbatim>\<open>Payment_Limits\<close> is
  \<^verbatim>\<open>services/paymentLimitsService.js\<close> and \<^verbatim>\<open>utils/paymentLimits.js\<close>; \<^verbatim>\<open>Student_Balance\<close> is \<^verbatim>\<open>utils/money.js\<close>,
  \<^verbatim>\<open>utils/studentBalanceUpdater.js\<close> and the save hook of \<^verbatim>\<open>models/studentModel.js\<close>. Both are refinements: the
  limits with their cache of a store of documents whose reads can fail, through the locale \<open>refinement\<close> of \<^verbatim>\<open>Prelude\<close>, the
  stored balance of a ledger of integers that is defined without the program's filter. Shown besides: resolved limits are well formed, an amount
  is accepted exactly within them, and the readers of the balance agree.

  \<^bold>\<open>Fees.\<close> \<^verbatim>\<open>Fee_Adjustment\<close> is \<^verbatim>\<open>services/feeAdjustmentService.js\<close> with the controller of the rules; the
  locale \<open>comparison\<close> states what \<^verbatim>\<open>Array.prototype.sort\<close> does under a comparator and is interpreted on
  the program's comparators; names may compare as equal. Shown: the fee does not depend on the order in which rules with
  names that compare as different are stored, discounts stay within their bounds, what each conflict policy selects, and that the dry run
  of a rule predicts what applying it does. \<^verbatim>\<open>Fee_Engine\<close> is \<^verbatim>\<open>services/feeAdjustmentEngine.js\<close> with the fee
  check of the verification that uses it; the locale \<open>isolated\<close> of \<^verbatim>\<open>Prelude\<close> gives the separation of
  schools over any requests.

  \<^bold>\<open>Background work.\<close> \<^verbatim>\<open>Poll_Budget\<close> is \<^verbatim>\<open>services/horizonPollBudget.js\<close> with the part of the poller that spends
  the budget. Shown: the budget is kept, and how long a school can wait. \<^verbatim>\<open>Outbox_Dispatcher\<close> is
  \<^verbatim>\<open>services/outboxDispatcher.js\<close>: claims with leases, deliveries to named listeners, batches and the timer.
  Calls and writes can fail. Shown: a listener whose success was recorded is not called again, and an event settles. \<^verbatim>\<open>Retry_Queue\<close> is
  \<^verbatim>\<open>services/retryService.js\<close> with its error classes. Shown: a queued transaction settles within its limit.

  \<^bold>\<open>Webhooks.\<close> \<^verbatim>\<open>Webhook_Url\<close> is \<^verbatim>\<open>utils/validateWebhookUrl.js\<close>, \<^verbatim>\<open>utils/dnsCache.js\<close> and the check of
  \<^verbatim>\<open>services/webhookService.js\<close> at send time; addresses of version 4 are words of 32 bits. Shown: the ranges
  are the documented blocks, the blocks of version 6 are refused in canonical form, and a cached answer
  is recent. \<^verbatim>\<open>Webhook_Signature\<close> has the signatures, their versions, the rotation of secrets and the
  check of incoming deliveries, over a keyed hash. Shown: which receivers accept a header, that a
  rotation loses no delivery, and that an identifier is accepted once. \<^verbatim>\<open>Webhook_Delivery\<close> is the rest of
  the service: dispatch, single and test deliveries, the retry queue, and what administrators do to deliveries. Its
  locale \<open>hook_parts\<close> lists the parts that the operations are made of, and \<open>hook_relation\<close> extends it by the queuing of
  a delivery again; a relation that holds of the parts holds of the operations, and the safety of requests,
  measured by the reserved blocks of addresses, and the invariant of the queue are interpretations. The
  recovery loop is a function with a termination proof. Shown besides: what a dispatch sends, and the
  exclusion of workers by leases. \<^verbatim>\<open>Webhook_Admin\<close> has the endpoints of schools, the encryption of secrets
  over a cipher with its documented laws, the strength of secrets, and the list of dead letters. Shown: schools
  do not see each other's endpoints, and a secret survives the replacement of the key.

  \<^bold>\<open>Audit log.\<close> \<^verbatim>\<open>Audit_Chain\<close> is \<^verbatim>\<open>services/auditService.js\<close> with its model, its controller and the retention of
  old entries; the keyed hash is a parameter. Shown: over an unbroken chain a change of any entry that the
  verification reads is detected when the hash separates the texts, and where entries can be lost without trace. \<^verbatim>\<open>Csv\<close> is
  \<^verbatim>\<open>utils/csv.js\<close>, read back by a reader of the standard's grammar: no field is lost or split.

  \<^bold>\<open>Academic periods.\<close> \<^verbatim>\<open>Academic_Period\<close> is \<^verbatim>\<open>services/academicPeriodService.js\<close>: the periods of a school, the
  rollover of arrears and the seeding. The locale \<open>bulk_update\<close> states what a list of updates by key
  does, interpreted on the students. Shown: at most one period is current over any sequence of
  requests, a rollover carries every arrear once, exactly in whole units, and the interleavings for which this is lost.

  \<^bold>\<open>Accounts and authentication.\<close> \<^verbatim>\<open>Session_Store\<close> is \<^verbatim>\<open>services/sessionStore.js\<close>, a refinement of two plain maps through
  the locale \<open>refinement\<close>. \<^verbatim>\<open>Auth_Guard\<close> has the guards of \<^verbatim>\<open>middleware/auth.js\<close>, \<^verbatim>\<open>services/tokenService.js\<close> and the
  lockout of \<^verbatim>\<open>controllers/authController.js\<close>; the process cache, the commands of Redis, each of which can
  fail, and the token library are parameters with their documented laws. Shown: exactly which requests
  a guard admits, when an address is blocked, and that a revoked session stays out. \<^verbatim>\<open>User_Accounts\<close> is
  \<^verbatim>\<open>controllers/userController.js\<close>; the locale \<open>school_accounts\<close> lists what the requests of a school and of anonymous
  callers do to the users, \<open>admin_accounts\<close> extends it by those of super administrators, and the shape of
  the accounts, the active owner of a school and the token versions are interpretations. Shown besides:
  owners reach their own school only, and a change of an account revokes its tokens. \<^verbatim>\<open>Mfa\<close> is
  \<^verbatim>\<open>controllers/mfaController.js\<close> over a cipher, a password hash and a check of codes. Shown: secrets and backup
  codes are read back, a code is consumed once, guesses are limited. \<^verbatim>\<open>Login\<close> has the handlers of
  \<^verbatim>\<open>controllers/authController.js\<close> over the methods they expect of a store, with the store of the program as an
  instance. Shown: the defects that make a login fail, its second factor pass and its tokens be
  refused by the guards. \<^verbatim>\<open>School_Context\<close> is \<^verbatim>\<open>middleware/schoolContext.js\<close> and its composition with the guard of schools.
  Shown: when a request is bound to the school of its token, and when it is not.

  \<^bold>\<open>Not modelled.\<close> Remote services, the database engine, cryptography and rendering are parameters or
  left out. Logging, metrics and tracing have no effect on the results and are left out everywhere.
  Parts of the program not yet covered: the synchronisation with Horizon (the sources of the poller
  and of \<^verbatim>\<open>syncPaymentsForSchool\<close> are cut off in the middle of a function), the rate feeds of the currency conversion, the
  administration of schools and students, the parent portal, and most of the user interface.
\<close>

end
